(* ===== verification/Prelude.thy ===== *)
theory Prelude
  imports Main "HOL-Library.Word" "HOL-Library.Monad_Syntax"
begin

text \<open>
  Shared vocabulary of the development: the console every component prints to, the
  panic and assertion macros of \<open>a3/fs/debug.h\<close>, checked access to C arrays, decimal
  numerals as \<open>sprintf\<close> prints them, and little-endian byte images of machine words.

  Conventions used by every theory:
  \<^item> a C function that may write outside an object, read through a null pointer or
    otherwise leave the C standard returns an \<open>option\<close>; \<open>None\<close> is that undefined
    behaviour, and theorems that conclude \<open>Some\<close> show its absence;
  \<^item> state is passed explicitly and returned updated, the printed text is the field
    \<open>console\<close> of the record \<open>world\<close>, which the state records extend;
  \<^item> an assertion of the code prints and goes on, as \<open>debug_panic\<close> does: it never stops
    the program, so a theorem that leaves \<open>console\<close> unchanged shows that no assertion failed.
\<close>

section \<open>Rule collections\<close>

named_theorems c_array "checked array reads and writes inside the bounds"
named_theorems wf_rules "well-formedness of results"
named_theorems spec_rules "functional behaviour of operations inside their contract"

section \<open>Bytes, words and buffers\<close>

type_synonym byte = "8 word"
type_synonym bytes = "8 word list"
type_synonym sector = "32 word"

definition rd :: "'a list \<Rightarrow> nat \<Rightarrow> 'a option" where
  \<comment> \<open>\<open>a[i]\<close> of a C array: defined inside the array only\<close>
  "rd xs i = (if i < length xs then Some (xs ! i) else None)"

definition wr :: "'a list \<Rightarrow> nat \<Rightarrow> 'a \<Rightarrow> 'a list option" where
  \<comment> \<open>\<open>a[i] = v\<close>\<close>
  "wr xs i v = (if i < length xs then Some (xs[i := v]) else None)"

definition blit :: "'a list \<Rightarrow> nat \<Rightarrow> 'a list \<Rightarrow> 'a list option" where
  \<comment> \<open>\<open>memcpy(dst + off, src, length src)\<close>\<close>
  "blit dst off src =
     (if off + length src \<le> length dst
      then Some (take off dst @ src @ drop (off + length src) dst) else None)"

lemma rd_in [c_array, simp]: "i < length xs \<Longrightarrow> rd xs i = Some (xs ! i)"
  by (simp add: rd_def)

lemma wr_in [c_array, simp]: "i < length xs \<Longrightarrow> wr xs i v = Some (xs[i := v])"
  by (simp add: wr_def)

lemma rd_Some: "rd xs i = Some v \<longleftrightarrow> i < length xs \<and> v = xs ! i"
  by (auto simp: rd_def)

lemma wr_Some: "wr xs i v = Some ys \<longleftrightarrow> i < length xs \<and> ys = xs[i := v]"
  by (auto simp: wr_def)

lemma blit_in [c_array]:
  "off + length src \<le> length dst \<Longrightarrow>
   blit dst off src = Some (take off dst @ src @ drop (off + length src) dst)"
  by (simp add: blit_def)

lemma blit_all [simp]: "length src = length dst \<Longrightarrow> blit dst 0 src = Some src"
  by (simp add: blit_def)

lemma length_blit: "blit dst off src = Some r \<Longrightarrow> length r = length dst"
  by (auto simp: blit_def split: if_splits)

section \<open>The console\<close>

record world =
  console :: "string list"   \<comment> \<open>what the program printed, oldest first\<close>

definition printf :: "string \<Rightarrow> 'a world_scheme \<Rightarrow> 'a world_scheme" where
  "printf s w = w\<lparr>console := console w @ [s]\<rparr>"

definition nl :: string where
  "nl = [CHR 0x0A]"

lemma console_printf [simp]: "console (printf s w) = console w @ [s]"
  by (simp add: printf_def)

definition puts :: "string \<Rightarrow> 'a world_scheme \<Rightarrow> 'a world_scheme" where
  \<comment> \<open>\<open>printf("%s\n", s)\<close>\<close>
  "puts s w = printf (s @ nl) w"

lemma console_puts [simp]: "console (puts s w) = console w @ [s @ nl]"
  by (simp add: puts_def)

section \<open>Decimal numerals\<close>

text \<open>\<open>sprintf(buf, "%d", n)\<close>, and the value of a string of digits.\<close>

definition digit :: "nat \<Rightarrow> char" where
  "digit d = char_of (48 + d)"

fun dec :: "nat \<Rightarrow> string" where
  "dec n = (if n < 10 then [digit n] else dec (n div 10) @ [digit (n mod 10)])"

declare dec.simps [simp del]

definition idec :: "int \<Rightarrow> string" where
  "idec i = (if i < 0 then ''-'' @ dec (nat (- i)) else dec (nat i))"

definition undec :: "string \<Rightarrow> nat" where
  "undec s = foldl (\<lambda>n c. 10 * n + (of_char c - 48)) 0 s"

lemma of_char_digit: "d < 10 \<Longrightarrow> (of_char (digit d) :: nat) = 48 + d"
  by (simp add: digit_def)

lemma undec_snoc: "undec (s @ [c]) = 10 * undec s + (of_char c - 48)"
  by (simp add: undec_def)

lemma undec_dec [simp]: "undec (dec n) = n"
proof (induction n rule: dec.induct)
  case (1 n)
  show ?case
  proof (cases "n < 10")
    case True
    then show ?thesis by (simp add: dec.simps [of n] undec_def of_char_digit)
  next
    case False
    with "1.IH" have "undec (dec (n div 10)) = n div 10" by simp
    then show ?thesis
      using False by (simp add: dec.simps [of n] undec_snoc of_char_digit)
  qed
qed

lemma dec_inj [simp]: "dec m = dec n \<longleftrightarrow> m = n"
  by (metis undec_dec)

lemma dec_not_Nil [simp]: "dec n \<noteq> []"
  by (subst dec.simps) simp

lemma hd_dec_digit: "\<exists>d < 10. hd (dec n) = digit d"
proof (induction n rule: dec.induct)
  case (1 n)
  then show ?case
    by (cases "n < 10") (auto simp: dec.simps [of n])
qed

lemma dec_first_char: "48 \<le> (of_char (hd (dec n)) :: nat) \<and> of_char (hd (dec n)) \<le> (57 :: nat)"
proof -
  obtain d where "d < 10" and "hd (dec n) = digit d" using hd_dec_digit by blast
  then show ?thesis by (simp add: of_char_digit)
qed

section \<open>Panics and assertions (a3/fs/debug.c, debug.h)\<close>

definition debug_panic ::
  "string \<Rightarrow> nat \<Rightarrow> string \<Rightarrow> string \<Rightarrow> 'a world_scheme \<Rightarrow> 'a world_scheme" where
  \<comment> \<open>prints file, line, function and the unexpanded message, and returns\<close>
  "debug_panic file line fn message w =
     printf (''Kernel PANIC at '' @ file @ '':'' @ dec line @ '' in '' @ fn @ ''(): ''
             @ message @ '' '') w"

definition ASSERT ::
  "string \<Rightarrow> nat \<Rightarrow> string \<Rightarrow> bool \<Rightarrow> 'a world_scheme \<Rightarrow> 'a world_scheme" where
  "ASSERT file line fn condition w =
     (if condition then w
      else debug_panic file line fn ''assertion `%s' failed.'' w)"

lemma ASSERT_True [simp]: "ASSERT file line fn True w = w"
  by (simp add: ASSERT_def)

lemma ASSERT_holds: "c \<Longrightarrow> ASSERT file line fn c w = w"
  by (simp add: ASSERT_def)

section \<open>Little-endian images of words\<close>

text \<open>The bytes of a machine word in memory order on the little-endian target, and back.\<close>

definition le_bytes :: "nat \<Rightarrow> 'a::len word \<Rightarrow> bytes" where
  "le_bytes n w = map (\<lambda>i. ucast (drop_bit (8 * i) w)) [0..<n]"

fun le_word :: "bytes \<Rightarrow> 'a::len word" where
  "le_word [] = 0"
| "le_word (b # bs) = or (ucast b) (push_bit 8 (le_word bs))"

lemma length_le_bytes [simp]: "length (le_bytes n w) = n"
  by (simp add: le_bytes_def)

lemma le_bytes_Suc: "le_bytes (Suc n) w = ucast w # le_bytes n (drop_bit 8 w)"
  by (simp add: le_bytes_def upt_conv_Cons map_Suc_upt [symmetric] drop_bit_drop_bit add.commute
      del: upt_Suc)

lemma bit_le_word:
  "bit (le_word bs :: 'a::len word) k \<longleftrightarrow>
   k < LENGTH('a) \<and> k div 8 < length bs \<and> bit (bs ! (k div 8)) (k mod 8)"
proof (induction bs arbitrary: k)
  case Nil
  then show ?case by simp
next
  case (Cons b bs)
  show ?case
  proof (cases "k < 8")
    case True
    then show ?thesis by (auto simp: bit_or_iff bit_push_bit_iff bit_unsigned_iff)
  next
    case False
    then obtain j where k: "k = j + 8" by (metis add.commute le_Suc_ex not_less)
    have nb: "\<not> bit b (j + 8)" using bit_imp_le_length [of b "j + 8"] by auto
    have d: "(j + 8) div 8 = Suc (j div 8)" by simp
    show ?thesis
      using Cons.IH [of j] k nb
      by (auto simp: bit_or_iff bit_push_bit_iff bit_unsigned_iff d)
  qed
qed

lemma nth_le_bytes: "i < n \<Longrightarrow> le_bytes n w ! i = ucast (drop_bit (8 * i) w)"
  by (simp add: le_bytes_def)

lemma bit_le_bytes:
  "i < n \<Longrightarrow> bit (le_bytes n w ! i) j \<longleftrightarrow> j < 8 \<and> bit w (8 * i + j)"
  by (simp add: nth_le_bytes bit_unsigned_iff bit_drop_bit_eq)

lemma le_word_le_bytes [simp]:
  "LENGTH('a) \<le> 8 * n \<Longrightarrow> le_word (le_bytes n (w :: 'a::len word)) = w"
proof (rule bit_word_eqI)
  fix k assume n: "LENGTH('a) \<le> 8 * n" and k: "k < LENGTH('a)"
  have "k div 8 < n" using n k by simp
  then show "bit (le_word (le_bytes n w) :: 'a word) k \<longleftrightarrow> bit w k"
    using k by (simp add: bit_le_word bit_le_bytes)
qed

lemma le_bytes_le_word [simp]:
  "8 * length bs = LENGTH('a) \<Longrightarrow> le_bytes (length bs) (le_word bs :: 'a::len word) = bs"
proof (rule nth_equalityI)
  show "length (le_bytes (length bs) (le_word bs :: 'a word)) = length bs" by simp
next
  fix i assume n: "8 * length bs = LENGTH('a)"
    and i: "i < length (le_bytes (length bs) (le_word bs :: 'a word))"
  then have i': "i < length bs" by simp
  show "le_bytes (length bs) (le_word bs :: 'a word) ! i = bs ! i"
  proof (rule bit_word_eqI)
    fix j assume j: "j < LENGTH(8)"
    have "8 * i + j < LENGTH('a)" using i' j n by simp
    then show "bit (le_bytes (length bs) (le_word bs :: 'a word) ! i) j \<longleftrightarrow> bit (bs ! i) j"
      using i' j by (simp add: bit_le_bytes bit_le_word)
  qed
qed

text \<open>Arrays of words: the image of an array is the images of its elements in order.\<close>

definition bytes_of_words :: "nat \<Rightarrow> 'a::len word list \<Rightarrow> bytes" where
  "bytes_of_words n ws = concat (map (le_bytes n) ws)"

fun chunks :: "nat \<Rightarrow> nat \<Rightarrow> 'a list \<Rightarrow> 'a list list" where
  "chunks n 0 xs = []"
| "chunks n (Suc k) xs = take n xs # chunks n k (drop n xs)"

definition words_of_bytes :: "nat \<Rightarrow> nat \<Rightarrow> bytes \<Rightarrow> 'a::len word list" where
  \<comment> \<open>\<open>k\<close> words of \<open>n\<close> bytes each\<close>
  "words_of_bytes n k bs = map le_word (chunks n k bs)"

lemma length_chunks [simp]: "length (chunks n k xs) = k"
  by (induction k arbitrary: xs) auto

lemma length_words_of_bytes [simp]: "length (words_of_bytes n k bs) = k"
  by (simp add: words_of_bytes_def)

lemma length_bytes_of_words [simp]: "length (bytes_of_words n ws) = n * length ws"
  by (induction ws) (simp_all add: bytes_of_words_def)

lemma chunks_concat:
  "\<forall>x \<in> set xss. length x = n \<Longrightarrow> chunks n (length xss) (concat xss @ ys) = xss"
  by (induction xss) auto

lemma words_of_bytes_of_words:
  "LENGTH('a) \<le> 8 * n \<Longrightarrow>
   words_of_bytes n (length ws) (bytes_of_words n (ws :: 'a::len word list) @ ys) = ws"
  using chunks_concat [of "map (le_bytes n) ws" n ys]
  by (simp add: words_of_bytes_def bytes_of_words_def comp_def)

lemma concat_chunks: "length xs = n * k \<Longrightarrow> concat (chunks n k xs) = xs"
  by (induction k arbitrary: xs) auto

lemma chunk_length: "length xs = n * k \<Longrightarrow> x \<in> set (chunks n k xs) \<Longrightarrow> length x = n"
  by (induction k arbitrary: xs) (auto, metis length_drop diff_add_inverse)

lemma bytes_of_words_of_bytes:
  assumes "length bs = n * k" and "8 * n = LENGTH('a)"
  shows "bytes_of_words n (words_of_bytes n k bs :: 'a::len word list) = bs"
proof -
  have "map (\<lambda>c. le_bytes n (le_word c :: 'a word)) (chunks n k bs) = chunks n k bs"
  proof (rule map_idI)
    fix c assume "c \<in> set (chunks n k bs)"
    then have "length c = n" by (rule chunk_length [OF assms(1)])
    then show "le_bytes n (le_word c :: 'a word) = c"
      using assms(2) le_bytes_le_word [where 'a = 'a, of c] by metis
  qed
  then show ?thesis
    by (simp only: bytes_of_words_def words_of_bytes_def list.map_comp comp_def
        concat_chunks [OF assms(1)])
qed

section \<open>Lists\<close>

lemma take_update_append:
  "i < length xs \<Longrightarrow> xs[i := v] = take i xs @ v # drop (Suc i) xs"
  by (simp add: upd_conv_take_nth_drop)

lemma find_Some_nth:
  "List.find P xs = Some x \<Longrightarrow> \<exists>i < length xs. xs ! i = x \<and> P x \<and> (\<forall>j < i. \<not> P (xs ! j))"
  by (auto simp: find_Some_iff)

end
