(* ===== verification/Bit_Vector.thy ===== *)
theory Bit_Vector
  imports Prelude
begin

text \<open>
  The abstract bit vector that an allocation bitmap implements: filling a range, the first
  run of equal bits, and the interface \<open>bit_vector\<close> that the free map of the file system
  relies on, with the facts about allocating and releasing that follow from it alone.
\<close>

section \<open>Ranges of a list of bits\<close>

definition fill :: "bool list \<Rightarrow> nat \<Rightarrow> nat \<Rightarrow> bool \<Rightarrow> bool list" where
  \<comment> \<open>the list with \<open>n\<close> entries from \<open>j\<close> on set to \<open>v\<close>\<close>
  "fill xs j n v = map (\<lambda>i. if j \<le> i \<and> i < j + n then v else xs ! i) [0..<length xs]"

lemma length_fill [simp]: "length (fill xs j n v) = length xs"
  by (simp add: fill_def)

lemma nth_fill: "i < length xs \<Longrightarrow> fill xs j n v ! i = (if j \<le> i \<and> i < j + n then v else xs ! i)"
  by (simp add: fill_def)

lemma fill_0 [simp]: "fill xs j 0 v = xs"
  by (rule nth_equalityI) (auto simp: nth_fill)

lemma fill_Suc: "j < length xs \<Longrightarrow> fill (xs[j := v]) (Suc j) n v = fill xs j (Suc n) v"
  by (rule nth_equalityI) (auto simp: nth_fill nth_list_update)

definition run_at :: "bool list \<Rightarrow> nat \<Rightarrow> nat \<Rightarrow> bool \<Rightarrow> bool" where
  \<comment> \<open>\<open>cnt\<close> consecutive entries equal to \<open>v\<close> start at \<open>i\<close>\<close>
  "run_at xs i cnt v \<longleftrightarrow> i + cnt \<le> length xs \<and> (\<forall>k \<in> {i..<i + cnt}. xs ! k = v)"

definition first_run :: "bool list \<Rightarrow> nat \<Rightarrow> nat \<Rightarrow> bool \<Rightarrow> nat option" where
  "first_run xs start cnt v = List.find (\<lambda>i. run_at xs i cnt v) [start..<Suc (length xs) - cnt]"

lemma first_run_Some:
  assumes "first_run xs start cnt v = Some k"
  shows "start \<le> k" and "run_at xs k cnt v" and "\<And>j. start \<le> j \<Longrightarrow> j < k \<Longrightarrow> \<not> run_at xs j cnt v"
proof -
  obtain i where i: "i < length [start..<Suc (length xs) - cnt]"
      "[start..<Suc (length xs) - cnt] ! i = k" "run_at xs k cnt v"
      "\<forall>j < i. \<not> run_at xs ([start..<Suc (length xs) - cnt] ! j) cnt v"
    using find_Some_nth [OF assms [unfolded first_run_def]] by blast
  then have k: "k = start + i" by simp
  then show "start \<le> k" and "run_at xs k cnt v" using i by simp_all
  fix j assume "start \<le> j" and "j < k"
  then have "j - start < i" and "j = [start..<Suc (length xs) - cnt] ! (j - start)"
    using k i(1) by auto
  then show "\<not> run_at xs j cnt v" using i(4) by metis
qed

lemma first_run_None:
  assumes "first_run xs start cnt v = None" and "start \<le> j"
  shows "\<not> run_at xs j cnt v"
proof
  assume r: "run_at xs j cnt v"
  then have "j \<in> set [start..<Suc (length xs) - cnt]"
    using assms(2) by (auto simp: run_at_def)
  then show False
    using assms(1) r by (auto simp: first_run_def find_None_iff)
qed

lemma first_run_bound: "first_run xs start cnt v = Some k \<Longrightarrow> k + cnt \<le> length xs"
  using first_run_Some(2) by (auto simp: run_at_def)

lemma run_at_fill: "i + n \<le> length xs \<Longrightarrow> run_at (fill xs i n v) i n v"
  by (auto simp: run_at_def nth_fill)

lemma fill_fill_run: "run_at xs i n v \<Longrightarrow> fill (fill xs i n (\<not> v)) i n v = xs"
  by (rule nth_equalityI) (auto simp: nth_fill run_at_def)

definition count_bits :: "bool \<Rightarrow> bool list \<Rightarrow> nat" where
  "count_bits v xs = length (filter (\<lambda>i. xs ! i = v) [0..<length xs])"

lemma count_bits_card: "count_bits v xs = card {i. i < length xs \<and> xs ! i = v}"
proof -
  have "set (filter (\<lambda>i. xs ! i = v) [0..<length xs]) = {i. i < length xs \<and> xs ! i = v}"
    by auto
  moreover have "distinct (filter (\<lambda>i. xs ! i = v) [0..<length xs])" by simp
  ultimately show ?thesis by (metis count_bits_def distinct_card)
qed

text \<open>Taking a run of \<open>v\<close> lowers the number of \<open>v\<close> by the length of the run.\<close>

lemma count_bits_take_run:
  assumes "run_at xs i n v"
  shows "count_bits v xs = count_bits v (fill xs i n (\<not> v)) + n"
proof -
  let ?old = "{k. k < length xs \<and> xs ! k = v}"
  let ?new = "{k. k < length xs \<and> fill xs i n (\<not> v) ! k = v}"
  have u: "?old = ?new \<union> {i..<i + n}" and d: "?new \<inter> {i..<i + n} = {}"
    using assms by (auto simp: nth_fill run_at_def split: if_splits)
  have "card ?old = card ?new + card {i..<i + n}"
    by (subst u, rule card_Un_disjoint [OF _ _ d]) simp_all
  then show ?thesis by (simp add: count_bits_card)
qed

section \<open>The interface\<close>

text \<open>
  \<open>vec\<close> is the abstract value. The laws hold for vectors that satisfy \<open>wf\<close>; each
  operation returns the client's state \<open>s\<close> unchanged, which is where a failed assertion
  would show. \<open>limit\<close> is the value \<open>scan_flip\<close> returns when it finds nothing.
\<close>

locale bit_vector =
  fixes vec :: "'b \<Rightarrow> bool list"
    and wf :: "'b \<Rightarrow> bool"
    and limit :: nat
    and test :: "'b \<Rightarrow> nat \<Rightarrow> 's \<Rightarrow> (bool \<times> 's) option"
    and set_multiple :: "'b \<Rightarrow> nat \<Rightarrow> nat \<Rightarrow> bool \<Rightarrow> 's \<Rightarrow> ('b \<times> 's) option"
    and count :: "'b \<Rightarrow> nat \<Rightarrow> nat \<Rightarrow> bool \<Rightarrow> 's \<Rightarrow> (nat \<times> 's) option"
    and scan_flip :: "'b \<Rightarrow> nat \<Rightarrow> nat \<Rightarrow> bool \<Rightarrow> 's \<Rightarrow> ((nat \<times> 'b) \<times> 's) option"
  assumes test_law: "wf b \<Longrightarrow> i < length (vec b) \<Longrightarrow> test b i s = Some (vec b ! i, s)"
    and set_law: "wf b \<Longrightarrow> i + n \<le> length (vec b) \<Longrightarrow>
      \<exists>b'. set_multiple b i n v s = Some (b', s) \<and> wf b' \<and> vec b' = fill (vec b) i n v"
    and count_law: "wf b \<Longrightarrow>
      count b 0 (length (vec b)) v s = Some (count_bits v (vec b), s)"
    and scan_found_law: "wf b \<Longrightarrow> i \<le> length (vec b) \<Longrightarrow> length (vec b) < limit \<Longrightarrow>
      first_run (vec b) i n v = Some k \<Longrightarrow>
      \<exists>b'. scan_flip b i n v s = Some ((k, b'), s) \<and> wf b' \<and> vec b' = fill (vec b) k n (\<not> v)"
    and scan_none_law: "wf b \<Longrightarrow> i \<le> length (vec b) \<Longrightarrow> first_run (vec b) i n v = None \<Longrightarrow>
      scan_flip b i n v s = Some ((limit, b), s)"
begin

text \<open>A successful allocation: the run was free, is now taken, and nothing else changed.\<close>

lemma scan_flip_success:
  assumes "wf b" and "i \<le> length (vec b)" and "length (vec b) < limit"
    and "scan_flip b i n v s = Some ((k, b'), s')" and "k \<noteq> limit"
  shows "wf b' \<and> s' = s \<and> i \<le> k \<and> run_at (vec b) k n v \<and> vec b' = fill (vec b) k n (\<not> v) \<and>
         (\<forall>j. i \<le> j \<and> j < k \<longrightarrow> \<not> run_at (vec b) j n v)"
proof (cases "first_run (vec b) i n v")
  case None
  then show ?thesis using scan_none_law [OF assms(1,2) None, of s] assms(4,5) by simp
next
  case (Some m)
  then show ?thesis
    using scan_found_law [OF assms(1-3) Some, of s] assms(4) first_run_Some [OF Some] by auto
qed

lemma scan_flip_failure:
  assumes "wf b" and "i \<le> length (vec b)" and "length (vec b) < limit"
    and "scan_flip b i n v s = Some ((limit, b'), s')"
  shows "b' = b \<and> s' = s \<and> (\<forall>j \<ge> i. \<not> run_at (vec b) j n v)"
proof (cases "first_run (vec b) i n v")
  case None
  then show ?thesis
    using scan_none_law [OF assms(1,2) None, of s] assms(4) first_run_None [OF None] by auto
next
  case (Some m)
  then have "m < limit" using assms(3) first_run_bound [OF Some] by simp
  then show ?thesis using scan_found_law [OF assms(1-3) Some, of s] assms(4) by auto
qed

text \<open>Releasing what was just allocated restores the vector.\<close>

lemma alloc_release:
  assumes "wf b" and "i \<le> length (vec b)" and "length (vec b) < limit"
    and "scan_flip b i n v s = Some ((k, b'), s')" and "k \<noteq> limit"
  shows "\<exists>b''. set_multiple b' k n v s' = Some (b'', s) \<and> wf b'' \<and> vec b'' = vec b"
proof -
  have a: "wf b'" "s' = s" "run_at (vec b) k n v" "vec b' = fill (vec b) k n (\<not> v)"
    using scan_flip_success [OF assms] by blast+
  then have "k + n \<le> length (vec b')" by (simp add: run_at_def)
  from set_law [OF a(1) this, of v s] show ?thesis
    using a by (auto simp: fill_fill_run)
qed

text \<open>Allocation lowers the count of free entries by exactly the size of the run.\<close>

lemma alloc_count:
  assumes "wf b" and "i \<le> length (vec b)" and "length (vec b) < limit"
    and "scan_flip b i n v s = Some ((k, b'), s')" and "k \<noteq> limit"
  shows "\<exists>c. count b 0 (length (vec b)) v s = Some (c + n, s) \<and>
             count b' 0 (length (vec b')) v s' = Some (c, s')"
proof -
  have a: "wf b'" "run_at (vec b) k n v" "vec b' = fill (vec b) k n (\<not> v)"
    using scan_flip_success [OF assms] by blast+
  show ?thesis
    using count_law [OF assms(1), of v s] count_law [OF a(1), of v s']
    by (simp add: count_bits_take_run [OF a(2)] a(3))
qed

end

end
