(* ===== verification/Bitmap.thy ===== *)
theory Bitmap
  imports Prelude Bit_Vector
begin

unbundle bit_operations_syntax

text \<open>
  The bitmap of \<open>a3/fs/bitmap.c\<close>: an array of 64-bit elements read as an array of bits.
  The operations are translated one by one; sizes and bit numbers (\<open>size_t\<close>) are naturals,
  elements are 64-bit words. The abstract value of a bitmap is its list of bits
  (\<open>bits_of\<close>), and each operation is shown to act on that list, without a failed
  assertion and without an access outside the element array, when its arguments are in range.
  The interface the free map relies on is the locale \<open>bit_vector\<close>.
\<close>

section \<open>Data and bit arithmetic\<close>

record bitmap =
  bit_cnt :: nat            \<comment> \<open>number of bits\<close>
  bits :: "64 word list"    \<comment> \<open>elements that represent bits\<close>

definition ELEM_BITS :: nat where "ELEM_BITS = 64"

definition elem_idx :: "nat \<Rightarrow> nat" where
  "elem_idx bit_idx = bit_idx div ELEM_BITS"

definition bit_mask :: "nat \<Rightarrow> 64 word" where
  "bit_mask bit_idx = push_bit (bit_idx mod ELEM_BITS) 1"

definition DIV_ROUND_UP :: "nat \<Rightarrow> nat \<Rightarrow> nat" where
  "DIV_ROUND_UP x step = (x + step - 1) div step"

definition elem_cnt :: "nat \<Rightarrow> nat" where
  "elem_cnt n = DIV_ROUND_UP n ELEM_BITS"

definition byte_cnt :: "nat \<Rightarrow> nat" where
  "byte_cnt n = 8 * elem_cnt n"

definition last_mask :: "bitmap \<Rightarrow> 64 word" where
  "last_mask b =
     (let last_bits = bit_cnt b mod ELEM_BITS
      in if last_bits \<noteq> 0 then push_bit last_bits 1 - 1 else - 1)"

abbreviation bitmap_assert :: "nat \<Rightarrow> string \<Rightarrow> bool \<Rightarrow> 'a world_scheme \<Rightarrow> 'a world_scheme" where
  "bitmap_assert \<equiv> ASSERT ''fs/bitmap.c''"

section \<open>Single bits\<close>

definition bitmap_size :: "bitmap \<Rightarrow> nat" where
  "bitmap_size b = bit_cnt b"

definition bitmap_mark :: "bitmap \<Rightarrow> nat \<Rightarrow> bitmap option" where
  "bitmap_mark b bit_idx = do {
     e \<leftarrow> rd (bits b) (elem_idx bit_idx);
     es \<leftarrow> wr (bits b) (elem_idx bit_idx) (e OR bit_mask bit_idx);
     Some (b\<lparr>bits := es\<rparr>)
   }"

definition bitmap_reset :: "bitmap \<Rightarrow> nat \<Rightarrow> bitmap option" where
  "bitmap_reset b bit_idx = do {
     e \<leftarrow> rd (bits b) (elem_idx bit_idx);
     es \<leftarrow> wr (bits b) (elem_idx bit_idx) (e AND NOT (bit_mask bit_idx));
     Some (b\<lparr>bits := es\<rparr>)
   }"

definition bitmap_flip :: "bitmap \<Rightarrow> nat \<Rightarrow> bitmap option" where
  "bitmap_flip b bit_idx = do {
     e \<leftarrow> rd (bits b) (elem_idx bit_idx);
     es \<leftarrow> wr (bits b) (elem_idx bit_idx) (e XOR bit_mask bit_idx);
     Some (b\<lparr>bits := es\<rparr>)
   }"

definition bitmap_set ::
  "bitmap \<Rightarrow> nat \<Rightarrow> bool \<Rightarrow> 'a world_scheme \<Rightarrow> (bitmap \<times> 'a world_scheme) option" where
  "bitmap_set b idx v w = do {
     let w = bitmap_assert 135 ''bitmap_set'' (idx < bit_cnt b) w;
     b \<leftarrow> (if v then bitmap_mark b idx else bitmap_reset b idx);
     Some (b, w)
   }"

definition bitmap_test ::
  "bitmap \<Rightarrow> nat \<Rightarrow> 'a world_scheme \<Rightarrow> (bool \<times> 'a world_scheme) option" where
  "bitmap_test b idx w = do {
     let w = bitmap_assert 171 ''bitmap_test'' (idx < bit_cnt b) w;
     e \<leftarrow> rd (bits b) (elem_idx idx);
     Some (e AND bit_mask idx \<noteq> 0, w)
   }"

section \<open>Ranges of bits\<close>

text \<open>The \<open>for\<close> loops run from bit \<open>j\<close> over the remaining \<open>n\<close> bits.\<close>

fun set_range ::
  "bitmap \<Rightarrow> nat \<Rightarrow> nat \<Rightarrow> bool \<Rightarrow> 'a world_scheme \<Rightarrow> (bitmap \<times> 'a world_scheme) option" where
  "set_range b j 0 v w = Some (b, w)"
| "set_range b j (Suc n) v w = do {
     (b, w) \<leftarrow> bitmap_set b j v w;
     set_range b (Suc j) n v w
   }"

definition bitmap_set_multiple ::
  "bitmap \<Rightarrow> nat \<Rightarrow> nat \<Rightarrow> bool \<Rightarrow> 'a world_scheme \<Rightarrow> (bitmap \<times> 'a world_scheme) option" where
  "bitmap_set_multiple b start cnt v w = do {
     let w = bitmap_assert 190 ''bitmap_set_multiple'' (start \<le> bit_cnt b) w;
     let w = bitmap_assert 191 ''bitmap_set_multiple'' (start + cnt \<le> bit_cnt b) w;
     set_range b start cnt v w
   }"

definition bitmap_set_all ::
  "bitmap \<Rightarrow> bool \<Rightarrow> 'a world_scheme \<Rightarrow> (bitmap \<times> 'a world_scheme) option" where
  "bitmap_set_all b v w = bitmap_set_multiple b 0 (bitmap_size b) v w"

fun count_range ::
  "bitmap \<Rightarrow> nat \<Rightarrow> nat \<Rightarrow> bool \<Rightarrow> nat \<Rightarrow> 'a world_scheme \<Rightarrow> (nat \<times> 'a world_scheme) option" where
  "count_range b j 0 v value_cnt w = Some (value_cnt, w)"
| "count_range b j (Suc n) v value_cnt w = do {
     (t, w) \<leftarrow> bitmap_test b j w;
     count_range b (Suc j) n v (if t = v then Suc value_cnt else value_cnt) w
   }"

definition bitmap_count ::
  "bitmap \<Rightarrow> nat \<Rightarrow> nat \<Rightarrow> bool \<Rightarrow> 'a world_scheme \<Rightarrow> (nat \<times> 'a world_scheme) option" where
  "bitmap_count b start cnt v w = do {
     let w = bitmap_assert 204 ''bitmap_count'' (start \<le> bit_cnt b) w;
     let w = bitmap_assert 205 ''bitmap_count'' (start + cnt \<le> bit_cnt b) w;
     count_range b start cnt v 0 w
   }"

fun contains_range ::
  "bitmap \<Rightarrow> nat \<Rightarrow> nat \<Rightarrow> bool \<Rightarrow> 'a world_scheme \<Rightarrow> (bool \<times> 'a world_scheme) option" where
  "contains_range b j 0 v w = Some (False, w)"
| "contains_range b j (Suc n) v w = do {
     (t, w) \<leftarrow> bitmap_test b j w;
     if t = v then Some (True, w) else contains_range b (Suc j) n v w
   }"

definition bitmap_contains ::
  "bitmap \<Rightarrow> nat \<Rightarrow> nat \<Rightarrow> bool \<Rightarrow> 'a world_scheme \<Rightarrow> (bool \<times> 'a world_scheme) option" where
  "bitmap_contains b start cnt v w = do {
     let w = bitmap_assert 221 ''bitmap_contains'' (start \<le> bit_cnt b) w;
     let w = bitmap_assert 222 ''bitmap_contains'' (start + cnt \<le> bit_cnt b) w;
     contains_range b start cnt v w
   }"

definition bitmap_any ::
  "bitmap \<Rightarrow> nat \<Rightarrow> nat \<Rightarrow> 'a world_scheme \<Rightarrow> (bool \<times> 'a world_scheme) option" where
  "bitmap_any b start cnt w = bitmap_contains b start cnt True w"

definition bitmap_none ::
  "bitmap \<Rightarrow> nat \<Rightarrow> nat \<Rightarrow> 'a world_scheme \<Rightarrow> (bool \<times> 'a world_scheme) option" where
  "bitmap_none b start cnt w = do {
     (r, w) \<leftarrow> bitmap_contains b start cnt True w;
     Some (\<not> r, w)
   }"

definition bitmap_all ::
  "bitmap \<Rightarrow> nat \<Rightarrow> nat \<Rightarrow> 'a world_scheme \<Rightarrow> (bool \<times> 'a world_scheme) option" where
  "bitmap_all b start cnt w = do {
     (r, w) \<leftarrow> bitmap_contains b start cnt False w;
     Some (\<not> r, w)
   }"

section \<open>Finding bits\<close>

definition BITMAP_ERROR :: nat where
  "BITMAP_ERROR = 4294967295"

fun scan_range ::
  "bitmap \<Rightarrow> nat \<Rightarrow> nat \<Rightarrow> nat \<Rightarrow> bool \<Rightarrow> 'a world_scheme \<Rightarrow> (nat \<times> 'a world_scheme) option" where
  "scan_range b i 0 cnt v w = Some (BITMAP_ERROR, w)"
| "scan_range b i (Suc n) cnt v w = do {
     (c, w) \<leftarrow> bitmap_contains b i cnt (\<not> v) w;
     if \<not> c then Some (i, w) else scan_range b (Suc i) n cnt v w
   }"

definition bitmap_scan ::
  "bitmap \<Rightarrow> nat \<Rightarrow> nat \<Rightarrow> bool \<Rightarrow> 'a world_scheme \<Rightarrow> (nat \<times> 'a world_scheme) option" where
  "bitmap_scan b start cnt v w = do {
     let w = bitmap_assert 256 ''bitmap_scan'' (start \<le> bit_cnt b) w;
     if cnt \<le> bit_cnt b
     then (let last = bit_cnt b - cnt in scan_range b start (Suc last - start) cnt v w)
     else Some (BITMAP_ERROR, w)
   }"

definition bitmap_scan_and_flip ::
  "bitmap \<Rightarrow> nat \<Rightarrow> nat \<Rightarrow> bool \<Rightarrow> 'a world_scheme \<Rightarrow> ((nat \<times> bitmap) \<times> 'a world_scheme) option" where
  "bitmap_scan_and_flip b start cnt v w = do {
     (idx, w) \<leftarrow> bitmap_scan b start cnt v w;
     if idx \<noteq> BITMAP_ERROR
     then do { (b, w) \<leftarrow> bitmap_set_multiple b idx cnt (\<not> v) w; Some ((idx, b), w) }
     else Some ((idx, b), w)
   }"

section \<open>Creation\<close>

definition bitmap_create ::
  "bool \<Rightarrow> bool \<Rightarrow> nat \<Rightarrow> 'a world_scheme \<Rightarrow> (bitmap option \<times> 'a world_scheme) option" where
  \<comment> \<open>\<open>got_b\<close>, \<open>got_bits\<close>: whether the two calls of \<open>malloc\<close> return memory\<close>
  "bitmap_create got_b got_bits n w =
     (if got_b then
        (if got_bits \<or> n = 0 then do {
           (b, w) \<leftarrow> bitmap_set_all \<lparr>bit_cnt = n, bits = replicate (elem_cnt n) 0\<rparr> False w;
           Some (Some b, w)
         } else Some (None, w))
      else Some (None, w))"

definition bitmap_buf_size :: "nat \<Rightarrow> nat" where
  \<comment> \<open>\<open>sizeof(struct bitmap)\<close> is 16\<close>
  "bitmap_buf_size n = 16 + byte_cnt n"

definition bitmap_create_in_buf ::
  "nat \<Rightarrow> 64 word list \<Rightarrow> nat \<Rightarrow> 'a world_scheme \<Rightarrow> (bitmap \<times> 'a world_scheme) option" where
  \<comment> \<open>\<open>block\<close>: the elements the buffer holds behind the header\<close>
  "bitmap_create_in_buf n block block_size w = do {
     let w = bitmap_assert 86 ''bitmap_create_in_buf'' (bitmap_buf_size n \<le> block_size) w;
     bitmap_set_all \<lparr>bit_cnt = n, bits = block\<rparr> False w
   }"

definition bitmap_create_from_buf ::
  "nat \<Rightarrow> bytes \<Rightarrow> 'a world_scheme \<Rightarrow> (bitmap \<times> 'a world_scheme) option" where
  \<comment> \<open>with memory available; \<open>memcpy\<close> reads \<open>byte_cnt n\<close> bytes of \<open>buf\<close>\<close>
  "bitmap_create_from_buf n buf w = do {
     (ob, w) \<leftarrow> bitmap_create True True n w;
     b \<leftarrow> ob;
     if byte_cnt n \<le> length buf
     then Some (b\<lparr>bits := words_of_bytes 8 (elem_cnt n) (take (byte_cnt n) buf)\<rparr>, w)
     else None
   }"

definition bitmap_file_size :: "bitmap \<Rightarrow> nat" where
  "bitmap_file_size b = byte_cnt (bit_cnt b)"

section \<open>The bits of a bitmap\<close>

definition wf_bitmap :: "bitmap \<Rightarrow> bool" where
  "wf_bitmap b \<longleftrightarrow> length (bits b) = elem_cnt (bit_cnt b)"

definition bit_at :: "64 word list \<Rightarrow> nat \<Rightarrow> bool" where
  "bit_at es i \<longleftrightarrow> bit (es ! (i div 64)) (i mod 64)"

definition bits_of :: "bitmap \<Rightarrow> bool list" where
  "bits_of b = map (bit_at (bits b)) [0..<bit_cnt b]"

lemma length_bits_of [simp]: "length (bits_of b) = bit_cnt b"
  by (simp add: bits_of_def)

lemma nth_bits_of [simp]: "i < bit_cnt b \<Longrightarrow> bits_of b ! i \<longleftrightarrow> bit_at (bits b) i"
  by (simp add: bits_of_def)

lemma elem_idx_in:
  assumes "wf_bitmap b" and "i < bit_cnt b"
  shows "i div 64 < length (bits b)"
proof -
  have "i div 64 < (bit_cnt b + 63) div 64" using assms(2) by linarith
  then show ?thesis
    using assms(1) by (simp add: wf_bitmap_def elem_cnt_def DIV_ROUND_UP_def ELEM_BITS_def)
qed

lemma bit_bit_mask: "bit (bit_mask i) k \<longleftrightarrow> k = i mod 64"
proof -
  have "bit (2 ^ (i mod 64) :: 64 word) k \<longleftrightarrow> k = i mod 64"
    by (auto simp: bit_exp_iff possible_bit_def)
  then show ?thesis by (simp add: bit_mask_def ELEM_BITS_def)
qed

lemma test_mask: "e AND bit_mask i \<noteq> 0 \<longleftrightarrow> bit e (i mod 64)"
proof
  assume "e AND bit_mask i \<noteq> 0"
  then obtain k where "bit (e AND bit_mask i) k" by (auto simp: bit_eq_iff)
  then show "bit e (i mod 64)" by (auto simp: bit_and_iff bit_bit_mask)
next
  assume "bit e (i mod 64)"
  then have "bit (e AND bit_mask i) (i mod 64)" by (simp add: bit_and_iff bit_bit_mask)
  then show "e AND bit_mask i \<noteq> 0" by (metis bit_0_eq bot_apply bot_bool_def)
qed

text \<open>Updating one element with the mask changes exactly one bit.\<close>

lemma bit_at_update:
  assumes "wf_bitmap b" and "i < bit_cnt b" and "j < bit_cnt b"
    and "\<And>k. k < 64 \<Longrightarrow> bit e k \<longleftrightarrow> (if k = i mod 64 then v else bit (bits b ! (i div 64)) k)"
  shows "bit_at ((bits b)[i div 64 := e]) j \<longleftrightarrow> (if j = i then v else bit_at (bits b) j)"
proof -
  have j: "j div 64 < length (bits b)" and i: "i div 64 < length (bits b)"
    using assms elem_idx_in by blast+
  have eq: "j = i \<longleftrightarrow> j div 64 = i div 64 \<and> j mod 64 = i mod 64"
    by (metis div_mult_mod_eq)
  have e: "bit e (j mod 64) \<longleftrightarrow>
      (if j mod 64 = i mod 64 then v else bit (bits b ! (i div 64)) (j mod 64))"
    by (rule assms(4)) simp
  show ?thesis
  proof (cases "j div 64 = i div 64")
    case True
    then show ?thesis using i by (simp add: bit_at_def e eq)
  next
    case False
    then have "j \<noteq> i" and "i div 64 \<noteq> j div 64" by auto
    then show ?thesis by (simp add: bit_at_def)
  qed
qed

lemma bits_of_update:
  assumes "wf_bitmap b" and "i < bit_cnt b"
    and "\<And>k. k < 64 \<Longrightarrow> bit e k \<longleftrightarrow> (if k = i mod 64 then v else bit (bits b ! (i div 64)) k)"
  shows "bits_of (b\<lparr>bits := (bits b)[i div 64 := e]\<rparr>) = (bits_of b)[i := v]"
proof (rule nth_equalityI)
  show "length (bits_of (b\<lparr>bits := (bits b)[i div 64 := e]\<rparr>)) = length ((bits_of b)[i := v])"
    by simp
next
  fix j assume "j < length (bits_of (b\<lparr>bits := (bits b)[i div 64 := e]\<rparr>))"
  then have j: "j < bit_cnt b" by simp
  then have "bits_of (b\<lparr>bits := (bits b)[i div 64 := e]\<rparr>) ! j
      \<longleftrightarrow> bit_at ((bits b)[i div 64 := e]) j" by simp
  also have "\<dots> \<longleftrightarrow> (if j = i then v else bit_at (bits b) j)"
    by (rule bit_at_update [OF assms(1,2) j assms(3)])
  also have "\<dots> \<longleftrightarrow> (bits_of b)[i := v] ! j"
    using j assms(2) by (simp add: nth_list_update)
  finally show "bits_of (b\<lparr>bits := (bits b)[i div 64 := e]\<rparr>) ! j \<longleftrightarrow> (bits_of b)[i := v] ! j" .
qed

lemma wf_bitmap_update [simp]: "wf_bitmap (b\<lparr>bits := (bits b)[k := e]\<rparr>) = wf_bitmap b"
  by (simp add: wf_bitmap_def)

section \<open>Operations inside their contract\<close>

lemma bitmap_test_spec [spec_rules]:
  "wf_bitmap b \<Longrightarrow> i < bit_cnt b \<Longrightarrow> bitmap_test b i w = Some (bits_of b ! i, w)"
  using elem_idx_in [of b i]
  by (simp add: bitmap_test_def elem_idx_def ELEM_BITS_def test_mask bit_at_def)

text \<open>The three single-bit writers share one argument: their element differs in one bit.\<close>

lemma bitmap_mark_spec:
  assumes "wf_bitmap b" and "i < bit_cnt b"
  shows "\<exists>b'. bitmap_mark b i = Some b' \<and> wf_bitmap b' \<and> bit_cnt b' = bit_cnt b \<and>
              bits_of b' = (bits_of b)[i := True]"
  using assms elem_idx_in [OF assms]
  by (simp add: bitmap_mark_def elem_idx_def ELEM_BITS_def bits_of_update bit_or_iff bit_bit_mask)

lemma bitmap_reset_spec:
  assumes "wf_bitmap b" and "i < bit_cnt b"
  shows "\<exists>b'. bitmap_reset b i = Some b' \<and> wf_bitmap b' \<and> bit_cnt b' = bit_cnt b \<and>
              bits_of b' = (bits_of b)[i := False]"
  using assms elem_idx_in [OF assms]
  by (simp add: bitmap_reset_def elem_idx_def ELEM_BITS_def bits_of_update bit_and_iff
      bit_not_iff bit_bit_mask)

lemma bitmap_flip_spec:
  assumes "wf_bitmap b" and "i < bit_cnt b"
  shows "\<exists>b'. bitmap_flip b i = Some b' \<and> wf_bitmap b' \<and> bit_cnt b' = bit_cnt b \<and>
              bits_of b' = (bits_of b)[i := \<not> bits_of b ! i]"
proof -
  have "bit (bits b ! (i div 64) XOR bit_mask i) k \<longleftrightarrow>
      (if k = i mod 64 then \<not> bits_of b ! i else bit (bits b ! (i div 64)) k)" for k
    using assms(2) by (auto simp: bit_xor_iff bit_bit_mask bit_at_def)
  then show ?thesis
    using assms elem_idx_in [OF assms]
    by (simp add: bitmap_flip_def elem_idx_def ELEM_BITS_def bits_of_update)
qed

lemma bitmap_set_spec:
  assumes "wf_bitmap b" and "i < bit_cnt b"
  shows "\<exists>b'. bitmap_set b i v w = Some (b', w) \<and> wf_bitmap b' \<and> bit_cnt b' = bit_cnt b \<and>
              bits_of b' = (bits_of b)[i := v]"
  using bitmap_mark_spec [OF assms] bitmap_reset_spec [OF assms] assms(2)
  by (cases v) (auto simp: bitmap_set_def)

lemma set_range_spec:
  assumes "wf_bitmap b" and "j + n \<le> bit_cnt b"
  shows "\<exists>b'. set_range b j n v w = Some (b', w) \<and> wf_bitmap b' \<and> bit_cnt b' = bit_cnt b \<and>
              bits_of b' = fill (bits_of b) j n v"
  using assms
proof (induction n arbitrary: b j)
  case 0
  then show ?case by simp
next
  case (Suc n)
  then have j: "j < bit_cnt b" by simp
  obtain b1 where b1: "bitmap_set b j v w = Some (b1, w)" "wf_bitmap b1" "bit_cnt b1 = bit_cnt b"
      "bits_of b1 = (bits_of b)[j := v]"
    using bitmap_set_spec [OF Suc.prems(1) j] by blast
  have "Suc j + n \<le> bit_cnt b1" using Suc.prems(2) b1(3) by simp
  from Suc.IH [OF b1(2) this] show ?case
    using b1 j by (auto simp: fill_Suc)
qed

lemma bitmap_set_multiple_spec:
  assumes "wf_bitmap b" and "start + cnt \<le> bit_cnt b"
  shows "\<exists>b'. bitmap_set_multiple b start cnt v w = Some (b', w) \<and> wf_bitmap b' \<and>
              bit_cnt b' = bit_cnt b \<and> bits_of b' = fill (bits_of b) start cnt v"
  using set_range_spec [OF assms] assms(2) by (simp add: bitmap_set_multiple_def)

lemma bitmap_set_all_spec:
  assumes "wf_bitmap b"
  shows "\<exists>b'. bitmap_set_all b v w = Some (b', w) \<and> wf_bitmap b' \<and> bit_cnt b' = bit_cnt b \<and>
              bits_of b' = replicate (bit_cnt b) v"
proof -
  have "fill (bits_of b) 0 (bit_cnt b) v = replicate (bit_cnt b) v"
    by (rule nth_equalityI) (auto simp: nth_fill)
  then show ?thesis
    using bitmap_set_multiple_spec [OF assms, of 0 "bit_cnt b" v w]
    by (simp add: bitmap_set_all_def bitmap_size_def)
qed

lemma count_range_spec:
  assumes "wf_bitmap b" and "j + n \<le> bit_cnt b"
  shows "count_range b j n v c w =
         Some (c + length (filter (\<lambda>i. bits_of b ! i = v) [j..<j + n]), w)"
  using assms(2)
proof (induction n arbitrary: j c)
  case 0
  then show ?case by simp
next
  case (Suc n)
  then have j: "j < bit_cnt b" and n: "Suc j + n \<le> bit_cnt b" by simp_all
  show ?case
    using Suc.IH [OF n] bitmap_test_spec [OF assms(1) j, of w]
    by (simp add: upt_conv_Cons del: upt_Suc nth_bits_of)
qed

lemma bitmap_count_spec [spec_rules]:
  "wf_bitmap b \<Longrightarrow> start + cnt \<le> bit_cnt b \<Longrightarrow>
   bitmap_count b start cnt v w =
     Some (length (filter (\<lambda>i. bits_of b ! i = v) [start..<start + cnt]), w)"
  by (simp add: bitmap_count_def count_range_spec)

lemma contains_range_spec:
  assumes "wf_bitmap b" and "j + n \<le> bit_cnt b"
  shows "contains_range b j n v w = Some (\<exists>i \<in> {j..<j + n}. bits_of b ! i = v, w)"
  using assms(2)
proof (induction n arbitrary: j)
  case 0
  then show ?case by simp
next
  case (Suc n)
  then have j: "j < bit_cnt b" and n: "Suc j + n \<le> bit_cnt b" by simp_all
  have "{j..<j + Suc n} = insert j {Suc j..<Suc j + n}" by auto
  then show ?case
    using Suc.IH [OF n] bitmap_test_spec [OF assms(1) j, of w]
    by (simp del: nth_bits_of)
qed

lemma bitmap_contains_spec [spec_rules]:
  "wf_bitmap b \<Longrightarrow> start + cnt \<le> bit_cnt b \<Longrightarrow>
   bitmap_contains b start cnt v w = Some (\<exists>i \<in> {start..<start + cnt}. bits_of b ! i = v, w)"
  by (simp add: bitmap_contains_def contains_range_spec)

lemma bitmap_all_spec [spec_rules]:
  "wf_bitmap b \<Longrightarrow> start + cnt \<le> bit_cnt b \<Longrightarrow>
   bitmap_all b start cnt w = Some (\<forall>i \<in> {start..<start + cnt}. bits_of b ! i, w)"
  by (simp add: bitmap_all_def bitmap_contains_spec del: nth_bits_of)

section \<open>Scanning returns the first free run\<close>

lemma scan_range_spec:
  assumes "wf_bitmap b" and "i + n + cnt \<le> Suc (bit_cnt b)"
  shows "scan_range b i n cnt v w =
    Some (case List.find (\<lambda>i. run_at (bits_of b) i cnt v) [i..<i + n] of
            None \<Rightarrow> BITMAP_ERROR | Some k \<Rightarrow> k, w)"
  using assms(2)
proof (induction n arbitrary: i)
  case 0
  then show ?case by simp
next
  case (Suc n)
  then have i: "i + cnt \<le> bit_cnt b" and n: "Suc i + n + cnt \<le> Suc (bit_cnt b)" by simp_all
  have c: "bitmap_contains b i cnt (\<not> v) w = Some (\<not> run_at (bits_of b) i cnt v, w)"
    using bitmap_contains_spec [OF assms(1) i] i
    by (auto simp: run_at_def simp del: nth_bits_of)
  show ?case
    using Suc.IH [OF n] c by (simp add: upt_conv_Cons del: upt_Suc nth_bits_of)
qed

lemma bitmap_scan_spec:
  assumes "wf_bitmap b" and "start \<le> bit_cnt b"
  shows "bitmap_scan b start cnt v w =
    Some (case first_run (bits_of b) start cnt v of None \<Rightarrow> BITMAP_ERROR | Some k \<Rightarrow> k, w)"
proof (cases "cnt \<le> bit_cnt b")
  case True
  let ?n = "Suc (bit_cnt b - cnt) - start"
  show ?thesis
  proof (cases "start \<le> Suc (bit_cnt b - cnt)")
    case le: True
    have "start + ?n = Suc (bit_cnt b) - cnt" using le True by simp
    moreover have "start + ?n + cnt \<le> Suc (bit_cnt b)" using le True by simp
    ultimately show ?thesis
      using True assms scan_range_spec [OF assms(1), of start ?n cnt v w]
      by (simp add: bitmap_scan_def first_run_def)
  next
    case False
    then show ?thesis using True assms by (simp add: bitmap_scan_def first_run_def)
  qed
next
  case False
  then show ?thesis using assms by (simp add: bitmap_scan_def first_run_def)
qed

lemma bitmap_scan_and_flip_found:
  assumes "wf_bitmap b" and "start \<le> bit_cnt b" and "bit_cnt b < BITMAP_ERROR"
    and "first_run (bits_of b) start cnt v = Some k"
  shows "\<exists>b'. bitmap_scan_and_flip b start cnt v w = Some ((k, b'), w) \<and> wf_bitmap b' \<and>
              bit_cnt b' = bit_cnt b \<and> bits_of b' = fill (bits_of b) k cnt (\<not> v)"
proof -
  have k: "k + cnt \<le> bit_cnt b" using first_run_bound [OF assms(4)] by simp
  then have "k \<noteq> BITMAP_ERROR" using assms(3) by simp
  then show ?thesis
    using bitmap_set_multiple_spec [OF assms(1) k, of "\<not> v" w]
    by (auto simp: bitmap_scan_and_flip_def bitmap_scan_spec [OF assms(1,2)] assms(4))
qed

lemma bitmap_scan_and_flip_none:
  "wf_bitmap b \<Longrightarrow> start \<le> bit_cnt b \<Longrightarrow> first_run (bits_of b) start cnt v = None \<Longrightarrow>
   bitmap_scan_and_flip b start cnt v w = Some ((BITMAP_ERROR, b), w)"
  by (simp add: bitmap_scan_and_flip_def bitmap_scan_spec)

section \<open>The bitmap implements a bit vector\<close>

text \<open>
  The interface holds for every world the console lives in, for bitmaps with fewer bits than
  the error value \<open>BITMAP_ERROR\<close> (which is \<open>UINT32_MAX\<close>).
\<close>

interpretation bm: bit_vector bits_of wf_bitmap BITMAP_ERROR
  "bitmap_test :: bitmap \<Rightarrow> nat \<Rightarrow> 'a world_scheme \<Rightarrow> (bool \<times> 'a world_scheme) option"
  bitmap_set_multiple bitmap_count bitmap_scan_and_flip
proof (unfold_locales, goal_cases)
  case (1 b i s)
  then show ?case by (simp add: bitmap_test_spec del: nth_bits_of)
next
  case (2 b i n v s)
  then show ?case using bitmap_set_multiple_spec [of b i n v s] by auto
next
  case (3 b v s)
  then show ?case by (simp add: bitmap_count_spec count_bits_def del: nth_bits_of)
next
  case (4 b i n v k s)
  then show ?case using bitmap_scan_and_flip_found [of b i n v k s] by auto
next
  case (5 b i n v s)
  then show ?case by (simp add: bitmap_scan_and_flip_none)
qed

section \<open>Creation and the stored image\<close>

lemma wf_fresh: "wf_bitmap \<lparr>bit_cnt = n, bits = replicate (elem_cnt n) 0\<rparr>"
  by (simp add: wf_bitmap_def)

lemma bitmap_create_spec:
  "\<exists>b. bitmap_create True True n w = Some (Some b, w) \<and> wf_bitmap b \<and> bit_cnt b = n \<and>
       bits_of b = replicate n False"
  using bitmap_set_all_spec [OF wf_fresh, of n False w] by (auto simp: bitmap_create_def)

text \<open>Loading the bytes of a bitmap into a new one gives the same bits.\<close>

lemma bitmap_create_from_buf_image:
  assumes "wf_bitmap b"
  shows "\<exists>b'. bitmap_create_from_buf (bit_cnt b) (bytes_of_words 8 (bits b) @ rest) w = Some (b', w)
              \<and> wf_bitmap b' \<and> bits_of b' = bits_of b"
proof -
  have len: "length (bytes_of_words 8 (bits b)) = byte_cnt (bit_cnt b)"
    using assms by (simp add: wf_bitmap_def byte_cnt_def)
  have "words_of_bytes 8 (elem_cnt (bit_cnt b)) (bytes_of_words 8 (bits b)) = bits b"
    using words_of_bytes_of_words [where 'a = 64, of 8 "bits b" "[]"] assms
    by (simp add: wf_bitmap_def)
  then show ?thesis
    using bitmap_create_spec [of "bit_cnt b" w] len assms
    by (auto simp: bitmap_create_from_buf_def wf_bitmap_def bits_of_def)
qed

end
