(* ===== verification/Sector_Store.thy ===== *)
theory Sector_Store
  imports Prelude
begin

text \<open>
  The interface of everything that reads and writes whole sectors: a block device, and the
  buffer cache in front of it. A store has a capacity and a current content per sector
  (\<open>view\<close>); reading returns the content and keeps it, writing changes one sector.
  The clients' facts, proved once here: what a read returns after writes, and that any
  sequence of requests answers as a plain array of sectors would.
\<close>

definition BLOCK_SECTOR_SIZE :: nat where
  "BLOCK_SECTOR_SIZE = 512"

datatype request = Fetch sector | Store sector bytes

fun request_ok :: "sector \<Rightarrow> request \<Rightarrow> bool" where
  "request_ok n (Fetch sec) = (sec < n)"
| "request_ok n (Store sec data) = (sec < n \<and> length data = BLOCK_SECTOR_SIZE)"

text \<open>The specification: an array of sectors.\<close>

fun serve_spec :: "request list \<Rightarrow> (sector \<Rightarrow> bytes) \<Rightarrow> bytes list \<times> (sector \<Rightarrow> bytes)" where
  "serve_spec [] v = ([], v)"
| "serve_spec (Fetch sec # rs) v = (let (out, v') = serve_spec rs v in (v sec # out, v'))"
| "serve_spec (Store sec data # rs) v = serve_spec rs (v(sec := data))"

text \<open>The same requests served by an implementation.\<close>

fun serve ::
  "(sector \<Rightarrow> 's \<Rightarrow> (bytes \<times> 's) option) \<Rightarrow> (sector \<Rightarrow> bytes \<Rightarrow> 's \<Rightarrow> 's option) \<Rightarrow>
   request list \<Rightarrow> 's \<Rightarrow> (bytes list \<times> 's) option" where
  "serve fetch store [] s = Some ([], s)"
| "serve fetch store (Fetch sec # rs) s = do {
     (d, s) \<leftarrow> fetch sec s;
     (out, s) \<leftarrow> serve fetch store rs s;
     Some (d # out, s)
   }"
| "serve fetch store (Store sec data # rs) s = do {
     s \<leftarrow> store sec data s;
     serve fetch store rs s
   }"

locale sector_store =
  fixes ok :: "'s \<Rightarrow> bool"
    and capacity :: "'s \<Rightarrow> sector"
    and view :: "'s \<Rightarrow> sector \<Rightarrow> bytes"
    and printed :: "'s \<Rightarrow> string list"
    and fetch :: "sector \<Rightarrow> 's \<Rightarrow> (bytes \<times> 's) option"
    and store :: "sector \<Rightarrow> bytes \<Rightarrow> 's \<Rightarrow> 's option"
  assumes view_length: "ok s \<Longrightarrow> sec < capacity s \<Longrightarrow> length (view s sec) = BLOCK_SECTOR_SIZE"
    and fetch_law: "ok s \<Longrightarrow> sec < capacity s \<Longrightarrow>
      \<exists>s'. fetch sec s = Some (view s sec, s') \<and> ok s' \<and> capacity s' = capacity s \<and>
           view s' = view s \<and> printed s' = printed s"
    and store_law: "ok s \<Longrightarrow> sec < capacity s \<Longrightarrow> length data = BLOCK_SECTOR_SIZE \<Longrightarrow>
      \<exists>s'. store sec data s = Some s' \<and> ok s' \<and> capacity s' = capacity s \<and>
           view s' = (view s)(sec := data) \<and> printed s' = printed s"
begin

lemma fetch_after_store:
  assumes "ok s" and "sec < capacity s" and "length data = BLOCK_SECTOR_SIZE"
    and "store sec data s = Some s'" and "sec' < capacity s"
  shows "\<exists>s''. fetch sec' s' = Some (if sec' = sec then data else view s sec', s'')"
proof -
  have "ok s'" "capacity s' = capacity s" "view s' = (view s)(sec := data)"
    using store_law [OF assms(1-3)] assms(4) by auto
  then show ?thesis using fetch_law [of s' sec'] assms(5) by auto
qed

lemma store_store:
  assumes "ok s" and "sec < capacity s" and "length d1 = BLOCK_SECTOR_SIZE"
    and "length d2 = BLOCK_SECTOR_SIZE" and "store sec d1 s = Some s1"
  shows "\<exists>s2. store sec d2 s1 = Some s2 \<and> view s2 = (view s)(sec := d2)"
proof -
  have "ok s1" "capacity s1 = capacity s" "view s1 = (view s)(sec := d1)"
    using store_law [OF assms(1-3)] assms(5) by auto
  then show ?thesis using store_law [of s1 sec d2] assms(2,4) by auto
qed

text \<open>Every sequence of requests is answered as by an array of sectors.\<close>

lemma serve_refines:
  assumes "ok s" and "\<forall>r \<in> set rs. request_ok (capacity s) r"
  shows "\<exists>s'. serve fetch store rs s = Some (fst (serve_spec rs (view s)), s') \<and> ok s' \<and>
              capacity s' = capacity s \<and> view s' = snd (serve_spec rs (view s)) \<and>
              printed s' = printed s"
  using assms
proof (induction rs arbitrary: s)
  case Nil
  then show ?case by simp
next
  case (Cons r rs)
  show ?case
  proof (cases r)
    case (Fetch sec)
    then have "sec < capacity s" using Cons.prems(2) by simp
    then obtain s1 where s1: "fetch sec s = Some (view s sec, s1)" "ok s1"
        "capacity s1 = capacity s" "view s1 = view s" "printed s1 = printed s"
      using fetch_law [OF Cons.prems(1)] by blast
    then show ?thesis
      using Cons.IH [OF s1(2)] Cons.prems(2) Fetch by (auto simp: case_prod_beta)
  next
    case (Store sec data)
    then have "sec < capacity s" and "length data = BLOCK_SECTOR_SIZE"
      using Cons.prems(2) by simp_all
    then obtain s1 where s1: "store sec data s = Some s1" "ok s1" "capacity s1 = capacity s"
        "view s1 = (view s)(sec := data)" "printed s1 = printed s"
      using store_law [OF Cons.prems(1)] by blast
    then show ?thesis
      using Cons.IH [OF s1(2)] Cons.prems(2) Store by (auto simp: fun_upd_def)
  qed
qed

end

end
