(* ===== verification/Devices.thy ===== *)
theory Devices
  imports Sector_Store
begin

text \<open>
  Block devices: the generic layer of \<open>a3/fs/block.c\<close>, the driver of \<open>a3/fs/ide.c\<close> that
  keeps the disk in an ordinary file, and the partitions of \<open>a3/fs/partition.c\<close>.
  Device descriptors live in the list \<open>blocks\<close>; a \<open>struct block *\<close> is an index into it
  (\<open>None\<close> is the null pointer). The file behind the disk is its list of bytes, read and
  written as \<open>lseek\<close>/\<open>read\<close>/\<open>write\<close> on a regular file do: a read stops at the end of
  the file, a write past the end extends it with zeros.
\<close>

section \<open>State\<close>

datatype driver =
    Ide                       \<comment> \<open>\<open>ide_operations\<close> on the disk file\<close>
  | Partition nat sector      \<comment> \<open>\<open>partition_operations\<close>: underlying block, first sector\<close>

record block =
  bd_name :: string
  bd_fname :: string
  bd_size :: sector           \<comment> \<open>size in sectors\<close>
  bd_ops :: driver
  read_cnt :: "64 word"
  write_cnt :: "64 word"

record devices = world +
  hd_file :: bytes            \<comment> \<open>content of the file the disk lives in\<close>
  blocks :: "block list"
  hard_drive :: "nat option"

section \<open>Human-readable sizes (a3/fs/debug.c)\<close>

fun scale_size :: "nat \<Rightarrow> string list \<Rightarrow> nat \<times> string" where
  "scale_size n (f # g # fs) = (if 1024 \<le> n then scale_size (n div 1024) (g # fs) else (n, f))"
| "scale_size n [f] = (n, f)"
| "scale_size n [] = (n, [])"

definition human_readable_size :: "nat \<Rightarrow> string" where
  "human_readable_size n =
     (if n = 1 then ''1 byte''
      else (let (m, f) = scale_size n [''bytes'', ''kB'', ''MB'', ''GB'', ''TB'']
            in dec m @ '' '' @ f))"

section \<open>The IDE driver\<close>

definition file_read :: "bytes \<Rightarrow> nat \<Rightarrow> bytes \<Rightarrow> bytes" where
  \<comment> \<open>\<open>read\<close> into a buffer of the given old content\<close>
  "file_read f off buf =
     (let got = take (length buf) (drop off f) in got @ drop (length got) buf)"

definition file_write :: "bytes \<Rightarrow> nat \<Rightarrow> bytes \<Rightarrow> bytes" where
  "file_write f off data =
     (let f' = f @ replicate (off - length f) 0
      in take off f' @ data @ drop (off + length data) f')"

definition sector_offset :: "sector \<Rightarrow> nat" where
  \<comment> \<open>\<open>sec_no * BLOCK_SECTOR_SIZE\<close>, computed in 32 bits\<close>
  "sector_offset sec_no = unat (sec_no * 512 :: 32 word)"

definition ide_read :: "sector \<Rightarrow> bytes \<Rightarrow> 'a devices_scheme \<Rightarrow> bytes" where
  "ide_read sec_no buf w = file_read (hd_file w) (sector_offset sec_no) buf"

definition ide_write :: "sector \<Rightarrow> bytes \<Rightarrow> 'a devices_scheme \<Rightarrow> 'a devices_scheme" where
  "ide_write sec_no data w =
     w\<lparr>hd_file := file_write (hd_file w) (sector_offset sec_no) data\<rparr>"

section \<open>The block layer\<close>

definition block_get_hd :: "'a devices_scheme \<Rightarrow> nat option" where
  "block_get_hd w = hard_drive w"

definition block_set_hd :: "nat option \<Rightarrow> 'a devices_scheme \<Rightarrow> 'a devices_scheme" where
  "block_set_hd b w = w\<lparr>hard_drive := b\<rparr>"

definition check_sector :: "block \<Rightarrow> sector \<Rightarrow> 'a devices_scheme \<Rightarrow> 'a devices_scheme" where
  "check_sector blk sec w =
     (if bd_size blk \<le> sec
      then debug_panic ''fs/block.c'' 33 ''check_sector''
             (''Access past end of device %s (sector=%u, size=%u)'' @ nl) w
      else w)"

definition count_read :: "nat \<Rightarrow> 'a devices_scheme \<Rightarrow> 'a devices_scheme option" where
  "count_read b w = do {
     blk \<leftarrow> rd (blocks w) b;
     Some (w\<lparr>blocks := (blocks w)[b := blk\<lparr>read_cnt := read_cnt blk + 1\<rparr>]\<rparr>)
   }"

definition count_write :: "nat \<Rightarrow> 'a devices_scheme \<Rightarrow> 'a devices_scheme option" where
  "count_write b w = do {
     blk \<leftarrow> rd (blocks w) b;
     Some (w\<lparr>blocks := (blocks w)[b := blk\<lparr>write_cnt := write_cnt blk + 1\<rparr>]\<rparr>)
   }"

text \<open>
  \<open>block_read\<close> and \<open>block_write\<close> dispatch on the driver; the driver of a partition calls
  them again on the underlying block (\<open>partition_read\<close>, \<open>partition_write\<close>).
\<close>

partial_function (option) block_read ::
  "nat option \<Rightarrow> sector \<Rightarrow> bytes \<Rightarrow> 'a devices_scheme \<Rightarrow> (bytes \<times> 'a devices_scheme) option" where
  "block_read bp sec buf w = do {
     b \<leftarrow> bp;
     blk \<leftarrow> rd (blocks w) b;
     let w = check_sector blk sec w;
     (buf, w) \<leftarrow> (case bd_ops blk of
        Ide \<Rightarrow> Some (ide_read sec buf w, w)
      | Partition p start \<Rightarrow> block_read (Some p) (start + sec + 1) buf w);
     w \<leftarrow> count_read b w;
     Some (buf, w)
   }"

partial_function (option) block_write ::
  "nat option \<Rightarrow> sector \<Rightarrow> bytes \<Rightarrow> 'a devices_scheme \<Rightarrow> 'a devices_scheme option" where
  "block_write bp sec data w = do {
     b \<leftarrow> bp;
     blk \<leftarrow> rd (blocks w) b;
     let w = check_sector blk sec w;
     w \<leftarrow> (case bd_ops blk of
        Ide \<Rightarrow> Some (ide_write sec data w)
      | Partition p start \<Rightarrow> block_write (Some p) (start + sec + 1) data w);
     count_write b w
   }"

definition block_size :: "nat option \<Rightarrow> 'a devices_scheme \<Rightarrow> sector option" where
  "block_size bp w = do { b \<leftarrow> bp; blk \<leftarrow> rd (blocks w) b; Some (bd_size blk) }"

definition block_register ::
  "string \<Rightarrow> string \<Rightarrow> sector \<Rightarrow> driver \<Rightarrow> 'a devices_scheme \<Rightarrow> nat \<times> 'a devices_scheme" where
  \<comment> \<open>with memory available\<close>
  "block_register name fname sz ops w =
     (let b = length (blocks w);
          blk = \<lparr>bd_name = take 16 name, bd_fname = take 100 fname, bd_size = sz,
                 bd_ops = ops, read_cnt = 0, write_cnt = 0\<rparr>;
          w = w\<lparr>blocks := blocks w @ [blk]\<rparr>;
          w = printf (bd_name blk @ '': '' @ dec (unat sz) @ '' sectors ('') w;
          w = printf (human_readable_size (unat sz * 512)) w;
          w = printf ('')'' @ nl) w;
          w = block_set_hd (Some b) w
      in (b, w))"

section \<open>Partitions\<close>

record partition_entry =
  pe_type :: byte
  pe_offset :: sector
  pe_size :: sector

definition decode_entry :: "bytes \<Rightarrow> partition_entry" where
  "decode_entry bs = \<lparr>pe_type = bs ! 4, pe_offset = le_word (take 4 (drop 8 bs)),
                      pe_size = le_word (take 4 (drop 12 bs))\<rparr>"

definition table_entries :: "bytes \<Rightarrow> partition_entry list" where
  "table_entries pt = map decode_entry (chunks 16 4 (drop 446 pt))"

definition table_signature :: "bytes \<Rightarrow> 16 word" where
  "table_signature pt = le_word (take 2 (drop 510 pt))"

definition is_extended :: "byte \<Rightarrow> bool" where
  "is_extended t \<longleftrightarrow> t = 0x05 \<or> t = 0x0f \<or> t = 0x85 \<or> t = 0xc5"

definition found_partition ::
  "nat \<Rightarrow> sector \<Rightarrow> sector \<Rightarrow> int \<Rightarrow> string \<Rightarrow> 'a devices_scheme \<Rightarrow> 'a devices_scheme option" where
  "found_partition b start sz part_nr fname w = do {
     blk \<leftarrow> rd (blocks w) b;
     if bd_size blk \<le> start
     then Some (printf (bd_name blk @ idec part_nr @
            '': Partition starts past end of device (sector '' @ dec (unat start) @ '')'' @ nl) w)
     else if start + sz < start \<or> bd_size blk < start + sz
     then Some (printf (bd_name blk @ idec part_nr @ '': Partition end ('' @
            dec (unat (start + sz)) @ '') past end of device ('' @ dec (unat (bd_size blk)) @
            '')'' @ nl) w)
     else Some (snd (block_register (take 15 (bd_name blk @ idec part_nr)) fname sz
                       (Partition b start) w))
   }"

text \<open>
  Reading the table of a sector up to the loop over its entries: no entries when the sector is
  past the end of the device or the signature is wrong. The sector that is read is always 0.
\<close>

definition load_table ::
  "nat \<Rightarrow> bytes \<Rightarrow> sector \<Rightarrow> sector \<Rightarrow> 'a devices_scheme \<Rightarrow>
   (partition_entry list \<times> 'a devices_scheme) option" where
  \<comment> \<open>\<open>fresh\<close>: what \<open>malloc\<close> left in the buffer\<close>
  "load_table b fresh sec primary w = do {
     blk \<leftarrow> rd (blocks w) b;
     if bd_size blk \<le> sec
     then Some ([], printf (bd_name blk @ '': Partition table at sector '' @ dec (unat sec) @
                            '' past end of device.'' @ nl) w)
     else do {
       (pt, w) \<leftarrow> block_read (Some b) 0 fresh w;
       if table_signature pt \<noteq> 0xaa55
       then Some ([], (if primary = 0
              then printf (bd_name blk @ '': Invalid partition table signature'' @ nl) w
              else printf (bd_name blk @ '': Invalid extended partition table in sector '' @
                           dec (unat sec) @ nl) w))
       else Some (table_entries pt, w)
     }
   }"

partial_function (option) scan_entries ::
  "nat \<Rightarrow> bytes \<Rightarrow> partition_entry list \<Rightarrow> sector \<Rightarrow> sector \<Rightarrow> int \<Rightarrow> string \<Rightarrow>
   'a devices_scheme \<Rightarrow> (int \<times> 'a devices_scheme) option" where
  "scan_entries b fresh es sec primary part_nr fname w =
     (case es of
        [] \<Rightarrow> Some (part_nr, w)
      | e # rest \<Rightarrow>
          if pe_size e = 0 \<or> pe_type e = 0
          then scan_entries b fresh rest sec primary part_nr fname w
          else if is_extended (pe_type e)
          then do {
            blk \<leftarrow> rd (blocks w) b;
            let w = printf (bd_name blk @ '': Extended partition in sector '' @
                            dec (unat sec) @ nl) w;
            let sec' = (if sec = 0 then pe_offset e else pe_offset e + primary);
            let primary' = (if sec = 0 then pe_offset e else primary);
            (sub, w) \<leftarrow> load_table b fresh sec' primary' w;
            (part_nr, w) \<leftarrow> scan_entries b fresh sub sec' primary' part_nr fname w;
            scan_entries b fresh rest sec primary part_nr fname w
          }
          else do {
            w \<leftarrow> found_partition b (pe_offset e + sec) (pe_size e) (part_nr + 1) fname w;
            scan_entries b fresh rest sec primary (part_nr + 1) fname w
          })"

definition read_partition_table ::
  "nat \<Rightarrow> bytes \<Rightarrow> sector \<Rightarrow> sector \<Rightarrow> int \<Rightarrow> string \<Rightarrow> 'a devices_scheme \<Rightarrow>
   (int \<times> 'a devices_scheme) option" where
  "read_partition_table b fresh sec primary part_nr fname w = do {
     (es, w) \<leftarrow> load_table b fresh sec primary w;
     scan_entries b fresh es sec primary part_nr fname w
   }"

definition partition_scan ::
  "nat \<Rightarrow> bytes \<Rightarrow> string \<Rightarrow> 'a devices_scheme \<Rightarrow> 'a devices_scheme option" where
  "partition_scan b fresh fname w = do {
     (part_nr, w) \<leftarrow> read_partition_table b fresh 0 0 0 fname w;
     blk \<leftarrow> rd (blocks w) b;
     Some (if part_nr = 0
           then printf (bd_name blk @ '': Device contains no partitions'' @ nl) w else w)
   }"

definition ide_init ::
  "string \<Rightarrow> int \<Rightarrow> bytes \<Rightarrow> 'a devices_scheme \<Rightarrow> 'a devices_scheme option" where
  \<comment> \<open>\<open>fd\<close>: the descriptor \<open>open\<close> returned for the disk file\<close>
  "ide_init hd_name fd fresh w = do {
     let w = (if fd = 1 then debug_panic ''fs/ide.c'' 52 ''ide_init'' ''FD -1'' w else w);
     let capacity = (of_nat (length (hd_file w) div 512) :: sector);
     let (b, w) = block_register ''hda'' hd_name capacity Ide w;
     partition_scan b fresh hd_name w
   }"

section \<open>The disk as a store of sectors\<close>

text \<open>
  \<open>raw_disk b w\<close>: block \<open>b\<close> is the IDE disk itself, its sectors lie inside the file and
  the file is small enough for byte offsets to fit in 32 bits.
\<close>

definition raw_disk :: "nat \<Rightarrow> 'a devices_scheme \<Rightarrow> bool" where
  "raw_disk b w \<longleftrightarrow> b < length (blocks w) \<and> bd_ops (blocks w ! b) = Ide \<and>
     unat (bd_size (blocks w ! b)) * 512 \<le> length (hd_file w) \<and> length (hd_file w) < 2 ^ 32"

definition disk_sector_at :: "'a devices_scheme \<Rightarrow> sector \<Rightarrow> bytes" where
  "disk_sector_at w sec = take 512 (drop (512 * unat sec) (hd_file w))"

definition disk_capacity :: "nat \<Rightarrow> 'a devices_scheme \<Rightarrow> sector" where
  "disk_capacity b w = bd_size (blocks w ! b)"

lemma sector_offset_exact: "unat sec * 512 < 2 ^ 32 \<Longrightarrow> sector_offset sec = 512 * unat sec"
  by (simp add: sector_offset_def unat_word_ariths)

lemma sector_inside:
  assumes "raw_disk b w" and "sec < disk_capacity b w"
  shows "512 * unat sec + 512 \<le> length (hd_file w)" and "sector_offset sec = 512 * unat sec"
proof -
  have "unat sec < unat (bd_size (blocks w ! b))"
    using assms(2) by (simp add: disk_capacity_def word_less_nat_alt)
  then show in_file: "512 * unat sec + 512 \<le> length (hd_file w)"
    using assms(1) by (simp add: raw_disk_def)
  then show "sector_offset sec = 512 * unat sec"
    using assms(1) by (intro sector_offset_exact) (simp add: raw_disk_def)
qed

lemma file_read_inside: "off + length buf \<le> length f \<Longrightarrow>
  file_read f off buf = take (length buf) (drop off f)"
  by (simp add: file_read_def Let_def)

lemma file_write_inside: "off + length data \<le> length f \<Longrightarrow>
  file_write f off data = take off f @ data @ drop (off + length data) f"
  by (simp add: file_write_def Let_def)

lemma check_sector_ok [simp]: "sec < bd_size blk \<Longrightarrow> check_sector blk sec w = w"
  by (simp add: check_sector_def)

lemma sectors_disjoint:
  fixes f :: "'a list"
  assumes "m \<noteq> n" and "512 * m + 512 \<le> length f" and "length data = 512"
  shows "take 512 (drop (512 * n) (take (512 * m) f @ data @ drop (512 * m + 512) f))
       = take 512 (drop (512 * n) f)"
proof (cases "n < m")
  case True
  then have "512 * n + 512 \<le> 512 * m" by simp
  then show ?thesis using assms by (simp add: take_drop min_def)
next
  case False
  with assms(1) have le: "512 * m + 512 \<le> 512 * n" by simp
  have "drop (512 * n) (take (512 * m) f @ data @ drop (512 * m + 512) f) = drop (512 * n) f"
    using assms le by (simp add: drop_append)
  then show ?thesis by simp
qed

lemma disk_capacity_read [simp]:
  "disk_capacity b (w\<lparr>blocks := (blocks w)[b := (blocks w ! b)\<lparr>read_cnt := n\<rparr>]\<rparr>) = disk_capacity b w"
  by (cases "b < length (blocks w)") (simp_all add: disk_capacity_def list_update_beyond)

lemma block_read_raw:
  assumes "raw_disk b w" and "sec < disk_capacity b w" and "length buf = 512"
  shows "\<exists>w'. block_read (Some b) sec buf w = Some (disk_sector_at w sec, w') \<and> raw_disk b w' \<and>
              disk_capacity b w' = disk_capacity b w \<and> disk_sector_at w' = disk_sector_at w \<and>
              hd_file w' = hd_file w \<and> w' = w\<lparr>blocks := blocks w'\<rparr>"
proof -
  have b: "b < length (blocks w)" "bd_ops (blocks w ! b) = Ide" "sec < bd_size (blocks w ! b)"
    using assms(1,2) by (simp_all add: raw_disk_def disk_capacity_def)
  have "ide_read sec buf w = disk_sector_at w sec"
    using sector_inside [OF assms(1,2)] assms(3)
    by (simp add: ide_read_def disk_sector_at_def file_read_inside)
  then show ?thesis
    using b assms(1)
    by (subst block_read.simps)
       (simp add: count_read_def raw_disk_def disk_sector_at_def disk_capacity_def fun_eq_iff)
qed

lemma block_write_raw:
  assumes "raw_disk b w" and "sec < disk_capacity b w" and "length data = 512"
  shows "\<exists>w'. block_write (Some b) sec data w = Some w' \<and> raw_disk b w' \<and>
              disk_capacity b w' = disk_capacity b w \<and>
              disk_sector_at w' = (disk_sector_at w)(sec := data) \<and>
              w' = w\<lparr>hd_file := hd_file w', blocks := blocks w'\<rparr>"
proof -
  have b: "b < length (blocks w)" "bd_ops (blocks w ! b) = Ide" "sec < bd_size (blocks w ! b)"
    using assms(1,2) by (simp_all add: raw_disk_def disk_capacity_def)
  let ?m = "512 * unat sec"
  let ?f = "take ?m (hd_file w) @ data @ drop (?m + 512) (hd_file w)"
  have in_file: "?m + 512 \<le> length (hd_file w)" and off: "sector_offset sec = ?m"
    using sector_inside [OF assms(1,2)] by simp_all
  have f: "ide_write sec data w = w\<lparr>hd_file := ?f\<rparr>"
    using in_file off assms(3) by (simp add: ide_write_def file_write_inside)
  have "take 512 (drop (512 * unat x) ?f) = ((disk_sector_at w)(sec := data)) x" for x
  proof (cases "x = sec")
    case True
    then show ?thesis using in_file assms(3) by (simp add: min_def)
  next
    case False
    then have "unat sec \<noteq> unat x" by (metis word_unat_eq_iff)
    then show ?thesis
      using sectors_disjoint [OF _ in_file assms(3), of "unat x"] False
      by (simp add: disk_sector_at_def)
  qed
  then have "disk_sector_at (w\<lparr>hd_file := ?f\<rparr>) = (disk_sector_at w)(sec := data)"
    by (auto simp: disk_sector_at_def [of "w\<lparr>hd_file := ?f\<rparr>"])
  then show ?thesis
    using b f assms in_file
    by (subst block_write.simps)
       (auto simp: count_write_def raw_disk_def disk_capacity_def disk_sector_at_def fun_eq_iff)
qed

text \<open>A raw disk is a sector store; reads need a buffer of one sector.\<close>

interpretation dev: sector_store "raw_disk b" "disk_capacity b" disk_sector_at console
  "\<lambda>sec. block_read (Some b) sec (replicate 512 0)" "block_write (Some b)" for b
proof (unfold_locales, goal_cases)
  case (1 s sec)
  then show ?case
    using sector_inside [OF 1] by (simp add: disk_sector_at_def BLOCK_SECTOR_SIZE_def)
next
  case (2 s sec)
  obtain s' where s': "block_read (Some b) sec (replicate 512 0) s = Some (disk_sector_at s sec, s')"
    "raw_disk b s'" "disk_capacity b s' = disk_capacity b s" "disk_sector_at s' = disk_sector_at s"
    "s' = s\<lparr>blocks := blocks s'\<rparr>"
    using block_read_raw [OF 2, of "replicate 512 0"] by auto
  have "console s' = console s" using arg_cong [OF s'(5), of console] by simp
  then show ?case using s' by auto
next
  case (3 s sec data)
  then have "length data = 512" by (simp add: BLOCK_SECTOR_SIZE_def)
  then obtain s' where s': "block_write (Some b) sec data s = Some s'"
    "raw_disk b s'" "disk_capacity b s' = disk_capacity b s"
    "disk_sector_at s' = (disk_sector_at s)(sec := data)"
    "s' = s\<lparr>hd_file := hd_file s', blocks := blocks s'\<rparr>"
    using block_write_raw [OF 3(1,2)] by blast
  have "console s' = console s" using arg_cong [OF s'(5), of console] by simp
  then show ?case using s' by auto
qed

text \<open>
  A sector number whose byte offset needs more than 32 bits is taken modulo \<open>2 ^ 32\<close>:
  the disk repeats every 4 GiB.
\<close>

lemma sector_offset_wraps: "sector_offset (sec + 8388608) = sector_offset sec"
proof -
  have "(8388608 :: 32 word) * 512 = 0" by simp
  then have "(sec + 8388608) * 512 = sec * 512" by (simp only: distrib_right add_0_right)
  then show ?thesis by (simp only: sector_offset_def)
qed

end
