(* ===== verification/Cache.thy ===== *)
theory Cache
  imports Devices
begin

text \<open>
  The buffer cache of \<open>a3/fs/cache.c\<close>: 64 entries in front of the file system device,
  write-back, with clock replacement. The static variable of \<open>buffer_cache_evict\<close> is the
  field \<open>clock\<close>, a pointer to an entry is its index. The abstract value of cache and device
  together is the content of each sector (\<open>cache_view\<close>); the cache is shown to implement the
  same sector-store interface as the disk it fronts.
\<close>

section \<open>State and operations\<close>

record cache_entry =
  occupied :: bool          \<comment> \<open>true only if this entry is a valid cache entry\<close>
  disk_sector :: sector
  buffer :: bytes
  dirty :: bool
  accessed :: bool          \<comment> \<open>reference bit, for the clock algorithm\<close>

record cached = devices +
  fs_device :: "nat option"
  cache :: "cache_entry list"
  clock :: nat

definition BUFFER_CACHE_SIZE :: nat where
  "BUFFER_CACHE_SIZE = 64"

definition set_entry :: "nat \<Rightarrow> cache_entry \<Rightarrow> 'a cached_scheme \<Rightarrow> 'a cached_scheme" where
  "set_entry i e s = s\<lparr>cache := (cache s)[i := e]\<rparr>"

definition buffer_cache_init :: "'a cached_scheme \<Rightarrow> 'a cached_scheme" where
  "buffer_cache_init s = s\<lparr>cache := map (\<lambda>e. e\<lparr>occupied := False, dirty := False\<rparr>) (cache s)\<rparr>"

definition buffer_cache_flush :: "nat \<Rightarrow> 'a cached_scheme \<Rightarrow> 'a cached_scheme option" where
  "buffer_cache_flush i s = do {
     e \<leftarrow> rd (cache s) i;
     let s = ASSERT ''fs/cache.c'' 32 ''buffer_cache_flush'' (occupied e) s;
     if dirty e
     then do {
       s \<leftarrow> block_write (fs_device s) (disk_sector e) (buffer e) s;
       Some (set_entry i (e\<lparr>dirty := False\<rparr>) s)
     }
     else Some s
   }"

fun close_from :: "nat list \<Rightarrow> 'a cached_scheme \<Rightarrow> 'a cached_scheme option" where
  "close_from [] s = Some s"
| "close_from (i # is) s = do {
     e \<leftarrow> rd (cache s) i;
     if \<not> occupied e then close_from is s
     else do { s \<leftarrow> buffer_cache_flush i s; close_from is s }
   }"

definition buffer_cache_close :: "'a cached_scheme \<Rightarrow> 'a cached_scheme option" where
  "buffer_cache_close s = close_from [0..<BUFFER_CACHE_SIZE] s"

fun lookup_from :: "nat list \<Rightarrow> sector \<Rightarrow> cache_entry list \<Rightarrow> nat option" where
  "lookup_from [] sec es = None"
| "lookup_from (i # is) sec es =
     (if \<not> occupied (es ! i) then lookup_from is sec es
      else if disk_sector (es ! i) = sec then Some i
      else lookup_from is sec es)"

definition buffer_cache_lookup :: "sector \<Rightarrow> 'a cached_scheme \<Rightarrow> nat option" where
  "buffer_cache_lookup sec s = lookup_from [0..<BUFFER_CACHE_SIZE] sec (cache s)"

text \<open>
  The clock loop clears one reference bit per turn and stops at the first entry that is free
  or unreferenced: it ends because the number of referenced entries shrinks.
\<close>

definition referenced :: "cache_entry list \<Rightarrow> nat" where
  "referenced es = length (filter accessed es)"

lemma referenced_clear:
  "i < length es \<Longrightarrow> accessed (es ! i) \<Longrightarrow>
   referenced (es[i := (es ! i)\<lparr>accessed := False\<rparr>]) < referenced es"
  by (simp add: referenced_def take_update_append id_take_nth_drop [of i es, symmetric])
     (subst (2) id_take_nth_drop [of i es], simp_all)

function clock_loop :: "'a cached_scheme \<Rightarrow> 'a cached_scheme option" where
  "clock_loop s =
     (if length (cache s) \<le> clock s then None
      else let e = cache s ! clock s in
        if \<not> occupied e then Some s
        else if accessed e
        then clock_loop (set_entry (clock s) (e\<lparr>accessed := False\<rparr>) s
                           \<lparr>clock := (clock s + 1) mod BUFFER_CACHE_SIZE\<rparr>)
        else Some s)"
  by pat_completeness auto
termination
  by (relation "measure (\<lambda>s. referenced (cache s))") (auto simp: set_entry_def referenced_clear)

declare clock_loop.simps [simp del]

definition buffer_cache_evict :: "'a cached_scheme \<Rightarrow> (nat \<times> 'a cached_scheme) option" where
  "buffer_cache_evict s = do {
     s \<leftarrow> clock_loop s;
     let slot = clock s;
     e \<leftarrow> rd (cache s) slot;
     if \<not> occupied e then Some (slot, s)
     else do {
       s \<leftarrow> (if dirty e then buffer_cache_flush slot s else Some s);
       e \<leftarrow> rd (cache s) slot;
       Some (slot, set_entry slot (e\<lparr>occupied := False\<rparr>) s)
     }
   }"

text \<open>The part the two entry points share: find the entry of a sector, or fill one.\<close>

definition load_entry :: "nat \<Rightarrow> sector \<Rightarrow> 'a cached_scheme \<Rightarrow> (nat \<times> 'a cached_scheme) option" where
  \<comment> \<open>\<open>line\<close>: the line of the assertion\<close>
  "load_entry line sec s =
     (case buffer_cache_lookup sec s of
        Some i \<Rightarrow> Some (i, s)
      | None \<Rightarrow> do {
          (i, s) \<leftarrow> buffer_cache_evict s;
          e \<leftarrow> rd (cache s) i;
          let s = ASSERT ''fs/cache.c'' line
                    (if line = 106 then ''buffer_cache_read'' else ''buffer_cache_write'')
                    (\<not> occupied e) s;
          let e = e\<lparr>occupied := True, disk_sector := sec, dirty := False\<rparr>;
          (buf, s) \<leftarrow> block_read (fs_device s) sec (buffer e) s;
          Some (i, set_entry i (e\<lparr>buffer := buf\<rparr>) s)
        })"

definition buffer_cache_read :: "sector \<Rightarrow> 'a cached_scheme \<Rightarrow> (bytes \<times> 'a cached_scheme) option" where
  \<comment> \<open>the bytes copied to \<open>target\<close>\<close>
  "buffer_cache_read sec s = do {
     (i, s) \<leftarrow> load_entry 106 sec s;
     e \<leftarrow> rd (cache s) i;
     Some (buffer e, set_entry i (e\<lparr>accessed := True\<rparr>) s)
   }"

definition buffer_cache_write :: "sector \<Rightarrow> bytes \<Rightarrow> 'a cached_scheme \<Rightarrow> 'a cached_scheme option" where
  "buffer_cache_write sec source s = do {
     (i, s) \<leftarrow> load_entry 125 sec s;
     e \<leftarrow> rd (cache s) i;
     if BLOCK_SECTOR_SIZE \<le> length source
     then Some (set_entry i (e\<lparr>accessed := True, dirty := True,
                               buffer := take BLOCK_SECTOR_SIZE source\<rparr>) s)
     else None
   }"

section \<open>Invariant and abstract value\<close>

definition device_ok :: "'a cached_scheme \<Rightarrow> bool" where
  "device_ok s \<longleftrightarrow> (\<exists>b. fs_device s = Some b \<and> raw_disk b s)"

definition fs_capacity :: "'a cached_scheme \<Rightarrow> sector" where
  "fs_capacity s = (case fs_device s of None \<Rightarrow> 0 | Some b \<Rightarrow> disk_capacity b s)"

definition holds :: "cache_entry list \<Rightarrow> nat \<Rightarrow> sector \<Rightarrow> bool" where
  \<comment> \<open>entry \<open>i\<close> caches sector \<open>sec\<close>\<close>
  "holds es i sec \<longleftrightarrow> i < length es \<and> occupied (es ! i) \<and> disk_sector (es ! i) = sec"

definition cache_view :: "'a cached_scheme \<Rightarrow> sector \<Rightarrow> bytes" where
  "cache_view s sec =
     (case buffer_cache_lookup sec s of
        Some i \<Rightarrow> buffer (cache s ! i)
      | None \<Rightarrow> disk_sector_at s sec)"

text \<open>
  An entry is coherent when its sector exists, its buffer is one sector long and, if it is
  clean, it equals the disk.
\<close>

definition coherent :: "sector \<Rightarrow> (sector \<Rightarrow> bytes) \<Rightarrow> cache_entry \<Rightarrow> bool" where
  "coherent n disk e \<longleftrightarrow> occupied e \<longrightarrow>
     disk_sector e < n \<and> (\<not> dirty e \<longrightarrow> buffer e = disk (disk_sector e))"

definition cache_inv :: "'a cached_scheme \<Rightarrow> bool" where
  "cache_inv s \<longleftrightarrow> device_ok s \<and> length (cache s) = BUFFER_CACHE_SIZE \<and>
     clock s < BUFFER_CACHE_SIZE \<and>
     (\<forall>e \<in> set (cache s). length (buffer e) = BLOCK_SECTOR_SIZE \<and>
                          coherent (fs_capacity s) (disk_sector_at s) e) \<and>
     (\<forall>i j sec. holds (cache s) i sec \<longrightarrow> holds (cache s) j sec \<longrightarrow> i = j)"

lemma lookup_from_Some:
  "lookup_from is sec es = Some i \<Longrightarrow> i \<in> set is \<and> occupied (es ! i) \<and> disk_sector (es ! i) = sec"
  by (induction "is") (auto split: if_splits)

lemma lookup_from_None:
  "lookup_from is sec es = None \<longleftrightarrow> (\<forall>i \<in> set is. \<not> (occupied (es ! i) \<and> disk_sector (es ! i) = sec))"
  by (induction "is") auto

lemma lookup_None_iff:
  "length (cache s) = BUFFER_CACHE_SIZE \<Longrightarrow>
   buffer_cache_lookup sec s = None \<longleftrightarrow> (\<forall>i. \<not> holds (cache s) i sec)"
  by (auto simp: buffer_cache_lookup_def lookup_from_None holds_def)

lemma lookup_Some_iff:
  assumes "cache_inv s"
  shows "buffer_cache_lookup sec s = Some i \<longleftrightarrow> holds (cache s) i sec"
proof
  assume "buffer_cache_lookup sec s = Some i"
  then show "holds (cache s) i sec"
    using assms lookup_from_Some [of "[0..<BUFFER_CACHE_SIZE]" sec "cache s" i]
    by (simp add: buffer_cache_lookup_def holds_def cache_inv_def)
next
  assume h: "holds (cache s) i sec"
  then obtain j where j: "buffer_cache_lookup sec s = Some j"
    using assms lookup_None_iff [of s sec] by (auto simp: cache_inv_def)
  then have "holds (cache s) j sec"
    using assms lookup_from_Some [of "[0..<BUFFER_CACHE_SIZE]" sec "cache s" j]
    by (simp add: buffer_cache_lookup_def holds_def cache_inv_def)
  then show "buffer_cache_lookup sec s = Some i"
    using h j assms by (metis cache_inv_def)
qed

lemma view_hit: "cache_inv s \<Longrightarrow> holds (cache s) i sec \<Longrightarrow> cache_view s sec = buffer (cache s ! i)"
  by (simp add: cache_view_def lookup_Some_iff [symmetric])

lemma view_miss:
  "cache_inv s \<Longrightarrow> (\<And>i. \<not> holds (cache s) i sec) \<Longrightarrow> cache_view s sec = disk_sector_at s sec"
  using lookup_None_iff [of s sec] by (simp add: cache_view_def cache_inv_def)

section \<open>What each step keeps\<close>

definition keeps :: "'a cached_scheme \<Rightarrow> 'a cached_scheme \<Rightarrow> bool" where
  "keeps s s' \<longleftrightarrow> cache_inv s' \<and> cache_view s' = cache_view s \<and> fs_capacity s' = fs_capacity s \<and>
     fs_device s' = fs_device s \<and> console s' = console s \<and> cached.more s' = cached.more s"

lemma keeps_refl [simp]: "cache_inv s \<Longrightarrow> keeps s s"
  by (simp add: keeps_def)

lemma keeps_trans: "keeps s s' \<Longrightarrow> keeps s' s'' \<Longrightarrow> keeps s s''"
  by (simp add: keeps_def)

lemma keeps_inv: "keeps s s' \<Longrightarrow> cache_inv s'"
  by (simp add: keeps_def)

text \<open>The view is determined by who holds what; two states that agree on it have equal views.\<close>

lemma view_eqI:
  assumes inv: "cache_inv s" "cache_inv s'"
    and hit: "\<And>i sec. holds (cache s) i sec \<Longrightarrow>
      cache_view s' sec = buffer (cache s ! i)"
    and miss: "\<And>sec. \<forall>i. \<not> holds (cache s) i sec \<Longrightarrow> cache_view s' sec = disk_sector_at s sec"
  shows "cache_view s' = cache_view s"
proof
  fix sec
  show "cache_view s' sec = cache_view s sec"
  proof (cases "\<exists>i. holds (cache s) i sec")
    case True
    then show ?thesis using hit view_hit [OF inv(1)] by metis
  next
    case False
    then show ?thesis using miss view_miss [OF inv(1)] by metis
  qed
qed

lemma holds_update:
  "i < length es \<Longrightarrow>
   holds (es[i := e]) j sec \<longleftrightarrow>
   (if j = i then occupied e \<and> disk_sector e = sec else holds es j sec)"
  by (auto simp: holds_def nth_list_update)

lemma cache_invD:
  assumes "cache_inv s" and "i < BUFFER_CACHE_SIZE"
  shows "i < length (cache s)" and "length (buffer (cache s ! i)) = BLOCK_SECTOR_SIZE"
    and "coherent (fs_capacity s) (disk_sector_at s) (cache s ! i)"
  using assms by (auto simp: cache_inv_def)

text \<open>Replacing entry \<open>i\<close> keeps the invariant when the new entry is coherent and claims no
  sector that another entry holds.\<close>

lemma cache_inv_replace:
  assumes inv: "cache_inv s" and i: "i < BUFFER_CACHE_SIZE"
    and s': "s' = s\<lparr>hd_file := f, blocks := bl, cache := (cache s)[i := e], clock := c\<rparr>"
    and dev: "device_ok s'" "fs_capacity s' = fs_capacity s" and c: "c < BUFFER_CACHE_SIZE"
    and e: "length (buffer e) = BLOCK_SECTOR_SIZE" "coherent (fs_capacity s) (disk_sector_at s') e"
    and others: "\<And>j sec. j \<noteq> i \<Longrightarrow> holds (cache s) j sec \<Longrightarrow>
       disk_sector_at s' sec = disk_sector_at s sec \<and> \<not> (occupied e \<and> disk_sector e = sec)"
  shows "cache_inv s'"
proof -
  have len: "length (cache s) = BUFFER_CACHE_SIZE" using inv by (simp add: cache_inv_def)
  have cs: "cache s' = (cache s)[i := e]" using s' by simp
  have coh: "length (buffer x) = BLOCK_SECTOR_SIZE \<and> coherent (fs_capacity s') (disk_sector_at s') x"
    if x: "x \<in> set (cache s')" for x
  proof -
    obtain j where j: "j < BUFFER_CACHE_SIZE" "x = (cache s)[i := e] ! j"
      using x cs len by (auto simp: in_set_conv_nth)
    show ?thesis
    proof (cases "j = i")
      case True
      then show ?thesis using j e dev len i by simp
    next
      case False
      then have xj: "x = cache s ! j" using j by simp
      have "coherent (fs_capacity s) (disk_sector_at s) x"
        and "length (buffer x) = BLOCK_SECTOR_SIZE"
        using cache_invD [OF inv j(1)] xj by simp_all
      moreover have "occupied x \<Longrightarrow> disk_sector_at s' (disk_sector x) = disk_sector_at s (disk_sector x)"
        using others [OF False] xj j(1) len by (simp add: holds_def)
      ultimately show ?thesis using dev by (auto simp: coherent_def)
    qed
  qed
  have uniq: "j = k" if "holds (cache s') j sec" "holds (cache s') k sec" for j k sec
    using that others inv len i unfolding cs by (auto simp: holds_update cache_inv_def split: if_splits)
  show ?thesis
    using dev(1) coh uniq c len cs unfolding cache_inv_def by (simp add: s')
qed

lemma device_ok_cong:
  "hd_file s' = hd_file s \<Longrightarrow> blocks s' = blocks s \<Longrightarrow> fs_device s' = fs_device s \<Longrightarrow>
   device_ok s' = device_ok s \<and> fs_capacity s' = fs_capacity s \<and> disk_sector_at s' = disk_sector_at s"
  by (auto simp: device_ok_def fs_capacity_def raw_disk_def disk_capacity_def disk_sector_at_def
      fun_eq_iff split: option.splits)

text \<open>Changing the reference bit of an entry or moving the clock hand changes nothing else.\<close>

lemma keeps_reference:
  assumes inv: "cache_inv s" and i: "i < BUFFER_CACHE_SIZE" and c: "c < BUFFER_CACHE_SIZE"
  shows "keeps s (set_entry i ((cache s ! i)\<lparr>accessed := a\<rparr>) s \<lparr>clock := c\<rparr>)"
    (is "keeps s ?s'")
proof -
  let ?e = "(cache s ! i)\<lparr>accessed := a\<rparr>"
  have D: "device_ok ?s' = device_ok s \<and> fs_capacity ?s' = fs_capacity s \<and>
           disk_sector_at ?s' = disk_sector_at s"
    by (rule device_ok_cong) (simp_all add: set_entry_def)
  have len: "i < length (cache s)" using cache_invD [OF inv i] by simp
  have inv': "cache_inv ?s'"
  proof (rule cache_inv_replace [OF inv i])
    show "?s' = s\<lparr>hd_file := hd_file s, blocks := blocks s, cache := (cache s)[i := ?e], clock := c\<rparr>"
      by (simp add: set_entry_def)
    show "device_ok ?s'" and "fs_capacity ?s' = fs_capacity s"
      using D inv by (simp_all add: cache_inv_def)
    show "length (buffer ?e) = BLOCK_SECTOR_SIZE" and "coherent (fs_capacity s) (disk_sector_at ?s') ?e"
      using cache_invD [OF inv i] D by (simp_all add: coherent_def)
    fix j sec assume "j \<noteq> i" and "holds (cache s) j sec"
    then show "disk_sector_at ?s' sec = disk_sector_at s sec \<and> \<not> (occupied ?e \<and> disk_sector ?e = sec)"
      using D inv len unfolding cache_inv_def holds_def by (metis cache_entry.select_convs(1,2)
          cache_entry.surjective cache_entry.update_convs(5))
  qed (use c in simp)
  have h: "holds (cache ?s') j sec \<longleftrightarrow> holds (cache s) j sec" for j sec
    using len by (auto simp: set_entry_def holds_update) (auto simp: holds_def)
  have b: "buffer (cache ?s' ! j) = buffer (cache s ! j)" for j
    by (cases "j = i") (use len in \<open>simp_all add: set_entry_def\<close>)
  have "cache_view ?s' = cache_view s"
  proof (rule view_eqI [OF inv inv'])
    fix j sec assume "holds (cache s) j sec"
    then show "cache_view ?s' sec = buffer (cache s ! j)"
      using view_hit [OF inv'] h b by metis
  next
    fix sec assume "\<forall>j. \<not> holds (cache s) j sec"
    then show "cache_view ?s' sec = disk_sector_at s sec"
      using view_miss [OF inv'] h D by metis
  qed
  then show ?thesis using inv' D by (simp add: keeps_def set_entry_def)
qed

section \<open>Replacement\<close>

definition drops_only :: "'a cached_scheme \<Rightarrow> 'a cached_scheme \<Rightarrow> bool" where
  \<comment> \<open>no entry starts to hold a sector\<close>
  "drops_only s s' \<longleftrightarrow> (\<forall>i sec. holds (cache s') i sec \<longrightarrow> holds (cache s) i sec)"

lemma drops_only_trans: "drops_only s s' \<Longrightarrow> drops_only s' s'' \<Longrightarrow> drops_only s s''"
  by (simp add: drops_only_def)

lemma drops_only_reference:
  "i < length (cache s) \<Longrightarrow>
   drops_only s (set_entry i ((cache s ! i)\<lparr>accessed := a\<rparr>) s \<lparr>clock := c\<rparr>)"
  by (simp add: drops_only_def set_entry_def holds_update) (simp add: holds_def)

lemma clock_loop_spec:
  assumes "cache_inv s"
  shows "\<exists>s'. clock_loop s = Some s' \<and> keeps s s' \<and> drops_only s s'"
  using assms
proof (induction s rule: clock_loop.induct)
  case (1 s)
  have c: "clock s < BUFFER_CACHE_SIZE" and len: "clock s < length (cache s)"
    using "1.prems" by (simp_all add: cache_inv_def)
  let ?e = "cache s ! clock s"
  let ?s1 = "set_entry (clock s) (?e\<lparr>accessed := False\<rparr>) s
               \<lparr>clock := (clock s + 1) mod BUFFER_CACHE_SIZE\<rparr>"
  show ?case
  proof (cases "occupied ?e \<and> accessed ?e")
    case True
    have "(clock s + 1) mod BUFFER_CACHE_SIZE < BUFFER_CACHE_SIZE"
      by (simp add: BUFFER_CACHE_SIZE_def)
    from keeps_reference [OF "1.prems" c this, of False] have k: "keeps s ?s1" .
    obtain s' where s': "clock_loop ?s1 = Some s'" "keeps ?s1 s'" "drops_only ?s1 s'"
      using "1.IH" [OF _ refl _ _ keeps_inv [OF k]] True len by auto
    have "clock_loop s = clock_loop ?s1"
      using True len by (subst clock_loop.simps) (simp add: Let_def)
    then show ?thesis
      using s' keeps_trans [OF k s'(2)]
        drops_only_trans [OF drops_only_reference [OF len] s'(3)] by auto
  next
    case False
    then have "clock_loop s = Some s"
      using len by (subst clock_loop.simps) (auto simp: Let_def)
    then show ?thesis using "1.prems" by (simp add: drops_only_def)
  qed
qed

lemma occupied_sector_in:
  "cache_inv s \<Longrightarrow> i < BUFFER_CACHE_SIZE \<Longrightarrow> occupied (cache s ! i) \<Longrightarrow>
   disk_sector (cache s ! i) < fs_capacity s \<and>
   (\<not> dirty (cache s ! i) \<longrightarrow> buffer (cache s ! i) = disk_sector_at s (disk_sector (cache s ! i)))"
  using cache_invD(3) [of s i] by (auto simp: coherent_def)

text \<open>Flushing an occupied entry writes it to disk when it is dirty and leaves it clean.\<close>

lemma buffer_cache_flush_spec:
  assumes inv: "cache_inv s" and i: "i < BUFFER_CACHE_SIZE" and occ: "occupied (cache s ! i)"
  shows "\<exists>s'. buffer_cache_flush i s = Some s' \<and> keeps s s' \<and> drops_only s s' \<and> clock s' = clock s \<and>
              cache s' = (cache s)[i := (cache s ! i)\<lparr>dirty := False\<rparr>]"
proof (cases "dirty (cache s ! i)")
  case False
  have len: "i < length (cache s)" using cache_invD [OF inv i] by simp
  have "(cache s ! i)\<lparr>dirty := False\<rparr> = cache s ! i" using False by simp
  then have same: "(cache s)[i := (cache s ! i)\<lparr>dirty := False\<rparr>] = cache s"
    by (metis list_update_id)
  show ?thesis
    unfolding same using False inv occ len by (simp add: buffer_cache_flush_def drops_only_def)
next
  case True
  let ?e = "cache s ! i" let ?sec = "disk_sector ?e"
  have len: "i < length (cache s)" and buf: "length (buffer ?e) = 512"
    using cache_invD [OF inv i] by (simp_all add: BLOCK_SECTOR_SIZE_def)
  obtain b where b: "fs_device s = Some b" "raw_disk b s" "fs_capacity s = disk_capacity b s"
    using inv by (auto simp: cache_inv_def device_ok_def fs_capacity_def)
  have "?sec < disk_capacity b s" using occupied_sector_in [OF inv i occ] b by simp
  then obtain s1 where s1: "block_write (Some b) ?sec (buffer ?e) s = Some s1" "raw_disk b s1"
      "disk_capacity b s1 = disk_capacity b s"
      "disk_sector_at s1 = (disk_sector_at s)(?sec := buffer ?e)"
      "s1 = s\<lparr>hd_file := hd_file s1, blocks := blocks s1\<rparr>"
    using block_write_raw [OF b(2) _ buf] by blast
  let ?e' = "?e\<lparr>dirty := False\<rparr>"
  let ?s' = "set_entry i ?e' s1"
  have s': "?s' = s\<lparr>hd_file := hd_file s1, blocks := blocks s1, cache := (cache s)[i := ?e']\<rparr>"
    by (subst (1) s1(5), subst (2) s1(5)) (simp add: set_entry_def)
  have D: "raw_disk b ?s' = raw_disk b s1" "disk_capacity b ?s' = disk_capacity b s1"
      "disk_sector_at ?s' = disk_sector_at s1"
    by (simp_all add: s' raw_disk_def disk_capacity_def disk_sector_at_def fun_eq_iff)
  have fd: "fs_device ?s' = Some b" using arg_cong [OF s', of fs_device] b(1) by simp
  have dev: "device_ok ?s'" "fs_capacity ?s' = fs_capacity s"
    unfolding device_ok_def fs_capacity_def fd using D s1(2,3) b by simp_all
  have other: "disk_sector_at ?s' sec = disk_sector_at s sec \<and> \<not> (occupied ?e' \<and> disk_sector ?e' = sec)"
    if "j \<noteq> i" "holds (cache s) j sec" for j sec
  proof -
    have "\<not> holds (cache s) i sec" using that inv by (auto simp: cache_inv_def)
    then have "?sec \<noteq> sec" using occ len by (simp add: holds_def)
    then show ?thesis using D s1(4) by simp
  qed
  have inv': "cache_inv ?s'"
  proof (rule cache_inv_replace [OF inv i])
    show "?s' = s\<lparr>hd_file := hd_file s1, blocks := blocks s1, cache := (cache s)[i := ?e'], clock := clock s\<rparr>"
      using s' by simp
    show "clock s < BUFFER_CACHE_SIZE" using inv by (simp add: cache_inv_def)
    show "coherent (fs_capacity s) (disk_sector_at ?s') ?e'"
      using occupied_sector_in [OF inv i occ] D s1(4) by (simp add: coherent_def)
  qed (use dev other buf in \<open>simp_all add: BLOCK_SECTOR_SIZE_def\<close>)
  have cs: "cache ?s' = (cache s)[i := ?e']" using s' by simp
  have h: "holds (cache ?s') j sec \<longleftrightarrow> holds (cache s) j sec" for j sec
    unfolding cs using len by (auto simp: holds_update) (auto simp: holds_def)
  have bf: "buffer (cache ?s' ! j) = buffer (cache s ! j)" for j
    unfolding cs by (cases "j = i") (use len in simp_all)
  have "cache_view ?s' = cache_view s"
  proof (rule view_eqI [OF inv inv'])
    fix j sec assume "holds (cache s) j sec"
    then show "cache_view ?s' sec = buffer (cache s ! j)"
      using view_hit [OF inv'] h bf by metis
  next
    fix sec assume no: "\<forall>j. \<not> holds (cache s) j sec"
    then have "?sec \<noteq> sec" using occ len by (auto simp: holds_def)
    then show "cache_view ?s' sec = disk_sector_at s sec"
      using view_miss [OF inv'] h D s1(4) no by (metis fun_upd_apply)
  qed
  moreover have "buffer_cache_flush i s = Some ?s'"
    using True occ len b s1(1) by (simp add: buffer_cache_flush_def)
  ultimately show ?thesis
    using inv' dev s' h cs by (auto simp: keeps_def drops_only_def)
qed

text \<open>Giving up a clean entry loses nothing: the disk has its content.\<close>

lemma keeps_vacate:
  assumes inv: "cache_inv s" and i: "i < BUFFER_CACHE_SIZE" and clean: "\<not> dirty (cache s ! i)"
  shows "keeps s (set_entry i ((cache s ! i)\<lparr>occupied := False\<rparr>) s)" (is "keeps s ?s'")
    and "drops_only s (set_entry i ((cache s ! i)\<lparr>occupied := False\<rparr>) s)"
proof -
  let ?e = "(cache s ! i)\<lparr>occupied := False\<rparr>"
  have len: "i < length (cache s)" using cache_invD [OF inv i] by simp
  have D: "device_ok ?s' = device_ok s \<and> fs_capacity ?s' = fs_capacity s \<and>
           disk_sector_at ?s' = disk_sector_at s"
    by (rule device_ok_cong) (simp_all add: set_entry_def)
  have inv': "cache_inv ?s'"
  proof (rule cache_inv_replace [OF inv i])
    show "?s' = s\<lparr>hd_file := hd_file s, blocks := blocks s, cache := (cache s)[i := ?e], clock := clock s\<rparr>"
      by (simp add: set_entry_def)
  qed (use inv D cache_invD [OF inv i] in \<open>simp_all add: cache_inv_def coherent_def\<close>)
  have h: "holds (cache ?s') j sec \<longleftrightarrow> j \<noteq> i \<and> holds (cache s) j sec" for j sec
    using len by (auto simp: set_entry_def holds_update)
  then show "drops_only s ?s'" by (simp add: drops_only_def)
  have b: "buffer (cache ?s' ! j) = buffer (cache s ! j)" for j
    by (cases "j = i") (use len in \<open>simp_all add: set_entry_def\<close>)
  have "cache_view ?s' = cache_view s"
  proof (rule view_eqI [OF inv inv'])
    fix j sec assume hj: "holds (cache s) j sec"
    show "cache_view ?s' sec = buffer (cache s ! j)"
    proof (cases "j = i")
      case True
      then have "\<not> holds (cache ?s') k sec" for k using h hj inv by (auto simp: cache_inv_def)
      then show ?thesis
        using view_miss [OF inv'] D occupied_sector_in [OF inv i] clean hj True
        by (auto simp: holds_def)
    next
      case False
      then show ?thesis using view_hit [OF inv'] h b hj by metis
    qed
  next
    fix sec assume "\<forall>j. \<not> holds (cache s) j sec"
    then show "cache_view ?s' sec = disk_sector_at s sec"
      using view_miss [OF inv'] h D by metis
  qed
  then show "keeps s ?s'" using inv' D by (simp add: keeps_def set_entry_def)
qed

lemma buffer_cache_evict_spec:
  assumes inv: "cache_inv s"
  shows "\<exists>i s'. buffer_cache_evict s = Some (i, s') \<and> keeps s s' \<and> drops_only s s' \<and>
                i < BUFFER_CACHE_SIZE \<and> \<not> occupied (cache s' ! i)"
proof -
  obtain s1 where s1: "clock_loop s = Some s1" "keeps s s1" "drops_only s s1"
    using clock_loop_spec [OF inv] by blast
  have inv1: "cache_inv s1" by (rule keeps_inv [OF s1(2)])
  then have c: "clock s1 < BUFFER_CACHE_SIZE" by (simp add: cache_inv_def)
  have len: "clock s1 < length (cache s1)" using cache_invD [OF inv1 c] by simp
  show ?thesis
  proof (cases "occupied (cache s1 ! clock s1)")
    case False
    then show ?thesis using s1 c len by (simp add: buffer_cache_evict_def)
  next
    case True
    let ?flush = "if dirty (cache s1 ! clock s1) then buffer_cache_flush (clock s1) s1 else Some s1"
    obtain s2 where s2: "?flush = Some s2" "keeps s1 s2" "drops_only s1 s2"
        "\<not> dirty (cache s2 ! clock s1)"
    proof (cases "dirty (cache s1 ! clock s1)")
      case True
      then show thesis
        using that buffer_cache_flush_spec [OF inv1 c \<open>occupied (cache s1 ! clock s1)\<close>] len by auto
    next
      case False
      then show thesis using that [of s1] inv1 by (simp add: drops_only_def)
    qed
    have inv2: "cache_inv s2" by (rule keeps_inv [OF s2(2)])
    have len2: "clock s1 < length (cache s2)" using cache_invD [OF inv2 c] by simp
    let ?s3 = "set_entry (clock s1) ((cache s2 ! clock s1)\<lparr>occupied := False\<rparr>) s2"
    have "buffer_cache_evict s = Some (clock s1, ?s3)"
      using s1 s2(1) True len len2 by (simp add: buffer_cache_evict_def Let_def split: if_splits)
    moreover have "\<not> occupied (cache ?s3 ! clock s1)" using len2 by (simp add: set_entry_def)
    ultimately show ?thesis
      using c s1 s2 keeps_vacate [OF inv2 c s2(4)]
      by (metis drops_only_trans keeps_trans)
  qed
qed

section \<open>Reading and writing through the cache\<close>

lemma load_entry_spec:
  assumes inv: "cache_inv s" and sec: "sec < fs_capacity s"
  shows "\<exists>i s'. load_entry line sec s = Some (i, s') \<and> keeps s s' \<and> holds (cache s') i sec"
proof (cases "buffer_cache_lookup sec s")
  case (Some i)
  then have "holds (cache s) i sec" using lookup_Some_iff [OF inv] by simp
  then show ?thesis unfolding load_entry_def Some using inv by simp
next
  case None
  then have free: "\<not> holds (cache s) j sec" for j
    using inv lookup_None_iff [of s sec] by (simp add: cache_inv_def)
  obtain i s1 where s1: "buffer_cache_evict s = Some (i, s1)" "keeps s s1" "drops_only s s1"
      "i < BUFFER_CACHE_SIZE" "\<not> occupied (cache s1 ! i)"
    using buffer_cache_evict_spec [OF inv] by blast
  have inv1: "cache_inv s1" by (rule keeps_inv [OF s1(2)])
  have len: "i < length (cache s1)" and buf: "length (buffer (cache s1 ! i)) = 512"
    using cache_invD [OF inv1 s1(4)] by (simp_all add: BLOCK_SECTOR_SIZE_def)
  have free1: "\<not> holds (cache s1) j sec" for j using free s1(3) by (auto simp: drops_only_def)
  have sec1: "sec < fs_capacity s1" using sec s1(2) by (simp add: keeps_def)
  obtain b where b: "fs_device s1 = Some b" "raw_disk b s1" "fs_capacity s1 = disk_capacity b s1"
    using inv1 by (auto simp: cache_inv_def device_ok_def fs_capacity_def)
  obtain s2 where s2: "block_read (Some b) sec (buffer (cache s1 ! i)) s1 = Some (disk_sector_at s1 sec, s2)"
      "raw_disk b s2" "disk_capacity b s2 = disk_capacity b s1" "disk_sector_at s2 = disk_sector_at s1"
      "s2 = s1\<lparr>blocks := blocks s2\<rparr>"
    using block_read_raw [OF b(2) _ buf] sec1 b(3) by metis
  let ?e = "(cache s1 ! i)\<lparr>occupied := True, disk_sector := sec, dirty := False,
              buffer := disk_sector_at s1 sec\<rparr>"
  let ?s' = "set_entry i ?e s2"
  have s': "?s' = s1\<lparr>hd_file := hd_file s1, blocks := blocks s2, cache := (cache s1)[i := ?e]\<rparr>"
    by (subst (1) s2(5), subst (2) s2(5)) (simp add: set_entry_def)
  have D: "raw_disk b ?s' = raw_disk b s2" "disk_capacity b ?s' = disk_capacity b s2"
      "disk_sector_at ?s' = disk_sector_at s1"
    using s2(4) by (simp_all add: set_entry_def raw_disk_def disk_capacity_def disk_sector_at_def fun_eq_iff)
  have fd: "fs_device ?s' = Some b" using arg_cong [OF s', of fs_device] b(1) by simp
  have dev: "device_ok ?s'" "fs_capacity ?s' = fs_capacity s1"
    unfolding device_ok_def fs_capacity_def fd using D s2(2,3) b by simp_all
  have dlen: "length (disk_sector_at s1 sec) = BLOCK_SECTOR_SIZE"
    using dev.view_length [OF b(2)] sec1 b(3) by simp
  have inv': "cache_inv ?s'"
  proof (rule cache_inv_replace [OF inv1 s1(4)])
    show "?s' = s1\<lparr>hd_file := hd_file s1, blocks := blocks s2, cache := (cache s1)[i := ?e], clock := clock s1\<rparr>"
      using s' by simp
    show "clock s1 < BUFFER_CACHE_SIZE" using inv1 by (simp add: cache_inv_def)
    fix j x assume "j \<noteq> i" and "holds (cache s1) j x"
    then show "disk_sector_at ?s' x = disk_sector_at s1 x \<and> \<not> (occupied ?e \<and> disk_sector ?e = x)"
      using D free1 by auto
  qed (use dev dlen D sec1 in \<open>simp_all add: coherent_def\<close>)
  have cs: "cache ?s' = (cache s1)[i := ?e]" using s' by simp
  have h: "holds (cache ?s') j x \<longleftrightarrow> (if j = i then x = sec else holds (cache s1) j x)" for j x
    unfolding cs using len by (auto simp: holds_update)
  have ni: "\<not> holds (cache s1) i x" for x using s1(5) by (simp add: holds_def)
  have "cache_view ?s' = cache_view s1"
  proof (rule view_eqI [OF inv1 inv'])
    fix j x assume hj: "holds (cache s1) j x"
    then have "j \<noteq> i" using ni by auto
    then show "cache_view ?s' x = buffer (cache s1 ! j)"
      using view_hit [OF inv', of j x] h hj cs by simp
  next
    fix x assume no: "\<forall>j. \<not> holds (cache s1) j x"
    show "cache_view ?s' x = disk_sector_at s1 x"
    proof (cases "x = sec")
      case True
      then show ?thesis using view_hit [OF inv', of i x] h cs len by simp
    next
      case False
      then show ?thesis using view_miss [OF inv', of x] h no D by simp
    qed
  qed
  then have "keeps s1 ?s'"
    unfolding keeps_def using inv' dev fd b(1) arg_cong [OF s', of console]
      arg_cong [OF s', of cached.more] by simp
  then have "keeps s ?s'" by (rule keeps_trans [OF s1(2)])
  moreover have "load_entry line sec s = Some (i, ?s')"
    using None s1(1,5) len b(1) s2(1) by (simp add: load_entry_def)
  moreover have "holds (cache ?s') i sec" using h by simp
  ultimately show ?thesis by metis
qed

lemma buffer_cache_read_spec:
  assumes inv: "cache_inv s" and sec: "sec < fs_capacity s"
  shows "\<exists>s'. buffer_cache_read sec s = Some (cache_view s sec, s') \<and> keeps s s'"
proof -
  obtain i s1 where s1: "load_entry 106 sec s = Some (i, s1)" "keeps s s1" "holds (cache s1) i sec"
    using load_entry_spec [OF inv sec] by blast
  have inv1: "cache_inv s1" by (rule keeps_inv [OF s1(2)])
  have len: "i < length (cache s1)" using s1(3) by (simp add: holds_def)
  then have i: "i < BUFFER_CACHE_SIZE" and c: "clock s1 < BUFFER_CACHE_SIZE"
    using inv1 by (simp_all add: cache_inv_def)
  have "set_entry i ((cache s1 ! i)\<lparr>accessed := True\<rparr>) s1 \<lparr>clock := clock s1\<rparr>
      = set_entry i ((cache s1 ! i)\<lparr>accessed := True\<rparr>) s1"
    by (simp add: set_entry_def)
  then have "keeps s1 (set_entry i ((cache s1 ! i)\<lparr>accessed := True\<rparr>) s1)"
    using keeps_reference [OF inv1 i c, of True] by simp
  then show ?thesis
    using s1 len view_hit [OF inv1 s1(3)] keeps_trans [OF s1(2)]
    by (simp add: buffer_cache_read_def keeps_def [of s s1])
qed

lemma buffer_cache_write_spec:
  assumes inv: "cache_inv s" and sec: "sec < fs_capacity s" and d: "length data = BLOCK_SECTOR_SIZE"
  shows "\<exists>s'. buffer_cache_write sec data s = Some s' \<and> cache_inv s' \<and>
              cache_view s' = (cache_view s)(sec := data) \<and> fs_capacity s' = fs_capacity s \<and>
              fs_device s' = fs_device s \<and> console s' = console s \<and> cached.more s' = cached.more s"
proof -
  obtain i s1 where s1: "load_entry 125 sec s = Some (i, s1)" "keeps s s1" "holds (cache s1) i sec"
    using load_entry_spec [OF inv sec] by blast
  have inv1: "cache_inv s1" by (rule keeps_inv [OF s1(2)])
  have len: "i < length (cache s1)" using s1(3) by (simp add: holds_def)
  then have i: "i < BUFFER_CACHE_SIZE" using inv1 by (simp add: cache_inv_def)
  have at: "occupied (cache s1 ! i)" "disk_sector (cache s1 ! i) = sec"
    using s1(3) by (simp_all add: holds_def)
  let ?e = "(cache s1 ! i)\<lparr>accessed := True, dirty := True, buffer := data\<rparr>"
  let ?s' = "set_entry i ?e s1"
  have D: "device_ok ?s' = device_ok s1 \<and> fs_capacity ?s' = fs_capacity s1 \<and>
           disk_sector_at ?s' = disk_sector_at s1"
    by (rule device_ok_cong) (simp_all add: set_entry_def)
  have inv': "cache_inv ?s'"
  proof (rule cache_inv_replace [OF inv1 i])
    show "?s' = s1\<lparr>hd_file := hd_file s1, blocks := blocks s1, cache := (cache s1)[i := ?e], clock := clock s1\<rparr>"
      by (simp add: set_entry_def)
    fix j x assume "j \<noteq> i" and "holds (cache s1) j x"
    then show "disk_sector_at ?s' x = disk_sector_at s1 x \<and> \<not> (occupied ?e \<and> disk_sector ?e = x)"
      using D at s1(3) inv1 by (auto simp: cache_inv_def)
  qed (use inv1 D d occupied_sector_in [OF inv1 i] at in \<open>simp_all add: cache_inv_def coherent_def\<close>)
  have cs: "cache ?s' = (cache s1)[i := ?e]" by (simp add: set_entry_def)
  have h: "holds (cache ?s') j x \<longleftrightarrow> holds (cache s1) j x" for j x
    unfolding cs using len by (auto simp: holds_update) (auto simp: holds_def)
  have "cache_view ?s' x = ((cache_view s1)(sec := data)) x" for x
  proof (cases "\<exists>j. holds (cache s1) j x")
    case True
    then obtain j where j: "holds (cache s1) j x" by blast
    have "x = sec \<longleftrightarrow> j = i"
      using j s1(3) inv1 by (auto simp: cache_inv_def) (auto simp: holds_def)
    then show ?thesis
      using view_hit [OF inv', of j x] view_hit [OF inv1 j] h j cs len by auto
  next
    case False
    then have "x \<noteq> sec" using s1(3) by auto
    then show ?thesis
      using False view_miss [OF inv', of x] view_miss [OF inv1, of x] h D by simp
  qed
  then have "cache_view ?s' = (cache_view s1)(sec := data)" by blast
  moreover have "buffer_cache_write sec data s = Some ?s'"
    using s1 len d by (simp add: buffer_cache_write_def)
  ultimately show ?thesis
    using inv' D s1(2) by (simp add: keeps_def) (simp add: set_entry_def)
qed

text \<open>The cache is a sector store with the capacity of its device.\<close>

interpretation bc: sector_store cache_inv fs_capacity cache_view console
  buffer_cache_read buffer_cache_write
proof (unfold_locales, goal_cases)
  case (1 s sec)
  show ?case
  proof (cases "\<exists>i. holds (cache s) i sec")
    case True
    then obtain i where i: "holds (cache s) i sec" by blast
    then have "i < BUFFER_CACHE_SIZE" using 1 by (simp add: holds_def cache_inv_def)
    then show ?thesis using cache_invD [OF 1(1)] view_hit [OF 1(1) i] by simp
  next
    case False
    obtain b where "raw_disk b s" "fs_capacity s = disk_capacity b s"
      using 1(1) by (auto simp: cache_inv_def device_ok_def fs_capacity_def)
    then show ?thesis using 1 False view_miss [OF 1(1)] dev.view_length by metis
  qed
next
  case (2 s sec)
  then show ?case using buffer_cache_read_spec [OF 2] by (auto simp: keeps_def)
next
  case (3 s sec data)
  then show ?case using buffer_cache_write_spec [OF 3] by blast
qed

section \<open>Start and shutdown\<close>

lemma buffer_cache_init_spec:
  assumes "device_ok s" and "length (cache s) = BUFFER_CACHE_SIZE" and "clock s < BUFFER_CACHE_SIZE"
    and "\<forall>e \<in> set (cache s). length (buffer e) = BLOCK_SECTOR_SIZE"
  shows "cache_inv (buffer_cache_init s) \<and> cache_view (buffer_cache_init s) = disk_sector_at s"
proof -
  let ?s' = "buffer_cache_init s"
  have D: "device_ok ?s' = device_ok s \<and> fs_capacity ?s' = fs_capacity s \<and>
           disk_sector_at ?s' = disk_sector_at s"
    by (rule device_ok_cong) (simp_all add: buffer_cache_init_def)
  have none: "\<not> holds (cache ?s') i sec" for i sec
    by (auto simp: buffer_cache_init_def holds_def)
  have inv: "cache_inv ?s'"
    using assms D none unfolding cache_inv_def
    by (auto simp: buffer_cache_init_def coherent_def)
  moreover have "cache_view ?s' = disk_sector_at s"
    using view_miss [OF inv] none D by auto
  ultimately show ?thesis by simp
qed

definition clean :: "cache_entry \<Rightarrow> bool" where
  "clean e \<longleftrightarrow> (occupied e \<longrightarrow> \<not> dirty e)"

lemma close_from_spec:
  assumes "cache_inv s" and "\<forall>i \<in> set is. i < BUFFER_CACHE_SIZE"
  shows "\<exists>s'. close_from is s = Some s' \<and> keeps s s' \<and> (\<forall>i \<in> set is. clean (cache s' ! i)) \<and>
              (\<forall>i. clean (cache s ! i) \<longrightarrow> clean (cache s' ! i))"
  using assms
proof (induction "is" arbitrary: s)
  case Nil
  then show ?case by simp
next
  case (Cons i "is")
  have i: "i < BUFFER_CACHE_SIZE" using Cons.prems by simp
  have len: "i < length (cache s)" using cache_invD [OF Cons.prems(1) i] by simp
  show ?case
  proof (cases "occupied (cache s ! i)")
    case False
    then have "clean (cache s ! i)" by (simp add: clean_def)
    moreover have "close_from (i # is) s = close_from is s" using False len by simp
    ultimately show ?thesis
      using Cons.IH [OF Cons.prems(1)] Cons.prems(2) by auto
  next
    case True
    then obtain s1 where s1: "buffer_cache_flush i s = Some s1" "keeps s s1"
        "cache s1 = (cache s)[i := (cache s ! i)\<lparr>dirty := False\<rparr>]"
      using buffer_cache_flush_spec [OF Cons.prems(1) i True] by blast
    have grow: "clean (cache s1 ! j)" if "clean (cache s ! j) \<or> j = i" for j
      using that len s1(3) by (cases "j = i") (auto simp: clean_def)
    obtain s' where s': "close_from is s1 = Some s'" "keeps s1 s'" "\<forall>i \<in> set is. clean (cache s' ! i)"
        "\<forall>i. clean (cache s1 ! i) \<longrightarrow> clean (cache s' ! i)"
      using Cons.IH [OF keeps_inv [OF s1(2)]] Cons.prems(2) by auto
    then show ?thesis
      using True len s1(1) grow keeps_trans [OF s1(2) s'(2)] by auto
  qed
qed

text \<open>After closing, the disk itself holds the view: nothing is left only in the cache.\<close>

lemma buffer_cache_close_spec:
  assumes "cache_inv s"
  shows "\<exists>s'. buffer_cache_close s = Some s' \<and> keeps s s' \<and> disk_sector_at s' = cache_view s"
proof -
  obtain s' where s': "buffer_cache_close s = Some s'" "keeps s s'"
      "\<forall>i < BUFFER_CACHE_SIZE. clean (cache s' ! i)"
    using close_from_spec [OF assms, of "[0..<BUFFER_CACHE_SIZE]"]
    by (auto simp: buffer_cache_close_def)
  have inv: "cache_inv s'" by (rule keeps_inv [OF s'(2)])
  have "disk_sector_at s' sec = cache_view s' sec" for sec
  proof (cases "\<exists>i. holds (cache s') i sec")
    case True
    then obtain i where i: "holds (cache s') i sec" by blast
    then have "i < BUFFER_CACHE_SIZE" "occupied (cache s' ! i)" "disk_sector (cache s' ! i) = sec"
      using inv by (auto simp: holds_def cache_inv_def)
    then show ?thesis
      using s'(3) occupied_sector_in [OF inv] view_hit [OF inv i] by (auto simp: clean_def)
  next
    case False
    then show ?thesis using view_miss [OF inv] by metis
  qed
  then show ?thesis using s' by (auto simp: keeps_def)
qed

end
