(* ===== verification/Storage_Props.thy ===== *)
theory Storage_Props
  imports Bitmap Cache
begin

text \<open>
  What the storage layers promise their clients: allocation in bitmaps, the disk seen through the
  buffer cache, and the two places where the disk layers leave their contract (sectors beyond
  4 GiB, extended partitions).
\<close>

section \<open>Bitmaps as allocators\<close>

text \<open>
  C21: \<open>bitmap_scan_and_flip\<close> is a first-fit allocator: when it returns a position, the run there
  had the value asked for, is the first such run, is flipped, and no other bit changes; no
  assertion fails on the way.
\<close>

theorem bitmap_alloc_first_fit:
  assumes "wf_bitmap b" and "start \<le> bit_cnt b" and "bit_cnt b < BITMAP_ERROR"
    and "bitmap_scan_and_flip b start cnt v w = Some ((k, b'), w')" and "k \<noteq> BITMAP_ERROR"
  shows "wf_bitmap b' \<and> w' = w \<and> start \<le> k \<and> run_at (bits_of b) k cnt v \<and>
    bits_of b' = fill (bits_of b) k cnt (\<not> v) \<and> (\<forall>j. start \<le> j \<and> j < k \<longrightarrow> \<not> run_at (bits_of b) j cnt v)"
  using bm.scan_flip_success [of b start cnt v w k b' w'] assms by simp

theorem bitmap_alloc_first_fit_witness:
  "\<exists>b b' w. bitmap_scan_and_flip b 0 3 False w = Some ((0, b'), w) \<and> wf_bitmap b \<and>
     bits_of b' = fill (bits_of b) 0 3 True \<and> bit_cnt b = 70 \<and> w = \<lparr>console = []\<rparr>"
proof -
  let ?w = "\<lparr>console = []\<rparr> :: world"
  obtain b where b: "wf_bitmap b" "bit_cnt b = 70" "bits_of b = replicate 70 False"
    using bitmap_create_spec [of 70 ?w] by blast
  have "first_run (bits_of b) 0 3 False = Some 0"
    by (simp add: b first_run_def upt_conv_Cons run_at_def)
  then obtain b' where b': "bitmap_scan_and_flip b 0 3 False ?w = Some ((0, b'), ?w)"
    using bitmap_scan_and_flip_found [of b 0 3 False 0 ?w] b by (auto simp: BITMAP_ERROR_def)
  then have "bits_of b' = fill (bits_of b) 0 3 True"
    using bitmap_alloc_first_fit [OF b(1) _ _ b'] b(2) by (simp add: BITMAP_ERROR_def)
  then show ?thesis using b(1,2) b' by blast
qed

text \<open>
  \<open>bitmap_scan_and_flip\<close> fails, with \<open>BITMAP_ERROR\<close> and nothing changed, only when no run of
  the asked length and value starts at or after \<open>start\<close>.
\<close>

theorem bitmap_alloc_full:
  assumes "wf_bitmap b" and "start \<le> bit_cnt b" and "bit_cnt b < BITMAP_ERROR"
    and "bitmap_scan_and_flip b start cnt v w = Some ((BITMAP_ERROR, b'), w')"
  shows "b' = b \<and> w' = w \<and> (\<forall>j \<ge> start. \<not> run_at (bits_of b) j cnt v)"
  using bm.scan_flip_failure [of b start cnt v w b' w'] assms by simp

theorem bitmap_alloc_full_witness:
  "\<not> run_at (bits_of \<lparr>bit_cnt = 2, bits = [1]\<rparr>) 1 2 False"
proof -
  let ?b = "\<lparr>bit_cnt = 2, bits = [1]\<rparr>" and ?w = "\<lparr>console = []\<rparr> :: world"
  have wf: "wf_bitmap ?b" by (simp add: wf_bitmap_def elem_cnt_def DIV_ROUND_UP_def ELEM_BITS_def)
  have vec: "bits_of ?b = [True, False]"
    by (simp add: bits_of_def bit_at_def elem_idx_def ELEM_BITS_def upt_conv_Cons bit_simps)
  have "first_run (bits_of ?b) 0 2 False = None"
    unfolding vec by (simp add: first_run_def upt_conv_Cons run_at_def atLeast0_lessThan_Suc)
  then have "bitmap_scan_and_flip ?b 0 2 False ?w = Some ((BITMAP_ERROR, ?b), ?w)"
    by (intro bitmap_scan_and_flip_none wf) simp_all
  from bitmap_alloc_full [OF wf _ _ this] show ?thesis by (simp add: BITMAP_ERROR_def)
qed

text \<open>
  C27: Clearing the run that was just allocated gives the bitmap back as it was: allocation and
  release are inverse.
\<close>

theorem bitmap_alloc_release:
  assumes "wf_bitmap b" and "start \<le> bit_cnt b" and "bit_cnt b < BITMAP_ERROR"
    and "bitmap_scan_and_flip b start cnt v w = Some ((k, b'), w')" and "k \<noteq> BITMAP_ERROR"
  shows "\<exists>b''. bitmap_set_multiple b' k cnt v w' = Some (b'', w) \<and> wf_bitmap b'' \<and> bits_of b'' = bits_of b"
  using bm.alloc_release [of b start cnt v w k b' w'] assms by simp

theorem bitmap_alloc_release_witness:
  "\<exists>b b' b'' w. bitmap_scan_and_flip b 0 3 False w = Some ((0, b'), w) \<and>
     bitmap_set_multiple b' 0 3 False w = Some (b'', w) \<and> bits_of b'' = bits_of b \<and> bit_cnt b = 70 \<and> w = \<lparr>console = []\<rparr>"
proof -
  let ?w = "\<lparr>console = []\<rparr> :: world"
  obtain b where b: "wf_bitmap b" "bit_cnt b = 70" "bits_of b = replicate 70 False"
    using bitmap_create_spec [of 70 ?w] by blast
  have "first_run (bits_of b) 0 3 False = Some 0"
    by (simp add: b first_run_def upt_conv_Cons run_at_def)
  then obtain b' where b': "bitmap_scan_and_flip b 0 3 False ?w = Some ((0, b'), ?w)"
    using bitmap_scan_and_flip_found [of b 0 3 False 0 ?w] b by (auto simp: BITMAP_ERROR_def)
  then obtain b'' where "bitmap_set_multiple b' 0 3 False ?w = Some (b'', ?w)" "bits_of b'' = bits_of b"
    using bitmap_alloc_release [OF b(1) _ _ b'] b(2) by (auto simp: BITMAP_ERROR_def)
  then show ?thesis using b(2) b' by blast
qed

text \<open>
  An allocation of \<open>cnt\<close> entries lowers \<open>bitmap_count\<close> of the free value by exactly \<open>cnt\<close>.
\<close>

theorem bitmap_alloc_count:
  assumes "wf_bitmap b" and "start \<le> bit_cnt b" and "bit_cnt b < BITMAP_ERROR"
    and "bitmap_scan_and_flip b start cnt v w = Some ((k, b'), w')" and "k \<noteq> BITMAP_ERROR"
  shows "\<exists>c. bitmap_count b 0 (bit_cnt b) v w = Some (c + cnt, w) \<and>
             bitmap_count b' 0 (bit_cnt b') v w' = Some (c, w')"
  using bm.alloc_count [of b start cnt v w k b' w'] assms by simp

theorem bitmap_alloc_count_witness:
  "\<exists>b b' c w. bitmap_scan_and_flip b 0 3 False w = Some ((0, b'), w) \<and>
     bitmap_count b 0 (bit_cnt b) False w = Some (c + 3, w) \<and> bitmap_count b' 0 (bit_cnt b') False w = Some (c, w) \<and>
     bit_cnt b = 70 \<and> w = \<lparr>console = []\<rparr>"
proof -
  let ?w = "\<lparr>console = []\<rparr> :: world"
  obtain b where b: "wf_bitmap b" "bit_cnt b = 70" "bits_of b = replicate 70 False"
    using bitmap_create_spec [of 70 ?w] by blast
  have "first_run (bits_of b) 0 3 False = Some 0"
    by (simp add: b first_run_def upt_conv_Cons run_at_def)
  then obtain b' where b': "bitmap_scan_and_flip b 0 3 False ?w = Some ((0, b'), ?w)"
    using bitmap_scan_and_flip_found [of b 0 3 False 0 ?w] b by (auto simp: BITMAP_ERROR_def)
  then obtain c where "bitmap_count b 0 (bit_cnt b) False ?w = Some (c + 3, ?w)"
    "bitmap_count b' 0 (bit_cnt b') False ?w = Some (c, ?w)"
    using bitmap_alloc_count [OF b(1) _ _ b'] b(2) unfolding BITMAP_ERROR_def by auto
  then show ?thesis using b(2) b' by blast
qed

text \<open>
  C29: The image of a bitmap, as it is stored in its file, loads back to the same bits.
\<close>

theorem bitmap_image_roundtrip:
  assumes "wf_bitmap b"
  shows "\<exists>b'. bitmap_create_from_buf (bit_cnt b) (bytes_of_words 8 (bits b) @ rest) w = Some (b', w)
              \<and> wf_bitmap b' \<and> bits_of b' = bits_of b"
  by (rule bitmap_create_from_buf_image [OF assms])

theorem bitmap_image_roundtrip_witness:
  "\<exists>b'. bitmap_create_from_buf 65 (bytes_of_words 8 [5, 1 :: 64 word] @ [7]) \<lparr>console = []\<rparr> = Some (b', \<lparr>console = []\<rparr>) \<and>
     bits_of b' = bits_of \<lparr>bit_cnt = 65, bits = [5, 1]\<rparr>"
  using bitmap_image_roundtrip [of "\<lparr>bit_cnt = 65, bits = [5, 1]\<rparr>" "[7]" "\<lparr>console = []\<rparr> :: world"]
  by (auto simp: wf_bitmap_def elem_cnt_def DIV_ROUND_UP_def ELEM_BITS_def)

section \<open>The disk through the cache\<close>

text \<open>
  C4: Every sequence of reads and writes of sectors of the file system device is answered by the
  buffer cache as by an array of sectors: what a read returns is the last data written to that
  sector, or what the disk held; no access is undefined and nothing is printed.
\<close>

theorem cache_serves_as_disk:
  assumes "cache_inv s" and "\<forall>r \<in> set rs. request_ok (fs_capacity s) r"
  shows "\<exists>s'. serve buffer_cache_read buffer_cache_write rs s = Some (fst (serve_spec rs (cache_view s)), s') \<and>
    cache_inv s' \<and> cache_view s' = snd (serve_spec rs (cache_view s)) \<and> console s' = console s"
  using bc.serve_refines [OF assms] by blast

definition small_disk :: cached where
  \<comment> \<open>a disk of two sectors and an empty cache\<close>
  "small_disk = buffer_cache_init
     \<lparr>console = [], hd_file = replicate 1024 0,
      blocks = [\<lparr>bd_name = ''hda'', bd_fname = ''disk'', bd_size = 2, bd_ops = Ide, read_cnt = 0, write_cnt = 0\<rparr>],
      hard_drive = Some 0, fs_device = Some 0,
      cache = replicate 64 \<lparr>occupied = False, disk_sector = 0, buffer = replicate 512 0, dirty = False, accessed = False\<rparr>,
      clock = 0\<rparr>"

lemma small_disk_ok: "cache_inv small_disk" "fs_capacity small_disk = 2"
  "disk_sector_at small_disk 0 = replicate 512 0" "cache_view small_disk = disk_sector_at small_disk"
proof -
  let ?s = "\<lparr>console = [], hd_file = replicate 1024 0,
      blocks = [\<lparr>bd_name = ''hda'', bd_fname = ''disk'', bd_size = 2, bd_ops = Ide, read_cnt = 0, write_cnt = 0\<rparr>],
      hard_drive = Some 0, fs_device = Some 0,
      cache = replicate 64 \<lparr>occupied = False, disk_sector = 0, buffer = replicate 512 0, dirty = False, accessed = False\<rparr>,
      clock = 0\<rparr> :: cached"
  have "cache_inv (buffer_cache_init ?s) \<and> cache_view (buffer_cache_init ?s) = disk_sector_at ?s"
    by (rule buffer_cache_init_spec)
      (simp_all add: device_ok_def raw_disk_def BUFFER_CACHE_SIZE_def BLOCK_SECTOR_SIZE_def)
  then show "cache_inv small_disk" "cache_view small_disk = disk_sector_at small_disk"
    by (simp_all add: small_disk_def disk_sector_at_def fun_eq_iff buffer_cache_init_def)
  show "fs_capacity small_disk = 2" "disk_sector_at small_disk 0 = replicate 512 0"
    by (simp_all add: small_disk_def buffer_cache_init_def fs_capacity_def disk_capacity_def disk_sector_at_def)
qed

theorem cache_serves_as_disk_witness:
  "\<exists>s'. serve buffer_cache_read buffer_cache_write [Fetch 0, Store 0 (replicate 512 7), Fetch 0] small_disk
     = Some ([replicate 512 0, replicate 512 7], s')"
proof -
  have "\<forall>r \<in> set [Fetch 0, Store 0 (replicate 512 7), Fetch 0]. request_ok (fs_capacity small_disk) r"
    by (simp add: small_disk_ok BLOCK_SECTOR_SIZE_def)
  from cache_serves_as_disk [OF small_disk_ok(1) this] show ?thesis
    using small_disk_ok(3,4) by (auto simp: case_prod_beta)
qed

text \<open>
  C20: Closing the cache writes every change back: afterwards the disk itself holds what the cache
  showed, with the cache still coherent.
\<close>

theorem cache_close_writes_back:
  assumes "cache_inv s"
  shows "\<exists>s'. buffer_cache_close s = Some s' \<and> cache_inv s' \<and> disk_sector_at s' = cache_view s"
  using buffer_cache_close_spec [OF assms] keeps_inv by blast

theorem cache_close_writes_back_witness:
  "\<exists>s'. buffer_cache_close small_disk = Some s' \<and> disk_sector_at s' = cache_view small_disk"
  using cache_close_writes_back [OF small_disk_ok(1)] by blast

section \<open>Where the disk layers leave their contract\<close>

text \<open>
  The byte offset of a sector is computed in 32 bits, so beyond 4 GiB the disk repeats: a write
  to a sector is seen by a read of the sector 2^23 further on.
\<close>

theorem ide_wraps_at_4GiB:
  "ide_read (sec + 8388608) buf w = ide_read sec buf w \<and> ide_write (sec + 8388608) data w = ide_write sec data w"
  by (simp add: ide_read_def ide_write_def sector_offset_wraps)

text \<open>
  The scan of an extended partition reads the table of sector 0 again, whatever its sector: from
  the second level on it is in a state that repeats.
\<close>

definition unused_entry :: "partition_entry \<Rightarrow> bool" where
  "unused_entry e \<longleftrightarrow> pe_size e = 0 \<or> pe_type e = 0"

definition starts_extended :: "sector \<Rightarrow> partition_entry list \<Rightarrow> bool" where
  \<comment> \<open>the first used entry is an extended partition at \<open>off\<close>\<close>
  "starts_extended off es \<longleftrightarrow>
     (case dropWhile unused_entry es of [] \<Rightarrow> False | e # _ \<Rightarrow> is_extended (pe_type e) \<and> pe_offset e = off)"

lemma chunks_4: "chunks n 4 xs =
    [take n xs, take n (drop n xs), take n (drop n (drop n xs)), take n (drop n (drop n (drop n xs)))]"
  by (simp add: eval_nat_numeral)

definition scan_repeats :: "nat \<Rightarrow> sector \<Rightarrow> 'a devices_scheme \<Rightarrow> bool" where
  "scan_repeats b off w \<longleftrightarrow> raw_disk b w \<and> off < disk_capacity b w \<and> off + off < disk_capacity b w \<and>
     table_signature (disk_sector_at w 0) = 0xaa55 \<and>
     starts_extended off (table_entries (disk_sector_at w 0))"

lemma scan_repeats_printf [simp]: "scan_repeats b off (printf t w) = scan_repeats b off w"
  by (simp add: scan_repeats_def raw_disk_def disk_capacity_def disk_sector_at_def printf_def)

lemma load_table_repeats:
  assumes "scan_repeats b off w" and "sec = off \<or> sec = off + off \<or> sec = 0" and "length fresh = 512"
  shows "\<exists>w'. load_table b fresh sec primary w = Some (table_entries (disk_sector_at w 0), w') \<and>
    scan_repeats b off w' \<and> disk_sector_at w' = disk_sector_at w"
proof -
  have "0 < disk_capacity b w"
    using assms(1) le_less_trans [OF word_zero_le, of off] by (simp add: scan_repeats_def)
  then have cap: "sec < disk_capacity b w" "0 < disk_capacity b w" and raw: "raw_disk b w"
    using assms(1,2) by (auto simp: scan_repeats_def)
  obtain w' where "block_read (Some b) 0 fresh w = Some (disk_sector_at w 0, w')" "raw_disk b w'"
    "disk_capacity b w' = disk_capacity b w" "disk_sector_at w' = disk_sector_at w"
    using block_read_raw [OF raw cap(2) assms(3)] by blast
  then show ?thesis
    using assms(1) cap raw by (auto simp: load_table_def scan_repeats_def raw_disk_def disk_capacity_def)
qed

lemma scan_entries_repeats:
  "scan_entries b fresh es sec primary part_nr fname w = Some r \<Longrightarrow>
   scan_repeats b off w \<and> starts_extended off es \<and> (sec = 0 \<or> primary = off) \<and> length fresh = 512 \<longrightarrow> False"
proof (erule scan_entries.raw_induct [rotated], intro impI)
  fix rec :: "nat \<Rightarrow> bytes \<Rightarrow> partition_entry list \<Rightarrow> sector \<Rightarrow> sector \<Rightarrow> int \<Rightarrow> string \<Rightarrow>
      'a devices_scheme \<Rightarrow> (int \<times> 'a devices_scheme) option"
    and b fresh es sec primary part_nr fname and w :: "'a devices_scheme" and r
  assume IH: "\<And>b fresh es sec primary part_nr fname w r. rec b fresh es sec primary part_nr fname w = Some r \<Longrightarrow>
      scan_repeats b off w \<and> starts_extended off es \<and> (sec = 0 \<or> primary = off) \<and> length fresh = 512 \<longrightarrow> False"
    and run: "(case es of
        [] \<Rightarrow> Some (part_nr, w)
      | e # rest \<Rightarrow>
          if pe_size e = 0 \<or> pe_type e = 0
          then rec b fresh rest sec primary part_nr fname w
          else if is_extended (pe_type e)
          then do {
            blk \<leftarrow> rd (blocks w) b;
            let w = printf (bd_name blk @ '': Extended partition in sector '' @
                            dec (unat sec) @ nl) w;
            let sec' = (if sec = 0 then pe_offset e else pe_offset e + primary);
            let primary' = (if sec = 0 then pe_offset e else primary);
            (sub, w) \<leftarrow> load_table b fresh sec' primary' w;
            (part_nr, w) \<leftarrow> rec b fresh sub sec' primary' part_nr fname w;
            rec b fresh rest sec primary part_nr fname w
          }
          else do {
            w \<leftarrow> found_partition b (pe_offset e + sec) (pe_size e) (part_nr + 1) fname w;
            rec b fresh rest sec primary (part_nr + 1) fname w
          }) = Some r"
    and "scan_repeats b off w \<and> starts_extended off es \<and> (sec = 0 \<or> primary = off) \<and> length fresh = 512"
  then have prems: "scan_repeats b off w" "starts_extended off es" "sec = 0 \<or> primary = off" "length fresh = 512"
    by blast+
  obtain e rest where es: "es = e # rest"
    using prems(2) by (cases es) (auto simp: starts_extended_def)
  show False
  proof (cases "unused_entry e")
    case True
    then have "starts_extended off rest" using prems(2) by (simp add: es starts_extended_def)
    moreover have "rec b fresh rest sec primary part_nr fname w = Some r"
      using run True by (simp add: es unused_entry_def)
    ultimately show ?thesis using IH prems by blast
  next
    case False
    then have e: "is_extended (pe_type e)" "pe_offset e = off"
      using prems(2) by (simp_all add: es starts_extended_def)
    define sec' where "sec' = (if sec = 0 then off else off + primary)"
    define primary' where "primary' = (if sec = 0 then off else primary)"
    have next_sec: "sec' = off \<or> sec' = off + off \<or> sec' = 0" "sec' = 0 \<or> primary' = off"
      using prems(3) by (auto simp: sec'_def primary'_def)
    have b: "b < length (blocks w)" using prems(1) by (simp add: scan_repeats_def raw_disk_def)
    let ?w = "printf (bd_name (blocks w ! b) @ '': Extended partition in sector '' @ dec (unat sec) @ nl) w"
    have rw: "scan_repeats b off ?w" using prems(1) by simp
    obtain w' where w': "load_table b fresh sec' primary' ?w = Some (table_entries (disk_sector_at ?w 0), w')"
      "scan_repeats b off w'" "disk_sector_at w' = disk_sector_at ?w"
      using load_table_repeats [OF rw next_sec(1) prems(4)] by blast
    obtain r' where "rec b fresh (table_entries (disk_sector_at ?w 0)) sec' primary' part_nr fname w' = Some r'"
      using run False e b w'(1)
      by (auto simp: es unused_entry_def Let_def sec'_def primary'_def bind_eq_Some_conv)
    then show ?thesis
      using IH w' next_sec(2) prems(4) by (metis scan_repeats_def)
  qed
qed

text \<open>
  The call of \<open>read_partition_table\<close> that a call makes first: the table is loaded, the entries before are unused, and nothing
  on the way is undefined. What follows in the caller waits for it to return.
\<close>

inductive nested_scan :: "nat \<Rightarrow> bytes \<Rightarrow> sector \<times> sector \<times> 'a devices_scheme \<Rightarrow> sector \<times> sector \<times> 'a devices_scheme \<Rightarrow> bool"
  for b fresh where
  first_extended: "load_table b fresh sec primary w = Some (es, w1) \<Longrightarrow> dropWhile unused_entry es = e # rest \<Longrightarrow> is_extended (pe_type e) \<Longrightarrow>
   rd (blocks w1) b = Some blk \<Longrightarrow> sec' = (if sec = 0 then pe_offset e else pe_offset e + primary) \<Longrightarrow>
   primary' = (if sec = 0 then pe_offset e else primary) \<Longrightarrow>
   w2 = printf (bd_name blk @ '': Extended partition in sector '' @ dec (unat sec) @ nl) w1 \<Longrightarrow>
   nested_scan b fresh (sec, primary, w) (sec', primary', w2)"

lemma scan_entries_used:
  "scan_entries b fresh es sec primary n fname w = scan_entries b fresh (dropWhile unused_entry es) sec primary n fname w"
proof (induction es)
  case (Cons e es)
  show ?case
  proof (cases "unused_entry e")
    case True
    then have "scan_entries b fresh (e # es) sec primary n fname w = scan_entries b fresh es sec primary n fname w"
      by (subst scan_entries.simps) (simp add: unused_entry_def)
    then show ?thesis using Cons True by simp
  qed simp
qed simp

lemma nested_scan_run:
  assumes "nested_scan b fresh (sec, primary, w) (sec', primary', w')"
  shows "\<exists>rest. read_partition_table b fresh sec primary n fname w = do {
    (n, w) \<leftarrow> read_partition_table b fresh sec' primary' n fname w';
    scan_entries b fresh rest sec primary n fname w }"
proof -
  from assms obtain es w1 e rest blk where h: "load_table b fresh sec primary w = Some (es, w1)" "dropWhile unused_entry es = e # rest" "is_extended (pe_type e)"
    "rd (blocks w1) b = Some blk" "sec' = (if sec = 0 then pe_offset e else pe_offset e + primary)"
    "primary' = (if sec = 0 then pe_offset e else primary)"
    "w' = printf (bd_name blk @ '': Extended partition in sector '' @ dec (unat sec) @ nl) w1"
    by (rule nested_scan.cases) blast
  have "\<not> unused_entry e" using h(2) by (metis hd_dropWhile list.distinct(1) list.sel(1))
  then have "scan_entries b fresh (e # rest) sec primary n fname w1 = do {
      (sub, w) \<leftarrow> load_table b fresh sec' primary' w';
      (n, w) \<leftarrow> scan_entries b fresh sub sec' primary' n fname w;
      scan_entries b fresh rest sec primary n fname w }"
    using h(3-7) by (subst scan_entries.simps) (simp add: unused_entry_def Let_def)
  then show ?thesis using scan_entries_used [of b fresh es sec primary n fname w1] h(1,2)
    by (auto simp: read_partition_table_def bind_assoc split_def intro!: exI [of _ rest])
qed

lemma nested_scan_repeats:
  assumes "scan_repeats b off w" and "sec = 0 \<or> sec = off \<or> sec = off + off" and "sec = 0 \<or> primary = off" and "length fresh = 512"
  shows "\<exists>sec' primary' w'. nested_scan b fresh (sec, primary, w) (sec', primary', w') \<and> scan_repeats b off w' \<and>
    (sec' = 0 \<or> sec' = off \<or> sec' = off + off) \<and> (sec' = 0 \<or> primary' = off)"
proof -
  obtain w1 where w1: "load_table b fresh sec primary w = Some (table_entries (disk_sector_at w 0), w1)" "scan_repeats b off w1"
    using load_table_repeats [OF assms(1) _ assms(4)] assms(2) by blast
  obtain e rest where e: "dropWhile unused_entry (table_entries (disk_sector_at w 0)) = e # rest" "is_extended (pe_type e)" "pe_offset e = off"
    using assms(1) by (auto simp: scan_repeats_def starts_extended_def split: list.splits)
  have b: "rd (blocks w1) b = Some (blocks w1 ! b)" using w1(2) by (simp add: scan_repeats_def raw_disk_def rd_Some)
  show ?thesis
    using nested_scan.first_extended [OF w1(1) e(1,2) b refl refl refl] w1(2) assms(3) unfolding e(3)
    by (intro exI conjI) (assumption | auto)+
qed

text \<open>
  C30: On a disk whose first used partition is an extended one, with its offset and twice its offset inside the disk,
  \<open>partition_scan\<close> never returns: there is an infinite sequence of calls of \<open>read_partition_table\<close>, each made by the one before it with no
  undefined operation on the way, because every level reads the table of sector 0 again. (Outside the bounds, a
  level stops the descent with a message.)
\<close>

theorem partition_scan_diverges:
  assumes "raw_disk b w" and "off < disk_capacity b w" and "off + off < disk_capacity b w"
    and "table_signature (disk_sector_at w 0) = 0xaa55"
    and "starts_extended off (table_entries (disk_sector_at w 0))" and "length fresh = 512"
  shows "(\<exists>calls. calls 0 = (0, 0, w) \<and> (\<forall>n. nested_scan b fresh (calls n) (calls (Suc n)))) \<and> partition_scan b fresh fname w = None"
proof
  have rw: "scan_repeats b off w" using assms by (simp add: scan_repeats_def)
  let ?P = "\<lambda>(sec, primary, w). scan_repeats b off w \<and> (sec = 0 \<or> sec = off \<or> sec = off + off) \<and> (sec = 0 \<or> primary = off)"
  have "\<exists>calls. \<forall>n. ((n = 0 \<longrightarrow> calls n = (0, 0, w)) \<and> ?P (calls n)) \<and> nested_scan b fresh (calls n) (calls (Suc n))"
  proof (rule dependent_nat_choice)
    show "\<exists>c. (0 = (0 :: nat) \<longrightarrow> c = (0, 0, w)) \<and> ?P c" using rw by auto
    show "\<exists>c'. ((Suc n = 0 \<longrightarrow> c' = (0, 0, w)) \<and> ?P c') \<and> nested_scan b fresh c c'" if "(n = 0 \<longrightarrow> c = (0, 0, w)) \<and> ?P c" for c n
      using that nested_scan_repeats [of b off "snd (snd c)" "fst c" "fst (snd c)" fresh] assms(6) by (auto split: prod.splits)
  qed
  then show "\<exists>calls. calls 0 = (0, 0, w) \<and> (\<forall>n. nested_scan b fresh (calls n) (calls (Suc n)))" by blast
  obtain w' where w': "load_table b fresh 0 0 w = Some (table_entries (disk_sector_at w 0), w')"
    "scan_repeats b off w'" "disk_sector_at w' = disk_sector_at w"
    using load_table_repeats [OF rw _ assms(6)] by blast
  have "scan_entries b fresh (table_entries (disk_sector_at w 0)) 0 0 0 fname w' = None"
  proof (cases "scan_entries b fresh (table_entries (disk_sector_at w 0)) 0 0 0 fname w'")
    case (Some r)
    then show ?thesis using scan_entries_repeats [OF Some, of off] w'(2) assms(5,6) by simp
  qed
  then show "partition_scan b fresh fname w = None" using w'(1) by (simp add: partition_scan_def read_partition_table_def)
qed

definition extended_disk :: devices where
  \<comment> \<open>three sectors; the only partition is an extended one at sector 1\<close>
  "extended_disk = \<lparr>console = [],
      hd_file = replicate 446 0 @ [0,0,0,0,5,0,0,0, 1,0,0,0,1,0,0,0] @ replicate 48 0 @ [0x55, 0xaa] @ replicate 1024 0,
      blocks = [\<lparr>bd_name = ''hda'', bd_fname = ''disk'', bd_size = 3, bd_ops = Ide, read_cnt = 0, write_cnt = 0\<rparr>],
      hard_drive = Some 0\<rparr>"

theorem partition_scan_diverges_witness:
  "(\<exists>calls. calls 0 = (0, 0, extended_disk) \<and> (\<forall>n. nested_scan 0 (replicate 512 0) (calls n) (calls (Suc n)))) \<and>
   partition_scan 0 (replicate 512 0) ''disk'' extended_disk = None"
proof (rule partition_scan_diverges [where off = 1])
  have t: "disk_sector_at extended_disk 0 = replicate 446 0 @ [0,0,0,0,5,0,0,0, 1,0,0,0,1,0,0,0] @ replicate 48 0 @ [0x55, 0xaa]"
    by (simp add: disk_sector_at_def extended_disk_def)
  show "table_signature (disk_sector_at extended_disk 0) = 0xaa55"
    unfolding t by (simp add: table_signature_def)
  show "starts_extended 1 (table_entries (disk_sector_at extended_disk 0))"
    unfolding t by (simp add: table_entries_def chunks_4 starts_extended_def decode_entry_def
        unused_entry_def is_extended_def)
qed (simp_all add: raw_disk_def disk_capacity_def extended_disk_def)

end
