(* ===== verification/Var_Memory.thy ===== *)
theory Var_Memory
  imports Prelude
begin

text \<open>
  The shell memory of the three assignments is an array of slots, each a name and a value;
  a slot whose name is \<open>none\<close> is free. The variables occupy a range of it. This theory holds
  the scan loops all three share, the map a range stands for, and the interface
  \<open>var_store\<close> of a variable store with what follows from it.
\<close>

section \<open>Slots and scans\<close>

record slot =
  var :: string
  val :: string

definition NONE :: string where "NONE = ''none''"

text \<open>\<open>for (i = from; i < from + n; i++) if (strcmp(shellmemory[i].var, key) == 0)\<close>\<close>

fun scan_var :: "string \<Rightarrow> 'a slot_scheme list \<Rightarrow> nat \<Rightarrow> nat \<Rightarrow> nat option" where
  "scan_var key m i 0 = None"
| "scan_var key m i (Suc n) = (if var (m ! i) = key then Some i else scan_var key m (Suc i) n)"

definition set_in_range ::
  "nat \<Rightarrow> nat \<Rightarrow> string \<Rightarrow> string \<Rightarrow> 'a slot_scheme list \<Rightarrow> 'a slot_scheme list" where
  "set_in_range lo n key v m =
     (case scan_var key m lo n of
        Some i \<Rightarrow> m[i := (m ! i)\<lparr>val := v\<rparr>]
      | None \<Rightarrow>
          (case scan_var NONE m lo n of
             Some i \<Rightarrow> m[i := (m ! i)\<lparr>var := key, val := v\<rparr>]
           | None \<Rightarrow> m))"

definition get_in_range :: "nat \<Rightarrow> nat \<Rightarrow> string \<Rightarrow> 'a slot_scheme list \<Rightarrow> string option" where
  "get_in_range lo n key m = map_option (\<lambda>i. val (m ! i)) (scan_var key m lo n)"

lemma scan_var_Some:
  "scan_var key m i n = Some k \<Longrightarrow>
   i \<le> k \<and> k < i + n \<and> var (m ! k) = key \<and> (\<forall>j. i \<le> j \<and> j < k \<longrightarrow> var (m ! j) \<noteq> key)"
proof (induction n arbitrary: i)
  case 0
  then show ?case by simp
next
  case (Suc n)
  show ?case
  proof (cases "var (m ! i) = key")
    case True
    then show ?thesis using Suc.prems by auto
  next
    case False
    then have "Suc i \<le> k \<and> k < Suc i + n \<and> var (m ! k) = key \<and>
        (\<forall>j. Suc i \<le> j \<and> j < k \<longrightarrow> var (m ! j) \<noteq> key)"
      using Suc.IH [of "Suc i"] Suc.prems by simp
    then show ?thesis using False by (auto simp: Suc_le_eq) (metis le_neq_implies_less)
  qed
qed

lemma scan_var_None: "scan_var key m i n = None \<longleftrightarrow> (\<forall>j. i \<le> j \<and> j < i + n \<longrightarrow> var (m ! j) \<noteq> key)"
proof (induction n arbitrary: i)
  case 0
  then show ?case by auto
next
  case (Suc n)
  have "{j. i \<le> j \<and> j < i + Suc n} = insert i {j. Suc i \<le> j \<and> j < Suc i + n}" by auto
  then have "(\<forall>j. i \<le> j \<and> j < i + Suc n \<longrightarrow> var (m ! j) \<noteq> key) \<longleftrightarrow>
        var (m ! i) \<noteq> key \<and> (\<forall>j. Suc i \<le> j \<and> j < Suc i + n \<longrightarrow> var (m ! j) \<noteq> key)"
    by (simp only: set_eq_iff mem_Collect_eq insert_iff) metis
  then show ?case using Suc.IH [of "Suc i"] by simp
qed

lemma scan_var_exists:
  "i \<le> k \<Longrightarrow> k < i + n \<Longrightarrow> var (m ! k) = key \<Longrightarrow> \<exists>j. scan_var key m i n = Some j"
  using scan_var_None [of key m i n] by (cases "scan_var key m i n") auto

section \<open>The variables of a range\<close>

definition free_slots :: "nat \<Rightarrow> nat \<Rightarrow> 'a slot_scheme list \<Rightarrow> nat" where
  "free_slots lo n m = card {i. lo \<le> i \<and> i < lo + n \<and> var (m ! i) = NONE}"

definition vars_in :: "nat \<Rightarrow> nat \<Rightarrow> 'a slot_scheme list \<Rightarrow> string \<rightharpoonup> string" where
  "vars_in lo n m key = (if key = NONE then None else get_in_range lo n key m)"

definition unique_vars :: "nat \<Rightarrow> nat \<Rightarrow> 'a slot_scheme list \<Rightarrow> bool" where
  \<comment> \<open>no two slots of the range carry the same name, other than the free ones\<close>
  "unique_vars lo n m \<longleftrightarrow> lo + n \<le> length m \<and>
     (\<forall>i j. lo \<le> i \<and> i < lo + n \<and> lo \<le> j \<and> j < lo + n \<and> var (m ! i) = var (m ! j) \<and>
            var (m ! i) \<noteq> NONE \<longrightarrow> i = j)"

lemma scan_var_unique:
  assumes "unique_vars lo n m" and "key \<noteq> NONE"
  shows "scan_var key m lo n = Some k \<longleftrightarrow> lo \<le> k \<and> k < lo + n \<and> var (m ! k) = key"
proof
  assume "scan_var key m lo n = Some k"
  then show "lo \<le> k \<and> k < lo + n \<and> var (m ! k) = key" using scan_var_Some by blast
next
  assume k: "lo \<le> k \<and> k < lo + n \<and> var (m ! k) = key"
  then obtain j where j: "scan_var key m lo n = Some j" using scan_var_exists by blast
  then have "lo \<le> j \<and> j < lo + n \<and> var (m ! j) = key" using scan_var_Some by blast
  then show "scan_var key m lo n = Some k"
    using j k assms unfolding unique_vars_def by metis
qed

lemma vars_in_eq:
  assumes "unique_vars lo n m"
  shows "vars_in lo n m key = Some v \<longleftrightarrow>
    key \<noteq> NONE \<and> (\<exists>k. lo \<le> k \<and> k < lo + n \<and> var (m ! k) = key \<and> val (m ! k) = v)"
  using scan_var_unique [OF assms] by (auto simp: vars_in_def get_in_range_def)

text \<open>Writing one slot, with a name no other slot of the range has.\<close>

lemma unique_vars_write:
  assumes "unique_vars lo n m" and "lo \<le> k" and "k < lo + n"
    and "\<And>j. lo \<le> j \<Longrightarrow> j < lo + n \<Longrightarrow> j \<noteq> k \<Longrightarrow> var (m ! j) \<noteq> var s"
  shows "unique_vars lo n (m[k := s])"
proof -
  have len: "lo + n \<le> length m" and kl: "k < length m"
    using assms(1,3) by (simp_all add: unique_vars_def)
  have one: "i = j" if "var (m ! i) = var (m ! j)" "var (m ! i) \<noteq> NONE"
    "lo \<le> i" "i < lo + n" "lo \<le> j" "j < lo + n" for i j
    using assms(1) that unfolding unique_vars_def by blast
  have "i = j" if h: "var (m[k := s] ! i) = var (m[k := s] ! j)" "var (m[k := s] ! i) \<noteq> NONE"
    "lo \<le> i" "i < lo + n" "lo \<le> j" "j < lo + n" for i j
  proof (cases "i = k"; cases "j = k")
    assume "i = k" and "j \<noteq> k"
    then show ?thesis using h(1) assms(4) [OF h(5,6)] kl by simp
  next
    assume "i \<noteq> k" and "j = k"
    then show ?thesis using h(1) assms(4) [OF h(3,4)] kl by simp
  next
    assume "i \<noteq> k" and "j \<noteq> k"
    then show ?thesis using h one by simp
  qed simp
  then show ?thesis unfolding unique_vars_def using len by auto
qed

lemma unique_vars_other:
  assumes "unique_vars lo n m" and "lo \<le> i" and "i < lo + n" and "var (m ! i) \<noteq> NONE"
    and "lo \<le> j" and "j < lo + n" and "j \<noteq> i"
  shows "var (m ! j) \<noteq> var (m ! i)"
  using assms unfolding unique_vars_def by metis

lemma vars_in_write:
  assumes u: "unique_vars lo n m" and k: "lo \<le> k" "k < lo + n"
    and fresh: "\<And>j. lo \<le> j \<Longrightarrow> j < lo + n \<Longrightarrow> j \<noteq> k \<Longrightarrow> var (m ! j) \<noteq> var s"
    and old: "var (m ! k) = NONE \<or> var (m ! k) = var s" and nn: "var s \<noteq> NONE"
  shows "vars_in lo n (m[k := s]) = (vars_in lo n m)(var s \<mapsto> val s)"
proof
  fix key
  have u': "unique_vars lo n (m[k := s])" by (rule unique_vars_write [OF u k fresh])
  have len: "k < length m" using u k by (simp add: unique_vars_def)
  show "vars_in lo n (m[k := s]) key = ((vars_in lo n m)(var s \<mapsto> val s)) key"
  proof (cases "key = var s")
    case True
    then have "vars_in lo n (m[k := s]) key = Some (val s)"
      using k len nn by (subst vars_in_eq [OF u']) auto
    then show ?thesis using True by simp
  next
    case False
    have "vars_in lo n (m[k := s]) key = Some v \<longleftrightarrow> vars_in lo n m key = Some v" for v
      using False old len by (auto simp: vars_in_eq [OF u] vars_in_eq [OF u'] nth_list_update)
    then have "vars_in lo n (m[k := s]) key = vars_in lo n m key"
      by (metis not_Some_eq)
    then show ?thesis using False by simp
  qed
qed

lemma free_slots_write_used:
  assumes "k < length m" and "var s \<noteq> NONE" and "var (m ! k) \<noteq> NONE"
  shows "free_slots lo n (m[k := s]) = free_slots lo n m"
proof -
  have "{i. lo \<le> i \<and> i < lo + n \<and> var (m[k := s] ! i) = NONE}
      = {i. lo \<le> i \<and> i < lo + n \<and> var (m ! i) = NONE}"
    using assms by (auto simp: nth_list_update)
  then show ?thesis by (simp add: free_slots_def)
qed

lemma free_slots_write_free:
  assumes "k < length m" and "lo \<le> k" and "k < lo + n" and "var s \<noteq> NONE" and "var (m ! k) = NONE"
  shows "Suc (free_slots lo n (m[k := s])) = free_slots lo n m"
proof -
  let ?F = "{i. lo \<le> i \<and> i < lo + n \<and> var (m ! i) = NONE}"
  have "{i. lo \<le> i \<and> i < lo + n \<and> var (m[k := s] ! i) = NONE} = ?F - {k}"
    using assms by (auto simp: nth_list_update)
  then have eq: "free_slots lo n (m[k := s]) = card (?F - {k})" by (simp only: free_slots_def)
  have fin: "finite ?F" and k: "k \<in> ?F" using assms by auto
  show ?thesis
    unfolding eq card_Suc_Diff1 [OF fin k] by (simp only: free_slots_def)
qed

lemma free_slots_0: "free_slots lo n m = 0 \<longleftrightarrow> scan_var NONE m lo n = None"
  by (auto simp: free_slots_def scan_var_None card_eq_0_iff)

text \<open>The effect of \<open>set\<close> on the map of variables.\<close>

lemma set_in_range_unique:
  assumes u: "unique_vars lo n m" and nn: "key \<noteq> NONE"
  shows "unique_vars lo n (set_in_range lo n key v m)"
proof (cases "scan_var key m lo n")
  case (Some i)
  then have i: "lo \<le> i" "i < lo + n" "var (m ! i) = key" using scan_var_Some by blast+
  have "unique_vars lo n (m[i := (m ! i)\<lparr>val := v\<rparr>])"
  proof (rule unique_vars_write [OF u i(1,2)])
    fix j assume j: "lo \<le> j" "j < lo + n" "j \<noteq> i"
    have "var (m ! i) \<noteq> NONE" using i(3) nn by simp
    from unique_vars_other [OF u i(1,2) this j]
    show "var (m ! j) \<noteq> var ((m ! i)\<lparr>val := v\<rparr>)" by simp
  qed
  then show ?thesis using Some by (simp add: set_in_range_def)
next
  case None
  then have no: "\<And>j. lo \<le> j \<Longrightarrow> j < lo + n \<Longrightarrow> var (m ! j) \<noteq> key" by (simp add: scan_var_None)
  show ?thesis
  proof (cases "scan_var NONE m lo n")
    case (Some i)
    then have i: "lo \<le> i" "i < lo + n" using scan_var_Some by blast+
    have "unique_vars lo n (m[i := (m ! i)\<lparr>var := key, val := v\<rparr>])"
      by (rule unique_vars_write [OF u i]) (simp add: no)
    then show ?thesis using Some None by (simp add: set_in_range_def)
  qed (use None u in \<open>simp add: set_in_range_def\<close>)
qed

lemma set_in_range_vars:
  assumes u: "unique_vars lo n m" and nn: "key \<noteq> NONE"
    and room: "vars_in lo n m key \<noteq> None \<or> 0 < free_slots lo n m"
  shows "vars_in lo n (set_in_range lo n key v m) = (vars_in lo n m)(key \<mapsto> v)"
proof (cases "scan_var key m lo n")
  case (Some i)
  then have i: "lo \<le> i" "i < lo + n" "var (m ! i) = key" using scan_var_Some by blast+
  have "vars_in lo n (m[i := (m ! i)\<lparr>val := v\<rparr>])
      = (vars_in lo n m)(var ((m ! i)\<lparr>val := v\<rparr>) \<mapsto> val ((m ! i)\<lparr>val := v\<rparr>))"
  proof (rule vars_in_write [OF u i(1,2)])
    fix j assume j: "lo \<le> j" "j < lo + n" "j \<noteq> i"
    have "var (m ! i) \<noteq> NONE" using i(3) nn by simp
    from unique_vars_other [OF u i(1,2) this j]
    show "var (m ! j) \<noteq> var ((m ! i)\<lparr>val := v\<rparr>)" by simp
  qed (simp_all add: i(3) nn)
  then show ?thesis using Some i by (simp add: set_in_range_def)
next
  case None
  then have no: "\<And>j. lo \<le> j \<Longrightarrow> j < lo + n \<Longrightarrow> var (m ! j) \<noteq> key" by (simp add: scan_var_None)
  from None have "vars_in lo n m key = None" by (simp add: vars_in_def get_in_range_def)
  then obtain i where i: "scan_var NONE m lo n = Some i"
    using room free_slots_0 [of lo n m] by auto
  then have r: "lo \<le> i" "i < lo + n" "var (m ! i) = NONE" using scan_var_Some by blast+
  have "vars_in lo n (m[i := (m ! i)\<lparr>var := key, val := v\<rparr>])
      = (vars_in lo n m)(var ((m ! i)\<lparr>var := key, val := v\<rparr>) \<mapsto> val ((m ! i)\<lparr>var := key, val := v\<rparr>))"
    by (rule vars_in_write [OF u r(1,2)]) (use no r nn in auto)
  then show ?thesis using None i by (simp add: set_in_range_def)
qed

lemma set_in_range_free:
  assumes u: "unique_vars lo n m" and nn: "key \<noteq> NONE"
  shows "free_slots lo n (set_in_range lo n key v m) =
    (if vars_in lo n m key = None then free_slots lo n m - 1 else free_slots lo n m)"
proof (cases "scan_var key m lo n")
  case (Some i)
  then have i: "i < lo + n" "var (m ! i) = key" using scan_var_Some by blast+
  then show ?thesis
    using Some u nn free_slots_write_used [of i m "(m ! i)\<lparr>val := v\<rparr>" lo n]
    by (simp add: set_in_range_def vars_in_def get_in_range_def unique_vars_def)
next
  case None
  show ?thesis
  proof (cases "scan_var NONE m lo n")
    case (Some i)
    then have r: "lo \<le> i" "i < lo + n" "var (m ! i) = NONE" using scan_var_Some by blast+
    then have "Suc (free_slots lo n (m[i := (m ! i)\<lparr>var := key, val := v\<rparr>])) = free_slots lo n m"
      using u nn by (intro free_slots_write_free) (auto simp: unique_vars_def)
    then show ?thesis
      using None Some nn by (simp add: set_in_range_def vars_in_def get_in_range_def)
  next
    case no: None
    then have "free_slots lo n m = 0" by (simp add: free_slots_0)
    then show ?thesis
      using None no by (simp add: set_in_range_def vars_in_def get_in_range_def)
  qed
qed

lemma set_in_range_full:
  "vars_in lo n m key = None \<Longrightarrow> key \<noteq> NONE \<Longrightarrow> free_slots lo n m = 0 \<Longrightarrow>
   set_in_range lo n key v m = m"
  by (simp add: set_in_range_def vars_in_def get_in_range_def free_slots_0)

lemma length_set_in_range [simp]: "length (set_in_range lo n key v m) = length m"
  by (simp add: set_in_range_def split: option.splits)

lemma set_in_range_outside:
  assumes "i < lo \<or> lo + n \<le> i"
  shows "set_in_range lo n key v m ! i = m ! i"
proof -
  have "scan_var k m lo n = Some j \<Longrightarrow> j \<noteq> i" for k j
    using assms scan_var_Some [of k m lo n j] by auto
  then show ?thesis by (auto simp: set_in_range_def split: option.splits)
qed

text \<open>Setting the name \<open>none\<close> writes the value of a free slot and leaves it free.\<close>

lemma var_update_val: "var (m[i := (m ! i)\<lparr>val := x\<rparr>] ! j) = var (m ! j)"
  by (cases "i < length m"; cases "i = j") (simp_all add: list_update_beyond)

lemma set_NONE_var: "var (set_in_range lo n NONE v m ! j) = var (m ! j)"
proof (cases "scan_var NONE m lo n")
  case None
  then show ?thesis by (simp add: set_in_range_def)
next
  case (Some i)
  then show ?thesis by (simp add: set_in_range_def var_update_val)
qed

lemma unique_vars_set:
  assumes u: "unique_vars lo n m" shows "unique_vars lo n (set_in_range lo n key v m)"
proof (cases "key = NONE")
  case True
  show ?thesis
    using u unfolding unique_vars_def True set_NONE_var length_set_in_range .
qed (rule set_in_range_unique [OF u])

section \<open>The interface\<close>

locale var_store =
  fixes ok :: "'s \<Rightarrow> bool"
    and vars :: "'s \<Rightarrow> string \<rightharpoonup> string"
    and room :: "'s \<Rightarrow> nat"
    and set_var :: "string \<Rightarrow> string \<Rightarrow> 's \<Rightarrow> 's"
  assumes none_free: "ok s \<Longrightarrow> vars s NONE = None"
    and set_ok: "ok s \<Longrightarrow> key \<noteq> NONE \<Longrightarrow> ok (set_var key v s)"
    and set_vars: "ok s \<Longrightarrow> key \<noteq> NONE \<Longrightarrow> vars s key \<noteq> None \<or> 0 < room s \<Longrightarrow>
      vars (set_var key v s) = (vars s)(key \<mapsto> v)"
    and set_room: "ok s \<Longrightarrow> key \<noteq> NONE \<Longrightarrow>
      room (set_var key v s) = (if vars s key = None then room s - 1 else room s)"
    and set_full: "ok s \<Longrightarrow> key \<noteq> NONE \<Longrightarrow> vars s key = None \<Longrightarrow> room s = 0 \<Longrightarrow>
      set_var key v s = s"
begin

lemma get_after_set:
  assumes "ok s" and "key \<noteq> NONE" and "vars s key \<noteq> None \<or> 0 < room s"
  shows "vars (set_var key v s) k = (if k = key then Some v else vars s k)"
  by (simp add: set_vars [OF assms])

text \<open>A full store never loses a variable, whatever is set.\<close>

lemma set_keeps_others:
  assumes "ok s" and "key \<noteq> NONE" and "k \<noteq> key"
  shows "vars (set_var key v s) k = vars s k"
proof (cases "vars s key \<noteq> None \<or> 0 < room s")
  case True
  then show ?thesis using set_vars [OF assms(1,2) True] assms(3) by simp
next
  case False
  then show ?thesis using set_full [OF assms(1,2)] by simp
qed

lemma set_twice:
  assumes "ok s" and "key \<noteq> NONE" and "vars s key \<noteq> None \<or> 0 < room s"
  shows "vars (set_var key v2 (set_var key v1 s)) = (vars s)(key \<mapsto> v2)"
proof -
  have "vars (set_var key v1 s) key \<noteq> None" using set_vars [OF assms] by simp
  then show ?thesis
    using set_vars [OF set_ok [OF assms(1,2)] assms(2), of v1 v2] set_vars [OF assms] by simp
qed

text \<open>A sequence of assignments is the sequence of map updates as long as there is room for
  every new name.\<close>

lemma set_many:
  assumes "ok s" and "\<forall>(k, v) \<in> set kvs. k \<noteq> NONE"
    and "card (fst ` set kvs - dom (vars s)) \<le> room s"
  shows "vars (fold (\<lambda>(k, v). set_var k v) kvs s) = vars s ++ map_of (rev kvs) \<and>
         ok (fold (\<lambda>(k, v). set_var k v) kvs s)"
  using assms
proof (induction kvs arbitrary: s)
  case Nil
  then show ?case by simp
next
  case (Cons kv kvs)
  obtain k v where kv: "kv = (k, v)" by (cases kv)
  have k: "k \<noteq> NONE" using Cons.prems(2) kv by simp
  let ?new = "fst ` set kvs - dom (vars s)"
  have space: "vars s k \<noteq> None \<or> 0 < room s"
  proof (rule ccontr)
    assume "\<not> ?thesis"
    then have "k \<in> fst ` set (kv # kvs) - dom (vars s)" and "room s = 0" using kv by auto
    moreover have "finite (fst ` set (kv # kvs) - dom (vars s))" by simp
    ultimately show False using Cons.prems(3) by (metis card_gt_0_iff empty_iff not_le)
  qed
  let ?s = "set_var k v s"
  have v: "vars ?s = (vars s)(k \<mapsto> v)" by (rule set_vars [OF Cons.prems(1) k space])
  have "card (fst ` set kvs - dom (vars ?s)) \<le> room ?s"
  proof (cases "vars s k = None")
    case True
    have "fst ` set (kv # kvs) - dom (vars s) = insert k (fst ` set kvs - dom (vars ?s))"
      using True kv v by auto
    moreover have "k \<notin> fst ` set kvs - dom (vars ?s)" using v by simp
    ultimately show ?thesis
      using Cons.prems(3) set_room [OF Cons.prems(1) k, of v] True by simp
  next
    case False
    then have "fst ` set kvs - dom (vars ?s) = fst ` set (kv # kvs) - dom (vars s)"
      using kv v by auto
    then show ?thesis using Cons.prems(3) set_room [OF Cons.prems(1) k, of v] False by simp
  qed
  then have "vars (fold (\<lambda>(k, v). set_var k v) kvs ?s) = vars ?s ++ map_of (rev kvs) \<and>
             ok (fold (\<lambda>(k, v). set_var k v) kvs ?s)"
    using Cons.IH [OF set_ok [OF Cons.prems(1) k]] Cons.prems(2) by simp
  then show ?case
    using kv v by (auto simp: map_add_def fun_eq_iff split: option.splits)
qed

end

text \<open>A range of slots is a variable store.\<close>

interpretation range: var_store "unique_vars lo n" "vars_in lo n" "free_slots lo n"
  "set_in_range lo n :: string \<Rightarrow> string \<Rightarrow> 'a slot_scheme list \<Rightarrow> _" for lo n
proof (unfold_locales, goal_cases)
  case (1 s)
  then show ?case by (simp add: vars_in_def)
next
  case (2 s key v)
  then show ?case by (rule set_in_range_unique)
next
  case (3 s key v)
  then show ?case by (rule set_in_range_vars)
next
  case (4 s key v)
  then show ?case by (rule set_in_range_free)
next
  case (5 s key v)
  then show ?case by (simp add: set_in_range_full)
qed

text \<open>Freshly initialised memory: every slot is free.\<close>

lemma fresh_range:
  assumes "\<forall>i. lo \<le> i \<and> i < lo + n \<longrightarrow> var (m ! i) = NONE" and "lo + n \<le> length m"
  shows "unique_vars lo n m \<and> vars_in lo n m = Map.empty \<and> free_slots lo n m = n"
proof (intro conjI)
  show u: "unique_vars lo n m" using assms by (auto simp: unique_vars_def)
  show "vars_in lo n m = Map.empty"
  proof
    fix key
    have "vars_in lo n m key \<noteq> Some v" for v
      using assms(1) by (auto simp: vars_in_eq [OF u])
    then show "vars_in lo n m key = None" by (cases "vars_in lo n m key") auto
  qed
  have "{i. lo \<le> i \<and> i < lo + n \<and> var (m ! i) = NONE} = {lo..<lo + n}"
    using assms(1) by auto
  then show "free_slots lo n m = n" by (simp add: free_slots_def)
qed

end
