(* ===== verification/Outcome.thy ===== *)
theory Outcome
  imports Prelude
begin

text \<open>
  How a call of the shells ends. The three assignments call \<open>exit\<close>, overrun fixed buffers on
  long input and recurse through scripts that run scripts, so their functions return an
  \<open>outcome\<close>; \<open>seq\<close> runs one call after another. The operating system the shells call is a
  parameter: a record of functions on an unknown host state (\<open>host_ops\<close>).
\<close>

section \<open>Outcomes\<close>

datatype ('a, 's) outcome =
    Ret 'a 's        \<comment> \<open>the call returns a value\<close>
  | Exit int 's      \<comment> \<open>the process ends with a status\<close>
  | Undefined        \<comment> \<open>an access outside an object, an uninitialised or null pointer\<close>
  | Unfinished       \<comment> \<open>more steps than the fuel allows, or no end\<close>

fun seq :: "('a, 's) outcome \<Rightarrow> ('a \<Rightarrow> 's \<Rightarrow> ('b, 's) outcome) \<Rightarrow> ('b, 's) outcome" where
  "seq (Ret x s) k = k x s"
| "seq (Exit c s) k = Exit c s"
| "seq Undefined k = Undefined"
| "seq Unfinished k = Unfinished"

definition require :: "bool \<Rightarrow> ('a, 's) outcome \<Rightarrow> ('a, 's) outcome" where
  \<comment> \<open>the continuation is defined only under the condition\<close>
  "require c k = (if c then k else Undefined)"

lemma require_True [simp]: "require True k = k"
  and require_False [simp]: "require False k = Undefined"
  by (simp_all add: require_def)

lemma seq_Ret_iff: "seq m k = Ret y t \<longleftrightarrow> (\<exists>x s. m = Ret x s \<and> k x s = Ret y t)"
  by (cases m) auto

lemma require_Ret_iff: "require c k = Ret y t \<longleftrightarrow> c \<and> k = Ret y t"
  by (simp add: require_def)

lemma seq_assoc: "seq (seq m k) l = seq m (\<lambda>x s. seq (k x s) l)"
  by (cases m) auto

text \<open>Calls whose only failure is undefined behaviour.\<close>

definition attempt :: "('a \<times> 's) option \<Rightarrow> ('a, 's) outcome" where
  "attempt r = (case r of None \<Rightarrow> Undefined | Some (x, s) \<Rightarrow> Ret x s)"

definition attempt_do :: "'s option \<Rightarrow> (unit, 's) outcome" where
  "attempt_do r = (case r of None \<Rightarrow> Undefined | Some s \<Rightarrow> Ret () s)"

lemma attempt_simps [simp]:
  "attempt None = Undefined" "attempt (Some (x, s)) = Ret x s"
  "attempt_do None = Undefined" "attempt_do (Some s) = Ret () s"
  by (simp_all add: attempt_def attempt_do_def)

text \<open>An invariant of the state that holds however a call ends.\<close>

fun ends_in :: "('s \<Rightarrow> bool) \<Rightarrow> ('a, 's) outcome \<Rightarrow> bool" where
  "ends_in P (Ret x s) = P s"
| "ends_in P (Exit c s) = P s"
| "ends_in P Undefined = True"
| "ends_in P Unfinished = True"

lemma ends_in_seq: "ends_in P m \<Longrightarrow> (\<And>x s. P s \<Longrightarrow> ends_in P (k x s)) \<Longrightarrow> ends_in P (seq m k)"
  by (cases m) auto

lemma ends_in_require: "ends_in P k \<Longrightarrow> ends_in P (require c k)"
  by (simp add: require_def)

lemma ends_in_if: "(c \<Longrightarrow> ends_in P a) \<Longrightarrow> (\<not> c \<Longrightarrow> ends_in P b) \<Longrightarrow> ends_in P (if c then a else b)"
  by simp

lemma ends_in_Let: "(\<And>x. x = e \<Longrightarrow> ends_in P (f x)) \<Longrightarrow> ends_in P (let x = e in f x)"
  by simp

lemma ends_in_option:
  "(x = None \<Longrightarrow> ends_in P a) \<Longrightarrow> (\<And>y. x = Some y \<Longrightarrow> ends_in P (b y)) \<Longrightarrow>
   ends_in P (case x of None \<Rightarrow> a | Some y \<Rightarrow> b y)"
  by (cases x) auto

lemma ends_in_prod:
  "(\<And>a b. x = (a, b) \<Longrightarrow> ends_in P (f a b)) \<Longrightarrow> ends_in P (case x of (a, b) \<Rightarrow> f a b)"
  by (cases x) auto

lemmas ends_rules = ends_in_require ends_in_if ends_in_Let ends_in_option ends_in_prod

text \<open>More fuel: \<open>approx m m'\<close> when \<open>m'\<close> is \<open>m\<close>, unless the fuel of \<open>m\<close> ran out.\<close>

definition approx :: "('a, 's) outcome \<Rightarrow> ('a, 's) outcome \<Rightarrow> bool" where
  "approx m m' \<longleftrightarrow> m = Unfinished \<or> m = m'"

named_theorems approx_rules "operations that are monotone in the fuel of the calls they make"

lemma approx_refl [simp, approx_rules]: "approx m m"
  and approx_Unfinished [simp]: "approx Unfinished m"
  by (simp_all add: approx_def)

lemma approx_seq [approx_rules]:
  "approx m m' \<Longrightarrow> (\<And>x s. approx (k x s) (k' x s)) \<Longrightarrow> approx (seq m k) (seq m' k')"
proof (cases m)
  case (Ret x s)
  assume "approx m m'" and k: "\<And>x s. approx (k x s) (k' x s)"
  then have "m' = Ret x s" using Ret by (simp add: approx_def)
  then show ?thesis using Ret k [of x s] by simp
qed (auto simp: approx_def)

lemma approx_require [approx_rules]: "approx k k' \<Longrightarrow> approx (require c k) (require c k')"
  by (simp add: require_def)

lemma approx_if [approx_rules]:
  "(c \<Longrightarrow> approx a a') \<Longrightarrow> (\<not> c \<Longrightarrow> approx b b') \<Longrightarrow> approx (if c then a else b) (if c then a' else b')"
  by simp

lemma approx_case_option [approx_rules]:
  "(x = None \<Longrightarrow> approx a a') \<Longrightarrow> (\<And>y. x = Some y \<Longrightarrow> approx (b y) (b' y)) \<Longrightarrow>
   approx (case x of None \<Rightarrow> a | Some y \<Rightarrow> b y) (case x of None \<Rightarrow> a' | Some y \<Rightarrow> b' y)"
  by (cases x) auto

lemma approx_case_prod [approx_rules]:
  "(\<And>a b. x = (a, b) \<Longrightarrow> approx (f a b) (f' a b)) \<Longrightarrow>
   approx (case x of (a, b) \<Rightarrow> f a b) (case x of (a, b) \<Rightarrow> f' a b)"
  by (cases x) auto

lemma approx_Let [approx_rules]:
  "(\<And>x. x = e \<Longrightarrow> approx (f x) (f' x)) \<Longrightarrow> approx (let x = e in f x) (let x = e in f' x)"
  by simp

lemma approx_finished: "approx m m' \<Longrightarrow> m \<noteq> Unfinished \<Longrightarrow> m' = m"
  by (auto simp: approx_def)

section \<open>The host system\<close>

record 'os host_ops =
  os_system :: "string \<Rightarrow> 'os \<Rightarrow> int \<times> string \<times> 'os"     \<comment> \<open>status, text printed\<close>
  os_open_read :: "string \<Rightarrow> 'os \<Rightarrow> string option"         \<comment> \<open>content of a file, if it opens\<close>
  os_create :: "string \<Rightarrow> 'os \<Rightarrow> bool \<times> 'os"               \<comment> \<open>\<open>fopen(name, "w")\<close>\<close>
  os_mkdir :: "string \<Rightarrow> 'os \<Rightarrow> int \<times> 'os"
  os_chdir :: "string \<Rightarrow> 'os \<Rightarrow> int \<times> 'os"
  os_is_dir :: "string \<Rightarrow> 'os \<Rightarrow> bool"                      \<comment> \<open>\<open>stat\<close> succeeds on a directory\<close>

section \<open>Text files and strings\<close>

text \<open>
  \<open>fgets(line, n, f)\<close> on the unread part of a stream: the text read, the rest, and whether
  the end of the file was met. It reads at most \<open>n - 1\<close> characters and stops after a newline.
\<close>

fun read_line :: "nat \<Rightarrow> string \<Rightarrow> string \<times> string \<times> bool" where
  "read_line 0 s = ([], s, False)"
| "read_line (Suc n) [] = ([], [], True)"
| "read_line (Suc n) (c # s) =
     (if c = CHR 0x0A then ([c], s, False)
      else let (l, r, e) = read_line n s in (c # l, r, e))"

definition fgets :: "nat \<Rightarrow> string \<Rightarrow> string \<times> string \<times> bool" where
  "fgets n s = read_line (n - 1) s"

lemma read_line_split: "read_line n s = (l, r, e) \<Longrightarrow> s = l @ r"
  by (induction n s arbitrary: l r e rule: read_line.induct)
     (auto split: if_splits prod.splits)

lemma read_line_length: "read_line n s = (l, r, e) \<Longrightarrow> length l \<le> n"
  by (induction n s arbitrary: l r e rule: read_line.induct)
     (auto split: if_splits prod.splits)

lemma read_line_progress: "read_line (Suc n) s = (l, r, e) \<Longrightarrow> s \<noteq> [] \<Longrightarrow> length r < length s"
  by (cases s) (auto split: if_splits prod.splits dest!: read_line_split)

lemma fgets_eof: "1 < n \<Longrightarrow> fgets n [] = ([], [], True)"
  by (cases "n - 1") (auto simp: fgets_def)

lemma fgets_progress:
  assumes "1 < n" and "fgets n s = (l, r, e)" and "\<not> e" shows "length r < length s"
proof (cases "s = []")
  case True
  then show ?thesis using assms fgets_eof by simp
next
  case False
  obtain m where "n - 1 = Suc m" using assms(1) by (metis Suc_diff_Suc minus_nat.diff_0 neq0_conv zero_less_diff)
  then show ?thesis using assms(2) read_line_progress False by (simp add: fgets_def)
qed

definition strip_eol :: "string \<Rightarrow> string" where
  \<comment> \<open>\<open>s[strcspn(s, "\r\n")] = 0\<close>\<close>
  "strip_eol s = takeWhile (\<lambda>c. c \<noteq> CHR 0x0D \<and> c \<noteq> CHR 0x0A) s"

lemma strip_eol_id: "CHR 0x0D \<notin> set s \<Longrightarrow> CHR 0x0A \<notin> set s \<Longrightarrow> strip_eol s = s"
  by (simp add: strip_eol_def takeWhile_eq_all_conv) (metis)

text \<open>
  The lines of a text as the read loops of the shells see them: each line with its newline,
  then what follows the last newline, which is empty when the text ends with a newline.
\<close>

fun file_lines :: "string \<Rightarrow> string list" where
  "file_lines [] = [Nil]"
| "file_lines (c # s) =
     (if c = CHR 0x0A then [c] # file_lines s
      else (c # List.hd (file_lines s)) # tl (file_lines s))"

lemma file_lines_not_Nil [simp]: "file_lines s \<noteq> []"
  by (cases s) auto

lemma read_line_file_lines:
  assumes "length (List.hd (file_lines s)) < n"
  shows "\<exists>l r e. read_line n s = (l, r, e) \<and> l = List.hd (file_lines s) \<and>
    (if e then r = [] \<and> tl (file_lines s) = [] else tl (file_lines s) = file_lines r)"
  using assms
proof (induction n s rule: read_line.induct)
  case (3 n c s)
  then show ?case by (cases "c = CHR 0x0A") fastforce+
qed auto

fun join_with :: "string \<Rightarrow> string list \<Rightarrow> string" where
  \<comment> \<open>\<open>strcpy\<close> of the first string, then \<open>strcat\<close> of the separator and the next\<close>
  "join_with sep [] = []"
| "join_with sep [x] = x"
| "join_with sep (x # y # xs) = x @ sep @ join_with sep (y # xs)"

lemma join_with_Cons: "join_with sep (x # xs) = x @ concat (map (\<lambda>y. sep @ y) xs)"
  by (induction xs arbitrary: x) auto

lemma length_join_drop:
  "length (join_with sep (drop n xs)) \<le> length (join_with sep xs)"
proof (induction n arbitrary: xs)
  case (Suc n)
  show ?case
  proof (cases xs)
    case (Cons x ys)
    have "length (join_with sep ys) \<le> length (join_with sep xs)"
      using Cons by (cases ys) auto
    then show ?thesis using Suc.IH [of ys] Cons by simp
  qed simp
qed simp

lemma length_join_bound:
  "xs \<noteq> [] \<Longrightarrow> \<forall>x \<in> set xs. length x \<le> n \<Longrightarrow>
   length (join_with sep xs) + length sep \<le> (n + length sep) * length xs"
  by (induction xs rule: induct_list012) auto

section \<open>Running lines in order\<close>

fun run_lines :: "(string \<Rightarrow> 's \<Rightarrow> (int, 's) outcome) \<Rightarrow> string list \<Rightarrow> 's \<Rightarrow> (int, 's) outcome" where
  \<comment> \<open>the reference for scripts: one line after the other, the code is that of the last one\<close>
  "run_lines parse [] s = Ret 0 s"
| "run_lines parse [l] s = parse l s"
| "run_lines parse (l # l' # ls) s = seq (parse l s) (\<lambda>_ s. run_lines parse (l' # ls) s)"

end
