(* ===== verification/A1_Shell.thy ===== *)
theory A1_Shell
  imports Var_Memory Outcome
begin

text \<open>
  The shell of assignment 1 (\<open>a1/shell.c\<close>, \<open>a1/interpreter.c\<close>, \<open>a1/shellmemory.c\<close>): the
  memory of 1000 variables, the word splitter of \<open>parseInput\<close>, one definition per command, the
  dispatch of \<open>interpreter\<close> and the read loop of \<open>main\<close>. \<open>parseInput\<close> and \<open>interpreter\<close> call
  each other (through \<open>run\<close> and \<open>if\<close>): the commands take \<open>parse\<close> as an argument and
  \<open>a1_parseInput\<close> closes the recursion with fuel, one unit per nested call. The text of a file is
  read when it is opened. The fixed buffers of the code are kept as \<open>require\<close>d bounds.
\<close>

section \<open>State\<close>

record 'os a1 = world +
  shellmemory :: "slot list"
  host :: 'os
  input :: string               \<comment> \<open>the unread part of \<open>stdin\<close>\<close>
  terminals :: "string list"    \<comment> \<open>what the terminal gives each time \<open>/dev/tty\<close> is opened\<close>
  interactive :: bool           \<comment> \<open>\<open>isatty(fileno(stdin))\<close>\<close>

type_synonym 'os a1_call = "(int, 'os a1) outcome"
type_synonym 'os a1_parser = "string \<Rightarrow> 'os a1 \<Rightarrow> 'os a1_call"

section \<open>a1/shellmemory.c\<close>

definition NOT_FOUND :: string where "NOT_FOUND = ''Variable does not exist''"

definition a1_match :: "string \<Rightarrow> string \<Rightarrow> int option" where
  \<comment> \<open>the loop reads \<open>strlen(var)\<close> characters of \<open>model\<close>, its terminator at most\<close>
  "a1_match model v =
     (if length v \<le> Suc (length model)
      then Some (if length (filter (\<lambda>i. (model @ [CHR 0x00]) ! i = v ! i) [0..<length v]) = length v
                 then 1 else 0)
      else None)"

definition a1_extract :: "string \<Rightarrow> string option" where
  "a1_extract model =
     (let i = length (takeWhile (\<lambda>c. c \<noteq> CHR ''='') model); v = drop (i + 1) model
      in if length v < 1000 then Some v else None)"

definition a1_mem_init :: "'os a1 \<Rightarrow> 'os a1" where
  "a1_mem_init s = s\<lparr>shellmemory := replicate 1000 \<lparr>var = NONE, val = NONE\<rparr>\<rparr>"

definition a1_mem_set_value :: "string \<Rightarrow> string \<Rightarrow> 'os a1 \<Rightarrow> 'os a1" where
  "a1_mem_set_value var_in value_in s =
     s\<lparr>shellmemory := set_in_range 0 1000 var_in value_in (shellmemory s)\<rparr>"

definition a1_mem_get_value :: "string \<Rightarrow> 'os a1 \<Rightarrow> string" where
  "a1_mem_get_value var_in s =
     (case get_in_range 0 1000 var_in (shellmemory s) of Some v \<Rightarrow> v | None \<Rightarrow> NOT_FOUND)"

section \<open>The words of a line (parseInput, a1/shell.c)\<close>

text \<open>\<open>a\<close> is the index in the line, the second argument what is left of it.\<close>

fun a1_skip :: "nat \<Rightarrow> string \<Rightarrow> nat \<times> string" where
  "a1_skip a [] = (a, [])"
| "a1_skip a (c # s) = (if c = CHR '' '' \<and> a < 1000 then a1_skip (Suc a) s else (a, c # s))"

fun a1_word :: "nat \<Rightarrow> string \<Rightarrow> string \<times> nat \<times> string" where
  "a1_word a [] = ([], a, [])"
| "a1_word a (c # s) =
     (if c \<noteq> CHR '';'' \<and> c \<noteq> CHR 0x0A \<and> c \<noteq> CHR '' '' \<and> a < 1000
      then (let (w, a', r) = a1_word (Suc a) s in (c # w, a', r))
      else ([], a, c # s))"

lemma a1_word_length: "a1_word a s = (w, a', r) \<Longrightarrow> length w + length r = length s"
  by (induction a s arbitrary: w a' r rule: a1_word.induct) (auto split: if_splits prod.splits)

function a1_words :: "nat \<Rightarrow> string \<Rightarrow> string list" where
  "a1_words a [] = []"
| "a1_words a (c # s) =
     (if c = CHR 0x0A \<or> \<not> a < 1000 then []
      else (case a1_word a (c # s) of
              (w, a', []) \<Rightarrow> [w]
            | (w, a', _ # r) \<Rightarrow> w # a1_words (Suc a') r))"
  by pat_completeness auto

termination
proof (relation "measure (\<lambda>(a, s). length s)", goal_cases)
  case 1
  then show ?case by simp
next
  case (2 a c s w p a' q d r)
  then have "a1_word a (c # s) = (w, a', d # r)" by (simp only: not_False_eq_True)
  from a1_word_length [OF this] have "length w + length (d # r) = length (c # s)" .
  then show ?case by simp
qed

declare a1_words.simps(2) [simp del]

section \<open>The commands (a1/interpreter.c)\<close>

definition badcommand :: "'a world_scheme \<Rightarrow> (int, 'a world_scheme) outcome" where
  "badcommand s = Ret 1 (puts ''Unknown Command'' s)"

definition badcommandIncorrectUsage ::
  "string \<Rightarrow> 'a world_scheme \<Rightarrow> (int, 'a world_scheme) outcome" where
  "badcommandIncorrectUsage command s = Ret 2 (printf (''Bad command: '' @ command @ nl) s)"

definition badcommandFileDoesNotExist :: "'a world_scheme \<Rightarrow> (int, 'a world_scheme) outcome" where
  "badcommandFileDoesNotExist s = Ret 3 (puts ''Bad command: File not found'' s)"

definition help_string :: string where
  "help_string =
     (let t = [CHR 0x09]; e = nl @ '' '';
          lq = [CHR 0xE2, CHR 0x80, CHR 0x9C]; rq = [CHR 0xE2, CHR 0x80, CHR 0x9D]
      in ''COMMAND'' @ t @ t @ t @ ''DESCRIPTION'' @ e
       @ ''help'' @ t @ t @ t @ ''Displays all the commands'' @ e
       @ ''quit'' @ t @ t @ t @ ''Exits / terminates the shell with '' @ lq @ ''Bye!'' @ rq @ e
       @ ''set VAR STRING'' @ t @ t @ ''Assigns a value to shell memory'' @ e
       @ ''print VAR'' @ t @ t @ ''Displays the STRING assigned to VAR'' @ e
       @ ''run SCRIPT.TXT'' @ t @ t @ ''Executes the file SCRIPT.TXT'' @ e)"

definition show_help :: "'a world_scheme \<Rightarrow> (int, 'a world_scheme) outcome" where
  "show_help s = Ret 0 (puts help_string s)"

definition quit_shell :: "'a world_scheme \<Rightarrow> (int, 'a world_scheme) outcome" where
  "quit_shell s = Exit 0 (puts ''Bye!'' s)"

definition a1_set :: "string \<Rightarrow> string \<Rightarrow> 'os a1 \<Rightarrow> 'os a1_call" where
  \<comment> \<open>\<open>buffer[1000]\<close> holds \<open>var=value\<close> and is not used\<close>
  "a1_set v x s =
     require (length v + 1 + length x < 1000) (Ret 0 (a1_mem_set_value v x s))"

definition a1_print :: "string \<Rightarrow> 'os a1 \<Rightarrow> 'os a1_call" where
  "a1_print v s = Ret 0 (puts (a1_mem_get_value v s) s)"

text \<open>\<open>run\<close>: \<open>line\<close> is the buffer, \<open>eof\<close> the end-of-file mark of the stream, then the unread text.\<close>

function a1_run_loop ::
  "'os a1_parser \<Rightarrow> string \<Rightarrow> bool \<Rightarrow> string \<Rightarrow> 'os a1 \<Rightarrow> 'os a1_call" where
  "a1_run_loop parse line eof rest s =
     seq (parse line s) (\<lambda>errCode s.
       if eof then Ret errCode s
       else (case fgets 999 rest of (line, rest', eof') \<Rightarrow> a1_run_loop parse line eof' rest' s))"
  by pat_completeness auto

termination
proof (relation "measure (\<lambda>(p, l, e, r, s). if e then 0 else Suc (length r))", goal_cases)
  case 1
  then show ?case by simp
next
  case 2
  then show ?case using fgets_progress [of 999] by (auto dest: sym)
qed

declare a1_run_loop.simps [simp del]

definition a1_run :: "'os host_ops \<Rightarrow> 'os a1_parser \<Rightarrow> string \<Rightarrow> 'os a1 \<Rightarrow> 'os a1_call" where
  \<comment> \<open>on an empty file the first \<open>fgets\<close> leaves \<open>line\<close> uninitialised\<close>
  "a1_run h parse script s =
     (case os_open_read h script (host s) of
        None \<Rightarrow> badcommandFileDoesNotExist s
      | Some text \<Rightarrow>
          require (text \<noteq> [])
            (case fgets 999 text of (line, rest, eof) \<Rightarrow> a1_run_loop parse line eof rest s))"

definition strcpy_to :: "nat \<Rightarrow> string \<Rightarrow> (string \<Rightarrow> ('a, 's) outcome) \<Rightarrow> ('a, 's) outcome" where
  \<comment> \<open>copies into a buffer of \<open>n\<close> bytes, terminator included\<close>
  "strcpy_to n x k = require (length x < n) (k x)"

definition a1_operand :: "string \<Rightarrow> 'os a1 \<Rightarrow> (string \<Rightarrow> 'os a1_call) \<Rightarrow> 'os a1_call" where
  \<comment> \<open>an identifier of the conditional, in its buffer of 101 bytes\<close>
  "a1_operand arg s k =
     (if arg \<noteq> [] \<and> hd arg = CHR ''$''
      then strcpy_to 101 (a1_mem_get_value (tl arg) s) (\<lambda>v. k (if v = NOT_FOUND then [] else v))
      else strcpy_to 101 arg k)"

definition a1_echo :: "string \<Rightarrow> 'os a1 \<Rightarrow> 'os a1_call" where
  "a1_echo token_string s =
     (if token_string \<noteq> [] \<and> hd token_string = CHR ''$''
      then strcpy_to 101 (a1_mem_get_value (tl token_string) s) (\<lambda>v.
             Ret 0 (puts (if v = NOT_FOUND then [] else v) s))
      else Ret 0 (puts token_string s))"

definition a1_my_ls :: "'os host_ops \<Rightarrow> 'os a1 \<Rightarrow> 'os a1_call" where
  "a1_my_ls h s =
     (case os_system h ''ls'' (host s) of (r, text, os') \<Rightarrow> Ret r (printf text s\<lparr>host := os'\<rparr>))"

definition a1_my_mkdir :: "'os host_ops \<Rightarrow> string \<Rightarrow> 'os a1 \<Rightarrow> 'os a1_call" where
  "a1_my_mkdir h dirname s =
     (case os_mkdir h dirname (host s) of (r, os') \<Rightarrow>
        if r \<noteq> 0 then badcommandIncorrectUsage ''my_mkdir'' (s\<lparr>host := os'\<rparr>)
        else Ret 0 (s\<lparr>host := os'\<rparr>))"

definition a1_my_touch :: "'os host_ops \<Rightarrow> string \<Rightarrow> 'os a1 \<Rightarrow> 'os a1_call" where
  "a1_my_touch h filename s =
     (case os_create h filename (host s) of (ok, os') \<Rightarrow>
        if \<not> ok then badcommandIncorrectUsage ''my_touch'' (s\<lparr>host := os'\<rparr>)
        else Ret 0 (s\<lparr>host := os'\<rparr>))"

definition a1_my_cd :: "'os host_ops \<Rightarrow> string \<Rightarrow> 'os a1 \<Rightarrow> 'os a1_call" where
  "a1_my_cd h dirname s =
     (case os_chdir h dirname (host s) of (r, os') \<Rightarrow>
        if r \<noteq> 0 then badcommandIncorrectUsage ''my_cd'' (s\<lparr>host := os'\<rparr>)
        else Ret 0 (s\<lparr>host := os'\<rparr>))"

fun a1_cat_loop :: "string \<Rightarrow> 'a world_scheme \<Rightarrow> 'a world_scheme" where
  \<comment> \<open>\<open>content_c\<close> is a \<open>char\<close>: the byte 0xFF compares equal to \<open>EOF\<close>\<close>
  "a1_cat_loop [] s = s"
| "a1_cat_loop (c # cs) s = (if c = CHR 0xFF then s else a1_cat_loop cs (printf [c] s))"

definition a1_my_cat :: "'os host_ops \<Rightarrow> string \<Rightarrow> 'os a1 \<Rightarrow> 'os a1_call" where
  "a1_my_cat h filename s =
     (case os_open_read h filename (host s) of
        None \<Rightarrow> badcommandIncorrectUsage ''my_cat'' s
      | Some text \<Rightarrow> Ret 0 (a1_cat_loop text s))"

section \<open>The conditional\<close>

text \<open>
  The clause loops test \<open>command_args[i]\<close> before \<open>i >= args_size\<close>: running off the arguments
  reads an element of \<open>words\<close> that was never assigned. The result is the clause and the index
  where the loop stopped.
\<close>

function a1_clause ::
  "string list \<Rightarrow> string list \<Rightarrow> nat \<Rightarrow> string \<Rightarrow> (string \<times> nat) option" where
  "a1_clause stops args i acc =
     (if i < length args then
        (if args ! i \<in> set stops then Some (acc, i)
         else a1_clause stops args (Suc i) (acc @ '' '' @ args ! i))
      else None)"
  by pat_completeness auto
termination by (relation "measure (\<lambda>(stops, args, i, acc). length args - i)") auto

declare a1_clause.simps [simp del]

definition a1_run_clause :: "'os a1_parser \<Rightarrow> string \<Rightarrow> 'os a1 \<Rightarrow> 'os a1_call" where
  "a1_run_clause parse command s =
     (if command = [] then Ret 2 (puts ''Empty if clause'' s) else parse command s)"

definition a1_second_clause :: "string list \<Rightarrow> nat \<Rightarrow> (string \<Rightarrow> 'os a1_call) \<Rightarrow> 'os a1_call" where
  \<comment> \<open>\<open>i\<close> is the index of \<open>else\<close>\<close>
  "a1_second_clause args i k =
     require (Suc i < length args)
       (case a1_clause [''fi'', nl] args (i + 2) (args ! Suc i) of
          None \<Rightarrow> Undefined
        | Some (command2, _) \<Rightarrow> strcpy_to 1000 command2 k)"

definition a1_if :: "'os a1_parser \<Rightarrow> string list \<Rightarrow> 'os a1 \<Rightarrow> 'os a1_call" where
  "a1_if parse args s =
     (if length args < 6 then badcommandIncorrectUsage ''too few arguments in if-conditional'' s
      else
        a1_operand (args ! 1) s (\<lambda>identifier1.
        a1_operand (args ! 3) s (\<lambda>identifier2.
          if args ! 2 \<noteq> ''=='' \<and> args ! 2 \<noteq> ''!=''
          then badcommandIncorrectUsage ''invalid operator in if-conditional'' s
          else
            let condition = (if args ! 2 = ''=='' then identifier1 = identifier2
                             else identifier1 \<noteq> identifier2)
            in if args ! 4 \<noteq> ''then''
               then badcommandIncorrectUsage ''cannot find 'then' in if-conditional'' s
               else if args ! 5 = ''else'' \<or> args ! 5 = ''fi'' \<or> args ! 5 = nl
               then Ret 2 (printf (''Empty if clause'' @ nl) s)
               else
                 (case a1_clause [''else'', ''fi'', nl] args 6 (args ! 5) of
                    None \<Rightarrow> Undefined
                  | Some (command1, i) \<Rightarrow>
                      strcpy_to 1000 command1 (\<lambda>command1.
                        if args ! i = ''else''
                        then a1_second_clause args i (\<lambda>command2.
                               a1_run_clause parse (if condition then command1 else command2) s)
                        else a1_run_clause parse (if condition then command1 else []) s)))))"

section \<open>The interpreter\<close>

definition a1_set_command :: "string list \<Rightarrow> 'os a1 \<Rightarrow> 'os a1_call" where
  "a1_set_command args s =
     (if length args < 3 \<or> 7 < length args then badcommandIncorrectUsage ''set'' s
      else strcpy_to (101 * (length args - 2)) (join_with '' '' (drop 2 args)) (\<lambda>v.
             a1_set (args ! 1) v s))"

definition MAX_ARGS_SIZE :: nat where "MAX_ARGS_SIZE = 20"

definition a1_interpreter ::
  "'os host_ops \<Rightarrow> 'os a1_parser \<Rightarrow> string list \<Rightarrow> 'os a1 \<Rightarrow> 'os a1_call" where
  "a1_interpreter h parse command_args s =
     (let n = length command_args; args = map strip_eol command_args in
      if n < 1 \<or> MAX_ARGS_SIZE < n then badcommand s
      else if args ! 0 = ''help'' then (if n \<noteq> 1 then badcommand s else show_help s)
      else if args ! 0 = ''quit'' then (if n \<noteq> 1 then badcommand s else quit_shell s)
      else if args ! 0 = ''set'' then a1_set_command args s
      else if args ! 0 = ''print'' then (if n \<noteq> 2 then badcommand s else a1_print (args ! 1) s)
      else if args ! 0 = ''run'' then (if n \<noteq> 2 then badcommand s else a1_run h parse (args ! 1) s)
      else if args ! 0 = ''echo'' then
        (if n \<noteq> 2 then badcommandIncorrectUsage ''echo'' s else a1_echo (args ! 1) s)
      else if args ! 0 = ''my_ls'' then
        (if n \<noteq> 1 then badcommandIncorrectUsage ''my_ls'' s else a1_my_ls h s)
      else if args ! 0 = ''my_mkdir'' then
        (if n \<noteq> 2 then badcommandIncorrectUsage ''my_mkdir'' s else a1_my_mkdir h (args ! 1) s)
      else if args ! 0 = ''my_touch'' then
        (if n \<noteq> 2 then badcommandIncorrectUsage ''my_touch'' s else a1_my_touch h (args ! 1) s)
      else if args ! 0 = ''my_cd'' then
        (if n \<noteq> 2 then badcommandIncorrectUsage ''my_cd'' s else a1_my_cd h (args ! 1) s)
      else if args ! 0 = ''my_cat'' then
        (if n \<noteq> 2 then badcommandIncorrectUsage ''my_cat'' s else a1_my_cat h (args ! 1) s)
      else if args ! 0 = ''if'' then a1_if parse args s
      else badcommand s)"

definition a1_split :: "string \<Rightarrow> string list" where
  "a1_split ui = (case a1_skip 0 ui of (a, s) \<Rightarrow> a1_words a s)"

fun a1_parseInput :: "'os host_ops \<Rightarrow> nat \<Rightarrow> string \<Rightarrow> 'os a1 \<Rightarrow> 'os a1_call" where
  \<comment> \<open>\<open>tmp[200]\<close> and \<open>words[100]\<close>; \<open>ui\<close> lies in a buffer of 1000 bytes\<close>
  "a1_parseInput h 0 ui s = Unfinished"
| "a1_parseInput h (Suc fuel) ui s =
     (let words = a1_split ui in
      require (length ui < 1000 \<and> (\<forall>w \<in> set words. length w < 200) \<and> length words \<le> 100)
        (a1_interpreter h (a1_parseInput h fuel) words s))"

section \<open>The read loop (main, a1/shell.c)\<close>

definition freopen_tty :: "'os a1 \<Rightarrow> 'os a1" where
  \<comment> \<open>\<open>freopen("/dev/tty", "r", stdin)\<close>: without a terminal \<open>stdin\<close> stays closed\<close>
  "freopen_tty s =
     (case terminals s of
        [] \<Rightarrow> s\<lparr>input := [], interactive := False\<rparr>
      | t # ts \<Rightarrow> s\<lparr>input := t, terminals := ts, interactive := True\<rparr>)"

definition a1_read :: "'os a1 \<Rightarrow> string \<times> 'os a1" where
  "a1_read s =
     (let s = (if interactive s then printf ''$ '' s else s);
          (line, rest, eof) = fgets 999 (input s);
          s = s\<lparr>input := rest\<rparr>
      in (line, if eof then freopen_tty s else s))"

fun a1_main_loop :: "'os host_ops \<Rightarrow> nat \<Rightarrow> nat \<Rightarrow> 'os a1 \<Rightarrow> 'os a1_call" where
  \<comment> \<open>the loop ends by \<open>exit\<close> only; the second argument bounds its turns\<close>
  "a1_main_loop h 0 fuel s = Unfinished"
| "a1_main_loop h (Suc n) fuel s =
     (case a1_read s of (line, s) \<Rightarrow>
        seq (a1_parseInput h fuel line s) (\<lambda>errorCode s.
          if errorCode = -1 then Exit 99 s else a1_main_loop h n fuel s))"

definition a1_main :: "'os host_ops \<Rightarrow> nat \<Rightarrow> nat \<Rightarrow> 'os a1 \<Rightarrow> 'os a1_call" where
  "a1_main h n fuel s =
     seq (show_help (puts ''Shell v1.0'' s)) (\<lambda>_ s. a1_main_loop h n fuel (a1_mem_init s))"

section \<open>The memory as a variable store\<close>

definition a1_ok :: "'os a1 \<Rightarrow> bool" where
  "a1_ok s = unique_vars 0 1000 (shellmemory s)"

definition a1_vars :: "'os a1 \<Rightarrow> string \<rightharpoonup> string" where
  "a1_vars s = vars_in 0 1000 (shellmemory s)"

definition a1_room :: "'os a1 \<Rightarrow> nat" where
  "a1_room s = free_slots 0 1000 (shellmemory s)"

interpretation a1v: var_store a1_ok a1_vars a1_room a1_mem_set_value
  by unfold_locales
    (simp_all add: a1_ok_def a1_vars_def a1_room_def a1_mem_set_value_def range.none_free
      range.set_ok range.set_vars range.set_room range.set_full)

lemma a1_mem_init_vars: "a1_ok (a1_mem_init s) \<and> a1_vars (a1_mem_init s) = Map.empty \<and> a1_room (a1_mem_init s) = 1000"
  using fresh_range [of 0 1000 "shellmemory (a1_mem_init s)"]
  by (simp add: a1_ok_def a1_vars_def a1_room_def a1_mem_init_def)

lemma a1_mem_get_value_vars:
  "v \<noteq> NONE \<Longrightarrow> a1_mem_get_value v s = (case a1_vars s v of Some x \<Rightarrow> x | None \<Rightarrow> NOT_FOUND)"
  by (simp add: a1_mem_get_value_def a1_vars_def vars_in_def)

lemma a1_ok_printf [simp]: "a1_ok (printf t s) = a1_ok s" "a1_ok (puts t s) = a1_ok s"
  by (simp_all add: a1_ok_def printf_def puts_def)

lemma a1_vars_printf [simp]: "a1_vars (printf t s) = a1_vars s" "a1_vars (puts t s) = a1_vars s"
  by (simp_all add: a1_vars_def printf_def puts_def)

lemma a1_ok_host [simp]: "a1_ok (s\<lparr>host := x\<rparr>) = a1_ok s"
  by (simp add: a1_ok_def)

lemma a1_ok_set: "a1_ok s \<Longrightarrow> a1_ok (a1_mem_set_value v x s)"
  by (simp add: a1_ok_def a1_mem_set_value_def unique_vars_set)

end
