(* ===== verification/A1_Props.thy ===== *)
theory A1_Props
  imports A1_Shell
begin

text \<open>
  What the shell of assignment 1 does: the splitter inverts the joining of words, variables
  behave as a map, a script runs its lines in order, a conditional runs exactly one of its
  clauses, and more fuel never changes a result that was reached.
\<close>

section \<open>Words\<close>

definition plain :: "string \<Rightarrow> bool" where
  \<comment> \<open>a token without separators\<close>
  "plain w \<longleftrightarrow> set w \<inter> {CHR '';'', CHR '' '', CHR 0x0A, CHR 0x0D} = {}"

lemma plain_simps [simp]:
  "plain []"
  "plain (c # w) \<longleftrightarrow> c \<noteq> CHR '';'' \<and> c \<noteq> CHR '' '' \<and> c \<noteq> CHR 0x0A \<and> c \<noteq> CHR 0x0D \<and> plain w"
  by (auto simp: plain_def)

lemma plain_strip_eol [simp]: "plain w \<Longrightarrow> strip_eol w = w"
  by (auto simp: plain_def strip_eol_id)

lemma a1_word_plain:
  "plain w \<Longrightarrow> a + length w \<le> 1000 \<Longrightarrow> r = [] \<or> \<not> plain [hd r] \<and> hd r \<noteq> CHR 0x0D \<Longrightarrow>
   a1_word a (w @ r) = (w, a + length w, r)"
proof (induction w arbitrary: a)
  case Nil
  then show ?case by (cases r) auto
qed auto

lemma a1_words_join:
  assumes "ws \<noteq> []" and "\<forall>w \<in> set ws. plain w" and "last ws \<noteq> []"
    and "a + length (join_with '' '' ws) \<le> 1000" and "e = [] \<or> e = nl"
  shows "a1_words a (join_with '' '' ws @ e) = ws"
  using assms
proof (induction ws arbitrary: a rule: induct_list012)
  case 1
  then show ?case by simp
next
  case (2 w)
  then obtain c s where w: "w = c # s" by (cases w) auto
  have "a1_word a (w @ e) = (w, a + length w, e)"
    using 2 by (intro a1_word_plain) (auto simp: nl_def)
  then show ?case using 2 w by (auto simp: a1_words.simps(2) nl_def)
next
  case (3 x y xs)
  let ?r = "CHR '' '' # join_with '' '' (y # xs) @ e"
  have w: "a1_word a (x @ ?r) = (x, a + length x, ?r)"
    using "3.prems" by (intro a1_word_plain) auto
  have step: "a1_words a (x @ ?r) = x # a1_words (Suc (a + length x)) (join_with '' '' (y # xs) @ e)"
  proof (cases x)
    case Nil
    then show ?thesis using w "3.prems" by (simp add: a1_words.simps(2))
  next
    case (Cons c s)
    then show ?thesis using w "3.prems" by (simp add: a1_words.simps(2))
  qed
  then show ?case using 3 by simp
qed

lemma a1_split_join:
  assumes "ws \<noteq> []" and "\<forall>w \<in> set ws. plain w" and "hd ws \<noteq> []" and "last ws \<noteq> []"
    and "length (join_with '' '' ws) \<le> 1000" and "e = [] \<or> e = nl"
  shows "a1_split (join_with '' '' ws @ e) = ws"
proof -
  obtain c w ws' where ws: "ws = (c # w) # ws'" using assms(1,3) by (cases ws; cases "hd ws") auto
  have "a1_skip 0 (join_with '' '' ws @ e) = (0, join_with '' '' ws @ e)"
    using ws assms(2) by (cases ws') auto
  then show ?thesis using a1_words_join [of ws 0 e] assms by (simp add: a1_split_def)
qed

section \<open>Lines that are typed\<close>

definition typable :: "string list \<Rightarrow> bool" where
  \<comment> \<open>tokens that, joined by blanks, fit a line and the tables of \<open>parseInput\<close>\<close>
  "typable ws \<longleftrightarrow> ws \<noteq> [] \<and> length ws \<le> MAX_ARGS_SIZE \<and> hd ws \<noteq> [] \<and> last ws \<noteq> [] \<and>
     (\<forall>w \<in> set ws. plain w \<and> length w < 200) \<and> length (join_with '' '' ws) < 999"

abbreviation line_of :: "string list \<Rightarrow> string" where "line_of \<equiv> join_with '' ''"

lemma a1_parse_line:
  assumes "typable ws" and "e = [] \<or> e = nl"
  shows "a1_parseInput h (Suc fuel) (line_of ws @ e) s = a1_interpreter h (a1_parseInput h fuel) ws s"
proof -
  have "a1_split (line_of ws @ e) = ws"
    using assms by (intro a1_split_join) (auto simp: typable_def)
  moreover have "length (line_of ws @ e) < 1000" using assms by (auto simp: typable_def nl_def)
  ultimately show ?thesis using assms(1) by (simp add: typable_def MAX_ARGS_SIZE_def)
qed

lemma strip_typable [simp]: "typable ws \<Longrightarrow> map strip_eol ws = ws"
  by (rule map_idI) (simp add: typable_def)

lemma typable_length: "typable ws \<Longrightarrow> \<not> length ws < 1 \<and> \<not> MAX_ARGS_SIZE < length ws"
  by (cases ws) (auto simp: typable_def)

lemma a1_line_set:
  assumes "typable (''set'' # x # vs)" and "vs \<noteq> []" and "length vs \<le> 5"
    and "\<forall>v \<in> set vs. length v \<le> 100" and "e = [] \<or> e = nl"
  shows "a1_parseInput h (Suc fuel) (line_of (''set'' # x # vs) @ e) s = Ret 0 (a1_mem_set_value x (line_of vs) s)"
proof -
  have val: "length (line_of vs) < 101 * length vs"
    using length_join_bound [OF assms(2,4), of "'' ''"] by simp
  have buf: "length x + 1 + length (line_of vs) < 1000"
    using assms(1,2) by (cases vs) (auto simp: typable_def)
  show ?thesis
    unfolding a1_parse_line [OF assms(1,5)] a1_interpreter_def Let_def strip_typable [OF assms(1)]
    using typable_length [OF assms(1)] assms(2,3) val buf
    by (simp add: a1_set_command_def strcpy_to_def a1_set_def Suc_le_eq)
qed

lemma a1_line_print:
  assumes "typable [''print'', x]" and "e = [] \<or> e = nl"
  shows "a1_parseInput h (Suc fuel) (line_of [''print'', x] @ e) s
    = Ret 0 (puts (a1_mem_get_value x s) s)"
  unfolding a1_parse_line [OF assms] a1_interpreter_def Let_def strip_typable [OF assms(1)]
  by (simp add: a1_print_def MAX_ARGS_SIZE_def)

lemma a1_line_echo:
  assumes "typable [''echo'', x]" and "e = [] \<or> e = nl"
  shows "a1_parseInput h (Suc fuel) (line_of [''echo'', x] @ e) s = a1_echo x s"
  unfolding a1_parse_line [OF assms] a1_interpreter_def Let_def strip_typable [OF assms(1)]
  by (simp add: MAX_ARGS_SIZE_def)

lemma a1_line_run:
  assumes "typable [''run'', x]" and "e = [] \<or> e = nl"
  shows "a1_parseInput h (Suc fuel) (line_of [''run'', x] @ e) s
    = a1_run h (a1_parseInput h fuel) x s"
  unfolding a1_parse_line [OF assms] a1_interpreter_def Let_def strip_typable [OF assms(1)]
  by (simp add: MAX_ARGS_SIZE_def)

section \<open>Scripts\<close>

lemma run_lines_single: "run_lines parse [l] = parse l"
  by (rule ext) simp

lemma a1_run_loop_lines:
  assumes "\<forall>x \<in> set (file_lines rest). length x < 998"
  shows "a1_run_loop parse line eof rest s
    = run_lines parse (if eof then [line] else line # file_lines rest) s"
  using assms
proof (induction parse line eof rest s rule: a1_run_loop.induct)
  case (1 parse line eof rest s)
  show ?case
  proof (cases eof)
    case True
    then show ?thesis
      by (cases "parse line s") (simp_all add: a1_run_loop.simps [of parse line])
  next
    case False
    obtain l r e where f: "read_line 998 rest = (l, r, e)" and l: "l = List.hd (file_lines rest)"
      and e: "if e then r = [] \<and> tl (file_lines rest) = [] else tl (file_lines rest) = file_lines r"
      using read_line_file_lines [of rest 998] "1.prems" by (metis file_lines_not_Nil list.set_sel(1))
    have fl: "file_lines rest = (if e then [l] else l # file_lines r)"
      using l e by (metis file_lines_not_Nil list.collapse)
    have fg: "fgets 999 rest = (l, r, e)" by (simp add: fgets_def f)
    have small: "\<not> e \<Longrightarrow> \<forall>x \<in> set (file_lines r). length x < 998" using "1.prems" fl by simp
    have "a1_run_loop parse l e r s' = run_lines parse (file_lines rest) s'" for s'
    proof (cases e)
      case True
      then show ?thesis
        by (cases "parse l s'") (simp_all add: fl a1_run_loop.simps [of parse l])
    next
      case ne: False
      show ?thesis
        using "1.IH" [OF False fg [symmetric] refl small [OF ne]] ne fl by (metis)
    qed
    then show ?thesis
      using False fg by (cases e) (simp_all add: a1_run_loop.simps [of parse line False rest] fl run_lines_single)
  qed
qed

lemma a1_run_lines:
  assumes "os_open_read h script (host s) = Some content" and "content \<noteq> []"
    and "\<forall>x \<in> set (file_lines content). length x < 998"
  shows "a1_run h parse script s = run_lines parse (file_lines content) s"
proof -
  obtain l r e where f: "read_line 998 content = (l, r, e)" and l: "l = List.hd (file_lines content)"
    and e: "if e then r = [] \<and> tl (file_lines content) = [] else tl (file_lines content) = file_lines r"
    using read_line_file_lines [of content 998] assms(3) by (metis file_lines_not_Nil list.set_sel(1))
  have fl: "file_lines content = (if e then [l] else l # file_lines r)"
    using l e by (metis file_lines_not_Nil list.collapse)
  have "\<forall>x \<in> set (file_lines r). length x < 998" using assms(3) e fl by (cases e) auto
  from a1_run_loop_lines [OF this, of parse l e s]
  have "a1_run_loop parse l e r s = run_lines parse (file_lines content) s" using fl by simp
  then show ?thesis using assms(1,2) f by (simp add: a1_run_def fgets_def)
qed

section \<open>The conditional\<close>

lemma a1_clause_found:
  "args = pre @ mid @ stop # post \<Longrightarrow> stop \<in> set stops \<Longrightarrow> set mid \<inter> set stops = {} \<Longrightarrow>
   a1_clause stops args (length pre) acc = Some (acc @ concat (map (\<lambda>w. '' '' @ w) mid), length pre + length mid)"
proof (induction mid arbitrary: pre acc)
  case Nil
  then show ?case by (simp add: a1_clause.simps [of stops])
next
  case (Cons m mid)
  have "a1_clause stops args (length (pre @ [m])) (acc @ '' '' @ m)
      = Some ((acc @ '' '' @ m) @ concat (map (\<lambda>w. '' '' @ w) mid), length (pre @ [m]) + length mid)"
    using Cons.prems by (intro Cons.IH) auto
  then show ?case using Cons.prems by (simp add: a1_clause.simps [of stops "pre @ m # mid @ stop # post"])
qed

lemma a1_clause_at:
  "i = length pre \<Longrightarrow> args = pre @ mid @ stop # post \<Longrightarrow> stop \<in> set stops \<Longrightarrow>
   set mid \<inter> set stops = {} \<Longrightarrow>
   a1_clause stops args i acc = Some (acc @ concat (map (\<lambda>w. '' '' @ w) mid), i + length mid)"
  using a1_clause_found by blast

lemma a1_clause_none:
  "set (drop i args) \<inter> set stops = {} \<Longrightarrow> a1_clause stops args i acc = None"
proof (induction stops args i acc rule: a1_clause.induct)
  case (1 stops args i acc)
  show ?case
  proof (cases "i < length args")
    case True
    then have "drop i args = args ! i # drop (Suc i) args" by (simp add: Cons_nth_drop_Suc)
    then show ?thesis using 1 True by (simp add: a1_clause.simps [of stops args i])
  qed (simp add: a1_clause.simps [of stops args i])
qed

definition a1_value :: "'os a1 \<Rightarrow> string \<Rightarrow> string" where
  \<comment> \<open>what an identifier of the conditional stands for\<close>
  "a1_value s w =
     (if w \<noteq> [] \<and> hd w = CHR ''$''
      then (let v = a1_mem_get_value (tl w) s in if v = NOT_FOUND then [] else v) else w)"

definition a1_fits :: "'os a1 \<Rightarrow> string \<Rightarrow> bool" where
  "a1_fits s w \<longleftrightarrow>
     length (if w \<noteq> [] \<and> hd w = CHR ''$'' then a1_mem_get_value (tl w) s else w) \<le> 100"

lemma a1_operand_fits: "a1_operand w s k = require (a1_fits s w) (k (a1_value s w))"
  by (simp add: a1_operand_def a1_fits_def a1_value_def strcpy_to_def Let_def numeral_eq_Suc less_Suc_eq_le)

lemma typable_clause:
  assumes "typable (xs @ c @ ys)" and "c \<noteq> []" and "hd c \<noteq> []" and "last c \<noteq> []"
  shows "typable c"
proof -
  have "length (line_of (c @ ys)) \<le> length (line_of (xs @ c @ ys))"
    using length_join_drop [of "'' ''" "length xs" "xs @ c @ ys"] by simp
  moreover have "length (line_of c) \<le> length (line_of (c @ ys))"
    using assms(2) by (cases c) (simp_all add: join_with_Cons)
  ultimately show ?thesis using assms by (auto simp: typable_def)
qed

definition clause_words :: "string list \<Rightarrow> bool" where
  \<comment> \<open>the words of a command that may stand in a conditional\<close>
  "clause_words c \<longleftrightarrow> c \<noteq> [] \<and> hd c \<noteq> [] \<and> last c \<noteq> [] \<and>
     set c \<inter> {''else'', ''fi'', nl} = {}"

definition if_words :: "string \<Rightarrow> string \<Rightarrow> string \<Rightarrow> string list \<Rightarrow> string list \<Rightarrow> string list" where
  "if_words a rel b c d = [''if'', a, rel, b, ''then''] @ c @ ''else'' # d @ [''fi'']"

definition holds_op :: "string \<Rightarrow> string \<Rightarrow> string \<Rightarrow> bool" where
  "holds_op x rel y = (if rel = ''=='' then x = y else x \<noteq> y)"

lemma a1_if_else:
  assumes t: "typable (if_words a rel b c d)" and op: "rel = ''=='' \<or> rel = ''!=''"
    and c: "clause_words c" and d: "clause_words d" and fits: "a1_fits s a" "a1_fits s b"
  shows "a1_if parse (if_words a rel b c d) s
    = parse (line_of (if holds_op (a1_value s a) rel (a1_value s b) then c else d)) s"
proof -
  obtain c1 cs where cc: "c = c1 # cs" using c by (cases c) (auto simp: clause_words_def)
  obtain d1 ds where dd: "d = d1 # ds" using d by (cases d) (auto simp: clause_words_def)
  let ?args = "if_words a rel b c d"
  have c1: "a1_clause [''else'', ''fi'', nl] ?args 6 c1 = Some (line_of c, 6 + length cs)"
    unfolding cc join_with_Cons
    by (rule a1_clause_at [where pre = "[''if'', a, rel, b, ''then'', c1]" and stop = "''else''"
          and post = "d @ [''fi'']"]) (use c cc in \<open>auto simp: if_words_def clause_words_def\<close>)
  have d1: "a1_clause [''fi'', nl] ?args (8 + length cs) d1 = Some (line_of d, 8 + length cs + length ds)"
    unfolding dd join_with_Cons
    by (rule a1_clause_at [where pre = "[''if'', a, rel, b, ''then''] @ c @ [''else'', d1]"
          and stop = "''fi''" and post = "[]"])
      (use d cc dd in \<open>auto simp: if_words_def clause_words_def\<close>)
  have tc: "typable c" and td: "typable d"
    using typable_clause [of "[''if'', a, rel, b, ''then'']" c "''else'' # d @ [''fi'']"]
      typable_clause [of "[''if'', a, rel, b, ''then''] @ c @ [''else'']" d "[''fi'']"] t c d
    by (simp_all add: if_words_def clause_words_def)
  have len: "length (line_of c) < 1000" "length (line_of d) < 1000" using tc td by (simp_all add: typable_def)
  have ne: "line_of c \<noteq> []" "line_of d \<noteq> []"
    using tc td by (auto simp: cc dd join_with_Cons typable_def)
  have at: "?args ! (6 + length cs) = ''else''" "?args ! (7 + length cs) = d1" "7 + length cs < length ?args"
    "?args ! 5 = c1" "?args ! 4 = ''then''" "?args ! 1 = a" "?args ! 2 = rel" "?args ! 3 = b" "\<not> length ?args < 6"
    by (simp_all add: if_words_def cc dd nth_append)
  have c1n: "c1 \<noteq> ''else''" "c1 \<noteq> ''fi''" "c1 \<noteq> nl" using c cc by (auto simp: clause_words_def)
  show ?thesis
    using op
  proof
    assume "rel = ''==''"
    then show ?thesis
      using fits at c1 d1 c1n len ne
      by (simp add: a1_if_def a1_operand_fits a1_second_clause_def a1_run_clause_def strcpy_to_def
          Let_def holds_op_def)
  next
    assume "rel = ''!=''"
    then show ?thesis
      using fits at c1 d1 c1n len ne
      by (simp add: a1_if_def a1_operand_fits a1_second_clause_def a1_run_clause_def strcpy_to_def
          Let_def holds_op_def)
  qed
qed

lemma a1_if_unclosed:
  assumes "typable ([''if'', a, rel, b, ''then''] @ c)" and "rel = ''=='' \<or> rel = ''!=''"
    and "clause_words c" and "a1_fits s a" and "a1_fits s b"
  shows "a1_if parse ([''if'', a, rel, b, ''then''] @ c) s = Undefined"
proof -
  obtain c1 cs where cc: "c = c1 # cs" using assms(3) by (cases c) (auto simp: clause_words_def)
  have "a1_clause [''else'', ''fi'', nl] ([''if'', a, rel, b, ''then''] @ c) 6 c1 = None"
    using assms(3) cc by (intro a1_clause_none) (auto simp: clause_words_def numeral_eq_Suc)
  moreover have "c1 \<noteq> ''else''" "c1 \<noteq> ''fi''" "c1 \<noteq> nl" using assms(3) cc by (auto simp: clause_words_def)
  ultimately show ?thesis
    using assms(2,4,5) by (auto simp: a1_if_def a1_operand_fits cc Let_def)
qed

section \<open>Fuel\<close>

definition weaker :: "('b \<Rightarrow> 's \<Rightarrow> ('a, 's) outcome) \<Rightarrow> ('b \<Rightarrow> 's \<Rightarrow> ('a, 's) outcome) \<Rightarrow> bool" where
  "weaker p p' \<longleftrightarrow> (\<forall>l s. approx (p l s) (p' l s))"

lemma approx_strcpy_to [approx_rules]:
  "(\<And>x. approx (k x) (k' x)) \<Longrightarrow> approx (strcpy_to n v k) (strcpy_to n v k')"
  by (simp add: strcpy_to_def approx_require)

lemma approx_operand [approx_rules]:
  "(\<And>x. approx (k x) (k' x)) \<Longrightarrow> approx (a1_operand v s k) (a1_operand v s k')"
  by (simp add: a1_operand_def approx_strcpy_to)

lemma approx_run_loop:
  assumes "weaker p p'"
  shows "approx (a1_run_loop p line eof rest s) (a1_run_loop p' line eof rest s)"
  using assms
proof (induction p line eof rest s rule: a1_run_loop.induct)
  case (1 p line eof rest s)
  note unf = a1_run_loop.simps [of p line eof rest s] a1_run_loop.simps [of p' line eof rest s]
  show ?case
  proof (cases "eof")
    case True
    then show ?thesis using "1.prems" unfolding unf by (simp add: weaker_def approx_seq)
  next
    case False
    obtain l r e where f: "fgets 999 rest = (l, r, e)" by (cases "fgets 999 rest") auto
    have "approx (a1_run_loop p l e r t) (a1_run_loop p' l e r t)" for t
      by (rule "1.IH" [OF False f [symmetric] refl "1.prems"])
    then show ?thesis using "1.prems" False f unfolding unf by (simp add: weaker_def approx_seq)
  qed
qed

lemma approx_if_command: "weaker p p' \<Longrightarrow> approx (a1_if p args s) (a1_if p' args s)"
  unfolding a1_if_def a1_second_clause_def a1_run_clause_def
  by (intro approx_rules) (auto simp: weaker_def)

lemma approx_interpreter:
  assumes "weaker p p'" shows "approx (a1_interpreter h p args s) (a1_interpreter h p' args s)"
proof -
  have "approx (a1_run h p f s) (a1_run h p' f s)" for f
    unfolding a1_run_def by (intro approx_rules approx_run_loop [OF assms])
  then show ?thesis
    unfolding a1_interpreter_def by (simp add: Let_def approx_if_command [OF assms])
qed

lemma weaker_parseInput: "weaker (a1_parseInput h f) (a1_parseInput h (Suc f))"
proof (induction f)
  case 0
  then show ?case by (simp add: weaker_def)
next
  case (Suc f)
  have "approx (a1_parseInput h (Suc f) l s) (a1_parseInput h (Suc (Suc f)) l s)" for l s
    unfolding a1_parseInput.simps(2) [of h f l s] a1_parseInput.simps(2) [of h "Suc f" l s] Let_def
    by (intro approx_require approx_interpreter Suc.IH)
  then show ?case by (simp only: weaker_def) simp
qed

lemma a1_more_fuel:
  assumes "a1_parseInput h f ui s \<noteq> Unfinished" and "f \<le> g"
  shows "a1_parseInput h g ui s = a1_parseInput h f ui s"
  using assms(2)
proof (induction rule: dec_induct)
  case (step n)
  have "approx (a1_parseInput h n ui s) (a1_parseInput h (Suc n) ui s)"
    using weaker_parseInput [of h n] by (simp only: weaker_def)
  then show ?case using step.IH assms(1) by (simp only: approx_def) simp
qed simp

section \<open>The memory stays well formed\<close>

lemma ends_in_bad:
  "a1_ok s \<Longrightarrow> ends_in a1_ok (badcommand s)"
  "a1_ok s \<Longrightarrow> ends_in a1_ok (badcommandIncorrectUsage c s)"
  "a1_ok s \<Longrightarrow> ends_in a1_ok (badcommandFileDoesNotExist s)"
  "a1_ok s \<Longrightarrow> ends_in a1_ok (show_help s)"
  "a1_ok s \<Longrightarrow> ends_in a1_ok (quit_shell s)"
  by (simp_all add: badcommand_def badcommandIncorrectUsage_def badcommandFileDoesNotExist_def
      show_help_def quit_shell_def)

lemma a1_ok_cat: "a1_ok (a1_cat_loop t s) = a1_ok s"
  by (induction t s rule: a1_cat_loop.induct) auto

definition keeps_ok :: "'os a1_parser \<Rightarrow> bool" where
  "keeps_ok p \<longleftrightarrow> (\<forall>l s. a1_ok s \<longrightarrow> ends_in a1_ok (p l s))"

lemma ends_in_run_loop:
  "keeps_ok p \<Longrightarrow> a1_ok s \<Longrightarrow> ends_in a1_ok (a1_run_loop p line eof rest s)"
proof (induction p line eof rest s rule: a1_run_loop.induct)
  case (1 p line eof rest s)
  show ?case
    unfolding a1_run_loop.simps [of p line eof rest s]
  proof (rule ends_in_seq)
    show "ends_in a1_ok (p line s)" using "1.prems" by (simp add: keeps_ok_def)
  next
    fix x and t :: "'a a1"
    assume "a1_ok t"
    then show "ends_in a1_ok (if eof then Ret x t
        else (case fgets 999 rest of (l, r, e) \<Rightarrow> a1_run_loop p l e r t))"
      using "1.IH" [OF _ _ refl "1.prems"(1)] by (auto split: prod.splits)
  qed
qed

lemma ends_in_strcpy: "(\<And>x. ends_in P (k x)) \<Longrightarrow> ends_in P (strcpy_to n v k)"
  by (simp add: strcpy_to_def ends_in_require)

lemma ends_in_operand: "(\<And>x. ends_in P (k x)) \<Longrightarrow> ends_in P (a1_operand v s k)"
  by (simp add: a1_operand_def ends_in_strcpy)

lemma ends_in_if_command:
  assumes p: "keeps_ok p" and s: "a1_ok s" shows "ends_in a1_ok (a1_if p args s)"
proof -
  have run: "ends_in a1_ok (a1_run_clause p c s)" for c
    using p s by (simp add: a1_run_clause_def keeps_ok_def)
  show ?thesis
    unfolding a1_if_def a1_second_clause_def
    by (intro ends_rules ends_in_strcpy ends_in_operand run ends_in_bad s) (simp_all add: s)
qed

lemma ends_in_interpreter:
  assumes p: "keeps_ok p" and s: "a1_ok s"
  shows "ends_in a1_ok (a1_interpreter h p args s)"
proof -
  have run: "ends_in a1_ok (a1_run h p f s)" for f
    unfolding a1_run_def using s ends_in_run_loop [OF p s]
    by (auto simp: ends_in_bad intro!: ends_in_require split: option.splits prod.splits)
  have st: "ends_in a1_ok (a1_set_command ws s)" for ws
    using s by (auto simp: a1_set_command_def a1_set_def strcpy_to_def ends_in_bad a1_ok_set
        intro!: ends_in_require)
  have echo: "ends_in a1_ok (a1_echo w s)" for w
    using s by (auto simp: a1_echo_def strcpy_to_def intro!: ends_in_require)
  have os: "ends_in a1_ok (a1_my_ls h s)" "ends_in a1_ok (a1_my_mkdir h w s)" "ends_in a1_ok (a1_my_touch h w s)"
    "ends_in a1_ok (a1_my_cd h w s)" "ends_in a1_ok (a1_my_cat h w s)" for w
    using s by (auto simp: a1_my_ls_def a1_my_mkdir_def a1_my_touch_def a1_my_cd_def a1_my_cat_def
        ends_in_bad a1_ok_cat split: prod.splits option.splits)
  show ?thesis
    unfolding a1_interpreter_def
    using s run st echo os ends_in_if_command [OF p s] by (simp add: Let_def ends_in_bad a1_print_def)
qed

lemma keeps_ok_parseInput: "keeps_ok (a1_parseInput h f)"
proof (induction f)
  case 0
  then show ?case by (simp add: keeps_ok_def)
next
  case (Suc f)
  have "ends_in a1_ok (a1_parseInput h (Suc f) l s)" if "a1_ok s" for l s
    unfolding a1_parseInput.simps(2) [of h f l s] Let_def
    by (intro ends_in_require ends_in_interpreter Suc.IH that)
  then show ?case by (simp only: keeps_ok_def) simp
qed

lemma ends_in_main_loop: "a1_ok s \<Longrightarrow> ends_in a1_ok (a1_main_loop h n f s)"
proof (induction n arbitrary: s)
  case (Suc n)
  have r: "a1_ok (snd (a1_read s))"
    using Suc.prems
    by (auto simp: a1_read_def freopen_tty_def Let_def a1_ok_def printf_def split: prod.splits list.splits)
  obtain l t where lt: "a1_read s = (l, t)" by (cases "a1_read s") auto
  have "ends_in a1_ok (seq (a1_parseInput h f l t)
      (\<lambda>e s. if e = -1 then Exit 99 s else a1_main_loop h n f s))"
    by (rule ends_in_seq) (use r lt keeps_ok_parseInput Suc.IH in \<open>auto simp: keeps_ok_def\<close>)
  then show ?case using lt by simp
qed simp

section \<open>Properties of the shell\<close>

text \<open>A host with files only, and a fresh shell, for the concrete instances.\<close>

definition files_host :: "(string \<Rightarrow> string option) host_ops" where
  "files_host = \<lparr>os_system = (\<lambda>c fs. (0, [], fs)), os_open_read = (\<lambda>f fs. fs f),
     os_create = (\<lambda>f fs. (True, fs(f \<mapsto> []))), os_mkdir = (\<lambda>d fs. (-1, fs)),
     os_chdir = (\<lambda>d fs. (-1, fs)), os_is_dir = (\<lambda>d fs. False)\<rparr>"

definition a1_fresh :: "(string \<Rightarrow> string option) \<Rightarrow> (string \<Rightarrow> string option) a1" where
  "a1_fresh fs = a1_mem_init \<lparr>console = [], shellmemory = [], host = fs, input = [], terminals = [], interactive = False\<rparr>"

lemma a1_fresh_vars: "a1_ok (a1_fresh fs)" "a1_vars (a1_fresh fs) = Map.empty" "a1_room (a1_fresh fs) = 1000"
  by (simp_all add: a1_fresh_def a1_mem_init_vars)

lemma a1_fresh_host [simp]: "host (a1_fresh fs) = fs"
  by (simp add: a1_fresh_def a1_mem_init_def)

text \<open>
  The word splitter of \<open>parseInput\<close> inverts the joining of words by single blanks, with or
  without a final newline: every line the shell builds from tokens is read back as these tokens.
\<close>

theorem a1_split_roundtrip:
  assumes "ws \<noteq> []" and "\<forall>w \<in> set ws. plain w" and "hd ws \<noteq> []" and "last ws \<noteq> []"
    and "length (line_of ws) \<le> 1000"
  shows "a1_split (line_of ws @ nl) = ws \<and> a1_split (line_of ws) = ws"
  using a1_split_join [OF assms, of nl] a1_split_join [OF assms, of "[]"] by simp

theorem a1_split_roundtrip_witness:
  "a1_split (''set x one'' @ nl) = [''set'', ''x'', ''one''] \<and> a1_split ''set x one'' = [''set'', ''x'', ''one'']"
  using a1_split_roundtrip [of "[''set'', ''x'', ''one'']"] by simp

text \<open>
  \<open>set x v1 ... vk\<close> followed by \<open>print x\<close> prints the values joined by blanks, whatever the
  shell remembers, as long as the variable exists or a slot is free.
\<close>

theorem a1_set_then_print:
  assumes "a1_ok s" and "x \<noteq> NONE" and "a1_vars s x \<noteq> None \<or> 0 < a1_room s"
    and "typable (''set'' # x # vs)" and "vs \<noteq> []" and "length vs \<le> 5"
    and "\<forall>v \<in> set vs. length v \<le> 100" and "typable [''print'', x]"
  shows "run_lines (a1_parseInput h (Suc fuel)) [line_of (''set'' # x # vs) @ nl, line_of [''print'', x] @ nl] s
    = Ret 0 (puts (line_of vs) (a1_mem_set_value x (line_of vs) s))"
proof -
  have "a1_mem_get_value x (a1_mem_set_value x (line_of vs) s) = line_of vs"
    using a1v.get_after_set [OF assms(1-3)] assms(2) by (simp add: a1_mem_get_value_vars)
  then show ?thesis
    by (simp only: run_lines.simps a1_line_set [OF assms(4-7) disjI2 [OF refl]] seq.simps
        a1_line_print [OF assms(8) disjI2 [OF refl]])
qed

theorem a1_set_then_print_witness:
  "run_lines (a1_parseInput files_host (Suc 0))
     [line_of [''set'', ''x'', ''hello'', ''world''] @ nl, line_of [''print'', ''x''] @ nl] (a1_fresh (\<lambda>_. None))
   = Ret 0 (puts ''hello world'' (a1_mem_set_value ''x'' ''hello world'' (a1_fresh (\<lambda>_. None))))"
  using a1_set_then_print [of "a1_fresh (\<lambda>_. None)" "''x''" "[''hello'', ''world'']" files_host 0]
  by (simp add: a1_fresh_vars NONE_def typable_def MAX_ARGS_SIZE_def)

text \<open>
  C28: A sequence of assignments typed line by line leaves the variables as the sequence of map
  updates, as long as there is a free slot for every new name.
\<close>

theorem a1_assignments:
  assumes "a1_ok s" and "\<forall>(x, v) \<in> set xvs. x \<noteq> NONE \<and> typable [''set'', x, v] \<and> length v \<le> 100"
    and "card (fst ` set xvs - dom (a1_vars s)) \<le> a1_room s"
  shows "\<exists>t. run_lines (a1_parseInput h (Suc fuel)) (map (\<lambda>(x, v). line_of [''set'', x, v]) xvs) s = Ret 0 t \<and>
    a1_ok t \<and> a1_vars t = a1_vars s ++ map_of (rev xvs)"
proof -
  have line: "a1_parseInput h (Suc fuel) (line_of [''set'', x, v]) u = Ret 0 (a1_mem_set_value x v u)"
    if "(x, v) \<in> set xvs" for x v u
    using a1_line_set [of x "[v]" "[]" h fuel u] assms(2) that by fastforce
  have "run_lines (a1_parseInput h (Suc fuel)) (map (\<lambda>(x, v). line_of [''set'', x, v]) kvs) u
      = Ret 0 (fold (\<lambda>(x, v). a1_mem_set_value x v) kvs u)" if "set kvs \<subseteq> set xvs" for kvs u
    using that
  proof (induction kvs arbitrary: u rule: induct_list012)
    case (2 kv)
    then show ?case using line by (cases kv) (simp del: a1_parseInput.simps join_with.simps)
  next
    case (3 kv kv' kvs)
    then show ?case using line by (cases kv) (simp del: a1_parseInput.simps join_with.simps)
  qed simp
  from this [OF subset_refl, of s]
  have run: "run_lines (a1_parseInput h (Suc fuel)) (map (\<lambda>(x, v). line_of [''set'', x, v]) xvs) s
    = Ret 0 (fold (\<lambda>(x, v). a1_mem_set_value x v) xvs s)" .
  have "\<forall>(x, v) \<in> set xvs. x \<noteq> NONE" using assms(2) by auto
  from a1v.set_many [OF assms(1) this assms(3)] show ?thesis unfolding run by blast
qed

theorem a1_assignments_witness:
  "\<exists>t. run_lines (a1_parseInput files_host (Suc 0)) [''set x 1'', ''set y 2'', ''set x 3''] (a1_fresh (\<lambda>_. None)) = Ret 0 t \<and>
     a1_ok t \<and> a1_vars t = [''x'' \<mapsto> ''3'', ''y'' \<mapsto> ''2'']"
proof -
  have "\<exists>t. run_lines (a1_parseInput files_host (Suc 0)) [''set x 1'', ''set y 2'', ''set x 3''] (a1_fresh (\<lambda>_. None)) = Ret 0 t \<and>
     a1_ok t \<and> a1_vars t = Map.empty ++ map_of (rev [(''x'', ''1''), (''y'', ''2''), (''x'', ''3'')])"
    using a1_assignments [of "a1_fresh (\<lambda>_. None)" "[(''x'', ''1''), (''y'', ''2''), (''x'', ''3'')]" files_host 0]
    by (simp add: a1_fresh_vars NONE_def typable_def MAX_ARGS_SIZE_def card_insert_if del: a1_parseInput.simps)
  moreover have "Map.empty ++ map_of (rev [(''x'', ''1''), (''y'', ''2''), (''x'', ''3'')]) = [''x'' \<mapsto> ''3'', ''y'' \<mapsto> ''2'']"
    by (auto simp: fun_eq_iff)
  ultimately show ?thesis by simp
qed

text \<open>
  C23: \<open>run\<close> executes the lines of a script in order, as if they were typed, and returns the code
  of the last one; a script that ends with a newline has an empty last line, which the shell
  rejects as an unknown command.
\<close>

theorem a1_run_is_typing:
  assumes "typable [''run'', f]" and "os_open_read h f (host s) = Some content" and "content \<noteq> []"
    and "\<forall>x \<in> set (file_lines content). length x < 998"
  shows "a1_parseInput h (Suc fuel) (line_of [''run'', f] @ nl) s
    = run_lines (a1_parseInput h fuel) (file_lines content) s"
  by (simp only: a1_line_run [OF assms(1) disjI2 [OF refl]] a1_run_lines [OF assms(2-4)])

theorem a1_run_is_typing_witness:
  "a1_parseInput files_host 2 (line_of [''run'', ''s''] @ nl) (a1_fresh [''s'' \<mapsto> ''print x'' @ nl])
   = Ret 1 (puts ''Unknown Command'' (puts NOT_FOUND (a1_fresh [''s'' \<mapsto> ''print x'' @ nl])))"
proof -
  let ?s = "a1_fresh [''s'' \<mapsto> ''print x'' @ nl]"
  have print: "a1_parseInput files_host (Suc 0) ''print x\<newline>'' ?s = Ret 0 (puts NOT_FOUND ?s)"
    using a1_line_print [of "''x''" nl files_host 0 ?s]
    by (simp add: typable_def MAX_ARGS_SIZE_def NONE_def nl_def a1_fresh_vars a1_mem_get_value_vars
        del: a1_parseInput.simps)
  have empty: "a1_parseInput files_host (Suc 0) [] t = Ret 1 (puts ''Unknown Command'' t)" for t
    by (simp add: a1_split_def a1_interpreter_def badcommand_def)
  have "a1_parseInput files_host (Suc (Suc 0)) (line_of [''run'', ''s''] @ nl) ?s
      = run_lines (a1_parseInput files_host (Suc 0)) (file_lines (''print x'' @ nl)) ?s"
    by (rule a1_run_is_typing) (simp_all add: typable_def MAX_ARGS_SIZE_def files_host_def nl_def)
  then show ?thesis
    using print empty by (simp add: nl_def numeral_2_eq_2 del: a1_parseInput.simps join_with.simps)
qed

text \<open>
  C24: A conditional \<open>if a op b then c else d fi\<close> runs exactly the words of one clause, \<open>c\<close> when the
  operands (variables replaced by their values) compare as \<open>op\<close> says and \<open>d\<close> otherwise.
\<close>

theorem a1_conditional:
  assumes "typable (if_words a rel b c d)" and "rel = ''=='' \<or> rel = ''!=''"
    and "clause_words c" and "clause_words d" and "a1_fits s a" and "a1_fits s b"
  shows "a1_parseInput h (Suc (Suc fuel)) (line_of (if_words a rel b c d) @ nl) s
    = a1_interpreter h (a1_parseInput h fuel)
        (if holds_op (a1_value s a) rel (a1_value s b) then c else d) s"
proof -
  let ?c = "if holds_op (a1_value s a) rel (a1_value s b) then c else d"
  have "typable c" and "typable d"
    using typable_clause [of "[''if'', a, rel, b, ''then'']" c "''else'' # d @ [''fi'']"]
      typable_clause [of "[''if'', a, rel, b, ''then''] @ c @ [''else'']" d "[''fi'']"] assms(1,3,4)
    by (simp_all add: if_words_def clause_words_def)
  then have "typable ?c" by simp
  then have clause: "a1_parseInput h (Suc fuel) (line_of ?c) s = a1_interpreter h (a1_parseInput h fuel) ?c s"
    using a1_parse_line [of ?c "[]" h fuel s] by simp
  have "a1_interpreter h p (if_words a rel b c d) s = a1_if p (if_words a rel b c d) s" for p
    unfolding a1_interpreter_def Let_def strip_typable [OF assms(1)]
    using typable_length [OF assms(1)] by (simp add: if_words_def)
  then show ?thesis
    unfolding a1_parse_line [OF assms(1) disjI2 [OF refl]] a1_if_else [OF assms] clause [symmetric]
    using a1_if_else [OF assms] by simp
qed

theorem a1_conditional_witness:
  "a1_parseInput files_host 2 (line_of (if_words ''$x'' ''=='' ''1'' [''print'', ''x''] [''echo'', ''no'']) @ nl) (a1_fresh (\<lambda>_. None))
   = Ret 0 (puts ''no'' (a1_fresh (\<lambda>_. None)))"
proof -
  let ?s = "a1_fresh (\<lambda>_. None)"
  have v: "a1_mem_get_value ''x'' ?s = NOT_FOUND" by (simp add: a1_mem_get_value_vars NONE_def a1_fresh_vars)
  have "a1_parseInput files_host (Suc (Suc 0)) (line_of (if_words ''$x'' ''=='' ''1'' [''print'', ''x''] [''echo'', ''no'']) @ nl) ?s
      = a1_interpreter files_host (a1_parseInput files_host 0)
          (if holds_op (a1_value ?s ''$x'') ''=='' (a1_value ?s ''1'') then [''print'', ''x''] else [''echo'', ''no'']) ?s"
    by (rule a1_conditional)
      (simp_all add: if_words_def typable_def MAX_ARGS_SIZE_def clause_words_def nl_def a1_fits_def v NOT_FOUND_def)
  then show ?thesis
    by (simp add: numeral_2_eq_2 holds_op_def a1_value_def v a1_interpreter_def MAX_ARGS_SIZE_def a1_echo_def
        del: a1_parseInput.simps join_with.simps)
qed

text \<open>
  C31: A conditional with neither \<open>else\<close> nor \<open>fi\<close> reads past the words of the line: the clause loop
  tests \<open>command_args[i]\<close> before \<open>i >= args_size\<close>, so the error message for a missing \<open>fi\<close> is never
  reached.
\<close>

theorem a1_unclosed_if:
  assumes "typable ([''if'', a, rel, b, ''then''] @ c)" and "rel = ''=='' \<or> rel = ''!=''"
    and "clause_words c" and "a1_fits s a" and "a1_fits s b"
  shows "a1_parseInput h (Suc fuel) (line_of ([''if'', a, rel, b, ''then''] @ c) @ nl) s = Undefined"
proof -
  have "6 \<le> length ([''if'', a, rel, b, ''then''] @ c)" using assms(3) by (cases c) (auto simp: clause_words_def)
  then show ?thesis
    unfolding a1_parse_line [OF assms(1) disjI2 [OF refl]] a1_interpreter_def Let_def strip_typable [OF assms(1)]
    using typable_length [OF assms(1)] a1_if_unclosed [OF assms, of "a1_parseInput h fuel"] by simp
qed

theorem a1_unclosed_if_witness:
  "a1_parseInput files_host 1 (line_of ([''if'', ''a'', ''=='', ''a'', ''then''] @ [''help'']) @ nl) (a1_fresh (\<lambda>_. None)) = Undefined"
  unfolding One_nat_def
  by (rule a1_unclosed_if) (simp_all add: typable_def MAX_ARGS_SIZE_def clause_words_def nl_def a1_fits_def)

text \<open>
  C26: Whatever the shell reads, from the first line to the last, no two slots of its memory ever
  carry the same variable, however the session ends.
\<close>

theorem a1_memory_invariant: "ends_in a1_ok (a1_main h n fuel s)"
  by (simp add: a1_main_def show_help_def ends_in_main_loop a1_mem_init_vars)

text \<open>
  \<open>echo $x\<close> prints the value of \<open>x\<close> when it has at most 100 characters, and overruns the
  buffer of 101 bytes when it is longer.
\<close>

theorem a1_echo_variable:
  assumes "typable [''echo'', CHR ''$'' # x]" and "x \<noteq> NONE" and "a1_vars s x = Some v" and "v \<noteq> NOT_FOUND"
  shows "a1_parseInput h (Suc fuel) (line_of [''echo'', CHR ''$'' # x] @ nl) s
    = (if length v \<le> 100 then Ret 0 (puts v s) else Undefined)"
proof -
  have "a1_mem_get_value x s = v" using assms(2,3) by (simp add: a1_mem_get_value_vars)
  then show ?thesis
    unfolding a1_line_echo [OF assms(1) disjI2 [OF refl]]
    using assms(4) by (simp add: a1_echo_def strcpy_to_def require_def)
qed

theorem a1_echo_variable_witness:
  "a1_parseInput files_host 1 (line_of [''echo'', ''$x''] @ nl) (a1_mem_set_value ''x'' (replicate 101 CHR ''a'') (a1_fresh (\<lambda>_. None))) = Undefined"
proof -
  let ?s = "a1_mem_set_value ''x'' (replicate 101 CHR ''a'') (a1_fresh (\<lambda>_. None))"
  have "a1_vars ?s ''x'' = Some (replicate 101 CHR ''a'')"
    by (simp add: a1v.set_vars a1_fresh_vars NONE_def)
  moreover have "replicate 101 CHR ''a'' \<noteq> NOT_FOUND" by (simp add: NOT_FOUND_def list_eq_iff_nth_eq)
  moreover have "typable [''echo'', ''$x'']" by (simp add: typable_def MAX_ARGS_SIZE_def)
  ultimately show ?thesis
    using a1_echo_variable [of "''x''" ?s "replicate 101 CHR ''a''" files_host 0]
    by (simp add: NONE_def del: a1_parseInput.simps join_with.simps)
qed

text \<open>
  The fuel only bounds the nesting: once a call of \<open>parseInput\<close> ends, more fuel gives the same
  result.
\<close>

theorem a1_fuel_irrelevant:
  assumes "a1_parseInput h f ui s \<noteq> Unfinished" and "f \<le> g"
  shows "a1_parseInput h g ui s = a1_parseInput h f ui s"
  by (rule a1_more_fuel [OF assms])

theorem a1_fuel_irrelevant_witness:
  "a1_parseInput files_host 7 [] (a1_fresh (\<lambda>_. None)) = a1_parseInput files_host 1 [] (a1_fresh (\<lambda>_. None))"
  by (rule a1_fuel_irrelevant) (simp_all add: a1_split_def a1_interpreter_def badcommand_def)

end
