(* ===== verification/Streams.thy ===== *)
theory Streams
  imports Outcome
begin

text \<open>
  Open files as the kernels of assignments 2 and 3 read them: the whole text, the position of the
  next character and the end-of-file flag.
\<close>

record stream =
  st_text :: string
  st_pos :: nat
  st_eof :: bool

definition stream_gets :: "nat \<Rightarrow> stream \<Rightarrow> string option \<times> stream" where
  \<comment> \<open>\<open>fgets(line, n, fp)\<close>\<close>
  "stream_gets n st =
     (case read_line (n - 1) (drop (st_pos st) (st_text st)) of (l, _, e) \<Rightarrow>
        (if l = [] \<and> e then None else Some l,
         st\<lparr>st_pos := st_pos st + length l, st_eof := st_eof st \<or> e\<rparr>))"

section \<open>The lines left in a stream\<close>

definition reads :: "nat \<Rightarrow> stream \<Rightarrow> string list \<Rightarrow> bool" where
  \<comment> \<open>the lines left in a stream whose text does not end with a newline, each short enough\<close>
  "reads n st ls \<longleftrightarrow> \<not> st_eof st \<and> file_lines (drop (st_pos st) (st_text st)) = ls \<and> last ls \<noteq> [] \<and>
     (\<forall>l \<in> set ls. length l < n - 1)"

definition left_in :: "nat \<Rightarrow> stream \<Rightarrow> string list \<Rightarrow> bool" where
  "left_in n st ls \<longleftrightarrow> (if ls = [] then st_eof st \<and> drop (st_pos st) (st_text st) = [] else reads n st ls)"

lemma stream_gets_line:
  assumes "reads n st (l # ls)"
  shows "\<exists>st'. stream_gets n st = (Some l, st') \<and> left_in n st' ls"
proof -
  let ?rest = "drop (st_pos st) (st_text st)"
  have fl: "file_lines ?rest = l # ls" using assms by (simp add: reads_def)
  have "length (List.hd (file_lines ?rest)) < n - 1" using assms fl by (simp add: reads_def)
  from read_line_file_lines [OF this]
  obtain r e where r: "read_line (n - 1) ?rest = (l, r, e)" "if e then r = [] \<and> ls = [] else ls = file_lines r"
    unfolding fl list.sel by blast
  have "?rest = l @ r" using read_line_split [OF r(1)] .
  then have dr: "drop (st_pos st + length l) (st_text st) = r"
    by (metis add.commute append_eq_conv_conj drop_drop)
  have ne: "e \<Longrightarrow> l \<noteq> []" using r(2) assms by (auto simp: reads_def)
  have ls: "ls = [] \<longleftrightarrow> e" using r(2) by (cases e) auto
  show ?thesis
    using r dr ne ls assms
    by (auto simp: stream_gets_def left_in_def reads_def split: if_splits)
qed

lemma stream_gets_end:
  "left_in n st [] \<Longrightarrow> 1 < n \<Longrightarrow> \<exists>st'. stream_gets n st = (None, st') \<and> left_in n st' []"
  by (cases "n - 1") (auto simp: stream_gets_def left_in_def)

end
