(* ===== verification/Fifo.thy ===== *)
theory Fifo
  imports Prelude
begin

text \<open>
  The interface the schedulers rely on: a queue of nodes with insertion at the tail and removal
  at the head. \<open>contents\<close> is the abstract list, \<open>usable\<close> the nodes that may be inserted (for linked nodes:
  allocated and not in the queue). \<open>polled_fifo\<close> answers \<open>None\<close> when it is empty, \<open>deque\<close> adds
  insertion at the head.
\<close>

fun enq_all :: "('n \<Rightarrow> 's \<Rightarrow> 's option) \<Rightarrow> 'n list \<Rightarrow> 's \<Rightarrow> 's option" where
  "enq_all enq [] s = Some s"
| "enq_all enq (n # ns) s = do { s \<leftarrow> enq n s; enq_all enq ns s }"

fun deq_many :: "('s \<Rightarrow> ('n option \<times> 's) option) \<Rightarrow> nat \<Rightarrow> 's \<Rightarrow> ('n option list \<times> 's) option" where
  "deq_many deq 0 s = Some ([], s)"
| "deq_many deq (Suc k) s = do { (x, s) \<leftarrow> deq s; (xs, s) \<leftarrow> deq_many deq k s; Some (x # xs, s) }"

locale fifo =
  fixes ok :: "'s \<Rightarrow> bool"
    and contents :: "'s \<Rightarrow> 'n list"
    and usable :: "'s \<Rightarrow> 'n \<Rightarrow> bool"
    and enq :: "'n \<Rightarrow> 's \<Rightarrow> 's option"
    and deq :: "'s \<Rightarrow> ('n option \<times> 's) option"
  assumes enq_law: "ok s \<Longrightarrow> usable s n \<Longrightarrow>
      \<exists>s'. enq n s = Some s' \<and> ok s' \<and> contents s' = contents s @ [n] \<and>
           (\<forall>m. usable s m \<and> m \<noteq> n \<longrightarrow> usable s' m)"
    and deq_law: "ok s \<Longrightarrow> contents s = n # ns \<Longrightarrow>
      \<exists>s'. deq s = Some (Some n, s') \<and> ok s' \<and> contents s' = ns \<and> usable s' n"
begin

lemma enq_all_contents:
  assumes "ok s" and "\<forall>n \<in> set ns. usable s n" and "distinct ns"
  shows "\<exists>s'. enq_all enq ns s = Some s' \<and> ok s' \<and> contents s' = contents s @ ns"
  using assms
proof (induction ns arbitrary: s)
  case (Cons n ns)
  obtain s1 where s1: "enq n s = Some s1" "ok s1" "contents s1 = contents s @ [n]"
    "\<forall>m. usable s m \<and> m \<noteq> n \<longrightarrow> usable s1 m"
    using enq_law [OF Cons.prems(1), of n] Cons.prems(2) by auto
  have "\<forall>m \<in> set ns. usable s1 m" using Cons.prems(2,3) s1(4) by auto
  then obtain s' where "enq_all enq ns s1 = Some s'" "ok s'" "contents s' = contents s1 @ ns"
    using Cons.IH [OF s1(2)] Cons.prems(3) by auto
  then show ?case using s1 by simp
qed simp

lemma deq_many_contents:
  assumes "ok s" and "length (contents s) = k"
  shows "\<exists>s'. deq_many deq k s = Some (map Some (contents s), s') \<and> ok s' \<and> contents s' = []"
  using assms
proof (induction k arbitrary: s)
  case (Suc k)
  then obtain n ns where c: "contents s = n # ns" "length ns = k" by (cases "contents s") auto
  obtain s1 where s1: "deq s = Some (Some n, s1)" "ok s1" "contents s1 = ns"
    using deq_law [OF Suc.prems(1) c(1)] by blast
  then show ?case using Suc.IH [OF s1(2)] c by auto
qed simp

text \<open>First in, first out: what is queued behind the present contents comes out after it, in order.\<close>

lemma fifo_order:
  assumes "ok s" and "\<forall>n \<in> set ns. usable s n" and "distinct ns"
  shows "\<exists>s' s''. enq_all enq ns s = Some s' \<and>
    deq_many deq (length (contents s) + length ns) s' = Some (map Some (contents s @ ns), s'') \<and>
    ok s'' \<and> contents s'' = []"
proof -
  obtain s' where s': "enq_all enq ns s = Some s'" "ok s'" "contents s' = contents s @ ns"
    using enq_all_contents [OF assms] by blast
  then show ?thesis using deq_many_contents [OF s'(2)] by auto
qed

text \<open>A turn of a round-robin scheduler: the head goes to the tail.\<close>

lemma rotate_once:
  assumes "ok s" and "contents s = n # ns"
  shows "\<exists>s' s''. deq s = Some (Some n, s') \<and> enq n s' = Some s'' \<and> ok s'' \<and> contents s'' = ns @ [n]"
proof -
  obtain s' where s': "deq s = Some (Some n, s')" "ok s'" "contents s' = ns" "usable s' n"
    using deq_law [OF assms] by auto
  then show ?thesis using enq_law [OF s'(2,4)] by auto
qed

end

text \<open>A queue that answers \<open>None\<close> when it is empty.\<close>

locale polled_fifo = fifo ok contents usable enq deq
  for ok :: "'s \<Rightarrow> bool" and contents :: "'s \<Rightarrow> 'n list" and usable :: "'s \<Rightarrow> 'n \<Rightarrow> bool"
    and enq :: "'n \<Rightarrow> 's \<Rightarrow> 's option" and deq :: "'s \<Rightarrow> ('n option \<times> 's) option" +
  assumes deq_empty_law: "ok s \<Longrightarrow> contents s = [] \<Longrightarrow> deq s = Some (None, s)"
begin

lemma deq_empty_many: "ok s \<Longrightarrow> contents s = [] \<Longrightarrow> deq_many deq k s = Some (replicate k None, s)"
  by (induction k) (simp_all add: deq_empty_law)

lemma deq_past_end:
  assumes "ok s"
  shows "\<exists>s'. deq_many deq (length (contents s) + k) s = Some (map Some (contents s) @ replicate k None, s') \<and>
    ok s' \<and> contents s' = []"
  using assms
proof (induction "contents s" arbitrary: s)
  case Nil
  then show ?case using deq_empty_many [of s k] by auto
next
  case (Cons n ns)
  obtain s1 where s1: "deq s = Some (Some n, s1)" "ok s1" "contents s1 = ns"
    using deq_law [OF Cons.prems, of n ns] Cons.hyps(2) by auto
  then show ?case using Cons.hyps(1) [of s1] Cons.hyps(2) [symmetric] by auto
qed

end

locale deque = fifo ok contents usable enq deq
  for ok :: "'s \<Rightarrow> bool" and contents :: "'s \<Rightarrow> 'n list" and usable :: "'s \<Rightarrow> 'n \<Rightarrow> bool"
    and enq :: "'n \<Rightarrow> 's \<Rightarrow> 's option" and deq :: "'s \<Rightarrow> ('n option \<times> 's) option" +
  fixes push :: "'n \<Rightarrow> 's \<Rightarrow> 's option"
  assumes push_law: "ok s \<Longrightarrow> usable s n \<Longrightarrow>
      \<exists>s'. push n s = Some s' \<and> ok s' \<and> contents s' = n # contents s \<and>
           (\<forall>m. usable s m \<and> m \<noteq> n \<longrightarrow> usable s' m)"
begin

lemma push_deq:
  assumes "ok s" and "usable s n"
  shows "\<exists>s' s''. push n s = Some s' \<and> deq s' = Some (Some n, s'') \<and> ok s'' \<and> contents s'' = contents s"
proof -
  obtain s' where s': "push n s = Some s'" "ok s'" "contents s' = n # contents s"
    using push_law [OF assms] by blast
  then show ?thesis using deq_law [OF s'(2,3)] by auto
qed

end

end
