(* ===== verification/Ready_Queue.thy ===== *)
theory Ready_Queue
  imports Fifo
begin

text \<open>
  The ready queue of assignment 2 (\<open>a2/ready_queue.c\<close>, \<open>a2/pcb.c\<close>): singly linked nodes on the heap,
  each pointing to a process control block. A node pointer is an index of \<open>qnodes\<close>, a freed node is
  \<open>None\<close> there; \<open>qhead\<close> is the static \<open>head\<close>. The abstract queue is the list of the nodes on the
  path from \<open>head\<close>.
\<close>

section \<open>State\<close>

definition PAGE_TABLE_SIZE :: nat where "PAGE_TABLE_SIZE = 20"

definition FRAME_SIZE :: nat where "FRAME_SIZE = 3"

definition MAX_INT :: nat where "MAX_INT = 2147483646"

record pcb =
  priority :: bool
  pid :: int
  PC :: int
  job_length_score :: int
  page_table :: "int list"
  fp :: nat                      \<comment> \<open>an index of the open streams\<close>
  filename :: string

record qnode =
  node_pcb :: nat
  node_next :: "nat option"

record queued = world +
  qnodes :: "qnode option list"
  qhead :: "nat option"
  pcbs :: "pcb list"
  pid_counter :: int

section \<open>Process control blocks (a2/pcb.c)\<close>

definition generatePID :: "'a queued_scheme \<Rightarrow> int \<times> 'a queued_scheme" where
  "generatePID s = (pid_counter s, s\<lparr>pid_counter := pid_counter s + 1\<rparr>)"

definition makePCB_withPageTable ::
  "int list \<Rightarrow> nat \<Rightarrow> string \<Rightarrow> 'a queued_scheme \<Rightarrow> (nat \<times> 'a queued_scheme) option" where
  "makePCB_withPageTable table f name s =
     (case generatePID s of (p, s) \<Rightarrow> do {
        first \<leftarrow> rd table 0;
        if length name < 100 \<and> PAGE_TABLE_SIZE \<le> length table then
          Some (length (pcbs s),
                s\<lparr>pcbs := pcbs s @ [\<lparr>priority = False, pid = p, PC = first * int FRAME_SIZE,
                     job_length_score = 0, page_table = take PAGE_TABLE_SIZE table, fp = f, filename = name\<rparr>]\<rparr>)
        else None
      })"

section \<open>The queue (a2/ready_queue.c)\<close>

definition node_at :: "qnode option list \<Rightarrow> nat \<Rightarrow> qnode option" where
  \<comment> \<open>\<open>*node\<close>: defined for allocated nodes\<close>
  "node_at h a = do { nd \<leftarrow> rd h a; nd }"

definition set_next :: "nat \<Rightarrow> nat option \<Rightarrow> 'a queued_scheme \<Rightarrow> 'a queued_scheme option" where
  \<comment> \<open>\<open>node->next = p\<close>\<close>
  "set_next a p s = do {
     nd \<leftarrow> node_at (qnodes s) a;
     Some (s\<lparr>qnodes := (qnodes s)[a := Some (nd\<lparr>node_next := p\<rparr>)]\<rparr>)
   }"

definition free_node :: "nat \<Rightarrow> 'a queued_scheme \<Rightarrow> 'a queued_scheme option" where
  "free_node a s = do { _ \<leftarrow> node_at (qnodes s) a; Some (s\<lparr>qnodes := (qnodes s)[a := None]\<rparr>) }"

partial_function (option) last_node :: "qnode option list \<Rightarrow> nat \<Rightarrow> nat option" where
  \<comment> \<open>\<open>while (cur->next != NULL) cur = cur->next\<close>\<close>
  "last_node h cur = do {
     nd \<leftarrow> node_at h cur;
     (case node_next nd of None \<Rightarrow> Some cur | Some n \<Rightarrow> last_node h n)
   }"

partial_function (option) destroy_from :: "nat \<Rightarrow> 'a queued_scheme \<Rightarrow> 'a queued_scheme option" where
  "destroy_from cur s = do {
     nd \<leftarrow> node_at (qnodes s) cur;
     (case node_next nd of
        None \<Rightarrow> free_node cur s
      | Some tmp \<Rightarrow> do { s \<leftarrow> free_node cur s; destroy_from tmp s })
   }"

definition ready_queue_destory :: "'a queued_scheme \<Rightarrow> 'a queued_scheme option" where
  \<comment> \<open>\<open>head\<close> keeps pointing to the freed first node\<close>
  "ready_queue_destory s = (case qhead s of None \<Rightarrow> Some s | Some h \<Rightarrow> destroy_from h s)"

definition ready_queue_add_to_tail :: "nat \<Rightarrow> 'a queued_scheme \<Rightarrow> 'a queued_scheme option" where
  "ready_queue_add_to_tail node s =
     (case qhead s of
        None \<Rightarrow> set_next node None (s\<lparr>qhead := Some node\<rparr>)
      | Some h \<Rightarrow> do {
          cur \<leftarrow> last_node (qnodes s) h;
          s \<leftarrow> set_next cur (Some node) s;
          set_next node None s
        })"

definition ready_queue_add_to_head :: "nat \<Rightarrow> 'a queued_scheme \<Rightarrow> 'a queued_scheme option" where
  "ready_queue_add_to_head node s =
     (case qhead s of
        None \<Rightarrow> set_next node None (s\<lparr>qhead := Some node\<rparr>)
      | Some h \<Rightarrow> do { s \<leftarrow> set_next node (Some h) s; Some (s\<lparr>qhead := Some node\<rparr>) })"

partial_function (option) print_nodes :: "nat option \<Rightarrow> 'a queued_scheme \<Rightarrow> 'a queued_scheme option" where
  "print_nodes cur s =
     (case cur of
        None \<Rightarrow> Some s
      | Some a \<Rightarrow> do {
          nd \<leftarrow> node_at (qnodes s) a;
          p \<leftarrow> rd (pcbs s) (node_pcb nd);
          print_nodes (node_next nd)
            (printf ([CHR 0x09] @ ''PID: '' @ idec (pid p) @ '', length: '' @ idec (job_length_score p) @
                     '', priority: '' @ (if priority p then ''1'' else ''0'') @ nl) s)
        })"

definition print_ready_queue :: "'a queued_scheme \<Rightarrow> 'a queued_scheme option" where
  "print_ready_queue s =
     (if qhead s = None then Some (printf (''ready queue is empty'' @ nl) s)
      else print_nodes (qhead s) (printf (''Ready queue: '' @ nl) s))"

definition terminate_process :: "nat \<Rightarrow> 'a queued_scheme \<Rightarrow> 'a queued_scheme option" where
  "terminate_process node s = free_node node s"

definition is_ready_empty :: "'a queued_scheme \<Rightarrow> bool" where
  "is_ready_empty s \<longleftrightarrow> qhead s = None"

definition ready_queue_pop_head :: "'a queued_scheme \<Rightarrow> (nat option \<times> 'a queued_scheme) option" where
  "ready_queue_pop_head s =
     (case qhead s of
        None \<Rightarrow> Some (None, s)
      | Some h \<Rightarrow> do { nd \<leftarrow> node_at (qnodes s) h; Some (Some h, s\<lparr>qhead := node_next nd\<rparr>) })"

definition ready_queue_peek_head :: "'a queued_scheme \<Rightarrow> nat option" where
  "ready_queue_peek_head s = qhead s"

definition ready_queue_peek_next :: "nat option \<Rightarrow> 'a queued_scheme \<Rightarrow> nat option option" where
  "ready_queue_peek_next current s =
     (case current of None \<Rightarrow> Some None
      | Some a \<Rightarrow> do { nd \<leftarrow> node_at (qnodes s) a; Some (node_next nd) })"

partial_function (option) find_before :: "nat \<Rightarrow> nat option \<Rightarrow> 'a queued_scheme \<Rightarrow> nat option option" where
  \<comment> \<open>\<open>while (cur != NULL && cur->next != toSwap) cur = cur->next\<close>\<close>
  "find_before toSwap cur s =
     (case cur of None \<Rightarrow> Some None
      | Some a \<Rightarrow> do {
          nd \<leftarrow> node_at (qnodes s) a;
          if node_next nd = Some toSwap then Some (Some a) else find_before toSwap (node_next nd) s
        })"

definition ready_queue_swap_with_next :: "nat \<Rightarrow> 'a queued_scheme \<Rightarrow> 'a queued_scheme option" where
  "ready_queue_swap_with_next toSwap s = do {
     let cur = qhead s;
     s \<leftarrow> (if qhead s = Some toSwap then do {
             nd \<leftarrow> node_at (qnodes s) toSwap;
             next \<leftarrow> node_next nd;
             nn \<leftarrow> node_at (qnodes s) next;
             s \<leftarrow> set_next toSwap (node_next nn) s;
             s \<leftarrow> set_next next (Some toSwap) s;
             Some (s\<lparr>qhead := Some next\<rparr>)
           } else Some s);
     before \<leftarrow> find_before toSwap cur s;
     (case before of
        None \<Rightarrow> Some s
      | Some c \<Rightarrow> do {
          nd \<leftarrow> node_at (qnodes s) toSwap;
          next \<leftarrow> node_next nd;
          nn \<leftarrow> node_at (qnodes s) next;
          s \<leftarrow> set_next c (Some next) s;
          s \<leftarrow> set_next next (Some toSwap) s;
          set_next toSwap (node_next nn) s
        })
   }"

section \<open>The abstract queue\<close>

fun linked :: "qnode option list \<Rightarrow> nat option \<Rightarrow> nat list \<Rightarrow> bool" where
  "linked h p [] \<longleftrightarrow> p = None"
| "linked h p (a # as) \<longleftrightarrow> p = Some a \<and>
     (case node_at h a of None \<Rightarrow> False | Some nd \<Rightarrow> linked h (node_next nd) as)"

fun follow :: "qnode option list \<Rightarrow> nat \<Rightarrow> nat option \<Rightarrow> nat list" where
  "follow h 0 p = []"
| "follow h (Suc k) p =
     (case p of None \<Rightarrow> [] | Some a \<Rightarrow>
        (case node_at h a of None \<Rightarrow> [] | Some nd \<Rightarrow> a # follow h k (node_next nd)))"

definition ready_list :: "'a queued_scheme \<Rightarrow> nat list" where
  "ready_list s = follow (qnodes s) (length (qnodes s)) (qhead s)"

definition ready_ok :: "'a queued_scheme \<Rightarrow> bool" where
  "ready_ok s \<longleftrightarrow> linked (qnodes s) (qhead s) (ready_list s) \<and> distinct (ready_list s)"

definition loose_node :: "'a queued_scheme \<Rightarrow> nat \<Rightarrow> bool" where
  \<comment> \<open>allocated and not in the queue\<close>
  "loose_node s a \<longleftrightarrow> node_at (qnodes s) a \<noteq> None \<and> a \<notin> set (ready_list s)"

lemma linked_nodes: "linked h p as \<Longrightarrow> a \<in> set as \<Longrightarrow> node_at h a \<noteq> None"
  by (induction as arbitrary: p) (auto split: option.splits)

lemma node_at_bound: "node_at h a \<noteq> None \<Longrightarrow> a < length h"
  by (auto simp: node_at_def rd_def split: if_splits)

lemma linked_distinct_length: "linked h p as \<Longrightarrow> distinct as \<Longrightarrow> length as \<le> length h"
proof -
  assume l: "linked h p as" and d: "distinct as"
  have "set as \<subseteq> {..<length h}" using linked_nodes [OF l] node_at_bound by auto
  then have "card (set as) \<le> card {..<length h}" by (intro card_mono) auto
  then show ?thesis using d by (simp add: distinct_card)
qed

lemma follow_linked: "linked h p as \<Longrightarrow> length as \<le> k \<Longrightarrow> follow h k p = as"
proof (induction as arbitrary: p k)
  case Nil
  then show ?case by (cases k) auto
next
  case (Cons a as)
  then show ?case by (cases k) (auto split: option.splits)
qed

lemma ready_okI:
  assumes "linked (qnodes s) (qhead s) as" and "distinct as"
  shows "ready_ok s \<and> ready_list s = as"
  using follow_linked [OF assms(1) linked_distinct_length [OF assms]] assms
  by (simp add: ready_ok_def ready_list_def)

lemma node_at_update:
  "a < length h \<Longrightarrow> node_at (h[a := v]) b = (if b = a then v else node_at h b)"
  by (auto simp: node_at_def rd_def)

lemma linked_frame:
  "a \<notin> set as \<Longrightarrow> linked (h[a := v]) p as = linked h p as"
proof (induction as arbitrary: p)
  case (Cons b as)
  have "node_at (h[a := v]) b = node_at h b" using Cons.prems by (simp add: node_at_def rd_def)
  then show ?case using Cons.IH Cons.prems by (cases "node_at h b") auto
qed simp

lemma linked_append_last:
  assumes "linked h p (as @ [b])" and "distinct (as @ [b])" and "node_at h b = Some nd"
    and "n \<notin> set (as @ [b])" and "node_at h n = Some nn"
  shows "linked (h[b := Some (nd\<lparr>node_next := Some n\<rparr>), n := Some (nn\<lparr>node_next := None\<rparr>)]) p (as @ [b, n])"
  using assms
proof (induction as arbitrary: p)
  case Nil
  then have "b < length h" "n < length h" "b \<noteq> n" using node_at_bound by fastforce+
  then show ?case using Nil by (simp add: node_at_update)
next
  case (Cons a as)
  have ne: "b < length h" "n < length h" "a \<noteq> b" "a \<noteq> n"
    using Cons.prems node_at_bound by fastforce+
  obtain na where na: "p = Some a" "node_at h a = Some na" "linked h (node_next na) (as @ [b])"
    using Cons.prems(1) by (cases "node_at h a") auto
  have "linked (h[b := Some (nd\<lparr>node_next := Some n\<rparr>), n := Some (nn\<lparr>node_next := None\<rparr>)])
      (node_next na) (as @ [b, n])"
    using Cons.IH [OF na(3)] Cons.prems by simp
  then show ?case using ne na(1,2) by (simp add: node_at_update)
qed

lemma last_node_linked:
  "linked h (Some a) as \<Longrightarrow> last_node h a = Some (last as)"
proof (induction as arbitrary: a)
  case (Cons b as)
  from Cons.prems obtain nd where nd: "node_at h a = Some nd" "b = a" "linked h (node_next nd) as"
    by (cases "node_at h a") auto
  show ?case
  proof (cases as)
    case Nil
    then show ?thesis using nd by (subst last_node.simps) simp
  next
    case (Cons c cs)
    then have "node_next nd = Some c" using nd(3) by simp
    then show ?thesis using nd Cons Cons.IH [of c] by (subst last_node.simps) simp
  qed
qed simp

section \<open>The queue implements the interface\<close>

lemma qnodes_simps [simp]:
  "qhead (s\<lparr>qnodes := h\<rparr>) = qhead s" "qnodes (s\<lparr>qhead := p\<rparr>) = qnodes s"
  by simp_all

lemma ready_ok_empty: "ready_ok s \<Longrightarrow> ready_list s = [] \<longleftrightarrow> qhead s = None"
  by (cases "ready_list s") (auto simp: ready_ok_def)

lemma add_to_tail_spec:
  assumes "ready_ok s" and "loose_node s n"
  shows "\<exists>s'. ready_queue_add_to_tail n s = Some s' \<and> ready_ok s' \<and> ready_list s' = ready_list s @ [n] \<and>
    (\<forall>m. loose_node s' m \<longleftrightarrow> loose_node s m \<and> m \<noteq> n) \<and>
    s' = s\<lparr>qnodes := qnodes s', qhead := qhead s'\<rparr> \<and>
    (\<forall>a. map_option node_pcb (node_at (qnodes s') a) = map_option node_pcb (node_at (qnodes s) a))"
proof -
  obtain nn where nn: "node_at (qnodes s) n = Some nn" and out: "n \<notin> set (ready_list s)"
    using assms(2) by (auto simp: loose_node_def)
  have len: "n < length (qnodes s)" using nn node_at_bound by fastforce
  have l: "linked (qnodes s) (qhead s) (ready_list s)" and d: "distinct (ready_list s)"
    using assms(1) by (simp_all add: ready_ok_def)
  show ?thesis
  proof (cases "qhead s")
    case None
    then have e: "ready_list s = []" using ready_ok_empty [OF assms(1)] by simp
    let ?s = "s\<lparr>qhead := Some n, qnodes := (qnodes s)[n := Some (nn\<lparr>node_next := None\<rparr>)]\<rparr>"
    have "ready_queue_add_to_tail n s = Some ?s"
      using None nn by (simp add: ready_queue_add_to_tail_def set_next_def)
    moreover have "ready_ok ?s \<and> ready_list ?s = [n]"
      using len by (intro ready_okI) (simp_all add: node_at_update)
    ultimately show ?thesis
      using e nn len by (auto simp: loose_node_def node_at_update)
  next
    case (Some h)
    then have ne: "ready_list s \<noteq> []" using ready_ok_empty [OF assms(1)] by simp
    let ?b = "last (ready_list s)"
    have bl: "butlast (ready_list s) @ [?b] = ready_list s" using ne by simp
    obtain nd where nd: "node_at (qnodes s) ?b = Some nd" using linked_nodes [OF l] ne by fastforce
    have b: "?b < length (qnodes s)" "?b \<noteq> n"
      using nd node_at_bound ne out by fastforce+
    have lst: "last_node (qnodes s) h = Some ?b" using last_node_linked l Some by metis
    let ?h = "(qnodes s)[?b := Some (nd\<lparr>node_next := Some n\<rparr>), n := Some (nn\<lparr>node_next := None\<rparr>)]"
    have "ready_queue_add_to_tail n s = Some (s\<lparr>qnodes := ?h\<rparr>)"
      using Some lst nd nn b by (simp add: ready_queue_add_to_tail_def set_next_def node_at_update)
    moreover have "linked ?h (qhead s) (butlast (ready_list s) @ [?b, n])"
      by (rule linked_append_last) (simp_all only: bl l d nd out nn not_False_eq_True)
    then have "linked ?h (qhead s) (ready_list s @ [n])"
      using bl by (metis append.assoc append_Cons append_Nil)
    then have "ready_ok (s\<lparr>qnodes := ?h\<rparr>) \<and> ready_list (s\<lparr>qnodes := ?h\<rparr>) = ready_list s @ [n]"
      using d out by (intro ready_okI) simp_all
    moreover have "node_at ?h m = None \<longleftrightarrow> node_at (qnodes s) m = None" for m
      using b len nd nn by (simp add: node_at_update)
    ultimately show ?thesis
      using b len nd nn by (auto simp: loose_node_def node_at_update)
  qed
qed

lemma pop_head_spec:
  assumes "ready_ok s" and "ready_list s = n # ns"
  shows "\<exists>s'. ready_queue_pop_head s = Some (Some n, s') \<and> ready_ok s' \<and> ready_list s' = ns \<and>
    (\<forall>m. loose_node s' m \<longleftrightarrow> loose_node s m \<or> m = n) \<and> s' = s\<lparr>qhead := qhead s'\<rparr>"
proof -
  have l: "linked (qnodes s) (qhead s) (n # ns)" and d: "distinct (n # ns)"
    using assms by (simp_all add: ready_ok_def)
  then obtain nd where nd: "qhead s = Some n" "node_at (qnodes s) n = Some nd" "linked (qnodes s) (node_next nd) ns"
    by (cases "node_at (qnodes s) n") auto
  have "ready_queue_pop_head s = Some (Some n, s\<lparr>qhead := node_next nd\<rparr>)"
    using nd by (simp add: ready_queue_pop_head_def)
  moreover have "ready_ok (s\<lparr>qhead := node_next nd\<rparr>) \<and> ready_list (s\<lparr>qhead := node_next nd\<rparr>) = ns"
    using nd d by (intro ready_okI) simp_all
  ultimately show ?thesis using nd d assms(2) by (auto simp: loose_node_def)
qed

lemma pop_head_empty: "ready_list s = [] \<Longrightarrow> ready_ok s \<Longrightarrow> ready_queue_pop_head s = Some (None, s)"
  using ready_ok_empty by (fastforce simp: ready_queue_pop_head_def)

lemma add_to_head_spec:
  assumes "ready_ok s" and "loose_node s n"
  shows "\<exists>s'. ready_queue_add_to_head n s = Some s' \<and> ready_ok s' \<and> ready_list s' = n # ready_list s \<and>
    (\<forall>m. loose_node s' m \<longleftrightarrow> loose_node s m \<and> m \<noteq> n)"
proof -
  obtain nn where nn: "node_at (qnodes s) n = Some nn" and out: "n \<notin> set (ready_list s)"
    using assms(2) by (auto simp: loose_node_def)
  have len: "n < length (qnodes s)" using nn node_at_bound by fastforce
  have l: "linked (qnodes s) (qhead s) (ready_list s)" and d: "distinct (ready_list s)"
    using assms(1) by (simp_all add: ready_ok_def)
  let ?s = "s\<lparr>qhead := Some n, qnodes := (qnodes s)[n := Some (nn\<lparr>node_next := qhead s\<rparr>)]\<rparr>"
  have "ready_queue_add_to_head n s = Some ?s"
    using nn by (cases "qhead s") (simp_all add: ready_queue_add_to_head_def set_next_def)
  moreover have "ready_ok ?s \<and> ready_list ?s = n # ready_list s"
    using len d out l by (intro ready_okI) (simp_all add: node_at_update linked_frame)
  ultimately show ?thesis
    using nn len by (auto simp: loose_node_def node_at_update)
qed

interpretation rq: polled_fifo ready_ok ready_list loose_node ready_queue_add_to_tail ready_queue_pop_head
proof (unfold_locales, goal_cases)
  case (1 s n)
  then show ?case using add_to_tail_spec [of s n] by auto
next
  case (2 s n ns)
  then show ?case using pop_head_spec [of s n ns] by auto
next
  case (3 s)
  then show ?case by (simp add: pop_head_empty)
qed

interpretation rqd: deque ready_ok ready_list loose_node ready_queue_add_to_tail ready_queue_pop_head
  ready_queue_add_to_head
proof (unfold_locales, goal_cases)
  case (1 s n)
  then show ?case using add_to_head_spec [of s n] by auto
qed

end
