(* ===== verification/A2_Memory.thy ===== *)
theory A2_Memory
  imports Var_Memory Streams Ready_Queue
begin

text \<open>
  The shell memory of assignment 2 (\<open>a2/shellmemory.c\<close>): the first \<open>THRESHOLD\<close> lines are the frame
  store, which holds pages of three script lines, the rest are the variables. Pages are loaded
  from the open copy of a script; when no line is free, the frame whose first line was used longest ago is evicted.
  A page table is passed as a reference: the local array of \<open>process_initialize\<close> or the table of a
  process control block, so that the two updates of \<open>pick_victim_frame\<close> see each other.
\<close>

section \<open>State\<close>

record a2slot = slot +
  last_used :: int

record a2_config =
  THRESHOLD :: nat
  VARMEMSIZE :: nat

record 'os a2 = queued +
  shellmem :: "a2slot list"
  timer :: int
  streams :: "stream list"
  local_table :: "int list"
  active :: bool
  in_background :: bool
  a2_host :: 'os
  a2_input :: string
  a2_terminals :: "string list"
  a2_interactive :: bool

datatype table_ref = Local | Of_pcb nat

definition SHELL_MEM_LENGTH :: "a2_config \<Rightarrow> nat" where
  "SHELL_MEM_LENGTH cfg = VARMEMSIZE cfg + THRESHOLD cfg"

definition FRAME_STORE_SIZE :: "a2_config \<Rightarrow> nat" where
  "FRAME_STORE_SIZE cfg = THRESHOLD cfg div FRAME_SIZE"

section \<open>Streams\<close>

definition stream_back :: "nat \<Rightarrow> stream \<Rightarrow> stream" where
  \<comment> \<open>\<open>fseek(fp, -n, SEEK_CUR)\<close>, which fails before the start\<close>
  "stream_back n st =
     (if n \<le> st_pos st then st\<lparr>st_pos := st_pos st - n, st_eof := False\<rparr> else st)"

section \<open>Initialisation and variables\<close>

definition a2_mem_init :: "a2_config \<Rightarrow> 'os a2 \<Rightarrow> 'os a2" where
  "a2_mem_init cfg s =
     s\<lparr>shellmem := replicate (SHELL_MEM_LENGTH cfg) \<lparr>var = NONE, val = NONE, last_used = timer s\<rparr>\<rparr>"

definition variable_store_mem_init :: "a2_config \<Rightarrow> 'os a2 \<Rightarrow> 'os a2" where
  "variable_store_mem_init cfg s =
     s\<lparr>shellmem := take (THRESHOLD cfg) (shellmem s) @
        map (\<lambda>e. e\<lparr>var := NONE, val := NONE\<rparr>) (drop (THRESHOLD cfg) (shellmem s))\<rparr>"

definition a2_mem_set_value :: "a2_config \<Rightarrow> string \<Rightarrow> string \<Rightarrow> 'os a2 \<Rightarrow> 'os a2" where
  "a2_mem_set_value cfg var_in value_in s =
     s\<lparr>shellmem := set_in_range (THRESHOLD cfg) (VARMEMSIZE cfg) var_in value_in (shellmem s)\<rparr>"

definition a2_mem_get_value :: "a2_config \<Rightarrow> string \<Rightarrow> 'os a2 \<Rightarrow> string option" where
  "a2_mem_get_value cfg var_in s = get_in_range (THRESHOLD cfg) (VARMEMSIZE cfg) var_in (shellmem s)"

section \<open>Printing\<close>

fun print_used :: "nat \<Rightarrow> a2slot list \<Rightarrow> 'os a2 \<Rightarrow> 'os a2" where
  "print_used i [] s = s"
| "print_used i (e # es) s = print_used (Suc i) es
     (if var e = NONE then s
      else printf (nl @ ''line '' @ dec i @ '': key: '' @ var e @ [CHR 0x09, CHR 0x09] @ ''value: '' @ val e @ nl) s)"

definition printShellMemory :: "a2_config \<Rightarrow> 'os a2 \<Rightarrow> 'os a2" where
  "printShellMemory cfg s =
     (let n = SHELL_MEM_LENGTH cfg;
          count_empty = length (filter (\<lambda>e. var e = NONE) (shellmem s));
          s = print_used 0 (shellmem s) s
      in printf (nl @ [CHR 0x09] @ dec n @ '' lines in total, '' @ dec (n - count_empty) @
                 '' lines in use, '' @ dec count_empty @ '' lines free'' @ nl @ nl) s)"

fun print_frames :: "nat \<Rightarrow> a2slot list \<Rightarrow> 'os a2 \<Rightarrow> 'os a2" where
  "print_frames i [] s = s"
| "print_frames i (e # es) s = print_frames (Suc i) es
     (printf (nl @ ''line '' @ dec i @ '': key: '' @ var e @ [CHR 0x09, CHR 0x09] @ ''value: '' @ val e @
              [CHR 0x09, CHR 0x09] @ ''last used: '' @ idec (last_used e) @ nl) s)"

definition printFrameStore :: "a2_config \<Rightarrow> 'os a2 \<Rightarrow> 'os a2" where
  "printFrameStore cfg s = printf (nl @ nl) (print_frames 0 (take (THRESHOLD cfg) (shellmem s)) s)"

section \<open>Page tables and lines\<close>

definition table_get :: "table_ref \<Rightarrow> 'os a2 \<Rightarrow> int list option" where
  "table_get r s = (case r of Local \<Rightarrow> Some (local_table s)
     | Of_pcb p \<Rightarrow> map_option page_table (rd (pcbs s) p))"

definition table_put :: "table_ref \<Rightarrow> int list \<Rightarrow> 'os a2 \<Rightarrow> 'os a2 option" where
  "table_put r t s = (case r of Local \<Rightarrow> Some (s\<lparr>local_table := t\<rparr>)
     | Of_pcb p \<Rightarrow> do { q \<leftarrow> rd (pcbs s) p; ps \<leftarrow> wr (pcbs s) p (q\<lparr>page_table := t\<rparr>); Some (s\<lparr>pcbs := ps\<rparr>) })"

definition write_line :: "nat \<Rightarrow> string \<Rightarrow> string \<Rightarrow> int \<Rightarrow> 'os a2 \<Rightarrow> 'os a2 option" where
  \<comment> \<open>the three fields of \<open>shellmemory[j]\<close>\<close>
  "write_line j name line used s = do {
     m \<leftarrow> wr (shellmem s) j \<lparr>var = name, val = line, last_used = used\<rparr>;
     Some (s\<lparr>shellmem := m\<rparr>)
   }"

definition mem_get_value_at_line :: "a2_config \<Rightarrow> int \<Rightarrow> 'os a2 \<Rightarrow> string option option" where
  \<comment> \<open>the outer option is an access outside the array: the bound lets one index past it through\<close>
  "mem_get_value_at_line cfg index s =
     (if index < 0 \<or> int (SHELL_MEM_LENGTH cfg) < index then Some None
      else do { e \<leftarrow> rd (shellmem s) (nat index); Some (Some (val e)) })"

fun free_lines :: "(nat \<Rightarrow> bool) \<Rightarrow> int list \<Rightarrow> 'os a2 \<Rightarrow> 'os a2 option" where
  "free_lines literal [] s = Some s"
| "free_lines literal (i # is) s =
     (if i < 0 \<or> literal (nat i) then None
      else do { s \<leftarrow> write_line (nat i) NONE NONE 0 s; free_lines literal is s })"

definition mem_free_lines_between :: "a2_config \<Rightarrow> (nat \<Rightarrow> bool) \<Rightarrow> int \<Rightarrow> int \<Rightarrow> 'os a2 \<Rightarrow> 'os a2 option" where
  \<comment> \<open>\<open>literal i\<close>: a string of line \<open>i\<close> is a literal, as the \<open>"none"\<close> of an empty line is, which \<open>free\<close> must not get\<close>
  "mem_free_lines_between cfg literal start end s = free_lines literal [start..min end (int (SHELL_MEM_LENGTH cfg) - 1)] s"

definition increment_lastused :: "a2_config \<Rightarrow> int \<Rightarrow> 'os a2 \<Rightarrow> 'os a2 option" where
  "increment_lastused cfg line_num s =
     (let s = s\<lparr>timer := timer s + 1\<rparr> in
      if 0 \<le> line_num \<and> line_num < int (THRESHOLD cfg) then do {
        e \<leftarrow> rd (shellmem s) (nat line_num);
        m \<leftarrow> wr (shellmem s) (nat line_num) (e\<lparr>last_used := timer s\<rparr>);
        Some (s\<lparr>shellmem := m\<rparr>)
      } else Some s)"

section \<open>Eviction\<close>

fun lru_scan :: "a2slot list \<Rightarrow> nat list \<Rightarrow> nat \<Rightarrow> nat option" where
  "lru_scan m [] victim = Some victim"
| "lru_scan m (f # fs) victim = do {
     e \<leftarrow> rd m (f * FRAME_SIZE);
     v \<leftarrow> rd m (victim * FRAME_SIZE);
     lru_scan m fs (if last_used e < last_used v then f else victim)
   }"

definition forget_frame :: "int \<Rightarrow> int list \<Rightarrow> int list" where
  "forget_frame victim t = map (\<lambda>x. if x = victim then -1 else x) t"

fun index_of :: "int \<Rightarrow> int list \<Rightarrow> nat option" where
  "index_of x [] = None"
| "index_of x (y # ys) = (if y = x then Some 0 else map_option Suc (index_of x ys))"

partial_function (option) forget_in_queue :: "int \<Rightarrow> nat option \<Rightarrow> 'os a2 \<Rightarrow> 'os a2 option" where
  "forget_in_queue victim current s =
     (case current of
        None \<Rightarrow> Some s
      | Some a \<Rightarrow> do {
          nd \<leftarrow> node_at (qnodes s) a;
          p \<leftarrow> rd (pcbs s) (node_pcb nd);
          (case index_of victim (page_table p) of
             Some i \<Rightarrow> table_put (Of_pcb (node_pcb nd)) ((page_table p)[i := -1]) s
           | None \<Rightarrow> do { next \<leftarrow> ready_queue_peek_next current s; forget_in_queue victim next s })
        })"

fun print_victim :: "nat \<Rightarrow> nat \<Rightarrow> 'os a2 \<Rightarrow> 'os a2 option" where
  "print_victim 0 j s = Some s"
| "print_victim (Suc n) j s = do {
     e \<leftarrow> rd (shellmem s) j;
     if val e = NONE then Some (printf nl s) else print_victim n (Suc j) (printf (val e) s)
   }"

fun clear_lines :: "nat \<Rightarrow> nat \<Rightarrow> 'os a2 \<Rightarrow> 'os a2 option" where
  "clear_lines 0 i s = Some s"
| "clear_lines (Suc n) i s = do { s \<leftarrow> write_line i NONE NONE 0 s; clear_lines n (Suc i) s }"

definition pick_victim_frame :: "a2_config \<Rightarrow> table_ref \<Rightarrow> 'os a2 \<Rightarrow> (nat \<times> 'os a2) option" where
  "pick_victim_frame cfg r s = do {
     victim \<leftarrow> lru_scan (shellmem s) [0..<FRAME_STORE_SIZE cfg] 0;
     t \<leftarrow> table_get r s;
     s \<leftarrow> table_put r (forget_frame (int victim) t) s;
     s \<leftarrow> forget_in_queue (int victim) (ready_queue_peek_head s) s;
     let s = printf (''Page fault! Victim page contents:'' @ nl) s;
     s \<leftarrow> print_victim FRAME_SIZE (victim * FRAME_SIZE) s;
     let s = printf (''End of victim page contents.'' @ nl) s;
     s \<leftarrow> clear_lines FRAME_SIZE (victim * FRAME_SIZE) s;
     Some (victim, s)
   }"

section \<open>Loading a page\<close>

function pad_page :: "string \<Rightarrow> nat \<Rightarrow> nat \<Rightarrow> 'os a2 \<Rightarrow> 'os a2 option" where
  "pad_page name i j s =
     (if (j - i) mod FRAME_SIZE \<noteq> 0
      then do { s \<leftarrow> write_line j name NONE 0 s; pad_page name i (Suc j) s }
      else Some s)"
  by pat_completeness auto
termination
proof (relation "measure (\<lambda>(name, i, j, s). (FRAME_SIZE - (j - i) mod FRAME_SIZE) mod FRAME_SIZE)", goal_cases)
  case (2 name i j s t)
  then have "i < j" by (cases "i < j") auto
  then have "Suc j - i = Suc (j - i)" by simp
  moreover have "(j - i) mod 3 = 1 \<or> (j - i) mod 3 = 2" using 2 by (simp add: FRAME_SIZE_def) linarith
  ultimately show ?case by (auto simp: FRAME_SIZE_def mod_Suc)
qed simp

declare pad_page.simps [simp del]

definition store_page_number :: "table_ref \<Rightarrow> int \<Rightarrow> nat \<Rightarrow> 'os a2 \<Rightarrow> 'os a2 option" where
  "store_page_number r page_num frame s =
     (if page_num < int PAGE_TABLE_SIZE then do {
        t \<leftarrow> table_get r s;
        if 0 \<le> page_num then do { t \<leftarrow> wr t (nat page_num) (int frame); table_put r t s } else None
      } else Some (printf (''Page table not large enough to record frame# '' @ dec frame @ nl) s))"

function load_lines ::
  "a2_config \<Rightarrow> nat \<Rightarrow> string \<Rightarrow> table_ref \<Rightarrow> int \<Rightarrow> nat \<Rightarrow> nat \<Rightarrow> int \<Rightarrow> 'os a2 \<Rightarrow> (int \<times> 'os a2) option" where
  "load_lines cfg f name r page_num i j error_code s =
     (if THRESHOLD cfg < j then Some (error_code, s)
      else do {
        st \<leftarrow> rd (streams s) f;
        if st_eof st then do { s \<leftarrow> pad_page name i j s; Some (error_code, s) }
        else if j = THRESHOLD cfg then Some (error_code, s)
        else if (j - i) mod FRAME_SIZE = 0 \<and> j \<noteq> i then Some (error_code, s)
        else
          (case stream_gets (SHELL_MEM_LENGTH cfg) st of (got, st) \<Rightarrow> do {
             let s = s\<lparr>streams := (streams s)[f := st]\<rparr>;
             (case got of
                None \<Rightarrow> load_lines cfg f name r page_num i (Suc j) error_code s
              | Some line \<Rightarrow> do {
                  s \<leftarrow> write_line j name line (timer s) s;
                  s \<leftarrow> (if (j - i) mod FRAME_SIZE = 0
                        then store_page_number r page_num (j div FRAME_SIZE) s else Some s);
                  load_lines cfg f name r page_num i (Suc j) 0 s
                })
           })
      })"
  by pat_completeness auto
termination
  by (relation "measure (\<lambda>(cfg, f, name, r, page_num, i, j, e, s). Suc (THRESHOLD cfg) - j)") auto

declare load_lines.simps [simp del]

definition load_page_into_frame_store ::
  "a2_config \<Rightarrow> nat \<Rightarrow> string \<Rightarrow> table_ref \<Rightarrow> int \<Rightarrow> 'os a2 \<Rightarrow> (int \<times> 'os a2) option" where
  "load_page_into_frame_store cfg f name r page_num s = do {
     let hole = scan_var NONE (shellmem s) 0 (THRESHOLD cfg);
     st \<leftarrow> rd (streams s) f;
     (i, s) \<leftarrow> (case hole of
        Some i \<Rightarrow> Some (i, s)
      | None \<Rightarrow> if \<not> st_eof st then do {
                   (victim, s) \<leftarrow> pick_victim_frame cfg r s;
                   Some (victim * FRAME_SIZE, s)
                 } else Some (THRESHOLD cfg, s));
     load_lines cfg f name r page_num i i 21 s
   }"

end
