(* ===== verification/A2_Kernel.thy ===== *)
theory A2_Kernel
  imports A2_Memory
begin

text \<open>
  The kernel of assignment 2 (\<open>a2/kernel.c\<close>): a process is created from a copy of its script in the
  backing store, its lines are executed page by page with page faults handled on the way, and the
  schedulers run the ready queue first-come-first-served or round robin. Executing a line calls
  \<open>parseInput\<close>, which is the argument \<open>parse\<close>; \<open>fuel\<close> bounds the rounds of the two loops that need
  not end (the search for the page of the program counter and the scheduler).
\<close>

type_synonym 'os a2_parser = "string \<Rightarrow> 'os a2 \<Rightarrow> (int, 'os a2) outcome"

definition FILE_DOES_NOT_EXIST :: int where "FILE_DOES_NOT_EXIST = 1"

definition SCHEDULING_ERROR :: int where "SCHEDULING_ERROR = 5"

section \<open>Creating a process\<close>

definition backing_store :: string where "backing_store = ''./backing_store/''"

partial_function (option) free_backing_name :: "(string \<Rightarrow> bool) \<Rightarrow> string \<Rightarrow> nat \<Rightarrow> string option" where
  \<comment> \<open>\<open>str_i\<close> has 5 bytes, the path 100\<close>
  "free_backing_name exists name i =
     (let i = i + 1; path = backing_store @ name @ dec i in
      if length (dec i) < 5 \<and> length path < 100
      then (if exists path then free_backing_name exists name i else Some path)
      else None)"

definition open_stream :: "string \<Rightarrow> 'os a2 \<Rightarrow> nat \<times> 'os a2" where
  "open_stream content s =
     (length (streams s), s\<lparr>streams := streams s @ [\<lparr>st_text = content, st_pos = 0, st_eof = False\<rparr>]\<rparr>)"

definition host_system :: "'os host_ops \<Rightarrow> string \<Rightarrow> 'os a2 \<Rightarrow> int \<times> 'os a2" where
  "host_system h command s =
     (case os_system h command (a2_host s) of (r, shown, os) \<Rightarrow> (r, printf shown s\<lparr>a2_host := os\<rparr>))"

definition backing_path :: "'os host_ops \<Rightarrow> string \<Rightarrow> 'os a2 \<Rightarrow> string option" where
  "backing_path h name s =
     (let path = backing_store @ name; exists = (\<lambda>p. os_open_read h p (a2_host s) \<noteq> None) in
      if length path < 100
      then (if exists path then free_backing_name exists name 0 else Some path)
      else None)"

definition new_node :: "nat \<Rightarrow> 'os a2 \<Rightarrow> nat \<times> 'os a2" where
  "new_node p s = (length (qnodes s), s\<lparr>qnodes := qnodes s @ [Some \<lparr>node_pcb = p, node_next = None\<rparr>]\<rparr>)"

definition load_process :: "a2_config \<Rightarrow> nat \<Rightarrow> string \<Rightarrow> 'os a2 \<Rightarrow> 'os a2 option" where
  \<comment> \<open>the first two pages, the control block and its node at the tail of the ready queue\<close>
  "load_process cfg f name s = do {
     let s = s\<lparr>local_table := replicate PAGE_TABLE_SIZE (-1)\<rparr>;
     (_, s) \<leftarrow> load_page_into_frame_store cfg f name Local 0 s;
     (_, s) \<leftarrow> load_page_into_frame_store cfg f name Local 1 s;
     (p, s) \<leftarrow> makePCB_withPageTable (local_table s) f name s;
     (case new_node p s of (node, s) \<Rightarrow> ready_queue_add_to_tail node s)
   }"

definition process_initialize ::
  "a2_config \<Rightarrow> 'os host_ops \<Rightarrow> string \<Rightarrow> 'os a2 \<Rightarrow> (int \<times> 'os a2) option" where
  "process_initialize cfg h name s =
     (if os_open_read h name (a2_host s) = None then Some (FILE_DOES_NOT_EXIST, s)
      else do {
        path \<leftarrow> backing_path h name s;
        let command = ''cp '' @ name @ '' '' @ path;
        if length command < 100 then
          (case host_system h command s of (_, s) \<Rightarrow>
             (case os_open_read h path (a2_host s) of
                None \<Rightarrow> Some (FILE_DOES_NOT_EXIST, s)
              | Some content \<Rightarrow>
                  (case open_stream content s of (f, s) \<Rightarrow> do {
                     s \<leftarrow> load_process cfg f name s;
                     Some (0, s)
                   })))
        else None
      })"

section \<open>Executing a process\<close>

definition handle_page_fault ::
  "a2_config \<Rightarrow> nat \<Rightarrow> string \<Rightarrow> table_ref \<Rightarrow> int \<Rightarrow> 'os a2 \<Rightarrow> (bool \<times> 'os a2) option" where
  "handle_page_fault cfg f name r page_num s = do {
     (error_code, s) \<leftarrow> load_page_into_frame_store cfg f name r page_num s;
     Some (error_code = 0, s)
   }"

definition page_hit :: "int \<Rightarrow> int \<Rightarrow> bool" where
  \<comment> \<open>the tests of the search loop on one entry: \<open>line_num\<close> is 3 when no line of the frame is \<open>PC\<close>\<close>
  "page_hit pc v \<longleftrightarrow> pc = v * int FRAME_SIZE \<or>
     (let line_num = (case List.find (\<lambda>l. pc = v * int FRAME_SIZE + int l \<and> v \<noteq> -1) [0..<FRAME_SIZE] of
                        Some l \<Rightarrow> l | None \<Rightarrow> FRAME_SIZE)
      in pc = v * int FRAME_SIZE + int line_num \<and> v \<noteq> -1)"

fun first_hit :: "int \<Rightarrow> int list \<Rightarrow> nat option" where
  "first_hit pc [] = None"
| "first_hit pc (v # vs) = (if page_hit pc v then Some 0 else map_option Suc (first_hit pc vs))"

definition end_process :: "nat \<Rightarrow> 'os a2 \<Rightarrow> 'os a2 option" where
  "end_process node s = do { s \<leftarrow> terminate_process node s; Some (s\<lparr>in_background := False\<rparr>) }"

definition put_pcb :: "nat \<Rightarrow> pcb \<Rightarrow> 'os a2 \<Rightarrow> 'os a2" where
  "put_pcb p q s = s\<lparr>pcbs := (pcbs s)[p := q]\<rparr>"

definition restart_page :: "a2_config \<Rightarrow> nat \<Rightarrow> 'os a2 \<Rightarrow> (bool \<times> 'os a2) option" where
  \<comment> \<open>the program counter is in no frame: step back, forget every page, load one as page 0\<close>
  "restart_page cfg p s = do {
     q \<leftarrow> rd (pcbs s) p;
     st \<leftarrow> rd (streams s) (fp q);
     let s = s\<lparr>streams := (streams s)[fp q := stream_back FRAME_SIZE st]\<rparr>;
     let s = put_pcb p (q\<lparr>page_table := replicate PAGE_TABLE_SIZE (-1)\<rparr>) s;
     handle_page_fault cfg (fp q) (filename q) (Of_pcb p) 0 s
   }"

fun locate_page :: "a2_config \<Rightarrow> nat \<Rightarrow> nat \<Rightarrow> nat \<Rightarrow> 'os a2 \<Rightarrow> (nat option, 'os a2) outcome" where
  \<comment> \<open>\<open>None\<close>: the process was terminated\<close>
  "locate_page cfg 0 node p s = Unfinished"
| "locate_page cfg (Suc n) node p s =
     (case rd (pcbs s) p of
        None \<Rightarrow> Undefined
      | Some q \<Rightarrow>
          (case first_hit (PC q) (page_table q) of
             Some page_num \<Rightarrow> Ret (Some page_num) s
           | None \<Rightarrow>
               seq (attempt (restart_page cfg p s)) (\<lambda>loaded s.
                 if loaded then locate_page cfg n node p s
                 else seq (attempt_do (end_process node s)) (\<lambda>_ s. Ret None s))))"

definition take_line :: "a2_config \<Rightarrow> nat \<Rightarrow> 'os a2 \<Rightarrow> (string option \<times> 'os a2) option" where
  \<comment> \<open>\<open>line = mem_get_value_at_line(pcb->PC++)\<close>\<close>
  "take_line cfg p s = do {
     q \<leftarrow> rd (pcbs s) p;
     line \<leftarrow> mem_get_value_at_line cfg (PC q) s;
     Some (line, put_pcb p (q\<lparr>PC := PC q + 1\<rparr>) s)
   }"

definition enter_page :: "a2_config \<Rightarrow> nat \<Rightarrow> nat \<Rightarrow> 'os a2 \<Rightarrow> (string option \<times> 'os a2) option" where
  \<comment> \<open>\<open>PC\<close> to the first line of the page\<close>
  "enter_page cfg p page_num s = do {
     q \<leftarrow> rd (pcbs s) p;
     frame \<leftarrow> rd (page_table q) page_num;
     take_line cfg p (put_pcb p (q\<lparr>PC := frame * int FRAME_SIZE\<rparr>) s)
   }"

definition rotate_queue :: "'os a2 \<Rightarrow> 'os a2 option" where
  "rotate_queue s = do {
     (current_node, s) \<leftarrow> ready_queue_pop_head s;
     (case current_node of None \<Rightarrow> Some s | Some n \<Rightarrow> ready_queue_add_to_tail n s)
   }"

definition next_line ::
  "a2_config \<Rightarrow> nat \<Rightarrow> nat \<Rightarrow> nat \<Rightarrow> 'os a2 \<Rightarrow> ((nat \<times> string option) option \<times> 'os a2) option" where
  \<comment> \<open>page and line to execute, \<open>None\<close>: the process was terminated\<close>
  "next_line cfg node p page_num s = do {
     q \<leftarrow> rd (pcbs s) p;
     frame \<leftarrow> rd (page_table q) page_num;
     if PC q mod int FRAME_SIZE = 0 \<and> PC q \<noteq> frame * int FRAME_SIZE
     then do {
       let page_num = page_num + 1;
       if PAGE_TABLE_SIZE \<le> page_num
       then do { s \<leftarrow> end_process node s; Some (None, s) }
       else do {
         frame \<leftarrow> rd (page_table q) page_num;
         if 0 \<le> frame \<and> frame < int (FRAME_STORE_SIZE cfg)
         then do { (line, s) \<leftarrow> enter_page cfg p page_num s; Some (Some (page_num, line), s) }
         else if frame = -1
         then do {
           s \<leftarrow> rotate_queue s;
           (loaded, s) \<leftarrow> handle_page_fault cfg (fp q) (filename q) (Of_pcb p) (int page_num) s;
           if \<not> loaded then do { s \<leftarrow> end_process node s; Some (None, s) }
           else do { (line, s) \<leftarrow> enter_page cfg p page_num s; Some (Some (page_num, line), s) }
         }
         else do { s \<leftarrow> end_process node s; Some (None, s) }
       }
     }
     else do { (line, s) \<leftarrow> take_line cfg p s; Some (Some (page_num, line), s) }
   }"

definition begin_line :: "nat \<Rightarrow> 'os a2 \<Rightarrow> 'os a2 option" where
  "begin_line p s = do {
     let s = s\<lparr>in_background := True\<rparr>;
     q \<leftarrow> rd (pcbs s) p;
     Some (if priority q then put_pcb p (q\<lparr>priority := False\<rparr>) s else s)
   }"

definition finish_line :: "a2_config \<Rightarrow> nat \<Rightarrow> 'os a2 \<Rightarrow> 'os a2 option" where
  "finish_line cfg p s = do {
     q \<leftarrow> rd (pcbs s) p;
     s \<leftarrow> increment_lastused cfg (PC q - 1) s;
     Some (s\<lparr>in_background := False\<rparr>)
   }"

fun execute_lines ::
  "a2_config \<Rightarrow> 'os a2_parser \<Rightarrow> nat \<Rightarrow> nat \<Rightarrow> nat \<Rightarrow> nat \<Rightarrow> 'os a2 \<Rightarrow> (bool, 'os a2) outcome" where
  \<comment> \<open>\<open>True\<close>: the process was terminated. \<open>strcmp(line, "none")\<close> is undefined for a null line\<close>
  "execute_lines cfg parse node p 0 page_num s = Ret False s"
| "execute_lines cfg parse node p (Suc q) page_num s =
     seq (attempt (next_line cfg node p page_num s)) (\<lambda>r s.
       case r of
         None \<Rightarrow> Ret True s
       | Some (page_num, line) \<Rightarrow>
           seq (attempt_do (begin_line p s)) (\<lambda>_ s.
             case line of
               None \<Rightarrow> Undefined
             | Some line \<Rightarrow>
                 if line = NONE
                 then seq (attempt_do (end_process node s)) (\<lambda>_ s. Ret True s)
                 else seq (parse line s) (\<lambda>_ s.
                      seq (attempt_do (finish_line cfg p s)) (\<lambda>_ s.
                        execute_lines cfg parse node p q page_num s))))"

definition execute_process ::
  "a2_config \<Rightarrow> 'os a2_parser \<Rightarrow> nat \<Rightarrow> nat \<Rightarrow> nat \<Rightarrow> 'os a2 \<Rightarrow> (bool, 'os a2) outcome" where
  "execute_process cfg parse fuel node quanta s =
     (case node_at (qnodes s) node of
        None \<Rightarrow> Undefined
      | Some nd \<Rightarrow>
          seq (locate_page cfg fuel node (node_pcb nd) s) (\<lambda>r s.
            case r of
              None \<Rightarrow> Ret True s
            | Some page_num \<Rightarrow> execute_lines cfg parse node (node_pcb nd) quanta page_num s))"

section \<open>The schedulers\<close>

fun scheduler_FCFS ::
  "a2_config \<Rightarrow> 'os a2_parser \<Rightarrow> nat \<Rightarrow> nat \<Rightarrow> 'os a2 \<Rightarrow> (unit, 'os a2) outcome" where
  "scheduler_FCFS cfg parse fuel 0 s = Unfinished"
| "scheduler_FCFS cfg parse fuel (Suc n) s =
     (if is_ready_empty s then (if active s then scheduler_FCFS cfg parse fuel n s else Ret () s)
      else seq (attempt (ready_queue_pop_head s)) (\<lambda>cur s.
        case cur of
          None \<Rightarrow> Undefined
        | Some cur \<Rightarrow> seq (execute_process cfg parse fuel cur MAX_INT s) (\<lambda>_ s.
                        scheduler_FCFS cfg parse fuel n s)))"

fun scheduler_RR ::
  "a2_config \<Rightarrow> 'os a2_parser \<Rightarrow> nat \<Rightarrow> nat \<Rightarrow> nat \<Rightarrow> 'os a2 \<Rightarrow> (unit, 'os a2) outcome" where
  "scheduler_RR cfg parse fuel quanta 0 s = Unfinished"
| "scheduler_RR cfg parse fuel quanta (Suc n) s =
     (if is_ready_empty s then (if active s then scheduler_RR cfg parse fuel quanta n s else Ret () s)
      else seq (attempt (ready_queue_pop_head s)) (\<lambda>cur s.
        case cur of
          None \<Rightarrow> Ret () s
        | Some cur \<Rightarrow> seq (execute_process cfg parse fuel cur quanta s) (\<lambda>done s.
                        seq (attempt_do (if done then Some s else ready_queue_add_to_tail cur s)) (\<lambda>_ s.
                          scheduler_RR cfg parse fuel quanta n s))))"

definition schedule_by_policy ::
  "a2_config \<Rightarrow> 'os a2_parser \<Rightarrow> nat \<Rightarrow> string \<Rightarrow> 'os a2 \<Rightarrow> (int, 'os a2) outcome" where
  "schedule_by_policy cfg parse fuel policy s =
     (if policy \<noteq> ''FCFS'' \<and> policy \<noteq> ''RR'' \<and> policy \<noteq> ''RR30'' then Ret SCHEDULING_ERROR s
      else if active s then Ret 0 s
      else if in_background s then Ret 0 s
      else seq (if policy = ''FCFS'' then scheduler_FCFS cfg parse fuel fuel s
                else if policy = ''RR'' then scheduler_RR cfg parse fuel 2 fuel s
                else scheduler_RR cfg parse fuel 30 fuel s)
             (\<lambda>_ s. Ret 0 s))"

end
