(* ===== verification/A2_Shell.thy ===== *)
theory A2_Shell
  imports A2_Kernel A1_Shell
begin

text \<open>
  The shell of assignment 2 (\<open>a2/interpreter.c\<close>, \<open>a2/shell.c\<close>): one definition per command, the
  dispatch, the splitter with chained commands and the read loop. The array \<open>words\<close> keeps the
  words of earlier commands of the line, which the commands that do not test their number of
  arguments can still see; an entry never assigned is \<open>None\<close> (the null pointer).
\<close>

type_synonym 'os a2_call = "(int, 'os a2) outcome"

section \<open>The commands (a2/interpreter.c)\<close>

definition error_msgs :: "string list" where
  "error_msgs = [''no error'', ''file does not exist'', ''file could not be loaded'',
     ''no space left in shell memory'', ''ready queue is full'', ''scheduling policy error'',
     ''too many tokens'', ''too few tokens'', ''non-alphanumeric token'', ''unknown name'', ''cd'', ''mkdir'']"

datatype a2_error = NO_ERROR | NO_FILE | FILE_ERROR | NO_MEM_SPACE | READY_QUEUE_FULL | BAD_POLICY
  | TOO_MANY_TOKENS | TOO_FEW_TOKENS | NON_ALPHANUMERIC_TOKEN | BAD_COMMAND | ERROR_CD | ERROR_MKDIR

fun a2_code :: "a2_error \<Rightarrow> int" where
  "a2_code NO_ERROR = 0" | "a2_code NO_FILE = 1" | "a2_code FILE_ERROR = 2" | "a2_code NO_MEM_SPACE = 3"
| "a2_code READY_QUEUE_FULL = 4" | "a2_code BAD_POLICY = 5" | "a2_code TOO_MANY_TOKENS = 6"
| "a2_code TOO_FEW_TOKENS = 7" | "a2_code NON_ALPHANUMERIC_TOKEN = 8" | "a2_code BAD_COMMAND = 9"
| "a2_code ERROR_CD = 10" | "a2_code ERROR_MKDIR = 11"

definition handle_error_code :: "int \<Rightarrow> 'os a2 \<Rightarrow> 'os a2_call" where
  \<comment> \<open>\<open>error_msgs[error_code]\<close> is defined for the codes of the enumeration\<close>
  "handle_error_code c s =
     require (0 \<le> c \<and> c < int (length error_msgs))
       (Ret c (printf (''Bad command: '' @ error_msgs ! nat c @ nl) s))"

definition handle_error :: "a2_error \<Rightarrow> 'os a2 \<Rightarrow> 'os a2_call" where
  "handle_error e s = handle_error_code (a2_code e) s"

definition a2_quit :: "'os host_ops \<Rightarrow> 'os a2 \<Rightarrow> 'os a2_call" where
  "a2_quit h s =
     seq (attempt_do (ready_queue_destory (puts ''Bye!'' s))) (\<lambda>_ s.
       case host_system h ''rm -rf ./backing_store'' s of (_, s) \<Rightarrow> Exit 0 s)"

definition a2_set :: "a2_config \<Rightarrow> string \<Rightarrow> string \<Rightarrow> 'os a2 \<Rightarrow> 'os a2_call" where
  "a2_set cfg v x s = require (length v + 1 + length x < 1000) (Ret 0 (a2_mem_set_value cfg v x s))"

definition a2_print :: "a2_config \<Rightarrow> string \<Rightarrow> 'os a2 \<Rightarrow> 'os a2_call" where
  "a2_print cfg v s =
     Ret 0 (puts (case a2_mem_get_value cfg v s of None \<Rightarrow> nl | Some x \<Rightarrow> x) s)"

definition a2_echo :: "a2_config \<Rightarrow> string \<Rightarrow> 'os a2 \<Rightarrow> 'os a2_call" where
  "a2_echo cfg w s =
     (if w \<noteq> [] \<and> hd w = CHR ''$''
      then seq (a2_print cfg (tl w) s) (\<lambda>_ s. Ret 0 s)
      else Ret 0 (puts w s))"

definition a2_my_ls :: "'os host_ops \<Rightarrow> 'os a2 \<Rightarrow> 'os a2_call" where
  "a2_my_ls h s = (case host_system h ''ls | sort'' s of (r, s) \<Rightarrow> Ret r s)"

definition a2_my_mkdir :: "a2_config \<Rightarrow> 'os host_ops \<Rightarrow> string \<Rightarrow> 'os a2 \<Rightarrow> 'os a2_call" where
  "a2_my_mkdir cfg h dirname s =
     (let make = (\<lambda>dir. case host_system h (''mkdir '' @ dir) s of (r, s) \<Rightarrow> Ret r s) in
      if dirname \<noteq> [] \<and> hd dirname = CHR ''$''
      then (case a2_mem_get_value cfg (tl dirname) s of
              None \<Rightarrow> handle_error ERROR_MKDIR s
            | Some x \<Rightarrow> if CHR '' '' \<in> set x then handle_error ERROR_MKDIR s else make x)
      else make dirname)"

definition a2_my_touch :: "'os host_ops \<Rightarrow> string \<Rightarrow> 'os a2 \<Rightarrow> 'os a2_call" where
  "a2_my_touch h f s = (case host_system h (''touch '' @ f) s of (r, s) \<Rightarrow> Ret r s)"

definition a2_my_cd :: "'os host_ops \<Rightarrow> string \<Rightarrow> 'os a2 \<Rightarrow> 'os a2_call" where
  "a2_my_cd h dirname s =
     (if os_is_dir h dirname (a2_host s)
      then (case os_chdir h dirname (a2_host s) of (r, os) \<Rightarrow> Ret r (s\<lparr>a2_host := os\<rparr>))
      else handle_error ERROR_CD s)"

definition a2_run ::
  "a2_config \<Rightarrow> 'os host_ops \<Rightarrow> 'os a2_parser \<Rightarrow> nat \<Rightarrow> string \<Rightarrow> 'os a2 \<Rightarrow> 'os a2_call" where
  \<comment> \<open>the code tested is 11, \<open>process_initialize\<close> answers \<open>FILE_DOES_NOT_EXIST\<close>\<close>
  "a2_run cfg h parse fuel script s =
     seq (attempt (process_initialize cfg h script s)) (\<lambda>errCode s.
       if errCode = 11 then handle_error_code errCode s
       else seq (schedule_by_policy cfg parse fuel ''FCFS'' s) (\<lambda>_ s. Ret errCode s))"

fun init_all :: "a2_config \<Rightarrow> 'os host_ops \<Rightarrow> string list \<Rightarrow> 'os a2 \<Rightarrow> 'os a2_call" where
  \<comment> \<open>the scripts of \<open>exec\<close> up to the first that cannot be loaded\<close>
  "init_all cfg h [] s = Ret 0 s"
| "init_all cfg h (f # fs) s =
     seq (attempt (process_initialize cfg h f s)) (\<lambda>c s.
       if c \<noteq> 0 then Ret c s else init_all cfg h fs s)"

definition a2_exec ::
  "a2_config \<Rightarrow> 'os host_ops \<Rightarrow> 'os a2_parser \<Rightarrow> nat \<Rightarrow> string list \<Rightarrow> 'os a2 \<Rightarrow> 'os a2_call" where
  \<comment> \<open>one to three file names\<close>
  "a2_exec cfg h parse fuel fs s =
     (case fs of
        [f] \<Rightarrow> a2_run cfg h parse fuel f s
      | _ \<Rightarrow> seq (init_all cfg h fs s) (\<lambda>c s.
               if c \<noteq> 0 then handle_error_code c s
               else seq (schedule_by_policy cfg parse fuel ''RR'' s) (\<lambda>c s.
                      if c \<noteq> 0 then handle_error_code c s else Ret c s)))"

definition resetmem :: "a2_config \<Rightarrow> 'os a2 \<Rightarrow> 'os a2_call" where
  "resetmem cfg s = Ret 0 (variable_store_mem_init cfg s)"

section \<open>The dispatch\<close>

definition A2_MAX_ARGS_SIZE :: nat where "A2_MAX_ARGS_SIZE = 7"

definition with_word :: "string option list \<Rightarrow> nat \<Rightarrow> (string \<Rightarrow> ('a, 's) outcome) \<Rightarrow> ('a, 's) outcome" where
  \<comment> \<open>\<open>command_args[i]\<close>: a null pointer is not dereferenced\<close>
  "with_word ws i k = (if i < length ws then (case ws ! i of None \<Rightarrow> Undefined | Some w \<Rightarrow> k w) else Undefined)"

definition strip_words :: "nat \<Rightarrow> string option list \<Rightarrow> string option list" where
  \<comment> \<open>the words of the command end at a newline from now on\<close>
  "strip_words n ws =
     (if 1 \<le> n \<and> n \<le> A2_MAX_ARGS_SIZE then map (map_option strip_eol) (take n ws) @ drop n ws else ws)"

definition a2_interpreter ::
  "a2_config \<Rightarrow> 'os host_ops \<Rightarrow> 'os a2_parser \<Rightarrow> nat \<Rightarrow> string option list \<Rightarrow> nat \<Rightarrow> 'os a2 \<Rightarrow> 'os a2_call" where
  "a2_interpreter cfg h parse fuel words n s =
     (if n < 1 then handle_error TOO_FEW_TOKENS s
      else if A2_MAX_ARGS_SIZE < n then handle_error TOO_MANY_TOKENS s
      else let ws = strip_words n words; arg = (\<lambda>i. the (ws ! i)) in
        with_word ws 0 (\<lambda>command.
        if command = ''help'' then (if 1 < n then handle_error TOO_MANY_TOKENS s else show_help s)
        else if command = ''quit'' \<or> command = ''exit'' then
          (if 1 < n then handle_error TOO_MANY_TOKENS s else a2_quit h s)
        else if command = ''set'' then
          (if n < 3 then handle_error TOO_FEW_TOKENS s
           else a2_set cfg (arg 1) (join_with '' '' (map arg [2..<n])) s)
        else if command = ''print'' then
          (if n < 2 then handle_error TOO_FEW_TOKENS s
           else if 2 < n then handle_error TOO_MANY_TOKENS s else a2_print cfg (arg 1) s)
        else if command = ''run'' then
          (if n < 2 then handle_error TOO_FEW_TOKENS s
           else if 2 < n then handle_error TOO_MANY_TOKENS s else a2_run cfg h parse fuel (arg 1) s)
        else if command = ''echo'' then
          (if 2 < n then handle_error TOO_MANY_TOKENS s else with_word ws 1 (\<lambda>w. a2_echo cfg w s))
        else if command = ''my_ls'' then (if 1 < n then handle_error TOO_MANY_TOKENS s else a2_my_ls h s)
        else if command = ''my_mkdir'' then
          (if 2 < n then handle_error TOO_MANY_TOKENS s else with_word ws 1 (\<lambda>w. a2_my_mkdir cfg h w s))
        else if command = ''my_touch'' then
          (if 2 < n then handle_error TOO_MANY_TOKENS s else with_word ws 1 (\<lambda>w. a2_my_touch h w s))
        else if command = ''my_cd'' then
          (if 2 < n then handle_error TOO_MANY_TOKENS s else with_word ws 1 (\<lambda>w. a2_my_cd h w s))
        else if command = ''exec'' then
          (if n \<le> 1 then handle_error TOO_FEW_TOKENS s
           else if 5 < n then handle_error TOO_MANY_TOKENS s
           else if n \<le> 4 then a2_exec cfg h parse fuel (map arg [1..<n]) s
           else handle_error BAD_COMMAND s)
        else if command = ''resetmem'' then (if 1 < n then handle_error TOO_MANY_TOKENS s else resetmem cfg s)
        else handle_error BAD_COMMAND s))"

section \<open>The splitter (a2/shell.c)\<close>

fun skip_blanks :: "nat \<Rightarrow> string \<Rightarrow> nat \<times> string" where
  \<comment> \<open>\<open>while (ui[a] == ' ') a++\<close>\<close>
  "skip_blanks a [] = (a, [])"
| "skip_blanks a (c # r) = (if c = CHR '' '' then skip_blanks (Suc a) r else (a, c # r))"

text \<open>
  \<open>w\<close> is the number of words so far, \<open>run\<close> the interpreter. A word that is empty although nothing was
  skipped sends the loop back to the same test with nothing changed; \<open>None\<close> is a loop that never ends.
\<close>

partial_function (option) split_loop ::
  "(string option list \<Rightarrow> nat \<Rightarrow> 's \<Rightarrow> (int, 's) outcome) \<Rightarrow> nat \<Rightarrow> string \<Rightarrow> string option list \<Rightarrow> nat \<Rightarrow>
   's \<Rightarrow> (int, 's) outcome option" where
  "split_loop run a rest ws w s =
     (if a < 1000 \<and> rest \<noteq> [] \<and> hd rest \<noteq> CHR 0x0A then
        (case skip_blanks a rest of (a1, r1) \<Rightarrow>
           if r1 = [] then Some (run ws w s)
           else (case a1_word a1 r1 of (tmp, a2, r2) \<Rightarrow>
             if 200 \<le> length tmp then Some Undefined
             else if tmp = [] then split_loop run a2 r2 ws w s
             else if length ws \<le> w then Some Undefined
             else let ws = ws[w := Some tmp] in
               if r2 \<noteq> [] \<and> hd r2 = CHR '';''
               then (case run ws (Suc w) s of
                       Ret errorCode s \<Rightarrow>
                         if errorCode = -1 then Some (Ret errorCode s)
                         else (case a1_skip (Suc a2) (tl r2) of (a3, r3) \<Rightarrow>
                                 split_loop run a3 r3 (strip_words (Suc w) ws) 0 s)
                     | other \<Rightarrow> Some other)
               else split_loop run (Suc a2) (tl r2) ws (Suc w) s))
      else Some (run ws w s))"

definition split_line ::
  "(string option list \<Rightarrow> nat \<Rightarrow> 's \<Rightarrow> (int, 's) outcome) \<Rightarrow> nat \<Rightarrow> string \<Rightarrow> string option list \<Rightarrow> nat \<Rightarrow>
   's \<Rightarrow> (int, 's) outcome" where
  "split_line run a rest ws w s = (case split_loop run a rest ws w s of None \<Rightarrow> Unfinished | Some r \<Rightarrow> r)"

lemma split_line_eq:
  "split_line run a rest ws w s =
     (if a < 1000 \<and> rest \<noteq> [] \<and> hd rest \<noteq> CHR 0x0A then
        (case skip_blanks a rest of (a1, r1) \<Rightarrow>
           if r1 = [] then run ws w s
           else (case a1_word a1 r1 of (tmp, a2, r2) \<Rightarrow>
             require (length tmp < 200)
               (if tmp = [] then split_line run a2 r2 ws w s
                else require (w < length ws)
                  (if r2 \<noteq> [] \<and> hd r2 = CHR '';''
                   then seq (run (ws[w := Some tmp]) (Suc w) s) (\<lambda>errorCode s.
                          if errorCode = -1 then Ret errorCode s
                          else (case a1_skip (Suc a2) (tl r2) of (a3, r3) \<Rightarrow>
                                  split_line run a3 r3 (strip_words (Suc w) (ws[w := Some tmp])) 0 s))
                   else split_line run (Suc a2) (tl r2) (ws[w := Some tmp]) (Suc w) s))))
      else run ws w s)"
  unfolding split_line_def
  by (subst split_loop.simps) (simp add: Let_def require_def not_less split: prod.split outcome.split)

fun a2_parseInput :: "a2_config \<Rightarrow> 'os host_ops \<Rightarrow> nat \<Rightarrow> string \<Rightarrow> 'os a2 \<Rightarrow> 'os a2_call" where
  "a2_parseInput cfg h 0 ui s = Unfinished"
| "a2_parseInput cfg h (Suc fuel) ui s =
     (case a1_skip 0 ui of (a, rest) \<Rightarrow>
        split_line (a2_interpreter cfg h (a2_parseInput cfg h fuel) fuel) a rest (replicate 100 None) 0 s)"

section \<open>The read loop (main, a2/shell.c)\<close>

definition a2_freopen_tty :: "'os a2 \<Rightarrow> 'os a2" where
  "a2_freopen_tty s =
     (case a2_terminals s of
        [] \<Rightarrow> s\<lparr>a2_input := [], a2_interactive := False\<rparr>
      | t # ts \<Rightarrow> s\<lparr>a2_input := t, a2_terminals := ts, a2_interactive := True\<rparr>)"

definition a2_read :: "'os a2 \<Rightarrow> string \<times> 'os a2" where
  "a2_read s =
     (let s = (if a2_interactive s then printf ''$ '' s else s);
          (line, rest, eof) = fgets 999 (a2_input s);
          s = s\<lparr>a2_input := rest\<rparr>
      in (line, if eof then a2_freopen_tty s else s))"

fun a2_main_loop :: "a2_config \<Rightarrow> 'os host_ops \<Rightarrow> nat \<Rightarrow> nat \<Rightarrow> 'os a2 \<Rightarrow> 'os a2_call" where
  "a2_main_loop cfg h 0 fuel s = Unfinished"
| "a2_main_loop cfg h (Suc n) fuel s =
     (case a2_read s of (line, s) \<Rightarrow>
        if line = [] then a2_main_loop cfg h n fuel s
        else seq (a2_parseInput cfg h fuel line s) (\<lambda>errorCode s.
          if errorCode = -1 then Exit 99 s else a2_main_loop cfg h n fuel s))"

definition a2_main :: "a2_config \<Rightarrow> 'os host_ops \<Rightarrow> nat \<Rightarrow> nat \<Rightarrow> 'os a2 \<Rightarrow> 'os a2_call" where
  "a2_main cfg h n fuel s =
     (let s = snd (host_system h ''rm -rf ./backing_store'' s);
          s = snd (host_system h ''mkdir ./backing_store'' s);
          s = puts ''Shell v2.0'' s;
          s = printf (''Frame Store Size = '' @ dec (THRESHOLD cfg) @ ''; Variable Store Size = '' @
                      dec (VARMEMSIZE cfg) @ nl) s
      in a2_main_loop cfg h n fuel (a2_mem_init cfg s))"

end
