(* ===== verification/A2_Props.thy ===== *)
theory A2_Props
  imports A2_Shell A1_Props
begin

text \<open>
  What the frame store, the variables and the ready queue of assignment 2 guarantee: the victim of a page fault is the
  frame whose first line was used longest ago, its owner forgets it and nothing else of the memory changes, a page load
  brings exactly the next three lines of a script, and the frame store never touches the variables.
\<close>

section \<open>The variables\<close>

definition a2_ok :: "a2_config \<Rightarrow> 'os a2 \<Rightarrow> bool" where
  "a2_ok cfg s \<longleftrightarrow> unique_vars (THRESHOLD cfg) (VARMEMSIZE cfg) (shellmem s) \<and>
     length (shellmem s) = SHELL_MEM_LENGTH cfg"

definition a2_vars :: "a2_config \<Rightarrow> 'os a2 \<Rightarrow> string \<rightharpoonup> string" where
  "a2_vars cfg s = vars_in (THRESHOLD cfg) (VARMEMSIZE cfg) (shellmem s)"

definition a2_room :: "a2_config \<Rightarrow> 'os a2 \<Rightarrow> nat" where
  "a2_room cfg s = free_slots (THRESHOLD cfg) (VARMEMSIZE cfg) (shellmem s)"

interpretation a2v: var_store "a2_ok cfg" "a2_vars cfg" "a2_room cfg" "a2_mem_set_value cfg" for cfg
  by unfold_locales
    (simp_all add: a2_ok_def a2_vars_def a2_room_def a2_mem_set_value_def range.none_free
      range.set_ok range.set_vars range.set_room range.set_full)

lemma a2_mem_init_ok:
  "a2_ok cfg (a2_mem_init cfg s) \<and> a2_vars cfg (a2_mem_init cfg s) = Map.empty \<and>
   a2_room cfg (a2_mem_init cfg s) = VARMEMSIZE cfg"
  using fresh_range [of "THRESHOLD cfg" "VARMEMSIZE cfg" "shellmem (a2_mem_init cfg s)"]
  by (simp add: a2_ok_def a2_vars_def a2_room_def a2_mem_init_def SHELL_MEM_LENGTH_def)

text \<open>Two memories that agree from \<open>THRESHOLD\<close> on have the same variables.\<close>

lemma scan_var_cong:
  "(\<And>k. i \<le> k \<Longrightarrow> k < i + n \<Longrightarrow> m ! k = m' ! k) \<Longrightarrow> scan_var key m i n = scan_var key m' i n"
proof (induction n arbitrary: i)
  case (Suc n)
  have "scan_var key m (Suc i) n = scan_var key m' (Suc i) n" by (rule Suc.IH) (use Suc.prems in simp)
  then show ?case using Suc.prems [of i] by simp
qed simp

lemma vars_in_cong:
  assumes "\<And>k. lo \<le> k \<Longrightarrow> k < lo + n \<Longrightarrow> m ! k = m' ! k"
  shows "vars_in lo n m = vars_in lo n m'"
proof
  fix key
  have s: "scan_var key m lo n = scan_var key m' lo n" by (rule scan_var_cong [OF assms])
  show "vars_in lo n m key = vars_in lo n m' key"
    using assms scan_var_Some [of key m' lo n]
    by (cases "scan_var key m' lo n") (auto simp: vars_in_def get_in_range_def s)
qed

lemma unique_vars_cong:
  assumes "\<And>k. lo \<le> k \<Longrightarrow> k < lo + n \<Longrightarrow> m ! k = m' ! k" and "length m = length m'"
  shows "unique_vars lo n m = unique_vars lo n m'"
  unfolding unique_vars_def using assms by (intro conj_cong all_cong1) auto

definition same_store :: "a2_config \<Rightarrow> 'os a2 \<Rightarrow> 'os a2 \<Rightarrow> bool" where
  \<comment> \<open>nothing at or above \<open>THRESHOLD\<close> differs\<close>
  "same_store cfg s s' \<longleftrightarrow> length (shellmem s') = length (shellmem s) \<and>
     (\<forall>k \<ge> THRESHOLD cfg. shellmem s' ! k = shellmem s ! k)"

lemma same_store_vars:
  assumes "same_store cfg s s'"
  shows "a2_vars cfg s' = a2_vars cfg s \<and> a2_ok cfg s' = a2_ok cfg s"
proof -
  have "unique_vars (THRESHOLD cfg) (VARMEMSIZE cfg) (shellmem s')
      = unique_vars (THRESHOLD cfg) (VARMEMSIZE cfg) (shellmem s)"
    by (rule unique_vars_cong) (use assms in \<open>simp_all add: same_store_def\<close>)
  moreover have "vars_in (THRESHOLD cfg) (VARMEMSIZE cfg) (shellmem s')
      = vars_in (THRESHOLD cfg) (VARMEMSIZE cfg) (shellmem s)"
    by (rule vars_in_cong) (use assms in \<open>simp_all add: same_store_def\<close>)
  ultimately show ?thesis using assms by (simp add: a2_ok_def a2_vars_def same_store_def)
qed

lemma same_store_refl [simp]: "same_store cfg s s"
  by (simp add: same_store_def)

lemma same_store_trans: "same_store cfg s s' \<Longrightarrow> same_store cfg s' s'' \<Longrightarrow> same_store cfg s s''"
  by (simp add: same_store_def)

lemma same_store_mem: "shellmem s' = shellmem s \<Longrightarrow> same_store cfg s s'"
  by (simp add: same_store_def)

section \<open>Eviction\<close>

lemma lru_scan_spec:
  assumes "\<forall>f \<in> set fs. f * FRAME_SIZE < length m" and "v * FRAME_SIZE < length m"
  shows "\<exists>u. lru_scan m fs v = Some u \<and> (u = v \<or> u \<in> set fs) \<and>
    (\<forall>f \<in> insert v (set fs). last_used (m ! (u * FRAME_SIZE)) \<le> last_used (m ! (f * FRAME_SIZE)))"
  using assms
proof (induction fs arbitrary: v)
  case (Cons f fs)
  let ?w = "if last_used (m ! (f * FRAME_SIZE)) < last_used (m ! (v * FRAME_SIZE)) then f else v"
  have fs: "\<forall>f \<in> set fs. f * FRAME_SIZE < length m" and w: "?w * FRAME_SIZE < length m"
    using Cons.prems by (simp_all split: if_splits)
  obtain u where "lru_scan m fs ?w = Some u" "u = ?w \<or> u \<in> set fs"
    "\<forall>f \<in> insert ?w (set fs). last_used (m ! (u * FRAME_SIZE)) \<le> last_used (m ! (f * FRAME_SIZE))"
    using Cons.IH [OF fs w] by blast
  then show ?case using Cons.prems by (auto split: if_splits)
qed simp

lemma table_put_frame:
  "table_put r t s = Some s' \<Longrightarrow> shellmem s' = shellmem s \<and> streams s' = streams s \<and> console s' = console s \<and>
     qnodes s' = qnodes s \<and> qhead s' = qhead s \<and> timer s' = timer s \<and> table_get r s' = Some t"
  by (auto simp: table_put_def table_get_def bind_eq_Some_conv wr_Some rd_Some split: table_ref.splits)

lemma print_victim_total:
  "n + j \<le> length (shellmem s) \<Longrightarrow> \<exists>w. print_victim n j s = Some (s\<lparr>console := w\<rparr>)"
proof (induction n arbitrary: j s)
  case 0
  show ?case by (intro exI [of _ "console s"]) simp
next
  case (Suc n)
  show ?case
  proof (cases "val (shellmem s ! j) = NONE")
    case True
    then show ?thesis using Suc.prems by (auto simp: printf_def)
  next
    case False
    obtain w where "print_victim n (Suc j) (printf (val (shellmem s ! j)) s)
        = Some (printf (val (shellmem s ! j)) s\<lparr>console := w\<rparr>)"
      using Suc.IH [of "Suc j" "printf (val (shellmem s ! j)) s"] Suc.prems by (auto simp: printf_def)
    then show ?thesis using False Suc.prems by (auto simp: printf_def)
  qed
qed

lemma clear_lines_spec:
  "i + n \<le> length (shellmem s) \<Longrightarrow>
   clear_lines n i s = Some (s\<lparr>shellmem := take i (shellmem s) @
     replicate n \<lparr>var = NONE, val = NONE, last_used = 0\<rparr> @ drop (i + n) (shellmem s)\<rparr>)"
proof (induction n arbitrary: i s)
  case (Suc n)
  let ?e = "\<lparr>var = NONE, val = NONE, last_used = 0\<rparr>"
  have "drop (Suc i + n) ((shellmem s)[i := ?e]) = drop (i + Suc n) (shellmem s)" by simp
  moreover have "take (Suc i) ((shellmem s)[i := ?e]) = take i (shellmem s) @ [?e]"
    using Suc.prems by (simp add: take_Suc_conv_app_nth)
  ultimately show ?case
    using Suc.IH [of "Suc i" "s\<lparr>shellmem := (shellmem s)[i := ?e]\<rparr>"] Suc.prems
    by (simp add: write_line_def)
qed simp

definition procs_ok :: "'os a2 \<Rightarrow> bool" where
  \<comment> \<open>every allocated node has its control block\<close>
  "procs_ok s \<longleftrightarrow> (\<forall>a nd. node_at (qnodes s) a = Some nd \<longrightarrow> node_pcb nd < length (pcbs s))"

definition only_pcbs :: "'os a2 \<Rightarrow> 'os a2 \<Rightarrow> bool" where
  "only_pcbs s s' \<longleftrightarrow> s' = s\<lparr>pcbs := pcbs s'\<rparr> \<and> length (pcbs s') = length (pcbs s)"

lemma index_of_mem: "index_of x xs = Some i \<Longrightarrow> i < length xs \<and> xs ! i = x"
  by (induction xs arbitrary: i) (auto split: if_splits)

lemma index_of_None: "index_of x xs = None \<longleftrightarrow> x \<notin> set xs"
  by (induction xs) auto

fun forget_first :: "int \<Rightarrow> nat list \<Rightarrow> pcb list \<Rightarrow> pcb list" where
  \<comment> \<open>the first process that has the frame loses its first entry for it\<close>
  "forget_first v [] ps = ps"
| "forget_first v (p # procs) ps = (case index_of v (page_table (ps ! p)) of
     Some i \<Rightarrow> ps[p := (ps ! p)\<lparr>page_table := (page_table (ps ! p))[i := -1]\<rparr>]
   | None \<Rightarrow> forget_first v procs ps)"

definition nodes_procs :: "qnode option list \<Rightarrow> nat list \<Rightarrow> nat list" where
  "nodes_procs h as = map (\<lambda>a. node_pcb (the (node_at h a))) as"

lemma forget_in_queue_exact:
  assumes "linked (qnodes s) cur as" and "procs_ok s"
  shows "forget_in_queue v cur s = Some (s\<lparr>pcbs := forget_first v (nodes_procs (qnodes s) as) (pcbs s)\<rparr>)"
  using assms
proof (induction as arbitrary: cur)
  case Nil
  then show ?case by (subst forget_in_queue.simps) (simp add: nodes_procs_def)
next
  case (Cons a as)
  obtain nd where nd: "cur = Some a" "node_at (qnodes s) a = Some nd" "linked (qnodes s) (node_next nd) as"
    using Cons.prems(1) by (cases "node_at (qnodes s) a") auto
  have p: "node_pcb nd < length (pcbs s)" using nd(2) Cons.prems(2) by (auto simp: procs_ok_def)
  show ?case
  proof (cases "index_of v (page_table (pcbs s ! node_pcb nd))")
    case None
    then show ?thesis
      using Cons.IH [OF nd(3) Cons.prems(2)] nd p
      by (subst forget_in_queue.simps) (simp add: ready_queue_peek_next_def nodes_procs_def)
  next
    case (Some i)
    then show ?thesis
      using nd p by (subst forget_in_queue.simps) (simp add: table_put_def nodes_procs_def)
  qed
qed

lemma length_forget_first [simp]: "length (forget_first v procs ps) = length ps"
  by (induction procs) (auto split: option.splits)

lemma forget_first_keeps: "v \<notin> set (page_table (ps ! p)) \<Longrightarrow> forget_first v procs ps ! p = ps ! p"
proof (induction procs)
  case (Cons p' procs)
  have "index_of v (page_table (ps ! p')) = Some i \<Longrightarrow> p' \<noteq> p" for i
    using Cons.prems index_of_None [of v "page_table (ps ! p)"] by auto
  then show ?case using Cons by (auto split: option.split)
qed simp

definition frame_once :: "int \<Rightarrow> nat list \<Rightarrow> pcb list \<Rightarrow> bool" where
  \<comment> \<open>no two entries of the page tables of the processes are the frame\<close>
  "frame_once v procs ps \<longleftrightarrow> (\<forall>p \<in> set procs. \<forall>p' \<in> set procs. \<forall>i < length (page_table (ps ! p)). \<forall>j < length (page_table (ps ! p')).
     page_table (ps ! p) ! i = v \<and> page_table (ps ! p') ! j = v \<longrightarrow> p = p' \<and> i = j)"

lemma forget_frame_absent: "v \<notin> set t \<Longrightarrow> forget_frame v t = t"
  unfolding forget_frame_def by (rule map_idI) auto

lemma forget_frame_once:
  assumes "i < length t" and "t ! i = v" and "\<forall>j < length t. t ! j = v \<longrightarrow> j = i"
  shows "forget_frame v t = t[i := -1]"
proof (rule nth_equalityI)
  fix j
  assume "j < length (forget_frame v t)"
  then have j: "j < length t" by (simp add: forget_frame_def)
  show "forget_frame v t ! j = t[i := -1] ! j"
  proof (cases "j = i")
    case False
    then have "t ! j \<noteq> v" using assms(3) j by blast
    then show ?thesis using j False by (simp add: forget_frame_def)
  qed (simp add: forget_frame_def assms(1) assms(2) [symmetric])
qed (simp add: forget_frame_def)

lemma forget_first_once:
  assumes "frame_once v procs ps" and "p < length ps"
  shows "forget_first v procs ps ! p = (ps ! p)\<lparr>page_table := (if p \<in> set procs then forget_frame v (page_table (ps ! p)) else page_table (ps ! p))\<rparr>"
  using assms
proof (induction procs)
  case (Cons p' procs)
  let ?t = "\<lambda>p. page_table (ps ! p)"
  show ?case
  proof (cases "index_of v (?t p')")
    case None
    have "frame_once v procs ps" using Cons.prems(1) by (simp add: frame_once_def)
    moreover have "forget_frame v (?t p') = ?t p'" using None by (intro forget_frame_absent) (simp add: index_of_None)
    ultimately show ?thesis using Cons None by auto
  next
    case (Some i)
    then have i: "i < length (?t p')" "?t p' ! i = v" using index_of_mem by auto
    have once: "p'' = p' \<and> j = i" if "p'' \<in> set (p' # procs)" "j < length (?t p'')" "?t p'' ! j = v" for p'' j
      using Cons.prems(1) that i unfolding frame_once_def by (metis list.set_intros(1))
    have here: "forget_frame v (?t p') = (?t p')[i := -1]"
      by (rule forget_frame_once [OF i]) (use once [of p'] in simp)
    have other: "forget_frame v (?t p) = ?t p" if "p \<noteq> p'" "p \<in> set procs"
      using that once [of p] by (intro forget_frame_absent) (auto simp: in_set_conv_nth)
    show ?thesis
    proof (cases "p = p'")
      case True
      then show ?thesis using Some here Cons.prems(2) by simp
    next
      case False
      then show ?thesis using Some other by auto
    qed
  qed
qed simp

definition table_ok :: "table_ref \<Rightarrow> 'os a2 \<Rightarrow> bool" where
  "table_ok r s \<longleftrightarrow> (\<exists>t. table_get r s = Some t \<and> length t = PAGE_TABLE_SIZE)"

lemma table_put_total:
  assumes "table_get r s = Some t"
  shows "\<exists>s'. table_put r t' s = Some s' \<and> table_get r s' = Some t' \<and> length (pcbs s') = length (pcbs s) \<and>
    s' = s\<lparr>pcbs := pcbs s', local_table := local_table s'\<rparr>"
  using assms by (auto simp: table_put_def table_get_def rd_Some split: table_ref.splits)

definition frames_ok :: "a2_config \<Rightarrow> 'os a2 \<Rightarrow> bool" where
  "frames_ok cfg s \<longleftrightarrow> length (shellmem s) = SHELL_MEM_LENGTH cfg \<and> 0 < FRAME_STORE_SIZE cfg \<and>
     ready_ok s \<and> procs_ok s"

lemma frame_bound: "f < FRAME_STORE_SIZE cfg \<Longrightarrow> f * FRAME_SIZE + FRAME_SIZE \<le> THRESHOLD cfg"
proof -
  assume "f < FRAME_STORE_SIZE cfg"
  then have "Suc f * FRAME_SIZE \<le> THRESHOLD cfg div FRAME_SIZE * FRAME_SIZE"
    by (intro mult_le_mono1) (simp add: FRAME_STORE_SIZE_def)
  also have "\<dots> \<le> THRESHOLD cfg" by simp
  finally show ?thesis by simp
qed

lemma pick_victim_frame_spec:
  assumes ok: "frames_ok cfg s" and t: "table_ok r s"
  shows "\<exists>v s'. pick_victim_frame cfg r s = Some (v, s') \<and> v < FRAME_STORE_SIZE cfg \<and>
    (\<forall>f < FRAME_STORE_SIZE cfg. last_used (shellmem s ! (v * FRAME_SIZE)) \<le> last_used (shellmem s ! (f * FRAME_SIZE))) \<and>
    shellmem s' = take (v * FRAME_SIZE) (shellmem s) @
      replicate FRAME_SIZE \<lparr>var = NONE, val = NONE, last_used = 0\<rparr> @ drop (v * FRAME_SIZE + FRAME_SIZE) (shellmem s) \<and>
    (\<exists>u. table_get r s' = Some u \<and> int v \<notin> set u \<and> length u = PAGE_TABLE_SIZE) \<and> frames_ok cfg s' \<and>
    streams s' = streams s \<and> timer s' = timer s \<and> length (pcbs s') = length (pcbs s) \<and>
    lru_scan (shellmem s) [0..<FRAME_STORE_SIZE cfg] 0 = Some v \<and> qnodes s' = qnodes s \<and> qhead s' = qhead s \<and>
    (\<exists>t s1. table_get r s = Some t \<and> table_put r (forget_frame (int v) t) s = Some s1 \<and>
      pcbs s' = forget_first (int v) (nodes_procs (qnodes s) (ready_list s)) (pcbs s1) \<and> local_table s' = local_table s1)"
proof -
  have len: "length (shellmem s) = THRESHOLD cfg + VARMEMSIZE cfg" "0 < FRAME_STORE_SIZE cfg"
    using ok by (simp_all add: frames_ok_def SHELL_MEM_LENGTH_def)
  have b: "f * FRAME_SIZE < length (shellmem s)" if "f < FRAME_STORE_SIZE cfg" for f
    using frame_bound [OF that] len by (simp add: FRAME_SIZE_def)
  obtain v where v: "lru_scan (shellmem s) [0..<FRAME_STORE_SIZE cfg] 0 = Some v" "v < FRAME_STORE_SIZE cfg"
    "\<forall>f < FRAME_STORE_SIZE cfg. last_used (shellmem s ! (v * FRAME_SIZE)) \<le> last_used (shellmem s ! (f * FRAME_SIZE))"
    using lru_scan_spec [of "[0..<FRAME_STORE_SIZE cfg]" "shellmem s" 0] b len(2) by force
  obtain t where t: "table_get r s = Some t" "length t = PAGE_TABLE_SIZE" using t by (auto simp: table_ok_def)
  obtain s1 where s1: "table_put r (forget_frame (int v) t) s = Some s1"
    "table_get r s1 = Some (forget_frame (int v) t)" "length (pcbs s1) = length (pcbs s)"
    "s1 = s\<lparr>pcbs := pcbs s1, local_table := local_table s1\<rparr>"
    using table_put_total [OF t(1)] by blast
  have q: "qnodes s1 = qnodes s" "qhead s1 = qhead s" "shellmem s1 = shellmem s" "streams s1 = streams s"
    "timer s1 = timer s"
    using table_put_frame [OF s1(1)] by simp_all
  have r1: "ready_ok s1" "procs_ok s1"
    using ok q s1(3) by (simp_all add: frames_ok_def ready_ok_def ready_list_def procs_ok_def)
  have l: "linked (qnodes s1) (ready_queue_peek_head s1) (ready_list s1)"
    using r1(1) by (simp add: ready_ok_def ready_queue_peek_head_def)
  obtain s2 where s2: "forget_in_queue (int v) (ready_queue_peek_head s1) s1 = Some s2" "only_pcbs s1 s2"
    "\<forall>p < length (pcbs s1). int v \<notin> set (page_table (pcbs s1 ! p)) \<longrightarrow> pcbs s2 ! p = pcbs s1 ! p"
    using forget_in_queue_exact [OF l r1(2), of "int v"] forget_first_keeps by (fastforce simp: only_pcbs_def)
  have p2: "pcbs s2 = forget_first (int v) (nodes_procs (qnodes s) (ready_list s)) (pcbs s1)"
    using forget_in_queue_exact [OF l r1(2), of "int v"] s2(1) q(1,2) by (simp add: ready_list_def)
  have e2: "s2 = s1\<lparr>pcbs := pcbs s2\<rparr>" "length (pcbs s2) = length (pcbs s1)"
    using s2(2) unfolding only_pcbs_def by blast+
  have q2: "qnodes s2 = qnodes s" "qhead s2 = qhead s" "shellmem s2 = shellmem s" "streams s2 = streams s"
    "timer s2 = timer s" "local_table s2 = local_table s1"
    using arg_cong [OF e2(1), of qnodes] arg_cong [OF e2(1), of qhead] arg_cong [OF e2(1), of shellmem]
      arg_cong [OF e2(1), of streams] arg_cong [OF e2(1), of timer] arg_cong [OF e2(1), of local_table] q
    by simp_all
  have nov: "int v \<notin> set (forget_frame (int v) t)" by (auto simp: forget_frame_def)
  have t2: "table_get r s2 = Some (forget_frame (int v) t)"
    using s1(2) s2(3) nov e2(2) q2(6)
    by (cases r) (auto simp: table_get_def rd_Some)
  let ?m = "''Page fault! Victim page contents:'' @ nl"
  have vb: "FRAME_SIZE + v * FRAME_SIZE \<le> length (shellmem s)"
    using frame_bound [OF v(2)] len by simp
  obtain w where w: "print_victim FRAME_SIZE (v * FRAME_SIZE) (printf ?m s2) = Some (printf ?m s2\<lparr>console := w\<rparr>)"
    using print_victim_total [of FRAME_SIZE "v * FRAME_SIZE" "printf ?m s2"] vb q2(3)
    by (auto simp: printf_def)
  let ?s3 = "printf (''End of victim page contents.'' @ nl) (printf ?m s2\<lparr>console := w\<rparr>)"
  have s3: "shellmem ?s3 = shellmem s" "qnodes ?s3 = qnodes s" "qhead ?s3 = qhead s" "streams ?s3 = streams s"
    "timer ?s3 = timer s" "pcbs ?s3 = pcbs s2" "local_table ?s3 = local_table s2"
    using q2 by (simp_all add: printf_def)
  let ?s4 = "?s3\<lparr>shellmem := take (v * FRAME_SIZE) (shellmem s) @
      replicate FRAME_SIZE \<lparr>var = NONE, val = NONE, last_used = 0\<rparr> @ drop (v * FRAME_SIZE + FRAME_SIZE) (shellmem s)\<rparr>"
  have clr: "clear_lines FRAME_SIZE (v * FRAME_SIZE) ?s3 = Some ?s4"
    using clear_lines_spec [of "v * FRAME_SIZE" FRAME_SIZE ?s3] vb s3(1) by simp
  have run: "pick_victim_frame cfg r s = Some (v, ?s4)"
    using v(1) t(1) s1(1) s2(1) w clr by (simp add: pick_victim_frame_def Let_def)
  have "length (shellmem ?s4) = length (shellmem s)" using vb by simp
  then have "frames_ok cfg ?s4"
    using ok s3 e2(2) s1(3) by (simp add: frames_ok_def ready_ok_def ready_list_def procs_ok_def)
  moreover have "table_get r ?s4 = Some (forget_frame (int v) t)"
    using t2 s3(6,7) by (cases r) (simp_all add: table_get_def)
  ultimately show ?thesis
    using run v nov t s3 e2(2) s1(1,3) p2 q2(6) by (auto simp: forget_frame_def)
qed

section \<open>Loading\<close>

definition overwrite :: "'a list \<Rightarrow> nat \<Rightarrow> 'a list \<Rightarrow> 'a list" where
  "overwrite m j es = take j m @ es @ drop (j + length es) m"

lemma overwrite_Nil [simp]: "overwrite m j [] = m"
  by (simp add: overwrite_def)

lemma overwrite_Cons: "j < length m \<Longrightarrow> overwrite (m[j := e]) (Suc j) es = overwrite m j (e # es)"
  by (simp add: overwrite_def take_Suc_conv_app_nth)

lemma length_overwrite: "j + length es \<le> length m \<Longrightarrow> length (overwrite m j es) = length m"
  by (simp add: overwrite_def)

lemma overwrite_beyond: "j + length es \<le> k \<Longrightarrow> j + length es \<le> length m \<Longrightarrow> overwrite m j es ! k = m ! k"
  by (auto simp: overwrite_def nth_append)

lemma overwrite_at: "k < length es \<Longrightarrow> j \<le> length m \<Longrightarrow> overwrite m j es ! (j + k) = es ! k"
  by (simp add: overwrite_def nth_append)

lemma pad_page_spec:
  "k \<le> 3 \<Longrightarrow> 0 < k \<Longrightarrow> i + 3 \<le> length (shellmem s) \<Longrightarrow>
   pad_page name i (i + k) s
     = Some (s\<lparr>shellmem := overwrite (shellmem s) (i + k) (replicate (3 - k) \<lparr>var = name, val = NONE, last_used = 0\<rparr>)\<rparr>)"
proof (induction "3 - k" arbitrary: k s)
  case 0
  then show ?case by (simp add: pad_page.simps FRAME_SIZE_def)
next
  case (Suc d)
  then have k: "k < 3" "k mod 3 \<noteq> 0" by auto
  have rep: "replicate (3 - k) e = e # replicate (3 - Suc k) e" for e :: a2slot
    using k by (metis Suc_diff_Suc replicate_Suc)
  let ?e = "\<lparr>var = name, val = NONE, last_used = 0\<rparr> :: a2slot"
  let ?s = "s\<lparr>shellmem := (shellmem s)[i + k := ?e]\<rparr>"
  have "pad_page name i (i + Suc k) ?s
      = Some (?s\<lparr>shellmem := overwrite (shellmem ?s) (i + Suc k) (replicate (3 - Suc k) ?e)\<rparr>)"
    by (rule Suc.hyps(1)) (use Suc in auto)
  then show ?case
    using k Suc.prems overwrite_Cons [of "i + k" "shellmem s" ?e]
    by (subst pad_page.simps) (simp add: FRAME_SIZE_def write_line_def rep)
qed

definition page_slots :: "string \<Rightarrow> int \<Rightarrow> nat \<Rightarrow> string list \<Rightarrow> a2slot list" where
  \<comment> \<open>\<open>k\<close> slots: lines, then padding\<close>
  "page_slots name now k ls = map (\<lambda>l. \<lparr>var = name, val = l, last_used = now\<rparr>) (take k ls) @
     replicate (k - length ls) \<lparr>var = name, val = NONE, last_used = 0\<rparr>"

lemma length_page_slots [simp]: "length (page_slots name now k ls) = k"
  by (simp add: page_slots_def)

lemma page_slots_Nil: "page_slots name now k [] = replicate k \<lparr>var = name, val = NONE, last_used = 0\<rparr>"
  by (simp add: page_slots_def)

lemma page_slots_Cons:
  "page_slots name now (Suc k) (l # ls) = \<lparr>var = name, val = l, last_used = now\<rparr> # page_slots name now k ls"
  by (simp add: page_slots_def)

lemma load_lines_rest:
  assumes "k \<le> 3" and "0 < k" and "i + 3 \<le> THRESHOLD cfg" and "THRESHOLD cfg \<le> length (shellmem s)"
    and "f < length (streams s)" and "left_in (SHELL_MEM_LENGTH cfg) (streams s ! f) ls"
  shows "\<exists>s' st. load_lines cfg f name r pg i (i + k) 0 s = Some (0, s') \<and>
    s' = s\<lparr>shellmem := overwrite (shellmem s) (i + k) (page_slots name (timer s) (3 - k) ls), streams := (streams s)[f := st]\<rparr> \<and>
    left_in (SHELL_MEM_LENGTH cfg) st (drop (3 - k) ls)"
  using assms
proof (induction "3 - k" arbitrary: k s ls)
  case 0
  then have k: "k = 3" by simp
  have "load_lines cfg f name r pg i (i + 3) 0 s = Some (0, s)"
    using "0.prems" k pad_page_spec [of 3 i s name]
    by (subst load_lines.simps) (auto simp: FRAME_SIZE_def)
  then show ?case
    using k "0.prems" by (intro exI [of _ s] exI [of _ "streams s ! f"]) (simp add: page_slots_def)
next
  case (Suc d)
  then have k: "k < 3" "k mod 3 \<noteq> 0" "Suc k \<le> 3" "3 - k = Suc (3 - Suc k)" by auto
  have j: "i + k < THRESHOLD cfg" using Suc.prems k by simp
  show ?case
  proof (cases ls)
    case Nil
    then have "load_lines cfg f name r pg i (i + k) 0 s
        = Some (0, s\<lparr>shellmem := overwrite (shellmem s) (i + k) (page_slots name (timer s) (3 - k) [])\<rparr>)"
      using Suc.prems j pad_page_spec [of k i s name]
      by (subst load_lines.simps) (simp add: left_in_def page_slots_Nil)
    then show ?thesis
      using Nil Suc.prems
      by (intro exI [of _ "s\<lparr>shellmem := overwrite (shellmem s) (i + k) (page_slots name (timer s) (3 - k) [])\<rparr>"]
          exI [of _ "streams s ! f"]) simp
  next
    case (Cons l ls')
    have rd: "reads (SHELL_MEM_LENGTH cfg) (streams s ! f) (l # ls')"
      using Suc.prems(6) Cons by (simp add: left_in_def)
    obtain st' where st': "stream_gets (SHELL_MEM_LENGTH cfg) (streams s ! f) = (Some l, st')"
      "left_in (SHELL_MEM_LENGTH cfg) st' ls'"
      using stream_gets_line [OF rd] by blast
    let ?e = "\<lparr>var = name, val = l, last_used = timer s\<rparr> :: a2slot"
    let ?s = "s\<lparr>streams := (streams s)[f := st'], shellmem := (shellmem s)[i + k := ?e]\<rparr>"
    have step: "load_lines cfg f name r pg i (i + k) 0 s = load_lines cfg f name r pg i (i + Suc k) 0 ?s"
      using rd st'(1) j k Suc.prems
      by (subst load_lines.simps) (simp add: reads_def write_line_def FRAME_SIZE_def)
    obtain s' st where s': "load_lines cfg f name r pg i (i + Suc k) 0 ?s = Some (0, s')"
      "s' = ?s\<lparr>shellmem := overwrite (shellmem ?s) (i + Suc k) (page_slots name (timer ?s) (3 - Suc k) ls'),
               streams := (streams ?s)[f := st]\<rparr>"
      "left_in (SHELL_MEM_LENGTH cfg) st (drop (3 - Suc k) ls')"
      using Suc.hyps(1) [of "Suc k" ?s ls'] Suc.hyps(2) Suc.prems k st'(2) by auto
    have "s' = s\<lparr>shellmem := overwrite (shellmem s) (i + k) (page_slots name (timer s) (3 - k) ls),
                streams := (streams s)[f := st]\<rparr>"
      using s'(2) j Suc.prems(4) k(4) overwrite_Cons [of "i + k" "shellmem s" ?e]
      by (simp add: page_slots_Cons Cons)
    then show ?thesis using step s'(1,3) k(4) Cons by auto
  qed
qed

lemma load_lines_page:
  assumes "i + 3 \<le> THRESHOLD cfg" and "THRESHOLD cfg \<le> length (shellmem s)" and "f < length (streams s)"
    and "reads (SHELL_MEM_LENGTH cfg) (streams s ! f) ls" and "table_ok r s" and "0 \<le> pg" and "pg < int PAGE_TABLE_SIZE"
  shows "\<exists>s' st t. load_lines cfg f name r pg i i 21 s = Some (0, s') \<and>
    shellmem s' = overwrite (shellmem s) i (page_slots name (timer s) 3 ls) \<and>
    streams s' = (streams s)[f := st] \<and> left_in (SHELL_MEM_LENGTH cfg) st (drop 3 ls) \<and>
    table_get r s = Some t \<and> table_get r s' = Some (t[nat pg := int (i div FRAME_SIZE)]) \<and>
    qnodes s' = qnodes s \<and> qhead s' = qhead s \<and> length (pcbs s') = length (pcbs s) \<and> console s' = console s \<and> timer s' = timer s"
proof -
  obtain l ls' where ls: "ls = l # ls'" using assms(4) by (cases ls) (auto simp: reads_def)
  obtain st' where st': "stream_gets (SHELL_MEM_LENGTH cfg) (streams s ! f) = (Some l, st')"
    "left_in (SHELL_MEM_LENGTH cfg) st' ls'"
    using stream_gets_line assms(4) ls by blast
  let ?e = "\<lparr>var = name, val = l, last_used = timer s\<rparr> :: a2slot"
  let ?s = "s\<lparr>streams := (streams s)[f := st'], shellmem := (shellmem s)[i := ?e]\<rparr>"
  obtain t where t: "table_get r s = Some t" "length t = PAGE_TABLE_SIZE" using assms(5) by (auto simp: table_ok_def)
  then have ts: "table_get r ?s = Some t" by (cases r) (simp_all add: table_get_def)
  obtain s1 where s1: "table_put r (t[nat pg := int (i div FRAME_SIZE)]) ?s = Some s1"
    "table_get r s1 = Some (t[nat pg := int (i div FRAME_SIZE)])" "length (pcbs s1) = length (pcbs ?s)"
    using table_put_total [OF ts] by blast
  have q: "shellmem s1 = shellmem ?s" "streams s1 = streams ?s" "console s1 = console s" "qnodes s1 = qnodes s"
    "qhead s1 = qhead s" "timer s1 = timer s"
    using table_put_frame [OF s1(1)] by simp_all
  have i: "i < THRESHOLD cfg" "i < length (shellmem s)" using assms(1,2) by simp_all
  have step: "load_lines cfg f name r pg i i 21 s = load_lines cfg f name r pg i (i + 1) 0 s1"
    using assms(3,4,6,7) st'(1) i ts t(2) s1(1)
    by (subst load_lines.simps) (simp add: reads_def write_line_def store_page_number_def FRAME_SIZE_def)
  obtain s' st where s': "load_lines cfg f name r pg i (i + 1) 0 s1 = Some (0, s')"
    "s' = s1\<lparr>shellmem := overwrite (shellmem s1) (i + 1) (page_slots name (timer s1) (3 - 1) ls'),
             streams := (streams s1)[f := st]\<rparr>"
    "left_in (SHELL_MEM_LENGTH cfg) st (drop (3 - 1) ls')"
    using load_lines_rest [of 1 i cfg s1 f ls' name r pg] assms(1,2,3) q(1,2) st'(2) by auto
  have three: "(3::nat) = Suc 2" by simp
  have mem: "shellmem s' = overwrite (shellmem s) i (page_slots name (timer s) 3 ls)"
    unfolding three ls page_slots_Cons
    using s'(2) q(1,6) overwrite_Cons [OF i(2), of ?e] by simp
  moreover have "table_get r s' = table_get r s1"
    using s'(2) by (cases r) (simp_all add: table_get_def)
  moreover have "drop 3 ls = drop (3 - 1) ls'" by (simp add: ls)
  ultimately show ?thesis
    using step s' s1(2,3) q t(1) by auto
qed

text \<open>The frame a page goes to: the first hole if there is one, else the frame whose first line was used longest ago.\<close>

lemma load_page_spec:
  assumes ok: "frames_ok cfg s" and f: "f < length (streams s)"
    and rd: "reads (SHELL_MEM_LENGTH cfg) (streams s ! f) ls" and r: "table_ok r s"
    and pg: "0 \<le> pg" "pg < int PAGE_TABLE_SIZE"
    and hole: "\<And>i. scan_var NONE (shellmem s) 0 (THRESHOLD cfg) = Some i \<Longrightarrow> i mod 3 = 0 \<and> i + 3 \<le> THRESHOLD cfg"
  shows "\<exists>v s' t st. load_page_into_frame_store cfg f name r pg s = Some (0, s') \<and> v < FRAME_STORE_SIZE cfg \<and>
    shellmem s' = overwrite (shellmem s) (v * 3) (page_slots name (timer s) 3 ls) \<and>
    table_get r s' = Some t \<and> length t = PAGE_TABLE_SIZE \<and> t ! nat pg = int v \<and>
    streams s' = (streams s)[f := st] \<and> left_in (SHELL_MEM_LENGTH cfg) st (drop 3 ls) \<and> frames_ok cfg s' \<and>
    (case scan_var NONE (shellmem s) 0 (THRESHOLD cfg) of Some i \<Rightarrow> i = v * 3
     | None \<Rightarrow> (\<forall>g < FRAME_STORE_SIZE cfg. last_used (shellmem s ! (v * 3)) \<le> last_used (shellmem s ! (g * 3))))"
proof (cases "scan_var NONE (shellmem s) 0 (THRESHOLD cfg)")
  case (Some i)
  have i: "i mod 3 = 0" "i + 3 \<le> THRESHOLD cfg" using hole [OF Some] by simp_all
  define v where "v = i div 3"
  have v: "v < FRAME_STORE_SIZE cfg" "i = v * 3"
    using i by (auto simp: v_def FRAME_STORE_SIZE_def FRAME_SIZE_def)
  have mem: "THRESHOLD cfg \<le> length (shellmem s)" using ok by (simp add: frames_ok_def SHELL_MEM_LENGTH_def)
  obtain s' st t where s': "load_lines cfg f name r pg i i 21 s = Some (0, s')"
    "shellmem s' = overwrite (shellmem s) i (page_slots name (timer s) 3 ls)"
    "streams s' = (streams s)[f := st]" "left_in (SHELL_MEM_LENGTH cfg) st (drop 3 ls)"
    "table_get r s = Some t" "table_get r s' = Some (t[nat pg := int (i div FRAME_SIZE)])"
    "qnodes s' = qnodes s" "qhead s' = qhead s" "length (pcbs s') = length (pcbs s)"
    using load_lines_page [OF i(2) mem f rd r pg] by blast
  have "load_page_into_frame_store cfg f name r pg s = Some (0, s')"
    using Some f s'(1) by (simp add: load_page_into_frame_store_def Let_def)
  moreover have "length (shellmem s') = length (shellmem s)"
    unfolding s'(2) using i(2) mem by (intro length_overwrite) simp
  then have "frames_ok cfg s'"
    using ok s'(7,8,9) by (simp add: frames_ok_def ready_ok_def ready_list_def procs_ok_def)
  moreover have "length t = PAGE_TABLE_SIZE" using r s'(5) by (auto simp: table_ok_def)
  ultimately show ?thesis
    using s' v pg Some
    by (intro exI [of _ v] exI [of _ s'] exI [of _ "t[nat pg := int (i div FRAME_SIZE)]"] exI [of _ st])
      (simp add: FRAME_SIZE_def)
next
  case None
  obtain v s1 u where s1: "pick_victim_frame cfg r s = Some (v, s1)" "v < FRAME_STORE_SIZE cfg"
    "\<forall>g < FRAME_STORE_SIZE cfg. last_used (shellmem s ! (v * FRAME_SIZE)) \<le> last_used (shellmem s ! (g * FRAME_SIZE))"
    "shellmem s1 = take (v * FRAME_SIZE) (shellmem s) @ replicate FRAME_SIZE \<lparr>var = NONE, val = NONE, last_used = 0\<rparr> @
       drop (v * FRAME_SIZE + FRAME_SIZE) (shellmem s)"
    "table_get r s1 = Some u" "length u = PAGE_TABLE_SIZE" "frames_ok cfg s1" "streams s1 = streams s" "timer s1 = timer s"
    using pick_victim_frame_spec [OF ok r] by blast
  have i: "v * 3 + 3 \<le> THRESHOLD cfg" using frame_bound [OF s1(2)] by (simp add: FRAME_SIZE_def)
  have mem: "THRESHOLD cfg \<le> length (shellmem s1)" "length (shellmem s1) = length (shellmem s)"
    using s1(7) ok by (simp_all add: frames_ok_def SHELL_MEM_LENGTH_def)
  have f1: "f < length (streams s1)" "reads (SHELL_MEM_LENGTH cfg) (streams s1 ! f) ls" "table_ok r s1"
    using f rd s1 by (auto simp: table_ok_def)
  obtain s' st t where s': "load_lines cfg f name r pg (v * 3) (v * 3) 21 s1 = Some (0, s')"
    "shellmem s' = overwrite (shellmem s1) (v * 3) (page_slots name (timer s1) 3 ls)"
    "streams s' = (streams s1)[f := st]" "left_in (SHELL_MEM_LENGTH cfg) st (drop 3 ls)"
    "table_get r s1 = Some t" "table_get r s' = Some (t[nat pg := int (v * 3 div FRAME_SIZE)])"
    "qnodes s' = qnodes s1" "qhead s' = qhead s1" "length (pcbs s') = length (pcbs s1)"
    using load_lines_page [OF i mem(1) f1 pg] by blast
  have "\<not> st_eof (streams s ! f)" using rd by (simp add: reads_def)
  then have "load_page_into_frame_store cfg f name r pg s = Some (0, s')"
    using None f s1(1) s'(1) by (simp add: load_page_into_frame_store_def Let_def FRAME_SIZE_def)
  moreover have "shellmem s' = overwrite (shellmem s) (v * 3) (page_slots name (timer s) 3 ls)"
    unfolding s'(2) s1(4,9) using i mem by (simp add: overwrite_def FRAME_SIZE_def)
  moreover have "length (shellmem s') = length (shellmem s1)"
    unfolding s'(2) using i mem by (intro length_overwrite) simp
  then have "frames_ok cfg s'"
    using s1(7) s'(7,8,9) by (simp add: frames_ok_def ready_ok_def ready_list_def procs_ok_def)
  ultimately show ?thesis
    using s' s1 pg None
    by (intro exI [of _ v] exI [of _ s'] exI [of _ "t[nat pg := int (v * 3 div FRAME_SIZE)]"] exI [of _ st])
      (simp add: FRAME_SIZE_def)
qed

section \<open>Chained commands\<close>

definition words_of :: "string option list \<Rightarrow> string list \<Rightarrow> string option list" where
  \<comment> \<open>the array after the words of a command were assigned from its start\<close>
  "words_of ws c = map Some c @ drop (length c) ws"

fun run_chain ::
  "(string option list \<Rightarrow> nat \<Rightarrow> 's \<Rightarrow> (int, 's) outcome) \<Rightarrow> string option list \<Rightarrow> string list list \<Rightarrow>
   's \<Rightarrow> (int, 's) outcome" where
  \<comment> \<open>the reference: the commands in order, until one returns -1\<close>
  "run_chain run ws [] s = run ws 0 s"
| "run_chain run ws [c] s = run (words_of ws c) (length c) s"
| "run_chain run ws (c # c' # cs) s =
     seq (run (words_of ws c) (length c) s) (\<lambda>e s.
       if e = -1 then Ret e s
       else run_chain run (strip_words (length c) (words_of ws c)) (c' # cs) s)"

definition token :: "string \<Rightarrow> bool" where
  "token w \<longleftrightarrow> w \<noteq> [] \<and> plain w \<and> length w < 200"

lemma hd_token: "token w \<Longrightarrow> \<exists>c v. w = c # v \<and> c \<noteq> CHR '' '' \<and> c \<noteq> CHR '';'' \<and> c \<noteq> CHR 0x0A"
  by (cases w) (auto simp: token_def)

lemma skip_blanks_token: "token w \<Longrightarrow> skip_blanks a (w @ r) = (a, w @ r)"
  and a1_skip_token: "token w \<Longrightarrow> a1_skip a (w @ r) = (a, w @ r)"
  using hd_token [of w] by auto

text \<open>One word, by what follows it.\<close>

lemma split_loop_word:
  assumes "token w" and "a + length w \<le> 1000" and "n < length ws" and "r = [] \<or> hd r = CHR '' '' \<or> hd r = CHR 0x0A"
  shows "split_line run a (w @ r) ws n s = split_line run (Suc (a + length w)) (tl r) (ws[n := Some w]) (Suc n) s"
proof -
  have "a1_word a (w @ r) = (w, a + length w, r)"
    using assms by (intro a1_word_plain) (auto simp: token_def)
  moreover obtain c v where "w = c # v" "c \<noteq> CHR 0x0A" using hd_token [OF assms(1)] by blast
  ultimately show ?thesis
    using assms skip_blanks_token [OF assms(1), of a r]
    by (subst split_line_eq) (auto simp: token_def Let_def)
qed

lemma split_loop_chain:
  assumes "token w" and "a + length w < 1000" and "n < length ws"
  shows "split_line run a (w @ CHR '';'' # r) ws n s =
    seq (run (ws[n := Some w]) (Suc n) s) (\<lambda>e s. if e = -1 then Ret e s
      else (case a1_skip (Suc (a + length w)) r of (a3, r3) \<Rightarrow>
              split_line run a3 r3 (strip_words (Suc n) (ws[n := Some w])) 0 s))"
proof -
  have "a1_word a (w @ CHR '';'' # r) = (w, a + length w, CHR '';'' # r)"
    using assms by (intro a1_word_plain) (auto simp: token_def)
  moreover obtain c v where "w = c # v" "c \<noteq> CHR 0x0A" using hd_token [OF assms(1)] by blast
  ultimately show ?thesis
    using assms skip_blanks_token [OF assms(1), of a "CHR '';'' # r"]
    by (subst split_line_eq) (simp add: token_def Let_def cong: if_cong prod.case_cong)
qed

text \<open>A whole command, up to its end or its semicolon.\<close>

lemma words_of_snoc:
  "length ds < length ws \<Longrightarrow> words_of ws (ds @ [w]) = (words_of ws ds)[length ds := Some w]"
  by (simp add: words_of_def list_update_append Cons_nth_drop_Suc [symmetric])

lemma length_words_of [simp]: "length c \<le> length ws \<Longrightarrow> length (words_of ws c) = length ws"
  by (simp add: words_of_def)

lemma split_loop_command:
  assumes "cs \<noteq> []" and "\<forall>w \<in> set cs. token w" and "length ds + length cs \<le> length ws"
    and "a + length (line_of cs) < 1000"
  shows "split_line run a (line_of cs @ nl) (words_of ws ds) (length ds) s
      = run (words_of ws (ds @ cs)) (length (ds @ cs)) s \<and>
    split_line run a (line_of cs @ CHR '';'' # r) (words_of ws ds) (length ds) s
      = seq (run (words_of ws (ds @ cs)) (length (ds @ cs)) s) (\<lambda>e s. if e = -1 then Ret e s
          else (case a1_skip (Suc (a + length (line_of cs))) r of (a3, r3) \<Rightarrow>
                  split_line run a3 r3 (strip_words (length (ds @ cs)) (words_of ws (ds @ cs))) 0 s))"
  using assms
proof (induction cs arbitrary: a ds rule: induct_list012)
  case (2 w)
  have "split_line run b [] ws' m s = run ws' m s" for b ws' m by (subst split_line_eq) simp
  then show ?case
    using 2 split_loop_word [of w a "length ds" "words_of ws ds" nl run s]
      split_loop_chain [of w a "length ds" "words_of ws ds" run r s]
    by (simp add: nl_def words_of_snoc cong: if_cong prod.case_cong)
next
  case (3 w w' cs)
  let ?a = "Suc (a + length w)"
  have one: "split_line run a (w @ CHR '' '' # t) (words_of ws ds) (length ds) s
      = split_line run ?a t (words_of ws (ds @ [w])) (length (ds @ [w])) s" for t
    using "3.prems" split_loop_word [of w a "length ds" "words_of ws ds" "CHR '' '' # t" run s]
    by (simp add: words_of_snoc)
  have ih: "w' # cs \<noteq> []" "\<forall>w \<in> set (w' # cs). token w" "length (ds @ [w]) + length (w' # cs) \<le> length ws"
    "?a + length (line_of (w' # cs)) < 1000"
    using "3.prems" by simp_all
  show ?case
    using "3.IH"(2) [OF ih] one by (simp add: add.assoc cong: if_cong prod.case_cong)
qed simp

definition chain_line :: "string list list \<Rightarrow> string" where
  "chain_line cs = join_with '';'' (map line_of cs) @ nl"

lemma split_loop_chain_line:
  assumes "cs \<noteq> []" and "\<forall>c \<in> set cs. c \<noteq> [] \<and> length c \<le> length ws \<and> (\<forall>w \<in> set c. token w)"
    and "a + length (chain_line cs) \<le> 1000"
  shows "split_line run a (chain_line cs) ws 0 s = run_chain run ws cs s"
  using assms
proof (induction cs arbitrary: a ws s rule: induct_list012)
  case (2 c)
  then show ?case
    using split_loop_command [of c "[]" ws a run s "[]"] by (simp add: chain_line_def words_of_def nl_def)
next
  case (3 c c' cs)
  let ?rest = "chain_line (c' # cs)"
  have l: "chain_line (c # c' # cs) = line_of c @ CHR '';'' # ?rest" by (simp add: chain_line_def)
  obtain w ws' where c': "c' = w # ws'" "token w" using "3.prems"(2) by (cases c') auto
  have "\<exists>t. ?rest = w @ t" using c' by (cases ws'; cases cs) (auto simp: chain_line_def)
  then have skip: "a1_skip b ?rest = (b, ?rest)" for b using a1_skip_token [OF c'(2)] by auto
  have sw: "length (strip_words (length c) (words_of ws c)) = length ws"
    using "3.prems"(2) by (auto simp: strip_words_def min_def)
  have "split_line run (Suc (a + length (line_of c))) ?rest (strip_words (length c) (words_of ws c)) 0 t
      = run_chain run (strip_words (length c) (words_of ws c)) (c' # cs) t" for t
    using "3.prems" l sw by (intro "3.IH"(2)) auto
  moreover have "a + length (line_of c) < 1000" using "3.prems"(3) l by simp
  ultimately show ?case
    using split_loop_command [of c "[]" ws a run s ?rest] "3.prems"(1,2) l skip
    by (simp add: words_of_def cong: if_cong prod.case_cong)
qed simp

section \<open>Properties\<close>

text \<open>A small configuration and a fresh shell, for the concrete instances.\<close>

definition small_cfg :: a2_config where
  "small_cfg = \<lparr>THRESHOLD = 6, VARMEMSIZE = 4\<rparr>"

definition a2_fresh :: "a2_config \<Rightarrow> stream list \<Rightarrow> (string \<Rightarrow> string option) a2" where
  "a2_fresh cfg sts = a2_mem_init cfg
     \<lparr>console = [], qnodes = [], qhead = None, pcbs = [], pid_counter = 1, shellmem = [], timer = 0, streams = sts,
      local_table = replicate PAGE_TABLE_SIZE (-1), active = False, in_background = False, a2_host = (\<lambda>_. None),
      a2_input = [], a2_terminals = [], a2_interactive = False\<rparr>"

lemma a2_fresh_fields [simp]:
  "qhead (a2_fresh cfg sts) = None" "qnodes (a2_fresh cfg sts) = []" "pcbs (a2_fresh cfg sts) = []"
  "streams (a2_fresh cfg sts) = sts" "timer (a2_fresh cfg sts) = 0" "active (a2_fresh cfg sts) = False"
  "in_background (a2_fresh cfg sts) = False" "a2_host (a2_fresh cfg sts) = (\<lambda>_. None)"
  "local_table (a2_fresh cfg sts) = replicate PAGE_TABLE_SIZE (-1)"
  "shellmem (a2_fresh cfg sts) = replicate (SHELL_MEM_LENGTH cfg) \<lparr>var = NONE, val = NONE, last_used = 0\<rparr>"
  by (simp_all add: a2_fresh_def a2_mem_init_def)

definition opened :: "string \<Rightarrow> stream" where
  "opened content = \<lparr>st_text = content, st_pos = 0, st_eof = False\<rparr>"

lemma small_frames: "frames_ok small_cfg (a2_fresh small_cfg sts)"
  by (simp add: frames_ok_def small_cfg_def SHELL_MEM_LENGTH_def FRAME_STORE_SIZE_def FRAME_SIZE_def a2_fresh_def
      a2_mem_init_def ready_ok_def ready_list_def procs_ok_def node_at_def rd_def)

text \<open>
  C19: The ready queue is first in, first out: processes added to a well-formed queue come out
  after those already there, in the order they were added, and leave it empty.
\<close>

theorem ready_queue_fifo:
  assumes "ready_ok s" and "\<forall>n \<in> set ns. loose_node s n" and "distinct ns"
  shows "\<exists>s' s''. enq_all ready_queue_add_to_tail ns s = Some s' \<and>
    deq_many ready_queue_pop_head (length (ready_list s) + length ns) s'
      = Some (map Some (ready_list s @ ns), s'') \<and> ready_ok s'' \<and> ready_list s'' = []"
  by (rule rq.fifo_order [OF assms])

theorem ready_queue_fifo_witness:
  "\<exists>s' s''. enq_all ready_queue_add_to_tail [1, 0]
      (a2_fresh small_cfg []\<lparr>qnodes := replicate 2 (Some \<lparr>node_pcb = 0, node_next = None\<rparr>)\<rparr>) = Some s' \<and>
    deq_many ready_queue_pop_head 2 s' = Some ([Some 1, Some 0], s'')"
proof -
  let ?s = "a2_fresh small_cfg []\<lparr>qnodes := replicate 2 (Some \<lparr>node_pcb = 0, node_next = None\<rparr>)\<rparr>"
  have q: "qhead ?s = None" "qnodes ?s = replicate 2 (Some \<lparr>node_pcb = 0, node_next = None\<rparr>)"
    by simp_all
  have ok: "ready_ok ?s \<and> ready_list ?s = []" by (rule ready_okI) (simp_all add: q)
  moreover have "\<forall>n \<in> set [1, 0]. loose_node ?s n" using ok q by (simp add: loose_node_def node_at_def)
  ultimately show ?thesis using ready_queue_fifo [of ?s "[1, 0]"] by (auto simp: numeral_2_eq_2)
qed

text \<open>The processes of the ready queue, and the page tables after their owners forget a frame.\<close>

definition queue_procs :: "'os a2 \<Rightarrow> nat list" where
  "queue_procs s = nodes_procs (qnodes s) (ready_list s)"

definition forgets :: "int \<Rightarrow> table_ref \<Rightarrow> 'os a2 \<Rightarrow> 'os a2 \<Rightarrow> bool" where
  \<comment> \<open>every entry for the frame in the tables of the queue and in the table \<open>r\<close> becomes -1, and no control block changes otherwise\<close>
  "forgets v r s s' \<longleftrightarrow> length (pcbs s') = length (pcbs s) \<and>
     (\<forall>p < length (pcbs s). pcbs s' ! p = (pcbs s ! p)\<lparr>page_table := (if p \<in> set (queue_procs s) \<or> r = Of_pcb p
        then forget_frame v (page_table (pcbs s ! p)) else page_table (pcbs s ! p))\<rparr>) \<and>
     local_table s' = (if r = Local then forget_frame v (local_table s) else local_table s)"

lemma forget_frame_twice [simp]: "v \<noteq> -1 \<Longrightarrow> forget_frame v (forget_frame v t) = forget_frame v t"
  by (simp add: forget_frame_def)

lemma frame_once_less:
  assumes "frame_once v procs ps" and "\<forall>p. page_table (ps' ! p) = page_table (ps ! p) \<or> page_table (ps' ! p) = forget_frame v (page_table (ps ! p))"
    and "v \<noteq> -1"
  shows "frame_once v procs ps'"
proof -
  have "i < length (page_table (ps ! p)) \<and> page_table (ps ! p) ! i = v" if "i < length (page_table (ps' ! p))" "page_table (ps' ! p) ! i = v" for p i
    using assms(2) [rule_format, of p]
  proof
    assume e: "page_table (ps' ! p) = forget_frame v (page_table (ps ! p))"
    have i: "i < length (page_table (ps ! p))" using that(1) unfolding e by (simp add: forget_frame_def)
    moreover have "forget_frame v (page_table (ps ! p)) ! i = v" using that(2) unfolding e .
    ultimately show ?thesis using assms(3) by (simp add: forget_frame_def split: if_splits)
  qed (use that in simp)
  then show ?thesis using assms(1) unfolding frame_once_def by metis
qed

lemma pick_victim_forgets:
  assumes "table_get r s = Some t" and "table_put r (forget_frame v t) s = Some s1" and "v \<noteq> -1" and "frame_once v (queue_procs s) (pcbs s)"
    and "pcbs s' = forget_first v (queue_procs s) (pcbs s1)" and "local_table s' = local_table s1"
  shows "forgets v r s s'"
proof (cases r)
  case Local
  then have e: "t = local_table s" "s1 = s\<lparr>local_table := forget_frame v t\<rparr>" using assms(1,2) by (simp_all add: table_get_def table_put_def)
  then show ?thesis using assms(4-6) Local by (simp add: forgets_def forget_first_once)
next
  case (Of_pcb p0)
  then have p0: "p0 < length (pcbs s)" "t = page_table (pcbs s ! p0)"
    "pcbs s1 = (pcbs s)[p0 := (pcbs s ! p0)\<lparr>page_table := forget_frame v t\<rparr>]" "local_table s1 = local_table s"
    using assms(1,2) by (auto simp: table_get_def table_put_def rd_Some wr_Some bind_eq_Some_conv rd_def split: if_splits)
  have at: "pcbs s1 ! p = (pcbs s ! p)\<lparr>page_table := (if p = p0 then forget_frame v (page_table (pcbs s ! p)) else page_table (pcbs s ! p))\<rparr>" for p
    using p0 by (simp add: nth_list_update)
  have len: "length (pcbs s1) = length (pcbs s)" by (simp add: p0(3))
  have "frame_once v (queue_procs s) (pcbs s1)" by (rule frame_once_less [OF assms(4) _ assms(3)]) (simp add: at)
  then have "pcbs s' ! p = (pcbs s ! p)\<lparr>page_table := (if p \<in> set (queue_procs s) \<or> r = Of_pcb p
      then forget_frame v (page_table (pcbs s ! p)) else page_table (pcbs s ! p))\<rparr>" if "p < length (pcbs s)" for p
    using forget_first_once [of v "queue_procs s" "pcbs s1" p] assms(3) that len by (simp add: assms(5) Of_pcb at)
  moreover have "length (pcbs s') = length (pcbs s)" by (simp add: assms(5) len)
  ultimately show ?thesis using assms(6) p0(4) by (simp add: forgets_def Of_pcb)
qed

lemma line_used_scan:
  assumes "increment_lastused cfg l s = Some s'" and "l mod 3 \<noteq> 0"
  shows "lru_scan (shellmem s') fs v = lru_scan (shellmem s) fs v"
proof -
  have first: "f * FRAME_SIZE \<noteq> nat l" if "0 \<le> l" for f
  proof
    assume "f * FRAME_SIZE = nat l"
    then have "l = int (f * 3)" using that by (simp add: FRAME_SIZE_def)
    then show False using assms(2) by simp
  qed
  have "rd (shellmem s') (f * FRAME_SIZE) = rd (shellmem s) (f * FRAME_SIZE)" for f
    using assms(1) first [of f] by (auto simp: increment_lastused_def Let_def bind_eq_Some_conv wr_def rd_def nth_list_update split: if_splits)
  then show ?thesis by (induction fs arbitrary: v) simp_all
qed

text \<open>
  C17: On a page fault without a free line, the victim is a frame whose first line has the smallest \<open>last_used\<close>; exactly its
  three lines are freed and no variable changes. The faulting process and the processes of the ready queue forget the
  frame, and nothing else of their control blocks changes, provided that no two entries of the tables in the queue are
  the same frame. This is not the least recently used frame: executing the second or third line of a
  page, just before, does not change the choice, since only the time of the first line counts.
\<close>

theorem page_fault_evicts_lru:
  assumes "frames_ok cfg s" and "table_ok r s" and "\<And>v. v < FRAME_STORE_SIZE cfg \<Longrightarrow> frame_once (int v) (queue_procs s) (pcbs s)"
  shows "\<exists>v s'. pick_victim_frame cfg r s = Some (v, s') \<and> v < FRAME_STORE_SIZE cfg \<and>
    (\<forall>f < FRAME_STORE_SIZE cfg. last_used (shellmem s ! (v * FRAME_SIZE)) \<le> last_used (shellmem s ! (f * FRAME_SIZE))) \<and>
    shellmem s' = overwrite (shellmem s) (v * FRAME_SIZE) (replicate FRAME_SIZE \<lparr>var = NONE, val = NONE, last_used = 0\<rparr>) \<and>
    forgets (int v) r s s' \<and> queue_procs s' = queue_procs s \<and> a2_vars cfg s' = a2_vars cfg s \<and>
    (\<forall>l before. increment_lastused cfg l before = Some s \<and> l mod 3 \<noteq> 0 \<longrightarrow>
       lru_scan (shellmem before) [0..<FRAME_STORE_SIZE cfg] 0 = Some v)"
proof -
  obtain v s' t s1 where v: "pick_victim_frame cfg r s = Some (v, s')" "v < FRAME_STORE_SIZE cfg"
    "\<forall>f < FRAME_STORE_SIZE cfg. last_used (shellmem s ! (v * FRAME_SIZE)) \<le> last_used (shellmem s ! (f * FRAME_SIZE))"
    "shellmem s' = take (v * FRAME_SIZE) (shellmem s) @
      replicate FRAME_SIZE \<lparr>var = NONE, val = NONE, last_used = 0\<rparr> @ drop (v * FRAME_SIZE + FRAME_SIZE) (shellmem s)"
    "lru_scan (shellmem s) [0..<FRAME_STORE_SIZE cfg] 0 = Some v" "qnodes s' = qnodes s" "qhead s' = qhead s"
    "table_get r s = Some t" "table_put r (forget_frame (int v) t) s = Some s1"
    "pcbs s' = forget_first (int v) (nodes_procs (qnodes s) (ready_list s)) (pcbs s1)" "local_table s' = local_table s1"
    using pick_victim_frame_spec [OF assms(1,2)] by blast
  have "forgets (int v) r s s'"
    by (rule pick_victim_forgets [OF v(8,9)]) (use v(2,10,11) assms(3) in \<open>simp_all add: queue_procs_def\<close>)
  have mem: "shellmem s' = overwrite (shellmem s) (v * FRAME_SIZE) (replicate FRAME_SIZE \<lparr>var = NONE, val = NONE, last_used = 0\<rparr>)"
    using v(4) by (simp add: overwrite_def)
  have b: "v * FRAME_SIZE + FRAME_SIZE \<le> THRESHOLD cfg" by (rule frame_bound [OF v(2)])
  have l: "THRESHOLD cfg \<le> length (shellmem s)" using assms(1) by (simp add: frames_ok_def SHELL_MEM_LENGTH_def)
  have "same_store cfg s s'"
    unfolding same_store_def mem using b l by (auto intro!: length_overwrite overwrite_beyond)
  then have "a2_vars cfg s' = a2_vars cfg s" using same_store_vars by blast
  moreover have "queue_procs s' = queue_procs s" using v(6,7) by (simp add: queue_procs_def ready_list_def)
  moreover have "\<forall>l before. increment_lastused cfg l before = Some s \<and> l mod 3 \<noteq> 0 \<longrightarrow>
       lru_scan (shellmem before) [0..<FRAME_STORE_SIZE cfg] 0 = Some v" using line_used_scan v(5) by metis
  ultimately show ?thesis using v(1-3) mem \<open>forgets (int v) r s s'\<close> by blast
qed

definition two_procs :: "(string \<Rightarrow> string option) a2" where
  \<comment> \<open>two processes with a page each; the last line executed is the second line of the second page\<close>
  "two_procs = (a2_fresh small_cfg [])\<lparr>qnodes := [Some \<lparr>node_pcb = 0, node_next = Some 1\<rparr>, Some \<lparr>node_pcb = 1, node_next = None\<rparr>],
     qhead := Some 0,
     pcbs := map (\<lambda>i. \<lparr>priority = False, pid = i + 1, PC = i * 3, job_length_score = 0, page_table = i # replicate 19 (-1), fp = 0, filename = ''p''\<rparr>) [0, 1],
     shellmem := map (\<lambda>u. \<lparr>var = ''p'', val = ''echo'', last_used = u\<rparr>) [5, 6, 7, 3, 8, 4] @ replicate 4 \<lparr>var = NONE, val = NONE, last_used = 0\<rparr>,
     timer := 8\<rparr>"

theorem page_fault_evicts_lru_witness:
  "\<exists>s'. pick_victim_frame small_cfg Local two_procs = Some (1, s') \<and> var (shellmem s' ! 2) = ''p'' \<and> var (shellmem s' ! 3) = NONE \<and>
     page_table (pcbs s' ! 0) = 0 # replicate 19 (-1) \<and> page_table (pcbs s' ! 1) = replicate 20 (-1)"
proof -
  let ?s = two_procs
  have fld: "qnodes ?s = [Some \<lparr>node_pcb = 0, node_next = Some 1\<rparr>, Some \<lparr>node_pcb = 1, node_next = None\<rparr>]" "qhead ?s = Some 0"
    "length (pcbs ?s) = 2" "page_table (pcbs ?s ! 0) = 0 # replicate 19 (-1)" "page_table (pcbs ?s ! Suc 0) = 1 # replicate 19 (-1)"
    "length (shellmem ?s) = 10" "local_table ?s = replicate 20 (-1)"
    by (simp_all add: two_procs_def PAGE_TABLE_SIZE_def)
  have lu: "last_used (shellmem ?s ! 0) = 5" "last_used (shellmem ?s ! 3) = 3" "var (shellmem ?s ! 2) = ''p''" by (simp_all add: two_procs_def)
  have cfg: "FRAME_STORE_SIZE small_cfg = 2" "SHELL_MEM_LENGTH small_cfg = 10" by (simp_all add: FRAME_STORE_SIZE_def SHELL_MEM_LENGTH_def small_cfg_def FRAME_SIZE_def)
  have "linked (qnodes ?s) (qhead ?s) [0, 1]" "distinct [0 :: nat, 1]" by (simp_all add: fld node_at_def rd_def)
  then have rq: "ready_ok ?s \<and> ready_list ?s = [0, 1]" by (intro ready_okI) simp_all
  have procs: "queue_procs ?s = [0, 1]" using rq by (simp add: queue_procs_def nodes_procs_def fld node_at_def rd_def)
  have "procs_ok ?s" by (auto simp: procs_ok_def fld node_at_def rd_def less_Suc_eq nth_Cons' split: if_splits)
  then have ok: "frames_ok small_cfg ?s" using rq by (simp add: frames_ok_def cfg fld)
  have t: "table_ok Local ?s" by (simp add: table_ok_def table_get_def fld PAGE_TABLE_SIZE_def)
  have n: "(c # replicate 19 (-1)) ! j = int v \<longleftrightarrow> j = 0 \<and> c = int v" if "j < 20" for c :: int and j v
    using that by (cases j) auto
  have once: "frame_once (int v) (queue_procs ?s) (pcbs ?s)" for v
    unfolding frame_once_def procs by (auto simp: fld n)
  obtain v s' where r: "pick_victim_frame small_cfg Local ?s = Some (v, s')" "v < 2"
    "\<forall>f < 2. last_used (shellmem ?s ! (v * 3)) \<le> last_used (shellmem ?s ! (f * 3))"
    "shellmem s' = overwrite (shellmem ?s) (v * 3) (replicate 3 \<lparr>var = NONE, val = NONE, last_used = 0\<rparr>)" "forgets (int v) Local ?s s'"
    using page_fault_evicts_lru [OF ok t once] by (auto simp: cfg FRAME_SIZE_def)
  have "v = 1" using r(2) r(3) [rule_format, of 1] lu by (cases "v = 0") auto
  moreover have "shellmem s' ! 2 = shellmem ?s ! 2" "var (shellmem s' ! 3) = NONE"
    unfolding r(4) \<open>v = 1\<close> overwrite_def by (simp_all add: nth_append fld)
  moreover have "page_table (pcbs s' ! 0) = 0 # replicate 19 (-1)" "page_table (pcbs s' ! 1) = -1 # replicate 19 (-1)"
    using r(5) \<open>v = 1\<close> by (simp_all add: forgets_def fld procs forget_frame_def)
  moreover have "-1 # replicate 19 (-1) = replicate 20 (-1 :: int)" by (simp flip: replicate_Suc)
  ultimately show ?thesis using r(1) lu(3) by simp
qed

text \<open>
  C18: Loading a page of a script without a final newline puts its next three lines, padded with
  \<open>none\<close>, into one frame, records the frame in the page table and leaves the stream at the lines
  after them. The frame is the first hole, or else one whose first line has the smallest \<open>last_used\<close>. No variable changes.
\<close>

theorem page_load_brings_next_lines:
  assumes "frames_ok cfg s" and "f < length (streams s)"
    and "reads (SHELL_MEM_LENGTH cfg) (streams s ! f) ls" and "table_ok r s" and "0 \<le> pg" and "pg < int PAGE_TABLE_SIZE"
    and "\<And>i. scan_var NONE (shellmem s) 0 (THRESHOLD cfg) = Some i \<Longrightarrow> i mod 3 = 0 \<and> i + 3 \<le> THRESHOLD cfg"
  shows "\<exists>v s' t st. load_page_into_frame_store cfg f name r pg s = Some (0, s') \<and> v < FRAME_STORE_SIZE cfg \<and>
    shellmem s' = overwrite (shellmem s) (v * 3) (page_slots name (timer s) 3 ls) \<and>
    table_get r s' = Some t \<and> t ! nat pg = int v \<and>
    streams s' = (streams s)[f := st] \<and> left_in (SHELL_MEM_LENGTH cfg) st (drop 3 ls) \<and>
    (case scan_var NONE (shellmem s) 0 (THRESHOLD cfg) of Some i \<Rightarrow> i = v * 3
     | None \<Rightarrow> (\<forall>g < FRAME_STORE_SIZE cfg. last_used (shellmem s ! (v * 3)) \<le> last_used (shellmem s ! (g * 3)))) \<and>
    a2_vars cfg s' = a2_vars cfg s"
proof -
  obtain v s' t st where l: "load_page_into_frame_store cfg f name r pg s = Some (0, s')" "v < FRAME_STORE_SIZE cfg"
    "shellmem s' = overwrite (shellmem s) (v * 3) (page_slots name (timer s) 3 ls)"
    "table_get r s' = Some t" "t ! nat pg = int v"
    "streams s' = (streams s)[f := st]" "left_in (SHELL_MEM_LENGTH cfg) st (drop 3 ls)"
    "case scan_var NONE (shellmem s) 0 (THRESHOLD cfg) of Some i \<Rightarrow> i = v * 3
     | None \<Rightarrow> (\<forall>g < FRAME_STORE_SIZE cfg. last_used (shellmem s ! (v * 3)) \<le> last_used (shellmem s ! (g * 3)))"
    using load_page_spec [OF assms] by blast
  have b: "v * 3 + 3 \<le> THRESHOLD cfg" using frame_bound [OF l(2)] by (simp add: FRAME_SIZE_def)
  have n: "THRESHOLD cfg \<le> length (shellmem s)" using assms(1) by (simp add: frames_ok_def SHELL_MEM_LENGTH_def)
  have "same_store cfg s s'"
    unfolding same_store_def l(3) using b n by (auto intro!: length_overwrite overwrite_beyond)
  then show ?thesis using l same_store_vars by blast
qed

theorem page_load_brings_next_lines_witness:
  "\<exists>v s'. load_page_into_frame_store small_cfg 0 ''p'' Local 0 (a2_fresh small_cfg [opened (''a'' @ nl @ ''b'')]) = Some (0, s') \<and>
     v < 2 \<and> val (shellmem s' ! (v * 3)) = ''a'' @ nl \<and> val (shellmem s' ! (v * 3 + 1)) = ''b'' \<and>
     val (shellmem s' ! (v * 3 + 2)) = NONE"
proof -
  let ?s = "a2_fresh small_cfg [opened (''a'' @ nl @ ''b'')]"
  have st: "streams ?s = [opened (''a'' @ nl @ ''b'')]" "shellmem ?s = replicate 10 \<lparr>var = NONE, val = NONE, last_used = 0\<rparr>"
    by (simp_all add: small_cfg_def SHELL_MEM_LENGTH_def)
  have rd: "reads (SHELL_MEM_LENGTH small_cfg) (streams ?s ! 0) [''a'' @ nl, ''b'']"
    by (simp add: reads_def opened_def small_cfg_def SHELL_MEM_LENGTH_def nl_def)
  have t: "table_ok Local ?s" by (simp add: table_ok_def table_get_def a2_fresh_def a2_mem_init_def)
  have hole: "scan_var NONE (shellmem ?s) 0 (THRESHOLD small_cfg) = Some 0"
  proof -
    have "THRESHOLD small_cfg = Suc 5" by (simp add: small_cfg_def)
    from this show ?thesis unfolding st(2) \<open>THRESHOLD small_cfg = Suc 5\<close> scan_var.simps by simp
  qed
  obtain v s' where "load_page_into_frame_store small_cfg 0 ''p'' Local 0 ?s = Some (0, s')" "v < FRAME_STORE_SIZE small_cfg"
    "shellmem s' = overwrite (shellmem ?s) (v * 3) (page_slots ''p'' (timer ?s) 3 [''a'' @ nl, ''b''])"
    using page_load_brings_next_lines [OF small_frames _ rd t, of 0 "''p''"] hole
    by (auto simp: st small_cfg_def PAGE_TABLE_SIZE_def)
  moreover have "v * 3 \<le> length (shellmem ?s)" using calculation(2) by (simp add: FRAME_STORE_SIZE_def FRAME_SIZE_def small_cfg_def SHELL_MEM_LENGTH_def)
  then have "overwrite (shellmem ?s) (v * 3) (page_slots ''p'' (timer ?s) 3 [''a'' @ nl, ''b'']) ! (v * 3 + k)
      = page_slots ''p'' (timer ?s) 3 [''a'' @ nl, ''b''] ! k" if "k < 3" for k
    using that by (intro overwrite_at) simp_all
  then have at: "shellmem s' ! (v * 3 + k) = page_slots ''p'' (timer ?s) 3 [''a'' @ nl, ''b''] ! k" if "k < 3" for k
    using that calculation(3) by simp
  have "page_slots ''p'' (timer ?s) 3 [''a'' @ nl, ''b''] = [\<lparr>var = ''p'', val = ''a'' @ nl, last_used = 0\<rparr>,
      \<lparr>var = ''p'', val = ''b'', last_used = 0\<rparr>, \<lparr>var = ''p'', val = NONE, last_used = 0\<rparr>]"
    by (simp add: page_slots_def eval_nat_numeral)
  then have "val (shellmem s' ! (v * 3)) = ''a'' @ nl" "val (shellmem s' ! (v * 3 + 1)) = ''b''"
    "val (shellmem s' ! (v * 3 + 2)) = NONE"
    using at [of 0] at [of 1] at [of 2] by simp_all
  moreover have "v < 2" using calculation(2) by (simp add: FRAME_STORE_SIZE_def FRAME_SIZE_def small_cfg_def)
  ultimately show ?thesis by blast
qed

text \<open>
  C25: Commands chained with semicolons run one after the other, until one returns -1, with the words
  of the earlier commands still in the array \<open>words\<close> behind those of the current one.
\<close>

theorem a2_chained_commands:
  assumes "cs \<noteq> []" and "\<forall>c \<in> set cs. c \<noteq> [] \<and> length c \<le> 100 \<and> (\<forall>w \<in> set c. token w)"
    and "length (chain_line cs) \<le> 1000"
  shows "a2_parseInput cfg h (Suc fuel) (chain_line cs) s
    = run_chain (a2_interpreter cfg h (a2_parseInput cfg h fuel) fuel) (replicate 100 None) cs s"
proof -
  obtain w ws cs' where c: "cs = (w # ws) # cs'" "token w"
    using assms(1,2) by (cases cs; cases "hd cs") auto
  have "\<exists>t. chain_line cs = w @ t" using c by (cases ws; cases cs') (auto simp: chain_line_def)
  then have "a1_skip 0 (chain_line cs) = (0, chain_line cs)" using a1_skip_token [OF c(2)] by auto
  then show ?thesis
    using split_loop_chain_line [of cs "replicate 100 None" 0] assms by simp
qed

theorem a2_chained_commands_witness:
  "a2_parseInput small_cfg files_host 1 (''set x 1;print x'' @ nl) (a2_fresh small_cfg [])
   = Ret 0 (puts ''1'' (a2_mem_set_value small_cfg ''x'' ''1'' (a2_fresh small_cfg [])))"
proof -
  let ?s = "a2_fresh small_cfg []"
  let ?cs = "[[''set'', ''x'', ''1''], [''print'', ''x'']]"
  have "a2_ok small_cfg ?s" "a2_vars small_cfg ?s = Map.empty" "a2_room small_cfg ?s = 4"
    by (simp_all add: a2_fresh_def a2_mem_init_ok) (simp add: small_cfg_def)
  then have "a2_vars small_cfg (a2_mem_set_value small_cfg ''x'' ''1'' ?s) ''x'' = Some ''1''"
    by (simp add: a2v.set_vars NONE_def)
  then have get: "a2_mem_get_value small_cfg ''x'' (a2_mem_set_value small_cfg ''x'' ''1'' ?s) = Some ''1''"
    by (simp add: a2_vars_def vars_in_def NONE_def a2_mem_get_value_def)
  have "a2_parseInput small_cfg files_host (Suc 0) (chain_line ?cs) ?s
      = run_chain (a2_interpreter small_cfg files_host (a2_parseInput small_cfg files_host 0) 0) (replicate 100 None) ?cs ?s"
    by (rule a2_chained_commands) (simp_all add: token_def chain_line_def nl_def)
  then show ?thesis
    using get
    by (simp add: chain_line_def words_of_def a2_interpreter_def strip_words_def A2_MAX_ARGS_SIZE_def with_word_def
        a2_set_def a2_print_def Let_def upt_conv_Cons eval_nat_numeral
        del: a2_parseInput.simps replicate_Suc)
qed

text \<open>
  An empty command, after any number of blanks, sends the loop back to its test with nothing changed. That it then never
  ends is an induction over its rounds: a round of a loop that ends has another one after it.
\<close>

lemma skip_blanks_replicate: "skip_blanks a (replicate k CHR '' '' @ CHR '';'' # r) = (a + k, CHR '';'' # r)"
  by (induction k arbitrary: a) simp_all

lemma split_loop_again:
  "split_loop run a rest ws w s = Some x \<Longrightarrow> a < 1000 \<and> rest = CHR '';'' # r \<longrightarrow> False"
  by (erule split_loop.raw_induct [rotated]) fastforce

lemma split_loop_empty:
  assumes "a + k < 1000"
  shows "split_loop run a (replicate k CHR '' '' @ CHR '';'' # r) ws w s = None"
proof -
  have none: "split_loop run b (CHR '';'' # r) ws w s = None" if "b < 1000" for b
    using split_loop_again [of run b "CHR '';'' # r" ws w s _ r] that by (cases "split_loop run b (CHR '';'' # r) ws w s") auto
  have "hd (replicate k CHR '' '' @ CHR '';'' # r) \<noteq> CHR 0x0A" by (cases k) auto
  then show ?thesis
    using assms by (subst split_loop.simps) (simp add: skip_blanks_replicate none)
qed

fun chain_prefix :: "string list list \<Rightarrow> string" where
  \<comment> \<open>commands, each with its semicolon\<close>
  "chain_prefix [] = []"
| "chain_prefix (c # cs) = line_of c @ CHR '';'' # chain_prefix cs"

fun run_then_hang :: "(string option list \<Rightarrow> nat \<Rightarrow> 's \<Rightarrow> (int, 's) outcome) \<Rightarrow> string option list \<Rightarrow> string list list \<Rightarrow>
   's \<Rightarrow> (int, 's) outcome" where
  \<comment> \<open>the commands in order, until one returns -1; behind the last one the line does not end\<close>
  "run_then_hang run ws [] s = Unfinished"
| "run_then_hang run ws (c # cs) s =
     seq (run (words_of ws c) (length c) s) (\<lambda>e s.
       if e = -1 then Ret e s else run_then_hang run (strip_words (length c) (words_of ws c)) cs s)"

lemma a1_skip_blanks: "a + k < 1000 \<Longrightarrow> a1_skip a (replicate k CHR '' '' @ CHR '';'' # r) = (a + k, CHR '';'' # r)"
  by (induction k arbitrary: a) simp_all

lemma split_line_hangs:
  assumes "\<forall>c \<in> set cs. c \<noteq> [] \<and> length c \<le> length ws \<and> (\<forall>w \<in> set c. token w)" and "a + length (chain_prefix cs) + k < 1000"
    and "(a', rest) = a1_skip a (chain_prefix cs @ replicate k CHR '' '' @ CHR '';'' # r)"
  shows "split_line run a' rest ws 0 s = run_then_hang run ws cs s"
  using assms
proof (induction cs arbitrary: a a' rest ws s)
  case Nil
  then have "split_loop run a' rest ws 0 s = None" using split_loop_empty [of "a + k" 0 run r ws 0 s] by (simp add: a1_skip_blanks)
  then show ?case by (simp add: split_line_def)
next
  case (Cons c cs)
  let ?rest = "chain_prefix cs @ replicate k CHR '' '' @ CHR '';'' # r" and ?ws = "strip_words (length c) (words_of ws c)"
  obtain w ws' where c: "c = w # ws'" "token w" using Cons.prems(1) by (cases c) auto
  have "\<exists>t. line_of c @ CHR '';'' # ?rest = w @ t" using c by (cases ws') auto
  then have skip: "a' = a" "rest = line_of c @ CHR '';'' # ?rest" using a1_skip_token [OF c(2)] Cons.prems(3) by auto
  have sw: "length ?ws = length ws" using Cons.prems(1) by (auto simp: strip_words_def min_def)
  obtain a3 r3 where r3: "a1_skip (Suc (a + length (line_of c))) ?rest = (a3, r3)" by (cases "a1_skip (Suc (a + length (line_of c))) ?rest")
  have "split_line run a3 r3 ?ws 0 t = run_then_hang run ?ws cs t" for t
    by (rule Cons.IH [of _ "Suc (a + length (line_of c))"]) (use Cons.prems(1,2) sw r3 in auto)
  then show ?case
    using split_loop_command [of c "[]" ws a run s ?rest] Cons.prems(1,2) skip r3
    by (simp add: words_of_def cong: if_cong prod.case_cong)
qed

text \<open>
  C33: A line with an empty command is never finished: the commands before it run, in order, until one returns -1, and
  then the splitter makes an empty word, goes back to the same test and stays there. The empty command may be the
  first of the line, and blanks may precede its semicolon; the fuel, which bounds only the nesting of scripts, is arbitrary.
\<close>

theorem a2_empty_command_hangs:
  assumes "\<forall>c \<in> set cs. c \<noteq> [] \<and> length c \<le> 100 \<and> (\<forall>w \<in> set c. token w)" and "length (chain_prefix cs) + k < 1000"
  shows "a2_parseInput cfg h (Suc fuel) (chain_prefix cs @ replicate k CHR '' '' @ CHR '';'' # rest) s
      = run_then_hang (a2_interpreter cfg h (a2_parseInput cfg h fuel) fuel) (replicate 100 None) cs s \<and>
    split_loop run k (CHR '';'' # rest) ws w s' = None"
proof -
  let ?line = "chain_prefix cs @ replicate k CHR '' '' @ CHR '';'' # rest"
  obtain a' r where "a1_skip 0 ?line = (a', r)" by (cases "a1_skip 0 ?line")
  then show ?thesis
    using split_line_hangs [of cs "replicate 100 None" 0 k a' r rest] assms split_loop_empty [of k 0 run rest ws w s'] by simp
qed

theorem a2_empty_command_hangs_witness:
  "a2_parseInput small_cfg files_host 1 (''set x 1; ;print x'' @ nl) (a2_fresh small_cfg []) = Unfinished \<and>
   (\<forall>run. split_loop run 1 (CHR '';'' # ''print x'' @ nl) [] 0 (a2_fresh small_cfg []) = None)"
proof -
  let ?cs = "[[''set'', ''x'', ''1'']]"
  have line: "chain_prefix ?cs @ replicate 1 CHR '' '' @ CHR '';'' # (''print x'' @ nl) = ''set x 1; ;print x'' @ nl" by simp
  have t: "\<forall>c \<in> set ?cs. c \<noteq> [] \<and> length c \<le> 100 \<and> (\<forall>w \<in> set c. token w)" "length (chain_prefix ?cs) + 1 < 1000" by (simp_all add: token_def)
  note hang = a2_empty_command_hangs [OF t, where rest = "''print x'' @ nl" and s = "a2_fresh small_cfg []" and cfg = small_cfg
      and h = files_host and fuel = 0, unfolded line]
  have "run_then_hang (a2_interpreter small_cfg files_host (a2_parseInput small_cfg files_host 0) 0) (replicate 100 None) ?cs (a2_fresh small_cfg []) = Unfinished"
    by (simp add: words_of_def a2_interpreter_def strip_words_def A2_MAX_ARGS_SIZE_def with_word_def
        a2_set_def Let_def upt_conv_Cons eval_nat_numeral del: a2_parseInput.simps replicate_Suc)
  then show ?thesis unfolding One_nat_def
    by (intro conjI allI trans [OF hang [THEN conjunct1, unfolded One_nat_def]] hang [THEN conjunct2, unfolded One_nat_def])
qed

text \<open>
  \<open>run\<close> of a script that does not exist says nothing: it looks for the code 11, while
  \<open>process_initialize\<close> answers 1.
\<close>

theorem a2_run_missing_script:
  assumes "os_open_read h script (a2_host s) = None" and "is_ready_empty s" and "\<not> active s"
  shows "a2_run cfg h parse (Suc fuel) script s = Ret 1 s"
  using assms by (simp add: a2_run_def process_initialize_def FILE_DOES_NOT_EXIST_def schedule_by_policy_def)

theorem a2_run_missing_script_witness:
  "a2_run small_cfg files_host (\<lambda>l s. Ret 0 s) 1 ''nofile'' (a2_fresh small_cfg []) = Ret 1 (a2_fresh small_cfg [])"
  unfolding One_nat_def by (rule a2_run_missing_script) (simp_all add: files_host_def is_ready_empty_def)

text \<open>A stream whose remaining lines all end with a newline: \<open>fgets\<close> fails once before the end of file is seen.\<close>

definition ends_nl :: "nat \<Rightarrow> stream \<Rightarrow> string list \<Rightarrow> bool" where
  "ends_nl n st ls \<longleftrightarrow> \<not> st_eof st \<and> file_lines (drop (st_pos st) (st_text st)) = ls @ [[]] \<and> (\<forall>l \<in> set ls. length l < n - 1)"

lemma gets_nl_line:
  assumes "ends_nl n st (l # ls)"
  shows "\<exists>st'. stream_gets n st = (Some l, st') \<and> ends_nl n st' ls"
proof -
  let ?rest = "drop (st_pos st) (st_text st)"
  have fl: "file_lines ?rest = l # ls @ [[]]" using assms by (simp add: ends_nl_def)
  have "length (List.hd (file_lines ?rest)) < n - 1" using assms fl by (simp add: ends_nl_def)
  from read_line_file_lines [OF this]
  obtain r e where r: "read_line (n - 1) ?rest = (l, r, e)" "if e then r = [] \<and> ls @ [[]] = [] else ls @ [[]] = file_lines r"
    unfolding fl list.sel by blast
  have "?rest = l @ r" using read_line_split [OF r(1)] .
  then have dr: "drop (st_pos st + length l) (st_text st) = r" by (metis add.commute append_eq_conv_conj drop_drop)
  have "\<not> e" "file_lines r = ls @ [[]]" using r(2) by (simp_all split: if_splits)
  then show ?thesis using r(1) dr assms by (simp add: stream_gets_def ends_nl_def)
qed

lemma gets_nl_end:
  assumes "ends_nl n st []" and "1 < n"
  shows "stream_gets n st = (None, st\<lparr>st_eof := True\<rparr>)"
proof -
  have "drop (st_pos st) (st_text st) = []" using assms(1) by (cases "drop (st_pos st) (st_text st)") (auto simp: ends_nl_def split: if_splits)
  moreover obtain m where "n - 1 = Suc m" using assms(2) by (cases "n - 1") auto
  ultimately show ?thesis by (simp add: stream_gets_def)
qed

lemma load_nothing_more:
  assumes "0 < k" and "k < 3" and "i + 3 \<le> THRESHOLD cfg" and "THRESHOLD cfg \<le> length (shellmem s)" and "f < length (streams s)"
    and "ends_nl (SHELL_MEM_LENGTH cfg) (streams s ! f) []"
  shows "load_lines cfg f name r pg i (i + k) 0 s = Some (0, s\<lparr>streams := (streams s)[f := (streams s ! f)\<lparr>st_eof := True\<rparr>],
    shellmem := overwrite (shellmem s) (i + Suc k) (replicate (2 - k) \<lparr>var = name, val = NONE, last_used = 0\<rparr>)\<rparr>)"
proof -
  let ?s = "s\<lparr>streams := (streams s)[f := (streams s ! f)\<lparr>st_eof := True\<rparr>]\<rparr>"
  have n: "1 < SHELL_MEM_LENGTH cfg" using assms(3) by (simp add: SHELL_MEM_LENGTH_def)
  have "load_lines cfg f name r pg i (i + k) 0 s = load_lines cfg f name r pg i (i + Suc k) 0 ?s"
    using assms gets_nl_end [OF assms(6) n] by (subst load_lines.simps) (simp add: ends_nl_def FRAME_SIZE_def)
  also have "\<dots> = Some (0, ?s\<lparr>shellmem := overwrite (shellmem s) (i + Suc k) (replicate (3 - Suc k) \<lparr>var = name, val = NONE, last_used = 0\<rparr>)\<rparr>)"
    using assms pad_page_spec [of "Suc k" i ?s name] by (subst load_lines.simps) simp
  finally show ?thesis by (simp add: numeral_3_eq_3 numeral_2_eq_2)
qed

lemma load_first_line:
  assumes i: "i < THRESHOLD cfg" "i < length (shellmem s)" and f: "f < length (streams s)"
    and g: "\<not> st_eof (streams s ! f)" "stream_gets (SHELL_MEM_LENGTH cfg) (streams s ! f) = (Some l, st)"
    and r: "table_ok r s" and pg: "0 \<le> pg" "pg < int PAGE_TABLE_SIZE"
  shows "\<exists>s1. load_lines cfg f name r pg i i 21 s = load_lines cfg f name r pg i (i + 1) 0 s1 \<and>
    shellmem s1 = (shellmem s)[i := \<lparr>var = name, val = l, last_used = timer s\<rparr>] \<and> streams s1 = (streams s)[f := st] \<and> timer s1 = timer s \<and>
    (\<forall>r'. table_ok r' s \<longrightarrow> table_ok r' s1)"
proof -
  let ?s = "s\<lparr>streams := (streams s)[f := st], shellmem := (shellmem s)[i := \<lparr>var = name, val = l, last_used = timer s\<rparr>]\<rparr>"
  obtain t where t: "table_get r s = Some t" "length t = PAGE_TABLE_SIZE" using r by (auto simp: table_ok_def)
  then have ts: "table_get r ?s = Some t" by (cases r) (simp_all add: table_get_def)
  obtain s1 where s1: "table_put r (t[nat pg := int (i div FRAME_SIZE)]) ?s = Some s1" using table_put_total [OF ts] by blast
  have q: "shellmem s1 = shellmem ?s" "streams s1 = streams ?s" "timer s1 = timer s" using table_put_frame [OF s1] by simp_all
  have "load_lines cfg f name r pg i i 21 s = load_lines cfg f name r pg i (i + 1) 0 s1"
    using f g i pg ts t(2) s1 by (subst load_lines.simps) (simp add: write_line_def store_page_number_def FRAME_SIZE_def)
  moreover have "table_ok r' s1" if "table_ok r' s" for r'
    using that s1 t by (cases r; cases r') (auto simp: table_ok_def table_get_def table_put_def rd_def nth_list_update split: if_splits)
  ultimately show ?thesis using q by auto
qed

lemma table_ok_memory [simp]:
  "table_ok r (s\<lparr>streams := x, shellmem := y\<rparr>) = table_ok r s" "table_ok r (s\<lparr>streams := x\<rparr>) = table_ok r s"
  "table_ok r (s\<lparr>shellmem := y\<rparr>) = table_ok r s"
  by (cases r; simp add: table_ok_def table_get_def)+

lemma load_short_page:
  assumes i: "i + 3 \<le> THRESHOLD cfg" and mem: "THRESHOLD cfg \<le> length (shellmem s)" and f: "f < length (streams s)"
    and ls: "ends_nl (SHELL_MEM_LENGTH cfg) (streams s ! f) ls" "ls \<noteq> []" "length ls < 3"
    and r: "table_ok r s" and pg: "0 \<le> pg" "pg < int PAGE_TABLE_SIZE"
  shows "\<exists>s' st. load_lines cfg f name r pg i i 21 s = Some (0, s') \<and> streams s' = (streams s)[f := st] \<and>
    shellmem s' = overwrite (overwrite (shellmem s) i (map (\<lambda>l. \<lparr>var = name, val = l, last_used = timer s\<rparr>) ls)) (i + Suc (length ls))
      (replicate (2 - length ls) \<lparr>var = name, val = NONE, last_used = 0\<rparr>) \<and> (\<forall>r'. table_ok r' s \<longrightarrow> table_ok r' s')"
proof -
  obtain l ls' where l: "ls = l # ls'" using ls(2) by (cases ls) auto
  let ?e = "\<lambda>l. \<lparr>var = name, val = l, last_used = timer s\<rparr> :: a2slot"
  obtain st where st: "stream_gets (SHELL_MEM_LENGTH cfg) (streams s ! f) = (Some l, st)" "ends_nl (SHELL_MEM_LENGTH cfg) st ls'"
    using gets_nl_line ls(1) l by blast
  have ib: "i < THRESHOLD cfg" "i < length (shellmem s)" "\<not> st_eof (streams s ! f)" using i mem ls(1) by (simp_all add: ends_nl_def)
  obtain s1 where s1: "load_lines cfg f name r pg i i 21 s = load_lines cfg f name r pg i (i + 1) 0 s1"
    "shellmem s1 = (shellmem s)[i := ?e l]" "streams s1 = (streams s)[f := st]" "timer s1 = timer s" "\<forall>r'. table_ok r' s \<longrightarrow> table_ok r' s1"
    using load_first_line [OF ib(1,2) f ib(3) st(1) r pg] by blast
  have one: "overwrite (shellmem s) i [?e l] = (shellmem s)[i := ?e l]" using overwrite_Cons [OF ib(2), of "?e l" "[]"] by simp
  show ?thesis
  proof (cases ls')
    case Nil
    have "load_lines cfg f name r pg i (i + 1) 0 s1 = Some (0, s1\<lparr>streams := (streams s1)[f := (streams s1 ! f)\<lparr>st_eof := True\<rparr>],
        shellmem := overwrite (shellmem s1) (i + Suc 1) (replicate (2 - 1) \<lparr>var = name, val = NONE, last_used = 0\<rparr>)\<rparr>)"
      by (rule load_nothing_more) (use i mem f st(2) s1(2,3) Nil in simp_all)
    then show ?thesis using s1 l Nil one
      by (intro exI [of _ "s1\<lparr>streams := (streams s1)[f := (streams s1 ! f)\<lparr>st_eof := True\<rparr>],
        shellmem := overwrite (shellmem s1) (i + Suc 1) (replicate (2 - 1) \<lparr>var = name, val = NONE, last_used = 0\<rparr>)\<rparr>"]) auto
  next
    case (Cons l' ls'')
    then have e: "ls' = [l']" using ls(3) l by (cases ls'') auto
    obtain st' where st': "stream_gets (SHELL_MEM_LENGTH cfg) st = (Some l', st')" "ends_nl (SHELL_MEM_LENGTH cfg) st' []"
      using gets_nl_line st(2) e by blast
    let ?s2 = "s1\<lparr>streams := (streams s1)[f := st'], shellmem := (shellmem s1)[Suc i := ?e l']\<rparr>"
    have two: "overwrite (shellmem s) i [?e l, ?e l'] = (shellmem s1)[Suc i := ?e l']"
      using overwrite_Cons [OF ib(2), of "?e l" "[?e l']"] overwrite_Cons [of "Suc i" "shellmem s1" "?e l'" "[]"] i mem s1(2) by simp
    have "load_lines cfg f name r pg i (i + 1) 0 s1 = load_lines cfg f name r pg i (i + 2) 0 ?s2"
      using i mem f st st' s1(2-4) by (subst load_lines.simps) (simp add: write_line_def FRAME_SIZE_def ends_nl_def)
    moreover have "load_lines cfg f name r pg i (i + 2) 0 ?s2 = Some (0, ?s2\<lparr>streams := (streams ?s2)[f := (streams ?s2 ! f)\<lparr>st_eof := True\<rparr>],
        shellmem := overwrite (shellmem ?s2) (i + Suc 2) (replicate (2 - 2) \<lparr>var = name, val = NONE, last_used = 0\<rparr>)\<rparr>)"
      by (rule load_nothing_more) (use i mem f st'(2) s1(2,3) in simp_all)
    ultimately show ?thesis using s1 l e two
      by (intro exI [of _ "?s2\<lparr>streams := (streams ?s2)[f := (streams ?s2 ! f)\<lparr>st_eof := True\<rparr>]\<rparr>"]) auto
  qed
qed

lemma overwrite_before: "k < j \<Longrightarrow> j \<le> length m \<Longrightarrow> overwrite m j es ! k = m ! k"
  by (simp add: overwrite_def nth_append)

lemma hole_in_frame:
  assumes hole: "scan_var NONE m 0 n = Some i" "i + 3 \<le> n" "n \<le> length m" "\<forall>k < 3. var (m ! (i + k)) = NONE"
    and ls: "ls \<noteq> []" "length ls < 3" and name: "name \<noteq> NONE"
    and m': "m' = overwrite (overwrite m i (map (\<lambda>l. \<lparr>var = name, val = l, last_used = now\<rparr>) ls)) (i + Suc (length ls)) pad" "length pad = 2 - length ls"
  shows "scan_var NONE m' 0 n = Some (i + length ls)" and "length m' = length m" and "\<forall>k < length ls. val (m' ! (i + k)) = ls ! k"
proof -
  let ?es = "map (\<lambda>l. \<lparr>var = name, val = l, last_used = now\<rparr> :: a2slot) ls" let ?m = "overwrite m i ?es"
  have len: "length ?m = length m" using hole(2,3) ls(2) by (intro length_overwrite) simp
  show "length m' = length m"
    unfolding m'(1) using hole(2,3) ls m'(2) len by (subst length_overwrite) simp_all
  have before: "m' ! k = ?m ! k" if "k \<le> i + length ls" for k
    unfolding m'(1) using that hole(2,3) ls(2) len by (intro overwrite_before) simp_all
  have at: "?m ! (i + k) = ?es ! k" if "k < length ls" for k
    using that hole(2,3) by (intro overwrite_at) simp_all
  show val: "\<forall>k < length ls. val (m' ! (i + k)) = ls ! k" using before at by simp
  have "?m ! (i + length ls) = m ! (i + length ls)" using hole(2,3) ls(2) by (intro overwrite_beyond) simp_all
  then have "var (m' ! (i + length ls)) = NONE" using before hole(4) ls(2) by simp
  moreover have "var (m' ! k) \<noteq> NONE" if k: "k < i + length ls" for k
  proof (cases "k < i")
    case True
    then have "m' ! k = m ! k" using before [of k] overwrite_before [of k i m ?es] hole(2,3) by simp
    then show ?thesis using scan_var_Some [OF hole(1)] True by simp
  next
    case False
    then show ?thesis using before [of k] at [of "k - i"] k name by simp
  qed
  moreover obtain j where j: "scan_var NONE m' 0 n = Some j"
    using scan_var_exists [of 0 "i + length ls" n m' NONE] calculation(1) hole(2) ls(2) by auto
  moreover have "j = i + length ls"
    using scan_var_Some [OF j] calculation(1,2) by (metis le0 linorder_neqE_nat)
  ultimately show "scan_var NONE m' 0 n = Some (i + length ls)" by simp
qed

text \<open>
  C32: When the last page of a script has one or two lines and the script ends with a newline, loading that page into
  a free frame leaves a hole in the middle of the frame: the page of the next script starts there and
  reaches into the following frame, while its page table records the frame itself, whose first line is one of the
  first script.
\<close>

theorem a2_final_newline_misplaces_next_page:
  assumes "frames_ok cfg s" and "scan_var NONE (shellmem s) 0 (THRESHOLD cfg) = Some i" and "i mod 3 = 0" and "i + 6 \<le> THRESHOLD cfg"
    and "\<forall>k < 3. var (shellmem s ! (i + k)) = NONE"
    and "f < length (streams s)" and "ends_nl (SHELL_MEM_LENGTH cfg) (streams s ! f) ls" and "length ls = 1 \<or> length ls = 2"
    and "f' < length (streams s)" and "f' \<noteq> f" and "reads (SHELL_MEM_LENGTH cfg) (streams s ! f') ls'"
    and "name \<noteq> NONE" and "table_ok r s" and "table_ok r' s" and "0 \<le> pg" and "pg < int PAGE_TABLE_SIZE" and "0 \<le> pg'" and "pg' < int PAGE_TABLE_SIZE"
  shows "\<exists>s1 s2 t. load_page_into_frame_store cfg f name r pg s = Some (0, s1) \<and>
    load_page_into_frame_store cfg f' name' r' pg' s1 = Some (0, s2) \<and>
    table_get r' s2 = Some t \<and> t ! nat pg' = int (i div 3) \<and> val (shellmem s2 ! i) = ls ! 0 \<and>
    (\<forall>k < 3. val (shellmem s2 ! (i + length ls + k)) = (if k < length ls' then ls' ! k else NONE))"
proof -
  have mem: "THRESHOLD cfg \<le> length (shellmem s)" using assms(1) by (simp add: frames_ok_def SHELL_MEM_LENGTH_def)
  have i: "i + 3 \<le> THRESHOLD cfg" and ls: "ls \<noteq> []" "length ls < 3" using assms(4,8) by auto
  obtain s1 st where s1: "load_lines cfg f name r pg i i 21 s = Some (0, s1)" "streams s1 = (streams s)[f := st]"
    "shellmem s1 = overwrite (overwrite (shellmem s) i (map (\<lambda>l. \<lparr>var = name, val = l, last_used = timer s\<rparr>) ls)) (i + Suc (length ls))
      (replicate (2 - length ls) \<lparr>var = name, val = NONE, last_used = 0\<rparr>)" "\<forall>r'. table_ok r' s \<longrightarrow> table_ok r' s1"
    using load_short_page [OF i mem assms(6,7) ls assms(13,15,16), of name] by blast
  note h = hole_in_frame [OF assms(2) i mem assms(5) ls assms(12) s1(3) length_replicate]
  let ?i = "i + length ls"
  have i2: "?i + 3 \<le> THRESHOLD cfg" using assms(4) ls(2) by simp
  have mem1: "THRESHOLD cfg \<le> length (shellmem s1)" using mem h(2) by simp
  have f': "f' < length (streams s1)" "reads (SHELL_MEM_LENGTH cfg) (streams s1 ! f') ls'" "table_ok r' s1" using assms(9-11,14) s1(2,4) by simp_all
  obtain s2 t where s2: "load_lines cfg f' name' r' pg' ?i ?i 21 s1 = Some (0, s2)"
    "shellmem s2 = overwrite (shellmem s1) ?i (page_slots name' (timer s1) 3 ls')" "table_get r' s1 = Some t"
    "table_get r' s2 = Some (t[nat pg' := int (?i div FRAME_SIZE)])"
    using load_lines_page [OF i2 mem1 f' assms(17,18), of name'] by blast
  have "load_page_into_frame_store cfg f name r pg s = Some (0, s1)" "load_page_into_frame_store cfg f' name' r' pg' s1 = Some (0, s2)"
    using assms(2,6) s1(1) h(1) f'(1) s2(1) by (simp_all add: load_page_into_frame_store_def)
  moreover have "?i div FRAME_SIZE = i div 3" using assms(3) ls(2) by (simp add: FRAME_SIZE_def) presburger
  then have "t[nat pg' := int (?i div FRAME_SIZE)] ! nat pg' = int (i div 3)"
    using f'(3) s2(3) assms(17,18) by (simp add: table_ok_def)
  moreover have "shellmem s2 ! i = shellmem s1 ! i"
    unfolding s2(2) by (rule overwrite_before) (use ls i2 mem1 in \<open>simp_all add: length_greater_0_conv [symmetric] del: length_greater_0_conv\<close>)
  then have "val (shellmem s2 ! i) = ls ! 0" using h(3) [rule_format, of 0] ls(1) by simp
  moreover have "shellmem s2 ! (?i + k) = page_slots name' (timer s1) 3 ls' ! k" if "k < 3" for k
    unfolding s2(2) by (rule overwrite_at) (use that i2 mem1 in simp_all)
  then have "\<forall>k < 3. val (shellmem s2 ! (?i + k)) = (if k < length ls' then ls' ! k else NONE)"
    by (simp add: page_slots_def nth_append)
  ultimately show ?thesis using s2(4) by blast
qed

theorem a2_final_newline_misplaces_next_page_witness:
  "\<exists>s1 s2. load_page_into_frame_store small_cfg 0 ''p'' Local 0
       (a2_fresh small_cfg [opened (''a'' @ nl), opened ''b'']) = Some (0, s1) \<and>
     load_page_into_frame_store small_cfg 1 ''q'' Local 0 s1 = Some (0, s2) \<and>
     local_table s2 ! 0 = 0 \<and> val (shellmem s2 ! 0) = ''a'' @ nl \<and> val (shellmem s2 ! 1) = ''b''"
proof -
  let ?s = "a2_fresh small_cfg [opened (''a'' @ nl), opened ''b'']"
  have cfg: "THRESHOLD small_cfg = 6" "SHELL_MEM_LENGTH small_cfg = 10" by (simp_all add: small_cfg_def SHELL_MEM_LENGTH_def)
  have six: "THRESHOLD small_cfg = Suc 5" by (simp add: small_cfg_def)
  have hole: "scan_var NONE (shellmem ?s) 0 (THRESHOLD small_cfg) = Some 0" unfolding six scan_var.simps by (simp add: cfg)
  have st: "ends_nl (SHELL_MEM_LENGTH small_cfg) (streams ?s ! 0) [''a'' @ nl]" "reads (SHELL_MEM_LENGTH small_cfg) (streams ?s ! 1) [''b'']"
    by (simp_all add: ends_nl_def reads_def opened_def nl_def cfg)
  have t: "table_ok Local ?s" by (simp add: table_ok_def table_get_def)
  have free: "\<forall>k < 3. var (shellmem ?s ! (0 + k)) = NONE" by (simp add: cfg)
  obtain s1 s2 u where "load_page_into_frame_store small_cfg 0 ''p'' Local 0 ?s = Some (0, s1)"
    "load_page_into_frame_store small_cfg 1 ''q'' Local 0 s1 = Some (0, s2)" "table_get Local s2 = Some u" "u ! nat 0 = int (0 div 3)"
    "val (shellmem s2 ! 0) = [''a'' @ nl] ! 0" "\<forall>k < 3. val (shellmem s2 ! (0 + length [''a'' @ nl] + k)) = (if k < length [''b''] then [''b''] ! k else NONE)"
    using a2_final_newline_misplaces_next_page [OF small_frames hole _ _ free _ st(1) _ _ _ st(2) _ t t, of "''p''" 0 0 "''q''"]
    by (auto simp: cfg PAGE_TABLE_SIZE_def NONE_def)
  then show ?thesis by (intro exI [of _ s1] exI [of _ s2]) (force simp: table_get_def)
qed

text \<open>
  \<open>resetmem\<close> removes every variable and leaves the frame store as it is.
\<close>

theorem a2_resetmem_clears_variables:
  assumes "length (shellmem s) = SHELL_MEM_LENGTH cfg"
  shows "\<exists>s'. resetmem cfg s = Ret 0 s' \<and> a2_ok cfg s' \<and> a2_vars cfg s' = Map.empty \<and>
    take (THRESHOLD cfg) (shellmem s') = take (THRESHOLD cfg) (shellmem s)"
proof -
  let ?s = "variable_store_mem_init cfg s"
  have l: "length (shellmem ?s) = SHELL_MEM_LENGTH cfg"
    using assms by (simp add: variable_store_mem_init_def SHELL_MEM_LENGTH_def)
  have "\<forall>i. THRESHOLD cfg \<le> i \<and> i < THRESHOLD cfg + VARMEMSIZE cfg \<longrightarrow> var (shellmem ?s ! i) = NONE"
    using assms by (auto simp: variable_store_mem_init_def SHELL_MEM_LENGTH_def nth_append)
  from fresh_range [OF this] show ?thesis
    using l assms by (simp add: resetmem_def a2_ok_def a2_vars_def SHELL_MEM_LENGTH_def)
      (simp add: variable_store_mem_init_def)
qed

theorem a2_resetmem_clears_variables_witness:
  "\<exists>s'. resetmem small_cfg (a2_mem_set_value small_cfg ''x'' ''1'' (a2_fresh small_cfg [])) = Ret 0 s' \<and>
     a2_vars small_cfg s' = Map.empty"
  using a2_resetmem_clears_variables [of "a2_mem_set_value small_cfg ''x'' ''1'' (a2_fresh small_cfg [])" small_cfg]
  by (auto simp: a2_mem_set_value_def)

end
