(* ===== verification/A2_Turns.thy ===== *)
theory A2_Turns
  imports A2_Props
begin

text \<open>
  The turns of the processes of assignment 2: what \<open>execute_process\<close> does to a script, when no frame has to be evicted,
  against a specification in which a process is its lines, the next of them and the number of its loaded pages.
\<close>

section \<open>The specification\<close>

type_synonym script_state = "string list \<times> nat \<times> nat"

fun turn :: "nat \<Rightarrow> script_state \<Rightarrow> string list \<times> nat \<times> script_state option" where
  \<comment> \<open>at most \<open>q\<close> lines: the lines executed, the page faults, what is left of the process. The page behind the last line
    of a full page is asked for even when the script has none\<close>
  "turn 0 t = ([], 0, Some t)"
| "turn (Suc q) (L, c, m) =
     (let k = (if c div 3 < m then 0 else 1) in
      if c < length L then (case turn q (L, Suc c, m + k) of (ls, k', r) \<Rightarrow> (L ! c # ls, k + k', r))
      else ([], k, None))"

fun turn_weight :: "script_state \<Rightarrow> nat" where
  "turn_weight (L, c, m) = Suc (length L - c)"

abbreviation rest_list :: "script_state option \<Rightarrow> script_state list" where
  "rest_list r \<equiv> (case r of None \<Rightarrow> [] | Some t \<Rightarrow> [t])"

lemma turn_weight_less:
  "turn q t = (ls, k, r) \<Longrightarrow> 0 < q \<Longrightarrow> (\<Sum>u \<leftarrow> rest_list r. turn_weight u) < turn_weight t"
proof (induction q t arbitrary: ls k r rule: turn.induct)
  case (2 q L c m)
  let ?k = "if c div 3 < m then 0 else 1 :: nat"
  show ?case
  proof (cases "c < length L")
    case True
    obtain ls' k' r' where t: "turn q (L, Suc c, m + ?k) = (ls', k', r')" by (metis prod_cases3)
    then have r: "r' = r" using "2.prems" True by (auto simp: Let_def)
    show ?thesis
    proof (cases q)
      case 0
      then show ?thesis using t r True by auto
    next
      case (Suc q')
      then have "(\<Sum>u \<leftarrow> rest_list r'. turn_weight u) < turn_weight (L, Suc c, m + ?k)"
        using "2.IH" [OF refl True t] by simp
      then show ?thesis using r True by simp
    qed
  next
    case False
    then show ?thesis using "2.prems" by (auto simp: Let_def split: if_splits)
  qed
qed simp

lemma sum_list_rotate: "sum_list (map f (rotate k xs)) = (sum_list (map f xs) :: 'b::comm_monoid_add)"
proof (induction k)
  case (Suc k)
  have "sum_list (map f (rotate1 ys)) = sum_list (map f ys)" for ys by (cases ys) (simp_all add: add.commute)
  then show ?case using Suc by simp
qed simp

function turn_order :: "nat \<Rightarrow> script_state list \<Rightarrow> string list" where
  \<comment> \<open>the lines in the order the scheduler runs them: a page fault moves the next process to the end of the queue\<close>
  "turn_order q [] = []"
| "turn_order q (t # ts) =
     (case turn q t of (ls, k, r) \<Rightarrow> ls @ (if q = 0 then [] else turn_order q (rotate k ts @ rest_list r)))"
  by pat_completeness auto
termination
  by (relation "measure (\<lambda>(q, ts). \<Sum>t \<leftarrow> ts. turn_weight t)") (auto simp: sum_list_rotate dest: turn_weight_less [OF sym])

section \<open>What the lines of a script leave alone\<close>

definition a2_user :: "a2_config \<Rightarrow> 'os a2 \<Rightarrow> 'os a2" where
  \<comment> \<open>everything but the kernel and the frame store\<close>
  "a2_user cfg s = s\<lparr>qnodes := [], qhead := None, pcbs := [], pid_counter := 0, shellmem := drop (THRESHOLD cfg) (shellmem s),
     timer := 0, streams := [], local_table := [], active := False, in_background := False\<rparr>"

definition a2_kernel_same :: "a2_config \<Rightarrow> 'os a2 \<Rightarrow> 'os a2 \<Rightarrow> bool" where
  "a2_kernel_same cfg s s' \<longleftrightarrow> qnodes s' = qnodes s \<and> qhead s' = qhead s \<and> pcbs s' = pcbs s \<and> pid_counter s' = pid_counter s \<and>
     length (shellmem s') = length (shellmem s) \<and> take (THRESHOLD cfg) (shellmem s') = take (THRESHOLD cfg) (shellmem s) \<and>
     timer s' = timer s \<and> streams s' = streams s \<and> local_table s' = local_table s \<and> active s' = active s \<and>
     in_background s' = in_background s"

definition a2_quiet :: "a2_config \<Rightarrow> 'os a2_parser \<Rightarrow> (string \<Rightarrow> 'os a2 \<Rightarrow> 'os a2) \<Rightarrow> string list \<Rightarrow> bool" where
  \<comment> \<open>the lines end and act on the state of the shell, as \<open>F\<close> says\<close>
  "a2_quiet cfg parse F ls \<longleftrightarrow> (\<forall>l \<in> set ls. \<forall>s. \<exists>ret s'. parse l s = Ret ret s' \<and> a2_kernel_same cfg s s' \<and>
     a2_user cfg s' = F l (a2_user cfg s))"

section \<open>Processes and frames\<close>

definition store_ok :: "a2_config \<Rightarrow> nat \<Rightarrow> 'os a2 \<Rightarrow> bool" where
  \<comment> \<open>the first \<open>g\<close> frames are in use, the others free\<close>
  "store_ok cfg g s \<longleftrightarrow> length (shellmem s) = SHELL_MEM_LENGTH cfg \<and> 3 * g \<le> THRESHOLD cfg \<and>
     (\<forall>x < 3 * g. var (shellmem s ! x) \<noteq> NONE) \<and> (\<forall>x. 3 * g \<le> x \<and> x < THRESHOLD cfg \<longrightarrow> var (shellmem s ! x) = NONE)"

definition page_held :: "'os a2 \<Rightarrow> string list \<Rightarrow> nat \<Rightarrow> nat \<Rightarrow> bool" where
  \<comment> \<open>frame \<open>v\<close> holds page \<open>i\<close> of the script\<close>
  "page_held s L i v \<longleftrightarrow> (\<forall>k < 3. val (shellmem s ! (3 * v + k)) = (if 3 * i + k < length L then L ! (3 * i + k) else NONE))"

fun proc_rep :: "a2_config \<Rightarrow> nat \<Rightarrow> 'os a2 \<Rightarrow> nat \<Rightarrow> script_state \<Rightarrow> bool" where
  "proc_rep cfg g s p (L, c, m) \<longleftrightarrow> p < length (pcbs s) \<and> length (page_table (pcbs s ! p)) = PAGE_TABLE_SIZE \<and>
     filename (pcbs s ! p) \<noteq> NONE \<and> fp (pcbs s ! p) < length (streams s) \<and>
     left_in (SHELL_MEM_LENGTH cfg) (streams s ! fp (pcbs s ! p)) (drop (3 * m) L) \<and>
     0 < m \<and> 3 * m < length L + 3 \<and> c \<le> 3 * m \<and> c \<le> length L \<and> length L < 60 \<and> NONE \<notin> set L \<and>
     (\<forall>i < m. 0 \<le> page_table (pcbs s ! p) ! i \<and> page_table (pcbs s ! p) ! i < int g \<and>
        page_held s L i (nat (page_table (pcbs s ! p) ! i))) \<and>
     (\<forall>i < PAGE_TABLE_SIZE. m \<le> i \<longrightarrow> page_table (pcbs s ! p) ! i = -1) \<and>
     (\<forall>i j. i < j \<and> j < m \<longrightarrow> page_table (pcbs s ! p) ! i < page_table (pcbs s ! p) ! j) \<and>
     PC (pcbs s ! p) = (if c = 0 then page_table (pcbs s ! p) ! 0 * 3
        else page_table (pcbs s ! p) ! ((c - 1) div 3) * 3 + int ((c - 1) mod 3) + 1)"

declare proc_rep.simps [simp del]

definition pcb_of :: "'os a2 \<Rightarrow> nat \<Rightarrow> nat option" where
  "pcb_of s n = map_option node_pcb (node_at (qnodes s) n)"

definition touches :: "nat \<Rightarrow> nat \<Rightarrow> nat \<Rightarrow> nat \<Rightarrow> 'os a2 \<Rightarrow> 'os a2 \<Rightarrow> bool" where
  \<comment> \<open>of the kernel only the control block \<open>p\<close>, the stream \<open>f\<close>, the node \<open>cur\<close> and lines behind the first \<open>g\<close> frames change\<close>
  "touches p f cur g s s' \<longleftrightarrow> length (pcbs s') = length (pcbs s) \<and> (\<forall>p'. p' \<noteq> p \<longrightarrow> pcbs s' ! p' = pcbs s ! p') \<and>
     length (streams s') = length (streams s) \<and> (\<forall>f'. f' \<noteq> f \<longrightarrow> streams s' ! f' = streams s ! f') \<and>
     (\<forall>x < 3 * g. val (shellmem s' ! x) = val (shellmem s ! x)) \<and> (\<forall>n. n \<noteq> cur \<longrightarrow> pcb_of s' n = pcb_of s n) \<and>
     active s' = active s"

lemma touches_refl: "touches p f cur g s s"
  by (simp add: touches_def)

lemma touches_trans: "touches p f cur g s s1 \<Longrightarrow> touches p f cur g' s1 s2 \<Longrightarrow> g \<le> g' \<Longrightarrow> touches p f cur g s s2"
  by (auto simp: touches_def)

lemma page_held_same: "page_held s L i v \<Longrightarrow> v < g \<Longrightarrow> \<forall>x < 3 * g. val (shellmem s' ! x) = val (shellmem s ! x) \<Longrightarrow> page_held s' L i v"
  by (auto simp: page_held_def)

lemma proc_rep_mono:
  assumes r: "proc_rep cfg g s p t" and q: "pcbs s' ! p = (pcbs s ! p)\<lparr>priority := b\<rparr>" "length (pcbs s) \<le> length (pcbs s')"
    and st: "streams s' ! fp (pcbs s ! p) = streams s ! fp (pcbs s ! p)" "length (streams s) \<le> length (streams s')"
    and v: "\<forall>x < 3 * g. val (shellmem s' ! x) = val (shellmem s ! x)" and g: "g \<le> g'"
  shows "proc_rep cfg g' s' p t"
proof -
  obtain L c m where e: "t = (L, c, m)" by (metis prod_cases3)
  have pg: "0 \<le> page_table (pcbs s ! p) ! i \<and> page_table (pcbs s ! p) ! i < int g' \<and> page_held s' L i (nat (page_table (pcbs s ! p) ! i))"
    if "i < m" for i
  proof -
    have h: "0 \<le> page_table (pcbs s ! p) ! i" "page_table (pcbs s ! p) ! i < int g" "page_held s L i (nat (page_table (pcbs s ! p) ! i))"
      using r that by (simp_all add: e proc_rep.simps)
    then have "nat (page_table (pcbs s ! p) ! i) < g" by linarith
    then show ?thesis using h g page_held_same [OF h(3) _ v] by simp
  qed
  have "p < length (pcbs s')" "fp (pcbs s ! p) < length (streams s')" using r q(2) st(2) by (simp_all add: e proc_rep.simps)
  then show ?thesis using r pg by (simp add: e proc_rep.simps q(1) st(1))
qed

lemma proc_rep_other:
  assumes r: "proc_rep cfg g s p t" and t: "touches p' f cur g s s'" and p: "p \<noteq> p'" "fp (pcbs s ! p) \<noteq> f" and g: "g \<le> g'"
  shows "proc_rep cfg g' s' p t" and "pcbs s' ! p = pcbs s ! p"
proof -
  show same: "pcbs s' ! p = pcbs s ! p" using t p(1) by (simp add: touches_def)
  show "proc_rep cfg g' s' p t"
    by (rule proc_rep_mono [OF r, of _ "priority (pcbs s ! p)"]) (use t p g same in \<open>simp_all add: touches_def\<close>)
qed

section \<open>Finding the page\<close>

lemma page_hit_iff: "0 \<le> v \<Longrightarrow> page_hit pc v \<longleftrightarrow> v * 3 \<le> pc \<and> pc \<le> v * 3 + 3"
proof -
  assume "0 \<le> v"
  have u: "[0..<FRAME_SIZE] = [0, 1, 2]" by (simp add: FRAME_SIZE_def upt_rec)
  show ?thesis using \<open>0 \<le> v\<close> unfolding page_hit_def u by (auto simp: FRAME_SIZE_def Let_def split: option.splits if_splits)
qed

lemma first_hitI: "i < length t \<Longrightarrow> page_hit pc (t ! i) \<Longrightarrow> \<forall>j < i. \<not> page_hit pc (t ! j) \<Longrightarrow> first_hit pc t = Some i"
proof (induction t arbitrary: i)
  case (Cons v vs)
  show ?case
  proof (cases i)
    case (Suc i')
    then have "\<forall>j < i'. \<not> page_hit pc (vs ! j)" "\<not> page_hit pc v" using Cons.prems(3) by auto
    then show ?thesis using Cons Suc by simp
  qed (use Cons in simp)
qed simp

lemma locate_rep:
  assumes "proc_rep cfg g s p (L, c, m)"
  shows "locate_page cfg (Suc n) node p s = Ret (Some ((c - 1) div 3)) s" and "(c - 1) div 3 < m" and "m \<le> PAGE_TABLE_SIZE"
proof -
  let ?t = "page_table (pcbs s ! p)" let ?i = "(c - 1) div 3"
  have r: "p < length (pcbs s)" "length ?t = PAGE_TABLE_SIZE" "0 < m" "3 * m < length L + 3" "c \<le> 3 * m" "length L < 60"
    and fr: "\<forall>i < m. 0 \<le> ?t ! i" and less: "\<forall>i j. i < j \<and> j < m \<longrightarrow> ?t ! i < ?t ! j"
    and pc: "PC (pcbs s ! p) = (if c = 0 then ?t ! 0 * 3 else ?t ! ?i * 3 + int ((c - 1) mod 3) + 1)"
    using assms by (simp_all add: proc_rep.simps)
  show i: "?i < m" using r by linarith
  show m: "m \<le> PAGE_TABLE_SIZE" using r by (simp add: PAGE_TABLE_SIZE_def)
  have "page_hit (PC (pcbs s ! p)) (?t ! ?i)"
    using fr i pc by (auto simp: page_hit_iff)
  moreover have "\<not> page_hit (PC (pcbs s ! p)) (?t ! j)" if j: "j < ?i" for j
  proof -
    have "?t ! j < ?t ! ?i" using less i j by blast
    moreover have "c \<noteq> 0" using j by (cases c) simp_all
    ultimately show ?thesis using fr i j pc by (auto simp: page_hit_iff)
  qed
  ultimately have "first_hit (PC (pcbs s ! p)) ?t = Some ?i" using i m r(2) by (intro first_hitI) auto
  then show "locate_page cfg (Suc n) node p s = Ret (Some ?i) s" using r(1) by (simp add: rd_Some)
qed

section \<open>Loading into a free frame\<close>

lemma scan_hole:
  assumes "store_ok cfg g s"
  shows "scan_var NONE (shellmem s) 0 (THRESHOLD cfg) = (if 3 * g < THRESHOLD cfg then Some (3 * g) else None)"
proof -
  have s: "\<forall>x < 3 * g. var (shellmem s ! x) \<noteq> NONE" "\<forall>x. 3 * g \<le> x \<and> x < THRESHOLD cfg \<longrightarrow> var (shellmem s ! x) = NONE"
    "3 * g \<le> THRESHOLD cfg" using assms by (simp_all add: store_ok_def)
  show ?thesis
  proof (cases "scan_var NONE (shellmem s) 0 (THRESHOLD cfg)")
    case None
    then have "\<not> 3 * g < THRESHOLD cfg" using scan_var_None [of NONE "shellmem s" 0 "THRESHOLD cfg"] s(2) by force
    then show ?thesis using None by simp
  next
    case (Some i)
    then have i: "i < THRESHOLD cfg" "var (shellmem s ! i) = NONE" "\<forall>j < i. var (shellmem s ! j) \<noteq> NONE"
      using scan_var_Some [of NONE "shellmem s" 0 "THRESHOLD cfg" i] by auto
    have "3 * g \<le> i" using i(2) s(1) by (meson not_le)
    moreover have "\<not> 3 * g < i" using i(1,3) s(2) by force
    ultimately show ?thesis using Some i(1) by simp
  qed
qed

definition page_loaded :: "nat \<Rightarrow> nat \<Rightarrow> string \<Rightarrow> string list \<Rightarrow> stream \<Rightarrow> 'os a2 \<Rightarrow> 'os a2" where
  "page_loaded g f name ls st s = s\<lparr>shellmem := overwrite (shellmem s) (3 * g) (page_slots name (timer s) 3 ls), streams := (streams s)[f := st]\<rparr>"

lemma table_put_memory:
  "table_put r t (s\<lparr>streams := x, shellmem := y\<rparr>) = map_option (\<lambda>s'. s'\<lparr>streams := x, shellmem := y\<rparr>) (table_put r t s)"
  by (cases r) (auto simp: table_put_def map_option_bind split: bind_splits)

lemma load_into_hole:
  assumes st: "store_ok cfg g s" "3 * Suc g \<le> THRESHOLD cfg" and f: "f < length (streams s)"
    and ls: "reads (SHELL_MEM_LENGTH cfg) (streams s ! f) ls" and r: "table_get r s = Some t" "length t = PAGE_TABLE_SIZE"
    and pg: "pg < PAGE_TABLE_SIZE"
  shows "\<exists>s1 st. table_put r (t[pg := int g]) s = Some s1 \<and> left_in (SHELL_MEM_LENGTH cfg) st (drop 3 ls) \<and>
    load_page_into_frame_store cfg f name r (int pg) s = Some (0, page_loaded g f name ls st s1)"
proof -
  obtain l ls' where l: "ls = l # ls'" using ls by (cases ls) (auto simp: reads_def)
  obtain st' where st': "stream_gets (SHELL_MEM_LENGTH cfg) (streams s ! f) = (Some l, st')"
    "left_in (SHELL_MEM_LENGTH cfg) st' ls'" using stream_gets_line ls l by blast
  let ?i = "3 * g" let ?e = "\<lparr>var = name, val = l, last_used = timer s\<rparr> :: a2slot"
  let ?s = "s\<lparr>streams := (streams s)[f := st'], shellmem := (shellmem s)[?i := ?e]\<rparr>"
  have mem: "length (shellmem s) = SHELL_MEM_LENGTH cfg" "THRESHOLD cfg \<le> SHELL_MEM_LENGTH cfg"
    using st(1) by (simp_all add: store_ok_def SHELL_MEM_LENGTH_def)
  then have i: "?i < THRESHOLD cfg" "?i < length (shellmem s)" using st(2) by simp_all
  have ts: "table_get r ?s = Some t" using r(1) by (cases r) (simp_all add: table_get_def)
  obtain s1 where s1: "table_put r (t[pg := int g]) s = Some s1" using table_put_total [OF r(1)] by blast
  let ?s1 = "s1\<lparr>streams := (streams s)[f := st'], shellmem := (shellmem s)[?i := ?e]\<rparr>"
  have put: "table_put r (t[pg := int g]) ?s = Some ?s1" using s1 by (simp add: table_put_memory)
  have q: "shellmem s1 = shellmem s" "streams s1 = streams s" "timer s1 = timer s" using table_put_frame [OF s1] by simp_all
  have step: "load_lines cfg f name r (int pg) ?i ?i 21 s = load_lines cfg f name r (int pg) ?i (?i + 1) 0 ?s1"
    using f ls l pg st'(1) i ts r(2) put
    by (subst load_lines.simps) (simp add: reads_def write_line_def store_page_number_def FRAME_SIZE_def)
  from load_lines_rest [of 1 ?i cfg ?s1 f ls' name r "int pg"] obtain st2 where
    s2: "load_lines cfg f name r (int pg) ?i (?i + 1) 0 ?s1 = Some (0, ?s1\<lparr>shellmem := overwrite (shellmem ?s1) (?i + 1)
        (page_slots name (timer ?s1) (3 - 1) ls'), streams := (streams ?s1)[f := st2]\<rparr>)"
      "left_in (SHELL_MEM_LENGTH cfg) st2 (drop (3 - 1) ls')"
    using st(2) mem f st'(2) by auto
  have three: "(3::nat) = Suc 2" by simp
  have "overwrite ((shellmem s)[?i := ?e]) (?i + 1) (page_slots name (timer s) (3 - 1) ls')
      = overwrite (shellmem s) ?i (page_slots name (timer s) 3 ls)"
    unfolding three l page_slots_Cons using overwrite_Cons [OF i(2), of ?e] by simp
  then have "load_lines cfg f name r (int pg) ?i ?i 21 s = Some (0, page_loaded g f name ls st2 s1)"
    unfolding step s2(1) page_loaded_def using q by simp
  moreover have "load_page_into_frame_store cfg f name r (int pg) s = load_lines cfg f name r (int pg) ?i ?i 21 s"
    using scan_hole [OF st(1)] i(1) f by (simp add: load_page_into_frame_store_def Let_def)
  ultimately show ?thesis using s1 s2(2) l by auto
qed

lemma load_at_end:
  assumes "store_ok cfg g s" and "f < length (streams s)" and "left_in n (streams s ! f) []"
  shows "load_page_into_frame_store cfg f name r pg s = Some (21, s)"
proof -
  have e: "st_eof (streams s ! f)" using assms(3) by (simp add: left_in_def)
  have "load_lines cfg f name r pg i i 21 s = Some (21, s)" if "i \<le> THRESHOLD cfg" for i
    using that e assms(2) by (subst load_lines.simps) (simp add: pad_page.simps)
  then show ?thesis using scan_hole [OF assms(1)] assms(2) e by (simp add: load_page_into_frame_store_def Let_def)
qed

lemma page_loaded_fields [simp]:
  "pcbs (page_loaded g f name ls st s) = pcbs s" "qnodes (page_loaded g f name ls st s) = qnodes s"
  "qhead (page_loaded g f name ls st s) = qhead s" "active (page_loaded g f name ls st s) = active s"
  "in_background (page_loaded g f name ls st s) = in_background s" "streams (page_loaded g f name ls st s) = (streams s)[f := st]"
  "local_table (page_loaded g f name ls st s) = local_table s"
  by (simp_all add: page_loaded_def)

lemma page_loaded_store:
  assumes st: "store_ok cfg g s" and room: "3 * Suc g \<le> THRESHOLD cfg" and name: "name \<noteq> NONE"
  shows "store_ok cfg (Suc g) (page_loaded g f name ls st' s)" and "a2_user cfg (page_loaded g f name ls st' s) = a2_user cfg s"
    and "x < 3 * g \<Longrightarrow> shellmem (page_loaded g f name ls st' s) ! x = shellmem s ! x"
    and "k < 3 \<Longrightarrow> val (shellmem (page_loaded g f name ls st' s) ! (3 * g + k)) = (if k < length ls then ls ! k else NONE)"
proof -
  let ?m = "shellmem s" let ?p = "page_slots name (timer s) 3 ls" let ?n = "overwrite ?m (3 * g) ?p"
  have len: "length ?m = SHELL_MEM_LENGTH cfg" "3 * g + 3 \<le> length ?m"
    using st room by (simp_all add: store_ok_def SHELL_MEM_LENGTH_def)
  have low: "?n ! x = ?m ! x" if "x < 3 * g" for x using that len by (simp add: overwrite_def nth_append)
  have mid: "?n ! (3 * g + k) = ?p ! k" if "k < 3" for k using that len overwrite_at [of k ?p "3 * g" ?m] by simp
  have high: "?n ! x = ?m ! x" if "3 * g + 3 \<le> x" for x using overwrite_beyond [of "3 * g" ?p x ?m] that len by simp
  show "shellmem (page_loaded g f name ls st' s) ! x = ?m ! x" if "x < 3 * g" using low that by (simp add: page_loaded_def)
  show "val (shellmem (page_loaded g f name ls st' s) ! (3 * g + k)) = (if k < length ls then ls ! k else NONE)" if "k < 3"
    using mid that by (auto simp: page_loaded_def page_slots_def nth_append)
  have p: "var (?p ! k) \<noteq> NONE" if "k < 3" for k using that name by (auto simp: page_slots_def nth_append)
  have "var (?n ! x) \<noteq> NONE" if "x < 3 * Suc g" for x
  proof (cases "x < 3 * g")
    case True
    then show ?thesis using low st by (simp add: store_ok_def)
  next
    case False
    then have "x = 3 * g + (x - 3 * g)" "x - 3 * g < 3" using that by simp_all
    then show ?thesis using mid p by metis
  qed
  moreover have "var (?n ! x) = NONE" if "3 * Suc g \<le> x" "x < THRESHOLD cfg" for x
    using that high st by (simp add: store_ok_def)
  moreover have "length ?n = length ?m" using len by (intro length_overwrite) simp
  ultimately show "store_ok cfg (Suc g) (page_loaded g f name ls st' s)" using room len by (simp add: store_ok_def page_loaded_def)
  have "drop (THRESHOLD cfg) ?n = drop (THRESHOLD cfg) ?m" using room len by (simp add: overwrite_def min_def)
  then show "a2_user cfg (page_loaded g f name ls st' s) = a2_user cfg s" by (simp add: a2_user_def page_loaded_def)
qed

section \<open>The next line\<close>

lemma put_pcb_fields [simp]:
  "shellmem (put_pcb p q s) = shellmem s" "streams (put_pcb p q s) = streams s" "qnodes (put_pcb p q s) = qnodes s"
  "qhead (put_pcb p q s) = qhead s" "active (put_pcb p q s) = active s" "in_background (put_pcb p q s) = in_background s"
  "pcbs (put_pcb p q s) = (pcbs s)[p := q]" "timer (put_pcb p q s) = timer s"
  by (simp_all add: put_pcb_def)

lemma put_pcb_user [simp]: "a2_user cfg (put_pcb p q s) = a2_user cfg s" "store_ok cfg g (put_pcb p q s) = store_ok cfg g s"
  by (simp_all add: put_pcb_def a2_user_def store_ok_def)

lemma put_pcb_touches: "touches p f cur g s (put_pcb p q s)"
  by (simp add: touches_def pcb_of_def)

lemma ready_same: "qnodes s' = qnodes s \<Longrightarrow> qhead s' = qhead s \<Longrightarrow> ready_list s' = ready_list s \<and> ready_ok s' = ready_ok s"
  by (simp add: ready_list_def ready_ok_def)

lemma take_line_at:
  assumes "store_ok cfg g s" and "p < length (pcbs s)" and "PC (pcbs s ! p) = int (3 * v + k)" and "v < g" and "k < 3"
  shows "take_line cfg p s = Some (Some (val (shellmem s ! (3 * v + k))), put_pcb p ((pcbs s ! p)\<lparr>PC := int (3 * v + k) + 1\<rparr>) s)"
proof -
  have "3 * v + k < SHELL_MEM_LENGTH cfg" "length (shellmem s) = SHELL_MEM_LENGTH cfg"
    using assms(1,4,5) by (auto simp: store_ok_def SHELL_MEM_LENGTH_def)
  then show ?thesis using assms(2,3)
    by (simp add: take_line_def mem_get_value_at_line_def rd_Some del: of_nat_add of_nat_mult of_nat_numeral)
qed

lemma at_line:
  assumes "proc_rep cfg g s p (L, c, m)" and "c div 3 < m"
  shows "\<exists>v. page_table (pcbs s ! p) ! (c div 3) = int v \<and> v < g \<and>
    val (shellmem s ! (3 * v + c mod 3)) = (if c < length L then L ! c else NONE)"
proof -
  let ?v = "page_table (pcbs s ! p) ! (c div 3)"
  have h: "0 \<le> ?v" "?v < int g" "page_held s L (c div 3) (nat ?v)" using assms by (simp_all add: proc_rep.simps)
  have c: "3 * (c div 3) + c mod 3 = c" by simp
  have "val (shellmem s ! (3 * nat ?v + c mod 3)) = (if c < length L then L ! c else NONE)"
    using h(3) unfolding page_held_def by (metis c mod_less_divisor zero_less_numeral)
  then show ?thesis using h by (intro exI [of _ "nat ?v"]) auto
qed

definition past_line :: "nat \<Rightarrow> nat \<Rightarrow> 'os a2 \<Rightarrow> 'os a2" where
  \<comment> \<open>the program counter of \<open>p\<close> behind its line \<open>c\<close>\<close>
  "past_line p c s = put_pcb p ((pcbs s ! p)\<lparr>PC := page_table (pcbs s ! p) ! (c div 3) * 3 + int (c mod 3) + 1\<rparr>) s"

lemma past_line_rep:
  assumes "proc_rep cfg g s p (L, c, m)" and "c div 3 < m" and "c < length L"
  shows "proc_rep cfg g (past_line p c s) p (L, Suc c, m)"
proof -
  have "Suc c \<le> 3 * m" using assms(2) by linarith
  then show ?thesis using assms unfolding proc_rep.simps past_line_def by (simp add: page_held_def)
qed

lemma enter_page_rep:
  assumes st: "store_ok cfg g s" and r: "proc_rep cfg g s p (L, c, m)" and c: "c div 3 < m" "c mod 3 = 0"
  shows "enter_page cfg p (c div 3) s = Some (Some (if c < length L then L ! c else NONE), past_line p c s)"
proof -
  obtain v where v: "page_table (pcbs s ! p) ! (c div 3) = int v" "v < g"
    "val (shellmem s ! (3 * v + c mod 3)) = (if c < length L then L ! c else NONE)" using at_line [OF r c(1)] by blast
  have p: "p < length (pcbs s)" "c div 3 < length (page_table (pcbs s ! p))"
    using r c(1) locate_rep(3) [OF r] by (simp_all add: proc_rep.simps)
  let ?s = "put_pcb p ((pcbs s ! p)\<lparr>PC := int v * 3\<rparr>) s"
  have "take_line cfg p ?s = Some (Some (val (shellmem ?s ! (3 * v + 0))), put_pcb p ((pcbs ?s ! p)\<lparr>PC := int (3 * v + 0) + 1\<rparr>) ?s)"
    by (rule take_line_at [of cfg g]) (use st p v in simp_all)
  then show ?thesis using p v c(2) by (simp add: enter_page_def rd_Some past_line_def FRAME_SIZE_def put_pcb_def mult.commute)
qed

lemma page_turn: "c \<noteq> 0 \<Longrightarrow> c mod 3 = 0 \<Longrightarrow> (c - 1) mod 3 = 2 \<and> Suc ((c - 1) div 3) = c div 3" for c :: nat
proof -
  assume "c \<noteq> 0" "c mod 3 = 0"
  then obtain j where "c = 3 * Suc j" by (metis mod_0_imp_dvd dvdE mult_0_right not0_implies_Suc)
  then have c: "c - 1 = 2 + 3 * j" "c div 3 = Suc j" by simp_all
  have "(2 + 3 * j) mod 3 = 2 mod (3 :: nat)" by (rule mod_mult_self2)
  moreover have "(2 + 3 * j) div 3 = j + 2 div (3 :: nat)" by (rule div_mult_self2) simp
  ultimately show ?thesis unfolding c by simp
qed

lemma same_page: "\<not> (c \<noteq> 0 \<and> c mod 3 = 0) \<Longrightarrow> (c - 1) div 3 = c div 3 \<and> (c = 0 \<or> (c - 1) mod 3 + 1 = c mod 3)" for c :: nat
proof (cases c)
  case (Suc n)
  assume "\<not> (c \<noteq> 0 \<and> c mod 3 = 0)"
  then show ?thesis unfolding Suc by (auto simp: mod_Suc div_Suc split: if_splits)
qed simp

lemma next_line_loaded:
  assumes st: "store_ok cfg g s" and r: "proc_rep cfg g s p (L, c, m)" and c: "c div 3 < m"
  shows "next_line cfg cur p ((c - 1) div 3) s = Some (Some (c div 3, Some (if c < length L then L ! c else NONE)), past_line p c s)"
proof -
  let ?t = "page_table (pcbs s ! p)"
  have p: "p < length (pcbs s)" "length ?t = PAGE_TABLE_SIZE" "c div 3 < PAGE_TABLE_SIZE" "(c - 1) div 3 < PAGE_TABLE_SIZE"
    and pc: "PC (pcbs s ! p) = (if c = 0 then ?t ! 0 * 3 else ?t ! ((c - 1) div 3) * 3 + int ((c - 1) mod 3) + 1)"
    using r c locate_rep(2,3) [OF r] by (simp_all add: proc_rep.simps)
  show ?thesis
  proof (cases "c \<noteq> 0 \<and> c mod 3 = 0")
    case True
    then have d: "(c - 1) mod 3 = 2" "Suc ((c - 1) div 3) = c div 3" using page_turn by simp_all
    obtain v where v: "?t ! (c div 3) = int v" "v < g" using at_line [OF r c] by blast
    have "3 * g \<le> THRESHOLD cfg" using st by (simp add: store_ok_def)
    then have "v < FRAME_STORE_SIZE cfg" using v(2) by (simp add: FRAME_STORE_SIZE_def FRAME_SIZE_def)
    then show ?thesis
      using p pc d True v enter_page_rep [OF st r c] by (simp add: next_line_def rd_Some FRAME_SIZE_def Let_def)
  next
    case False
    have d: "(c - 1) div 3 = c div 3" "c = 0 \<or> (c - 1) mod 3 + 1 = c mod 3" using same_page [OF False] by simp_all
    obtain v where v: "?t ! (c div 3) = int v" "v < g"
      "val (shellmem s ! (3 * v + c mod 3)) = (if c < length L then L ! c else NONE)" using at_line [OF r c] by blast
    have pc': "PC (pcbs s ! p) = int (3 * v + c mod 3)"
      using pc d v(1) by (cases "c = 0") auto
    have "take_line cfg p s = Some (Some (if c < length L then L ! c else NONE), past_line p c s)"
      using take_line_at [OF st p(1) pc' v(2)] v(1,3) by (simp add: past_line_def mult.commute)
    moreover have "PC (pcbs s ! p) mod 3 \<noteq> 0 \<or> PC (pcbs s ! p) = ?t ! (c div 3) * 3"
      using False unfolding pc' v(1) by (cases "c = 0") (auto simp: zmod_int)
    then have "next_line cfg cur p (c div 3) s = do { (line, s) \<leftarrow> take_line cfg p s; Some (Some (c div 3, line), s) }"
      by (elim disjE) (use p in \<open>simp_all add: next_line_def rd_Some FRAME_SIZE_def\<close>)
    ultimately show ?thesis unfolding d(1) by simp
  qed
qed

section \<open>A page fault\<close>

lemma rotate_queue_spec:
  assumes "ready_ok s"
  shows "\<exists>s'. rotate_queue s = Some s' \<and> ready_ok s' \<and> ready_list s' = rotate1 (ready_list s) \<and>
    s' = s\<lparr>qnodes := qnodes s', qhead := qhead s'\<rparr> \<and> (\<forall>n. pcb_of s' n = pcb_of s n)"
proof (cases "ready_list s")
  case Nil
  then have "rotate_queue s = Some s" using pop_head_empty [OF Nil assms] by (simp add: rotate_queue_def)
  then show ?thesis using assms Nil by simp
next
  case (Cons n ns)
  from pop_head_spec [OF assms Cons] obtain s1 where s1: "ready_queue_pop_head s = Some (Some n, s1)" "ready_ok s1" "ready_list s1 = ns"
    "\<forall>m. loose_node s1 m \<longleftrightarrow> loose_node s m \<or> m = n" "s1 = s\<lparr>qhead := qhead s1\<rparr>" by blast
  then have "loose_node s1 n" by simp
  from add_to_tail_spec [OF s1(2) this] obtain s2 where s2: "ready_queue_add_to_tail n s1 = Some s2" "ready_ok s2"
    "ready_list s2 = ns @ [n]" "s2 = s1\<lparr>qnodes := qnodes s2, qhead := qhead s2\<rparr>"
    "\<forall>a. map_option node_pcb (node_at (qnodes s2) a) = map_option node_pcb (node_at (qnodes s1) a)" using s1(3) by auto
  obtain h1 where h1: "s1 = s\<lparr>qhead := h1\<rparr>" using s1(5) by blast
  obtain x y where "s2 = s1\<lparr>qnodes := x, qhead := y\<rparr>" using s2(4) by blast
  then have e: "s2 = s\<lparr>qnodes := qnodes s2, qhead := qhead s2\<rparr>" "qnodes s1 = qnodes s" by (simp_all add: h1)
  then show ?thesis using s1(1) s2(1-3,5) e Cons by (simp add: rotate_queue_def pcb_of_def)
qed

lemma queue_only [simp]:
  "proc_rep cfg g (s\<lparr>qnodes := x, qhead := y\<rparr>) p t = proc_rep cfg g s p t" "store_ok cfg g (s\<lparr>qnodes := x, qhead := y\<rparr>) = store_ok cfg g s"
  "a2_user cfg (s\<lparr>qnodes := x, qhead := y\<rparr>) = a2_user cfg s"
  by (cases t) (simp_all add: proc_rep.simps page_held_def store_ok_def a2_user_def)

lemma at_page_end:
  assumes "proc_rep cfg g s p (L, c, m)" and "\<not> c div 3 < m"
  shows "c = 3 * m" and "0 < m" and "m < PAGE_TABLE_SIZE" and "(c - 1) div 3 = m - 1" and "(c - 1) mod 3 = 2"
proof -
  have r: "c \<le> 3 * m" "c \<le> length L" "length L < 60" "0 < m" using assms(1) by (simp_all add: proc_rep.simps)
  then show c: "c = 3 * m" using assms(2) by linarith
  show "0 < m" by (rule r)
  show "m < PAGE_TABLE_SIZE" using r c by (simp add: PAGE_TABLE_SIZE_def)
  show "(c - 1) div 3 = m - 1" "(c - 1) mod 3 = 2" using page_turn [of c] c r(4) by auto
qed

lemma next_line_fault:
  assumes r: "proc_rep cfg g s p (L, c, m)" and c: "\<not> c div 3 < m"
  shows "next_line cfg cur p ((c - 1) div 3) s = do {
    s1 \<leftarrow> rotate_queue s;
    (loaded, s2) \<leftarrow> handle_page_fault cfg (fp (pcbs s ! p)) (filename (pcbs s ! p)) (Of_pcb p) (int m) s1;
    if \<not> loaded then do { s3 \<leftarrow> end_process cur s2; Some (None, s3) }
    else do { (line, s3) \<leftarrow> enter_page cfg p m s2; Some (Some (m, line), s3) } }"
proof -
  note e = at_page_end [OF r c]
  let ?t = "page_table (pcbs s ! p)"
  have p: "p < length (pcbs s)" "length ?t = PAGE_TABLE_SIZE" "?t ! m = -1"
    and pc: "PC (pcbs s ! p) = ?t ! (m - 1) * 3 + 3"
    using r e by (simp_all add: proc_rep.simps)
  have "Suc (m - 1) = m" using e(2) by simp
  then show ?thesis using p pc e by (simp add: next_line_def rd_Some FRAME_SIZE_def Let_def)
qed

lemma fault_loads:
  assumes st: "store_ok cfg g s" "3 * Suc g \<le> THRESHOLD cfg" and r: "proc_rep cfg g s p (L, c, m)" and c: "\<not> c div 3 < m" "c < length L"
  shows "\<exists>s'. handle_page_fault cfg (fp (pcbs s ! p)) (filename (pcbs s ! p)) (Of_pcb p) (int m) s = Some (True, s') \<and>
    store_ok cfg (Suc g) s' \<and> proc_rep cfg (Suc g) s' p (L, c, Suc m) \<and> touches p (fp (pcbs s ! p)) cur g s s' \<and>
    a2_user cfg s' = a2_user cfg s \<and> qnodes s' = qnodes s \<and> qhead s' = qhead s \<and> in_background s' = in_background s \<and>
    fp (pcbs s' ! p) = fp (pcbs s ! p)"
proof -
  note e = at_page_end [OF r c(1)]
  let ?q = "pcbs s ! p" let ?t = "page_table ?q" let ?ls = "drop (3 * m) L"
  have p: "p < length (pcbs s)" "length ?t = PAGE_TABLE_SIZE" "filename ?q \<noteq> NONE" "fp ?q < length (streams s)"
    "left_in (SHELL_MEM_LENGTH cfg) (streams s ! fp ?q) ?ls" "length L < 60" "NONE \<notin> set L"
    and pages: "\<forall>i < m. 0 \<le> ?t ! i \<and> ?t ! i < int g \<and> page_held s L i (nat (?t ! i))"
    and free: "\<forall>i < PAGE_TABLE_SIZE. m \<le> i \<longrightarrow> ?t ! i = -1" and inc: "\<forall>i j. i < j \<and> j < m \<longrightarrow> ?t ! i < ?t ! j"
    and pc: "PC ?q = ?t ! (m - 1) * 3 + 3"
    using r e by (simp_all add: proc_rep.simps)
  have rd: "reads (SHELL_MEM_LENGTH cfg) (streams s ! fp ?q) ?ls" using p(5) c e(1) by (simp add: left_in_def)
  have tg: "table_get (Of_pcb p) s = Some ?t" using p(1) by (simp add: table_get_def)
  from load_into_hole [OF st p(4) rd tg p(2) e(3)] obtain s1 st' where
    s1: "table_put (Of_pcb p) (?t[m := int g]) s = Some s1" "left_in (SHELL_MEM_LENGTH cfg) st' (drop 3 ?ls)"
      "load_page_into_frame_store cfg (fp ?q) (filename ?q) (Of_pcb p) (int m) s = Some (0, page_loaded g (fp ?q) (filename ?q) ?ls st' s1)"
    by blast
  let ?q' = "?q\<lparr>page_table := ?t[m := int g]\<rparr>" let ?s = "page_loaded g (fp ?q) (filename ?q) ?ls st' s1"
  have e1: "s1 = put_pcb p ?q' s" using s1(1) p(1) by (simp add: table_put_def rd_Some wr_Some put_pcb_def)
  have st1: "store_ok cfg g s1" by (simp add: e1 st(1))
  note pl = page_loaded_store [OF st1 st(2) p(3), where f = "fp ?q" and ls = ?ls and st' = st']
  have low: "\<forall>x < 3 * g. val (shellmem ?s ! x) = val (shellmem s ! x)" using pl(3) by (simp add: e1)
  have new: "page_held ?s L m g" using pl(4) by (auto simp: page_held_def)
  have held: "page_held ?s L i (nat (?t ! i))" if "i < m" for i
  proof (rule page_held_same [OF _ _ low])
    show "page_held s L i (nat (?t ! i))" using pages that by blast
    show "nat (?t ! i) < g" using pages that by (metis nat_less_iff)
  qed
  have f: "pcbs ?s ! p = ?q'" "length (pcbs ?s) = length (pcbs s)" "streams ?s = (streams s)[fp ?q := st']"
    using p(1) by (simp_all add: e1)
  have "\<forall>i < Suc m. 0 \<le> ?t[m := int g] ! i \<and> ?t[m := int g] ! i < int (Suc g) \<and> page_held ?s L i (nat (?t[m := int g] ! i))"
  proof (intro allI impI)
    fix i assume "i < Suc m"
    then consider "i = m" | "i < m" by linarith
    then show "0 \<le> ?t[m := int g] ! i \<and> ?t[m := int g] ! i < int (Suc g) \<and> page_held ?s L i (nat (?t[m := int g] ! i))"
    proof cases
      case 1
      then show ?thesis using new e(3) p(2) by simp
    next
      case 2
      then have "0 \<le> ?t ! i" "?t ! i < int g" "page_held ?s L i (nat (?t ! i))" using pages held by blast+
      then show ?thesis using 2 by simp
    qed
  qed
  moreover have "\<forall>i j. i < j \<and> j < Suc m \<longrightarrow> ?t[m := int g] ! i < ?t[m := int g] ! j"
    using inc pages e(3) p(2) by (auto simp: nth_list_update less_Suc_eq)
  moreover have "\<forall>i < PAGE_TABLE_SIZE. Suc m \<le> i \<longrightarrow> ?t[m := int g] ! i = -1" using free by simp
  moreover have "PC ?q' = (if c = 0 then ?t[m := int g] ! 0 * 3 else ?t[m := int g] ! ((c - 1) div 3) * 3 + int ((c - 1) mod 3) + 1)"
    unfolding e(4,5) using pc e(1,2) by simp
  moreover have "left_in (SHELL_MEM_LENGTH cfg) (streams ?s ! fp ?q) (drop (3 * Suc m) L)" using s1(2) p(4) f(3) by (simp add: add.commute)
  ultimately have "proc_rep cfg (Suc g) ?s p (L, c, Suc m)"
    using p f c(2) e(1) by (simp add: proc_rep.simps)
  moreover have "touches p (fp ?q) cur g s ?s" using low by (simp add: touches_def pcb_of_def e1)
  moreover have "a2_user cfg ?s = a2_user cfg s" using pl(2) by (simp add: e1)
  ultimately show ?thesis using s1(3) pl(1) f(1) by (simp add: handle_page_fault_def) (simp add: e1)
qed

section \<open>Running a line\<close>

lemma proc_rep_cong:
  assumes "proc_rep cfg g s p t" and "pcbs s' ! p = (pcbs s ! p)\<lparr>priority := b\<rparr>" and "length (pcbs s') = length (pcbs s)"
    and "streams s' = streams s" and "\<forall>x < 3 * g. val (shellmem s' ! x) = val (shellmem s ! x)"
  shows "proc_rep cfg g s' p t"
  by (rule proc_rep_mono [OF assms(1,2)]) (use assms in simp_all)

definition same_kernel :: "nat \<Rightarrow> 'os a2 \<Rightarrow> 'os a2 \<Rightarrow> bool" where
  \<comment> \<open>but for the time, and the priority of \<open>p\<close>\<close>
  "same_kernel p s s' \<longleftrightarrow> qnodes s' = qnodes s \<and> qhead s' = qhead s \<and> length (pcbs s') = length (pcbs s) \<and>
     (\<exists>b. pcbs s' ! p = (pcbs s ! p)\<lparr>priority := b\<rparr>) \<and> (\<forall>p'. p' \<noteq> p \<longrightarrow> pcbs s' ! p' = pcbs s ! p') \<and>
     streams s' = streams s \<and> active s' = active s"

lemma same_kernel_touches:
  "same_kernel p s s' \<Longrightarrow> \<forall>x < 3 * g. val (shellmem s' ! x) = val (shellmem s ! x) \<Longrightarrow> touches p f cur g s s'"
  by (simp add: same_kernel_def touches_def pcb_of_def)

lemma begin_line_rep:
  assumes "p < length (pcbs s)"
  shows "\<exists>s'. begin_line p s = Some s' \<and> same_kernel p s s' \<and> shellmem s' = shellmem s \<and> a2_user cfg s' = a2_user cfg s"
proof -
  have q: "(pcbs s ! p)\<lparr>priority := priority (pcbs s ! p)\<rparr> = pcbs s ! p" by simp
  show ?thesis
    using assms by (cases "priority (pcbs s ! p)")
      (auto simp: begin_line_def rd_Some Let_def same_kernel_def put_pcb_def a2_user_def intro: exI [of _ False] q [symmetric])
qed

lemma finish_line_rep:
  assumes st: "store_ok cfg g s" and p: "p < length (pcbs s)"
  shows "\<exists>s'. finish_line cfg p s = Some s' \<and> same_kernel p s s' \<and> store_ok cfg g s' \<and> a2_user cfg s' = a2_user cfg s \<and> \<not> in_background s' \<and>
    (\<forall>x < 3 * g. val (shellmem s' ! x) = val (shellmem s ! x))"
proof -
  have q: "\<exists>b. pcbs s ! p = (pcbs s ! p)\<lparr>priority := b\<rparr>" by (rule exI [of _ "priority (pcbs s ! p)"]) simp
  let ?x = "PC (pcbs s ! p) - 1" let ?s = "s\<lparr>timer := timer s + 1\<rparr>"
  have len: "THRESHOLD cfg \<le> length (shellmem s)" using st by (simp add: store_ok_def SHELL_MEM_LENGTH_def)
  show ?thesis
  proof (cases "0 \<le> ?x \<and> ?x < int (THRESHOLD cfg)")
    case True
    then have i: "nat ?x < THRESHOLD cfg" by (simp add: nat_less_iff)
    let ?m = "(shellmem s)[nat ?x := (shellmem s ! nat ?x)\<lparr>last_used := timer s + 1\<rparr>]"
    have e: "val (?m ! x) = val (shellmem s ! x)" "var (?m ! x) = var (shellmem s ! x)" for x
      using i len by (auto simp: nth_list_update)
    have "finish_line cfg p s = Some (?s\<lparr>shellmem := ?m, in_background := False\<rparr>)"
      using p i len True by (simp add: finish_line_def increment_lastused_def rd_Some wr_Some Let_def)
    moreover have "drop (THRESHOLD cfg) ?m = drop (THRESHOLD cfg) (shellmem s)" using i by simp
    ultimately show ?thesis using st e q by (simp add: same_kernel_def store_ok_def a2_user_def)
  next
    case False
    then have "finish_line cfg p s = Some (?s\<lparr>in_background := False\<rparr>)" using p by (auto simp: finish_line_def increment_lastused_def rd_Some Let_def)
    then show ?thesis using st q by (simp add: same_kernel_def store_ok_def a2_user_def)
  qed
qed

lemma quiet_line:
  assumes st: "store_ok cfg g s" and k: "a2_kernel_same cfg s s'"
  shows "same_kernel p s s'" and "store_ok cfg g s'" and "\<forall>x < 3 * g. val (shellmem s' ! x) = val (shellmem s ! x)"
proof -
  have same: "shellmem s' ! x = shellmem s ! x" if "x < THRESHOLD cfg" for x
    using k nth_take [OF that, of "shellmem s"] nth_take [OF that, of "shellmem s'"] by (simp add: a2_kernel_same_def)
  show "same_kernel p s s'" using k by (auto simp: same_kernel_def a2_kernel_same_def intro: exI [of _ "priority (pcbs s ! p)"])
  have "3 * g \<le> THRESHOLD cfg" using st by (simp add: store_ok_def)
  then show "\<forall>x < 3 * g. val (shellmem s' ! x) = val (shellmem s ! x)" using same by simp
  show "store_ok cfg g s'" using st k same \<open>3 * g \<le> _\<close> by (simp add: store_ok_def a2_kernel_same_def)
qed

lemma same_kernel_trans: "same_kernel p s s1 \<Longrightarrow> same_kernel p s1 s2 \<Longrightarrow> same_kernel p s s2"
  by (auto simp: same_kernel_def)

lemma line_runs:
  assumes qu: "a2_quiet cfg parse F L" and l: "l \<in> set L" and st: "store_ok cfg g s" and p: "p < length (pcbs s)"
  shows "\<exists>ret s1 s2 s'. begin_line p s = Some s1 \<and> parse l s1 = Ret ret s2 \<and> finish_line cfg p s2 = Some s' \<and> same_kernel p s s' \<and>
    store_ok cfg g s' \<and> (\<forall>x < 3 * g. val (shellmem s' ! x) = val (shellmem s ! x)) \<and> a2_user cfg s' = F l (a2_user cfg s) \<and> \<not> in_background s'"
proof -
  obtain s1 where s1: "begin_line p s = Some s1" "same_kernel p s s1" "shellmem s1 = shellmem s" "a2_user cfg s1 = a2_user cfg s"
    using begin_line_rep [OF p, of cfg] by blast
  have st1: "store_ok cfg g s1" using st s1(3) by (simp add: store_ok_def)
  obtain ret s2 where s2: "parse l s1 = Ret ret s2" "a2_kernel_same cfg s1 s2" "a2_user cfg s2 = F l (a2_user cfg s1)"
    using qu l unfolding a2_quiet_def by blast
  note k = quiet_line [OF st1 s2(2)]
  have "p < length (pcbs s2)" using p s1(2) k(1) [of p] by (simp add: same_kernel_def)
  from finish_line_rep [OF k(2) this] obtain s3 where s3: "finish_line cfg p s2 = Some s3" "same_kernel p s2 s3" "store_ok cfg g s3"
    "a2_user cfg s3 = a2_user cfg s2" "\<not> in_background s3" "\<forall>x < 3 * g. val (shellmem s3 ! x) = val (shellmem s2 ! x)" by blast
  have "same_kernel p s s3" by (rule same_kernel_trans [OF same_kernel_trans [OF s1(2) k(1)] s3(2)])
  then show ?thesis using s1 s2 s3 k(3) by (intro exI [of _ ret] exI [of _ s1] exI [of _ s2] exI [of _ s3]) simp
qed

lemma end_process_spec:
  assumes "ready_ok s" and "pcb_of s cur = Some p" and "cur \<notin> set (ready_list s)"
  shows "\<exists>s'. end_process cur s = Some s' \<and> ready_ok s' \<and> ready_list s' = ready_list s \<and> touches p' f cur g s s' \<and> shellmem s' = shellmem s \<and>
    a2_user cfg s' = a2_user cfg s \<and> \<not> in_background s'"
proof -
  obtain nd where nd: "node_at (qnodes s) cur = Some nd" using assms(2) by (auto simp: pcb_of_def)
  then have len: "cur < length (qnodes s)" using node_at_bound by fastforce
  let ?s = "s\<lparr>qnodes := (qnodes s)[cur := None], in_background := False\<rparr>"
  have "end_process cur s = Some ?s" using nd by (simp add: end_process_def terminate_process_def free_node_def)
  moreover have "linked (qnodes ?s) (qhead ?s) (ready_list s)" "distinct (ready_list s)"
    using assms(1,3) by (simp_all add: ready_ok_def linked_frame)
  then have "ready_ok ?s \<and> ready_list ?s = ready_list s" by (rule ready_okI)
  moreover have "touches p' f cur g s ?s" using len by (simp add: touches_def pcb_of_def node_at_update)
  ultimately show ?thesis by (simp add: a2_user_def)
qed

section \<open>A turn\<close>

fun pages_left :: "script_state \<Rightarrow> nat" where
  "pages_left (L, c, m) = (length L + 2) div 3 - m"

lemma past_line_kept:
  assumes "p < length (pcbs s)"
  shows "store_ok cfg g (past_line p c s) = store_ok cfg g s" and "a2_user cfg (past_line p c s) = a2_user cfg s"
    and "touches p f cur g' s (past_line p c s)" and "fp (pcbs (past_line p c s) ! p) = fp (pcbs s ! p)"
    and "pcb_of (past_line p c s) = pcb_of s" and "ready_list (past_line p c s) = ready_list s" and "ready_ok (past_line p c s) = ready_ok s"
    and "length (pcbs (past_line p c s)) = length (pcbs s)" and "shellmem (past_line p c s) = shellmem s"
  using assms put_pcb_touches ready_same [of "past_line p c s" s] by (simp_all add: past_line_def pcb_of_def fun_eq_iff)

lemma queue_moved:
  assumes "s1 = s\<lparr>qnodes := qnodes s1, qhead := qhead s1\<rparr>" and "\<forall>n. pcb_of s1 n = pcb_of s n"
  shows "touches p f cur g s s1" and "proc_rep cfg g s1 p t = proc_rep cfg g s p t" and "store_ok cfg g s1 = store_ok cfg g s"
    and "a2_user cfg s1 = a2_user cfg s" and "pcbs s1 = pcbs s" and "streams s1 = streams s"
proof -
  obtain x y where e: "s1 = s\<lparr>qnodes := x, qhead := y\<rparr>" using assms(1) by blast
  show "touches p f cur g s s1" using assms(2) by (simp add: touches_def) (simp add: e)
  show "proc_rep cfg g s1 p t = proc_rep cfg g s p t" "store_ok cfg g s1 = store_ok cfg g s" "a2_user cfg s1 = a2_user cfg s"
    "pcbs s1 = pcbs s" "streams s1 = streams s" by (simp_all add: e)
qed

lemma next_line_rep:
  assumes st: "store_ok cfg g s" and rq: "ready_ok s" and r: "proc_rep cfg g s p (L, c, m)" and cur: "pcb_of s cur = Some p"
    and room: "3 * (g + pages_left (L, c, m)) \<le> THRESHOLD cfg" and c: "c < length L" and k: "k = (if c div 3 < m then 0 else 1)"
  shows "\<exists>s'. next_line cfg cur p ((c - 1) div 3) s = Some (Some (c div 3, Some (L ! c)), s') \<and> store_ok cfg (g + k) s' \<and> ready_ok s' \<and>
    ready_list s' = rotate k (ready_list s) \<and> proc_rep cfg (g + k) s' p (L, Suc c, m + k) \<and> touches p (fp (pcbs s ! p)) cur g s s' \<and>
    a2_user cfg s' = a2_user cfg s \<and> pcb_of s' cur = Some p \<and> fp (pcbs s' ! p) = fp (pcbs s ! p) \<and>
    pages_left (L, Suc c, m + k) + (g + k) = pages_left (L, c, m) + g"
proof (cases "c div 3 < m")
  case True
  have p: "p < length (pcbs s)" using r by (simp add: proc_rep.simps)
  note kept = past_line_kept [OF p, where c = c]
  have "next_line cfg cur p ((c - 1) div 3) s = Some (Some (c div 3, Some (L ! c)), past_line p c s)"
    using next_line_loaded [OF st r True] c by simp
  then show ?thesis using kept past_line_rep [OF r True c] st rq cur True by (simp add: k)
next
  case False
  note e = at_page_end [OF r False]
  obtain s1 where s1: "rotate_queue s = Some s1" "ready_ok s1" "ready_list s1 = rotate1 (ready_list s)"
    "s1 = s\<lparr>qnodes := qnodes s1, qhead := qhead s1\<rparr>" "\<forall>n. pcb_of s1 n = pcb_of s n" using rotate_queue_spec [OF rq] by blast
  note mv = queue_moved [OF s1(4,5)]
  have left: "0 < pages_left (L, c, m)" using c e(1) by simp
  then have "3 * Suc g \<le> THRESHOLD cfg" using room by (simp del: pages_left.simps)
  moreover have st1: "store_ok cfg g s1" and r1: "proc_rep cfg g s1 p (L, c, m)" using mv st r by simp_all
  ultimately obtain s2 where s2: "handle_page_fault cfg (fp (pcbs s1 ! p)) (filename (pcbs s1 ! p)) (Of_pcb p) (int m) s1 = Some (True, s2)"
    "store_ok cfg (Suc g) s2" "proc_rep cfg (Suc g) s2 p (L, c, Suc m)" "touches p (fp (pcbs s1 ! p)) cur g s1 s2"
    "a2_user cfg s2 = a2_user cfg s1" "qnodes s2 = qnodes s1" "qhead s2 = qhead s1" "fp (pcbs s2 ! p) = fp (pcbs s1 ! p)"
    using fault_loads [OF _ _ _ False c, of cfg g s1 p cur] by blast
  have d: "c div 3 < Suc m" "c mod 3 = 0" "c div 3 = m" using e(1) by simp_all
  have p: "p < length (pcbs s2)" using s2(3) by (simp add: proc_rep.simps)
  note kept = past_line_kept [OF p, where c = c]
  have "enter_page cfg p m s2 = Some (Some (L ! c), past_line p c s2)" using enter_page_rep [OF s2(2,3) d(1,2)] c d(3) by simp
  then have "next_line cfg cur p ((c - 1) div 3) s = Some (Some (c div 3, Some (L ! c)), past_line p c s2)"
    unfolding next_line_fault [OF r False] using s1(1) s2(1) mv(5) d(3) by simp
  moreover have "ready_list s2 = rotate1 (ready_list s)" "ready_ok s2" using ready_same [of s2 s1] s2(6,7) s1(2,3) by simp_all
  moreover have "proc_rep cfg (Suc g) (past_line p c s2) p (L, Suc c, Suc m)" by (rule past_line_rep [OF s2(3) d(1) c])
  moreover have "touches p (fp (pcbs s ! p)) cur g s (past_line p c s2)"
    by (rule touches_trans [OF touches_trans [OF mv(1) _ order_refl] kept(3) order_refl]) (use s2(4) mv(5) in simp)
  moreover have "pcb_of s2 cur = Some p" using cur s1(5) s2(6) by (simp add: pcb_of_def)
  moreover have "pages_left (L, Suc c, m + 1) + (g + 1) = pages_left (L, c, m) + g" using left by simp
  ultimately show ?thesis using kept s2(2,5,8) mv(4,5) False by (simp add: k del: pages_left.simps)
qed

lemma last_turn:
  assumes st: "store_ok cfg g s" and rq: "ready_ok s" and r: "proc_rep cfg g s p (L, c, m)" and cur: "pcb_of s cur = Some p"
    and out: "cur \<notin> set (ready_list s)" and c: "\<not> c < length L" and k: "k = (if c div 3 < m then 0 else 1)"
  shows "\<exists>s'. execute_lines cfg parse cur p (Suc q) ((c - 1) div 3) s = Ret True s' \<and> store_ok cfg g s' \<and> ready_ok s' \<and>
    ready_list s' = rotate k (ready_list s) \<and> touches p (fp (pcbs s ! p)) cur g s s' \<and> a2_user cfg s' = a2_user cfg s \<and> \<not> in_background s'"
proof (cases "c div 3 < m")
  case True
  have p: "p < length (pcbs s)" using r by (simp add: proc_rep.simps)
  note kept = past_line_kept [OF p, where c = c]
  let ?s = "past_line p c s"
  obtain s1 where s1: "begin_line p ?s = Some s1" "same_kernel p ?s s1" "shellmem s1 = shellmem ?s" "a2_user cfg s1 = a2_user cfg ?s"
    using begin_line_rep [of p ?s cfg] p kept(8) by auto
  have "ready_list s1 = ready_list s \<and> ready_ok s1" using ready_same [of s1 ?s] s1(2) kept rq by (simp add: same_kernel_def)
  moreover have "pcb_of s1 cur = Some p" using s1(2) cur fun_cong [OF kept(5), of cur] by (simp add: pcb_of_def same_kernel_def)
  ultimately obtain s2 where s2: "end_process cur s1 = Some s2" "ready_ok s2" "ready_list s2 = ready_list s"
    "touches p (fp (pcbs s ! p)) cur g s1 s2" "shellmem s2 = shellmem s1" "a2_user cfg s2 = a2_user cfg s1" "\<not> in_background s2"
    using end_process_spec [of s1 cur p p "fp (pcbs s ! p)" g cfg] out by auto
  have "touches p (fp (pcbs s ! p)) cur g ?s s1" using same_kernel_touches [OF s1(2)] s1(3) by simp
  then have "touches p (fp (pcbs s ! p)) cur g s s2"
    using touches_trans [OF touches_trans [OF kept(3) _ order_refl] s2(4) order_refl] by blast
  moreover have "execute_lines cfg parse cur p (Suc q) ((c - 1) div 3) s = Ret True s2"
    using next_line_loaded [OF st r True] c s1(1) s2(1) by simp
  moreover have "store_ok cfg g s2" using st s2(5) s1(3) kept(9) by (simp add: store_ok_def)
  ultimately show ?thesis using s2 s1(4) kept(2) True by (simp add: k)
next
  case False
  note e = at_page_end [OF r False]
  obtain s1 where s1: "rotate_queue s = Some s1" "ready_ok s1" "ready_list s1 = rotate1 (ready_list s)"
    "s1 = s\<lparr>qnodes := qnodes s1, qhead := qhead s1\<rparr>" "\<forall>n. pcb_of s1 n = pcb_of s n" using rotate_queue_spec [OF rq] by blast
  note mv = queue_moved [OF s1(4,5)]
  have f: "fp (pcbs s ! p) < length (streams s1)" "left_in (SHELL_MEM_LENGTH cfg) (streams s1 ! fp (pcbs s ! p)) []"
    using r c e(1) mv(6) by (simp_all add: proc_rep.simps)
  have st1: "store_ok cfg g s1" using mv(3) st by simp
  have "handle_page_fault cfg (fp (pcbs s ! p)) (filename (pcbs s ! p)) (Of_pcb p) (int m) s1 = Some (False, s1)"
    using load_at_end [OF st1 f] by (simp add: handle_page_fault_def)
  moreover obtain s2 where s2: "end_process cur s1 = Some s2" "ready_ok s2" "ready_list s2 = ready_list s1"
    "touches p (fp (pcbs s ! p)) cur g s1 s2" "shellmem s2 = shellmem s1" "a2_user cfg s2 = a2_user cfg s1" "\<not> in_background s2"
    using end_process_spec [OF s1(2), of cur p p "fp (pcbs s ! p)" g cfg] out cur s1(3,5) by auto
  ultimately have "next_line cfg cur p ((c - 1) div 3) s = Some (None, s2)"
    unfolding next_line_fault [OF r False] using s1(1) by simp
  then have "execute_lines cfg parse cur p (Suc q) ((c - 1) div 3) s = Ret True s2" by simp
  moreover have "touches p (fp (pcbs s ! p)) cur g s s2" by (rule touches_trans [OF mv(1) s2(4) order_refl])
  moreover have "store_ok cfg g s2" using st1 s2(5) by (simp add: store_ok_def)
  ultimately show ?thesis using s2 s1(3) mv(4) False by (simp add: k)
qed

lemma turn_rep:
  assumes "a2_quiet cfg parse F L" and "turn q (L, c, m) = (ls, k, r)" and "store_ok cfg g s" and "ready_ok s"
    and "proc_rep cfg g s p (L, c, m)" and "pcb_of s cur = Some p" and "cur \<notin> set (ready_list s)"
    and "3 * (g + pages_left (L, c, m)) \<le> THRESHOLD cfg" and "\<not> in_background s"
  shows "\<exists>s' g'. execute_lines cfg parse cur p q ((c - 1) div 3) s = Ret (r = None) s' \<and> g \<le> g' \<and>
    g' + (\<Sum>t \<leftarrow> rest_list r. pages_left t) = g + pages_left (L, c, m) \<and> store_ok cfg g' s' \<and> ready_ok s' \<and>
    ready_list s' = rotate k (ready_list s) \<and> touches p (fp (pcbs s ! p)) cur g s s' \<and> a2_user cfg s' = fold F ls (a2_user cfg s) \<and>
    \<not> in_background s' \<and> (\<forall>t. r = Some t \<longrightarrow> fst t = L \<and> proc_rep cfg g' s' p t \<and> pcb_of s' cur = Some p \<and> fp (pcbs s' ! p) = fp (pcbs s ! p))"
  using assms
proof (induction q arbitrary: c m g s ls k r)
  case 0
  then show ?case by (intro exI [of _ s] exI [of _ g]) (auto simp: touches_refl)
next
  case (Suc q)
  let ?k = "if c div 3 < m then 0 else 1 :: nat" and ?f = "fp (pcbs s ! p)"
  note st = Suc.prems(3) and rq = Suc.prems(4) and rep = Suc.prems(5) and cur = Suc.prems(6) and out = Suc.prems(7) and room = Suc.prems(8)
  show ?case
  proof (cases "c < length L")
    case False
    then have t: "ls = []" "k = ?k" "r = None" using Suc.prems(2) by (simp_all add: Let_def split: if_splits)
    have "length L \<le> 3 * m" using rep False by (simp add: proc_rep.simps)
    then have "pages_left (L, c, m) = 0" by simp
    then show ?thesis using last_turn [OF st rq rep cur out False t(2), of parse q] t by auto
  next
    case True
    obtain ls' k' where t: "turn q (L, Suc c, m + ?k) = (ls', k', r)" "ls = L ! c # ls'" "k = ?k + k'"
      using Suc.prems(2) True by (auto simp: Let_def split: prod.splits)
    obtain s1 where s1: "next_line cfg cur p ((c - 1) div 3) s = Some (Some (c div 3, Some (L ! c)), s1)" "store_ok cfg (g + ?k) s1" "ready_ok s1"
      "ready_list s1 = rotate ?k (ready_list s)" "proc_rep cfg (g + ?k) s1 p (L, Suc c, m + ?k)" "touches p ?f cur g s s1"
      "a2_user cfg s1 = a2_user cfg s" "pcb_of s1 cur = Some p" "fp (pcbs s1 ! p) = ?f"
      "pages_left (L, Suc c, m + ?k) + (g + ?k) = pages_left (L, c, m) + g"
      using next_line_rep [OF st rq rep cur room True refl] by blast
    have "NONE \<notin> set L" using rep by (simp add: proc_rep.simps)
    then have l: "L ! c \<in> set L" "L ! c \<noteq> NONE" using nth_mem [OF True] by auto
    have p: "p < length (pcbs s1)" using s1(5) by (simp add: proc_rep.simps)
    obtain ret b1 b2 s2 where run: "begin_line p s1 = Some b1" "parse (L ! c) b1 = Ret ret b2" "finish_line cfg p b2 = Some s2"
      and s2: "same_kernel p s1 s2" "store_ok cfg (g + ?k) s2" "\<forall>x < 3 * (g + ?k). val (shellmem s2 ! x) = val (shellmem s1 ! x)"
        "a2_user cfg s2 = F (L ! c) (a2_user cfg s1)" "\<not> in_background s2"
      using line_runs [OF Suc.prems(1) l(1) s1(2) p] by blast
    have rq2: "ready_ok s2" "ready_list s2 = rotate ?k (ready_list s)" using ready_same [of s2 s1] s2(1) s1(3,4) by (simp_all add: same_kernel_def)
    have rep2: "proc_rep cfg (g + ?k) s2 p (L, Suc c, m + ?k)" and fp2: "fp (pcbs s2 ! p) = ?f"
      using proc_rep_cong [OF s1(5) _ _ _ s2(3)] s2(1) s1(9) by (auto simp: same_kernel_def)
    have cur2: "pcb_of s2 cur = Some p" using s1(8) s2(1) by (simp add: pcb_of_def same_kernel_def)
    have out2: "cur \<notin> set (ready_list s2)" using out rq2(2) by simp
    have room2: "3 * (g + ?k + pages_left (L, Suc c, m + ?k)) \<le> THRESHOLD cfg" using room s1(10) by (simp only: add.commute)
    from Suc.IH [OF Suc.prems(1) t(1) s2(2) rq2(1) rep2 cur2 out2 room2 s2(5)] obtain s' g' where
      ih: "execute_lines cfg parse cur p q ((Suc c - 1) div 3) s2 = Ret (r = None) s'" "g + ?k \<le> g'"
        "g' + (\<Sum>t \<leftarrow> rest_list r. pages_left t) = g + ?k + pages_left (L, Suc c, m + ?k)" "store_ok cfg g' s'" "ready_ok s'"
        "ready_list s' = rotate k' (ready_list s2)" "touches p (fp (pcbs s2 ! p)) cur (g + ?k) s2 s'"
        "a2_user cfg s' = fold F ls' (a2_user cfg s2)" "\<not> in_background s'"
        "\<forall>t. r = Some t \<longrightarrow> fst t = L \<and> proc_rep cfg g' s' p t \<and> pcb_of s' cur = Some p \<and> fp (pcbs s' ! p) = fp (pcbs s2 ! p)" by blast
    have "execute_lines cfg parse cur p (Suc q) ((c - 1) div 3) s = Ret (r = None) s'"
      using s1(1) run l(2) ih(1) by simp
    moreover have "touches p ?f cur g s s'"
    proof -
      have "touches p ?f cur (g + ?k) s1 s2" by (rule same_kernel_touches [OF s2(1,3)])
      from touches_trans [OF this ih(7) [unfolded fp2] order_refl] show ?thesis using touches_trans [OF s1(6)] by simp
    qed
    moreover have "ready_list s' = rotate k (ready_list s)" using ih(6) rq2(2) t(3) by (simp add: rotate_rotate add.commute)
    moreover have "a2_user cfg s' = fold F ls (a2_user cfg s)" using ih(8) s2(4) s1(7) t(2) by simp
    moreover have "g' + (\<Sum>t \<leftarrow> rest_list r. pages_left t) = g + pages_left (L, c, m)" using ih(3) s1(10) by linarith
    ultimately show ?thesis using ih(2,4,5,9,10) fp2 by (intro exI [of _ s'] exI [of _ g']) simp
  qed
qed

end
