(* ===== verification/A2_Schedule.thy ===== *)
theory A2_Schedule
  imports A2_Turns
begin

text \<open>
  The schedulers of assignment 2 against the order of turns of their specification: first come first served, and round
  robin, from loaded scripts to the end of the last process.
\<close>

section \<open>The queue of processes\<close>

type_synonym queued_proc = "nat \<times> nat \<times> script_state"   \<comment> \<open>node, control block, what it stands for\<close>

definition queue_rep :: "a2_config \<Rightarrow> nat \<Rightarrow> 'os a2 \<Rightarrow> queued_proc list \<Rightarrow> bool" where
  "queue_rep cfg g s zs \<longleftrightarrow> store_ok cfg g s \<and> ready_ok s \<and> \<not> active s \<and> \<not> in_background s \<and> ready_list s = map fst zs \<and>
     distinct (map (\<lambda>z. fst (snd z)) zs) \<and> distinct (map (\<lambda>z. fp (pcbs s ! fst (snd z))) zs) \<and>
     (\<forall>z \<in> set zs. pcb_of s (fst z) = Some (fst (snd z)) \<and> proc_rep cfg g s (fst (snd z)) (snd (snd z)))"

abbreviation states :: "queued_proc list \<Rightarrow> script_state list" where
  "states zs \<equiv> map (\<lambda>z. snd (snd z)) zs"

abbreviation left_all :: "script_state list \<Rightarrow> nat" where
  "left_all ts \<equiv> \<Sum>t \<leftarrow> ts. pages_left t"

lemma execute_process_rep:
  assumes q: "queue_rep cfg g s ((n, p, t) # zs)" and pop: "ready_queue_pop_head s = Some (Some n, s1)"
    and qu: "a2_quiet cfg parse F (fst t)" and t: "turn q t = (ls, k, r)" and room: "3 * (g + pages_left t) \<le> THRESHOLD cfg"
  shows "\<exists>s' g'. execute_process cfg parse (Suc fuel) n q s1 = Ret (r = None) s' \<and> g \<le> g' \<and> g' + left_all (rest_list r) = g + pages_left t \<and>
    store_ok cfg g' s' \<and> ready_ok s' \<and> ready_list s' = rotate k (map fst zs) \<and> touches p (fp (pcbs s ! p)) n g s s' \<and>
    a2_user cfg s' = fold F ls (a2_user cfg s) \<and> \<not> in_background s' \<and>
    (\<forall>u. r = Some u \<longrightarrow> fst u = fst t \<and> proc_rep cfg g' s' p u \<and> pcb_of s' n = Some p \<and> fp (pcbs s' ! p) = fp (pcbs s ! p))"
proof -
  obtain L c m where e: "t = (L, c, m)" by (metis prod_cases3)
  have s: "store_ok cfg g s" "ready_ok s" "ready_list s = n # map fst zs" "\<not> in_background s" "pcb_of s n = Some p" "proc_rep cfg g s p t"
    using q by (simp_all add: queue_rep_def)
  have "ready_ok s1 \<and> ready_list s1 = map fst zs \<and> s1 = s\<lparr>qhead := qhead s1\<rparr>" using pop_head_spec [OF s(2,3)] pop by auto
  then obtain h where s1: "ready_ok s1" "ready_list s1 = map fst zs" "s1 = s\<lparr>qhead := h\<rparr>" by blast
  have e1: "s1 = s\<lparr>qnodes := qnodes s, qhead := h\<rparr>" by (simp add: s1(3))
  have "pcb_of s1 u = pcb_of s u" for u by (simp add: pcb_of_def s1(3))
  then have "s1 = s\<lparr>qnodes := qnodes s1, qhead := qhead s1\<rparr>" "\<forall>u. pcb_of s1 u = pcb_of s u" by (simp_all add: s1(3))
  note mv = queue_moved [OF this]
  have cur: "pcb_of s1 n = Some p" using s(5) by (simp add: pcb_of_def s1(3))
  then obtain nd where nd: "node_at (qnodes s1) n = Some nd" "node_pcb nd = p" by (auto simp: pcb_of_def)
  have rep: "proc_rep cfg g s1 p (L, c, m)" using mv(2) s(6) e by simp
  have out: "n \<notin> set (ready_list s1)" using s(2,3) s1(2) by (simp add: ready_ok_def)
  have qu': "a2_quiet cfg parse F L" and t': "turn q (L, c, m) = (ls, k, r)" and room': "3 * (g + pages_left (L, c, m)) \<le> THRESHOLD cfg"
    using qu t room by (simp_all add: e)
  have "\<not> in_background s1" using s(4) by (simp add: s1(3))
  moreover have "store_ok cfg g s1" using mv(3) s(1) by simp
  ultimately have "\<exists>s' g'. execute_lines cfg parse n p q ((c - 1) div 3) s1 = Ret (r = None) s' \<and> g \<le> g' \<and>
    g' + left_all (rest_list r) = g + pages_left (L, c, m) \<and> store_ok cfg g' s' \<and> ready_ok s' \<and>
    ready_list s' = rotate k (ready_list s1) \<and> touches p (fp (pcbs s1 ! p)) n g s1 s' \<and> a2_user cfg s' = fold F ls (a2_user cfg s1) \<and>
    \<not> in_background s' \<and> (\<forall>t. r = Some t \<longrightarrow> fst t = L \<and> proc_rep cfg g' s' p t \<and> pcb_of s' n = Some p \<and> fp (pcbs s' ! p) = fp (pcbs s1 ! p))"
    by (intro turn_rep [OF qu' t' _ s1(1) rep cur out room'])
  then obtain s' g' where
    s': "execute_lines cfg parse n p q ((c - 1) div 3) s1 = Ret (r = None) s'" "g \<le> g'" "g' + left_all (rest_list r) = g + pages_left (L, c, m)"
      "store_ok cfg g' s'" "ready_ok s'" "ready_list s' = rotate k (ready_list s1)" "touches p (fp (pcbs s1 ! p)) n g s1 s'"
      "a2_user cfg s' = fold F ls (a2_user cfg s1)" "\<not> in_background s'"
      "\<forall>u. r = Some u \<longrightarrow> fst u = L \<and> proc_rep cfg g' s' p u \<and> pcb_of s' n = Some p \<and> fp (pcbs s' ! p) = fp (pcbs s1 ! p)" by blast
  have "execute_process cfg parse (Suc fuel) n q s1 = Ret (r = None) s'"
    using nd locate_rep(1) [OF rep, of fuel n] s'(1) by (simp add: execute_process_def del: locate_page.simps)
  moreover have "touches p (fp (pcbs s ! p)) n g s s'" using touches_trans [OF mv(1) _ order_refl] s'(7) mv(5) by simp
  ultimately show ?thesis using s' s1(2) mv(4,5) e by (intro exI [of _ s'] exI [of _ g']) simp
qed

lemma rest_queue:
  assumes q: "queue_rep cfg g s ((n, p, t) # zs)" and st: "store_ok cfg g' s'" and g: "g \<le> g'" and rq: "ready_ok s'"
    and l: "ready_list s' = rotate k (map fst zs)" and to: "touches p (fp (pcbs s ! p)) n g s s'" and bg: "\<not> in_background s'"
  shows "queue_rep cfg g' s' (rotate k zs)"
    and "z \<in> set zs \<Longrightarrow> fst (snd z) \<noteq> p \<and> fp (pcbs s' ! fst (snd z)) \<noteq> fp (pcbs s ! p)"
proof -
  have s: "distinct (map (\<lambda>z. fst (snd z)) zs)" "\<forall>z \<in> set zs. fst (snd z) \<noteq> p" "distinct (map (\<lambda>z. fp (pcbs s ! fst (snd z))) zs)"
    "\<forall>z \<in> set zs. fp (pcbs s ! fst (snd z)) \<noteq> fp (pcbs s ! p)" "\<forall>z \<in> set zs. fst z \<noteq> n" "\<not> active s"
  proof -
    have "ready_list s = n # map fst zs" using q by (simp add: queue_rep_def)
    moreover have "distinct (ready_list s)" using q unfolding queue_rep_def ready_ok_def by blast
    ultimately have n: "distinct (n # map fst zs)" by simp
    have "distinct (p # map (\<lambda>z. fst (snd z)) zs)"
      "distinct (fp (pcbs s ! p) # map (\<lambda>z. fp (pcbs s ! fst (snd z))) zs)" "\<not> active s"
      using q unfolding queue_rep_def by simp_all
    with n show "distinct (map (\<lambda>z. fst (snd z)) zs)" "\<forall>z \<in> set zs. fst (snd z) \<noteq> p" "distinct (map (\<lambda>z. fp (pcbs s ! fst (snd z))) zs)"
      "\<forall>z \<in> set zs. fp (pcbs s ! fst (snd z)) \<noteq> fp (pcbs s ! p)" "\<forall>z \<in> set zs. fst z \<noteq> n" "\<not> active s" by force+
  qed
  have other: "fst (snd z) \<noteq> p \<and> pcb_of s' (fst z) = Some (fst (snd z)) \<and> proc_rep cfg g' s' (fst (snd z)) (snd (snd z)) \<and>
      pcbs s' ! fst (snd z) = pcbs s ! fst (snd z)" if z: "z \<in> set zs" for z
  proof -
    have r: "pcb_of s (fst z) = Some (fst (snd z))" "proc_rep cfg g s (fst (snd z)) (snd (snd z))" using q z by (simp_all add: queue_rep_def)
    have ne: "fst (snd z) \<noteq> p" "fp (pcbs s ! fst (snd z)) \<noteq> fp (pcbs s ! p)" "fst z \<noteq> n" using s(2,4,5) z by force+
    note o = proc_rep_other [OF r(2) to ne(1,2) g]
    have "pcb_of s' (fst z) = Some (fst (snd z))" using to ne(3) r(1) by (simp add: touches_def)
    then show ?thesis using o ne(1) by simp
  qed
  then have same: "map (\<lambda>z. fp (pcbs s' ! fst (snd z))) zs = map (\<lambda>z. fp (pcbs s ! fst (snd z))) zs" by (intro map_cong) auto
  have "distinct (map (\<lambda>z. fp (pcbs s' ! fst (snd z))) zs)" unfolding same by (rule s(3))
  then have d: "distinct (map (\<lambda>z. fp (pcbs s' ! fst (snd z))) (rotate k zs))" by (simp flip: rotate_map)
  have "distinct (map (\<lambda>z. fst (snd z)) (rotate k zs))" using s(1) by (simp flip: rotate_map)
  moreover have "\<not> active s'" using to s(6) by (simp add: touches_def)
  ultimately show "queue_rep cfg g' s' (rotate k zs)"
    using st rq l bg d other by (simp add: queue_rep_def rotate_map)
  show "fst (snd z) \<noteq> p \<and> fp (pcbs s' ! fst (snd z)) \<noteq> fp (pcbs s ! p)" if "z \<in> set zs" using other [OF that] s(4) that by simp
qed

lemma queue_again:
  assumes q: "queue_rep cfg g s zs" and n: "pcb_of s n = Some p" "n \<notin> fst ` set zs" and r: "proc_rep cfg g s p t"
    and new: "\<forall>z \<in> set zs. fst (snd z) \<noteq> p \<and> fp (pcbs s ! fst (snd z)) \<noteq> fp (pcbs s ! p)"
  shows "\<exists>s'. ready_queue_add_to_tail n s = Some s' \<and> queue_rep cfg g s' (zs @ [(n, p, t)]) \<and> a2_user cfg s' = a2_user cfg s"
proof -
  have s: "ready_ok s" "ready_list s = map fst zs" using q by (simp_all add: queue_rep_def)
  have "loose_node s n" using n s(2) by (auto simp: loose_node_def pcb_of_def)
  from add_to_tail_spec [OF s(1) this] obtain s' where s': "ready_queue_add_to_tail n s = Some s'" "ready_ok s'" "ready_list s' = map fst zs @ [n]"
    "s' = s\<lparr>qnodes := qnodes s', qhead := qhead s'\<rparr>" "\<forall>a. pcb_of s' a = pcb_of s a" using s(2) by (auto simp: pcb_of_def)
  note mv = queue_moved [OF s'(4,5)]
  obtain x y where "s' = s\<lparr>qnodes := x, qhead := y\<rparr>" using s'(4) by blast
  then have "active s' = active s" "in_background s' = in_background s" by simp_all
  then have "queue_rep cfg g s' (zs @ [(n, p, t)])"
    using q s'(2,3,5) mv(2,3,5) n(1) r new by (auto simp: queue_rep_def image_iff) 
  then show ?thesis using s'(1) mv(4) by blast
qed

section \<open>The schedulers\<close>

lemma one_turn:
  assumes q: "queue_rep cfg g s ((n, p, t) # zs)" and qu: "a2_quiet cfg parse F (fst t)" and t: "turn q t = (ls, k, r)"
    and room: "3 * (g + left_all (t # states zs)) \<le> THRESHOLD cfg"
  shows "\<exists>s1 s2 s' g' zs'. ready_queue_pop_head s = Some (Some n, s1) \<and> execute_process cfg parse (Suc fuel) n q s1 = Ret (r = None) s2 \<and>
    (if r = None then Some s2 else ready_queue_add_to_tail n s2) = Some s' \<and> queue_rep cfg g' s' zs' \<and>
    states zs' = rotate k (states zs) @ rest_list r \<and> a2_user cfg s' = fold F ls (a2_user cfg s) \<and>
    g' + left_all (states zs') = g + left_all (t # states zs) \<and> (\<forall>u \<in> set (states zs'). fst u \<in> fst ` set (t # states zs))"
proof -
  have s: "ready_ok s" "ready_list s = n # map fst zs" using q by (simp_all add: queue_rep_def)
  obtain s1 where pop: "ready_queue_pop_head s = Some (Some n, s1)" using pop_head_spec [OF s] by blast
  have "3 * (g + pages_left t) \<le> THRESHOLD cfg" using room by simp
  from execute_process_rep [OF q pop qu t this, of fuel] obtain s2 g' where
    s2: "execute_process cfg parse (Suc fuel) n q s1 = Ret (r = None) s2" "g \<le> g'" "g' + left_all (rest_list r) = g + pages_left t"
      "store_ok cfg g' s2" "ready_ok s2" "ready_list s2 = rotate k (map fst zs)" "touches p (fp (pcbs s ! p)) n g s s2"
      "a2_user cfg s2 = fold F ls (a2_user cfg s)" "\<not> in_background s2"
      "\<forall>u. r = Some u \<longrightarrow> fst u = fst t \<and> proc_rep cfg g' s2 p u \<and> pcb_of s2 n = Some p \<and> fp (pcbs s2 ! p) = fp (pcbs s ! p)" by blast
  note rest = rest_queue [OF q s2(4,2,5-7,9)]
  have left: "left_all (rotate k (states zs)) = left_all (states zs)" by (rule sum_list_rotate)
  show ?thesis
  proof (cases r)
    case None
    then show ?thesis
      using pop s2(1,3,8) rest(1) left
      by (intro exI [of _ s1] exI [of _ s2] exI [of _ s2] exI [of _ g'] exI [of _ "rotate k zs"]) (auto simp: rotate_map)
  next
    case (Some u)
    have n: "n \<notin> fst ` set (rotate k zs)"
    proof -
      have "ready_list s = n # map fst zs" by (rule s(2))
      moreover have "distinct (ready_list s)" using s(1) by (simp add: ready_ok_def)
      ultimately have "distinct (n # map fst zs)" by simp
      then show ?thesis by simp
    qed
    have u: "fst u = fst t" "proc_rep cfg g' s2 p u" "pcb_of s2 n = Some p" "fp (pcbs s2 ! p) = fp (pcbs s ! p)" using s2(10) Some by blast+
    have "\<forall>z \<in> set (rotate k zs). fst (snd z) \<noteq> p \<and> fp (pcbs s2 ! fst (snd z)) \<noteq> fp (pcbs s2 ! p)" using rest(2) u(4) by simp
    from queue_again [OF rest(1) u(3) n u(2) this] obtain s' where
      s': "ready_queue_add_to_tail n s2 = Some s'" "queue_rep cfg g' s' (rotate k zs @ [(n, p, u)])" "a2_user cfg s' = a2_user cfg s2" by blast
    then show ?thesis
      using pop s2(1,3,8) left Some u(1)
      by (intro exI [of _ s1] exI [of _ s2] exI [of _ s'] exI [of _ g'] exI [of _ "rotate k zs @ [(n, p, u)]"]) (auto simp: rotate_map)
  qed
qed

lemma turn_order_Cons: "0 < q \<Longrightarrow> turn q t = (ls, k, r) \<Longrightarrow> turn_order q (t # ts) = ls @ turn_order q (rotate k ts @ rest_list r)"
  by simp

lemma queue_empty: "queue_rep cfg g s [] \<Longrightarrow> is_ready_empty s \<and> \<not> active s"
  using ready_ok_empty [of s] by (simp add: queue_rep_def is_ready_empty_def)

lemma queue_head: "queue_rep cfg g s (z # zs) \<Longrightarrow> \<not> is_ready_empty s"
  using ready_ok_empty [of s] by (simp add: queue_rep_def is_ready_empty_def)

lemma turns_weight:
  "turn q t = (ls, k, r) \<Longrightarrow> 0 < q \<Longrightarrow> (\<Sum>u \<leftarrow> rotate k ts @ rest_list r. turn_weight u) < (\<Sum>u \<leftarrow> t # ts. turn_weight u)"
  using turn_weight_less [of q t ls k r] by (simp add: sum_list_rotate)

lemma scheduler_RR_rep:
  assumes "queue_rep cfg g s zs" and "0 < q" and "\<forall>t \<in> set (states zs). a2_quiet cfg parse F (fst t)"
    and "3 * (g + left_all (states zs)) \<le> THRESHOLD cfg" and "(\<Sum>t \<leftarrow> states zs. turn_weight t) < n"
  shows "\<exists>s'. scheduler_RR cfg parse (Suc fuel) q n s = Ret () s' \<and> queue_rep cfg (g + left_all (states zs)) s' [] \<and>
    a2_user cfg s' = fold F (turn_order q (states zs)) (a2_user cfg s)"
  using assms(1,3-5)
proof (induction n arbitrary: g s zs)
  case (Suc n)
  show ?case
  proof (cases zs)
    case Nil
    then show ?thesis using Suc.prems(1) queue_empty [of cfg g s] by simp
  next
    case (Cons z zs1)
    obtain m p t where z: "z = (m, p, t)" by (metis prod_cases3)
    obtain ls k r where t: "turn q t = (ls, k, r)" by (metis prod_cases3)
    have st: "states zs = t # states zs1" by (simp add: Cons z)
    have Q: "queue_rep cfg g s ((m, p, t) # zs1)" using Suc.prems(1) Cons z by simp
    have quiet: "\<forall>u \<in> set (t # states zs1). a2_quiet cfg parse F (fst u)" using Suc.prems(2) unfolding st .
    then have qu: "a2_quiet cfg parse F (fst t)" by simp
    from one_turn [OF Q qu t Suc.prems(3) [unfolded st], of fuel] obtain s1 s2 s3 g' zs' where
      s3: "ready_queue_pop_head s = Some (Some m, s1)" "execute_process cfg parse (Suc fuel) m q s1 = Ret (r = None) s2"
        "(if r = None then Some s2 else ready_queue_add_to_tail m s2) = Some s3" "queue_rep cfg g' s3 zs'"
        "states zs' = rotate k (states zs1) @ rest_list r" "a2_user cfg s3 = fold F ls (a2_user cfg s)"
        "g' + left_all (states zs') = g + left_all (t # states zs1)" "\<forall>u \<in> set (states zs'). fst u \<in> fst ` set (t # states zs1)" by blast
    have quiet': "\<forall>u \<in> set (states zs'). a2_quiet cfg parse F (fst u)" using quiet s3(8) by force
    have room': "3 * (g' + left_all (states zs')) \<le> THRESHOLD cfg" using Suc.prems(3) unfolding st s3(7) .
    have "(\<Sum>t \<leftarrow> states zs'. turn_weight t) < n"
      using turns_weight [OF t assms(2), of "states zs1"] Suc.prems(4) unfolding st s3(5) by linarith
    from Suc.IH [OF s3(4) quiet' room' this] obtain s' where
      s': "scheduler_RR cfg parse (Suc fuel) q n s3 = Ret () s'" "queue_rep cfg (g' + left_all (states zs')) s' []"
        "a2_user cfg s' = fold F (turn_order q (states zs')) (a2_user cfg s3)" by blast
    have "scheduler_RR cfg parse (Suc fuel) q (Suc n) s = Ret () s'"
      using queue_head [OF Q] s3(1-3) s'(1) by simp
    moreover have "turn_order q (states zs) = ls @ turn_order q (states zs')" unfolding st s3(5) by (rule turn_order_Cons [OF assms(2) t])
    ultimately show ?thesis using s'(2,3) s3(6,7) st by simp
  qed
qed simp

lemma long_turn: "turn q (L, c, m) = (ls, k, r) \<Longrightarrow> length L - c < q \<Longrightarrow> r = None \<and> ls = drop c L"
proof (induction q arbitrary: c m ls k)
  case (Suc q)
  show ?case
  proof (cases "c < length L")
    case True
    obtain ls' k' where t: "turn q (L, Suc c, m + (if c div 3 < m then 0 else 1)) = (ls', k', r)" "ls = L ! c # ls'"
      using Suc.prems(1) True by (auto simp: Let_def split: prod.splits)
    moreover have "length L - Suc c < q" using Suc.prems(2) True by simp
    ultimately show ?thesis using Suc.IH Cons_nth_drop_Suc [OF True] by metis
  qed (use Suc.prems in \<open>simp add: Let_def split: if_splits\<close>)
qed simp

lemma scheduler_FCFS_rep:
  assumes "queue_rep cfg g s zs" and "\<forall>t \<in> set (states zs). a2_quiet cfg parse F (fst t)"
    and "3 * (g + left_all (states zs)) \<le> THRESHOLD cfg" and "length zs < n"
  shows "\<exists>s'. scheduler_FCFS cfg parse (Suc fuel) n s = Ret () s' \<and> queue_rep cfg (g + left_all (states zs)) s' [] \<and>
    a2_user cfg s' = fold F (turn_order MAX_INT (states zs)) (a2_user cfg s)"
  using assms
proof (induction n arbitrary: g s zs)
  case (Suc n)
  show ?case
  proof (cases zs)
    case Nil
    then show ?thesis using Suc.prems(1) queue_empty [of cfg g s] by simp
  next
    case (Cons z zs1)
    obtain m p t where z: "z = (m, p, t)" by (metis prod_cases3)
    obtain L c h where e: "t = (L, c, h)" by (metis prod_cases3)
    obtain ls k r where t: "turn MAX_INT t = (ls, k, r)" by (metis prod_cases3)
    have st: "states zs = t # states zs1" by (simp add: Cons z)
    have Q: "queue_rep cfg g s ((m, p, t) # zs1)" using Suc.prems(1) Cons z by simp
    then have "length L < 60" by (simp add: queue_rep_def e proc_rep.simps)
    then have r: "r = None" using long_turn [of MAX_INT L c h ls k r] t e by (simp add: MAX_INT_def)
    have quiet: "\<forall>u \<in> set (t # states zs1). a2_quiet cfg parse F (fst u)" using Suc.prems(2) unfolding st .
    then have qu: "a2_quiet cfg parse F (fst t)" by simp
    from one_turn [OF Q qu t Suc.prems(3) [unfolded st], of fuel] obtain s1 s2 s3 g' zs' where
      s3: "ready_queue_pop_head s = Some (Some m, s1)" "execute_process cfg parse (Suc fuel) m MAX_INT s1 = Ret (r = None) s2"
        "(if r = None then Some s2 else ready_queue_add_to_tail m s2) = Some s3" "queue_rep cfg g' s3 zs'"
        "states zs' = rotate k (states zs1) @ rest_list r" "a2_user cfg s3 = fold F ls (a2_user cfg s)"
        "g' + left_all (states zs') = g + left_all (t # states zs1)" "\<forall>u \<in> set (states zs'). fst u \<in> fst ` set (t # states zs1)" by blast
    have quiet': "\<forall>u \<in> set (states zs'). a2_quiet cfg parse F (fst u)" using quiet s3(8) by force
    have room': "3 * (g' + left_all (states zs')) \<le> THRESHOLD cfg" using Suc.prems(3) unfolding st s3(7) .
    have "length (states zs') = length (states zs1)" unfolding s3(5) r by simp
    then have "length zs' < n" using Suc.prems(4) Cons by simp
    from Suc.IH [OF s3(4) quiet' room' this] obtain s' where
      s': "scheduler_FCFS cfg parse (Suc fuel) n s3 = Ret () s'" "queue_rep cfg (g' + left_all (states zs')) s' []"
        "a2_user cfg s' = fold F (turn_order MAX_INT (states zs')) (a2_user cfg s3)" by blast
    have "scheduler_FCFS cfg parse (Suc fuel) (Suc n) s = Ret () s'"
      using queue_head [OF Q] s3(1-3) s'(1) r by simp
    moreover have "0 < MAX_INT" by (simp add: MAX_INT_def)
    then have "turn_order MAX_INT (states zs) = ls @ turn_order MAX_INT (states zs')" unfolding st s3(5) by (rule turn_order_Cons [OF _ t])
    ultimately show ?thesis using s'(2,3) s3(6,7) st by simp
  qed
qed simp

section \<open>Loading scripts\<close>

definition start_pages :: "string list \<Rightarrow> nat" where
  "start_pages L = min 2 ((length L + 2) div 3)"

definition started :: "string list \<Rightarrow> script_state" where
  "started L = (L, 0, start_pages L)"

definition first_frames :: "nat \<Rightarrow> string list \<Rightarrow> int list" where
  "first_frames g L = (if start_pages L = 2 then (replicate PAGE_TABLE_SIZE (-1))[0 := int g, 1 := int (Suc g)]
     else (replicate PAGE_TABLE_SIZE (-1))[0 := int g])"

definition kept_kernel :: "'os a2 \<Rightarrow> 'os a2 \<Rightarrow> bool" where
  "kept_kernel s s' \<longleftrightarrow> qnodes s' = qnodes s \<and> qhead s' = qhead s \<and> pcbs s' = pcbs s \<and> active s' = active s \<and> in_background s' = in_background s"

lemma first_page:
  assumes st: "store_ok cfg g s" "3 * Suc g \<le> THRESHOLD cfg" and f: "f < length (streams s)"
    and L: "reads (SHELL_MEM_LENGTH cfg) (streams s ! f) L" and pg: "pg < PAGE_TABLE_SIZE" and tab: "length (local_table s) = PAGE_TABLE_SIZE"
    and name: "name \<noteq> NONE"
  shows "\<exists>s'. load_page_into_frame_store cfg f name Local (int pg) s = Some (0, s') \<and> local_table s' = (local_table s)[pg := int g] \<and>
    store_ok cfg (Suc g) s' \<and> a2_user cfg s' = a2_user cfg s \<and> kept_kernel s s' \<and> length (streams s') = length (streams s) \<and>
    (\<forall>f'. f' \<noteq> f \<longrightarrow> streams s' ! f' = streams s ! f') \<and> left_in (SHELL_MEM_LENGTH cfg) (streams s' ! f) (drop 3 L) \<and>
    (\<forall>x < 3 * g. shellmem s' ! x = shellmem s ! x) \<and> (\<forall>k < 3. val (shellmem s' ! (3 * g + k)) = (if k < length L then L ! k else NONE))"
proof -
  have tg: "table_get Local s = Some (local_table s)" by (simp add: table_get_def)
  from load_into_hole [OF st f L tg tab pg, of name] obtain s1 st' where
    s1: "table_put Local ((local_table s)[pg := int g]) s = Some s1" "left_in (SHELL_MEM_LENGTH cfg) st' (drop 3 L)"
      "load_page_into_frame_store cfg f name Local (int pg) s = Some (0, page_loaded g f name L st' s1)" by blast
  have e: "s1 = s\<lparr>local_table := (local_table s)[pg := int g]\<rparr>" using s1(1) by (simp add: table_put_def)
  have st1: "store_ok cfg g s1" using st(1) by (simp add: e store_ok_def)
  note pl = page_loaded_store [OF st1 st(2) name, where f = f and ls = L and st' = st']
  have "a2_user cfg s1 = a2_user cfg s" by (simp add: e a2_user_def)
  then show ?thesis using s1(2,3) pl f by (simp add: kept_kernel_def) (simp add: e)
qed

lemma local_loads:
  assumes st: "store_ok cfg g s" and f: "f < length (streams s)" and L: "left_in (SHELL_MEM_LENGTH cfg) (streams s ! f) L" "L \<noteq> []"
    and room: "3 * (g + start_pages L) \<le> THRESHOLD cfg" and name: "name \<noteq> NONE" and tab: "local_table s = replicate PAGE_TABLE_SIZE (-1)"
  shows "\<exists>c c' s1 s2. load_page_into_frame_store cfg f name Local 0 s = Some (c, s1) \<and>
    load_page_into_frame_store cfg f name Local 1 s1 = Some (c', s2) \<and> local_table s2 = first_frames g L \<and> store_ok cfg (g + start_pages L) s2 \<and>
    a2_user cfg s2 = a2_user cfg s \<and> kept_kernel s s2 \<and> length (streams s2) = length (streams s) \<and>
    (\<forall>f'. f' \<noteq> f \<longrightarrow> streams s2 ! f' = streams s ! f') \<and> left_in (SHELL_MEM_LENGTH cfg) (streams s2 ! f) (drop (3 * start_pages L) L) \<and>
    (\<forall>x < 3 * g. shellmem s2 ! x = shellmem s ! x) \<and> (\<forall>i < start_pages L. page_held s2 L i (g + i))"
proof -
  have "1 \<le> length L" using L(2) by (simp add: Suc_le_eq)
  then have "1 \<le> (length L + 2) div 3" by (simp add: less_eq_div_iff_mult_less_eq)
  moreover have "2 \<le> (length L + 2) div 3 \<longleftrightarrow> 3 < length L" by (auto simp: less_eq_div_iff_mult_less_eq)
  ultimately have n: "0 < start_pages L" "start_pages L = 2 \<longleftrightarrow> drop 3 L \<noteq> []" by (auto simp: start_pages_def min_def)
  have r: "reads (SHELL_MEM_LENGTH cfg) (streams s ! f) L" using L by (simp add: left_in_def)
  have "3 * Suc g \<le> THRESHOLD cfg" using room n(1) by simp
  from first_page [OF st this f r, of 0 name] name tab obtain s1 where
    s1: "load_page_into_frame_store cfg f name Local 0 s = Some (0, s1)" "local_table s1 = (replicate PAGE_TABLE_SIZE (-1))[0 := int g]"
      "store_ok cfg (Suc g) s1" "a2_user cfg s1 = a2_user cfg s" "kept_kernel s s1" "length (streams s1) = length (streams s)"
      "\<forall>f'. f' \<noteq> f \<longrightarrow> streams s1 ! f' = streams s ! f'" "left_in (SHELL_MEM_LENGTH cfg) (streams s1 ! f) (drop 3 L)"
      "\<forall>x < 3 * g. shellmem s1 ! x = shellmem s ! x" "\<forall>k < 3. val (shellmem s1 ! (3 * g + k)) = (if k < length L then L ! k else NONE)"
    by (auto simp: PAGE_TABLE_SIZE_def)
  have f1: "f < length (streams s1)" using f s1(6) by simp
  show ?thesis
  proof (cases "drop 3 L = []")
    case True
    then have one: "start_pages L = 1" using n by (simp add: start_pages_def min_def split: if_splits)
    have "load_page_into_frame_store cfg f name Local 1 s1 = Some (21, s1)" using load_at_end [OF s1(3) f1] s1(8) True by simp
    moreover have "page_held s1 L 0 g" using s1(10) by (simp add: page_held_def)
    ultimately show ?thesis using s1 one True by (intro exI [of _ 0] exI [of _ 21] exI [of _ s1]) (simp add: first_frames_def)
  next
    case False
    then have two: "start_pages L = 2" using n by simp
    have r1: "reads (SHELL_MEM_LENGTH cfg) (streams s1 ! f) (drop 3 L)" using s1(8) False by (simp add: left_in_def)
    have "3 * Suc (Suc g) \<le> THRESHOLD cfg" using room two by simp
    from first_page [OF s1(3) this f1 r1, of 1 name] name s1(2) obtain s2 where
      s2: "load_page_into_frame_store cfg f name Local 1 s1 = Some (0, s2)" "local_table s2 = (local_table s1)[1 := int (Suc g)]"
        "store_ok cfg (Suc (Suc g)) s2" "a2_user cfg s2 = a2_user cfg s1" "kept_kernel s1 s2" "length (streams s2) = length (streams s1)"
        "\<forall>f'. f' \<noteq> f \<longrightarrow> streams s2 ! f' = streams s1 ! f'" "left_in (SHELL_MEM_LENGTH cfg) (streams s2 ! f) (drop 3 (drop 3 L))"
        "\<forall>x < 3 * Suc g. shellmem s2 ! x = shellmem s1 ! x"
        "\<forall>k < 3. val (shellmem s2 ! (3 * Suc g + k)) = (if k < length (drop 3 L) then drop 3 L ! k else NONE)"
      by (auto simp: PAGE_TABLE_SIZE_def)
    have "page_held s2 L 0 g" using s1(10) s2(9) by (simp add: page_held_def)
    moreover have "page_held s2 L 1 (Suc g)" using s2(10) by (auto simp: page_held_def)
    ultimately have "\<forall>i < 2. page_held s2 L i (g + i)" by (auto simp: less_2_cases_iff)
    moreover have "kept_kernel s s2" using s1(5) s2(5) by (simp add: kept_kernel_def)
    moreover have "left_in (SHELL_MEM_LENGTH cfg) (streams s2 ! f) (drop (3 * 2) L)" using s2(8) by simp
    moreover have "local_table s2 = first_frames g L" using s2(2) s1(2) two by (simp add: first_frames_def)
    ultimately show ?thesis using s1 s2 two by (intro exI [of _ 0] exI [of _ s1] exI [of _ s2]) simp
  qed
qed

end
