(* ===== verification/A2_Scripts.thy ===== *)
theory A2_Scripts
  imports A2_Schedule
begin

text \<open>
  The commands \<open>run\<close> and \<open>exec\<close> of assignment 2 on scripts whose pages fit in the free frames: from the copies in the
  backing store to the end of the last process.
\<close>

section \<open>A new process\<close>

lemma linked_more: "linked h p as \<Longrightarrow> linked (h @ xs) p as"
proof (induction as arbitrary: p)
  case (Cons a as)
  then obtain nd where nd: "node_at h a = Some nd" "p = Some a" "linked h (node_next nd) as" by (cases "node_at h a") auto
  then have "a < length h" using node_at_bound by fastforce
  then have "node_at (h @ xs) a = Some nd" using nd(1) by (simp add: node_at_def rd_def nth_append)
  then show ?case using nd Cons.IH by simp
qed simp

lemma node_at_more: "node_at (h @ [x]) a = (if a = length h then x else node_at h a)"
  by (auto simp: node_at_def rd_def nth_append)

definition new_pcb :: "nat \<Rightarrow> nat \<Rightarrow> string \<Rightarrow> int list \<Rightarrow> int \<Rightarrow> pcb" where
  "new_pcb g f name t i = \<lparr>priority = False, pid = i, PC = int g * 3, job_length_score = 0, page_table = t, fp = f, filename = name\<rparr>"

definition process_added :: "pcb \<Rightarrow> 'os a2 \<Rightarrow> 'os a2" where
  \<comment> \<open>a control block and its node, not yet in the queue\<close>
  "process_added q s = s\<lparr>pid_counter := pid_counter s + 1, pcbs := pcbs s @ [q],
     qnodes := qnodes s @ [Some \<lparr>node_pcb = length (pcbs s), node_next = None\<rparr>]\<rparr>"

lemma process_added_fields:
  "streams (process_added q s) = streams s" "shellmem (process_added q s) = shellmem s" "active (process_added q s) = active s"
  "in_background (process_added q s) = in_background s" "a2_user cfg (process_added q s) = a2_user cfg s"
  "pcbs (process_added q s) = pcbs s @ [q]" "qhead (process_added q s) = qhead s"
  by (simp_all add: process_added_def a2_user_def)

lemma pcb_of_added: "pcb_of (process_added q s) n = (if n = length (qnodes s) then Some (length (pcbs s)) else pcb_of s n)"
  by (simp add: pcb_of_def process_added_def node_at_more)

lemma ready_added:
  assumes "ready_ok s"
  shows "ready_ok (process_added q s) \<and> ready_list (process_added q s) = ready_list s"
  by (rule ready_okI) (use assms linked_more in \<open>auto simp: ready_ok_def process_added_def\<close>)

lemma first_frames_nth:
  "i < PAGE_TABLE_SIZE \<Longrightarrow> 0 < start_pages L \<Longrightarrow> first_frames g L ! i = (if i < start_pages L then int (g + i) else -1)"
  by (auto simp: first_frames_def start_pages_def PAGE_TABLE_SIZE_def nth_list_update min_def less_2_cases_iff split: if_splits)

lemma length_first_frames [simp]: "length (first_frames g L) = PAGE_TABLE_SIZE"
  by (simp add: first_frames_def)

lemma start_pages_bounds:
  assumes "L \<noteq> []"
  shows "0 < start_pages L" and "start_pages L \<le> 2" and "3 * start_pages L < length L + 3" and "pages_left (started L) + start_pages L = (length L + 2) div 3"
proof -
  have "1 \<le> length L" using assms by (simp add: Suc_le_eq)
  then have "1 \<le> (length L + 2) div 3" by (simp add: less_eq_div_iff_mult_less_eq)
  then show "0 < start_pages L" by (simp add: start_pages_def)
  show "start_pages L \<le> 2" by (simp add: start_pages_def)
  have "start_pages L \<le> (length L + 2) div 3" by (simp add: start_pages_def)
  then show "3 * start_pages L < length L + 3" by linarith
  show "pages_left (started L) + start_pages L = (length L + 2) div 3" by (simp add: started_def start_pages_def)
qed

lemma load_process_rep:
  assumes q: "queue_rep cfg g s zs" and f: "f < length (streams s)" "\<forall>z \<in> set zs. fp (pcbs s ! fst (snd z)) \<noteq> f"
    and L: "left_in (SHELL_MEM_LENGTH cfg) (streams s ! f) L" "L \<noteq> []" "length L < 60" "NONE \<notin> set L"
    and room: "3 * (g + start_pages L) \<le> THRESHOLD cfg" and name: "name \<noteq> NONE" "length name < 100"
  shows "\<exists>s' zs'. load_process cfg f name s = Some s' \<and> queue_rep cfg (g + start_pages L) s' zs' \<and> states zs' = states zs @ [started L] \<and>
    a2_user cfg s' = a2_user cfg s"
proof -
  let ?s0 = "s\<lparr>local_table := replicate PAGE_TABLE_SIZE (-1)\<rparr>" let ?g = "g + start_pages L"
  have st: "store_ok cfg g s" "\<not> active s" "\<not> in_background s" "ready_ok s" "ready_list s = map fst zs" using q by (simp_all add: queue_rep_def)
  have st0: "store_ok cfg g ?s0" using st(1) by (simp add: store_ok_def)
  have f0: "f < length (streams ?s0)" and L0: "left_in (SHELL_MEM_LENGTH cfg) (streams ?s0 ! f) L" using f(1) L(1) by simp_all
  from local_loads [OF st0 f0 L0 L(2) room name(1)] obtain c c' s1 s2 where
    l: "load_page_into_frame_store cfg f name Local 0 ?s0 = Some (c, s1)" "load_page_into_frame_store cfg f name Local 1 s1 = Some (c', s2)"
      "local_table s2 = first_frames g L" "store_ok cfg ?g s2" "a2_user cfg s2 = a2_user cfg ?s0" "kept_kernel ?s0 s2"
      "length (streams s2) = length (streams s)" "\<forall>f'. f' \<noteq> f \<longrightarrow> streams s2 ! f' = streams s ! f'"
      "left_in (SHELL_MEM_LENGTH cfg) (streams s2 ! f) (drop (3 * start_pages L) L)"
      "\<forall>x < 3 * g. shellmem s2 ! x = shellmem s ! x" "\<forall>i < start_pages L. page_held s2 L i (g + i)" by auto
  have k: "qnodes s2 = qnodes s" "qhead s2 = qhead s" "pcbs s2 = pcbs s" "active s2 = active s" "in_background s2 = in_background s"
    using l(6) by (simp_all add: kept_kernel_def)
  note n = start_pages_bounds [OF L(2)]
  let ?q = "new_pcb g f name (first_frames g L) (pid_counter s2)" let ?t = "process_added ?q s2" let ?p = "length (pcbs s)"
  have zero: "first_frames g L ! 0 = int g" using first_frames_nth [of 0 L g] n(1) by (simp add: PAGE_TABLE_SIZE_def)
  have made: "load_process cfg f name s = ready_queue_add_to_tail (length (qnodes s)) ?t"
    using l(1-3) name(2) zero k(1)
    by (simp add: load_process_def Let_def makePCB_withPageTable_def generatePID_def rd_Some PAGE_TABLE_SIZE_def FRAME_SIZE_def
        new_node_def new_pcb_def process_added_def)
  have rl: "ready_list s2 = ready_list s" "ready_ok s2" using ready_same [of s2 s] k st(4) by simp_all
  have t: "ready_ok ?t" "ready_list ?t = map fst zs" using ready_added [OF rl(2)] rl(1) st(5) by simp_all
  note fld = process_added_fields [where s = s2]
  have old: "pcb_of ?t (fst z) = Some (fst (snd z)) \<and> proc_rep cfg ?g ?t (fst (snd z)) (snd (snd z)) \<and> fst (snd z) < ?p \<and> fst z \<noteq> length (qnodes s) \<and>
      pcbs ?t ! fst (snd z) = pcbs s ! fst (snd z) \<and> fp (pcbs s ! fst (snd z)) < length (streams s)" if z: "z \<in> set zs" for z
  proof -
    have r: "pcb_of s (fst z) = Some (fst (snd z))" "proc_rep cfg g s (fst (snd z)) (snd (snd z))" using q z by (simp_all add: queue_rep_def)
    obtain L' c m where e: "snd (snd z) = (L', c, m)" by (metis prod_cases3)
    have b: "fst (snd z) < ?p" "fp (pcbs s ! fst (snd z)) < length (streams s)" using r(2) by (simp_all add: e proc_rep.simps)
    have "fst z < length (qnodes s)" using r(1) node_at_bound [of "qnodes s" "fst z"] by (auto simp: pcb_of_def)
    moreover have same: "pcbs ?t ! fst (snd z) = pcbs s ! fst (snd z)" using b(1) by (simp add: fld k(3) nth_append)
    moreover have "proc_rep cfg ?g ?t (fst (snd z)) (snd (snd z))"
      by (rule proc_rep_mono [OF r(2), of _ "priority (pcbs s ! fst (snd z))"]) (use f(2) z l(7,8,10) same in \<open>simp_all add: fld k(3)\<close>)
    ultimately show ?thesis using r(1) b k(1) by (simp add: pcb_of_added) (simp add: pcb_of_def)
  qed
  have distinct: "distinct (map (\<lambda>z. fst (snd z)) zs)" "distinct (map (\<lambda>z. fp (pcbs s ! fst (snd z))) zs)" using q by (simp_all add: queue_rep_def)
  have same: "map (\<lambda>z. fp (pcbs ?t ! fst (snd z))) zs = map (\<lambda>z. fp (pcbs s ! fst (snd z))) zs" using old by (intro map_cong) auto
  have "distinct (map (\<lambda>z. fp (pcbs ?t ! fst (snd z))) zs)" unfolding same by (rule distinct(2))
  moreover have "store_ok cfg ?g ?t" using l(4) by (simp add: store_ok_def fld)
  ultimately have Q: "queue_rep cfg ?g ?t zs" using t st(2,3) k(4,5) distinct(1) old by (simp add: queue_rep_def fld)
  have at: "?p < length (pcbs ?t)" "pcbs ?t ! ?p = ?q" using k(3) by (simp_all add: fld)
  moreover have "\<forall>i < start_pages L. page_held ?t L i (g + i)" using l(11) by (simp add: page_held_def fld)
  ultimately have new: "proc_rep cfg ?g ?t ?p (started L)"
    using f(1) L(3,4) l(7,9) name(1) n(1-3) first_frames_nth [OF _ n(1), of _ g] zero
    by (simp add: started_def proc_rep.simps new_pcb_def fld nat_int_add PAGE_TABLE_SIZE_def)
  have "pcb_of ?t (length (qnodes s)) = Some ?p" using k(1,3) by (simp add: pcb_of_added)
  moreover have "length (qnodes s) \<notin> fst ` set zs" using old by force
  moreover have "\<forall>z \<in> set zs. fst (snd z) \<noteq> ?p \<and> fp (pcbs ?t ! fst (snd z)) \<noteq> fp (pcbs ?t ! ?p)"
    using old f(2) at(2) by (auto simp: new_pcb_def)
  ultimately obtain s' where "ready_queue_add_to_tail (length (qnodes s)) ?t = Some s'"
    "queue_rep cfg ?g s' (zs @ [(length (qnodes s), ?p, started L)])" "a2_user cfg s' = a2_user cfg ?t"
    using queue_again [OF Q _ _ new] by blast
  moreover have "a2_user cfg ?t = a2_user cfg s" using l(5) by (simp add: fld) (simp add: a2_user_def)
  ultimately show ?thesis using made by (intro exI [of _ s'] exI [of _ "zs @ [(length (qnodes s), ?p, started L)]"]) simp
qed

section \<open>Copies in the backing store\<close>

definition copied :: "a2_config \<Rightarrow> 'os host_ops \<Rightarrow> string \<Rightarrow> string list \<Rightarrow> 'os a2 \<Rightarrow> 'os a2 \<Rightarrow> bool" where
  \<comment> \<open>the script is there, and \<open>cp\<close> puts a file with the lines \<open>L\<close> into the backing store, after which the shell's state is \<open>u'\<close>\<close>
  "copied cfg h name L u u' \<longleftrightarrow> name \<noteq> NONE \<and> os_open_read h name (a2_host u) \<noteq> None \<and>
     (\<exists>path content. backing_path h name u = Some path \<and> length (''cp '' @ name @ '' '' @ path) < 100 \<and>
        snd (host_system h (''cp '' @ name @ '' '' @ path) u) = u' \<and> os_open_read h path (a2_host u') = Some content \<and>
        reads (SHELL_MEM_LENGTH cfg) (opened content) L)"

fun all_copied :: "a2_config \<Rightarrow> 'os host_ops \<Rightarrow> string list \<Rightarrow> string list list \<Rightarrow> 'os a2 \<Rightarrow> 'os a2 \<Rightarrow> bool" where
  "all_copied cfg h (name # names) (L # Ls) u u' \<longleftrightarrow> (\<exists>u1. copied cfg h name L u u1 \<and> all_copied cfg h names Ls u1 u')"
| "all_copied cfg h names Ls u u' \<longleftrightarrow> names = [] \<and> Ls = [] \<and> u' = u"

lemma a2_user_host [simp]: "a2_host (a2_user cfg s) = a2_host s" "console (a2_user cfg s) = console s"
  by (simp_all add: a2_user_def)

lemma host_system_user:
  "snd (host_system h command (a2_user cfg s)) = a2_user cfg (snd (host_system h command s))"
  by (simp add: host_system_def split: prod.splits) (simp add: a2_user_def printf_def)

lemma reads_some: "reads n st L \<Longrightarrow> L \<noteq> []"
  by (auto simp: reads_def)

lemma queue_opened:
  assumes q: "queue_rep cfg g s zs" and e: "s' = s\<lparr>console := w, a2_host := os, streams := streams s @ [st]\<rparr>"
  shows "queue_rep cfg g s' zs" and "\<forall>z \<in> set zs. fp (pcbs s' ! fst (snd z)) \<noteq> length (streams s)"
proof -
  have r: "proc_rep cfg g s' (fst (snd z)) (snd (snd z)) \<and> fp (pcbs s ! fst (snd z)) < length (streams s)" if z: "z \<in> set zs" for z
  proof -
    have r: "proc_rep cfg g s (fst (snd z)) (snd (snd z))" using q z by (simp add: queue_rep_def)
    obtain L c m where t: "snd (snd z) = (L, c, m)" by (metis prod_cases3)
    have f: "fp (pcbs s ! fst (snd z)) < length (streams s)" using r by (simp add: t proc_rep.simps)
    then show ?thesis
      using proc_rep_mono [OF r, of s' "priority (pcbs s ! fst (snd z))" g] by (simp add: e nth_append)
  qed
  have "store_ok cfg g s' = store_ok cfg g s" "pcb_of s' = pcb_of s" by (simp_all add: e store_ok_def pcb_of_def fun_eq_iff)
  moreover have "ready_list s' = ready_list s \<and> ready_ok s' = ready_ok s" by (rule ready_same) (simp_all add: e)
  moreover have "pcbs s' = pcbs s" "active s' = active s" "in_background s' = in_background s" by (simp_all add: e)
  ultimately show "queue_rep cfg g s' zs" using q r by (simp add: queue_rep_def)
  show "\<forall>z \<in> set zs. fp (pcbs s' ! fst (snd z)) \<noteq> length (streams s)" using r by (force simp: e)
qed

lemma process_initialize_rep:
  assumes q: "queue_rep cfg g s zs" and c: "copied cfg h name L (a2_user cfg s) u" and L: "length L < 60" "NONE \<notin> set L"
    and room: "3 * (g + start_pages L) \<le> THRESHOLD cfg"
  shows "\<exists>s' zs'. process_initialize cfg h name s = Some (0, s') \<and> queue_rep cfg (g + start_pages L) s' zs' \<and>
    states zs' = states zs @ [started L] \<and> a2_user cfg s' = u"
proof -
  have name: "name \<noteq> NONE" "os_open_read h name (a2_host s) \<noteq> None" using c by (simp_all add: copied_def)
  from c obtain path content where path: "backing_path h name (a2_user cfg s) = Some path" "length (''cp '' @ name @ '' '' @ path) < 100"
    "snd (host_system h (''cp '' @ name @ '' '' @ path) (a2_user cfg s)) = u" "os_open_read h path (a2_host u) = Some content"
    "reads (SHELL_MEM_LENGTH cfg) (opened content) L" by (auto simp: copied_def)
  let ?cp = "''cp '' @ name @ '' '' @ path"
  obtain ret shown os where sys: "os_system h ?cp (a2_host s) = (ret, shown, os)" by (metis prod_cases3)
  let ?s1 = "printf shown s\<lparr>a2_host := os\<rparr>" let ?s2 = "?s1\<lparr>streams := streams s @ [opened content]\<rparr>"
  have run: "host_system h ?cp s = (ret, ?s1)" using sys by (simp add: host_system_def)
  have u: "u = a2_user cfg ?s1" using path(3) run by (simp only: host_system_user snd_conv)
  have bp: "backing_path h name s = Some path" using path(1) by (simp add: backing_path_def)
  have e: "?s2 = s\<lparr>console := console s @ [shown], a2_host := os, streams := streams s @ [opened content]\<rparr>" by (simp add: printf_def)
  note o = queue_opened [OF q e]
  have str: "length (streams s) < length (streams ?s2)" "streams ?s2 ! length (streams s) = opened content" by simp_all
  have ne: "L \<noteq> []" by (rule reads_some [OF path(5)])
  have li: "left_in (SHELL_MEM_LENGTH cfg) (streams ?s2 ! length (streams s)) L" using path(5) ne by (simp add: left_in_def)
  have "length name < 100" using path(2) by simp
  from load_process_rep [OF o(1) str(1) o(2) li ne L room name(1) this] obtain s' zs' where
    s': "load_process cfg (length (streams s)) name ?s2 = Some s'" "queue_rep cfg (g + start_pages L) s' zs'"
      "states zs' = states zs @ [started L]" "a2_user cfg s' = a2_user cfg ?s2" by blast
  have op: "os_open_read h path (a2_host ?s1) = Some content" using path(4) u by simp
  have str1: "open_stream content ?s1 = (length (streams s), ?s2)" by (simp add: open_stream_def opened_def printf_def)
  obtain script where "os_open_read h name (a2_host s) = Some script" using name(2) by blast
  then have "process_initialize cfg h name s = Some (0, s')"
    using bp path(2) run op str1 s'(1) by (simp add: process_initialize_def Let_def)
  moreover have "a2_user cfg ?s2 = u" unfolding u by (simp add: a2_user_def)
  ultimately show ?thesis using s'(2-4) by auto
qed

lemma init_all_rep:
  assumes "queue_rep cfg g s zs" and "all_copied cfg h names Ls (a2_user cfg s) u" and "\<forall>L \<in> set Ls. length L < 60 \<and> NONE \<notin> set L"
    and "3 * (g + (\<Sum>L \<leftarrow> Ls. start_pages L)) \<le> THRESHOLD cfg"
  shows "\<exists>s' zs'. init_all cfg h names s = Ret 0 s' \<and> queue_rep cfg (g + (\<Sum>L \<leftarrow> Ls. start_pages L)) s' zs' \<and>
    states zs' = states zs @ map started Ls \<and> a2_user cfg s' = u"
  using assms
proof (induction names arbitrary: Ls g s zs)
  case Nil
  then show ?case by (cases Ls) auto
next
  case (Cons name names)
  then obtain L Ls' u1 where l: "Ls = L # Ls'" "copied cfg h name L (a2_user cfg s) u1" "all_copied cfg h names Ls' u1 u"
    by (cases Ls) auto
  have room: "3 * (g + start_pages L) \<le> THRESHOLD cfg" using Cons.prems(4) l(1) by simp
  have ok: "length L < 60" "NONE \<notin> set L" using Cons.prems(3) l(1) by simp_all
  from process_initialize_rep [OF Cons.prems(1) l(2) ok room] obtain s1 zs1 where
    s1: "process_initialize cfg h name s = Some (0, s1)" "queue_rep cfg (g + start_pages L) s1 zs1" "states zs1 = states zs @ [started L]"
      "a2_user cfg s1 = u1" by blast
  have c: "all_copied cfg h names Ls' (a2_user cfg s1) u" using l(3) s1(4) by simp
  have "3 * (g + start_pages L + (\<Sum>L \<leftarrow> Ls'. start_pages L)) \<le> THRESHOLD cfg" using Cons.prems(4) l(1) by (simp add: add.assoc)
  from Cons.IH [OF s1(2) c _ this] Cons.prems(3) l(1) obtain s' zs' where
    s': "init_all cfg h names s1 = Ret 0 s'" "queue_rep cfg (g + start_pages L + (\<Sum>L \<leftarrow> Ls'. start_pages L)) s' zs'"
      "states zs' = states zs1 @ map started Ls'" "a2_user cfg s' = u" by auto
  then show ?case using s1(1,3) l(1) by (intro exI [of _ s'] exI [of _ zs']) (simp add: add.assoc)
qed

end
