(* ===== verification/A2_Runs.thy ===== *)
theory A2_Runs
  imports A2_Scripts "HOL-Library.Sublist" "HOL-Library.Multiset"
begin

text \<open>
  The commands \<open>exec\<close> and \<open>run\<close> of assignment 2 as a whole: the order in which they execute the lines of the scripts, that
  no line is lost or executed twice, and that the kernel is idle again afterwards.
\<close>

section \<open>The order of turns\<close>

fun lines_left :: "script_state \<Rightarrow> string list" where
  "lines_left (L, c, m) = drop c L"

lemma turn_lines: "turn q t = (ls, k, r) \<Longrightarrow> lines_left t = ls @ (case r of None \<Rightarrow> [] | Some u \<Rightarrow> lines_left u)"
proof (induction q t arbitrary: ls k r rule: turn.induct)
  case (2 q L c m)
  show ?case
  proof (cases "c < length L")
    case True
    obtain ls' k' where t: "turn q (L, Suc c, m + (if c div 3 < m then 0 else 1)) = (ls', k', r)" "ls = L ! c # ls'"
      using "2.prems" True by (auto simp: Let_def split: prod.splits)
    show ?thesis using "2.IH" [OF refl True t(1)] t(2) Cons_nth_drop_Suc [OF True] by simp
  qed (use "2.prems" in \<open>auto simp: Let_def split: if_splits\<close>)
qed simp

lemma turn_order_mset: "0 < q \<Longrightarrow> mset (turn_order q ts) = (\<Sum>t \<leftarrow> ts. mset (lines_left t))"
proof (induction q ts rule: turn_order.induct)
  case (2 q t ts)
  obtain ls k r where t: "turn q t = (ls, k, r)" by (metis prod_cases3)
  have "mset (turn_order q (rotate k ts @ rest_list r)) = (\<Sum>u \<leftarrow> rotate k ts @ rest_list r. mset (lines_left u))"
    using "2.IH" [OF t [symmetric] refl] "2.prems" by simp
  then show ?case using t turn_lines [OF t] "2.prems" by (cases r) (simp_all add: sum_list_rotate ac_simps)
qed simp

lemma turn_order_subseq: "0 < q \<Longrightarrow> t \<in> set ts \<Longrightarrow> subseq (lines_left t) (turn_order q ts)"
proof (induction q ts arbitrary: t rule: turn_order.induct)
  case (2 q u us)
  obtain ls k r where u: "turn q u = (ls, k, r)" by (metis prod_cases3)
  let ?next = "rotate k us @ rest_list r"
  have e: "turn_order q (u # us) = ls @ turn_order q ?next" by (rule turn_order_Cons [OF "2.prems"(1) u])
  have ih: "subseq (lines_left v) (turn_order q ?next)" if "v \<in> set ?next" for v
    using "2.IH" [OF u [symmetric] refl _ _ that] "2.prems"(1) by simp
  show ?case
  proof (cases "t \<in> set us")
    case True
    then show ?thesis using ih [of t] unfolding e by (simp add: list_emb_append2)
  next
    case False
    then have "t = u" using "2.prems"(2) by simp
    then show ?thesis unfolding e using turn_lines [OF u] ih by (cases r) (simp_all add: list_emb_append_mono subseq_rev_drop_many)
  qed
qed simp

lemma fault_overtakes:
  \<comment> \<open>the second script waits while the third, entered after it, has its turn\<close>
  "turn_order 2 (map started [[''a1'', ''a2'', ''a3''], [''b1'', ''b2'', ''b3'', ''b4''], [''c1'', ''c2'', ''c3'', ''c4'']])
   = [''a1'', ''a2'', ''b1'', ''b2'', ''c1'', ''c2'', ''a3'', ''c3'', ''c4'', ''b3'', ''b4'']"
  by code_simp

section \<open>exec and run\<close>

definition a2_idle :: "a2_config \<Rightarrow> nat \<Rightarrow> 'os a2 \<Rightarrow> bool" where
  \<comment> \<open>no process, and the first \<open>g\<close> frames in use\<close>
  "a2_idle cfg g s \<longleftrightarrow> store_ok cfg g s \<and> ready_ok s \<and> ready_list s = [] \<and> \<not> active s \<and> \<not> in_background s"

definition script_ok :: "a2_config \<Rightarrow> 'os a2_parser \<Rightarrow> (string \<Rightarrow> 'os a2 \<Rightarrow> 'os a2) \<Rightarrow> string list \<Rightarrow> bool" where
  \<comment> \<open>the page table has room for the lines, which run and leave the kernel alone\<close>
  "script_ok cfg parse F L \<longleftrightarrow> a2_quiet cfg parse F L \<and> length L < 60 \<and> NONE \<notin> set L"

abbreviation pages_of :: "string list \<Rightarrow> nat" where
  "pages_of L \<equiv> (length L + 2) div 3"

lemma idle_queue: "a2_idle cfg g s = queue_rep cfg g s []"
  by (auto simp: a2_idle_def queue_rep_def)

lemma copied_lines: "all_copied cfg h names Ls u u' \<Longrightarrow> [] \<notin> set Ls \<and> length Ls = length names"
  by (induction cfg h names Ls u u' rule: all_copied.induct) (auto simp: copied_def dest: reads_some)

lemma pages_started: "[] \<notin> set Ls \<Longrightarrow> (\<Sum>L \<leftarrow> Ls. start_pages L) + left_all (map started Ls) = (\<Sum>L \<leftarrow> Ls. pages_of L)"
proof (induction Ls)
  case (Cons L Ls)
  have "L \<noteq> []" using Cons.prems by auto
  then have "pages_left (started L) + start_pages L = pages_of L" by (rule start_pages_bounds(4))
  then show ?case using Cons by (simp add: comp_def del: pages_left.simps div_mult_self1)
qed simp

lemma start_weight: "(\<Sum>t \<leftarrow> map started Ls. turn_weight t) = (\<Sum>L \<leftarrow> Ls. Suc (length L))"
  by (simp add: comp_def started_def)

lemma exec_rep:
  assumes "a2_idle cfg g s" and "1 < length names" and c: "all_copied cfg h names Ls (a2_user cfg s) u"
    and ok: "\<forall>L \<in> set Ls. script_ok cfg parse F L" and room: "3 * (g + (\<Sum>L \<leftarrow> Ls. pages_of L)) \<le> THRESHOLD cfg"
    and fuel: "(\<Sum>L \<leftarrow> Ls. Suc (length L)) < fuel"
  shows "\<exists>s'. a2_exec cfg h parse fuel names s = Ret 0 s' \<and> a2_idle cfg (g + (\<Sum>L \<leftarrow> Ls. pages_of L)) s' \<and>
    a2_user cfg s' = fold F (turn_order 2 (map started Ls)) u"
proof -
  have q: "queue_rep cfg g s []" using assms(1) by (simp add: idle_queue)
  let ?g = "g + (\<Sum>L \<leftarrow> Ls. start_pages L)"
  have pages: "?g + left_all (map started Ls) = g + (\<Sum>L \<leftarrow> Ls. pages_of L)"
    using pages_started copied_lines [OF c] by (simp add: add.assoc del: pages_left.simps)
  then have "?g \<le> g + (\<Sum>L \<leftarrow> Ls. pages_of L)" by simp
  then have "3 * ?g \<le> THRESHOLD cfg" using room by (meson le_trans mult_le_mono2)
  from init_all_rep [OF q c _ this] ok obtain s1 zs where
    s1: "init_all cfg h names s = Ret 0 s1" "queue_rep cfg ?g s1 zs" "states zs = map started Ls" "a2_user cfg s1 = u"
    by (auto simp: script_ok_def)
  obtain f where f: "fuel = Suc f" using fuel by (cases fuel) auto
  have quiet: "\<forall>t \<in> set (states zs). a2_quiet cfg parse F (fst t)" using ok unfolding s1(3) by (simp add: started_def script_ok_def)
  have room1: "3 * (?g + left_all (states zs)) \<le> THRESHOLD cfg" using room unfolding s1(3) pages .
  have "(\<Sum>t \<leftarrow> states zs. turn_weight t) < fuel" using fuel unfolding s1(3) start_weight .
  from scheduler_RR_rep [OF s1(2) _ quiet room1 this, of 2 f]
  have "\<exists>s'. scheduler_RR cfg parse fuel 2 fuel s1 = Ret () s' \<and> queue_rep cfg (?g + left_all (map started Ls)) s' [] \<and>
    a2_user cfg s' = fold F (turn_order 2 (map started Ls)) u" unfolding f s1(3,4) by simp
  then obtain s' where
    s': "scheduler_RR cfg parse fuel 2 fuel s1 = Ret () s'" "queue_rep cfg (g + (\<Sum>L \<leftarrow> Ls. pages_of L)) s' []"
      "a2_user cfg s' = fold F (turn_order 2 (map started Ls)) u" unfolding pages by blast
  have "schedule_by_policy cfg parse fuel ''RR'' s1 = Ret 0 s'"
    using s'(1) s1(2) by (simp add: schedule_by_policy_def queue_rep_def)
  moreover obtain n1 n2 ns where "names = n1 # n2 # ns" using assms(2) by (cases names; cases "tl names") auto
  then have "a2_exec cfg h parse fuel names s = seq (init_all cfg h names s) (\<lambda>c s. if c \<noteq> 0 then handle_error_code c s
    else seq (schedule_by_policy cfg parse fuel ''RR'' s) (\<lambda>c s. if c \<noteq> 0 then handle_error_code c s else Ret c s))"
    by (simp only: a2_exec_def list.case)
  ultimately have "a2_exec cfg h parse fuel names s = Ret 0 s'" using s1(1) by simp
  then show ?thesis using s'(2,3) by (simp add: idle_queue)
qed

lemma run_rep:
  assumes "a2_idle cfg g s" and c: "copied cfg h name L (a2_user cfg s) u" and ok: "script_ok cfg parse F L"
    and room: "3 * (g + pages_of L) \<le> THRESHOLD cfg" and fuel: "1 < fuel"
  shows "\<exists>s'. a2_run cfg h parse fuel name s = Ret 0 s' \<and> a2_idle cfg (g + pages_of L) s' \<and> a2_user cfg s' = fold F L u"
proof -
  have q: "queue_rep cfg g s []" using assms(1) by (simp add: idle_queue)
  have ne: "L \<noteq> []" using c by (auto simp: copied_def dest: reads_some)
  have pages: "g + start_pages L + pages_left (started L) = g + pages_of L" using start_pages_bounds(4) [OF ne] by linarith
  then have "g + start_pages L \<le> g + pages_of L" by (metis le_add1)
  then have "3 * (g + start_pages L) \<le> THRESHOLD cfg" using room by (meson le_trans mult_le_mono2)
  from process_initialize_rep [OF q c _ _ this] ok obtain s1 zs where
    s1: "process_initialize cfg h name s = Some (0, s1)" "queue_rep cfg (g + start_pages L) s1 zs" "states zs = [started L]" "a2_user cfg s1 = u"
    by (auto simp: script_ok_def)
  obtain f where f: "fuel = Suc f" using fuel by (cases fuel) auto
  have quiet: "\<forall>t \<in> set (states zs). a2_quiet cfg parse F (fst t)" using ok unfolding s1(3) by (simp add: started_def script_ok_def)
  have one: "left_all (states zs) = pages_left (started L)" unfolding s1(3) by simp
  have room1: "3 * (g + start_pages L + left_all (states zs)) \<le> THRESHOLD cfg" using room unfolding one pages .
  have "length zs < fuel" using s1(3) fuel by (metis length_map length_Cons list.size(3) One_nat_def)
  from scheduler_FCFS_rep [OF s1(2) quiet room1 this, of f] obtain s' where
    s': "scheduler_FCFS cfg parse (Suc f) fuel s1 = Ret () s'" "queue_rep cfg (g + start_pages L + left_all (states zs)) s' []"
      "a2_user cfg s' = fold F (turn_order MAX_INT (states zs)) (a2_user cfg s1)" by blast
  obtain ls k r where t: "turn MAX_INT (started L) = (ls, k, r)" by (metis prod_cases3)
  have "length L < MAX_INT" using ok by (simp add: script_ok_def MAX_INT_def)
  then have "r = None \<and> ls = L" using long_turn [of MAX_INT L 0 "start_pages L" ls k r] t by (simp add: started_def)
  then have "turn_order MAX_INT (states zs) = L" unfolding s1(3) using t by simp
  moreover have "schedule_by_policy cfg parse fuel ''FCFS'' s1 = Ret 0 s'"
    using s'(1) s1(2) f by (simp add: schedule_by_policy_def queue_rep_def)
  then have "a2_run cfg h parse fuel name s = Ret 0 s'" using s1(1) by (simp add: a2_run_def)
  ultimately show ?thesis using s'(2,3) s1(4) unfolding idle_queue one pages by auto
qed

section \<open>Scripts of echo\<close>

definition spoken :: "string \<Rightarrow> 'os a2 \<Rightarrow> 'os a2" where
  \<comment> \<open>what a line \<open>echo w\<close> does\<close>
  "spoken l s = puts (strip_eol (drop 5 l)) s"

definition echo_script :: "string list \<Rightarrow> string list" where
  "echo_script ws = map (\<lambda>w. ''echo '' @ w @ nl) (butlast ws) @ [''echo '' @ last ws]"

lemma echo_line:
  assumes "token w" and "hd w \<noteq> CHR ''$''" and "e = [] \<or> e = nl"
  shows "a2_parseInput cfg h (Suc fuel) (''echo '' @ w @ e) s = Ret 0 (puts w s)"
proof -
  let ?run = "a2_interpreter cfg h (a2_parseInput cfg h fuel) fuel" and ?ws = "(replicate 100 None)[0 := Some ''echo''] :: string option list"
  have t: "token ''echo''" by (simp add: token_def plain_def)
  have w: "length w < 200" "w \<noteq> []" "plain w" using assms(1) by (simp_all add: token_def)
  have "a2_parseInput cfg h (Suc fuel) (''echo'' @ '' '' @ w @ e) s = split_line ?run 0 (''echo'' @ '' '' @ w @ e) (replicate 100 None) 0 s"
    by simp
  also have "\<dots> = split_line ?run 5 (w @ e) ?ws 1 s" using split_loop_word [OF t, of 0 0 "replicate 100 None" "'' '' @ w @ e"] by (simp add: eval_nat_numeral)
  also have "\<dots> = split_line ?run (Suc (5 + length w)) (tl e) (?ws[1 := Some w]) 2 s"
    using split_loop_word [OF assms(1), of 5 1 ?ws e] w(1) assms(3) by (auto simp: nl_def numeral_2_eq_2)
  also have "\<dots> = ?run (?ws[1 := Some w]) 2 s" using assms(3) by (auto simp: nl_def split_line_eq)
  also have "?ws[1 := Some w] = Some ''echo'' # Some w # replicate 98 None"
  proof -
    have "replicate (Suc (Suc 98)) (None :: string option) = None # None # replicate 98 None" by (simp only: replicate_Suc)
    then show ?thesis by simp
  qed
  also have "?run (Some ''echo'' # Some w # replicate 98 None) 2 s = Ret 0 (puts w s)"
    using w assms(2) by (simp add: a2_interpreter_def with_word_def strip_words_def A2_MAX_ARGS_SIZE_def a2_echo_def numeral_2_eq_2 strip_eol_def [of "''echo''"])
  finally show ?thesis by simp
qed

lemma echo_script_ok:
  assumes "\<forall>w \<in> set ws. token w \<and> hd w \<noteq> CHR ''$''" and "ws \<noteq> []" and "length ws < 60"
  shows "script_ok cfg (a2_parseInput cfg h (Suc fuel)) spoken (echo_script ws)"
proof -
  have line: "\<exists>w e. l = ''echo '' @ w @ e \<and> token w \<and> hd w \<noteq> CHR ''$'' \<and> (e = [] \<or> e = nl)" if "l \<in> set (echo_script ws)" for l
  proof -
    from that consider w where "w \<in> set (butlast ws)" "l = ''echo '' @ w @ nl" | "l = ''echo '' @ last ws @ []"
      unfolding echo_script_def by auto
    then show ?thesis
    proof cases
      case 1
      then show ?thesis using assms(1) in_set_butlastD [of w ws] by blast
    next
      case 2
      then show ?thesis using assms(1) last_in_set [OF assms(2)] by blast
    qed
  qed
  have "\<exists>ret s'. a2_parseInput cfg h (Suc fuel) l s = Ret ret s' \<and> a2_kernel_same cfg s s' \<and> a2_user cfg s' = spoken l (a2_user cfg s)"
    if l: "l \<in> set (echo_script ws)" for l and s :: "'a a2"
  proof -
    from line [OF l] obtain w e where "l = ''echo '' @ w @ e \<and> token w \<and> hd w \<noteq> CHR ''$'' \<and> (e = [] \<or> e = nl)" by (elim exE)
    then have w: "l = ''echo '' @ w @ e" "token w" "hd w \<noteq> CHR ''$''" "e = [] \<or> e = nl" by simp_all
    have "\<forall>c \<in> set w. c \<noteq> CHR 0x0D \<and> c \<noteq> CHR 0x0A" using w(2) by (auto simp: token_def plain_def)
    then have "strip_eol w = w" "strip_eol (w @ nl) = w" by (simp_all add: strip_eol_def nl_def takeWhile_append2 takeWhile_eq_all_conv)
    then have "strip_eol (w @ e) = w" using w(4) by (elim disjE) simp_all
    then have "a2_user cfg (puts w s) = spoken l (a2_user cfg s)" using w(1) by (simp add: spoken_def a2_user_def puts_def printf_def)
    moreover have "a2_kernel_same cfg s (puts w s)" by (simp add: a2_kernel_same_def puts_def printf_def)
    ultimately show ?thesis using echo_line [OF w(2-4)] w(1) by blast
  qed
  moreover have "NONE \<notin> set (echo_script ws)" using line by (force simp: NONE_def)
  moreover have "length (echo_script ws) < 60" using assms(2,3) by (simp add: echo_script_def)
  ultimately show ?thesis by (simp add: script_ok_def a2_quiet_def)
qed

section \<open>A host with a cp command\<close>

definition cp_host :: "(string \<Rightarrow> string option) host_ops" where
  \<comment> \<open>\<open>cp source target\<close>\<close>
  "cp_host = files_host\<lparr>os_system := (\<lambda>c fs. let src = takeWhile (\<lambda>x. x \<noteq> CHR '' '') (drop 3 c) in
     (0, [], if take 3 c = ''cp '' then fs(drop (4 + length src) c := fs src) else fs))\<rparr>"

definition cp_done :: "string \<Rightarrow> (string \<Rightarrow> string option) a2 \<Rightarrow> (string \<Rightarrow> string option) a2" where
  "cp_done name u = printf [] u\<lparr>a2_host := (a2_host u)(backing_store @ name := a2_host u name)\<rparr>"

lemma cp_done_host [simp]:
  "a2_host (cp_done name u) = (a2_host u)(backing_store @ name := a2_host u name)" "console (cp_done name u) = console u @ [[]]"
  by (simp_all add: cp_done_def printf_def)

lemma copied_cp:
  assumes "CHR '' '' \<notin> set name" and "name \<noteq> NONE" and "length name < 30" and "a2_host u name = Some content"
    and "a2_host u (backing_store @ name) = None" and "reads (SHELL_MEM_LENGTH cfg) (opened content) L"
  shows "copied cfg cp_host name L u (cp_done name u)"
proof -
  let ?cp = "''cp '' @ name @ '' '' @ backing_store @ name"
  have w: "takeWhile (\<lambda>x. x \<noteq> CHR '' '') (drop 3 ?cp) = name" using assms(1) by (auto simp: takeWhile_append2 takeWhile_tail)
  have d: "drop (4 + length name) ?cp = backing_store @ name" by (simp add: eval_nat_numeral)
  have "os_system cp_host ?cp os = (0, [], os(backing_store @ name := os name))" for os
    unfolding cp_host_def by (simp add: Let_def w [simplified] d [simplified])
  then have "snd (host_system cp_host ?cp u) = cp_done name u" by (simp add: host_system_def cp_done_def printf_def)
  moreover have "length backing_store = 16" by (simp add: backing_store_def)
  moreover have "os_open_read cp_host f os = os f" for f os by (simp add: cp_host_def files_host_def)
  ultimately show ?thesis using assms by (simp add: copied_def backing_path_def)
qed

definition turn_cfg :: a2_config where
  "turn_cfg = \<lparr>THRESHOLD = 18, VARMEMSIZE = 10\<rparr>"

definition shell_with :: "(string \<Rightarrow> string option) \<Rightarrow> (string \<Rightarrow> string option) a2" where
  "shell_with files = (a2_fresh turn_cfg [])\<lparr>a2_host := files\<rparr>"

lemma shell_with_user: "a2_host (shell_with files) = files" "console (shell_with files) = []"
  by (simp_all add: shell_with_def a2_fresh_def a2_mem_init_def)

lemma shell_with_idle: "a2_idle turn_cfg 0 (shell_with files)"
  by (simp add: a2_idle_def shell_with_def a2_fresh_def a2_mem_init_def store_ok_def turn_cfg_def SHELL_MEM_LENGTH_def ready_ok_def
      ready_list_def)

lemma spoken_console: "console (fold spoken ls u) = console u @ map (\<lambda>l. strip_eol (drop 5 l) @ nl) ls"
  by (induction ls arbitrary: u) (simp_all add: spoken_def puts_def)

lemma line_first:
  "CHR 0x0A \<notin> set l \<Longrightarrow> file_lines (l @ nl @ r) = (l @ nl) # file_lines r" "CHR 0x0A \<notin> set l \<Longrightarrow> file_lines l = [l]"
  by (induction l) (auto simp: nl_def)

lemma echo_script_lines: "ws \<noteq> [] \<Longrightarrow> \<forall>w \<in> set ws. token w \<Longrightarrow> file_lines (concat (echo_script ws)) = echo_script ws"
proof (induction ws rule: induct_list012)
  case (2 w)
  then have "CHR 0x0A \<notin> set (''echo '' @ w)" by (auto simp: token_def plain_def)
  then show ?case using line_first(2) [of "''echo '' @ w"] by (simp only: echo_script_def) simp
next
  case (3 w w' ws)
  have "CHR 0x0A \<notin> set (''echo '' @ w)" using "3.prems"(2) by (auto simp: token_def plain_def)
  moreover have "echo_script (w # w' # ws) = ((''echo '' @ w) @ nl) # echo_script (w' # ws)" by (simp add: echo_script_def)
  ultimately show ?case
    using line_first(1) [of "''echo '' @ w" "concat (echo_script (w' # ws))"] "3.IH"(2) "3.prems"(2) by (simp only: concat.simps append_assoc) simp
qed simp

lemma echo_script_reads:
  assumes "ws \<noteq> []" and "\<forall>w \<in> set ws. token w \<and> length w + 7 < n"
  shows "reads n (opened (concat (echo_script ws))) (echo_script ws)"
proof -
  have "file_lines (concat (echo_script ws)) = echo_script ws" using echo_script_lines assms by blast
  moreover have "length l < n - 1" if l: "l \<in> set (echo_script ws)" for l
  proof -
    have "l = ''echo '' @ last ws \<or> (\<exists>w \<in> set (butlast ws). l = ''echo '' @ w @ nl)" using l by (auto simp: echo_script_def)
    then obtain w where "w \<in> set ws" "length l \<le> 6 + length w"
      using last_in_set [OF assms(1)] by (auto simp: nl_def dest: in_set_butlastD)
    then show ?thesis using assms(2) by fastforce
  qed
  ultimately show ?thesis by (simp add: reads_def opened_def echo_script_def)
qed

section \<open>Properties of the scheduled scripts\<close>

text \<open>
  C3: Refinement. \<open>exec\<close> of two or three scripts, with no process in the kernel, whose lines run without touching the
  kernel and whose pages fit in the free frames, returns 0 and acts on the shell's state (console, variables, host) as the
  lines one by one in the order of \<open>turn_order\<close>: turns of two lines, where each page fault moves the process at the head
  of the queue to its end. The copies of the scripts precede all lines, and the kernel is idle again, with the
  frames of all pages in use. The fuel needed is the number of the lines and scripts.
\<close>

theorem a2_exec_turns:
  assumes "a2_idle cfg g s" and "1 < length names" and "all_copied cfg h names Ls (a2_user cfg s) u"
    and "\<forall>L \<in> set Ls. script_ok cfg parse F L" and "3 * (g + (\<Sum>L \<leftarrow> Ls. pages_of L)) \<le> THRESHOLD cfg"
    and "(\<Sum>L \<leftarrow> Ls. Suc (length L)) < fuel"
  shows "\<exists>s'. a2_exec cfg h parse fuel names s = Ret 0 s' \<and> a2_idle cfg (g + (\<Sum>L \<leftarrow> Ls. pages_of L)) s' \<and>
    a2_user cfg s' = fold F (turn_order 2 (map started Ls)) u"
  using assms by (rule exec_rep)

theorem a2_exec_turns_witness:
  "\<exists>s'. a2_exec turn_cfg cp_host (a2_parseInput turn_cfg cp_host 1) 15 [''a'', ''b'', ''c'']
      (shell_with [''a'' \<mapsto> concat (echo_script [''a1'', ''a2'', ''a3'']), ''b'' \<mapsto> concat (echo_script [''b1'', ''b2'', ''b3'', ''b4'']),
         ''c'' \<mapsto> concat (echo_script [''c1'', ''c2'', ''c3'', ''c4''])]) = Ret 0 s' \<and> a2_idle turn_cfg 5 s' \<and>
    console s' = [[], [], []] @ map (\<lambda>w. w @ nl) [''a1'', ''a2'', ''b1'', ''b2'', ''c1'', ''c2'', ''a3'', ''c3'', ''c4'', ''b3'', ''b4'']"
proof -
  let ?A = "echo_script [''a1'', ''a2'', ''a3'']" and ?B = "echo_script [''b1'', ''b2'', ''b3'', ''b4'']"
    and ?C = "echo_script [''c1'', ''c2'', ''c3'', ''c4'']"
  let ?s = "shell_with [''a'' \<mapsto> concat ?A, ''b'' \<mapsto> concat ?B, ''c'' \<mapsto> concat ?C]"
  let ?u = "a2_user turn_cfg ?s"
  have n: "SHELL_MEM_LENGTH turn_cfg = 28" by (simp add: turn_cfg_def SHELL_MEM_LENGTH_def)
  have r: "reads 28 (opened (concat ?A)) ?A" "reads 28 (opened (concat ?B)) ?B" "reads 28 (opened (concat ?C)) ?C"
    by (rule echo_script_reads; simp add: token_def)+
  have c: "copied turn_cfg cp_host ''a'' ?A ?u (cp_done ''a'' ?u)"
    "copied turn_cfg cp_host ''b'' ?B (cp_done ''a'' ?u) (cp_done ''b'' (cp_done ''a'' ?u))"
    "copied turn_cfg cp_host ''c'' ?C (cp_done ''b'' (cp_done ''a'' ?u)) (cp_done ''c'' (cp_done ''b'' (cp_done ''a'' ?u)))"
    using copied_cp r by (simp_all add: n shell_with_user backing_store_def NONE_def)
  let ?v = "cp_done ''c'' (cp_done ''b'' (cp_done ''a'' ?u))"
  have a: "all_copied turn_cfg cp_host [''a'', ''b'', ''c''] [?A, ?B, ?C] ?u ?v" using c by auto
  have ok: "\<forall>L \<in> set [?A, ?B, ?C]. script_ok turn_cfg (a2_parseInput turn_cfg cp_host (Suc 0)) spoken L"
    by (simp add: echo_script_ok token_def)
  have len: "length ?A = 3" "length ?B = 4" "length ?C = 4" by (simp_all add: echo_script_def)
  have t: "turn_order 2 (map started [?A, ?B, ?C]) = map (\<lambda>w. ''echo '' @ w) [''a1'' @ nl, ''a2'' @ nl, ''b1'' @ nl, ''b2'' @ nl, ''c1'' @ nl,
    ''c2'' @ nl, ''a3'', ''c3'' @ nl, ''c4'', ''b3'' @ nl, ''b4'']" by code_simp
  have "\<exists>s'. a2_exec turn_cfg cp_host (a2_parseInput turn_cfg cp_host (Suc 0)) 15 [''a'', ''b'', ''c''] ?s = Ret 0 s' \<and>
      a2_idle turn_cfg (0 + (\<Sum>L \<leftarrow> [?A, ?B, ?C]. pages_of L)) s' \<and> a2_user turn_cfg s' = fold spoken (turn_order 2 (map started [?A, ?B, ?C])) ?v"
    by (rule a2_exec_turns [OF shell_with_idle _ a ok]) (simp_all add: len turn_cfg_def)
  then obtain s' where s': "a2_exec turn_cfg cp_host (a2_parseInput turn_cfg cp_host (Suc 0)) 15 [''a'', ''b'', ''c''] ?s = Ret 0 s'"
    "a2_idle turn_cfg 5 s'" "a2_user turn_cfg s' = fold spoken (turn_order 2 (map started [?A, ?B, ?C])) ?v" by (auto simp: len)
  have "console s' = console (a2_user turn_cfg s')" by simp
  also have "\<dots> = [[], [], []] @ map (\<lambda>w. w @ nl) [''a1'', ''a2'', ''b1'', ''b2'', ''c1'', ''c2'', ''a3'', ''c3'', ''c4'', ''b3'', ''b4'']"
    unfolding s'(3) t spoken_console by (simp add: shell_with_user strip_eol_def nl_def)
  finally show ?thesis using s'(1,2) by simp
qed

text \<open>
  C16: Functional. \<open>run\<close> of a script of any number of pages that fits in the free frames, with no process in the kernel,
  acts on the shell's state as its lines in their order, whatever the page faults, and leaves the kernel idle.
\<close>

theorem a2_run_in_order:
  assumes "a2_idle cfg g s" and "copied cfg h name L (a2_user cfg s) u" and "script_ok cfg parse F L"
    and "3 * (g + pages_of L) \<le> THRESHOLD cfg" and "1 < fuel"
  shows "\<exists>s'. a2_run cfg h parse fuel name s = Ret 0 s' \<and> a2_idle cfg (g + pages_of L) s' \<and> a2_user cfg s' = fold F L u"
  using assms by (rule run_rep)

theorem a2_run_in_order_witness:
  "\<exists>s'. a2_run turn_cfg cp_host (a2_parseInput turn_cfg cp_host 1) 2 ''s''
      (shell_with [''s'' \<mapsto> concat (echo_script [''1'', ''2'', ''3'', ''4'', ''5'', ''6'', ''7'', ''8''])]) = Ret 0 s' \<and> a2_idle turn_cfg 3 s' \<and>
    console s' = [] # map (\<lambda>w. w @ nl) [''1'', ''2'', ''3'', ''4'', ''5'', ''6'', ''7'', ''8'']"
proof -
  let ?L = "echo_script [''1'', ''2'', ''3'', ''4'', ''5'', ''6'', ''7'', ''8'']"
  let ?s = "shell_with [''s'' \<mapsto> concat ?L]"
  let ?u = "a2_user turn_cfg ?s"
  have n: "SHELL_MEM_LENGTH turn_cfg = 28" by (simp add: turn_cfg_def SHELL_MEM_LENGTH_def)
  have r: "reads 28 (opened (concat ?L)) ?L" by (rule echo_script_reads) (simp_all add: token_def)
  have c: "copied turn_cfg cp_host ''s'' ?L ?u (cp_done ''s'' ?u)"
    using copied_cp r by (simp add: n shell_with_user backing_store_def NONE_def)
  have ok: "script_ok turn_cfg (a2_parseInput turn_cfg cp_host (Suc 0)) spoken ?L" by (simp add: echo_script_ok token_def)
  have len: "length ?L = 8" by (simp add: echo_script_def)
  have "\<exists>s'. a2_run turn_cfg cp_host (a2_parseInput turn_cfg cp_host (Suc 0)) 2 ''s'' ?s = Ret 0 s' \<and>
      a2_idle turn_cfg (0 + pages_of ?L) s' \<and> a2_user turn_cfg s' = fold spoken ?L (cp_done ''s'' ?u)"
    by (rule a2_run_in_order [OF shell_with_idle c ok]) (simp_all add: len turn_cfg_def)
  then obtain s' where s': "a2_run turn_cfg cp_host (a2_parseInput turn_cfg cp_host (Suc 0)) 2 ''s'' ?s = Ret 0 s'"
    "a2_idle turn_cfg 3 s'" "a2_user turn_cfg s' = fold spoken ?L (cp_done ''s'' ?u)" by (auto simp: len)
  have "console s' = console (a2_user turn_cfg s')" by simp
  also have "\<dots> = [] # map (\<lambda>w. w @ nl) [''1'', ''2'', ''3'', ''4'', ''5'', ''6'', ''7'', ''8'']"
    unfolding s'(3) spoken_console by (simp add: shell_with_user echo_script_def strip_eol_def nl_def)
  finally show ?thesis using s'(1,2) by simp
qed

text \<open>
  C15: Liveness. Under the hypotheses of the refinement, \<open>exec\<close> ends, and every line of every script is executed, each as
  often as it occurs in the scripts, and the lines of each script in their order: page faults and the end of a
  quantum neither lose nor repeat a line.
\<close>

theorem a2_exec_keeps_lines:
  assumes "a2_idle cfg g s" and "1 < length names" and "all_copied cfg h names Ls (a2_user cfg s) u"
    and "\<forall>L \<in> set Ls. script_ok cfg parse F L" and "3 * (g + (\<Sum>L \<leftarrow> Ls. pages_of L)) \<le> THRESHOLD cfg"
    and "(\<Sum>L \<leftarrow> Ls. Suc (length L)) < fuel"
  shows "\<exists>order s'. mset order = (\<Sum>L \<leftarrow> Ls. mset L) \<and> list_all (\<lambda>L. subseq L order) Ls \<and>
    a2_exec cfg h parse fuel names s = Ret 0 s' \<and> a2_user cfg s' = fold F order u"
proof -
  have "mset (turn_order 2 (map started Ls)) = (\<Sum>L \<leftarrow> Ls. mset L)"
    by (simp add: turn_order_mset comp_def started_def)
  moreover have "list_all (\<lambda>L. subseq L (turn_order 2 (map started Ls))) Ls"
    unfolding list_all_iff using turn_order_subseq [of 2 "started L" "map started Ls" for L] by (fastforce simp: started_def)
  ultimately show ?thesis using exec_rep [OF assms] by blast
qed

theorem a2_exec_keeps_lines_witness:
  "\<exists>order s'. mset order = mset (echo_script [''x'', ''y'', ''z'']) + mset (echo_script [''x'', ''y'']) \<and>
    subseq (echo_script [''x'', ''y'', ''z'']) order \<and> subseq (echo_script [''x'', ''y'']) order \<and>
    a2_exec turn_cfg cp_host (a2_parseInput turn_cfg cp_host 1) 8 [''p'', ''q'']
      (shell_with [''p'' \<mapsto> concat (echo_script [''x'', ''y'', ''z'']), ''q'' \<mapsto> concat (echo_script [''x'', ''y''])]) = Ret 0 s' \<and>
    console s' = [[], []] @ map (\<lambda>l. strip_eol (drop 5 l) @ nl) order"
proof -
  let ?P = "echo_script [''x'', ''y'', ''z'']" and ?Q = "echo_script [''x'', ''y'']"
  let ?s = "shell_with [''p'' \<mapsto> concat ?P, ''q'' \<mapsto> concat ?Q]"
  let ?u = "a2_user turn_cfg ?s"
  let ?v = "cp_done ''q'' (cp_done ''p'' ?u)"
  have n: "SHELL_MEM_LENGTH turn_cfg = 28" by (simp add: turn_cfg_def SHELL_MEM_LENGTH_def)
  have r: "reads 28 (opened (concat ?P)) ?P" "reads 28 (opened (concat ?Q)) ?Q"
    by (rule echo_script_reads; simp add: token_def)+
  have "copied turn_cfg cp_host ''p'' ?P ?u (cp_done ''p'' ?u)" "copied turn_cfg cp_host ''q'' ?Q (cp_done ''p'' ?u) ?v"
    using copied_cp r by (simp_all add: n shell_with_user backing_store_def NONE_def)
  then have a: "all_copied turn_cfg cp_host [''p'', ''q''] [?P, ?Q] ?u ?v" by auto
  have ok: "\<forall>L \<in> set [?P, ?Q]. script_ok turn_cfg (a2_parseInput turn_cfg cp_host (Suc 0)) spoken L"
    by (simp add: echo_script_ok token_def)
  have len: "length ?P = 3" "length ?Q = 2" by (simp_all add: echo_script_def)
  have "\<exists>order s'. mset order = (\<Sum>L \<leftarrow> [?P, ?Q]. mset L) \<and> list_all (\<lambda>L. subseq L order) [?P, ?Q] \<and>
      a2_exec turn_cfg cp_host (a2_parseInput turn_cfg cp_host (Suc 0)) 8 [''p'', ''q''] ?s = Ret 0 s' \<and> a2_user turn_cfg s' = fold spoken order ?v"
    by (rule a2_exec_keeps_lines [OF shell_with_idle _ a ok]) (simp_all add: len turn_cfg_def)
  then obtain order s' where s': "mset order = mset ?P + mset ?Q" "subseq ?P order" "subseq ?Q order"
    "a2_exec turn_cfg cp_host (a2_parseInput turn_cfg cp_host (Suc 0)) 8 [''p'', ''q''] ?s = Ret 0 s'"
    "a2_user turn_cfg s' = fold spoken order ?v" by auto
  have "console s' = console (a2_user turn_cfg s')" by simp
  also have "\<dots> = [[], []] @ map (\<lambda>l. strip_eol (drop 5 l) @ nl) order" unfolding s'(5) spoken_console by (simp add: shell_with_user)
  finally show ?thesis using s'(1-4) by (intro exI [of _ order] exI [of _ s']) simp
qed

end
