(* ===== verification/Linked_List.thy ===== *)
theory Linked_List
  imports Outcome Fifo
begin

text \<open>
  The doubly linked lists of assignment 3 (\<open>a3/linked_list.c\<close>). All nodes live in one heap, a
  pointer is an index of \<open>lheap\<close>; a list is its size and two dummy nodes. \<open>None\<close> stands for the null
  pointer and for fields \<open>malloc\<close> leaves uninitialised: neither may be followed. The abstract list is
  the sequence of data between the dummies; the list is shown to be a \<open>deque\<close>.
\<close>

section \<open>State\<close>

record lnode =
  nd_data :: "nat option"
  nd_next :: "nat option"
  nd_prev :: "nat option"

record linked_list =
  ll_size :: int
  dummy_head :: nat
  dummy_tail :: nat

record lists = world +
  lheap :: "lnode list"

definition set_nd_next :: "nat \<Rightarrow> nat option \<Rightarrow> 'a lists_scheme \<Rightarrow> 'a lists_scheme option" where
  \<comment> \<open>\<open>node->next = p\<close>\<close>
  "set_nd_next n p s = do {
     nd \<leftarrow> rd (lheap s) n;
     Some (s\<lparr>lheap := (lheap s)[n := nd\<lparr>nd_next := p\<rparr>]\<rparr>)
   }"

definition set_nd_prev :: "nat \<Rightarrow> nat option \<Rightarrow> 'a lists_scheme \<Rightarrow> 'a lists_scheme option" where
  "set_nd_prev n p s = do {
     nd \<leftarrow> rd (lheap s) n;
     Some (s\<lparr>lheap := (lheap s)[n := nd\<lparr>nd_prev := p\<rparr>]\<rparr>)
   }"

definition alloc_lnode :: "nat option \<Rightarrow> 'a lists_scheme \<Rightarrow> nat \<times> 'a lists_scheme" where
  \<comment> \<open>\<open>malloc(sizeof(NODE))\<close>, with \<open>data\<close> set\<close>
  "alloc_lnode d s =
     (length (lheap s), s\<lparr>lheap := lheap s @ [\<lparr>nd_data = d, nd_next = None, nd_prev = None\<rparr>]\<rparr>)"

section \<open>Operations\<close>

definition has_next :: "nat \<Rightarrow> 'a lists_scheme \<Rightarrow> bool option" where
  "has_next elem s = do { nd \<leftarrow> rd (lheap s) elem; Some (nd_next nd \<noteq> None) }"

definition next_node :: "nat \<Rightarrow> 'a lists_scheme \<Rightarrow> (nat \<times> nat option) option" where
  \<comment> \<open>the node and the new value of the pointer\<close>
  "next_node elem s = do { nd \<leftarrow> rd (lheap s) elem; Some (elem, nd_next nd) }"

definition next_data :: "nat \<Rightarrow> 'a lists_scheme \<Rightarrow> (nat \<times> nat option) option" where
  "next_data elem s = do {
     (ret, elem) \<leftarrow> next_node elem s;
     nd \<leftarrow> rd (lheap s) ret;
     d \<leftarrow> nd_data nd;
     Some (d, elem)
   }"

definition list_clear :: "linked_list \<Rightarrow> 'a lists_scheme \<Rightarrow> (linked_list \<times> 'a lists_scheme) option" where
  "list_clear l s = do {
     s \<leftarrow> set_nd_next (dummy_head l) (Some (dummy_tail l)) s;
     s \<leftarrow> set_nd_prev (dummy_tail l) (Some (dummy_head l)) s;
     Some (l\<lparr>ll_size := 0\<rparr>, s)
   }"

definition add_tail :: "nat \<Rightarrow> linked_list \<Rightarrow> 'a lists_scheme \<Rightarrow> (linked_list \<times> 'a lists_scheme) option" where
  "add_tail d l s =
     (case alloc_lnode (Some d) s of (new_node, s) \<Rightarrow> do {
        tl \<leftarrow> rd (lheap s) (dummy_tail l);
        old_tail \<leftarrow> nd_prev tl;
        s \<leftarrow> set_nd_next old_tail (Some new_node) s;
        s \<leftarrow> set_nd_prev new_node (Some old_tail) s;
        s \<leftarrow> set_nd_next new_node (Some (dummy_tail l)) s;
        s \<leftarrow> set_nd_prev (dummy_tail l) (Some new_node) s;
        Some (l\<lparr>ll_size := ll_size l + 1\<rparr>, s)
      })"

definition add_head :: "nat \<Rightarrow> linked_list \<Rightarrow> 'a lists_scheme \<Rightarrow> (linked_list \<times> 'a lists_scheme) option" where
  "add_head d l s =
     (case alloc_lnode (Some d) s of (new_node, s) \<Rightarrow> do {
        hd \<leftarrow> rd (lheap s) (dummy_head l);
        old_head \<leftarrow> nd_next hd;
        s \<leftarrow> set_nd_prev old_head (Some new_node) s;
        s \<leftarrow> set_nd_next new_node (Some old_head) s;
        s \<leftarrow> set_nd_prev new_node (Some (dummy_head l)) s;
        s \<leftarrow> set_nd_next (dummy_head l) (Some new_node) s;
        Some (l\<lparr>ll_size := ll_size l + 1\<rparr>, s)
      })"

definition unlink_node ::
  "nat \<Rightarrow> linked_list \<Rightarrow> 'a lists_scheme \<Rightarrow> ((nat \<times> linked_list) \<times> 'a lists_scheme) option" where
  \<comment> \<open>the last lines of \<open>pop_head\<close>, \<open>pop_tail\<close> and \<open>remove_elem\<close>\<close>
  "unlink_node n l s = do {
     nd \<leftarrow> rd (lheap s) n;
     p \<leftarrow> nd_prev nd;
     s \<leftarrow> set_nd_next p (nd_next nd) s;
     nd \<leftarrow> rd (lheap s) n;
     q \<leftarrow> nd_next nd;
     s \<leftarrow> set_nd_prev q (nd_prev nd) s;
     nd \<leftarrow> rd (lheap s) n;
     d \<leftarrow> nd_data nd;
     Some ((d, l\<lparr>ll_size := ll_size l - 1\<rparr>), s)
   }"

definition pop_head :: "linked_list \<Rightarrow> 'a lists_scheme \<Rightarrow> (nat \<times> linked_list, 'a lists_scheme) outcome" where
  "pop_head l s =
     (if ll_size l \<le> 0
      then Exit 99 (printf (''Trying to pop head element from an empty linked list'' @ nl) s)
      else attempt (do {
        hd \<leftarrow> rd (lheap s) (dummy_head l);
        to_be_deleted \<leftarrow> nd_next hd;
        unlink_node to_be_deleted l s
      }))"

definition pop_tail :: "linked_list \<Rightarrow> 'a lists_scheme \<Rightarrow> (nat \<times> linked_list, 'a lists_scheme) outcome" where
  "pop_tail l s =
     (if ll_size l \<le> 0
      then Exit 99 (printf (''Trying to pop tail element from an empty linked list'' @ nl) s)
      else attempt (do {
        tl \<leftarrow> rd (lheap s) (dummy_tail l);
        to_be_deleted \<leftarrow> nd_prev tl;
        unlink_node to_be_deleted l s
      }))"

fun walk_next :: "nat \<Rightarrow> nat option \<Rightarrow> 'a lists_scheme \<Rightarrow> nat option option" where
  \<comment> \<open>\<open>curr = curr->next\<close>, \<open>k\<close> times\<close>
  "walk_next 0 cur s = Some cur"
| "walk_next (Suc k) cur s = do { c \<leftarrow> cur; nd \<leftarrow> rd (lheap s) c; walk_next k (nd_next nd) s }"

definition get_node_by_index ::
  "linked_list \<Rightarrow> int \<Rightarrow> 'a lists_scheme \<Rightarrow> (nat option \<times> 'a lists_scheme) option" where
  "get_node_by_index l index s =
     (if ll_size l \<le> index \<or> index < 0
      then Some (None, printf (''Invalid index to get from a linked list'' @ nl) s)
      else do {
        hd \<leftarrow> rd (lheap s) (dummy_head l);
        cur \<leftarrow> walk_next (nat index) (nd_next hd) s;
        Some (cur, s)
      })"

definition get_by_index :: "linked_list \<Rightarrow> int \<Rightarrow> 'a lists_scheme \<Rightarrow> (nat \<times> 'a lists_scheme) option" where
  "get_by_index l index s = do {
     (target_node, s) \<leftarrow> get_node_by_index l index s;
     n \<leftarrow> target_node;
     nd \<leftarrow> rd (lheap s) n;
     d \<leftarrow> nd_data nd;
     Some (d, s)
   }"

text \<open>\<open>equal\<close> is the function of the list; on a dummy node it reads uninitialised data.\<close>

partial_function (option) find_node ::
  "(nat \<Rightarrow> nat \<Rightarrow> bool option) \<Rightarrow> nat \<Rightarrow> nat option \<Rightarrow> lnode list \<Rightarrow> nat option option" where
  "find_node equal target cur h =
     (case cur of
        None \<Rightarrow> Some None
      | Some c \<Rightarrow> do {
          nd \<leftarrow> rd h c;
          d \<leftarrow> nd_data nd;
          e \<leftarrow> equal target d;
          if e then Some (Some c) else find_node equal target (nd_next nd) h
        })"

definition get_node_by_value ::
  "(nat \<Rightarrow> nat \<Rightarrow> bool option) \<Rightarrow> linked_list \<Rightarrow> nat \<Rightarrow> 'a lists_scheme \<Rightarrow> nat option option" where
  "get_node_by_value equal l target s = do {
     hd \<leftarrow> rd (lheap s) (dummy_head l);
     find_node equal target (nd_next hd) (lheap s)
   }"

definition get_by_value ::
  "(nat \<Rightarrow> nat \<Rightarrow> bool option) \<Rightarrow> linked_list \<Rightarrow> nat \<Rightarrow> 'a lists_scheme \<Rightarrow> nat option" where
  "get_by_value equal l target s = do {
     target_node \<leftarrow> get_node_by_value equal l target s;
     n \<leftarrow> target_node;
     nd \<leftarrow> rd (lheap s) n;
     nd_data nd
   }"

definition remove_elem ::
  "(nat \<Rightarrow> nat \<Rightarrow> bool option) \<Rightarrow> nat \<Rightarrow> linked_list \<Rightarrow> 'a lists_scheme \<Rightarrow>
   ((nat \<times> linked_list) \<times> 'a lists_scheme) option" where
  "remove_elem equal data_to_del l s = do {
     to_be_deleted \<leftarrow> get_node_by_value equal l data_to_del s;
     n \<leftarrow> to_be_deleted;
     unlink_node n l s
   }"

definition swap_nodes :: "nat \<Rightarrow> nat \<Rightarrow> 'a lists_scheme \<Rightarrow> 'a lists_scheme option" where
  "swap_nodes node1 node2 s = do {
     n1 \<leftarrow> rd (lheap s) node1;
     n2 \<leftarrow> rd (lheap s) node2;
     let h = (lheap s)[node1 := n1\<lparr>nd_data := nd_data n2\<rparr>];
     n2 \<leftarrow> rd h node2;
     Some (s\<lparr>lheap := h[node2 := n2\<lparr>nd_data := nd_data n1\<rparr>]\<rparr>)
   }"

definition list_init :: "'a lists_scheme \<Rightarrow> linked_list \<times> 'a lists_scheme" where
  "list_init s =
     (let hd = length (lheap s); tl = Suc hd
      in (\<lparr>ll_size = 0, dummy_head = hd, dummy_tail = tl\<rparr>,
          s\<lparr>lheap := lheap s @ [\<lparr>nd_data = None, nd_next = Some tl, nd_prev = None\<rparr>,
                               \<lparr>nd_data = None, nd_next = None, nd_prev = Some hd\<rparr>]\<rparr>))"

section \<open>Chains\<close>

definition nx :: "lnode list \<Rightarrow> nat \<Rightarrow> nat option" where
  "nx h n = (if n < length h then nd_next (h ! n) else None)"

definition pv :: "lnode list \<Rightarrow> nat \<Rightarrow> nat option" where
  "pv h n = (if n < length h then nd_prev (h ! n) else None)"

definition dt :: "lnode list \<Rightarrow> nat \<Rightarrow> nat option" where
  "dt h n = (if n < length h then nd_data (h ! n) else None)"

text \<open>\<open>dll f g a ns b\<close>: following \<open>f\<close> from \<open>a\<close> gives \<open>ns\<close> and then \<open>b\<close>, following \<open>g\<close> from \<open>b\<close> the reverse.\<close>

fun dll :: "(nat \<Rightarrow> nat option) \<Rightarrow> (nat \<Rightarrow> nat option) \<Rightarrow> nat \<Rightarrow> nat list \<Rightarrow> nat \<Rightarrow> bool" where
  "dll f g a [] b \<longleftrightarrow> f a = Some b \<and> g b = Some a"
| "dll f g a (n # ns) b \<longleftrightarrow> f a = Some n \<and> g n = Some a \<and> dll f g n ns b"

lemma dll_append: "dll f g a (ms @ n # ns) b \<longleftrightarrow> dll f g a ms n \<and> dll f g n ns b"
  by (induction ms arbitrary: a) auto

lemma dll_frame:
  "(\<And>n. n \<in> set (a # ns) \<Longrightarrow> f' n = f n) \<Longrightarrow> (\<And>n. n \<in> set (ns @ [b]) \<Longrightarrow> g' n = g n) \<Longrightarrow>
   dll f' g' a ns b = dll f g a ns b"
  by (induction ns arbitrary: a) auto

lemma dll_insert:
  assumes "dll f g a (ms @ ns) b" and "distinct (a # ms @ ns @ [b])" and "n \<notin> set (a # ms @ ns @ [b])"
    and "p = last (a # ms)" and "q = hd (ns @ [b])"
  shows "dll (f(p := Some n, n := Some q)) (g(q := Some n, n := Some p)) a (ms @ n # ns) b"
  using assms
proof (induction ms arbitrary: a)
  case Nil
  then show ?case
  proof (cases ns)
    case (Cons m ms)
    have "dll (f(a := Some n, n := Some m)) (g(m := Some n, n := Some a)) m ms b = dll f g m ms b"
      using Nil.prems Cons by (intro dll_frame) auto
    then show ?thesis using Nil.prems Cons by (auto simp: fun_upd_def)
  qed auto
next
  case (Cons m ms)
  have "q \<in> set (ns @ [b])" using Cons.prems by (cases ns) auto
  then have "q \<noteq> m" using Cons.prems by auto
  then show ?case using Cons by auto
qed

lemma dll_remove:
  assumes "dll f g a (ms @ n # ns) b" and "distinct (a # ms @ n # ns @ [b])"
    and "p = last (a # ms)" and "q = hd (ns @ [b])"
  shows "dll (f(p := Some q)) (g(q := Some p)) a (ms @ ns) b"
  using assms
proof (induction ms arbitrary: a)
  case Nil
  then show ?case
  proof (cases ns)
    case (Cons m ms)
    have "dll (f(a := Some m)) (g(m := Some a)) m ms b = dll f g m ms b"
      using Nil.prems Cons by (intro dll_frame) auto
    then show ?thesis using Nil.prems Cons by (auto simp: fun_upd_def)
  qed auto
next
  case (Cons m ms)
  have "q \<in> set (ns @ [b])" using Cons.prems by (cases ns) auto
  then have "q \<noteq> m" using Cons.prems by auto
  then show ?case using Cons by auto
qed

lemma dll_ends:
  "dll f g a ns b \<Longrightarrow> f a = Some (hd (ns @ [b])) \<and> g b = Some (last (a # ns))"
  by (induction ns arbitrary: a) auto

lemma dll_neighbours:
  assumes "dll f g a (ms @ n # ns) b"
  shows "g n = Some (last (a # ms)) \<and> f n = Some (hd (ns @ [b]))"
  using assms dll_ends [of f g a ms n] dll_ends [of f g n ns b] by (simp only: dll_append)

lemma nx_update: "n < length h \<Longrightarrow> nx (h[n := nd\<lparr>nd_next := p\<rparr>]) = (nx h)(n := p)"
  and pv_update_next: "n < length h \<Longrightarrow> pv (h[n := (h ! n)\<lparr>nd_next := p\<rparr>]) = pv h"
  and dt_update_next: "n < length h \<Longrightarrow> dt (h[n := (h ! n)\<lparr>nd_next := p\<rparr>]) = dt h"
  and pv_update: "n < length h \<Longrightarrow> pv (h[n := nd\<lparr>nd_prev := p\<rparr>]) = (pv h)(n := p)"
  and nx_update_prev: "n < length h \<Longrightarrow> nx (h[n := (h ! n)\<lparr>nd_prev := p\<rparr>]) = nx h"
  and dt_update_prev: "n < length h \<Longrightarrow> dt (h[n := (h ! n)\<lparr>nd_prev := p\<rparr>]) = dt h"
  by (auto simp: nx_def pv_def dt_def fun_eq_iff nth_list_update)

lemma nx_alloc: "nx (h @ [\<lparr>nd_data = d, nd_next = p, nd_prev = q\<rparr>]) = (nx h)(length h := p)"
  and pv_alloc: "pv (h @ [\<lparr>nd_data = d, nd_next = p, nd_prev = q\<rparr>]) = (pv h)(length h := q)"
  and dt_alloc: "dt (h @ [\<lparr>nd_data = d, nd_next = p, nd_prev = q\<rparr>]) = (dt h)(length h := d)"
  by (auto simp: nx_def pv_def dt_def fun_eq_iff nth_append)

text \<open>The single assignments, as updates of \<open>nx\<close> and \<open>pv\<close>.\<close>

lemma set_nd_next_ok:
  assumes "n < length (lheap s)"
  shows "\<exists>h. set_nd_next n p s = Some (s\<lparr>lheap := h\<rparr>) \<and> length h = length (lheap s) \<and>
    nx h = (nx (lheap s))(n := p) \<and> pv h = pv (lheap s) \<and> dt h = dt (lheap s)"
  using assms
  by (intro exI [of _ "(lheap s)[n := (lheap s ! n)\<lparr>nd_next := p\<rparr>]"])
    (simp add: set_nd_next_def nx_update pv_update_next dt_update_next)

lemma set_nd_prev_ok:
  assumes "n < length (lheap s)"
  shows "\<exists>h. set_nd_prev n p s = Some (s\<lparr>lheap := h\<rparr>) \<and> length h = length (lheap s) \<and>
    nx h = nx (lheap s) \<and> pv h = (pv (lheap s))(n := p) \<and> dt h = dt (lheap s)"
  using assms
  by (intro exI [of _ "(lheap s)[n := (lheap s ! n)\<lparr>nd_prev := p\<rparr>]"])
    (simp add: set_nd_prev_def pv_update nx_update_prev dt_update_prev)

section \<open>The abstract list\<close>

definition ll_rep :: "'a lists_scheme \<Rightarrow> linked_list \<Rightarrow> nat list \<Rightarrow> bool" where
  \<comment> \<open>\<open>ns\<close> are the nodes of \<open>l\<close>, in order\<close>
  "ll_rep s l ns \<longleftrightarrow>
     dll (nx (lheap s)) (pv (lheap s)) (dummy_head l) ns (dummy_tail l) \<and>
     distinct (dummy_head l # ns @ [dummy_tail l]) \<and>
     (\<forall>n \<in> set (dummy_head l # ns @ [dummy_tail l]). n < length (lheap s)) \<and>
     (\<forall>n \<in> set ns. dt (lheap s) n \<noteq> None) \<and> nx (lheap s) (dummy_tail l) = None \<and>
     ll_size l = int (length ns)"

definition ll_data :: "'a lists_scheme \<Rightarrow> nat list \<Rightarrow> nat list" where
  "ll_data s ns = map (\<lambda>n. the (dt (lheap s) n)) ns"

definition footprint :: "linked_list \<Rightarrow> nat list \<Rightarrow> nat set" where
  "footprint l ns = set (dummy_head l # ns @ [dummy_tail l])"

lemma ll_rep_nodes:
  "ll_rep s l ns \<Longrightarrow> n \<in> footprint l ns \<Longrightarrow> n < length (lheap s)"
  by (auto simp: ll_rep_def footprint_def)

lemma rd_node: "n < length h \<Longrightarrow> nd_next (h ! n) = nx h n \<and> nd_prev (h ! n) = pv h n \<and> nd_data (h ! n) = dt h n"
  by (simp add: nx_def pv_def dt_def)

text \<open>What an operation on one list leaves of the heap.\<close>

definition touches :: "linked_list \<Rightarrow> nat list \<Rightarrow> 'a lists_scheme \<Rightarrow> 'a lists_scheme \<Rightarrow> bool" where
  "touches l ns s s' \<longleftrightarrow> s' = s\<lparr>lheap := lheap s'\<rparr> \<and> length (lheap s) \<le> length (lheap s') \<and>
     (\<forall>m < length (lheap s). dt (lheap s') m = dt (lheap s) m \<and>
        (m \<notin> footprint l ns \<longrightarrow> nx (lheap s') m = nx (lheap s) m \<and> pv (lheap s') m = pv (lheap s) m))"

lemma ll_rep_other:
  assumes "touches l ns s s'" and "ll_rep s l' ns'" and "footprint l ns \<inter> footprint l' ns' = {}"
  shows "ll_rep s' l' ns' \<and> ll_data s' ns' = ll_data s ns'"
proof -
  have same: "dt (lheap s') m = dt (lheap s) m" "nx (lheap s') m = nx (lheap s) m"
    "pv (lheap s') m = pv (lheap s) m" "m < length (lheap s')" if "m \<in> footprint l' ns'" for m
  proof -
    have "m < length (lheap s)" "m \<notin> footprint l ns" using that assms(2,3) ll_rep_nodes by blast+
    then show "dt (lheap s') m = dt (lheap s) m" "nx (lheap s') m = nx (lheap s) m"
      "pv (lheap s') m = pv (lheap s) m" "m < length (lheap s')"
      using assms(1) unfolding touches_def by auto
  qed
  have "dll (nx (lheap s')) (pv (lheap s')) (dummy_head l') ns' (dummy_tail l')
      = dll (nx (lheap s)) (pv (lheap s)) (dummy_head l') ns' (dummy_tail l')"
    by (rule dll_frame) (use same in \<open>auto simp: footprint_def\<close>)
  then show ?thesis
    using assms(2) same unfolding ll_rep_def ll_data_def footprint_def by auto
qed

lemma insert_rep:
  assumes "ll_rep s l (ms @ ns)" and "n = length (lheap s)"
    and "nx h = (nx (lheap s))(last (dummy_head l # ms) := Some n, n := Some (hd (ns @ [dummy_tail l])))"
    and "pv h = (pv (lheap s))(hd (ns @ [dummy_tail l]) := Some n, n := Some (last (dummy_head l # ms)))"
    and "dt h = (dt (lheap s))(n := Some d)" and "length h = Suc n"
  shows "ll_rep (s\<lparr>lheap := h\<rparr>) (l\<lparr>ll_size := ll_size l + 1\<rparr>) (ms @ n # ns) \<and>
    touches l (ms @ ns) s (s\<lparr>lheap := h\<rparr>) \<and>
    ll_data (s\<lparr>lheap := h\<rparr>) (ms @ n # ns) = ll_data s ms @ d # ll_data s ns"
proof -
  let ?p = "last (dummy_head l # ms)" and ?q = "hd (ns @ [dummy_tail l])"
  have r: "dll (nx (lheap s)) (pv (lheap s)) (dummy_head l) (ms @ ns) (dummy_tail l)"
    "distinct (dummy_head l # ms @ ns @ [dummy_tail l])" "n \<notin> set (dummy_head l # ms @ ns @ [dummy_tail l])"
    using assms(1,2) unfolding ll_rep_def by auto
  have d: "dll (nx h) (pv h) (dummy_head l) (ms @ n # ns) (dummy_tail l)"
    unfolding assms(3,4) by (rule dll_insert [OF r]) simp_all
  have pq: "?p \<in> set (dummy_head l # ms)" "?q \<in> set (ns @ [dummy_tail l])" by auto (cases ns; simp)
  have t: "dummy_tail l \<noteq> ?p" "n \<noteq> dummy_tail l" using r(2,3) pq(1) by auto
  then have nt: "nx h (dummy_tail l) = None" using assms(1) by (simp add: assms(3) ll_rep_def)
  have lt: "\<forall>m \<in> set (dummy_head l # ms @ ns @ [dummy_tail l]). m < n" "\<forall>m \<in> set (ms @ ns). dt (lheap s) m \<noteq> None"
    "ll_size l = int (length (ms @ ns))"
    using assms(1,2) unfolding ll_rep_def by auto
  have "ll_rep (s\<lparr>lheap := h\<rparr>) (l\<lparr>ll_size := ll_size l + 1\<rparr>) (ms @ n # ns)"
    using d lt nt r(2,3) assms(5,6) unfolding ll_rep_def by (auto simp: less_Suc_eq)
  moreover have "?p \<in> footprint l (ms @ ns)" "?q \<in> footprint l (ms @ ns)"
    using pq unfolding footprint_def by auto
  then have "touches l (ms @ ns) s (s\<lparr>lheap := h\<rparr>)"
    using assms(2-6) unfolding touches_def by auto
  moreover have "ll_data (s\<lparr>lheap := h\<rparr>) (ms @ n # ns) = ll_data s ms @ d # ll_data s ns"
    using r(3) assms(5) unfolding ll_data_def by auto
  ultimately show ?thesis by simp
qed

lemma add_tail_spec_ll:
  assumes "ll_rep s l ns"
  shows "\<exists>s'. add_tail d l s = Some (l\<lparr>ll_size := ll_size l + 1\<rparr>, s') \<and>
    ll_rep s' (l\<lparr>ll_size := ll_size l + 1\<rparr>) (ns @ [length (lheap s)]) \<and> touches l ns s s' \<and>
    ll_data s' (ns @ [length (lheap s)]) = ll_data s ns @ [d]"
proof -
  let ?n = "length (lheap s)" and ?p = "last (dummy_head l # ns)" and ?t = "dummy_tail l"
  let ?h = "lheap s @ [\<lparr>nd_data = Some d, nd_next = None, nd_prev = None\<rparr>]"
  let ?s = "s\<lparr>lheap := ?h\<rparr>"
  have dl: "dll (nx (lheap s)) (pv (lheap s)) (dummy_head l) ns ?t" using assms by (simp add: ll_rep_def)
  have "?p \<in> footprint l ns" "?t \<in> footprint l ns" by (simp_all add: footprint_def)
  then have b: "?p < ?n" "?t < ?n" using assms ll_rep_nodes by blast+
  have pt: "pv (lheap s) ?t = Some ?p" using dll_ends [OF dl] by simp
  have old: "nd_prev (?h ! ?t) = Some ?p" using pt b by (simp add: nth_append pv_def)
  obtain h1 where h1: "set_nd_next ?p (Some ?n) ?s = Some (?s\<lparr>lheap := h1\<rparr>)" "length h1 = Suc ?n"
    "nx h1 = (nx ?h)(?p := Some ?n)" "pv h1 = pv ?h" "dt h1 = dt ?h"
    using set_nd_next_ok [of ?p ?s "Some ?n"] b by auto
  let ?s1 = "?s\<lparr>lheap := h1\<rparr>"
  obtain h2 where h2: "set_nd_prev ?n (Some ?p) ?s1 = Some (?s1\<lparr>lheap := h2\<rparr>)" "length h2 = Suc ?n"
    "nx h2 = nx h1" "pv h2 = (pv h1)(?n := Some ?p)" "dt h2 = dt h1"
    using set_nd_prev_ok [of ?n ?s1 "Some ?p"] h1(2) by auto
  let ?s2 = "?s1\<lparr>lheap := h2\<rparr>"
  obtain h3 where h3: "set_nd_next ?n (Some ?t) ?s2 = Some (?s2\<lparr>lheap := h3\<rparr>)" "length h3 = Suc ?n"
    "nx h3 = (nx h2)(?n := Some ?t)" "pv h3 = pv h2" "dt h3 = dt h2"
    using set_nd_next_ok [of ?n ?s2 "Some ?t"] h2(2) by auto
  let ?s3 = "?s2\<lparr>lheap := h3\<rparr>"
  obtain h4 where h4: "set_nd_prev ?t (Some ?n) ?s3 = Some (?s3\<lparr>lheap := h4\<rparr>)" "length h4 = Suc ?n"
    "nx h4 = nx h3" "pv h4 = (pv h3)(?t := Some ?n)" "dt h4 = dt h3"
    using set_nd_prev_ok [of ?t ?s3 "Some ?n"] h3(2) b by auto
  have "add_tail d l s = Some (l\<lparr>ll_size := ll_size l + 1\<rparr>, s\<lparr>lheap := h4\<rparr>)"
    using b old h1(1) h2(1) h3(1) h4(1) by (simp add: add_tail_def alloc_lnode_def)
  moreover have "nx h4 = (nx (lheap s))(?p := Some ?n, ?n := Some ?t)"
    "pv h4 = (pv (lheap s))(?t := Some ?n, ?n := Some ?p)" "dt h4 = (dt (lheap s))(?n := Some d)"
    using b h1(3-5) h2(3-5) h3(3-5) h4(3-5) by (auto simp: nx_alloc pv_alloc dt_alloc fun_eq_iff)
  then have "ll_rep (s\<lparr>lheap := h4\<rparr>) (l\<lparr>ll_size := ll_size l + 1\<rparr>) (ns @ [?n]) \<and>
      touches l (ns @ []) s (s\<lparr>lheap := h4\<rparr>) \<and>
      ll_data (s\<lparr>lheap := h4\<rparr>) (ns @ [?n]) = ll_data s ns @ d # ll_data s Nil"
    using assms h4(2) by (intro insert_rep) simp_all
  ultimately show ?thesis by (simp add: ll_data_def)
qed

lemma add_head_spec_ll:
  assumes "ll_rep s l ns"
  shows "\<exists>s'. add_head d l s = Some (l\<lparr>ll_size := ll_size l + 1\<rparr>, s') \<and>
    ll_rep s' (l\<lparr>ll_size := ll_size l + 1\<rparr>) (length (lheap s) # ns) \<and> touches l ns s s' \<and>
    ll_data s' (length (lheap s) # ns) = d # ll_data s ns"
proof -
  let ?n = "length (lheap s)" and ?q = "hd (ns @ [dummy_tail l])" and ?a = "dummy_head l"
  let ?h = "lheap s @ [\<lparr>nd_data = Some d, nd_next = None, nd_prev = None\<rparr>]"
  let ?s = "s\<lparr>lheap := ?h\<rparr>"
  have dl: "dll (nx (lheap s)) (pv (lheap s)) ?a ns (dummy_tail l)" using assms by (simp add: ll_rep_def)
  have "?q \<in> footprint l ns" "?a \<in> footprint l ns" by (cases ns; simp add: footprint_def)+
  then have b: "?q < ?n" "?a < ?n" using assms ll_rep_nodes by blast+
  have pt: "nx (lheap s) ?a = Some ?q" using dll_ends [OF dl] by simp
  have old: "nd_next (?h ! ?a) = Some ?q" using pt b by (simp add: nth_append nx_def)
  obtain h1 where h1: "set_nd_prev ?q (Some ?n) ?s = Some (?s\<lparr>lheap := h1\<rparr>)" "length h1 = Suc ?n"
    "nx h1 = nx ?h" "pv h1 = (pv ?h)(?q := Some ?n)" "dt h1 = dt ?h"
    using set_nd_prev_ok [of ?q ?s "Some ?n"] b by auto
  let ?s1 = "?s\<lparr>lheap := h1\<rparr>"
  obtain h2 where h2: "set_nd_next ?n (Some ?q) ?s1 = Some (?s1\<lparr>lheap := h2\<rparr>)" "length h2 = Suc ?n"
    "nx h2 = (nx h1)(?n := Some ?q)" "pv h2 = pv h1" "dt h2 = dt h1"
    using set_nd_next_ok [of ?n ?s1 "Some ?q"] h1(2) by auto
  let ?s2 = "?s1\<lparr>lheap := h2\<rparr>"
  obtain h3 where h3: "set_nd_prev ?n (Some ?a) ?s2 = Some (?s2\<lparr>lheap := h3\<rparr>)" "length h3 = Suc ?n"
    "nx h3 = nx h2" "pv h3 = (pv h2)(?n := Some ?a)" "dt h3 = dt h2"
    using set_nd_prev_ok [of ?n ?s2 "Some ?a"] h2(2) by auto
  let ?s3 = "?s2\<lparr>lheap := h3\<rparr>"
  obtain h4 where h4: "set_nd_next ?a (Some ?n) ?s3 = Some (?s3\<lparr>lheap := h4\<rparr>)" "length h4 = Suc ?n"
    "nx h4 = (nx h3)(?a := Some ?n)" "pv h4 = pv h3" "dt h4 = dt h3"
    using set_nd_next_ok [of ?a ?s3 "Some ?n"] h3(2) b by auto
  have "add_head d l s = Some (l\<lparr>ll_size := ll_size l + 1\<rparr>, s\<lparr>lheap := h4\<rparr>)"
    using b old h1(1) h2(1) h3(1) h4(1) by (simp add: add_head_def alloc_lnode_def)
  moreover have "nx h4 = (nx (lheap s))(?a := Some ?n, ?n := Some ?q)"
    "pv h4 = (pv (lheap s))(?q := Some ?n, ?n := Some ?a)" "dt h4 = (dt (lheap s))(?n := Some d)"
    using b h1(3-5) h2(3-5) h3(3-5) h4(3-5) by (auto simp: nx_alloc pv_alloc dt_alloc fun_eq_iff)
  then have "ll_rep (s\<lparr>lheap := h4\<rparr>) (l\<lparr>ll_size := ll_size l + 1\<rparr>) ([] @ ?n # ns) \<and>
      touches l ([] @ ns) s (s\<lparr>lheap := h4\<rparr>) \<and>
      ll_data (s\<lparr>lheap := h4\<rparr>) ([] @ ?n # ns) = ll_data s Nil @ d # ll_data s ns"
    using assms h4(2) by (intro insert_rep) simp_all
  ultimately show ?thesis by (simp add: ll_data_def)
qed

lemma unlink_rep:
  assumes "ll_rep s l (ms @ n # ns)"
  shows "\<exists>s'. unlink_node n l s = Some ((the (dt (lheap s) n), l\<lparr>ll_size := ll_size l - 1\<rparr>), s') \<and>
    ll_rep s' (l\<lparr>ll_size := ll_size l - 1\<rparr>) (ms @ ns) \<and> touches l (ms @ n # ns) s s' \<and>
    ll_data s' (ms @ ns) = ll_data s (ms @ ns)"
proof -
  let ?p = "last (dummy_head l # ms)" and ?q = "hd (ns @ [dummy_tail l])"
  have dl: "dll (nx (lheap s)) (pv (lheap s)) (dummy_head l) (ms @ n # ns) (dummy_tail l)"
    and di: "distinct (dummy_head l # ms @ n # ns @ [dummy_tail l])"
    using assms by (simp_all add: ll_rep_def)
  have pq: "?p \<in> set (dummy_head l # ms)" "?q \<in> set (ns @ [dummy_tail l])" by auto (cases ns; simp)
  then have ne: "?p \<noteq> n" "?p \<noteq> ?q" "?p \<noteq> dummy_tail l" using di by auto
  have "?p \<in> footprint l (ms @ n # ns)" "?q \<in> footprint l (ms @ n # ns)" "n \<in> footprint l (ms @ n # ns)"
    using pq unfolding footprint_def by auto
  then have b: "?p < length (lheap s)" "?q < length (lheap s)" "n < length (lheap s)"
    using assms ll_rep_nodes by blast+
  obtain d where d: "dt (lheap s) n = Some d" using assms by (auto simp: ll_rep_def)
  have nd: "nd_next (lheap s ! n) = Some ?q" "nd_prev (lheap s ! n) = Some ?p"
    using dll_neighbours [OF dl] rd_node [OF b(3)] by simp_all
  obtain h1 where h1: "set_nd_next ?p (Some ?q) s = Some (s\<lparr>lheap := h1\<rparr>)" "length h1 = length (lheap s)"
    "nx h1 = (nx (lheap s))(?p := Some ?q)" "pv h1 = pv (lheap s)" "dt h1 = dt (lheap s)"
    using set_nd_next_ok [of ?p s "Some ?q"] b by auto
  let ?s1 = "s\<lparr>lheap := h1\<rparr>"
  have n1: "nd_next (h1 ! n) = Some ?q" "nd_prev (h1 ! n) = Some ?p"
    using rd_node [of n h1] h1(2-4) b nd ne rd_node [OF b(3)] by auto
  obtain h2 where h2: "set_nd_prev ?q (Some ?p) ?s1 = Some (?s1\<lparr>lheap := h2\<rparr>)" "length h2 = length (lheap s)"
    "nx h2 = nx h1" "pv h2 = (pv h1)(?q := Some ?p)" "dt h2 = dt h1"
    using set_nd_prev_ok [of ?q ?s1 "Some ?p"] h1(2) b by auto
  have d2: "nd_data (h2 ! n) = Some d" using rd_node [of n h2] h1(5) h2(2,5) b d by auto
  let ?s = "s\<lparr>lheap := h2\<rparr>"
  have "unlink_node n l s = Some ((d, l\<lparr>ll_size := ll_size l - 1\<rparr>), ?s)"
    using b nd h1(1,2) n1 h2(1,2) d2 by (simp add: unlink_node_def)
  moreover have "dll (nx h2) (pv h2) (dummy_head l) (ms @ ns) (dummy_tail l)"
    unfolding h1(3,4) h2(3,4) by (rule dll_remove [OF dl di]) simp_all
  then have "ll_rep ?s (l\<lparr>ll_size := ll_size l - 1\<rparr>) (ms @ ns)"
    using assms di ne h1(3,5) h2(2,3,5) unfolding ll_rep_def by auto
  moreover have "touches l (ms @ n # ns) s ?s"
    using pq h1(3-5) h2(2-5) unfolding touches_def footprint_def by auto
  moreover have "ll_data ?s (ms @ ns) = ll_data s (ms @ ns)" using h1(5) h2(5) by (simp add: ll_data_def)
  ultimately show ?thesis using d by auto
qed

lemma pop_head_spec_ll:
  assumes "ll_rep s l (n # ns)"
  shows "\<exists>s'. pop_head l s = Ret (the (dt (lheap s) n), l\<lparr>ll_size := ll_size l - 1\<rparr>) s' \<and>
    ll_rep s' (l\<lparr>ll_size := ll_size l - 1\<rparr>) ns \<and> touches l (n # ns) s s' \<and> ll_data s' ns = ll_data s ns"
proof -
  have "dll (nx (lheap s)) (pv (lheap s)) (dummy_head l) (n # ns) (dummy_tail l)" and b: "dummy_head l < length (lheap s)"
    and sz: "\<not> ll_size l \<le> 0"
    using assms by (simp_all add: ll_rep_def)
  then have "nd_next (lheap s ! dummy_head l) = Some n" using rd_node [OF b] by simp
  then show ?thesis using unlink_rep [of s l Nil n ns] assms b sz by (auto simp: pop_head_def)
qed

lemma pop_tail_spec_ll:
  assumes "ll_rep s l (ns @ [n])"
  shows "\<exists>s'. pop_tail l s = Ret (the (dt (lheap s) n), l\<lparr>ll_size := ll_size l - 1\<rparr>) s' \<and>
    ll_rep s' (l\<lparr>ll_size := ll_size l - 1\<rparr>) ns \<and> touches l (ns @ [n]) s s' \<and> ll_data s' ns = ll_data s ns"
proof -
  have "dll (nx (lheap s)) (pv (lheap s)) (dummy_head l) (ns @ [n]) (dummy_tail l)" and b: "dummy_tail l < length (lheap s)"
    and sz: "\<not> ll_size l \<le> 0"
    using assms by (simp_all add: ll_rep_def)
  then have "nd_prev (lheap s ! dummy_tail l) = Some n" using rd_node [OF b] dll_ends by fastforce
  then show ?thesis using unlink_rep [of s l ns n Nil] assms b sz by (auto simp: pop_tail_def)
qed

lemma pop_empty_ll:
  "ll_rep s l [] \<Longrightarrow> pop_head l s = Exit 99 (printf (''Trying to pop head element from an empty linked list'' @ nl) s)"
  by (simp add: pop_head_def ll_rep_def)

text \<open>The search finds the first node whose data is equal to the target.\<close>

lemma find_node_chain:
  assumes "dll f g a (ms @ n # ns) b" and "f = nx h" and "\<forall>m \<in> set (ms @ [n]). m < length h"
    and "\<forall>m \<in> set ms. \<exists>d. dt h m = Some d \<and> equal target d = Some False"
    and "dt h n = Some d" and "equal target d = Some True"
  shows "find_node equal target (nx h a) h = Some (Some n)"
  using assms
proof (induction ms arbitrary: a)
  case Nil
  then have "nd_data (h ! n) = Some d" "nx h a = Some n" using rd_node by auto
  then show ?case using Nil by (subst find_node.simps) simp
next
  case (Cons m ms)
  obtain e where e: "dt h m = Some e" "equal target e = Some False" using Cons.prems(4) by auto
  have m: "nd_data (h ! m) = Some e" "nd_next (h ! m) = nx h m" "nx h a = Some m" "m < length h"
    using e(1) Cons.prems rd_node by auto
  have "find_node equal target (nx h m) h = Some (Some n)" using Cons by simp
  then show ?case using m e(2) by (subst find_node.simps) simp
qed

lemma remove_elem_spec:
  assumes "ll_rep s l (ms @ n # ns)"
    and "\<forall>m \<in> set ms. equal target (the (dt (lheap s) m)) = Some False"
    and "equal target (the (dt (lheap s) n)) = Some True"
  shows "\<exists>s'. remove_elem equal target l s = Some ((the (dt (lheap s) n), l\<lparr>ll_size := ll_size l - 1\<rparr>), s') \<and>
    ll_rep s' (l\<lparr>ll_size := ll_size l - 1\<rparr>) (ms @ ns) \<and> touches l (ms @ n # ns) s s' \<and>
    ll_data s' (ms @ ns) = ll_data s (ms @ ns)"
proof -
  have dl: "dll (nx (lheap s)) (pv (lheap s)) (dummy_head l) (ms @ n # ns) (dummy_tail l)"
    and b: "dummy_head l < length (lheap s)" "\<forall>m \<in> set (ms @ [n]). m < length (lheap s)"
    and d: "\<forall>m \<in> set (ms @ [n]). dt (lheap s) m \<noteq> None"
    using assms(1) unfolding ll_rep_def by auto
  have e: "\<forall>m \<in> set ms. \<exists>x. dt (lheap s) m = Some x \<and> equal target x = Some False"
  proof
    fix m assume m: "m \<in> set ms"
    then have "equal target (the (dt (lheap s) m)) = Some False" "dt (lheap s) m \<noteq> None" using assms(2) d by simp_all
    then show "\<exists>x. dt (lheap s) m = Some x \<and> equal target x = Some False" by (cases "dt (lheap s) m") simp_all
  qed
  have "dt (lheap s) n = Some (the (dt (lheap s) n))" using d by simp
  then have "find_node equal target (nx (lheap s) (dummy_head l)) (lheap s) = Some (Some n)"
    using find_node_chain [of "nx (lheap s)" "pv (lheap s)" "dummy_head l" ms n ns "dummy_tail l" "lheap s" equal target]
      dl b(2) e assms(3) by blast
  then have "get_node_by_value equal l target s = Some (Some n)"
    using b(1) rd_node [OF b(1)] by (simp add: get_node_by_value_def)
  then show ?thesis using unlink_rep [OF assms(1)] by (simp add: remove_elem_def)
qed

section \<open>The list is a deque\<close>

fun walk :: "lnode list \<Rightarrow> nat \<Rightarrow> nat \<Rightarrow> nat \<Rightarrow> nat list" where
  "walk h 0 a b = []"
| "walk h (Suc k) a b =
     (case nx h a of None \<Rightarrow> [] | Some n \<Rightarrow> if n = b then [] else n # walk h k n b)"

definition ll_nodes :: "linked_list \<Rightarrow> 'a lists_scheme \<Rightarrow> nat list" where
  "ll_nodes l s = walk (lheap s) (length (lheap s)) (dummy_head l) (dummy_tail l)"

lemma walk_dll: "dll (nx h) g a ns b \<Longrightarrow> b \<notin> set ns \<Longrightarrow> length ns < k \<Longrightarrow> walk h k a b = ns"
proof (induction ns arbitrary: a k)
  case Nil
  then show ?case by (cases k) auto
next
  case (Cons n ns)
  then show ?case by (cases k) auto
qed

lemma ll_rep_length: "ll_rep s l ns \<Longrightarrow> length ns + 2 \<le> length (lheap s)"
proof -
  assume r: "ll_rep s l ns"
  let ?xs = "dummy_head l # ns @ [dummy_tail l]"
  have "set ?xs \<subseteq> {..<length (lheap s)}" and d: "distinct ?xs" using r unfolding ll_rep_def by auto
  then have "card (set ?xs) \<le> card {..<length (lheap s)}" by (intro card_mono) auto
  then show ?thesis using distinct_card [OF d] by simp
qed

lemma ll_nodes_rep: "ll_rep s l ns \<Longrightarrow> ll_nodes l s = ns"
  using ll_rep_length [of s l ns] by (auto simp: ll_nodes_def ll_rep_def intro!: walk_dll)

definition ll_ok :: "linked_list \<times> 'a lists_scheme \<Rightarrow> bool" where
  "ll_ok ls = (case ls of (l, s) \<Rightarrow> ll_rep s l (ll_nodes l s))"

definition ll_items :: "linked_list \<times> 'a lists_scheme \<Rightarrow> nat list" where
  "ll_items ls = (case ls of (l, s) \<Rightarrow> ll_data s (ll_nodes l s))"

definition ll_enq :: "nat \<Rightarrow> linked_list \<times> 'a lists_scheme \<Rightarrow> (linked_list \<times> 'a lists_scheme) option" where
  "ll_enq d ls = (case ls of (l, s) \<Rightarrow> add_tail d l s)"

definition ll_push :: "nat \<Rightarrow> linked_list \<times> 'a lists_scheme \<Rightarrow> (linked_list \<times> 'a lists_scheme) option" where
  "ll_push d ls = (case ls of (l, s) \<Rightarrow> add_head d l s)"

definition ll_deq ::
  "linked_list \<times> 'a lists_scheme \<Rightarrow> (nat option \<times> linked_list \<times> 'a lists_scheme) option" where
  "ll_deq ls = (case ls of (l, s) \<Rightarrow>
     (case pop_head l s of Ret (d, l) s \<Rightarrow> Some (Some d, l, s) | _ \<Rightarrow> None))"

lemma ll_enq_spec:
  assumes "ll_ok ls"
  shows "\<exists>ls'. ll_enq d ls = Some ls' \<and> ll_ok ls' \<and> ll_items ls' = ll_items ls @ [d]"
proof -
  obtain l s where ls: "ls = (l, s)" by (cases ls)
  then have r: "ll_rep s l (ll_nodes l s)" using assms by (simp add: ll_ok_def)
  obtain s' where s': "add_tail d l s = Some (l\<lparr>ll_size := ll_size l + 1\<rparr>, s')"
    "ll_rep s' (l\<lparr>ll_size := ll_size l + 1\<rparr>) (ll_nodes l s @ [length (lheap s)])"
    "ll_data s' (ll_nodes l s @ [length (lheap s)]) = ll_data s (ll_nodes l s) @ [d]"
    using add_tail_spec_ll [OF r, of d] by blast
  then show ?thesis using ls ll_nodes_rep [OF s'(2)] by (simp add: ll_ok_def ll_items_def ll_enq_def)
qed

lemma ll_push_spec:
  assumes "ll_ok ls"
  shows "\<exists>ls'. ll_push d ls = Some ls' \<and> ll_ok ls' \<and> ll_items ls' = d # ll_items ls"
proof -
  obtain l s where ls: "ls = (l, s)" by (cases ls)
  then have r: "ll_rep s l (ll_nodes l s)" using assms by (simp add: ll_ok_def)
  obtain s' where s': "add_head d l s = Some (l\<lparr>ll_size := ll_size l + 1\<rparr>, s')"
    "ll_rep s' (l\<lparr>ll_size := ll_size l + 1\<rparr>) (length (lheap s) # ll_nodes l s)"
    "ll_data s' (length (lheap s) # ll_nodes l s) = d # ll_data s (ll_nodes l s)"
    using add_head_spec_ll [OF r, of d] by blast
  then show ?thesis using ls ll_nodes_rep [OF s'(2)] by (simp add: ll_ok_def ll_items_def ll_push_def)
qed

interpretation lld: deque ll_ok ll_items "\<lambda>_ _. True" ll_enq ll_deq ll_push
proof (unfold_locales, goal_cases)
  case (1 ls n)
  then show ?case using ll_enq_spec by simp
next
  case (2 ls n ns)
  then obtain l s m ms where ls: "ls = (l, s)" "ll_nodes l s = m # ms" "n = the (dt (lheap s) m)" "ns = ll_data s ms"
    "ll_rep s l (m # ms)"
    by (auto simp: ll_ok_def ll_items_def ll_data_def split: prod.splits)
  then show ?case
    using pop_head_spec_ll [of s l m ms]
    by (auto simp: ll_ok_def ll_items_def ll_deq_def ll_nodes_rep)
next
  case (3 ls n)
  then show ?case using ll_push_spec by simp
qed

lemma list_init_rep:
  "ll_rep (snd (list_init s)) (fst (list_init s)) Nil \<and> snd (list_init s) = s\<lparr>lheap := lheap (snd (list_init s))\<rparr>"
  by (simp add: list_init_def Let_def ll_rep_def nx_def pv_def nth_append)

end
