(* ===== verification/A3_Process.thy ===== *)
theory A3_Process
  imports Linked_List Streams Var_Memory "HOL-Library.Signed_Division"
begin

text \<open>
  The shell memory and the processes of assignment 3 (\<open>a3/shellmemory.c\<close>, \<open>a3/pcb.c\<close>). The first
  \<open>frame_store_size\<close> slots of the memory are the frames, the others the variables. A frame is any
  three consecutive free slots; a page records the slots of its lines and which of them are loaded.
  Processes and pages live on heaps of their own (\<open>None\<close> is a freed object); a process owns its pages
  and its program counters, one per page. The text of a script is read when it is opened.
\<close>

section \<open>State\<close>

record a3_config =
  frame_store_size :: nat
  var_store_size :: nat

record page =
  line_index :: "nat list"      \<comment> \<open>\<open>index[3]\<close>\<close>
  valid_bit :: "bool list"      \<comment> \<open>\<open>valid_bit[3]\<close>\<close>
  page_index :: nat
  page_pid :: int

record process =
  proc_pid :: int
  proc_size :: int
  program_counter :: "nat list"
  proc_pages :: "nat list"      \<comment> \<open>\<open>page_table\<close>, of length \<open>page_table_size\<close>\<close>
  source_file :: nat

record ('os, 'fs) a3 = lists +
  a3_memory :: "slot list"
  page_heap :: "page option list"
  proc_heap :: "process option list"
  a3_files :: "stream list"
  QUEUE :: linked_list
  LRU_CACHE :: linked_list
  ALL_PCB :: linked_list
  PID_counter :: int
  new_name_count :: nat
  strtok_rest :: string         \<comment> \<open>what \<open>strtok(NULL, ";")\<close> would continue with\<close>
  a3_host :: 'os
  a3_fs :: 'fs
  a3_input :: string
  a3_terminals :: "string list"
  a3_interactive :: bool

definition memory_size :: "a3_config \<Rightarrow> nat" where
  "memory_size cfg = frame_store_size cfg + var_store_size cfg"

section \<open>The memory (a3/shellmemory.c)\<close>

definition a3_mem_init :: "a3_config \<Rightarrow> ('os, 'fs) a3 \<Rightarrow> ('os, 'fs) a3" where
  "a3_mem_init cfg s = s\<lparr>a3_memory := replicate (memory_size cfg) \<lparr>var = NONE, val = NONE\<rparr>\<rparr>"

definition mem_free_at :: "nat \<Rightarrow> ('os, 'fs) a3 \<Rightarrow> ('os, 'fs) a3 option" where
  "mem_free_at pos s = do {
     m \<leftarrow> wr (a3_memory s) pos \<lparr>var = NONE, val = NONE\<rparr>;
     Some (s\<lparr>a3_memory := m\<rparr>)
   }"

definition free_run :: "slot list \<Rightarrow> nat \<Rightarrow> nat \<Rightarrow> nat" where
  \<comment> \<open>\<open>j - i\<close> after the inner loop of \<open>frame_alloc\<close>\<close>
  "free_run m border i = length (takeWhile (\<lambda>j. var (m ! j) = NONE) [i..<min (i + 3) border])"

definition find_frame :: "slot list \<Rightarrow> nat \<Rightarrow> nat option" where
  "find_frame m border = List.find (\<lambda>i. free_run m border i = 3) [0..<border]"

definition put_page :: "nat \<Rightarrow> page \<Rightarrow> ('os, 'fs) a3 \<Rightarrow> ('os, 'fs) a3" where
  "put_page g pg s = s\<lparr>page_heap := (page_heap s)[g := Some pg]\<rparr>"

definition page_at :: "('os, 'fs) a3 \<Rightarrow> nat \<Rightarrow> page option" where
  "page_at s g = do { pg \<leftarrow> rd (page_heap s) g; pg }"

definition proc_at :: "('os, 'fs) a3 \<Rightarrow> nat \<Rightarrow> process option" where
  "proc_at s p = do { q \<leftarrow> rd (proc_heap s) p; q }"

definition put_proc :: "nat \<Rightarrow> process \<Rightarrow> ('os, 'fs) a3 \<Rightarrow> ('os, 'fs) a3" where
  "put_proc p q s = s\<lparr>proc_heap := (proc_heap s)[p := Some q]\<rparr>"

definition claim_frame :: "string \<Rightarrow> nat \<Rightarrow> slot list \<Rightarrow> slot list" where
  \<comment> \<open>the three names of the frame at \<open>i\<close>\<close>
  "claim_frame pid i m = foldl (\<lambda>m k. m[k := (m ! k)\<lparr>var := pid\<rparr>]) m [i, i + 1, i + 2]"

definition frame_alloc :: "a3_config \<Rightarrow> string \<Rightarrow> nat \<Rightarrow> ('os, 'fs) a3 \<Rightarrow> (int \<times> ('os, 'fs) a3) option" where
  \<comment> \<open>\<open>index\<close> and \<open>valid_bit\<close> are those of the page \<open>g\<close>\<close>
  "frame_alloc cfg pid g s =
     (case find_frame (a3_memory s) (frame_store_size cfg) of
        None \<Rightarrow> Some (1, s)
      | Some i \<Rightarrow> do {
          pg \<leftarrow> page_at s g;
          let s = s\<lparr>a3_memory := claim_frame pid i (a3_memory s)\<rparr>;
          Some (0, put_page g (pg\<lparr>line_index := [i, i + 1, i + 2], valid_bit := [False, False, False]\<rparr>) s)
        })"

definition mem_set_value_at ::
  "nat \<Rightarrow> string \<Rightarrow> string \<Rightarrow> nat \<Rightarrow> nat \<Rightarrow> ('os, 'fs) a3 \<Rightarrow> ('os, 'fs) a3 option" where
  \<comment> \<open>\<open>valid_bit\<close> points to the bit \<open>j\<close> of the page \<open>g\<close>\<close>
  "mem_set_value_at pos pid value_in g j s = do {
     m \<leftarrow> wr (a3_memory s) pos \<lparr>var = pid, val = value_in\<rparr>;
     pg \<leftarrow> page_at s g;
     v \<leftarrow> wr (valid_bit pg) j True;
     Some (put_page g (pg\<lparr>valid_bit := v\<rparr>) (s\<lparr>a3_memory := m\<rparr>))
   }"

definition mem_get_value_at :: "nat \<Rightarrow> ('os, 'fs) a3 \<Rightarrow> string option" where
  "mem_get_value_at pos s = do { e \<leftarrow> rd (a3_memory s) pos; Some (val e) }"

definition a3_mem_set_value :: "a3_config \<Rightarrow> string \<Rightarrow> string \<Rightarrow> ('os, 'fs) a3 \<Rightarrow> ('os, 'fs) a3" where
  "a3_mem_set_value cfg var_in value_in s =
     s\<lparr>a3_memory := set_in_range (frame_store_size cfg) (var_store_size cfg) var_in value_in (a3_memory s)\<rparr>"

definition a3_mem_get_value :: "a3_config \<Rightarrow> string \<Rightarrow> char \<Rightarrow> ('os, 'fs) a3 \<Rightarrow> string" where
  "a3_mem_get_value cfg var_in caller s =
     (case get_in_range (frame_store_size cfg) (var_store_size cfg) var_in (a3_memory s) of
        Some v \<Rightarrow> v
      | None \<Rightarrow> if caller = CHR ''p'' then ''Variable does not exist'' else [])"

fun free_slots_from :: "nat \<Rightarrow> nat \<Rightarrow> ('os, 'fs) a3 \<Rightarrow> ('os, 'fs) a3 option" where
  "free_slots_from i 0 s = Some s"
| "free_slots_from i (Suc n) s = do { s \<leftarrow> mem_free_at i s; free_slots_from (Suc i) n s }"

definition reset_var_zone :: "a3_config \<Rightarrow> ('os, 'fs) a3 \<Rightarrow> ('os, 'fs) a3 option" where
  "reset_var_zone cfg s = free_slots_from (frame_store_size cfg) (var_store_size cfg) s"

definition clear_frame :: "nat \<Rightarrow> ('os, 'fs) a3 \<Rightarrow> ('os, 'fs) a3 option" where
  "clear_frame start_pos s = free_slots_from start_pos 3 s"

fun a3_print_used :: "nat \<Rightarrow> slot list \<Rightarrow> ('os, 'fs) a3 \<Rightarrow> ('os, 'fs) a3" where
  "a3_print_used i [] s = s"
| "a3_print_used i (e # es) s = a3_print_used (Suc i) es
     (if var e = NONE then s
      else printf (nl @ ''line '' @ dec i @ '': key: '' @ var e @ [CHR 0x09, CHR 0x09] @ ''value: '' @ val e @ nl) s)"

definition a3_printShellMemory :: "a3_config \<Rightarrow> ('os, 'fs) a3 \<Rightarrow> ('os, 'fs) a3" where
  "a3_printShellMemory cfg s =
     (let n = memory_size cfg;
          count_empty = length (filter (\<lambda>e. var e = NONE) (a3_memory s));
          s = a3_print_used 0 (a3_memory s) s
      in printf (nl @ [CHR 0x09] @ dec n @ '' lines in total, '' @ dec (n - count_empty) @
                 '' lines in use, '' @ dec count_empty @ '' lines free'' @ nl @ nl) s)"

text \<open>The slots behind the frames are a variable store.\<close>

definition a3_ok :: "a3_config \<Rightarrow> ('os, 'fs) a3 \<Rightarrow> bool" where
  "a3_ok cfg s \<longleftrightarrow> unique_vars (frame_store_size cfg) (var_store_size cfg) (a3_memory s) \<and>
     length (a3_memory s) = memory_size cfg"

definition a3_vars :: "a3_config \<Rightarrow> ('os, 'fs) a3 \<Rightarrow> string \<rightharpoonup> string" where
  "a3_vars cfg s = vars_in (frame_store_size cfg) (var_store_size cfg) (a3_memory s)"

definition a3_room :: "a3_config \<Rightarrow> ('os, 'fs) a3 \<Rightarrow> nat" where
  "a3_room cfg s = free_slots (frame_store_size cfg) (var_store_size cfg) (a3_memory s)"

interpretation a3v: var_store "a3_ok cfg" "a3_vars cfg" "a3_room cfg" "a3_mem_set_value cfg" for cfg
  by unfold_locales
    (simp_all add: a3_ok_def a3_vars_def a3_room_def a3_mem_set_value_def range.none_free
      range.set_ok range.set_vars range.set_room range.set_full)

lemma a3_mem_init_ok:
  "a3_ok cfg (a3_mem_init cfg s) \<and> a3_vars cfg (a3_mem_init cfg s) = Map.empty \<and>
   a3_room cfg (a3_mem_init cfg s) = var_store_size cfg"
  using fresh_range [of "frame_store_size cfg" "var_store_size cfg" "a3_memory (a3_mem_init cfg s)"]
  by (simp add: a3_ok_def a3_vars_def a3_room_def a3_mem_init_def memory_size_def)

lemma a3_mem_get_value_vars:
  "key \<noteq> NONE \<Longrightarrow> a3_vars cfg s key = Some v \<Longrightarrow> a3_mem_get_value cfg key c s = v"
  by (simp add: a3_vars_def vars_in_def a3_mem_get_value_def)

section \<open>Processes and pages (a3/pcb.c)\<close>

fun newlines :: "char \<Rightarrow> string \<Rightarrow> int" where
  \<comment> \<open>the newlines that do not follow a newline; the first argument is the last character\<close>
  "newlines prev [] = 0"
| "newlines prev (c # cs) = (if c = CHR 0x0A \<and> prev \<noteq> CHR 0x0A then 1 else 0) + newlines c cs"

definition count_lines :: "string option \<Rightarrow> int" where
  \<comment> \<open>of the content of the script, \<open>None\<close> when it does not open\<close>
  "count_lines content = (case content of None \<Rightarrow> -1 | Some c \<Rightarrow> newlines (CHR 0x0A) c + 1)"

definition PAGE_table_size :: "int \<Rightarrow> int" where
  "PAGE_table_size lines = (if lines smod 3 = 0 then lines sdiv 3 else lines sdiv 3 + 1)"

definition PAGE_init :: "int \<Rightarrow> nat \<Rightarrow> page" where
  "PAGE_init pid i =
     \<lparr>line_index = [1000, 1000, 1000], valid_bit = [False, False, False], page_index = i, page_pid = pid\<rparr>"

definition pid_string :: "int \<Rightarrow> string option" where
  \<comment> \<open>\<open>sprintf\<close> into 10 bytes\<close>
  "pid_string pid = (if length (idec pid) < 10 then Some (idec pid) else None)"

definition file_gets :: "nat \<Rightarrow> ('os, 'fs) a3 \<Rightarrow> (string option \<times> ('os, 'fs) a3) option" where
  \<comment> \<open>\<open>fgets(line, 999, source_file)\<close>\<close>
  "file_gets f s = do {
     st \<leftarrow> rd (a3_files s) f;
     (case stream_gets 999 st of (got, st) \<Rightarrow> Some (got, s\<lparr>a3_files := (a3_files s)[f := st]\<rparr>))
   }"

fun fill_page :: "nat \<Rightarrow> nat \<Rightarrow> string \<Rightarrow> nat list \<Rightarrow> ('os, 'fs) a3 \<Rightarrow> ('os, 'fs) a3 option" where
  \<comment> \<open>the next lines of the file \<open>f\<close> into the slots \<open>js\<close> of the page \<open>g\<close>\<close>
  "fill_page f g pid [] s = Some s"
| "fill_page f g pid (j # js) s = do {
     (got, s) \<leftarrow> file_gets f s;
     (case got of
        None \<Rightarrow> Some s
      | Some line \<Rightarrow> do {
          pg \<leftarrow> page_at s g;
          pos \<leftarrow> rd (line_index pg) j;
          s \<leftarrow> mem_set_value_at pos pid line g j s;
          fill_page f g pid js s
        })
   }"

definition load_PAGE :: "a3_config \<Rightarrow> nat \<Rightarrow> nat \<Rightarrow> ('os, 'fs) a3 \<Rightarrow> (int \<times> ('os, 'fs) a3) option" where
  "load_PAGE cfg p page_num s = do {
     q \<leftarrow> proc_at s p;
     g \<leftarrow> rd (proc_pages q) page_num;
     pid \<leftarrow> pid_string (proc_pid q);
     (r, s) \<leftarrow> frame_alloc cfg pid g s;
     if r = 1 then Some (1, s)
     else do { s \<leftarrow> fill_page (source_file q) g pid [0..<3] s; Some (0, s) }
   }"

fun load_first_pages :: "a3_config \<Rightarrow> nat \<Rightarrow> nat list \<Rightarrow> ('os, 'fs) a3 \<Rightarrow> (unit, ('os, 'fs) a3) outcome" where
  \<comment> \<open>the pages \<open>is\<close> of the new process \<open>p\<close>; a full frame store ends the shell\<close>
  "load_first_pages cfg p [] s = Ret () s"
| "load_first_pages cfg p (i # is) s =
     seq (attempt (load_PAGE cfg p i s)) (\<lambda>r s.
       if r = 1
       then Exit 99 (printf (''frame_alloc failed'' @ nl) (a3_printShellMemory cfg s))
       else load_first_pages cfg p is s)"

definition PCB_init ::
  "a3_config \<Rightarrow> string option \<Rightarrow> int \<Rightarrow> string \<Rightarrow> ('os, 'fs) a3 \<Rightarrow> (nat, ('os, 'fs) a3) outcome" where
  \<comment> \<open>\<open>content\<close>: what opening \<open>script\<close> gives\<close>
  "PCB_init cfg content PID script s =
     (let p = length (proc_heap s); f = length (a3_files s);
          size = count_lines content; n = nat (PAGE_table_size size);
          gs = [length (page_heap s)..<length (page_heap s) + n];
          s = s\<lparr>page_heap := page_heap s @ map (\<lambda>i. Some (PAGE_init PID i)) [0..<n]\<rparr>
      in case content of
           None \<Rightarrow> Exit 99 (printf (''File not found: '' @ script @ nl) s)
         | Some c \<Rightarrow>
             (let s = s\<lparr>a3_files := a3_files s @ [\<lparr>st_text = c, st_pos = 0, st_eof = False\<rparr>],
                        proc_heap := proc_heap s @ [Some \<lparr>proc_pid = PID, proc_size = size,
                          program_counter = replicate n 0, proc_pages = gs, source_file = f\<rparr>]\<rparr>
              in seq (load_first_pages cfg p [0..<min 2 n] s) (\<lambda>_ s. Ret p s)))"

fun clear_pages :: "nat list \<Rightarrow> ('os, 'fs) a3 \<Rightarrow> ('os, 'fs) a3 option" where
  "clear_pages [] s = Some s"
| "clear_pages (g # gs) s = do {
     pg \<leftarrow> page_at s g;
     i0 \<leftarrow> rd (line_index pg) 0;
     i1 \<leftarrow> rd (line_index pg) 1;
     i2 \<leftarrow> rd (line_index pg) 2;
     s \<leftarrow> clear_frame i0 s;
     s \<leftarrow> clear_frame i1 s;
     s \<leftarrow> clear_frame i2 s;
     clear_pages gs (s\<lparr>page_heap := (page_heap s)[g := None]\<rparr>)
   }"

definition free_PCB :: "nat \<Rightarrow> ('os, 'fs) a3 \<Rightarrow> ('os, 'fs) a3 option" where
  "free_PCB p s = do {
     q \<leftarrow> proc_at s p;
     s \<leftarrow> clear_pages (proc_pages q) s;
     Some (s\<lparr>proc_heap := (proc_heap s)[p := None]\<rparr>)
   }"

fun evict_lines :: "nat \<Rightarrow> nat list \<Rightarrow> ('os, 'fs) a3 \<Rightarrow> ('os, 'fs) a3 option" where
  "evict_lines g [] s = Some s"
| "evict_lines g (i # is) s = do {
     pg \<leftarrow> page_at s g;
     pos \<leftarrow> rd (line_index pg) i;
     line \<leftarrow> mem_get_value_at pos s;
     let s = printf line s;
     s \<leftarrow> mem_free_at pos s;
     v \<leftarrow> wr (valid_bit pg) i False;
     evict_lines g is (put_page g (pg\<lparr>line_index := (line_index pg)[i := 0], valid_bit := v\<rparr>) s)
   }"

definition PAGE_evict :: "nat \<Rightarrow> nat \<Rightarrow> ('os, 'fs) a3 \<Rightarrow> ('os, 'fs) a3 option" where
  "PAGE_evict p page_num s = do {
     q \<leftarrow> proc_at s p;
     g \<leftarrow> rd (proc_pages q) page_num;
     s \<leftarrow> evict_lines g [0..<3] (printf (''Page fault! Victim page contents:'' @ nl) s);
     Some (printf (''End of victim page contents.'' @ nl) s)
   }"

definition PCB_equal :: "('os, 'fs) a3 \<Rightarrow> nat \<Rightarrow> nat \<Rightarrow> bool option" where
  "PCB_equal s p1 p2 = do { a \<leftarrow> proc_at s p1; b \<leftarrow> proc_at s p2; Some (proc_pid a = proc_pid b) }"

definition PAGE_equal :: "('os, 'fs) a3 \<Rightarrow> nat \<Rightarrow> nat \<Rightarrow> bool option" where
  "PAGE_equal s g1 g2 = do {
     a \<leftarrow> page_at s g1; b \<leftarrow> page_at s g2;
     i \<leftarrow> rd (line_index a) 0; j \<leftarrow> rd (line_index b) 0;
     Some (i = j)
   }"

definition PCB_done :: "nat \<Rightarrow> ('os, 'fs) a3 \<Rightarrow> bool option" where
  "PCB_done p s = do { q \<leftarrow> proc_at s p; Some (\<forall>c \<in> set (program_counter q). c = 3) }"

end
