(* ===== verification/A3_Kernel.thy ===== *)
theory A3_Kernel
  imports A3_Process
begin

text \<open>
  The kernel of assignment 3 (\<open>a3/kernel.c\<close>, \<open>a3/cpu.c\<close>): the ready queue, the list of the loaded pages in
  the order of their last use and the list of all processes, a step of one process with its page faults,
  and the two schedulers. Running a line calls \<open>parseInput\<close>, which is the argument \<open>parse\<close>; \<open>fuel\<close> bounds
  the rounds of the schedulers. A pointer to a field of a process or page is given as the process \<open>p\<close>, the
  index \<open>i\<close> of the page and the index \<open>j\<close> of the line.
\<close>

type_synonym ('os, 'fs) a3_parser = "string \<Rightarrow> ('os, 'fs) a3 \<Rightarrow> (int, ('os, 'fs) a3) outcome"

section \<open>One line (a3/cpu.c)\<close>

definition line_at :: "nat \<Rightarrow> nat \<Rightarrow> nat \<Rightarrow> ('os, 'fs) a3 \<Rightarrow> (bool \<times> nat) option" where
  \<comment> \<open>\<open>*valid_bit\<close> and \<open>*start_pos\<close>\<close>
  "line_at p i j s = do {
     q \<leftarrow> proc_at s p;
     g \<leftarrow> rd (proc_pages q) i;
     pg \<leftarrow> page_at s g;
     v \<leftarrow> rd (valid_bit pg) j;
     pos \<leftarrow> rd (line_index pg) j;
     Some (v, pos)
   }"

definition count_line :: "nat \<Rightarrow> nat \<Rightarrow> ('os, 'fs) a3 \<Rightarrow> ('os, 'fs) a3 option" where
  \<comment> \<open>\<open>(*program_counter)++, (*size)--\<close>\<close>
  "count_line p i s = do {
     q \<leftarrow> proc_at s p;
     c \<leftarrow> rd (program_counter q) i;
     Some (put_proc p (q\<lparr>program_counter := (program_counter q)[i := c + 1], proc_size := proc_size q - 1\<rparr>) s)
   }"

definition cpu_run ::
  "('os, 'fs) a3_parser \<Rightarrow> nat \<Rightarrow> nat \<Rightarrow> nat \<Rightarrow> ('os, 'fs) a3 \<Rightarrow> (int, ('os, 'fs) a3) outcome" where
  "cpu_run parse p i j s =
     (case line_at p i j s of
        None \<Rightarrow> Undefined
      | Some (valid, pos) \<Rightarrow>
          if \<not> valid then Ret 1 s
          else (case mem_get_value_at pos s of
                  None \<Rightarrow> Undefined
                | Some line \<Rightarrow> seq (parse line s) (\<lambda>ret s.
                    seq (attempt_do (count_line p i s)) (\<lambda>_ s. Ret ret s))))"

definition proc_done :: "int \<Rightarrow> bool" where
  "proc_done sz = (\<not> 0 < sz)"

section \<open>The lists of the kernel\<close>

definition kernel_setup :: "('os, 'fs) a3 \<Rightarrow> ('os, 'fs) a3" where
  "kernel_setup s =
     (case list_init s of (l, s) \<Rightarrow> let s = s\<lparr>QUEUE := l\<rparr> in
      case list_init s of (l, s) \<Rightarrow> let s = s\<lparr>LRU_CACHE := l\<rparr> in
      case list_init s of (l, s) \<Rightarrow> s\<lparr>ALL_PCB := l\<rparr>)"

definition enqueue :: "nat \<Rightarrow> ('os, 'fs) a3 \<Rightarrow> ('os, 'fs) a3 option" where
  "enqueue p s = do { (l, s) \<leftarrow> add_tail p (QUEUE s) s; Some (s\<lparr>QUEUE := l\<rparr>) }"

definition register :: "nat \<Rightarrow> ('os, 'fs) a3 \<Rightarrow> ('os, 'fs) a3 option" where
  "register p s = do { (l, s) \<leftarrow> add_tail p (ALL_PCB s) s; Some (s\<lparr>ALL_PCB := l\<rparr>) }"

definition most_recent :: "nat \<Rightarrow> ('os, 'fs) a3 \<Rightarrow> ('os, 'fs) a3 option" where
  "most_recent g s = do { (l, s) \<leftarrow> add_head g (LRU_CACHE s) s; Some (s\<lparr>LRU_CACHE := l\<rparr>) }"

definition forget_page :: "nat \<Rightarrow> ('os, 'fs) a3 \<Rightarrow> (nat \<times> ('os, 'fs) a3) option" where
  "forget_page g s = do {
     ((d, l), s) \<leftarrow> remove_elem (PAGE_equal s) g (LRU_CACHE s) s;
     Some (d, s\<lparr>LRU_CACHE := l\<rparr>)
   }"

section \<open>A step of a process\<close>

partial_function (option) find_owner :: "int \<Rightarrow> nat option \<Rightarrow> ('os, 'fs) a3 \<Rightarrow> nat option" where
  \<comment> \<open>the search in \<open>ALL_PCB\<close> stops at the dummy of \<open>QUEUE\<close>; the end of \<open>ALL_PCB\<close> has no data\<close>
  "find_owner pid cur s =
     (if cur = Some (dummy_tail (QUEUE s)) then cur
      else do {
        c \<leftarrow> cur;
        nd \<leftarrow> rd (lheap s) c;
        d \<leftarrow> nd_data nd;
        q \<leftarrow> proc_at s d;
        if proc_pid q = pid then Some c else find_owner pid (nd_next nd) s
      })"

definition evict_and_load ::
  "a3_config \<Rightarrow> nat \<Rightarrow> nat \<Rightarrow> nat \<Rightarrow> ('os, 'fs) a3 \<Rightarrow> ('os, 'fs) a3 option" where
  "evict_and_load cfg victim p i s = do {
     vp \<leftarrow> page_at s victim;
     hd \<leftarrow> rd (lheap s) (dummy_head (ALL_PCB s));
     c \<leftarrow> find_owner (page_pid vp) (nd_next hd) s;
     nd \<leftarrow> rd (lheap s) c;
     owner \<leftarrow> nd_data nd;
     s \<leftarrow> PAGE_evict owner (page_index vp) s;
     (_, s) \<leftarrow> load_PAGE cfg p i s;
     Some s
   }"

definition page_fault ::
  "a3_config \<Rightarrow> nat \<Rightarrow> nat \<Rightarrow> ('os, 'fs) a3 \<Rightarrow> (int, ('os, 'fs) a3) outcome" where
  "page_fault cfg p i s =
     seq (attempt (load_PAGE cfg p i s)) (\<lambda>r s.
     seq (if r = 1
          then seq (pop_tail (LRU_CACHE s) s) (\<lambda>(victim, l) s.
                 attempt_do (evict_and_load cfg victim p i (s\<lparr>LRU_CACHE := l\<rparr>)))
          else Ret () s) (\<lambda>_ s.
     attempt (do {
       q \<leftarrow> proc_at s p;
       g \<leftarrow> rd (proc_pages q) i;
       s \<leftarrow> most_recent g s;
       s \<leftarrow> enqueue p s;
       Some (1, s)
     })))"

definition use_page :: "nat \<Rightarrow> nat \<Rightarrow> ('os, 'fs) a3 \<Rightarrow> ('os, 'fs) a3 option" where
  "use_page p i s = do {
     q \<leftarrow> proc_at s p;
     g \<leftarrow> rd (proc_pages q) i;
     (d, s) \<leftarrow> forget_page g s;
     most_recent d s
   }"

definition run_proc ::
  "a3_config \<Rightarrow> ('os, 'fs) a3_parser \<Rightarrow> nat \<Rightarrow> nat \<Rightarrow> nat \<Rightarrow> ('os, 'fs) a3 \<Rightarrow> (int, ('os, 'fs) a3) outcome" where
  "run_proc cfg parse p i j s =
     seq (cpu_run parse p i j s) (\<lambda>ret s.
       if ret = 1 then page_fault cfg p i s
       else seq (attempt_do (use_page p i s)) (\<lambda>_ s. Ret 0 s))"

fun add_pages :: "nat list \<Rightarrow> ('os, 'fs) a3 \<Rightarrow> ('os, 'fs) a3 option" where
  "add_pages [] s = Some s"
| "add_pages (g # gs) s = do { s \<leftarrow> most_recent g s; add_pages gs s }"

definition new_proc ::
  "a3_config \<Rightarrow> 'os host_ops \<Rightarrow> string \<Rightarrow> ('os, 'fs) a3 \<Rightarrow> (int, ('os, 'fs) a3) outcome" where
  "new_proc cfg h script s =
     seq (PCB_init cfg (os_open_read h script (a3_host s)) (PID_counter s) script
            (s\<lparr>PID_counter := PID_counter s + 1\<rparr>)) (\<lambda>p s.
       attempt (do {
         s \<leftarrow> register p s;
         s \<leftarrow> enqueue p s;
         q \<leftarrow> proc_at s p;
         s \<leftarrow> add_pages (take 2 (proc_pages q)) s;
         Some (0, s)
       }))"

section \<open>The schedulers\<close>

fun find_valid :: "nat list \<Rightarrow> nat \<Rightarrow> ('os, 'fs) a3 \<Rightarrow> (nat \<times> nat) option" where
  \<comment> \<open>the first loaded line of the pages from \<open>i\<close> on; past the table is undefined\<close>
  "find_valid [] i s = None"
| "find_valid (g # gs) i s = do {
     pg \<leftarrow> page_at s g;
     (case List.find (\<lambda>j. rd (valid_bit pg) j = Some True) [0..<3] of
        Some j \<Rightarrow> Some (i, j)
      | None \<Rightarrow> find_valid gs (Suc i) s)
   }"

fun fifo_lines ::
  "a3_config \<Rightarrow> ('os, 'fs) a3_parser \<Rightarrow> nat \<Rightarrow> nat \<Rightarrow> ('os, 'fs) a3 \<Rightarrow> (unit, ('os, 'fs) a3) outcome" where
  "fifo_lines cfg parse p 0 s = Unfinished"
| "fifo_lines cfg parse p (Suc fuel) s =
     (case proc_at s p of
        None \<Rightarrow> Undefined
      | Some q \<Rightarrow>
          if proc_done (proc_size q) then Ret () s
          else (case find_valid (proc_pages q) 0 s of
                  None \<Rightarrow> Undefined
                | Some (i, j) \<Rightarrow> seq (run_proc cfg parse p i j s) (\<lambda>_ s. fifo_lines cfg parse p fuel s)))"

fun run_proc_FIFO ::
  "a3_config \<Rightarrow> ('os, 'fs) a3_parser \<Rightarrow> nat \<Rightarrow> nat \<Rightarrow> ('os, 'fs) a3 \<Rightarrow> (int, ('os, 'fs) a3) outcome" where
  "run_proc_FIFO cfg parse fuel 0 s = Unfinished"
| "run_proc_FIFO cfg parse fuel (Suc n) s =
     (if ll_size (QUEUE s) > 0
      then seq (pop_head (QUEUE s) s) (\<lambda>(p, l) s.
             seq (fifo_lines cfg parse p fuel (s\<lparr>QUEUE := l\<rparr>)) (\<lambda>_ s.
             seq (attempt_do (free_PCB p s)) (\<lambda>_ s. run_proc_FIFO cfg parse fuel n s)))
      else Ret 0 s)"

partial_function (option) all_done :: "nat option \<Rightarrow> ('os, 'fs) a3 \<Rightarrow> bool option" where
  "all_done cur s = do {
     c \<leftarrow> cur;
     more \<leftarrow> has_next c s;
     if \<not> more then Some True
     else do {
       (d, cur) \<leftarrow> next_data c s;
       done \<leftarrow> PCB_done d s;
       if done then all_done cur s else Some False
     }
   }"

definition queue_done :: "('os, 'fs) a3 \<Rightarrow> bool option" where
  "queue_done s = do { hd \<leftarrow> rd (lheap s) (dummy_head (QUEUE s)); all_done (nd_next hd) s }"

partial_function (option) free_all :: "nat option \<Rightarrow> ('os, 'fs) a3 \<Rightarrow> ('os, 'fs) a3 option" where
  "free_all cur s = do {
     c \<leftarrow> cur;
     more \<leftarrow> has_next c s;
     if \<not> more then Some s
     else do {
       (d, cur) \<leftarrow> next_data c s;
       s \<leftarrow> free_PCB d s;
       free_all cur s
     }
   }"

definition finish_all :: "('os, 'fs) a3 \<Rightarrow> (int \<times> ('os, 'fs) a3) option" where
  "finish_all s = do {
     hd \<leftarrow> rd (lheap s) (dummy_head (ALL_PCB s));
     s \<leftarrow> free_all (nd_next hd) s;
     (l, s) \<leftarrow> list_clear (QUEUE s) s;
     let s = s\<lparr>QUEUE := l\<rparr>;
     (l, s) \<leftarrow> list_clear (LRU_CACHE s) s;
     let s = s\<lparr>LRU_CACHE := l\<rparr>;
     (l, s) \<leftarrow> list_clear (ALL_PCB s) s;
     Some (0, s\<lparr>ALL_PCB := l\<rparr>)
   }"

definition rr_line ::
  "a3_config \<Rightarrow> ('os, 'fs) a3_parser \<Rightarrow> nat \<Rightarrow> ('os, 'fs) a3 \<Rightarrow> (int, ('os, 'fs) a3) outcome" where
  \<comment> \<open>the first page whose counter is not 3, its next line\<close>
  "rr_line cfg parse p s =
     (case proc_at s p of
        None \<Rightarrow> Undefined
      | Some q \<Rightarrow>
          (let i = length (takeWhile (\<lambda>c. c = 3) (program_counter q)) in
           case rd (program_counter q) i of
             None \<Rightarrow> Undefined
           | Some j \<Rightarrow> run_proc cfg parse p i j s))"

fun run_proc_RR ::
  "a3_config \<Rightarrow> ('os, 'fs) a3_parser \<Rightarrow> nat \<Rightarrow> ('os, 'fs) a3 \<Rightarrow> (int, ('os, 'fs) a3) outcome" where
  "run_proc_RR cfg parse 0 s = Unfinished"
| "run_proc_RR cfg parse (Suc n) s =
     (case queue_done s of
        None \<Rightarrow> Undefined
      | Some True \<Rightarrow> attempt (finish_all s)
      | Some False \<Rightarrow>
          seq (pop_head (QUEUE s) s) (\<lambda>(p, l) s.
            let s = s\<lparr>QUEUE := l\<rparr> in
            case proc_at s p of
              None \<Rightarrow> Undefined
            | Some q \<Rightarrow>
                if proc_size q > 1
                then seq (rr_line cfg parse p s) (\<lambda>ret s.
                       if ret = 1 then run_proc_RR cfg parse n s
                       else seq (rr_line cfg parse p s) (\<lambda>ret s.
                              if ret = 1 then run_proc_RR cfg parse n s
                              else seq (attempt_do (enqueue p s)) (\<lambda>_ s. run_proc_RR cfg parse n s)))
                else if proc_size q = 1
                then seq (rr_line cfg parse p s) (\<lambda>_ s. run_proc_RR cfg parse n s)
                else run_proc_RR cfg parse n s))"

end
