(* ===== verification/A3_Lists.thy ===== *)
theory A3_Lists
  imports A3_Kernel
begin

text \<open>
  The three lists of the kernel of assignment 3 share one heap of nodes. \<open>lists_rep s qs ps gs\<close> says that
  \<open>QUEUE\<close> holds \<open>qs\<close>, \<open>ALL_PCB\<close> holds \<open>ps\<close> and \<open>LRU_CACHE\<close> holds \<open>gs\<close>, on disjoint nodes; each operation of
  the kernel on one list acts on its contents and leaves the other two alone.
\<close>

definition lists_rep :: "('os, 'fs) a3 \<Rightarrow> nat list \<Rightarrow> nat list \<Rightarrow> nat list \<Rightarrow> bool" where
  "lists_rep s qs ps gs \<longleftrightarrow> (\<exists>nq np ng.
     ll_rep s (QUEUE s) nq \<and> ll_data s nq = qs \<and> ll_rep s (ALL_PCB s) np \<and> ll_data s np = ps \<and>
     ll_rep s (LRU_CACHE s) ng \<and> ll_data s ng = gs \<and>
     footprint (QUEUE s) nq \<inter> footprint (ALL_PCB s) np = {} \<and>
     footprint (QUEUE s) nq \<inter> footprint (LRU_CACHE s) ng = {} \<and>
     footprint (ALL_PCB s) np \<inter> footprint (LRU_CACHE s) ng = {})"

definition only_lists :: "('os, 'fs) a3 \<Rightarrow> ('os, 'fs) a3 \<Rightarrow> bool" where
  "only_lists s s' \<longleftrightarrow> (\<exists>h q l a. s' = s\<lparr>lheap := h, QUEUE := q, LRU_CACHE := l, ALL_PCB := a\<rparr>)"

lemma only_lists_fields:
  assumes "only_lists s s'"
  shows "a3_memory s' = a3_memory s" "page_heap s' = page_heap s" "proc_heap s' = proc_heap s"
    "a3_files s' = a3_files s" "PID_counter s' = PID_counter s" "console s' = console s"
    "page_at s' = page_at s" "proc_at s' = proc_at s"
  using assms by (auto simp: only_lists_def page_at_def proc_at_def fun_eq_iff)

lemma only_lists_refl [simp]: "only_lists s s"
  unfolding only_lists_def by (rule exI [of _ "lheap s"], rule exI [of _ "QUEUE s"],
    rule exI [of _ "LRU_CACHE s"], rule exI [of _ "ALL_PCB s"]) simp

lemma only_lists_step: "only_lists s (s\<lparr>lheap := h, QUEUE := q, LRU_CACHE := l, ALL_PCB := a\<rparr>)"
  by (auto simp: only_lists_def)

lemma only_lists_trans: "only_lists s s' \<Longrightarrow> only_lists s' s'' \<Longrightarrow> only_lists s s''"
  unfolding only_lists_def by fastforce

lemma ll_rep_lheap: "lheap s' = lheap s \<Longrightarrow> ll_rep s' l ns = ll_rep s l ns"
  and ll_data_lheap: "lheap s' = lheap s \<Longrightarrow> ll_data s' ns = ll_data s ns"
  by (simp_all add: ll_rep_def ll_data_def)

lemma ll_rep_fields [simp]:
  "ll_rep (s\<lparr>QUEUE := q\<rparr>) l ns = ll_rep s l ns" "ll_rep (s\<lparr>ALL_PCB := q\<rparr>) l ns = ll_rep s l ns"
  "ll_rep (s\<lparr>LRU_CACHE := q\<rparr>) l ns = ll_rep s l ns" "ll_data (s\<lparr>QUEUE := q\<rparr>) ns = ll_data s ns"
  "ll_data (s\<lparr>ALL_PCB := q\<rparr>) ns = ll_data s ns" "ll_data (s\<lparr>LRU_CACHE := q\<rparr>) ns = ll_data s ns"
  by (simp_all add: ll_rep_def ll_data_def)

text \<open>An operation on \<open>l\<close> next to two other lists.\<close>

lemma beside:
  assumes "touches l n s s'" and "footprint l' n' \<subseteq> insert (length (lheap s)) (footprint l n)"
    and "ll_rep s a na" and "footprint l n \<inter> footprint a na = {}"
  shows "ll_rep s' a na \<and> ll_data s' na = ll_data s na \<and> footprint l' n' \<inter> footprint a na = {}"
proof -
  have "length (lheap s) \<notin> footprint a na" using ll_rep_nodes [OF assms(3)] by blast
  then show ?thesis using ll_rep_other [OF assms(1,3,4)] assms(2,4) by blast
qed

lemma touches_fields:
  fixes s :: "('os, 'fs) a3"
  assumes "touches l n s s'"
  shows "QUEUE s' = QUEUE s \<and> ALL_PCB s' = ALL_PCB s \<and> LRU_CACHE s' = LRU_CACHE s \<and>
    only_lists s (s'\<lparr>QUEUE := q\<rparr>) \<and> only_lists s (s'\<lparr>ALL_PCB := q\<rparr>) \<and> only_lists s (s'\<lparr>LRU_CACHE := q\<rparr>)"
proof -
  obtain h where h: "s' = s\<lparr>lheap := h\<rparr>" using assms unfolding touches_def by blast
  show ?thesis
    using only_lists_step [of s "ALL_PCB s" "LRU_CACHE s" q h] only_lists_step [of s q "LRU_CACHE s" "QUEUE s" h]
      only_lists_step [of s "ALL_PCB s" q "QUEUE s" h]
    by (simp add: h)
qed

lemma on_QUEUE:
  assumes "touches (QUEUE s) nq s s'" and "footprint l' nq' \<subseteq> insert (length (lheap s)) (footprint (QUEUE s) nq)"
    and "ll_rep s' l' nq'" and "lists_rep s qs ps gs" and "ll_rep s (QUEUE s) nq"
  shows "lists_rep (s'\<lparr>QUEUE := l'\<rparr>) (ll_data s' nq') ps gs \<and> only_lists s (s'\<lparr>QUEUE := l'\<rparr>)"
proof -
  obtain np ng nq0 where r: "ll_rep s (QUEUE s) nq0" "ll_rep s (ALL_PCB s) np" "ll_data s np = ps" "ll_rep s (LRU_CACHE s) ng"
    "ll_data s ng = gs" "footprint (QUEUE s) nq0 \<inter> footprint (ALL_PCB s) np = {}"
    "footprint (QUEUE s) nq0 \<inter> footprint (LRU_CACHE s) ng = {}" "footprint (ALL_PCB s) np \<inter> footprint (LRU_CACHE s) ng = {}"
    using assms(4) unfolding lists_rep_def by blast
  have "nq0 = nq" using ll_nodes_rep [OF r(1)] ll_nodes_rep [OF assms(5)] by simp
  then show ?thesis
    using r beside [OF assms(1,2) r(2)] beside [OF assms(1,2) r(4)] assms(3) touches_fields [OF assms(1)]
    unfolding lists_rep_def by auto
qed

lemma on_ALL_PCB:
  assumes "touches (ALL_PCB s) np s s'" and "footprint l' np' \<subseteq> insert (length (lheap s)) (footprint (ALL_PCB s) np)"
    and "ll_rep s' l' np'" and "lists_rep s qs ps gs" and "ll_rep s (ALL_PCB s) np"
  shows "lists_rep (s'\<lparr>ALL_PCB := l'\<rparr>) qs (ll_data s' np') gs \<and> only_lists s (s'\<lparr>ALL_PCB := l'\<rparr>)"
proof -
  obtain nq ng np0 where r: "ll_rep s (QUEUE s) nq" "ll_rep s (ALL_PCB s) np0" "ll_data s nq = qs" "ll_rep s (LRU_CACHE s) ng"
    "ll_data s ng = gs" "footprint (ALL_PCB s) np0 \<inter> footprint (QUEUE s) nq = {}"
    "footprint (QUEUE s) nq \<inter> footprint (LRU_CACHE s) ng = {}" "footprint (ALL_PCB s) np0 \<inter> footprint (LRU_CACHE s) ng = {}"
    using assms(4) unfolding lists_rep_def by blast
  have "np0 = np" using ll_nodes_rep [OF r(2)] ll_nodes_rep [OF assms(5)] by simp
  then show ?thesis
    using r beside [OF assms(1,2) r(1)] beside [OF assms(1,2) r(4)] assms(3) touches_fields [OF assms(1)]
    unfolding lists_rep_def by (auto simp: Int_commute)
qed

lemma on_LRU_CACHE:
  assumes "touches (LRU_CACHE s) ng s s'" and "footprint l' ng' \<subseteq> insert (length (lheap s)) (footprint (LRU_CACHE s) ng)"
    and "ll_rep s' l' ng'" and "lists_rep s qs ps gs" and "ll_rep s (LRU_CACHE s) ng"
  shows "lists_rep (s'\<lparr>LRU_CACHE := l'\<rparr>) qs ps (ll_data s' ng') \<and> only_lists s (s'\<lparr>LRU_CACHE := l'\<rparr>)"
proof -
  obtain nq np ng0 where r: "ll_rep s (QUEUE s) nq" "ll_rep s (ALL_PCB s) np" "ll_data s nq = qs" "ll_rep s (LRU_CACHE s) ng0"
    "ll_data s np = ps" "footprint (QUEUE s) nq \<inter> footprint (ALL_PCB s) np = {}"
    "footprint (LRU_CACHE s) ng0 \<inter> footprint (QUEUE s) nq = {}" "footprint (LRU_CACHE s) ng0 \<inter> footprint (ALL_PCB s) np = {}"
    using assms(4) unfolding lists_rep_def by blast
  have "ng0 = ng" using ll_nodes_rep [OF r(4)] ll_nodes_rep [OF assms(5)] by simp
  then show ?thesis
    using r beside [OF assms(1,2) r(1)] beside [OF assms(1,2) r(2)] assms(3) touches_fields [OF assms(1)]
    unfolding lists_rep_def by (auto simp: Int_commute)
qed

section \<open>The operations of the kernel\<close>

lemma footprint_snoc: "footprint (l\<lparr>ll_size := k\<rparr>) (ns @ [n]) \<subseteq> insert n (footprint l ns)"
  and footprint_Cons: "footprint (l\<lparr>ll_size := k\<rparr>) (n # ns) \<subseteq> insert n (footprint l ns)"
  and footprint_less: "set ms \<subseteq> set ns \<Longrightarrow> footprint (l\<lparr>ll_size := k\<rparr>) ms \<subseteq> insert n (footprint l ns)"
  by (auto simp: footprint_def)

lemma enqueue_rep:
  assumes "lists_rep s qs ps gs"
  shows "\<exists>s'. enqueue p s = Some s' \<and> lists_rep s' (qs @ [p]) ps gs \<and> only_lists s s'"
proof -
  obtain nq where nq: "ll_rep s (QUEUE s) nq" "ll_data s nq = qs" using assms unfolding lists_rep_def by blast
  let ?l = "QUEUE s\<lparr>ll_size := ll_size (QUEUE s) + 1\<rparr>" and ?n = "nq @ [length (lheap s)]"
  obtain s' where s': "add_tail p (QUEUE s) s = Some (?l, s')" "ll_rep s' ?l ?n" "touches (QUEUE s) nq s s'"
    "ll_data s' ?n = ll_data s nq @ [p]"
    using add_tail_spec_ll [OF nq(1), of p] by blast
  show ?thesis
    using on_QUEUE [OF s'(3) footprint_snoc s'(2) assms nq(1)] s'(1,4) nq(2) by (simp add: enqueue_def)
qed

lemma register_rep:
  assumes "lists_rep s qs ps gs"
  shows "\<exists>s'. register p s = Some s' \<and> lists_rep s' qs (ps @ [p]) gs \<and> only_lists s s'"
proof -
  obtain np where np: "ll_rep s (ALL_PCB s) np" "ll_data s np = ps" using assms unfolding lists_rep_def by blast
  let ?l = "ALL_PCB s\<lparr>ll_size := ll_size (ALL_PCB s) + 1\<rparr>" and ?n = "np @ [length (lheap s)]"
  obtain s' where s': "add_tail p (ALL_PCB s) s = Some (?l, s')" "ll_rep s' ?l ?n" "touches (ALL_PCB s) np s s'"
    "ll_data s' ?n = ll_data s np @ [p]"
    using add_tail_spec_ll [OF np(1), of p] by blast
  show ?thesis
    using on_ALL_PCB [OF s'(3) footprint_snoc s'(2) assms np(1)] s'(1,4) np(2) by (simp add: register_def)
qed

lemma most_recent_rep:
  assumes "lists_rep s qs ps gs"
  shows "\<exists>s'. most_recent g s = Some s' \<and> lists_rep s' qs ps (g # gs) \<and> only_lists s s'"
proof -
  obtain ng where ng: "ll_rep s (LRU_CACHE s) ng" "ll_data s ng = gs" using assms unfolding lists_rep_def by blast
  let ?l = "LRU_CACHE s\<lparr>ll_size := ll_size (LRU_CACHE s) + 1\<rparr>" and ?n = "length (lheap s) # ng"
  obtain s' where s': "add_head g (LRU_CACHE s) s = Some (?l, s')" "ll_rep s' ?l ?n" "touches (LRU_CACHE s) ng s s'"
    "ll_data s' ?n = g # ll_data s ng"
    using add_head_spec_ll [OF ng(1), of g] by blast
  show ?thesis
    using on_LRU_CACHE [OF s'(3) footprint_Cons s'(2) assms ng(1)] s'(1,4) ng(2) by (simp add: most_recent_def)
qed

lemma pop_queue_rep:
  assumes "lists_rep s (p # qs) ps gs"
  shows "\<exists>l s'. pop_head (QUEUE s) s = Ret (p, l) s' \<and> lists_rep (s'\<lparr>QUEUE := l\<rparr>) qs ps gs \<and>
    only_lists s (s'\<lparr>QUEUE := l\<rparr>)"
proof -
  obtain nq where nq: "ll_rep s (QUEUE s) nq" "ll_data s nq = p # qs" using assms unfolding lists_rep_def by blast
  then obtain n ns where ns: "nq = n # ns" "the (dt (lheap s) n) = p" "ll_data s ns = qs"
    by (auto simp: ll_data_def)
  let ?l = "QUEUE s\<lparr>ll_size := ll_size (QUEUE s) - 1\<rparr>"
  obtain s' where s': "pop_head (QUEUE s) s = Ret (p, ?l) s'" "ll_rep s' ?l ns" "touches (QUEUE s) (n # ns) s s'"
    "ll_data s' ns = ll_data s ns"
    using pop_head_spec_ll [of s "QUEUE s" n ns] nq(1) ns by auto
  have "set ns \<subseteq> set (n # ns)" by auto
  from on_QUEUE [OF s'(3) footprint_less [OF this] s'(2) assms] show ?thesis
    using s'(1,4) ns nq(1) by auto
qed

text \<open>The least recently used page is the last of the list.\<close>

lemma pop_lru_rep:
  assumes "lists_rep s qs ps (gs @ [g])"
  shows "\<exists>l s'. pop_tail (LRU_CACHE s) s = Ret (g, l) s' \<and> lists_rep (s'\<lparr>LRU_CACHE := l\<rparr>) qs ps gs \<and>
    only_lists s (s'\<lparr>LRU_CACHE := l\<rparr>)"
proof -
  obtain ng where ng: "ll_rep s (LRU_CACHE s) ng" "ll_data s ng = gs @ [g]" using assms unfolding lists_rep_def by blast
  then have "ng \<noteq> []" by (auto simp: ll_data_def)
  then obtain n ns where ns: "ng = ns @ [n]" by (metis append_butlast_last_id)
  then have d: "the (dt (lheap s) n) = g" "ll_data s ns = gs" using ng(2) by (simp_all add: ll_data_def)
  let ?l = "LRU_CACHE s\<lparr>ll_size := ll_size (LRU_CACHE s) - 1\<rparr>"
  obtain s' where s': "pop_tail (LRU_CACHE s) s = Ret (g, ?l) s'" "ll_rep s' ?l ns" "touches (LRU_CACHE s) (ns @ [n]) s s'"
    "ll_data s' ns = ll_data s ns"
    using pop_tail_spec_ll [of s "LRU_CACHE s" ns n] ng(1) ns d by auto
  have "set ns \<subseteq> set (ns @ [n])" by auto
  from on_LRU_CACHE [OF s'(3) footprint_less [OF this] s'(2) assms] show ?thesis
    using s'(1,4) ns d ng(1) by auto
qed

text \<open>The page is taken out of the list wherever it is, when no page before it has its frame.\<close>

lemma forget_page_rep:
  assumes "lists_rep s qs ps (gs @ g # gs')"
    and "\<forall>d \<in> set gs. PAGE_equal s g d = Some False" and "PAGE_equal s g g = Some True"
  shows "\<exists>s'. forget_page g s = Some (g, s') \<and> lists_rep s' qs ps (gs @ gs') \<and> only_lists s s'"
proof -
  obtain ng where ng: "ll_rep s (LRU_CACHE s) ng" "ll_data s ng = gs @ g # gs'" using assms(1) unfolding lists_rep_def by blast
  then obtain ns n ns' where ns: "ng = ns @ n # ns'" "ll_data s ns = gs" "the (dt (lheap s) n) = g" "ll_data s ns' = gs'"
    unfolding ll_data_def map_eq_append_conv by (auto simp: map_eq_Cons_conv)
  let ?l = "LRU_CACHE s\<lparr>ll_size := ll_size (LRU_CACHE s) - 1\<rparr>"
  have "\<forall>m \<in> set ns. PAGE_equal s g (the (dt (lheap s) m)) = Some False" using assms(2) ns(2) by (auto simp: ll_data_def)
  then obtain s' where s': "remove_elem (PAGE_equal s) g (LRU_CACHE s) s = Some ((g, ?l), s')" "ll_rep s' ?l (ns @ ns')"
    "touches (LRU_CACHE s) (ns @ n # ns') s s'" "ll_data s' (ns @ ns') = ll_data s (ns @ ns')"
    using remove_elem_spec [of s "LRU_CACHE s" ns n ns' "PAGE_equal s" g] ng(1) ns(1,3) assms(3) by auto
  have "set (ns @ ns') \<subseteq> set (ns @ n # ns')" by auto
  moreover have "ll_data s' (ns @ ns') = gs @ gs'" unfolding s'(4) using ns(2,4) by (simp add: ll_data_def)
  ultimately show ?thesis
    using on_LRU_CACHE [OF s'(3) footprint_less s'(2) assms(1)] s'(1) ns(1) ng(1) by (auto simp: forget_page_def)
qed

lemma kernel_setup_rep:
  "lists_rep (kernel_setup s) [] [] [] \<and> only_lists s (kernel_setup s)"
proof -
  have "lists_rep (kernel_setup s) [] [] []"
    unfolding lists_rep_def
    by (intro exI [of _ "[]"]) (simp add: kernel_setup_def list_init_def Let_def ll_rep_def ll_data_def footprint_def
        nx_def pv_def nth_append)
  moreover have "kernel_setup s = s\<lparr>lheap := lheap (kernel_setup s), QUEUE := QUEUE (kernel_setup s),
      LRU_CACHE := LRU_CACHE (kernel_setup s), ALL_PCB := ALL_PCB (kernel_setup s)\<rparr>"
    by (simp add: kernel_setup_def list_init_def Let_def)
  then have "only_lists s (kernel_setup s)" unfolding only_lists_def by blast
  ultimately show ?thesis by blast
qed

section \<open>The walks over the lists\<close>

lemma all_done_chain:
  assumes "dll f g a ns b" and "f = nx (lheap s)" and "b < length (lheap s)" and "f b = None"
    and "\<forall>n \<in> set ns. n < length (lheap s) \<and> (\<exists>p. dt (lheap s) n = Some p \<and> PCB_done p s = Some (d p))"
  shows "all_done (f a) s = Some (\<forall>n \<in> set ns. d (the (dt (lheap s) n)))"
  using assms
proof (induction ns arbitrary: a)
  case Nil
  then have "f a = Some b" "nd_next (lheap s ! b) = None" using rd_node by auto
  then show ?case using Nil.prems(3) by (subst all_done.simps) (simp add: has_next_def)
next
  case (Cons n ns)
  obtain p where p: "dt (lheap s) n = Some p" "PCB_done p s = Some (d p)" using Cons.prems(5) by auto
  have n: "n < length (lheap s)" "f a = Some n" using Cons.prems(1,5) by auto
  have nx: "nd_next (lheap s ! n) = f n" "nd_data (lheap s ! n) = Some p"
    using rd_node [OF n(1)] p(1) Cons.prems(2) by simp_all
  have "f n \<noteq> None" using Cons.prems(1) by (cases ns) auto
  then show ?case
    using Cons.IH [of n] Cons.prems n nx p
    by (subst all_done.simps) (auto simp: has_next_def next_data_def next_node_def)
qed

lemma queue_done_rep:
  assumes "lists_rep s qs ps gs" and "\<forall>p \<in> set qs. PCB_done p s = Some (d p)"
  shows "queue_done s = Some (\<forall>p \<in> set qs. d p)"
proof -
  obtain nq where nq: "ll_rep s (QUEUE s) nq" "ll_data s nq = qs" using assms(1) unfolding lists_rep_def by blast
  have r: "dll (nx (lheap s)) (pv (lheap s)) (dummy_head (QUEUE s)) nq (dummy_tail (QUEUE s))"
    "dummy_tail (QUEUE s) < length (lheap s)" "nx (lheap s) (dummy_tail (QUEUE s)) = None"
    "dummy_head (QUEUE s) < length (lheap s)"
    using nq(1) by (simp_all add: ll_rep_def)
  have e: "\<forall>n \<in> set nq. n < length (lheap s) \<and> (\<exists>p. dt (lheap s) n = Some p \<and> PCB_done p s = Some (d p))"
  proof
    fix n assume n: "n \<in> set nq"
    then have "dt (lheap s) n \<noteq> None" "n < length (lheap s)" "the (dt (lheap s) n) \<in> set qs"
      using nq by (auto simp: ll_rep_def ll_data_def)
    then show "n < length (lheap s) \<and> (\<exists>p. dt (lheap s) n = Some p \<and> PCB_done p s = Some (d p))"
      using assms(2) by auto
  qed
  have "all_done (nx (lheap s) (dummy_head (QUEUE s))) s = Some (\<forall>n \<in> set nq. d (the (dt (lheap s) n)))"
    by (rule all_done_chain [OF r(1) refl r(2,3) e])
  moreover have "(\<forall>n \<in> set nq. d (the (dt (lheap s) n))) = (\<forall>p \<in> set qs. d p)"
    using nq(2) by (auto simp: ll_data_def)
  ultimately show ?thesis using rd_node [OF r(4)] r(4) by (simp add: queue_done_def)
qed

fun free_list :: "nat list \<Rightarrow> ('os, 'fs) a3 \<Rightarrow> ('os, 'fs) a3 option" where
  "free_list [] s = Some s"
| "free_list (p # ps) s = do { s \<leftarrow> free_PCB p s; free_list ps s }"

definition only_procs :: "('os, 'fs) a3 \<Rightarrow> ('os, 'fs) a3 \<Rightarrow> bool" where
  "only_procs s s' \<longleftrightarrow> (\<exists>m g p. s' = s\<lparr>a3_memory := m, page_heap := g, proc_heap := p\<rparr>)"

lemma only_procs_step: "only_procs s (s\<lparr>a3_memory := m, page_heap := g, proc_heap := p\<rparr>)"
  unfolding only_procs_def by blast

lemma only_procs_trans: "only_procs s s' \<Longrightarrow> only_procs s' s'' \<Longrightarrow> only_procs s s''"
  unfolding only_procs_def by fastforce

lemma only_procs_memory: "only_procs s (s\<lparr>a3_memory := m\<rparr>)"
  and only_procs_page_heap: "only_procs s (s\<lparr>page_heap := g\<rparr>)"
  and only_procs_proc_heap: "only_procs s (s\<lparr>proc_heap := p\<rparr>)"
  and only_procs_refl [simp]: "only_procs s s"
  using only_procs_step [of s "proc_heap s" "page_heap s" m] only_procs_step [of s "proc_heap s" g "a3_memory s"]
    only_procs_step [of s p "page_heap s" "a3_memory s"] only_procs_step [of s "proc_heap s" "page_heap s" "a3_memory s"]
  by simp_all

lemma only_procs_fields:
  "only_procs s s' \<Longrightarrow> lheap s' = lheap s \<and> QUEUE s' = QUEUE s \<and> ALL_PCB s' = ALL_PCB s \<and> LRU_CACHE s' = LRU_CACHE s"
  unfolding only_procs_def by auto

lemma lists_rep_procs: "only_procs s s' \<Longrightarrow> lists_rep s' qs ps gs = lists_rep s qs ps gs"
  using only_procs_fields [of s s'] by (simp add: lists_rep_def ll_rep_def ll_data_def)

lemma free_slots_only: "free_slots_from i n s = Some s' \<Longrightarrow> only_procs s s'"
proof (induction i n s arbitrary: s' rule: free_slots_from.induct)
  case (2 i n s)
  then obtain m where m: "free_slots_from (Suc i) n (s\<lparr>a3_memory := m\<rparr>) = Some s'" "mem_free_at i s = Some (s\<lparr>a3_memory := m\<rparr>)"
    by (auto simp: mem_free_at_def bind_eq_Some_conv)
  from "2.IH" [OF m(2,1)] show ?case by (rule only_procs_trans [OF only_procs_memory])
qed simp

lemma clear_pages_only: "clear_pages gs s = Some s' \<Longrightarrow> only_procs s s'"
proof (induction gs arbitrary: s)
  case (Cons g gs)
  then obtain s1 s2 s3 i0 i1 i2 where c: "clear_frame i0 s = Some s1" "clear_frame i1 s1 = Some s2"
    "clear_frame i2 s2 = Some s3" "clear_pages gs (s3\<lparr>page_heap := (page_heap s3)[g := None]\<rparr>) = Some s'"
    by (auto simp: bind_eq_Some_conv)
  have "only_procs s s3" using c(1-3) free_slots_only only_procs_trans unfolding clear_frame_def by metis
  then show ?case using Cons.IH [OF c(4)] only_procs_page_heap only_procs_trans by metis
qed simp

lemma free_PCB_only: "free_PCB p s = Some s' \<Longrightarrow> only_procs s s'"
  using clear_pages_only only_procs_proc_heap only_procs_trans
  by (fastforce simp: free_PCB_def bind_eq_Some_conv)

lemma free_all_chain:
  assumes "dll f g a ns b" and "f = nx (lheap s)" and "b < length (lheap s)" and "f b = None"
    and "\<forall>n \<in> set ns. n < length (lheap s) \<and> dt (lheap s) n \<noteq> None"
  shows "free_all (f a) s = free_list (map (\<lambda>n. the (dt (lheap s) n)) ns) s"
  using assms
proof (induction ns arbitrary: a s)
  case Nil
  then have "f a = Some b" "nd_next (lheap s ! b) = None" using rd_node by auto
  then show ?case using Nil.prems(3) by (subst free_all.simps) (simp add: has_next_def)
next
  case (Cons n ns)
  obtain p where p: "dt (lheap s) n = Some p" using Cons.prems(5) by auto
  have n: "n < length (lheap s)" "f a = Some n" using Cons.prems(1,5) by auto
  have nx: "nd_next (lheap s ! n) = f n" "nd_data (lheap s ! n) = Some p"
    using rd_node [OF n(1)] p(1) Cons.prems(2) by simp_all
  obtain y where fn: "f n = Some y" using Cons.prems(1) by (cases ns) auto
  show ?case
  proof (cases "free_PCB p s")
    case None
    then show ?thesis using n nx p fn by (subst free_all.simps) (simp add: has_next_def next_data_def next_node_def)
  next
    case (Some s1)
    then have "lheap s1 = lheap s" using free_PCB_only only_procs_fields by blast
    then show ?thesis
      using Some n nx p fn Cons.IH [of n s1] Cons.prems
      by (subst free_all.simps) (simp add: has_next_def next_data_def next_node_def)
  qed
qed

lemma list_clear_rep:
  assumes "ll_rep s l ns"
  shows "\<exists>s'. list_clear l s = Some (l\<lparr>ll_size := 0\<rparr>, s') \<and> ll_rep s' (l\<lparr>ll_size := 0\<rparr>) [] \<and>
    touches l ns s s'"
proof -
  have b: "dummy_head l < length (lheap s)" "dummy_tail l < length (lheap s)" "dummy_head l \<noteq> dummy_tail l"
    "nx (lheap s) (dummy_tail l) = None"
    using assms by (auto simp: ll_rep_def)
  obtain h1 where h1: "set_nd_next (dummy_head l) (Some (dummy_tail l)) s = Some (s\<lparr>lheap := h1\<rparr>)"
    "length h1 = length (lheap s)" "nx h1 = (nx (lheap s))(dummy_head l := Some (dummy_tail l))"
    "pv h1 = pv (lheap s)" "dt h1 = dt (lheap s)"
    using set_nd_next_ok b by blast
  let ?s1 = "s\<lparr>lheap := h1\<rparr>"
  obtain h2 where h2: "set_nd_prev (dummy_tail l) (Some (dummy_head l)) ?s1 = Some (?s1\<lparr>lheap := h2\<rparr>)"
    "length h2 = length (lheap s)" "nx h2 = nx h1" "pv h2 = (pv h1)(dummy_tail l := Some (dummy_head l))" "dt h2 = dt h1"
    using set_nd_prev_ok [of "dummy_tail l" ?s1 "Some (dummy_head l)"] b h1(2) by auto
  have "list_clear l s = Some (l\<lparr>ll_size := 0\<rparr>, s\<lparr>lheap := h2\<rparr>)" using h1(1) h2(1) by (simp add: list_clear_def)
  moreover have "ll_rep (s\<lparr>lheap := h2\<rparr>) (l\<lparr>ll_size := 0\<rparr>) []" using b h1 h2 by (simp add: ll_rep_def)
  moreover have "touches l ns s (s\<lparr>lheap := h2\<rparr>)" using h1 h2 by (simp add: touches_def footprint_def)
  ultimately show ?thesis by blast
qed

lemma finish_all_rep:
  assumes "lists_rep s qs ps gs" and "free_list ps s = Some s1"
  shows "\<exists>s'. finish_all s = Some (0, s') \<and> lists_rep s' [] [] [] \<and> only_lists s1 s'"
proof -
  obtain np where np: "ll_rep s (ALL_PCB s) np" "ll_data s np = ps" using assms(1) unfolding lists_rep_def by blast
  have r: "dll (nx (lheap s)) (pv (lheap s)) (dummy_head (ALL_PCB s)) np (dummy_tail (ALL_PCB s))"
    "dummy_tail (ALL_PCB s) < length (lheap s)" "nx (lheap s) (dummy_tail (ALL_PCB s)) = None"
    "dummy_head (ALL_PCB s) < length (lheap s)" "\<forall>n \<in> set np. n < length (lheap s) \<and> dt (lheap s) n \<noteq> None"
    using np(1) by (simp_all add: ll_rep_def)
  have fr: "free_all (nx (lheap s) (dummy_head (ALL_PCB s))) s = Some s1"
    using free_all_chain [OF r(1) refl r(2,3,5)] np(2) assms(2) by (simp add: ll_data_def)
  have "only_procs s s1" using assms(2)
    by (induction ps s rule: free_list.induct) (auto simp: bind_eq_Some_conv intro: only_procs_trans dest: free_PCB_only)
  then have l1: "lists_rep s1 qs ps gs" using lists_rep_procs assms(1) by blast
  obtain nq where nq: "ll_rep s1 (QUEUE s1) nq" using l1 unfolding lists_rep_def by blast
  obtain l2 s2 where s2: "list_clear (QUEUE s1) s1 = Some (l2, s2)" "ll_rep s2 l2 []" "touches (QUEUE s1) nq s1 s2"
    "l2 = QUEUE s1\<lparr>ll_size := 0\<rparr>"
    using list_clear_rep [OF nq] by blast
  let ?s2 = "s2\<lparr>QUEUE := l2\<rparr>"
  have r2: "lists_rep ?s2 [] ps gs" "only_lists s1 ?s2"
    using on_QUEUE [OF s2(3) _ s2(2) l1 nq] s2(4) by (auto simp: footprint_def ll_data_def)
  obtain ng where ng: "ll_rep ?s2 (LRU_CACHE ?s2) ng" using r2(1) unfolding lists_rep_def by blast
  obtain l3 s3 where s3: "list_clear (LRU_CACHE ?s2) ?s2 = Some (l3, s3)" "ll_rep s3 l3 []"
    "touches (LRU_CACHE ?s2) ng ?s2 s3" "l3 = LRU_CACHE ?s2\<lparr>ll_size := 0\<rparr>"
    using list_clear_rep [OF ng] by blast
  let ?s3 = "s3\<lparr>LRU_CACHE := l3\<rparr>"
  have r3: "lists_rep ?s3 [] ps []" "only_lists ?s2 ?s3"
    using on_LRU_CACHE [OF s3(3) _ s3(2) r2(1) ng] s3(4) by (auto simp: footprint_def ll_data_def)
  obtain np3 where np3: "ll_rep ?s3 (ALL_PCB ?s3) np3" using r3(1) unfolding lists_rep_def by blast
  obtain l4 s4 where s4: "list_clear (ALL_PCB ?s3) ?s3 = Some (l4, s4)" "ll_rep s4 l4 []"
    "touches (ALL_PCB ?s3) np3 ?s3 s4" "l4 = ALL_PCB ?s3\<lparr>ll_size := 0\<rparr>"
    using list_clear_rep [OF np3] by blast
  have r4: "lists_rep (s4\<lparr>ALL_PCB := l4\<rparr>) [] [] []" "only_lists ?s3 (s4\<lparr>ALL_PCB := l4\<rparr>)"
    using on_ALL_PCB [OF s4(3) _ s4(2) r3(1) np3] s4(4) by (auto simp: footprint_def ll_data_def)
  have "finish_all s = Some (0, s4\<lparr>ALL_PCB := l4\<rparr>)"
    using rd_node [OF r(4)] r(4) fr s2(1) s3(1) s4(1) by (simp add: finish_all_def Let_def)
  then show ?thesis using r4 r2(2) r3(2) only_lists_trans by blast
qed

end
