(* ===== verification/A3_Rounds.thy ===== *)
theory A3_Rounds
  imports A3_Lists "HOL-Library.Multiset"
begin

text \<open>
  The round-robin scheduler of assignment 3 against its specification. The specification \<open>rr_order\<close> knows
  nothing of frames, pages or lists: a process is its lines, how many of them have run and how many of
  its pages are loaded, and a turn runs two lines or spends itself on a page fault. The simulation relates
  every process of the kernel to such a triple. The frames are assumed to suffice, so that no page is evicted.
\<close>

section \<open>The specification\<close>

type_synonym task = "string list \<times> nat \<times> nat"   \<comment> \<open>lines, lines run, pages loaded\<close>

definition pages_for :: "nat \<Rightarrow> nat" where
  "pages_for n = (n + 2) div 3"

fun task_weight :: "task \<Rightarrow> nat" where
  "task_weight (L, c, k) = Suc ((length L - c) + (length L - 3 * k))"

function rr_order :: "task list \<Rightarrow> string list" where
  "rr_order [] = []"
| "rr_order ((L, c, k) # ts) =
     (if length L \<le> c then rr_order ts
      else if 3 * k \<le> c then rr_order (ts @ [(L, c, Suc k)])
      else if Suc c = length L then L ! c # rr_order ts
      else if 3 * k \<le> Suc c then L ! c # rr_order (ts @ [(L, Suc c, Suc k)])
      else L ! c # L ! Suc c # rr_order (ts @ [(L, c + 2, k)]))"
  by pat_completeness auto

termination
  by (relation "measure (\<lambda>ts. sum_list (map task_weight ts))") auto

declare rr_order.simps(2) [simp del]

text \<open>The counters of the pages after \<open>c\<close> lines of \<open>n\<close>.\<close>

definition counters :: "nat \<Rightarrow> nat \<Rightarrow> nat list" where
  "counters n c = map (\<lambda>i. min 3 (c - 3 * i)) [0..<pages_for n]"

lemma counters_nth: "i < pages_for n \<Longrightarrow> counters n c ! i = min 3 (c - 3 * i)"
  by (simp add: counters_def)

lemma page_bound: "c < n \<Longrightarrow> c div 3 < pages_for n"
  by (simp add: pages_for_def)

lemma counters_at: "c < n \<Longrightarrow> counters n c ! (c div 3) = c mod 3"
proof -
  assume c: "c < n"
  have "c - 3 * (c div 3) = c mod 3" by (simp add: minus_mult_div_eq_mod)
  then show ?thesis using counters_nth [OF page_bound [OF c], of c] by simp
qed

lemma counters_first:
  assumes "c < n" shows "length (takeWhile (\<lambda>x. x = 3) (counters n c)) = c div 3"
proof -
  have l: "c div 3 < length (counters n c)" using page_bound [OF assms] by (simp add: counters_def)
  have "takeWhile (\<lambda>x. x = 3) (counters n c) = take (c div 3) (counters n c)"
  proof (rule takeWhile_eq_take_P_nth)
    fix i assume "i < c div 3" "i < length (counters n c)"
    then show "counters n c ! i = 3" by (simp add: counters_def)
  next
    show "counters n c ! (c div 3) \<noteq> 3" using counters_at [OF assms] by simp
  qed
  then show ?thesis using l by simp
qed

lemma counters_step: "c < n \<Longrightarrow> (counters n c)[c div 3 := Suc (c mod 3)] = counters n (Suc c)"
proof (rule nth_equalityI)
  fix i assume c: "c < n" and i: "i < length ((counters n c)[c div 3 := Suc (c mod 3)])"
  show "(counters n c)[c div 3 := Suc (c mod 3)] ! i = counters n (Suc c) ! i"
  proof (cases "i = c div 3")
    case True
    have "Suc c - 3 * (c div 3) = Suc (c mod 3)" using minus_mult_div_eq_mod [of c 3] by simp
    then show ?thesis using i True by (simp add: counters_def)
  next
    case False
    then have "min 3 (Suc c - 3 * i) = min 3 (c - 3 * i)" by linarith
    then show ?thesis using i False by (simp add: counters_def)
  qed
qed (simp add: counters_def)

lemma counters_open:
  assumes "c < n" shows "\<not> (\<forall>x \<in> set (counters n c). x = 3)"
proof
  assume "\<forall>x \<in> set (counters n c). x = 3"
  then have "takeWhile (\<lambda>x. x = 3) (counters n c) = counters n c" by (simp add: takeWhile_eq_all_conv)
  then have "length (counters n c) = c div 3" using counters_first [OF assms] by metis
  then show False using page_bound [OF assms] by (simp add: counters_def)
qed

section \<open>Processes\<close>

definition page_rep :: "('os, 'fs) a3 \<Rightarrow> nat \<Rightarrow> bool \<Rightarrow> string list \<Rightarrow> nat \<Rightarrow> bool" where
  \<comment> \<open>the page \<open>g\<close> is page \<open>i\<close> of a script with lines \<open>L\<close>\<close>
  "page_rep s g loaded L i \<longleftrightarrow> (\<exists>pg. page_at s g = Some pg \<and> length (line_index pg) = 3 \<and> length (valid_bit pg) = 3 \<and>
     (\<forall>j < 3. valid_bit pg ! j = (loaded \<and> 3 * i + j < length L)) \<and>
     (loaded \<longrightarrow> (\<forall>j < 3. 3 * i + j < length L \<longrightarrow> line_index pg ! j < length (a3_memory s) \<and>
        val (a3_memory s ! (line_index pg ! j)) = L ! (3 * i + j))))"

fun task_rep :: "('os, 'fs) a3 \<Rightarrow> nat \<Rightarrow> task \<Rightarrow> bool" where
  "task_rep s p (L, c, k) \<longleftrightarrow> c \<le> length L \<and> c \<le> 3 * k \<and> k \<le> pages_for (length L) \<and>
     (\<exists>q. proc_at s p = Some q \<and> proc_size q = int (length L) - int c \<and>
       program_counter q = counters (length L) c \<and> length (proc_pages q) = pages_for (length L) \<and>
       pid_string (proc_pid q) \<noteq> None \<and> source_file q < length (a3_files s) \<and>
       left_in 999 (a3_files s ! source_file q) (drop (3 * k) L) \<and>
       (\<forall>i < pages_for (length L). page_rep s (proc_pages q ! i) (i < k) L i))"

definition pages_of :: "('os, 'fs) a3 \<Rightarrow> nat \<Rightarrow> nat list" where
  "pages_of s p = (case proc_at s p of None \<Rightarrow> [] | Some q \<Rightarrow> proc_pages q)"

definition source_of :: "('os, 'fs) a3 \<Rightarrow> nat \<Rightarrow> nat" where
  "source_of s p = (case proc_at s p of None \<Rightarrow> 0 | Some q \<Rightarrow> source_file q)"

definition frame_of :: "('os, 'fs) a3 \<Rightarrow> nat \<Rightarrow> nat" where
  "frame_of s g = (case page_at s g of None \<Rightarrow> 0 | Some pg \<Rightarrow> line_index pg ! 0)"

text \<open>
  \<open>G\<close> are the loaded pages. Frames are given out from the front of the memory and never come back while
  processes run, so \<open>length G\<close> frames are in use and the rest of the frame store is free.
\<close>

definition frames_rep :: "a3_config \<Rightarrow> ('os, 'fs) a3 \<Rightarrow> nat list \<Rightarrow> nat list \<Rightarrow> bool" where
  "frames_rep cfg s ps G \<longleftrightarrow> frame_store_size cfg \<le> length (a3_memory s) \<and>
     3 * length G \<le> frame_store_size cfg \<and>
     (\<forall>x < frame_store_size cfg. var (a3_memory s ! x) = NONE \<longleftrightarrow> 3 * length G \<le> x) \<and>
     distinct G \<and> set G \<subseteq> (\<Union>p \<in> set ps. set (pages_of s p)) \<and>
     (\<forall>g \<in> set G. \<exists>pg f. page_at s g = Some pg \<and> line_index pg = [f, f + 1, f + 2] \<and> f + 3 \<le> 3 * length G \<and> 3 dvd f) \<and>
     inj_on (frame_of s) (set G)"

definition tasks_rep :: "('os, 'fs) a3 \<Rightarrow> nat list \<Rightarrow> (nat \<Rightarrow> task) \<Rightarrow> nat list \<Rightarrow> bool" where
  "tasks_rep s ps A G \<longleftrightarrow> distinct ps \<and> distinct (concat (map (pages_of s) ps)) \<and> inj_on (source_of s) (set ps) \<and>
     (\<forall>p \<in> set ps. task_rep s p (A p) \<and>
        (\<forall>i < length (pages_of s p). pages_of s p ! i \<in> set G \<longleftrightarrow> i < snd (snd (A p))))"

section \<open>Loading a page\<close>

lemma find_frame_prefix:
  assumes "\<forall>x < B. var (m ! x) = NONE \<longleftrightarrow> F \<le> x" and "F + 3 \<le> B"
  shows "find_frame m B = Some F"
proof -
  have occupied: "free_run m B i = 0" if "i < F" for i
  proof -
    have "[i..<min (i + 3) B] = i # [Suc i..<min (i + 3) B]" using that assms(2) by (intro upt_conv_Cons) simp
    then show ?thesis using that assms by (simp add: free_run_def)
  qed
  have "takeWhile (\<lambda>j. var (m ! j) = NONE) [F..<F + 3] = [F..<F + 3]"
    using assms by (simp add: takeWhile_eq_all_conv)
  then have "free_run m B F = 3" using assms(2) by (simp only: free_run_def min_absorb1) simp
  then show ?thesis
    using occupied assms(2) unfolding find_frame_def find_Some_iff by (intro exI [of _ F]) auto
qed

lemma put_page_simps [simp]:
  "a3_memory (put_page g pg s) = a3_memory s" "a3_files (put_page g pg s) = a3_files s"
  "proc_heap (put_page g pg s) = proc_heap s" "proc_at (put_page g pg s) = proc_at s"
  "put_page g pg (put_page g pg' s) = put_page g pg s"
  by (simp_all add: put_page_def proc_at_def fun_eq_iff)

lemma page_at_put: "page_at s g = Some old \<Longrightarrow> page_at (put_page g pg s) g' = (if g' = g then Some pg else page_at s g')"
  by (auto simp: page_at_def put_page_def rd_def split: if_splits)

lemma put_page_same:
  assumes "page_at s g = Some pg" shows "put_page g pg s = s"
proof -
  have "page_heap s ! g = Some pg" using assms by (auto simp: page_at_def bind_eq_Some_conv rd_Some)
  then have "(page_heap s)[g := Some pg] = page_heap s" using list_update_id [of "page_heap s" g] by simp
  then show ?thesis by (simp add: put_page_def)
qed

lemma page_at_fields [simp]:
  "page_at (s\<lparr>a3_memory := m\<rparr>) = page_at s" "page_at (s\<lparr>a3_files := fs\<rparr>) = page_at s"
  "page_at (s\<lparr>proc_heap := ph\<rparr>) = page_at s" "proc_at (s\<lparr>a3_memory := m\<rparr>) = proc_at s"
  "proc_at (s\<lparr>a3_files := fs\<rparr>) = proc_at s" "proc_at (s\<lparr>page_heap := gh\<rparr>) = proc_at s"
  by (simp_all add: page_at_def proc_at_def fun_eq_iff)

lemma put_page_swap:
  "(put_page g pg s)\<lparr>a3_memory := m\<rparr> = put_page g pg (s\<lparr>a3_memory := m\<rparr>)"
  "(put_page g pg s)\<lparr>a3_files := fs\<rparr> = put_page g pg (s\<lparr>a3_files := fs\<rparr>)"
  by (simp_all add: put_page_def)

lemma fill_page_spec:
  assumes "page_at s g = Some pg" and "line_index pg = [F, F + 1, F + 2]" and "length (valid_bit pg) = 3" and "j \<le> 3"
    and "F + 3 \<le> length (a3_memory s)" and "f < length (a3_files s)" and "left_in 999 (a3_files s ! f) ls"
  shows "\<exists>m v st. fill_page f g pid [j..<3] s
      = Some (put_page g (pg\<lparr>valid_bit := v\<rparr>) (s\<lparr>a3_memory := m, a3_files := (a3_files s)[f := st]\<rparr>)) \<and>
    left_in 999 st (drop (3 - j) ls) \<and> length v = 3 \<and> length m = length (a3_memory s) \<and>
    (\<forall>i < 3. v ! i = (valid_bit pg ! i \<or> j \<le> i \<and> i - j < length ls)) \<and>
    (\<forall>x. x < F + j \<or> F + 3 \<le> x \<longrightarrow> m ! x = a3_memory s ! x) \<and>
    (\<forall>i < 3. j \<le> i \<longrightarrow> m ! (F + i) = (if i - j < length ls then \<lparr>var = pid, val = ls ! (i - j)\<rparr> else a3_memory s ! (F + i)))"
  using assms
proof (induction "3 - j" arbitrary: j s pg ls)
  case 0
  then have j: "j = 3" by simp
  show ?case
    using 0 j put_page_same [OF "0.prems"(1)] by (intro exI [of _ "a3_memory s"] exI [of _ "valid_bit pg"] exI [of _ "a3_files s ! f"]) auto
next
  case (Suc d)
  then have j: "j < 3" by simp
  have js: "[j..<3] = j # [Suc j..<3]" using j by (rule upt_conv_Cons)
  show ?case
  proof (cases ls)
    case Nil
    obtain st where st: "stream_gets 999 (a3_files s ! f) = (None, st)" "left_in 999 st []"
      using stream_gets_end [of 999 "a3_files s ! f"] Suc.prems(7) Nil by auto
    show ?thesis
      using put_page_same [of "s\<lparr>a3_files := (a3_files s)[f := st]\<rparr>" g pg] Suc.prems(1) st Nil Suc.prems(3,6)
      by (intro exI [of _ "a3_memory s"] exI [of _ "valid_bit pg"] exI [of _ st]) (simp add: js file_gets_def)
  next
    case (Cons l ls')
    then obtain st where st: "stream_gets 999 (a3_files s ! f) = (Some l, st)" "left_in 999 st ls'"
      using stream_gets_line [of 999 "a3_files s ! f" l ls'] Suc.prems(7) by (auto simp: left_in_def)
    let ?m = "(a3_memory s)[F + j := \<lparr>var = pid, val = l\<rparr>]" and ?v = "(valid_bit pg)[j := True]"
    let ?s = "put_page g (pg\<lparr>valid_bit := ?v\<rparr>) (s\<lparr>a3_memory := ?m, a3_files := (a3_files s)[f := st]\<rparr>)"
    have pos: "rd (line_index pg) j = Some (F + j)"
      using Suc.prems(2) j by (cases j; cases "j - 1") (auto simp: rd_def nth_Cons')
    have swap: "s\<lparr>a3_files := x, a3_memory := y\<rparr> = s\<lparr>a3_memory := y, a3_files := x\<rparr>" for x y by simp
    have one: "fill_page f g pid [j..<3] s = fill_page f g pid [Suc j..<3] ?s"
      using st(1) Suc.prems(1,3,5,6) j pos
      by (simp add: js file_gets_def mem_set_value_at_def put_page_swap swap)
    have p: "page_at ?s g = Some (pg\<lparr>valid_bit := ?v\<rparr>)"
      using page_at_put [of "s\<lparr>a3_memory := ?m, a3_files := (a3_files s)[f := st]\<rparr>" g pg] Suc.prems(1) by simp
    let ?pg = "pg\<lparr>valid_bit := ?v\<rparr>"
    have d: "d = 3 - Suc j" using Suc.hyps(2) by simp
    have pre: "line_index ?pg = [F, F + 1, F + 2]" "length (valid_bit ?pg) = 3" "Suc j \<le> 3" "F + 3 \<le> length (a3_memory ?s)"
      "f < length (a3_files ?s)" "left_in 999 (a3_files ?s ! f) ls'"
      using Suc.prems(2,3,5,6) j st(2) by simp_all
    obtain m v st' where ih: "fill_page f g pid [Suc j..<3] ?s
        = Some (put_page g (?pg\<lparr>valid_bit := v\<rparr>) (?s\<lparr>a3_memory := m, a3_files := (a3_files ?s)[f := st']\<rparr>))"
      "left_in 999 st' (drop (3 - Suc j) ls')" "length v = 3" "length m = length (a3_memory ?s)"
      "\<forall>i < 3. v ! i = (valid_bit ?pg ! i \<or> Suc j \<le> i \<and> i - Suc j < length ls')"
      "\<forall>x. x < F + Suc j \<or> F + 3 \<le> x \<longrightarrow> m ! x = a3_memory ?s ! x"
      "\<forall>i < 3. Suc j \<le> i \<longrightarrow> m ! (F + i) =
        (if i - Suc j < length ls' then \<lparr>var = pid, val = ls' ! (i - Suc j)\<rparr> else a3_memory ?s ! (F + i))"
      using Suc.hyps(1) [OF d p pre] by blast
    have r: "\<forall>x. x < F + Suc j \<or> F + 3 \<le> x \<longrightarrow> m ! x = ?m ! x"
      "\<forall>i < 3. Suc j \<le> i \<longrightarrow> m ! (F + i) = (if i - Suc j < length ls' then \<lparr>var = pid, val = ls' ! (i - Suc j)\<rparr> else ?m ! (F + i))"
      using ih(6,7) by simp_all
    have dr: "drop (3 - j) ls = drop (3 - Suc j) ls'" using Cons j by (simp add: Suc_diff_Suc [symmetric])
    show ?thesis
    proof (intro exI conjI)
      show "fill_page f g pid [j..<3] s = Some (put_page g (pg\<lparr>valid_bit := v\<rparr>) (s\<lparr>a3_memory := m, a3_files := (a3_files s)[f := st']\<rparr>))"
        using one ih(1) by (simp add: put_page_swap)
      show "left_in 999 st' (drop (3 - j) ls)" using ih(2) dr by simp
      show "\<forall>i < 3. v ! i = (valid_bit pg ! i \<or> j \<le> i \<and> i - j < length ls)"
      proof (intro allI impI)
        fix i :: nat assume i: "i < 3"
        have "?v ! i = (i = j \<or> valid_bit pg ! i)" using i Suc.prems(3) by (cases "i = j") simp_all
        then show "v ! i = (valid_bit pg ! i \<or> j \<le> i \<and> i - j < length ls)"
          using ih(5) i Cons by auto
      qed
      show "\<forall>x. x < F + j \<or> F + 3 \<le> x \<longrightarrow> m ! x = a3_memory s ! x" using r(1) j by auto
      show "\<forall>i < 3. j \<le> i \<longrightarrow> m ! (F + i) = (if i - j < length ls then \<lparr>var = pid, val = ls ! (i - j)\<rparr> else a3_memory s ! (F + i))"
      proof (intro allI impI)
        fix i :: nat assume i: "i < 3" "j \<le> i"
        show "m ! (F + i) = (if i - j < length ls then \<lparr>var = pid, val = ls ! (i - j)\<rparr> else a3_memory s ! (F + i))"
        proof (cases "i = j")
          case True
          then show ?thesis using r(1) Cons Suc.prems(5) j by simp
        next
          case False
          then have "i - j = Suc (i - Suc j)" using i by simp
          then show ?thesis using r(2) Cons i False by simp
        qed
      qed
    qed (use ih in simp_all)
  qed
qed

lemma pages_disjoint:
  assumes "distinct (concat (map f ps))" and "p \<in> set ps"
  shows "distinct (f p) \<and> (\<forall>p' \<in> set ps. p' \<noteq> p \<longrightarrow> set (f p) \<inter> set (f p') = {})"
  using assms by (induction ps) auto

definition only_loaded :: "a3_config \<Rightarrow> ('os, 'fs) a3 \<Rightarrow> ('os, 'fs) a3 \<Rightarrow> bool" where
  "only_loaded cfg s s' \<longleftrightarrow> (\<exists>m gh fs. s' = s\<lparr>a3_memory := m, page_heap := gh, a3_files := fs\<rparr> \<and>
     length m = length (a3_memory s) \<and>
     drop (frame_store_size cfg) m = drop (frame_store_size cfg) (a3_memory s))"

lemma only_loaded_put:
  assumes "length m = length (a3_memory s)" and "drop (frame_store_size cfg) m = drop (frame_store_size cfg) (a3_memory s)"
  shows "only_loaded cfg s (put_page g pg (s\<lparr>a3_memory := m, a3_files := fs\<rparr>))"
  unfolding only_loaded_def put_page_def
  by (intro exI [of _ m] exI [of _ "(page_heap s)[g := Some pg]"] exI [of _ fs]) (simp add: assms)

lemma idec_not_NONE: "idec i \<noteq> NONE"
proof
  assume e: "idec i = NONE"
  show False
  proof (cases "i < 0")
    case True
    then show False using e by (simp add: idec_def NONE_def)
  next
    case False
    then have "dec (nat i) = ''none''" using e by (simp add: idec_def NONE_def)
    then show False using dec_first_char [of "nat i"] by simp
  qed
qed

lemma pid_string_not_NONE: "pid_string i = Some w \<Longrightarrow> w \<noteq> NONE"
  using idec_not_NONE by (auto simp: pid_string_def split: if_splits)

lemma page_rep_keep:
  assumes "page_rep s g loaded L i" and "page_at s' g = page_at s g"
    and "length (a3_memory s') = length (a3_memory s)"
    and "\<And>pg x. loaded \<Longrightarrow> page_at s g = Some pg \<Longrightarrow> x \<in> set (line_index pg) \<Longrightarrow> a3_memory s' ! x = a3_memory s ! x"
  shows "page_rep s' g loaded L i"
proof -
  obtain pg where pg: "page_at s g = Some pg" "length (line_index pg) = 3" "length (valid_bit pg) = 3"
    "\<forall>j < 3. valid_bit pg ! j = (loaded \<and> 3 * i + j < length L)"
    "loaded \<longrightarrow> (\<forall>j < 3. 3 * i + j < length L \<longrightarrow> line_index pg ! j < length (a3_memory s) \<and>
        val (a3_memory s ! (line_index pg ! j)) = L ! (3 * i + j))"
    using assms(1) unfolding page_rep_def by blast
  have "a3_memory s' ! (line_index pg ! j) = a3_memory s ! (line_index pg ! j)" if "loaded" "j < 3" for j
    by (rule assms(4) [OF that(1) pg(1)]) (use that(2) pg(2) in simp)
  then show ?thesis using pg assms(2,3) unfolding page_rep_def by auto
qed

lemma loaded_in_frames:
  assumes "frames_rep cfg s ps G" and "g \<in> set G" and "page_at s g = Some pg" and "x \<in> set (line_index pg)"
  shows "x < 3 * length G"
  using assms unfolding frames_rep_def by fastforce

lemma claim_frame_spec:
  assumes "F + 3 \<le> length m"
  shows "length (claim_frame w F m) = length m \<and> (\<forall>x. x < F \<or> F + 3 \<le> x \<longrightarrow> claim_frame w F m ! x = m ! x) \<and>
    (\<forall>i < 3. var (claim_frame w F m ! (F + i)) = w \<and> val (claim_frame w F m ! (F + i)) = val (m ! (F + i)))"
proof -
  have "\<forall>i < 3. var (claim_frame w F m ! (F + i)) = w \<and> val (claim_frame w F m ! (F + i)) = val (m ! (F + i))"
    using assms by (simp add: claim_frame_def nth_list_update numeral_3_eq_3 All_less_Suc)
  then show ?thesis by (simp add: claim_frame_def)
qed

text \<open>The frame and the file after a page is loaded, without the other processes.\<close>

lemma load_PAGE_frame:
  assumes fr: "frames_rep cfg s ps G" and q: "proc_at s p = Some q" "k < length (proc_pages q)" "pid_string (proc_pid q) = Some w"
    and g: "g = proc_pages q ! k" "page_at s g = Some pg" "length (valid_bit pg) = 3"
    and f: "source_file q < length (a3_files s)" "left_in 999 (a3_files s ! source_file q) ls"
    and room: "3 * length G + 3 \<le> frame_store_size cfg"
  shows "\<exists>s' m v st. load_PAGE cfg p k s = Some (0, s') \<and>
    s' = put_page g (pg\<lparr>line_index := [3 * length G, 3 * length G + 1, 3 * length G + 2], valid_bit := v\<rparr>)
           (s\<lparr>a3_memory := m, a3_files := (a3_files s)[source_file q := st]\<rparr>) \<and>
    left_in 999 st (drop 3 ls) \<and> length v = 3 \<and> (\<forall>i < 3. v ! i = (i < length ls)) \<and>
    length m = length (a3_memory s) \<and>
    (\<forall>x. x < 3 * length G \<or> 3 * length G + 3 \<le> x \<longrightarrow> m ! x = a3_memory s ! x) \<and>
    (\<forall>i < 3. var (m ! (3 * length G + i)) = w \<and> (i < length ls \<longrightarrow> val (m ! (3 * length G + i)) = ls ! i))"
proof -
  let ?F = "3 * length G" and ?B = "frame_store_size cfg"
  have B: "?B \<le> length (a3_memory s)" and vars: "\<forall>x < ?B. var (a3_memory s ! x) = NONE \<longleftrightarrow> ?F \<le> x"
    using fr by (simp_all add: frames_rep_def)
  let ?m = "claim_frame w ?F (a3_memory s)"
  let ?pg = "pg\<lparr>line_index := [?F, ?F + 1, ?F + 2], valid_bit := [False, False, False]\<rparr>"
  let ?s = "put_page g ?pg (s\<lparr>a3_memory := ?m\<rparr>)"
  have alloc: "frame_alloc cfg w g s = Some (0, ?s)"
    using find_frame_prefix [OF vars room] g(2) by (simp add: frame_alloc_def)
  have cl: "length ?m = length (a3_memory s)" "\<forall>x. x < ?F \<or> ?F + 3 \<le> x \<longrightarrow> ?m ! x = a3_memory s ! x"
    "\<forall>i < 3. var (?m ! (?F + i)) = w"
    using claim_frame_spec [of ?F "a3_memory s" w] B room by auto
  have pre: "page_at ?s g = Some ?pg" "line_index ?pg = [?F, ?F + 1, ?F + 2]" "length (valid_bit ?pg) = 3" "0 \<le> (3 :: nat)"
    "?F + 3 \<le> length (a3_memory ?s)" "source_file q < length (a3_files ?s)" "left_in 999 (a3_files ?s ! source_file q) ls"
    using page_at_put [of "s\<lparr>a3_memory := ?m\<rparr>" g pg] g(2) cl(1) B room f by simp_all
  obtain m v st where r: "fill_page (source_file q) g w [0..<3] ?s
      = Some (put_page g (?pg\<lparr>valid_bit := v\<rparr>) (?s\<lparr>a3_memory := m, a3_files := (a3_files ?s)[source_file q := st]\<rparr>))"
    "left_in 999 st (drop (3 - 0) ls)" "length v = 3" "length m = length (a3_memory ?s)"
    "\<forall>i < 3. v ! i = (valid_bit ?pg ! i \<or> 0 \<le> i \<and> i - 0 < length ls)"
    "\<forall>x. x < ?F + 0 \<or> ?F + 3 \<le> x \<longrightarrow> m ! x = a3_memory ?s ! x"
    "\<forall>i < 3. 0 \<le> i \<longrightarrow> m ! (?F + i) = (if i - 0 < length ls then \<lparr>var = w, val = ls ! (i - 0)\<rparr> else a3_memory ?s ! (?F + i))"
    using fill_page_spec [OF pre, of w] by blast
  have run: "load_PAGE cfg p k s = Some (0, put_page g (pg\<lparr>line_index := [?F, ?F + 1, ?F + 2], valid_bit := v\<rparr>)
      (s\<lparr>a3_memory := m, a3_files := (a3_files s)[source_file q := st]\<rparr>))"
    using q g(1) alloc r(1) by (simp add: load_PAGE_def put_page_swap del: upt_Suc)
  have vv: "\<forall>i < 3. v ! i = (i < length ls)"
  proof (intro allI impI)
    fix i :: nat assume i: "i < 3"
    then have "\<not> [False, False, False] ! i" by (cases i; cases "i - 1") (auto simp: nth_Cons')
    then show "v ! i = (i < length ls)" using r(5) i by simp
  qed
  have mm: "\<forall>i < 3. var (m ! (?F + i)) = w \<and> (i < length ls \<longrightarrow> val (m ! (?F + i)) = ls ! i)"
    using r(7) cl(3) by auto
  show ?thesis
    by (rule exI, rule exI [of _ m], rule exI [of _ v], rule exI [of _ st])
      (use run vv mm r cl in simp)
qed

text \<open>The same for all processes: the page joins the loaded ones.\<close>

lemma frames_room:
  assumes "frames_rep cfg s ps G" and "3 * length (concat (map (pages_of s) ps)) \<le> frame_store_size cfg"
    and "g \<in> set (pages_of s p)" and "p \<in> set ps" and "g \<notin> set G"
  shows "3 * length G + 3 \<le> frame_store_size cfg"
proof -
  have "distinct (g # G)" "set (g # G) \<subseteq> set (concat (map (pages_of s) ps))"
    using assms by (auto simp: frames_rep_def)
  then have "length (g # G) \<le> length (concat (map (pages_of s) ps))"
    by (metis card_length card_mono distinct_card le_trans List.finite_set)
  then show ?thesis using assms(2) by simp
qed

lemma load_frames:
  assumes fr: "frames_rep cfg s ps G" and g: "page_at s g = Some pg" "g \<notin> set G" "g \<in> set (pages_of s p)" "p \<in> set ps"
    and room: "3 * length G + 3 \<le> frame_store_size cfg"
    and s': "s' = put_page g (pg\<lparr>line_index := [3 * length G, 3 * length G + 1, 3 * length G + 2], valid_bit := v\<rparr>)
           (s\<lparr>a3_memory := m, a3_files := fs\<rparr>)"
    and m: "length m = length (a3_memory s)" "\<forall>x. x < 3 * length G \<or> 3 * length G + 3 \<le> x \<longrightarrow> m ! x = a3_memory s ! x"
      "\<forall>i < 3. var (m ! (3 * length G + i)) \<noteq> NONE"
  shows "frames_rep cfg s' ps (g # G)"
proof -
  let ?F = "3 * length G"
  have pa: "page_at s' g' = (if g' = g then Some (pg\<lparr>line_index := [?F, ?F + 1, ?F + 2], valid_bit := v\<rparr>) else page_at s g')" for g'
    using page_at_put [of "s\<lparr>a3_memory := m, a3_files := fs\<rparr>" g pg] g(1) by (simp add: s')
  have mem: "a3_memory s' = m" and pr: "pages_of s' = pages_of s" by (simp_all add: s' pages_of_def fun_eq_iff)
  have old: "\<exists>pg f. page_at s g' = Some pg \<and> line_index pg = [f, f + 1, f + 2] \<and> f + 3 \<le> ?F \<and> 3 dvd f" if "g' \<in> set G" for g'
    using fr that by (simp add: frames_rep_def)
  have vars: "\<forall>x < frame_store_size cfg. var (m ! x) = NONE \<longleftrightarrow> 3 * length (g # G) \<le> x"
  proof (intro allI impI)
    fix x assume x: "x < frame_store_size cfg"
    have "var (a3_memory s ! x) = NONE \<longleftrightarrow> ?F \<le> x" using fr x by (simp add: frames_rep_def)
    moreover have "var (m ! x) \<noteq> NONE" if "?F \<le> x \<and> x < ?F + 3"
    proof -
      have "x - ?F < 3" "?F + (x - ?F) = x" using that by auto
      then show ?thesis using m(3) by metis
    qed
    ultimately show "var (m ! x) = NONE \<longleftrightarrow> 3 * length (g # G) \<le> x" using m(2)
      by (cases "x < ?F"; cases "x < ?F + 3") auto
  qed
  have fo: "frame_of s' g' = (if g' = g then ?F else frame_of s g')" for g' by (simp add: frame_of_def pa)
  have lt: "frame_of s g' < ?F" if "g' \<in> set G" for g' using old [OF that] by (auto simp: frame_of_def)
  have "inj_on (frame_of s) (set G)" using fr by (simp add: frames_rep_def)
  moreover have same: "frame_of s' g' = frame_of s g'" if "g' \<in> set G" for g' using that g(2) fo by metis
  ultimately have "inj_on (frame_of s') (set G)" using inj_on_cong [of "set G" "frame_of s'" "frame_of s"] by blast
  moreover have "?F \<notin> frame_of s' ` set G" using lt same by fastforce
  ultimately have "inj_on (frame_of s') (set (g # G))" using fo g(2) by simp
  moreover have "\<exists>pg f. page_at s' g' = Some pg \<and> line_index pg = [f, f + 1, f + 2] \<and> f + 3 \<le> 3 * length (g # G) \<and> 3 dvd f"
    if g': "g' \<in> set (g # G)" for g'
  proof (cases "g' = g")
    case False
    then have "g' \<in> set G" using g' by simp
    from old [OF this] obtain pg f where "page_at s g' = Some pg" "line_index pg = [f, f + 1, f + 2]" "f + 3 \<le> ?F" "3 dvd f"
      by blast
    then show ?thesis using False by (intro exI [of _ pg] exI [of _ f]) (simp add: pa)
  qed (simp add: pa)
  ultimately show ?thesis
    using fr g room vars m(1) unfolding frames_rep_def mem pr by auto
qed

lemma load_tasks:
  assumes ts: "tasks_rep s ps A G" and fr: "frames_rep cfg s ps G" and p: "p \<in> set ps" "A p = (L, c, k)"
    and q: "proc_at s p = Some q" "k < length (proc_pages q)"
    and g: "g = proc_pages q ! k" "page_at s g = Some pg"
    and s': "s' = put_page g (pg\<lparr>line_index := [3 * length G, 3 * length G + 1, 3 * length G + 2], valid_bit := v\<rparr>)
           (s\<lparr>a3_memory := m, a3_files := (a3_files s)[source_file q := st]\<rparr>)"
    and st: "left_in 999 st (drop 3 (drop (3 * k) L))" and v: "length v = 3" "\<forall>i < 3. v ! i = (i < length (drop (3 * k) L))"
    and m: "length m = length (a3_memory s)" "\<forall>x. x < 3 * length G \<or> 3 * length G + 3 \<le> x \<longrightarrow> m ! x = a3_memory s ! x"
      "\<forall>i < 3. i < length (drop (3 * k) L) \<longrightarrow> val (m ! (3 * length G + i)) = drop (3 * k) L ! i"
    and room: "3 * length G + 3 \<le> frame_store_size cfg"
  shows "tasks_rep s' ps (A(p := (L, c, Suc k))) (g # G)"
proof -
  let ?F = "3 * length G" and ?pg = "pg\<lparr>line_index := [3 * length G, 3 * length G + 1, 3 * length G + 2], valid_bit := v\<rparr>"
  have pa: "page_at s' g' = (if g' = g then Some ?pg else page_at s g')" for g'
    using page_at_put [of "s\<lparr>a3_memory := m, a3_files := (a3_files s)[source_file q := st]\<rparr>" g pg] g(2) by (simp add: s')
  have fields: "a3_memory s' = m" "a3_files s' = (a3_files s)[source_file q := st]" "proc_at s' = proc_at s"
    by (simp_all add: s')
  then have pr: "pages_of s' = pages_of s" and so: "source_of s' = source_of s"
    by (simp_all add: pages_of_def source_of_def fun_eq_iff)
  have B: "frame_store_size cfg \<le> length (a3_memory s)" using fr by (simp add: frames_rep_def)
  have tr: "task_rep s p' (A p')" and inG: "\<forall>i < length (pages_of s p'). pages_of s p' ! i \<in> set G \<longleftrightarrow> i < snd (snd (A p'))"
    if "p' \<in> set ps" for p' using ts that by (simp_all add: tasks_rep_def)
  have dis: "distinct (proc_pages q)" "\<forall>p' \<in> set ps. p' \<noteq> p \<longrightarrow> set (proc_pages q) \<inter> set (pages_of s p') = {}"
    using pages_disjoint [of "pages_of s" ps p] ts p(1) q(1) by (auto simp: tasks_rep_def pages_of_def)
  have keep: "page_rep s' g' b L' i" if "page_rep s g' b L' i" "g' \<noteq> g" "b \<longrightarrow> g' \<in> set G" for g' b L' i
  proof (rule page_rep_keep [OF that(1)])
    fix pg' x assume "b" "page_at s g' = Some pg'" "x \<in> set (line_index pg')"
    then have "x < ?F" using loaded_in_frames [OF fr] that(3) by blast
    then show "a3_memory s' ! x = a3_memory s ! x" using m(2) fields(1) by simp
  qed (simp_all add: pa that(2) fields m(1))
  have others: "task_rep s' p' (A p') \<and>
      (\<forall>i < length (pages_of s p'). pages_of s p' ! i \<in> set (g # G) \<longleftrightarrow> i < snd (snd (A p')))"
    if p': "p' \<in> set ps" "p' \<noteq> p" for p'
  proof -
    obtain L' c' k' where A: "A p' = (L', c', k')" by (cases "A p'") auto
    have t: "task_rep s p' (L', c', k')" using tr [OF p'(1)] A by simp
    obtain q' where q': "proc_at s p' = Some q'" using t by auto
    have pg': "pages_of s p' = proc_pages q'" "source_of s p' = source_file q'" by (simp_all add: pages_of_def source_of_def q')
    have lenp: "length (proc_pages q') = pages_for (length L')" using t q' by simp
    have ne: "g \<notin> set (proc_pages q')" using dis(2) p' pg'(1) g(1) q(2) nth_mem by fastforce
    have "source_file q' \<noteq> source_file q"
      using ts p' p(1) q(1) q' by (auto simp: tasks_rep_def inj_on_def source_of_def)
    then have src: "a3_files s' ! source_file q' = a3_files s ! source_file q'" using fields(2) by simp
    have loaded: "i < pages_for (length L') \<Longrightarrow> i < k' \<Longrightarrow> proc_pages q' ! i \<in> set G" for i
      using inG [OF p'(1)] A lenp pg'(1) by simp
    have "page_rep s' (proc_pages q' ! i) (i < k') L' i" if i: "i < pages_for (length L')" for i
    proof (rule keep)
      show "page_rep s (proc_pages q' ! i) (i < k') L' i" using t q' i by simp
      show "proc_pages q' ! i \<noteq> g" using ne lenp i nth_mem by metis
      show "i < k' \<longrightarrow> proc_pages q' ! i \<in> set G" using loaded i by simp
    qed
    then have "task_rep s' p' (A p')" using t q' src fields by (simp add: A)
    moreover have "pages_of s p' ! i \<noteq> g" if "i < length (pages_of s p')" for i
      using ne nth_mem [OF that] pg'(1) by auto
    ultimately show ?thesis using inG [OF p'(1)] by simp
  qed
  have own: "task_rep s' p (L, c, Suc k) \<and>
      (\<forall>i < length (pages_of s p). pages_of s p ! i \<in> set (g # G) \<longleftrightarrow> i < Suc k)"
  proof -
    have t: "task_rep s p (L, c, k)" using tr [OF p(1)] p(2) by simp
    have pg': "pages_of s p = proc_pages q" by (simp add: pages_of_def q)
    have lenp: "length (proc_pages q) = pages_for (length L)" using t q by simp
    have inG': "i < pages_for (length L) \<Longrightarrow> proc_pages q ! i \<in> set G \<longleftrightarrow> i < k" for i
      using inG [OF p(1)] p(2) pg' lenp by simp
    have gi: "i < pages_for (length L) \<Longrightarrow> proc_pages q ! i = g \<longleftrightarrow> i = k" for i
      using dis(1) g(1) q(2) lenp by (simp add: nth_eq_iff_index_eq)
    have "page_rep s' (proc_pages q ! i) (i < Suc k) L i" if i: "i < pages_for (length L)" for i
    proof (cases "i = k")
      case False
      have pr: "page_rep s (proc_pages q ! i) (i < k) L i" using t q i by simp
      have "page_rep s' (proc_pages q ! i) (i < k) L i"
        by (rule keep [OF pr]) (use gi inG' i False in simp_all)
      then show ?thesis using False by (simp add: less_Suc_eq)
    next
      case True
      have "\<forall>j < 3. 3 * i + j < length L \<longrightarrow> line_index ?pg ! j < length m \<and> val (m ! (line_index ?pg ! j)) = L ! (3 * i + j)"
      proof (intro allI impI)
        fix j :: nat assume j: "j < 3" "3 * i + j < length L"
        then have "line_index ?pg ! j = ?F + j" by (cases j; cases "j - 1") (auto simp: nth_Cons')
        then show "line_index ?pg ! j < length m \<and> val (m ! (line_index ?pg ! j)) = L ! (3 * i + j)"
          using m(1,3) B room j True by simp
      qed
      then show ?thesis using True g(1) v fields(1) by (simp add: page_rep_def pa less_diff_conv add.commute)
    qed
    moreover have "left_in 999 (a3_files s' ! source_file q) (drop (3 * Suc k) L)"
      using st t q fields(2) by simp
    ultimately have "task_rep s' p (L, c, Suc k)" using t q lenp fields by auto
    moreover have "\<forall>i < length (pages_of s p). pages_of s p ! i \<in> set (g # G) \<longleftrightarrow> i < Suc k"
      using inG' gi pg' lenp by (auto simp: less_Suc_eq)
    ultimately show ?thesis by blast
  qed
  show ?thesis
    using ts others own unfolding tasks_rep_def pr so by auto
qed

section \<open>The kernel and the user part of the state\<close>

definition kernel_rep :: "a3_config \<Rightarrow> ('os, 'fs) a3 \<Rightarrow> nat list \<Rightarrow> nat list \<Rightarrow> (nat \<Rightarrow> task) \<Rightarrow> nat list \<Rightarrow> bool" where
  "kernel_rep cfg s qs ps A G \<longleftrightarrow> frames_rep cfg s ps G \<and> tasks_rep s ps A G \<and> lists_rep s qs ps G \<and>
     distinct qs \<and> set qs \<subseteq> set ps \<and>
     3 * length (concat (map (pages_of s) ps)) + 2 \<le> frame_store_size cfg"

definition idle :: "a3_config \<Rightarrow> ('os, 'fs) a3 \<Rightarrow> bool" where
  \<comment> \<open>no process, every frame free\<close>
  "idle cfg s \<longleftrightarrow> lists_rep s [] [] [] \<and> 2 \<le> frame_store_size cfg \<and> frame_store_size cfg \<le> length (a3_memory s) \<and>
     (\<forall>x < frame_store_size cfg. var (a3_memory s ! x) = NONE)"

lemma idle_rep: "idle cfg s = kernel_rep cfg s [] [] A []"
  by (auto simp: idle_def kernel_rep_def frames_rep_def tasks_rep_def)

definition kernel_same :: "a3_config \<Rightarrow> ('os, 'fs) a3 \<Rightarrow> ('os, 'fs) a3 \<Rightarrow> bool" where
  \<comment> \<open>what the commands of a script leave alone\<close>
  "kernel_same cfg s s' \<longleftrightarrow> lheap s' = lheap s \<and> page_heap s' = page_heap s \<and> proc_heap s' = proc_heap s \<and>
     a3_files s' = a3_files s \<and> QUEUE s' = QUEUE s \<and> LRU_CACHE s' = LRU_CACHE s \<and> ALL_PCB s' = ALL_PCB s \<and>
     PID_counter s' = PID_counter s \<and> length (a3_memory s') = length (a3_memory s) \<and>
     take (frame_store_size cfg) (a3_memory s') = take (frame_store_size cfg) (a3_memory s)"

definition user_part :: "a3_config \<Rightarrow> ('os, 'fs) a3 \<Rightarrow> ('os, 'fs) a3" where
  \<comment> \<open>everything but the kernel and the frames\<close>
  "user_part cfg s =
     (let none = \<lparr>ll_size = 0, dummy_head = 0, dummy_tail = 0\<rparr>
      in s\<lparr>lheap := [], a3_memory := drop (frame_store_size cfg) (a3_memory s), page_heap := [], proc_heap := [],
           a3_files := [], QUEUE := none, LRU_CACHE := none, ALL_PCB := none, PID_counter := 0\<rparr>)"

lemma user_only_lists: "only_lists s s' \<Longrightarrow> user_part cfg s' = user_part cfg s"
  by (auto simp: only_lists_def user_part_def)

lemma user_only_loaded: "only_loaded cfg s s' \<Longrightarrow> user_part cfg s' = user_part cfg s"
  by (auto simp: only_loaded_def user_part_def)

lemma user_put_proc [simp]: "user_part cfg (put_proc p q s) = user_part cfg s"
  by (simp add: user_part_def put_proc_def)

lemma rep_cong:
  assumes "page_heap s' = page_heap s" and "proc_heap s' = proc_heap s" and "a3_files s' = a3_files s"
    and "length (a3_memory s') = length (a3_memory s)"
    and "\<forall>x < frame_store_size cfg. a3_memory s' ! x = a3_memory s ! x"
    and fr: "frames_rep cfg s ps G"
  shows "frames_rep cfg s' ps G" and "tasks_rep s ps A G \<Longrightarrow> tasks_rep s' ps A G"
    and "pages_of s' = pages_of s"
proof -
  have pa: "page_at s' = page_at s" "proc_at s' = proc_at s"
    using assms(1,2) by (simp_all add: page_at_def proc_at_def fun_eq_iff)
  then have po: "pages_of s' = pages_of s" and so: "source_of s' = source_of s" and fo: "frame_of s' = frame_of s"
    by (simp_all add: pages_of_def source_of_def frame_of_def fun_eq_iff)
  show "pages_of s' = pages_of s" by (rule po)
  show "frames_rep cfg s' ps G" using fr assms(4,5) unfolding frames_rep_def po fo pa by simp
  show "tasks_rep s' ps A G" if ts: "tasks_rep s ps A G"
  proof -
    have "task_rep s' p (A p)" if p: "p \<in> set ps" for p
    proof -
      obtain L c k where A: "A p = (L, c, k)" by (cases "A p") auto
      have t: "task_rep s p (L, c, k)" and inG: "\<forall>i < length (pages_of s p). pages_of s p ! i \<in> set G \<longleftrightarrow> i < k"
        using ts p A by (auto simp: tasks_rep_def)
      obtain q where q: "proc_at s p = Some q" using t by auto
      have lenp: "length (proc_pages q) = pages_for (length L)" using t q by simp
      have "page_rep s' (proc_pages q ! i) (i < k) L i" if i: "i < pages_for (length L)" for i
      proof (rule page_rep_keep)
        show "page_rep s (proc_pages q ! i) (i < k) L i" using t q i by simp
        fix pg x assume x: "i < k" "page_at s (proc_pages q ! i) = Some pg" "x \<in> set (line_index pg)"
        have "proc_pages q ! i \<in> set G" using inG i x(1) lenp q by (simp add: pages_of_def)
        then have "x < 3 * length G" using loaded_in_frames [OF fr] x by blast
        then show "a3_memory s' ! x = a3_memory s ! x" using assms(5) fr by (simp add: frames_rep_def)
      qed (simp_all add: pa assms(4))
      then show ?thesis using t q assms(3) pa by (simp add: A)
    qed
    then show ?thesis using ts unfolding tasks_rep_def po so by simp
  qed
qed

lemma kernel_rep_same:
  assumes "kernel_rep cfg s qs ps A G" and "kernel_same cfg s s'"
  shows "kernel_rep cfg s' qs ps A G"
proof -
  have x: "\<forall>x < frame_store_size cfg. a3_memory s' ! x = a3_memory s ! x"
    using assms(2) unfolding kernel_same_def by (metis nth_take)
  have fr: "frames_rep cfg s ps G" using assms(1) by (simp add: kernel_rep_def)
  have e: "page_heap s' = page_heap s" "proc_heap s' = proc_heap s" "a3_files s' = a3_files s"
    "length (a3_memory s') = length (a3_memory s)" using assms(2) by (simp_all add: kernel_same_def)
  note c = rep_cong [OF e x fr]
  have "lists_rep s' qs ps G = lists_rep s qs ps G"
    using assms(2) by (simp add: kernel_same_def lists_rep_def ll_rep_def ll_data_def)
  then show ?thesis using assms(1) c(1,2) unfolding kernel_rep_def c(3) by blast
qed

lemma rep_only_lists:
  assumes "only_lists s s'" and "frames_rep cfg s ps G"
  shows "frames_rep cfg s' ps G" and "tasks_rep s ps A G \<Longrightarrow> tasks_rep s' ps A G" and "pages_of s' = pages_of s"
  using rep_cong [of s' s cfg ps G] only_lists_fields [OF assms(1)] assms(2) by simp_all

text \<open>The order of the loaded pages does not matter to the frames.\<close>

lemma rep_perm:
  assumes "mset G' = mset G"
  shows "frames_rep cfg s ps G' = frames_rep cfg s ps G" and "tasks_rep s ps A G' = tasks_rep s ps A G"
proof -
  have "set G' = set G" "length G' = length G" using assms mset_eq_setD mset_eq_length by blast+
  moreover have "distinct G' = distinct G" using assms mset_eq_imp_distinct_iff by blast
  ultimately show "frames_rep cfg s ps G' = frames_rep cfg s ps G" "tasks_rep s ps A G' = tasks_rep s ps A G"
    by (simp_all add: frames_rep_def tasks_rep_def)
qed

section \<open>The steps of the kernel on represented states\<close>

lemma task_facts:
  assumes "tasks_rep s ps A G" and "p \<in> set ps" and "A p = (L, c, k)"
  obtains q where "proc_at s p = Some q" "pages_of s p = proc_pages q" "c \<le> length L" "c \<le> 3 * k" "k \<le> pages_for (length L)"
    "proc_size q = int (length L) - int c" "program_counter q = counters (length L) c"
    "length (proc_pages q) = pages_for (length L)" "source_file q < length (a3_files s)"
    "left_in 999 (a3_files s ! source_file q) (drop (3 * k) L)"
    "\<forall>i < pages_for (length L). page_rep s (proc_pages q ! i) (i < k) L i"
    "\<forall>i < pages_for (length L). proc_pages q ! i \<in> set G \<longleftrightarrow> i < k" "pid_string (proc_pid q) \<noteq> None"
proof -
  have t: "task_rep s p (L, c, k)" and g: "\<forall>i < length (pages_of s p). pages_of s p ! i \<in> set G \<longleftrightarrow> i < k"
    using assms by (auto simp: tasks_rep_def)
  obtain q where q: "proc_at s p = Some q" using t by auto
  then have "pages_of s p = proc_pages q" by (simp add: pages_of_def)
  with t q g show ?thesis by (intro that [of q]) auto
qed

lemma load_PAGE_rep:
  assumes fr: "frames_rep cfg s ps G" and ts: "tasks_rep s ps A G" and p: "p \<in> set ps" "A p = (L, c, k)"
    and k: "k < pages_for (length L)" and room: "3 * length (concat (map (pages_of s) ps)) \<le> frame_store_size cfg"
  shows "\<exists>s'. load_PAGE cfg p k s = Some (0, s') \<and> frames_rep cfg s' ps (pages_of s p ! k # G) \<and>
    tasks_rep s' ps (A(p := (L, c, Suc k))) (pages_of s p ! k # G) \<and> only_loaded cfg s s' \<and>
    pages_of s' = pages_of s \<and> proc_at s' = proc_at s"
proof -
  obtain q where q: "proc_at s p = Some q" and pg: "pages_of s p = proc_pages q"
    and lenp: "length (proc_pages q) = pages_for (length L)"
    and f: "source_file q < length (a3_files s)" "left_in 999 (a3_files s ! source_file q) (drop (3 * k) L)"
    and pr: "\<forall>i < pages_for (length L). page_rep s (proc_pages q ! i) (i < k) L i"
    and inG: "\<forall>i < pages_for (length L). proc_pages q ! i \<in> set G \<longleftrightarrow> i < k" and pid: "pid_string (proc_pid q) \<noteq> None"
    using task_facts [OF ts p] by metis
  obtain w where w: "pid_string (proc_pid q) = Some w" using pid by auto
  define g where "g = proc_pages q ! k"
  have "page_rep s g (k < k) L k" using pr k g_def by blast
  then obtain pg where pgd: "page_at s g = Some pg" "length (valid_bit pg) = 3" unfolding page_rep_def by blast
  have notin: "g \<notin> set G" using inG k g_def by blast
  have inp: "g \<in> set (pages_of s p)" using pg g_def k lenp by simp
  have rm: "3 * length G + 3 \<le> frame_store_size cfg" by (rule frames_room [OF fr room inp p(1) notin])
  have kl: "k < length (proc_pages q)" using k lenp by simp
  obtain s' m v st where l: "load_PAGE cfg p k s = Some (0, s')"
    "s' = put_page g (pg\<lparr>line_index := [3 * length G, 3 * length G + 1, 3 * length G + 2], valid_bit := v\<rparr>)
           (s\<lparr>a3_memory := m, a3_files := (a3_files s)[source_file q := st]\<rparr>)"
    "left_in 999 st (drop 3 (drop (3 * k) L))" "length v = 3" "\<forall>i < 3. v ! i = (i < length (drop (3 * k) L))"
    "length m = length (a3_memory s)"
    "\<forall>x. x < 3 * length G \<or> 3 * length G + 3 \<le> x \<longrightarrow> m ! x = a3_memory s ! x"
    "\<forall>i < 3. var (m ! (3 * length G + i)) = w \<and>
      (i < length (drop (3 * k) L) \<longrightarrow> val (m ! (3 * length G + i)) = drop (3 * k) L ! i)"
    using load_PAGE_frame [OF fr q kl w g_def pgd f rm] by blast
  have nn: "\<forall>i < 3. var (m ! (3 * length G + i)) \<noteq> NONE" using l(8) pid_string_not_NONE [OF w] by blast
  have vals: "\<forall>i < 3. i < length (drop (3 * k) L) \<longrightarrow> val (m ! (3 * length G + i)) = drop (3 * k) L ! i" using l(8) by blast
  have "frames_rep cfg s' ps (g # G)" by (rule load_frames [OF fr pgd(1) notin inp p(1) rm l(2) l(6,7) nn])
  moreover have "tasks_rep s' ps (A(p := (L, c, Suc k))) (g # G)"
    by (rule load_tasks [OF ts fr p q kl g_def pgd(1) l(2) l(3,4,5) l(6,7) vals rm])
  moreover have "drop (frame_store_size cfg) m = drop (frame_store_size cfg) (a3_memory s)"
    using l(6,7) rm by (intro nth_equalityI) auto
  then have "only_loaded cfg s s'" unfolding l(2) using l(6) by (intro only_loaded_put)
  moreover have "proc_at s' = proc_at s" using l(2) by simp
  moreover from this have "pages_of s' = pages_of s" by (simp add: pages_of_def fun_eq_iff)
  ultimately show ?thesis using l(1) pg g_def by auto
qed

lemma lists_rep_loaded: "only_loaded cfg s s' \<Longrightarrow> lists_rep s' qs ps gs = lists_rep s qs ps gs"
proof -
  assume "only_loaded cfg s s'"
  then obtain m gh fs where "s' = s\<lparr>a3_memory := m, page_heap := gh, a3_files := fs\<rparr>" unfolding only_loaded_def by blast
  then have "lheap s' = lheap s" "QUEUE s' = QUEUE s" "ALL_PCB s' = ALL_PCB s" "LRU_CACHE s' = LRU_CACHE s" by simp_all
  then show ?thesis by (simp add: lists_rep_def ll_rep_def ll_data_def)
qed

text \<open>A page fault loads the next page of the process, which goes to the end of the queue.\<close>

lemma page_fault_rep:
  assumes kr: "kernel_rep cfg s qs ps A G" and p: "p \<in> set ps" "p \<notin> set qs" "A p = (L, c, k)" "k < pages_for (length L)"
  shows "\<exists>s'. page_fault cfg p k s = Ret 1 s' \<and>
    kernel_rep cfg s' (qs @ [p]) ps (A(p := (L, c, Suc k))) (pages_of s p ! k # G) \<and> user_part cfg s' = user_part cfg s"
proof -
  have fr: "frames_rep cfg s ps G" and ts: "tasks_rep s ps A G" and li: "lists_rep s qs ps G"
    and room: "3 * length (concat (map (pages_of s) ps)) + 2 \<le> frame_store_size cfg"
    using kr by (simp_all add: kernel_rep_def)
  obtain q where q: "proc_at s p = Some q" "length (proc_pages q) = pages_for (length L)"
    using task_facts [OF ts p(1,3)] by metis
  obtain s1 where s1: "load_PAGE cfg p k s = Some (0, s1)" "frames_rep cfg s1 ps (pages_of s p ! k # G)"
    "tasks_rep s1 ps (A(p := (L, c, Suc k))) (pages_of s p ! k # G)" "only_loaded cfg s s1"
    "pages_of s1 = pages_of s" "proc_at s1 = proc_at s"
    using load_PAGE_rep [OF fr ts p(1,3,4)] room by auto
  have l1: "lists_rep s1 qs ps G" using lists_rep_loaded [OF s1(4)] li by blast
  obtain s2 where s2: "most_recent (pages_of s p ! k) s1 = Some s2" "lists_rep s2 qs ps (pages_of s p ! k # G)" "only_lists s1 s2"
    using most_recent_rep [OF l1] by blast
  obtain s3 where s3: "enqueue p s2 = Some s3" "lists_rep s3 (qs @ [p]) ps (pages_of s p ! k # G)" "only_lists s2 s3"
    using enqueue_rep [OF s2(2)] by blast
  have o: "only_lists s1 s3" using s2(3) s3(3) by (rule only_lists_trans)
  have "page_fault cfg p k s = Ret 1 s3"
    using s1(1,6) s2(1) s3(1) q p(4) by (simp add: page_fault_def pages_of_def)
  moreover have "kernel_rep cfg s3 (qs @ [p]) ps (A(p := (L, c, Suc k))) (pages_of s p ! k # G)"
    using kr p rep_only_lists [OF o s1(2)] s1(3,5) s3(2) unfolding kernel_rep_def by auto
  ultimately show ?thesis using user_only_lists [OF o] user_only_loaded [OF s1(4)] by metis
qed

end
