(* ===== verification/A3_Round_Robin.thy ===== *)
theory A3_Round_Robin
  imports A3_Rounds
begin

text \<open>
  The simulation of \<open>rr_order\<close> by \<open>run_proc_RR\<close>: a line of a loaded page runs and moves its page to the
  front of the list of loaded pages, a line of a page that is not loaded makes a page fault, and when every
  process of the queue has run its lines the kernel frees them and is empty again.
\<close>

section \<open>Running a line\<close>

lemma page_of_rep:
  assumes fr: "frames_rep cfg s ps G" and g: "g \<in> set G"
  obtains pg f where "page_at s g = Some pg" "line_index pg = [f, f + 1, f + 2]" "f + 3 \<le> 3 * length G" "frame_of s g = f" "3 dvd f"
proof -
  obtain pg f where "page_at s g = Some pg" "line_index pg = [f, f + 1, f + 2]" "f + 3 \<le> 3 * length G" "3 dvd f"
    using fr g unfolding frames_rep_def by blast
  then show ?thesis using that by (simp add: frame_of_def)
qed

lemma PAGE_equal_rep:
  assumes fr: "frames_rep cfg s ps G" and g: "g \<in> set G" "d \<in> set G"
  shows "PAGE_equal s g d = Some (g = d)"
proof -
  have "inj_on (frame_of s) (set G)" using fr by (simp add: frames_rep_def)
  then have "frame_of s g = frame_of s d \<longleftrightarrow> g = d" using g by (auto simp: inj_on_def)
  moreover obtain pg f where "page_at s g = Some pg" "line_index pg = [f, f + 1, f + 2]" "frame_of s g = f"
    using page_of_rep [OF fr g(1)] by metis
  moreover obtain pd e where "page_at s d = Some pd" "line_index pd = [e, e + 1, e + 2]" "frame_of s d = e"
    using page_of_rep [OF fr g(2)] by metis
  ultimately show ?thesis by (simp add: PAGE_equal_def)
qed

lemma use_page_rep:
  assumes kr: "kernel_rep cfg s qs ps A G" and p: "p \<in> set ps" "A p = (L, c, k)" and i: "i < k"
  shows "\<exists>s' G'. use_page p i s = Some s' \<and> kernel_rep cfg s' qs ps A G' \<and> only_lists s s'"
proof -
  have fr: "frames_rep cfg s ps G" and ts: "tasks_rep s ps A G" and li: "lists_rep s qs ps G"
    using kr by (simp_all add: kernel_rep_def)
  obtain q where q: "proc_at s p = Some q" "length (proc_pages q) = pages_for (length L)" "k \<le> pages_for (length L)"
    "\<forall>i < pages_for (length L). proc_pages q ! i \<in> set G \<longleftrightarrow> i < k"
    using task_facts [OF ts p] by metis
  define g where "g = proc_pages q ! i"
  have "g \<in> set G" using q i g_def by auto
  then obtain G1 G2 where G: "G = G1 @ g # G2" by (meson split_list)
  have d: "distinct G" using fr by (simp add: frames_rep_def)
  have "PAGE_equal s g g = Some True" using PAGE_equal_rep [OF fr, of g g] G by simp
  moreover have "\<forall>d \<in> set G1. PAGE_equal s g d = Some False" using PAGE_equal_rep [OF fr, of g] G d by auto
  ultimately obtain s1 where s1: "forget_page g s = Some (g, s1)" "lists_rep s1 qs ps (G1 @ G2)" "only_lists s s1"
    using forget_page_rep li unfolding G by blast
  obtain s2 where s2: "most_recent g s1 = Some s2" "lists_rep s2 qs ps (g # G1 @ G2)" "only_lists s1 s2"
    using most_recent_rep [OF s1(2)] by blast
  have o: "only_lists s s2" using s1(3) s2(3) by (rule only_lists_trans)
  have m: "mset (g # G1 @ G2) = mset G" using G by simp
  have "frames_rep cfg s2 ps (g # G1 @ G2)" "tasks_rep s2 ps A (g # G1 @ G2)"
    using rep_only_lists [OF o fr] ts rep_perm [OF m] by metis+
  then have "kernel_rep cfg s2 qs ps A (g # G1 @ G2)"
    using kr s2(2) rep_only_lists(3) [OF o fr] unfolding kernel_rep_def by simp
  moreover have "use_page p i s = Some s2"
    using q s1(1) s2(1) i by (simp add: use_page_def g_def)
  ultimately show ?thesis using o by blast
qed

lemma put_proc_at: "proc_at s p = Some old \<Longrightarrow> proc_at (put_proc p q s) p' = (if p' = p then Some q else proc_at s p')"
  by (auto simp: proc_at_def put_proc_def rd_def split: if_splits)

lemma put_proc_fields [simp]:
  "a3_memory (put_proc p q s) = a3_memory s" "a3_files (put_proc p q s) = a3_files s" "page_at (put_proc p q s) = page_at s"
  "lists_rep (put_proc p q s) qs ps gs = lists_rep s qs ps gs"
  by (simp_all add: put_proc_def page_at_def fun_eq_iff lists_rep_def ll_rep_def ll_data_def)

lemma page_rep_put_proc [simp]: "page_rep (put_proc p q s) = page_rep s"
  by (simp add: page_rep_def fun_eq_iff)

text \<open>The counter of the page and the size of the process move on by one line.\<close>

lemma count_line_rep:
  assumes kr: "kernel_rep cfg s qs ps A G" and p: "p \<in> set ps" "A p = (L, c, k)" and c: "c < length L" "c < 3 * k"
  shows "\<exists>s'. count_line p (c div 3) s = Some s' \<and> kernel_rep cfg s' qs ps (A(p := (L, Suc c, k))) G \<and>
    user_part cfg s' = user_part cfg s"
proof -
  have ts: "tasks_rep s ps A G" using kr by (simp add: kernel_rep_def)
  obtain q where q: "proc_at s p = Some q" "k \<le> pages_for (length L)"
    "proc_size q = int (length L) - int c" "program_counter q = counters (length L) c"
    "length (proc_pages q) = pages_for (length L)" "source_file q < length (a3_files s)"
    "left_in 999 (a3_files s ! source_file q) (drop (3 * k) L)"
    "\<forall>i < pages_for (length L). page_rep s (proc_pages q ! i) (i < k) L i" "pid_string (proc_pid q) \<noteq> None"
    using task_facts [OF ts p] by metis
  have i: "c div 3 < length (counters (length L) c)" using page_bound [OF c(1)] by (simp add: counters_def)
  let ?q = "q\<lparr>program_counter := counters (length L) (Suc c), proc_size := int (length L) - int c - 1\<rparr>"
  have run: "count_line p (c div 3) s = Some (put_proc p ?q s)"
    using q i counters_at [OF c(1)] counters_step [OF c(1)] by (simp add: count_line_def rd_Some)
  have pa: "proc_at (put_proc p ?q s) p' = (if p' = p then Some ?q else proc_at s p')" for p'
    by (rule put_proc_at [OF q(1)])
  have po: "pages_of (put_proc p ?q s) = pages_of s" and so: "source_of (put_proc p ?q s) = source_of s"
    using q(1) by (auto simp: pages_of_def source_of_def pa fun_eq_iff)
  have fo: "frame_of (put_proc p ?q s) = frame_of s" by (simp add: frame_of_def fun_eq_iff)
  have own: "task_rep (put_proc p ?q s) p (L, Suc c, k)" using q c by (simp add: pa)
  have other: "task_rep (put_proc p ?q s) p' (A p')" if "p' \<in> set ps" "p' \<noteq> p" for p'
  proof -
    obtain L' c' k' where A: "A p' = (L', c', k')" by (cases "A p'") auto
    have "task_rep s p' (A p')" using ts that by (simp add: tasks_rep_def)
    then show ?thesis using that(2) by (simp add: A pa)
  qed
  have "tasks_rep (put_proc p ?q s) ps (A(p := (L, Suc c, k))) G"
    using ts own other p unfolding tasks_rep_def po so by simp
  moreover have "frames_rep cfg (put_proc p ?q s) ps G"
    using kr by (simp add: kernel_rep_def frames_rep_def po fo)
  ultimately have "kernel_rep cfg (put_proc p ?q s) qs ps (A(p := (L, Suc c, k))) G"
    using kr unfolding kernel_rep_def po by simp
  then show ?thesis using run by simp
qed

text \<open>
  What the lines of the scripts may do: \<open>F l\<close> is their effect on the user part of the state; they do not
  return 1, which the kernel would take for a page fault, and leave the kernel and the frames alone.
\<close>

definition runs_quietly ::
  "a3_config \<Rightarrow> ('os, 'fs) a3_parser \<Rightarrow> (string \<Rightarrow> ('os, 'fs) a3 \<Rightarrow> ('os, 'fs) a3) \<Rightarrow> string list \<Rightarrow> bool" where
  "runs_quietly cfg parse F ls \<longleftrightarrow> (\<forall>l \<in> set ls. \<forall>s. \<exists>ret s'. parse l s = Ret ret s' \<and> ret \<noteq> 1 \<and>
     kernel_same cfg s s' \<and> user_part cfg s' = F l (user_part cfg s))"

lemma rr_line_at:
  assumes "proc_at s p = Some q" and "program_counter q = counters (length L) c" and "c < length L"
  shows "rr_line cfg parse p s = run_proc cfg parse p (c div 3) (c mod 3) s"
proof -
  have "c div 3 < length (counters (length L) c)" using page_bound [OF assms(3)] by (simp add: counters_def)
  then show ?thesis
    using assms counters_first [OF assms(3)] counters_at [OF assms(3)] by (simp add: rr_line_def rd_Some Let_def)
qed

lemma line_at_rep:
  assumes ts: "tasks_rep s ps A G" and p: "p \<in> set ps" "A p = (L, c, k)" and c: "c < length L"
  shows "\<exists>pos. line_at p (c div 3) (c mod 3) s = Some (c < 3 * k, pos) \<and>
    (c < 3 * k \<longrightarrow> mem_get_value_at pos s = Some (L ! c))"
proof -
  obtain q where q: "proc_at s p = Some q" "length (proc_pages q) = pages_for (length L)"
    "\<forall>i < pages_for (length L). page_rep s (proc_pages q ! i) (i < k) L i"
    using task_facts [OF ts p] by metis
  have i: "c div 3 < pages_for (length L)" by (rule page_bound [OF c])
  have e: "3 * (c div 3) + c mod 3 = c" by simp
  have j: "c mod 3 < 3" by simp
  have k: "c div 3 < k \<longleftrightarrow> c < 3 * k" by linarith
  obtain pg where pg: "page_at s (proc_pages q ! (c div 3)) = Some pg" "length (line_index pg) = 3" "length (valid_bit pg) = 3"
    "\<forall>j < 3. valid_bit pg ! j = (c div 3 < k \<and> 3 * (c div 3) + j < length L)"
    "c div 3 < k \<longrightarrow> (\<forall>j < 3. 3 * (c div 3) + j < length L \<longrightarrow> line_index pg ! j < length (a3_memory s) \<and>
        val (a3_memory s ! (line_index pg ! j)) = L ! (3 * (c div 3) + j))"
    using q(3) i unfolding page_rep_def by blast
  have "valid_bit pg ! (c mod 3) = (c < 3 * k)" using pg(4) j e k c by metis
  then have "line_at p (c div 3) (c mod 3) s = Some (c < 3 * k, line_index pg ! (c mod 3))"
    using q i pg(1,2,3) j by (simp add: line_at_def rd_Some)
  moreover have "mem_get_value_at (line_index pg ! (c mod 3)) s = Some (L ! c)" if "c < 3 * k"
  proof -
    have "line_index pg ! (c mod 3) < length (a3_memory s) \<and> val (a3_memory s ! (line_index pg ! (c mod 3))) = L ! c"
      using pg(5) that k j e c by metis
    then show ?thesis by (simp add: mem_get_value_at_def rd_Some)
  qed
  ultimately show ?thesis by blast
qed

lemma rr_line_fault:
  assumes kr: "kernel_rep cfg s qs ps A G" and p: "p \<in> set ps" "p \<notin> set qs" "A p = (L, c, k)"
    and c: "c < length L" "3 * k \<le> c"
  shows "\<exists>s' G'. rr_line cfg parse p s = Ret 1 s' \<and>
    kernel_rep cfg s' (qs @ [p]) ps (A(p := (L, c, Suc k))) G' \<and> user_part cfg s' = user_part cfg s"
proof -
  have ts: "tasks_rep s ps A G" using kr by (simp add: kernel_rep_def)
  obtain q where q: "proc_at s p = Some q" "program_counter q = counters (length L) c" "c \<le> 3 * k"
    using task_facts [OF ts p(1,3)] by metis
  then have k: "c div 3 = k" using c(2) by simp
  then have "k < pages_for (length L)" using page_bound [OF c(1)] by simp
  then obtain s' where s': "page_fault cfg p k s = Ret 1 s'"
    "kernel_rep cfg s' (qs @ [p]) ps (A(p := (L, c, Suc k))) (pages_of s p ! k # G)" "user_part cfg s' = user_part cfg s"
    using page_fault_rep [OF kr p] by blast
  obtain pos where "line_at p (c div 3) (c mod 3) s = Some (c < 3 * k, pos)"
    using line_at_rep [OF ts p(1,3) c(1)] by blast
  then have "rr_line cfg parse p s = Ret 1 s'"
    using rr_line_at [OF q(1,2) c(1)] c(2) s'(1) k by (simp add: run_proc_def cpu_run_def)
  then show ?thesis using s' by blast
qed

lemma rr_line_runs:
  assumes kr: "kernel_rep cfg s qs ps A G" and p: "p \<in> set ps" "A p = (L, c, k)"
    and c: "c < length L" "c < 3 * k" and quiet: "runs_quietly cfg parse F L"
  shows "\<exists>s' G'. rr_line cfg parse p s = Ret 0 s' \<and>
    kernel_rep cfg s' qs ps (A(p := (L, Suc c, k))) G' \<and> user_part cfg s' = F (L ! c) (user_part cfg s)"
proof -
  have ts: "tasks_rep s ps A G" using kr by (simp add: kernel_rep_def)
  obtain q where q: "proc_at s p = Some q" "program_counter q = counters (length L) c"
    using task_facts [OF ts p] by metis
  obtain pos where pos: "line_at p (c div 3) (c mod 3) s = Some (c < 3 * k, pos)" "mem_get_value_at pos s = Some (L ! c)"
    using line_at_rep [OF ts p c(1)] c(2) by blast
  obtain ret s1 where s1: "parse (L ! c) s = Ret ret s1" "ret \<noteq> 1" "kernel_same cfg s s1"
    "user_part cfg s1 = F (L ! c) (user_part cfg s)"
    using quiet c(1) nth_mem unfolding runs_quietly_def by blast
  obtain s2 where s2: "count_line p (c div 3) s1 = Some s2" "kernel_rep cfg s2 qs ps (A(p := (L, Suc c, k))) G"
    "user_part cfg s2 = user_part cfg s1"
    using count_line_rep [OF kernel_rep_same [OF kr s1(3)] p c] by blast
  have i: "c div 3 < k" using c(2) by linarith
  obtain s3 G' where s3: "use_page p (c div 3) s2 = Some s3" "kernel_rep cfg s3 qs ps (A(p := (L, Suc c, k))) G'" "only_lists s2 s3"
    using use_page_rep [OF s2(2) p(1) _ i] by auto
  have "rr_line cfg parse p s = Ret 0 s3"
    using rr_line_at [OF q c(1)] pos c(2) s1(1,2) s2(1) s3(1) by (simp add: run_proc_def cpu_run_def)
  then show ?thesis using s1(4) s2(3) s3(2) user_only_lists [OF s3(3)] by metis
qed

section \<open>Freeing the processes\<close>

text \<open>
  A freed page clears its three slots and the two slots after them, because \<open>clear_frame\<close> is called at
  each of the three. With two slots to spare in the frame store the variables are not reached.
\<close>

definition clears :: "nat \<Rightarrow> nat set \<Rightarrow> slot list \<Rightarrow> slot list \<Rightarrow> bool" where
  \<comment> \<open>the slots \<open>X\<close> are free afterwards, free slots stay free, the slots from \<open>B\<close> on are as before\<close>
  "clears B X m m' \<longleftrightarrow> length m' = length m \<and> drop B m' = drop B m \<and> (\<forall>x < length m. var (m ! x) = NONE \<longrightarrow> var (m' ! x) = NONE) \<and>
     (\<forall>x \<in> X. var (m' ! x) = NONE)"

lemma clears_trans: "clears B X m m' \<Longrightarrow> clears B Y m' m'' \<Longrightarrow> X \<subseteq> {..<length m} \<Longrightarrow> clears B (X \<union> Y) m m''"
  unfolding clears_def by (auto dest: subsetD)

lemma clears_mono: "clears B X m m' \<Longrightarrow> Y \<subseteq> X \<Longrightarrow> clears B Y m m'"
  unfolding clears_def by blast

lemma clears_refl [simp]: "clears B {} m m"
  by (simp add: clears_def)

definition frames_only :: "nat \<Rightarrow> nat set \<Rightarrow> ('os, 'fs) a3 \<Rightarrow> ('os, 'fs) a3 \<Rightarrow> bool" where
  "frames_only B X s s' \<longleftrightarrow> (\<exists>m g p. s' = s\<lparr>a3_memory := m, page_heap := g, proc_heap := p\<rparr> \<and> clears B X (a3_memory s) m)"

lemma frames_onlyI:
  "clears B X (a3_memory s) m \<Longrightarrow> frames_only B X s (s\<lparr>a3_memory := m, page_heap := g, proc_heap := p\<rparr>)"
  unfolding frames_only_def by blast

lemma frames_only_trans:
  assumes "frames_only B X s s'" and "frames_only B Y s' s''" and "X \<subseteq> {..<length (a3_memory s)}"
  shows "frames_only B (X \<union> Y) s s''"
proof -
  obtain m g p m' g' p' where e: "s' = s\<lparr>a3_memory := m, page_heap := g, proc_heap := p\<rparr>"
    "s'' = s'\<lparr>a3_memory := m', page_heap := g', proc_heap := p'\<rparr>"
    "clears B X (a3_memory s) m" "clears B Y (a3_memory s') m'"
    using assms unfolding frames_only_def by blast
  have "s'' = s\<lparr>a3_memory := m', page_heap := g', proc_heap := p'\<rparr>" by (simp add: e(2)) (simp add: e(1))
  moreover have "clears B (X \<union> Y) (a3_memory s) m'" using clears_trans [OF e(3) _ assms(3)] e(4) by (simp add: e(1))
  ultimately show ?thesis using frames_onlyI [of B "X \<union> Y" s m' p' g'] by simp
qed

lemma user_frames_only: "frames_only (frame_store_size cfg) X s s' \<Longrightarrow> user_part cfg s' = user_part cfg s"
  by (auto simp: frames_only_def user_part_def clears_def)

lemma frames_only_heaps: "frames_only B {} s (s\<lparr>page_heap := g\<rparr>)" "frames_only B {} s (s\<lparr>proc_heap := p\<rparr>)"
  using frames_onlyI [of B "{}" s "a3_memory s" "proc_heap s" g] frames_onlyI [of B "{}" s "a3_memory s" p "page_heap s"] by simp_all

lemma frames_only_refl: "frames_only B {} s s"
  using frames_only_heaps(1) [of B s "page_heap s"] by simp

lemma frames_only_memory: "frames_only B X s s' \<Longrightarrow> clears B X (a3_memory s) (a3_memory s')"
  by (auto simp: frames_only_def)

lemma clear_slots:
  "i + n \<le> B \<Longrightarrow> B \<le> length (a3_memory s) \<Longrightarrow>
   \<exists>m. free_slots_from i n s = Some (s\<lparr>a3_memory := m\<rparr>) \<and> clears B {i..<i + n} (a3_memory s) m"
proof (induction i n s rule: free_slots_from.induct)
  case (1 i s)
  then show ?case by (intro exI [of _ "a3_memory s"]) simp
next
  case (2 i n s)
  let ?m = "(a3_memory s)[i := \<lparr>var = NONE, val = NONE\<rparr>]"
  let ?s = "s\<lparr>a3_memory := ?m\<rparr>"
  have f: "mem_free_at i s = Some ?s" using "2.prems" by (simp add: mem_free_at_def)
  obtain m where m: "free_slots_from (Suc i) n ?s = Some (?s\<lparr>a3_memory := m\<rparr>)" "clears B {Suc i..<Suc i + n} ?m m"
    using "2.IH" [OF f] "2.prems" by auto
  have "clears B {i} (a3_memory s) ?m" using "2.prems" by (simp add: clears_def drop_update_cancel nth_list_update)
  from clears_trans [OF this m(2)] have "clears B ({i} \<union> {Suc i..<Suc i + n}) (a3_memory s) m" using "2.prems" by simp
  moreover have "{i} \<union> {Suc i..<Suc i + n} = {i..<i + Suc n}" by auto
  ultimately show ?case using f m(1) by (intro exI [of _ m]) simp
qed

text \<open>The slots of the pages \<open>gs\<close>.\<close>

definition page_slots :: "('os, 'fs) a3 \<Rightarrow> nat list \<Rightarrow> nat set" where
  "page_slots s gs = (\<Union>g \<in> set gs. {frame_of s g..<frame_of s g + 3})"

definition well_placed :: "nat \<Rightarrow> ('os, 'fs) a3 \<Rightarrow> nat \<Rightarrow> bool" where
  "well_placed B s g \<longleftrightarrow> (\<exists>pg f. page_at s g = Some pg \<and> line_index pg = [f, f + 1, f + 2] \<and> f + 5 \<le> B)"

lemma well_placed_cong: "page_at s' g = page_at s g \<Longrightarrow> well_placed B s' g = well_placed B s g"
  and frame_of_cong: "page_at s' g = page_at s g \<Longrightarrow> frame_of s' g = frame_of s g"
  by (simp_all add: well_placed_def frame_of_def)

lemma page_slots_cong: "\<forall>g \<in> set gs. page_at s' g = page_at s g \<Longrightarrow> page_slots s' gs = page_slots s gs"
proof -
  assume "\<forall>g \<in> set gs. page_at s' g = page_at s g"
  then have "\<forall>g \<in> set gs. frame_of s' g = frame_of s g" using frame_of_cong by blast
  then show ?thesis by (simp add: page_slots_def)
qed

lemma page_slots_bound: "\<forall>g \<in> set gs. well_placed B s g \<Longrightarrow> page_slots s gs \<subseteq> {..<B}"
proof -
  assume w: "\<forall>g \<in> set gs. well_placed B s g"
  have "{frame_of s g..<frame_of s g + 3} \<subseteq> {..<B}" if "g \<in> set gs" for g
  proof -
    have "well_placed B s g" using w that by blast
    then obtain pg f where "page_at s g = Some pg" "line_index pg = [f, f + 1, f + 2]" "f + 5 \<le> B"
      unfolding well_placed_def by blast
    then show ?thesis by (auto simp: frame_of_def)
  qed
  then show ?thesis unfolding page_slots_def by blast
qed

lemma clear_pages_ok:
  assumes "distinct gs" and "B \<le> length (a3_memory s)" and "\<forall>g \<in> set gs. well_placed B s g"
  shows "\<exists>s'. clear_pages gs s = Some s' \<and> frames_only B (page_slots s gs) s s' \<and> proc_at s' = proc_at s \<and>
    (\<forall>g. g \<notin> set gs \<longrightarrow> page_at s' g = page_at s g)"
  using assms
proof (induction gs arbitrary: s)
  case Nil
  then show ?case using frames_only_refl by (simp add: page_slots_def)
next
  case (Cons g gs)
  obtain pg f where pg: "page_at s g = Some pg" "line_index pg = [f, f + 1, f + 2]" "f + 5 \<le> B"
    using Cons.prems(3) by (auto simp: well_placed_def)
  have B: "B \<le> length (a3_memory s)" by (rule Cons.prems(2))
  have b: "f + 3 \<le> B" "f + 1 + 3 \<le> B" "f + 2 + 3 \<le> B" using pg(3) by simp_all
  obtain m1 where m1: "free_slots_from f 3 s = Some (s\<lparr>a3_memory := m1\<rparr>)" "clears B {f..<f + 3} (a3_memory s) m1"
    using clear_slots [OF b(1) B] by blast
  then have B1: "B \<le> length m1" using B by (simp add: clears_def)
  obtain m2 where m2: "free_slots_from (f + 1) 3 (s\<lparr>a3_memory := m1\<rparr>) = Some (s\<lparr>a3_memory := m2\<rparr>)"
    "clears B {f + 1..<f + 1 + 3} m1 m2"
    using clear_slots [OF b(2), of "s\<lparr>a3_memory := m1\<rparr>"] B1 by auto
  then have B2: "B \<le> length m2" using B1 by (simp add: clears_def)
  obtain m3 where m3: "free_slots_from (f + 2) 3 (s\<lparr>a3_memory := m2\<rparr>) = Some (s\<lparr>a3_memory := m3\<rparr>)"
    "clears B {f + 2..<f + 2 + 3} m2 m3"
    using clear_slots [OF b(3), of "s\<lparr>a3_memory := m2\<rparr>"] B2 by auto
  have "clears B {f..<f + 3} (a3_memory s) m2"
    by (rule clears_mono [OF clears_trans [OF m1(2) m2(2)]]) (use b B in auto)
  then have m: "clears B {f..<f + 3} (a3_memory s) m3"
    by (rule clears_mono [OF clears_trans [OF _ m3(2)]]) (use b B in auto)
  let ?s = "s\<lparr>a3_memory := m3, page_heap := (page_heap s)[g := None]\<rparr>"
  have f1: "frames_only B {f..<f + 3} s ?s"
    using frames_onlyI [OF m, of "proc_heap s" "(page_heap s)[g := None]"] by simp
  have pa: "page_at ?s g' = page_at s g'" if "g' \<noteq> g" for g' using that by (simp add: page_at_def rd_def)
  have other: "\<forall>g' \<in> set gs. page_at ?s g' = page_at s g'"
  proof
    fix g' assume "g' \<in> set gs"
    then have "g' \<noteq> g" using Cons.prems(1) by auto
    then show "page_at ?s g' = page_at s g'" by (rule pa)
  qed
  then have gs: "\<forall>g' \<in> set gs. well_placed B ?s g'" using Cons.prems(3) well_placed_cong by fastforce
  have "length m3 = length (a3_memory s)" using m by (simp add: clears_def)
  then obtain s' where s': "clear_pages gs ?s = Some s'" "frames_only B (page_slots ?s gs) ?s s'" "proc_at s' = proc_at ?s"
    "\<forall>g. g \<notin> set gs \<longrightarrow> page_at s' g = page_at ?s g"
    using Cons.IH [of ?s] Cons.prems(1) B gs by auto
  have "frame_of s g = f" using pg by (simp add: frame_of_def)
  then have "page_slots s (g # gs) = {f..<f + 3} \<union> page_slots s gs"
    by (simp add: page_slots_def)
  moreover have "{f..<f + 3} \<subseteq> {..<length (a3_memory s)}" using b B by auto
  then have "frames_only B ({f..<f + 3} \<union> page_slots s gs) s s'"
    using frames_only_trans [OF f1 s'(2)] page_slots_cong [OF other] by simp
  moreover have "clear_pages (g # gs) s = clear_pages gs ?s"
    using pg m1(1) m2(1) m3(1) by (simp add: clear_frame_def rd_def)
  moreover have "proc_at ?s = proc_at s" by (simp add: proc_at_def fun_eq_iff)
  ultimately show ?case using s' pa by auto
qed

lemma free_list_ok:
  assumes "distinct ps" and "distinct (concat (map (pages_of s) ps))" and "B \<le> length (a3_memory s)"
    and "\<forall>p \<in> set ps. proc_at s p \<noteq> None" and "\<forall>g \<in> set (concat (map (pages_of s) ps)). well_placed B s g"
  shows "\<exists>s'. free_list ps s = Some s' \<and> frames_only B (page_slots s (concat (map (pages_of s) ps))) s s'"
  using assms
proof (induction ps arbitrary: s)
  case Nil
  then show ?case using frames_only_refl by (simp add: page_slots_def)
next
  case (Cons p ps)
  let ?gs = "concat (map (pages_of s) ps)"
  obtain q where q: "proc_at s p = Some q" using Cons.prems(4) by auto
  then have po: "pages_of s p = proc_pages q" by (simp add: pages_of_def)
  have "distinct (proc_pages q)" and own: "\<forall>g \<in> set (proc_pages q). well_placed B s g"
    using Cons.prems(2,5) po by auto
  from clear_pages_ok [OF this(1) Cons.prems(3) own] obtain s1 where s1: "clear_pages (proc_pages q) s = Some s1"
    "frames_only B (page_slots s (proc_pages q)) s s1"
    "proc_at s1 = proc_at s" "\<forall>g. g \<notin> set (proc_pages q) \<longrightarrow> page_at s1 g = page_at s g"
    by blast
  let ?s = "s1\<lparr>proc_heap := (proc_heap s1)[p := None]\<rparr>"
  have pr: "proc_at ?s p' = proc_at s p'" if "p' \<noteq> p" for p'
  proof -
    have "proc_at ?s p' = proc_at s1 p'" using that by (simp add: proc_at_def rd_def)
    then show ?thesis using s1(3) by simp
  qed
  have ne: "p' \<noteq> p" if "p' \<in> set ps" for p' using that Cons.prems(1) by auto
  have po': "map (pages_of ?s) ps = map (pages_of s) ps" using pr ne by (auto simp: pages_of_def)
  have sub: "page_slots s (proc_pages q) \<subseteq> {..<length (a3_memory s)}" using page_slots_bound [OF own] Cons.prems(3) by auto
  have f1: "frames_only B (page_slots s (proc_pages q)) s ?s"
    using frames_only_trans [OF s1(2) frames_only_heaps(2) sub] by simp
  have pg: "\<forall>g \<in> set ?gs. page_at ?s g = page_at s g" using s1(4) Cons.prems(2) po by auto
  then have pages: "\<forall>g \<in> set (concat (map (pages_of ?s) ps)). well_placed B ?s g"
    using Cons.prems(5) well_placed_cong unfolding po' by fastforce
  have "B \<le> length (a3_memory ?s)" using frames_only_memory [OF f1] Cons.prems(3) by (simp add: clears_def)
  moreover have "\<forall>p \<in> set ps. proc_at ?s p \<noteq> None" using Cons.prems(4) ne pr by simp
  moreover have "distinct ps" "distinct (concat (map (pages_of ?s) ps))" unfolding po' using Cons.prems by auto
  ultimately obtain s' where s': "free_list ps ?s = Some s'" "frames_only B (page_slots ?s (concat (map (pages_of ?s) ps))) ?s s'"
    using Cons.IH [of ?s] pages by blast
  have "page_slots ?s (concat (map (pages_of ?s) ps)) = page_slots s ?gs" unfolding po' by (rule page_slots_cong [OF pg])
  then have "frames_only B (page_slots s (proc_pages q) \<union> page_slots s ?gs) s s'"
    using frames_only_trans [OF f1 s'(2) sub] by simp
  moreover have "page_slots s (proc_pages q) \<union> page_slots s ?gs = page_slots s (concat (map (pages_of s) (p # ps)))"
    using po by (auto simp: page_slots_def)
  moreover have "free_list (p # ps) s = Some s'" using q s1(1) s'(1) by (simp add: free_PCB_def)
  ultimately show ?case by auto
qed

lemma loaded_le:
  assumes "frames_rep cfg s ps G" shows "length G \<le> length (concat (map (pages_of s) ps))"
proof -
  have "distinct G" "set G \<subseteq> set (concat (map (pages_of s) ps))" using assms by (auto simp: frames_rep_def)
  then show ?thesis by (metis card_length card_mono distinct_card le_trans List.finite_set)
qed

definition finished :: "task \<Rightarrow> bool" where
  "finished t \<longleftrightarrow> fst (snd t) = length (fst t)"

text \<open>The frames of the loaded pages are all the frames in use.\<close>

lemma slots_loaded:
  assumes fr: "frames_rep cfg s ps G" and G': "set G \<subseteq> set gs" and x: "x < 3 * length G"
  shows "x \<in> page_slots s gs"
proof -
  have d: "distinct G" and inj: "inj_on (frame_of s) (set G)" using fr by (simp_all add: frames_rep_def)
  have sub: "(\<lambda>g. frame_of s g div 3) ` set G \<subseteq> {..<length G}"
  proof
    fix y assume "y \<in> (\<lambda>g. frame_of s g div 3) ` set G"
    then obtain g where g: "g \<in> set G" "y = frame_of s g div 3" by blast
    have "frame_of s g + 3 \<le> 3 * length G" by (rule page_of_rep [OF fr g(1)]) simp
    then show "y \<in> {..<length G}" using g(2) by simp
  qed
  have dv: "3 dvd frame_of s g" if "g \<in> set G" for g by (rule page_of_rep [OF fr that]) simp
  have "inj_on (\<lambda>g. frame_of s g div 3) (set G)"
  proof (rule inj_onI)
    fix a b assume ab: "a \<in> set G" "b \<in> set G" "frame_of s a div 3 = frame_of s b div 3"
    then have "frame_of s a = frame_of s b" using dv by (metis dvd_mult_div_cancel)
    then show "a = b" using inj ab(1,2) by (auto simp: inj_on_def)
  qed
  then have "card ((\<lambda>g. frame_of s g div 3) ` set G) = card {..<length G}"
    using d by (simp add: card_image distinct_card)
  then have "(\<lambda>g. frame_of s g div 3) ` set G = {..<length G}" using sub by (intro card_subset_eq) simp_all
  moreover have "x div 3 \<in> {..<length G}" using x by auto
  ultimately obtain g where g: "g \<in> set G" "x div 3 = frame_of s g div 3" by blast
  have "3 * (x div 3) = frame_of s g" using g dv by simp
  then have "x \<in> {frame_of s g..<frame_of s g + 3}" by (simp only: atLeastLessThan_iff) presburger
  then show ?thesis using g(1) G' unfolding page_slots_def by blast
qed

lemma kernel_finish:
  assumes kr: "kernel_rep cfg s qs ps A G" and fin: "\<forall>p \<in> set ps. finished (A p)"
  shows "\<exists>s'. finish_all s = Some (0, s') \<and> idle cfg s' \<and> user_part cfg s' = user_part cfg s"
proof -
  let ?B = "frame_store_size cfg" and ?gs = "concat (map (pages_of s) ps)"
  have fr: "frames_rep cfg s ps G" and ts: "tasks_rep s ps A G" and li: "lists_rep s qs ps G"
    and room: "3 * length ?gs + 2 \<le> ?B"
    using kr by (simp_all add: kernel_rep_def)
  have G: "3 * length G + 2 \<le> ?B" using loaded_le [OF fr] room by simp
  have each: "proc_at s p \<noteq> None \<and> set (pages_of s p) \<subseteq> set G" if p: "p \<in> set ps" for p
  proof -
    obtain L c k where A: "A p = (L, c, k)" by (cases "A p") auto
    obtain q where q: "proc_at s p = Some q" "pages_of s p = proc_pages q" "length (proc_pages q) = pages_for (length L)"
      "c \<le> 3 * k" "\<forall>i < pages_for (length L). proc_pages q ! i \<in> set G \<longleftrightarrow> i < k"
      using task_facts [OF ts p A] by metis
    have "length L \<le> 3 * k" using fin p A q(4) by (auto simp: finished_def)
    then have "pages_for (length L) \<le> k" by (simp add: pages_for_def)
    then show ?thesis using q by (auto simp: in_set_conv_nth)
  qed
  have "well_placed ?B s g" if "g \<in> set ?gs" for g
  proof -
    have "g \<in> set G" using each that by auto
    from page_of_rep [OF fr this] obtain pg f where "page_at s g = Some pg" "line_index pg = [f, f + 1, f + 2]" "f + 3 \<le> 3 * length G"
      by metis
    then show ?thesis using G by (auto simp: well_placed_def)
  qed
  moreover have B: "distinct ps" "distinct ?gs" "?B \<le> length (a3_memory s)"
    and old: "\<forall>x < ?B. var (a3_memory s ! x) = NONE \<longleftrightarrow> 3 * length G \<le> x"
    using ts fr by (simp_all add: tasks_rep_def frames_rep_def)
  ultimately obtain s1 where s1: "free_list ps s = Some s1" "frames_only ?B (page_slots s ?gs) s s1"
    using free_list_ok [of ps s ?B] each by blast
  obtain s' where s': "finish_all s = Some (0, s')" "lists_rep s' [] [] []" "only_lists s1 s'"
    using finish_all_rep [OF li s1(1)] by blast
  have mem: "a3_memory s' = a3_memory s1" using only_lists_fields [OF s'(3)] by simp
  have Gs: "set G \<subseteq> set ?gs" using fr by (auto simp: frames_rep_def)
  have cl: "clears ?B (page_slots s ?gs) (a3_memory s) (a3_memory s1)" by (rule frames_only_memory [OF s1(2)])
  have free: "var (a3_memory s' ! x) = NONE" if x: "x < ?B" for x
  proof (cases "3 * length G \<le> x")
    case True
    then show ?thesis using old x cl mem B by (simp add: clears_def)
  next
    case False
    then have "x \<in> page_slots s ?gs" using slots_loaded [OF fr Gs] by simp
    then show ?thesis using cl mem by (simp add: clears_def)
  qed
  have "idle cfg s'" using s'(2) free B G cl mem by (simp add: idle_def clears_def)
  then show ?thesis using s' user_frames_only [OF s1(2)] user_only_lists [OF s'(3)] by auto
qed

section \<open>The scheduler\<close>

lemma PCB_done_rep:
  assumes "tasks_rep s ps A G" and "p \<in> set ps" and "A p = (L, c, k)"
  shows "PCB_done p s = Some (\<forall>x \<in> set (counters (length L) c). x = 3)"
  by (rule task_facts [OF assms]) (simp add: PCB_done_def)

lemma pop_kernel:
  assumes kr: "kernel_rep cfg s (p # qs) ps A G"
  shows "\<exists>l s'. pop_head (QUEUE s) s = Ret (p, l) s' \<and> kernel_rep cfg (s'\<lparr>QUEUE := l\<rparr>) qs ps A G \<and>
    user_part cfg (s'\<lparr>QUEUE := l\<rparr>) = user_part cfg s"
proof -
  have fr: "frames_rep cfg s ps G" and ts: "tasks_rep s ps A G" and li: "lists_rep s (p # qs) ps G"
    using kr by (simp_all add: kernel_rep_def)
  obtain l s' where s': "pop_head (QUEUE s) s = Ret (p, l) s'" "lists_rep (s'\<lparr>QUEUE := l\<rparr>) qs ps G" "only_lists s (s'\<lparr>QUEUE := l\<rparr>)"
    using pop_queue_rep [OF li] by blast
  have "kernel_rep cfg (s'\<lparr>QUEUE := l\<rparr>) qs ps A G"
    using kr s'(2) rep_only_lists [OF s'(3) fr] ts unfolding kernel_rep_def by simp
  then show ?thesis using s'(1) user_only_lists [OF s'(3)] by blast
qed

lemma enqueue_kernel:
  assumes kr: "kernel_rep cfg s qs ps A G" and p: "p \<in> set ps" "p \<notin> set qs"
  shows "\<exists>s'. enqueue p s = Some s' \<and> kernel_rep cfg s' (qs @ [p]) ps A G \<and> user_part cfg s' = user_part cfg s"
proof -
  have fr: "frames_rep cfg s ps G" and ts: "tasks_rep s ps A G" and li: "lists_rep s qs ps G"
    using kr by (simp_all add: kernel_rep_def)
  obtain s' where s': "enqueue p s = Some s'" "lists_rep s' (qs @ [p]) ps G" "only_lists s s'"
    using enqueue_rep [OF li] by blast
  have "kernel_rep cfg s' (qs @ [p]) ps A G"
    using kr p s'(2) rep_only_lists [OF s'(3) fr] ts unfolding kernel_rep_def by simp
  then show ?thesis using s'(1) user_only_lists [OF s'(3)] by blast
qed

lemma rr_order_finished: "\<forall>t \<in> set ts. finished t \<Longrightarrow> rr_order ts = []"
  by (induction ts) (auto simp: finished_def rr_order.simps(2))

lemma rr_main:
  assumes "kernel_rep cfg s qs ps A G" and "\<forall>p \<in> set ps. p \<notin> set qs \<longrightarrow> finished (A p)"
    and "\<forall>p \<in> set ps. runs_quietly cfg parse F (fst (A p))" and "sum_list (map task_weight (map A qs)) < fuel"
  shows "\<exists>s'. run_proc_RR cfg parse fuel s = Ret 0 s' \<and> idle cfg s' \<and>
    user_part cfg s' = fold F (rr_order (map A qs)) (user_part cfg s)"
  using assms
proof (induction fuel arbitrary: s qs A G)
  case 0
  then show ?case by simp
next
  case (Suc n)
  have ts: "tasks_rep s ps A G" and li: "lists_rep s qs ps G" and dq: "distinct qs" and qp: "set qs \<subseteq> set ps"
    using Suc.prems(1) by (simp_all add: kernel_rep_def)
  define full where "full p = (\<forall>x \<in> set (counters (length (fst (A p))) (fst (snd (A p)))). x = 3)" for p
  have "PCB_done p s = Some (full p)" if "p \<in> set qs" for p
    using PCB_done_rep [OF ts, of p "fst (A p)" "fst (snd (A p))" "snd (snd (A p))"] that qp by (auto simp: full_def)
  then have qd: "queue_done s = Some (\<forall>p \<in> set qs. full p)" using queue_done_rep [OF li, of full] by blast
  show ?case
  proof (cases "\<forall>p \<in> set qs. full p")
    case True
    have "finished (A p)" if p: "p \<in> set ps" for p
    proof (cases "p \<in> set qs")
      case True
      have "fst (snd (A p)) \<le> length (fst (A p))"
        by (rule task_facts [OF ts p, of "fst (A p)" "fst (snd (A p))" "snd (snd (A p))"]) simp_all
      moreover have "\<not> fst (snd (A p)) < length (fst (A p))"
        using counters_open \<open>\<forall>p \<in> set qs. full p\<close> True full_def by blast
      ultimately show ?thesis by (simp add: finished_def)
    qed (use Suc.prems(2) p in blast)
    then have f: "\<forall>p \<in> set ps. finished (A p)" by blast
    then have "rr_order (map A qs) = []" using qp by (intro rr_order_finished) auto
    then show ?thesis using kernel_finish [OF Suc.prems(1) f] qd True by auto
  next
    case False
    then obtain p qs' where qs: "qs = p # qs'" by (cases qs) auto
    have p: "p \<in> set ps" "p \<notin> set qs'" using qs qp dq by auto
    obtain L c k where A: "A p = (L, c, k)" by (cases "A p") auto
    obtain l s1 where pop: "pop_head (QUEUE s) s = Ret (p, l) s1" "kernel_rep cfg (s1\<lparr>QUEUE := l\<rparr>) qs' ps A G"
      "user_part cfg (s1\<lparr>QUEUE := l\<rparr>) = user_part cfg s"
      using pop_kernel Suc.prems(1) unfolding qs by blast
    define s2 where "s2 = s1\<lparr>QUEUE := l\<rparr>"
    have kr2: "kernel_rep cfg s2 qs' ps A G" and u2: "user_part cfg s2 = user_part cfg s" using pop by (simp_all add: s2_def)
    have ts2: "tasks_rep s2 ps A G" using kr2 by (simp add: kernel_rep_def)
    obtain q where q: "proc_at s2 p = Some q" "proc_size q = int (length L) - int c" "c \<le> length L" "c \<le> 3 * k"
      using task_facts [OF ts2 p(1) A] by metis
    have quiet: "runs_quietly cfg parse F L" using Suc.prems(3) p(1) A by force
    have others: "map (A(p := t)) qs' = map A qs'" "map (A(p := t)) (qs' @ [p]) = map A qs' @ [t]" for t
      using p(2) by (auto simp: map_eq_conv)
    have quiets: "\<forall>p' \<in> set ps. runs_quietly cfg parse F (fst ((A(p := (L, c', k'))) p'))" for c' k'
      using Suc.prems(3) quiet by simp
    have fins: "\<forall>p' \<in> set ps. p' \<notin> set (qs' @ [p]) \<longrightarrow> finished ((A(p := t)) p')" for t
      using Suc.prems(2) qs by auto
    have w: "sum_list (map task_weight (map A qs')) + task_weight (L, c, k) < Suc n"
      using Suc.prems(4) unfolding qs by (simp only: list.map sum_list.Cons A add.commute)
    have again: "\<exists>s'. run_proc_RR cfg parse n s3 = Ret 0 s' \<and> idle cfg s' \<and>
        user_part cfg s' = fold F (rr_order (map A qs' @ [(L, c', k')])) (user_part cfg s3)"
      if "kernel_rep cfg s3 (qs' @ [p]) ps (A(p := (L, c', k'))) G'" "task_weight (L, c', k') < task_weight (L, c, k)" for s3 c' k' G'
    proof -
      have "sum_list (map task_weight (map A qs' @ [(L, c', k')])) < n"
        using w that(2) by (simp only: map_append list.map sum_list_append sum_list.Cons sum_list.Nil)
      then show ?thesis using Suc.IH [OF that(1) fins quiets] unfolding others by blast
    qed
    have leave: "\<exists>s'. run_proc_RR cfg parse n s3 = Ret 0 s' \<and> idle cfg s' \<and>
        user_part cfg s' = fold F (rr_order (map A qs')) (user_part cfg s3)"
      if "kernel_rep cfg s3 qs' ps (A(p := (L, length L, k))) G'" for s3 G'
    proof -
      have "\<forall>p' \<in> set ps. p' \<notin> set qs' \<longrightarrow> finished ((A(p := (L, length L, k))) p')"
        using Suc.prems(2) qs by (auto simp: finished_def)
      moreover have "sum_list (map task_weight (map A qs')) < n" using w by simp
      ultimately show ?thesis using Suc.IH [OF that _ quiets] unfolding others by blast
    qed
    have run: "run_proc_RR cfg parse (Suc n) s =
       (if proc_size q > 1
        then seq (rr_line cfg parse p s2) (\<lambda>ret s.
               if ret = 1 then run_proc_RR cfg parse n s
               else seq (rr_line cfg parse p s) (\<lambda>ret s.
                      if ret = 1 then run_proc_RR cfg parse n s
                      else seq (attempt_do (enqueue p s)) (\<lambda>_ s. run_proc_RR cfg parse n s)))
        else if proc_size q = 1
        then seq (rr_line cfg parse p s2) (\<lambda>_ s. run_proc_RR cfg parse n s)
        else run_proc_RR cfg parse n s2)"
      using qd False pop(1) q(1) by (simp add: s2_def Let_def)
    have order: "rr_order (map A qs) = rr_order ((L, c, k) # map A qs')" using qs A by simp
    consider (over) "c = length L" | (fault) "c < length L" "3 * k \<le> c" | (last) "Suc c = length L" "c < 3 * k"
      | (half) "Suc c < length L" "c < 3 * k" "3 * k \<le> Suc c" | (both) "Suc c < length L" "Suc c < 3 * k"
      using q(3) by linarith
    then show ?thesis
    proof cases
      case over
      have "A(p := (L, length L, k)) = A" using A over by (simp add: fun_upd_idem)
      then show ?thesis using leave [of s2 G] kr2 over run q(2) order u2 by (simp add: rr_order.simps(2))
    next
      case fault
      obtain s3 G' where s3: "rr_line cfg parse p s2 = Ret 1 s3"
        "kernel_rep cfg s3 (qs' @ [p]) ps (A(p := (L, c, Suc k))) G'" "user_part cfg s3 = user_part cfg s2"
        using rr_line_fault [OF kr2 p A fault] by blast
      have "task_weight (L, c, Suc k) < task_weight (L, c, k)" using fault by simp
      from again [OF s3(2) this] show ?thesis
        using s3(1,3) fault run q(2) order u2 by (auto simp: rr_order.simps(2))
    next
      case last
      have c: "c < length L" using last by simp
      obtain s3 G' where s3: "rr_line cfg parse p s2 = Ret 0 s3"
        "kernel_rep cfg s3 qs' ps (A(p := (L, Suc c, k))) G'" "user_part cfg s3 = F (L ! c) (user_part cfg s2)"
        using rr_line_runs [OF kr2 p(1) A c last(2) quiet] by blast
      from leave [of s3 G'] show ?thesis
        using s3 last run q(2) order u2 by (auto simp: rr_order.simps(2))
    next
      case half
      then have c: "c < length L" "Suc c < length L" "3 * k \<le> Suc c" by simp_all
      obtain s3 G' where s3: "rr_line cfg parse p s2 = Ret 0 s3"
        "kernel_rep cfg s3 qs' ps (A(p := (L, Suc c, k))) G'" "user_part cfg s3 = F (L ! c) (user_part cfg s2)"
        using rr_line_runs [OF kr2 p(1) A c(1) half(2) quiet] by blast
      have A': "(A(p := (L, Suc c, k))) p = (L, Suc c, k)" by simp
      obtain s4 G'' where s4: "rr_line cfg parse p s3 = Ret 1 s4"
        "kernel_rep cfg s4 (qs' @ [p]) ps (A(p := (L, Suc c, Suc k))) G''" "user_part cfg s4 = user_part cfg s3"
        using rr_line_fault [OF s3(2) p A' c(2,3)] unfolding fun_upd_upd by blast
      have "task_weight (L, Suc c, Suc k) < task_weight (L, c, k)" using c by simp
      from again [OF s4(2) this] show ?thesis
        using s3(1,3) s4(1,3) half run q(2) order u2 by (auto simp: rr_order.simps(2))
    next
      case both
      then have c: "c < length L" "Suc c < length L" "c < 3 * k" by simp_all
      obtain s3 G' where s3: "rr_line cfg parse p s2 = Ret 0 s3"
        "kernel_rep cfg s3 qs' ps (A(p := (L, Suc c, k))) G'" "user_part cfg s3 = F (L ! c) (user_part cfg s2)"
        using rr_line_runs [OF kr2 p(1) A c(1,3) quiet] by blast
      have A': "(A(p := (L, Suc c, k))) p = (L, Suc c, k)" by simp
      obtain s4 G'' where s4: "rr_line cfg parse p s3 = Ret 0 s4"
        "kernel_rep cfg s4 qs' ps (A(p := (L, c + 2, k))) G''" "user_part cfg s4 = F (L ! Suc c) (user_part cfg s3)"
        using rr_line_runs [OF s3(2) p(1) A' c(2) both(2) quiet] unfolding fun_upd_upd add_2_eq_Suc' by blast
      obtain s5 where s5: "enqueue p s4 = Some s5" "kernel_rep cfg s5 (qs' @ [p]) ps (A(p := (L, c + 2, k))) G''"
        "user_part cfg s5 = user_part cfg s4"
        using enqueue_kernel [OF s4(2) p] by blast
      have "task_weight (L, c + 2, k) < task_weight (L, c, k)" using c by simp
      from again [OF s5(2) this] show ?thesis
        using s3(1,3) s4(1,3) s5(1,3) both run q(2) order u2 by (auto simp: rr_order.simps(2))
    qed
  qed
qed

end
