(* ===== verification/A3_Shell.thy ===== *)
theory A3_Shell
  imports A3_Kernel
begin

text \<open>
  The shell of assignment 3 (\<open>a3/interpreter.c\<close>, \<open>a3/shell.c\<close>): the commands, the dispatch, the splitter on
  semicolons and blanks and the read loop. \<open>strtok\<close> keeps its position in a static variable, the field
  \<open>strtok_rest\<close>: a script line that is parsed while the line with \<open>run\<close> is being parsed moves it. The
  commands of the file system (\<open>a3/fs/fsutil.c\<close>, \<open>fsutil2.c\<close>) are the arguments in \<open>fs_ops\<close>: each is a
  function of the state of the file system with a result, the text it prints and the new state, or \<open>None\<close>
  when it is undefined.
\<close>

section \<open>The file system commands\<close>

type_synonym 'fs fs_call = "'fs \<Rightarrow> (int \<times> string list \<times> 'fs) option"

record 'fs fs_ops =
  fs_ide_init :: "string \<Rightarrow> 'fs fs_call"
  fs_filesys_init :: "bool \<Rightarrow> 'fs fs_call"
  fs_filesys_done :: "'fs fs_call"
  fs_ls :: "'fs fs_call"
  fs_cat :: "string \<Rightarrow> 'fs fs_call"
  fs_rm :: "string \<Rightarrow> 'fs fs_call"
  fs_create :: "string \<Rightarrow> int \<Rightarrow> 'fs fs_call"
  fs_write :: "string \<Rightarrow> string \<Rightarrow> 'fs fs_call"                \<comment> \<open>all bytes of the buffer\<close>
  fs_read :: "string \<Rightarrow> int \<Rightarrow> 'fs \<Rightarrow> (string \<times> int \<times> string list \<times> 'fs) option"
  fs_find_file :: "string \<Rightarrow> 'fs fs_call"
  fs_copy_in :: "string \<Rightarrow> 'fs fs_call"
  fs_copy_out :: "string \<Rightarrow> 'fs fs_call"
  fs_size :: "string \<Rightarrow> 'fs fs_call"
  fs_seek :: "string \<Rightarrow> int \<Rightarrow> 'fs fs_call"
  fs_freespace :: "'fs fs_call"
  fs_fragmentation_degree :: "'fs fs_call"
  fs_defragment :: "'fs fs_call"
  fs_recover :: "int \<Rightarrow> 'fs fs_call"

type_synonym ('os, 'fs) a3_call = "(int, ('os, 'fs) a3) outcome"

definition fs_do :: "'fs fs_call \<Rightarrow> ('os, 'fs) a3 \<Rightarrow> ('os, 'fs) a3_call" where
  "fs_do f s =
     (case f (a3_fs s) of
        None \<Rightarrow> Undefined
      | Some (r, shown, d) \<Rightarrow> Ret r (s\<lparr>a3_fs := d, console := console s @ shown\<rparr>))"

section \<open>The commands (a3/interpreter.c)\<close>

definition a3_error_msgs :: "string list" where
  "a3_error_msgs = [''file does not exist'', ''no space left in shell memory'', ''ready queue is full'',
     ''scheduling policy error'', ''too many tokens'', ''too few tokens'', ''non-alphanumeric token'',
     ''unknown name'', ''rm'', ''file could not be created'', ''bad filesystem'',
     ''file could not be written (maybe no space?)'', ''file could not be read'']"

datatype a3_error = E_FILE_DOES_NOT_EXIST | E_NO_MEM_SPACE | E_READY_QUEUE_FULL | E_SCHEDULING_ERROR
  | E_TOO_MANY_TOKENS | E_TOO_FEW_TOKENS | E_NON_ALPHANUMERIC_TOKEN | E_BAD_COMMAND | E_ERROR_RM
  | E_FILE_CREATION_ERROR | E_FILESYSTEM_ERROR | E_FILE_WRITE_ERROR | E_FILE_READ_ERROR

fun a3_code :: "a3_error \<Rightarrow> int" where
  "a3_code E_FILE_DOES_NOT_EXIST = 0" | "a3_code E_NO_MEM_SPACE = 1" | "a3_code E_READY_QUEUE_FULL = 2"
| "a3_code E_SCHEDULING_ERROR = 3" | "a3_code E_TOO_MANY_TOKENS = 4" | "a3_code E_TOO_FEW_TOKENS = 5"
| "a3_code E_NON_ALPHANUMERIC_TOKEN = 6" | "a3_code E_BAD_COMMAND = 7" | "a3_code E_ERROR_RM = 8"
| "a3_code E_FILE_CREATION_ERROR = 9" | "a3_code E_FILESYSTEM_ERROR = 10"
| "a3_code E_FILE_WRITE_ERROR = 11" | "a3_code E_FILE_READ_ERROR = 12"

definition a3_handle_code :: "int \<Rightarrow> ('os, 'fs) a3 \<Rightarrow> ('os, 'fs) a3_call" where
  "a3_handle_code c s =
     require (0 \<le> c \<and> c < int (length a3_error_msgs))
       (Ret c (printf (''Bad command: '' @ a3_error_msgs ! nat c @ nl) s))"

definition a3_handle_error :: "a3_error \<Rightarrow> ('os, 'fs) a3 \<Rightarrow> ('os, 'fs) a3_call" where
  "a3_handle_error e s = a3_handle_code (a3_code e) s"

definition a3_help_string :: string where
  "a3_help_string =
     ''COMMAND'' @ [CHR 0x09, CHR 0x09, CHR 0x09] @ ''DESCRIPTION'' @ nl
     @ '' help'' @ [CHR 0x09, CHR 0x09, CHR 0x09] @ ''      Displays all the commands'' @ nl
     @ '' quit'' @ [CHR 0x09, CHR 0x09, CHR 0x09] @ ''      Exits / terminates the shell with '' @ [CHR 0xE2, CHR 0x80, CHR 0x9C] @ ''Bye!'' @ [CHR 0xE2, CHR 0x80, CHR 0x9D] @ nl
     @ '' set VAR STRING'' @ [CHR 0x09, CHR 0x09] @ ''      Assigns a value to shell memory'' @ nl
     @ '' print VAR'' @ [CHR 0x09, CHR 0x09] @ ''      Displays the STRING assigned to VAR'' @ nl
     @ '' echo VAR                     Displays VAR if VAR doesn'' @ [CHR 0x27] @ ''t begin with '' @ [CHR 0x27] @ ''$'' @ [CHR 0x27] @ '', otherwise displays the value assigned to VAR'' @ nl
     @ '' ls                        Displays the folders and files in the current directory in ascending order according to ASCII values '' @ nl
     @ '' run SCRIPT.TXT'' @ [CHR 0x09, CHR 0x09] @ ''      Executes the file SCRIPT.TXT'' @ nl
     @ '' exec [SCRIPT.TXT]     Executes up to 3 files using the round-robin scheduling policy'' @ nl
     @ '' resetmem                     Deletes the content of the variable store'' @ nl"

definition a3_help :: "('os, 'fs) a3 \<Rightarrow> ('os, 'fs) a3_call" where
  "a3_help s = Ret 0 (puts a3_help_string s)"

definition a3_quit :: "('os, 'fs) a3 \<Rightarrow> ('os, 'fs) a3_call" where
  "a3_quit s = Ret (-1) (puts ''Bye!'' s)"

definition a3_set :: "a3_config \<Rightarrow> string \<Rightarrow> string \<Rightarrow> ('os, 'fs) a3 \<Rightarrow> ('os, 'fs) a3_call" where
  "a3_set cfg v x s = require (length v + 1 + length x < 1000) (Ret 0 (a3_mem_set_value cfg v x s))"

definition a3_print :: "a3_config \<Rightarrow> string \<Rightarrow> ('os, 'fs) a3 \<Rightarrow> ('os, 'fs) a3_call" where
  "a3_print cfg v s = Ret 0 (puts (a3_mem_get_value cfg v (CHR ''p'') s) s)"

definition isalnum :: "char \<Rightarrow> bool" where
  "isalnum c \<longleftrightarrow> (let n = of_char c :: nat in
     48 \<le> n \<and> n \<le> 57 \<or> 65 \<le> n \<and> n \<le> 90 \<or> 97 \<le> n \<and> n \<le> 122)"

definition isAlphaNumStr :: "string \<Rightarrow> bool" where
  "isAlphaNumStr str \<longleftrightarrow> str \<noteq> [] \<and> list_all isalnum str"

fun alnum_suffixes :: "string \<Rightarrow> bool" where
  \<comment> \<open>\<open>for (p = var + 1; *p != 0; p++)\<close>\<close>
  "alnum_suffixes [] = True"
| "alnum_suffixes (c # cs) = (isAlphaNumStr (c # cs) \<and> alnum_suffixes cs)"

definition a3_echo :: "a3_config \<Rightarrow> string \<Rightarrow> ('os, 'fs) a3 \<Rightarrow> ('os, 'fs) a3_call" where
  "a3_echo cfg w s =
     (if w \<noteq> [] \<and> hd w = CHR ''$''
      then (if alnum_suffixes (tl w) then Ret 0 (puts (a3_mem_get_value cfg (tl w) (CHR ''e'') s) s)
            else a3_handle_error E_NON_ALPHANUMERIC_TOKEN s)
      else if isAlphaNumStr w then Ret 0 (puts w s)
      else a3_handle_error E_NON_ALPHANUMERIC_TOKEN s)"

definition a3_system :: "'os host_ops \<Rightarrow> string \<Rightarrow> ('os, 'fs) a3 \<Rightarrow> ('os, 'fs) a3" where
  "a3_system h command s =
     (case os_system h command (a3_host s) of (_, shown, os) \<Rightarrow> printf shown s\<lparr>a3_host := os\<rparr>)"

definition copy_script ::
  "'os host_ops \<Rightarrow> string \<Rightarrow> ('os, 'fs) a3 \<Rightarrow> (string, ('os, 'fs) a3) outcome" where
  \<comment> \<open>the copy in the backing store; the name grows by one \<open>a\<close> with every copy, the buffers have 100 bytes\<close>
  "copy_script h script s =
     (let old_name = script @ replicate (new_name_count s) (CHR ''a'');
          new_name = ''./backing_store/'' @ old_name;
          cmd = ''cp ./'' @ script @ '' '' @ new_name
      in require (length old_name < 100 \<and> length new_name < 100 \<and> length cmd < 100)
           (let s = a3_system h cmd s in Ret new_name (s\<lparr>new_name_count := new_name_count s + 1\<rparr>)))"

definition clean_store :: "'os host_ops \<Rightarrow> string \<Rightarrow> ('os, 'fs) a3 \<Rightarrow> ('os, 'fs) a3" where
  \<comment> \<open>\<open>snprintf\<close> keeps 1068 characters\<close>
  "clean_store h cwd s =
     a3_system h (take 1068 (''mkdir '' @ cwd @ ''/backing_store''))
       (a3_system h (take 1068 (''rm -rf '' @ cwd @ ''/backing_store'')) s)"

definition a3_run ::
  "a3_config \<Rightarrow> 'os host_ops \<Rightarrow> ('os, 'fs) a3_parser \<Rightarrow> nat \<Rightarrow> string \<Rightarrow> ('os, 'fs) a3 \<Rightarrow> ('os, 'fs) a3_call" where
  "a3_run cfg h parse fuel script s =
     seq (new_proc cfg h script s) (\<lambda>r s.
       if r \<noteq> 0 then Ret 1 s else run_proc_RR cfg parse fuel s)"

fun new_procs :: "a3_config \<Rightarrow> 'os host_ops \<Rightarrow> string list \<Rightarrow> ('os, 'fs) a3 \<Rightarrow> ('os, 'fs) a3_call" where
  "new_procs cfg h [] s = Ret 0 s"
| "new_procs cfg h (f # fs) s =
     seq (new_proc cfg h f s) (\<lambda>r s. if r \<noteq> 0 then Ret 1 s else new_procs cfg h fs s)"

definition a3_exec ::
  "a3_config \<Rightarrow> 'os host_ops \<Rightarrow> ('os, 'fs) a3_parser \<Rightarrow> nat \<Rightarrow> string list \<Rightarrow> string \<Rightarrow> ('os, 'fs) a3 \<Rightarrow>
   ('os, 'fs) a3_call" where
  "a3_exec cfg h parse fuel scripts policy s =
     (if 3 < length scripts
      then Ret 1 (printf (''exec can only take between 1 to 3 scripts'' @ nl) s)
      else seq (new_procs cfg h scripts s) (\<lambda>r s.
        if r \<noteq> 0 then Ret 1 s
        else if policy = ''FIFO'' then run_proc_FIFO cfg parse fuel fuel s
        else if policy = ''RR'' then run_proc_RR cfg parse fuel s
        else Ret 0 s))"

fun copy_scripts ::
  "'os host_ops \<Rightarrow> string list \<Rightarrow> ('os, 'fs) a3 \<Rightarrow> (string list, ('os, 'fs) a3) outcome" where
  "copy_scripts h [] s = Ret [] s"
| "copy_scripts h (f # fs) s =
     seq (copy_script h f s) (\<lambda>n s. seq (copy_scripts h fs s) (\<lambda>ns s. Ret (n # ns) s))"

fun set_value :: "string list \<Rightarrow> string \<Rightarrow> string option option" where
  \<comment> \<open>the buffer of \<open>set\<close>, of 505 bytes; the inner \<open>None\<close>: a token that is not alphanumeric\<close>
  "set_value [] buffer = Some (Some buffer)"
| "set_value (w # ws) buffer =
     (if \<not> isAlphaNumStr w then Some None
      else let buffer = buffer @ w @ (if ws = [] then [] else '' '')
           in if length buffer < 505 then set_value ws buffer else None)"

section \<open>The dispatch\<close>

definition is_digit :: "char \<Rightarrow> bool" where
  "is_digit c \<longleftrightarrow> 48 \<le> (of_char c :: nat) \<and> (of_char c :: nat) \<le> 57"

definition is_space :: "char \<Rightarrow> bool" where
  "is_space c \<longleftrightarrow> c = CHR '' '' \<or> 9 \<le> (of_char c :: nat) \<and> (of_char c :: nat) \<le> 13"

definition atoi :: "string \<Rightarrow> int option" where
  \<comment> \<open>undefined when the value is not an \<open>int\<close>\<close>
  "atoi str =
     (let r = dropWhile is_space str;
          neg = (r \<noteq> [] \<and> hd r = CHR ''-'');
          ds = takeWhile is_digit (if r \<noteq> [] \<and> (hd r = CHR ''-'' \<or> hd r = CHR ''+'') then tl r else r);
          v = (if neg then - int (undec ds) else int (undec ds))
      in if - (2 ^ 31) \<le> v \<and> v < 2 ^ 31 then Some v else None)"

definition with_int :: "string \<Rightarrow> (int \<Rightarrow> ('a, 's) outcome) \<Rightarrow> ('a, 's) outcome" where
  "with_int w k = (case atoi w of None \<Rightarrow> Undefined | Some v \<Rightarrow> k v)"

definition fs_write_command :: "'fs fs_ops \<Rightarrow> string list \<Rightarrow> ('os, 'fs) a3 \<Rightarrow> ('os, 'fs) a3_call" where
  \<comment> \<open>the tokens joined by blanks and two null bytes, all of which are counted\<close>
  "fs_write_command fs args s =
     (let buf = join_with '' '' (drop 2 args) @ [CHR 0x00, CHR 0x00];
          size = int (sum_list (map length (drop 2 args)) + (length args - 1))
      in seq (fs_do (fs_write fs (args ! 1) buf) s) (\<lambda>bytes_written s.
           if bytes_written = -1 then a3_handle_error E_FILE_WRITE_ERROR s
           else Ret 0 (if bytes_written \<noteq> size
                       then printf (''Warning: could only write '' @ idec bytes_written @ '' out of '' @ idec size
                              @ '' bytes (reached end of file)'' @ nl) s
                       else s)))"

definition fs_read_command :: "'fs fs_ops \<Rightarrow> string \<Rightarrow> int \<Rightarrow> ('os, 'fs) a3 \<Rightarrow> ('os, 'fs) a3_call" where
  \<comment> \<open>the code is 1 when as many bytes were read as asked for\<close>
  "fs_read_command fs f count s =
     require (0 \<le> count + 1) (case fs_read fs f count (a3_fs s) of
        None \<Rightarrow> Undefined
      | Some (buffer, bytes_read, shown, d) \<Rightarrow>
          (let s = s\<lparr>a3_fs := d, console := console s @ shown\<rparr> in
           if bytes_read = -1 then a3_handle_error E_FILE_READ_ERROR s
           else Ret (if bytes_read = count then 1 else 0)
                  (puts (takeWhile (\<lambda>c. c \<noteq> CHR 0x00) buffer) s)))"

definition fs_status :: "'fs fs_call \<Rightarrow> ('os, 'fs) a3 \<Rightarrow> ('os, 'fs) a3_call" where
  \<comment> \<open>\<open>copy_in\<close> and \<open>copy_out\<close>: a status other than 0 is an error code\<close>
  "fs_status f s = seq (fs_do f s) (\<lambda>status s. if status \<noteq> 0 then a3_handle_code status s else Ret 0 s)"

definition a3_fs_command :: "'fs fs_ops \<Rightarrow> string list \<Rightarrow> ('os, 'fs) a3 \<Rightarrow> ('os, 'fs) a3_call" where
  "a3_fs_command fs args s =
     (let n = length args; command = args ! 0; too_many = a3_handle_error E_TOO_MANY_TOKENS s in
      if command = ''ls'' then
        (if 1 < n then too_many
         else seq (fs_do (fs_ls fs) s) (\<lambda>status s.
                if status = 1 then a3_handle_error E_FILESYSTEM_ERROR s else Ret 0 s))
      else if command = ''cat'' then
        (if n \<noteq> 2 then too_many
         else seq (fs_do (fs_cat fs (args ! 1)) s) (\<lambda>status s.
                if status = 1 then a3_handle_error E_FILE_DOES_NOT_EXIST s else Ret 0 s))
      else if command = ''rm'' then
        (if n \<noteq> 2 then too_many
         else seq (fs_do (fs_rm fs (args ! 1)) s) (\<lambda>status s.
                if status = 0 then a3_handle_error E_ERROR_RM s else Ret status s))
      else if command = ''create'' then
        (if n \<noteq> 3 then too_many
         else with_int (args ! 2) (\<lambda>size.
                seq (fs_do (fs_create fs (args ! 1) size) s) (\<lambda>status s.
                  if status = 0 then a3_handle_error E_FILE_CREATION_ERROR s else Ret 0 s)))
      else if command = ''write'' then
        (if n < 3 then a3_handle_error E_TOO_FEW_TOKENS s else fs_write_command fs args s)
      else if command = ''find_file'' then
        (if n < 2 then a3_handle_error E_TOO_FEW_TOKENS s
         else seq (fs_do (fs_find_file fs (join_with '' '' (drop 1 args))) s) (\<lambda>_ s. Ret 0 s))
      else if command = ''read'' then
        (if n \<noteq> 3 then too_many
         else with_int (args ! 2) (\<lambda>size. fs_read_command fs (args ! 1) size s))
      else if command = ''copy_in'' then (if n \<noteq> 2 then too_many else fs_status (fs_copy_in fs (args ! 1)) s)
      else if command = ''copy_out'' then (if n \<noteq> 2 then too_many else fs_status (fs_copy_out fs (args ! 1)) s)
      else if command = ''size'' then
        (if n \<noteq> 2 then too_many
         else seq (fs_do (fs_size fs (args ! 1)) s) (\<lambda>size s.
                if size = -1 then a3_handle_error E_FILE_DOES_NOT_EXIST s
                else Ret 0 (printf (''File length: '' @ idec size @ nl) s)))
      else if command = ''seek'' then
        (if n \<noteq> 3 then too_many
         else with_int (args ! 2) (\<lambda>offset.
                seq (fs_do (fs_seek fs (args ! 1) offset) s) (\<lambda>status s.
                  if status = -1 then a3_handle_error E_FILE_DOES_NOT_EXIST s else Ret 0 s)))
      else if command = ''freespace'' then
        (if n \<noteq> 1 then too_many
         else seq (fs_do (fs_freespace fs) s) (\<lambda>k s.
                Ret 0 (printf (''Num free sectors: '' @ idec k @ '' ('' @ idec (k * 512) @ '' total bytes)'' @ nl) s)))
      else if command = ''fragmentation_degree'' then
        (if n \<noteq> 1 then too_many else seq (fs_do (fs_fragmentation_degree fs) s) (\<lambda>_ s. Ret 0 s))
      else if command = ''defragment'' then
        (if n \<noteq> 1 then too_many else seq (fs_do (fs_defragment fs) s) (\<lambda>_ s. Ret 0 s))
      else if command = ''recover'' then
        (if n \<noteq> 2 then too_many
         else with_int (args ! 1) (\<lambda>flag. seq (fs_do (fs_recover fs flag) s) (\<lambda>_ s. Ret 0 s)))
      else a3_handle_error E_BAD_COMMAND s)"

definition a3_set_command :: "a3_config \<Rightarrow> string list \<Rightarrow> ('os, 'fs) a3 \<Rightarrow> ('os, 'fs) a3_call" where
  "a3_set_command cfg args s =
     (if length args < 3 then a3_handle_error E_TOO_FEW_TOKENS s
      else if \<not> isAlphaNumStr (args ! 1) then a3_handle_error E_NON_ALPHANUMERIC_TOKEN s
      else (case set_value (drop 2 args) [] of
              None \<Rightarrow> Undefined
            | Some None \<Rightarrow> a3_handle_error E_NON_ALPHANUMERIC_TOKEN s
            | Some (Some buffer) \<Rightarrow> a3_set cfg (args ! 1) buffer s))"

definition a3_interpreter ::
  "a3_config \<Rightarrow> 'os host_ops \<Rightarrow> 'fs fs_ops \<Rightarrow> string \<Rightarrow> ('os, 'fs) a3_parser \<Rightarrow> nat \<Rightarrow> string list \<Rightarrow>
   ('os, 'fs) a3 \<Rightarrow> ('os, 'fs) a3_call" where
  "a3_interpreter cfg h fs cwd parse fuel words s =
     (if words = [] then a3_handle_error E_TOO_FEW_TOKENS s
      else let args = map strip_eol words; n = length args; command = args ! 0 in
        if command = ''help'' then (if 1 < n then a3_handle_error E_TOO_MANY_TOKENS s else a3_help s)
        else if command = ''quit'' \<or> command = ''exit'' then
          (if 1 < n then a3_handle_error E_TOO_MANY_TOKENS s
           else seq (fs_do (fs_filesys_done fs) (a3_system h (take 1068 (''rm -rf '' @ cwd @ ''/backing_store'')) s))
                  (\<lambda>_ s. a3_quit s))
        else if command = ''set'' then a3_set_command cfg args s
        else if command = ''print'' then
          (if n < 2 then a3_handle_error E_TOO_FEW_TOKENS s
           else if 2 < n then a3_handle_error E_TOO_MANY_TOKENS s else a3_print cfg (args ! 1) s)
        else if command = ''run'' then
          (if n < 2 then a3_handle_error E_TOO_FEW_TOKENS s
           else if 2 < n then a3_handle_error E_TOO_MANY_TOKENS s
           else seq (copy_script h (args ! 1) s) (\<lambda>script s.
                seq (a3_run cfg h parse fuel script s) (\<lambda>ret s. Ret ret (clean_store h cwd s))))
        else if command = ''echo'' then
          (if 2 < n then a3_handle_error E_TOO_MANY_TOKENS s
           else if n < 2 then Undefined else a3_echo cfg (args ! 1) s)
        else if command = ''exec'' then
          (if n \<le> 1 then a3_handle_error E_TOO_FEW_TOKENS s
           else if 5 < n then a3_handle_error E_TOO_MANY_TOKENS s
           else seq (copy_scripts h (drop 1 args) s) (\<lambda>scripts s.
                seq (a3_exec cfg h parse fuel scripts ''RR'' s) (\<lambda>ret s. Ret ret (clean_store h cwd s))))
        else if command = ''resetmem'' then seq (attempt_do (reset_var_zone cfg s)) (\<lambda>_ s. Ret 0 s)
        else a3_fs_command fs args s)"

section \<open>The splitter (a3/shell.c)\<close>

definition strtok :: "string \<Rightarrow> string option \<times> string" where
  \<comment> \<open>\<open>strtok(str, ";")\<close>: the token and the string the next call continues with\<close>
  "strtok str =
     (let r = dropWhile (\<lambda>c. c = CHR '';'') str in
      if r = [] then (None, [])
      else (Some (takeWhile (\<lambda>c. c \<noteq> CHR '';'') r), drop 1 (dropWhile (\<lambda>c. c \<noteq> CHR '';'') r)))"

function a3_words :: "string \<Rightarrow> string list" where
  \<comment> \<open>every blank ends a word, so two in a row make an empty one\<close>
  "a3_words [] = []"
| "a3_words (c # cs) =
     takeWhile (\<lambda>c. c \<noteq> CHR '' '') (c # cs) # a3_words (drop 1 (dropWhile (\<lambda>c. c \<noteq> CHR '' '') (c # cs)))"
  by pat_completeness auto

termination
proof (relation "measure length", goal_cases)
  case (2 c cs)
  then show ?case using length_dropWhile_le [of "\<lambda>c. c \<noteq> CHR '' ''" cs] by (auto simp: less_Suc_eq_le)
qed simp

definition a3_split :: "string \<Rightarrow> string list" where
  "a3_split token = a3_words (dropWhile (\<lambda>c. c = CHR '' '') token)"

fun parse_sections ::
  "(string list \<Rightarrow> ('os, 'fs) a3 \<Rightarrow> ('os, 'fs) a3_call) \<Rightarrow> nat \<Rightarrow> string option \<Rightarrow> int \<Rightarrow> ('os, 'fs) a3 \<Rightarrow>
   ('os, 'fs) a3_call" where
  "parse_sections run 0 tok ret s = Unfinished"
| "parse_sections run (Suc n) tok ret s =
     (case tok of
        None \<Rightarrow> Ret ret s
      | Some token \<Rightarrow>
          require (length token < 1000 \<and> length (a3_split token) \<le> 100)
            (seq (run (a3_split token) s) (\<lambda>ret s.
              case strtok (strtok_rest s) of (tok, rest) \<Rightarrow>
                let s = s\<lparr>strtok_rest := rest\<rparr> in
                if ret = -1 then Ret ret s else parse_sections run n tok ret s)))"

fun a3_parseInput ::
  "a3_config \<Rightarrow> 'os host_ops \<Rightarrow> 'fs fs_ops \<Rightarrow> string \<Rightarrow> nat \<Rightarrow> string \<Rightarrow> ('os, 'fs) a3 \<Rightarrow> ('os, 'fs) a3_call" where
  "a3_parseInput cfg h fs cwd 0 ui s = Unfinished"
| "a3_parseInput cfg h fs cwd (Suc fuel) ui s =
     (case strtok ui of (tok, rest) \<Rightarrow>
        parse_sections (a3_interpreter cfg h fs cwd (a3_parseInput cfg h fs cwd fuel) fuel) (Suc fuel) tok 0
          (s\<lparr>strtok_rest := rest\<rparr>))"

section \<open>The read loop (main, a3/shell.c)\<close>

definition a3_freopen_tty :: "('os, 'fs) a3 \<Rightarrow> ('os, 'fs) a3" where
  "a3_freopen_tty s =
     (case a3_terminals s of
        [] \<Rightarrow> s\<lparr>a3_input := [], a3_interactive := False\<rparr>
      | t # ts \<Rightarrow> s\<lparr>a3_input := t, a3_terminals := ts, a3_interactive := True\<rparr>)"

definition a3_read :: "('os, 'fs) a3 \<Rightarrow> string \<times> ('os, 'fs) a3" where
  "a3_read s =
     (let s = (if a3_interactive s then printf ''$ '' s else s);
          (line, rest, eof) = fgets 999 (a3_input s);
          s = s\<lparr>a3_input := rest\<rparr>
      in (line, if eof then a3_freopen_tty s else s))"

fun a3_main_loop ::
  "a3_config \<Rightarrow> 'os host_ops \<Rightarrow> 'fs fs_ops \<Rightarrow> string \<Rightarrow> nat \<Rightarrow> nat \<Rightarrow> ('os, 'fs) a3 \<Rightarrow> ('os, 'fs) a3_call" where
  "a3_main_loop cfg h fs cwd 0 fuel s = Unfinished"
| "a3_main_loop cfg h fs cwd (Suc n) fuel s =
     (case a3_read s of (line, s) \<Rightarrow>
        seq (a3_parseInput cfg h fs cwd fuel line s) (\<lambda>errorCode s.
          if errorCode = -1 then Exit 99 s else a3_main_loop cfg h fs cwd n fuel s))"

definition a3_main ::
  "a3_config \<Rightarrow> 'os host_ops \<Rightarrow> 'fs fs_ops \<Rightarrow> string \<Rightarrow> string list \<Rightarrow> nat \<Rightarrow> nat \<Rightarrow> ('os, 'fs) a3 \<Rightarrow>
   ('os, 'fs) a3_call" where
  \<comment> \<open>\<open>argv\<close> without the name of the program, \<open>cwd\<close> what \<open>getcwd\<close> gives\<close>
  "a3_main cfg h fs cwd argv n fuel s =
     (case argv of
        [] \<Rightarrow> Ret 1 (puts ''Error: myshell must be called with the hard drive as argument. E.g., ./myshell myhd.dsk'' s)
      | hdisk # args \<Rightarrow>
          (let format = (args = [''-f'']);
               s = a3_system h ''rm -rf backing_store'' s;
               s = a3_system h ''mkdir backing_store'' s;
               s = puts ''Shell v2.1'' s;
               s = puts (''Frame Store Size = '' @ dec (frame_store_size cfg) @ ''; Variable Store Size = '' @
                         dec (var_store_size cfg)) s;
               s = kernel_setup (a3_mem_init cfg s)
           in seq (fs_do (fs_ide_init fs hdisk) s) (\<lambda>_ s.
              seq (fs_do (fs_filesys_init fs format) s) (\<lambda>_ s.
                a3_main_loop cfg h fs cwd n fuel s))))"

end
