(* ===== verification/A3_Exec.thy ===== *)
theory A3_Exec
  imports A3_Round_Robin A3_Shell
begin

text \<open>
  \<open>run\<close> and \<open>exec\<close> of assignment 3 from an idle kernel: loading the scripts makes the queue of the
  specification, with at most two pages of each script loaded, and \<open>run_proc_RR\<close> does the rest.
\<close>

section \<open>Scripts the kernel can count\<close>

text \<open>No blank lines, no newline at the end, and each line fits the buffer of \<open>fgets\<close>.\<close>

definition solid_script :: "string \<Rightarrow> string list \<Rightarrow> bool" where
  "solid_script c ls \<longleftrightarrow> file_lines c = ls \<and> last ls \<noteq> [] \<and> nl \<notin> set ls \<and> (\<forall>l \<in> set ls. length l < 998)"

lemma newlines_file_lines:
  "last (file_lines c) \<noteq> [] \<Longrightarrow> nl \<notin> set (tl (file_lines c)) \<Longrightarrow>
   newlines prev c = int (length (file_lines c)) - 1 - (if prev = CHR 0x0A \<and> hd (file_lines c) = nl then 1 else 0)"
proof (induction c arbitrary: prev)
  case Nil
  then show ?case by simp
next
  case (Cons a c)
  show ?case
  proof (cases "a = CHR 0x0A")
    case True
    then have l: "last (file_lines c) \<noteq> []" "nl \<notin> set (file_lines c)" using Cons.prems by simp_all
    have "nl \<notin> set (tl (file_lines c))" using l(2) by (cases "file_lines c") auto
    moreover have "hd (file_lines c) \<noteq> nl" using l(2) by (metis file_lines_not_Nil list.set_sel(1))
    ultimately show ?thesis using Cons.IH [OF l(1), of a] True by (simp add: nl_def)
  next
    case False
    obtain h t where ht: "file_lines c = h # t" by (metis file_lines_not_Nil list.exhaust)
    show ?thesis
    proof (cases "c = []")
      case True
      then show ?thesis using False ht by (auto simp: nl_def)
    next
      case c: False
      have "last (file_lines c) \<noteq> []"
      proof (cases t)
        case Nil
        then show ?thesis using ht c Cons.prems(1) False
          by (cases c) (auto split: if_splits)
      qed (use Cons.prems(1) ht False in auto)
      moreover have "nl \<notin> set (tl (file_lines c))" using Cons.prems(2) ht False by simp
      ultimately show ?thesis using Cons.IH [of a] False ht by (simp add: nl_def)
    qed
  qed
qed

lemma count_lines_solid: "solid_script c ls \<Longrightarrow> count_lines (Some c) = int (length ls)"
proof -
  assume s: "solid_script c ls"
  then have ls: "file_lines c = ls" "last ls \<noteq> []" "nl \<notin> set ls" by (simp_all add: solid_script_def)
  then have "ls \<noteq> []" by (metis file_lines_not_Nil)
  then have "nl \<notin> set (tl ls)" "hd ls \<noteq> nl" using ls(3) by (metis list.set_sel(2), metis list.set_sel(1))
  then show ?thesis using newlines_file_lines [of c "CHR 0x0A"] ls by (simp add: count_lines_def)
qed

lemma PAGE_table_size_lines: "nat (PAGE_table_size (int n)) = pages_for n"
proof -
  have "int n smod 3 = int (n mod 3)" "int n sdiv 3 = int (n div 3)"
    by (simp_all add: signed_modulo_int_def signed_divide_int_def zmod_int zdiv_int sgn_if)
  then have "PAGE_table_size (int n) = (if n mod 3 = 0 then int (n div 3) else int (n div 3) + 1)"
    by (simp add: PAGE_table_size_def)
  moreover have "pages_for n = (if n mod 3 = 0 then n div 3 else n div 3 + 1)" unfolding pages_for_def by presburger
  ultimately show ?thesis by (simp add: nat_add_distrib)
qed

lemma dec_length: "n < 10 ^ k \<Longrightarrow> 0 < k \<Longrightarrow> length (dec n) \<le> k"
proof (induction n arbitrary: k rule: dec.induct)
  case (1 n)
  show ?case
  proof (cases "n < 10")
    case True
    then show ?thesis using "1.prems" by (simp add: dec.simps [of n])
  next
    case False
    then obtain j where j: "k = Suc j" "0 < j" using "1.prems" by (cases k; cases "k - 1") auto
    then have "n div 10 < 10 ^ j" using "1.prems"(1) by (simp add: less_mult_imp_div_less mult.commute)
    then show ?thesis using "1.IH" [OF False _ j(2)] False j(1) by (simp add: dec.simps [of n])
  qed
qed

lemma pid_string_fits: "0 \<le> i \<Longrightarrow> i < 10 ^ 9 \<Longrightarrow> pid_string i \<noteq> None"
proof -
  assume i: "0 \<le> i" "i < 10 ^ 9"
  then have "nat i < 10 ^ 9" by (simp add: nat_less_iff)
  then have "length (dec (nat i)) \<le> 9" by (intro dec_length) simp_all
  then show ?thesis using i by (simp add: pid_string_def idec_def)
qed

section \<open>A new process\<close>

lemma proc_at_bound: "proc_at s p = Some q \<Longrightarrow> p < length (proc_heap s)"
  by (auto simp: proc_at_def bind_eq_Some_conv rd_Some)

lemma page_at_bound: "page_at s g = Some pg \<Longrightarrow> g < length (page_heap s)"
  by (auto simp: page_at_def bind_eq_Some_conv rd_Some)

lemma page_rep_bound: "page_rep s g b L i \<Longrightarrow> g < length (page_heap s)"
  using page_at_bound unfolding page_rep_def by blast

lemma pages_bound:
  assumes ts: "tasks_rep s ps A G" and p: "p \<in> set ps" and g: "g \<in> set (pages_of s p)"
  shows "g < length (page_heap s)"
proof -
  obtain L c k where A: "A p = (L, c, k)" by (cases "A p") auto
  obtain q :: process where q: "pages_of s p = proc_pages q" "length (proc_pages q) = pages_for (length L)"
    "\<forall>i < pages_for (length L). page_rep s (proc_pages q ! i) (i < k) L i"
    by (rule task_facts [OF ts p A]) (rule that)
  then obtain i where "i < pages_for (length L)" "g = proc_pages q ! i" using g by (auto simp: in_set_conv_nth)
  then show ?thesis using q(3) page_rep_bound by blast
qed

definition created :: "string \<Rightarrow> string list \<Rightarrow> int \<Rightarrow> ('os, 'fs) a3 \<Rightarrow> ('os, 'fs) a3" where
  \<comment> \<open>the new process without its first pages loaded\<close>
  "created c L pid s = s\<lparr>page_heap := page_heap s @ map (\<lambda>i. Some (PAGE_init pid i)) [0..<pages_for (length L)],
     a3_files := a3_files s @ [\<lparr>st_text = c, st_pos = 0, st_eof = False\<rparr>],
     proc_heap := proc_heap s @ [Some \<lparr>proc_pid = pid, proc_size = int (length L),
       program_counter = replicate (pages_for (length L)) 0,
       proc_pages = [length (page_heap s)..<length (page_heap s) + pages_for (length L)], source_file = length (a3_files s)\<rparr>]\<rparr>"

lemma created_fields:
  fixes s :: "('os, 'fs) a3"
  shows "a3_memory (created c L pid s) = a3_memory s" "lists_rep (created c L pid s) qs ps gs = lists_rep s qs ps gs"
    "user_part cfg (created c L pid s) = user_part cfg s" "PID_counter (created c L pid s) = PID_counter s"
  by (simp_all add: created_def lists_rep_def ll_rep_def ll_data_def user_part_def)

lemma created_at:
  "proc_at s p = Some q \<Longrightarrow> proc_at (created c L pid s) p = Some q"
  "page_at s g = Some pg \<Longrightarrow> page_at (created c L pid s) g = Some pg"
  "f < length (a3_files s) \<Longrightarrow> a3_files (created c L pid s) ! f = a3_files s ! f"
  "i < pages_for (length L) \<Longrightarrow> page_at (created c L pid s) (length (page_heap s) + i) = Some (PAGE_init pid i)"
  by (auto simp: created_def proc_at_def page_at_def bind_eq_Some_conv rd_def nth_append split: if_splits)

lemma created_own:
  "proc_at (created c L pid s) (length (proc_heap s)) = Some \<lparr>proc_pid = pid, proc_size = int (length L),
     program_counter = replicate (pages_for (length L)) 0,
     proc_pages = [length (page_heap s)..<length (page_heap s) + pages_for (length L)], source_file = length (a3_files s)\<rparr>"
  by (simp add: created_def proc_at_def rd_def)

lemma page_rep_created: "page_rep s g b L' i \<Longrightarrow> page_rep (created c L pid s) g b L' i"
proof -
  assume r: "page_rep s g b L' i"
  then obtain pg where "page_at s g = Some pg" unfolding page_rep_def by blast
  then have "page_at (created c L pid s) g = page_at s g" using created_at(2) by metis
  then show ?thesis by (rule page_rep_keep [OF r]) (simp_all add: created_fields(1))
qed

lemma created_others:
  assumes ts: "tasks_rep s ps A G" and p: "p \<in> set ps"
  shows "task_rep (created c L pid s) p (A p) \<and> pages_of (created c L pid s) p = pages_of s p \<and>
    source_of (created c L pid s) p = source_of s p \<and> source_of s p < length (a3_files s) \<and> p \<noteq> length (proc_heap s)"
proof -
  obtain L' c' k where A: "A p = (L', c', k)" by (cases "A p") auto
  have t: "task_rep s p (L', c', k)" using ts p A by (auto simp: tasks_rep_def)
  then obtain q where q: "proc_at s p = Some q" by auto
  then have q': "proc_at (created c L pid s) p = Some q" by (rule created_at)
  have po: "pages_of (created c L pid s) p = pages_of s p" "source_of (created c L pid s) p = source_of s p"
    using q q' by (simp_all add: pages_of_def source_of_def)
  have f: "source_file q < length (a3_files s)" using t q by simp
  then have so: "source_of s p < length (a3_files s)" using q by (simp add: source_of_def)
  have ne: "p \<noteq> length (proc_heap s)" using proc_at_bound [OF q] by simp
  have "length (a3_files (created c L pid s)) = Suc (length (a3_files s))" by (simp add: created_def)
  moreover have "\<forall>i < pages_for (length L'). page_rep s (proc_pages q ! i) (i < k) L' i" using t q by simp
  then have "\<forall>i < pages_for (length L'). page_rep (created c L pid s) (proc_pages q ! i) (i < k) L' i"
    using page_rep_created by blast
  ultimately have "task_rep (created c L pid s) p (A p)"
    using t q q' f created_at(3) [OF f] by (simp add: A)
  then show ?thesis using po so ne by blast
qed

lemma solid_left_in: "solid_script c L \<Longrightarrow> left_in 999 \<lparr>st_text = c, st_pos = 0, st_eof = False\<rparr> L"
  by (auto simp: solid_script_def left_in_def reads_def)

lemma created_task:
  assumes "solid_script c L" and "pid_string pid \<noteq> None"
  shows "task_rep (created c L pid s) (length (proc_heap s)) (L, 0, 0)"
proof -
  have "page_rep (created c L pid s) (length (page_heap s) + i) (i < 0) L i" if "i < pages_for (length L)" for i
    using created_at(4) [OF that, of c pid s] by (auto simp: page_rep_def PAGE_init_def nth_Cons')
  moreover have "counters (length L) 0 = replicate (pages_for (length L)) 0"
    by (simp add: counters_def map_replicate_const)
  moreover have "length (a3_files s) < length (a3_files (created c L pid s))"
    "a3_files (created c L pid s) ! length (a3_files s) = \<lparr>st_text = c, st_pos = 0, st_eof = False\<rparr>"
    by (simp_all add: created_def)
  ultimately show ?thesis
    using created_own [of c L pid s] solid_left_in [OF assms(1)] assms(2) by simp
qed

lemma created_rep:
  assumes fr: "frames_rep cfg s ps G" and ts: "tasks_rep s ps A G" and c: "solid_script c L" "pid_string pid \<noteq> None"
  defines "p \<equiv> length (proc_heap s)" and "t \<equiv> created c L pid s"
  shows "frames_rep cfg t (ps @ [p]) G" and "tasks_rep t (ps @ [p]) (A(p := (L, 0, 0))) G" and "p \<notin> set ps"
    and "concat (map (pages_of t) (ps @ [p])) = concat (map (pages_of s) ps) @ pages_of t p"
    and "pages_of t p = [length (page_heap s)..<length (page_heap s) + pages_for (length L)]"
proof -
  have other: "task_rep t p' (A p')" "pages_of t p' = pages_of s p'" "source_of t p' = source_of s p'"
    "source_of s p' < length (a3_files s)" "p' \<noteq> p" if "p' \<in> set ps" for p'
    using created_others [OF ts that, of c L pid] by (simp_all add: t_def p_def)
  show p: "p \<notin> set ps" using other(5) by (auto simp: p_def)
  show own: "pages_of t p = [length (page_heap s)..<length (page_heap s) + pages_for (length L)]"
    using created_own [of c L pid s] by (simp add: pages_of_def p_def t_def)
  have src: "source_of t p = length (a3_files s)" using created_own [of c L pid s] by (simp add: source_of_def p_def t_def)
  have po: "map (pages_of t) ps = map (pages_of s) ps" using other(2) by simp
  show all: "concat (map (pages_of t) (ps @ [p])) = concat (map (pages_of s) ps) @ pages_of t p"
    unfolding map_append concat_append po by simp
  have low: "\<forall>g \<in> set (concat (map (pages_of s) ps)). g < length (page_heap s)" using pages_bound [OF ts] by auto
  have lowG: "\<forall>g \<in> set G. g < length (page_heap s)" using fr low by (auto simp: frames_rep_def)
  have G: "page_at t g = page_at s g" if g: "g \<in> set G" for g
  proof -
    obtain pg where "page_at s g = Some pg" by (rule page_of_rep [OF fr g])
    then show ?thesis using created_at(2) t_def by metis
  qed
  have "inj_on (frame_of t) (set G) = inj_on (frame_of s) (set G)"
    by (rule inj_on_cong) (simp add: frame_of_def G)
  moreover have "\<Union> (set ` pages_of t ` set (ps @ [p])) = \<Union> (set ` pages_of s ` set ps) \<union> set (pages_of t p)"
    using other(2) by auto
  ultimately show "frames_rep cfg t (ps @ [p]) G"
    using fr G by (auto simp: frames_rep_def created_fields(1) t_def)
  have "distinct (concat (map (pages_of t) (ps @ [p])))"
    using ts low unfolding all own by (fastforce simp: tasks_rep_def)
  moreover have "inj_on (source_of t) (set (ps @ [p]))"
  proof -
    have "inj_on (source_of t) (set ps)" using ts other(3) by (auto simp: tasks_rep_def inj_on_def)
    moreover have "source_of t p \<notin> source_of t ` (set ps - {p})" using other(3,4) src by fastforce
    ultimately show ?thesis by simp
  qed
  moreover have "task_rep t p' ((A(p := (L, 0, 0))) p') \<and>
      (\<forall>i < length (pages_of t p'). pages_of t p' ! i \<in> set G \<longleftrightarrow> i < snd (snd ((A(p := (L, 0, 0))) p')))"
    if p': "p' \<in> set (ps @ [p])" for p'
  proof (cases "p' = p")
    case True
    have "length (page_heap s) + i \<notin> set G" for i using lowG by fastforce
    then show ?thesis using True created_task [OF c, of s] own by (simp add: p_def t_def)
  next
    case False
    then have "p' \<in> set ps" using p' by simp
    then show ?thesis using False other(1,2) ts by (auto simp: tasks_rep_def)
  qed
  ultimately show "tasks_rep t (ps @ [p]) (A(p := (L, 0, 0))) G"
    using ts p unfolding tasks_rep_def by auto
qed

section \<open>The first pages\<close>

lemma only_loaded_trans:
  assumes "only_loaded cfg s s'" and "only_loaded cfg s' s''" shows "only_loaded cfg s s''"
proof -
  obtain m g f where 1: "s' = s\<lparr>a3_memory := m, page_heap := g, a3_files := f\<rparr>" "length m = length (a3_memory s)"
    "drop (frame_store_size cfg) m = drop (frame_store_size cfg) (a3_memory s)"
    using assms(1) unfolding only_loaded_def by blast
  obtain m' g' f' where 2: "s'' = s'\<lparr>a3_memory := m', page_heap := g', a3_files := f'\<rparr>" "length m' = length (a3_memory s')"
    "drop (frame_store_size cfg) m' = drop (frame_store_size cfg) (a3_memory s')"
    using assms(2) unfolding only_loaded_def by blast
  have "s'' = s\<lparr>a3_memory := m', page_heap := g', a3_files := f'\<rparr>" by (simp add: 2(1)) (simp add: 1(1))
  moreover have "length m' = length (a3_memory s)" "drop (frame_store_size cfg) m' = drop (frame_store_size cfg) (a3_memory s)"
    using 1 2(2,3) by simp_all
  ultimately show ?thesis unfolding only_loaded_def by blast
qed

lemma only_loaded_refl [simp]: "only_loaded cfg s s"
  unfolding only_loaded_def
  by (rule exI [of _ "a3_memory s"], rule exI [of _ "page_heap s"], rule exI [of _ "a3_files s"]) simp

lemma load_first_pages_rep:
  assumes "frames_rep cfg s ps G" and "tasks_rep s ps A G" and "p \<in> set ps" and "A p = (L, c, k)"
    and "k \<le> m" and "m \<le> pages_for (length L)" and "3 * length (concat (map (pages_of s) ps)) \<le> frame_store_size cfg"
  shows "\<exists>s' G'. load_first_pages cfg p [k..<m] s = Ret () s' \<and> frames_rep cfg s' ps G' \<and>
    G' = rev (map ((!) (pages_of s p)) [k..<m]) @ G \<and> tasks_rep s' ps (A(p := (L, c, m))) G' \<and> only_loaded cfg s s' \<and>
    pages_of s' = pages_of s \<and> proc_at s' = proc_at s"
  using assms
proof (induction "m - k" arbitrary: k s A G)
  case 0
  then have "[k..<m] = []" "A(p := (L, c, m)) = A" by (simp_all add: fun_upd_idem)
  then show ?case using 0 by (intro exI [of _ s] exI [of _ G]) simp
next
  case (Suc d)
  then have k: "k < m" "[k..<m] = k # [Suc k..<m]" by (simp_all add: upt_conv_Cons)
  have k': "k < pages_for (length L)" using k Suc.prems(6) by simp
  let ?g = "pages_of s p ! k"
  obtain s1 where s1: "load_PAGE cfg p k s = Some (0, s1)" "frames_rep cfg s1 ps (?g # G)"
    "tasks_rep s1 ps (A(p := (L, c, Suc k))) (?g # G)" "only_loaded cfg s s1" "pages_of s1 = pages_of s" "proc_at s1 = proc_at s"
    using load_PAGE_rep [OF Suc.prems(1-4) k' Suc.prems(7)] by blast
  have h: "d = m - Suc k" "(A(p := (L, c, Suc k))) p = (L, c, Suc k)" "Suc k \<le> m"
    "3 * length (concat (map (pages_of s1) ps)) \<le> frame_store_size cfg"
    using Suc.hyps(2) Suc.prems(7) s1(5) k by simp_all
  obtain s' G' where s': "load_first_pages cfg p [Suc k..<m] s1 = Ret () s'" "frames_rep cfg s' ps G'"
    "G' = rev (map ((!) (pages_of s1 p)) [Suc k..<m]) @ ?g # G" "tasks_rep s' ps ((A(p := (L, c, Suc k)))(p := (L, c, m))) G'"
    "only_loaded cfg s1 s'" "pages_of s' = pages_of s1" "proc_at s' = proc_at s1"
    using Suc.hyps(1) [OF h(1) s1(2,3) Suc.prems(3) h(2,3) Suc.prems(6) h(4)] by blast
  have "load_first_pages cfg p [k..<m] s = Ret () s'" using k(2) s1(1) s'(1) by simp
  moreover have "G' = rev (map ((!) (pages_of s p)) [k..<m]) @ G" using s'(3) s1(5) k(2) by simp
  moreover have "tasks_rep s' ps (A(p := (L, c, m))) G'" using s'(4) by simp
  moreover have "only_loaded cfg s s'" by (rule only_loaded_trans [OF s1(4) s'(5)])
  moreover have "pages_of s' = pages_of s" "proc_at s' = proc_at s" using s'(6,7) s1(5,6) by simp_all
  ultimately show ?case using s'(2) by blast
qed

lemma add_pages_rep:
  "lists_rep s qs ps gs \<Longrightarrow> \<exists>s'. add_pages xs s = Some s' \<and> lists_rep s' qs ps (rev xs @ gs) \<and> only_lists s s'"
proof (induction xs arbitrary: s gs)
  case (Cons x xs)
  obtain s1 where s1: "most_recent x s = Some s1" "lists_rep s1 qs ps (x # gs)" "only_lists s s1"
    using most_recent_rep [OF Cons.prems] by blast
  obtain s2 where s2: "add_pages xs s1 = Some s2" "lists_rep s2 qs ps (rev xs @ x # gs)" "only_lists s1 s2"
    using Cons.IH [OF s1(2)] by blast
  then show ?case using s1 only_lists_trans by auto
qed (use only_lists_refl in auto)

definition first_task :: "string list \<Rightarrow> task" where
  "first_task L = (L, 0, min 2 (pages_for (length L)))"

lemma PCB_init_created:
  assumes "solid_script c L"
  shows "PCB_init cfg (Some c) pid script s =
    seq (load_first_pages cfg (length (proc_heap s)) [0..<min 2 (pages_for (length L))] (created c L pid s))
      (\<lambda>_ s'. Ret (length (proc_heap s)) s')"
  using count_lines_solid [OF assms] by (simp add: PCB_init_def PAGE_table_size_lines created_def Let_def)

lemma new_proc_rep:
  assumes kr: "kernel_rep cfg s qs ps A G" and c: "os_open_read h script (a3_host s) = Some c" "solid_script c L"
    and pid: "0 \<le> PID_counter s" "PID_counter s < 10 ^ 9"
    and room: "3 * (length (concat (map (pages_of s) ps)) + pages_for (length L)) + 2 \<le> frame_store_size cfg"
  shows "\<exists>s' G' p. new_proc cfg h script s = Ret 0 s' \<and> p \<notin> set ps \<and>
    kernel_rep cfg s' (qs @ [p]) (ps @ [p]) (A(p := first_task L)) G' \<and> user_part cfg s' = user_part cfg s \<and>
    PID_counter s' = PID_counter s + 1 \<and>
    length (concat (map (pages_of s') (ps @ [p]))) = length (concat (map (pages_of s) ps)) + pages_for (length L)"
proof -
  define s0 where "s0 = s\<lparr>PID_counter := PID_counter s + 1\<rparr>"
  define p where "p = length (proc_heap s0)"
  define t where "t = created c L (PID_counter s) s0"
  define m where "m = min 2 (pages_for (length L))"
  have h0: "page_heap s0 = page_heap s" "proc_heap s0 = proc_heap s" "a3_files s0 = a3_files s"
    "length (a3_memory s0) = length (a3_memory s)" "\<forall>x < frame_store_size cfg. a3_memory s0 ! x = a3_memory s ! x"
    by (simp_all add: s0_def)
  have fr: "frames_rep cfg s ps G" and ts: "tasks_rep s ps A G" and li: "lists_rep s qs ps G" and dq: "distinct qs" "set qs \<subseteq> set ps"
    using kr by (simp_all add: kernel_rep_def)
  note r0 = rep_cong [OF h0 fr]
  have u0: "user_part cfg s0 = user_part cfg s" "lists_rep s0 qs ps G"
    using li by (simp_all add: s0_def user_part_def lists_rep_def ll_rep_def ll_data_def)
  have pid': "pid_string (PID_counter s) \<noteq> None" by (rule pid_string_fits [OF pid])
  have cr: "frames_rep cfg t (ps @ [p]) G" "tasks_rep t (ps @ [p]) (A(p := (L, 0, 0))) G" "p \<notin> set ps"
    "concat (map (pages_of t) (ps @ [p])) = concat (map (pages_of s) ps) @ pages_of t p"
    "length (pages_of t p) = pages_for (length L)"
    using created_rep [OF r0(1) r0(2) [OF ts] c(2) pid'] r0(3) by (simp_all add: t_def p_def)
  have len: "length (concat (map (pages_of t) (ps @ [p]))) = length (concat (map (pages_of s) ps)) + pages_for (length L)"
    unfolding cr(4) by (simp add: cr(5))
  have ap: "(A(p := (L, 0, 0))) p = (L, 0, 0)" by simp
  have m: "0 \<le> m" "m \<le> pages_for (length L)" by (simp_all add: m_def)
  have rm: "3 * length (concat (map (pages_of t) (ps @ [p]))) \<le> frame_store_size cfg" using room len by simp
  have pin: "p \<in> set (ps @ [p])" by simp
  obtain s1 G' where s1: "load_first_pages cfg p [0..<m] t = Ret () s1" "frames_rep cfg s1 (ps @ [p]) G'"
    "G' = rev (map ((!) (pages_of t p)) [0..<m]) @ G" "tasks_rep s1 (ps @ [p]) ((A(p := (L, 0, 0)))(p := (L, 0, m))) G'"
    "only_loaded cfg t s1" "pages_of s1 = pages_of t" "proc_at s1 = proc_at t"
    using load_first_pages_rep [OF cr(1,2) pin ap m rm] by blast
  have l1: "lists_rep s1 qs ps G" using lists_rep_loaded [OF s1(5)] created_fields(2) u0(2) t_def by metis
  obtain s2 where s2: "register p s1 = Some s2" "lists_rep s2 qs (ps @ [p]) G" "only_lists s1 s2"
    using register_rep [OF l1] by blast
  obtain s3 where s3: "enqueue p s2 = Some s3" "lists_rep s3 (qs @ [p]) (ps @ [p]) G" "only_lists s2 s3"
    using enqueue_rep [OF s2(2)] by blast
  let ?xs = "map ((!) (pages_of t p)) [0..<m]"
  obtain s4 where s4: "add_pages ?xs s3 = Some s4" "lists_rep s4 (qs @ [p]) (ps @ [p]) (rev ?xs @ G)" "only_lists s3 s4"
    using add_pages_rep [OF s3(2)] by blast
  have o: "only_lists s1 s4" using s2(3) s3(3) s4(3) only_lists_trans by blast
  obtain q where q: "proc_at t p = Some q" "pages_of t p = proc_pages q"
    using created_own [of c L "PID_counter s" s0] by (simp add: pages_of_def t_def p_def)
  have "?xs = take m (proc_pages q)" using cr(5) q(2) m(2) by (intro nth_equalityI) simp_all
  also have "\<dots> = take 2 (proc_pages q)" using cr(5) q(2) by (auto simp: m_def min_def)
  finally have xs: "?xs = take 2 (proc_pages q)" .
  have "PCB_init cfg (Some c) (PID_counter s) script s0 = Ret p s1"
    using s1(1) by (simp add: PCB_init_created [OF c(2)] t_def p_def m_def)
  moreover have "proc_at s3 p = Some q"
    using q(1) s1(7) only_lists_fields(8) [OF only_lists_trans [OF s2(3) s3(3)]] by simp
  ultimately have run: "new_proc cfg h script s = Ret 0 s4"
    using s2(1) s3(1) s4(1) c(1) xs by (simp add: new_proc_def s0_def)
  have "kernel_rep cfg s4 (qs @ [p]) (ps @ [p]) (A(p := first_task L)) G'"
  proof -
    have "tasks_rep s1 (ps @ [p]) (A(p := first_task L)) G'" using s1(4) by (simp add: first_task_def m_def)
    moreover have "pages_of s4 = pages_of t" using rep_only_lists(3) [OF o s1(2)] s1(6) by simp
    moreover have "distinct (qs @ [p])" using dq cr(3) by auto
    ultimately show ?thesis
      using rep_only_lists(1,2) [OF o s1(2)] s4(2) s1(3) dq len room by (auto simp: kernel_rep_def)
  qed
  moreover have "user_part cfg s4 = user_part cfg s"
    using user_only_lists [OF o] user_only_loaded [OF s1(5)] u0(1) created_fields(3) t_def by metis
  moreover have "PID_counter s4 = PID_counter s + 1"
  proof -
    have "PID_counter s4 = PID_counter s1" using only_lists_fields(5) [OF o] .
    also have "\<dots> = PID_counter t" using s1(5) by (auto simp: only_loaded_def)
    finally show ?thesis by (simp add: t_def created_fields(4) s0_def)
  qed
  moreover have "pages_of s4 = pages_of t" using rep_only_lists(3) [OF o s1(2)] s1(6) by simp
  ultimately show ?thesis using run cr(3) len by metis
qed

section \<open>From an idle kernel to an idle kernel\<close>

definition opens_as :: "'os host_ops \<Rightarrow> 'os \<Rightarrow> string \<Rightarrow> string list \<Rightarrow> bool" where
  "opens_as h os script L \<longleftrightarrow> (\<exists>c. os_open_read h script os = Some c \<and> solid_script c L)"

lemma a3_host_user: "user_part cfg s' = user_part cfg s \<Longrightarrow> a3_host s' = a3_host s"
proof -
  assume "user_part cfg s' = user_part cfg s"
  then have "a3_host (user_part cfg s') = a3_host (user_part cfg s)" by simp
  then show ?thesis by (simp add: user_part_def Let_def)
qed

lemma new_procs_rep:
  assumes "kernel_rep cfg s qs ps A G" and "list_all2 (opens_as h (a3_host s)) scripts Ls"
    and "0 \<le> PID_counter s" and "PID_counter s + int (length scripts) < 10 ^ 9"
    and "3 * (length (concat (map (pages_of s) ps)) + (\<Sum>L \<leftarrow> Ls. pages_for (length L))) + 2 \<le> frame_store_size cfg"
  shows "\<exists>s' G' qs' A'. new_procs cfg h scripts s = Ret 0 s' \<and> kernel_rep cfg s' (qs @ qs') (ps @ qs') A' G' \<and>
    map A' (qs @ qs') = map A qs @ map first_task Ls \<and> (\<forall>p \<in> set ps. A' p = A p) \<and> user_part cfg s' = user_part cfg s"
  using assms
proof (induction scripts arbitrary: s qs ps A G Ls)
  case Nil
  show ?case
    by (rule exI [of _ s], rule exI [of _ G], rule exI [of _ "[]"], rule exI [of _ A]) (use Nil in simp)
next
  case (Cons f fs)
  from Cons.prems(2) obtain L Ls' where Ls: "Ls = L # Ls'" "opens_as h (a3_host s) f L" "list_all2 (opens_as h (a3_host s)) fs Ls'"
    by (auto simp: list_all2_Cons1)
  obtain c where c: "os_open_read h f (a3_host s) = Some c" "solid_script c L" using Ls(2) by (auto simp: opens_as_def)
  have pid: "PID_counter s < 10 ^ 9" using Cons.prems(4) by simp
  have room: "3 * (length (concat (map (pages_of s) ps)) + pages_for (length L)) + 2 \<le> frame_store_size cfg"
    using Cons.prems(5) Ls(1) by simp
  obtain s1 G1 p where s1: "new_proc cfg h f s = Ret 0 s1" "p \<notin> set ps"
    "kernel_rep cfg s1 (qs @ [p]) (ps @ [p]) (A(p := first_task L)) G1" "user_part cfg s1 = user_part cfg s"
    "PID_counter s1 = PID_counter s + 1"
    "length (concat (map (pages_of s1) (ps @ [p]))) = length (concat (map (pages_of s) ps)) + pages_for (length L)"
    using new_proc_rep [OF Cons.prems(1) c Cons.prems(3) pid room] by blast
  have host: "a3_host s1 = a3_host s" by (rule a3_host_user [OF s1(4)])
  have "3 * (length (concat (map (pages_of s1) (ps @ [p]))) + (\<Sum>L \<leftarrow> Ls'. pages_for (length L))) + 2 \<le> frame_store_size cfg"
    using Cons.prems(5) s1(6) Ls(1) by simp
  from Cons.IH [OF s1(3) _ _ _ this] obtain s' G' qs' A' where s': "new_procs cfg h fs s1 = Ret 0 s'"
    "kernel_rep cfg s' ((qs @ [p]) @ qs') ((ps @ [p]) @ qs') A' G'"
    "map A' ((qs @ [p]) @ qs') = map (A(p := first_task L)) (qs @ [p]) @ map first_task Ls'"
    "\<forall>p' \<in> set (ps @ [p]). A' p' = (A(p := first_task L)) p'" "user_part cfg s' = user_part cfg s1"
    using Ls(3) host s1(5) Cons.prems(3,4) by auto
  have qp: "p \<notin> set qs" using Cons.prems(1) s1(2) by (auto simp: kernel_rep_def)
  have "map (A(p := first_task L)) (qs @ [p]) = map A qs @ [first_task L]" using qp by auto
  then have "map A' (qs @ p # qs') = map A qs @ map first_task Ls" using s'(3) Ls(1) by simp
  moreover have "\<forall>p' \<in> set ps. A' p' = A p'" using s'(4) s1(2) by auto
  ultimately show ?case
    using s1(1,4) s'(1,2,5)
    by - (rule exI [of _ s'], rule exI [of _ G'], rule exI [of _ "p # qs'"], rule exI [of _ A'], simp)
qed

lemma loaded_scripts:
  assumes "idle cfg s" and "list_all2 (opens_as h (a3_host s)) scripts Ls"
    and "0 \<le> PID_counter s" and "PID_counter s + int (length scripts) < 10 ^ 9"
    and "3 * (\<Sum>L \<leftarrow> Ls. pages_for (length L)) + 2 \<le> frame_store_size cfg"
    and "\<forall>L \<in> set Ls. runs_quietly cfg parse F L" and "(\<Sum>L \<leftarrow> Ls. task_weight (first_task L)) < fuel"
  shows "\<exists>s1 s'. new_procs cfg h scripts s = Ret 0 s1 \<and> run_proc_RR cfg parse fuel s1 = Ret 0 s' \<and> idle cfg s' \<and>
    user_part cfg s' = fold F (rr_order (map first_task Ls)) (user_part cfg s)"
proof -
  let ?A = "\<lambda>_. ([], 0, 0)"
  have kr: "kernel_rep cfg s [] [] ?A []" using assms(1) unfolding idle_rep [of cfg s ?A] .
  have room: "3 * (length (concat (map (pages_of s) [])) + (\<Sum>L \<leftarrow> Ls. pages_for (length L))) + 2 \<le> frame_store_size cfg"
    using assms(5) by simp
  obtain s1 G1 qs A where s1: "new_procs cfg h scripts s = Ret 0 s1" "kernel_rep cfg s1 qs qs A G1"
    "map A qs = map first_task Ls" "user_part cfg s1 = user_part cfg s"
    using new_procs_rep [OF kr assms(2-4) room] by auto
  have "\<forall>p \<in> set qs. runs_quietly cfg parse F (fst (A p))"
  proof
    fix p assume "p \<in> set qs"
    then have "A p \<in> set (map first_task Ls)" using s1(3) by (metis image_eqI list.set_map)
    then show "runs_quietly cfg parse F (fst (A p))" using assms(6) by (auto simp: first_task_def)
  qed
  moreover have "sum_list (map task_weight (map A qs)) < fuel" using assms(7) unfolding s1(3) by (simp add: comp_def)
  ultimately obtain s' where "run_proc_RR cfg parse fuel s1 = Ret 0 s'" "idle cfg s'"
    "user_part cfg s' = fold F (rr_order (map A qs)) (user_part cfg s1)"
    using rr_main [OF s1(2)] by blast
  then show ?thesis using s1 by auto
qed

section \<open>The order of the lines\<close>

lemma rr_order_all: "mset (rr_order ts) = (\<Sum>t \<leftarrow> ts. mset (drop (fst (snd t)) (fst t)))"
proof (induction ts rule: rr_order.induct)
  case (2 L c k ts)
  consider "length L \<le> c" | "c < length L" "3 * k \<le> c" | "Suc c = length L" "\<not> 3 * k \<le> c"
    | "Suc c < length L" "\<not> 3 * k \<le> c" "3 * k \<le> Suc c" | "Suc c < length L" "\<not> 3 * k \<le> c" "\<not> 3 * k \<le> Suc c"
    by linarith
  then show ?case
  proof cases
    case 3
    then show ?thesis using 2 by (simp add: rr_order.simps(2) Cons_nth_drop_Suc [symmetric])
  next
    case 4
    then show ?thesis using 2 by (simp add: rr_order.simps(2) Cons_nth_drop_Suc [symmetric, of c])
  next
    case 5
    then have "drop c L = L ! c # L ! Suc c # drop (c + 2) L" by (simp add: Cons_nth_drop_Suc)
    then show ?thesis using 5 2 by (simp add: rr_order.simps(2))
  qed (use 2 in \<open>simp_all add: rr_order.simps(2)\<close>)
qed simp

end
