(* ===== verification/A3_Props.thy ===== *)
theory A3_Props
  imports A3_Exec A1_Props "HOL-Library.Sublist"
begin

text \<open>
  What the kernel and the shell of assignment 3 guarantee: \<open>exec\<close> runs every line of its scripts once, in
  the order of the round-robin specification, and leaves the kernel idle; \<open>run\<close> is that for one script.
  The first part shows which lines the actual parser runs quietly, for the concrete instances.
\<close>

section \<open>Lines of one command\<close>

lemma a3_words_join:
  "ws \<noteq> [] \<Longrightarrow> \<forall>w \<in> set ws. CHR '' '' \<notin> set w \<Longrightarrow> last ws \<noteq> [] \<Longrightarrow> a3_words (join_with '' '' ws) = ws"
proof (induction ws rule: induct_list012)
  case (2 w)
  then have "takeWhile (\<lambda>c. c \<noteq> CHR '' '') w = w" "dropWhile (\<lambda>c. c \<noteq> CHR '' '') w = []"
    by (auto simp: takeWhile_eq_all_conv dropWhile_eq_Nil_conv)
  then show ?case using 2 by (cases w) (simp_all only: join_with.simps a3_words.simps drop_Nil last_ConsL simp_thms list.simps)
next
  case (3 w v ws)
  let ?rest = "join_with '' '' (v # ws)"
  have nb: "\<forall>c \<in> set w. c \<noteq> CHR '' ''" using "3.prems" by auto
  then have t: "takeWhile (\<lambda>c. c \<noteq> CHR '' '') (w @ CHR '' '' # ?rest) = w"
    "dropWhile (\<lambda>c. c \<noteq> CHR '' '') (w @ CHR '' '' # ?rest) = CHR '' '' # ?rest"
    by (simp_all add: takeWhile_append2 dropWhile_append2)
  obtain c cs where c: "w @ CHR '' '' # ?rest = c # cs" by (cases w) auto
  have "a3_words (w @ CHR '' '' # ?rest) = w # a3_words ?rest"
    using t unfolding c by (simp only: a3_words.simps drop_Suc_Cons drop_0 One_nat_def)
  then show ?case using "3.IH"(2) "3.prems" by simp
qed simp

lemma a3_split_join:
  assumes "ws \<noteq> []" and "\<forall>w \<in> set ws. CHR '' '' \<notin> set w" and "last ws \<noteq> []" and "hd ws \<noteq> []"
  shows "a3_split (join_with '' '' ws) = ws"
proof -
  obtain w vs where ws: "ws = w # vs" using assms(1) by (cases ws) auto
  then obtain c cs where w: "w = c # cs" using assms(4) by (cases w) auto
  have "c \<noteq> CHR '' ''" using assms(2) ws w by auto
  then have "dropWhile (\<lambda>c. c = CHR '' '') (join_with '' '' ws) = join_with '' '' ws"
    by (simp add: ws w join_with_Cons)
  then show ?thesis using a3_words_join [OF assms(1-3)] by (simp add: a3_split_def)
qed

lemma strtok_whole:
  assumes "CHR '';'' \<notin> set l" and "l \<noteq> []" shows "strtok l = (Some l, [])"
proof -
  obtain c cs where l: "l = c # cs" using assms(2) by (cases l) auto
  then have "dropWhile (\<lambda>c. c = CHR '';'') l = l" using assms(1) by auto
  moreover have "takeWhile (\<lambda>c. c \<noteq> CHR '';'') l = l" "dropWhile (\<lambda>c. c \<noteq> CHR '';'') l = []"
    using assms(1) by (auto simp: takeWhile_eq_all_conv dropWhile_eq_Nil_conv)
  ultimately show ?thesis using assms(2) unfolding strtok_def Let_def by (simp only: if_False drop_Nil)
qed

definition one_command :: "string list \<Rightarrow> bool" where
  "one_command ws \<longleftrightarrow> ws \<noteq> [] \<and> (\<forall>w \<in> set ws. CHR '' '' \<notin> set w \<and> CHR '';'' \<notin> set w) \<and> last ws \<noteq> [] \<and> hd ws \<noteq> [] \<and>
     length (join_with '' '' ws) < 1000 \<and> length ws \<le> 100"

lemma parse_one_command:
  assumes "one_command ws"
    and "a3_interpreter cfg h fs cwd (a3_parseInput cfg h fs cwd (Suc n)) (Suc n) ws (s\<lparr>strtok_rest := []\<rparr>) = Ret ret t"
    and "strtok_rest t = []"
  shows "a3_parseInput cfg h fs cwd (Suc (Suc n)) (join_with '' '' ws) s = Ret ret t"
proof -
  let ?l = "join_with '' '' ws"
  have ws: "ws \<noteq> []" "\<forall>w \<in> set ws. CHR '' '' \<notin> set w" "last ws \<noteq> []" "hd ws \<noteq> []" "\<forall>w \<in> set ws. CHR '';'' \<notin> set w"
    "length ?l < 1000" "length ws \<le> 100"
    using assms(1) by (auto simp: one_command_def)
  have "?l \<noteq> []" using ws(1,4) by (cases ws) (auto simp: join_with_Cons)
  moreover have "CHR '';'' \<notin> set ?l" using ws(1,5) by (cases ws) (auto simp: join_with_Cons)
  ultimately have s: "strtok ?l = (Some ?l, [])" by (intro strtok_whole)
  have t: "t\<lparr>strtok_rest := []\<rparr> = t" using assms(3) by simp
  have "strtok [] = (None, [])" by (simp add: strtok_def)
  then show ?thesis
    using s assms(2,3) t ws(6,7) by (simp add: a3_split_join [OF ws(1-4)] Let_def)
qed

text \<open>\<open>echo\<close> of a word.\<close>

definition echo_line :: "string \<Rightarrow> string" where
  "echo_line w = ''echo '' @ w"

definition echo_effect :: "string \<Rightarrow> ('os, 'fs) a3 \<Rightarrow> ('os, 'fs) a3" where
  "echo_effect l u = (puts (strip_eol (drop 5 l)) u)\<lparr>strtok_rest := []\<rparr>"

lemma not_isalnum: "\<not> isalnum (CHR '' '')" "\<not> isalnum (CHR '';'')" "\<not> isalnum (CHR ''$'')"
    "\<not> isalnum (CHR 0x0D)" "\<not> isalnum (CHR 0x0A)"
  by (simp_all add: isalnum_def)

lemma isalnum_plain:
  assumes "isAlphaNumStr w"
  shows "CHR '' '' \<notin> set w" and "CHR '';'' \<notin> set w" and "strip_eol w = w" and "strip_eol (w @ nl) = w"
    and "w \<noteq> []" and "hd w \<noteq> CHR ''$''" and "CHR 0x0A \<notin> set w"
proof -
  have a: "\<forall>c \<in> set w. isalnum c" and n: "w \<noteq> []" using assms by (auto simp: isAlphaNumStr_def list_all_iff)
  show "CHR '' '' \<notin> set w" using a not_isalnum(1) by blast
  show "CHR '';'' \<notin> set w" using a not_isalnum(2) by blast
  show "CHR 0x0A \<notin> set w" using a not_isalnum(5) by blast
  show "w \<noteq> []" by (rule n)
  show "hd w \<noteq> CHR ''$''" using a n not_isalnum(3) by (metis list.set_sel(1))
  have e: "\<forall>c \<in> set w. c \<noteq> CHR 0x0D \<and> c \<noteq> CHR 0x0A" using a not_isalnum(4,5) by metis
  then show "strip_eol w = w" by (simp add: strip_eol_def takeWhile_eq_all_conv)
  show "strip_eol (w @ nl) = w" using e by (simp add: strip_eol_def takeWhile_append2 nl_def)
qed

lemma parse_echo:
  assumes "isAlphaNumStr w" and "length w < 900" and "e = [] \<or> e = nl"
  shows "a3_parseInput cfg h fs cwd (Suc (Suc n)) (echo_line w @ e) s = Ret 0 ((puts w s)\<lparr>strtok_rest := []\<rparr>)"
proof -
  note w = isalnum_plain [OF assms(1)]
  have ws: "one_command [''echo'', w @ e]"
    using w assms(2,3) by (auto simp: one_command_def nl_def)
  have "strip_eol (w @ e) = w" using w assms(3) by auto
  moreover have "strip_eol ''echo'' = ''echo''" by (simp add: strip_eol_def)
  ultimately have args: "map strip_eol [''echo'', w @ e] = [''echo'', w]" by simp
  have echo: "a3_echo cfg w (s\<lparr>strtok_rest := []\<rparr>) = Ret 0 (puts w (s\<lparr>strtok_rest := []\<rparr>))"
    using w(5,6) assms(1) by (simp add: a3_echo_def)
  have "a3_interpreter cfg h fs cwd (a3_parseInput cfg h fs cwd (Suc n)) (Suc n) [''echo'', w @ e] (s\<lparr>strtok_rest := []\<rparr>)
      = Ret 0 (puts w (s\<lparr>strtok_rest := []\<rparr>))"
    unfolding a3_interpreter_def args Let_def
    by (simp add: echo del: a3_parseInput.simps)
  moreover have "puts w (s\<lparr>strtok_rest := []\<rparr>) = (puts w s)\<lparr>strtok_rest := []\<rparr>" by (simp add: puts_def printf_def)
  ultimately show ?thesis
    using parse_one_command [OF ws, of cfg h fs cwd n s 0] by (simp add: echo_line_def del: a3_parseInput.simps)
qed

lemma echo_quiet:
  assumes "\<forall>l \<in> set ls. \<exists>w e. l = echo_line w @ e \<and> isAlphaNumStr w \<and> length w < 900 \<and> (e = [] \<or> e = nl)"
  shows "runs_quietly cfg (a3_parseInput cfg h fs cwd (Suc (Suc n))) echo_effect ls"
  unfolding runs_quietly_def
proof (intro ballI allI)
  fix l and s :: "('a, 'b) a3"
  assume "l \<in> set ls"
  then obtain w e where l: "l = echo_line w @ e" "isAlphaNumStr w" "length w < 900" "e = [] \<or> e = nl" using assms by blast
  let ?t = "(puts w s)\<lparr>strtok_rest := []\<rparr>"
  have "strip_eol (drop 5 l) = w" using isalnum_plain(3,4) [OF l(2)] l(4) by (auto simp: l(1) echo_line_def)
  then have "user_part cfg ?t = echo_effect l (user_part cfg s)"
    by (simp add: echo_effect_def user_part_def puts_def printf_def Let_def)
  moreover have "kernel_same cfg s ?t" by (simp add: kernel_same_def puts_def printf_def)
  ultimately show "\<exists>ret s'. a3_parseInput cfg h fs cwd (Suc (Suc n)) l s = Ret ret s' \<and> ret \<noteq> 1 \<and> kernel_same cfg s s' \<and>
      user_part cfg s' = echo_effect l (user_part cfg s)"
    using parse_echo [OF l(2-4), of cfg h fs cwd n s] l(1) by (metis zero_neq_one)
qed

text \<open>The kernel is idle when the shell starts.\<close>

lemma boot_idle:
  assumes "2 \<le> frame_store_size cfg"
  shows "idle cfg (kernel_setup (a3_mem_init cfg s))"
proof -
  let ?s = "a3_mem_init cfg s"
  have "only_lists ?s (kernel_setup ?s)" "lists_rep (kernel_setup ?s) [] [] []" using kernel_setup_rep [of ?s] by simp_all
  then show ?thesis
    using assms only_lists_fields(1) [of ?s "kernel_setup ?s"] by (simp add: idle_def a3_mem_init_def memory_size_def)
qed

section \<open>Properties of the kernel\<close>

lemma rr_order_subseq: "t \<in> set ts \<Longrightarrow> subseq (drop (fst (snd t)) (fst t)) (rr_order ts)"
proof (induction ts arbitrary: t rule: rr_order.induct)
  case (2 L c k ts)
  let ?lines = "\<lambda>t :: task. drop (fst (snd t)) (fst t)"
  consider "length L \<le> c" | "c < length L" "3 * k \<le> c" | "Suc c = length L" "\<not> 3 * k \<le> c"
    | "Suc c < length L" "\<not> 3 * k \<le> c" "3 * k \<le> Suc c" | "Suc c < length L" "\<not> 3 * k \<le> c" "\<not> 3 * k \<le> Suc c"
    by linarith
  then show ?case
  proof cases
    case 1
    then have e: "rr_order ((L, c, k) # ts) = rr_order ts" by (simp add: rr_order.simps(2))
    show ?thesis
    proof (cases "t = (L, c, k)")
      case False
      then have "t \<in> set ts" using "2.prems" by simp
      from "2.IH"(1) [OF 1 this] show ?thesis unfolding e .
    qed (use 1 in simp)
  next
    case c: 2
    then have e: "rr_order ((L, c, k) # ts) = rr_order (ts @ [(L, c, Suc k)])" by (simp add: rr_order.simps(2))
    have ih: "subseq (?lines t') (rr_order (ts @ [(L, c, Suc k)]))" if "t' \<in> set (ts @ [(L, c, Suc k)])" for t'
      using "2.IH"(2) [OF _ _ that] c by simp
    show ?thesis
    proof (cases "t = (L, c, k)")
      case True
      then show ?thesis using ih [of "(L, c, Suc k)"] e by simp
    next
      case False
      then show ?thesis using ih [of t] "2.prems" e by simp
    qed
  next
    case c: 3
    then have e: "rr_order ((L, c, k) # ts) = L ! c # rr_order ts" by (simp add: rr_order.simps(2))
    show ?thesis
    proof (cases "t = (L, c, k)")
      case True
      have "drop c L = [L ! c]" using c by (metis Cons_nth_drop_Suc drop_all lessI order_refl)
      then show ?thesis using True e by simp
    next
      case False
      then have "t \<in> set ts" using "2.prems" by simp
      then have "subseq (?lines t) (rr_order ts)" using "2.IH"(3) c by simp
      then show ?thesis unfolding e by (rule list_emb_Cons)
    qed
  next
    case c: 4
    let ?u = "(L, Suc c, Suc k)"
    have e: "rr_order ((L, c, k) # ts) = L ! c # rr_order (ts @ [?u])" using c by (simp add: rr_order.simps(2))
    have ih: "subseq (?lines t') (rr_order (ts @ [?u]))" if "t' \<in> set (ts @ [?u])" for t'
      using "2.IH"(4) [OF _ _ _ _ that] c by simp
    show ?thesis
    proof (cases "t = (L, c, k)")
      case True
      have "drop c L = L ! c # drop (Suc c) L" using c by (simp add: Cons_nth_drop_Suc)
      then show ?thesis using ih [of ?u] True unfolding e by simp
    next
      case False
      then have "subseq (?lines t) (rr_order (ts @ [?u]))" using ih "2.prems" by simp
      then show ?thesis unfolding e by (rule list_emb_Cons)
    qed
  next
    case c: 5
    let ?u = "(L, c + 2, k)"
    have e: "rr_order ((L, c, k) # ts) = L ! c # L ! Suc c # rr_order (ts @ [?u])" using c by (simp add: rr_order.simps(2))
    have ih: "subseq (?lines t') (rr_order (ts @ [?u]))" if "t' \<in> set (ts @ [?u])" for t'
      using "2.IH"(5) [OF _ _ _ _ that] c by simp
    show ?thesis
    proof (cases "t = (L, c, k)")
      case True
      have "drop c L = L ! c # L ! Suc c # drop (c + 2) L" using c by (simp add: Cons_nth_drop_Suc)
      then show ?thesis using ih [of ?u] True unfolding e by simp
    next
      case False
      then have "subseq (?lines t) (rr_order (ts @ [?u]))" using ih "2.prems" by simp
      then show ?thesis unfolding e by (intro list_emb_Cons)
    qed
  qed
qed simp

lemma rr_order_single:
  "c \<le> length L \<Longrightarrow> rr_order [(L, c, k)] = drop c L"
proof (induction "task_weight (L, c, k)" arbitrary: c k rule: less_induct)
  case less
  consider "length L \<le> c" | "c < length L" "3 * k \<le> c" | "Suc c = length L" "\<not> 3 * k \<le> c"
    | "Suc c < length L" "\<not> 3 * k \<le> c" "3 * k \<le> Suc c" | "Suc c < length L" "\<not> 3 * k \<le> c" "\<not> 3 * k \<le> Suc c"
    by linarith
  then show ?case
  proof cases
    case 2
    then show ?thesis using less(1) [of c "Suc k"] less.prems by (simp add: rr_order.simps(2))
  next
    case 3
    then have "drop c L = [L ! c]" by (metis Cons_nth_drop_Suc drop_all lessI order_refl)
    then show ?thesis using 3 by (simp add: rr_order.simps(2))
  next
    case 4
    then show ?thesis using less(1) [of "Suc c" "Suc k"] by (simp add: rr_order.simps(2) Cons_nth_drop_Suc)
  next
    case 5
    then show ?thesis using less(1) [of "c + 2" k] by (simp add: rr_order.simps(2) Cons_nth_drop_Suc)
  qed (simp add: rr_order.simps(2))
qed

text \<open>An instance: two scripts on a kernel with 20 slots for frames.\<close>

definition tiny_cfg :: a3_config where
  "tiny_cfg = \<lparr>frame_store_size = 20, var_store_size = 10\<rparr>"

definition a3_blank :: "(string \<Rightarrow> string option) \<Rightarrow> (string \<Rightarrow> string option, unit) a3" where
  "a3_blank fs = (let none = \<lparr>ll_size = 0, dummy_head = 0, dummy_tail = 0\<rparr> in
     \<lparr>console = [], lheap = [], a3_memory = [], page_heap = [], proc_heap = [], a3_files = [], QUEUE = none,
      LRU_CACHE = none, ALL_PCB = none, PID_counter = 1, new_name_count = 0, strtok_rest = [], a3_host = fs,
      a3_fs = (), a3_input = [], a3_terminals = [], a3_interactive = False\<rparr>)"

definition a3_boot :: "(string \<Rightarrow> string option) \<Rightarrow> (string \<Rightarrow> string option, unit) a3" where
  "a3_boot fs = kernel_setup (a3_mem_init tiny_cfg (a3_blank fs))"

definition four_lines :: "string list" where
  "four_lines = [echo_line ''a1'' @ nl, echo_line ''a2'' @ nl, echo_line ''a3'' @ nl, echo_line ''a4'']"

definition two_lines :: "string list" where
  "two_lines = [echo_line ''b1'' @ nl, echo_line ''b2'']"

definition two_scripts :: "string \<Rightarrow> string option" where
  "two_scripts = [''a'' \<mapsto> concat four_lines, ''b'' \<mapsto> concat two_lines]"

lemma a3_boot_idle: "idle tiny_cfg (a3_boot fs)" "a3_host (a3_boot fs) = fs" "PID_counter (a3_boot fs) = 1"
    "console (a3_boot fs) = []"
  using boot_idle [of tiny_cfg "a3_blank fs"]
  by (simp_all add: a3_boot_def tiny_cfg_def kernel_setup_def list_init_def a3_mem_init_def a3_blank_def Let_def)

lemma file_lines_line:
  "CHR 0x0A \<notin> set l \<Longrightarrow> file_lines (l @ CHR 0x0A # s) = (l @ nl) # file_lines s"
  "CHR 0x0A \<notin> set l \<Longrightarrow> file_lines l = [l]"
  by (induction l) (auto simp: nl_def)

lemma two_scripts_open:
  "list_all2 (opens_as files_host two_scripts) [''a'', ''b''] [four_lines, two_lines]"
proof -
  have n: "CHR 0x0A \<notin> set (echo_line ''a1'')" "CHR 0x0A \<notin> set (echo_line ''a2'')" "CHR 0x0A \<notin> set (echo_line ''a3'')"
    "CHR 0x0A \<notin> set (echo_line ''a4'')" "CHR 0x0A \<notin> set (echo_line ''b1'')" "CHR 0x0A \<notin> set (echo_line ''b2'')"
    by (simp_all add: echo_line_def)
  have "concat four_lines = echo_line ''a1'' @ CHR 0x0A # echo_line ''a2'' @ CHR 0x0A # echo_line ''a3'' @ CHR 0x0A # echo_line ''a4''"
    "concat two_lines = echo_line ''b1'' @ CHR 0x0A # echo_line ''b2''"
    by (simp_all add: four_lines_def two_lines_def nl_def)
  then have "file_lines (concat four_lines) = four_lines" "file_lines (concat two_lines) = two_lines"
    using n by (simp_all add: file_lines_line four_lines_def two_lines_def nl_def)
  moreover have "length l < 998 \<and> l \<noteq> nl" if "l \<in> set (four_lines @ two_lines)" for l
    using that by (auto simp: four_lines_def two_lines_def echo_line_def nl_def)
  ultimately have s: "solid_script (concat four_lines) four_lines" "solid_script (concat two_lines) two_lines"
    by (auto simp: solid_script_def) (simp_all add: four_lines_def two_lines_def echo_line_def)
  have "two_scripts ''a'' = Some (concat four_lines)" "two_scripts ''b'' = Some (concat two_lines)"
    by (simp_all add: two_scripts_def)
  then have "opens_as files_host two_scripts ''a'' four_lines" "opens_as files_host two_scripts ''b'' two_lines"
    using s by (simp_all add: opens_as_def files_host_def)
  then show ?thesis by simp
qed

lemma echo_lines_quiet:
  "runs_quietly tiny_cfg (a3_parseInput tiny_cfg files_host fs cwd (Suc (Suc n))) echo_effect four_lines"
  "runs_quietly tiny_cfg (a3_parseInput tiny_cfg files_host fs cwd (Suc (Suc n))) echo_effect two_lines"
proof -
  have w: "isAlphaNumStr w \<and> length w < 900" if "w \<in> set [''a1'', ''a2'', ''a3'', ''a4'', ''b1'', ''b2'']" for w
    using that by (auto simp: isAlphaNumStr_def isalnum_def)
  show "runs_quietly tiny_cfg (a3_parseInput tiny_cfg files_host fs cwd (Suc (Suc n))) echo_effect four_lines"
    by (rule echo_quiet) (use w in \<open>auto simp: four_lines_def\<close>)
  show "runs_quietly tiny_cfg (a3_parseInput tiny_cfg files_host fs cwd (Suc (Suc n))) echo_effect two_lines"
    by (rule echo_quiet) (use w in \<open>auto simp: two_lines_def\<close>)
qed

text \<open>
  C1: \<open>exec\<close> of up to three scripts on an idle kernel, when their pages fit in the frame store with two
  slots to spare, runs their lines in the order of the round-robin specification, whose processes are just
  lists of lines that spend a turn on every page fault and go on at the end of the queue (the comment above
  \<open>run_proc\<close> names the head, the code adds them to the tail), and leaves the kernel idle: no process, no queued or
  loaded page, every frame free. The shell's own state, its variables included, changes by the lines alone.
\<close>

theorem a3_exec_round_robin:
  assumes "idle cfg s" and "length scripts \<le> 3" and "list_all2 (opens_as h (a3_host s)) scripts Ls"
    and "0 \<le> PID_counter s" and "PID_counter s + int (length scripts) < 10 ^ 9"
    and "3 * (\<Sum>L \<leftarrow> Ls. pages_for (length L)) + 2 \<le> frame_store_size cfg"
    and "\<forall>L \<in> set Ls. runs_quietly cfg parse F L" and "(\<Sum>L \<leftarrow> Ls. task_weight (first_task L)) < fuel"
  shows "\<exists>s'. a3_exec cfg h parse fuel scripts ''RR'' s = Ret 0 s' \<and> idle cfg s' \<and>
    user_part cfg s' = fold F (rr_order (map first_task Ls)) (user_part cfg s)"
  using loaded_scripts [OF assms(1,3-8)] assms(2) by (auto simp: a3_exec_def)

lemma tiny_fits:
  "3 * (\<Sum>L \<leftarrow> [four_lines, two_lines]. pages_for (length L)) + 2 \<le> frame_store_size tiny_cfg"
  "(\<Sum>L \<leftarrow> [four_lines, two_lines]. task_weight (first_task L)) < 20"
  by (simp_all add: four_lines_def two_lines_def pages_for_def tiny_cfg_def first_task_def)

lemma two_scripts_order:
  "rr_order (map first_task [four_lines, two_lines])
   = [four_lines ! 0, four_lines ! 1, two_lines ! 0, two_lines ! 1, four_lines ! 2, four_lines ! 3]"
  by (simp add: four_lines_def two_lines_def first_task_def pages_for_def rr_order.simps(2) nl_def)

lemma two_scripts_echo:
  "console (fold echo_effect [four_lines ! 0, four_lines ! 1, two_lines ! 0, two_lines ! 1, four_lines ! 2, four_lines ! 3] u)
   = console u @ map (\<lambda>w. w @ nl) [''a1'', ''a2'', ''b1'', ''b2'', ''a3'', ''a4'']"
  by (simp add: four_lines_def two_lines_def echo_line_def echo_effect_def nl_def strip_eol_def)

lemma user_part_console [simp]: "console (user_part cfg s) = console s"
  by (simp add: user_part_def Let_def)

theorem a3_exec_round_robin_witness:
  "\<forall>fs cwd. \<exists>s'. a3_exec tiny_cfg files_host (a3_parseInput tiny_cfg files_host fs cwd (Suc (Suc 0))) 20 [''a'', ''b''] ''RR'' (a3_boot two_scripts)
       = Ret 0 s' \<and> idle tiny_cfg s' \<and>
     console s' = map (\<lambda>w. w @ nl) [''a1'', ''a2'', ''b1'', ''b2'', ''a3'', ''a4'']"
proof (intro allI)
  fix fs :: "unit fs_ops" and cwd
  let ?parse = "a3_parseInput tiny_cfg files_host fs cwd (Suc (Suc 0))" and ?s = "a3_boot two_scripts"
  have quiet: "\<forall>L \<in> set [four_lines, two_lines]. runs_quietly tiny_cfg ?parse echo_effect L"
    using echo_lines_quiet [of fs cwd 0] by simp
  have "list_all2 (opens_as files_host (a3_host ?s)) [''a'', ''b''] [four_lines, two_lines]"
    using two_scripts_open by (simp add: a3_boot_idle(2))
  from a3_exec_round_robin [OF a3_boot_idle(1) _ this _ _ tiny_fits(1) quiet tiny_fits(2)]
  obtain s' where s': "a3_exec tiny_cfg files_host ?parse 20 [''a'', ''b''] ''RR'' ?s = Ret 0 s'" "idle tiny_cfg s'"
    "user_part tiny_cfg s' = fold echo_effect (rr_order (map first_task [four_lines, two_lines])) (user_part tiny_cfg ?s)"
    by (auto simp: a3_boot_idle(3))
  have "console (user_part tiny_cfg s') = map (\<lambda>w. w @ nl) [''a1'', ''a2'', ''b1'', ''b2'', ''a3'', ''a4'']"
    unfolding s'(3) two_scripts_order two_scripts_echo by (simp add: a3_boot_idle(4))
  then show "\<exists>s'. a3_exec tiny_cfg files_host (a3_parseInput tiny_cfg files_host fs cwd (Suc (Suc 0))) 20 [''a'', ''b''] ''RR'' (a3_boot two_scripts)
       = Ret 0 s' \<and> idle tiny_cfg s' \<and>
     console s' = map (\<lambda>w. w @ nl) [''a1'', ''a2'', ''b1'', ''b2'', ''a3'', ''a4'']" using s'(1,2) by simp
qed

text \<open>
  C13: Whatever the interleaving, \<open>exec\<close> runs each line of each script exactly once, and the lines of one
  script in their order: no script starves and no line is lost to a page fault.
\<close>

theorem a3_exec_runs_every_line:
  assumes "idle cfg s" and "length scripts \<le> 3" and "list_all2 (opens_as h (a3_host s)) scripts Ls"
    and "0 \<le> PID_counter s" and "PID_counter s + int (length scripts) < 10 ^ 9"
    and "3 * (\<Sum>L \<leftarrow> Ls. pages_for (length L)) + 2 \<le> frame_store_size cfg"
    and "\<forall>L \<in> set Ls. runs_quietly cfg parse F L" and "(\<Sum>L \<leftarrow> Ls. task_weight (first_task L)) < fuel"
  shows "\<exists>s' ls. a3_exec cfg h parse fuel scripts ''RR'' s = Ret 0 s' \<and> user_part cfg s' = fold F ls (user_part cfg s) \<and>
    mset ls = (\<Sum>L \<leftarrow> Ls. mset L) \<and> (\<forall>L \<in> set Ls. subseq L ls)"
proof -
  let ?ls = "rr_order (map first_task Ls)"
  have "subseq L ?ls" if "L \<in> set Ls" for L
    using rr_order_subseq [of "first_task L" "map first_task Ls"] that by (simp add: first_task_def)
  moreover have "mset ?ls = (\<Sum>L \<leftarrow> Ls. mset L)" by (simp add: rr_order_all first_task_def comp_def)
  moreover obtain s' where "a3_exec cfg h parse fuel scripts ''RR'' s = Ret 0 s'" "user_part cfg s' = fold F ?ls (user_part cfg s)"
    using loaded_scripts [OF assms(1,3-8)] assms(2) by (auto simp: a3_exec_def)
  ultimately show ?thesis by blast
qed

theorem a3_exec_runs_every_line_witness:
  "\<forall>fs cwd. \<exists>s' ls. a3_exec tiny_cfg files_host (a3_parseInput tiny_cfg files_host fs cwd (Suc (Suc 0))) 20 [''a'', ''b''] ''RR'' (a3_boot two_scripts)
       = Ret 0 s' \<and> user_part tiny_cfg s' = fold echo_effect ls (user_part tiny_cfg (a3_boot two_scripts)) \<and>
     mset ls = mset four_lines + mset two_lines"
proof (intro allI)
  fix fs :: "unit fs_ops" and cwd
  let ?parse = "a3_parseInput tiny_cfg files_host fs cwd (Suc (Suc 0))" and ?s = "a3_boot two_scripts"
  have quiet: "\<forall>L \<in> set [four_lines, two_lines]. runs_quietly tiny_cfg ?parse echo_effect L"
    using echo_lines_quiet [of fs cwd 0] by simp
  have "list_all2 (opens_as files_host (a3_host ?s)) [''a'', ''b''] [four_lines, two_lines]"
    using two_scripts_open by (simp add: a3_boot_idle(2))
  from a3_exec_runs_every_line [OF a3_boot_idle(1) _ this _ _ tiny_fits(1) quiet tiny_fits(2)]
  show "\<exists>s' ls. a3_exec tiny_cfg files_host (a3_parseInput tiny_cfg files_host fs cwd (Suc (Suc 0))) 20 [''a'', ''b''] ''RR'' (a3_boot two_scripts)
       = Ret 0 s' \<and> user_part tiny_cfg s' = fold echo_effect ls (user_part tiny_cfg (a3_boot two_scripts)) \<and>
     mset ls = mset four_lines + mset two_lines" by (auto simp: a3_boot_idle(3))
qed

text \<open>
  C14: \<open>run\<close> of one script on an idle kernel executes its lines one after the other, through all page
  faults, and leaves the kernel idle.
\<close>

theorem a3_run_in_order:
  assumes "idle cfg s" and "opens_as h (a3_host s) script L" and "0 \<le> PID_counter s" and "PID_counter s + 1 < 10 ^ 9"
    and "3 * pages_for (length L) + 2 \<le> frame_store_size cfg" and "runs_quietly cfg parse F L" and "2 * length L < fuel"
  shows "\<exists>s'. a3_run cfg h parse fuel script s = Ret 0 s' \<and> idle cfg s' \<and> user_part cfg s' = fold F L (user_part cfg s)"
proof -
  have "length L \<noteq> 0" using assms(2) file_lines_not_Nil by (auto simp: opens_as_def solid_script_def)
  then have "1 \<le> min 2 (pages_for (length L))" unfolding pages_for_def by presburger
  then have w: "task_weight (first_task L) < fuel"
    using assms(7) \<open>length L \<noteq> 0\<close> unfolding first_task_def task_weight.simps by linarith
  have "rr_order [first_task L] = L" by (simp add: first_task_def rr_order_single)
  then show ?thesis
    using loaded_scripts [of cfg s h "[script]" "[L]" parse F fuel] assms w
    by (auto simp: a3_run_def seq_Ret_iff split: if_splits)
qed

theorem a3_run_in_order_witness:
  "\<forall>fs cwd. \<exists>s'. a3_run tiny_cfg files_host (a3_parseInput tiny_cfg files_host fs cwd (Suc (Suc 0))) 20 ''a'' (a3_boot two_scripts) = Ret 0 s' \<and>
     idle tiny_cfg s' \<and> user_part tiny_cfg s' = fold echo_effect four_lines (user_part tiny_cfg (a3_boot two_scripts))"
proof (intro allI, rule a3_run_in_order)
  show "opens_as files_host (a3_host (a3_boot two_scripts)) ''a'' four_lines"
    using two_scripts_open by (simp add: a3_boot_idle(2))
qed (use a3_boot_idle echo_lines_quiet(1) in \<open>simp_all add: tiny_cfg_def four_lines_def pages_for_def del: a3_parseInput.simps\<close>)

text \<open>
  The list of loaded pages as a list in the order of last use: \<open>recent us gs\<close> is what is left of \<open>gs\<close> after the uses \<open>us\<close>,
  the pages used by their last use, the latest first, and behind them the others in their old order.
\<close>

definition recent :: "nat list \<Rightarrow> nat list \<Rightarrow> nat list" where
  "recent us gs = rev (remdups us) @ filter (\<lambda>g. g \<notin> set us) gs"

fun use_pages :: "(nat \<times> nat) list \<Rightarrow> ('os, 'fs) a3 \<Rightarrow> ('os, 'fs) a3 option" where
  "use_pages [] s = Some s"
| "use_pages ((p, i) # us) s = do { s \<leftarrow> use_page p i s; use_pages us s }"

definition page_used :: "('os, 'fs) a3 \<Rightarrow> nat \<times> nat \<Rightarrow> nat option" where
  "page_used s u = do { q \<leftarrow> proc_at s (fst u); rd (proc_pages q) (snd u) }"

lemma remdups_snoc: "remdups (us @ [g]) = filter (\<lambda>x. x \<noteq> g) (remdups us) @ [g]"
  by (induction us) auto

lemma recent_snoc: "recent (us @ [g]) gs = g # filter (\<lambda>x. x \<noteq> g) (recent us gs)"
proof -
  have "filter (\<lambda>x. x \<notin> set (us @ [g])) gs = filter (\<lambda>x. x \<noteq> g) (filter (\<lambda>x. x \<notin> set us) gs)" by (auto intro: filter_cong)
  then show ?thesis by (simp add: recent_def remdups_snoc rev_filter)
qed

lemma recent_set: "set us \<subseteq> set gs \<Longrightarrow> set (recent us gs) = set gs"
  and recent_distinct: "distinct gs \<Longrightarrow> distinct (recent us gs)"
  by (auto simp: recent_def)

lemma use_pages_snoc: "use_pages (us @ [(p, i)]) s = do { s \<leftarrow> use_pages us s; use_page p i s }"
  by (induction us arbitrary: s) (auto simp: bind_assoc split: Option.bind_split)

lemma use_pages_rep:
  assumes "lists_rep s qs ps gs" and "distinct gs" and eq: "\<forall>g \<in> set gs. \<forall>g' \<in> set gs. PAGE_equal s g g' = Some (g = g')"
    and "\<forall>u \<in> set us. \<exists>g \<in> set gs. page_used s u = Some g"
  shows "\<exists>s'. use_pages us s = Some s' \<and> lists_rep s' qs ps (recent (map (\<lambda>u. the (page_used s u)) us) gs) \<and> only_lists s s'"
  using assms(4)
proof (induction us rule: rev_induct)
  case Nil
  then show ?case using assms(1) by (simp add: recent_def)
next
  case (snoc u us)
  let ?G = "recent (map (\<lambda>u. the (page_used s u)) us) gs"
  obtain s1 where s1: "use_pages us s = Some s1" "lists_rep s1 qs ps ?G" "only_lists s s1" using snoc by auto
  obtain p i where u: "u = (p, i)" by (cases u)
  obtain g q where g: "g \<in> set gs" "page_used s u = Some g" "proc_at s p = Some q" "rd (proc_pages q) i = Some g"
    using snoc.prems u by (auto simp: page_used_def bind_eq_Some_conv)
  have same: "page_at s1 = page_at s" "proc_at s1 = proc_at s" using only_lists_fields(7,8) [OF s1(3)] by simp_all
  have sub: "set ?G = set gs" using snoc.prems by (intro recent_set) auto
  then obtain G1 G2 where G: "?G = G1 @ g # G2" "g \<notin> set G1" using g(1) by (metis split_list_first)
  have "distinct ?G" by (rule recent_distinct [OF assms(2)])
  then have "g \<notin> set G2" unfolding G(1) by simp
  then have "filter (\<lambda>x. x \<noteq> g) G1 = G1" "filter (\<lambda>x. x \<noteq> g) G2 = G2" using G(2) by (auto intro: filter_True)
  then have out: "filter (\<lambda>x. x \<noteq> g) ?G = G1 @ G2" unfolding G(1) by simp
  have "PAGE_equal s1 = PAGE_equal s" using same(1) by (simp add: PAGE_equal_def fun_eq_iff)
  moreover have "set G1 \<subseteq> set gs" using sub G(1) by auto
  ultimately have "\<forall>d \<in> set G1. PAGE_equal s1 g d = Some False" "PAGE_equal s1 g g = Some True" using eq g(1) G(2) by force+
  then obtain s2 where s2: "forget_page g s1 = Some (g, s2)" "lists_rep s2 qs ps (G1 @ G2)" "only_lists s1 s2"
    using forget_page_rep s1(2) unfolding G(1) by blast
  obtain s3 where s3: "most_recent g s2 = Some s3" "lists_rep s3 qs ps (g # G1 @ G2)" "only_lists s2 s3" using most_recent_rep [OF s2(2)] by blast
  have "use_page p i s1 = Some s3" using g(3,4) same(2) s2(1) s3(1) by (simp add: use_page_def)
  moreover have "recent (map (\<lambda>u. the (page_used s u)) (us @ [u])) gs = g # G1 @ G2" using g(2) out by (simp add: recent_snoc)
  moreover have "only_lists s s3" by (rule only_lists_trans [OF only_lists_trans [OF s1(3) s2(3)] s3(3)])
  ultimately show ?case using s1(1) s3(2) by (auto simp: u use_pages_snoc)
qed

text \<open>
  C34: The list of loaded pages is a list in the order of last use. After any sequence of uses of loaded pages, the first, the
  last or the only one included, it holds the pages used in the order of their last uses, the latest first, then the
  others in the order they had, without a change to the queue or the processes; the page evicted next is the last of it.
\<close>

theorem a3_lru_order:
  assumes "lists_rep s qs ps gs" and "gs \<noteq> []" and "distinct gs" and "\<forall>g \<in> set gs. \<forall>g' \<in> set gs. PAGE_equal s g g' = Some (g = g')"
    and "\<forall>u \<in> set us. \<exists>g \<in> set gs. page_used s u = Some g"
  shows "\<exists>G s1 l s2. G = recent (map (\<lambda>u. the (page_used s u)) us) gs \<and> use_pages us s = Some s1 \<and> lists_rep s1 qs ps G \<and>
    pop_tail (LRU_CACHE s1) s1 = Ret (last G, l) s2 \<and> lists_rep (s2\<lparr>LRU_CACHE := l\<rparr>) qs ps (butlast G)"
proof -
  let ?G = "recent (map (\<lambda>u. the (page_used s u)) us) gs"
  obtain s1 where s1: "use_pages us s = Some s1" "lists_rep s1 qs ps ?G" using use_pages_rep [OF assms(1,3-5)] by blast
  have "set ?G = set gs" using assms(5) by (intro recent_set) auto
  then have "?G = butlast ?G @ [last ?G]" using assms(2) by (metis append_butlast_last_id set_empty)
  then show ?thesis using pop_lru_rep [of s1 qs ps "butlast ?G" "last ?G"] s1 by metis
qed

definition lru_start :: "(string \<Rightarrow> string option, unit) a3" where
  "lru_start = kernel_setup ((a3_blank Map.empty)\<lparr>
     page_heap := map (\<lambda>i. Some \<lparr>line_index = [3 * i, 3 * i + 1, 3 * i + 2], valid_bit = [True, True, True],
                                  page_index = i, page_pid = 1\<rparr>) [0, 1, 2],
     proc_heap := [Some \<lparr>proc_pid = 1, proc_size = 9, program_counter = [0, 0, 0], proc_pages = [0, 1, 2], source_file = 0\<rparr>]\<rparr>)"

theorem a3_lru_order_witness:
  "\<exists>s s1 l s2. add_pages [0, 1, 2] lru_start = Some s \<and> use_pages [(0, 0), (0, 2), (0, 0)] s = Some s1 \<and>
     pop_tail (LRU_CACHE s1) s1 = Ret (1, l) s2 \<and> lists_rep (s2\<lparr>LRU_CACHE := l\<rparr>) [] [] [0, 2]"
proof -
  let ?blank = "(a3_blank Map.empty)\<lparr>
     page_heap := map (\<lambda>i. Some \<lparr>line_index = [3 * i, 3 * i + 1, 3 * i + 2], valid_bit = [True, True, True],
                                  page_index = i, page_pid = 1\<rparr>) [0, 1, 2],
     proc_heap := [Some \<lparr>proc_pid = 1, proc_size = 9, program_counter = [0, 0, 0], proc_pages = [0, 1, 2], source_file = 0\<rparr>]\<rparr>"
  have o: "lists_rep lru_start [] [] []" "only_lists ?blank lru_start"
    using kernel_setup_rep [of ?blank] by (simp_all add: lru_start_def)
  obtain s where s: "add_pages [0, 1, 2] lru_start = Some s" "lists_rep s [] [] (rev [0, 1, 2] @ [])" "only_lists lru_start s"
    using add_pages_rep [OF o(1)] by blast
  have at: "page_at s = page_at ?blank" "proc_at s = proc_at ?blank"
    using only_lists_fields(7,8) [OF only_lists_trans [OF o(2) s(3)]] by simp_all
  have l: "lists_rep s [] [] [2, 1, 0]" using s(2) by simp
  have used: "page_used s (0, 0) = Some 0" "page_used s (0, 2) = Some 2" by (simp_all add: page_used_def at proc_at_def rd_def)
  have eq: "\<forall>g \<in> set [2, 1, 0]. \<forall>g' \<in> set [2, 1, 0]. PAGE_equal s g g' = Some (g = g')"
    by (simp add: PAGE_equal_def at page_at_def rd_def)
  have "\<exists>G s1 l s2. G = recent (map (\<lambda>u. the (page_used s u)) [(0, 0), (0, 2), (0, 0)]) [2, 1, 0] \<and> use_pages [(0, 0), (0, 2), (0, 0)] s = Some s1 \<and>
    lists_rep s1 [] [] G \<and> pop_tail (LRU_CACHE s1) s1 = Ret (last G, l) s2 \<and> lists_rep (s2\<lparr>LRU_CACHE := l\<rparr>) [] [] (butlast G)"
    by (rule a3_lru_order [OF l _ _ eq]) (simp_all add: used)
  moreover have "recent (map (\<lambda>u. the (page_used s u)) [(0, 0), (0, 2), (0, 0)]) [2, 1, 0] = [0, 2, 1]" by (simp add: used recent_def)
  ultimately show ?thesis using s(1) by (auto simp: numeral_2_eq_2)
qed

lemma finish_all_code: "finish_all s = Some (r, s') \<Longrightarrow> r = 0"
  by (auto simp: finish_all_def bind_eq_Some_conv Let_def)

lemma run_proc_RR_code: "run_proc_RR cfg parse fuel s = Ret r s' \<Longrightarrow> r = 0"
proof (induction fuel arbitrary: s)
  case (Suc n)
  then show ?case
    using Suc.prems
    by (auto simp: seq_Ret_iff attempt_def Let_def dest: finish_all_code split: option.splits bool.splits if_splits prod.splits)
qed simp

text \<open>
  C35: A script cannot end the shell: a \<open>run\<close> or an \<open>exec\<close> never reports the code of \<open>quit\<close>, whatever its lines
  do. (A \<open>quit\<close> in a script still closes the file system and the backing store.)
\<close>

theorem a3_script_cannot_quit:
  fixes s s' :: "('os, 'fs) a3"
  shows "a3_interpreter cfg h fs cwd parse fuel [''run'', script] s \<noteq> Ret (-1) s' \<and>
   a3_interpreter cfg h fs cwd parse fuel (''exec'' # scripts) s \<noteq> Ret (-1) s'"
proof -
  have w: "strip_eol ''run'' = ''run''" "strip_eol ''exec'' = ''exec''" by (simp_all add: strip_eol_def)
  have run: "a3_run cfg h parse fuel f t \<noteq> Ret (-1) t'" for f t t'
    using run_proc_RR_code by (fastforce simp: a3_run_def seq_Ret_iff split: if_splits)
  have exec: "a3_exec cfg h parse fuel fs ''RR'' t \<noteq> Ret (-1) t'" for fs t t'
    using run_proc_RR_code by (fastforce simp: a3_exec_def seq_Ret_iff split: if_splits)
  have 1: "a3_interpreter cfg h fs cwd parse fuel [''run'', script] s
    = seq (copy_script h (strip_eol script) s) (\<lambda>script s.
        seq (a3_run cfg h parse fuel script s) (\<lambda>ret s. Ret ret (clean_store h cwd s)))"
    by (simp add: a3_interpreter_def w Let_def)
  have err: "a3_handle_error e t \<noteq> Ret (-1) t'" for e and t t' :: "('os, 'fs) a3"
    by (cases e) (auto simp: a3_handle_error_def a3_handle_code_def require_Ret_iff)
  have 2: "a3_interpreter cfg h fs cwd parse fuel (''exec'' # scripts) s
    = (if scripts = [] then a3_handle_error E_TOO_FEW_TOKENS s
       else if 4 < length scripts then a3_handle_error E_TOO_MANY_TOKENS s
       else seq (copy_scripts h (map strip_eol scripts) s) (\<lambda>scripts s.
        seq (a3_exec cfg h parse fuel scripts ''RR'' s) (\<lambda>ret s. Ret ret (clean_store h cwd s))))"
    by (auto simp: a3_interpreter_def w Let_def)
  show ?thesis unfolding 1 2 using run exec err by (auto simp: seq_Ret_iff)
qed

text \<open>
  C36: Freeing a process clears the two slots behind its last frame as well, because \<open>free_PCB\<close> clears three
  slots from each slot of a page: when the frame is the last of the frame store, two variables are lost.
\<close>

theorem a3_free_clears_two_more:
  assumes "proc_at s p = Some q" and "proc_pages q = [g]" and "page_at s g = Some pg" and "line_index pg = [f, f + 1, f + 2]"
    and "f + 3 = frame_store_size cfg" and "length (a3_memory s) = memory_size cfg" and "2 \<le> var_store_size cfg"
  shows "\<exists>s'. free_PCB p s = Some s' \<and>
    var (a3_memory s' ! frame_store_size cfg) = NONE \<and> var (a3_memory s' ! (frame_store_size cfg + 1)) = NONE"
proof -
  let ?B = "f + 5"
  have B: "?B \<le> length (a3_memory s)" using assms(5-7) by (simp add: memory_size_def)
  obtain m where m: "free_slots_from f 3 s = Some (s\<lparr>a3_memory := m\<rparr>)" "clears ?B {f..<f + 3} (a3_memory s) m"
    using clear_slots [of f 3 ?B s] B by auto
  obtain m' where m': "free_slots_from (f + 1) 3 (s\<lparr>a3_memory := m\<rparr>) = Some (s\<lparr>a3_memory := m'\<rparr>)"
    "clears ?B {f + 1..<f + 1 + 3} m m'"
    using clear_slots [of "f + 1" 3 ?B "s\<lparr>a3_memory := m\<rparr>"] B m(2) by (auto simp: clears_def)
  obtain m'' where m'': "free_slots_from (f + 2) 3 (s\<lparr>a3_memory := m'\<rparr>) = Some (s\<lparr>a3_memory := m''\<rparr>)"
    "clears ?B {f + 2..<f + 2 + 3} m' m''"
    using clear_slots [of "f + 2" 3 ?B "s\<lparr>a3_memory := m'\<rparr>"] B m(2) m'(2) by (auto simp: clears_def)
  have "free_PCB p s = Some (s\<lparr>a3_memory := m'', page_heap := (page_heap s)[g := None], proc_heap := (proc_heap s)[p := None]\<rparr>)"
    using assms(1-4) m(1) m'(1) m''(1) by (simp add: free_PCB_def clear_frame_def rd_def)
  moreover have "var (m'' ! (f + 3)) = NONE" "var (m'' ! (f + 4)) = NONE" using m''(2) by (simp_all add: clears_def)
  ultimately show ?thesis using assms(5) by (auto simp: eval_nat_numeral)
qed

definition last_frame_state :: "(string \<Rightarrow> string option, unit) a3" where
  "last_frame_state = (a3_blank Map.empty)\<lparr>a3_memory := replicate 3 \<lparr>var = ''1'', val = ''quit''\<rparr> @ [\<lparr>var = ''x'', val = ''1''\<rparr>, \<lparr>var = ''y'', val = ''2''\<rparr>],
     page_heap := [Some \<lparr>line_index = [0, 0 + 1, 0 + 2], valid_bit = [True, True, True], page_index = 0, page_pid = 1\<rparr>],
     proc_heap := [Some \<lparr>proc_pid = 1, proc_size = 0, program_counter = [3], proc_pages = [0], source_file = 0\<rparr>]\<rparr>"

theorem a3_free_clears_two_more_witness:
  "\<exists>s'. free_PCB 0 last_frame_state = Some s' \<and> var (a3_memory last_frame_state ! 3) = ''x'' \<and>
     var (a3_memory s' ! 3) = NONE \<and> var (a3_memory s' ! (3 + 1)) = NONE"
proof -
  let ?cfg = "\<lparr>frame_store_size = 3, var_store_size = 2\<rparr>"
  have "\<exists>s'. free_PCB 0 last_frame_state = Some s' \<and> var (a3_memory s' ! frame_store_size ?cfg) = NONE \<and>
     var (a3_memory s' ! (frame_store_size ?cfg + 1)) = NONE"
    by (rule a3_free_clears_two_more [where g = 0 and f = 0 and
          q = "\<lparr>proc_pid = 1, proc_size = 0, program_counter = [3], proc_pages = [0], source_file = 0\<rparr>" and
          pg = "\<lparr>line_index = [0, 0 + 1, 0 + 2], valid_bit = [True, True, True], page_index = 0, page_pid = 1\<rparr>"])
      (simp_all add: last_frame_state_def proc_at_def page_at_def rd_def memory_size_def)
  moreover have "var (a3_memory last_frame_state ! 3) = ''x''" by (simp add: last_frame_state_def eval_nat_numeral)
  ultimately show ?thesis by simp
qed

text \<open>Lines of alphanumeric words.\<close>

lemma join_with_end: "join_with sep (xs @ [y @ e]) = join_with sep (xs @ [y]) @ e"
  by (cases xs) (simp_all add: join_with_Cons)

lemma parse_alnum:
  assumes ws: "ws \<noteq> []" "\<forall>w \<in> set ws. isAlphaNumStr w" "length (join_with '' '' ws) < 999" "length ws \<le> 100"
    and e: "e = [] \<or> e = nl"
    and run: "\<And>ws'. map strip_eol ws' = ws \<Longrightarrow> ws' \<noteq> [] \<Longrightarrow>
      a3_interpreter cfg h fs cwd (a3_parseInput cfg h fs cwd (Suc n)) (Suc n) ws' (s\<lparr>strtok_rest := []\<rparr>) = Ret ret t"
    and t: "strtok_rest t = []"
  shows "a3_parseInput cfg h fs cwd (Suc (Suc n)) (join_with '' '' ws @ e) s = Ret ret t"
proof -
  let ?ws = "butlast ws @ [last ws @ e]"
  have w: "isAlphaNumStr w \<Longrightarrow> CHR '' '' \<notin> set (w @ e) \<and> CHR '';'' \<notin> set (w @ e) \<and> w @ e \<noteq> [] \<and> strip_eol (w @ e) = w" for w
    using isalnum_plain [of w] e by (auto simp: nl_def)
  have split: "ws = butlast ws @ [last ws]" using ws(1) by simp
  have each: "isAlphaNumStr (last ws)" "\<forall>w \<in> set (butlast ws). isAlphaNumStr w"
    using ws(1,2) by (simp_all add: in_set_butlastD)
  have join: "join_with '' '' ?ws = join_with '' '' ws @ e"
    using join_with_end [of "'' ''" "butlast ws" "last ws" e] split by simp
  have hd: "hd ?ws \<noteq> []"
  proof (cases "butlast ws")
    case Nil
    then show ?thesis using w [OF each(1)] by simp
  next
    case (Cons a as)
    then have "isAlphaNumStr a" using each(2) by simp
    then show ?thesis using isalnum_plain(5) Cons by simp
  qed
  have plain: "CHR '' '' \<notin> set v \<and> CHR '';'' \<notin> set v" if "v \<in> set ?ws" for v
    using that w [OF each(1)] isalnum_plain(1,2) each(2) by auto
  have "length e \<le> 1" using e by (auto simp: nl_def)
  moreover have "length ?ws = length ws" using ws(1) by simp
  ultimately have "one_command ?ws"
    using plain hd w [OF each(1)] ws(3,4) join by (simp add: one_command_def)
  moreover have "map strip_eol ?ws = ws"
  proof -
    have "map strip_eol (butlast ws) = butlast ws" using each(2) isalnum_plain(3) by (auto intro: map_idI)
    then show ?thesis using w [OF each(1)] split by simp
  qed
  ultimately show ?thesis using parse_one_command [of ?ws cfg h fs cwd n s ret t] run [of ?ws] t join by simp
qed

lemma set_value_join:
  "\<forall>v \<in> set vs. isAlphaNumStr v \<Longrightarrow> length (b @ join_with '' '' vs) < 505 \<Longrightarrow>
   set_value vs b = Some (Some (b @ join_with '' '' vs))"
proof (induction vs arbitrary: b rule: induct_list012)
  case (3 x y zs)
  have "set_value (y # zs) (b @ x @ '' '') = Some (Some ((b @ x @ '' '') @ join_with '' '' (y # zs)))"
    using "3.prems" by (intro "3.IH"(2)) simp_all
  then show ?case using "3.prems" by (simp only: set_value.simps(2) [of x] Let_def) simp
qed (simp_all add: Let_def)

lemma parse_set:
  assumes "isAlphaNumStr x" and "vs \<noteq> []" and "\<forall>v \<in> set vs. isAlphaNumStr v" and "length vs \<le> 98"
    and "length x + length (join_with '' '' vs) < 500" and "e = [] \<or> e = nl"
  shows "a3_parseInput cfg h fs cwd (Suc (Suc n)) (join_with '' '' (''set'' # x # vs) @ e) s
    = Ret 0 (a3_mem_set_value cfg x (join_with '' '' vs) (s\<lparr>strtok_rest := []\<rparr>))"
proof (rule parse_alnum)
  show "\<forall>w \<in> set (''set'' # x # vs). isAlphaNumStr w"
    using assms(1,3) by (simp add: isAlphaNumStr_def isalnum_def)
  show "length (join_with '' '' (''set'' # x # vs)) < 999" using assms(2,5) by (cases vs) simp_all
next
  fix ws' assume ws': "map strip_eol ws' = ''set'' # x # vs" "ws' \<noteq> []"
  have "set_value vs [] = Some (Some (join_with '' '' vs))" using set_value_join [of vs "[]"] assms(3,5) by simp
  then have "a3_set_command cfg (''set'' # x # vs) (s\<lparr>strtok_rest := []\<rparr>)
      = Ret 0 (a3_mem_set_value cfg x (join_with '' '' vs) (s\<lparr>strtok_rest := []\<rparr>))"
    using assms(1,2,5) by (cases vs) (simp_all add: a3_set_command_def a3_set_def)
  then show "a3_interpreter cfg h fs cwd (a3_parseInput cfg h fs cwd (Suc n)) (Suc n) ws' (s\<lparr>strtok_rest := []\<rparr>)
      = Ret 0 (a3_mem_set_value cfg x (join_with '' '' vs) (s\<lparr>strtok_rest := []\<rparr>))"
    unfolding a3_interpreter_def ws'(1) Let_def using ws'(2) by (simp del: a3_parseInput.simps)
qed (use assms in \<open>simp_all add: a3_mem_set_value_def\<close>)

lemma parse_print:
  assumes "isAlphaNumStr x" and "length x < 900" and "e = [] \<or> e = nl"
  shows "a3_parseInput cfg h fs cwd (Suc (Suc n)) (join_with '' '' [''print'', x] @ e) s
    = Ret 0 (puts (a3_mem_get_value cfg x (CHR ''p'') s) (s\<lparr>strtok_rest := []\<rparr>))"
proof (rule parse_alnum)
  show "\<forall>w \<in> set [''print'', x]. isAlphaNumStr w" using assms(1) by (simp add: isAlphaNumStr_def isalnum_def)
next
  fix ws' assume ws': "map strip_eol ws' = [''print'', x]" "ws' \<noteq> []"
  have "a3_mem_get_value cfg x (CHR ''p'') (s\<lparr>strtok_rest := []\<rparr>) = a3_mem_get_value cfg x (CHR ''p'') s"
    by (simp add: a3_mem_get_value_def)
  then show "a3_interpreter cfg h fs cwd (a3_parseInput cfg h fs cwd (Suc n)) (Suc n) ws' (s\<lparr>strtok_rest := []\<rparr>)
      = Ret 0 (puts (a3_mem_get_value cfg x (CHR ''p'') s) (s\<lparr>strtok_rest := []\<rparr>))"
    unfolding a3_interpreter_def ws'(1) Let_def using ws'(2) by (simp add: a3_print_def del: a3_parseInput.simps)
qed (use assms in \<open>simp_all add: puts_def printf_def\<close>)

text \<open>
  \<open>set x v1 .. vk\<close> followed by \<open>print x\<close> prints the values joined by blanks, as long as the variable zone
  behind the frames has a slot for \<open>x\<close>.
\<close>

theorem a3_set_then_print:
  assumes "isAlphaNumStr x" and "x \<noteq> NONE" and "vs \<noteq> []" and "\<forall>v \<in> set vs. isAlphaNumStr v" and "length vs \<le> 98"
    and "length x + length (join_with '' '' vs) < 500" and "a3_ok cfg s" and "a3_vars cfg s x \<noteq> None \<or> 0 < a3_room cfg s"
  shows "\<exists>t. run_lines (a3_parseInput cfg h fs cwd (Suc (Suc n)))
      [join_with '' '' (''set'' # x # vs) @ nl, join_with '' '' [''print'', x] @ nl] s = Ret 0 (puts (join_with '' '' vs) t) \<and>
    console t = console s \<and> a3_ok cfg t \<and> a3_vars cfg t = (a3_vars cfg s)(x \<mapsto> join_with '' '' vs)"
proof -
  let ?t = "a3_mem_set_value cfg x (join_with '' '' vs) (s\<lparr>strtok_rest := []\<rparr>)" and ?s = "s\<lparr>strtok_rest := []\<rparr>"
  have same: "a3_ok cfg ?s" "a3_vars cfg ?s = a3_vars cfg s" "a3_room cfg ?s = a3_room cfg s"
    using assms(7) by (simp_all add: a3_ok_def a3_vars_def a3_room_def)
  then have v: "a3_vars cfg ?t = (a3_vars cfg s)(x \<mapsto> join_with '' '' vs)" "a3_ok cfg ?t"
    using a3v.set_vars [of cfg ?s x] a3v.set_ok [of cfg ?s x] assms(2,7,8) by simp_all
  then have "a3_mem_get_value cfg x (CHR ''p'') ?t = join_with '' '' vs"
    by (intro a3_mem_get_value_vars [OF assms(2)]) simp
  moreover have "?t\<lparr>strtok_rest := []\<rparr> = ?t" "console ?t = console s" by (simp_all add: a3_mem_set_value_def)
  ultimately show ?thesis
    using parse_set [OF assms(1,3-6), of nl cfg h fs cwd n s] parse_print [OF assms(1), of nl cfg h fs cwd n ?t] assms(6) v
    by (intro exI [of _ ?t]) (simp del: a3_parseInput.simps join_with.simps)
qed

theorem a3_set_then_print_witness:
  "\<forall>fs cwd. \<exists>t. run_lines (a3_parseInput tiny_cfg files_host fs cwd (Suc (Suc 0))) [''set x hello world'' @ nl, ''print x'' @ nl] (a3_boot Map.empty)
     = Ret 0 (puts ''hello world'' t)"
proof (intro allI)
  fix fs :: "unit fs_ops" and cwd
  have m: "a3_memory (a3_boot Map.empty) = a3_memory (a3_mem_init tiny_cfg (a3_blank Map.empty))"
    using only_lists_fields(1) kernel_setup_rep unfolding a3_boot_def by blast
  then have "a3_ok tiny_cfg (a3_boot Map.empty)" "a3_room tiny_cfg (a3_boot Map.empty) = 10"
    using a3_mem_init_ok [of tiny_cfg "a3_blank Map.empty"] by (simp_all add: a3_ok_def a3_room_def tiny_cfg_def)
  then show "\<exists>t. run_lines (a3_parseInput tiny_cfg files_host fs cwd (Suc (Suc 0))) [''set x hello world'' @ nl, ''print x'' @ nl] (a3_boot Map.empty)
     = Ret 0 (puts ''hello world'' t)"
    using a3_set_then_print [of "''x''" "[''hello'', ''world'']" tiny_cfg "a3_boot Map.empty" files_host fs cwd 0]
    by (auto simp: isAlphaNumStr_def isalnum_def NONE_def simp del: a3_parseInput.simps)
qed

end
