(* ===== verification/Inodes.thy ===== *)
theory Inodes
  imports Cache Bitmap "HOL-Library.Signed_Division"
begin

text \<open>
  Inodes, open files and the free map (\<open>a3/fs/inode.c\<close>, \<open>a3/fs/file.c\<close>, \<open>a3/fs/free-map.c\<close> and the file
  operations of \<open>a3/fs/bitmap.c\<close>). In-memory inodes and open files live on heaps whose pointers are indices
  (\<open>None\<close> is a freed object); the list of open inodes and the file table are the lists that \<open>Intrusive_List\<close>
  shows \<open>list.c\<close> to implement. Memory allocation succeeds. An \<open>offset_t\<close> is an integer; an offset that would
  leave its 32 bits is undefined (\<open>off32\<close>). Writing the free map to its file may extend that file and so call
  the allocator again: \<open>alloc\<close> is the call \<open>free_map_allocate(1, ..)\<close> inside the functions below it, and the
  knot is tied by \<open>free_map_allocate\<close>, whose first argument bounds the nesting.
\<close>

section \<open>State\<close>

record inode_disk =
  direct_blocks :: "sector list"        \<comment> \<open>\<open>DIRECT_BLOCKS_COUNT\<close> of them\<close>
  indirect_block :: sector
  doubly_indirect_block :: sector
  is_dir :: bool
  id_pad :: bytes                       \<comment> \<open>the three bytes between \<open>is_dir\<close> and \<open>length\<close>\<close>
  id_length :: int
  magic :: "32 word"

record inode =
  in_sector :: sector
  open_cnt :: int
  removed :: bool
  deny_write_cnt :: int
  in_data :: inode_disk

record open_file =
  f_inode :: nat
  f_pos :: int
  f_deny_write :: bool

datatype disk_ref = Data_of nat | Own nat   \<comment> \<open>\<open>&inode->data\<close>, or a block of \<open>calloc\<close>\<close>

datatype entry_ref =
    Indirect_of disk_ref     \<comment> \<open>\<open>&disk_inode->indirect_block\<close>\<close>
  | Doubly_of disk_ref
  | Block_of nat nat         \<comment> \<open>\<open>&indirect_block.blocks[i]\<close> of a running call\<close>

record files = cached +
  inode_heap :: "inode option list"
  disk_heap :: "inode_disk option list"
  block_stack :: "sector list list"     \<comment> \<open>the local variables \<open>indirect_block\<close>\<close>
  open_inodes :: "nat list"
  free_map :: "bitmap option"
  free_map_file :: "nat option"
  file_heap :: "open_file option list"
  file_table :: "(string \<times> nat) list"

type_synonym 's alloc = "'s \<Rightarrow> (sector option \<times> 's) option"

definition INODE_MAGIC :: "32 word" where
  "INODE_MAGIC = 0x494e4f44"

definition DIRECT_BLOCKS_COUNT :: nat where
  "DIRECT_BLOCKS_COUNT = 123"

definition INDIRECT_BLOCKS_PER_SECTOR :: nat where
  "INDIRECT_BLOCKS_PER_SECTOR = 128"

definition FREE_MAP_SECTOR :: sector where
  "FREE_MAP_SECTOR = 0"

definition ROOT_DIR_SECTOR :: sector where
  "ROOT_DIR_SECTOR = 1"

definition off32 :: "int \<Rightarrow> int option" where
  \<comment> \<open>the value of an \<open>offset_t\<close> expression\<close>
  "off32 i = (if - (2 ^ 31) \<le> i \<and> i < 2 ^ 31 then Some i else None)"

definition bytes_to_sectors :: "int \<Rightarrow> nat option" where
  \<comment> \<open>the sum of \<open>DIV_ROUND_UP\<close> is an \<open>int\<close>; the callers pass no negative size\<close>
  "bytes_to_sectors sz = do {
     _ \<leftarrow> off32 (sz + int BLOCK_SECTOR_SIZE);
     Some (DIV_ROUND_UP (nat sz) BLOCK_SECTOR_SIZE)
   }"

section \<open>The image of an inode\<close>

definition inode_image :: "inode_disk \<Rightarrow> bytes" where
  "inode_image d = bytes_of_words 4 (direct_blocks d) @ le_bytes 4 (indirect_block d) @ le_bytes 4 (doubly_indirect_block d)
     @ [if is_dir d then 1 else 0] @ id_pad d @ le_bytes 4 (word_of_int (id_length d) :: 32 word) @ le_bytes 4 (magic d)"

definition inode_of_image :: "bytes \<Rightarrow> inode_disk" where
  "inode_of_image b =
     \<lparr>direct_blocks = words_of_bytes 4 DIRECT_BLOCKS_COUNT b,
      indirect_block = le_word (take 4 (drop 492 b)), doubly_indirect_block = le_word (take 4 (drop 496 b)),
      is_dir = (b ! 500 \<noteq> 0), id_pad = take 3 (drop 501 b),
      id_length = sint (le_word (take 4 (drop 504 b)) :: 32 word), magic = le_word (take 4 (drop 508 b))\<rparr>"

section \<open>The sectors of an inode\<close>

definition read_blocks :: "sector \<Rightarrow> 'a cached_scheme \<Rightarrow> (sector list \<times> 'a cached_scheme) option" where
  \<comment> \<open>a sector read into a \<open>struct inode_indirect_block_sector\<close>\<close>
  "read_blocks sec s = do {
     (b, s) \<leftarrow> buffer_cache_read sec s;
     Some (words_of_bytes 4 INDIRECT_BLOCKS_PER_SECTOR b, s)
   }"

definition index_to_sector :: "inode_disk \<Rightarrow> int \<Rightarrow> 'a cached_scheme \<Rightarrow> (sector \<times> 'a cached_scheme) option" where
  "index_to_sector idisk index s =
     (let direct = int DIRECT_BLOCKS_COUNT; per = int INDIRECT_BLOCKS_PER_SECTOR in
      if index < 0 then None
      else if index < direct then do { r \<leftarrow> rd (direct_blocks idisk) (nat index); Some (r, s) }
      else if index < direct + per then do {
        (blocks, s) \<leftarrow> read_blocks (indirect_block idisk) s;
        r \<leftarrow> rd blocks (nat (index - direct));
        Some (r, s)
      }
      else if index < direct + per + per * per then do {
        (blocks, s) \<leftarrow> read_blocks (doubly_indirect_block idisk) s;
        b \<leftarrow> rd blocks (nat ((index - (direct + per)) div per));
        (blocks, s) \<leftarrow> read_blocks b s;
        r \<leftarrow> rd blocks (nat ((index - (direct + per)) mod per));
        Some (r, s)
      }
      else Some (-1, s))"

definition byte_to_sector :: "inode_disk \<Rightarrow> int \<Rightarrow> 'a cached_scheme \<Rightarrow> (sector \<times> 'a cached_scheme) option" where
  \<comment> \<open>of \<open>inode->data\<close>\<close>
  "byte_to_sector d pos s =
     (if 0 \<le> pos \<and> pos < id_length d then index_to_sector d (pos div int BLOCK_SECTOR_SIZE) s else Some (-1, s))"

section \<open>Inodes in memory\<close>

definition inode_at :: "'a files_scheme \<Rightarrow> nat \<Rightarrow> inode option" where
  "inode_at s p = do { i \<leftarrow> rd (inode_heap s) p; i }"

definition put_inode :: "nat \<Rightarrow> inode \<Rightarrow> 'a files_scheme \<Rightarrow> 'a files_scheme" where
  "put_inode p i s = s\<lparr>inode_heap := (inode_heap s)[p := Some i]\<rparr>"

definition inode_init :: "'a files_scheme \<Rightarrow> 'a files_scheme" where
  "inode_init s = s\<lparr>open_inodes := []\<rparr>"

fun find_inode :: "nat list \<Rightarrow> sector \<Rightarrow> 'a files_scheme \<Rightarrow> nat option option" where
  \<comment> \<open>the loop of \<open>inode_open\<close>; the inner \<open>None\<close>: not open\<close>
  "find_inode [] sec s = Some None"
| "find_inode (p # ps) sec s = do {
     i \<leftarrow> inode_at s p;
     if in_sector i = sec then Some (Some p) else find_inode ps sec s
   }"

definition inode_reopen :: "nat \<Rightarrow> nat" where
  "inode_reopen p = p"

definition inode_open :: "sector \<Rightarrow> 'a files_scheme \<Rightarrow> (nat \<times> 'a files_scheme) option" where
  "inode_open sec s = do {
     found \<leftarrow> find_inode (open_inodes s) sec s;
     (case found of
        Some p \<Rightarrow> Some (inode_reopen p, s)
      | None \<Rightarrow> do {
          let p = length (inode_heap s);
          let s = s\<lparr>open_inodes := p # open_inodes s\<rparr>;
          (b, s) \<leftarrow> buffer_cache_read sec s;
          Some (p, s\<lparr>inode_heap := inode_heap s @
            [Some \<lparr>in_sector = sec, open_cnt = 1, removed = False, deny_write_cnt = 0, in_data = inode_of_image b\<rparr>]\<rparr>)
        })
   }"

definition inode_get_inumber :: "nat \<Rightarrow> 'a files_scheme \<Rightarrow> sector option" where
  "inode_get_inumber p s = do { i \<leftarrow> inode_at s p; Some (in_sector i) }"

definition inode_remove :: "nat \<Rightarrow> 'a files_scheme \<Rightarrow> 'a files_scheme option" where
  "inode_remove p s = do { i \<leftarrow> inode_at s p; Some (put_inode p (i\<lparr>removed := True\<rparr>) s) }"

definition inode_length :: "nat \<Rightarrow> 'a files_scheme \<Rightarrow> int option" where
  "inode_length p s = do { i \<leftarrow> inode_at s p; Some (id_length (in_data i)) }"

definition inode_is_directory :: "nat \<Rightarrow> 'a files_scheme \<Rightarrow> bool option" where
  "inode_is_directory p s = do { i \<leftarrow> inode_at s p; Some (is_dir (in_data i)) }"

definition inode_is_removed :: "nat \<Rightarrow> 'a files_scheme \<Rightarrow> bool option" where
  "inode_is_removed p s = do { i \<leftarrow> inode_at s p; Some (removed i) }"

definition inode_deny_write :: "nat \<Rightarrow> 'a files_scheme \<Rightarrow> 'a files_scheme option" where
  "inode_deny_write p s = do {
     i \<leftarrow> inode_at s p;
     let i = i\<lparr>deny_write_cnt := deny_write_cnt i + 1\<rparr>;
     Some (ASSERT ''fs/inode.c'' 372 ''inode_deny_write'' (deny_write_cnt i \<le> open_cnt i) (put_inode p i s))
   }"

definition inode_allow_write :: "nat \<Rightarrow> 'a files_scheme \<Rightarrow> 'a files_scheme option" where
  "inode_allow_write p s = do {
     i \<leftarrow> inode_at s p;
     let s = ASSERT ''fs/inode.c'' 380 ''inode_allow_write'' (deny_write_cnt i > 0) s;
     let s = ASSERT ''fs/inode.c'' 381 ''inode_allow_write'' (deny_write_cnt i \<le> open_cnt i) s;
     Some (put_inode p (i\<lparr>deny_write_cnt := deny_write_cnt i - 1\<rparr>) s)
   }"

section \<open>Reading and writing\<close>

definition slice :: "int \<Rightarrow> int \<Rightarrow> bytes \<Rightarrow> bytes option" where
  \<comment> \<open>\<open>n\<close> bytes at \<open>off\<close> of a buffer\<close>
  "slice off n b = (if 0 \<le> off \<and> 0 \<le> n \<and> off + n \<le> int (length b)
     then Some (take (nat n) (drop (nat off) b)) else None)"

function read_loop :: "inode_disk \<Rightarrow> int \<Rightarrow> int \<Rightarrow> 'a cached_scheme \<Rightarrow> (bytes \<times> 'a cached_scheme) option" where
  "read_loop d sz offset s =
     (if sz \<le> 0 then Some ([], s)
      else do {
        (sector_idx, s) \<leftarrow> byte_to_sector d offset s;
        let sector_ofs = offset smod int BLOCK_SECTOR_SIZE;
        inode_left \<leftarrow> off32 (id_length d - offset);
        let sector_left = int BLOCK_SECTOR_SIZE - sector_ofs;
        let chunk_size = min sz (min inode_left sector_left);
        if chunk_size \<le> 0 then Some ([], s)
        else do {
          (b, s) \<leftarrow> buffer_cache_read sector_idx s;
          piece \<leftarrow> (if sector_ofs = 0 \<and> chunk_size = int BLOCK_SECTOR_SIZE then Some b
                    else slice sector_ofs chunk_size b);
          offset \<leftarrow> off32 (offset + chunk_size);
          (rest, s) \<leftarrow> read_loop d (sz - chunk_size) offset s;
          Some (piece @ rest, s)
        }
      })"
  by pat_completeness auto
termination
  by (relation "measure (\<lambda>(d, sz, offset, s). nat sz)") auto

declare read_loop.simps [simp del]

definition inode_read_at :: "nat \<Rightarrow> int \<Rightarrow> int \<Rightarrow> 'a files_scheme \<Rightarrow> (bytes \<times> 'a files_scheme) option" where
  \<comment> \<open>the bytes put in \<open>buffer\<close>; the result of the code is their number\<close>
  "inode_read_at p sz offset s = do {
     i \<leftarrow> inode_at s p;
     read_loop (in_data i) sz offset s
   }"

definition write_chunk :: "sector \<Rightarrow> int \<Rightarrow> int \<Rightarrow> bytes \<Rightarrow> 'a cached_scheme \<Rightarrow> 'a cached_scheme option" where
  \<comment> \<open>the part of a turn of the loop below that writes \<open>piece\<close> to one sector\<close>
  "write_chunk sector_idx sector_ofs chunk_size piece s =
     (if sector_ofs = 0 \<and> chunk_size = int BLOCK_SECTOR_SIZE
      then buffer_cache_write sector_idx piece s
      else do {
        (bounce, s) \<leftarrow> (if sector_ofs > 0 \<or> chunk_size < int BLOCK_SECTOR_SIZE - sector_ofs
                        then buffer_cache_read sector_idx s
                        else Some (replicate BLOCK_SECTOR_SIZE 0, s));
        bounce \<leftarrow> (if 0 \<le> sector_ofs then blit bounce (nat sector_ofs) piece else None);
        buffer_cache_write sector_idx bounce s
      })"

function write_loop ::
  "inode_disk \<Rightarrow> bytes \<Rightarrow> int \<Rightarrow> int \<Rightarrow> 'a cached_scheme \<Rightarrow> (int \<times> 'a cached_scheme) option" where
  \<comment> \<open>\<open>buf\<close>: the buffer from \<open>bytes_written\<close> on\<close>
  "write_loop d buf sz offset s =
     (if sz \<le> 0 then Some (0, s)
      else do {
        (sector_idx, s) \<leftarrow> byte_to_sector d offset s;
        let sector_ofs = offset smod int BLOCK_SECTOR_SIZE;
        inode_left \<leftarrow> off32 (id_length d - offset);
        let sector_left = int BLOCK_SECTOR_SIZE - sector_ofs;
        let chunk_size = min sz (min inode_left sector_left);
        if chunk_size \<le> 0 then Some (0, s)
        else do {
          piece \<leftarrow> slice 0 chunk_size buf;
          s \<leftarrow> write_chunk sector_idx sector_ofs chunk_size piece s;
          offset \<leftarrow> off32 (offset + chunk_size);
          (n, s) \<leftarrow> write_loop d (drop (nat chunk_size) buf) (sz - chunk_size) offset s;
          Some (chunk_size + n, s)
        }
      })"
  by pat_completeness auto
termination
  by (relation "measure (\<lambda>(d, buf, sz, offset, s). nat sz)") auto

declare write_loop.simps [simp del]

section \<open>Reserving sectors\<close>

definition disk_at :: "'a files_scheme \<Rightarrow> disk_ref \<Rightarrow> inode_disk option" where
  "disk_at s r = (case r of
     Data_of p \<Rightarrow> map_option in_data (inode_at s p)
   | Own q \<Rightarrow> do { d \<leftarrow> rd (disk_heap s) q; d })"

definition put_disk :: "disk_ref \<Rightarrow> inode_disk \<Rightarrow> 'a files_scheme \<Rightarrow> 'a files_scheme option" where
  "put_disk r d s = (case r of
     Data_of p \<Rightarrow> do { i \<leftarrow> inode_at s p; Some (put_inode p (i\<lparr>in_data := d\<rparr>) s) }
   | Own q \<Rightarrow> do { h \<leftarrow> wr (disk_heap s) q (Some d); Some (s\<lparr>disk_heap := h\<rparr>) })"

definition entry_at :: "'a files_scheme \<Rightarrow> entry_ref \<Rightarrow> sector option" where
  "entry_at s e = (case e of
     Indirect_of r \<Rightarrow> map_option indirect_block (disk_at s r)
   | Doubly_of r \<Rightarrow> map_option doubly_indirect_block (disk_at s r)
   | Block_of b i \<Rightarrow> do { bs \<leftarrow> rd (block_stack s) b; rd bs i })"

definition put_entry :: "entry_ref \<Rightarrow> sector \<Rightarrow> 'a files_scheme \<Rightarrow> 'a files_scheme option" where
  "put_entry e x s = (case e of
     Indirect_of r \<Rightarrow> do { d \<leftarrow> disk_at s r; put_disk r (d\<lparr>indirect_block := x\<rparr>) s }
   | Doubly_of r \<Rightarrow> do { d \<leftarrow> disk_at s r; put_disk r (d\<lparr>doubly_indirect_block := x\<rparr>) s }
   | Block_of b i \<Rightarrow> do {
       bs \<leftarrow> rd (block_stack s) b;
       bs \<leftarrow> wr bs i x;
       Some (s\<lparr>block_stack := (block_stack s)[b := bs]\<rparr>)
     })"

definition zeros :: bytes where
  "zeros = replicate BLOCK_SECTOR_SIZE 0"

fun reserve_direct ::
  "'a files_scheme alloc \<Rightarrow> disk_ref \<Rightarrow> nat list \<Rightarrow> 'a files_scheme \<Rightarrow> (bool \<times> 'a files_scheme) option" where
  "reserve_direct alloc r [] s = Some (True, s)"
| "reserve_direct alloc r (i # is) s = do {
     d \<leftarrow> disk_at s r;
     x \<leftarrow> rd (direct_blocks d) i;
     if x \<noteq> 0 then reserve_direct alloc r is s
     else do {
       (got, s) \<leftarrow> alloc s;
       (case got of
          None \<Rightarrow> Some (False, s)
        | Some x \<Rightarrow> do {
            d \<leftarrow> disk_at s r;
            bs \<leftarrow> wr (direct_blocks d) i x;
            s \<leftarrow> put_disk r (d\<lparr>direct_blocks := bs\<rparr>) s;
            s \<leftarrow> buffer_cache_write x zeros s;
            reserve_direct alloc r is s
          })
     }
   }"

fun reserve_each ::
  "(entry_ref \<Rightarrow> nat \<Rightarrow> 'a files_scheme \<Rightarrow> (bool \<times> 'a files_scheme) option) \<Rightarrow> nat \<Rightarrow> nat \<Rightarrow> nat list \<Rightarrow> nat \<Rightarrow>
   'a files_scheme \<Rightarrow> ((bool \<times> nat) \<times> 'a files_scheme) option" where
  \<comment> \<open>the loop over the entries of a block; \<open>num\<close>: the sectors that remain\<close>
  "reserve_each reserve unit b [] num s = Some ((True, num), s)"
| "reserve_each reserve unit b (i # is) num s = do {
     let subsize = min num unit;
     (ok, s) \<leftarrow> reserve (Block_of b i) subsize s;
     if \<not> ok then Some ((False, num), s)
     else reserve_each reserve unit b is (num - subsize) s
   }"

primrec inode_reserve_indirect ::
  "nat \<Rightarrow> 'a files_scheme alloc \<Rightarrow> entry_ref \<Rightarrow> nat \<Rightarrow> 'a files_scheme \<Rightarrow> (bool \<times> 'a files_scheme) option" where
  "inode_reserve_indirect 0 alloc p_entry num_sectors s = do {
     let s = ASSERT ''fs/inode.c'' 408 ''inode_reserve_indirect'' ((0::nat) \<le> 2) s;
     e \<leftarrow> entry_at s p_entry;
     if e \<noteq> 0 then Some (True, s)
     else do {
       (got, s) \<leftarrow> alloc s;
       (case got of
          None \<Rightarrow> Some (False, s)
        | Some x \<Rightarrow> do {
            s \<leftarrow> put_entry p_entry x s;
            s \<leftarrow> buffer_cache_write x zeros s;
            Some (True, s)
          })
     }
   }"
| "inode_reserve_indirect (Suc level) alloc p_entry num_sectors s = do {
     let s = ASSERT ''fs/inode.c'' 408 ''inode_reserve_indirect'' (Suc level \<le> 2) s;
     e \<leftarrow> entry_at s p_entry;
     s \<leftarrow> (if e \<noteq> 0 then Some s
            else do {
              (got, s) \<leftarrow> alloc s;
              s \<leftarrow> (case got of None \<Rightarrow> Some s | Some x \<Rightarrow> put_entry p_entry x s);
              e \<leftarrow> entry_at s p_entry;
              buffer_cache_write e zeros s
            });
     e \<leftarrow> entry_at s p_entry;
     (indirect_block, s) \<leftarrow> read_blocks e s;
     let b = length (block_stack s);
     let s = s\<lparr>block_stack := block_stack s @ [indirect_block]\<rparr>;
     let unit = (if Suc level = 1 then 1 else INDIRECT_BLOCKS_PER_SECTOR);
     ((ok, num), s) \<leftarrow> reserve_each (inode_reserve_indirect level alloc) unit b
                        [0..<DIV_ROUND_UP num_sectors unit] num_sectors s;
     indirect_block \<leftarrow> rd (block_stack s) b;
     let s = s\<lparr>block_stack := take b (block_stack s)\<rparr>;
     if \<not> ok then Some (False, s)
     else do {
       let s = ASSERT ''fs/inode.c'' 444 ''inode_reserve_indirect'' (num = 0) s;
       e \<leftarrow> entry_at s p_entry;
       s \<leftarrow> buffer_cache_write e (bytes_of_words 4 indirect_block) s;
       Some (True, s)
     }
   }"

definition inode_reserve ::
  "'a files_scheme alloc \<Rightarrow> disk_ref \<Rightarrow> int \<Rightarrow> 'a files_scheme \<Rightarrow> (bool \<times> 'a files_scheme) option" where
  "inode_reserve alloc r len s =
     (if len < 0 then Some (False, s)
      else do {
        num \<leftarrow> bytes_to_sectors len;
        let l = min num DIRECT_BLOCKS_COUNT;
        (ok, s) \<leftarrow> reserve_direct alloc r [0..<l] s;
        if \<not> ok then Some (False, s)
        else let num = num - l in
        if num = 0 then Some (True, s)
        else do {
          let l = min num INDIRECT_BLOCKS_PER_SECTOR;
          (ok, s) \<leftarrow> inode_reserve_indirect 1 alloc (Indirect_of r) l s;
          if \<not> ok then Some (False, s)
          else let num = num - l in
          if num = 0 then Some (True, s)
          else do {
            let l = min num (INDIRECT_BLOCKS_PER_SECTOR * INDIRECT_BLOCKS_PER_SECTOR);
            (ok, s) \<leftarrow> inode_reserve_indirect 2 alloc (Doubly_of r) l s;
            if \<not> ok then Some (False, s)
            else let num = num - l in
            if num = 0 then Some (True, s)
            else Some (False, ASSERT ''fs/inode.c'' 495 ''inode_reserve'' (num = 0) s)
          }
        }
      })"

definition inode_allocate ::
  "'a files_scheme alloc \<Rightarrow> disk_ref \<Rightarrow> 'a files_scheme \<Rightarrow> (bool \<times> 'a files_scheme) option" where
  "inode_allocate alloc r s = do { d \<leftarrow> disk_at s r; inode_reserve alloc r (id_length d) s }"

section \<open>Writing an inode\<close>

definition extend_inode ::
  "'a files_scheme alloc \<Rightarrow> nat \<Rightarrow> int \<Rightarrow> 'a files_scheme \<Rightarrow> (bool \<times> 'a files_scheme) option" where
  \<comment> \<open>the branch of \<open>inode_write_at\<close> for a write beyond the end, up to byte \<open>n\<close>\<close>
  "extend_inode alloc p n s = do {
     (success, s) \<leftarrow> inode_reserve alloc (Data_of p) n s;
     if \<not> success then Some (False, s)
     else do {
       i \<leftarrow> inode_at s p;
       let i = i\<lparr>in_data := (in_data i)\<lparr>id_length := n\<rparr>\<rparr>;
       s \<leftarrow> buffer_cache_write (in_sector i) (inode_image (in_data i)) (put_inode p i s);
       Some (True, s)
     }
   }"

definition inode_write_at ::
  "'a files_scheme alloc \<Rightarrow> nat \<Rightarrow> ('a files_scheme \<Rightarrow> bytes option) \<Rightarrow> int \<Rightarrow> int \<Rightarrow> 'a files_scheme \<Rightarrow>
   (int \<times> 'a files_scheme) option" where
  \<comment> \<open>\<open>buf\<close>: what the buffer holds when the bytes are copied\<close>
  "inode_write_at alloc p buf sz offset s = do {
     i \<leftarrow> inode_at s p;
     if deny_write_cnt i \<noteq> 0 then Some (0, s)
     else do {
       n \<leftarrow> off32 (offset + sz);
       pos \<leftarrow> off32 (n - 1);
       (sec, s) \<leftarrow> byte_to_sector (in_data i) pos s;
       (success, s) \<leftarrow> (if sec = -1 then extend_inode alloc p n s else Some (True, s));
       if \<not> success then Some (0, s)
       else do {
         i \<leftarrow> inode_at s p;
         b \<leftarrow> buf s;
         write_loop (in_data i) b sz offset s
       }
     }
   }"

end
