(* ===== verification/Files.thy ===== *)
theory Files
  imports Inodes
begin

text \<open>
  Open files, the free map and the life of inodes: \<open>a3/fs/file.c\<close>, \<open>a3/fs/free-map.c\<close>, the file operations of
  \<open>a3/fs/bitmap.c\<close> and the functions of \<open>a3/fs/inode.c\<close> that allocate or release sectors. An open file is a
  pointer \<open>nat\<close> into \<open>file_heap\<close>; \<open>None\<close> is the null pointer where the code passes one.
\<close>

section \<open>Files on inodes and bitmaps in files\<close>

definition file_at :: "'a files_scheme \<Rightarrow> nat \<Rightarrow> open_file option" where
  "file_at s f = do { x \<leftarrow> rd (file_heap s) f; x }"

definition put_file :: "nat \<Rightarrow> open_file \<Rightarrow> 'a files_scheme \<Rightarrow> 'a files_scheme" where
  "put_file f x s = s\<lparr>file_heap := (file_heap s)[f := Some x]\<rparr>"

definition file_read_at :: "nat \<Rightarrow> int \<Rightarrow> int \<Rightarrow> 'a files_scheme \<Rightarrow> (bytes \<times> 'a files_scheme) option" where
  "file_read_at f sz file_ofs s = do { x \<leftarrow> file_at s f; inode_read_at (f_inode x) sz file_ofs s }"

definition file_write_at ::
  "'a files_scheme alloc \<Rightarrow> nat \<Rightarrow> ('a files_scheme \<Rightarrow> bytes option) \<Rightarrow> int \<Rightarrow> int \<Rightarrow> 'a files_scheme \<Rightarrow>
   (int \<times> 'a files_scheme) option" where
  "file_write_at alloc f buf sz file_ofs s = do {
     x \<leftarrow> file_at s f;
     inode_write_at alloc (f_inode x) buf sz file_ofs s
   }"

definition bitmap_bytes :: "'a files_scheme \<Rightarrow> bytes option" where
  \<comment> \<open>the memory behind \<open>free_map->bits\<close>\<close>
  "bitmap_bytes s = do { b \<leftarrow> free_map s; Some (bytes_of_words 8 (bits b)) }"

definition bitmap_write ::
  "'a files_scheme alloc \<Rightarrow> nat option \<Rightarrow> 'a files_scheme \<Rightarrow> (bool \<times> 'a files_scheme) option" where
  \<comment> \<open>of the free map, the only bitmap the code writes\<close>
  "bitmap_write alloc fp s = do {
     f \<leftarrow> fp;
     b \<leftarrow> free_map s;
     let sz = int (byte_cnt (bit_cnt b));
     (n, s) \<leftarrow> file_write_at alloc f bitmap_bytes sz 0 s;
     Some (n = sz, s)
   }"

definition mask_last :: "bitmap \<Rightarrow> bitmap option" where
  "mask_last b = do {
     e \<leftarrow> rd (bits b) (elem_cnt (bit_cnt b) - 1);
     es \<leftarrow> wr (bits b) (elem_cnt (bit_cnt b) - 1) (and e (last_mask b));
     Some (b\<lparr>bits := es\<rparr>)
   }"

definition bitmap_read :: "nat \<Rightarrow> 'a files_scheme \<Rightarrow> (bool \<times> 'a files_scheme) option" where
  \<comment> \<open>into the free map\<close>
  "bitmap_read f s = do {
     b \<leftarrow> free_map s;
     if bit_cnt b > 0 then do {
       let sz = byte_cnt (bit_cnt b);
       (data, s) \<leftarrow> file_read_at f (int sz) 0 s;
       image \<leftarrow> blit (bytes_of_words 8 (bits b)) 0 data;
       b \<leftarrow> mask_last (b\<lparr>bits := words_of_bytes 8 (length (bits b)) image\<rparr>);
       Some (length data = sz, s\<lparr>free_map := Some b\<rparr>)
     }
     else Some (True, s)
   }"

section \<open>The free map\<close>

primrec allocate_nested :: "nat \<Rightarrow> nat \<Rightarrow> 'a files_scheme \<Rightarrow> (sector option \<times> 'a files_scheme) option" where
  \<comment> \<open>\<open>free_map_allocate\<close> with at most \<open>fuel\<close> calls of it running inside each other; the result is what it
      stores through \<open>sectorp\<close> when it returns true\<close>
  "allocate_nested 0 cnt s = None"
| "allocate_nested (Suc fuel) cnt s = do {
     b \<leftarrow> free_map s;
     ((idx, b), s) \<leftarrow> bitmap_scan_and_flip b 0 cnt False s;
     let s = s\<lparr>free_map := Some b\<rparr>;
     let error = (of_nat BITMAP_ERROR :: sector);
     let sector = (of_nat idx :: sector);
     (sector, s) \<leftarrow> (if sector \<noteq> error \<and> free_map_file s \<noteq> None
       then do {
         (written, s) \<leftarrow> bitmap_write (allocate_nested fuel 1) (free_map_file s) s;
         if written then Some (sector, s)
         else do {
           b \<leftarrow> free_map s;
           (b, s) \<leftarrow> bitmap_set_multiple b (unat sector) cnt False s;
           Some (error, s\<lparr>free_map := Some b\<rparr>)
         }
       }
       else Some (sector, s));
     Some (if sector \<noteq> error then Some sector else None, s)
   }"

definition nesting :: "'a files_scheme \<Rightarrow> nat" where
  \<comment> \<open>a call that is still running holds a bit of the map\<close>
  "nesting s = (case free_map s of None \<Rightarrow> 1 | Some b \<Rightarrow> bit_cnt b + 2)"

definition free_map_allocate :: "nat \<Rightarrow> 'a files_scheme \<Rightarrow> (sector option \<times> 'a files_scheme) option" where
  "free_map_allocate cnt s = allocate_nested (nesting s) cnt s"

definition free_map_init :: "'a files_scheme \<Rightarrow> 'a files_scheme option" where
  \<comment> \<open>with memory available\<close>
  "free_map_init s = do {
     n \<leftarrow> block_size (fs_device s) s;
     (ob, s) \<leftarrow> bitmap_create True True (unat (n - 1)) s;
     let s = (if ob = None then debug_panic ''fs/free-map.c'' 17 ''free_map_init''
                ''bitmap creation failed--file system device is too large'' s else s);
     b \<leftarrow> ob;
     b \<leftarrow> bitmap_mark b (unat FREE_MAP_SECTOR);
     b \<leftarrow> bitmap_mark b (unat ROOT_DIR_SECTOR);
     Some (s\<lparr>free_map := Some b\<rparr>)
   }"

definition num_free_sectors :: "'a files_scheme \<Rightarrow> (nat \<times> 'a files_scheme) option" where
  "num_free_sectors s = do {
     b \<leftarrow> free_map s;
     bitmap_count b 0 (bitmap_size b) False s
   }"

definition free_map_release :: "sector \<Rightarrow> nat \<Rightarrow> 'a files_scheme \<Rightarrow> 'a files_scheme option" where
  "free_map_release sector cnt s = do {
     b \<leftarrow> free_map s;
     (r, s) \<leftarrow> bitmap_all b (unat sector) cnt s;
     let s = ASSERT ''fs/free-map.c'' 45 ''free_map_release'' r s;
     (b, s) \<leftarrow> bitmap_set_multiple b (unat sector) cnt False s;
     let s = s\<lparr>free_map := Some b\<rparr>;
     (_, s) \<leftarrow> bitmap_write (free_map_allocate 1) (free_map_file s) s;
     Some s
   }"

section \<open>Creation of inodes\<close>

definition inode_create :: "sector \<Rightarrow> int \<Rightarrow> bool \<Rightarrow> 'a files_scheme \<Rightarrow> (bool \<times> 'a files_scheme) option" where
  "inode_create sector len dir s = do {
     let s = ASSERT ''fs/inode.c'' 117 ''inode_create'' (0 \<le> len) s;
     let q = length (disk_heap s);
     let d = \<lparr>direct_blocks = replicate DIRECT_BLOCKS_COUNT 0, indirect_block = 0, doubly_indirect_block = 0,
              is_dir = dir, id_pad = [0, 0, 0], id_length = len, magic = INODE_MAGIC\<rparr>;
     let s = s\<lparr>disk_heap := disk_heap s @ [Some d]\<rparr>;
     (ok, s) \<leftarrow> inode_allocate (free_map_allocate 1) (Own q) s;
     d \<leftarrow> disk_at s (Own q);
     s \<leftarrow> (if ok then buffer_cache_write sector (inode_image d) s else Some s);
     Some (ok, s\<lparr>disk_heap := (disk_heap s)[q := None]\<rparr>)
   }"

section \<open>Releasing the sectors of an inode\<close>

fun deallocate_each ::
  "(sector \<Rightarrow> nat \<Rightarrow> 'a files_scheme \<Rightarrow> 'a files_scheme option) \<Rightarrow> nat \<Rightarrow> sector list \<Rightarrow> nat list \<Rightarrow> nat \<Rightarrow>
   'a files_scheme \<Rightarrow> (nat \<times> 'a files_scheme) option" where
  "deallocate_each dealloc unit block [] num s = Some (num, s)"
| "deallocate_each dealloc unit block (i # is) num s = do {
     let subsize = min num unit;
     e \<leftarrow> rd block i;
     s \<leftarrow> dealloc e subsize s;
     deallocate_each dealloc unit block is (num - subsize) s
   }"

primrec inode_deallocate_indirect ::
  "nat \<Rightarrow> sector \<Rightarrow> nat \<Rightarrow> 'a files_scheme \<Rightarrow> 'a files_scheme option" where
  "inode_deallocate_indirect 0 entry num_sectors s =
     free_map_release entry 1 (ASSERT ''fs/inode.c'' 503 ''inode_deallocate_indirect'' ((0::nat) \<le> 2) s)"
| "inode_deallocate_indirect (Suc level) entry num_sectors s = do {
     let s = ASSERT ''fs/inode.c'' 503 ''inode_deallocate_indirect'' (Suc level \<le> 2) s;
     (block, s) \<leftarrow> read_blocks entry s;
     let unit = (if Suc level = 1 then 1 else INDIRECT_BLOCKS_PER_SECTOR);
     (num, s) \<leftarrow> deallocate_each (inode_deallocate_indirect level) unit block
                  [0..<DIV_ROUND_UP num_sectors unit] num_sectors s;
     let s = ASSERT ''fs/inode.c'' 524 ''inode_deallocate_indirect'' (num = 0) s;
     free_map_release entry 1 s
   }"

fun release_direct :: "nat \<Rightarrow> nat list \<Rightarrow> 'a files_scheme \<Rightarrow> 'a files_scheme option" where
  "release_direct p [] s = Some s"
| "release_direct p (i # is) s = do {
     n \<leftarrow> inode_at s p;
     x \<leftarrow> rd (direct_blocks (in_data n)) i;
     s \<leftarrow> free_map_release x 1 s;
     release_direct p is s
   }"

definition inode_deallocate :: "nat \<Rightarrow> 'a files_scheme \<Rightarrow> (bool \<times> 'a files_scheme) option" where
  "inode_deallocate p s = do {
     i \<leftarrow> inode_at s p;
     let len = id_length (in_data i);
     if len < 0 then Some (False, s)
     else do {
       num \<leftarrow> bytes_to_sectors len;
       let l = min num DIRECT_BLOCKS_COUNT;
       s \<leftarrow> release_direct p [0..<l] s;
       let num = num - l;
       let l = min num INDIRECT_BLOCKS_PER_SECTOR;
       i \<leftarrow> inode_at s p;
       s \<leftarrow> (if l > 0 then inode_deallocate_indirect 1 (indirect_block (in_data i)) l s else Some s);
       let num = num - l;
       let l = min num (INDIRECT_BLOCKS_PER_SECTOR * INDIRECT_BLOCKS_PER_SECTOR);
       i \<leftarrow> inode_at s p;
       s \<leftarrow> (if l > 0 then inode_deallocate_indirect 2 (doubly_indirect_block (in_data i)) l s else Some s);
       let num = num - l;
       Some (True, ASSERT ''fs/inode.c'' 563 ''inode_deallocate'' (num = 0) s)
     }
   }"

definition inode_close :: "nat option \<Rightarrow> 'a files_scheme \<Rightarrow> 'a files_scheme option" where
  "inode_close pp s = (case pp of
     None \<Rightarrow> Some s
   | Some p \<Rightarrow> do {
       i \<leftarrow> inode_at s p;
       let i = i\<lparr>open_cnt := open_cnt i - 1\<rparr>;
       let s = put_inode p i s;
       if open_cnt i = 0 then do {
         let s = s\<lparr>open_inodes := remove1 p (open_inodes s)\<rparr>;
         s \<leftarrow> (if removed i then do {
                  s \<leftarrow> free_map_release (in_sector i) 1 s;
                  (_, s) \<leftarrow> inode_deallocate p s;
                  Some s
                } else Some s);
         Some (s\<lparr>inode_heap := (inode_heap s)[p := None]\<rparr>)
       }
       else Some s
     })"

section \<open>The data sectors of an inode\<close>

fun second_level :: "sector list \<Rightarrow> nat list \<Rightarrow> nat \<Rightarrow> 'a cached_scheme \<Rightarrow> (sector list \<times> 'a cached_scheme) option" where
  \<comment> \<open>the loop over the blocks of the doubly indirect block, \<open>num\<close> sectors remaining\<close>
  "second_level block [] num s = Some ([], s)"
| "second_level block (i # is) num s = do {
     let subsize = min num INDIRECT_BLOCKS_PER_SECTOR;
     e \<leftarrow> rd block i;
     (block2, s) \<leftarrow> read_blocks e s;
     (rest, s) \<leftarrow> second_level block is (num - subsize) s;
     Some (take subsize block2 @ rest, s)
   }"

definition get_inode_data_sectors ::
  "nat \<Rightarrow> 'a files_scheme \<Rightarrow> (sector list option \<times> 'a files_scheme) option" where
  \<comment> \<open>the array of \<open>bytes_to_sectors\<close> elements; the inner \<open>None\<close> is the null pointer\<close>
  "get_inode_data_sectors p s = do {
     i \<leftarrow> inode_at s p;
     let d = in_data i;
     if id_length d < 0 then Some (None, s)
     else do {
       num \<leftarrow> bytes_to_sectors (id_length d);
       let l = min num DIRECT_BLOCKS_COUNT;
       let direct = take l (direct_blocks d);
       let num = num - l;
       let l = min num INDIRECT_BLOCKS_PER_SECTOR;
       (single, s) \<leftarrow> (if l > 0 then do {
                         (block, s) \<leftarrow> read_blocks (indirect_block d) s;
                         Some (take l block, s)
                       } else Some ([], s));
       let num = num - l;
       let l = min num (INDIRECT_BLOCKS_PER_SECTOR * INDIRECT_BLOCKS_PER_SECTOR);
       (double, s) \<leftarrow> (if l > 0 then do {
                         (block, s) \<leftarrow> read_blocks (doubly_indirect_block d) s;
                         second_level block [0..<DIV_ROUND_UP l INDIRECT_BLOCKS_PER_SECTOR] l s
                       } else Some ([], s));
       let num = num - l;
       let s = ASSERT ''fs/inode.c'' 641 ''get_inode_data_sectors'' (num = 0) s;
       Some (Some (direct @ single @ double), s)
     }
   }"

section \<open>Open files\<close>

definition file_open :: "nat option \<Rightarrow> 'a files_scheme \<Rightarrow> (nat option \<times> 'a files_scheme) option" where
  "file_open inode s = (case inode of
     Some p \<Rightarrow> Some (Some (length (file_heap s)),
                 s\<lparr>file_heap := file_heap s @ [Some \<lparr>f_inode = p, f_pos = 0, f_deny_write = False\<rparr>]\<rparr>)
   | None \<Rightarrow> do { s \<leftarrow> inode_close None s; Some (None, s) })"

definition file_get_inode :: "nat \<Rightarrow> 'a files_scheme \<Rightarrow> nat option" where
  "file_get_inode f s = do { x \<leftarrow> file_at s f; Some (f_inode x) }"

definition file_reopen :: "nat \<Rightarrow> 'a files_scheme \<Rightarrow> (nat option \<times> 'a files_scheme) option" where
  "file_reopen f s = do { x \<leftarrow> file_at s f; file_open (Some (inode_reopen (f_inode x))) s }"

text \<open>The functions below fail their assertion on a null pointer and then read through it.\<close>

definition not_null :: "nat \<Rightarrow> string \<Rightarrow> nat option \<Rightarrow> 'a files_scheme \<Rightarrow> (nat \<times> 'a files_scheme) option" where
  "not_null line fn fp s =
     (let s = ASSERT ''fs/file.c'' line fn (fp \<noteq> None) s in do { f \<leftarrow> fp; Some (f, s) })"

definition file_deny_write :: "nat option \<Rightarrow> 'a files_scheme \<Rightarrow> 'a files_scheme option" where
  "file_deny_write fp s = do {
     (f, s) \<leftarrow> not_null 155 ''file_deny_write'' fp s;
     x \<leftarrow> file_at s f;
     if f_deny_write x then Some s
     else inode_deny_write (f_inode x) (put_file f (x\<lparr>f_deny_write := True\<rparr>) s)
   }"

definition file_allow_write :: "nat option \<Rightarrow> 'a files_scheme \<Rightarrow> 'a files_scheme option" where
  "file_allow_write fp s = do {
     (f, s) \<leftarrow> not_null 166 ''file_allow_write'' fp s;
     x \<leftarrow> file_at s f;
     if f_deny_write x then inode_allow_write (f_inode x) (put_file f (x\<lparr>f_deny_write := False\<rparr>) s)
     else Some s
   }"

definition file_length :: "nat option \<Rightarrow> 'a files_scheme \<Rightarrow> (int \<times> 'a files_scheme) option" where
  "file_length fp s = do {
     (f, s) \<leftarrow> not_null 175 ''file_length'' fp s;
     x \<leftarrow> file_at s f;
     n \<leftarrow> inode_length (f_inode x) s;
     Some (n, s)
   }"

definition file_seek :: "nat option \<Rightarrow> int \<Rightarrow> 'a files_scheme \<Rightarrow> 'a files_scheme option" where
  "file_seek fp new_pos s = do {
     (f, s) \<leftarrow> not_null 182 ''file_seek'' fp s;
     let s = ASSERT ''fs/file.c'' 183 ''file_seek'' (0 \<le> new_pos) s;
     x \<leftarrow> file_at s f;
     Some (put_file f (x\<lparr>f_pos := new_pos\<rparr>) s)
   }"

definition file_tell :: "nat option \<Rightarrow> 'a files_scheme \<Rightarrow> (int \<times> 'a files_scheme) option" where
  "file_tell fp s = do {
     (f, s) \<leftarrow> not_null 190 ''file_tell'' fp s;
     x \<leftarrow> file_at s f;
     Some (f_pos x, s)
   }"

definition file_close :: "nat option \<Rightarrow> 'a files_scheme \<Rightarrow> 'a files_scheme option" where
  "file_close fp s = (case fp of
     None \<Rightarrow> Some s
   | Some f \<Rightarrow> do {
       s \<leftarrow> file_allow_write (Some f) s;
       x \<leftarrow> file_at s f;
       s \<leftarrow> inode_close (Some (f_inode x)) s;
       Some (s\<lparr>file_heap := (file_heap s)[f := None]\<rparr>)
     })"

definition read_file :: "nat \<Rightarrow> int \<Rightarrow> 'a files_scheme \<Rightarrow> (bytes \<times> 'a files_scheme) option" where
  \<comment> \<open>\<open>file_read\<close>: the bytes read at the position of the file\<close>
  "read_file f sz s = do {
     x \<leftarrow> file_at s f;
     (data, s) \<leftarrow> inode_read_at (f_inode x) sz (f_pos x) s;
     pos \<leftarrow> off32 (f_pos x + int (length data));
     Some (data, put_file f (x\<lparr>f_pos := pos\<rparr>) s)
   }"

definition write_file :: "nat \<Rightarrow> bytes \<Rightarrow> int \<Rightarrow> 'a files_scheme \<Rightarrow> (int \<times> 'a files_scheme) option" where
  \<comment> \<open>\<open>file_write\<close>: the last byte of the buffer becomes the null terminator\<close>
  "write_file f buf sz s = do {
     buf \<leftarrow> (if 0 < sz then wr buf (nat (sz - 1)) 0 else None);
     x \<leftarrow> file_at s f;
     (n, s) \<leftarrow> inode_write_at (free_map_allocate 1) (f_inode x) (\<lambda>_. Some buf) sz (f_pos x) s;
     pos \<leftarrow> off32 (f_pos x + (n - 2));
     Some (n, put_file f (x\<lparr>f_pos := pos\<rparr>) s)
   }"

section \<open>The free map on disk\<close>

definition free_map_open :: "'a files_scheme \<Rightarrow> 'a files_scheme option" where
  "free_map_open s = do {
     (p, s) \<leftarrow> inode_open FREE_MAP_SECTOR s;
     (fp, s) \<leftarrow> file_open (Some p) s;
     let s = s\<lparr>free_map_file := fp\<rparr>;
     let s = (if fp = None then debug_panic ''fs/free-map.c'' 54 ''free_map_open'' ''can't open free map'' s else s);
     f \<leftarrow> fp;
     (ok, s) \<leftarrow> bitmap_read f s;
     Some (if \<not> ok then debug_panic ''fs/free-map.c'' 56 ''free_map_open'' ''can't read free map'' s else s)
   }"

definition free_map_close :: "'a files_scheme \<Rightarrow> 'a files_scheme option" where
  "free_map_close s = file_close (free_map_file s) s"

definition free_map_create :: "'a files_scheme \<Rightarrow> 'a files_scheme option" where
  "free_map_create s = do {
     b \<leftarrow> free_map s;
     (ok, s) \<leftarrow> inode_create FREE_MAP_SECTOR (int (bitmap_file_size b)) False s;
     let s = (if \<not> ok then debug_panic ''fs/free-map.c'' 67 ''free_map_create'' ''free map creation failed'' s else s);
     (p, s) \<leftarrow> inode_open FREE_MAP_SECTOR s;
     (fp, s) \<leftarrow> file_open (Some p) s;
     let s = s\<lparr>free_map_file := fp\<rparr>;
     let s = (if fp = None then debug_panic ''fs/free-map.c'' 74 ''free_map_create'' ''can't open free map'' s else s);
     (ok, s) \<leftarrow> bitmap_write (free_map_allocate 1) fp s;
     Some (if \<not> ok then debug_panic ''fs/free-map.c'' 76 ''free_map_create'' ''can't write free map'' s else s)
   }"

section \<open>The table of open files\<close>

definition init_file_table :: "'a files_scheme \<Rightarrow> 'a files_scheme" where
  "init_file_table s = s\<lparr>file_table := []\<rparr>"

definition get_file_by_fname :: "string \<Rightarrow> 'a files_scheme \<Rightarrow> nat option" where
  "get_file_by_fname name s = map_of (file_table s) name"

definition add_to_file_table :: "nat \<Rightarrow> string \<Rightarrow> 'a files_scheme \<Rightarrow> 'a files_scheme" where
  "add_to_file_table f name s =
     (if get_file_by_fname name s \<noteq> None then s else s\<lparr>file_table := file_table s @ [(name, f)]\<rparr>)"

fun remove_entry :: "string \<Rightarrow> (string \<times> nat) list \<Rightarrow> (string \<times> nat) list" where
  "remove_entry name [] = []"
| "remove_entry name (e # es) = (if fst e = name then es else e # remove_entry name es)"

definition remove_from_file_table :: "string \<Rightarrow> 'a files_scheme \<Rightarrow> (bool \<times> 'a files_scheme) option" where
  "remove_from_file_table name s = (case get_file_by_fname name s of
     None \<Rightarrow> Some (False, s)
   | Some f \<Rightarrow> do {
       s \<leftarrow> file_close (Some f) s;
       Some (True, s\<lparr>file_table := remove_entry name (file_table s)\<rparr>)
     })"

fun close_entries :: "(string \<times> nat) list \<Rightarrow> 'a files_scheme \<Rightarrow> 'a files_scheme option" where
  "close_entries [] s = Some s"
| "close_entries ((name, f) # es) s = do {
     s \<leftarrow> file_close (Some f) (s\<lparr>file_table := es\<rparr>);
     close_entries es s
   }"

definition free_file_table :: "'a files_scheme \<Rightarrow> 'a files_scheme option" where
  "free_file_table s = close_entries (file_table s) s"

end
