(* ===== verification/Directories.thy ===== *)
theory Directories
  imports Files
begin

text \<open>
  Directories and the file system on top of them (\<open>a3/fs/directory.c\<close>, \<open>a3/fs/filesys.c\<close>). A directory is an
  inode whose data is an array of entries of 36 bytes; the first entry names the parent. A \<open>struct dir\<close> is a
  pointer into \<open>dir_heap\<close>. Names are strings without null characters, buffers of names are bytes. The memory of
  uninitialised local variables that reaches the disk is the argument \<open>stale\<close>.
\<close>

section \<open>State\<close>

record dir =
  d_inode :: nat
  d_pos :: int
  d_open_cnt :: int

record dir_entry =
  inode_sector :: sector
  e_name :: bytes           \<comment> \<open>31 bytes\<close>
  in_use :: bool

record filesys = files +
  dir_heap :: "dir option list"
  cwd :: "nat option"
  host_files :: "string \<rightharpoonup> bytes"          \<comment> \<open>the files of the machine the shell runs on\<close>
  host_writable :: "string \<Rightarrow> bool"       \<comment> \<open>whether \<open>fopen\<close> creates or opens the file for writing\<close>

definition NAME_MAX :: nat where
  "NAME_MAX = 30"

definition MAX_FILES_IN_DIRECTORY :: nat where
  "MAX_FILES_IN_DIRECTORY = 1000"

definition entry_size :: int where
  \<comment> \<open>\<open>sizeof(struct dir_entry)\<close>\<close>
  "entry_size = 36"

section \<open>Names and entries as bytes\<close>

definition bytes_of :: "string \<Rightarrow> bytes" where
  "bytes_of = map (\<lambda>c. word_of_nat (of_char c))"

definition string_of :: "bytes \<Rightarrow> string" where
  "string_of = map (\<lambda>b. char_of (unat b))"

definition c_string :: "bytes \<Rightarrow> string option" where
  \<comment> \<open>the string in a buffer; reading it without a null byte leaves the buffer\<close>
  "c_string b = (if 0 \<in> set b then Some (string_of (takeWhile (\<lambda>x. x \<noteq> 0) b)) else None)"

definition strncpy :: "nat \<Rightarrow> string \<Rightarrow> bytes" where
  "strncpy n t = take n (bytes_of t @ replicate n 0)"

fun same_name :: "string \<Rightarrow> bytes \<Rightarrow> bool option" where
  \<comment> \<open>\<open>!strcmp(name, buffer)\<close>\<close>
  "same_name t [] = None"
| "same_name [] (b # bs) = Some (b = 0)"
| "same_name (c # cs) (b # bs) = (if b = word_of_nat (of_char c) then same_name cs bs else Some False)"

definition entry_image :: "dir_entry \<Rightarrow> bytes" where
  "entry_image e = le_bytes 4 (inode_sector e) @ e_name e @ [if in_use e then 1 else 0]"

definition entry_of_image :: "bytes \<Rightarrow> dir_entry" where
  "entry_of_image b =
     \<lparr>inode_sector = le_word (take 4 b), e_name = take 31 (drop 4 b), in_use = (b ! 35 \<noteq> 0)\<rparr>"

section \<open>Paths\<close>

fun path_tokens :: "string \<Rightarrow> string \<Rightarrow> string list" where
  \<comment> \<open>the tokens of \<open>strtok_r(s, "/", &p)\<close>; the second argument is the token read so far\<close>
  "path_tokens [] t = (if t = [] then [] else [t])"
| "path_tokens (c # cs) t =
     (if c = CHR ''/'' then (if t = [] then path_tokens cs [] else t # path_tokens cs [])
      else path_tokens cs (t @ [c]))"

fun split_tokens :: "string \<Rightarrow> string \<Rightarrow> string list \<Rightarrow> string \<times> string" where
  "split_tokens directory last_token [] = (directory, last_token)"
| "split_tokens directory last_token (token # ts) =
     split_tokens (if last_token = [] then directory else directory @ last_token @ ''/'') token ts"

definition split_path_filename :: "nat \<Rightarrow> nat \<Rightarrow> string \<Rightarrow> (string \<times> string) option" where
  \<comment> \<open>directory and file name, for buffers of \<open>nd\<close> and \<open>nf\<close> bytes\<close>
  "split_path_filename nd nf path =
     (let (directory, filename) = split_tokens (if path \<noteq> [] \<and> hd path = CHR ''/'' then ''/'' else []) []
                                    (path_tokens path [])
      in if length directory < nd \<and> length filename < nf then Some (directory, filename) else None)"

section \<open>Opening and closing directories\<close>

definition dir_at :: "'a filesys_scheme \<Rightarrow> nat \<Rightarrow> dir option" where
  "dir_at s p = do { x \<leftarrow> rd (dir_heap s) p; x }"

definition put_dir :: "nat \<Rightarrow> dir \<Rightarrow> 'a filesys_scheme \<Rightarrow> 'a filesys_scheme" where
  "put_dir p x s = s\<lparr>dir_heap := (dir_heap s)[p := Some x]\<rparr>"

definition dir_open :: "nat option \<Rightarrow> 'a filesys_scheme \<Rightarrow> (nat option \<times> 'a filesys_scheme) option" where
  "dir_open inode s = (case inode of
     Some p \<Rightarrow> Some (Some (length (dir_heap s)),
                 s\<lparr>dir_heap := dir_heap s @ [Some \<lparr>d_inode = p, d_pos = entry_size, d_open_cnt = 1\<rparr>]\<rparr>)
   | None \<Rightarrow> do { s \<leftarrow> inode_close None s; Some (None, s) })"

definition dir_open_root :: "'a filesys_scheme \<Rightarrow> (nat option \<times> 'a filesys_scheme) option" where
  "dir_open_root s = (case cwd s of
     None \<Rightarrow> do {
       (i, s) \<leftarrow> inode_open ROOT_DIR_SECTOR s;
       (p, s) \<leftarrow> dir_open (Some i) s;
       Some (p, s\<lparr>cwd := p\<rparr>)
     }
   | Some p \<Rightarrow> do {
       d \<leftarrow> dir_at s p;
       Some (Some p, put_dir p (d\<lparr>d_open_cnt := d_open_cnt d + 1\<rparr>) s)
     })"

definition dir_reopen :: "nat \<Rightarrow> 'a filesys_scheme \<Rightarrow> (nat option \<times> 'a filesys_scheme) option" where
  "dir_reopen p s = do { d \<leftarrow> dir_at s p; dir_open (Some (inode_reopen (d_inode d))) s }"

definition dir_close :: "nat option \<Rightarrow> 'a filesys_scheme \<Rightarrow> 'a filesys_scheme option" where
  "dir_close pp s = (case pp of
     None \<Rightarrow> Some s
   | Some p \<Rightarrow> do {
       d \<leftarrow> dir_at s p;
       let d = d\<lparr>d_open_cnt := d_open_cnt d - 1\<rparr>;
       let s = put_dir p d s;
       if d_open_cnt d = 0 then do {
         s \<leftarrow> inode_close (Some (d_inode d)) s;
         Some (s\<lparr>dir_heap := (dir_heap s)[p := None], cwd := None\<rparr>)
       }
       else Some s
     })"

definition dir_get_inode :: "nat \<Rightarrow> 'a filesys_scheme \<Rightarrow> nat option" where
  "dir_get_inode p s = do { d \<leftarrow> dir_at s p; Some (d_inode d) }"

section \<open>Entries\<close>

definition read_entry :: "inode_disk \<Rightarrow> int \<Rightarrow> 'a cached_scheme \<Rightarrow> (dir_entry option \<times> 'a cached_scheme) option" where
  \<comment> \<open>\<open>inode_read_at(.., &e, sizeof e, ofs) == sizeof e\<close>, and the entry\<close>
  "read_entry d ofs s = do {
     (b, s) \<leftarrow> read_loop d entry_size ofs s;
     Some (if int (length b) = entry_size then Some (entry_of_image b) else None, s)
   }"

lemma read_loop_inside: "read_loop d sz ofs s = Some (b, s') \<Longrightarrow> b \<noteq> [] \<Longrightarrow> ofs < id_length d"
  by (subst (asm) read_loop.simps) (auto simp: Let_def off32_def min_def split: if_splits bind_splits prod.splits)

lemma read_entry_inside: "read_entry d ofs s = Some (Some e, s') \<Longrightarrow> ofs < id_length d"
  using read_loop_inside by (fastforce simp: read_entry_def entry_size_def split: bind_splits prod.splits if_splits)

function find_entry ::
  "(dir_entry \<Rightarrow> bool option) \<Rightarrow> inode_disk \<Rightarrow> int \<Rightarrow> 'a cached_scheme \<Rightarrow>
   ((dir_entry option \<times> int) \<times> 'a cached_scheme) option" where
  \<comment> \<open>the loops over the entries from offset \<open>ofs\<close>: the first that satisfies the test and its offset, or the
      offset of the first short read\<close>
  "find_entry test d ofs s = do {
     (r, s) \<leftarrow> read_entry d ofs s;
     (case r of
        None \<Rightarrow> Some ((None, ofs), s)
      | Some e \<Rightarrow> do {
          found \<leftarrow> test e;
          if found then Some ((Some e, ofs), s)
          else do { ofs \<leftarrow> off32 (ofs + entry_size); find_entry test d ofs s }
        })
   }"
  by pat_completeness auto
termination
  by (relation "measure (\<lambda>(test, d, ofs, s). nat (id_length d - ofs))")
     (auto simp: off32_def entry_size_def dest!: read_entry_inside split: if_splits)

declare find_entry.simps [simp del]

definition lookup :: "nat \<Rightarrow> string \<Rightarrow> 'a filesys_scheme \<Rightarrow> ((dir_entry \<times> int) option \<times> 'a filesys_scheme) option" where
  \<comment> \<open>the entry and its offset\<close>
  "lookup p name s = do {
     d \<leftarrow> dir_at s p;
     i \<leftarrow> inode_at s (d_inode d);
     ((r, ofs), s) \<leftarrow> find_entry (\<lambda>e. if in_use e then same_name name (e_name e) else Some False)
                       (in_data i) entry_size s;
     Some (map_option (\<lambda>e. (e, ofs)) r, s)
   }"

definition dir_is_empty :: "nat \<Rightarrow> 'a filesys_scheme \<Rightarrow> (bool \<times> 'a filesys_scheme) option" where
  "dir_is_empty p s = do {
     d \<leftarrow> dir_at s p;
     i \<leftarrow> inode_at s (d_inode d);
     ((r, _), s) \<leftarrow> find_entry (\<lambda>e. Some (in_use e)) (in_data i) entry_size s;
     Some (r = None, s)
   }"

definition dir_lookup :: "nat \<Rightarrow> string \<Rightarrow> 'a filesys_scheme \<Rightarrow> (nat option \<times> 'a filesys_scheme) option" where
  \<comment> \<open>the inode; the result of the code is whether it is not null\<close>
  "dir_lookup p name s = do {
     d \<leftarrow> dir_at s p;
     if name = ''.'' then Some (Some (inode_reopen (d_inode d)), s)
     else if name = ''..'' then do {
       i \<leftarrow> inode_at s (d_inode d);
       (r, s) \<leftarrow> read_entry (in_data i) 0 s;
       e \<leftarrow> r;
       (i, s) \<leftarrow> inode_open (inode_sector e) s;
       Some (Some i, s)
     }
     else do {
       (r, s) \<leftarrow> lookup p name s;
       (case r of
          None \<Rightarrow> Some (None, s)
        | Some (e, ofs) \<Rightarrow> do { (i, s) \<leftarrow> inode_open (inode_sector e) s; Some (Some i, s) })
     }
   }"

definition write_entry :: "nat \<Rightarrow> dir_entry \<Rightarrow> int \<Rightarrow> 'a filesys_scheme \<Rightarrow> (bool \<times> 'a filesys_scheme) option" where
  \<comment> \<open>\<open>inode_write_at(dir->inode, &e, sizeof e, ofs) == sizeof e\<close>\<close>
  "write_entry p e ofs s = do {
     d \<leftarrow> dir_at s p;
     (n, s) \<leftarrow> inode_write_at (free_map_allocate 1) (d_inode d) (\<lambda>_. Some (entry_image e)) entry_size ofs s;
     Some (n = entry_size, s)
   }"

definition dir_create :: "sector \<Rightarrow> nat \<Rightarrow> 'a filesys_scheme \<Rightarrow> (bool \<times> 'a filesys_scheme) option" where
  "dir_create sector entry_cnt s = do {
     (ok, s) \<leftarrow> inode_create sector (int entry_cnt * entry_size) True s;
     if \<not> ok then Some (False, s)
     else do {
       (i, s) \<leftarrow> inode_open sector s;
       (dp, s) \<leftarrow> dir_open (Some i) s;
       let s = ASSERT ''fs/directory.c'' 62 ''dir_create'' (dp \<noteq> None) s;
       p \<leftarrow> dp;
       (success, s) \<leftarrow> write_entry p \<lparr>inode_sector = sector, e_name = replicate 31 0, in_use = True\<rparr> 0 s;
       s \<leftarrow> dir_close dp s;
       Some (success, s)
     }
   }"

definition name_parent ::
  "bytes \<Rightarrow> nat \<Rightarrow> sector \<Rightarrow> 'a filesys_scheme \<Rightarrow> (bool \<times> 'a filesys_scheme) option" where
  \<comment> \<open>the branch of \<open>dir_add\<close> for a directory: its first entry names the parent \<open>p\<close>, under a name never set\<close>
  "name_parent stale p sector s = do {
     (i, s) \<leftarrow> inode_open sector s;
     (cp, s) \<leftarrow> dir_open (Some i) s;
     c \<leftarrow> cp;
     ip \<leftarrow> dir_get_inode p s;
     parent \<leftarrow> inode_get_inumber ip s;
     (ok, s) \<leftarrow> write_entry c \<lparr>inode_sector = parent, e_name = stale, in_use = True\<rparr> 0 s;
     s \<leftarrow> dir_close cp s;
     Some (ok, s)
   }"

definition dir_add ::
  "bytes \<Rightarrow> nat \<Rightarrow> string \<Rightarrow> sector \<Rightarrow> bool \<Rightarrow> 'a filesys_scheme \<Rightarrow> (bool \<times> 'a filesys_scheme) option" where
  "dir_add stale p name sector dir s =
     (if name = [] \<or> NAME_MAX < length name then Some (False, s)
      else do {
        (used, s) \<leftarrow> lookup p name s;
        if used \<noteq> None then Some (False, s)
        else do {
          (ok, s) \<leftarrow> (if dir then name_parent stale p sector s else Some (True, s));
          if \<not> ok then Some (False, s)
          else do {
            d \<leftarrow> dir_at s p;
            i \<leftarrow> inode_at s (d_inode d);
            ((_, ofs), s) \<leftarrow> find_entry (\<lambda>e. Some (\<not> in_use e)) (in_data i) 0 s;
            write_entry p \<lparr>inode_sector = sector, e_name = strncpy 31 name, in_use = True\<rparr> ofs s
          }
        }
      })"

definition dir_remove :: "nat \<Rightarrow> string \<Rightarrow> 'a filesys_scheme \<Rightarrow> (bool \<times> 'a filesys_scheme) option" where
  "dir_remove p name s = do {
     (found, s) \<leftarrow> lookup p name s;
     (case found of
        None \<Rightarrow> do { s \<leftarrow> inode_close None s; Some (False, s) }
      | Some (e, ofs) \<Rightarrow> do {
          (i, s) \<leftarrow> inode_open (inode_sector e) s;
          dir \<leftarrow> inode_is_directory i s;
          (may, s) \<leftarrow> (if dir then do {
                          (tp, s) \<leftarrow> dir_open (Some i) s;
                          t \<leftarrow> tp;
                          (empty, s) \<leftarrow> dir_is_empty t s;
                          s \<leftarrow> dir_close tp s;
                          Some (empty, s)
                        } else Some (True, s));
          (ok, s) \<leftarrow> (if may then write_entry p (e\<lparr>in_use := False\<rparr>) ofs s else Some (False, s));
          s \<leftarrow> (if ok then inode_remove i s else Some s);
          s \<leftarrow> inode_close (Some i) s;
          Some (ok, s)
        })
   }"

definition next_entry :: "nat \<Rightarrow> 'a filesys_scheme \<Rightarrow> (dir_entry option \<times> 'a filesys_scheme) option" where
  \<comment> \<open>the loop of \<open>dir_readdir\<close> and \<open>dir_readdir_inode\<close>\<close>
  "next_entry p s = do {
     d \<leftarrow> dir_at s p;
     i \<leftarrow> inode_at s (d_inode d);
     ((r, ofs), s) \<leftarrow> find_entry (\<lambda>e. Some (in_use e)) (in_data i) (d_pos d) s;
     pos \<leftarrow> (if r = None then Some ofs else off32 (ofs + entry_size));
     Some (r, put_dir p (d\<lparr>d_pos := pos\<rparr>) s)
   }"

definition dir_readdir :: "nat \<Rightarrow> 'a filesys_scheme \<Rightarrow> (bytes option \<times> 'a filesys_scheme) option" where
  \<comment> \<open>the bytes copied to the buffer \<open>name\<close>\<close>
  "dir_readdir p s = do { (r, s) \<leftarrow> next_entry p s; Some (map_option e_name r, s) }"

definition dir_readdir_inode :: "nat \<Rightarrow> 'a filesys_scheme \<Rightarrow> ((sector \<times> bytes option) \<times> 'a filesys_scheme) option" where
  "dir_readdir_inode p s = do {
     (r, s) \<leftarrow> next_entry p s;
     Some (case r of None \<Rightarrow> (-1, None) | Some e \<Rightarrow> (inode_sector e, Some (e_name e)), s)
   }"

fun open_tokens :: "nat option \<Rightarrow> string list \<Rightarrow> 'a filesys_scheme \<Rightarrow> (nat option \<times> 'a filesys_scheme) option" where
  \<comment> \<open>the loop of \<open>dir_open_path\<close>\<close>
  "open_tokens at_dir [] s = Some (at_dir, s)"
| "open_tokens at_dir (token # ts) s = do {
     c \<leftarrow> at_dir;
     (inode, s) \<leftarrow> dir_lookup c token s;
     if inode = None then do { s \<leftarrow> dir_close at_dir s; Some (None, s) }
     else do {
       (n, s) \<leftarrow> dir_open inode s;
       s \<leftarrow> dir_close at_dir s;
       if n = None then Some (None, s) else open_tokens n ts s
     }
   }"

definition dir_open_path :: "string \<Rightarrow> 'a filesys_scheme \<Rightarrow> (nat option \<times> 'a filesys_scheme) option" where
  "dir_open_path path s = do {
     (at_dir, s) \<leftarrow> (if path \<noteq> [] \<and> hd path = CHR ''/'' then dir_open_root s
                   else (case cwd s of None \<Rightarrow> dir_open_root s | Some c \<Rightarrow> dir_reopen c s));
     (at_dir, s) \<leftarrow> open_tokens at_dir (path_tokens path []) s;
     (case at_dir of
        None \<Rightarrow> Some (None, s)
      | Some c \<Rightarrow> do {
          i \<leftarrow> dir_get_inode c s;
          gone \<leftarrow> inode_is_removed i s;
          if gone then do { s \<leftarrow> dir_close at_dir s; Some (None, s) } else Some (at_dir, s)
        })
   }"

section \<open>The file system (a3/fs/filesys.c)\<close>

definition do_format :: "'a filesys_scheme \<Rightarrow> 'a filesys_scheme option" where
  "do_format s = do {
     let s = printf ''Formatting file system...'' s;
     s \<leftarrow> free_map_create s;
     (ok, s) \<leftarrow> dir_create ROOT_DIR_SECTOR MAX_FILES_IN_DIRECTORY s;
     let s = (if \<not> ok then debug_panic ''fs/filesys.c'' 172 ''do_format'' ''root directory creation failed'' s else s);
     s \<leftarrow> free_map_close s;
     Some (printf (''done.'' @ nl) s)
   }"

definition filesys_init :: "bool \<Rightarrow> 'a filesys_scheme \<Rightarrow> 'a filesys_scheme option" where
  "filesys_init format s = do {
     let s = s\<lparr>fs_device := block_get_hd s\<rparr>;
     let s = (if fs_device s = None then debug_panic ''fs/filesys.c'' 22 ''filesys_init''
                ''No file system device found, can't initialize file system.'' s else s);
     let s = inode_init s;
     s \<leftarrow> free_map_init s;
     let s = buffer_cache_init s;
     s \<leftarrow> (if format then do_format s else Some s);
     s \<leftarrow> free_map_open s;
     (n, s) \<leftarrow> num_free_sectors s;
     let s = printf (''Num free sectors: '' @ dec n @ nl) s;
     Some (init_file_table s)
   }"

definition filesys_done :: "'a filesys_scheme \<Rightarrow> 'a filesys_scheme option" where
  "filesys_done s = do {
     s \<leftarrow> free_map_close s;
     s \<leftarrow> buffer_cache_close s;
     free_file_table s
   }"

definition create_in ::
  "bytes \<Rightarrow> nat \<Rightarrow> string \<Rightarrow> int \<Rightarrow> bool \<Rightarrow> 'a filesys_scheme \<Rightarrow> (bool \<times> 'a filesys_scheme) option" where
  \<comment> \<open>the body of \<open>filesys_create\<close> with the directory \<open>p\<close> open\<close>
  "create_in stale p file_name initial_size dir s = do {
     (got, s) \<leftarrow> free_map_allocate 1 s;
     (case got of
        None \<Rightarrow> Some (False, s)
      | Some sec \<Rightarrow> do {
          (ok, s) \<leftarrow> inode_create sec initial_size dir s;
          (success, s) \<leftarrow> (if ok then dir_add stale p file_name sec dir s else Some (False, s));
          s \<leftarrow> (if \<not> success \<and> sec \<noteq> 0 then free_map_release sec 1 s else Some s);
          Some (success, s)
        })
   }"

definition filesys_create ::
  "bytes \<Rightarrow> string \<Rightarrow> int \<Rightarrow> bool \<Rightarrow> 'a filesys_scheme \<Rightarrow> (bool \<times> 'a filesys_scheme) option" where
  "filesys_create stale path initial_size dir s = do {
     (_, file_name) \<leftarrow> split_path_filename (length path) (length path) path;
     (dp, s) \<leftarrow> dir_open_root s;
     (success, s) \<leftarrow> (case dp of
                         None \<Rightarrow> Some (False, s)
                       | Some p \<Rightarrow> create_in stale p file_name initial_size dir s);
     s \<leftarrow> dir_close dp s;
     Some (success, s)
   }"

definition filesys_open :: "string \<Rightarrow> 'a filesys_scheme \<Rightarrow> (nat option \<times> 'a filesys_scheme) option" where
  "filesys_open name s =
     (if name = [] then Some (None, s)
      else do {
        (_, file_name) \<leftarrow> split_path_filename (length name + 1) (length name + 1) name;
        (dp, s) \<leftarrow> dir_open_root s;
        (case dp of
           None \<Rightarrow> Some (None, s)
         | Some p \<Rightarrow> do {
             (inode, s) \<leftarrow> (if file_name \<noteq> [] then do {
                               (inode, s) \<leftarrow> dir_lookup p file_name s;
                               s \<leftarrow> dir_close dp s;
                               Some (inode, s)
                             } else do { i \<leftarrow> dir_get_inode p s; Some (Some i, s) });
             (case inode of
                None \<Rightarrow> Some (None, s)
              | Some i \<Rightarrow> do {
                  gone \<leftarrow> inode_is_removed i s;
                  if gone then Some (None, s) else file_open inode s
                })
           })
      })"

definition filesys_remove :: "string \<Rightarrow> 'a filesys_scheme \<Rightarrow> (bool \<times> 'a filesys_scheme) option" where
  "filesys_remove name s = do {
     (directory, file_name) \<leftarrow> split_path_filename (length name) (length name) name;
     (dp, s) \<leftarrow> dir_open_path directory s;
     (success, s) \<leftarrow> (case dp of None \<Rightarrow> Some (False, s) | Some p \<Rightarrow> dir_remove p file_name s);
     s \<leftarrow> dir_close dp s;
     Some (success, s)
   }"

definition filesys_chdir :: "string \<Rightarrow> 'a filesys_scheme \<Rightarrow> (bool \<times> 'a filesys_scheme) option" where
  "filesys_chdir name s = do {
     (dp, s) \<leftarrow> dir_open_path name s;
     if dp = None then Some (False, s)
     else do {
       s \<leftarrow> dir_close (cwd s) s;
       Some (True, s\<lparr>cwd := dp\<rparr>)
     }
   }"

end
