(* ===== verification/Hex_Dump.thy ===== *)
theory Hex_Dump
  imports Bitmap
begin

text \<open>
  \<open>hex_dump\<close> of \<open>a3/fs/debug.c\<close>, which \<open>bitmap_dump\<close> and the command \<open>cat\<close> print with: lines of 16 bytes,
  aligned to the offset of the first byte. A line is printed as one text.
\<close>

definition hex_digit :: "nat \<Rightarrow> char" where
  "hex_digit d = (if d < 10 then char_of (48 + d) else char_of (87 + d))"

fun hex :: "nat \<Rightarrow> string" where
  "hex n = (if n < 16 then [hex_digit n] else hex (n div 16) @ [hex_digit (n mod 16)])"

declare hex.simps [simp del]

definition pad_hex :: "nat \<Rightarrow> nat \<Rightarrow> string" where
  \<comment> \<open>\<open>%0<w>x\<close>\<close>
  "pad_hex w n = replicate (w - length (hex n)) (CHR ''0'') @ hex n"

definition isprint :: "byte \<Rightarrow> bool" where
  "isprint b \<longleftrightarrow> 32 \<le> b \<and> b < 127"

definition per_line :: nat where
  "per_line = 16"

definition hex_cells :: "nat \<Rightarrow> bytes \<Rightarrow> string" where
  \<comment> \<open>the bytes of a line that begins in column \<open>start\<close>\<close>
  "hex_cells start bs = concat (map (\<lambda>i. pad_hex 2 (unat (bs ! i)) @
     [if start + i = per_line div 2 - 1 then CHR ''-'' else CHR '' '']) [0..<length bs])"

definition hex_line :: "nat \<Rightarrow> bytes \<Rightarrow> bool \<Rightarrow> string" where
  "hex_line ofs bs ascii =
     (let start = ofs mod per_line; after = per_line - (start + length bs) in
      pad_hex 8 (ofs div per_line * per_line) @ ''  '' @ concat (replicate start ''   '') @ hex_cells start bs @
      (if ascii
       then concat (replicate after ''   '') @ ''|'' @ replicate start (CHR '' '') @
            map (\<lambda>b. if isprint b then char_of (unat b) else CHR ''.'') bs @ replicate after (CHR '' '') @ ''|''
       else []) @ nl)"

function hex_dump :: "nat \<Rightarrow> bytes \<Rightarrow> bool \<Rightarrow> 'a world_scheme \<Rightarrow> 'a world_scheme" where
  \<comment> \<open>of all bytes of the buffer\<close>
  "hex_dump ofs buf ascii w =
     (if buf = [] then w
      else let n = min (per_line - ofs mod per_line) (length buf) in
        hex_dump (ofs + n) (drop n buf) ascii (printf (hex_line ofs (take n buf) ascii) w))"
  by pat_completeness auto
termination
  by (relation "measure (\<lambda>(ofs, buf, ascii, w). length buf)") (auto simp: per_line_def)

declare hex_dump.simps [simp del]

definition bitmap_dump :: "bitmap \<Rightarrow> 'a world_scheme \<Rightarrow> 'a world_scheme" where
  "bitmap_dump b w = hex_dump 0 (bytes_of_words 8 (bits b)) False w"

end
