(* ===== verification/Fs_Utils.thy ===== *)
theory Fs_Utils
  imports Directories Hex_Dump
begin

text \<open>
  The commands of the file system (\<open>a3/fs/fsutil.c\<close>). A file name names an entry of the table of open files or
  else a file of the root directory, which is then opened and stays open.
\<close>

section \<open>Listing and printing\<close>

partial_function (option) list_names :: "nat \<Rightarrow> 'a filesys_scheme \<Rightarrow> 'a filesys_scheme option" where
  "list_names p s = do {
     (r, s) \<leftarrow> dir_readdir p s;
     (case r of
        None \<Rightarrow> Some s
      | Some b \<Rightarrow> do {
          name \<leftarrow> c_string b;
          list_names p (puts name s)
        })
   }"

definition fsutil_ls :: "'a filesys_scheme \<Rightarrow> (int \<times> 'a filesys_scheme) option" where
  "fsutil_ls s = do {
     let s = puts ''Files in the root directory:'' s;
     (dp, s) \<leftarrow> dir_open_root s;
     (case dp of
        None \<Rightarrow> Some (1, s)
      | Some p \<Rightarrow> do {
          s \<leftarrow> list_names p s;
          s \<leftarrow> dir_close dp s;
          Some (0, puts ''End of listing.'' s)
        })
   }"

partial_function (option) dump_file :: "nat \<Rightarrow> int \<Rightarrow> 'a filesys_scheme \<Rightarrow> 'a filesys_scheme option" where
  \<comment> \<open>the loop of \<open>fsutil_cat\<close>\<close>
  "dump_file f file_size s = do {
     (pos, s) \<leftarrow> file_tell (Some f) s;
     (data, s) \<leftarrow> read_file f file_size s;
     if data = [] then Some s else dump_file f file_size (hex_dump (nat pos) data True s)
   }"

definition fsutil_cat :: "string \<Rightarrow> 'a filesys_scheme \<Rightarrow> (int \<times> 'a filesys_scheme) option" where
  "fsutil_cat file_name s = do {
     let s = printf (''Printing <'' @ file_name @ ''> to the console...'' @ nl) s;
     (fp, opened, s) \<leftarrow> (case get_file_by_fname file_name s of
         Some f \<Rightarrow> Some (Some f, False, s)
       | None \<Rightarrow> do {
           (fp, s) \<leftarrow> filesys_open file_name s;
           Some (fp, True, case fp of None \<Rightarrow> s | Some f \<Rightarrow> add_to_file_table f file_name s)
         });
     (case fp of
        None \<Rightarrow> Some (-1, puts ''Error'' s)
      | Some f \<Rightarrow> do {
          (cur_offset, s) \<leftarrow> file_tell fp s;
          s \<leftarrow> file_seek fp 0 s;
          (file_size, s) \<leftarrow> file_length fp s;
          s \<leftarrow> dump_file f file_size s;
          s \<leftarrow> file_seek fp cur_offset s;
          s \<leftarrow> (if opened then do { (_, s) \<leftarrow> remove_from_file_table file_name s; Some s } else Some s);
          Some (0, puts ''Done printing'' s)
        })
   }"

section \<open>Removing and creating\<close>

definition fsutil_rm :: "string \<Rightarrow> 'a filesys_scheme \<Rightarrow> (int \<times> 'a filesys_scheme) option" where
  "fsutil_rm file_name s = do {
     (_, s) \<leftarrow> remove_from_file_table file_name s;
     (ok, s) \<leftarrow> filesys_remove file_name s;
     Some (if ok then 1 else 0, s)
   }"

definition as_offset :: "int \<Rightarrow> int" where
  \<comment> \<open>an \<open>unsigned\<close> argument where an \<open>offset_t\<close> is expected\<close>
  "as_offset n = signed_take_bit 31 n"

lemma as_offset_small: "- (2 ^ 31) \<le> n \<Longrightarrow> n < 2 ^ 31 \<Longrightarrow> as_offset n = n"
  unfolding as_offset_def by (rule signed_take_bit_int_eq_self)

definition fsutil_create :: "string \<Rightarrow> int \<Rightarrow> 'a filesys_scheme \<Rightarrow> (int \<times> 'a filesys_scheme) option" where
  \<comment> \<open>no directory is created, so no uninitialised name is stored\<close>
  "fsutil_create fname isize s =
     (if fname = [] \<or> 255 \<le> length fname
      then Some (0, printf (''Error with filename: '' @ dec (length fname) @ nl) s)
      else do {
        (ok, s) \<leftarrow> filesys_create [] fname (as_offset isize) False s;
        Some (if ok then 1 else 0, s)
      })"

section \<open>Files by name\<close>

definition named_file :: "string \<Rightarrow> 'a filesys_scheme \<Rightarrow> (nat option \<times> 'a filesys_scheme) option" where
  \<comment> \<open>the first lines of the commands below\<close>
  "named_file file_name s = (case get_file_by_fname file_name s of
     Some f \<Rightarrow> Some (Some f, s)
   | None \<Rightarrow> do {
       (fp, s) \<leftarrow> filesys_open file_name s;
       Some (fp, case fp of None \<Rightarrow> s | Some f \<Rightarrow> add_to_file_table f file_name s)
     })"

definition fsutil_write :: "string \<Rightarrow> bytes \<Rightarrow> 'a filesys_scheme \<Rightarrow> (int \<times> 'a filesys_scheme) option" where
  \<comment> \<open>all bytes of the buffer\<close>
  "fsutil_write file_name buf s = do {
     (fp, s) \<leftarrow> named_file file_name s;
     (case fp of None \<Rightarrow> Some (-1, s) | Some f \<Rightarrow> write_file f buf (int (length buf)) s)
   }"

definition fsutil_read :: "string \<Rightarrow> int \<Rightarrow> 'a filesys_scheme \<Rightarrow> ((bytes \<times> int) \<times> 'a filesys_scheme) option" where
  \<comment> \<open>the bytes read and the result\<close>
  "fsutil_read file_name sz s = do {
     (fp, s) \<leftarrow> named_file file_name s;
     (case fp of
        None \<Rightarrow> Some (([], -1), s)
      | Some f \<Rightarrow> do { (data, s) \<leftarrow> read_file f sz s; Some ((data, int (length data)), s) })
   }"

definition fsutil_size :: "string \<Rightarrow> 'a filesys_scheme \<Rightarrow> (int \<times> 'a filesys_scheme) option" where
  "fsutil_size file_name s = do {
     (fp, s) \<leftarrow> named_file file_name s;
     (case fp of
        None \<Rightarrow> Some (-1, s)
      | Some f \<Rightarrow> do {
          (cur_offset, s) \<leftarrow> file_tell fp s;
          (len, s) \<leftarrow> file_length fp s;
          s \<leftarrow> file_seek fp cur_offset s;
          Some (len, s)
        })
   }"

definition fsutil_seek :: "string \<Rightarrow> int \<Rightarrow> 'a filesys_scheme \<Rightarrow> (int \<times> 'a filesys_scheme) option" where
  "fsutil_seek file_name offset s = do {
     (fp, s) \<leftarrow> named_file file_name s;
     (case fp of
        None \<Rightarrow> Some (-1, s)
      | Some f \<Rightarrow> do { s \<leftarrow> file_seek fp offset s; Some (0, s) })
   }"

definition fsutil_close :: "string \<Rightarrow> 'a filesys_scheme \<Rightarrow> 'a filesys_scheme option" where
  "fsutil_close file_name s = do { (_, s) \<leftarrow> remove_from_file_table file_name s; Some s }"

definition fsutil_freespace :: "'a filesys_scheme \<Rightarrow> (int \<times> 'a filesys_scheme) option" where
  "fsutil_freespace s = do { (n, s) \<leftarrow> num_free_sectors s; Some (int n, s) }"

lemma last_byte_null: "buf \<noteq> [] \<Longrightarrow> wr buf (nat (int (length buf) - 1)) 0 = Some (butlast buf @ [0])"
proof -
  assume "buf \<noteq> []"
  then obtain xs x where "buf = xs @ [x]" by (meson rev_exhaust)
  then show ?thesis by (simp add: wr_def)
qed

end
