(* ===== verification/Fs_Recovery.thy ===== *)
theory Fs_Recovery
  imports Fs_Utils
begin

text \<open>
  Copies to and from the host, the search in all files, the degree of fragmentation, defragmentation and recovery
  (\<open>a3/fs/fsutil2.c\<close>). Memory the code uses before it is set is an argument: \<open>stale\<close> is the field
  \<open>inode_sector\<close> of a directory entry that only gets a name, \<open>junk\<close> the memory of a fresh buffer. A function
  that ends without the value its caller uses returns \<open>None\<close> as that value.
\<close>

section \<open>Copies to and from the host\<close>

definition write_host :: "string \<Rightarrow> bytes \<Rightarrow> 'a filesys_scheme \<Rightarrow> 'a filesys_scheme" where
  "write_host fname b s = s\<lparr>host_files := (host_files s)(fname \<mapsto> b)\<rparr>"

definition read_file_into_memory :: "string \<Rightarrow> 'a filesys_scheme \<Rightarrow> bytes option" where
  \<comment> \<open>the buffer, or the null pointer; the message of a failure goes to \<open>stderr\<close>\<close>
  "read_file_into_memory filename s = map_option (\<lambda>b. b @ [0]) (host_files s filename)"

definition copy_in :: "string \<Rightarrow> 'a filesys_scheme \<Rightarrow> (int option \<times> 'a filesys_scheme) option" where
  "copy_in fname s = (case host_files s fname of
     None \<Rightarrow> Some (Some 0, s)
   | Some source \<Rightarrow> do {
       sz \<leftarrow> off32 (int (length source));
       (ok, s) \<leftarrow> filesys_create [] fname sz False s;
       if \<not> ok then Some (Some 9, s)
       else do {
         (fp, s) \<leftarrow> filesys_open fname s;
         (case fp of
            None \<Rightarrow> Some (Some 10, s)
          | Some f \<Rightarrow> do {
              (n, s) \<leftarrow> write_file f (source @ [0]) (sz + 1) s;
              if n \<noteq> sz + 1 then do { s \<leftarrow> file_close fp s; Some (Some 11, s) }
              else do {
                s \<leftarrow> file_seek fp (n - 2) s;
                s \<leftarrow> file_close fp s;
                Some (None, s)
              }
            })
       }
     })"

definition copy_out :: "string \<Rightarrow> 'a filesys_scheme \<Rightarrow> (int \<times> 'a filesys_scheme) option" where
  "copy_out fname s = do {
     (fp, s) \<leftarrow> filesys_open fname s;
     (case fp of
        None \<Rightarrow> Some (0, s)
      | Some f \<Rightarrow> do {
          (sz, s) \<leftarrow> file_length fp s;
          if sz < 0 then do { s \<leftarrow> file_close fp s; Some (10, s) }
          else do {
            (buffer, s) \<leftarrow> read_file f sz s;
            s \<leftarrow> file_close fp s;
            if int (length buffer) \<noteq> sz then Some (12, s)
            else if \<not> host_writable s fname then Some (9, s)
            else Some (0, write_host fname (filter (\<lambda>b. b \<noteq> 0) buffer) s)
          }
        })
   }"

section \<open>Searching all files\<close>

fun strstr :: "string \<Rightarrow> string \<Rightarrow> bool" where
  \<comment> \<open>whether the second string occurs in the first\<close>
  "strstr [] t = (t = [])"
| "strstr (c # cs) t = (take (length t) (c # cs) = t \<or> strstr cs t)"

partial_function (option) find_in_files ::
  "nat \<Rightarrow> string \<Rightarrow> 'a filesys_scheme \<Rightarrow> 'a filesys_scheme option" where
  \<comment> \<open>the loop of \<open>find_file\<close>; no buffer is allocated for a negative size, and one of no bytes for -1\<close>
  "find_in_files p pattern s = do {
     (r, s) \<leftarrow> dir_readdir p s;
     (case r of
        None \<Rightarrow> Some s
      | Some b \<Rightarrow> do {
          name \<leftarrow> c_string b;
          (fp, s) \<leftarrow> filesys_open name s;
          s \<leftarrow> (case fp of
                  None \<Rightarrow> Some s
                | Some f \<Rightarrow> do {
                    (file_size, s) \<leftarrow> file_length fp s;
                    if file_size < -1 then file_close fp s
                    else if file_size = -1 then None
                    else do {
                      (data, s) \<leftarrow> read_file f file_size s;
                      s \<leftarrow> file_close fp s;
                      buffer \<leftarrow> c_string (data @ [0]);
                      Some (if strstr buffer pattern then puts name s else s)
                    }
                  });
          find_in_files p pattern s
        })
   }"

definition find_file :: "string \<Rightarrow> 'a filesys_scheme \<Rightarrow> 'a filesys_scheme option" where
  "find_file pattern s = do {
     (dp, s) \<leftarrow> dir_open_root s;
     (case dp of
        None \<Rightarrow> Some s
      | Some p \<Rightarrow> do { s \<leftarrow> find_in_files p pattern s; dir_close dp s })
   }"

section \<open>Fragmentation\<close>

definition is_plain_file :: "nat \<Rightarrow> 'a filesys_scheme \<Rightarrow> bool option" where
  \<comment> \<open>\<open>!inode_is_directory(inode) && !inode_is_removed(inode)\<close>\<close>
  "is_plain_file i s = do {
     directory \<leftarrow> inode_is_directory i s;
     gone \<leftarrow> inode_is_removed i s;
     Some (\<not> directory \<and> \<not> gone)
   }"

partial_function (option) fragmentable_from ::
  "sector \<Rightarrow> nat \<Rightarrow> nat \<Rightarrow> 'a filesys_scheme \<Rightarrow> (nat \<times> 'a filesys_scheme) option" where
  "fragmentable_from stale p count s = do {
     (r, s) \<leftarrow> dir_readdir p s;
     if r = None then Some (count, s)
     else do {
       (i, s) \<leftarrow> inode_open stale s;
       plain \<leftarrow> is_plain_file i s;
       if plain then do {
         file_size \<leftarrow> inode_length i s;
         let count = (if file_size smod int BLOCK_SECTOR_SIZE > 0 then count + 1 else count);
         s \<leftarrow> inode_close (Some i) s;
         fragmentable_from stale p count s
       }
       else fragmentable_from stale p count s
     }
   }"

definition count_fragmentable_files :: "sector \<Rightarrow> 'a filesys_scheme \<Rightarrow> (nat \<times> 'a filesys_scheme) option" where
  "count_fragmentable_files stale s = do {
     (dp, s) \<leftarrow> dir_open_root s;
     p \<leftarrow> dp;
     (n, s) \<leftarrow> fragmentable_from stale p 0 s;
     s \<leftarrow> dir_close dp s;
     Some (n, s)
   }"

fun fragmented :: "sector list option \<Rightarrow> nat list \<Rightarrow> bool option" where
  \<comment> \<open>the loop over the sectors of a file; differences wrap at 32 bits\<close>
  "fragmented sectors [] = Some False"
| "fragmented sectors (i # is) = do {
     xs \<leftarrow> sectors;
     x \<leftarrow> rd xs i;
     y \<leftarrow> rd xs (i - 1);
     if x - y > 3 then Some True else fragmented sectors is
   }"

partial_function (option) fragmented_from ::
  "nat \<Rightarrow> nat \<Rightarrow> 'a filesys_scheme \<Rightarrow> (nat \<times> 'a filesys_scheme) option" where
  "fragmented_from p count s = do {
     ((inode_file, _), s) \<leftarrow> dir_readdir_inode p s;
     if inode_file = -1 then Some (count, s)
     else do {
       (i, s) \<leftarrow> inode_open inode_file s;
       plain \<leftarrow> is_plain_file i s;
       if plain then do {
         (sectors, s) \<leftarrow> get_inode_data_sectors i s;
         len \<leftarrow> inode_length i s;
         n \<leftarrow> (if - int BLOCK_SECTOR_SIZE < len then Some (nat (len div int BLOCK_SECTOR_SIZE)) else None);
         f \<leftarrow> fragmented sectors [1..<n];
         fragmented_from p (if f then count + 1 else count) s
       }
       else fragmented_from p count s
     }
   }"

definition count_fragmented_files :: "'a filesys_scheme \<Rightarrow> (nat \<times> 'a filesys_scheme) option" where
  "count_fragmented_files s = do {
     (dp, s) \<leftarrow> dir_open_root s;
     p \<leftarrow> dp;
     (n, s) \<leftarrow> fragmented_from p 0 s;
     s \<leftarrow> dir_close dp s;
     Some (n, s)
   }"

definition round_even :: "nat \<Rightarrow> nat \<Rightarrow> nat" where
  \<comment> \<open>the integer nearest to \<open>a / b\<close>, the even one of two\<close>
  "round_even a b =
     (let q = a div b; r = a mod b in
      if 2 * r < b then q else if b < 2 * r then q + 1 else if even q then q else q + 1)"

definition float_div :: "nat \<Rightarrow> nat \<Rightarrow> nat \<times> nat" where
  \<comment> \<open>\<open>(float) a / b\<close> as mantissa \<open>m\<close> and exponent \<open>k\<close> of the value \<open>m / 2 ^ k\<close>, for numbers below \<open>2 ^ 24\<close>\<close>
  "float_div a b = (if a = 0 then (0, 0)
     else let k = (case find (\<lambda>k. b * 2 ^ 23 \<le> a * 2 ^ k) [0..<64] of None \<Rightarrow> 0 | Some k \<Rightarrow> k)
          in (round_even (a * 2 ^ k) b, k))"

definition fixed6 :: "nat \<times> nat \<Rightarrow> string" where
  \<comment> \<open>\<open>%.6f\<close>\<close>
  "fixed6 v = (let n = round_even (fst v * 10 ^ 6) (2 ^ snd v); t = dec (n mod 10 ^ 6)
     in dec (n div 10 ^ 6) @ ''.'' @ replicate (6 - length t) (CHR ''0'') @ t)"

definition fragmentation_degree :: "sector \<Rightarrow> 'a filesys_scheme \<Rightarrow> 'a filesys_scheme option" where
  "fragmentation_degree stale s = do {
     (num_fragmentable_files, s) \<leftarrow> count_fragmentable_files stale s;
     (num_fragmented_files, s) \<leftarrow> count_fragmented_files s;
     let degree = (if num_fragmentable_files > 0 then float_div num_fragmented_files num_fragmentable_files else (0, 0));
     let s = printf (''Num fragmentable files: '' @ dec num_fragmentable_files @ nl) s;
     let s = printf (''Num fragmented files: '' @ dec num_fragmented_files @ nl) s;
     Some (printf (''Fragmentation pct: '' @ fixed6 degree @ nl) s)
   }"

section \<open>Defragmentation\<close>

record saved_file =
  saved_name :: string
  saved_size :: int       \<comment> \<open>an \<open>unsigned int\<close>\<close>

partial_function (option) save_files ::
  "sector \<Rightarrow> nat \<Rightarrow> saved_file list \<Rightarrow> string \<Rightarrow> 'a filesys_scheme \<Rightarrow>
   ((saved_file list \<times> string) \<times> 'a filesys_scheme) option" where
  \<comment> \<open>the first loop of \<open>defragment\<close>: \<open>saved\<close> is the buffer of names and sizes, \<open>written\<close> the string in
      \<open>write_buffer\<close>; the content of a file is a string only if it holds a null byte\<close>
  "save_files stale p saved written s = do {
     (r, s) \<leftarrow> dir_readdir p s;
     (case r of
        None \<Rightarrow> Some ((saved, written), s)
      | Some b \<Rightarrow> do {
          (i, s) \<leftarrow> inode_open stale s;
          plain \<leftarrow> is_plain_file i s;
          ((saved, written), s) \<leftarrow> (if plain then do {
              name \<leftarrow> c_string b;
              (file_size, s) \<leftarrow> fsutil_size name s;
              (_, s) \<leftarrow> fsutil_seek name 0 s;
              ((data, _), s) \<leftarrow> fsutil_read name file_size s;
              content \<leftarrow> (if length data \<le> 1024 * 1024 then c_string data else None);
              if length saved < MAX_FILES_IN_DIRECTORY \<and> length (written @ content) \<le> 1024 * 1024 * 8
              then Some ((saved @ [\<lparr>saved_name = name, saved_size = file_size mod 2 ^ 32\<rparr>], written @ content), s)
              else None
            } else Some ((saved, written), s));
          s \<leftarrow> inode_close (Some i) s;
          save_files stale p saved written s
        })
   }"

fun remove_files :: "saved_file list \<Rightarrow> 'a filesys_scheme \<Rightarrow> 'a filesys_scheme option" where
  "remove_files [] s = Some s"
| "remove_files (x # xs) s = do { (_, s) \<leftarrow> fsutil_rm (saved_name x) s; remove_files xs s }"

fun restore_files ::
  "string \<Rightarrow> int \<Rightarrow> saved_file list \<Rightarrow> 'a filesys_scheme \<Rightarrow> 'a filesys_scheme option" where
  \<comment> \<open>the last loop: \<open>start\<close> is \<open>data_start\<close> of the next file; the last byte of its buffer is set by \<open>file_write\<close>\<close>
  "restore_files written start [] s = Some s"
| "restore_files written start (x # xs) s = do {
     let n = saved_size x - 1;
     data \<leftarrow> slice start n (bytes_of written @ [0]);
     (_, s) \<leftarrow> fsutil_create (saved_name x) (saved_size x) s;
     (_, s) \<leftarrow> fsutil_write (saved_name x) (data @ [0]) s;
     start \<leftarrow> off32 (start + n);
     restore_files written start xs s
   }"

definition defragment :: "sector \<Rightarrow> string \<Rightarrow> 'a filesys_scheme \<Rightarrow> (int \<times> 'a filesys_scheme) option" where
  \<comment> \<open>\<open>found\<close>: the string that the fresh memory of \<open>write_buffer\<close> happens to hold\<close>
  "defragment stale found s = do {
     (dp, s) \<leftarrow> dir_open_root s;
     p \<leftarrow> dp;
     ((saved, written), s) \<leftarrow> save_files stale p [] found s;
     s \<leftarrow> dir_close dp s;
     s \<leftarrow> remove_files saved s;
     s \<leftarrow> restore_files written 0 saved s;
     Some (0, s)
   }"

section \<open>Recovery\<close>

definition file_name_buffer :: "string \<Rightarrow> string" where
  \<comment> \<open>\<open>snprintf\<close> to a buffer of \<open>NAME_MAX\<close> bytes\<close>
  "file_name_buffer t = take (NAME_MAX - 1) t"

definition recover_inode :: "sector \<Rightarrow> 'a filesys_scheme \<Rightarrow> 'a filesys_scheme option" where
  \<comment> \<open>of \<open>recover_deleted_files\<close>, for a free sector that holds an inode\<close>
  "recover_inode sec s = do {
     (i, s) \<leftarrow> inode_open sec s;
     len \<leftarrow> inode_length i s;
     (data, s) \<leftarrow> inode_read_at i len 0 s;
     let filename = file_name_buffer (''recovered0-'' @ idec (sint sec));
     (fp, s) \<leftarrow> filesys_open filename s;
     s \<leftarrow> (if fp \<noteq> None then Some s
            else do {
              (dp, s) \<leftarrow> dir_open_root s;
              (case dp of
                 None \<Rightarrow> Some s
               | Some p \<Rightarrow> do { (_, s) \<leftarrow> dir_add [] p filename sec False s; dir_close dp s })
            });
     (fp, s) \<leftarrow> filesys_open filename s;
     f \<leftarrow> fp;
     len \<leftarrow> inode_length i s;
     (_, s) \<leftarrow> file_write_at (free_map_allocate 1) f (\<lambda>_. Some data) len 0 s;
     Some s
   }"

primrec recover_from :: "nat \<Rightarrow> nat \<Rightarrow> 'a filesys_scheme \<Rightarrow> 'a filesys_scheme option" where
  \<comment> \<open>the loop of \<open>recover_deleted_files\<close> over the \<open>n\<close> sectors from \<open>sector\<close>\<close>
  "recover_from 0 sector s = Some s"
| "recover_from (Suc n) sector s = do {
     b \<leftarrow> free_map s;
     (taken, s) \<leftarrow> bitmap_test b sector s;
     s \<leftarrow> (if taken then Some s
            else do {
              (buffer, s) \<leftarrow> buffer_cache_read (of_nat sector) s;
              if magic (inode_of_image buffer) = INODE_MAGIC then recover_inode (of_nat sector) s else Some s
            });
     recover_from n (Suc sector) s
   }"

definition recover_deleted_files :: "'a filesys_scheme \<Rightarrow> 'a filesys_scheme option" where
  "recover_deleted_files s = do {
     s \<leftarrow> free_map_open s;
     b \<leftarrow> free_map s;
     recover_from (bitmap_size b) 0 s
   }"

fun recover_blocks :: "sector list \<Rightarrow> 'a filesys_scheme \<Rightarrow> 'a filesys_scheme option" where
  "recover_blocks [] s = Some s"
| "recover_blocks (i # is) s = do {
     (buffer, s) \<leftarrow> block_read (fs_device s) i (replicate BLOCK_SECTOR_SIZE 0) s;
     let filename = file_name_buffer (''recovered1-'' @ idec (sint i) @ ''.txt'');
     recover_blocks is
       (if (\<exists>b \<in> set buffer. b \<noteq> 0) \<and> host_writable s filename
        then write_host filename (takeWhile (\<lambda>b. b \<noteq> 0) buffer) s else s)
   }"

definition recover_data_blocks :: "'a filesys_scheme \<Rightarrow> 'a filesys_scheme option" where
  "recover_data_blocks s = do {
     total_sectors \<leftarrow> block_size (fs_device s) s;
     recover_blocks (map of_nat [4..<unat (total_sectors - 1)]) s
   }"

definition hidden_data :: "bytes \<Rightarrow> nat \<Rightarrow> bytes option \<Rightarrow> 'a filesys_scheme \<Rightarrow> 'a filesys_scheme option" where
  \<comment> \<open>of \<open>find_hidden_data_in_files\<close>, for the inode \<open>i\<close> of a file and the name in its entry\<close>
  "hidden_data junk i entry_name s = do {
     sec \<leftarrow> inode_get_inumber i s;
     (buffer, s) \<leftarrow> buffer_cache_read sec s;
     let d = inode_of_image buffer;
     if magic d = INODE_MAGIC \<and> id_length d smod int BLOCK_SECTOR_SIZE \<noteq> 0 then do {
       (data_sectors, s) \<leftarrow> get_inode_data_sectors i s;
       len \<leftarrow> inode_length i s;
       sectors \<leftarrow> bytes_to_sectors len;
       xs \<leftarrow> data_sectors;
       last_block \<leftarrow> (if sectors = 0 then None else rd xs (sectors - 1));
       b \<leftarrow> entry_name;
       name \<leftarrow> c_string b;
       (n, s) \<leftarrow> fsutil_size name s;
       let modulo = n smod int BLOCK_SECTOR_SIZE;
       (block, s) \<leftarrow> buffer_cache_read last_block s;
       rest \<leftarrow> slice modulo (int BLOCK_SECTOR_SIZE - modulo) block;
       let recovered = rest @ drop (length rest) junk;
       let filename = file_name_buffer (''recovered2-'' @ name @ ''.txt'');
       Some (if host_writable s filename
             then write_host filename (filter (\<lambda>b. b \<noteq> 0) (take BLOCK_SECTOR_SIZE recovered)) s else s)
     }
     else Some s
   }"

partial_function (option) hidden_from :: "bytes \<Rightarrow> nat \<Rightarrow> 'a filesys_scheme \<Rightarrow> 'a filesys_scheme option" where
  "hidden_from junk p s = do {
     ((inode_file, name), s) \<leftarrow> dir_readdir_inode p s;
     if inode_file = -1 then Some s
     else do {
       (i, s) \<leftarrow> inode_open inode_file s;
       plain \<leftarrow> is_plain_file i s;
       s \<leftarrow> (if plain then hidden_data junk i name s else Some s);
       hidden_from junk p s
     }
   }"

definition find_hidden_data_in_files :: "bytes \<Rightarrow> 'a filesys_scheme \<Rightarrow> 'a filesys_scheme option" where
  "find_hidden_data_in_files junk s = do {
     (dp, s) \<leftarrow> dir_open_root s;
     p \<leftarrow> dp;
     s \<leftarrow> hidden_from junk p s;
     dir_close dp s
   }"

definition recover :: "bytes \<Rightarrow> int \<Rightarrow> 'a filesys_scheme \<Rightarrow> 'a filesys_scheme option" where
  "recover junk flag s =
     (if flag = 0 then recover_deleted_files s
      else if flag = 1 then recover_data_blocks s
      else if flag = 2 then find_hidden_data_in_files junk s
      else Some (puts ''Invalid flag for recovery.'' s))"

end
