(* ===== verification/A3_System.thy ===== *)
theory A3_System
  imports A3_Shell Fs_Recovery
begin

text \<open>
  The shell of \<open>a3\<close> with its file system: the record \<open>fs_ops\<close>, which the interpreter calls, filled with the
  functions of \<open>Devices\<close>, \<open>Directories\<close>, \<open>Fs_Utils\<close> and \<open>Fs_Recovery\<close>. What a command prints is handed to
  the console of the shell.
\<close>

record leftovers =
  disk_fd :: int                \<comment> \<open>the descriptor \<open>open\<close> returns for the disk\<close>
  table_memory :: bytes         \<comment> \<open>the fresh memory of a partition table\<close>
  stale_sector :: sector        \<comment> \<open>uninitialised memory, see \<open>Fs_Recovery\<close>\<close>
  found_string :: string
  junk_block :: bytes

definition shown :: "(filesys \<Rightarrow> ('r \<times> filesys) option) \<Rightarrow> filesys \<Rightarrow> ('r \<times> string list \<times> filesys) option" where
  "shown f s = do {
     (r, s) \<leftarrow> f (s\<lparr>console := []\<rparr>);
     Some (r, console s, s\<lparr>console := []\<rparr>)
   }"

definition no_value :: "(filesys \<Rightarrow> filesys option) \<Rightarrow> filesys \<Rightarrow> (int \<times> filesys) option" where
  \<comment> \<open>a function without result, whose result the interpreter does not use\<close>
  "no_value f s = do { s \<leftarrow> f s; Some (0, s) }"

definition fs_commands :: "leftovers \<Rightarrow> filesys fs_ops" where
  "fs_commands m =
     \<lparr>fs_ide_init = (\<lambda>hd. shown (no_value (ide_init hd (disk_fd m) (table_memory m)))),
      fs_filesys_init = (\<lambda>format. shown (no_value (filesys_init format))),
      fs_filesys_done = shown (no_value filesys_done),
      fs_ls = shown fsutil_ls,
      fs_cat = (\<lambda>f. shown (fsutil_cat f)),
      fs_rm = (\<lambda>f. shown (fsutil_rm f)),
      fs_create = (\<lambda>f isize. shown (fsutil_create f isize)),
      fs_write = (\<lambda>f buf. shown (fsutil_write f (bytes_of buf))),
      fs_read = (\<lambda>f n s. do {
        ((data, r), out, s) \<leftarrow> shown (fsutil_read f n) s;
        Some (string_of data, r, out, s)
      }),
      fs_find_file = (\<lambda>pattern. shown (no_value (find_file pattern))),
      fs_copy_in = (\<lambda>f. shown (\<lambda>s. do { (r, s) \<leftarrow> copy_in f s; r \<leftarrow> r; Some (r, s) })),
      fs_copy_out = (\<lambda>f. shown (copy_out f)),
      fs_size = (\<lambda>f. shown (fsutil_size f)),
      fs_seek = (\<lambda>f offset. shown (fsutil_seek f offset)),
      fs_freespace = shown fsutil_freespace,
      fs_fragmentation_degree = shown (no_value (fragmentation_degree (stale_sector m))),
      fs_defragment = shown (defragment (stale_sector m) (found_string m)),
      fs_recover = (\<lambda>flag. shown (no_value (recover (junk_block m) flag)))\<rparr>"

end
