(* ===== verification/Inode_Invariants.thy ===== *)
theory Inode_Invariants
  imports Files
begin

text \<open>
  What the functions of \<open>a3/fs/inode.c\<close> can do to the state: read and write the cache, change the blocks or the
  length of an inode, and print. A predicate closed under these steps is an invariant of reserving, extending and
  writing, whatever the allocator they call, as long as the allocator keeps it too; and two allocators that agree on
  the states of the invariant give the same results. The interface is the locale \<open>files_inv\<close>.
\<close>

section \<open>Runs that agree and keep an invariant\<close>

definition same :: "('s \<Rightarrow> bool) \<Rightarrow> ('r \<times> 's) option \<Rightarrow> ('r \<times> 's) option \<Rightarrow> bool" where
  "same P m m' \<longleftrightarrow> m = m' \<and> (\<forall>r s. m = Some (r, s) \<longrightarrow> P s)"

lemma same_return: "P s \<Longrightarrow> same P (Some (r, s)) (Some (r, s))"
  by (simp add: same_def)

lemma same_None: "same P None None"
  by (simp add: same_def)

lemma same_bind:
  assumes "same P m m'" and "\<And>r s. P s \<Longrightarrow> same P (f (r, s)) (f' (r, s))"
  shows "same P (m \<bind> f) (m' \<bind> f')"
  using assms by (cases m) (auto simp: same_def)

lemma same_pure: "(\<And>x. m = Some x \<Longrightarrow> same P (f x) (f' x)) \<Longrightarrow> same P (m \<bind> f) (m \<bind> f')"
  by (cases m) (auto simp: same_def)

lemma same_if: "(c \<Longrightarrow> same P m m') \<Longrightarrow> (\<not> c \<Longrightarrow> same P n n') \<Longrightarrow> same P (if c then m else n) (if c then m' else n')"
  by simp

definition same_state :: "('s \<Rightarrow> bool) \<Rightarrow> 's option \<Rightarrow> 's option \<Rightarrow> bool" where
  "same_state P m m' \<longleftrightarrow> m = m' \<and> (\<forall>s. m = Some s \<longrightarrow> P s)"

lemma same_state_bind:
  assumes "same_state P m m'" and "\<And>s. P s \<Longrightarrow> same P (f s) (f' s)"
  shows "same P (m \<bind> f) (m' \<bind> f')"
  using assms by (cases m) (auto simp: same_state_def same_def)

lemma same_state_step:
  assumes "same P m m'" and "\<And>r s. P s \<Longrightarrow> same_state P (f (r, s)) (f' (r, s))"
  shows "same_state P (m \<bind> f) (m' \<bind> f')"
  using assms by (cases m) (auto simp: same_state_def same_def)

lemma same_state_pure:
  "(\<And>x. m = Some x \<Longrightarrow> same_state P (f x) (f' x)) \<Longrightarrow> same_state P (m \<bind> f) (m \<bind> f')"
  by (cases m) (auto simp: same_state_def)

lemma same_stateD: "same_state P m m' \<Longrightarrow> m = Some s \<Longrightarrow> P s"
  by (simp add: same_state_def)

lemma same_state_refl: "(\<And>s. m = Some s \<Longrightarrow> P s) \<Longrightarrow> same_state P m m"
  by (simp add: same_state_def)

lemma sameD: "same P m m' \<Longrightarrow> m = Some (r, s) \<Longrightarrow> P s"
  by (simp add: same_def)

lemmas same_rules = same_return same_None same_if same_pure

definition disk_like :: "inode_disk \<Rightarrow> inode_disk \<Rightarrow> bool" where
  \<comment> \<open>the second inode is the first one with other blocks, or with a length an \<open>offset_t\<close> holds\<close>
  "disk_like d d' \<longleftrightarrow> length (direct_blocks d') = length (direct_blocks d) \<and> id_pad d' = id_pad d \<and>
     (id_length d' = id_length d \<or> off32 (id_length d') = Some (id_length d'))"

lemma disk_like_update [simp]:
  "length bs = length (direct_blocks d) \<Longrightarrow> disk_like d (d\<lparr>direct_blocks := bs\<rparr>)"
  "disk_like d (d\<lparr>indirect_block := x\<rparr>)" "disk_like d (d\<lparr>doubly_indirect_block := x\<rparr>)"
  by (simp_all add: disk_like_def)

section \<open>The interface\<close>

locale files_inv =
  fixes P :: "'a files_scheme \<Rightarrow> bool"
  assumes cache_read: "P s \<Longrightarrow> buffer_cache_read sec s = Some (b, s') \<Longrightarrow> P s'"
    and cache_write: "P s \<Longrightarrow> buffer_cache_write sec b s = Some s' \<Longrightarrow> P s'"
    and disk: "P s \<Longrightarrow> disk_at s r = Some d \<Longrightarrow> disk_like d d' \<Longrightarrow> put_disk r d' s = Some s' \<Longrightarrow> P s'"
    and stack: "P s \<Longrightarrow> P (s\<lparr>block_stack := bs\<rparr>)"
    and print: "P s \<Longrightarrow> P (s\<lparr>console := c\<rparr>)"
begin

lemma assertion: "P s \<Longrightarrow> P (ASSERT f l fn c s)"
  by (simp add: ASSERT_def debug_panic_def printf_def print)

lemma blocks_read: "P s \<Longrightarrow> read_blocks sec s = Some (b, s') \<Longrightarrow> P s'"
  by (auto simp: read_blocks_def split: bind_splits intro: cache_read)

lemma blocks_read_snd: "P s \<Longrightarrow> read_blocks sec s = Some x \<Longrightarrow> P (snd x)"
  by (cases x) (simp add: blocks_read)

lemma entry_put: "P s \<Longrightarrow> put_entry e x s = Some s' \<Longrightarrow> P s'"
  by (auto simp: put_entry_def split: entry_ref.splits bind_splits intro: disk [OF _ _ disk_like_update(2)] disk [OF _ _ disk_like_update(3)] stack)

lemma direct_same:
  assumes a: "\<And>s. P s \<Longrightarrow> same P (a1 s) (a2 s)"
  shows "P s \<Longrightarrow> same P (reserve_direct a1 r is s) (reserve_direct a2 r is s)"
proof (induction "is" arbitrary: s)
  case (Cons i "is")
  have step: "same P (case got of None \<Rightarrow> Some (False, s) | Some x \<Rightarrow> do {
            d \<leftarrow> disk_at s r; bs \<leftarrow> wr (direct_blocks d) i x; s \<leftarrow> put_disk r (d\<lparr>direct_blocks := bs\<rparr>) s;
            s \<leftarrow> buffer_cache_write x zeros s; reserve_direct a1 r is s })
      (case got of None \<Rightarrow> Some (False, s) | Some x \<Rightarrow> do {
            d \<leftarrow> disk_at s r; bs \<leftarrow> wr (direct_blocks d) i x; s \<leftarrow> put_disk r (d\<lparr>direct_blocks := bs\<rparr>) s;
            s \<leftarrow> buffer_cache_write x zeros s; reserve_direct a2 r is s })" if "P s" for got s
  proof (cases got)
    case None
    then show ?thesis using that by (simp add: same_return)
  next
    case (Some x)
    show ?thesis unfolding Some option.case
    proof (intro same_pure)
      fix d bs s1 s2
      assume d: "disk_at s r = Some d" and bs: "wr (direct_blocks d) i x = Some bs"
        and s1: "put_disk r (d\<lparr>direct_blocks := bs\<rparr>) s = Some s1" and s2: "buffer_cache_write x zeros s1 = Some s2"
      have "disk_like d (d\<lparr>direct_blocks := bs\<rparr>)" using bs by (auto simp: wr_Some)
      from cache_write [OF disk [OF that d this s1] s2] show "same P (reserve_direct a1 r is s2) (reserve_direct a2 r is s2)"
        by (rule Cons.IH)
    qed
  qed
  show ?case
    unfolding reserve_direct.simps
    by (intro same_rules, rule Cons.IH [OF Cons.prems], intro same_bind [OF a [OF Cons.prems]]) (simp only: prod.case, rule step)
qed (simp add: same_return)

lemma each_same:
  assumes "\<And>e n s. P s \<Longrightarrow> same P (f e n s) (g e n s)"
  shows "P s \<Longrightarrow> same P (reserve_each f unit b is num s) (reserve_each g unit b is num s)"
proof (induction "is" arbitrary: num s)
  case (Cons i "is")
  show ?case unfolding reserve_each.simps Let_def
    by (rule same_bind [OF assms [OF Cons.prems]]) (simp add: same_return Cons.IH)
qed (simp add: same_return)

lemma indirect_same:
  assumes a: "\<And>s. P s \<Longrightarrow> same P (a1 s) (a2 s)"
  shows "P s \<Longrightarrow> same P (inode_reserve_indirect level a1 e n s) (inode_reserve_indirect level a2 e n s)"
proof (induction level arbitrary: e n s)
  case 0
  have store: "same P (case got of None \<Rightarrow> Some (False, s) | Some x \<Rightarrow> do {
        s \<leftarrow> put_entry e x s; s \<leftarrow> buffer_cache_write x zeros s; Some (True, s) })
      (case got of None \<Rightarrow> Some (False, s) | Some x \<Rightarrow> do {
        s \<leftarrow> put_entry e x s; s \<leftarrow> buffer_cache_write x zeros s; Some (True, s) })" if "P s" for got s
    using that by (auto split: option.split intro!: same_rules intro: cache_write entry_put)
  show ?case unfolding inode_reserve_indirect.simps Let_def
    by (intro same_rules assertion 0 same_bind [OF a]) (simp only: prod.case, rule store)
next
  case (Suc level)
  have fill: "same_state P (do { (got, s) \<leftarrow> a1 s; s \<leftarrow> (case got of None \<Rightarrow> Some s | Some x \<Rightarrow> put_entry e x s);
          v \<leftarrow> entry_at s e; buffer_cache_write v zeros s })
      (do { (got, s) \<leftarrow> a2 s; s \<leftarrow> (case got of None \<Rightarrow> Some s | Some x \<Rightarrow> put_entry e x s);
          v \<leftarrow> entry_at s e; buffer_cache_write v zeros s })" if "P s" for s
    by (rule same_state_step [OF a [OF that]])
      (auto split: option.splits bind_splits intro!: same_state_refl intro: cache_write entry_put)
  have rest: "same P (do {
        indirect_block \<leftarrow> rd (block_stack s) b;
        let s = s\<lparr>block_stack := take b (block_stack s)\<rparr>;
        if \<not> ok then Some (False, s)
        else do {
          let s = ASSERT ''fs/inode.c'' 444 ''inode_reserve_indirect'' (num = 0) s;
          v \<leftarrow> entry_at s e;
          s \<leftarrow> buffer_cache_write v (bytes_of_words 4 indirect_block) s;
          Some (True, s) } })
      (do {
        indirect_block \<leftarrow> rd (block_stack s) b;
        let s = s\<lparr>block_stack := take b (block_stack s)\<rparr>;
        if \<not> ok then Some (False, s)
        else do {
          let s = ASSERT ''fs/inode.c'' 444 ''inode_reserve_indirect'' (num = 0) s;
          v \<leftarrow> entry_at s e;
          s \<leftarrow> buffer_cache_write v (bytes_of_words 4 indirect_block) s;
          Some (True, s) } })" if "P s" for s b ok and num :: nat
    unfolding Let_def by (intro same_rules stack that) (erule cache_write [OF assertion [OF stack [OF that]]])
  show ?case unfolding inode_reserve_indirect.simps Let_def
    apply (rule same_pure, rule same_state_bind)
     apply (auto intro!: fill assertion Suc.prems same_state_refl)[1]
    apply (rule same_pure, rule same_pure)
    apply (simp only: split_beta)
    apply (rule same_bind [OF each_same])
      apply (erule Suc.IH)
     apply (rule stack, erule blocks_read_snd, assumption)
    apply (simp only: split_paired_all prod.case)
    apply (erule rest [unfolded Let_def])
    done
qed

lemma reserve_same:
  assumes a: "\<And>s. P s \<Longrightarrow> same P (a1 s) (a2 s)" and "P s"
  shows "same P (inode_reserve a1 r len s) (inode_reserve a2 r len s)"
  unfolding inode_reserve_def Let_def
  apply (intro same_if same_return assms(2) same_pure)
  apply (rule same_bind, rule direct_same, erule a, rule assms(2), simp only: prod.case, intro same_if same_return)
    apply assumption+
  apply (rule same_bind, rule indirect_same, erule a, assumption, simp only: prod.case, intro same_if same_return)
    apply assumption+
  apply (rule same_bind, rule indirect_same, erule a, assumption, simp only: prod.case, intro same_if same_return)
    apply (assumption | erule assertion)+
  done

lemma put_length:
  assumes "P s" and "inode_at s p = Some i" and "off32 n = Some n"
  shows "P (put_inode p (i\<lparr>in_data := (in_data i)\<lparr>id_length := n\<rparr>\<rparr>) s)"
  by (rule disk [of s "Data_of p" "in_data i" "(in_data i)\<lparr>id_length := n\<rparr>"])
    (use assms in \<open>simp_all add: disk_at_def put_disk_def disk_like_def\<close>)

lemma extend_same:
  assumes a: "\<And>s. P s \<Longrightarrow> same P (a1 s) (a2 s)" and "P s" and n: "off32 n = Some n"
  shows "same P (extend_inode a1 p n s) (extend_inode a2 p n s)"
  unfolding extend_inode_def Let_def
  apply (rule same_bind, rule reserve_same, erule a, rule assms(2), simp only: prod.case)
  apply (rule same_if, erule same_return, rule same_pure, rule same_pure, rule same_return)
  apply (erule cache_write [OF put_length [OF _ _ n]], assumption+)
  done

lemma to_sector: "P s \<Longrightarrow> same P (byte_to_sector d pos s) (byte_to_sector d pos s)"
  unfolding byte_to_sector_def index_to_sector_def Let_def
  by (intro same_if same_pure same_return same_None; simp only: split_paired_all prod.case)
    (intro same_pure same_return same_None; (assumption | (simp only: split_paired_all prod.case, intro same_pure same_return; blast intro: blocks_read) | blast intro: blocks_read))+

lemma chunk_write: "P s \<Longrightarrow> write_chunk sec ofs n piece s = Some s' \<Longrightarrow> P s'"
  unfolding write_chunk_def by (auto split: if_splits bind_splits) (blast intro: cache_read cache_write)+

lemma loop_write: "P s \<Longrightarrow> same P (write_loop d buf sz ofs s) (write_loop d buf sz ofs s)"
proof (induction "nat sz" arbitrary: s buf sz ofs rule: less_induct)
  case less
  show ?case
    apply (subst (1 2) write_loop.simps)
    unfolding Let_def
    apply (rule same_if, rule same_return, rule less.prems)
    apply (rule same_bind, rule to_sector, rule less.prems)
    apply (simp only: prod.case)
    apply (rule same_pure, rule same_if, erule same_return)
    apply (rule same_pure, rule same_pure, rule same_pure)
    apply (rule same_bind, rule less.hyps)
      apply (simp add: not_le)
     apply (erule chunk_write, assumption)
    apply (simp only: prod.case, erule same_return)
    done
qed

lemma loop_read: "P s \<Longrightarrow> same P (read_loop d sz ofs s) (read_loop d sz ofs s)"
proof (induction "nat sz" arbitrary: s sz ofs rule: less_induct)
  case less
  show ?case
    apply (subst (1 2) read_loop.simps)
    unfolding Let_def
    apply (rule same_if, rule same_return, rule less.prems)
    apply (rule same_bind, rule to_sector, rule less.prems)
    apply (simp only: prod.case)
    apply (rule same_pure, rule same_if, erule same_return)
    apply (rule same_pure)
    apply (simp only: split_paired_all prod.case)
    apply (rule same_pure, rule same_pure)
    apply (rule same_bind, rule less.hyps)
      apply (simp add: not_le)
     apply (erule cache_read, assumption)
    apply (simp only: prod.case, erule same_return)
    done
qed

lemma inode_write_same:
  assumes a: "\<And>s. P s \<Longrightarrow> same P (a1 s) (a2 s)" and "P s"
  shows "same P (inode_write_at a1 p buf sz ofs s) (inode_write_at a2 p buf sz ofs s)"
  unfolding inode_write_at_def
  apply (rule same_pure, rule same_if, rule same_return, rule assms(2), rule same_pure, rule same_pure)
  apply (rule same_bind, rule to_sector, rule assms(2))
  apply (simp only: prod.case)
  apply (rule same_bind, rule same_if, rule extend_same, erule a, assumption)
    apply (simp add: off32_def split: if_splits)
   apply (erule same_return)
  apply (simp only: prod.case)
  apply (rule same_if, erule same_return, rule same_pure, rule same_pure, erule loop_write)
  done

lemma bitmap_write_same:
  assumes a: "\<And>s. P s \<Longrightarrow> same P (a1 s) (a2 s)" and "P s"
  shows "same P (bitmap_write a1 f s) (bitmap_write a2 f s)"
  unfolding bitmap_write_def Let_def file_write_at_def
  apply (intro same_pure)
  apply (rule same_bind, rule same_pure, rule inode_write_same, erule a, rule assms(2))
  apply (simp only: prod.case, erule same_return)
  done

end

section \<open>Invariants that do not depend on the free map\<close>

locale files_inv_map = files_inv +
  assumes map_any: "P s \<Longrightarrow> P (s\<lparr>free_map := m\<rparr>)"
begin

lemma b_assert: "P s \<Longrightarrow> P (bitmap_assert line fn c s)"
  by (rule assertion)

lemma b_test: "P s \<Longrightarrow> same P (bitmap_test b i s) (bitmap_test b i s)"
  unfolding bitmap_test_def Let_def by (intro same_pure same_return b_assert)

lemma b_set: "P s \<Longrightarrow> same P (bitmap_set b i v s) (bitmap_set b i v s)"
  unfolding bitmap_set_def Let_def by (intro same_pure same_return b_assert)

lemma b_range: "P s \<Longrightarrow> same P (set_range b j n v s) (set_range b j n v s)"
proof (induction n arbitrary: b j s)
  case (Suc n)
  show ?case unfolding set_range.simps
    by (rule same_bind, rule b_set, rule Suc.prems, simp only: prod.case, erule Suc.IH)
qed (simp add: same_return)

lemma b_contains: "P s \<Longrightarrow> same P (contains_range b j n v s) (contains_range b j n v s)"
proof (induction n arbitrary: j s)
  case (Suc n)
  show ?case unfolding contains_range.simps
    by (rule same_bind, rule b_test, rule Suc.prems, simp only: prod.case, rule same_if, erule same_return, erule Suc.IH)
qed (simp add: same_return)

lemma b_all: "P s \<Longrightarrow> same P (bitmap_all b i n s) (bitmap_all b i n s)"
  unfolding bitmap_all_def bitmap_contains_def Let_def
  by (rule same_bind, rule b_contains, intro b_assert, assumption, simp only: prod.case, erule same_return)

lemma b_multiple: "P s \<Longrightarrow> same P (bitmap_set_multiple b i n v s) (bitmap_set_multiple b i n v s)"
  unfolding bitmap_set_multiple_def Let_def by (intro b_range b_assert)

lemma b_scan_range: "P s \<Longrightarrow> same P (scan_range b i n cnt v s) (scan_range b i n cnt v s)"
proof (induction n arbitrary: i s)
  case (Suc n)
  show ?case unfolding scan_range.simps bitmap_contains_def Let_def
    by (rule same_bind, rule b_contains, intro b_assert Suc.prems, simp only: prod.case, rule same_if, erule same_return, erule Suc.IH)
qed (simp add: same_return)

lemma b_scan: "P s \<Longrightarrow> same P (bitmap_scan_and_flip b i cnt v s) (bitmap_scan_and_flip b i cnt v s)"
  unfolding bitmap_scan_and_flip_def bitmap_scan_def Let_def
  by (rule same_bind, rule same_if, intro b_scan_range b_assert, assumption, intro same_return b_assert, assumption,
      simp only: prod.case, rule same_if, rule same_bind, erule b_multiple, simp only: prod.case, (erule same_return)+)

lemma allocate: "P s \<Longrightarrow> same P (allocate_nested fuel cnt s) (allocate_nested fuel cnt s)"
proof (induction fuel arbitrary: cnt s)
  case (Suc fuel)
  have end': "same P (Some (if x \<noteq> e then Some x else None, s)) (Some (if x \<noteq> e then Some x else None, s))"
    if "P s" for s and x e :: sector using that by (rule same_return)
  show ?case unfolding allocate_nested.simps Let_def
    apply (rule same_pure)
    apply (rule same_bind, rule b_scan, rule Suc.prems)
    apply (simp only: split_paired_all prod.case)
    apply (rule same_bind, rule same_if, rule same_bind, rule bitmap_write_same)
        apply (erule Suc.IH)
       apply (erule map_any)
      apply (simp only: prod.case, rule same_if, erule same_return, rule same_pure)
      apply (rule same_bind, erule b_multiple, simp only: prod.case, rule same_return, erule map_any)
     apply (rule same_return, erule map_any)
    apply (simp only: prod.case, erule end')
    done
qed (simp add: same_None)

lemma allocate_one: "P s \<Longrightarrow> same P (free_map_allocate cnt s) (free_map_allocate cnt s)"
  unfolding free_map_allocate_def by (rule allocate)

lemma release:
  assumes "P s" and "free_map_release sector cnt s = Some s'"
  shows "P s'"
proof -
  have "same_state P (free_map_release sector cnt s) (free_map_release sector cnt s)"
    unfolding free_map_release_def Let_def
    apply (rule same_state_pure, rule same_state_step, rule b_all, rule assms(1), simp only: prod.case)
    apply (rule same_state_step, rule b_multiple, erule assertion, simp only: prod.case)
    apply (rule same_state_step, rule bitmap_write_same, erule allocate_one, erule map_any)
    apply (simp add: same_state_def)
    done
  from same_stateD [OF this assms(2)] show ?thesis .
qed

lemma dealloc_each:
  assumes "\<And>e n s s'. P s \<Longrightarrow> f e n s = Some s' \<Longrightarrow> P s'"
  shows "P s \<Longrightarrow> deallocate_each f unit blk is num s = Some (m, s') \<Longrightarrow> P s'"
  by (induction "is" arbitrary: num s) (auto simp: Let_def split: bind_splits dest: assms)

lemma dealloc_indirect: "P s \<Longrightarrow> inode_deallocate_indirect level e n s = Some s' \<Longrightarrow> P s'"
proof (induction level arbitrary: e n s s')
  case 0
  then show ?case using release [OF assertion [OF 0(1)]] by (simp only: inode_deallocate_indirect.simps)
next
  case (Suc level)
  from Suc.prems obtain blk s1 m s2 where
    r: "read_blocks e (ASSERT ''fs/inode.c'' 503 ''inode_deallocate_indirect'' (Suc level \<le> 2) s) = Some (blk, s1)"
    and d: "deallocate_each (inode_deallocate_indirect level) (if Suc level = 1 then 1 else INDIRECT_BLOCKS_PER_SECTOR) blk
      [0..<DIV_ROUND_UP n (if Suc level = 1 then 1 else INDIRECT_BLOCKS_PER_SECTOR)] n s1 = Some (m, s2)"
    and f: "free_map_release e 1 (ASSERT ''fs/inode.c'' 524 ''inode_deallocate_indirect'' (m = 0) s2) = Some s'"
    by (auto simp: Let_def split: bind_splits)
  have "P s1" by (rule blocks_read [OF assertion [OF Suc.prems(1)] r])
  then have "P s2" using d by (rule dealloc_each [rotated]) (rule Suc.IH)
  from release [OF assertion [OF this] f] show ?case .
qed

lemma direct_release: "P s \<Longrightarrow> release_direct p is s = Some s' \<Longrightarrow> P s'"
  by (induction "is" arbitrary: s) (auto split: bind_splits dest: release)

lemma maybe_dealloc:
  "P s \<Longrightarrow> same_state P (if c then inode_deallocate_indirect l e n s else Some s) (if c then inode_deallocate_indirect l e n s else Some s)"
  using dealloc_indirect [of s l e n] by (auto simp: same_state_def simp del: inode_deallocate_indirect.simps)

lemma dealloc:
  assumes "P s" and "inode_deallocate p s = Some (r, s')"
  shows "P s'"
proof -
  have "same P (inode_deallocate p s) (inode_deallocate p s)"
    unfolding inode_deallocate_def Let_def
    apply (rule same_pure, rule same_if, rule same_return, rule assms(1), rule same_pure)
    apply (rule same_state_bind, rule same_state_refl, erule direct_release [OF assms(1)], rule same_pure)
    apply (rule same_state_bind, erule maybe_dealloc)
    apply (rule same_pure, rule same_state_bind, erule maybe_dealloc)
    apply (rule same_return, erule assertion)
    done
  from sameD [OF this assms(2)] show ?thesis .
qed

end

end
