(* ===== verification/Inode_Types.thy ===== *)
theory Inode_Types
  imports Inode_Invariants
begin

text \<open>
  The types the struct layout promises: an inode on disk is 512 bytes whose image reads back as the same inode, and
  every inode in memory keeps the shape of the C struct (123 direct blocks, 3 bytes of padding, a 32-bit length)
  through every operation of \<open>a3/fs/inode.c\<close>, \<open>a3/fs/file.c\<close> and \<open>a3/fs/free-map.c\<close> that changes one.
\<close>

section \<open>Images\<close>

definition disk_typed :: "inode_disk \<Rightarrow> bool" where
  "disk_typed d \<longleftrightarrow> length (direct_blocks d) = DIRECT_BLOCKS_COUNT \<and> length (id_pad d) = 3 \<and> off32 (id_length d) = Some (id_length d)"

lemma length_inode_image [simp]: "disk_typed d \<Longrightarrow> length (inode_image d) = BLOCK_SECTOR_SIZE"
  by (simp add: disk_typed_def inode_image_def DIRECT_BLOCKS_COUNT_def BLOCK_SECTOR_SIZE_def)

lemma sint_32: "off32 i = Some i \<Longrightarrow> sint (word_of_int i :: 32 word) = i"
  by (simp add: off32_def sint_sbintrunc' signed_take_bit_int_eq_self split: if_splits)

lemma disk_typed_of_image: "length b = BLOCK_SECTOR_SIZE \<Longrightarrow> disk_typed (inode_of_image b)"
  using sint_ge [of "le_word (take 4 (drop 504 b)) :: 32 word"] sint_lt [of "le_word (take 4 (drop 504 b)) :: 32 word"]
  by (simp add: disk_typed_def inode_of_image_def off32_def BLOCK_SECTOR_SIZE_def)

lemma image_roundtrip:
  assumes "disk_typed d"
  shows "inode_of_image (inode_image d) = d"
proof -
  let ?w = "bytes_of_words 4 (direct_blocks d)"
  have w: "length ?w = 492" using assms by (simp add: disk_typed_def DIRECT_BLOCKS_COUNT_def)
  have p: "length (id_pad d) = 3" using assms by (simp add: disk_typed_def)
  have words: "words_of_bytes 4 DIRECT_BLOCKS_COUNT (inode_image d) = direct_blocks d"
    using assms words_of_bytes_of_words [where 'a = 32, of 4 "direct_blocks d"]
    by (simp add: inode_image_def disk_typed_def)
  have len: "sint (word_of_int (id_length d) :: 32 word) = id_length d"
    using assms by (intro sint_32) (simp add: disk_typed_def)
  show ?thesis
    unfolding inode_of_image_def words
    using w len p by (cases d) (simp add: inode_image_def nth_append)
qed

section \<open>The types of the state\<close>

definition sized :: "'a cached_scheme \<Rightarrow> bool" where
  "sized s \<longleftrightarrow> (\<forall>e \<in> set (cache s). length (buffer e) = BLOCK_SECTOR_SIZE)"

lemma sized_set_entry: "sized s \<Longrightarrow> length (buffer e) = BLOCK_SECTOR_SIZE \<Longrightarrow> sized (set_entry i e s)"
  using set_update_subset_insert [of "cache s" i e] by (auto simp: sized_def set_entry_def)

lemma sized_rd: "sized s \<Longrightarrow> rd (cache s) i = Some e \<Longrightarrow> length (buffer e) = BLOCK_SECTOR_SIZE"
  by (auto simp: sized_def rd_Some)

lemma block_read_frame:
  "block_read bp sec buf w = Some y \<Longrightarrow> length (fst y) = length buf \<and> devices.more (snd y) = devices.more w"
proof (rule block_read.raw_induct [where P = "\<lambda>bp sec buf w y. length (fst y) = length buf \<and> devices.more (snd y) = devices.more w"])
  fix br bp sec buf and w :: "'a devices_scheme" and y
  assume IH: "\<And>bp sec buf w y. br bp sec buf w = Some y \<Longrightarrow> length (fst y) = length buf \<and> devices.more (snd y) = devices.more w"
    and run: "do { b \<leftarrow> bp; blk \<leftarrow> rd (blocks w) b; let w = check_sector blk sec w;
      (buf, w) \<leftarrow> (case bd_ops blk of Ide \<Rightarrow> Some (ide_read sec buf w, w) | Partition p start \<Rightarrow> br (Some p) (start + sec + 1) buf w);
      w \<leftarrow> count_read b w; Some (buf, w) } = Some y"
  show "length (fst y) = length buf \<and> devices.more (snd y) = devices.more w"
    using run
    by (auto simp: Let_def count_read_def check_sector_def debug_panic_def printf_def ide_read_def file_read_def
        split: bind_splits driver.splits if_splits dest!: IH)
qed

lemma block_write_frame: "block_write bp sec data w = Some w' \<Longrightarrow> devices.more w' = devices.more w"
proof (rule block_write.raw_induct [where P = "\<lambda>bp sec data w w'. devices.more w' = devices.more w"])
  fix bw bp sec data and w w' :: "'a devices_scheme"
  assume IH: "\<And>bp sec data w w'. bw bp sec data w = Some w' \<Longrightarrow> devices.more w' = devices.more w"
    and run: "do { b \<leftarrow> bp; blk \<leftarrow> rd (blocks w) b; let w = check_sector blk sec w;
      w \<leftarrow> (case bd_ops blk of Ide \<Rightarrow> Some (ide_write sec data w) | Partition p start \<Rightarrow> bw (Some p) (start + sec + 1) data w);
      count_write b w } = Some w'"
  show "devices.more w' = devices.more w"
    using run
    by (auto simp: Let_def count_write_def check_sector_def debug_panic_def printf_def ide_write_def
        split: bind_splits driver.splits if_splits dest!: IH)
qed

lemma cached_more:
  assumes "devices.more s' = devices.more (s :: 'a cached_scheme)"
  shows "cached.more s' = cached.more s" and "cache s' = cache s" and "clock s' = clock s"
  using assms by (cases s; cases s'; simp)+

lemma clock_loop_frame: "clock_loop s = Some s' \<Longrightarrow> sized s \<Longrightarrow> sized s' \<and> cached.more s' = cached.more s"
proof (induction s arbitrary: s' rule: clock_loop.induct)
  case (1 s)
  let ?e = "cache s ! clock s"
  consider (out) "length (cache s) \<le> clock s" | (stop) "clock s < length (cache s)" "\<not> occupied ?e \<or> \<not> accessed ?e"
    | (turn) "clock s < length (cache s)" "occupied ?e" "accessed ?e" by linarith
  then show ?case
  proof cases
    case turn
    let ?s = "set_entry (clock s) (?e\<lparr>accessed := False\<rparr>) s\<lparr>clock := (clock s + 1) mod BUFFER_CACHE_SIZE\<rparr>"
    have sz: "sized ?s"
      using sized_set_entry [OF 1(3), of "?e\<lparr>accessed := False\<rparr>" "clock s"] 1(3) turn(1) by (simp add: sized_def)
    have "clock_loop ?s = Some s'" using 1(2) turn by (subst (asm) clock_loop.simps) (simp add: Let_def)
    from 1(1) [OF _ refl _ _ this sz] turn show ?thesis by (simp add: set_entry_def)
  qed (use 1(2,3) in \<open>auto simp: clock_loop.simps Let_def split: if_splits\<close>)
qed

lemma cache_flush_frame:
  assumes "buffer_cache_flush i s = Some s'" and "sized s"
  shows "sized s' \<and> cached.more s' = cached.more s"
proof -
  obtain e where e: "rd (cache s) i = Some e" using assms(1) by (auto simp: buffer_cache_flush_def split: bind_splits)
  let ?s = "ASSERT ''fs/cache.c'' 32 ''buffer_cache_flush'' (occupied e) s"
  have a: "cache ?s = cache s" "cached.more ?s = cached.more s" "sized ?s"
    using assms(2) by (simp_all add: ASSERT_def debug_panic_def printf_def sized_def)
  show ?thesis
  proof (cases "dirty e")
    case False
    then show ?thesis using assms(1) e a by (simp add: buffer_cache_flush_def)
  next
    case True
    then obtain s1 where s1: "block_write (fs_device ?s) (disk_sector e) (buffer e) ?s = Some s1"
        "s' = set_entry i (e\<lparr>dirty := False\<rparr>) s1"
      using assms(1) e by (auto simp: buffer_cache_flush_def Let_def split: bind_splits)
    note more = cached_more [OF block_write_frame [OF s1(1)]]
    have "sized s1" using more(2) a by (simp add: sized_def)
    then show ?thesis using sized_set_entry [of s1 "e\<lparr>dirty := False\<rparr>" i] sized_rd [OF assms(2) e] s1(2) more(1) a
      by (simp add: set_entry_def)
  qed
qed

lemma evict_frame:
  assumes "buffer_cache_evict s = Some (i, s')" and "sized s"
  shows "sized s' \<and> cached.more s' = cached.more s"
proof -
  obtain s1 e where s1: "clock_loop s = Some s1" "rd (cache s1) (clock s1) = Some e"
    using assms(1) by (auto simp: buffer_cache_evict_def Let_def split: bind_splits)
  note f1 = clock_loop_frame [OF s1(1) assms(2)]
  show ?thesis
  proof (cases "occupied e")
    case False
    then show ?thesis using assms(1) s1 f1 by (simp add: buffer_cache_evict_def Let_def)
  next
    case True
    then obtain s2 e2 where s2: "(if dirty e then buffer_cache_flush (clock s1) s1 else Some s1) = Some s2"
        "rd (cache s2) (clock s1) = Some e2" "s' = set_entry (clock s1) (e2\<lparr>occupied := False\<rparr>) s2"
      using assms(1) s1 by (auto simp: buffer_cache_evict_def Let_def split: bind_splits)
    have f2: "sized s2 \<and> cached.more s2 = cached.more s1"
      using s2(1) cache_flush_frame [of "clock s1" s1 s2] f1 by (cases "dirty e") auto
    then show ?thesis using s2(3) f1 sized_rd [OF _ s2(2)] sized_set_entry [of s2 "e2\<lparr>occupied := False\<rparr>"]
      by (simp add: set_entry_def)
  qed
qed

lemma load_entry_frame:
  assumes "load_entry l sec s = Some (i, s')" and "sized s"
  shows "sized s' \<and> cached.more s' = cached.more s"
proof (cases "buffer_cache_lookup sec s")
  case (Some j)
  then show ?thesis using assms by (simp add: load_entry_def)
next
  case None
  let ?fn = "if l = 106 then ''buffer_cache_read'' else ''buffer_cache_write''"
  obtain s1 e buf s2 where s1: "buffer_cache_evict s = Some (i, s1)" "rd (cache s1) i = Some e"
      "block_read (fs_device (ASSERT ''fs/cache.c'' l ?fn (\<not> occupied e) s1)) sec (buffer e)
         (ASSERT ''fs/cache.c'' l ?fn (\<not> occupied e) s1) = Some (buf, s2)"
      "s' = set_entry i (e\<lparr>occupied := True, disk_sector := sec, dirty := False, buffer := buf\<rparr>) s2"
    using assms(1) None by (auto simp: load_entry_def Let_def split: bind_splits)
  note f1 = evict_frame [OF s1(1) assms(2)]
  have a: "cache (ASSERT f l fn c s1) = cache s1" "cached.more (ASSERT f l fn c s1) = cached.more s1" for f fn c
    by (simp_all add: ASSERT_def debug_panic_def printf_def)
  have r: "length buf = length (buffer e)" "devices.more s2 = devices.more (ASSERT ''fs/cache.c'' l ?fn (\<not> occupied e) s1)"
    using block_read_frame [OF s1(3)] by simp_all
  have "sized s2" using cached_more(2) [OF r(2)] a f1 by (simp add: sized_def)
  moreover have "length buf = BLOCK_SECTOR_SIZE" using r(1) sized_rd [of s1 i e] f1 s1(2) by simp
  ultimately show ?thesis
    using s1(4) sized_set_entry [of s2] cached_more(1) [OF r(2)] a f1 by (simp add: set_entry_def)
qed

lemma cache_read_frame:
  "buffer_cache_read sec s = Some (b, s') \<Longrightarrow> sized s \<Longrightarrow>
   sized s' \<and> cached.more s' = cached.more s \<and> length b = BLOCK_SECTOR_SIZE"
  by (auto simp: buffer_cache_read_def sized_set_entry sized_rd set_entry_def [THEN arg_cong [where f = cached.more]]
      split: bind_splits dest!: load_entry_frame intro: sized_rd)

lemma cache_write_frame:
  "buffer_cache_write sec b s = Some s' \<Longrightarrow> sized s \<Longrightarrow> sized s' \<and> cached.more s' = cached.more s"
  by (auto simp: buffer_cache_write_def sized_set_entry set_entry_def [THEN arg_cong [where f = cached.more]]
      split: bind_splits if_splits dest!: load_entry_frame)

section \<open>The invariant\<close>

definition typed :: "'a files_scheme \<Rightarrow> bool" where
  \<comment> \<open>every inode in memory has the shape of its C struct, every cached sector is one sector long\<close>
  "typed s \<longleftrightarrow> sized s \<and> (\<forall>i. Some i \<in> set (inode_heap s) \<longrightarrow> disk_typed (in_data i)) \<and>
     (\<forall>d. Some d \<in> set (disk_heap s) \<longrightarrow> disk_typed d)"

lemma typed_more: "typed s \<Longrightarrow> sized s' \<Longrightarrow> cached.more s' = cached.more s \<Longrightarrow> typed s'"
  by (cases s; cases s') (auto simp: typed_def)

lemma typed_inode: "typed s \<Longrightarrow> inode_at s p = Some i \<Longrightarrow> disk_typed (in_data i)"
  by (auto simp: typed_def inode_at_def rd_Some split: bind_splits dest!: nth_mem)

lemma typed_put_inode: "typed s \<Longrightarrow> disk_typed (in_data i) \<Longrightarrow> typed (put_inode p i s)"
  using set_update_subset_insert [of "inode_heap s" p "Some i"] by (auto simp: typed_def put_inode_def sized_def)

lemma typed_disk_at: "typed s \<Longrightarrow> disk_at s r = Some d \<Longrightarrow> disk_typed d"
  by (cases r) (auto simp: disk_at_def typed_inode typed_def rd_Some split: bind_splits dest!: nth_mem)

lemma typed_put_disk: "typed s \<Longrightarrow> disk_typed d \<Longrightarrow> put_disk r d s = Some s' \<Longrightarrow> typed s'"
proof (cases r)
  case (Own q)
  then show "typed s \<Longrightarrow> disk_typed d \<Longrightarrow> put_disk r d s = Some s' \<Longrightarrow> typed s'"
    using set_update_subset_insert [of "disk_heap s" q "Some d"]
    by (auto simp: put_disk_def wr_Some typed_def sized_def split: bind_splits)
qed (auto simp: put_disk_def typed_put_inode split: bind_splits)

interpretation ty: files_inv_map typed
proof
  fix s s' :: "'a files_scheme" and sec b
  show "typed s \<Longrightarrow> buffer_cache_read sec s = Some (b, s') \<Longrightarrow> typed s'"
    using cache_read_frame [of sec s b s'] typed_more by (auto simp: typed_def)
  show "typed s \<Longrightarrow> buffer_cache_write sec b s = Some s' \<Longrightarrow> typed s'"
    using cache_write_frame [of sec b s s'] typed_more by (auto simp: typed_def)
next
  fix s s' :: "'a files_scheme" and r d d'
  assume "typed s" "disk_at s r = Some d" "disk_like d d'" "put_disk r d' s = Some s'"
  moreover from this have "disk_typed d'" using typed_disk_at [of s r d] by (auto simp: disk_like_def disk_typed_def)
  ultimately show "typed s'" using typed_put_disk by blast
qed (simp_all add: typed_def sized_def)

section \<open>Operations outside the interface\<close>

lemma typed_push:
  "typed s \<Longrightarrow> disk_typed d \<Longrightarrow> typed (s\<lparr>disk_heap := disk_heap s @ [Some d]\<rparr>)"
  "typed s \<Longrightarrow> disk_typed (in_data i) \<Longrightarrow> typed (s\<lparr>inode_heap := inode_heap s @ [Some i]\<rparr>)"
  by (auto simp: typed_def sized_def)

lemma typed_free:
  "typed s \<Longrightarrow> typed (s\<lparr>disk_heap := (disk_heap s)[q := None]\<rparr>)"
  "typed s \<Longrightarrow> typed (s\<lparr>inode_heap := (inode_heap s)[q := None]\<rparr>)"
  by (auto simp: typed_def sized_def dest!: set_update_subset_insert [THEN subsetD])

lemma typed_other:
  "typed s \<Longrightarrow> typed (s\<lparr>open_inodes := x\<rparr>)" "typed s \<Longrightarrow> typed (s\<lparr>file_heap := h\<rparr>)"
  "typed s \<Longrightarrow> typed (s\<lparr>file_table := t\<rparr>)" "typed s \<Longrightarrow> typed (s\<lparr>free_map_file := m\<rparr>)"
  "typed s \<Longrightarrow> typed (put_file f y s)"
  by (simp_all add: typed_def sized_def put_file_def)

lemma typed_open: "typed s \<Longrightarrow> inode_open sec s = Some (p, s') \<Longrightarrow> typed s'"
proof -
  assume t: "typed s" and r: "inode_open sec s = Some (p, s')"
  show ?thesis
  proof (cases "find_inode (open_inodes s) sec s")
    case (Some found)
    show ?thesis
    proof (cases found)
      case None
      let ?s = "s\<lparr>open_inodes := length (inode_heap s) # open_inodes s\<rparr>"
      have ts: "typed ?s" using t by (rule typed_other)
      obtain b s1 where s1: "buffer_cache_read sec ?s = Some (b, s1)"
          "s' = s1\<lparr>inode_heap := inode_heap s1 @ [Some \<lparr>in_sector = sec, open_cnt = 1, removed = False,
                 deny_write_cnt = 0, in_data = inode_of_image b\<rparr>]\<rparr>"
        using r Some None by (auto simp: inode_open_def Let_def split: bind_splits)
      have "sized ?s" using ts by (simp add: typed_def)
      then have "disk_typed (inode_of_image b)" using cache_read_frame [OF s1(1)] by (simp add: disk_typed_of_image)
      then show ?thesis using s1(2) typed_push(2) [OF ty.cache_read [OF ts s1(1)]] by simp
    qed (use r Some t in \<open>simp add: inode_open_def\<close>)
  qed (use r in \<open>simp add: inode_open_def\<close>)
qed

lemma typed_create:
  assumes t: "typed s" and len: "off32 len = Some len" and r: "inode_create sec len dir s = Some (ok, s')"
  shows "typed s'"
proof -
  let ?d = "\<lparr>direct_blocks = replicate DIRECT_BLOCKS_COUNT 0, indirect_block = 0, doubly_indirect_block = 0,
              is_dir = dir, id_pad = [0, 0, 0], id_length = len, magic = INODE_MAGIC\<rparr>"
  let ?a = "ASSERT ''fs/inode.c'' 117 ''inode_create'' (0 \<le> len) s"
  let ?q = "length (disk_heap ?a)"
  obtain s1 d s2 where s1: "inode_allocate (free_map_allocate 1) (Own ?q) (?a\<lparr>disk_heap := disk_heap ?a @ [Some ?d]\<rparr>) = Some (ok, s1)"
      "disk_at s1 (Own ?q) = Some d" "(if ok then buffer_cache_write sec (inode_image d) s1 else Some s1) = Some s2"
      "s' = s2\<lparr>disk_heap := (disk_heap s2)[?q := None]\<rparr>"
    using r by (auto simp: inode_create_def Let_def split: bind_splits)
  have "typed (?a\<lparr>disk_heap := disk_heap ?a @ [Some ?d]\<rparr>)"
    using len by (intro typed_push(1) ty.assertion t) (simp add: disk_typed_def)
  then have res: "same typed (inode_reserve (free_map_allocate 1) r n (?a\<lparr>disk_heap := disk_heap ?a @ [Some ?d]\<rparr>))
      (inode_reserve (free_map_allocate 1) r n (?a\<lparr>disk_heap := disk_heap ?a @ [Some ?d]\<rparr>))" for r n
    by (intro ty.reserve_same ty.allocate_one)
  have "typed s1" using s1(1) by (auto simp: inode_allocate_def split: bind_splits intro: sameD [OF res])
  then have "typed s2" using s1(3) ty.cache_write by (auto split: if_splits)
  then show ?thesis using s1(4) typed_free(1) by simp
qed

lemma typed_close:
  assumes t: "typed s" and r: "inode_close pp s = Some s'"
  shows "typed s'"
proof (cases pp)
  case (Some p)
  obtain i where i: "inode_at s p = Some i" using r Some by (auto simp: inode_close_def split: bind_splits)
  let ?s = "put_inode p (i\<lparr>open_cnt := open_cnt i - 1\<rparr>) s"
  let ?s1 = "?s\<lparr>open_inodes := remove1 p (open_inodes ?s)\<rparr>"
  have ts: "typed ?s" using typed_put_inode [OF t] typed_inode [OF t i] by simp
  then have ts1: "typed ?s1" by (rule typed_other)
  have "typed s2" if "free_map_release sec 1 ?s1 = Some x" "inode_deallocate p x = Some (b, s2)" for sec x b s2
    by (rule ty.dealloc [OF ty.release [OF ts1 that(1)] that(2)])
  then show ?thesis
    using r Some i ts ts1 typed_free(2) by (auto simp: inode_close_def Let_def split: bind_splits if_splits)
qed (use r t in \<open>simp add: inode_close_def\<close>)

lemma typed_deny:
  "typed s \<Longrightarrow> inode_deny_write p s = Some s' \<Longrightarrow> typed s'"
  "typed s \<Longrightarrow> inode_allow_write p s = Some s' \<Longrightarrow> typed s'"
  "typed s \<Longrightarrow> inode_remove p s = Some s' \<Longrightarrow> typed s'"
  by (auto simp: inode_deny_write_def inode_allow_write_def inode_remove_def Let_def
      split: bind_splits intro!: ty.assertion typed_put_inode dest: typed_inode)

lemma typed_not_null: "typed s \<Longrightarrow> not_null l fn fp s = Some (f, s') \<Longrightarrow> typed s'"
  by (auto simp: not_null_def Let_def split: bind_splits intro!: ty.assertion)

lemma typed_file_open: "typed s \<Longrightarrow> file_open ip s = Some (fp, s') \<Longrightarrow> typed s'"
  by (auto simp: file_open_def inode_close_def split: option.splits intro!: typed_other)

lemma typed_file_allow:
  assumes "typed s" and "file_allow_write gp s = Some s'"
  shows "typed s'"
proof -
  obtain f s1 x where f: "not_null 166 ''file_allow_write'' gp s = Some (f, s1)" "file_at s1 f = Some x"
      "(if f_deny_write x then inode_allow_write (f_inode x) (put_file f (x\<lparr>f_deny_write := False\<rparr>) s1) else Some s1) = Some s'"
    using assms(2) by (auto simp: file_allow_write_def split: bind_splits)
  have "typed s1" by (rule typed_not_null [OF assms(1) f(1)])
  then show ?thesis using f(3) typed_deny(2) [OF typed_other(5)] by (auto split: if_splits)
qed

lemma typed_file_deny:
  assumes "typed s" and "file_deny_write gp s = Some s'"
  shows "typed s'"
proof -
  obtain f s1 x where f: "not_null 155 ''file_deny_write'' gp s = Some (f, s1)" "file_at s1 f = Some x"
      "(if f_deny_write x then Some s1 else inode_deny_write (f_inode x) (put_file f (x\<lparr>f_deny_write := True\<rparr>) s1)) = Some s'"
    using assms(2) by (auto simp: file_deny_write_def split: bind_splits)
  have "typed s1" by (rule typed_not_null [OF assms(1) f(1)])
  then show ?thesis using f(3) typed_deny(1) [OF typed_other(5)] by (auto split: if_splits)
qed

lemma typed_file_seek: "typed s \<Longrightarrow> file_seek gp pos s = Some s' \<Longrightarrow> typed s'"
  by (auto simp: file_seek_def Let_def split: bind_splits intro!: typed_other ty.assertion dest: typed_not_null)

lemma typed_file_close: "typed s \<Longrightarrow> file_close fp s = Some s' \<Longrightarrow> typed s'"
  by (auto simp: file_close_def split: option.splits bind_splits intro!: typed_other dest: typed_file_allow typed_close)

lemma typed_inode_write:
  "typed s \<Longrightarrow> inode_write_at (free_map_allocate 1) p buf sz ofs s = Some (n, s') \<Longrightarrow> typed s'"
  by (rule sameD [OF ty.inode_write_same [OF ty.allocate_one]])

lemma typed_inode_read: "typed s \<Longrightarrow> inode_read_at p sz ofs s = Some (b, s') \<Longrightarrow> typed s'"
  by (auto simp: inode_read_at_def split: bind_splits intro: sameD [OF ty.loop_read])

lemma typed_file_read: "typed s \<Longrightarrow> read_file f sz s = Some (b, s') \<Longrightarrow> typed s'"
  by (auto simp: read_file_def split: bind_splits intro!: typed_other dest: typed_inode_read)

lemma typed_file_write: "typed s \<Longrightarrow> write_file f buf sz s = Some (n, s') \<Longrightarrow> typed s'"
  by (auto simp: write_file_def split: bind_splits intro!: typed_other dest: typed_inode_write)

lemma typed_bitmap_read: "typed s \<Longrightarrow> bitmap_read f s = Some (ok, s') \<Longrightarrow> typed s'"
  by (auto simp: bitmap_read_def file_read_at_def Let_def split: bind_splits if_splits intro!: ty.map_any dest: typed_inode_read)

lemma typed_bitmap_write: "typed s \<Longrightarrow> bitmap_write (free_map_allocate 1) fp s = Some (ok, s') \<Longrightarrow> typed s'"
  by (rule sameD [OF ty.bitmap_write_same [OF ty.allocate_one]])

lemma typed_panic: "typed s \<Longrightarrow> typed (debug_panic f l fn m s)"
  by (simp add: debug_panic_def printf_def ty.print)

lemma typed_if_panic: "typed s \<Longrightarrow> typed (if c then debug_panic f l fn m s else s)"
  by (simp add: typed_panic)

lemma typed_map_open:
  assumes "typed s" and "free_map_open s = Some s'"
  shows "typed s'"
proof -
  obtain p s1 fp s2 f ok s3 where r: "inode_open FREE_MAP_SECTOR s = Some (p, s1)" "file_open (Some p) s1 = Some (fp, s2)"
      "bitmap_read f (if fp = None then debug_panic ''fs/free-map.c'' 54 ''free_map_open'' ''can't open free map''
         (s2\<lparr>free_map_file := fp\<rparr>) else s2\<lparr>free_map_file := fp\<rparr>) = Some (ok, s3)"
      "s' = (if \<not> ok then debug_panic ''fs/free-map.c'' 56 ''free_map_open'' ''can't read free map'' s3 else s3)"
    using assms(2) by (auto simp: free_map_open_def Let_def split: bind_splits)
  have "typed s2" by (rule typed_file_open [OF typed_open [OF assms(1) r(1)] r(2)])
  from typed_bitmap_read [OF typed_if_panic [OF typed_other(4) [OF this]] r(3)]
  show ?thesis unfolding r(4) by (rule typed_if_panic)
qed

lemma typed_map_create:
  assumes "typed s" and "free_map_create s = Some s'" and "free_map s = Some b"
    and len: "off32 (int (bitmap_file_size b)) = Some (int (bitmap_file_size b))"
  shows "typed s'"
proof -
  obtain ok s1 p s2 fp s3 ok2 s4 where
    c: "inode_create FREE_MAP_SECTOR (int (bitmap_file_size b)) False s = Some (ok, s1)"
    and o': "inode_open FREE_MAP_SECTOR (if \<not> ok then debug_panic ''fs/free-map.c'' 67 ''free_map_create'' ''free map creation failed'' s1 else s1) = Some (p, s2)"
    and f: "file_open (Some p) s2 = Some (fp, s3)"
    and w: "bitmap_write (free_map_allocate 1) fp (if fp = None then debug_panic ''fs/free-map.c'' 74 ''free_map_create'' ''can't open free map'' (s3\<lparr>free_map_file := fp\<rparr>) else s3\<lparr>free_map_file := fp\<rparr>) = Some (ok2, s4)"
    and e: "s' = (if \<not> ok2 then debug_panic ''fs/free-map.c'' 76 ''free_map_create'' ''can't write free map'' s4 else s4)"
    using assms(2,3) by (auto simp: free_map_create_def Let_def split: bind_splits)
  have "typed s2" by (rule typed_open [OF typed_if_panic [OF typed_create [OF assms(1) len c]] o'])
  from typed_bitmap_write [OF typed_if_panic [OF typed_other(4) [OF typed_file_open [OF this f]]] w]
  show ?thesis unfolding e by (rule typed_if_panic)
qed

lemma typed_close_entries: "typed s \<Longrightarrow> close_entries es s = Some s' \<Longrightarrow> typed s'"
  by (induction es s rule: close_entries.induct) (auto split: bind_splits dest: typed_file_close [OF typed_other(3)])

section \<open>The operations\<close>

inductive file_op :: "'a files_scheme \<Rightarrow> 'a files_scheme \<Rightarrow> bool" where
  \<comment> \<open>a call of an operation that returns\<close>
  op_open: "inode_open sec s = Some (p, s') \<Longrightarrow> file_op s s'"
| op_create: "inode_create sec len dir s = Some (ok, s') \<Longrightarrow> off32 len = Some len \<Longrightarrow> file_op s s'"
| op_remove: "inode_remove p s = Some s' \<Longrightarrow> file_op s s'"
| op_deny: "inode_deny_write p s = Some s' \<Longrightarrow> file_op s s'"
| op_allow: "inode_allow_write p s = Some s' \<Longrightarrow> file_op s s'"
| op_read: "inode_read_at p sz ofs s = Some (b, s') \<Longrightarrow> file_op s s'"
| op_write: "inode_write_at (free_map_allocate 1) p buf sz ofs s = Some (n, s') \<Longrightarrow> file_op s s'"
| op_close: "inode_close pp s = Some s' \<Longrightarrow> file_op s s'"
| op_allocate: "free_map_allocate cnt s = Some (r, s') \<Longrightarrow> file_op s s'"
| op_release: "free_map_release sec cnt s = Some s' \<Longrightarrow> file_op s s'"
| op_map_create: "free_map_create s = Some s' \<Longrightarrow> free_map s = Some b \<Longrightarrow>
    off32 (int (bitmap_file_size b)) = Some (int (bitmap_file_size b)) \<Longrightarrow> file_op s s'"
| op_map_open: "free_map_open s = Some s' \<Longrightarrow> file_op s s'"
| op_map_close: "free_map_close s = Some s' \<Longrightarrow> file_op s s'"
| op_file_open: "file_open ip s = Some (fp, s') \<Longrightarrow> file_op s s'"
| op_file_close: "file_close fp s = Some s' \<Longrightarrow> file_op s s'"
| op_file_deny: "file_deny_write fp s = Some s' \<Longrightarrow> file_op s s'"
| op_file_allow: "file_allow_write fp s = Some s' \<Longrightarrow> file_op s s'"
| op_file_seek: "file_seek fp pos s = Some s' \<Longrightarrow> file_op s s'"
| op_file_read: "read_file f sz s = Some (b, s') \<Longrightarrow> file_op s s'"
| op_file_write: "write_file f buf sz s = Some (n, s') \<Longrightarrow> file_op s s'"
| op_table_remove: "remove_from_file_table name s = Some (ok, s') \<Longrightarrow> file_op s s'"
| op_table_free: "free_file_table s = Some s' \<Longrightarrow> file_op s s'"

lemma typed_table_remove: "typed s \<Longrightarrow> remove_from_file_table name s = Some (ok, s') \<Longrightarrow> typed s'"
  by (auto simp: remove_from_file_table_def split: option.splits bind_splits intro!: typed_other dest: typed_file_close)

lemma typed_map_close: "typed s \<Longrightarrow> free_map_close s = Some s' \<Longrightarrow> typed s'"
  unfolding free_map_close_def by (rule typed_file_close)

lemma typed_table_free: "typed s \<Longrightarrow> free_file_table s = Some s' \<Longrightarrow> typed s'"
  unfolding free_file_table_def by (rule typed_close_entries)

lemmas typed_rules = typed_open typed_create typed_deny typed_inode_read typed_inode_write typed_close ty.release
  sameD [OF ty.allocate_one] typed_map_create typed_map_open typed_map_close typed_file_open typed_file_close
  typed_file_deny typed_file_allow typed_file_seek typed_file_read typed_file_write typed_table_remove typed_table_free

lemma typed_op: "file_op s s' \<Longrightarrow> typed s \<Longrightarrow> typed s'"
  by (induction rule: file_op.induct) (rule typed_rules; assumption)+

lemma typed_ops: "file_op\<^sup>*\<^sup>* s s' \<Longrightarrow> typed s \<Longrightarrow> typed s'"
  by (induction rule: rtranclp_induct) (auto dest: typed_op)

text \<open>
  Type safety of inodes: from a state whose inodes have the shape of the C struct and whose cached sectors are
  512 bytes, every sequence of inode, free map and file operations that returns leads to such a state; there the
  image of every open inode is one sector and reads back as the same inode, its padding and 32-bit length included.
\<close>

theorem inode_type_safety:
  assumes "typed s" and "file_op\<^sup>*\<^sup>* s s'"
  shows "(\<forall>e \<in> set (cache s'). length (buffer e) = BLOCK_SECTOR_SIZE) \<and>
    (inode_at s' p = Some i \<longrightarrow> length (direct_blocks (in_data i)) = DIRECT_BLOCKS_COUNT \<and>
       length (inode_image (in_data i)) = BLOCK_SECTOR_SIZE \<and> inode_of_image (inode_image (in_data i)) = in_data i)"
proof -
  have t: "typed s'" by (rule typed_ops [OF assms(2,1)])
  then have "inode_at s' p = Some i \<Longrightarrow> disk_typed (in_data i)" by (rule typed_inode)
  then show ?thesis using t by (auto simp: typed_def sized_def image_roundtrip) (simp add: disk_typed_def)
qed

text \<open>A file of 600 bytes in the sectors 2 and 3, and a state with its inode.\<close>

definition sample_disk :: inode_disk where
  "sample_disk = \<lparr>direct_blocks = 2 # 3 # replicate 121 0, indirect_block = 0, doubly_indirect_block = 0,
     is_dir = False, id_pad = [0, 0, 0], id_length = 600, magic = INODE_MAGIC\<rparr>"

definition sample_inode :: inode where
  "sample_inode = \<lparr>in_sector = 1, open_cnt = 1, removed = False, deny_write_cnt = 0, in_data = sample_disk\<rparr>"

definition one_inode :: files where
  "one_inode =
     \<lparr>console = [], hd_file = [], blocks = [], hard_drive = None, fs_device = None, cache = [], clock = 0,
      inode_heap = [Some sample_inode],
      disk_heap = [], block_stack = [], open_inodes = [0], free_map = None, free_map_file = None, file_heap = [],
      file_table = []\<rparr>"

theorem inode_type_safety_witness:
  "\<exists>s' i. file_op\<^sup>*\<^sup>* one_inode s' \<and> inode_at s' 0 = Some i \<and> removed i \<and> id_length (in_data i) = 600 \<and>
     length (inode_image (in_data i)) = 512 \<and> inode_of_image (inode_image (in_data i)) = in_data i"
proof -
  have t: "typed one_inode"
    by (auto simp: typed_def sized_def one_inode_def sample_inode_def sample_disk_def disk_typed_def DIRECT_BLOCKS_COUNT_def off32_def)
  obtain i where i: "inode_at one_inode 0 = Some i" "id_length (in_data i) = 600"
    by (simp add: one_inode_def inode_at_def sample_inode_def sample_disk_def)
  let ?i = "i\<lparr>removed := True\<rparr>"
  have "inode_remove 0 one_inode = Some (put_inode 0 ?i one_inode)" by (simp add: inode_remove_def i)
  then have r: "file_op\<^sup>*\<^sup>* one_inode (put_inode 0 ?i one_inode)" by (blast intro: op_remove)
  have "inode_at (put_inode 0 ?i one_inode) 0 = Some ?i" by (simp add: inode_at_def put_inode_def one_inode_def)
  with inode_type_safety [OF t r, of 0 ?i] r i(2) show ?thesis
    by (intro exI [of _ "put_inode 0 ?i one_inode"] exI [of _ ?i]) (simp add: BLOCK_SECTOR_SIZE_def)
qed

end
