(* ===== verification/File_Content.thy ===== *)
theory File_Content
  imports Files
begin

text \<open>
  The content of a file: the bytes of its data sectors in the order its block tables give them, as the cache
  shows them. Reading a well-formed file returns a part of the content, writing inside it overwrites a part of
  the content and no sector that is not a data sector of the file.
\<close>

section \<open>Abstract content\<close>

definition block_words :: "(sector \<Rightarrow> bytes) \<Rightarrow> sector \<Rightarrow> sector list" where
  "block_words v sec = words_of_bytes 4 INDIRECT_BLOCKS_PER_SECTOR (v sec)"

definition sector_of :: "(sector \<Rightarrow> bytes) \<Rightarrow> inode_disk \<Rightarrow> nat \<Rightarrow> sector" where
  \<comment> \<open>the data sector number \<open>k\<close>\<close>
  "sector_of v d k =
     (if k < 123 then direct_blocks d ! k
      else if k < 251 then block_words v (indirect_block d) ! (k - 123)
      else block_words v (block_words v (doubly_indirect_block d) ! ((k - 251) div 128)) ! ((k - 251) mod 128))"

definition table_sectors :: "(sector \<Rightarrow> bytes) \<Rightarrow> inode_disk \<Rightarrow> nat \<Rightarrow> sector set" where
  \<comment> \<open>the block tables that the first \<open>n\<close> data sectors need\<close>
  "table_sectors v d n =
     {t. 123 < n \<and> t = indirect_block d} \<union> {t. 251 < n \<and> t = doubly_indirect_block d} \<union>
     {t. \<exists>j. 251 + 128 * j < n \<and> t = block_words v (doubly_indirect_block d) ! j}"

definition sectors_used :: "inode_disk \<Rightarrow> nat" where
  "sectors_used d = DIV_ROUND_UP (nat (id_length d)) BLOCK_SECTOR_SIZE"

definition data_sectors :: "(sector \<Rightarrow> bytes) \<Rightarrow> inode_disk \<Rightarrow> sector set" where
  "data_sectors v d = sector_of v d ` {..<sectors_used d}"

definition file_ok :: "(sector \<Rightarrow> bytes) \<Rightarrow> sector \<Rightarrow> inode_disk \<Rightarrow> bool" where
  "file_ok v cap d \<longleftrightarrow> length (direct_blocks d) = 123 \<and> 0 \<le> id_length d \<and> id_length d \<le> 512 * 16635 \<and>
     (\<forall>t \<in> data_sectors v d \<union> table_sectors v d (sectors_used d). t < cap) \<and>
     inj_on (sector_of v d) {..<sectors_used d} \<and>
     data_sectors v d \<inter> table_sectors v d (sectors_used d) = {}"

definition content :: "(sector \<Rightarrow> bytes) \<Rightarrow> inode_disk \<Rightarrow> bytes" where
  "content v d = map (\<lambda>i. v (sector_of v d (i div 512)) ! (i mod 512)) [0..<nat (id_length d)]"

definition overlay :: "nat \<Rightarrow> 'a list \<Rightarrow> 'a list \<Rightarrow> 'a list" where
  "overlay ofs p xs = take ofs xs @ p @ drop (ofs + length p) xs"

lemma length_content [simp]: "length (content v d) = nat (id_length d)"
  by (simp add: content_def)

lemma overlay_Nil [simp]: "overlay ofs [] xs = xs"
  by (simp add: overlay_def)

lemma length_overlay [simp]: "ofs + length p \<le> length xs \<Longrightarrow> length (overlay ofs p xs) = length xs"
  by (simp add: overlay_def)

lemma nth_overlay:
  "ofs + length p \<le> length xs \<Longrightarrow> i < length xs \<Longrightarrow>
   overlay ofs p xs ! i = (if ofs \<le> i \<and> i < ofs + length p then p ! (i - ofs) else xs ! i)"
  by (auto simp: overlay_def nth_append)

lemma overlay_overlay:
  "ofs + length p + length q \<le> length xs \<Longrightarrow>
   overlay (ofs + length p) q (overlay ofs p xs) = overlay ofs (p @ q) xs"
  by (simp add: overlay_def add.commute add.left_commute)

lemma take_drop_overlay: "ofs + length p \<le> length xs \<Longrightarrow> take (length p) (drop ofs (overlay ofs p xs)) = p"
  by (simp add: overlay_def)

lemma used_iff: "0 \<le> id_length d \<Longrightarrow> k < sectors_used d \<longleftrightarrow> 512 * int k < id_length d"
  by (simp add: sectors_used_def DIV_ROUND_UP_def BLOCK_SECTOR_SIZE_def) linarith

lemma used_bound: "file_ok v cap d \<Longrightarrow> sectors_used d \<le> 16635"
  by (simp add: file_ok_def sectors_used_def DIV_ROUND_UP_def BLOCK_SECTOR_SIZE_def) linarith

lemma table_sectors_cong:
  assumes "\<forall>t \<in> table_sectors v d n. v' t = v t"
  shows "k < n \<Longrightarrow> sector_of v' d k = sector_of v d k" and "table_sectors v' d n = table_sectors v d n"
proof -
  have one: "v' (indirect_block d) = v (indirect_block d)" if "123 < n"
    using assms that by (simp add: table_sectors_def)
  have two: "v' (doubly_indirect_block d) = v (doubly_indirect_block d)" if "251 < n"
    using assms that by (simp add: table_sectors_def)
  have three: "v' (block_words v (doubly_indirect_block d) ! j) = v (block_words v (doubly_indirect_block d) ! j)"
    if "251 + 128 * j < n" for j using assms that by (auto simp: table_sectors_def)
  have words: "block_words v' (doubly_indirect_block d) = block_words v (doubly_indirect_block d)" if "251 < n"
    using two that by (simp add: block_words_def)
  show "sector_of v' d k = sector_of v d k" if k: "k < n"
  proof (cases "k < 251")
    case True
    then show ?thesis using one k by (auto simp: sector_of_def block_words_def)
  next
    case False
    have "251 + 128 * ((k - 251) div 128) < n" using k False by simp
    from three [OF this] show ?thesis
      using words k False by (simp add: sector_of_def) (simp add: block_words_def)
  qed
  have "251 + 128 * j < n \<Longrightarrow> 251 < n" for j :: nat by simp
  then show "table_sectors v' d n = table_sectors v d n"
    using words by (auto simp: table_sectors_def)
qed

lemma file_okD:
  assumes "file_ok v cap d" and "k < sectors_used d"
  shows "sector_of v d k < cap" and "sector_of v d k \<notin> table_sectors v d (sectors_used d)"
  using assms by (auto simp: file_ok_def data_sectors_def)

text \<open>The content of one sector, read and overwritten.\<close>

lemma in_sector:
  fixes ofs :: nat
  assumes "ofs mod 512 + i < 512"
  shows "(ofs + i) div 512 = ofs div 512" and "(ofs + i) mod 512 = ofs mod 512 + i"
proof -
  have e: "ofs + i = ofs div 512 * 512 + (ofs mod 512 + i)" by simp
  show "(ofs + i) div 512 = ofs div 512" by (subst e, subst div_mult_self3) (use assms in simp_all)
  show "(ofs + i) mod 512 = ofs mod 512 + i" by (subst e, subst mod_mult_self3) (use assms in simp_all)
qed

lemma in_sector_iff:
  fixes i ofs :: nat
  assumes "ofs mod 512 + c \<le> 512"
  shows "ofs \<le> i \<and> i < ofs + c \<longleftrightarrow>
    i div 512 = ofs div 512 \<and> ofs mod 512 \<le> i mod 512 \<and> i mod 512 < ofs mod 512 + c"
proof -
  have i: "i = 512 * (i div 512) + i mod 512" "i mod 512 < 512" by simp_all
  have o': "ofs = 512 * (ofs div 512) + ofs mod 512" by simp
  consider "i div 512 < ofs div 512" | "i div 512 = ofs div 512" | "ofs div 512 < i div 512" by linarith
  then show ?thesis
  proof cases
    case 1
    then have "i < ofs" using i o' by linarith
    then show ?thesis using 1 by simp
  next
    case 2
    then show ?thesis using i o' by linarith
  next
    case 3
    then have "ofs + c \<le> i" using i o' assms by linarith
    then show ?thesis using 3 by simp
  qed
qed

lemma content_in_sector:
  assumes "k = ofs div 512" and "r = ofs mod 512" and "r + c \<le> 512" and "ofs + c \<le> nat (id_length d)"
    and "length (v (sector_of v d k)) = 512"
  shows "take c (drop ofs (content v d)) = take c (drop r (v (sector_of v d k)))"
proof (rule nth_equalityI)
  show "length (take c (drop ofs (content v d))) = length (take c (drop r (v (sector_of v d k))))"
    using assms by simp
  fix i assume "i < length (take c (drop ofs (content v d)))"
  then have i: "i < c" by simp
  have "(ofs + i) div 512 = k" "(ofs + i) mod 512 = r + i"
    using assms(1-3) i in_sector [of ofs i] by simp_all
  then show "take c (drop ofs (content v d)) ! i = take c (drop r (v (sector_of v d k))) ! i"
    using assms i by (simp add: content_def)
qed

lemma content_overlay:
  assumes ok: "file_ok v cap d" and k: "k = ofs div 512" and r: "r = ofs mod 512"
    and c: "r + length p \<le> 512" "ofs + length p \<le> nat (id_length d)" "p \<noteq> []"
    and len: "length (v (sector_of v d k)) = 512"
    and v': "v' = v(sector_of v d k := overlay r p (v (sector_of v d k)))"
  shows "content v' d = overlay ofs p (content v d)"
proof -
  have len0: "0 \<le> id_length d" using ok by (simp add: file_ok_def)
  have "ofs < nat (id_length d)" using c(2,3) by (cases p) simp_all
  then have kn: "k < sectors_used d" using used_iff [OF len0, of k] k len0 by linarith
  have same: "sector_of v' d j = sector_of v d j" if "j < sectors_used d" for j
    using table_sectors_cong(1) [where v = v and v' = v', OF _ that] file_okD(2) [OF ok kn] v' by auto
  show ?thesis
  proof (rule nth_equalityI)
    show "length (content v' d) = length (overlay ofs p (content v d))" using c(2) by simp
    fix i assume "i < length (content v' d)"
    then have i: "i < nat (id_length d)" by simp
    let ?j = "i div 512"
    have jn: "?j < sectors_used d" using used_iff [OF len0, of ?j] i len0 by linarith
    have eq: "sector_of v d ?j = sector_of v d k \<longleftrightarrow> ?j = k"
      using ok jn kn by (auto simp: file_ok_def inj_on_def)
    have in_p: "ofs \<le> i \<and> i < ofs + length p \<longleftrightarrow> ?j = k \<and> r \<le> i mod 512 \<and> i mod 512 < r + length p"
      using k r c(1) in_sector_iff [of ofs "length p" i] by simp
    have off: "i - ofs = i mod 512 - r" if "?j = k"
    proof -
      have "i = 512 * k + i mod 512" using mult_div_mod_eq [of 512 i] that by linarith
      moreover have "ofs = 512 * k + r" using k r by simp
      ultimately show ?thesis by linarith
    qed
    show "content v' d ! i = overlay ofs p (content v d) ! i"
    proof (cases "?j = k")
      case True
      then show ?thesis
        using i same [OF jn] c len in_p off by (simp add: content_def nth_overlay v' )
    next
      case False
      then show ?thesis
        using i same [OF jn] c eq in_p by (auto simp: content_def nth_overlay v')
    qed
  qed
qed

lemma file_ok_overlay:
  assumes "file_ok v cap d" and "k < sectors_used d" and "v' = v(sector_of v d k := b)"
  shows "file_ok v' cap d" and "data_sectors v' d = data_sectors v d"
proof -
  have t: "\<forall>t \<in> table_sectors v d (sectors_used d). v' t = v t"
    using file_okD(2) [OF assms(1,2)] assms(3) by auto
  have s: "sector_of v' d j = sector_of v d j" if "j < sectors_used d" for j
    by (rule table_sectors_cong(1) [OF t that])
  then have img: "sector_of v' d ` {..<sectors_used d} = sector_of v d ` {..<sectors_used d}"
    by (intro image_cong) auto
  then show "data_sectors v' d = data_sectors v d" by (simp add: data_sectors_def)
  moreover have "inj_on (sector_of v' d) {..<sectors_used d} = inj_on (sector_of v d) {..<sectors_used d}"
    by (rule inj_on_cong) (simp add: s)
  ultimately show "file_ok v' cap d"
    using assms(1) table_sectors_cong(2) [OF t] by (simp add: file_ok_def)
qed

section \<open>Finding a sector\<close>

lemma read_after:
  assumes k: "keeps s s1" and sec: "sec < fs_capacity s"
  shows "\<exists>s2. buffer_cache_read sec s1 = Some (cache_view s sec, s2) \<and> keeps s s2"
proof -
  have "sec < fs_capacity s1" and v: "cache_view s1 = cache_view s" using k sec by (simp_all add: keeps_def)
  from buffer_cache_read_spec [OF keeps_inv [OF k] this(1)]
  obtain s2 where "buffer_cache_read sec s1 = Some (cache_view s1 sec, s2)" "keeps s1 s2" by blast
  then show ?thesis using keeps_trans [OF k] v by auto
qed

lemma read_blocks_spec:
  assumes "cache_inv s" and "sec < fs_capacity s"
  shows "\<exists>s'. read_blocks sec s = Some (block_words (cache_view s) sec, s') \<and> keeps s s'"
  using buffer_cache_read_spec [OF assms] by (auto simp: read_blocks_def block_words_def)

lemma length_block_words [simp]: "length (block_words v sec) = 128"
  by (simp add: block_words_def INDIRECT_BLOCKS_PER_SECTOR_def)

lemma index_to_sector_spec:
  assumes inv: "cache_inv s" and ok: "file_ok (cache_view s) (fs_capacity s) d" and k: "k < sectors_used d"
  shows "\<exists>s'. index_to_sector d (int k) s = Some (sector_of (cache_view s) d k, s') \<and> keeps s s'"
proof -
  let ?v = "cache_view s"
  have tab: "t < fs_capacity s" if "t \<in> table_sectors ?v d (sectors_used d)" for t
    using ok that by (simp add: file_ok_def)
  note [simp] = index_to_sector_def Let_def DIRECT_BLOCKS_COUNT_def INDIRECT_BLOCKS_PER_SECTOR_def
  consider (direct) "k < 123" | (single) "123 \<le> k" "k < 251" | (double) "251 \<le> k" by linarith
  then show ?thesis
  proof cases
    case direct
    then show ?thesis using inv ok by (simp add: sector_of_def file_ok_def)
  next
    case single
    have "indirect_block d < fs_capacity s" by (rule tab) (use single k in \<open>simp add: table_sectors_def\<close>)
    from read_blocks_spec [OF inv this] show ?thesis
      using single by (auto simp: sector_of_def nat_diff_distrib')
  next
    case double
    let ?j = "(k - 251) div 128"
    have kb: "k < 16635" using k used_bound [OF ok] by simp
    have "doubly_indirect_block d < fs_capacity s" by (rule tab) (use double k in \<open>simp add: table_sectors_def\<close>)
    then obtain s1 where s1: "read_blocks (doubly_indirect_block d) s = Some (block_words ?v (doubly_indirect_block d), s1)"
        "keeps s s1" using read_blocks_spec [OF inv] by blast
    have "251 + 128 * ?j < sectors_used d" using double k by simp
    then have "block_words ?v (doubly_indirect_block d) ! ?j < fs_capacity s1"
      using tab s1(2) by (auto simp: table_sectors_def keeps_def)
    then obtain s2 where s2: "read_blocks (block_words ?v (doubly_indirect_block d) ! ?j) s1 =
        Some (block_words ?v (block_words ?v (doubly_indirect_block d) ! ?j), s2)" "keeps s1 s2"
      using read_blocks_spec [OF keeps_inv [OF s1(2)]] s1(2) by (auto simp: keeps_def)
    have "nat ((int k - 251) div 128) = ?j" "nat ((int k - 251) mod 128) = (k - 251) mod 128"
      using double by (simp_all add: nat_div_distrib nat_mod_distrib nat_diff_distrib)
    moreover have "?j < 128" using kb double by simp
    ultimately show ?thesis
      using s1 s2 keeps_trans [OF s1(2) s2(2)] double kb by (simp add: sector_of_def)
  qed
qed

lemma byte_to_sector_spec:
  assumes inv: "cache_inv s" and ok: "file_ok (cache_view s) (fs_capacity s) d" and ofs: "0 \<le> ofs" "ofs < id_length d"
  shows "\<exists>s'. byte_to_sector d ofs s = Some (sector_of (cache_view s) d (nat ofs div 512), s') \<and> keeps s s'"
proof -
  have "nat ofs div 512 < sectors_used d" using used_iff [of d "nat ofs div 512"] ofs by linarith
  from index_to_sector_spec [OF inv ok this] show ?thesis
    using ofs by (simp add: byte_to_sector_def BLOCK_SECTOR_SIZE_def zdiv_int)
qed

section \<open>Reading\<close>

lemma smod_512: "0 \<le> ofs \<Longrightarrow> ofs smod 512 = int (nat ofs mod 512)"
  by (cases "ofs = 0") (simp_all add: signed_modulo_int_def zmod_int sgn_if)

lemma off32_in: "- (2 ^ 31) \<le> i \<Longrightarrow> i < 2 ^ 31 \<Longrightarrow> off32 i = Some i"
  by (simp add: off32_def)

lemma take_drop_next:
  "c \<le> n \<Longrightarrow> take n (drop m xs) = take c (drop m xs) @ take (n - c) (drop (m + c) xs)"
  using take_add [of c "n - c" "drop m xs"] by (simp add: add.commute)

lemma read_loop_past_end:
  assumes "id_length d \<le> ofs" and "0 \<le> id_length d" and "ofs < 2 ^ 31"
  shows "read_loop d sz ofs s = Some ([], s)"
  using assms by (subst read_loop.simps) (auto simp: byte_to_sector_def off32_def Let_def min_def)

lemma slice_inside:
  "0 \<le> ofs \<Longrightarrow> 0 \<le> n \<Longrightarrow> ofs + n \<le> int (length b) \<Longrightarrow> slice ofs n b = Some (take (nat n) (drop (nat ofs) b))"
  by (simp add: slice_def)

lemma read_loop_spec:
  assumes "cache_inv s" and "file_ok (cache_view s) (fs_capacity s) d" and "0 \<le> ofs" and "ofs < 2 ^ 31"
  shows "\<exists>s'. read_loop d sz ofs s = Some (take (nat sz) (drop (nat ofs) (content (cache_view s) d)), s') \<and> keeps s s'"
  using assms
proof (induction "nat sz" arbitrary: sz ofs s rule: less_induct)
  case less
  note inv = less.prems(1) and ok = less.prems(2) and ofs = less.prems(3,4)
  let ?v = "cache_view s"
  have len: "0 \<le> id_length d" "id_length d \<le> 512 * 16635" using ok by (simp_all add: file_ok_def)
  consider (none) "sz \<le> 0" | (past) "0 < sz" "id_length d \<le> ofs" | (go) "0 < sz" "ofs < id_length d" by linarith
  then show ?case
  proof cases
    case none
    then show ?thesis using inv by (subst read_loop.simps) simp
  next
    case past
    then have "read_loop d sz ofs s = Some (take (nat sz) (drop (nat ofs) (content ?v d)), s)"
      using read_loop_past_end [OF past(2) len(1) ofs(2)] by simp
    then show ?thesis using inv by auto
  next
    case go
    let ?k = "nat ofs div 512" and ?r = "nat ofs mod 512"
    define c where "c = min sz (min (id_length d - ofs) (512 - int ?r))"
    have r: "int ?r < 512" by simp
    have c: "0 < c" "c \<le> sz" "ofs + c \<le> id_length d" "int ?r + c \<le> 512"
      using go r by (auto simp: c_def)
    obtain s1 where s1: "byte_to_sector d ofs s = Some (sector_of ?v d ?k, s1)" "keeps s s1"
      using byte_to_sector_spec [OF inv ok ofs(1) go(2)] by blast
    have kn: "?k < sectors_used d" using used_iff [OF len(1), of ?k] go ofs(1) by linarith
    obtain s2 where s2: "buffer_cache_read (sector_of ?v d ?k) s1 = Some (?v (sector_of ?v d ?k), s2)" "keeps s s2"
      using read_after [OF s1(2) file_okD(1) [OF ok kn]] by blast
    let ?b = "?v (sector_of ?v d ?k)"
    have bl: "length ?b = 512"
      using bc.view_length [OF inv file_okD(1) [OF ok kn]] by (simp add: BLOCK_SECTOR_SIZE_def)
    have "?r + nat c \<le> 512" "nat ofs + nat c \<le> nat (id_length d)" using c ofs(1) by linarith+
    from content_in_sector [where v = ?v and k = ?k, OF refl refl this bl]
    have part: "take (nat c) (drop (nat ofs) (content ?v d)) = take (nat c) (drop ?r ?b)" .
    have piece: "(if int ?r = 0 \<and> c = 512 then Some ?b else slice (int ?r) c ?b) =
        Some (take (nat c) (drop (nat ofs) (content ?v d)))"
    proof (cases "int ?r = 0 \<and> c = 512")
      case True
      then have "?r = 0" "nat c = 512" by simp_all
      then show ?thesis unfolding part using True bl by simp
    next
      case False
      then show ?thesis unfolding part using c(1,4) bl by (simp add: slice_inside)
    qed
    have inv2: "cache_inv s2" and v2: "cache_view s2 = ?v" "fs_capacity s2 = fs_capacity s"
      using s2(2) by (simp_all add: keeps_def)
    obtain s3 where s3: "read_loop d (sz - c) (ofs + c) s2 =
        Some (take (nat (sz - c)) (drop (nat (ofs + c)) (content ?v d)), s3)" "keeps s2 s3"
      using less.hyps [of "sz - c" s2 "ofs + c"] c ok inv2 v2 ofs(1) len go by auto
    have "read_loop d sz ofs s = Some (take (nat c) (drop (nat ofs) (content ?v d)) @
        take (nat (sz - c)) (drop (nat (ofs + c)) (content ?v d)), s3)"
      using go(1) c s1(1) s2(1) s3(1) piece ofs len
      by (subst read_loop.simps)
         (simp add: smod_512 BLOCK_SECTOR_SIZE_def Let_def off32_in c_def [symmetric], auto split: if_splits)
    moreover have "take (nat sz) (drop (nat ofs) (content ?v d)) = take (nat c) (drop (nat ofs) (content ?v d)) @
        take (nat (sz - c)) (drop (nat (ofs + c)) (content ?v d))"
      using take_drop_next [of "nat c" "nat sz" "nat ofs" "content ?v d"] c ofs(1)
      by (simp add: nat_diff_distrib nat_add_distrib)
    ultimately show ?thesis using keeps_trans [OF s2(2) s3(2)] by simp
  qed
qed

section \<open>Writing\<close>

definition stores :: "sector set \<Rightarrow> 'a cached_scheme \<Rightarrow> 'a cached_scheme \<Rightarrow> bool" where
  \<comment> \<open>only sectors of the set change\<close>
  "stores S s s' \<longleftrightarrow> cache_inv s' \<and> (\<forall>sec. sec \<notin> S \<longrightarrow> cache_view s' sec = cache_view s sec) \<and>
     fs_capacity s' = fs_capacity s \<and> fs_device s' = fs_device s \<and> console s' = console s \<and>
     cached.more s' = cached.more s"

lemma stores_inv: "stores S s s' \<Longrightarrow> cache_inv s'"
  by (simp add: stores_def)

lemma keeps_stores: "keeps s s' \<Longrightarrow> stores S s s'"
  by (simp add: keeps_def stores_def)

lemma stores_trans: "stores S s s' \<Longrightarrow> stores S s' s'' \<Longrightarrow> stores S s s''"
  by (simp add: stores_def)

lemma stores_mono: "stores S s s' \<Longrightarrow> S \<subseteq> T \<Longrightarrow> stores T s s'"
  by (auto simp: stores_def)

lemma write_after:
  assumes k: "keeps s s1" and sec: "sec < fs_capacity s" and d: "length data = 512"
  shows "\<exists>s2. buffer_cache_write sec data s1 = Some s2 \<and> stores {sec} s s2 \<and>
              cache_view s2 = (cache_view s)(sec := data)"
proof -
  have "sec < fs_capacity s1" "length data = BLOCK_SECTOR_SIZE"
    using k sec d by (simp_all add: keeps_def BLOCK_SECTOR_SIZE_def)
  from buffer_cache_write_spec [OF keeps_inv [OF k] this] obtain s2 where
    "buffer_cache_write sec data s1 = Some s2" "cache_inv s2" "cache_view s2 = (cache_view s1)(sec := data)"
    "fs_capacity s2 = fs_capacity s1" "fs_device s2 = fs_device s1" "console s2 = console s1"
    "cached.more s2 = cached.more s1" by blast
  then show ?thesis using k by (simp add: stores_def keeps_def)
qed

lemma write_part:
  assumes k: "keeps s s1" and sec: "sec < fs_capacity s" and b: "length (cache_view s sec) = 512"
    and p: "length p = nat c" "0 < c" "int r + c \<le> 512"
  shows "\<exists>s2. write_chunk sec (int r) c p s1 = Some s2 \<and> stores {sec} s s2 \<and>
    cache_view s2 = (cache_view s)(sec := overlay r p (cache_view s sec))"
proof (cases "int r = 0 \<and> c = 512")
  case True
  then show ?thesis using write_after [OF k sec, of p] p b
    by (simp add: overlay_def write_chunk_def BLOCK_SECTOR_SIZE_def)
next
  case False
  then have partial: "int r > 0 \<or> c < 512 - int r" using p by auto
  obtain s2 where s2: "buffer_cache_read sec s1 = Some (cache_view s sec, s2)" "keeps s s2"
    using read_after [OF k sec] by blast
  have bl: "blit (cache_view s sec) r p = Some (overlay r p (cache_view s sec))"
    using p b by (simp add: blit_in overlay_def)
  show ?thesis
    using False partial s2(1) bl write_after [OF s2(2) sec, of "overlay r p (cache_view s sec)"] p b
    by (auto simp: write_chunk_def BLOCK_SECTOR_SIZE_def)
qed

lemma write_loop_spec:
  assumes "cache_inv s" and "file_ok (cache_view s) (fs_capacity s) d" and "0 \<le> ofs" and "0 \<le> sz"
    and "ofs + sz \<le> id_length d" and "sz \<le> int (length buf)"
  shows "\<exists>s'. write_loop d buf sz ofs s = Some (sz, s') \<and> stores (data_sectors (cache_view s) d) s s' \<and>
    file_ok (cache_view s') (fs_capacity s) d \<and>
    content (cache_view s') d = overlay (nat ofs) (take (nat sz) buf) (content (cache_view s) d)"
  using assms
proof (induction "nat sz" arbitrary: sz ofs buf s rule: less_induct)
  case less
  note inv = less.prems(1) and ok = less.prems(2) and ofs = less.prems(3) and sz = less.prems(4-6)
  let ?v = "cache_view s"
  have len: "0 \<le> id_length d" "id_length d \<le> 512 * 16635" using ok by (simp_all add: file_ok_def)
  show ?case
  proof (cases "sz \<le> 0")
    case True
    then have "write_loop d buf sz ofs s = Some (sz, s)" using sz by (subst write_loop.simps) simp
    then show ?thesis using True inv ok keeps_stores [OF keeps_refl [OF inv]] by auto
  next
    case False
    let ?k = "nat ofs div 512" and ?r = "nat ofs mod 512"
    define c where "c = min sz (min (id_length d - ofs) (512 - int ?r))"
    have r: "int ?r < 512" by simp
    have c: "0 < c" "c \<le> sz" "ofs + c \<le> id_length d" "int ?r + c \<le> 512"
      using False sz r by (auto simp: c_def)
    let ?p = "take (nat c) buf" and ?sec = "sector_of ?v d ?k"
    have pl: "length ?p = nat c" using c sz by simp
    obtain s1 where s1: "byte_to_sector d ofs s = Some (?sec, s1)" "keeps s s1"
      using byte_to_sector_spec [OF inv ok ofs] c by force
    have kn: "?k < sectors_used d" using used_iff [OF len(1), of ?k] c ofs by linarith
    have sec: "?sec < fs_capacity s" by (rule file_okD(1) [OF ok kn])
    have bl: "length (?v ?sec) = 512" using bc.view_length [OF inv sec] by (simp add: BLOCK_SECTOR_SIZE_def)
    from write_part [OF s1(2) sec bl pl c(1,4)] obtain s2 where
      s2: "write_chunk ?sec (int ?r) c ?p s1 = Some s2" and st: "stores {?sec} s s2"
      and v2: "cache_view s2 = ?v(?sec := overlay ?r ?p (?v ?sec))" by blast
    have inv2: "cache_inv s2" and cap2: "fs_capacity s2 = fs_capacity s" using st by (simp_all add: stores_def)
    have ok2: "file_ok (cache_view s2) (fs_capacity s2) d" and ds: "data_sectors (cache_view s2) d = data_sectors ?v d"
      using file_ok_overlay [OF ok kn v2] cap2 by simp_all
    have bounds: "?r + length ?p \<le> 512" "nat ofs + length ?p \<le> nat (id_length d)" "?p \<noteq> []"
      using pl c ofs by (linarith, linarith, auto)
    have c2: "content (cache_view s2) d = overlay (nat ofs) ?p (content ?v d)"
      by (rule content_overlay [OF ok refl refl bounds bl v2])
    obtain s3 where s3: "write_loop d (drop (nat c) buf) (sz - c) (ofs + c) s2 = Some (sz - c, s3)"
        "stores (data_sectors ?v d) s2 s3" "file_ok (cache_view s3) (fs_capacity s) d"
        "content (cache_view s3) d = overlay (nat (ofs + c)) (take (nat (sz - c)) (drop (nat c) buf)) (content (cache_view s2) d)"
      using less.hyps [of "sz - c" s2 "ofs + c" "drop (nat c) buf"] c sz ok2 inv2 ofs ds cap2 by auto
    have "nat (ofs + c) = nat ofs + length ?p" "nat sz = nat c + nat (sz - c)"
      using pl c ofs sz by (simp_all add: nat_add_distrib)
    moreover have "length ?p + length (take (nat (sz - c)) (drop (nat c) buf)) = nat sz" using c sz by auto
    moreover have "nat ofs + nat sz \<le> nat (id_length d)" using ofs sz by linarith
    ultimately have "content (cache_view s3) d = overlay (nat ofs) (take (nat sz) buf) (content ?v d)"
      using s3(4) c2 overlay_overlay [of "nat ofs" ?p "take (nat (sz - c)) (drop (nat c) buf)" "content ?v d"]
      by (simp add: take_add)
    moreover have "stores (data_sectors ?v d) s s3"
      using stores_trans [OF stores_mono [OF st] s3(2)] kn by (auto simp: data_sectors_def)
    moreover have "slice 0 c buf = Some ?p" using c sz by (simp add: slice_inside)
    then have "write_loop d buf sz ofs s = Some (sz, s3)"
      using False c s1(1) s2 s3(1) ofs len
      by (subst write_loop.simps) (simp add: smod_512 BLOCK_SECTOR_SIZE_def Let_def off32_in c_def [symmetric])
    ultimately show ?thesis using s3(3) by blast
  qed
qed

section \<open>Files that share no sector\<close>

lemma content_unchanged:
  assumes st: "stores S s s'" and apart: "S \<inter> (data_sectors (cache_view s) d \<union> table_sectors (cache_view s) d (sectors_used d)) = {}"
    and len: "0 \<le> id_length d"
  shows "content (cache_view s') d = content (cache_view s) d"
    and "data_sectors (cache_view s') d = data_sectors (cache_view s) d"
    and "table_sectors (cache_view s') d (sectors_used d) = table_sectors (cache_view s) d (sectors_used d)"
proof -
  have same: "cache_view s' t = cache_view s t"
    if "t \<in> data_sectors (cache_view s) d \<union> table_sectors (cache_view s) d (sectors_used d)" for t
    using st apart that by (auto simp: stores_def)
  then have tab: "\<forall>t \<in> table_sectors (cache_view s) d (sectors_used d). cache_view s' t = cache_view s t" by blast
  have sec: "sector_of (cache_view s') d k = sector_of (cache_view s) d k" if "k < sectors_used d" for k
    by (rule table_sectors_cong(1) [OF tab that])
  show "table_sectors (cache_view s') d (sectors_used d) = table_sectors (cache_view s) d (sectors_used d)"
    by (rule table_sectors_cong(2) [OF tab])
  show "data_sectors (cache_view s') d = data_sectors (cache_view s) d"
    unfolding data_sectors_def by (intro image_cong refl) (simp add: sec)
  have "cache_view s' (sector_of (cache_view s') d (i div 512)) = cache_view s (sector_of (cache_view s) d (i div 512))"
    if "i < nat (id_length d)" for i
  proof -
    have "i div 512 < sectors_used d" using used_iff [OF len, of "i div 512"] that len by linarith
    then show ?thesis using sec same by (simp add: data_sectors_def)
  qed
  then show "content (cache_view s') d = content (cache_view s) d" by (simp add: content_def)
qed

section \<open>Reading and writing an inode\<close>

lemma same_files:
  assumes "cached.more (s' :: 'a files_scheme) = cached.more s"
  shows "inode_heap s' = inode_heap s" and "disk_heap s' = disk_heap s" and "block_stack s' = block_stack s"
    and "open_inodes s' = open_inodes s" and "free_map s' = free_map s" and "free_map_file s' = free_map_file s"
    and "file_heap s' = file_heap s" and "file_table s' = file_table s" and "files.more s' = files.more s"
  using assms by (cases s; cases s'; simp)+

lemma same_inode_at: "cached.more s' = cached.more s \<Longrightarrow> inode_at s' p = inode_at s p"
  using same_files(1) [of s' s] by (simp add: inode_at_def)

lemma same_file_at: "cached.more s' = cached.more s \<Longrightarrow> file_at s' p = file_at s p"
  using same_files(7) [of s' s] by (simp add: file_at_def)

lemma stores_more: "stores S s s' \<Longrightarrow> cached.more s' = cached.more s"
  by (simp add: stores_def)

lemma inode_read_at_spec:
  assumes "cache_inv s" and "inode_at s p = Some i" and "file_ok (cache_view s) (fs_capacity s) (in_data i)"
    and "0 \<le> offset" and "offset < 2 ^ 31"
  shows "\<exists>s'. inode_read_at p sz offset s =
      Some (take (nat sz) (drop (nat offset) (content (cache_view s) (in_data i))), s') \<and> keeps s s'"
  using read_loop_spec [OF assms(1,3,4,5)] assms(2) by (simp add: inode_read_at_def)

lemma sector_not_error: "sec < (cap :: sector) \<Longrightarrow> sec \<noteq> -1"
  by (metis word_order.extremum_strict)

lemma inode_write_at_spec:
  assumes inv: "cache_inv s" and i: "inode_at s p = Some i" and ok: "file_ok (cache_view s) (fs_capacity s) (in_data i)"
    and deny: "deny_write_cnt i = 0" and sz: "0 \<le> offset" "0 < sz" "offset + sz \<le> id_length (in_data i)"
    and b: "\<And>s'. keeps s s' \<Longrightarrow> buf s' = Some b" "sz \<le> int (length b)"
  shows "\<exists>s'. inode_write_at alloc p buf sz offset s = Some (sz, s') \<and>
    stores (data_sectors (cache_view s) (in_data i)) s s' \<and> file_ok (cache_view s') (fs_capacity s) (in_data i) \<and>
    content (cache_view s') (in_data i) =
      overlay (nat offset) (take (nat sz) b) (content (cache_view s) (in_data i))"
proof -
  let ?d = "in_data i" let ?v = "cache_view s"
  have len: "0 \<le> id_length ?d" "id_length ?d \<le> 512 * 16635" using ok by (simp_all add: file_ok_def)
  have pos: "0 \<le> offset + sz - 1" "offset + sz - 1 < id_length ?d" using sz by linarith+
  obtain s1 where s1: "byte_to_sector ?d (offset + sz - 1) s = Some (sector_of ?v ?d (nat (offset + sz - 1) div 512), s1)"
      "keeps s s1" using byte_to_sector_spec [OF inv ok pos] by blast
  have "nat (offset + sz - 1) div 512 < sectors_used ?d"
    using used_iff [OF len(1), of "nat (offset + sz - 1) div 512"] pos by linarith
  from sector_not_error [OF file_okD(1) [OF ok this]]
  have inside: "sector_of ?v ?d (nat (offset + sz - 1) div 512) \<noteq> -1" .
  have v1: "cache_view s1 = ?v" "fs_capacity s1 = fs_capacity s" "cached.more s1 = cached.more s"
    using s1(2) by (simp_all add: keeps_def)
  have "file_ok (cache_view s1) (fs_capacity s1) ?d" using ok v1 by simp
  from write_loop_spec [OF keeps_inv [OF s1(2)] this sz(1) _ sz(3) b(2)] obtain s2 where
    s2: "write_loop ?d b sz offset s1 = Some (sz, s2)" "stores (data_sectors ?v ?d) s1 s2"
      "file_ok (cache_view s2) (fs_capacity s) ?d"
      "content (cache_view s2) ?d = overlay (nat offset) (take (nat sz) b) (content ?v ?d)"
    using sz v1 by auto
  have "off32 (offset + sz) = Some (offset + sz)" "off32 (offset + sz - 1) = Some (offset + sz - 1)"
    using sz len by (auto simp: off32_def)
  then have "inode_write_at alloc p buf sz offset s = Some (sz, s2)"
    using i deny s1(1) inside same_inode_at [OF v1(3), of p] b(1) [OF s1(2)] s2(1) by (simp add: inode_write_at_def)
  then show ?thesis using s2 stores_trans [OF keeps_stores [OF s1(2)] s2(2)] by blast
qed

section \<open>Changes outside the cache\<close>

lemma same_cache:
  assumes "hd_file s' = hd_file s" and "blocks s' = blocks s" and "fs_device s' = fs_device s"
    and "cache s' = cache s" and "clock s' = clock s"
  shows "cache_inv s' = cache_inv s" and "cache_view s' = cache_view s" and "fs_capacity s' = fs_capacity s"
proof -
  have "device_ok s' = device_ok s \<and> fs_capacity s' = fs_capacity s \<and> disk_sector_at s' = disk_sector_at s"
    by (rule device_ok_cong) (use assms in simp_all)
  note d = this
  show "cache_inv s' = cache_inv s" using d assms by (simp add: cache_inv_def)
  show "fs_capacity s' = fs_capacity s" using d by simp
  show "cache_view s' = cache_view s"
  proof
    fix sec show "cache_view s' sec = cache_view s sec"
      using d assms by (simp add: cache_view_def buffer_cache_lookup_def split: option.split)
  qed
qed

lemma same_cache_put [simp]:
  "cache_inv (put_file f x s) = cache_inv s" "cache_view (put_file f x s) = cache_view s"
  "fs_capacity (put_file f x s) = fs_capacity s"
  "cache_inv (put_inode p i s) = cache_inv s" "cache_view (put_inode p i s) = cache_view s"
  "fs_capacity (put_inode p i s) = fs_capacity s"
  "cache_inv (s\<lparr>free_map := m\<rparr>) = cache_inv s" "cache_view (s\<lparr>free_map := m\<rparr>) = cache_view s"
  "fs_capacity (s\<lparr>free_map := m\<rparr>) = fs_capacity s"
  by (rule same_cache; simp add: put_file_def put_inode_def)+

lemma console_put [simp]:
  "console (put_file f x s) = console s" "console (put_inode p i s) = console s"
  by (simp_all add: put_file_def put_inode_def)

lemma inode_at_put [simp]:
  "inode_at (put_file f x s) p = inode_at s p" "file_at (put_inode p i s) f = file_at s f"
  "file_table (put_file f x s) = file_table s" "file_table (put_inode p i s) = file_table s"
  by (simp_all add: put_file_def put_inode_def inode_at_def file_at_def)

lemma file_at_put_file:
  "file_at s f = Some y \<Longrightarrow> file_at (put_file f x s) g = (if g = f then Some x else file_at s g)"
  by (auto simp: file_at_def put_file_def rd_def split: if_splits bind_splits)

lemma inode_at_put_inode:
  "inode_at s p = Some j \<Longrightarrow> inode_at (put_inode p i s) q = (if q = p then Some i else inode_at s q)"
  by (auto simp: inode_at_def put_inode_def rd_def split: if_splits bind_splits)

end
