(* ===== verification/Fs_Props.thy ===== *)
theory Fs_Props
  imports Inode_Types File_Content Fs_Recovery
begin

text \<open>
  Properties of open files: a file as a byte array under the commands \<open>write\<close>, \<open>seek\<close> and \<open>read\<close>, and what happens
  when two files share an inode.
\<close>

section \<open>A file of the command line\<close>

lemma named_file_open: "get_file_by_fname name s = Some f \<Longrightarrow> named_file name s = Some (Some f, s)"
  by (simp add: named_file_def)

definition open_at :: "string \<Rightarrow> nat \<Rightarrow> open_file \<Rightarrow> inode \<Rightarrow> 'a filesys_scheme \<Rightarrow> bool" where
  \<comment> \<open>\<open>name\<close> is in the table of open files, with the file \<open>x\<close> at \<open>f\<close> on the well-formed inode \<open>i\<close>\<close>
  "open_at name f x i s \<longleftrightarrow> cache_inv s \<and> get_file_by_fname name s = Some f \<and> file_at s f = Some x \<and>
     inode_at s (f_inode x) = Some i \<and> file_ok (cache_view s) (fs_capacity s) (in_data i) \<and> 0 \<le> f_pos x"

lemma open_at_stores:
  assumes "open_at name f x i s" and "stores S s s'" and "file_ok (cache_view s') (fs_capacity s) (in_data i)" and "0 \<le> pos"
  shows "open_at name f (x\<lparr>f_pos := pos\<rparr>) i (put_file f (x\<lparr>f_pos := pos\<rparr>) s')"
  using assms same_inode_at [OF stores_more [OF assms(2)]] same_file_at [OF stores_more [OF assms(2)]]
    same_files(8) [OF stores_more [OF assms(2)]]
  by (auto simp: open_at_def stores_def file_at_put_file get_file_by_fname_def)

lemma fsutil_write_spec:
  assumes o': "open_at name f x i s" and deny: "deny_write_cnt i = 0" and buf: "buf \<noteq> []"
    and fits: "f_pos x + int (length buf) \<le> id_length (in_data i)"
  shows "\<exists>s'. fsutil_write name buf s = Some (int (length buf), put_file f (x\<lparr>f_pos := f_pos x + (int (length buf) - 2)\<rparr>) s') \<and>
    stores (data_sectors (cache_view s) (in_data i)) s s' \<and> file_ok (cache_view s') (fs_capacity s) (in_data i) \<and>
    content (cache_view s') (in_data i) = overlay (nat (f_pos x)) (butlast buf @ [0]) (content (cache_view s) (in_data i))"
proof -
  have inv: "cache_inv s" and ok: "file_ok (cache_view s) (fs_capacity s) (in_data i)" and i: "inode_at s (f_inode x) = Some i"
    and x: "file_at s f = Some x" and pos: "0 \<le> f_pos x" and name: "get_file_by_fname name s = Some f"
    using o' by (simp_all add: open_at_def)
  have n: "0 < int (length buf)" using buf by simp
  have len: "int (length buf) \<le> int (length (butlast buf @ [0 :: byte]))" using buf by simp
  have all: "take (nat (int (length buf))) (butlast buf @ [0 :: byte]) = butlast buf @ [0]"
    by (rule take_all) (use buf in simp)
  from inode_write_at_spec [where alloc = "free_map_allocate 1", OF inv i ok deny pos n fits refl len, unfolded all]
  obtain s' where
    w: "inode_write_at (free_map_allocate 1) (f_inode x) (\<lambda>_. Some (butlast buf @ [0])) (int (length buf)) (f_pos x) s =
        Some (int (length buf), s')"
    and st: "stores (data_sectors (cache_view s) (in_data i)) s s'" "file_ok (cache_view s') (fs_capacity s) (in_data i)"
      "content (cache_view s') (in_data i) = overlay (nat (f_pos x)) (butlast buf @ [0]) (content (cache_view s) (in_data i))"
    by blast
  have "id_length (in_data i) \<le> 512 * 16635" using ok by (simp add: file_ok_def)
  then have "off32 (f_pos x + (int (length buf) - 2)) = Some (f_pos x + (int (length buf) - 2))"
    using pos fits n by (auto simp: off32_def)
  then have "fsutil_write name buf s = Some (int (length buf), put_file f (x\<lparr>f_pos := f_pos x + (int (length buf) - 2)\<rparr>) s')"
    using named_file_open [OF name] x buf last_byte_null [OF buf] w
    by (simp add: fsutil_write_def write_file_def)
  then show ?thesis using st by blast
qed

lemma fsutil_seek_spec:
  assumes "get_file_by_fname name s = Some f" and "file_at s f = Some x" and "0 \<le> pos"
  shows "fsutil_seek name pos s = Some (0, put_file f (x\<lparr>f_pos := pos\<rparr>) s)"
  using assms by (simp add: fsutil_seek_def named_file_open file_seek_def not_null_def)

lemma fsutil_read_spec:
  assumes o': "open_at name f x i s" and pos: "f_pos x \<le> id_length (in_data i)"
  shows "\<exists>s'. let data = take (nat n) (drop (nat (f_pos x)) (content (cache_view s) (in_data i))) in
    fsutil_read name n s = Some ((data, int (length data)), put_file f (x\<lparr>f_pos := f_pos x + int (length data)\<rparr>) s') \<and> keeps s s'"
proof -
  have inv: "cache_inv s" and ok: "file_ok (cache_view s) (fs_capacity s) (in_data i)" and i: "inode_at s (f_inode x) = Some i"
    and x: "file_at s f = Some x" and pos0: "0 \<le> f_pos x" and name: "get_file_by_fname name s = Some f"
    using o' by (simp_all add: open_at_def)
  have max: "0 \<le> id_length (in_data i)" "id_length (in_data i) \<le> 512 * 16635" using ok by (simp_all add: file_ok_def)
  let ?data = "take (nat n) (drop (nat (f_pos x)) (content (cache_view s) (in_data i)))"
  obtain s' where s': "inode_read_at (f_inode x) n (f_pos x) s = Some (?data, s')" "keeps s s'"
    using inode_read_at_spec [OF inv i ok pos0, of n] pos max by auto
  have "f_pos x + int (length ?data) \<le> id_length (in_data i)" using pos pos0 max by auto
  then have "off32 (f_pos x + int (length ?data)) = Some (f_pos x + int (length ?data))"
    using pos0 max by (simp add: off32_def)
  then have "fsutil_read name n s = Some ((?data, int (length ?data)), put_file f (x\<lparr>f_pos := f_pos x + int (length ?data)\<rparr>) s')"
    using s'(1) x named_file_open [OF name] by (simp add: fsutil_read_def read_file_def)
  then show ?thesis using s'(2) by (auto simp: Let_def)
qed

text \<open>
  C11: In the shell, what write stores in a file of the file table comes back when the file is sought to the same
  position and read: the text with its last byte made null. The content of the file is overwritten there and
  nowhere else, every file that shares no sector with it keeps its content, and no assertion of the code fails.
\<close>

theorem fs_write_then_read:
  assumes "open_at name f x i s" and "deny_write_cnt i = 0" and "buf \<noteq> []"
    and "f_pos x + int (length buf) \<le> id_length (in_data i)"
  shows "\<exists>s1 s2 s3. fsutil_write name buf s = Some (int (length buf), s1) \<and>
    fsutil_seek name (f_pos x) s1 = Some (0, s2) \<and>
    fsutil_read name (int (length buf)) s2 = Some ((butlast buf @ [0], int (length buf)), s3) \<and>
    content (cache_view s3) (in_data i) = overlay (nat (f_pos x)) (butlast buf @ [0]) (content (cache_view s) (in_data i)) \<and>
    (\<forall>d. 0 \<le> id_length d \<and> data_sectors (cache_view s) (in_data i) \<inter>
        (data_sectors (cache_view s) d \<union> table_sectors (cache_view s) d (sectors_used d)) = {} \<longrightarrow>
      content (cache_view s3) d = content (cache_view s) d) \<and>
    console s3 = console s"
proof -
  let ?n = "int (length buf)" let ?p = "butlast buf @ [0 :: byte]" let ?d = "in_data i"
  have pos: "0 \<le> f_pos x" and name: "get_file_by_fname name s = Some f" and x: "file_at s f = Some x"
    using assms(1) by (simp_all add: open_at_def)
  obtain s1 where s1: "fsutil_write name buf s = Some (?n, put_file f (x\<lparr>f_pos := f_pos x + (?n - 2)\<rparr>) s1)"
      "stores (data_sectors (cache_view s) ?d) s s1" "file_ok (cache_view s1) (fs_capacity s) ?d"
      "content (cache_view s1) ?d = overlay (nat (f_pos x)) ?p (content (cache_view s) ?d)"
    using fsutil_write_spec [OF assms] by blast
  let ?x1 = "x\<lparr>f_pos := f_pos x + (?n - 2)\<rparr>" let ?s1 = "put_file f ?x1 s1"
  have x1: "get_file_by_fname name ?s1 = Some f" "file_at ?s1 f = Some ?x1"
    using name x same_file_at [OF stores_more [OF s1(2)]] same_files(8) [OF stores_more [OF s1(2)]]
    by (simp_all add: get_file_by_fname_def file_at_put_file)
  let ?s2 = "put_file f x s1"
  have again: "put_file f (?x1\<lparr>f_pos := f_pos x\<rparr>) ?s1 = ?s2" by (simp add: put_file_def)
  have s2: "fsutil_seek name (f_pos x) ?s1 = Some (0, ?s2)"
    using fsutil_seek_spec [OF x1 pos] again by simp
  have "open_at name f x i ?s2"
    using open_at_stores [OF assms(1) s1(2,3) pos] by simp
  from fsutil_read_spec [OF this, of ?n] obtain s3 where s3:
      "fsutil_read name ?n ?s2 = (let data = take (length buf) (drop (nat (f_pos x)) (content (cache_view s1) ?d)) in
        Some ((data, int (length data)), put_file f (x\<lparr>f_pos := f_pos x + int (length data)\<rparr>) s3))" "keeps ?s2 s3"
    using assms(4) pos by (auto simp: Let_def)
  have pl: "length ?p = length buf" using assms(3) by simp
  then have "nat (f_pos x) + length ?p \<le> length (content (cache_view s) ?d)" using assms(4) pos by simp
  from take_drop_overlay [OF this] have data: "take (length buf) (drop (nat (f_pos x)) (content (cache_view s1) ?d)) = ?p"
    unfolding pl s1(4) .
  have v3: "cache_view s3 = cache_view s1" "console s3 = console s1" using s3(2) by (simp_all add: keeps_def)
  let ?s3 = "put_file f (x\<lparr>f_pos := f_pos x + int (length buf)\<rparr>) s3"
  have r: "fsutil_read name ?n ?s2 = Some ((?p, ?n), ?s3)" using s3(1) data pl by (simp add: Let_def)
  show ?thesis
    using s1 s2 r v3 content_unchanged(1) [OF s1(2)] by (intro exI [of _ ?s1] exI [of _ ?s2] exI [of _ ?s3]) (simp add: stores_def)
qed

text \<open>A disk of four sectors with one open file of 600 bytes in its sectors 2 and 3.\<close>

definition sample_file :: open_file where
  "sample_file = \<lparr>f_inode = 0, f_pos = 510, f_deny_write = False\<rparr>"

definition sample_fs :: filesys where
  "sample_fs =
     \<lparr>console = [], hd_file = replicate 2048 0,
      blocks = [\<lparr>bd_name = ''hda'', bd_fname = ''disk'', bd_size = 4, bd_ops = Ide, read_cnt = 0, write_cnt = 0\<rparr>],
      hard_drive = Some 0, fs_device = Some 0,
      cache = replicate 64 \<lparr>occupied = False, disk_sector = 0, buffer = replicate 512 0, dirty = False, accessed = False\<rparr>,
      clock = 0, inode_heap = [Some sample_inode], disk_heap = [], block_stack = [], open_inodes = [0],
      free_map = None, free_map_file = None, file_heap = [Some sample_file], file_table = [(''f'', 0)],
      dir_heap = [], cwd = None, host_files = Map.empty, host_writable = (\<lambda>_. True)\<rparr>"

lemma sample_cache: "cache_inv sample_fs" "cache_view sample_fs = disk_sector_at sample_fs" "fs_capacity sample_fs = 4"
proof -
  have "cache_inv (buffer_cache_init sample_fs) \<and> cache_view (buffer_cache_init sample_fs) = disk_sector_at sample_fs"
    by (rule buffer_cache_init_spec)
      (simp_all add: sample_fs_def device_ok_def raw_disk_def BUFFER_CACHE_SIZE_def BLOCK_SECTOR_SIZE_def)
  moreover have "buffer_cache_init sample_fs = sample_fs" by (simp add: buffer_cache_init_def sample_fs_def)
  ultimately show "cache_inv sample_fs" "cache_view sample_fs = disk_sector_at sample_fs" by simp_all
  show "fs_capacity sample_fs = 4" by (simp add: sample_fs_def fs_capacity_def disk_capacity_def)
qed

lemma sample_sectors: "sectors_used sample_disk = 2" "data_sectors v sample_disk = {2, 3}"
  "table_sectors v sample_disk 2 = {}" "file_ok v 4 sample_disk"
proof -
  show n: "sectors_used sample_disk = 2"
    by (simp add: sectors_used_def DIV_ROUND_UP_def BLOCK_SECTOR_SIZE_def sample_disk_def)
  have two: "{..<2 :: nat} = {0, 1}" by auto
  have sec: "sector_of v sample_disk 0 = 2" "sector_of v sample_disk 1 = 3"
    by (simp_all add: sector_of_def sample_disk_def)
  show d: "data_sectors v sample_disk = {2, 3}"
    unfolding data_sectors_def n two using sec by simp
  show t: "table_sectors v sample_disk 2 = {}" by (simp add: table_sectors_def)
  have "inj_on (sector_of v sample_disk) {..<2}"
    unfolding two using sec by simp
  then show "file_ok v 4 sample_disk"
    using d t by (simp add: file_ok_def n) (simp add: sample_disk_def)
qed

lemma sample_open: "open_at ''f'' 0 sample_file sample_inode sample_fs"
  using sample_cache sample_sectors(4) [of "cache_view sample_fs"]
  by (simp add: open_at_def) (simp add: sample_fs_def get_file_by_fname_def file_at_def inode_at_def sample_file_def sample_inode_def)

theorem fs_write_then_read_witness:
  "\<exists>s1 s2 s3. fsutil_write ''f'' [104, 105, 33] sample_fs = Some (3, s1) \<and>
    fsutil_seek ''f'' 510 s1 = Some (0, s2) \<and> fsutil_read ''f'' 3 s2 = Some (([104, 105, 0], 3), s3)"
  using fs_write_then_read [OF sample_open, of "[104, 105, 33]"]
  by (simp add: sample_inode_def sample_file_def sample_disk_def) blast

section \<open>Two openers of one inode\<close>

lemma rd_update_same: "rd (xs[k := v]) k = (if k < length xs then Some v else None)"
  by (simp add: rd_def)

text \<open>
  C37: \<open>inode_open\<close> of an inode that is open does not count the second opener. When two files share an inode, closing the
  first frees the inode under the second: reading or writing it, asking for its length or closing it is then undefined.
\<close>

theorem second_opener_dangles:
  assumes "find_inode (open_inodes s) sec s = Some (Some p)" and "inode_at s p = Some i" and "open_cnt i = 1" and "\<not> removed i"
    and "file_at s f = Some x" and "f_inode x = p" and "\<not> f_deny_write x"
    and "file_at s g = Some y" and "f_inode y = p" and "f \<noteq> g"
  shows "inode_open sec s = Some (p, s) \<and>
    (\<exists>s'. file_close (Some f) s = Some s' \<and> file_at s' g = Some y \<and> inode_at s' p = None \<and>
      (\<forall>n. read_file g n s' = None) \<and> (\<forall>buf n. write_file g buf n s' = None) \<and>
      file_length (Some g) s' = None \<and> file_close (Some g) s' = None)"
proof -
  let ?s = "(put_inode p (i\<lparr>open_cnt := 0\<rparr>) s)\<lparr>open_inodes := remove1 p (open_inodes s)\<rparr>"
  let ?t = "?s\<lparr>inode_heap := (inode_heap ?s)[p := None], file_heap := (file_heap s)[f := None]\<rparr>"
  have p: "p < length (inode_heap s)" and f: "f < length (file_heap s)"
    using assms(2,5) by (auto simp: inode_at_def file_at_def rd_def split: if_splits)
  have a: "inode_at (put_inode p j s) p = Some j" for j using p by (simp add: inode_at_def put_inode_def rd_update_same)
  have "inode_close (Some p) s = Some (?s\<lparr>inode_heap := (inode_heap ?s)[p := None]\<rparr>)"
    using assms(2-4) by (simp add: inode_close_def put_inode_def)
  then have c: "file_close (Some f) s = Some ?t"
    using assms(5-7) by (simp add: file_close_def file_allow_write_def not_null_def put_inode_def)
  have g: "file_at ?t g = Some y" using assms(8,10) by (simp add: file_at_def put_inode_def rd_def split: if_splits)
  have n: "inode_at ?t p = None" using p by (simp add: inode_at_def put_inode_def rd_update_same)
  have "read_file g m ?t = None" for m using g n assms(9) by (simp add: read_file_def inode_read_at_def)
  moreover have "write_file g buf m ?t = None" for buf m using g n assms(9) by (simp add: write_file_def inode_write_at_def)
  moreover have "file_length (Some g) ?t = None" using g n assms(9) by (simp add: file_length_def not_null_def inode_length_def)
  moreover have "file_close (Some g) ?t = None"
    using g n assms(9) by (simp add: file_close_def file_allow_write_def not_null_def inode_close_def inode_allow_write_def)
  moreover have "inode_open sec s = Some (p, s)" using assms(1) by (simp add: inode_open_def inode_reopen_def)
  ultimately show ?thesis using c g n by (intro conjI exI [of _ ?t] allI)
qed

definition two_files :: files where
  "two_files = one_inode\<lparr>file_heap := replicate 2 (Some \<lparr>f_inode = 0, f_pos = 0, f_deny_write = False\<rparr>)\<rparr>"

theorem second_opener_dangles_witness:
  "inode_open 1 two_files = Some (0, two_files) \<and>
   (\<exists>s'. file_close (Some 0) two_files = Some s' \<and> read_file 1 10 s' = None \<and> file_close (Some 1) s' = None)"
  using second_opener_dangles [of two_files 1 0 sample_inode 0 "\<lparr>f_inode = 0, f_pos = 0, f_deny_write = False\<rparr>"
      1 "\<lparr>f_inode = 0, f_pos = 0, f_deny_write = False\<rparr>"]
  by (simp add: two_files_def one_inode_def inode_at_def file_at_def rd_def sample_inode_def) blast

end
