(* ===== verification/Dir_Names.thy ===== *)
theory Dir_Names
  imports Directories File_Content
begin

text \<open>
  A directory as a map from names to sectors: the entries in the content of its inode, the search through them, and
  what adding an entry to a free slot changes.
\<close>

section \<open>Names\<close>

definition name_bytes_ok :: "string \<Rightarrow> bool" where
  "name_bytes_ok t \<longleftrightarrow> CHR 0x00 \<notin> set t"

lemma byte_of_char [simp]: "(word_of_nat (of_char c) :: byte) = word_of_nat (of_char d) \<longleftrightarrow> c = d"
proof
  assume "(word_of_nat (of_char c) :: byte) = word_of_nat (of_char d)"
  then have "unat (word_of_nat (of_char c) :: byte) = unat (word_of_nat (of_char d) :: byte)" by simp
  moreover have "(of_char e :: nat) < 256" for e by (rule nat_of_char_less_256)
  ultimately show "c = d" by (simp add: unat_of_nat)
qed simp

lemma byte_char_zero: "(word_of_nat (of_char c) :: byte) = 0 \<longleftrightarrow> c = CHR 0x00"
  using byte_of_char [of c "CHR 0x00"] by simp

lemma char_of_byte: "char_of (unat b) = c \<longleftrightarrow> b = (word_of_nat (of_char c) :: byte)"
proof -
  have "unat b < 2 ^ LENGTH(8)" by (rule unsigned_less)
  then have "(of_char (char_of (unat b) :: char) :: nat) = unat b" by simp
  then have "(word_of_nat (of_char (char_of (unat b) :: char)) :: byte) = b" by simp
  moreover have "unat (word_of_nat (of_char c) :: byte) = of_char c" by (simp add: unat_of_nat)
  ultimately show ?thesis by (metis char_of_char)
qed

lemma same_name_spec:
  "0 \<in> set b \<Longrightarrow> name_bytes_ok t \<Longrightarrow> same_name t b = Some (c_string b = Some t)"
proof (induction t b rule: same_name.induct)
  case (2 b bs)
  then show ?case by (auto simp: c_string_def string_of_def)
next
  case (3 c cs b bs)
  have c0: "c \<noteq> CHR 0x00" "name_bytes_ok cs" using 3(3) by (auto simp: name_bytes_ok_def)
  show ?case
  proof (cases "b = word_of_nat (of_char c)")
    case True
    then have b: "b \<noteq> 0" using c0 byte_char_zero by metis
    then have "0 \<in> set bs" using 3(2) by auto
    then show ?thesis using 3(1) [OF True _ c0(2)] True b c0
      by (auto simp: c_string_def string_of_def char_of_byte)
  next
    case False
    then show ?thesis by (auto simp: c_string_def string_of_def char_of_byte)
  qed
qed simp

lemma strncpy_31: "length t \<le> NAME_MAX \<Longrightarrow> strncpy 31 t = bytes_of t @ replicate (31 - length t) 0"
  by (simp add: strncpy_def bytes_of_def NAME_MAX_def)

lemma strncpy_name:
  assumes "length t \<le> NAME_MAX" and "name_bytes_ok t"
  shows "length (strncpy 31 t) = 31" and "0 \<in> set (strncpy 31 t)" and "c_string (strncpy 31 t) = Some t"
proof -
  have n: "0 < 31 - length t" using assms(1) by (simp add: NAME_MAX_def)
  show "length (strncpy 31 t) = 31" and z: "0 \<in> set (strncpy 31 t)"
    using assms(1) n by (simp_all add: strncpy_31 bytes_of_def NAME_MAX_def)
  have nz: "\<forall>x \<in> set (bytes_of t). x \<noteq> 0" using assms(2) byte_char_zero by (auto simp: bytes_of_def name_bytes_ok_def)
  then have "takeWhile (\<lambda>x. x \<noteq> 0) (strncpy 31 t) = bytes_of t"
    unfolding strncpy_31 [OF assms(1)] using n by (simp add: takeWhile_append2 takeWhile_replicate)
  moreover have "string_of (bytes_of t) = t"
    by (simp add: string_of_def bytes_of_def map_idI char_of_byte)
  ultimately show "c_string (strncpy 31 t) = Some t" using z by (simp add: c_string_def)
qed

lemma entry_roundtrip:
  assumes "length (e_name e) = 31"
  shows "length (entry_image e) = 36" and "entry_of_image (entry_image e) = e"
  using assms by (simp_all add: entry_image_def entry_of_image_def nth_append)

section \<open>Entries\<close>

definition entry_at :: "(sector \<Rightarrow> bytes) \<Rightarrow> inode_disk \<Rightarrow> nat \<Rightarrow> dir_entry" where
  "entry_at v d k = entry_of_image (take 36 (drop (36 * k) (content v d)))"

definition entry_cnt :: "inode_disk \<Rightarrow> nat" where
  "entry_cnt d = nat (id_length d) div 36"

lemma read_entry_spec:
  assumes "cache_inv s" and "file_ok (cache_view s) (fs_capacity s) d" and "k \<le> entry_cnt d"
  shows "\<exists>s'. read_entry d (36 * int k) s = Some (if k < entry_cnt d then Some (entry_at (cache_view s) d k) else None, s') \<and> keeps s s'"
proof -
  have n: "id_length d \<le> 512 * 16635" "0 \<le> id_length d" using assms(2) by (simp_all add: file_ok_def)
  then have k: "36 * int k \<le> id_length d" using assms(3) unfolding entry_cnt_def by linarith
  then have "0 \<le> 36 * int k" "36 * int k < 2147483648" using n by linarith+
  then have "0 \<le> 36 * int k" "36 * int k < 2 ^ 31" by simp_all
  from read_loop_spec [OF assms(1,2) this, of 36] obtain s' where
    r: "read_loop d 36 (36 * int k) s = Some (take 36 (drop (36 * k) (content (cache_view s) d)), s')" "keeps s s'"
    by (auto simp: nat_mult_distrib)
  have "k < entry_cnt d \<longleftrightarrow> 36 * k + 36 \<le> nat (id_length d)" unfolding entry_cnt_def by linarith
  then show ?thesis using r by (auto simp: read_entry_def entry_size_def entry_at_def)
qed

definition first_such :: "(nat \<Rightarrow> bool) \<Rightarrow> nat \<Rightarrow> nat \<Rightarrow> nat" where
  "first_such P k n = hd (filter P [k..<n] @ [n])"

lemma first_such_step: "first_such P k n = (if k < n then if P k then k else first_such P (Suc k) n else n)"
  by (simp add: first_such_def upt_conv_Cons)

lemma find_entry_spec:
  assumes "cache_inv s" and "file_ok (cache_view s) (fs_capacity s) d" and "k \<le> entry_cnt d"
    and "\<And>j. k \<le> j \<Longrightarrow> j < entry_cnt d \<Longrightarrow> test (entry_at (cache_view s) d j) = Some (P j)"
  shows "\<exists>s'. find_entry test d (36 * int k) s =
    Some ((let j = first_such P k (entry_cnt d) in
            (if j < entry_cnt d then Some (entry_at (cache_view s) d j) else None, 36 * int j)), s') \<and> keeps s s'"
  using assms
proof (induction "entry_cnt d - k" arbitrary: k s)
  case 0
  then have k: "k = entry_cnt d" by simp
  from read_entry_spec [OF 0(2-4)] k show ?case
    by (subst find_entry.simps) (auto simp: first_such_step [of P "entry_cnt d"])
next
  case (Suc m)
  then have k: "k < entry_cnt d" by simp
  from read_entry_spec [OF Suc(3-5)] k obtain s1 where
    s1: "read_entry d (36 * int k) s = Some (Some (entry_at (cache_view s) d k), s1)" "keeps s s1" by auto
  have t: "test (entry_at (cache_view s) d k) = Some (P k)" using Suc(6) k by simp
  show ?case
  proof (cases "P k")
    case True
    then show ?thesis using s1 t k by (subst find_entry.simps) (auto simp: first_such_step [of P k])
  next
    case False
    have v: "cache_view s1 = cache_view s" "fs_capacity s1 = fs_capacity s" using s1(2) by (simp_all add: keeps_def)
    have "id_length d \<le> 512 * 16635" using Suc(4) by (simp add: file_ok_def)
    then have "36 * int k + 36 < 2147483648" using k unfolding entry_cnt_def by linarith
    then have o: "off32 (36 * int k + entry_size) = Some (36 * int (Suc k))" by (simp add: off32_def entry_size_def)
    have "\<exists>s'. find_entry test d (36 * int (Suc k)) s1 =
      Some ((let j = first_such P (Suc k) (entry_cnt d) in
            (if j < entry_cnt d then Some (entry_at (cache_view s1) d j) else None, 36 * int j)), s') \<and> keeps s1 s'"
      using Suc(2,4,6) k by (intro Suc(1)) (simp_all add: v keeps_inv [OF s1(2)])
    then obtain s2 where "find_entry test d (36 * int (Suc k)) s1 =
      Some ((let j = first_such P (Suc k) (entry_cnt d) in
            (if j < entry_cnt d then Some (entry_at (cache_view s) d j) else None, 36 * int j)), s2)" "keeps s1 s2"
      unfolding v by blast
    note this(1) and keeps_trans [OF s1(2) this(2)]
    then show ?thesis using s1 t k False o by (subst find_entry.simps) (auto simp: first_such_step [of P k] Let_def)
  qed
qed

lemma first_such_find:
  "(let j = first_such (\<lambda>j. P (f j)) k n in if j < n then Some (f j) else None) = find P (map f [k..<n])"
proof (induction "n - k" arbitrary: k)
  case 0
  then show ?case by (simp add: first_such_def)
next
  case (Suc m)
  then have "k < n" "m = n - Suc k" by simp_all
  then show ?case using Suc(1) [of "Suc k"] by (subst first_such_step) (auto simp: upt_conv_Cons Let_def split: if_splits)
qed

lemma first_such_bounds: "k \<le> n \<Longrightarrow> k \<le> first_such P k n \<and> first_such P k n \<le> n"
proof (induction "n - k" arbitrary: k)
  case (Suc m)
  have "m = n - Suc k" using Suc(2) by simp
  from Suc(1) [OF this] show ?case using Suc(2) by (subst (1 2) first_such_step) auto
qed (simp add: first_such_def)

lemma first_such_hit: "first_such P k n < n \<Longrightarrow> P (first_such P k n)"
proof (induction "n - k" arbitrary: k)
  case (Suc m)
  have "m = n - Suc k" using Suc(2) by simp
  from Suc.hyps(1) [OF this] show ?case using Suc.prems by (subst first_such_step, subst (asm) first_such_step) (auto split: if_splits)
qed (simp add: first_such_def)

lemma first_such_found: "k \<le> j \<Longrightarrow> j < n \<Longrightarrow> P j \<Longrightarrow> first_such P k n < n \<and> P (first_such P k n)"
proof (induction "n - k" arbitrary: k)
  case (Suc m)
  show ?case
  proof (cases "P k")
    case True
    then show ?thesis using Suc(2) by (subst (1 2) first_such_step) simp
  next
    case False
    then have "Suc k \<le> j" using Suc(3,5) by (metis Suc_leI le_neq_implies_less)
    from Suc(1) [OF _ this Suc(4,5)] show ?thesis using Suc(2) False by (subst (1 2) first_such_step) simp
  qed
qed simp

section \<open>The map of a directory\<close>

definition dir_entries :: "(sector \<Rightarrow> bytes) \<Rightarrow> inode_disk \<Rightarrow> dir_entry list" where
  \<comment> \<open>without the entry for the parent\<close>
  "dir_entries v d = map (entry_at v d) [1..<entry_cnt d]"

definition named :: "string \<Rightarrow> dir_entry \<Rightarrow> bool" where
  "named n e \<longleftrightarrow> in_use e \<and> c_string (e_name e) = Some n"

definition dir_names :: "(sector \<Rightarrow> bytes) \<Rightarrow> inode_disk \<Rightarrow> string \<rightharpoonup> sector" where
  "dir_names v d n = map_option inode_sector (find (named n) (dir_entries v d))"

definition free_slots :: "(sector \<Rightarrow> bytes) \<Rightarrow> inode_disk \<Rightarrow> nat" where
  "free_slots v d = length (filter (\<lambda>e. \<not> in_use e) (dir_entries v d))"

definition names_unique :: "dir_entry list \<Rightarrow> bool" where
  "names_unique es \<longleftrightarrow> (\<forall>i < length es. \<forall>j < length es. in_use (es ! i) \<and> in_use (es ! j) \<and>
     c_string (e_name (es ! i)) = c_string (e_name (es ! j)) \<longrightarrow> i = j)"

definition dir_ok :: "(sector \<Rightarrow> bytes) \<Rightarrow> inode_disk \<Rightarrow> bool" where
  "dir_ok v d \<longleftrightarrow> 0 < entry_cnt d \<and> in_use (entry_at v d 0) \<and>
     (\<forall>e \<in> set (dir_entries v d). in_use e \<longrightarrow> 0 \<in> set (e_name e)) \<and> names_unique (dir_entries v d)"

lemma lookup_test:
  assumes "dir_ok v d" and "name_bytes_ok n" and "1 \<le> j" and "j < entry_cnt d"
  shows "(if in_use (entry_at v d j) then same_name n (e_name (entry_at v d j)) else Some False) = Some (named n (entry_at v d j))"
proof -
  have "entry_at v d j \<in> set (dir_entries v d)" using assms(3,4) by (simp add: dir_entries_def)
  then show ?thesis using assms(1,2) same_name_spec [of "e_name (entry_at v d j)" n] by (simp add: dir_ok_def named_def)
qed

lemma entry_overlay:
  assumes "content v' d = overlay (36 * j) (entry_image e) (content v d)" and "j < entry_cnt d" and "length (e_name e) = 31"
    and "k < entry_cnt d"
  shows "entry_at v' d k = (if k = j then e else entry_at v d k)"
proof -
  note img = entry_roundtrip [OF assms(3)]
  have j: "36 * j + 36 \<le> nat (id_length d)" "36 * k + 36 \<le> nat (id_length d)" using assms(2,4) unfolding entry_cnt_def by linarith+
  show ?thesis
  proof (cases "k = j")
    case True
    then show ?thesis using take_drop_overlay [of "36 * j" "entry_image e" "content v d"] j img
      by (simp add: entry_at_def assms(1))
  next
    case False
    have "take 36 (drop (36 * k) (overlay (36 * j) (entry_image e) (content v d))) = take 36 (drop (36 * k) (content v d))"
    proof (rule nth_equalityI)
      fix i assume "i < length (take 36 (drop (36 * k) (overlay (36 * j) (entry_image e) (content v d))))"
      then have i: "i < 36" by simp
      have "\<not> (36 * j \<le> 36 * k + i \<and> 36 * k + i < 36 * j + 36)" using False i by presburger
      then show "take 36 (drop (36 * k) (overlay (36 * j) (entry_image e) (content v d))) ! i = take 36 (drop (36 * k) (content v d)) ! i"
        using nth_overlay [of "36 * j" "entry_image e" "content v d" "36 * k + i"] j img i by auto
    qed (use j img in simp)
    then show ?thesis using False by (simp add: entry_at_def assms(1))
  qed
qed

lemma find_update:
  assumes "j < length xs" and "\<not> P (xs ! j)"
  shows "\<not> P y \<Longrightarrow> find P (xs[j := y]) = find P xs" and "P y \<Longrightarrow> find P xs = None \<Longrightarrow> find P (xs[j := y]) = Some y"
  using assms by (induction xs arbitrary: j; auto split: nat.splits)+

lemma filter_update_length:
  "j < length xs \<Longrightarrow> P (xs ! j) \<Longrightarrow> \<not> P y \<Longrightarrow> length (filter P (xs[j := y])) + 1 = length (filter P xs)"
  by (induction xs arbitrary: j) (auto split: nat.splits)

lemma dir_entries_overlay:
  assumes "content v' d = overlay (36 * j) (entry_image e) (content v d)" and "length (e_name e) = 31"
    and j: "1 \<le> j" "j < entry_cnt d"
  shows "dir_entries v' d = (dir_entries v d)[j - 1 := e]" and "entry_at v' d 0 = entry_at v d 0"
    and "j - 1 < length (dir_entries v d)" and "dir_entries v d ! (j - 1) = entry_at v d j"
proof -
  note at = entry_overlay [OF assms(1) j(2) assms(2)]
  show "dir_entries v' d = (dir_entries v d)[j - 1 := e]"
  proof (rule nth_equalityI)
    fix i assume "i < length (dir_entries v' d)"
    then show "dir_entries v' d ! i = (dir_entries v d)[j - 1 := e] ! i"
      using j at [of "Suc i"] by (auto simp: dir_entries_def nth_list_update)
  qed (simp add: dir_entries_def)
  show "entry_at v' d 0 = entry_at v d 0" using at [of 0] j by simp
  show "j - 1 < length (dir_entries v d)" "dir_entries v d ! (j - 1) = entry_at v d j"
    using j by (simp_all add: dir_entries_def)
qed

lemma no_name: "dir_names v d n = None \<Longrightarrow> e \<in> set (dir_entries v d) \<Longrightarrow> \<not> named n e"
  by (auto simp: dir_names_def find_None_iff)

lemma names_unique_added:
  assumes "names_unique es" and "k < length es" and "c_string (e_name e) = Some n" and "\<And>x. x \<in> set es \<Longrightarrow> \<not> named n x"
  shows "names_unique (es[k := e])"
  unfolding names_unique_def
proof (intro allI impI, elim conjE)
  fix i j assume ij: "i < length (es[k := e])" "j < length (es[k := e])" "in_use (es[k := e] ! i)" "in_use (es[k := e] ! j)"
    "c_string (e_name (es[k := e] ! i)) = c_string (e_name (es[k := e] ! j))"
  have other: "c_string (e_name (es ! x)) \<noteq> Some n" if "x < length es" "in_use (es ! x)" for x
    using assms(4) [of "es ! x"] that by (simp add: named_def)
  show "i = j"
  proof (rule ccontr)
    assume ne: "i \<noteq> j"
    consider "i = k" | "j = k" | "i \<noteq> k" "j \<noteq> k" by blast
    then show False
    proof cases
      case 1
      then have "es[k := e] ! i = e" "es[k := e] ! j = es ! j" using assms(2) ne by simp_all
      then show False using ij(2,4,5) other [of j] assms(3) by simp
    next
      case 2
      then have "es[k := e] ! j = e" "es[k := e] ! i = es ! i" using assms(2) ne by simp_all
      then show False using ij(1,3,5) other [of i] assms(3) by simp
    next
      case 3
      then show False using ij assms(1) ne unfolding names_unique_def by simp
    qed
  qed
qed

lemma names_unique_removed:
  assumes "names_unique es" and "\<not> in_use e"
  shows "names_unique (es[k := e])"
  unfolding names_unique_def
proof (intro allI impI, elim conjE)
  fix i j assume ij: "i < length (es[k := e])" "j < length (es[k := e])" "in_use (es[k := e] ! i)" "in_use (es[k := e] ! j)"
    "c_string (e_name (es[k := e] ! i)) = c_string (e_name (es[k := e] ! j))"
  have "es[k := e] ! x = es ! x" if "x < length es" "in_use (es[k := e] ! x)" for x
    using that assms(2) by (cases "x = k") simp_all
  then show "i = j" using ij assms(1) unfolding names_unique_def by simp
qed

lemma dir_entry_added:
  assumes "content v' d = overlay (36 * j) (entry_image e) (content v d)" and "length (e_name e) = 31"
    and "dir_ok v d" and j: "1 \<le> j" "j < entry_cnt d" and free: "\<not> in_use (entry_at v d j)"
    and e: "in_use e" "c_string (e_name e) = Some n" "0 \<in> set (e_name e)" and new: "dir_names v d n = None"
  shows "dir_ok v' d" and "dir_names v' d = (dir_names v d)(n \<mapsto> inode_sector e)" and "free_slots v' d + 1 = free_slots v d"
proof -
  note es = dir_entries_overlay [OF assms(1,2) j]
  have "names_unique ((dir_entries v d)[j - 1 := e])"
    using names_unique_added [OF _ es(3) e(2) no_name [OF new]] assms(3) by (simp add: dir_ok_def)
  then show "dir_ok v' d"
    using assms(3) e(3) es(1,2) set_update_subset_insert [of "dir_entries v d" "j - 1" e] by (auto simp: dir_ok_def)
  show "free_slots v' d + 1 = free_slots v d"
    unfolding free_slots_def es(1) using es(3,4) free e(1) by (intro filter_update_length) simp_all
  show "dir_names v' d = (dir_names v d)(n \<mapsto> inode_sector e)"
  proof
    fix t
    have no: "\<not> named t (dir_entries v d ! (j - 1))" using es(4) free by (simp add: named_def)
    show "dir_names v' d t = ((dir_names v d)(n \<mapsto> inode_sector e)) t"
    proof (cases "t = n")
      case True
      then have "find (named t) (dir_entries v d) = None" using new by (simp add: dir_names_def)
      then show ?thesis using find_update(2) [of "j - 1" "dir_entries v d" "named t" e, OF es(3) no] e True by (simp add: dir_names_def es(1) named_def)
    next
      case False
      then show ?thesis using find_update(1) [of "j - 1" "dir_entries v d" "named t" e, OF es(3) no] e by (simp add: dir_names_def es(1) named_def)
    qed
  qed
qed

lemma dir_entry_removed:
  assumes "content v' d = overlay (36 * j) (entry_image (x\<lparr>in_use := False\<rparr>)) (content v d)" and "length (e_name x) = 31"
    and ok: "dir_ok v d" and j: "1 \<le> j" "j < entry_cnt d" and x: "entry_at v d j = x" "named n x"
  shows "dir_ok v' d" and "dir_names v' d = (dir_names v d)(n := None)" and "free_slots v' d = free_slots v d + 1"
proof -
  let ?e = "x\<lparr>in_use := False\<rparr>" let ?es = "dir_entries v d" let ?k = "j - 1"
  have "length (e_name ?e) = 31" using assms(2) by simp
  note es = dir_entries_overlay [OF assms(1) this j]
  have u: "names_unique ?es" using ok by (simp add: dir_ok_def)
  have nth: "?es ! ?k = x" using es(4) x(1) by simp
  have use: "in_use x" "c_string (e_name x) = Some n" using x(2) by (simp_all add: named_def)
  show "dir_ok v' d"
    using ok names_unique_removed [OF u, of ?e ?k] es(1,2) set_update_subset_insert [of ?es ?k ?e] by (auto simp: dir_ok_def)
  have "(?es[?k := ?e])[?k := x] = ?es" using nth list_update_id [of ?es ?k] by simp
  then show "free_slots v' d = free_slots v d + 1"
    using filter_update_length [of ?k "?es[?k := ?e]" "\<lambda>e. \<not> in_use e" x] es(1,3) use(1) by (simp add: free_slots_def)
  show "dir_names v' d = (dir_names v d)(n := None)"
  proof
    fix t
    show "dir_names v' d t = ((dir_names v d)(n := None)) t"
    proof (cases "t = n")
      case True
      have "\<not> named n ((?es[?k := ?e]) ! i)" if "i < length ?es" for i
        using u that es(3) use nth unfolding names_unique_def named_def by (cases "i = ?k") auto
      then have "\<not> named n y" if "y \<in> set (?es[?k := ?e])" for y using that by (auto simp: in_set_conv_nth)
      then have "find (named n) (?es[?k := ?e]) = None" by (auto simp: find_None_iff)
      then show ?thesis using True by (simp add: dir_names_def es(1))
    next
      case False
      then have "\<not> named t (?es ! ?k)" using nth use by (simp add: named_def)
      then show ?thesis using find_update(1) [of ?k ?es "named t" ?e, OF es(3)] False by (simp add: dir_names_def es(1) named_def)
    qed
  qed
qed

end
