(* ===== verification/Dir_Props.thy ===== *)
theory Dir_Props
  imports Dir_Names Inode_Types
begin

text \<open>
  The directory operations refine the operations of a map: finding a name, and adding a name while a slot is free.
\<close>

section \<open>Opening an inode\<close>

definition inodes_listed :: "'a files_scheme \<Rightarrow> bool" where
  "inodes_listed s \<longleftrightarrow> (\<forall>q \<in> set (open_inodes s). inode_at s q \<noteq> None)"

definition opened :: "'a files_scheme \<Rightarrow> 'a files_scheme \<Rightarrow> bool" where
  \<comment> \<open>only inodes were opened\<close>
  "opened s s' \<longleftrightarrow> cache_inv s' \<and> cache_view s' = cache_view s \<and> fs_capacity s' = fs_capacity s \<and> console s' = console s \<and>
     files.more s' = files.more s \<and> free_map s' = free_map s \<and> free_map_file s' = free_map_file s \<and>
     file_heap s' = file_heap s \<and> file_table s' = file_table s \<and> disk_heap s' = disk_heap s \<and> inodes_listed s' \<and> (\<forall>q i. inode_at s q = Some i \<longrightarrow> inode_at s' q = Some i)"

lemma opened_refl: "cache_inv s \<Longrightarrow> inodes_listed s \<Longrightarrow> opened s s"
  by (simp add: opened_def)

lemma opened_trans: "opened s s' \<Longrightarrow> opened s' s'' \<Longrightarrow> opened s s''"
  by (simp add: opened_def)

lemma keeps_opened: "keeps s s' \<Longrightarrow> inodes_listed s \<Longrightarrow> opened s s'"
  using same_files [of s' s] same_inode_at [of s' s]
  by (auto simp: opened_def keeps_def inodes_listed_def)

lemma find_inode_spec:
  "\<forall>q \<in> set qs. inode_at s q \<noteq> None \<Longrightarrow> \<exists>r. find_inode qs sec s = Some r \<and>
     (case r of Some q \<Rightarrow> \<exists>i. inode_at s q = Some i \<and> in_sector i = sec | None \<Rightarrow> True)"
  by (induction qs) auto

lemma find_inode_none: "\<forall>q \<in> set qs. \<exists>i. inode_at s q = Some i \<and> in_sector i \<noteq> sec \<Longrightarrow> find_inode qs sec s = Some None"
  by (induction qs) auto

lemma inode_open_new:
  assumes "cache_inv s" and "inodes_listed s" and "sec < fs_capacity s" and "find_inode (open_inodes s) sec s = Some None"
  shows "\<exists>s'. inode_open sec s = Some (length (inode_heap s), s') \<and> opened s s' \<and>
    inode_at s' (length (inode_heap s)) = Some \<lparr>in_sector = sec, open_cnt = 1, removed = False, deny_write_cnt = 0,
      in_data = inode_of_image (cache_view s sec)\<rparr> \<and> open_inodes s' = length (inode_heap s) # open_inodes s \<and>
    length (inode_heap s') = Suc (length (inode_heap s))"
proof -
  let ?p = "length (inode_heap s)" let ?s = "s\<lparr>open_inodes := ?p # open_inodes s\<rparr>"
  have c: "cache_inv ?s" "cache_view ?s = cache_view s" "fs_capacity ?s = fs_capacity s"
    using same_cache [of ?s s] assms(1) by simp_all
  then obtain s1 where s1: "buffer_cache_read sec ?s = Some (cache_view s sec, s1)" "keeps ?s s1"
    using buffer_cache_read_spec [of ?s sec] assms(3) by auto
  have m: "inode_heap s1 = inode_heap s" "open_inodes s1 = ?p # open_inodes s" "files.more s1 = files.more s"
    "free_map s1 = free_map s" "free_map_file s1 = free_map_file s" "file_heap s1 = file_heap s" "file_table s1 = file_table s"
    "disk_heap s1 = disk_heap s"
    using same_files [of s1 ?s] s1(2) by (simp_all add: keeps_def)
  let ?i = "\<lparr>in_sector = sec, open_cnt = 1, removed = False, deny_write_cnt = 0, in_data = inode_of_image (cache_view s sec)\<rparr>"
  let ?t = "s1\<lparr>inode_heap := inode_heap s1 @ [Some ?i]\<rparr>"
  have o: "inode_open sec s = Some (?p, ?t)" using assms(4) s1(1) by (simp add: inode_open_def)
  have i: "inode_at ?t ?p = Some ?i" by (simp add: inode_at_def m rd_def)
  have old: "inode_at ?t q = Some j" if "inode_at s q = Some j" for q j
    using that by (auto simp: inode_at_def m rd_def nth_append split: if_splits bind_splits)
  have "cache_inv ?t" "cache_view ?t = cache_view s1" "fs_capacity ?t = fs_capacity s1"
    using same_cache [of ?t s1] keeps_inv [OF s1(2)] by simp_all
  moreover have "inodes_listed ?t" using assms(2) old i m by (fastforce simp: inodes_listed_def)
  ultimately have "opened s ?t" using s1(2) c m old by (simp add: opened_def keeps_def)
  then show ?thesis using o i m by auto
qed

lemma inode_open_spec:
  assumes "cache_inv s" and "inodes_listed s" and "sec < fs_capacity s"
  shows "\<exists>q j s'. inode_open sec s = Some (q, s') \<and> opened s s' \<and> inode_at s' q = Some j \<and> in_sector j = sec"
proof -
  from find_inode_spec [of "open_inodes s" s sec] assms(2)
  obtain r where r: "find_inode (open_inodes s) sec s = Some r"
    "case r of Some q \<Rightarrow> \<exists>i. inode_at s q = Some i \<and> in_sector i = sec | None \<Rightarrow> True" by (auto simp: inodes_listed_def)
  show ?thesis
  proof (cases r)
    case (Some q)
    then show ?thesis using r opened_refl [OF assms(1,2)] by (auto simp: inode_open_def inode_reopen_def)
  next
    case None
    then show ?thesis using inode_open_new [OF assms] r(1) by fastforce
  qed
qed

section \<open>An open directory\<close>

definition dir_rep :: "nat \<Rightarrow> dir \<Rightarrow> inode \<Rightarrow> (string \<rightharpoonup> sector) \<Rightarrow> nat \<Rightarrow> 'a filesys_scheme \<Rightarrow> bool" where
  \<comment> \<open>the directory at \<open>p\<close>, open on the inode \<open>i\<close>, holds the names \<open>m\<close> and has \<open>n\<close> free slots\<close>
  "dir_rep p x i m n s \<longleftrightarrow> dir_at s p = Some x \<and> inode_at s (d_inode x) = Some i \<and> deny_write_cnt i = 0 \<and>
     cache_inv s \<and> file_ok (cache_view s) (fs_capacity s) (in_data i) \<and> inodes_listed s \<and>
     dir_ok (cache_view s) (in_data i) \<and> dir_names (cache_view s) (in_data i) = m \<and>
     free_slots (cache_view s) (in_data i) = n \<and> (\<forall>t \<in> ran m. t < fs_capacity s)"

lemma dir_rep_opened: "dir_rep p x i m n s \<Longrightarrow> opened s s' \<Longrightarrow> dir_rep p x i m n s'"
  by (cases s; cases s') (simp add: dir_rep_def opened_def dir_at_def)

lemma dir_rep_keeps: "dir_rep p x i m n s \<Longrightarrow> keeps s s' \<Longrightarrow> dir_rep p x i m n s'"
  using keeps_opened dir_rep_opened by (metis dir_rep_def)

lemma lookup_spec:
  assumes "dir_rep p x i m n s" and "name_bytes_ok t"
  shows "\<exists>r s'. lookup p t s = Some (r, s') \<and> map_option (\<lambda>(e, ofs). inode_sector e) r = m t \<and> keeps s s' \<and>
    (\<forall>e ofs. r = Some (e, ofs) \<longrightarrow> named t e \<and>
       (\<exists>j. 1 \<le> j \<and> j < entry_cnt (in_data i) \<and> ofs = 36 * int j \<and> entry_at (cache_view s) (in_data i) j = e))"
proof -
  let ?v = "cache_view s" let ?d = "in_data i"
  have d: "dir_at s p = Some x" "inode_at s (d_inode x) = Some i" "cache_inv s" "file_ok ?v (fs_capacity s) ?d" "dir_ok ?v ?d"
    "dir_names ?v ?d = m" using assms(1) by (simp_all add: dir_rep_def)
  let ?P = "\<lambda>j. named t (entry_at ?v ?d j)" let ?j = "first_such ?P 1 (entry_cnt ?d)"
  have one: "1 \<le> entry_cnt ?d" using d(5) by (simp add: dir_ok_def)
  from find_entry_spec [OF d(3,4) this, of "\<lambda>e. if in_use e then same_name t (e_name e) else Some False" ?P]
    lookup_test [OF d(5) assms(2)] obtain s' where
    s': "find_entry (\<lambda>e. if in_use e then same_name t (e_name e) else Some False) ?d (36 * int 1) s =
      Some ((if ?j < entry_cnt ?d then Some (entry_at ?v ?d ?j) else None, 36 * int ?j), s')" "keeps s s'" by (auto simp: Let_def)
  let ?r = "if ?j < entry_cnt ?d then Some (entry_at ?v ?d ?j) else None"
  have "?r = find (named t) (dir_entries ?v ?d)"
    unfolding dir_entries_def by (rule first_such_find [unfolded Let_def])
  then have m: "map_option inode_sector ?r = m t" unfolding d(6) [symmetric] dir_names_def by simp
  have run: "lookup p t s = Some (map_option (\<lambda>e. (e, 36 * int ?j)) ?r, s')"
    using d(1,2) s'(1) by (simp add: lookup_def entry_size_def)
  have "named t (entry_at ?v ?d ?j) \<and> 1 \<le> ?j" if "?j < entry_cnt ?d"
    using first_such_bounds [OF one, of ?P] first_such_hit [OF that] by simp
  then show ?thesis
    using run s'(2) m by (intro exI [of _ "map_option (\<lambda>e. (e, 36 * int ?j)) ?r"] exI [of _ s']) (auto split: if_splits)
qed

lemma dir_lookup_spec:
  assumes "dir_rep p x i m n s" and "name_bytes_ok t" and "t \<noteq> ''.''" and "t \<noteq> ''..''"
  shows "\<exists>r s'. dir_lookup p t s = Some (r, s') \<and> opened s s' \<and>
    (case r of None \<Rightarrow> m t = None | Some q \<Rightarrow> \<exists>j. inode_at s' q = Some j \<and> m t = Some (in_sector j))"
proof -
  from lookup_spec [OF assms(1,2)] obtain r s1 where l: "lookup p t s = Some (r, s1)"
    "map_option (\<lambda>(e, ofs). inode_sector e) r = m t" "keeps s s1" by metis
  have d: "dir_at s p = Some x" "inodes_listed s" "\<forall>t \<in> ran m. t < fs_capacity s"
    using assms(1) by (simp_all add: dir_rep_def)
  note o1 = keeps_opened [OF l(3) d(2)]
  show ?thesis
  proof (cases r)
    case None
    then have "dir_lookup p t s = Some (None, s1)" using l(1) d(1) assms(3,4) by (simp add: dir_lookup_def)
    moreover have "m t = None" using l(2) None by simp
    ultimately show ?thesis using o1 by (intro exI [of _ None] exI [of _ s1]) simp
  next
    case (Some eo)
    obtain e ofs where eo: "eo = (e, ofs)" by (cases eo)
    then have mt: "m t = Some (inode_sector e)" using l(2) Some by auto
    then have "inode_sector e < fs_capacity s" using d(3) by (auto simp: ran_def)
    then have "inode_sector e < fs_capacity s1" using o1 by (simp add: opened_def)
    moreover have "cache_inv s1" "inodes_listed s1" using o1 by (simp_all add: opened_def)
    ultimately obtain q j s2 where q: "inode_open (inode_sector e) s1 = Some (q, s2)" "opened s1 s2"
      "inode_at s2 q = Some j" "in_sector j = inode_sector e" using inode_open_spec by blast
    have "dir_lookup p t s = Some (Some q, s2)" using l(1) d(1) assms(3,4) Some eo q(1) by (simp add: dir_lookup_def)
    then show ?thesis using opened_trans [OF o1 q(2)] q(3,4) mt by (intro exI [of _ "Some q"] exI [of _ s2]) auto
  qed
qed

lemma data_sectors_kept:
  assumes "file_ok v cap d" and "\<forall>sec. sec \<notin> data_sectors v d \<longrightarrow> v' sec = v sec"
  shows "data_sectors v' d = data_sectors v d"
proof -
  have "\<forall>t \<in> table_sectors v d (sectors_used d). v' t = v t" using assms by (auto simp: file_ok_def)
  from table_sectors_cong(1) [OF this] show ?thesis by (simp add: data_sectors_def)
qed

lemma write_entry_bytes:
  assumes rep: "dir_rep p x i m n s" and j: "j < entry_cnt (in_data i)" and len: "length (e_name e) = 31"
  shows "\<exists>s'. write_entry p e (36 * int j) s = Some (True, s') \<and> stores (data_sectors (cache_view s) (in_data i)) s s' \<and>
    file_ok (cache_view s') (fs_capacity s) (in_data i) \<and>
    content (cache_view s') (in_data i) = overlay (36 * j) (entry_image e) (content (cache_view s) (in_data i)) \<and>
    dir_at s' p = dir_at s p \<and> (\<forall>q. inode_at s' q = inode_at s q) \<and> inodes_listed s'"
proof -
  let ?v = "cache_view s" let ?d = "in_data i"
  have d: "dir_at s p = Some x" "inode_at s (d_inode x) = Some i" "deny_write_cnt i = 0" "cache_inv s"
    "file_ok ?v (fs_capacity s) ?d" "inodes_listed s" using rep by (simp_all add: dir_rep_def)
  have "0 \<le> id_length ?d" using d(5) by (simp add: file_ok_def)
  then have "36 * int j + 36 \<le> id_length ?d" using j unfolding entry_cnt_def by linarith
  from inode_write_at_spec [OF d(4,2,5,3) _ _ this, of "\<lambda>_. Some (entry_image e)" "entry_image e" "free_map_allocate 1"]
  obtain s' where s': "inode_write_at (free_map_allocate 1) (d_inode x) (\<lambda>_. Some (entry_image e)) 36 (36 * int j) s = Some (36, s')"
      "stores (data_sectors ?v ?d) s s'" "file_ok (cache_view s') (fs_capacity s) ?d"
      "content (cache_view s') ?d = overlay (36 * j) (entry_image e) (content ?v ?d)"
    using entry_roundtrip(1) [OF len] by (auto simp: nat_mult_distrib)
  have same: "open_inodes s' = open_inodes s" "files.more s' = files.more s" "inode_at s' q = inode_at s q" for q
    using same_files [OF stores_more [OF s'(2)]] same_inode_at [OF stores_more [OF s'(2)]] by simp_all
  then have "dir_at s' p = dir_at s p" by (cases s; cases s') (simp add: dir_at_def)
  moreover have "write_entry p e (36 * int j) s = Some (True, s')"
    using d(1) s'(1) by (simp add: write_entry_def entry_size_def)
  ultimately show ?thesis using s'(2-4) same d(6) by (auto simp: inodes_listed_def)
qed

lemma write_entry_spec:
  assumes rep: "dir_rep p x i m n s" and j: "1 \<le> j" "j < entry_cnt (in_data i)" and "\<not> in_use (entry_at (cache_view s) (in_data i) j)"
    and e: "in_use e" "length (e_name e) = 31" "0 \<in> set (e_name e)" "c_string (e_name e) = Some t" and "m t = None"
    and "inode_sector e < fs_capacity s"
  shows "\<exists>s'. write_entry p e (36 * int j) s = Some (True, s') \<and> dir_rep p x i (m(t \<mapsto> inode_sector e)) (n - 1) s' \<and> 0 < n \<and>
    stores (data_sectors (cache_view s) (in_data i)) s s'"
proof -
  let ?v = "cache_view s" let ?d = "in_data i"
  have d: "dir_ok ?v ?d" "dir_names ?v ?d = m" "free_slots ?v ?d = n" using rep by (simp_all add: dir_rep_def)
  from write_entry_bytes [OF rep j(2) e(2)] obtain s' where
    s': "write_entry p e (36 * int j) s = Some (True, s')" "stores (data_sectors ?v ?d) s s'" "file_ok (cache_view s') (fs_capacity s) ?d"
      "content (cache_view s') ?d = overlay (36 * j) (entry_image e) (content ?v ?d)"
      "dir_at s' p = dir_at s p" "\<forall>q. inode_at s' q = inode_at s q" "inodes_listed s'" by blast
  have "dir_names ?v ?d t = None" using d(2) assms(9) by simp
  note new = dir_entry_added [OF s'(4) e(2) d(1) j assms(4) e(1,4,3) this]
  have "\<forall>u \<in> ran (m(t \<mapsto> inode_sector e)). u < fs_capacity s" using rep assms(10) by (auto simp: dir_rep_def ran_def split: if_splits)
  then have "dir_rep p x i (m(t \<mapsto> inode_sector e)) (n - 1) s'"
    using rep s' new d by (auto simp: dir_rep_def stores_def)
  then show ?thesis using s'(1,2) new(3) d(3) by auto
qed

lemma free_slot_found:
  assumes "dir_ok v d" and "0 < free_slots v d"
  shows "let j = first_such (\<lambda>j. \<not> in_use (entry_at v d j)) 0 (entry_cnt d) in 1 \<le> j \<and> j < entry_cnt d \<and> \<not> in_use (entry_at v d j)"
proof -
  from assms(2) obtain k where k: "1 \<le> k" "k < entry_cnt d" "\<not> in_use (entry_at v d k)"
    by (auto simp: free_slots_def dir_entries_def filter_empty_conv)
  let ?j = "first_such (\<lambda>j. \<not> in_use (entry_at v d j)) 0 (entry_cnt d)"
  have j: "?j < entry_cnt d" "\<not> in_use (entry_at v d ?j)"
    using first_such_found [of 0 k "entry_cnt d" "\<lambda>j. \<not> in_use (entry_at v d j)"] k by simp_all
  then have "?j \<noteq> 0" using assms(1) unfolding dir_ok_def by (metis (no_types))
  then show ?thesis using j by (simp add: Let_def)
qed

lemma dir_add_spec:
  assumes rep: "dir_rep p x i m n s" and t: "name_bytes_ok t" and sec: "sec < fs_capacity s" and room: "0 < n"
  shows "\<exists>s'. dir_add stale p t sec False s = Some (t \<noteq> [] \<and> length t \<le> NAME_MAX \<and> m t = None, s') \<and>
    stores (data_sectors (cache_view s) (in_data i)) s s' \<and>
    (if t \<noteq> [] \<and> length t \<le> NAME_MAX \<and> m t = None then dir_rep p x i (m(t \<mapsto> sec)) (n - 1) s' else dir_rep p x i m n s')"
proof (cases "t = [] \<or> NAME_MAX < length t")
  case True
  moreover have "cache_inv s" using rep by (simp add: dir_rep_def)
  ultimately show ?thesis using rep keeps_stores [OF keeps_refl] by (auto simp: dir_add_def)
next
  case False
  from lookup_spec [OF rep t] obtain r s1 where l: "lookup p t s = Some (r, s1)"
    "map_option (\<lambda>(e, ofs). inode_sector e) r = m t" "keeps s s1" by metis
  note rep1 = dir_rep_keeps [OF rep l(3)]
  show ?thesis
  proof (cases "m t")
    case (Some sec')
    then have "r \<noteq> None" using l(2) by auto
    then have "dir_add stale p t sec False s = Some (False, s1)" using False l(1) by (simp add: dir_add_def)
    then show ?thesis using rep1 keeps_stores [OF l(3)] Some by auto
  next
    case None
    then have r: "r = None" using l(2) by simp
    let ?v = "cache_view s1" let ?d = "in_data i"
    have d: "dir_at s1 p = Some x" "inode_at s1 (d_inode x) = Some i" "cache_inv s1" "file_ok ?v (fs_capacity s1) ?d"
      "dir_ok ?v ?d" "free_slots ?v ?d = n" using rep1 by (simp_all add: dir_rep_def)
    let ?j = "first_such (\<lambda>j. \<not> in_use (entry_at ?v ?d j)) 0 (entry_cnt ?d)"
    have j: "1 \<le> ?j" "?j < entry_cnt ?d" "\<not> in_use (entry_at ?v ?d ?j)"
      using free_slot_found [OF d(5)] d(6) room by (simp_all add: Let_def)
    have "0 \<le> entry_cnt ?d" by simp
    from find_entry_spec [OF d(3,4) this, of "\<lambda>e. Some (\<not> in_use e)" "\<lambda>j. \<not> in_use (entry_at ?v ?d j)"] obtain s2 where
      s2: "find_entry (\<lambda>e. Some (\<not> in_use e)) ?d 0 s1 = Some ((Some (entry_at ?v ?d ?j), 36 * int ?j), s2)" "keeps s1 s2"
      using j(2) by (auto simp: Let_def)
    have v2: "cache_view s2 = ?v" "cache_view s1 = cache_view s" "fs_capacity s2 = fs_capacity s"
      using s2(2) l(3) by (simp_all add: keeps_def)
    let ?e = "\<lparr>inode_sector = sec, e_name = strncpy 31 t, in_use = True\<rparr>"
    have "length t \<le> NAME_MAX" using False by simp
    note nm = strncpy_name [OF this t]
    from write_entry_spec [OF dir_rep_keeps [OF rep1 s2(2)] j(1,2), of ?e t] j(3) nm None sec v2 obtain s3 where
      s3: "write_entry p ?e (36 * int ?j) s2 = Some (True, s3)" "dir_rep p x i (m(t \<mapsto> sec)) (n - 1) s3"
        "stores (data_sectors (cache_view s) ?d) s2 s3" by auto
    have "dir_add stale p t sec False s = Some (True, s3)"
      using False l(1) r d(1,2) s2(1) s3(1) by (simp add: dir_add_def)
    moreover have "stores (data_sectors (cache_view s) ?d) s s3"
      using stores_trans [OF keeps_stores [OF keeps_trans [OF l(3) s2(2)]] s3(3)] .
    ultimately show ?thesis using s3(2) False None by auto
  qed
qed

section \<open>Programs of directory operations\<close>

datatype dir_cmd = Add_name string sector | Find_name string

datatype dir_reply = Added bool | Found "sector option"

fun exec_dir :: "nat \<Rightarrow> dir_cmd \<Rightarrow> 'a filesys_scheme \<Rightarrow> (dir_reply \<times> 'a filesys_scheme) option" where
  \<comment> \<open>the name of a file; the reply to a search is the sector of the inode it opens\<close>
  "exec_dir p (Add_name t sec) s = do { (ok, s) \<leftarrow> dir_add [] p t sec False s; Some (Added ok, s) }"
| "exec_dir p (Find_name t) s = do {
     (r, s) \<leftarrow> dir_lookup p t s;
     (case r of None \<Rightarrow> Some (Found None, s)
      | Some q \<Rightarrow> do { sec \<leftarrow> inode_get_inumber q s; Some (Found (Some sec), s) })
   }"

fun exec_dirs :: "nat \<Rightarrow> dir_cmd list \<Rightarrow> 'a filesys_scheme \<Rightarrow> (dir_reply list \<times> 'a filesys_scheme) option" where
  "exec_dirs p [] s = Some ([], s)"
| "exec_dirs p (c # cs) s = do { (r, s) \<leftarrow> exec_dir p c s; (rs, s) \<leftarrow> exec_dirs p cs s; Some (r # rs, s) }"

fun abs_dir :: "sector \<Rightarrow> dir_cmd \<Rightarrow> (string \<rightharpoonup> sector) \<times> nat \<Rightarrow> (dir_reply \<times> (string \<rightharpoonup> sector) \<times> nat) option" where
  \<comment> \<open>on the names and the number of free slots; \<open>None\<close> outside the contract\<close>
  "abs_dir cap (Add_name t sec) (m, n) =
     (if name_bytes_ok t \<and> sec < cap \<and> 0 < n
      then if t \<noteq> [] \<and> length t \<le> 30 \<and> m t = None then Some (Added True, m(t \<mapsto> sec), n - 1) else Some (Added False, m, n)
      else None)"
| "abs_dir cap (Find_name t) (m, n) =
     (if name_bytes_ok t \<and> t \<noteq> ''.'' \<and> t \<noteq> ''..'' then Some (Found (m t), m, n) else None)"

fun abs_dirs :: "sector \<Rightarrow> dir_cmd list \<Rightarrow> (string \<rightharpoonup> sector) \<times> nat \<Rightarrow> (dir_reply list \<times> (string \<rightharpoonup> sector) \<times> nat) option" where
  "abs_dirs cap [] a = Some ([], a)"
| "abs_dirs cap (c # cs) a = do { (r, a) \<leftarrow> abs_dir cap c a; (rs, a) \<leftarrow> abs_dirs cap cs a; Some (r # rs, a) }"

definition only_within :: "sector set \<Rightarrow> 'a filesys_scheme \<Rightarrow> 'a filesys_scheme \<Rightarrow> bool" where
  "only_within S s s' \<longleftrightarrow> (\<forall>sec. sec \<notin> S \<longrightarrow> cache_view s' sec = cache_view s sec) \<and>
     fs_capacity s' = fs_capacity s \<and> console s' = console s"

lemma exec_dir_refines:
  assumes rep: "dir_rep p x i m n s" and a: "abs_dir (fs_capacity s) c (m, n) = Some (r, m', n')"
  shows "\<exists>s'. exec_dir p c s = Some (r, s') \<and> dir_rep p x i m' n' s' \<and>
    only_within (data_sectors (cache_view s) (in_data i)) s s'"
proof (cases c)
  case (Add_name t sec)
  then have "name_bytes_ok t" "sec < fs_capacity s" "0 < n" using a by (simp_all split: if_splits)
  from dir_add_spec [OF rep this, of "[]"] show ?thesis
    using a Add_name by (auto simp: NAME_MAX_def only_within_def stores_def split: if_splits)
next
  case (Find_name t)
  then have "name_bytes_ok t" "t \<noteq> ''.''" "t \<noteq> ''..''" and r: "r = Found (m t)" "m' = m" "n' = n"
    using a by (auto split: if_splits)
  from dir_lookup_spec [OF rep this(1-3)] obtain q s' where q: "dir_lookup p t s = Some (q, s')" "opened s s'"
    "case q of None \<Rightarrow> m t = None | Some q \<Rightarrow> \<exists>j. inode_at s' q = Some j \<and> m t = Some (in_sector j)" by blast
  then have "exec_dir p c s = Some (r, s')" using Find_name r(1) by (auto simp: inode_get_inumber_def split: option.splits)
  moreover have "only_within S s s'" for S using q(2) by (simp add: only_within_def opened_def)
  ultimately show ?thesis using dir_rep_opened [OF rep q(2)] r by auto
qed

lemma exec_dirs_refine:
  assumes "dir_rep p x i m n s" and "abs_dirs (fs_capacity s) cs (m, n) = Some (rs, m', n')"
  shows "\<exists>s'. exec_dirs p cs s = Some (rs, s') \<and> dir_rep p x i m' n' s' \<and>
    only_within (data_sectors (cache_view s) (in_data i)) s s'"
  using assms
proof (induction cs arbitrary: s m n rs)
  case Nil
  then show ?case by (simp add: only_within_def)
next
  case (Cons c cs)
  then obtain r m1 n1 rs1 where a: "abs_dir (fs_capacity s) c (m, n) = Some (r, m1, n1)"
    "abs_dirs (fs_capacity s) cs (m1, n1) = Some (rs1, m', n')" "rs = r # rs1" by (auto split: bind_splits)
  from exec_dir_refines [OF Cons.prems(1) a(1)] obtain s1 where s1: "exec_dir p c s = Some (r, s1)" "dir_rep p x i m1 n1 s1"
    "only_within (data_sectors (cache_view s) (in_data i)) s s1" by blast
  have "file_ok (cache_view s) (fs_capacity s) (in_data i)" using Cons.prems(1) by (simp add: dir_rep_def)
  have d: "data_sectors (cache_view s1) (in_data i) = data_sectors (cache_view s) (in_data i)"
    by (rule data_sectors_kept [OF \<open>file_ok _ _ _\<close>]) (use s1(3) in \<open>simp add: only_within_def\<close>)
  have "fs_capacity s1 = fs_capacity s" using s1(3) by (simp add: only_within_def)
  then have "abs_dirs (fs_capacity s1) cs (m1, n1) = Some (rs1, m', n')" using a(2) by simp
  from Cons.IH [OF s1(2) this] obtain s2 where s2: "exec_dirs p cs s1 = Some (rs1, s2)" "dir_rep p x i m' n' s2"
    "only_within (data_sectors (cache_view s) (in_data i)) s1 s2" unfolding d by blast
  have "only_within (data_sectors (cache_view s) (in_data i)) s s2" using s1(3) s2(3) unfolding only_within_def by metis
  then show ?case using s1(1) s2(1,2) a(3) by auto
qed

text \<open>
  C6: On an open directory, any sequence of additions and searches of file names answers as a map from names to
  sectors: a name is added when it is not empty, has at most 30 characters and is not there, and is found with the
  sector it was added with. Adding needs a free slot and a sector of the disk; names have no null character and are
  not those of the directory or its parent. No sector is written but those of the data of the directory, and no
  assertion fails.
\<close>

theorem directory_as_map:
  assumes "dir_rep p x i m n s" and "abs_dirs (fs_capacity s) cs (m, n) = Some (rs, m', n')"
  shows "\<exists>s'. exec_dirs p cs s = Some (rs, s') \<and> dir_rep p x i m' n' s' \<and>
    only_within (data_sectors (cache_view s) (in_data i)) s s'"
  by (rule exec_dirs_refine [OF assms])

text \<open>The directory of sector 1 with its entries in sector 2: its parent, a file \<open>a\<close> with its inode in sector 3, a free slot.\<close>

definition dir_disk :: inode_disk where
  "dir_disk = \<lparr>direct_blocks = 2 # replicate 122 0, indirect_block = 0, doubly_indirect_block = 0,
     is_dir = True, id_pad = [0, 0, 0], id_length = 108, magic = INODE_MAGIC\<rparr>"

definition dir_bytes :: bytes where
  "dir_bytes = [1, 0, 0, 0] @ replicate 31 0 @ [1] @ [3, 0, 0, 0] @ [97] @ replicate 30 0 @ [1] @ replicate 36 0"

definition dir_inode :: inode where
  "dir_inode = \<lparr>in_sector = 1, open_cnt = 1, removed = False, deny_write_cnt = 0, in_data = dir_disk\<rparr>"

definition one_dir :: filesys where
  "one_dir =
     \<lparr>console = [], hd_file = replicate 1024 0 @ dir_bytes @ replicate 916 0,
      blocks = [\<lparr>bd_name = ''hda'', bd_fname = ''disk'', bd_size = 4, bd_ops = Ide, read_cnt = 0, write_cnt = 0\<rparr>],
      hard_drive = Some 0, fs_device = Some 0,
      cache = replicate 64 \<lparr>occupied = False, disk_sector = 0, buffer = replicate 512 0, dirty = False, accessed = False\<rparr>,
      clock = 0, inode_heap = [Some dir_inode], disk_heap = [], block_stack = [], open_inodes = [0], free_map = None,
      free_map_file = None, file_heap = [], file_table = [],
      dir_heap = [Some \<lparr>d_inode = 0, d_pos = 36, d_open_cnt = 1\<rparr>], cwd = Some 0, host_files = Map.empty, host_writable = (\<lambda>_. False)\<rparr>"

lemma one_dir_cache: "cache_inv one_dir" "cache_view one_dir = disk_sector_at one_dir" "fs_capacity one_dir = 4"
proof -
  have len: "length dir_bytes = 108" by (simp add: dir_bytes_def)
  have "cache_inv (buffer_cache_init one_dir) \<and> cache_view (buffer_cache_init one_dir) = disk_sector_at one_dir"
    by (rule buffer_cache_init_spec)
      (simp_all add: one_dir_def device_ok_def raw_disk_def BUFFER_CACHE_SIZE_def BLOCK_SECTOR_SIZE_def len)
  moreover have "buffer_cache_init one_dir = one_dir" by (simp add: buffer_cache_init_def one_dir_def)
  ultimately show "cache_inv one_dir" "cache_view one_dir = disk_sector_at one_dir" by simp_all
  show "fs_capacity one_dir = 4" by (simp add: one_dir_def fs_capacity_def disk_capacity_def)
qed

lemma one_dir_content: "content (cache_view one_dir) dir_disk = dir_bytes" "file_ok v 4 dir_disk"
proof -
  have len: "length dir_bytes = 108" by (simp add: dir_bytes_def)
  have two: "disk_sector_at one_dir 2 = dir_bytes @ replicate 404 0"
    by (simp add: disk_sector_at_def one_dir_def len)
  have sec: "sector_of u dir_disk 0 = 2" for u by (simp add: sector_of_def dir_disk_def)
  show "content (cache_view one_dir) dir_disk = dir_bytes"
  proof (rule nth_equalityI)
    show "length (content (cache_view one_dir) dir_disk) = length dir_bytes" by (simp add: len) (simp add: dir_disk_def)
    fix k assume "k < length (content (cache_view one_dir) dir_disk)"
    moreover have "id_length dir_disk = 108" by (simp add: dir_disk_def)
    ultimately show "content (cache_view one_dir) dir_disk ! k = dir_bytes ! k"
      by (simp add: content_def one_dir_cache(2) sec two nth_append len)
  qed
  have n: "sectors_used dir_disk = 1" by (simp add: sectors_used_def DIV_ROUND_UP_def BLOCK_SECTOR_SIZE_def dir_disk_def)
  have "data_sectors v dir_disk = {2}" by (simp add: data_sectors_def n sec lessThan_Suc)
  moreover have "table_sectors v dir_disk 1 = {}" by (simp add: table_sectors_def)
  moreover have "inj_on (sector_of v dir_disk) {..<1}" by (simp add: lessThan_Suc)
  ultimately show "file_ok v 4 dir_disk"
    by (simp add: file_ok_def n) (simp add: dir_disk_def)
qed

lemma one_dir_rep: "dir_rep 0 \<lparr>d_inode = 0, d_pos = 36, d_open_cnt = 1\<rparr> dir_inode [''a'' \<mapsto> 3] 1 one_dir"
proof -
  let ?v = "cache_view one_dir" let ?d = dir_disk
  have cnt: "entry_cnt ?d = 3" by (simp add: entry_cnt_def dir_disk_def)
  have e: "entry_at ?v ?d 0 = \<lparr>inode_sector = 1, e_name = replicate 31 0, in_use = True\<rparr>"
    "entry_at ?v ?d 1 = \<lparr>inode_sector = 3, e_name = 97 # replicate 30 0, in_use = True\<rparr>"
    "entry_at ?v ?d 2 = \<lparr>inode_sector = 0, e_name = replicate 31 0, in_use = False\<rparr>"
    unfolding entry_at_def one_dir_content(1) by code_simp+
  have es: "dir_entries ?v ?d = [\<lparr>inode_sector = 3, e_name = 97 # replicate 30 0, in_use = True\<rparr>,
      \<lparr>inode_sector = 0, e_name = replicate 31 0, in_use = False\<rparr>]"
    by (simp add: dir_entries_def cnt upt_rec e(2) [simplified] e(3) [unfolded numeral_2_eq_2])
  have "c_string (97 # replicate 30 0) = Some ''a''" by code_simp
  then have "dir_names ?v ?d = [''a'' \<mapsto> 3]" by (auto simp: dir_names_def es named_def fun_eq_iff)
  moreover have "free_slots ?v ?d = 1" "dir_ok ?v ?d" by (auto simp: free_slots_def es dir_ok_def cnt e names_unique_def less_Suc_eq)
  ultimately show ?thesis using one_dir_cache one_dir_content(2) [of ?v]
    by (simp add: dir_rep_def dir_inode_def inodes_listed_def)
      (simp add: one_dir_def dir_at_def inode_at_def rd_def dir_inode_def)
qed

theorem directory_as_map_witness:
  "\<exists>s'. exec_dirs 0 [Find_name ''b'', Add_name ''a'' 2, Add_name ''b'' 1, Find_name ''b'', Find_name ''a''] one_dir =
    Some ([Found None, Added False, Added True, Found (Some 1), Found (Some 3)], s') \<and> console s' = []"
proof -
  have "abs_dirs 4 [Find_name ''b'', Add_name ''a'' 2, Add_name ''b'' 1, Find_name ''b'', Find_name ''a''] ([''a'' \<mapsto> 3], 1) =
    Some ([Found None, Added False, Added True, Found (Some 1), Found (Some 3)], [''a'' \<mapsto> 3, ''b'' \<mapsto> 1], 0)"
    by (simp add: name_bytes_ok_def)
  then obtain s' where "exec_dirs 0 [Find_name ''b'', Add_name ''a'' 2, Add_name ''b'' 1, Find_name ''b'', Find_name ''a''] one_dir =
      Some ([Found None, Added False, Added True, Found (Some 1), Found (Some 3)], s')"
    "only_within (data_sectors (cache_view one_dir) (in_data dir_inode)) one_dir s'"
    using directory_as_map [OF one_dir_rep] unfolding one_dir_cache(3) by blast
  moreover have "console one_dir = []" by (simp add: one_dir_def)
  ultimately show ?thesis by (auto simp: only_within_def)
qed

end
