(* ===== verification/Free_Map.thy ===== *)
theory Free_Map
  imports File_Content
begin

text \<open>
  The free map of a mounted file system: a bitmap in memory, saved in a file whose own sectors it marks as used.
  An allocation takes the first free sector, marks it and saves the map, and changes nothing else.
\<close>

section \<open>The invariant\<close>

definition taken :: "bitmap \<Rightarrow> sector \<Rightarrow> bool" where
  "taken b sec \<longleftrightarrow> unat sec < bit_cnt b \<and> bits_of b ! unat sec"

definition all_sectors :: "(sector \<Rightarrow> bytes) \<Rightarrow> inode_disk \<Rightarrow> sector set" where
  "all_sectors v d = data_sectors v d \<union> table_sectors v d (sectors_used d)"

definition map_inode :: "'a files_scheme \<Rightarrow> (nat \<times> inode) option" where
  \<comment> \<open>the inode of the free map file, when the file is open\<close>
  "map_inode s = do {
     f \<leftarrow> free_map_file s;
     x \<leftarrow> file_at s f;
     i \<leftarrow> inode_at s (f_inode x);
     Some (f_inode x, i)
   }"

definition map_sectors :: "'a files_scheme \<Rightarrow> sector set" where
  \<comment> \<open>the sectors the saved map lies in\<close>
  "map_sectors s = (case map_inode s of None \<Rightarrow> {} | Some (p, i) \<Rightarrow> data_sectors (cache_view s) (in_data i))"

definition map_all :: "'a files_scheme \<Rightarrow> sector set" where
  \<comment> \<open>with the block tables of its file\<close>
  "map_all s = (case map_inode s of None \<Rightarrow> {} | Some (p, i) \<Rightarrow> all_sectors (cache_view s) (in_data i))"

lemma map_sectors_all: "map_sectors s \<subseteq> map_all s"
  by (auto simp: map_sectors_def map_all_def all_sectors_def split: option.split)

definition map_file_ok :: "bitmap \<Rightarrow> 'a files_scheme \<Rightarrow> bool" where
  "map_file_ok b s \<longleftrightarrow> (free_map_file s \<noteq> None \<longrightarrow> (\<exists>p i. map_inode s = Some (p, i) \<and> deny_write_cnt i = 0 \<and>
     file_ok (cache_view s) (fs_capacity s) (in_data i) \<and> id_length (in_data i) = int (byte_cnt (bit_cnt b)) \<and>
     (\<forall>t \<in> all_sectors (cache_view s) (in_data i). taken b t)))"

definition map_ok :: "bitmap \<Rightarrow> 'a files_scheme \<Rightarrow> bool" where
  "map_ok b s \<longleftrightarrow> cache_inv s \<and> free_map s = Some b \<and> wf_bitmap b \<and> bit_cnt b \<le> unat (fs_capacity s) \<and>
     bit_cnt b < BITMAP_ERROR \<and> map_file_ok b s"

lemma file_ok_unchanged:
  assumes "stores S s s'" and "S \<inter> all_sectors (cache_view s) d = {}" and "file_ok (cache_view s) cap d"
  shows "file_ok (cache_view s') cap d" and "all_sectors (cache_view s') d = all_sectors (cache_view s) d"
    and "data_sectors (cache_view s') d = data_sectors (cache_view s) d"
    and "content (cache_view s') d = content (cache_view s) d"
proof -
  have len: "0 \<le> id_length d" using assms(3) by (simp add: file_ok_def)
  note u = content_unchanged [OF assms(1) _ len, folded all_sectors_def, OF assms(2)]
  show "content (cache_view s') d = content (cache_view s) d" by (rule u(1))
  show ds: "data_sectors (cache_view s') d = data_sectors (cache_view s) d" by (rule u(2))
  show "all_sectors (cache_view s') d = all_sectors (cache_view s) d" using u by (simp add: all_sectors_def)
  have "\<forall>t \<in> table_sectors (cache_view s) d (sectors_used d). cache_view s' t = cache_view s t"
    using assms(1,2) by (auto simp: stores_def all_sectors_def)
  from table_sectors_cong(1) [OF this]
  have "inj_on (sector_of (cache_view s') d) {..<sectors_used d} = inj_on (sector_of (cache_view s) d) {..<sectors_used d}"
    by (intro inj_on_cong) auto
  then show "file_ok (cache_view s') cap d" using assms(3) u by (simp add: file_ok_def)
qed

text \<open>The first free bit.\<close>

definition first_free :: "bitmap \<Rightarrow> nat option" where
  "first_free b = first_run (bits_of b) 0 1 False"

lemma first_free_Some: "first_free b = Some k \<Longrightarrow> k < bit_cnt b \<and> \<not> bits_of b ! k \<and> (\<forall>j < k. bits_of b ! j)"
  using first_run_Some [of "bits_of b" 0 1 False k] first_run_bound [of "bits_of b" 0 1 False k]
  by (auto simp: first_free_def run_at_def)

lemma first_free_exists: "\<exists>k < bit_cnt b. \<not> bits_of b ! k \<Longrightarrow> \<exists>k. first_free b = Some k"
proof (rule ccontr)
  assume "\<exists>k < bit_cnt b. \<not> bits_of b ! k" and "\<nexists>k. first_free b = Some k"
  then obtain k where "k < bit_cnt b" "\<not> bits_of b ! k" "first_free b = None" by auto
  then show False using first_run_None [of "bits_of b" 0 1 False k] by (simp add: first_free_def run_at_def)
qed

lemma fill_one: "k < length xs \<Longrightarrow> fill xs k 1 v = xs[k := v]"
  by (rule nth_equalityI) (auto simp: nth_fill nth_list_update)

section \<open>Saving the map\<close>

lemma map_inode_more:
  "cached.more s' = cached.more s \<Longrightarrow> map_inode s' = map_inode s"
  using same_files(6) [of s' s] same_file_at [of s' s] same_inode_at [of s' s] by (simp add: map_inode_def)

lemma map_inode_free_map [simp]: "map_inode (s\<lparr>free_map := m\<rparr>) = map_inode s"
  by (simp add: map_inode_def file_at_def inode_at_def)

lemma map_sectors_free_map [simp]: "map_sectors (s\<lparr>free_map := m\<rparr>) = map_sectors s"
  by (simp add: map_sectors_def split: option.split)

lemma map_all_free_map [simp]: "map_all (s\<lparr>free_map := m\<rparr>) = map_all s"
  by (simp add: map_all_def split: option.split)

lemma length_bitmap_bytes: "wf_bitmap b \<Longrightarrow> length (bytes_of_words 8 (bits b)) = byte_cnt (bit_cnt b)"
  by (simp add: wf_bitmap_def byte_cnt_def)

lemma bitmap_write_spec:
  assumes inv: "cache_inv s" and b: "free_map s = Some b" and wf: "wf_bitmap b" and pos: "0 < bit_cnt b"
    and f: "free_map_file s = Some f" and m: "map_file_ok b s"
  shows "\<exists>s'. bitmap_write alloc (Some f) s = Some (True, s') \<and> stores (map_sectors s) s s' \<and> map_file_ok b s' \<and>
    map_sectors s' = map_sectors s \<and> map_all s' = map_all s \<and>
    (\<forall>p i. map_inode s = Some (p, i) \<longrightarrow> content (cache_view s') (in_data i) = bytes_of_words 8 (bits b))"
proof -
  obtain p i where i: "map_inode s = Some (p, i)" "deny_write_cnt i = 0"
      "file_ok (cache_view s) (fs_capacity s) (in_data i)" "id_length (in_data i) = int (byte_cnt (bit_cnt b))"
      "\<forall>t \<in> all_sectors (cache_view s) (in_data i). taken b t"
    using m f by (auto simp: map_file_ok_def)
  obtain x where x: "file_at s f = Some x" "f_inode x = p" "inode_at s p = Some i"
    using i(1) f by (auto simp: map_inode_def split: bind_splits)
  let ?img = "bytes_of_words 8 (bits b)"
  have len: "length ?img = byte_cnt (bit_cnt b)" by (rule length_bitmap_bytes [OF wf])
  have n: "0 < int (byte_cnt (bit_cnt b))" using pos by (simp add: byte_cnt_def elem_cnt_def DIV_ROUND_UP_def ELEM_BITS_def)
  have buf: "bitmap_bytes s' = Some ?img" if "keeps s s'" for s'
  proof -
    have "cached.more s' = cached.more s" using that by (simp add: keeps_def)
    from same_files(5) [OF this] show ?thesis using b by (simp add: bitmap_bytes_def)
  qed
  have "0 + int (byte_cnt (bit_cnt b)) \<le> id_length (in_data i)" using i(4) by simp
  from inode_write_at_spec [where alloc = alloc and buf = bitmap_bytes, OF inv x(3) i(3,2) _ n this buf] len
  obtain s' where s': "inode_write_at alloc p bitmap_bytes (int (byte_cnt (bit_cnt b))) 0 s = Some (int (byte_cnt (bit_cnt b)), s')"
      "stores (data_sectors (cache_view s) (in_data i)) s s'" "file_ok (cache_view s') (fs_capacity s) (in_data i)"
      "content (cache_view s') (in_data i) = overlay 0 ?img (content (cache_view s) (in_data i))"
    by auto
  have ms: "map_sectors s = data_sectors (cache_view s) (in_data i)" by (simp add: map_sectors_def i(1))
  have more: "map_inode s' = map_inode s" by (rule map_inode_more [OF stores_more [OF s'(2)]])
  have tab: "\<forall>t \<in> table_sectors (cache_view s) (in_data i) (sectors_used (in_data i)). cache_view s' t = cache_view s t"
    using s'(2) i(3) by (auto simp: stores_def file_ok_def)
  have "sector_of (cache_view s') (in_data i) k = sector_of (cache_view s) (in_data i) k" if "k < sectors_used (in_data i)" for k
    by (rule table_sectors_cong(1) [OF tab that])
  then have ds: "data_sectors (cache_view s') (in_data i) = data_sectors (cache_view s) (in_data i)"
    unfolding data_sectors_def by (intro image_cong) auto
  have as: "all_sectors (cache_view s') (in_data i) = all_sectors (cache_view s) (in_data i)"
    using ds table_sectors_cong(2) [OF tab] by (simp add: all_sectors_def)
  have "map_file_ok b s'"
    using more i s'(2,3) as by (auto simp: map_file_ok_def stores_def)
  moreover have "overlay 0 ?img (content (cache_view s) (in_data i)) = ?img"
    using len i(4) by (simp add: overlay_def)
  moreover have "map_sectors s' = map_sectors s" "map_all s' = map_all s"
    using more i(1) ds as by (simp_all add: map_sectors_def map_all_def)
  moreover have "bitmap_write alloc (Some f) s = Some (True, s')"
    using b x s'(1) by (simp add: bitmap_write_def file_write_at_def)
  ultimately show ?thesis using s'(2,4) ms i(1) by auto
qed

section \<open>Allocation\<close>

definition map_saved :: "bitmap \<Rightarrow> 'a files_scheme \<Rightarrow> bool" where
  "map_saved b s \<longleftrightarrow> (\<forall>p i. map_inode s = Some (p, i) \<longrightarrow>
     content (cache_view s) (in_data i) = bytes_of_words 8 (bits b))"

lemma map_file_ok_cong:
  "map_file_ok b s \<Longrightarrow> bit_cnt b' = bit_cnt b \<Longrightarrow>
   (\<And>p i t. map_inode s = Some (p, i) \<Longrightarrow> t \<in> all_sectors (cache_view s) (in_data i) \<Longrightarrow> taken b t \<Longrightarrow> taken b' t) \<Longrightarrow>
   map_file_ok b' (s\<lparr>free_map := m\<rparr>)"
  by (auto simp: map_file_ok_def)

lemma taken_set: "bits_of b' = (bits_of b)[k := v] \<Longrightarrow> bit_cnt b' = bit_cnt b \<Longrightarrow>
   taken b' t = (if unat t = k then unat t < bit_cnt b \<and> v else taken b t)"
  by (auto simp: taken_def simp del: nth_bits_of)

lemma map_okD:
  assumes "map_ok b s"
  shows "cache_inv s" and "free_map s = Some b" and "wf_bitmap b" and "bit_cnt b \<le> unat (fs_capacity s)"
    and "bit_cnt b < BITMAP_ERROR" and "map_file_ok b s"
  using assms by (simp_all add: map_ok_def)

lemma save_map:
  \<comment> \<open>the map in memory changes to \<open>b'\<close>, then it is written if its file is open\<close>
  assumes m: "map_ok b s" and wf: "wf_bitmap b'" and cnt: "bit_cnt b' = bit_cnt b" "0 < bit_cnt b"
    and keep: "\<And>p i t. map_inode s = Some (p, i) \<Longrightarrow> t \<in> all_sectors (cache_view s) (in_data i) \<Longrightarrow> taken b t \<Longrightarrow> taken b' t"
  shows "\<exists>s'. (if free_map_file s = None then s' = s\<lparr>free_map := Some b'\<rparr>
       else bitmap_write alloc (free_map_file s) (s\<lparr>free_map := Some b'\<rparr>) = Some (True, s')) \<and>
     stores (map_sectors s) (s\<lparr>free_map := Some b'\<rparr>) s' \<and> map_ok b' s' \<and> map_sectors s' = map_sectors s \<and> map_all s' = map_all s \<and> map_saved b' s'"
proof -
  let ?s = "s\<lparr>free_map := Some b'\<rparr>"
  have inv: "cache_inv ?s" and mf: "map_file_ok b' ?s"
    using map_okD [OF m] map_file_ok_cong [OF map_okD(6) [OF m] cnt(1) keep] by simp_all
  show ?thesis
  proof (cases "free_map_file s")
    case None
    then have "map_inode s = None" by (simp add: map_inode_def)
    then show ?thesis
      using None inv mf m wf cnt keeps_stores [OF keeps_refl [OF inv]]
      by (intro exI [of _ ?s]) (simp add: map_ok_def map_saved_def)
  next
    case (Some f)
    have "free_map_file ?s = Some f" "free_map ?s = Some b'" "0 < bit_cnt b'" using Some cnt by simp_all
    from bitmap_write_spec [where alloc = alloc, OF inv this(2) wf this(3,1) mf] obtain s' where
      s': "bitmap_write alloc (Some f) ?s = Some (True, s')" "stores (map_sectors s) ?s s'" "map_file_ok b' s'"
        "map_sectors s' = map_sectors s" "map_all s' = map_all s"
        "\<forall>p i. map_inode s = Some (p, i) \<longrightarrow> content (cache_view s') (in_data i) = bytes_of_words 8 (bits b')"
      by auto
    have "map_inode s' = map_inode s" "free_map s' = Some b'"
      using map_inode_more [OF stores_more [OF s'(2)]] same_files(5) [OF stores_more [OF s'(2)]] by simp_all
    then show ?thesis
      using Some s' m wf cnt by (intro exI [of _ s']) (simp add: map_ok_def map_saved_def stores_def)
  qed
qed

lemma allocate_spec:
  assumes m: "map_ok b s" and k: "first_free b = Some k"
  shows "\<exists>b' s'. free_map_allocate 1 s = Some (Some (of_nat k), s') \<and> bits_of b' = (bits_of b)[k := True] \<and>
    bit_cnt b' = bit_cnt b \<and> map_ok b' s' \<and> stores (map_sectors s) (s\<lparr>free_map := Some b'\<rparr>) s' \<and>
    map_sectors s' = map_sectors s \<and> map_all s' = map_all s \<and> map_saved b' s'"
proof -
  have kb: "k < bit_cnt b" "\<not> bits_of b ! k" using first_free_Some [OF k] by simp_all
  obtain b' where b': "bitmap_scan_and_flip b 0 1 False s = Some ((k, b'), s)" "wf_bitmap b'" "bit_cnt b' = bit_cnt b"
      "bits_of b' = (bits_of b)[k := True]"
    using bitmap_scan_and_flip_found [OF map_okD(3) [OF m] _ map_okD(5) [OF m], of 0 1 False k s] k kb fill_one [of k "bits_of b"]
    by (auto simp: first_free_def)
  have "k \<noteq> BITMAP_ERROR" "k < 2 ^ 32" "BITMAP_ERROR < 2 ^ 32"
    using kb map_okD(5) [OF m] by (simp_all add: BITMAP_ERROR_def)
  then have ne: "(of_nat k :: sector) \<noteq> of_nat BITMAP_ERROR"
    by (simp add: word_of_nat_eq_iff take_bit_nat_eq_self)
  have keep: "taken b' t" if "taken b t" for t using that kb(1) by (simp add: taken_set [OF b'(4,3)])
  obtain s' where s': "if free_map_file s = None then s' = s\<lparr>free_map := Some b'\<rparr>
       else bitmap_write (allocate_nested (bit_cnt b + 1) 1) (free_map_file s) (s\<lparr>free_map := Some b'\<rparr>) = Some (True, s')"
      "stores (map_sectors s) (s\<lparr>free_map := Some b'\<rparr>) s'" "map_ok b' s'" "map_sectors s' = map_sectors s"
      "map_all s' = map_all s" "map_saved b' s'"
    using save_map [where alloc = "allocate_nested (bit_cnt b + 1) 1", OF m b'(2,3) _ keep] kb by fastforce
  have "nesting s = Suc (bit_cnt b + 1)" using map_okD(2) [OF m] by (simp add: nesting_def)
  then have "free_map_allocate 1 s = Some (Some (of_nat k), s')"
    using map_okD(2) [OF m] b'(1) ne s'(1) by (auto simp: free_map_allocate_def split: if_splits)
  then show ?thesis using b' s' by blast
qed

lemma allocate_full:
  assumes m: "map_ok b s" and k: "first_free b = None"
  shows "free_map_allocate 1 s = Some (None, s)"
proof -
  have "bitmap_scan_and_flip b 0 1 False s = Some ((BITMAP_ERROR, b), s)"
    using bitmap_scan_and_flip_none [OF map_okD(3) [OF m], of 0 1 False s] k by (simp add: first_free_def)
  moreover have "s\<lparr>free_map := Some b\<rparr> = s" using map_okD(2) [OF m] by (cases s) simp
  moreover have "nesting s = Suc (bit_cnt b + 1)" using map_okD(2) [OF m] by (simp add: nesting_def)
  ultimately show ?thesis using map_okD(2) [OF m] by (simp add: free_map_allocate_def)
qed

section \<open>Release\<close>

lemma release_spec:
  assumes m: "map_ok b s" and t: "taken b sec" and f: "free_map_file s \<noteq> None"
    and own: "\<And>p i. map_inode s = Some (p, i) \<Longrightarrow> sec \<notin> all_sectors (cache_view s) (in_data i)"
  shows "\<exists>b' s'. free_map_release sec 1 s = Some s' \<and> bits_of b' = (bits_of b)[unat sec := False] \<and>
    bit_cnt b' = bit_cnt b \<and> map_ok b' s' \<and> stores (map_sectors s) (s\<lparr>free_map := Some b'\<rparr>) s' \<and>
    map_sectors s' = map_sectors s \<and> map_all s' = map_all s \<and> map_saved b' s'"
proof -
  have kb: "unat sec < bit_cnt b" "bits_of b ! unat sec" using t by (simp_all add: taken_def)
  then have in1: "unat sec + 1 \<le> bit_cnt b" by simp
  obtain b' where b': "bitmap_set_multiple b (unat sec) 1 False s = Some (b', s)" "wf_bitmap b'" "bit_cnt b' = bit_cnt b"
      "bits_of b' = (bits_of b)[unat sec := False]"
    using bitmap_set_multiple_spec [OF map_okD(3) [OF m] in1, of False s] fill_one [of "unat sec" "bits_of b"] kb by auto
  have all: "bitmap_all b (unat sec) 1 s = Some (True, s)"
    using bitmap_all_spec [OF map_okD(3) [OF m] in1, of s] kb(2) by (simp del: nth_bits_of)
  have keep: "taken b' x" if "map_inode s = Some (p, i)" "x \<in> all_sectors (cache_view s) (in_data i)" "taken b x" for p i x
  proof -
    have "x \<noteq> sec" using that(2) own [OF that(1)] by auto
    then have "unat x \<noteq> unat sec" by (metis word_unat_eq_iff)
    then show ?thesis using that(3) by (simp add: taken_set [OF b'(4,3)])
  qed
  obtain s' where s': "if free_map_file s = None then s' = s\<lparr>free_map := Some b'\<rparr>
       else bitmap_write (free_map_allocate 1) (free_map_file s) (s\<lparr>free_map := Some b'\<rparr>) = Some (True, s')"
      "stores (map_sectors s) (s\<lparr>free_map := Some b'\<rparr>) s'" "map_ok b' s'" "map_sectors s' = map_sectors s"
      "map_all s' = map_all s" "map_saved b' s'"
    using save_map [where alloc = "free_map_allocate 1", OF m b'(2,3) _ keep] kb by fastforce
  have "free_map_release sec 1 s = Some s'"
    using map_okD(2) [OF m] all b'(1) s'(1) f by (simp add: free_map_release_def split: if_splits)
  then show ?thesis using b' s' by blast
qed

end
