(* ===== verification/File_Growth.thy ===== *)
theory File_Growth
  imports Free_Map
begin

text \<open>
  Growth of files that need no block tables: the sectors a write beyond the end reserves are free before, marked
  after, and belong to no other file; the old content stays.
\<close>

section \<open>A mounted file system\<close>

definition mounted :: "bitmap \<Rightarrow> 'a files_scheme \<Rightarrow> bool" where
  "mounted b s \<longleftrightarrow> map_ok b s \<and> map_saved b s \<and> taken b FREE_MAP_SECTOR"

lemma map_all_taken:
  assumes "map_ok b s" and "t \<in> map_all s"
  shows "taken b t"
proof -
  obtain p i where pi: "map_inode s = Some (p, i)" "t \<in> all_sectors (cache_view s) (in_data i)"
    using assms(2) by (auto simp: map_all_def split: option.splits)
  then have "free_map_file s \<noteq> None" by (auto simp: map_inode_def split: bind_splits)
  then show ?thesis using map_okD(6) [OF assms(1)] pi by (auto simp: map_file_ok_def)
qed

lemma mounted_stores:
  assumes m: "mounted b s" and st: "stores S s s'" and apart: "S \<inter> map_all s = {}"
  shows "mounted b s'" and "map_all s' = map_all s"
proof -
  have more: "map_inode s' = map_inode s" "free_map_file s' = free_map_file s" "free_map s' = free_map s"
    using map_inode_more [OF stores_more [OF st]] same_files(5,6) [OF stores_more [OF st]] by simp_all
  have ok: "map_ok b s" using m by (simp add: mounted_def)
  have one: "file_ok (cache_view s') (fs_capacity s) (in_data i) \<and> all_sectors (cache_view s') (in_data i) = all_sectors (cache_view s) (in_data i) \<and>
      content (cache_view s') (in_data i) = content (cache_view s) (in_data i)"
    if i: "map_inode s = Some (p, i)" for p i
  proof -
    have "free_map_file s \<noteq> None" using i by (auto simp: map_inode_def split: bind_splits)
    then have f: "file_ok (cache_view s) (fs_capacity s) (in_data i)"
      using map_okD(6) [OF ok] i by (auto simp: map_file_ok_def)
    have "S \<inter> all_sectors (cache_view s) (in_data i) = {}" using apart i by (simp add: map_all_def)
    from file_ok_unchanged [OF st this f] show ?thesis by simp
  qed
  show "map_all s' = map_all s"
    using one more(1) by (auto simp: map_all_def split: option.split)
  show "mounted b s'"
    using m more st one by (simp add: mounted_def map_ok_def map_file_ok_def map_saved_def stores_def) blast
qed

definition inode_key :: "inode \<Rightarrow> sector \<times> int \<times> bool \<times> int" where
  \<comment> \<open>all of an inode but its data\<close>
  "inode_key i = (in_sector i, open_cnt i, removed i, deny_write_cnt i)"

text \<open>What an operation that allocates for the inode behind \<open>r\<close> may change.\<close>

definition extends :: "disk_ref \<Rightarrow> bitmap \<Rightarrow> 'a files_scheme \<Rightarrow> bitmap \<Rightarrow> 'a files_scheme \<Rightarrow> bool" where
  "extends r b s b' s' \<longleftrightarrow> mounted b' s' \<and> bit_cnt b' = bit_cnt b \<and> (\<forall>t. taken b t \<longrightarrow> taken b' t) \<and>
     map_all s' = map_all s \<and> (\<forall>t. taken b t \<and> t \<notin> map_all s \<longrightarrow> cache_view s' t = cache_view s t) \<and>
     fs_capacity s' = fs_capacity s \<and> fs_device s' = fs_device s \<and> console s' = console s \<and>
     open_inodes s' = open_inodes s \<and> free_map_file s' = free_map_file s \<and> file_heap s' = file_heap s \<and>
     file_table s' = file_table s \<and> block_stack s' = block_stack s \<and> files.more s' = files.more s \<and>
     (\<forall>p. r \<noteq> Data_of p \<longrightarrow> inode_at s' p = inode_at s p) \<and>
     (\<forall>p. map_option inode_key (inode_at s' p) = map_option inode_key (inode_at s p)) \<and>
     length (disk_heap s') = length (disk_heap s) \<and> (\<forall>q. r \<noteq> Own q \<longrightarrow> rd (disk_heap s') q = rd (disk_heap s) q)"

lemma extends_refl: "mounted b s \<Longrightarrow> extends r b s b s"
  by (auto simp: extends_def)

lemma extends_trans:
  assumes "extends r b s b1 s1" and "extends r b1 s1 b2 s2"
  shows "extends r b s b2 s2"
  using assms unfolding extends_def by simp

lemma extends_stores:
  assumes m: "mounted b s" and st: "stores S s s'" and free: "\<And>t. t \<in> S \<Longrightarrow> t \<notin> map_all s"
    and new: "\<And>t. t \<in> S \<Longrightarrow> \<not> taken b t"
  shows "extends r b s b s'"
proof -
  have apart: "S \<inter> map_all s = {}" using free by auto
  note same = same_files [OF stores_more [OF st]]
  have "inode_at s' p = inode_at s p" for p by (rule same_inode_at [OF stores_more [OF st]])
  moreover have "\<forall>t. taken b t \<longrightarrow> cache_view s' t = cache_view s t"
    using st new by (auto simp: stores_def)
  ultimately show ?thesis
    using mounted_stores [OF m st apart] st same unfolding extends_def stores_def by auto
qed

lemma mounted_cong:
  assumes "cache_inv s' = cache_inv s" and "cache_view s' = cache_view s" and "fs_capacity s' = fs_capacity s"
    and "free_map s' = free_map s" and "free_map_file s' = free_map_file s" and "map_inode s' = map_inode s"
  shows "mounted b s' = mounted b s" and "map_all s' = map_all s"
  using assms by (simp_all add: mounted_def map_ok_def map_file_ok_def map_saved_def map_all_def split: option.split)

definition map_elsewhere :: "disk_ref \<Rightarrow> 'a files_scheme \<Rightarrow> bool" where
  \<comment> \<open>\<open>r\<close> is not the inode of the free map file\<close>
  "map_elsewhere r s \<longleftrightarrow> (\<forall>f x. free_map_file s = Some f \<and> file_at s f = Some x \<longrightarrow> r \<noteq> Data_of (f_inode x))"

lemma put_disk_spec:
  assumes m: "mounted b s" and d: "disk_at s r = Some d" and e: "map_elsewhere r s"
  shows "\<exists>s'. put_disk r d' s = Some s' \<and> extends r b s b s' \<and> disk_at s' r = Some d' \<and> cache_view s' = cache_view s"
proof (cases r)
  case (Data_of p)
  then obtain i where i: "inode_at s p = Some i" using d by (auto simp: disk_at_def)
  let ?s' = "put_inode p (i\<lparr>in_data := d'\<rparr>) s"
  have at: "inode_at ?s' q = (if q = p then Some (i\<lparr>in_data := d'\<rparr>) else inode_at s q)" for q
    by (rule inode_at_put_inode [OF i])
  have other: "free_map_file ?s' = free_map_file s" "free_map ?s' = free_map s" "disk_heap ?s' = disk_heap s"
      "open_inodes ?s' = open_inodes s" "file_heap ?s' = file_heap s" "block_stack ?s' = block_stack s"
      "files.more ?s' = files.more s" "fs_device ?s' = fs_device s"
    by (simp_all add: put_inode_def)
  have "map_inode ?s' = map_inode s"
    using e Data_of at other by (auto simp: map_inode_def map_elsewhere_def split: bind_splits intro!: Option.bind_cong)
  then have "mounted b ?s'" "map_all ?s' = map_all s" using mounted_cong [of ?s' s] m other by simp_all
  then have "extends r b s b ?s'"
    using at other i Data_of by (auto simp: extends_def inode_key_def)
  then show ?thesis using Data_of i at by (auto simp: put_disk_def disk_at_def)
next
  case (Own q)
  then have q: "q < length (disk_heap s)" using d by (auto simp: disk_at_def rd_def split: if_splits)
  let ?s' = "s\<lparr>disk_heap := (disk_heap s)[q := Some d']\<rparr>"
  have c: "cache_inv ?s' = cache_inv s" "cache_view ?s' = cache_view s" "fs_capacity ?s' = fs_capacity s"
    by (rule same_cache; simp)+
  have "map_inode ?s' = map_inode s" by (simp add: map_inode_def file_at_def inode_at_def)
  then have "mounted b ?s'" "map_all ?s' = map_all s" using mounted_cong [of ?s' s] m c by simp_all
  then have "extends r b s b ?s'"
    using Own c by (auto simp: extends_def inode_at_def rd_def)
  moreover have "disk_at ?s' r = Some d'" using Own q by (simp add: disk_at_def)
  ultimately show ?thesis using Own q c by (simp add: put_disk_def)
qed

section \<open>Direct blocks\<close>

definition free_count :: "bitmap \<Rightarrow> nat" where
  "free_count b = count_bits False (bits_of b)"

lemma free_count_pos: "0 < free_count b \<Longrightarrow> \<exists>k. first_free b = Some k"
proof (rule first_free_exists)
  assume "0 < free_count b"
  then have "0 < card {i. i < length (bits_of b) \<and> bits_of b ! i = False}"
    by (simp only: free_count_def count_bits_card)
  then have "{i. i < length (bits_of b) \<and> bits_of b ! i = False} \<noteq> {}" using card_gt_0_iff by blast
  then show "\<exists>k < bit_cnt b. \<not> bits_of b ! k" by auto
qed

lemma free_count_mark:
  assumes k: "k < bit_cnt b" "\<not> bits_of b ! k" and "bits_of b' = (bits_of b)[k := True]"
  shows "free_count b = Suc (free_count b')"
proof -
  have "run_at (bits_of b) k 1 False" using k by (simp add: run_at_def del: nth_bits_of)
  from count_bits_take_run [OF this] show ?thesis
    using fill_one [of k "bits_of b" True] k assms(3) by (simp add: free_count_def)
qed

lemma free_count_alloc: "first_free b = Some k \<Longrightarrow> bits_of b' = (bits_of b)[k := True] \<Longrightarrow> free_count b = Suc (free_count b')"
  using first_free_Some free_count_mark by blast

lemma free_count_release:
  assumes "k < bit_cnt b" and "bits_of b ! k" and "bits_of b' = (bits_of b)[k := False]" and "bit_cnt b' = bit_cnt b"
  shows "free_count b' = Suc (free_count b)"
proof (rule free_count_mark)
  show "k < bit_cnt b'" "\<not> bits_of b' ! k" using assms by (simp_all del: nth_bits_of)
  show "bits_of b = (bits_of b')[k := True]" using assms(2,3) list_update_id [of "bits_of b" k] by (simp del: nth_bits_of)
qed

lemma taken_in:
  assumes "map_ok b s" and "taken b t"
  shows "t < fs_capacity s"
  using assms by (simp add: taken_def map_ok_def word_less_nat_alt)

lemma map_inode_elsewhere: "map_elsewhere r s \<Longrightarrow> free_map_file s' = free_map_file s \<Longrightarrow> file_heap s' = file_heap s \<Longrightarrow> map_elsewhere r s'"
  by (simp add: map_elsewhere_def file_at_def)

text \<open>One allocation: the sector is free, then taken.\<close>

lemma allocate_free_one:
  assumes m: "mounted b s" and fc: "0 < free_count b"
  shows "\<exists>b' x s'. free_map_allocate 1 s = Some (Some x, s') \<and> extends r b s b' s' \<and> \<not> taken b x \<and> taken b' x \<and> x \<noteq> 0 \<and>
    free_count b = Suc (free_count b') \<and> inode_heap s' = inode_heap s \<and> disk_heap s' = disk_heap s"
proof -
  have ok: "map_ok b s" and zero: "taken b 0" using m by (simp_all add: mounted_def FREE_MAP_SECTOR_def)
  obtain k where k: "first_free b = Some k" using free_count_pos [OF fc] by blast
  have kb: "k < bit_cnt b" "\<not> bits_of b ! k" using first_free_Some [OF k] by simp_all
  obtain b' s' where s': "free_map_allocate 1 s = Some (Some (of_nat k), s')" "bits_of b' = (bits_of b)[k := True]"
      "bit_cnt b' = bit_cnt b" "map_ok b' s'" "stores (map_sectors s) (s\<lparr>free_map := Some b'\<rparr>) s'"
      "map_all s' = map_all s" "map_saved b' s'"
    using allocate_spec [OF ok k] by blast
  let ?x = "of_nat k :: sector"
  have "k < 2 ^ 32" using kb map_okD(5) [OF ok] by (simp add: BITMAP_ERROR_def)
  then have ux: "unat ?x = k" by (simp add: unat_of_nat take_bit_nat_eq_self)
  have tk: "taken b' t \<longleftrightarrow> taken b t \<or> t = ?x" for t
    using taken_set [OF s'(2,3), of t] ux kb(1) by (metis taken_def word_unat_eq_iff)
  have nx: "\<not> taken b ?x" using kb ux by (simp add: taken_def)
  have "mounted b' s'" using s' m tk by (simp add: mounted_def)
  moreover note same = same_files [OF stores_more [OF s'(5)]] and at = same_inode_at [OF stores_more [OF s'(5)]]
  ultimately have "extends r b s b' s'"
    using s' tk map_sectors_all [of s] unfolding extends_def by (auto simp: stores_def inode_at_def)
  moreover have "?x \<noteq> 0" using nx zero by auto
  moreover have "inode_heap s' = inode_heap s" "disk_heap s' = disk_heap s" using same by simp_all
  ultimately show ?thesis using s'(1) nx tk free_count_alloc [OF k s'(2)] by (intro exI [of _ b'] exI [of _ ?x] exI [of _ s']) simp
qed

text \<open>A sector for an entry of an inode; it is filled with zeros.\<close>

lemma reserve_one:
  assumes m: "mounted b s" and d: "disk_at s r = Some d" and e: "map_elsewhere r s" and fc: "0 < free_count b"
    and j: "j < length (direct_blocks d)"
  shows "\<exists>b' x s1 s2 s'. free_map_allocate 1 s = Some (Some x, s1) \<and> disk_at s1 r = Some d \<and>
    put_disk r (d\<lparr>direct_blocks := (direct_blocks d)[j := x]\<rparr>) s1 = Some s2 \<and> buffer_cache_write x zeros s2 = Some s' \<and>
    extends r b s b' s' \<and> disk_at s' r = Some (d\<lparr>direct_blocks := (direct_blocks d)[j := x]\<rparr>) \<and>
    \<not> taken b x \<and> taken b' x \<and> x \<noteq> 0 \<and> cache_view s' x = zeros \<and> free_count b = Suc (free_count b')"
proof -
  have ok: "map_ok b s" using m by (simp add: mounted_def)
  obtain b' x s1 where s1: "free_map_allocate 1 s = Some (Some x, s1)" "extends r b s b' s1" "\<not> taken b x" "taken b' x" "x \<noteq> 0"
      "free_count b = Suc (free_count b')" "inode_heap s1 = inode_heap s" "disk_heap s1 = disk_heap s"
    using allocate_free_one [OF m fc, of r] by blast
  have m1: "mounted b' s1" and ma1: "map_all s1 = map_all s" using s1(2) by (simp_all add: extends_def)
  have d1: "disk_at s1 r = Some d" using d s1(7,8) by (simp add: disk_at_def inode_at_def split: disk_ref.splits)
  have "map_elsewhere r s1" using map_inode_elsewhere [OF e, of s1] s1(2) by (simp add: extends_def)
  from put_disk_spec [OF m1 d1 this] obtain s2 where
    s2: "put_disk r (d\<lparr>direct_blocks := (direct_blocks d)[j := x]\<rparr>) s1 = Some s2" "extends r b' s1 b' s2"
      "disk_at s2 r = Some (d\<lparr>direct_blocks := (direct_blocks d)[j := x]\<rparr>)" by blast
  have m2: "mounted b' s2" and ma2: "map_all s2 = map_all s"
    using s2(2) ma1 by (simp_all add: extends_def)
  have "cache_inv s2" and xs: "x < fs_capacity s2"
    using m2 taken_in [of b' s2 x] s1(4) by (auto simp: mounted_def map_ok_def)
  from write_after [OF keeps_refl [OF this(1)] this(2), of zeros] obtain s' where
    s': "buffer_cache_write x zeros s2 = Some s'" "stores {x} s2 s'" "cache_view s' x = zeros"
    by (auto simp: zeros_def BLOCK_SECTOR_SIZE_def)
  have xm: "x \<notin> map_all s" using map_all_taken [OF ok] s1(3) by blast
  have "extends r b s b' s'"
  proof -
    note same3 = same_files [OF stores_more [OF s'(2)]]
    have "{x} \<inter> map_all s2 = {}" using xm ma2 by simp
    from mounted_stores [OF m2 s'(2) this] have "mounted b' s'" "map_all s' = map_all s" using ma2 by simp_all
    moreover have "extends r b s b' s2" by (rule extends_trans [OF s1(2) s2(2)])
    moreover have "inode_at s' p = inode_at s2 p" for p by (rule same_inode_at [OF stores_more [OF s'(2)]])
    moreover have "\<forall>t. taken b t \<longrightarrow> cache_view s' t = cache_view s2 t"
    proof (intro allI impI)
      fix t assume "taken b t"
      then have "t \<notin> {x}" using s1(3) by auto
      then show "cache_view s' t = cache_view s2 t" using s'(2) by (simp add: stores_def)
    qed
    ultimately show ?thesis using s'(2) same3 unfolding extends_def stores_def by auto
  qed
  moreover have "disk_at s' r = disk_at s2 r"
    using same_inode_at [OF stores_more [OF s'(2)]] same_files(2) [OF stores_more [OF s'(2)]]
    by (simp add: disk_at_def split: disk_ref.split)
  ultimately show ?thesis using s1 d1 s2 s' by auto
qed

lemma reserve_direct_spec:
  assumes "mounted b s" and "disk_at s r = Some d" and "map_elsewhere r s" and "distinct is"
    and "\<forall>i \<in> set is. i < length (direct_blocks d)"
    and "length (filter (\<lambda>i. direct_blocks d ! i = 0) is) \<le> free_count b"
  shows "\<exists>b' s' ds. reserve_direct (free_map_allocate 1) r is s = Some (True, s') \<and> extends r b s b' s' \<and>
    disk_at s' r = Some (d\<lparr>direct_blocks := ds\<rparr>) \<and> length ds = length (direct_blocks d) \<and>
    (\<forall>j < length ds. j \<notin> set is \<or> direct_blocks d ! j \<noteq> 0 \<longrightarrow> ds ! j = direct_blocks d ! j) \<and>
    (\<forall>j \<in> set is. direct_blocks d ! j = 0 \<longrightarrow>
       ds ! j \<noteq> 0 \<and> \<not> taken b (ds ! j) \<and> taken b' (ds ! j) \<and> cache_view s' (ds ! j) = zeros) \<and>
    (\<forall>i \<in> set is. \<forall>j \<in> set is. direct_blocks d ! i = 0 \<and> direct_blocks d ! j = 0 \<and> ds ! i = ds ! j \<longrightarrow> i = j) \<and>
    free_count b = free_count b' + length (filter (\<lambda>i. direct_blocks d ! i = 0) is)"
  using assms
proof (induction "is" arbitrary: b s d)
  case Nil
  then show ?case using extends_refl by (intro exI [of _ b] exI [of _ s] exI [of _ "direct_blocks d"]) auto
next
  case (Cons i "is")
  note m = Cons.prems(1) and d = Cons.prems(2) and e = Cons.prems(3)
  have i: "i < length (direct_blocks d)" "i \<notin> set is" "distinct is" using Cons.prems(4,5) by auto
  show ?case
  proof (cases "direct_blocks d ! i = 0")
    case False
    have "\<forall>i \<in> set is. i < length (direct_blocks d)"
      "length (filter (\<lambda>i. direct_blocks d ! i = 0) is) \<le> free_count b"
      using Cons.prems(5,6) False by auto
    from Cons.IH [OF m d e i(3) this] show ?thesis using d i(1) False by auto
  next
    case True
    have "0 < free_count b" using Cons.prems(6) True by auto
    from reserve_one [OF m d e this i(1)] obtain b1 x sa sb s1 where
      step: "free_map_allocate 1 s = Some (Some x, sa)" "disk_at sa r = Some d"
        "put_disk r (d\<lparr>direct_blocks := (direct_blocks d)[i := x]\<rparr>) sa = Some sb" "buffer_cache_write x zeros sb = Some s1"
      and s1: "extends r b s b1 s1" "disk_at s1 r = Some (d\<lparr>direct_blocks := (direct_blocks d)[i := x]\<rparr>)"
      and x: "\<not> taken b x" "taken b1 x" "x \<noteq> 0" "cache_view s1 x = zeros" and fc: "free_count b = Suc (free_count b1)"
      by blast
    let ?d1 = "d\<lparr>direct_blocks := (direct_blocks d)[i := x]\<rparr>"
    have keep: "direct_blocks ?d1 ! j = direct_blocks d ! j" if "j \<in> set is" for j
    proof -
      have "j \<noteq> i" using that i(2) by auto
      then show ?thesis by simp
    qed
    have e1: "map_elsewhere r s1" using map_inode_elsewhere [OF e, of s1] s1(1) by (simp add: extends_def)
    have same: "filter (\<lambda>j. direct_blocks ?d1 ! j = 0) is = filter (\<lambda>j. direct_blocks d ! j = 0) is"
      by (intro filter_cong refl) (simp only: keep)
    then have room: "length (filter (\<lambda>j. direct_blocks ?d1 ! j = 0) is) \<le> free_count b1"
      using Cons.prems(6) True fc by simp
    have m1: "mounted b1 s1" and "\<forall>i \<in> set is. i < length (direct_blocks ?d1)"
      using s1(1) Cons.prems(5) by (simp_all add: extends_def)
    from Cons.IH [OF m1 s1(2) e1 i(3) this(2) room] obtain b' s' ds where
      s': "reserve_direct (free_map_allocate 1) r is s1 = Some (True, s')" "extends r b1 s1 b' s'"
        "disk_at s' r = Some (?d1\<lparr>direct_blocks := ds\<rparr>)" "length ds = length (direct_blocks ?d1)"
        "\<forall>j < length ds. j \<notin> set is \<or> direct_blocks ?d1 ! j \<noteq> 0 \<longrightarrow> ds ! j = direct_blocks ?d1 ! j"
        "\<forall>j \<in> set is. direct_blocks ?d1 ! j = 0 \<longrightarrow>
           ds ! j \<noteq> 0 \<and> \<not> taken b1 (ds ! j) \<and> taken b' (ds ! j) \<and> cache_view s' (ds ! j) = zeros"
        "\<forall>i \<in> set is. \<forall>j \<in> set is. direct_blocks ?d1 ! i = 0 \<and> direct_blocks ?d1 ! j = 0 \<and> ds ! i = ds ! j \<longrightarrow> i = j"
        "free_count b1 = free_count b' + length (filter (\<lambda>i. direct_blocks ?d1 ! i = 0) is)"
      by blast
    have dsi: "ds ! i = x" using s'(4,5) i by simp
    have mono: "taken b t \<Longrightarrow> taken b1 t" "taken b1 t \<Longrightarrow> taken b' t" for t
      using s1(1) s'(2) by (auto simp: extends_def)
    have "x \<notin> map_all s1"
      using map_all_taken [of b s x] x(1) m s1(1) by (auto simp: extends_def mounted_def)
    then have zx: "cache_view s' x = zeros" using s'(2) x(2,4) by (simp add: extends_def)
    have other: "ds ! j \<noteq> x" if "j \<in> set is" "direct_blocks d ! j = 0" for j
      using s'(6) that keep [OF that(1)] x(2) by auto
    have run: "reserve_direct (free_map_allocate 1) r (i # is) s = Some (True, s')"
      using d i(1) True step s'(1) by simp
    have ext: "extends r b s b' s'" by (rule extends_trans [OF s1(1) s'(2)])
    have A: "\<forall>j < length ds. j \<notin> set (i # is) \<or> direct_blocks d ! j \<noteq> 0 \<longrightarrow> ds ! j = direct_blocks d ! j"
    proof (intro allI impI)
      fix j assume j: "j < length ds" "j \<notin> set (i # is) \<or> direct_blocks d ! j \<noteq> 0"
      then have "j \<noteq> i" using True by auto
      then show "ds ! j = direct_blocks d ! j" using s'(5) j by auto
    qed
    have B: "\<forall>j \<in> set (i # is). direct_blocks d ! j = 0 \<longrightarrow>
        ds ! j \<noteq> 0 \<and> \<not> taken b (ds ! j) \<and> taken b' (ds ! j) \<and> cache_view s' (ds ! j) = zeros"
    proof
      fix j assume "j \<in> set (i # is)"
      then consider "j = i" | "j \<in> set is" by auto
      then show "direct_blocks d ! j = 0 \<longrightarrow>
          ds ! j \<noteq> 0 \<and> \<not> taken b (ds ! j) \<and> taken b' (ds ! j) \<and> cache_view s' (ds ! j) = zeros"
      proof cases
        case 1
        then show ?thesis using dsi x zx mono by auto
      next
        case 2
        then show ?thesis using s'(6) keep mono by auto
      qed
    qed
    have C: "\<forall>k \<in> set (i # is). \<forall>j \<in> set (i # is).
        direct_blocks d ! k = 0 \<and> direct_blocks d ! j = 0 \<and> ds ! k = ds ! j \<longrightarrow> k = j"
    proof (intro ballI impI)
      fix k j assume kj: "k \<in> set (i # is)" "j \<in> set (i # is)"
        and z: "direct_blocks d ! k = 0 \<and> direct_blocks d ! j = 0 \<and> ds ! k = ds ! j"
      show "k = j"
      proof (cases "k = i \<or> j = i")
        case True
        have no: "\<not> (t \<in> set is \<and> ds ! t = ds ! i)" if "direct_blocks d ! t = 0" for t using other that dsi by auto
        from True kj show ?thesis using no [of j] no [of k] z by auto
      next
        case False
        then have "k \<in> set is" "j \<in> set is" using kj by auto
        then show ?thesis using s'(7) z keep by auto
      qed
    qed
    have "disk_at s' r = Some (d\<lparr>direct_blocks := ds\<rparr>)" "length ds = length (direct_blocks d)"
      using s'(3,4) by simp_all
    moreover have "free_count b = free_count b' + length (filter (\<lambda>i. direct_blocks d ! i = 0) (i # is))"
      using fc s'(8) same True by simp
    ultimately show ?thesis using run ext A B C by blast
  qed
qed

section \<open>Frames\<close>

definition frame :: "sector set \<Rightarrow> 'a files_scheme \<Rightarrow> 'a files_scheme \<Rightarrow> bool" where
  \<comment> \<open>on disk only sectors of \<open>W\<close> and of the free map change\<close>
  "frame W s s' \<longleftrightarrow> map_all s' = map_all s \<and> (\<forall>t. t \<notin> W \<and> t \<notin> map_all s \<longrightarrow> cache_view s' t = cache_view s t) \<and>
     fs_capacity s' = fs_capacity s \<and> console s' = console s \<and> free_map_file s' = free_map_file s"

definition quiet :: "nat set \<Rightarrow> 'a files_scheme \<Rightarrow> 'a files_scheme \<Rightarrow> bool" where
  \<comment> \<open>the files in memory and the inodes outside \<open>P\<close> stay as they are\<close>
  "quiet P s s' \<longleftrightarrow> open_inodes s' = open_inodes s \<and> file_heap s' = file_heap s \<and> file_table s' = file_table s \<and> files.more s' = files.more s \<and>
     (\<forall>p. p \<notin> P \<longrightarrow> inode_at s' p = inode_at s p)"

lemma frame_refl: "frame W s s"
  by (simp add: frame_def)

lemma frame_mono: "frame W s s' \<Longrightarrow> W \<subseteq> V \<Longrightarrow> frame V s s'"
  by (auto simp: frame_def)

lemma frame_trans: "frame W s s1 \<Longrightarrow> frame W s1 s2 \<Longrightarrow> frame W s s2"
  by (simp add: frame_def)

lemma quiet_refl: "quiet P s s"
  by (simp add: quiet_def)

lemma quiet_mono: "quiet P s s' \<Longrightarrow> P \<subseteq> Q \<Longrightarrow> quiet Q s s'"
  by (auto simp: quiet_def)

lemma quiet_trans: "quiet P s s1 \<Longrightarrow> quiet P s1 s2 \<Longrightarrow> quiet P s s2"
  by (simp add: quiet_def)

lemma frame_keeps: "frame W s s' \<Longrightarrow> t \<notin> W \<Longrightarrow> t \<notin> map_all s \<Longrightarrow> cache_view s' t = cache_view s t"
  by (simp add: frame_def)

lemma extends_frame: "extends r b s b' s' \<Longrightarrow> frame {t. \<not> taken b t} s s'"
  by (simp add: extends_def frame_def)

lemma extends_quiet:
  "extends (Own q) b s b' s' \<Longrightarrow> quiet {} s s'" "extends (Data_of p) b s b' s' \<Longrightarrow> quiet {p} s s'"
  by (simp_all add: extends_def quiet_def)

lemma stores_frame:
  assumes "mounted b s" and "stores S s s'" and "S \<inter> map_all s = {}"
  shows "frame S s s'" and "quiet {} s s'"
  using mounted_stores(2) [OF assms] same_files [OF stores_more [OF assms(2)]] same_inode_at [OF stores_more [OF assms(2)]] assms(2)
  by (simp_all add: frame_def quiet_def stores_def)

end
