(* ===== verification/Map_Nesting.thy ===== *)
theory Map_Nesting
  imports Inode_Types File_Growth
begin

text \<open>
  Saving the free map may extend its file, which allocates a sector, which saves the free map. Each call inside
  another holds a bit of the map, so the calls cannot nest deeper than the map has free bits: the bound that
  \<open>allocate_nested\<close> carries is never reached, whatever is on the disk.
\<close>

section \<open>What the cache keeps\<close>

lemma clock_loop_more: "clock_loop s = Some s' \<Longrightarrow> cached.more s' = cached.more s"
proof (induction s arbitrary: s' rule: clock_loop.induct)
  case (1 s)
  then show ?case by (subst (asm) clock_loop.simps) (auto simp: Let_def set_entry_def split: if_splits)
qed

lemma assert_more: "cached.more (ASSERT f l fn c s) = cached.more s"
  by (simp add: ASSERT_def debug_panic_def printf_def)

lemma flush_more: "buffer_cache_flush i s = Some s' \<Longrightarrow> cached.more s' = cached.more s"
  by (auto simp: buffer_cache_flush_def Let_def set_entry_def assert_more split: bind_splits if_splits
      dest!: cached_more(1) [OF block_write_frame])

lemma evict_more: "buffer_cache_evict s = Some (i, s') \<Longrightarrow> cached.more s' = cached.more s"
  by (auto simp: buffer_cache_evict_def Let_def set_entry_def split: bind_splits if_splits
      dest!: flush_more clock_loop_more)

lemma load_more: "load_entry l sec s = Some (i, s') \<Longrightarrow> cached.more s' = cached.more s"
  using cached_more(1) [OF block_read_frame [THEN conjunct2]]
  by (fastforce simp: load_entry_def Let_def set_entry_def assert_more split: bind_splits option.splits dest!: evict_more)

lemma cache_more:
  "buffer_cache_read sec s = Some (b, s') \<Longrightarrow> cached.more s' = cached.more s"
  "buffer_cache_write sec c s = Some s' \<Longrightarrow> cached.more s' = cached.more s"
  by (auto simp: buffer_cache_read_def buffer_cache_write_def set_entry_def split: bind_splits if_splits dest!: load_more)

section \<open>Maps that only grow\<close>

definition has_bits :: "bitmap \<Rightarrow> 'a files_scheme \<Rightarrow> bool" where
  \<comment> \<open>every bit of \<open>b0\<close> is set in the map\<close>
  "has_bits b0 s \<longleftrightarrow> (\<exists>b. free_map s = Some b \<and> wf_bitmap b \<and> bit_cnt b = bit_cnt b0 \<and>
     (\<forall>i < bit_cnt b. bits_of b0 ! i \<longrightarrow> bits_of b ! i))"

lemma has_bits_map: "free_map s' = free_map s \<Longrightarrow> has_bits b0 s' = has_bits b0 s"
  by (simp add: has_bits_def)

interpretation grow: files_inv "has_bits b0" for b0
proof
  fix s s' :: "'a files_scheme" and sec b
  show "has_bits b0 s \<Longrightarrow> buffer_cache_read sec s = Some (b, s') \<Longrightarrow> has_bits b0 s'"
    using has_bits_map [OF same_files(5) [OF cache_more(1)]] by blast
  show "has_bits b0 s \<Longrightarrow> buffer_cache_write sec b s = Some s' \<Longrightarrow> has_bits b0 s'"
    using has_bits_map [OF same_files(5) [OF cache_more(2)]] by blast
next
  fix s s' :: "'a files_scheme" and r d d'
  show "has_bits b0 s \<Longrightarrow> disk_at s r = Some d \<Longrightarrow> disk_like d d' \<Longrightarrow> put_disk r d' s = Some s' \<Longrightarrow> has_bits b0 s'"
    by (auto simp: put_disk_def put_inode_def has_bits_def split: disk_ref.splits bind_splits)
qed (simp_all add: has_bits_def)

lemma free_count_mono:
  assumes "bit_cnt b = bit_cnt b0" and "\<forall>i < bit_cnt b. bits_of b0 ! i \<longrightarrow> bits_of b ! i"
  shows "free_count b \<le> free_count b0"
  using assms unfolding free_count_def count_bits_card by (intro card_mono) auto

lemma nested_same:
  assumes "bit_cnt b0 < BITMAP_ERROR" and "has_bits b0 (s :: 'a files_scheme)" and "free_count b0 < f1" and "free_count b0 < f2"
  shows "same (has_bits b0) (allocate_nested f1 1 s) (allocate_nested f2 1 s)"
  using assms
proof (induction "free_count b0" arbitrary: b0 f1 f2 s rule: less_induct)
  case less
  obtain g1 g2 where g: "f1 = Suc g1" "f2 = Suc g2" using less.prems(3,4) by (cases f1; cases f2) auto
  obtain b where b: "free_map s = Some b" "wf_bitmap b" "bit_cnt b = bit_cnt b0"
      "\<forall>i < bit_cnt b. bits_of b0 ! i \<longrightarrow> bits_of b ! i" using less.prems(2) by (auto simp: has_bits_def)
  have fb: "free_count b \<le> free_count b0" by (rule free_count_mono [OF b(3,4)])
  have lim: "bit_cnt b < BITMAP_ERROR" using less.prems(1) b(3) by simp
  show ?case
  proof (cases "first_free b")
    case None
    then have scan: "bitmap_scan_and_flip b 0 1 False s = Some ((BITMAP_ERROR, b), s)"
      using bitmap_scan_and_flip_none [OF b(2), of 0 1 False s] by (simp add: first_free_def)
    have "has_bits b0 (s\<lparr>free_map := Some b\<rparr>)" using b by (auto simp: has_bits_def)
    then show ?thesis using scan b(1) by (simp add: g same_return)
  next
    case (Some k)
    have kb: "k < bit_cnt b" "\<not> bits_of b ! k" using first_free_Some [OF Some] by simp_all
    obtain b1 where b1: "bitmap_scan_and_flip b 0 1 False s = Some ((k, b1), s)" "wf_bitmap b1" "bit_cnt b1 = bit_cnt b"
        "bits_of b1 = (bits_of b)[k := True]"
      using bitmap_scan_and_flip_found [OF b(2) _ lim, of 0 1 False k s] Some kb fill_one [of k "bits_of b"]
      by (auto simp: first_free_def)
    have k32: "k < 2 ^ 32" "BITMAP_ERROR < 2 ^ 32" "k \<noteq> BITMAP_ERROR" using kb lim by (simp_all add: BITMAP_ERROR_def)
    then have uk: "unat (of_nat k :: sector) = k" and ne: "(of_nat k :: sector) \<noteq> of_nat BITMAP_ERROR"
      by (simp_all add: unat_of_nat word_of_nat_eq_iff take_bit_nat_eq_self)
    have fewer: "free_count b1 < free_count b0" using free_count_alloc [OF Some b1(4)] fb by simp
    have sub: "has_bits b0 x" if "has_bits b1 x" for x :: "'a files_scheme"
      using that b1 b kb(1) by (auto simp: has_bits_def nth_list_update)
    have IH: "same (has_bits b1) (allocate_nested g1 1 x) (allocate_nested g2 1 x)" if "has_bits b1 x" for x :: "'a files_scheme"
    proof (rule less.hyps [OF fewer _ that])
      show "bit_cnt b1 < BITMAP_ERROR" "free_count b1 < g1" "free_count b1 < g2"
        using lim b1(3) fewer less.prems(3,4) g by simp_all
    qed
    let ?s = "s\<lparr>free_map := Some b1\<rparr>"
    have start: "has_bits b1 ?s" using b1(2) by (simp add: has_bits_def)
    have undo: "has_bits b0 (y'\<lparr>free_map := Some c'\<rparr>)"
      if y: "has_bits b1 y" "free_map y = Some c" "bitmap_set_multiple c k 1 False y = Some (c', y')" for y y' :: "'a files_scheme" and c c'
    proof -
      have c: "wf_bitmap c" "bit_cnt c = bit_cnt b1" "\<forall>i < bit_cnt c. bits_of b1 ! i \<longrightarrow> bits_of c ! i"
        using y(1,2) by (auto simp: has_bits_def)
      have "k + 1 \<le> bit_cnt c" using kb(1) c(2) b1(3) by simp
      from bitmap_set_multiple_spec [OF c(1) this, of False y] y(3)
      have c': "wf_bitmap c'" "bit_cnt c' = bit_cnt c" "bits_of c' = fill (bits_of c) k 1 False" "y' = y" by auto
      have "k < length (bits_of c)" using kb(1) c(2) b1(3) by simp
      then have f: "bits_of c' = (bits_of c)[k := False]" using c'(3) fill_one by simp
      have "bits_of c' ! i" if i: "i < bit_cnt c'" "bits_of b0 ! i" for i
      proof -
        have "bits_of b ! i" "i < bit_cnt b" using i b(4) c'(2) c(2) b1(3) by auto
        then have "i \<noteq> k" using kb(2) by auto
        moreover have "bits_of b1 ! i" using \<open>bits_of b ! i\<close> \<open>i < bit_cnt b\<close> \<open>i \<noteq> k\<close> b1(4) by simp
        ultimately show ?thesis using f c(3) i(1) c'(2) by simp
      qed
      then have "\<forall>i < bit_cnt c'. bits_of b0 ! i \<longrightarrow> bits_of c' ! i" by blast
      then show ?thesis using c'(1,2) c(2) b1(3) b(3) by (simp add: has_bits_def del: nth_bits_of)
    qed
    have w: "same (has_bits b1) (bitmap_write (allocate_nested g1 1) m ?s) (bitmap_write (allocate_nested g2 1) m ?s)" for m
      by (rule grow.bitmap_write_same, erule IH, rule start)
    show ?thesis
    proof (cases "free_map_file s")
      case None
      then show ?thesis using sub [OF start] by (simp add: g b(1) b1(1) same_return Let_def del: One_nat_def)
    next
      case (Some f)
      have e: "bitmap_write (allocate_nested g2 1) (Some f) ?s = bitmap_write (allocate_nested g1 1) (Some f) ?s"
        using w [of "Some f"] by (simp add: same_def)
      show ?thesis
      proof (cases "bitmap_write (allocate_nested g1 1) (Some f) ?s")
        case None
        then show ?thesis using Some e by (simp add: g b(1) b1(1) ne same_None Let_def del: One_nat_def)
      next
        case (Some r)
        obtain ok y where r: "r = (ok, y)" by (cases r)
        have y: "has_bits b1 y" using sameD [OF w [of "Some f"]] Some r by blast
        then have P: "has_bits b0 x" if "(if ok then Some (v, y) else do { c \<leftarrow> free_map y;
            (c, y) \<leftarrow> bitmap_set_multiple c k 1 False y; Some (v', y\<lparr>free_map := Some c\<rparr>) }) = Some (z, x)" for v v' z :: sector and x
          using that undo [OF y] sub [OF y] by (auto split: if_splits bind_splits)
        show ?thesis
          using Some e r \<open>free_map_file s = Some f\<close> P
          by (auto simp: g b(1) b1(1) ne uk same_def Let_def simp del: One_nat_def split: bind_splits)
      qed
    qed
  qed
qed

lemma free_count_bound: "free_count b \<le> bit_cnt b"
proof -
  have "card {i. i < bit_cnt b \<and> bits_of b ! i = False} \<le> card {..<bit_cnt b}" by (rule card_mono) auto
  then show ?thesis by (simp only: free_count_def count_bits_card length_bits_of card_lessThan)
qed

text \<open>
  C12: The mutual recursion of the free map and its file ends: an allocation that may nest as often as the map has
  free bits has the result of \<open>free_map_allocate\<close>, and so has every greater bound. Whatever the disk holds, and
  even when an allocation fails half way, no sector that was marked as used becomes free.
\<close>

theorem allocation_nesting:
  assumes "free_map s = Some b" and "wf_bitmap b" and "bit_cnt b < BITMAP_ERROR"
  shows "(free_count b < fuel \<longrightarrow> allocate_nested fuel 1 s = free_map_allocate 1 s) \<and>
    (\<forall>r s'. free_map_allocate 1 s = Some (r, s') \<longrightarrow>
       (\<exists>b'. free_map s' = Some b' \<and> wf_bitmap b' \<and> bit_cnt b' = bit_cnt b \<and> (\<forall>t. taken b t \<longrightarrow> taken b' t)))"
proof -
  have h: "has_bits b s" using assms by (simp add: has_bits_def)
  have n: "free_count b < nesting s" using free_count_bound [of b] assms(1) by (simp add: nesting_def)
  have "allocate_nested fuel 1 s = free_map_allocate 1 s" if "free_count b < fuel"
    using nested_same [OF assms(3) h that n] by (simp add: same_def free_map_allocate_def)
  moreover have "has_bits b s'" if "free_map_allocate 1 s = Some (r, s')" for r s'
    using nested_same [OF assms(3) h n n] that unfolding free_map_allocate_def by (rule sameD)
  ultimately show ?thesis by (fastforce simp: has_bits_def taken_def simp del: nth_bits_of)
qed

text \<open>A map of four sectors whose sectors 2 and 3 are free.\<close>

definition small_map :: files where
  "small_map = one_inode\<lparr>free_map := Some \<lparr>bit_cnt = 4, bits = [3]\<rparr>\<rparr>"

theorem allocation_nesting_witness:
  "allocate_nested 3 1 small_map = free_map_allocate 1 small_map \<and>
   (\<exists>r s' b'. free_map_allocate 1 small_map = Some (r, s') \<and> free_map s' = Some b' \<and> taken b' 0 \<and> taken b' 1)"
proof -
  let ?b = "\<lparr>bit_cnt = 4, bits = [3 :: 64 word]\<rparr>"
  have m: "free_map small_map = Some ?b" by (simp add: small_map_def)
  have "bits_of ?b = [True, True, False, False]" by code_simp
  then have "free_count ?b = 2" "taken ?b 0" "taken ?b 1" by (simp_all add: free_count_def count_bits_def taken_def)
  moreover have "bit_cnt ?b = 4" "first_free ?b = Some 2" by (simp, code_simp)
  moreover have wf: "wf_bitmap ?b" "bit_cnt ?b < BITMAP_ERROR"
    by (simp_all add: wf_bitmap_def elem_cnt_def DIV_ROUND_UP_def ELEM_BITS_def BITMAP_ERROR_def)
  moreover obtain b' where "bitmap_scan_and_flip ?b 0 1 False small_map = Some ((2, b'), small_map)"
    using bitmap_scan_and_flip_found [OF wf(1) _ wf(2), of 0 1 False 2 small_map] \<open>first_free ?b = Some 2\<close>
    by (auto simp: first_free_def)
  moreover have "free_map_allocate 1 small_map = allocate_nested (Suc 5) 1 small_map" "free_map_file small_map = None"
    by (simp_all add: free_map_allocate_def nesting_def small_map_def one_inode_def)
  ultimately obtain r s' where "free_map_allocate 1 small_map = Some (r, s')"
    using m by (simp only: allocate_nested.simps) (simp add: Let_def del: One_nat_def)
  then show ?thesis using allocation_nesting [OF m wf, of 3] \<open>free_count ?b = 2\<close> \<open>taken ?b 0\<close> \<open>taken ?b 1\<close> by fastforce
qed

end
