(* ===== verification/File_Append.thy ===== *)
theory File_Append
  imports Map_Nesting
begin

text \<open>
  Writing beyond the end of a file that needs no block tables: the file grows by sectors that were free, the old
  content stays below the write, the inode on disk is updated, and no sector in use elsewhere changes.
\<close>

definition small_file :: "bitmap \<Rightarrow> nat \<Rightarrow> inode \<Rightarrow> 'a files_scheme \<Rightarrow> bool" where
  \<comment> \<open>the open inode at \<open>p\<close> has only direct blocks, all marked in the map, none shared, none of the map's own\<close>
  "small_file b p i s \<longleftrightarrow> inode_at s p = Some i \<and> deny_write_cnt i = 0 \<and> disk_typed (in_data i) \<and>
     0 \<le> id_length (in_data i) \<and> id_length (in_data i) \<le> 512 * 123 \<and>
     (\<forall>k < sectors_used (in_data i). direct_blocks (in_data i) ! k \<noteq> 0) \<and>
     (\<forall>k < 123. direct_blocks (in_data i) ! k \<noteq> 0 \<longrightarrow> taken b (direct_blocks (in_data i) ! k) \<and>
        direct_blocks (in_data i) ! k \<notin> map_all s \<and> direct_blocks (in_data i) ! k \<noteq> in_sector i) \<and>
     (\<forall>j < 123. \<forall>k < 123. direct_blocks (in_data i) ! k \<noteq> 0 \<and> direct_blocks (in_data i) ! j = direct_blocks (in_data i) ! k \<longrightarrow> j = k) \<and>
     taken b (in_sector i) \<and> in_sector i \<notin> map_all s \<and> map_elsewhere (Data_of p) s"

lemma small_used: "id_length d \<le> 512 * 123 \<Longrightarrow> sectors_used d \<le> 123"
  by (simp add: sectors_used_def DIV_ROUND_UP_def BLOCK_SECTOR_SIZE_def)

lemma small_sectors:
  assumes "sectors_used d \<le> 123"
  shows "table_sectors v d (sectors_used d) = {}" and "k < sectors_used d \<Longrightarrow> sector_of v d k = direct_blocks d ! k"
    and "data_sectors v d = (\<lambda>k. direct_blocks d ! k) ` {..<sectors_used d}"
proof -
  show "table_sectors v d (sectors_used d) = {}" using assms by (auto simp: table_sectors_def)
  show s: "k < sectors_used d \<Longrightarrow> sector_of v d k = direct_blocks d ! k" for k using assms by (simp add: sector_of_def)
  show "data_sectors v d = (\<lambda>k. direct_blocks d ! k) ` {..<sectors_used d}"
    unfolding data_sectors_def by (intro image_cong refl) (simp add: s)
qed

lemma small_file_ok:
  assumes m: "mounted b s" and f: "small_file b p i s"
  shows "file_ok v (fs_capacity s) (in_data i)"
    and "data_sectors v (in_data i) \<inter> map_all s = {}"
    and "\<And>t. t \<in> data_sectors v (in_data i) \<Longrightarrow> taken b t"
proof -
  let ?d = "in_data i"
  have n: "sectors_used ?d \<le> 123" using small_used f by (simp add: small_file_def)
  note sec = small_sectors [OF n, where v = v]
  have ok: "map_ok b s" using m by (simp add: mounted_def)
  have each: "taken b (direct_blocks ?d ! k) \<and> direct_blocks ?d ! k \<notin> map_all s" if "k < sectors_used ?d" for k
    using f n that by (auto simp: small_file_def)
  show t: "\<And>t. t \<in> data_sectors v ?d \<Longrightarrow> taken b t" and "data_sectors v ?d \<inter> map_all s = {}"
    using each sec(3) by auto
  have "inj_on (sector_of v ?d) {..<sectors_used ?d}"
    using f n sec(2) by (auto simp: inj_on_def small_file_def)
  then show "file_ok v (fs_capacity s) ?d"
    using f t sec(1) taken_in [OF ok] by (auto simp: file_ok_def small_file_def disk_typed_def DIRECT_BLOCKS_COUNT_def)
qed

definition sectors_missing :: "inode_disk \<Rightarrow> int \<Rightarrow> nat" where
  \<comment> \<open>how many direct blocks below byte \<open>n\<close> have no sector yet\<close>
  "sectors_missing d n = length (filter (\<lambda>k. direct_blocks d ! k = 0) [0..<DIV_ROUND_UP (nat n) BLOCK_SECTOR_SIZE])"

lemma append_reserve:
  assumes m: "mounted b s" and f: "small_file b p i s" and n: "id_length (in_data i) < n" "n \<le> 512 * 123"
    and room: "sectors_missing (in_data i) n \<le> free_count b"
  shows "\<exists>b' s' i'. inode_reserve (free_map_allocate 1) (Data_of p) n s = Some (True, s') \<and> extends (Data_of p) b s b' s' \<and>
    small_file b' p i' s' \<and> inode_key i' = inode_key i \<and>
    (\<exists>ds. in_data i' = (in_data i)\<lparr>direct_blocks := ds\<rparr> \<and> length ds = 123 \<and>
       (\<forall>k < DIV_ROUND_UP (nat n) BLOCK_SECTOR_SIZE. ds ! k \<noteq> 0) \<and>
       (\<forall>k < 123. if direct_blocks (in_data i) ! k \<noteq> 0 then ds ! k = direct_blocks (in_data i) ! k
          else ds ! k = 0 \<or> \<not> taken b (ds ! k)) \<and>
       (\<forall>k < 123. DIV_ROUND_UP (nat n) BLOCK_SECTOR_SIZE \<le> k \<longrightarrow> ds ! k = direct_blocks (in_data i) ! k)) \<and>
    free_count b = free_count b' + sectors_missing (in_data i) n"
proof -
  let ?d = "in_data i" let ?l = "DIV_ROUND_UP (nat n) BLOCK_SECTOR_SIZE"
  have i: "inode_at s p = Some i" and e: "map_elsewhere (Data_of p) s" and len: "length (direct_blocks ?d) = 123"
    using f by (simp_all add: small_file_def disk_typed_def DIRECT_BLOCKS_COUNT_def)
  have l: "?l \<le> 123" using n(2) by (simp add: DIV_ROUND_UP_def BLOCK_SECTOR_SIZE_def)
  have d: "disk_at s (Data_of p) = Some ?d" using i by (simp add: disk_at_def)
  have "\<forall>k \<in> set [0..<?l]. k < length (direct_blocks ?d)" using l len by auto
  from reserve_direct_spec [OF m d e distinct_upt this room [unfolded sectors_missing_def]] obtain b' s' ds where
    s': "reserve_direct (free_map_allocate 1) (Data_of p) [0..<?l] s = Some (True, s')" "extends (Data_of p) b s b' s'"
      "disk_at s' (Data_of p) = Some (?d\<lparr>direct_blocks := ds\<rparr>)" "length ds = length (direct_blocks ?d)"
    and old: "\<forall>j < length ds. j \<notin> set [0..<?l] \<or> direct_blocks ?d ! j \<noteq> 0 \<longrightarrow> ds ! j = direct_blocks ?d ! j"
    and new: "\<forall>j \<in> set [0..<?l]. direct_blocks ?d ! j = 0 \<longrightarrow>
       ds ! j \<noteq> 0 \<and> \<not> taken b (ds ! j) \<and> taken b' (ds ! j) \<and> cache_view s' (ds ! j) = zeros"
    and inj: "\<forall>i \<in> set [0..<?l]. \<forall>j \<in> set [0..<?l]. direct_blocks ?d ! i = 0 \<and> direct_blocks ?d ! j = 0 \<and> ds ! i = ds ! j \<longrightarrow> i = j"
    and fc: "free_count b = free_count b' + sectors_missing ?d n"
    unfolding sectors_missing_def by blast
  have "off32 (n + int BLOCK_SECTOR_SIZE) = Some (n + int BLOCK_SECTOR_SIZE)" "0 \<le> n"
    using n f by (simp_all add: off32_def BLOCK_SECTOR_SIZE_def small_file_def)
  then have run: "inode_reserve (free_map_allocate 1) (Data_of p) n s = Some (True, s')"
    using l s'(1) by (simp add: inode_reserve_def bytes_to_sectors_def DIRECT_BLOCKS_COUNT_def min_def)
  obtain i' where i': "inode_at s' p = Some i'" "in_data i' = ?d\<lparr>direct_blocks := ds\<rparr>"
    using s'(3) by (auto simp: disk_at_def)
  have key: "inode_key i' = inode_key i" using s'(2) i i'(1) by (auto simp: extends_def dest: spec [of _ p])
  have kind: "if direct_blocks ?d ! k \<noteq> 0 then ds ! k = direct_blocks ?d ! k
      else ds ! k = 0 \<or> \<not> taken b (ds ! k) \<and> taken b' (ds ! k) \<and> k < ?l" if "k < 123" for k
    using old new that s'(4) len by auto
  have full: "ds ! k \<noteq> 0" if "k < ?l" for k using that new old s'(4) len l by (cases "direct_blocks ?d ! k = 0") auto
  have mono: "taken b t \<Longrightarrow> taken b' t" and all: "map_all s' = map_all s" for t using s'(2) by (auto simp: extends_def)
  have mt: "t \<notin> map_all s" if "\<not> taken b t" for t
    using map_all_taken [of b s t] m that by (auto simp: mounted_def)
  have own: "taken b' (ds ! k) \<and> ds ! k \<notin> map_all s \<and> ds ! k \<noteq> in_sector i" if k: "k < 123" "ds ! k \<noteq> 0" for k
  proof (cases "direct_blocks ?d ! k = 0")
    case True
    then have "\<not> taken b (ds ! k)" "taken b' (ds ! k)" using kind [OF k(1)] k(2) by simp_all
    then show ?thesis using mt f by (auto simp: small_file_def)
  next
    case False
    then show ?thesis using kind [OF k(1)] f k(1) mono by (auto simp: small_file_def)
  qed
  have one: "j = k" if jk: "j < 123" "k < 123" "ds ! k \<noteq> 0" "ds ! j = ds ! k" for j k
  proof -
    have t: "taken b (direct_blocks ?d ! x)" if "x < 123" "direct_blocks ?d ! x \<noteq> 0" for x
      using f that by (simp add: small_file_def)
    consider "direct_blocks ?d ! j \<noteq> 0" "direct_blocks ?d ! k \<noteq> 0" | "direct_blocks ?d ! j = 0" "direct_blocks ?d ! k = 0"
      | "direct_blocks ?d ! j = 0" "direct_blocks ?d ! k \<noteq> 0" | "direct_blocks ?d ! j \<noteq> 0" "direct_blocks ?d ! k = 0" by blast
    then show ?thesis
    proof cases
      case 1
      then show ?thesis using kind [OF jk(1)] kind [OF jk(2)] f jk by (simp add: small_file_def)
    next
      case 2
      then have "j < ?l" "k < ?l" using kind [OF jk(1)] kind [OF jk(2)] jk by auto
      then show ?thesis using inj 2 jk(4) by auto
    next
      case 3
      then show ?thesis using kind [OF jk(1)] kind [OF jk(2)] t [OF jk(2)] jk by auto
    next
      case 4
      then show ?thesis using kind [OF jk(1)] kind [OF jk(2)] t [OF jk(1)] jk by auto
    qed
  qed
  have "sectors_used (in_data i') = sectors_used ?d" using i'(2) by (simp add: sectors_used_def)
  then have used: "ds ! k \<noteq> 0" if "k < sectors_used (in_data i')" for k
    using that f small_used [of ?d] kind [of k] by (auto simp: small_file_def)
  have same: "in_sector i' = in_sector i" "deny_write_cnt i' = 0" using key f by (simp_all add: inode_key_def small_file_def)
  have "map_elsewhere (Data_of p) s'" using map_inode_elsewhere [OF e, of s'] s'(2) by (simp add: extends_def)
  moreover have "disk_typed (in_data i')" using f i'(2) s'(4) by (simp add: small_file_def disk_typed_def)
  moreover have "taken b' (in_sector i)" using f mono by (simp add: small_file_def)
  ultimately have small: "small_file b' p i' s'"
    using i' same used own one f all unfolding small_file_def by simp
  have ds: "\<forall>k < 123. if direct_blocks ?d ! k \<noteq> 0 then ds ! k = direct_blocks ?d ! k else ds ! k = 0 \<or> \<not> taken b (ds ! k)"
    using kind by (metis (full_types))
  have "\<forall>k < 123. ?l \<le> k \<longrightarrow> ds ! k = direct_blocks ?d ! k" using old s'(4) len by simp
  moreover have "length ds = 123" using s'(4) len by simp
  ultimately show ?thesis using run s'(2) small key i'(2) full ds fc by blast
qed

text \<open>The new length, in memory and on disk.\<close>

lemma append_length:
  assumes m: "mounted b s" and f: "small_file b p i s" and n: "0 \<le> n" "n \<le> 512 * 123"
    and full: "\<forall>k < DIV_ROUND_UP (nat n) BLOCK_SECTOR_SIZE. direct_blocks (in_data i) ! k \<noteq> 0"
  shows "\<exists>s'. buffer_cache_write (in_sector i) (inode_image ((in_data i)\<lparr>id_length := n\<rparr>))
      (put_inode p (i\<lparr>in_data := (in_data i)\<lparr>id_length := n\<rparr>\<rparr>) s) = Some s' \<and>
    mounted b s' \<and> small_file b p (i\<lparr>in_data := (in_data i)\<lparr>id_length := n\<rparr>\<rparr>) s' \<and> map_all s' = map_all s \<and>
    cache_view s' = (cache_view s)(in_sector i := inode_image ((in_data i)\<lparr>id_length := n\<rparr>)) \<and>
    frame {in_sector i} s s' \<and> quiet {p} s s'"
proof -
  let ?d = "(in_data i)\<lparr>id_length := n\<rparr>" let ?i = "i\<lparr>in_data := ?d\<rparr>"
  have i: "inode_at s p = Some i" and e: "map_elsewhere (Data_of p) s" and own: "taken b (in_sector i)" "in_sector i \<notin> map_all s"
    using f by (simp_all add: small_file_def)
  have "disk_at s (Data_of p) = Some (in_data i)" using i by (simp add: disk_at_def)
  from put_disk_spec [OF m this e, of ?d] obtain s1 where
    s1: "s1 = put_inode p ?i s" "extends (Data_of p) b s b s1" "cache_view s1 = cache_view s"
    using i by (auto simp: put_disk_def)
  have m1: "mounted b s1" and all1: "map_all s1 = map_all s" using s1(2) by (simp_all add: extends_def)
  have typed: "disk_typed ?d" using f n by (simp add: small_file_def disk_typed_def off32_def)
  have inv: "cache_inv s1" and sec: "in_sector i < fs_capacity s1"
    using m1 own taken_in by (auto simp: mounted_def map_ok_def)
  have "length (inode_image ?d) = 512" using typed by (simp add: BLOCK_SECTOR_SIZE_def)
  from write_after [OF keeps_refl [OF inv] sec this] obtain s' where
    s': "buffer_cache_write (in_sector i) (inode_image ?d) s1 = Some s'" "stores {in_sector i} s1 s'"
      "cache_view s' = (cache_view s1)(in_sector i := inode_image ?d)" by blast
  have "{in_sector i} \<inter> map_all s1 = {}" using own all1 by simp
  note m' = mounted_stores [OF m1 s'(2) this] and f' = stores_frame [OF m1 s'(2) this]
  have "map_all s1 = map_all s" "fs_capacity s1 = fs_capacity s" "console s1 = console s" "free_map_file s1 = free_map_file s"
    using s1(2) by (simp_all add: extends_def)
  then have "frame {in_sector i} s s1" using s1(3) by (simp add: frame_def)
  from frame_trans [OF this f'(1)] have fr: "frame {in_sector i} s s'" .
  have q: "quiet {p} s s'" by (rule quiet_trans [OF extends_quiet(2) [OF s1(2)] quiet_mono [OF f'(2)]]) simp
  have at: "inode_at s' p = Some ?i"
    using same_inode_at [OF stores_more [OF s'(2)]] inode_at_put_inode [OF i] s1(1) by simp
  have "free_map_file s' = free_map_file s" "file_heap s' = file_heap s"
    using same_files [OF stores_more [OF s'(2)]] s1(2) by (simp_all add: extends_def)
  then have "map_elsewhere (Data_of p) s'" by (rule map_inode_elsewhere [OF e])
  moreover have "sectors_used ?d = DIV_ROUND_UP (nat n) BLOCK_SECTOR_SIZE" by (simp add: sectors_used_def)
  ultimately have "small_file b p ?i s'"
    using f at typed n full m'(2) all1 unfolding small_file_def by simp
  then show ?thesis
    using s' s1 m' all1 fr q by (intro exI [of _ s']) simp
qed

lemma small_file_stores:
  assumes "small_file b p i s" and "stores S s s'" and "map_all s' = map_all s"
  shows "small_file b p i s'"
  using assms same_inode_at [OF stores_more [OF assms(2)]] same_files [OF stores_more [OF assms(2)]]
    map_inode_elsewhere [of "Data_of p" s s'] by (simp add: small_file_def)

lemma content_prefix:
  assumes ok: "sectors_used d \<le> 123" "sectors_used d' \<le> 123" and len: "0 \<le> id_length d" "id_length d \<le> id_length d'"
    and same: "\<And>k. k < sectors_used d \<Longrightarrow> direct_blocks d' ! k = direct_blocks d ! k \<and> v' (direct_blocks d ! k) = v (direct_blocks d ! k)"
  shows "take (nat (id_length d)) (content v' d') = content v d"
proof (rule nth_equalityI)
  show "length (take (nat (id_length d)) (content v' d')) = length (content v d)" using len by simp
  fix x assume "x < length (take (nat (id_length d)) (content v' d'))"
  then have x: "x < nat (id_length d)" "x < nat (id_length d')" using len by auto
  then have k: "x div 512 < sectors_used d" "x div 512 < sectors_used d'"
    using used_iff [of d "x div 512"] used_iff [of d' "x div 512"] len by linarith+
  then show "take (nat (id_length d)) (content v' d') ! x = content v d ! x"
    using x same [OF k(1)] small_sectors(2) [OF ok(1) k(1)] small_sectors(2) [OF ok(2) k(2)] by (simp add: content_def)
qed

lemma past_end:
  assumes "id_length d \<le> pos" "0 \<le> pos"
  shows "byte_to_sector d pos s = Some (-1, s)"
  using assms by (simp add: byte_to_sector_def)

definition own_sectors :: "sector \<Rightarrow> inode_disk \<Rightarrow> sector set" where
  "own_sectors sec d = insert sec (set (direct_blocks d) - {0})"

lemma append_spec:
  assumes m: "mounted b s" and f: "small_file b p i s"
    and ofs: "0 \<le> offset" "offset \<le> id_length (in_data i)" "id_length (in_data i) < offset + int (length buf)"
    and fits: "offset + int (length buf) \<le> 512 * 123"
    and room: "sectors_missing (in_data i) (offset + int (length buf)) \<le> free_count b"
  shows "\<exists>b' ds s'. inode_write_at (free_map_allocate 1) p (\<lambda>_. Some buf) (int (length buf)) offset s = Some (int (length buf), s') \<and>
    mounted b' s' \<and> (\<forall>t. taken b t \<longrightarrow> taken b' t) \<and>
    (let i' = i\<lparr>in_data := (in_data i)\<lparr>direct_blocks := ds, id_length := offset + int (length buf)\<rparr>\<rparr> in
       small_file b' p i' s' \<and> cache_view s' (in_sector i) = inode_image (in_data i') \<and>
       content (cache_view s') (in_data i') = take (nat offset) (content (cache_view s) (in_data i)) @ buf) \<and>
    length ds = 123 \<and> (\<forall>k < DIV_ROUND_UP (nat (offset + int (length buf))) BLOCK_SECTOR_SIZE. ds ! k \<noteq> 0) \<and>
    (\<forall>k < 123. if direct_blocks (in_data i) ! k \<noteq> 0 then ds ! k = direct_blocks (in_data i) ! k
       else ds ! k = 0 \<or> \<not> taken b (ds ! k)) \<and>
    (\<forall>k < 123. DIV_ROUND_UP (nat (offset + int (length buf))) BLOCK_SECTOR_SIZE \<le> k \<longrightarrow> ds ! k = direct_blocks (in_data i) ! k) \<and>
    frame (own_sectors (in_sector i) (in_data i) \<union> {t. \<not> taken b t}) s s' \<and> quiet {p} s s' \<and>
    free_count b = free_count b' + sectors_missing (in_data i) (offset + int (length buf))"
proof -
  let ?n = "offset + int (length buf)" let ?d = "in_data i"
  let ?l = "DIV_ROUND_UP (nat ?n) BLOCK_SECTOR_SIZE" let ?own = "own_sectors (in_sector i) ?d"
  have i: "inode_at s p = Some i" "deny_write_cnt i = 0" and len0: "0 \<le> id_length ?d" and iss: "taken b (in_sector i)"
    and l123: "length (direct_blocks ?d) = 123"
    using f by (simp_all add: small_file_def disk_typed_def DIRECT_BLOCKS_COUNT_def)
  from append_reserve [OF m f ofs(3) fits room] obtain b1 s1 i1 ds where
    r: "inode_reserve (free_map_allocate 1) (Data_of p) ?n s = Some (True, s1)" "extends (Data_of p) b s b1 s1"
      "small_file b1 p i1 s1" "inode_key i1 = inode_key i" "in_data i1 = ?d\<lparr>direct_blocks := ds\<rparr>" "length ds = 123"
    and full: "\<forall>k < ?l. ds ! k \<noteq> 0"
    and kind: "\<forall>k < 123. if direct_blocks ?d ! k \<noteq> 0 then ds ! k = direct_blocks ?d ! k else ds ! k = 0 \<or> \<not> taken b (ds ! k)"
    and high: "\<forall>k < 123. ?l \<le> k \<longrightarrow> ds ! k = direct_blocks ?d ! k" and fc: "free_count b = free_count b1 + sectors_missing ?d ?n"
    by blast
  have m1: "mounted b1 s1" and mono: "\<And>t. taken b t \<Longrightarrow> taken b1 t" and i1: "inode_at s1 p = Some i1" and key: "in_sector i1 = in_sector i"
    using r(2,3,4) by (auto simp: extends_def small_file_def inode_key_def)
  let ?d2 = "?d\<lparr>direct_blocks := ds, id_length := ?n\<rparr>" let ?i2 = "i\<lparr>in_data := ?d2\<rparr>"
  have i2: "i1\<lparr>in_data := e\<rparr> = i\<lparr>in_data := e\<rparr>" "in_data i1\<lparr>id_length := ?n\<rparr> = ?d2" for e
    using r(4,5) by (cases i; cases i1; simp add: inode_key_def)+
  have n0: "0 \<le> ?n" using ofs(1) by simp
  have "\<forall>k < ?l. direct_blocks (in_data i1) ! k \<noteq> 0" using full r(5) by simp
  from append_length [OF m1 r(3) n0 fits this, unfolded i2 key] obtain s2 where
    s2: "buffer_cache_write (in_sector i) (inode_image ?d2) (put_inode p ?i2 s1) = Some s2" "mounted b1 s2"
      "small_file b1 p ?i2 s2" "cache_view s2 = (cache_view s1)(in_sector i := inode_image ?d2)"
      "frame {in_sector i} s1 s2" "quiet {p} s1 s2"
    by blast
  have ext: "extend_inode (free_map_allocate 1) p ?n s = Some (True, s2)"
    using r(1) i1 s2(1) key i2 by (simp add: extend_inode_def)
  have at2: "inode_at s2 p = Some ?i2" using s2(3) by (simp add: small_file_def)
  have d2: "in_data ?i2 = ?d2" by simp
  note ok2 = small_file_ok [OF s2(2,3), where v = "cache_view s2", unfolded d2]
  have inv2: "cache_inv s2" using s2(2) by (simp add: mounted_def map_ok_def)
  have "0 \<le> int (length buf)" "offset + int (length buf) \<le> id_length ?d2" "int (length buf) \<le> int (length buf)" by simp_all
  from write_loop_spec [OF inv2 ok2(1) ofs(1) this] obtain s3 where
    s3: "write_loop ?d2 buf (int (length buf)) offset s2 = Some (int (length buf), s3)"
      "stores (data_sectors (cache_view s2) ?d2) s2 s3"
      "content (cache_view s3) ?d2 = overlay (nat offset) buf (content (cache_view s2) ?d2)"
    by auto
  have u: "sectors_used ?d2 = ?l" by (simp add: sectors_used_def)
  have l: "?l \<le> 123" using fits by (simp add: DIV_ROUND_UP_def BLOCK_SECTOR_SIZE_def)
  have ds: "data_sectors v ?d2 = (\<lambda>k. ds ! k) ` {..<?l}" for v using small_sectors(3) [of ?d2 v] u l by simp
  note m3 = mounted_stores [OF s2(2) s3(2) ok2(2)] and f3 = stores_frame [OF s2(2) s3(2) ok2(2)]
  have small3: "small_file b1 p ?i2 s3" by (rule small_file_stores [OF s2(3) s3(2) m3(2)])
  have mine: "t \<in> ?own \<or> \<not> taken b t" if t: "t \<in> data_sectors v ?d2" for t v
  proof -
    obtain k where k: "k < ?l" "t = ds ! k" using t ds by auto
    then have k123: "k < 123" "ds ! k \<noteq> 0" using l full by simp_all
    then show ?thesis using kind k(2) l123 by (cases "direct_blocks ?d ! k = 0") (auto simp: own_sectors_def)
  qed
  have notown: "in_sector i \<notin> data_sectors (cache_view s2) ?d2"
  proof
    assume "in_sector i \<in> data_sectors (cache_view s2) ?d2"
    then obtain x where x: "x < ?l" "in_sector i = ds ! x" using ds by auto
    then have "x < 123" "ds ! x \<noteq> 0" using l full by simp_all
    moreover have "\<forall>k < 123. ds ! k \<noteq> 0 \<longrightarrow> ds ! k \<noteq> in_sector i" using s2(3) by (simp add: small_file_def)
    ultimately show False using x(2) by metis
  qed
  let ?W = "?own \<union> {t. \<not> taken b t}"
  have fr: "frame ?W s s3"
  proof (rule frame_trans [OF frame_trans])
    show "frame ?W s s1" by (rule frame_mono [OF extends_frame [OF r(2)]]) simp
    show "frame ?W s1 s2" by (rule frame_mono [OF s2(5)]) (simp add: own_sectors_def)
    show "frame ?W s2 s3" by (rule frame_mono [OF f3(1)]) (use mine in auto)
  qed
  have q: "quiet {p} s s3"
    by (rule quiet_trans [OF quiet_trans [OF extends_quiet(2) [OF r(2)] s2(6)] quiet_mono [OF f3(2)]]) simp
  have u1: "sectors_used ?d \<le> 123" using f small_used by (simp add: small_file_def)
  have "take (nat (id_length ?d)) (content (cache_view s2) ?d2) = content (cache_view s) ?d"
  proof (rule content_prefix [OF u1 _ len0])
    fix k assume k: "k < sectors_used ?d"
    then have "k < 123" "direct_blocks ?d ! k \<noteq> 0" using u1 f by (simp_all add: small_file_def)
    moreover from this have "direct_blocks ?d ! k \<notin> map_all s" "direct_blocks ?d ! k \<noteq> in_sector i" "taken b (direct_blocks ?d ! k)"
      using f by (auto simp: small_file_def)
    ultimately show "direct_blocks ?d2 ! k = direct_blocks ?d ! k \<and> cache_view s2 (direct_blocks ?d ! k) = cache_view s (direct_blocks ?d ! k)"
      using kind s2(4) frame_keeps [OF extends_frame [OF r(2)]] by simp
  qed (use ofs u l in simp_all)
  then have "take (nat offset) (content (cache_view s2) ?d2) = take (nat offset) (content (cache_view s) ?d)"
    using take_take [of "nat offset" "nat (id_length ?d)" "content (cache_view s2) ?d2"] nat_mono [OF ofs(2)] by (simp add: min_absorb1)
  then have c: "content (cache_view s3) ?d2 = take (nat offset) (content (cache_view s) ?d) @ buf"
    unfolding s3(3) overlay_def using ofs by simp
  have "off32 ?n = Some ?n" "off32 (?n - 1) = Some (?n - 1)" using ofs fits by (simp_all add: off32_def)
  then have run: "inode_write_at (free_map_allocate 1) p (\<lambda>_. Some buf) (int (length buf)) offset s = Some (int (length buf), s3)"
    using i past_end [of ?d "?n - 1" s] ofs len0 ext at2 s3(1) by (simp add: inode_write_at_def)
  have "cache_view s3 (in_sector i) = inode_image ?d2" using notown s3(2) s2(4) by (simp add: stores_def)
  then show ?thesis
    using run m3(1) small3 c mono r(6) full kind high fr q fc by (intro exI [of _ b1] exI [of _ ds] exI [of _ s3]) (simp add: Let_def)
qed

text \<open>
  C5: Writing across the end of a small file with enough free sectors: every byte is written, the file ends where the
  write ends, its content is the old content up to the offset followed by the buffer, and its inode is saved. The
  sectors it gains were free before and are marked in the saved map; it shares none with the map or its own inode,
  and every other sector in use keeps its bytes. No assertion fails.
\<close>

theorem inode_append:
  assumes m: "mounted b s" and f: "small_file b p i s"
    and ofs: "0 \<le> offset" "offset \<le> id_length (in_data i)" "id_length (in_data i) < offset + int (length buf)"
    and fits: "offset + int (length buf) \<le> 512 * 123"
    and room: "sectors_missing (in_data i) (offset + int (length buf)) \<le> free_count b"
  shows "\<exists>b' i' s'. inode_write_at (free_map_allocate 1) p (\<lambda>_. Some buf) (int (length buf)) offset s = Some (int (length buf), s') \<and>
    mounted b' s' \<and> small_file b' p i' s' \<and> in_sector i' = in_sector i \<and>
    id_length (in_data i') = offset + int (length buf) \<and>
    content (cache_view s') (in_data i') = take (nat offset) (content (cache_view s) (in_data i)) @ buf \<and>
    cache_view s' (in_sector i) = inode_image (in_data i') \<and> (\<forall>t. taken b t \<longrightarrow> taken b' t) \<and>
    (\<forall>t \<in> data_sectors (cache_view s') (in_data i'). t \<in> set (direct_blocks (in_data i)) \<or> \<not> taken b t \<and> taken b' t) \<and>
    (\<forall>t. taken b t \<and> t \<notin> map_all s \<and> t \<noteq> in_sector i \<and> t \<notin> set (direct_blocks (in_data i)) \<longrightarrow>
       cache_view s' t = cache_view s t) \<and> console s' = console s"
proof -
  let ?n = "offset + int (length buf)"
  from append_spec [OF assms] obtain b' ds s' where
    s': "inode_write_at (free_map_allocate 1) p (\<lambda>_. Some buf) (int (length buf)) offset s = Some (int (length buf), s')"
      "mounted b' s'" "\<forall>t. taken b t \<longrightarrow> taken b' t"
      "frame (own_sectors (in_sector i) (in_data i) \<union> {t. \<not> taken b t}) s s'"
      "\<forall>k < 123. if direct_blocks (in_data i) ! k \<noteq> 0 then ds ! k = direct_blocks (in_data i) ! k else ds ! k = 0 \<or> \<not> taken b (ds ! k)"
      "\<forall>k < DIV_ROUND_UP (nat ?n) BLOCK_SECTOR_SIZE. ds ! k \<noteq> 0"
    and i': "let i' = i\<lparr>in_data := (in_data i)\<lparr>direct_blocks := ds, id_length := ?n\<rparr>\<rparr> in
       small_file b' p i' s' \<and> cache_view s' (in_sector i) = inode_image (in_data i') \<and>
       content (cache_view s') (in_data i') = take (nat offset) (content (cache_view s) (in_data i)) @ buf" by blast
  let ?i = "i\<lparr>in_data := (in_data i)\<lparr>direct_blocks := ds, id_length := ?n\<rparr>\<rparr>"
  have len: "length (direct_blocks (in_data i)) = 123" using f by (simp add: small_file_def disk_typed_def DIRECT_BLOCKS_COUNT_def)
  have l: "DIV_ROUND_UP (nat ?n) BLOCK_SECTOR_SIZE \<le> 123" using fits by (simp add: DIV_ROUND_UP_def BLOCK_SECTOR_SIZE_def)
  then have u: "sectors_used (in_data ?i) \<le> 123" by (simp add: sectors_used_def)
  note ok = small_file_ok(3) [where v = "cache_view s'" and i = ?i, OF s'(2)]
  have "t \<in> set (direct_blocks (in_data i)) \<or> \<not> taken b t \<and> taken b' t" if t: "t \<in> data_sectors (cache_view s') (in_data ?i)" for t
  proof -
    obtain k where k: "k < DIV_ROUND_UP (nat ?n) BLOCK_SECTOR_SIZE" "t = ds ! k"
      using t small_sectors(3) [OF u] by (auto simp: sectors_used_def)
    then have "k < 123" "ds ! k \<noteq> 0" using l s'(6) by simp_all
    then show ?thesis using s'(5) k(2) len ok [OF _ t] i' by (cases "direct_blocks (in_data i) ! k = 0") (auto simp: Let_def)
  qed
  moreover have "console s' = console s" "\<forall>t. taken b t \<and> t \<notin> map_all s \<and> t \<noteq> in_sector i \<and> t \<notin> set (direct_blocks (in_data i)) \<longrightarrow>
      cache_view s' t = cache_view s t" using s'(4) by (auto simp: frame_def own_sectors_def)
  ultimately show ?thesis using s'(1-3) i' by (intro exI [of _ b'] exI [of _ ?i] exI [of _ s']) (simp add: Let_def)
qed

text \<open>
  A mounted disk of six sectors: the file of 600 bytes of \<open>sample_inode\<close> in the sectors 2 and 3, the map in sector 4,
  sector 5 free.
\<close>

definition map_disk :: inode_disk where
  "map_disk = \<lparr>direct_blocks = 4 # replicate 122 0, indirect_block = 0, doubly_indirect_block = 0,
     is_dir = False, id_pad = [0, 0, 0], id_length = 8, magic = INODE_MAGIC\<rparr>"

definition growing_fs :: files where
  "growing_fs =
     \<lparr>console = [], hd_file = replicate 2048 0 @ [31] @ replicate 1023 0,
      blocks = [\<lparr>bd_name = ''hda'', bd_fname = ''disk'', bd_size = 6, bd_ops = Ide, read_cnt = 0, write_cnt = 0\<rparr>],
      hard_drive = Some 0, fs_device = Some 0,
      cache = replicate 64 \<lparr>occupied = False, disk_sector = 0, buffer = replicate 512 0, dirty = False, accessed = False\<rparr>,
      clock = 0,
      inode_heap = [Some sample_inode, Some \<lparr>in_sector = 0, open_cnt = 1, removed = False, deny_write_cnt = 0, in_data = map_disk\<rparr>],
      disk_heap = [], block_stack = [], open_inodes = [1, 0], free_map = Some \<lparr>bit_cnt = 6, bits = [31]\<rparr>, free_map_file = Some 0,
      file_heap = [Some \<lparr>f_inode = 1, f_pos = 0, f_deny_write = False\<rparr>], file_table = []\<rparr>"

lemma growing_cache: "cache_inv growing_fs" "cache_view growing_fs = disk_sector_at growing_fs" "fs_capacity growing_fs = 6"
proof -
  have "cache_inv (buffer_cache_init growing_fs) \<and> cache_view (buffer_cache_init growing_fs) = disk_sector_at growing_fs"
    by (rule buffer_cache_init_spec)
      (simp_all add: growing_fs_def device_ok_def raw_disk_def BUFFER_CACHE_SIZE_def BLOCK_SECTOR_SIZE_def)
  moreover have "buffer_cache_init growing_fs = growing_fs" by (simp add: buffer_cache_init_def growing_fs_def)
  ultimately show "cache_inv growing_fs" "cache_view growing_fs = disk_sector_at growing_fs" by simp_all
  show "fs_capacity growing_fs = 6" by (simp add: growing_fs_def fs_capacity_def disk_capacity_def)
qed

lemma map_disk_sectors: "sectors_used map_disk = 1" "all_sectors v map_disk = {4}" "file_ok v 6 map_disk"
proof -
  show n: "sectors_used map_disk = 1"
    by (simp add: sectors_used_def DIV_ROUND_UP_def BLOCK_SECTOR_SIZE_def map_disk_def)
  have le: "sectors_used map_disk \<le> 123" using n by simp
  have d: "data_sectors v map_disk = {4}" unfolding small_sectors(3) [OF le] n by (simp add: map_disk_def lessThan_Suc)
  have t: "table_sectors v map_disk 1 = {}" using small_sectors(1) [OF le, of v] n by simp
  show "all_sectors v map_disk = {4}" using d t n by (simp add: all_sectors_def)
  have "inj_on (sector_of v map_disk) {..<1}" by (simp add: inj_on_def)
  then show "file_ok v 6 map_disk" using d t by (simp add: file_ok_def n) (simp add: map_disk_def)
qed

lemma growing_map: "map_inode growing_fs = Some (1, \<lparr>in_sector = 0, open_cnt = 1, removed = False, deny_write_cnt = 0, in_data = map_disk\<rparr>)"
  "map_all growing_fs = {4}"
  using map_disk_sectors(2)
  by (simp_all add: map_all_def, simp_all add: map_inode_def growing_fs_def file_at_def inode_at_def)

lemma growing_taken: "taken \<lparr>bit_cnt = 6, bits = [31]\<rparr> t \<longleftrightarrow> unat t < 5"
proof -
  have b: "bits_of \<lparr>bit_cnt = 6, bits = [31 :: 64 word]\<rparr> = [True, True, True, True, True, False]" by code_simp
  show ?thesis unfolding taken_def b by (auto simp: nth_Cons' split: if_splits)
qed

lemma growing_mounted: "mounted \<lparr>bit_cnt = 6, bits = [31]\<rparr> growing_fs"
proof -
  have four: "disk_sector_at growing_fs 4 = 31 # replicate 511 0"
    by (simp add: disk_sector_at_def growing_fs_def)
  have eight: "[0..<nat (id_length map_disk)] = [0, 1, 2, 3, 4, 5, 6, 7]" by (simp add: map_disk_def upt_rec)
  have sec: "sector_of v map_disk 0 = 4" for v by (simp add: sector_of_def map_disk_def)
  have "bytes_of_words 8 [31 :: 64 word] = [31, 0, 0, 0, 0, 0, 0, 0]" by code_simp
  then have saved: "content (cache_view growing_fs) map_disk = bytes_of_words 8 [31 :: 64 word]"
    unfolding content_def eight by (simp add: growing_cache(2) sec four nth_Cons')
  have f: "free_map growing_fs = Some \<lparr>bit_cnt = 6, bits = [31]\<rparr>" by (simp add: growing_fs_def)
  have "map_file_ok \<lparr>bit_cnt = 6, bits = [31]\<rparr> growing_fs"
    unfolding map_file_ok_def growing_cache(3) using growing_map(1) map_disk_sectors(2,3) growing_taken
    by (simp add: map_disk_def byte_cnt_def elem_cnt_def DIV_ROUND_UP_def ELEM_BITS_def)
  then show ?thesis
    using growing_cache growing_map growing_taken saved f
    by (simp add: mounted_def map_ok_def map_saved_def wf_bitmap_def elem_cnt_def DIV_ROUND_UP_def ELEM_BITS_def
        BITMAP_ERROR_def FREE_MAP_SECTOR_def)
qed

lemma growing_small: "small_file \<lparr>bit_cnt = 6, bits = [31]\<rparr> 0 sample_inode growing_fs"
proof -
  have at: "direct_blocks sample_disk ! k = (if k = 0 then 2 else if k = 1 then 3 else 0)" if "k < 123" for k
    using that by (simp add: sample_disk_def nth_Cons')
  have used: "sectors_used sample_disk = 2"
    by (simp add: sectors_used_def DIV_ROUND_UP_def BLOCK_SECTOR_SIZE_def sample_disk_def)
  have typed: "disk_typed sample_disk" by (simp add: disk_typed_def sample_disk_def DIRECT_BLOCKS_COUNT_def off32_def)
  have i: "in_data sample_inode = sample_disk" "in_sector sample_inode = 1" "deny_write_cnt sample_inode = 0"
      "inode_at growing_fs 0 = Some sample_inode" "id_length sample_disk = 600"
    by (simp_all add: sample_inode_def growing_fs_def inode_at_def sample_disk_def)
  have "map_elsewhere (Data_of 0) growing_fs" by (simp add: map_elsewhere_def growing_fs_def file_at_def)
  then show ?thesis
    unfolding small_file_def i growing_map(2) growing_taken
    using typed by (simp add: i used) (auto simp: at split: if_splits)
qed

theorem inode_append_witness:
  "\<exists>b' i' s'. inode_write_at (free_map_allocate 1) 0 (\<lambda>_. Some (replicate 425 7)) 425 600 growing_fs = Some (425, s') \<and>
    mounted b' s' \<and> inode_at s' 0 = Some i' \<and> id_length (in_data i') = 1025 \<and>
    content (cache_view s') (in_data i') = content (cache_view growing_fs) sample_disk @ replicate 425 7 \<and> console s' = []"
proof -
  let ?b = "\<lparr>bit_cnt = 6, bits = [31 :: 64 word]\<rparr>"
  have d: "in_data sample_inode = sample_disk" "id_length sample_disk = 600" by (simp_all add: sample_inode_def sample_disk_def)
  have b: "bits_of ?b = [True, True, True, True, True, False]" by code_simp
  have "direct_blocks sample_disk = 2 # 3 # replicate 121 0" by (simp add: sample_disk_def)
  then have "sectors_missing sample_disk 1025 = 1" "free_count ?b = 1"
    by (simp_all add: sectors_missing_def DIV_ROUND_UP_def BLOCK_SECTOR_SIZE_def upt_rec free_count_def count_bits_def b)
  moreover have "length (content (cache_view growing_fs) sample_disk) = 600" by (simp add: d)
  moreover have "console growing_fs = []" by (simp add: growing_fs_def)
  ultimately show ?thesis
    using inode_append [OF growing_mounted growing_small, of 600 "replicate 425 7"] d
    by (simp add: small_file_def) blast
qed

end
