(* ===== verification/File_Removal.thy ===== *)
theory File_Removal
  imports File_Append
begin

text \<open>
  The end of a file that needs no block tables: when the last opener of a removed inode closes it, its sectors become
  free in the saved map and nothing else changes.
\<close>

section \<open>Releasing sectors\<close>

definition frees :: "sector set \<Rightarrow> bitmap \<Rightarrow> 'a files_scheme \<Rightarrow> bitmap \<Rightarrow> 'a files_scheme \<Rightarrow> bool" where
  "frees S b s b' s' \<longleftrightarrow> mounted b' s' \<and> (\<forall>t. taken b' t \<longleftrightarrow> taken b t \<and> t \<notin> S) \<and> map_all s' = map_all s \<and>
     (\<forall>t. t \<notin> map_all s \<longrightarrow> cache_view s' t = cache_view s t) \<and> console s' = console s \<and>
     free_map_file s' = free_map_file s \<and> file_heap s' = file_heap s \<and> inode_heap s' = inode_heap s \<and>
     open_inodes s' = open_inodes s \<and> fs_capacity s' = fs_capacity s \<and> file_table s' = file_table s \<and>
     files.more s' = files.more s \<and> (\<forall>t \<in> S. taken b t) \<and> free_count b' = free_count b + card S"

lemma frees_refl: "mounted b s \<Longrightarrow> frees {} b s b s"
  by (simp add: frees_def)

lemma frees_trans:
  assumes "frees S b s b1 s1" and "frees T b1 s1 b2 s2"
  shows "frees (S \<union> T) b s b2 s2"
proof -
  have "S \<inter> T = {}" using assms by (auto simp: frees_def)
  then have "card (S \<union> T) = card S + card T" by (intro card_Un_disjoint) simp_all
  then show ?thesis using assms by (auto simp: frees_def)
qed

lemma frees_inode_at: "frees S b s b' s' \<Longrightarrow> inode_at s' p = inode_at s p"
  by (simp add: frees_def inode_at_def)

lemma release_one:
  assumes m: "mounted b s" and f: "free_map_file s \<noteq> None"
    and sec: "taken b sec" "sec \<notin> map_all s" "sec \<noteq> FREE_MAP_SECTOR"
  shows "\<exists>b' s'. free_map_release sec 1 s = Some s' \<and> frees {sec} b s b' s'"
proof -
  have ok: "map_ok b s" using m by (simp add: mounted_def)
  have "sec \<notin> all_sectors (cache_view s) (in_data i)" if "map_inode s = Some (p, i)" for p i
    using sec(2) that by (simp add: map_all_def)
  then obtain b' s' where
    r: "free_map_release sec 1 s = Some s'" "bits_of b' = (bits_of b)[unat sec := False]" "bit_cnt b' = bit_cnt b"
      "map_ok b' s'" "stores (map_sectors s) (s\<lparr>free_map := Some b'\<rparr>) s'" "map_all s' = map_all s" "map_saved b' s'"
    using release_spec [OF ok sec(1) f] by blast
  have t: "taken b' x \<longleftrightarrow> taken b x \<and> x \<noteq> sec" for x
    using taken_set [OF r(2,3), of x] by (simp add: unsigned_word_eqI) (metis word_unat_eq_iff)
  have "mounted b' s'" using m r(4,7) t sec(3) by (auto simp: mounted_def)
  moreover have "\<forall>x. x \<notin> map_all s \<longrightarrow> cache_view s' x = cache_view s x"
    using r(5) map_sectors_all [of s] by (auto simp: stores_def)
  moreover have "free_map_file s' = free_map_file s" "file_heap s' = file_heap s" "inode_heap s' = inode_heap s"
      "open_inodes s' = open_inodes s" using same_files [OF stores_more [OF r(5)]] by simp_all
  moreover have "file_table s' = file_table s" "files.more s' = files.more s"
    using same_files [OF stores_more [OF r(5)]] by simp_all
  moreover have "console s' = console s" "fs_capacity s' = fs_capacity s" using r(5) by (simp_all add: stores_def)
  moreover have "free_count b' = free_count b + card {sec}"
    using free_count_release [OF _ _ r(2,3)] sec(1) by (simp add: taken_def del: nth_bits_of)
  ultimately show ?thesis using r(1,6) t sec(1) by (intro exI [of _ b'] exI [of _ s']) (auto simp: frees_def)
qed

lemma release_direct_frees:
  assumes "mounted b s" and "free_map_file s \<noteq> None" and "inode_at s p = Some i" and "distinct ks"
    and "\<forall>k \<in> set ks. k < length (direct_blocks (in_data i)) \<and> taken b (direct_blocks (in_data i) ! k) \<and>
        direct_blocks (in_data i) ! k \<notin> map_all s \<and> direct_blocks (in_data i) ! k \<noteq> FREE_MAP_SECTOR"
    and "inj_on (\<lambda>k. direct_blocks (in_data i) ! k) (set ks)"
  shows "\<exists>b' s'. release_direct p ks s = Some s' \<and> frees ((\<lambda>k. direct_blocks (in_data i) ! k) ` set ks) b s b' s'"
  using assms
proof (induction ks arbitrary: b s)
  case Nil
  then show ?case using frees_refl by auto
next
  case (Cons k ks)
  let ?x = "direct_blocks (in_data i) ! k"
  have k: "rd (direct_blocks (in_data i)) k = Some ?x" using Cons.prems(5) by (simp add: rd_def)
  obtain b1 s1 where s1: "free_map_release ?x 1 s = Some s1" "frees {?x} b s b1 s1"
    using release_one [OF Cons.prems(1,2), of ?x] Cons.prems(5) by auto
  have ne: "direct_blocks (in_data i) ! j \<noteq> ?x" if "j \<in> set ks" for j
    using that Cons.prems(4,6) by (auto simp: inj_on_def)
  have "\<exists>b' s'. release_direct p ks s1 = Some s' \<and> frees ((\<lambda>k. direct_blocks (in_data i) ! k) ` set ks) b1 s1 b' s'"
  proof (rule Cons.IH)
    show "inode_at s1 p = Some i" using frees_inode_at [OF s1(2)] Cons.prems(3) by simp
    show "mounted b1 s1" "free_map_file s1 \<noteq> None" using s1(2) Cons.prems(2) by (simp_all add: frees_def)
    show "distinct ks" "inj_on (\<lambda>k. direct_blocks (in_data i) ! k) (set ks)" using Cons.prems(4,6) by simp_all
    show "\<forall>k \<in> set ks. k < length (direct_blocks (in_data i)) \<and> taken b1 (direct_blocks (in_data i) ! k) \<and>
        direct_blocks (in_data i) ! k \<notin> map_all s1 \<and> direct_blocks (in_data i) ! k \<noteq> FREE_MAP_SECTOR"
      using Cons.prems(5) ne s1(2) by (auto simp: frees_def)
  qed
  then obtain b' s' where "release_direct p ks s1 = Some s'" "frees ((\<lambda>k. direct_blocks (in_data i) ! k) ` set ks) b1 s1 b' s'" by blast
  with frees_trans [OF s1(2) this(2)] s1(1) k Cons.prems(3) show ?case by auto
qed

lemma deallocate_small:
  assumes m: "mounted b s" and f: "free_map_file s \<noteq> None" and i: "inode_at s p = Some i"
    and len: "0 \<le> id_length (in_data i)" "id_length (in_data i) \<le> 512 * 123" "length (direct_blocks (in_data i)) = 123"
    and own: "\<forall>k < sectors_used (in_data i). taken b (direct_blocks (in_data i) ! k) \<and>
        direct_blocks (in_data i) ! k \<notin> map_all s \<and> direct_blocks (in_data i) ! k \<noteq> FREE_MAP_SECTOR"
    and inj: "inj_on (\<lambda>k. direct_blocks (in_data i) ! k) {..<sectors_used (in_data i)}"
  shows "\<exists>b' s'. inode_deallocate p s = Some (True, s') \<and> frees (data_sectors v (in_data i)) b s b' s'"
proof -
  let ?n = "sectors_used (in_data i)"
  have n: "?n \<le> 123" by (rule small_used [OF len(2)])
  have e: "set [0..<?n] = {..<?n}" by auto
  have "\<forall>k \<in> set [0..<?n]. k < length (direct_blocks (in_data i)) \<and> taken b (direct_blocks (in_data i) ! k) \<and>
        direct_blocks (in_data i) ! k \<notin> map_all s \<and> direct_blocks (in_data i) ! k \<noteq> FREE_MAP_SECTOR"
    using own n len(3) by auto
  from release_direct_frees [OF m f i distinct_upt this] inj obtain b' s' where
    s': "release_direct p [0..<?n] s = Some s'" "frees (data_sectors v (in_data i)) b s b' s'"
    unfolding e small_sectors(3) [OF n] by blast
  have "off32 (id_length (in_data i) + int BLOCK_SECTOR_SIZE) = Some (id_length (in_data i) + int BLOCK_SECTOR_SIZE)"
    using len by (simp add: off32_def BLOCK_SECTOR_SIZE_def)
  then have "bytes_to_sectors (id_length (in_data i)) = Some ?n"
    using len by (simp add: bytes_to_sectors_def sectors_used_def)
  moreover have "inode_at s' p = Some i" using frees_inode_at [OF s'(2)] i by simp
  ultimately have "inode_deallocate p s = Some (True, s')"
    using i len n s'(1) by (simp add: inode_deallocate_def DIRECT_BLOCKS_COUNT_def min_def)
  then show ?thesis using s'(2) by blast
qed

section \<open>Closing a removed inode\<close>

lemma mounted_elsewhere:
  \<comment> \<open>the inode at \<open>p\<close>, which is not that of the map, changes or goes\<close>
  assumes m: "mounted b s" and e: "map_elsewhere (Data_of p) s" and st: "s' = s\<lparr>inode_heap := (inode_heap s)[p := j], open_inodes := os\<rparr>"
  shows "mounted b s'" and "map_all s' = map_all s"
proof -
  have at: "inode_at s' q = inode_at s q" if "q \<noteq> p" for q using that by (simp add: st inode_at_def rd_def)
  have same: "file_at s' f = file_at s f" "free_map_file s' = free_map_file s" for f by (simp_all add: st file_at_def)
  have "map_inode s' = map_inode s"
  proof (cases "free_map_file s")
    case (Some f)
    show ?thesis
    proof (cases "file_at s f")
      case x: (Some x)
      then have "f_inode x \<noteq> p" using e Some by (auto simp: map_elsewhere_def)
      then show ?thesis using Some x at same by (simp add: map_inode_def)
    qed (simp add: map_inode_def same Some)
  qed (simp add: map_inode_def same)
  moreover have "cache_inv s' = cache_inv s" "cache_view s' = cache_view s" "fs_capacity s' = fs_capacity s"
    by (rule same_cache; simp add: st)+
  ultimately show "mounted b s'" "map_all s' = map_all s" using mounted_cong [of s' s] m by (simp_all add: st)
qed

lemma elsewhere_kept: "map_elsewhere r s \<Longrightarrow> free_map_file s' = free_map_file s \<Longrightarrow> file_heap s' = file_heap s \<Longrightarrow> map_elsewhere r s'"
  by (simp add: map_elsewhere_def file_at_def)

lemma close_removed:
  assumes m: "mounted b s" and f: "small_file b p i s" and one: "open_cnt i = 1"
    and mf: "free_map_file s \<noteq> None" and sec: "in_sector i \<noteq> FREE_MAP_SECTOR"
  shows "\<exists>b' s'. do { s \<leftarrow> inode_remove p s; inode_close (Some p) s } = Some s' \<and> mounted b' s' \<and>
    (\<forall>t. taken b' t \<longleftrightarrow> taken b t \<and> t \<notin> insert (in_sector i) (data_sectors (cache_view s) (in_data i))) \<and>
    frame {} s s' \<and> inode_at s' p = None \<and> open_inodes s' = remove1 p (open_inodes s) \<and>
    (\<forall>q. q \<noteq> p \<longrightarrow> inode_at s' q = inode_at s q) \<and> file_heap s' = file_heap s \<and> files.more s' = files.more s \<and>
    file_table s' = file_table s \<and> free_count b' = free_count b + sectors_used (in_data i) + 1"
proof -
  let ?d = "in_data i" let ?D = "data_sectors (cache_view s) ?d"
  have i: "inode_at s p = Some i" and e: "map_elsewhere (Data_of p) s" and n: "sectors_used ?d \<le> 123"
    and len: "0 \<le> id_length ?d" "id_length ?d \<le> 512 * 123" "length (direct_blocks ?d) = 123"
    using f small_used [of ?d] by (simp_all add: small_file_def disk_typed_def DIRECT_BLOCKS_COUNT_def)
  have p: "p < length (inode_heap s)" using i by (auto simp: inode_at_def rd_def split: if_splits)
  let ?i = "i\<lparr>removed := True, open_cnt := 0\<rparr>"
  let ?s = "s\<lparr>inode_heap := (inode_heap s)[p := Some ?i], open_inodes := remove1 p (open_inodes s)\<rparr>"
  have ms: "mounted b ?s" "map_all ?s = map_all s" by (rule mounted_elsewhere [OF m e refl])+
  have sm: "taken b (in_sector i)" "in_sector i \<notin> map_all s" using f by (simp_all add: small_file_def)
  have mf1: "free_map_file ?s \<noteq> None" using mf by simp
  from release_one [OF ms(1) mf1 sm(1) _ sec] obtain b1 s1 where
    s1: "free_map_release (in_sector i) 1 ?s = Some s1" "frees {in_sector i} b ?s b1 s1" using sm(2) ms(2) by auto
  have v: "cache_view ?s = cache_view s" "fs_capacity ?s = fs_capacity s" by (rule same_cache; simp)+
  have i1: "inode_at s1 p = Some ?i" using frees_inode_at [OF s1(2)] p by (simp add: inode_at_def rd_def)
  have own: "\<forall>k < sectors_used ?d. taken b1 (direct_blocks ?d ! k) \<and> direct_blocks ?d ! k \<notin> map_all s1 \<and>
      direct_blocks ?d ! k \<noteq> FREE_MAP_SECTOR"
    using f n s1(2) ms(2) by (auto simp: small_file_def frees_def FREE_MAP_SECTOR_def)
  have inj: "inj_on (\<lambda>k. direct_blocks ?d ! k) {..<sectors_used ?d}"
    using f n by (auto simp: inj_on_def small_file_def)
  have "mounted b1 s1" "free_map_file s1 \<noteq> None" using s1(2) mf by (simp_all add: frees_def)
  from deallocate_small [OF this i1, of "cache_view s"] len own inj obtain b2 s2 where
    s2: "inode_deallocate p s1 = Some (True, s2)" "frees ?D b1 s1 b2 s2" by auto
  let ?t = "s2\<lparr>inode_heap := (inode_heap s2)[p := None]\<rparr>"
  have fr: "frees (insert (in_sector i) ?D) b ?s b2 s2" using frees_trans [OF s1(2) s2(2)] by simp
  have "inode_remove p s = Some (put_inode p (i\<lparr>removed := True\<rparr>) s)" using i by (simp add: inode_remove_def)
  moreover have "inode_at (put_inode p (i\<lparr>removed := True\<rparr>) s) p = Some (i\<lparr>removed := True\<rparr>)"
    using inode_at_put_inode [OF i] by simp
  ultimately have run: "do { s \<leftarrow> inode_remove p s; inode_close (Some p) s } = Some ?t"
    using one s1(1) s2(1) by (simp add: inode_close_def put_inode_def)
  have "map_elsewhere (Data_of p) s2" using elsewhere_kept [OF e, of s2] fr by (simp add: frees_def)
  then have m2: "mounted b2 ?t" "map_all ?t = map_all s2"
    using fr by (intro mounted_elsewhere [of b2 s2 p ?t "open_inodes s2" None]; simp add: frees_def)+
  have vt: "cache_view ?t = cache_view s2" "fs_capacity ?t = fs_capacity s2" by (rule same_cache; simp)+
  have at: "inode_at ?t q = (if q = p then None else inode_at s q)" for q
    using fr p by (simp add: frees_def inode_at_def rd_def)
  have "direct_blocks ?d ! k \<noteq> in_sector i" if "k < sectors_used ?d" for k using f n that by (simp add: small_file_def)
  then have "in_sector i \<notin> ?D" unfolding small_sectors(3) [OF n] by force
  moreover have "card ?D = sectors_used ?d" unfolding small_sectors(3) [OF n] using inj by (simp add: card_image)
  ultimately have "card (insert (in_sector i) ?D) = sectors_used ?d + 1" by (simp add: card_insert_if)
  then have "free_count b2 = free_count b + sectors_used ?d + 1" using fr by (simp add: frees_def)
  moreover have "frame {} s ?t" using fr ms(2) m2(2) v vt by (simp add: frees_def frame_def)
  ultimately show ?thesis using run m2(1) at fr by (intro exI [of _ b2] exI [of _ ?t]) (simp add: frees_def)
qed

text \<open>
  C7: Removing a small file and closing its last opener: the sector of its inode and its data sectors become free in
  the map, which is saved, every other sector keeps its mark, and no byte outside the file of the map changes. The
  inode is gone, every other open inode stays, and no assertion fails.
\<close>

theorem removal_frees_sectors:
  assumes m: "mounted b s" and f: "small_file b p i s" and one: "open_cnt i = 1"
    and mf: "free_map_file s \<noteq> None" and sec: "in_sector i \<noteq> FREE_MAP_SECTOR"
  shows "\<exists>b' s'. do { s \<leftarrow> inode_remove p s; inode_close (Some p) s } = Some s' \<and> mounted b' s' \<and>
    (\<forall>t. taken b' t \<longleftrightarrow> taken b t \<and> t \<noteq> in_sector i \<and> t \<notin> data_sectors (cache_view s) (in_data i)) \<and>
    (\<forall>t. t \<notin> map_all s \<longrightarrow> cache_view s' t = cache_view s t) \<and>
    inode_at s' p = None \<and> open_inodes s' = remove1 p (open_inodes s) \<and>
    (\<forall>q. q \<noteq> p \<longrightarrow> inode_at s' q = inode_at s q) \<and> console s' = console s"
proof -
  from close_removed [OF assms] obtain b' s' where "do { s \<leftarrow> inode_remove p s; inode_close (Some p) s } = Some s'" "mounted b' s'"
    "\<forall>t. taken b' t \<longleftrightarrow> taken b t \<and> t \<notin> insert (in_sector i) (data_sectors (cache_view s) (in_data i))" "frame {} s s'"
    "inode_at s' p = None" "open_inodes s' = remove1 p (open_inodes s)" "\<forall>q. q \<noteq> p \<longrightarrow> inode_at s' q = inode_at s q" by blast
  then show ?thesis by (intro exI [of _ b'] exI [of _ s']) (simp add: frame_def)
qed

theorem removal_frees_sectors_witness:
  "\<exists>b' s'. do { s \<leftarrow> inode_remove 0 growing_fs; inode_close (Some 0) s } = Some s' \<and> inode_at s' 0 = None \<and> mounted b' s' \<and>
    \<not> taken b' 1 \<and> \<not> taken b' 2 \<and> \<not> taken b' 3 \<and> taken b' 0 \<and> taken b' 4 \<and> open_inodes s' = [1] \<and> console s' = []"
proof -
  have n: "sectors_used sample_disk = 2"
    by (simp add: sectors_used_def DIV_ROUND_UP_def BLOCK_SECTOR_SIZE_def sample_disk_def)
  have two: "{..<2 :: nat} = {0, 1}" by auto
  have d: "data_sectors v (in_data sample_inode) = {2, 3}" for v
    using small_sectors(3) [of sample_disk v] n two by (simp add: sample_inode_def) (simp add: sample_disk_def)
  have i: "open_cnt sample_inode = 1" "in_sector sample_inode = 1" "in_sector sample_inode \<noteq> FREE_MAP_SECTOR" "free_map_file growing_fs \<noteq> None"
    "open_inodes growing_fs = [1, 0]" "console growing_fs = []"
    by (simp_all add: sample_inode_def FREE_MAP_SECTOR_def growing_fs_def)
  from removal_frees_sectors [OF growing_mounted growing_small i(1,4,3)] show ?thesis
    unfolding d growing_taken i by (elim exE) (intro exI, auto)
qed

end
