(* ===== verification/Path_Buffers.thy ===== *)
theory Path_Buffers
  imports Directories
begin

text \<open>
  The buffers for the two parts of a path in \<open>filesys.c\<close>: when \<open>split_path_filename\<close> stays inside them.
\<close>

definition token_bytes :: "string list \<Rightarrow> nat" where
  "token_bytes ts = (\<Sum>t\<leftarrow>ts. length t)"

lemma path_tokens_nonempty: "[] \<notin> set (path_tokens p t)"
  by (induction p t rule: path_tokens.induct) auto

lemma path_tokens_bytes: "token_bytes (path_tokens p t) = length t + length (filter (\<lambda>c. c \<noteq> CHR ''/'') p)"
  by (induction p t rule: path_tokens.induct) (auto simp: token_bytes_def)

lemma path_tokens_room: "token_bytes (path_tokens p t) + length (path_tokens p t) \<le> length t + length p + 1"
  by (induction p t rule: path_tokens.induct) (auto simp: token_bytes_def)

lemma path_tokens_plain: "CHR ''/'' \<notin> set p \<Longrightarrow> path_tokens p t = (if t @ p = [] then [] else [t @ p])"
  by (induction p t rule: path_tokens.induct) auto

lemma split_tokens_bytes:
  "split_tokens d u ts = (directory, name) \<Longrightarrow> u \<noteq> [] \<Longrightarrow> [] \<notin> set ts \<Longrightarrow>
   length directory + length name = length d + length u + token_bytes ts + length ts \<and> length d \<le> length directory \<and>
   name \<in> set (u # ts)"
  by (induction d u ts rule: split_tokens.induct) (auto simp: token_bytes_def split: if_splits)

lemma split_path_parts:
  assumes "split_tokens d [] ts = (directory, name)" and "ts \<noteq> []" and "[] \<notin> set ts"
  shows "length directory + length name + 1 = length d + token_bytes ts + length ts" and "length d \<le> length directory"
    and "name \<in> set ts"
  using assms split_tokens_bytes [of d "hd ts" "tl ts" directory name] by (cases ts; auto simp: token_bytes_def)+

lemma member_bytes: "t \<in> set ts \<Longrightarrow> length t \<le> token_bytes ts"
  unfolding token_bytes_def by (simp add: member_le_sum_list)

lemma split_fits:
  assumes "split_tokens (if path \<noteq> [] \<and> hd path = CHR ''/'' then ''/'' else []) [] (path_tokens path []) = (directory, name)"
  shows "length directory \<le> length path" and "length name \<le> length path"
    and "CHR ''/'' \<in> set path \<Longrightarrow> path \<noteq> ''/'' \<Longrightarrow> length directory < length path \<and> length name < length path"
    and "CHR ''/'' \<notin> set path \<Longrightarrow> name = path"
proof -
  let ?ts = "path_tokens path []" let ?d = "if path \<noteq> [] \<and> hd path = CHR ''/'' then ''/'' else []"
  have room: "length ?d + token_bytes ?ts + length ?ts \<le> length path + 1"
  proof (cases "path \<noteq> [] \<and> hd path = CHR ''/''")
    case True
    then show ?thesis using path_tokens_room [of "tl path" "[]"] by (cases path) auto
  next
    case False
    then show ?thesis using path_tokens_room [of path "[]"] by auto
  qed
  have "length directory \<le> length path \<and> length name \<le> length path \<and>
    (CHR ''/'' \<in> set path \<longrightarrow> path \<noteq> ''/'' \<longrightarrow> length directory < length path \<and> length name < length path)"
  proof (cases "?ts = []")
    case True
    then have "directory = ?d" "name = []" using assms by auto
    then show ?thesis by (cases path) (auto split: if_splits)
  next
    case False
    note parts = split_path_parts [OF assms False path_tokens_nonempty]
    have "name \<noteq> []" using parts(3) path_tokens_nonempty [of path "[]"] by auto
    then have "0 < length name" by simp
    moreover have "length name \<le> length (filter (\<lambda>c. c \<noteq> CHR ''/'') path)"
      using member_bytes [OF parts(3)] path_tokens_bytes [of path "[]"] by simp
    moreover have "length (filter (\<lambda>c. c \<noteq> CHR ''/'') path) < length path" if "CHR ''/'' \<in> set path"
      using that by (simp add: length_filter_less)
    moreover have "length directory + length name \<le> length path" using parts(1) room by simp
    ultimately show ?thesis by (cases "CHR ''/'' \<in> set path") linarith+
  qed
  then show "length directory \<le> length path" "length name \<le> length path"
    "CHR ''/'' \<in> set path \<Longrightarrow> path \<noteq> ''/'' \<Longrightarrow> length directory < length path \<and> length name < length path" by blast+
  show "name = path" if "CHR ''/'' \<notin> set path"
    using assms path_tokens_plain [OF that, of "[]"] that by (cases path) auto
qed

lemma split_path_None:
  "split_path_filename (length path) (length path) path = None \<longleftrightarrow> CHR ''/'' \<notin> set path \<or> path = ''/''"
proof -
  obtain directory name where s: "split_tokens (if path \<noteq> [] \<and> hd path = CHR ''/'' then ''/'' else []) [] (path_tokens path []) =
      (directory, name)" by fastforce
  show ?thesis
  proof (cases "CHR ''/'' \<in> set path \<and> path \<noteq> ''/''")
    case True
    then show ?thesis using split_fits(3) [OF s] s by (simp add: split_path_filename_def)
  next
    case False
    then show ?thesis using split_fits(4) [OF s] s by (auto simp: split_path_filename_def)
  qed
qed

text \<open>
  C38: The buffers of \<open>filesys_create\<close> and \<open>filesys_remove\<close> have no room for the null byte: creating or removing a
  file by a plain name, or by \<open>/\<close>, writes behind its buffer, and these are the only names that do. The
  buffers of \<open>filesys_open\<close> hold the parts of every path. \<close>

theorem plain_name_overruns:
  "(CHR ''/'' \<notin> set path \<or> path = ''/'' \<longrightarrow> filesys_create stale path n d s = None \<and> filesys_remove path s = None) \<and>
   (CHR ''/'' \<in> set path \<and> path \<noteq> ''/'' \<longrightarrow> (\<exists>parts. split_path_filename (length path) (length path) path = Some parts)) \<and>
   (\<exists>parts. split_path_filename (length path + 1) (length path + 1) path = Some parts)"
proof -
  obtain directory name where s: "split_tokens (if path \<noteq> [] \<and> hd path = CHR ''/'' then ''/'' else []) [] (path_tokens path []) =
      (directory, name)" by fastforce
  then have "split_path_filename (length path + 1) (length path + 1) path = Some (directory, name)"
    using split_fits(1,2) [OF s] by (simp add: split_path_filename_def)
  then show ?thesis using split_path_None [of path] by (auto simp: filesys_create_def filesys_remove_def)
qed

theorem plain_name_overruns_witness:
  "(\<forall>s :: filesys. filesys_create [] ''notes'' 10 False s = None \<and> filesys_remove ''notes'' s = None) \<and>
   split_path_filename 6 6 ''notes'' = Some ([], ''notes'')"
proof (intro conjI allI)
  fix s :: filesys
  show "filesys_create [] ''notes'' 10 False s = None" "filesys_remove ''notes'' s = None"
    using plain_name_overruns [of "''notes''" "[]" 10 False s] by simp_all
qed (simp add: split_path_filename_def)

end
