(* ===== verification/File_Creation.thy ===== *)
theory File_Creation
  imports Dir_Props File_Removal Path_Buffers
begin

text \<open>
  Creating a file in the root directory and opening it, between states in which the directory is closed: its entry is
  new, its sectors were free, its content is zeros, and nothing else in use changes.
\<close>

section \<open>Sectors that stay\<close>

text \<open>A file whose sectors keep their bytes.\<close>

lemma same_sectors:
  assumes same: "\<And>t. t \<in> all_sectors v d \<Longrightarrow> v' t = v t" and len: "0 \<le> id_length d"
  shows "all_sectors v' d = all_sectors v d" and "data_sectors v' d = data_sectors v d" and "content v' d = content v d"
    and "file_ok v' cap d = file_ok v cap d"
proof -
  have t: "\<forall>t \<in> table_sectors v d (sectors_used d). v' t = v t" using same by (simp add: all_sectors_def)
  note at = table_sectors_cong(1) [OF t] and tab = table_sectors_cong(2) [OF t]
  show ds: "data_sectors v' d = data_sectors v d" unfolding data_sectors_def by (intro image_cong refl) (simp add: at)
  then show "all_sectors v' d = all_sectors v d" by (simp add: all_sectors_def tab)
  have "inj_on (sector_of v' d) {..<sectors_used d} = inj_on (sector_of v d) {..<sectors_used d}"
    by (intro inj_on_cong) (simp add: at)
  then show "file_ok v' cap d = file_ok v cap d" by (simp add: file_ok_def ds tab)
  have "v' (sector_of v' d (x div 512)) = v (sector_of v d (x div 512))" if "x < nat (id_length d)" for x
  proof -
    have k: "x div 512 < sectors_used d" using that used_iff [OF len, of "x div 512"] by linarith
    then have "sector_of v d (x div 512) \<in> all_sectors v d" by (simp add: all_sectors_def data_sectors_def)
    then show ?thesis using same at [OF k] by simp
  qed
  then show "content v' d = content v d" by (simp add: content_def)
qed

lemma same_entries:
  assumes "content v' d = content v d"
  shows "dir_ok v' d = dir_ok v d" and "dir_names v' d = dir_names v d" and "free_slots v' d = free_slots v d"
proof -
  have "Dir_Names.entry_at v' d = Dir_Names.entry_at v d" using assms by (intro ext) (simp add: Dir_Names.entry_at_def)
  then show "dir_ok v' d = dir_ok v d" "dir_names v' d = dir_names v d" "free_slots v' d = free_slots v d"
    by (simp_all only: dir_ok_def dir_names_def [abs_def] dir_entries_def free_slots_def)
qed

lemma dir_rep_frame:
  assumes rep: "dir_rep p x i m n s" and m: "mounted b' s'" and f: "frame W s s'"
    and objs: "inode_at s' (d_inode x) = Some i" "files.more s' = files.more s" "inodes_listed s'"
    and apart: "W \<inter> all_sectors (cache_view s) (in_data i) = {}" "map_all s \<inter> all_sectors (cache_view s) (in_data i) = {}"
  shows "dir_rep p x i m n s'" and "all_sectors (cache_view s') (in_data i) = all_sectors (cache_view s) (in_data i)"
    and "data_sectors (cache_view s') (in_data i) = data_sectors (cache_view s) (in_data i)"
proof -
  have same: "cache_view s' t = cache_view s t" if "t \<in> all_sectors (cache_view s) (in_data i)" for t
    by (rule frame_keeps [OF f]) (use apart that in auto)
  have len: "0 \<le> id_length (in_data i)" using rep by (simp add: dir_rep_def file_ok_def)
  note u = same_sectors [OF same len]
  show "all_sectors (cache_view s') (in_data i) = all_sectors (cache_view s) (in_data i)"
    "data_sectors (cache_view s') (in_data i) = data_sectors (cache_view s) (in_data i)" using u(1,2) by simp_all
  have "dir_at s' p = dir_at s p" using objs(2) by (cases s; cases s') (simp add: dir_at_def)
  moreover have "cache_inv s'" using m by (simp add: mounted_def map_ok_def)
  ultimately show "dir_rep p x i m n s'"
    using rep f objs u(4) same_entries [OF u(3)] by (simp add: dir_rep_def frame_def)
qed

lemma quiet_listed: "quiet {} s s' \<Longrightarrow> inodes_listed s \<Longrightarrow> inodes_listed s'"
  by (simp add: quiet_def inodes_listed_def)

section \<open>The inode of a new file\<close>

definition small_disk :: "bitmap \<Rightarrow> 'a files_scheme \<Rightarrow> sector \<Rightarrow> inode_disk \<Rightarrow> bool" where
  \<comment> \<open>what \<open>small_file\<close> asks of the sectors, for the inode \<open>d\<close> of sector \<open>sec\<close>\<close>
  "small_disk b s sec d \<longleftrightarrow> disk_typed d \<and> 0 \<le> id_length d \<and> id_length d \<le> 512 * 123 \<and>
     (\<forall>k < sectors_used d. direct_blocks d ! k \<noteq> 0) \<and>
     (\<forall>k < 123. direct_blocks d ! k \<noteq> 0 \<longrightarrow> taken b (direct_blocks d ! k) \<and>
        direct_blocks d ! k \<notin> map_all s \<and> direct_blocks d ! k \<noteq> sec) \<and>
     (\<forall>j < 123. \<forall>k < 123. direct_blocks d ! k \<noteq> 0 \<and> direct_blocks d ! j = direct_blocks d ! k \<longrightarrow> j = k) \<and>
     taken b sec \<and> sec \<notin> map_all s"

lemma small_file_disk:
  "small_file b p i s \<longleftrightarrow> inode_at s p = Some i \<and> deny_write_cnt i = 0 \<and> small_disk b s (in_sector i) (in_data i) \<and>
     map_elsewhere (Data_of p) s"
  by (auto simp: small_file_def small_disk_def)

definition new_disk :: "bool \<Rightarrow> int \<Rightarrow> sector list \<Rightarrow> inode_disk" where
  "new_disk dir len ds = \<lparr>direct_blocks = ds, indirect_block = 0, doubly_indirect_block = 0, is_dir = dir, id_pad = [0, 0, 0],
     id_length = len, magic = INODE_MAGIC\<rparr>"

lemma new_disk_simps [simp]:
  "direct_blocks (new_disk dir len ds) = ds" "id_length (new_disk dir len ds) = len" "is_dir (new_disk dir len ds) = dir"
  "sectors_used (new_disk dir len ds) = DIV_ROUND_UP (nat len) BLOCK_SECTOR_SIZE"
  by (simp_all add: new_disk_def sectors_used_def)

lemma mounted_objects:
  assumes "hd_file s' = hd_file s" and "blocks s' = blocks s" and "fs_device s' = fs_device s" and "cache s' = cache s"
    and "clock s' = clock s" and "free_map s' = free_map s" and "free_map_file s' = free_map_file s"
    and "file_heap s' = file_heap s" and "inode_heap s' = inode_heap s"
  shows "mounted b s' = mounted b s" and "map_all s' = map_all s"
proof -
  have "map_inode s' = map_inode s" using assms by (simp add: map_inode_def file_at_def inode_at_def)
  then show "mounted b s' = mounted b s" "map_all s' = map_all s"
    using mounted_cong [of s' s] same_cache [of s' s] assms by simp_all
qed

lemma inode_create_spec:
  assumes m: "mounted b s" and sec: "taken b sec" "sec \<notin> map_all s" and len: "0 \<le> len" "len \<le> 512 * 123"
    and room: "DIV_ROUND_UP (nat len) BLOCK_SECTOR_SIZE \<le> free_count b"
  shows "\<exists>b' s' ds. inode_create sec len dir s = Some (True, s') \<and> mounted b' s' \<and> (\<forall>t. taken b t \<longrightarrow> taken b' t) \<and>
    frame (insert sec {t. \<not> taken b t}) s s' \<and> quiet {} s s' \<and> small_disk b' s' sec (new_disk dir len ds) \<and>
    cache_view s' sec = inode_image (new_disk dir len ds) \<and>
    (\<forall>k < DIV_ROUND_UP (nat len) BLOCK_SECTOR_SIZE. \<not> taken b (ds ! k) \<and> cache_view s' (ds ! k) = zeros) \<and>
    (\<forall>k < 123. ds ! k \<noteq> 0 \<longrightarrow> \<not> taken b (ds ! k)) \<and>
    (\<forall>k < 123. DIV_ROUND_UP (nat len) BLOCK_SECTOR_SIZE \<le> k \<longrightarrow> ds ! k = 0) \<and>
    free_count b = free_count b' + DIV_ROUND_UP (nat len) BLOCK_SECTOR_SIZE"
proof -
  let ?l = "DIV_ROUND_UP (nat len) BLOCK_SECTOR_SIZE" let ?q = "length (disk_heap s)"
  let ?d = "new_disk dir len (replicate 123 0)"
  let ?s = "s\<lparr>disk_heap := disk_heap s @ [Some ?d]\<rparr>"
  have l: "?l \<le> 123" using len by (simp add: DIV_ROUND_UP_def BLOCK_SECTOR_SIZE_def)
  have m0: "mounted b ?s" "map_all ?s = map_all s" using mounted_objects [of ?s s] m by simp_all
  have v0: "cache_view ?s = cache_view s" "fs_capacity ?s = fs_capacity s" using same_cache [of ?s s] by simp_all
  have f0: "frame W s ?s" "quiet {} s ?s" for W using v0 m0(2) by (simp_all add: frame_def quiet_def inode_at_def)
  have d0: "disk_at ?s (Own ?q) = Some ?d" by (simp add: disk_at_def rd_def)
  have e0: "map_elsewhere (Own ?q) ?s" by (simp add: map_elsewhere_def)
  have idx: "\<forall>k \<in> set [0..<?l]. k < length (direct_blocks ?d)" using l by simp
  have "filter (\<lambda>k. direct_blocks ?d ! k = 0) [0..<?l] = [0..<?l]" using l by (simp add: filter_id_conv)
  then have fl: "length (filter (\<lambda>k. direct_blocks ?d ! k = 0) [0..<?l]) = ?l" by simp
  have "length (filter (\<lambda>k. direct_blocks ?d ! k = 0) [0..<?l]) \<le> free_count b" using room fl by simp
  from reserve_direct_spec [OF m0(1) d0 e0 distinct_upt idx this] obtain b' s1 ds where
    s1: "reserve_direct (free_map_allocate 1) (Own ?q) [0..<?l] ?s = Some (True, s1)" "extends (Own ?q) b ?s b' s1"
      "disk_at s1 (Own ?q) = Some (?d\<lparr>direct_blocks := ds\<rparr>)" "length ds = length (direct_blocks ?d)"
    and old: "\<forall>j < length ds. j \<notin> set [0..<?l] \<or> direct_blocks ?d ! j \<noteq> 0 \<longrightarrow> ds ! j = direct_blocks ?d ! j"
    and new: "\<forall>j \<in> set [0..<?l]. direct_blocks ?d ! j = 0 \<longrightarrow>
       ds ! j \<noteq> 0 \<and> \<not> taken b (ds ! j) \<and> taken b' (ds ! j) \<and> cache_view s1 (ds ! j) = zeros"
    and inj: "\<forall>i \<in> set [0..<?l]. \<forall>j \<in> set [0..<?l]. direct_blocks ?d ! i = 0 \<and> direct_blocks ?d ! j = 0 \<and> ds ! i = ds ! j \<longrightarrow> i = j"
    and fc: "free_count b = free_count b' + length (filter (\<lambda>i. direct_blocks ?d ! i = 0) [0..<?l])"
    by blast
  have ds: "length ds = 123" "?d\<lparr>direct_blocks := ds\<rparr> = new_disk dir len ds" using s1(4) by (simp_all add: new_disk_def)
  have hi: "ds ! k = 0" if "k < 123" "\<not> k < ?l" for k using old that ds(1) by simp
  have lo: "ds ! k \<noteq> 0 \<and> \<not> taken b (ds ! k) \<and> taken b' (ds ! k) \<and> cache_view s1 (ds ! k) = zeros" if "k < ?l" for k
    using new that l by simp
  have in1: "ds ! k \<noteq> 0 \<Longrightarrow> k < 123 \<Longrightarrow> k < ?l" for k using hi by blast
  have m1: "mounted b' s1" "map_all s1 = map_all s" using s1(2) m0(2) by (simp_all add: extends_def)
  have "frame {t. \<not> taken b t} s s1" by (rule frame_trans [OF f0(1) extends_frame [OF s1(2)]])
  then have f1: "frame (insert sec {t. \<not> taken b t}) s s1" by (rule frame_mono) auto
  have q1: "quiet {} s s1" by (rule quiet_trans [OF f0(2) extends_quiet(1) [OF s1(2)]])
  have mono: "taken b t \<Longrightarrow> taken b' t" for t using s1(2) by (simp add: extends_def)
  let ?n = "new_disk dir len ds"
  have typed: "disk_typed ?n" using ds len by (simp add: disk_typed_def new_disk_def DIRECT_BLOCKS_COUNT_def off32_def)
  then have li: "length (inode_image ?n) = 512" by (simp add: BLOCK_SECTOR_SIZE_def)
  have "cache_inv s1" "sec < fs_capacity s1" using m1 taken_in [of b' s1 sec] mono sec(1) by (auto simp: mounted_def map_ok_def)
  from write_after [OF keeps_refl [OF this(1)] this(2) li] obtain s2 where
    s2: "buffer_cache_write sec (inode_image ?n) s1 = Some s2" "stores {sec} s1 s2" "cache_view s2 = (cache_view s1)(sec := inode_image ?n)"
    by blast
  have apart: "{sec} \<inter> map_all s1 = {}" using sec(2) m1(2) by simp
  note m2 = mounted_stores [OF m1(1) s2(2) apart] and f2 = stores_frame [OF m1(1) s2(2) apart]
  let ?t = "s2\<lparr>disk_heap := (disk_heap s2)[?q := None]\<rparr>"
  have v3: "cache_view ?t = cache_view s2" "fs_capacity ?t = fs_capacity s2" using same_cache [of ?t s2] by simp_all
  have m3: "mounted b' ?t" "map_all ?t = map_all s" using mounted_objects [of ?t s2] m2 m1(2) by simp_all
  have f3: "frame W s2 ?t" "quiet {} s2 ?t" for W using v3 m3(2) m2(2) m1(2) by (simp_all add: frame_def quiet_def inode_at_def)
  have "frame (insert sec {t. \<not> taken b t}) s1 s2" by (rule frame_mono [OF f2(1)]) simp
  from frame_trans [OF frame_trans [OF f1 this] f3(1)] have f: "frame (insert sec {t. \<not> taken b t}) s ?t" .
  have q: "quiet {} s ?t" by (rule quiet_trans [OF quiet_trans [OF q1 f2(2)] f3(2)])
  have free: "t \<notin> map_all s" if "\<not> taken b t" for t using map_all_taken [of b s t] m that by (auto simp: mounted_def)
  have ne: "ds ! k \<noteq> sec" if "k < ?l" for k using lo [OF that] sec(1) by auto
  have "small_disk b' ?t sec ?n"
    unfolding small_disk_def using typed len lo in1 inj l free ne m3(2) mono sec by auto
  moreover have "\<forall>k < ?l. \<not> taken b (ds ! k) \<and> cache_view ?t (ds ! k) = zeros" using lo ne v3(1) s2(3) by simp
  moreover have "\<forall>k < 123. ds ! k \<noteq> 0 \<longrightarrow> \<not> taken b (ds ! k)" using lo in1 by blast
  moreover have "inode_create sec len dir s = Some (True, ?t)"
  proof -
    have "off32 (len + int BLOCK_SECTOR_SIZE) = Some (len + int BLOCK_SECTOR_SIZE)"
      using len by (simp add: off32_def BLOCK_SECTOR_SIZE_def)
    then have "inode_reserve (free_map_allocate 1) (Own ?q) len ?s = Some (True, s1)"
      using len l s1(1) by (simp add: inode_reserve_def bytes_to_sectors_def DIRECT_BLOCKS_COUNT_def min_def)
    then have "inode_allocate (free_map_allocate 1) (Own ?q) ?s = Some (True, s1)" using d0 by (simp add: inode_allocate_def)
    then show ?thesis
      using s1(3) s2(1) len ds(2) by (simp add: inode_create_def new_disk_def [symmetric] DIRECT_BLOCKS_COUNT_def)
  qed
  moreover have "\<forall>k < 123. ?l \<le> k \<longrightarrow> ds ! k = 0" using hi by simp
  ultimately show ?thesis
    using m3 f q mono s2(3) v3(1) fc fl by (intro exI [of _ b'] exI [of _ ?t] exI [of _ ds]) simp
qed

section \<open>The root directory between commands\<close>

definition on_disk :: "sector \<Rightarrow> 'a files_scheme \<Rightarrow> inode_disk" where
  "on_disk sec s = inode_of_image (cache_view s sec)"

abbreviation root_data :: "'a files_scheme \<Rightarrow> inode_disk" where
  "root_data \<equiv> on_disk ROOT_DIR_SECTOR"

definition fresh_inode :: "sector \<Rightarrow> 'a files_scheme \<Rightarrow> inode" where
  \<comment> \<open>the inode of a sector, just opened\<close>
  "fresh_inode sec s = \<lparr>in_sector = sec, open_cnt = 1, removed = False, deny_write_cnt = 0, in_data = on_disk sec s\<rparr>"

definition dir_on_disk :: "(sector \<Rightarrow> bytes) \<Rightarrow> sector \<Rightarrow> inode_disk \<Rightarrow> (string \<rightharpoonup> sector) \<Rightarrow> nat \<Rightarrow> bool" where
  "dir_on_disk v cap d m n \<longleftrightarrow> file_ok v cap d \<and> dir_ok v d \<and> dir_names v d = m \<and> free_slots v d = n \<and> (\<forall>t \<in> ran m. t < cap)"

lemma dir_rep_disk:
  "dir_rep p x i m n s \<longleftrightarrow> dir_at s p = Some x \<and> inode_at s (d_inode x) = Some i \<and> deny_write_cnt i = 0 \<and> cache_inv s \<and>
     inodes_listed s \<and> dir_on_disk (cache_view s) (fs_capacity s) (in_data i) m n"
  by (auto simp: dir_rep_def dir_on_disk_def)

definition opened_taken :: "bitmap \<Rightarrow> 'a files_scheme \<Rightarrow> bool" where
  \<comment> \<open>the open inodes are in use, the one of the root directory is not open\<close>
  "opened_taken b s \<longleftrightarrow> (\<forall>q \<in> set (open_inodes s). \<exists>j. inode_at s q = Some j \<and> taken b (in_sector j) \<and> in_sector j \<noteq> ROOT_DIR_SECTOR)"

definition root_rep :: "bitmap \<Rightarrow> (string \<rightharpoonup> sector) \<Rightarrow> nat \<Rightarrow> 'a filesys_scheme \<Rightarrow> bool" where
  \<comment> \<open>no directory is open, the root directory holds the names \<open>m\<close> and has \<open>n\<close> free slots\<close>
  "root_rep b m n s \<longleftrightarrow> cwd s = None \<and> mounted b s \<and> opened_taken b s \<and>
     dir_on_disk (cache_view s) (fs_capacity s) (root_data s) m n \<and> (\<forall>t \<in> ran m. taken b t \<and> t \<noteq> ROOT_DIR_SECTOR) \<and>
     (\<forall>t \<in> insert ROOT_DIR_SECTOR (all_sectors (cache_view s) (root_data s)). taken b t \<and> t \<notin> map_all s) \<and>
     ROOT_DIR_SECTOR \<notin> all_sectors (cache_view s) (root_data s)"

lemma opened_frame:
  assumes "opened s s'" and "mounted b s"
  shows "mounted b s'" and "map_all s' = map_all s" and "frame {} s s'"
proof -
  have "map_inode s' = map_inode s"
  proof (cases "free_map_file s")
    case (Some f)
    then have "map_file_ok b s" "free_map_file s \<noteq> None" using assms(2) by (simp_all add: mounted_def map_ok_def)
    then obtain p i where pi: "map_inode s = Some (p, i)" by (auto simp: map_file_ok_def)
    then obtain x where "file_at s f = Some x" "f_inode x = p" "inode_at s p = Some i"
      using Some by (auto simp: map_inode_def split: bind_splits)
    moreover from this have "file_at s' f = Some x" "inode_at s' p = Some i" "free_map_file s' = Some f"
      using assms(1) Some by (simp_all add: opened_def file_at_def)
    ultimately show ?thesis using Some by (simp add: map_inode_def)
  qed (use assms(1) in \<open>simp add: map_inode_def opened_def\<close>)
  moreover have "cache_inv s' = cache_inv s" using assms by (simp add: opened_def mounted_def map_ok_def)
  ultimately show "mounted b s'" and m: "map_all s' = map_all s"
    using mounted_cong [of s' s] assms by (simp_all add: opened_def)
  then show "frame {} s s'" using assms(1) by (simp add: opened_def frame_def)
qed

lemma map_elsewhere_new:
  assumes "mounted b s" and "inode_at s p = None" and "free_map_file s' = free_map_file s" and "file_heap s' = file_heap s"
  shows "map_elsewhere (Data_of p) s'"
  unfolding map_elsewhere_def
proof (intro allI impI)
  fix f x assume fx: "free_map_file s' = Some f \<and> file_at s' f = Some x"
  then have s: "free_map_file s = Some f" "file_at s f = Some x" using assms(3,4) by (simp_all add: file_at_def)
  have "map_file_ok b s" using assms(1) by (simp add: mounted_def map_ok_def)
  then obtain q i where "map_inode s = Some (q, i)" using s(1) by (auto simp: map_file_ok_def)
  then have "inode_at s (f_inode x) \<noteq> None" using s by (auto simp: map_inode_def split: bind_splits)
  then show "Data_of p \<noteq> Data_of (f_inode x)" using assms(2) by auto
qed

lemma new_inode_free: "inode_at s (length (inode_heap s)) = None"
  by (simp add: inode_at_def rd_def)

lemma opened_taken_listed: "opened_taken b s \<Longrightarrow> inodes_listed s"
  by (auto simp: opened_taken_def inodes_listed_def)

lemma root_open:
  assumes r: "root_rep b m n s"
  defines "p \<equiv> length (dir_heap s)" and "q \<equiv> length (inode_heap s)"
  shows "\<exists>s'. dir_open_root s = Some (Some p, s') \<and>
    dir_rep p \<lparr>d_inode = q, d_pos = 36, d_open_cnt = 1\<rparr> (fresh_inode ROOT_DIR_SECTOR s) m n s' \<and> mounted b s' \<and>
    cache_view s' = cache_view s \<and> frame {} s s' \<and> file_heap s' = file_heap s \<and> file_table s' = file_table s \<and> open_inodes s' = q # open_inodes s \<and>
    (\<forall>q i. inode_at s q = Some i \<longrightarrow> inode_at s' q = Some i) \<and> map_elsewhere (Data_of q) s'"
proof -
  let ?i = "fresh_inode ROOT_DIR_SECTOR s" let ?x = "\<lparr>d_inode = q, d_pos = 36, d_open_cnt = 1\<rparr>"
  have m: "mounted b s" and inv: "cache_inv s" and ok: "map_ok b s" and cwd: "cwd s = None"
    and l: "inodes_listed s" and root: "taken b ROOT_DIR_SECTOR"
    and d: "dir_on_disk (cache_view s) (fs_capacity s) (root_data s) m n"
    using r opened_taken_listed by (auto simp: root_rep_def mounted_def map_ok_def)
  have "\<forall>q \<in> set (open_inodes s). \<exists>i. inode_at s q = Some i \<and> in_sector i \<noteq> ROOT_DIR_SECTOR"
    using r by (auto simp: root_rep_def opened_taken_def)
  note none = find_inode_none [OF this]
  from inode_open_new [OF inv l taken_in [OF ok root] none] obtain s1 where
    s1: "inode_open ROOT_DIR_SECTOR s = Some (q, s1)" "opened s s1" "inode_at s1 q = Some ?i" "open_inodes s1 = q # open_inodes s"
    by (auto simp: q_def fresh_inode_def on_disk_def)
  let ?t = "s1\<lparr>dir_heap := dir_heap s1 @ [Some ?x], cwd := Some p\<rparr>"
  have dh: "dir_heap s1 = dir_heap s" using s1(2) by (cases s; cases s1) (simp add: opened_def)
  have run: "dir_open_root s = Some (Some p, ?t)"
    using cwd s1(1) dh by (simp add: dir_open_root_def dir_open_def entry_size_def p_def)
  have at: "inode_at ?t q' = inode_at s1 q'" for q' by (simp add: inode_at_def)
  have c: "cache_inv ?t = cache_inv s1" "cache_view ?t = cache_view s1" "fs_capacity ?t = fs_capacity s1"
    by (rule same_cache; simp)+
  note o = opened_frame [OF s1(2) m]
  have mt: "mounted b ?t" "map_all ?t = map_all s" using mounted_objects [of ?t s1] o by simp_all
  have "inodes_listed ?t" using s1(2) at by (simp add: opened_def inodes_listed_def)
  moreover have "dir_at ?t p = Some ?x" using dh by (simp add: dir_at_def p_def rd_def)
  ultimately have "dir_rep p ?x ?i m n ?t"
    using d s1(2,3) at c by (simp add: dir_rep_disk opened_def) (simp add: fresh_inode_def)
  moreover have "frame {} s ?t" using s1(2) mt(2) c by (simp add: frame_def opened_def)
  moreover have "map_elsewhere (Data_of q) ?t"
    using map_elsewhere_new [OF m new_inode_free, of ?t] s1(2) by (simp add: q_def opened_def)
  ultimately show ?thesis using run mt s1(2,4) at c by (intro exI [of _ ?t]) (simp add: opened_def)
qed

lemma root_close:
  assumes x: "dir_at s p = Some x" "d_open_cnt x = 1" and i: "inode_at s (d_inode x) = Some i" "open_cnt i = 1" "\<not> removed i"
    and m: "mounted b s" and e: "map_elsewhere (Data_of (d_inode x)) s"
  shows "\<exists>s'. dir_close (Some p) s = Some s' \<and> cwd s' = None \<and> mounted b s' \<and> cache_view s' = cache_view s \<and> frame {} s s' \<and>
    file_heap s' = file_heap s \<and> file_table s' = file_table s \<and> open_inodes s' = remove1 (d_inode x) (open_inodes s) \<and>
    (\<forall>q. q \<noteq> d_inode x \<longrightarrow> inode_at s' q = inode_at s q)"
proof -
  let ?q = "d_inode x"
  let ?s1 = "s\<lparr>inode_heap := (inode_heap s)[?q := None], open_inodes := remove1 ?q (open_inodes s)\<rparr>"
  let ?t = "?s1\<lparr>dir_heap := (dir_heap s)[p := None], cwd := None\<rparr>"
  have "inode_at (put_dir p y s) q = inode_at s q" for y q by (simp add: put_dir_def inode_at_def)
  then have run: "dir_close (Some p) s = Some ?t"
    using x i by (simp add: dir_close_def inode_close_def Let_def) (simp add: put_dir_def put_inode_def)
  note m1 = mounted_elsewhere [OF m e, of ?s1 "remove1 ?q (open_inodes s)" None]
  have mt: "mounted b ?t" "map_all ?t = map_all s" using mounted_objects [of ?t ?s1] m1 by simp_all
  have c: "cache_view ?t = cache_view s" "fs_capacity ?t = fs_capacity s" using same_cache [of ?t s] by simp_all
  moreover have "inode_at ?t q = inode_at s q" if "q \<noteq> ?q" for q using that by (simp add: inode_at_def rd_def)
  ultimately show ?thesis using run mt by (intro exI [of _ ?t]) (simp add: frame_def)
qed

text \<open>While the directory is open: another state of the disk and of the open inodes.\<close>

lemma root_closed_again:
  assumes r: "root_rep b m n s" and rep: "dir_rep p x i m' n' s1" and i: "i = fresh_inode ROOT_DIR_SECTOR s"
    and x: "d_open_cnt x = 1" and m1: "mounted b' s1" and e: "map_elsewhere (Data_of (d_inode x)) s1"
    and f: "frame W s s1"
    and mono: "\<And>t. t \<in> insert ROOT_DIR_SECTOR (all_sectors (cache_view s) (root_data s)) \<Longrightarrow> taken b' t" and W: "ROOT_DIR_SECTOR \<notin> W" and same: "all_sectors (cache_view s1) (root_data s) = all_sectors (cache_view s) (root_data s)"
    and ran: "\<And>t. t \<in> ran m' \<Longrightarrow> taken b' t \<and> t \<noteq> ROOT_DIR_SECTOR"
    and os: "\<And>q. q \<in> set (remove1 (d_inode x) (open_inodes s1)) \<Longrightarrow>
      q \<noteq> d_inode x \<and> (\<exists>j. inode_at s1 q = Some j \<and> taken b' (in_sector j) \<and> in_sector j \<noteq> ROOT_DIR_SECTOR)"
  shows "\<exists>s'. dir_close (Some p) s1 = Some s' \<and> root_rep b' m' n' s' \<and> cache_view s' = cache_view s1 \<and> frame {} s1 s' \<and>
    file_heap s' = file_heap s1 \<and> file_table s' = file_table s1 \<and> open_inodes s' = remove1 (d_inode x) (open_inodes s1) \<and> root_data s' = root_data s \<and>
    (\<forall>q. q \<noteq> d_inode x \<longrightarrow> inode_at s' q = inode_at s1 q)"
proof -
  have d: "dir_at s1 p = Some x" "inode_at s1 (d_inode x) = Some i" "dir_on_disk (cache_view s1) (fs_capacity s1) (root_data s) m' n'"
    using rep i by (auto simp: dir_rep_disk fresh_inode_def)
  have "open_cnt i = 1" "\<not> removed i" using i by (simp_all add: fresh_inode_def)
  from root_close [OF d(1) x d(2) this m1 e] obtain s' where
    s': "dir_close (Some p) s1 = Some s'" "cwd s' = None" "mounted b' s'" "cache_view s' = cache_view s1" "frame {} s1 s'"
      "file_heap s' = file_heap s1" "open_inodes s' = remove1 (d_inode x) (open_inodes s1)"
      "\<forall>q. q \<noteq> d_inode x \<longrightarrow> inode_at s' q = inode_at s1 q" "file_table s' = file_table s1" by blast
  have root: "\<forall>t \<in> insert ROOT_DIR_SECTOR (all_sectors (cache_view s) (root_data s)). taken b t \<and> t \<notin> map_all s"
    "ROOT_DIR_SECTOR \<notin> all_sectors (cache_view s) (root_data s)" using r by (simp_all add: root_rep_def)
  have "cache_view s1 ROOT_DIR_SECTOR = cache_view s ROOT_DIR_SECTOR" using frame_keeps [OF f W] root by simp
  then have data: "root_data s' = root_data s" using s'(4) by (simp add: on_disk_def)
  have all: "map_all s' = map_all s" using f s'(5) by (simp add: frame_def)
  have "opened_taken b' s'" using os s'(7,8) by (auto simp: opened_taken_def)
  moreover have "fs_capacity s' = fs_capacity s1" using s'(5) by (simp add: frame_def)
  moreover have "\<forall>t \<in> insert ROOT_DIR_SECTOR (all_sectors (cache_view s') (root_data s')). taken b' t \<and> t \<notin> map_all s'"
    "ROOT_DIR_SECTOR \<notin> all_sectors (cache_view s') (root_data s')"
    unfolding data s'(4) same all using root mono by auto
  ultimately have "root_rep b' m' n' s'" using s'(2-4) d(3) data ran by (simp add: root_rep_def)
  then show ?thesis using s' data by blast
qed

text \<open>A use of the root directory that opens and closes no other object.\<close>

definition dir_step :: "sector set \<Rightarrow> 'a files_scheme \<Rightarrow> 'a files_scheme \<Rightarrow> bool" where
  "dir_step W s s' \<longleftrightarrow> frame W s s' \<and> open_inodes s' = open_inodes s \<and> file_heap s' = file_heap s \<and>
     file_table s' = file_table s \<and> (\<forall>q i. inode_at s q = Some i \<longrightarrow> inode_at s' q = Some i)"

lemma dir_step_quiet: "frame W s s' \<Longrightarrow> quiet {} s s' \<Longrightarrow> dir_step W s s'"
  by (simp add: dir_step_def quiet_def)

definition root_opened :: "bitmap \<Rightarrow> (string \<rightharpoonup> sector) \<Rightarrow> nat \<Rightarrow> 'a filesys_scheme \<Rightarrow> nat \<Rightarrow> dir \<Rightarrow> 'a filesys_scheme \<Rightarrow> bool" where
  \<comment> \<open>after \<open>dir_open_root\<close> in \<open>s\<close>\<close>
  "root_opened b m n s p x s1 \<longleftrightarrow> dir_open_root s = Some (Some p, s1) \<and>
     dir_rep p x (fresh_inode ROOT_DIR_SECTOR s) m n s1 \<and> d_open_cnt x = 1 \<and> mounted b s1 \<and> cache_view s1 = cache_view s \<and>
     frame {} s s1 \<and> file_heap s1 = file_heap s \<and> file_table s1 = file_table s \<and> open_inodes s1 = d_inode x # open_inodes s \<and>
     inode_at s (d_inode x) = None \<and> (\<forall>q i. inode_at s q = Some i \<longrightarrow> inode_at s1 q = Some i) \<and> map_elsewhere (Data_of (d_inode x)) s1"

lemma root_opens: "root_rep b m n s \<Longrightarrow> \<exists>p x s1. root_opened b m n s p x s1"
proof -
  assume r: "root_rep b m n s"
  let ?x = "\<lparr>d_inode = length (inode_heap s), d_pos = 36, d_open_cnt = 1\<rparr>"
  from root_open [OF r] obtain s1 where "dir_open_root s = Some (Some (length (dir_heap s)), s1)"
      "dir_rep (length (dir_heap s)) ?x (fresh_inode ROOT_DIR_SECTOR s) m n s1" "mounted b s1" "cache_view s1 = cache_view s"
      "frame {} s s1" "file_heap s1 = file_heap s" "open_inodes s1 = length (inode_heap s) # open_inodes s"
      "\<forall>q i. inode_at s q = Some i \<longrightarrow> inode_at s1 q = Some i" "map_elsewhere (Data_of (length (inode_heap s))) s1"
      "file_table s1 = file_table s" by blast
  then have "root_opened b m n s (length (dir_heap s)) ?x s1" using new_inode_free [of s] by (simp add: root_opened_def)
  then show ?thesis by blast
qed

lemma root_closes:
  assumes r: "root_rep b m n s" and o: "root_opened b m n s p x s1"
    and rep: "dir_rep p x (fresh_inode ROOT_DIR_SECTOR s) m' n' s2" and m2: "mounted b' s2" and d: "dir_step W s1 s2"
    and W: "ROOT_DIR_SECTOR \<notin> W"
    and same: "all_sectors (cache_view s2) (root_data s) = all_sectors (cache_view s) (root_data s)"
    and keep: "\<forall>t \<in> insert ROOT_DIR_SECTOR (all_sectors (cache_view s) (root_data s)). taken b' t"
    and ran: "\<forall>t \<in> ran m'. taken b' t \<and> t \<noteq> ROOT_DIR_SECTOR"
    and os: "\<forall>q \<in> set (open_inodes s). \<forall>j. inode_at s q = Some j \<longrightarrow> taken b' (in_sector j)"
  shows "\<exists>s'. dir_close (Some p) s2 = Some s' \<and> root_rep b' m' n' s' \<and> cache_view s' = cache_view s2 \<and> frame {} s2 s' \<and>
    dir_step W s s' \<and> root_data s' = root_data s"
proof -
  have ot: "opened_taken b s" using r by (simp add: root_rep_def)
  have s1: "frame {} s s1" "file_heap s1 = file_heap s" "file_table s1 = file_table s" "open_inodes s1 = d_inode x # open_inodes s"
      "inode_at s (d_inode x) = None" "\<forall>q i. inode_at s q = Some i \<longrightarrow> inode_at s1 q = Some i" "map_elsewhere (Data_of (d_inode x)) s1"
      "d_open_cnt x = 1" using o by (simp_all add: root_opened_def)
  have f: "frame W s s2" by (rule frame_trans [OF frame_mono [OF s1(1)]]) (use d in \<open>simp_all add: dir_step_def\<close>)
  have e: "map_elsewhere (Data_of (d_inode x)) s2"
    using map_inode_elsewhere [OF s1(7), of s2] d by (simp add: dir_step_def frame_def)
  have new: "q \<noteq> d_inode x \<and> inode_at s2 q = Some j" if "inode_at s q = Some j" for q j
    using that s1(5,6) d by (auto simp: dir_step_def)
  have os': "q \<noteq> d_inode x \<and> (\<exists>j. inode_at s2 q = Some j \<and> taken b' (in_sector j) \<and> in_sector j \<noteq> ROOT_DIR_SECTOR)"
    if "q \<in> set (remove1 (d_inode x) (open_inodes s2))" for q
  proof -
    have q: "q \<in> set (open_inodes s)" using that d s1(4) by (simp add: dir_step_def)
    then obtain j where "inode_at s q = Some j" "in_sector j \<noteq> ROOT_DIR_SECTOR" using ot by (auto simp: opened_taken_def)
    then show ?thesis using new os q by auto
  qed
  from root_closed_again [OF r rep refl s1(8) m2 e f bspec [OF keep] W same bspec [OF ran] os'] obtain s3 where
    s3: "dir_close (Some p) s2 = Some s3" "root_rep b' m' n' s3" "cache_view s3 = cache_view s2" "frame {} s2 s3"
      "file_heap s3 = file_heap s2" "open_inodes s3 = remove1 (d_inode x) (open_inodes s2)" "root_data s3 = root_data s"
      "\<forall>q. q \<noteq> d_inode x \<longrightarrow> inode_at s3 q = inode_at s2 q" "file_table s3 = file_table s2" by auto
  have "frame W s s3" by (rule frame_trans [OF f frame_mono [OF s3(4)]]) simp
  then have "dir_step W s s3" using s1(2-4) d s3(5,6,8,9) new by (simp add: dir_step_def)
  then show ?thesis using s3(1-4,7) by blast
qed

lemma split_rooted:
  assumes "t \<noteq> []" and "CHR ''/'' \<notin> set t" and "length t < nf" and "1 < nd"
  shows "split_path_filename nd nf (CHR ''/'' # t) = Some (''/'', t)"
  using assms path_tokens_plain [of t "[]"] by (simp add: split_path_filename_def)

definition file_name_ok :: "string \<Rightarrow> bool" where
  \<comment> \<open>the name of a file of a directory\<close>
  "file_name_ok t \<longleftrightarrow> t \<noteq> [] \<and> length t \<le> NAME_MAX \<and> CHR 0x00 \<notin> set t \<and> CHR ''/'' \<notin> set t \<and> t \<noteq> ''.'' \<and> t \<noteq> ''..''"

lemma all_sectors_kept:
  assumes ok: "file_ok v cap d" and same: "\<And>t. t \<in> all_sectors v d \<Longrightarrow> t \<notin> data_sectors v d \<Longrightarrow> v' t = v t"
  shows "data_sectors v' d = data_sectors v d" and "all_sectors v' d = all_sectors v d"
proof -
  have t: "\<forall>t \<in> table_sectors v d (sectors_used d). v' t = v t"
    using same ok by (auto simp: all_sectors_def file_ok_def)
  show "data_sectors v' d = data_sectors v d"
    unfolding data_sectors_def using table_sectors_cong(1) [OF t] by (intro image_cong) auto
  then show "all_sectors v' d = all_sectors v d" using table_sectors_cong(2) [OF t] by (simp add: all_sectors_def)
qed

definition created :: "bitmap \<Rightarrow> bitmap \<Rightarrow> int \<Rightarrow> sector \<Rightarrow> sector list \<Rightarrow> 'a files_scheme \<Rightarrow> bool" where
  \<comment> \<open>a new file of \<open>len\<close> zeros: its inode in \<open>sec\<close>, its blocks \<open>ds\<close>, none in use before\<close>
  "created b b' len sec ds s \<longleftrightarrow> \<not> taken b sec \<and> (\<forall>t. taken b t \<longrightarrow> taken b' t) \<and> small_disk b' s sec (new_disk False len ds) \<and>
     cache_view s sec = inode_image (new_disk False len ds) \<and>
     (\<forall>k < DIV_ROUND_UP (nat len) BLOCK_SECTOR_SIZE. \<not> taken b (ds ! k) \<and> cache_view s (ds ! k) = zeros) \<and>
     (\<forall>k < 123. ds ! k \<noteq> 0 \<longrightarrow> \<not> taken b (ds ! k)) \<and>
     (\<forall>k < 123. DIV_ROUND_UP (nat len) BLOCK_SECTOR_SIZE \<le> k \<longrightarrow> ds ! k = 0) \<and>
     free_count b = free_count b' + DIV_ROUND_UP (nat len) BLOCK_SECTOR_SIZE + 1"

lemma created_kept:
  assumes "created b b' len sec ds s" and "\<And>t. \<not> taken b t \<Longrightarrow> cache_view s' t = cache_view s t" and "map_all s' = map_all s"
  shows "created b b' len sec ds s'"
  using assms by (auto simp: created_def small_disk_def)

lemma new_file_spec:
  assumes m: "mounted b s" and len: "0 \<le> len" "len \<le> 512 * 123" and room: "DIV_ROUND_UP (nat len) BLOCK_SECTOR_SIZE < free_count b"
  shows "\<exists>b' sec ds s1 s'. free_map_allocate 1 s = Some (Some sec, s1) \<and> inode_create sec len False s1 = Some (True, s') \<and>
    mounted b' s' \<and> frame {t. \<not> taken b t} s s' \<and> quiet {} s s' \<and> created b b' len sec ds s'"
proof -
  let ?l = "DIV_ROUND_UP (nat len) BLOCK_SECTOR_SIZE"
  obtain b1 sec s1 where s1: "free_map_allocate 1 s = Some (Some sec, s1)" "extends (Own 0) b s b1 s1" "\<not> taken b sec"
      "taken b1 sec" "free_count b = Suc (free_count b1)"
    using allocate_free_one [OF m, of "Own 0"] room by fastforce
  have m1: "mounted b1 s1" and ma1: "map_all s1 = map_all s" and mono: "\<And>t. taken b t \<Longrightarrow> taken b1 t"
    using s1(2) by (simp_all add: extends_def)
  have sm: "sec \<notin> map_all s1" using map_all_taken [of b s sec] m s1(3) ma1 by (auto simp: mounted_def)
  have "?l \<le> free_count b1" using room s1(5) by simp
  from inode_create_spec [OF m1 s1(4) sm len this, of False] obtain b' s' ds where
    s': "inode_create sec len False s1 = Some (True, s')" "mounted b' s'" "\<And>t. taken b1 t \<Longrightarrow> taken b' t"
      "frame (insert sec {t. \<not> taken b1 t}) s1 s'" "quiet {} s1 s'" "small_disk b' s' sec (new_disk False len ds)"
      "cache_view s' sec = inode_image (new_disk False len ds)"
      "\<forall>k < ?l. \<not> taken b1 (ds ! k) \<and> cache_view s' (ds ! k) = zeros" "\<forall>k < 123. ds ! k \<noteq> 0 \<longrightarrow> \<not> taken b1 (ds ! k)"
      "\<forall>k < 123. ?l \<le> k \<longrightarrow> ds ! k = 0"
      "free_count b1 = free_count b' + ?l"
    by blast
  have "insert sec {t. \<not> taken b1 t} \<subseteq> {t. \<not> taken b t}" using s1(3) mono by auto
  then have "frame {t. \<not> taken b t} s s'" by (rule frame_trans [OF extends_frame [OF s1(2)] frame_mono [OF s'(4)]])
  moreover have "quiet {} s s'" by (rule quiet_trans [OF extends_quiet(1) [OF s1(2)] s'(5)])
  moreover have "created b b' len sec ds s'" using s1(3,5) s'(3,6-11) mono by (auto simp: created_def)
  ultimately show ?thesis using s1(1) s'(1,2) by blast
qed

lemma create_in_spec:
  assumes m: "mounted b s" and rep: "dir_rep p x i m n s"
    and own: "\<And>t. t \<in> all_sectors (cache_view s) (in_data i) \<Longrightarrow> taken b t \<and> t \<notin> map_all s"
    and t: "file_name_ok t" "m t = None" and n: "0 < n" and len: "0 \<le> len" "len \<le> 512 * 123"
    and room: "DIV_ROUND_UP (nat len) BLOCK_SECTOR_SIZE < free_count b"
  shows "\<exists>b' sec ds s'. create_in stale p t len False s = Some (True, s') \<and> dir_rep p x i (m(t \<mapsto> sec)) (n - 1) s' \<and>
    mounted b' s' \<and> frame (data_sectors (cache_view s) (in_data i) \<union> {t. \<not> taken b t}) s s' \<and> quiet {} s s' \<and>
    created b b' len sec ds s' \<and> all_sectors (cache_view s') (in_data i) = all_sectors (cache_view s) (in_data i)"
proof -
  let ?R = "all_sectors (cache_view s) (in_data i)" let ?D = "data_sectors (cache_view s) (in_data i)"
  let ?W = "?D \<union> {t. \<not> taken b t}"
  obtain b' sec ds s1 s2 where new: "free_map_allocate 1 s = Some (Some sec, s1)" "inode_create sec len False s1 = Some (True, s2)"
      "mounted b' s2" "frame {t. \<not> taken b t} s s2" "quiet {} s s2" "created b b' len sec ds s2"
    using new_file_spec [OF m len room] by blast
  have "{t. \<not> taken b t} \<inter> ?R = {}" "map_all s \<inter> ?R = {}" using own by auto
  note apart = this
  have "inode_at s2 (d_inode x) = Some i" "files.more s2 = files.more s" "inodes_listed s2"
    using rep new(5) quiet_listed [OF new(5)] by (simp_all add: dir_rep_def quiet_def)
  note rep2 = dir_rep_frame [OF rep new(3,4) this apart]
  have ma2: "map_all s2 = map_all s" using new(4) by (simp add: frame_def)
  have nb: "name_bytes_ok t" and nm: "t \<noteq> [] \<and> length t \<le> NAME_MAX \<and> m t = None"
    using t by (simp_all add: file_name_ok_def name_bytes_ok_def)
  have "taken b' sec" using new(6) by (simp add: created_def small_disk_def)
  then have "sec < fs_capacity s2" using taken_in [of b' s2 sec] new(3) by (simp add: mounted_def)
  from dir_add_spec [OF rep2(1) nb this n, of stale, unfolded rep2(3)] nm obtain s3 where
    s3: "dir_add stale p t sec False s2 = Some (True, s3)" "stores ?D s2 s3" "dir_rep p x i (m(t \<mapsto> sec)) (n - 1) s3" by auto
  have DR: "?D \<subseteq> ?R" by (auto simp: all_sectors_def)
  then have "?D \<inter> map_all s2 = {}" using own ma2 by auto
  note m3 = mounted_stores [OF new(3) s3(2) this] and f3 = stores_frame [OF new(3) s3(2) this]
  have f: "frame ?W s s3"
    by (rule frame_trans [OF frame_mono [OF new(4)] frame_mono [OF f3(1)]]) auto
  have "file_ok (cache_view s) (fs_capacity s) (in_data i)" using rep by (simp add: dir_rep_def)
  then have all: "all_sectors (cache_view s3) (in_data i) = ?R"
    by (rule all_sectors_kept(2)) (use frame_keeps [OF f] own in auto)
  have "created b b' len sec ds s3"
  proof (rule created_kept [OF new(6)])
    show "cache_view s3 u = cache_view s2 u" if "\<not> taken b u" for u using that own DR s3(2) by (auto simp: stores_def)
  qed (simp add: m3(2))
  moreover have "create_in stale p t len False s = Some (True, s3)"
    using new(1,2) s3(1) by (simp add: create_in_def)
  ultimately show ?thesis using s3(3) m3(1) f quiet_trans [OF new(5) f3(2)] all by blast
qed

lemma root_own:
  assumes "root_rep b m n s"
  shows "\<And>t. t \<in> insert ROOT_DIR_SECTOR (all_sectors (cache_view s) (root_data s)) \<Longrightarrow> taken b t \<and> t \<notin> map_all s"
    and "ROOT_DIR_SECTOR \<notin> all_sectors (cache_view s) (root_data s)"
    and "data_sectors (cache_view s) (root_data s) \<subseteq> all_sectors (cache_view s) (root_data s)"
  using assms by (auto simp: root_rep_def all_sectors_def)

lemma filesys_create_spec:
  assumes r: "root_rep b m n s" and t: "file_name_ok t" "m t = None" and n: "0 < n" and len: "0 \<le> len" "len \<le> 512 * 123"
    and room: "DIV_ROUND_UP (nat len) BLOCK_SECTOR_SIZE < free_count b"
  shows "\<exists>b' sec ds s'. filesys_create stale (CHR ''/'' # t) len False s = Some (True, s') \<and>
    root_rep b' (m(t \<mapsto> sec)) (n - 1) s' \<and> created b b' len sec ds s' \<and>
    dir_step (data_sectors (cache_view s) (root_data s) \<union> {t. \<not> taken b t}) s s' \<and> root_data s' = root_data s \<and>
    all_sectors (cache_view s') (root_data s) = all_sectors (cache_view s) (root_data s)"
proof -
  let ?W = "data_sectors (cache_view s) (root_data s) \<union> {t. \<not> taken b t}" let ?i = "fresh_inode ROOT_DIR_SECTOR s"
  let ?R = "all_sectors (cache_view s) (root_data s)"
  obtain p x s1 where o: "root_opened b m n s p x s1" using root_opens [OF r] by blast
  then have s1: "dir_open_root s = Some (Some p, s1)" "dir_rep p x ?i m n s1" "mounted b s1" "cache_view s1 = cache_view s"
      "frame {} s s1" by (simp_all add: root_opened_def)
  note own = root_own [OF r]
  have id: "in_data ?i = root_data s" by (simp add: fresh_inode_def)
  have "map_all s1 = map_all s" using s1(5) by (simp add: frame_def)
  then have "\<And>t. t \<in> all_sectors (cache_view s1) (in_data ?i) \<Longrightarrow> taken b t \<and> t \<notin> map_all s1" unfolding id s1(4) using own(1) by auto
  from create_in_spec [OF s1(3,2) this t n len room, of stale] obtain b' sec ds s2 where
    s2: "create_in stale p t len False s1 = Some (True, s2)" "dir_rep p x ?i (m(t \<mapsto> sec)) (n - 1) s2" "mounted b' s2"
      "frame ?W s1 s2" "quiet {} s1 s2" "created b b' len sec ds s2" "all_sectors (cache_view s2) (root_data s) = ?R"
    unfolding id s1(4) by blast
  have c: "taken b' sec" "\<not> taken b sec" and mono: "\<And>t. taken b t \<Longrightarrow> taken b' t" using s2(6) by (simp_all add: created_def small_disk_def)
  have W: "ROOT_DIR_SECTOR \<notin> ?W" using own by auto
  have keep: "\<forall>u \<in> insert ROOT_DIR_SECTOR ?R. taken b' u" using own(1) mono by blast
  have ran: "\<forall>u \<in> ran (m(t \<mapsto> sec)). taken b' u \<and> u \<noteq> ROOT_DIR_SECTOR"
    using r c mono own(1) by (auto simp: root_rep_def ran_def split: if_splits)
  have os: "\<forall>q \<in> set (open_inodes s). \<forall>j. inode_at s q = Some j \<longrightarrow> taken b' (in_sector j)"
    using r mono by (fastforce simp: root_rep_def opened_taken_def)
  from root_closes [OF r o s2(2,3) dir_step_quiet [OF s2(4,5)] W s2(7) keep ran os] obtain s3 where
    s3: "dir_close (Some p) s2 = Some s3" "root_rep b' (m(t \<mapsto> sec)) (n - 1) s3" "cache_view s3 = cache_view s2"
      "frame {} s2 s3" "dir_step ?W s s3" "root_data s3 = root_data s" by blast
  have "filesys_create stale (CHR ''/'' # t) len False s = Some (True, s3)"
    using t s1(1) s2(1) s3(1) split_rooted [of t "Suc (length t)" "Suc (length t)"]
    by (simp add: filesys_create_def file_name_ok_def)
  moreover have "created b b' len sec ds s3"
    by (rule created_kept [OF s2(6)]) (use s3(3,4) in \<open>simp_all add: frame_def\<close>)
  ultimately show ?thesis using s3(2,3,5,6) s2(7) by auto
qed

section \<open>Opening a file\<close>

definition not_open :: "sector \<Rightarrow> 'a files_scheme \<Rightarrow> bool" where
  "not_open sec s \<longleftrightarrow> (\<forall>q \<in> set (open_inodes s). \<forall>j. inode_at s q = Some j \<longrightarrow> in_sector j \<noteq> sec)"

lemma not_open_found: "inodes_listed s \<Longrightarrow> not_open sec s \<Longrightarrow> find_inode (open_inodes s) sec s = Some None"
  by (rule find_inode_none) (auto simp: inodes_listed_def not_open_def)

lemma not_open_root:
  assumes "opened_taken b s" and "not_open sec s" and "open_inodes s' = r # open_inodes s"
    and "inode_at s' r = Some i" and "in_sector i \<noteq> sec" and "\<forall>q i. inode_at s q = Some i \<longrightarrow> inode_at s' q = Some i"
  shows "not_open sec s'"
  unfolding not_open_def
proof (intro ballI allI impI)
  fix q j assume q: "q \<in> set (open_inodes s')" "inode_at s' q = Some j"
  show "in_sector j \<noteq> sec"
  proof (cases "q = r")
    case False
    then have "q \<in> set (open_inodes s)" using q(1) assms(3) by simp
    moreover from this obtain k where "inode_at s q = Some k" using assms(1) by (auto simp: opened_taken_def)
    ultimately show ?thesis using assms(2,6) q(2) by (auto simp: not_open_def)
  qed (use q(2) assms(4,5) in simp)
qed

lemma inode_open_after:
  assumes l: "inodes_listed s" and sec: "sec < fs_capacity s" and no: "not_open sec s" and k: "keeps s s1"
  shows "\<exists>s'. inode_open sec s1 = Some (length (inode_heap s), s') \<and> opened s s' \<and>
    inode_at s' (length (inode_heap s)) = Some (fresh_inode sec s) \<and> open_inodes s' = length (inode_heap s) # open_inodes s"
proof -
  have same: "inode_heap s1 = inode_heap s" "open_inodes s1 = open_inodes s" "inode_at s1 q = inode_at s q" for q
    using same_files [of s1 s] same_inode_at [of s1 s] k by (simp_all add: keeps_def)
  have "inodes_listed s1" "not_open sec s1" using l no same by (simp_all add: inodes_listed_def not_open_def)
  moreover from this have "find_inode (open_inodes s1) sec s1 = Some None" by (rule not_open_found)
  moreover have "cache_inv s1" "sec < fs_capacity s1" "cache_view s1 = cache_view s" using k sec by (simp_all add: keeps_def)
  ultimately obtain s2 where s2: "inode_open sec s1 = Some (length (inode_heap s), s2)" "opened s1 s2"
      "inode_at s2 (length (inode_heap s)) = Some (fresh_inode sec s)" "open_inodes s2 = length (inode_heap s) # open_inodes s"
    using inode_open_new [of s1 sec] same by (auto simp: fresh_inode_def on_disk_def)
  then show ?thesis using opened_trans [OF keeps_opened [OF k l] s2(2)] by blast
qed

lemma dir_lookup_new:
  assumes rep: "dir_rep p x i m n s" and t: "file_name_ok t" "m t = Some sec" and no: "not_open sec s"
  shows "\<exists>s'. dir_lookup p t s = Some (Some (length (inode_heap s)), s') \<and> opened s s' \<and>
    inode_at s' (length (inode_heap s)) = Some (fresh_inode sec s) \<and> open_inodes s' = length (inode_heap s) # open_inodes s"
proof -
  have nb: "name_bytes_ok t" "t \<noteq> ''.''" "t \<noteq> ''..''" using t(1) by (simp_all add: file_name_ok_def name_bytes_ok_def)
  from lookup_spec [OF rep nb(1)] obtain r s1 where l: "lookup p t s = Some (r, s1)"
    "map_option (\<lambda>(e, ofs). inode_sector e) r = m t" "keeps s s1" by blast
  then obtain e ofs where eo: "r = Some (e, ofs)" "inode_sector e = sec" using t(2) by auto
  have d: "dir_at s p = Some x" "inodes_listed s" "sec < fs_capacity s"
    using rep t(2) by (auto simp: dir_rep_def ran_def)
  from inode_open_after [OF d(2,3) no l(3)] obtain s2 where
    s2: "inode_open sec s1 = Some (length (inode_heap s), s2)" "opened s s2"
      "inode_at s2 (length (inode_heap s)) = Some (fresh_inode sec s)" "open_inodes s2 = length (inode_heap s) # open_inodes s" by blast
  have "dir_lookup p t s = Some (Some (length (inode_heap s)), s2)"
    using l(1) d(1) nb(2,3) eo s2(1) by (simp add: dir_lookup_def)
  then show ?thesis using s2(2-4) by blast
qed

lemma mounted_file_open:
  assumes m: "mounted b s" and s': "s' = s\<lparr>file_heap := file_heap s @ [y]\<rparr>"
  shows "mounted b s'" and "map_all s' = map_all s" and "map_elsewhere r s \<Longrightarrow> map_elsewhere r s'"
proof -
  have f: "file_at s' f = file_at s f" if ff: "free_map_file s = Some f" for f
  proof -
    have "map_file_ok b s" "free_map_file s \<noteq> None" using m ff by (simp_all add: mounted_def map_ok_def)
    then have "map_inode s \<noteq> None" by (auto simp: map_file_ok_def)
    then have "file_at s f \<noteq> None" using ff by (cases "file_at s f") (auto simp: map_inode_def)
    then have "f < length (file_heap s)" by (auto simp: file_at_def rd_def split: if_splits)
    then show ?thesis by (simp add: s' file_at_def rd_def nth_append)
  qed
  have fm: "free_map_file s' = free_map_file s" and at: "inode_at s' p = inode_at s p" for p by (simp_all add: s' inode_at_def)
  then have "map_inode s' = map_inode s" using f by (cases "free_map_file s") (simp_all add: map_inode_def)
  moreover have "cache_inv s' = cache_inv s" "cache_view s' = cache_view s" "fs_capacity s' = fs_capacity s"
    by (rule same_cache; simp add: s')+
  ultimately show "mounted b s'" "map_all s' = map_all s" using mounted_cong [of s' s] m by (simp_all add: s')
  show "map_elsewhere r s \<Longrightarrow> map_elsewhere r s'" using f fm unfolding map_elsewhere_def by metis
qed

lemma filesys_open_spec:
  assumes r: "root_rep b m n s" and t: "file_name_ok t" "m t = Some sec" and no: "not_open sec s"
  shows "\<exists>q s'. filesys_open (CHR ''/'' # t) s = Some (Some (length (file_heap s)), s') \<and> root_rep b m n s' \<and>
    file_heap s' = file_heap s @ [Some \<lparr>f_inode = q, f_pos = 0, f_deny_write = False\<rparr>] \<and> file_table s' = file_table s \<and> open_inodes s' = q # open_inodes s \<and>
    inode_at s q = None \<and> inode_at s' q = Some (fresh_inode sec s) \<and> map_elsewhere (Data_of q) s' \<and>
    (\<forall>q i. inode_at s q = Some i \<longrightarrow> inode_at s' q = Some i) \<and> cache_view s' = cache_view s \<and> frame {} s s'"
proof -
  let ?p = "length (dir_heap s)" let ?q = "length (inode_heap s)" let ?i = "fresh_inode ROOT_DIR_SECTOR s"
  let ?x = "\<lparr>d_inode = ?q, d_pos = 36, d_open_cnt = 1\<rparr>" let ?R = "all_sectors (cache_view s) (root_data s)"
  have sec: "taken b sec" "sec \<noteq> ROOT_DIR_SECTOR" and ot: "opened_taken b s" and ran: "\<And>t. t \<in> ran m \<Longrightarrow> taken b t \<and> t \<noteq> ROOT_DIR_SECTOR"
    using r t(2) by (auto simp: root_rep_def ran_def)
  obtain s1 where s1: "dir_open_root s = Some (Some ?p, s1)" "dir_rep ?p ?x ?i m n s1" "mounted b s1" "cache_view s1 = cache_view s"
      "frame {} s s1" "file_heap s1 = file_heap s" "open_inodes s1 = ?q # open_inodes s"
      "\<forall>q i. inode_at s q = Some i \<longrightarrow> inode_at s1 q = Some i" "map_elsewhere (Data_of ?q) s1" "file_table s1 = file_table s"
    using root_open [OF r] by blast
  have iq: "inode_at s1 ?q = Some ?i" using s1(2) by (simp add: dir_rep_def)
  let ?r = "length (inode_heap s1)"
  have lt: "?q < ?r" using iq by (auto simp: inode_at_def rd_def split: if_splits)
  have no1: "not_open sec s1" using not_open_root [OF ot no s1(7) iq _ s1(8)] sec(2) by (simp add: fresh_inode_def)
  from dir_lookup_new [OF s1(2) t no1] obtain s2 where
    s2: "dir_lookup ?p t s1 = Some (Some ?r, s2)" "opened s1 s2" "inode_at s2 ?r = Some (fresh_inode sec s1)" "open_inodes s2 = ?r # ?q # open_inodes s"
    using s1(7) by auto
  note o = opened_frame [OF s2(2) s1(3)]
  have v2: "cache_view s2 = cache_view s" and fr: "fresh_inode sec s1 = fresh_inode sec s"
    using s2(2) s1(4) by (simp_all add: opened_def fresh_inode_def on_disk_def)
  have f2: "frame {} s s2" by (rule frame_trans [OF s1(5) o(3)])
  have e2: "map_elsewhere (Data_of ?q) s2" using map_inode_elsewhere [OF s1(9), of s2] s2(2) by (simp add: opened_def)
  have er: "map_elsewhere (Data_of ?r) s2" using map_elsewhere_new [OF s1(3) new_inode_free, of s2] s2(2) by (simp add: opened_def)
  have old: "inode_at s q = Some j \<Longrightarrow> q \<noteq> ?q \<and> q \<noteq> ?r \<and> inode_at s2 q = Some j" for q j
    using s1(8) s2(2) new_inode_free [of s] new_inode_free [of s1] by (auto simp: opened_def)
  have os: "q \<noteq> d_inode ?x \<and> (\<exists>j. inode_at s2 q = Some j \<and> taken b (in_sector j) \<and> in_sector j \<noteq> ROOT_DIR_SECTOR)"
    if "q \<in> set (remove1 (d_inode ?x) (open_inodes s2))" for q
  proof (cases "q = ?r")
    case True
    then show ?thesis using s2(3) lt sec by (simp add: fresh_inode_def)
  next
    case False
    then have "q \<in> set (open_inodes s)" using that s2(4) lt by auto
    then show ?thesis using ot old by (fastforce simp: opened_taken_def)
  qed
  have x1: "d_open_cnt ?x = 1" by simp
  have "all_sectors (cache_view s2) (root_data s) = ?R" using v2 by simp
  moreover have "taken b u" if "u \<in> insert ROOT_DIR_SECTOR ?R" for u using r that by (auto simp: root_rep_def)
  ultimately obtain s3 where
    s3: "dir_close (Some ?p) s2 = Some s3" "root_rep b m n s3" "cache_view s3 = cache_view s2" "frame {} s2 s3"
      "file_heap s3 = file_heap s2" "open_inodes s3 = remove1 ?q (open_inodes s2)" "root_data s3 = root_data s"
      "\<forall>q. q \<noteq> ?q \<longrightarrow> inode_at s3 q = inode_at s2 q" "file_table s3 = file_table s2"
    using root_closed_again [OF r dir_rep_opened [OF s1(2) s2(2)] refl x1 o(1) _ f2 _ _ _ ran os] e2 by auto
  let ?t = "s3\<lparr>file_heap := file_heap s3 @ [Some \<lparr>f_inode = ?r, f_pos = 0, f_deny_write = False\<rparr>]\<rparr>"
  have fh: "file_heap s3 = file_heap s" using s3(5) s2(2) s1(6) by (simp add: opened_def)
  have at3: "inode_at s3 ?r = Some (fresh_inode sec s)" using s3(8) s2(3) lt fr by simp
  then have "inode_is_removed ?r s3 = Some False" by (simp add: inode_is_removed_def fresh_inode_def)
  then have run: "filesys_open (CHR ''/'' # t) s = Some (Some (length (file_heap s)), ?t)"
    using t(1) s1(1) s2(1) s3(1) fh split_rooted [of t "Suc (Suc (length t))" "Suc (Suc (length t))"]
    by (simp add: filesys_open_def file_name_ok_def file_open_def)
  have m3: "mounted b s3" using s3(2) by (simp add: root_rep_def)
  note mt = mounted_file_open [where y = "Some \<lparr>f_inode = ?r, f_pos = 0, f_deny_write = False\<rparr>", OF m3 refl]
  have c: "cache_view ?t = cache_view s3" "fs_capacity ?t = fs_capacity s3" using same_cache [of ?t s3] by simp_all
  have at: "inode_at ?t q = inode_at s3 q" for q by (simp add: inode_at_def)
  have "root_rep b m n ?t" using s3(2) mt(1,2) c at by (simp add: root_rep_def opened_taken_def on_disk_def)
  moreover have "map_elsewhere (Data_of ?r) ?t"
    using mt(3) map_inode_elsewhere [OF er, of s3] s3(4,5) by (simp add: frame_def)
  moreover have "frame {} s ?t" using frame_trans [OF f2 s3(4)] c mt(2) by (simp add: frame_def)
  moreover have "open_inodes ?t = ?r # open_inodes s" using s3(6) s2(4) lt by simp
  moreover have "file_table ?t = file_table s" using s3(9) s1(10) s2(2) by (simp add: opened_def)
  moreover have "inode_at s ?r = None" using lt by (simp add: inode_at_def rd_def)
  ultimately show ?thesis using run fh at3 at c s3(3,8) v2 old
    by (intro exI [of _ ?r] exI [of _ ?t]) simp
qed

section \<open>Creating and opening\<close>

lemma zero_content:
  assumes "sectors_used d \<le> 123" and "0 \<le> id_length d"
    and z: "\<And>k. k < sectors_used d \<Longrightarrow> v (direct_blocks d ! k) = zeros"
  shows "content v d = replicate (nat (id_length d)) 0"
proof (rule nth_equalityI)
  fix x assume "x < length (content v d)"
  then have x: "x < nat (id_length d)" by simp
  then have k: "x div 512 < sectors_used d" using used_iff [OF assms(2), of "x div 512"] by linarith
  then have "v (sector_of v d (x div 512)) = zeros" using z small_sectors(2) [OF assms(1)] by simp
  then show "content v d ! x = replicate (nat (id_length d)) 0 ! x"
    using x by (simp add: content_def zeros_def BLOCK_SECTOR_SIZE_def)
qed simp

lemma created_facts:
  assumes "created b b' len sec ds s" and "0 \<le> len" and "len \<le> 512 * 123"
  shows "on_disk sec s = new_disk False len ds" and "content (cache_view s) (new_disk False len ds) = replicate (nat len) 0"
    and "t \<in> insert sec (data_sectors v (new_disk False len ds)) \<Longrightarrow> \<not> taken b t \<and> taken b' t"
proof -
  have c: "small_disk b' s sec (new_disk False len ds)" "cache_view s sec = inode_image (new_disk False len ds)" "\<not> taken b sec"
    "\<And>k. k < DIV_ROUND_UP (nat len) BLOCK_SECTOR_SIZE \<Longrightarrow> \<not> taken b (ds ! k) \<and> cache_view s (ds ! k) = zeros"
    using assms(1) by (auto simp: created_def)
  have l: "DIV_ROUND_UP (nat len) BLOCK_SECTOR_SIZE \<le> 123" using assms(3) by (simp add: DIV_ROUND_UP_def BLOCK_SECTOR_SIZE_def)
  then have u: "sectors_used (new_disk False len ds) \<le> 123" by simp
  show "on_disk sec s = new_disk False len ds" using c(1,2) by (simp add: on_disk_def small_disk_def image_roundtrip)
  show "content (cache_view s) (new_disk False len ds) = replicate (nat len) 0"
    using zero_content [OF u] c(4) assms(2) by simp
  show "t \<in> insert sec (data_sectors v (new_disk False len ds)) \<Longrightarrow> \<not> taken b t \<and> taken b' t"
    using c l unfolding small_sectors(3) [OF u] by (auto simp: small_disk_def)
qed

lemma opened_small:
  assumes "inode_at s q = Some (fresh_inode sec s)" and "small_disk b s sec (on_disk sec s)" and "map_elsewhere (Data_of q) s"
  shows "small_file b q (fresh_inode sec s) s"
  using assms by (simp add: small_file_disk fresh_inode_def)

text \<open>
  C8: Creating a file under a new name in the root directory and opening it, when a slot and enough sectors are
  free: both succeed, the file is as long as asked, at position 0, all its bytes are zero, its inode and data
  lie in sectors that were free, and the directory holds one name more. No byte in use changes outside the
  directory and the map, and no assertion fails.
\<close>

theorem create_then_open:
  assumes r: "root_rep b m n s" and t: "file_name_ok t" "m t = None" and n: "0 < n" and len: "0 \<le> len" "len \<le> 512 * 123"
    and room: "DIV_ROUND_UP (nat len) BLOCK_SECTOR_SIZE < free_count b"
  shows "\<exists>b' q i s1 s'. filesys_create stale (CHR ''/'' # t) len False s = Some (True, s1) \<and>
    filesys_open (CHR ''/'' # t) s1 = Some (Some (length (file_heap s)), s') \<and>
    file_at s' (length (file_heap s)) = Some \<lparr>f_inode = q, f_pos = 0, f_deny_write = False\<rparr> \<and> small_file b' q i s' \<and>
    id_length (in_data i) = len \<and> content (cache_view s') (in_data i) = replicate (nat len) 0 \<and>
    (\<forall>u \<in> insert (in_sector i) (data_sectors (cache_view s') (in_data i)). \<not> taken b u) \<and>
    root_rep b' (m(t \<mapsto> in_sector i)) (n - 1) s' \<and> console s' = console s \<and>
    (\<forall>u. taken b u \<and> u \<notin> map_all s \<and> u \<notin> data_sectors (cache_view s) (root_data s) \<longrightarrow> cache_view s' u = cache_view s u)"
proof -
  let ?W = "data_sectors (cache_view s) (root_data s) \<union> {t. \<not> taken b t}"
  from filesys_create_spec [OF assms, of stale] obtain b' sec ds s1 where
    s1: "filesys_create stale (CHR ''/'' # t) len False s = Some (True, s1)" "root_rep b' (m(t \<mapsto> sec)) (n - 1) s1"
      "created b b' len sec ds s1" and step: "dir_step ?W s s1" by blast
  have s1': "frame ?W s s1" "file_heap s1 = file_heap s" "open_inodes s1 = open_inodes s"
    "\<forall>q i. inode_at s q = Some i \<longrightarrow> inode_at s1 q = Some i" using step by (simp_all add: dir_step_def)
  have new: "\<not> taken b sec" using s1(3) by (simp add: created_def)
  then have no: "not_open sec s1" using r s1'(3,4) by (fastforce simp: root_rep_def opened_taken_def not_open_def)
  from filesys_open_spec [OF s1(2) t(1) _ this] obtain q s' where
    s': "filesys_open (CHR ''/'' # t) s1 = Some (Some (length (file_heap s)), s')" "root_rep b' (m(t \<mapsto> sec)) (n - 1) s'"
      "file_heap s' = file_heap s @ [Some \<lparr>f_inode = q, f_pos = 0, f_deny_write = False\<rparr>]"
      "inode_at s' q = Some (fresh_inode sec s1)" "map_elsewhere (Data_of q) s'" "cache_view s' = cache_view s1" "frame {} s1 s'"
    using s1'(2) by auto
  let ?d = "new_disk False len ds"
  note d = created_facts [OF s1(3) len]
  have fr: "fresh_inode sec s1 = fresh_inode sec s'" "on_disk sec s' = ?d" using s'(6) d(1) by (simp_all add: fresh_inode_def on_disk_def)
  have "small_disk b' s' sec ?d" using s1(3) s'(7) by (simp add: created_def small_disk_def frame_def)
  then have small: "small_file b' q (fresh_inode sec s') s'" using opened_small [of s' q sec b'] s'(4,5) fr by simp
  have "file_at s' (length (file_heap s)) = Some \<lparr>f_inode = q, f_pos = 0, f_deny_write = False\<rparr>"
    using s'(3) by (simp add: file_at_def rd_def)
  moreover have "frame (data_sectors (cache_view s) (root_data s) \<union> {t. \<not> taken b t}) s s'"
    by (rule frame_trans [OF s1'(1) frame_mono [OF s'(7)]]) simp
  ultimately show ?thesis using s1(1) s'(1,2,6) small fr d(2,3)
    by (intro exI [of _ b'] exI [of _ q] exI [of _ "fresh_inode sec s'"] exI [of _ s1] exI [of _ s'])
      (auto simp: fresh_inode_def frame_def)
qed

text \<open>
  A disk of twelve sectors: the map in sector 3, the root directory of sector 1 with its entries in sector 2, that of
  the parent and two free slots; the sectors from 4 are free, only the file of the map is open.
\<close>

definition saved_map :: inode where
  "saved_map = \<lparr>in_sector = 0, open_cnt = 1, removed = False, deny_write_cnt = 0, in_data = new_disk False 8 (3 # replicate 122 0)\<rparr>"

definition root_bytes :: bytes where
  "root_bytes = [1, 0, 0, 0] @ replicate 31 0 @ [1] @ replicate 72 0"

definition empty_fs :: filesys where
  "empty_fs =
     \<lparr>console = [],
      hd_file = replicate 512 0 @ inode_image dir_disk @ root_bytes @ replicate 404 0 @ [15] @ replicate 511 0 @ replicate 4096 0,
      blocks = [\<lparr>bd_name = ''hda'', bd_fname = ''disk'', bd_size = 12, bd_ops = Ide, read_cnt = 0, write_cnt = 0\<rparr>],
      hard_drive = Some 0, fs_device = Some 0,
      cache = replicate 64 \<lparr>occupied = False, disk_sector = 0, buffer = replicate 512 0, dirty = False, accessed = False\<rparr>,
      clock = 0, inode_heap = [Some saved_map], disk_heap = [], block_stack = [], open_inodes = [0],
      free_map = Some \<lparr>bit_cnt = 12, bits = [15]\<rparr>, free_map_file = Some 0,
      file_heap = [Some \<lparr>f_inode = 0, f_pos = 0, f_deny_write = False\<rparr>], file_table = [],
      dir_heap = [], cwd = None, host_files = Map.empty, host_writable = (\<lambda>_. False)\<rparr>"

lemma dir_disk_typed: "disk_typed dir_disk"
  by (simp add: disk_typed_def dir_disk_def DIRECT_BLOCKS_COUNT_def off32_def)

lemma length_dir_image: "length (inode_image dir_disk) = 512"
  using dir_disk_typed by (simp add: BLOCK_SECTOR_SIZE_def)

lemma length_root_bytes: "length root_bytes = 108"
  by (simp add: root_bytes_def)

lemma empty_fs_cache: "cache_inv empty_fs" "cache_view empty_fs = disk_sector_at empty_fs" "fs_capacity empty_fs = 12"
proof -
  have "cache_inv (buffer_cache_init empty_fs) \<and> cache_view (buffer_cache_init empty_fs) = disk_sector_at empty_fs"
    by (rule buffer_cache_init_spec)
      (simp_all add: empty_fs_def device_ok_def raw_disk_def BUFFER_CACHE_SIZE_def BLOCK_SECTOR_SIZE_def length_dir_image length_root_bytes)
  moreover have "buffer_cache_init empty_fs = empty_fs" by (simp add: buffer_cache_init_def empty_fs_def)
  ultimately show "cache_inv empty_fs" "cache_view empty_fs = disk_sector_at empty_fs" by simp_all
  show "fs_capacity empty_fs = 12" by (simp add: empty_fs_def fs_capacity_def disk_capacity_def)
qed

lemma empty_fs_sectors:
  "disk_sector_at empty_fs 1 = inode_image dir_disk" "disk_sector_at empty_fs 2 = root_bytes @ replicate 404 0"
  "disk_sector_at empty_fs 3 = 15 # replicate 511 0"
  by (simp_all add: disk_sector_at_def empty_fs_def length_dir_image length_root_bytes)

lemma empty_root: "root_data empty_fs = dir_disk"
  by (simp add: on_disk_def ROOT_DIR_SECTOR_def empty_fs_cache(2) empty_fs_sectors image_roundtrip dir_disk_typed)

lemma saved_map_disk: "sectors_used (in_data saved_map) = 1" "data_sectors v (in_data saved_map) = {3}"
  "all_sectors v (in_data saved_map) = {3}" "file_ok v 12 (in_data saved_map)"
proof -
  show n: "sectors_used (in_data saved_map) = 1"
    by (simp add: saved_map_def DIV_ROUND_UP_def BLOCK_SECTOR_SIZE_def)
  have le: "sectors_used (in_data saved_map) \<le> 123" using n by simp
  show d: "data_sectors v (in_data saved_map) = {3}" unfolding small_sectors(3) [OF le] n by (simp add: saved_map_def lessThan_Suc)
  have t: "table_sectors v (in_data saved_map) 1 = {}" using small_sectors(1) [OF le, of v] n by simp
  show "all_sectors v (in_data saved_map) = {3}" using d t n by (simp add: all_sectors_def)
  have "inj_on (sector_of v (in_data saved_map)) {..<1}" by (simp add: inj_on_def)
  then show "file_ok v 12 (in_data saved_map)" using d t by (simp add: file_ok_def n) (simp add: saved_map_def)
qed

lemma empty_fs_map: "map_inode empty_fs = Some (0, saved_map)" "map_all empty_fs = {3}"
  using saved_map_disk(3) by (simp_all add: map_all_def, simp_all add: map_inode_def empty_fs_def file_at_def inode_at_def)

lemma empty_fs_taken: "taken \<lparr>bit_cnt = 12, bits = [15]\<rparr> t \<longleftrightarrow> unat t < 4"
proof -
  have b: "bits_of \<lparr>bit_cnt = 12, bits = [15 :: 64 word]\<rparr> = replicate 4 True @ replicate 8 False" by code_simp
  show ?thesis unfolding taken_def b by (auto simp: nth_append)
qed

lemma empty_fs_mounted: "mounted \<lparr>bit_cnt = 12, bits = [15]\<rparr> empty_fs"
proof -
  have eight: "[0..<nat (id_length (in_data saved_map))] = [0, 1, 2, 3, 4, 5, 6, 7]" by (simp add: saved_map_def upt_rec)
  have sec: "sector_of v (in_data saved_map) 0 = 3" for v by (simp add: sector_of_def saved_map_def)
  have "bytes_of_words 8 [15 :: 64 word] = [15, 0, 0, 0, 0, 0, 0, 0]" by code_simp
  then have saved: "content (cache_view empty_fs) (in_data saved_map) = bytes_of_words 8 [15 :: 64 word]"
    unfolding content_def eight by (simp add: empty_fs_cache(2) sec empty_fs_sectors(3) nth_Cons')
  have f: "free_map empty_fs = Some \<lparr>bit_cnt = 12, bits = [15]\<rparr>" by (simp add: empty_fs_def)
  have "map_file_ok \<lparr>bit_cnt = 12, bits = [15]\<rparr> empty_fs"
    unfolding map_file_ok_def empty_fs_cache(3) using empty_fs_map(1) saved_map_disk(3,4) empty_fs_taken
    by simp (simp add: saved_map_def byte_cnt_def elem_cnt_def DIV_ROUND_UP_def ELEM_BITS_def)
  then show ?thesis
    using empty_fs_cache empty_fs_map empty_fs_taken saved f
    by (simp add: mounted_def map_ok_def map_saved_def wf_bitmap_def elem_cnt_def DIV_ROUND_UP_def ELEM_BITS_def
        BITMAP_ERROR_def FREE_MAP_SECTOR_def)
qed

lemma file_ok_mono: "file_ok v cap d \<Longrightarrow> cap \<le> cap' \<Longrightarrow> file_ok v cap' d"
  by (auto simp: file_ok_def intro: less_le_trans)

lemma empty_fs_dir: "dir_on_disk (cache_view empty_fs) 12 dir_disk Map.empty 2" "all_sectors v dir_disk = {2}"
proof -
  let ?v = "cache_view empty_fs"
  have sec: "sector_of u dir_disk 0 = 2" for u by (simp add: sector_of_def dir_disk_def)
  have "content ?v dir_disk = root_bytes"
  proof (rule nth_equalityI)
    show l: "length (content ?v dir_disk) = length root_bytes" by (simp add: length_root_bytes) (simp add: dir_disk_def)
    fix k assume "k < length (content ?v dir_disk)"
    moreover from this have "k < 108" using l length_root_bytes by simp
    ultimately show "content ?v dir_disk ! k = root_bytes ! k"
      by (simp add: content_def empty_fs_cache(2) sec empty_fs_sectors(2) nth_append length_root_bytes)
  qed
  note c = this
  have cnt: "entry_cnt dir_disk = 3" by (simp add: entry_cnt_def dir_disk_def)
  have e: "Dir_Names.entry_at ?v dir_disk 0 = \<lparr>inode_sector = 1, e_name = replicate 31 0, in_use = True\<rparr>"
    "Dir_Names.entry_at ?v dir_disk 1 = \<lparr>inode_sector = 0, e_name = replicate 31 0, in_use = False\<rparr>"
    "Dir_Names.entry_at ?v dir_disk 2 = \<lparr>inode_sector = 0, e_name = replicate 31 0, in_use = False\<rparr>"
    unfolding Dir_Names.entry_at_def c by code_simp+
  have es: "dir_entries ?v dir_disk = replicate 2 \<lparr>inode_sector = 0, e_name = replicate 31 0, in_use = False\<rparr>"
    by (simp add: dir_entries_def cnt upt_rec e(2) [simplified] e(3) [unfolded numeral_2_eq_2] numeral_2_eq_2)
  have "dir_names ?v dir_disk = Map.empty" by (simp add: dir_names_def es named_def fun_eq_iff numeral_2_eq_2)
  moreover have "free_slots ?v dir_disk = 2" "dir_ok ?v dir_disk"
    by (simp_all add: free_slots_def es dir_ok_def cnt e names_unique_def)
  moreover have "file_ok ?v 12 dir_disk" by (rule file_ok_mono [OF one_dir_content(2)]) simp
  ultimately show "dir_on_disk ?v 12 dir_disk Map.empty 2" by (simp add: dir_on_disk_def)
  have n: "sectors_used dir_disk = 1" by (simp add: sectors_used_def DIV_ROUND_UP_def BLOCK_SECTOR_SIZE_def dir_disk_def)
  then have "sectors_used dir_disk \<le> 123" by simp
  from small_sectors(1,3) [OF this, of v] show "all_sectors v dir_disk = {2}"
    by (simp add: all_sectors_def n lessThan_Suc) (simp add: dir_disk_def)
qed

lemma empty_fs_rep: "root_rep \<lparr>bit_cnt = 12, bits = [15]\<rparr> Map.empty 2 empty_fs"
proof -
  have "opened_taken \<lparr>bit_cnt = 12, bits = [15]\<rparr> empty_fs"
    by (simp add: opened_taken_def empty_fs_taken) (simp add: empty_fs_def inode_at_def saved_map_def ROOT_DIR_SECTOR_def)
  moreover have "cwd empty_fs = None" by (simp add: empty_fs_def)
  ultimately show ?thesis
    unfolding root_rep_def empty_root empty_fs_dir(2) empty_fs_cache(3)
    using empty_fs_mounted empty_fs_dir(1) by (simp add: empty_fs_taken empty_fs_map(2) ROOT_DIR_SECTOR_def)
qed

lemma empty_fs_free: "free_count \<lparr>bit_cnt = 12, bits = [15]\<rparr> = 8"
proof -
  have b: "bits_of \<lparr>bit_cnt = 12, bits = [15 :: 64 word]\<rparr> = replicate 4 True @ replicate 8 False" by code_simp
  show ?thesis unfolding free_count_def b by code_simp
qed

theorem create_then_open_witness:
  "\<exists>q i s1 s'. filesys_create [] ''/notes'' 600 False empty_fs = Some (True, s1) \<and> filesys_open ''/notes'' s1 = Some (Some 1, s') \<and>
    file_at s' 1 = Some \<lparr>f_inode = q, f_pos = 0, f_deny_write = False\<rparr> \<and> inode_at s' q = Some i \<and> id_length (in_data i) = 600 \<and>
    content (cache_view s') (in_data i) = replicate 600 0 \<and> 4 \<le> unat (in_sector i) \<and> console s' = []"
proof -
  have "file_name_ok ''notes''" by (simp add: file_name_ok_def NAME_MAX_def)
  moreover have "DIV_ROUND_UP (nat 600) BLOCK_SECTOR_SIZE < free_count \<lparr>bit_cnt = 12, bits = [15]\<rparr>"
    unfolding empty_fs_free by (simp add: DIV_ROUND_UP_def BLOCK_SECTOR_SIZE_def)
  moreover have "file_heap empty_fs = [Some \<lparr>f_inode = 0, f_pos = 0, f_deny_write = False\<rparr>]" "console empty_fs = []"
    by (simp_all add: empty_fs_def)
  ultimately show ?thesis
    using create_then_open [OF empty_fs_rep, of "''notes''" 600 "[]"]
    by (simp add: empty_fs_taken small_file_def not_less) blast
qed

end
