(* ===== verification/File_Deletion.thy ===== *)
theory File_Deletion
  imports File_Creation
begin

text \<open>
  Removing a file of the root directory: the files at rest between commands, and the directory entry, the sectors of
  the inode and of the data given back.
\<close>

section \<open>Files at rest\<close>

definition file_sectors :: "sector \<Rightarrow> 'a files_scheme \<Rightarrow> sector set" where
  "file_sectors sec s = own_sectors sec (on_disk sec s)"

definition file_at_rest :: "bitmap \<Rightarrow> 'a files_scheme \<Rightarrow> sector \<Rightarrow> bool" where
  \<comment> \<open>a small plain file on disk, without a block it does not use\<close>
  "file_at_rest b s sec \<longleftrightarrow> sec \<noteq> FREE_MAP_SECTOR \<and> small_disk b s sec (on_disk sec s) \<and> \<not> is_dir (on_disk sec s) \<and>
     (\<forall>k < 123. sectors_used (on_disk sec s) \<le> k \<longrightarrow> direct_blocks (on_disk sec s) ! k = 0)"

lemma exact_sectors:
  assumes "small_disk b s sec d" and "\<forall>k < 123. sectors_used d \<le> k \<longrightarrow> direct_blocks d ! k = 0"
  shows "own_sectors sec d = insert sec (data_sectors v d)"
proof -
  have len: "length (direct_blocks d) = 123" and used: "\<And>k. k < sectors_used d \<Longrightarrow> direct_blocks d ! k \<noteq> 0"
    and n: "sectors_used d \<le> 123"
    using assms(1) small_used [of d] by (simp_all add: small_disk_def disk_typed_def DIRECT_BLOCKS_COUNT_def)
  have "x \<in> data_sectors v d \<longleftrightarrow> x \<in> set (direct_blocks d) \<and> x \<noteq> 0" for x
  proof
    assume "x \<in> data_sectors v d"
    then obtain k where "k < sectors_used d" "x = direct_blocks d ! k" unfolding small_sectors(3) [OF n] by auto
    then show "x \<in> set (direct_blocks d) \<and> x \<noteq> 0" using used n len by simp
  next
    assume "x \<in> set (direct_blocks d) \<and> x \<noteq> 0"
    then obtain k where k: "k < 123" "x = direct_blocks d ! k" "x \<noteq> 0" using len by (auto simp: in_set_conv_nth)
    then have "k < sectors_used d" using assms(2) by (cases "k < sectors_used d") auto
    then show "x \<in> data_sectors v d" unfolding small_sectors(3) [OF n] using k(2) by simp
  qed
  then show ?thesis by (auto simp: own_sectors_def)
qed

lemma rest_sectors: "file_at_rest b s sec \<Longrightarrow> file_sectors sec s = insert sec (data_sectors v (on_disk sec s))"
  unfolding file_sectors_def file_at_rest_def using exact_sectors by blast

lemma rest_taken:
  assumes "file_at_rest b s sec" and "x \<in> file_sectors sec s"
  shows "taken b x" and "x \<notin> map_all s"
proof -
  let ?d = "on_disk sec s"
  have d: "small_disk b s sec ?d" using assms(1) by (simp add: file_at_rest_def)
  have n: "sectors_used ?d \<le> 123" using d small_used by (simp add: small_disk_def)
  have "x = sec \<or> (\<exists>k < 123. x = direct_blocks ?d ! k \<and> x \<noteq> 0)"
    using assms(2) d unfolding file_sectors_def own_sectors_def
    by (auto simp: in_set_conv_nth small_disk_def disk_typed_def DIRECT_BLOCKS_COUNT_def)
  then show "taken b x" "x \<notin> map_all s" using d by (auto simp: small_disk_def)
qed

lemma rest_file_ok:
  assumes "mounted b s" and "file_at_rest b s sec"
  shows "file_ok v (fs_capacity s) (on_disk sec s)"
proof -
  let ?d = "on_disk sec s"
  have d: "small_disk b s sec ?d" using assms(2) by (simp add: file_at_rest_def)
  have n: "sectors_used ?d \<le> 123" using d small_used by (simp add: small_disk_def)
  note sec = small_sectors [OF n, where v = v]
  have ok: "map_ok b s" using assms(1) by (simp add: mounted_def)
  have "taken b t" if "t \<in> data_sectors v ?d" for t
    using that rest_taken(1) [OF assms(2)] rest_sectors [OF assms(2), of v] by simp
  moreover have "inj_on (sector_of v ?d) {..<sectors_used ?d}"
    using d n sec(2) by (auto simp: inj_on_def small_disk_def)
  ultimately show ?thesis
    using d sec(1) taken_in [OF ok] by (auto simp: file_ok_def small_disk_def disk_typed_def DIRECT_BLOCKS_COUNT_def)
qed

lemma rest_frame:
  assumes r: "file_at_rest b s sec" and f: "frame W s s'" and apart: "W \<inter> file_sectors sec s = {}"
    and t: "\<And>x. x \<in> file_sectors sec s \<Longrightarrow> taken b' x"
  shows "file_at_rest b' s' sec" and "on_disk sec s' = on_disk sec s" and "file_sectors sec s' = file_sectors sec s"
    and "content (cache_view s') (on_disk sec s') = content (cache_view s) (on_disk sec s)"
proof -
  let ?d = "on_disk sec s"
  have same: "cache_view s' x = cache_view s x" if "x \<in> file_sectors sec s" for x
    using frame_keeps [OF f] rest_taken(2) [OF r that] apart that by blast
  have sec: "sec \<in> file_sectors sec s" by (simp add: file_sectors_def own_sectors_def)
  show d: "on_disk sec s' = ?d" using same [OF sec] by (simp add: on_disk_def)
  show "file_sectors sec s' = file_sectors sec s" by (simp add: file_sectors_def d)
  have dd: "small_disk b s sec ?d" using r by (simp add: file_at_rest_def)
  have own: "direct_blocks ?d ! k \<in> file_sectors sec s" if "k < 123" "direct_blocks ?d ! k \<noteq> 0" for k
    using that dd by (simp add: file_sectors_def own_sectors_def small_disk_def disk_typed_def DIRECT_BLOCKS_COUNT_def)
  have "map_all s' = map_all s" using f by (simp add: frame_def)
  then show "file_at_rest b' s' sec" using r t [OF sec] t [OF own] by (simp add: file_at_rest_def d small_disk_def)
  have n: "sectors_used ?d \<le> 123" and len: "0 \<le> id_length ?d" using dd small_used by (simp_all add: small_disk_def)
  have "all_sectors (cache_view s) ?d \<subseteq> file_sectors sec s"
    using rest_sectors [OF r] small_sectors(1) [OF n] by (auto simp: all_sectors_def)
  then have "content (cache_view s') ?d = content (cache_view s) ?d" using same_sectors(3) [OF _ len] same by blast
  then show "content (cache_view s') (on_disk sec s') = content (cache_view s) ?d" by (simp add: d)
qed

section \<open>The entry\<close>

lemma erase_entry_spec:
  assumes rep: "dir_rep p x i m n s" and j: "1 \<le> j" "j < entry_cnt (in_data i)"
    and e: "Dir_Names.entry_at (cache_view s) (in_data i) j = e" "named t e"
  shows "\<exists>s'. write_entry p (e\<lparr>in_use := False\<rparr>) (36 * int j) s = Some (True, s') \<and> dir_rep p x i (m(t := None)) (n + 1) s' \<and>
    stores (data_sectors (cache_view s) (in_data i)) s s'"
proof -
  let ?v = "cache_view s" let ?d = "in_data i"
  have "36 * j + 36 \<le> length (content ?v ?d)" using j(2) unfolding entry_cnt_def length_content by linarith
  then have len: "length (e_name e) = 31" using e(1) by (auto simp: Dir_Names.entry_at_def entry_of_image_def)
  then obtain s' where s': "write_entry p (e\<lparr>in_use := False\<rparr>) (36 * int j) s = Some (True, s')" "stores (data_sectors ?v ?d) s s'"
      "content (cache_view s') ?d = overlay (36 * j) (entry_image (e\<lparr>in_use := False\<rparr>)) (content ?v ?d)"
      "file_ok (cache_view s') (fs_capacity s) ?d"
      "dir_at s' p = dir_at s p" "\<forall>q. inode_at s' q = inode_at s q" "inodes_listed s'"
    using write_entry_bytes [OF rep j(2), of "e\<lparr>in_use := False\<rparr>"] by auto
  have d: "dir_ok ?v ?d" "dir_names ?v ?d = m" "free_slots ?v ?d = n" using rep by (simp_all add: dir_rep_def)
  note new = dir_entry_removed [OF s'(3) len d(1) j e]
  have "\<forall>u \<in> ran (m(t := None)). u < fs_capacity s" using rep by (auto simp: dir_rep_def ran_def split: if_splits)
  then have "dir_rep p x i (m(t := None)) (n + 1) s'"
    using rep s' new d by (simp add: dir_rep_def stores_def)
  then show ?thesis using s'(1,2) by blast
qed

lemma dir_remove_spec:
  assumes m: "mounted b s" and rep: "dir_rep p x i m n s"
    and own: "\<And>u. u \<in> all_sectors (cache_view s) (in_data i) \<Longrightarrow> taken b u \<and> u \<notin> map_all s"
    and t: "file_name_ok t" "m t = Some sec" and no: "not_open sec s" and r: "file_at_rest b s sec"
    and apart: "file_sectors sec s \<inter> all_sectors (cache_view s) (in_data i) = {}" and mf: "free_map_file s \<noteq> None"
  shows "\<exists>b' s'. dir_remove p t s = Some (True, s') \<and> mounted b' s' \<and> (\<forall>u. taken b' u \<longleftrightarrow> taken b u \<and> u \<notin> file_sectors sec s) \<and>
    frame (data_sectors (cache_view s) (in_data i)) s s' \<and> dir_rep p x i (m(t := None)) (n + 1) s' \<and>
    all_sectors (cache_view s') (in_data i) = all_sectors (cache_view s) (in_data i) \<and>
    open_inodes s' = open_inodes s \<and> (\<forall>q j. inode_at s q = Some j \<longrightarrow> inode_at s' q = Some j) \<and> file_heap s' = file_heap s \<and>
    file_table s' = file_table s \<and> free_count b' = free_count b + sectors_used (on_disk sec s) + 1"
proof -
  let ?R = "all_sectors (cache_view s) (in_data i)" let ?D = "data_sectors (cache_view s) (in_data i)"
  let ?q = "length (inode_heap s)" let ?f = "fresh_inode sec s"
  have DR: "?D \<subseteq> ?R" by (auto simp: all_sectors_def)
  have nb: "name_bytes_ok t" using t(1) by (simp add: file_name_ok_def name_bytes_ok_def)
  from lookup_spec [OF rep nb] t(2) obtain e j s1 where l: "lookup p t s = Some (Some (e, 36 * int j), s1)" "inode_sector e = sec" "keeps s s1"
    and j: "1 \<le> j" "j < entry_cnt (in_data i)" "Dir_Names.entry_at (cache_view s) (in_data i) j = e" "named t e" by fastforce
  have d: "inodes_listed s" "inode_at s (d_inode x) = Some i" "dir_at s p = Some x" "sec < fs_capacity s"
    using rep t(2) by (auto simp: dir_rep_def ran_def)
  from inode_open_after [OF d(1,4) no l(3)] obtain s2 where s2: "inode_open sec s1 = Some (?q, s2)" and o2: "opened s s2"
    and at2: "inode_at s2 ?q = Some ?f" "open_inodes s2 = ?q # open_inodes s" by blast
  note o = opened_frame [OF o2 m]
  have v2: "cache_view s2 = cache_view s" and cap2: "fs_capacity s2 = fs_capacity s" using o2 by (simp_all add: opened_def)
  have e2: "map_elsewhere (Data_of ?q) s2" using map_elsewhere_new [OF m new_inode_free, of s2] o2 by (simp add: opened_def)
  have "small_disk b s2 sec (on_disk sec s2)" using r o(2) v2 by (simp add: file_at_rest_def small_disk_def on_disk_def)
  then have f2: "small_file b ?q ?f s2"
    using opened_small [of s2 ?q sec b] at2(1) e2 v2 by (simp add: fresh_inode_def on_disk_def)
  note rep2 = dir_rep_opened [OF rep o2]
  have plain: "inode_is_directory ?q s2 = Some False" using at2(1) r by (simp add: inode_is_directory_def fresh_inode_def file_at_rest_def)
  have "Dir_Names.entry_at (cache_view s2) (in_data i) j = e" using j(3) v2 by simp
  from erase_entry_spec [OF rep2 j(1,2) this j(4)] obtain s3 where
    s3: "write_entry p (e\<lparr>in_use := False\<rparr>) (36 * int j) s2 = Some (True, s3)" "dir_rep p x i (m(t := None)) (n + 1) s3" "stores ?D s2 s3"
    unfolding v2 by blast
  have "?D \<inter> map_all s2 = {}" using own DR o(2) by auto
  note m3 = mounted_stores [OF o(1) s3(3) this] and f3 = stores_frame [OF o(1) s3(3) this]
  have fr3: "frame ?D s s3" by (rule frame_trans [OF frame_mono [OF o(3)] f3(1)]) simp
  have small3: "small_file b ?q ?f s3" by (rule small_file_stores [OF f2 s3(3) m3(2)])
  have ff: "open_cnt ?f = 1" "in_sector ?f = sec" "in_data ?f = on_disk sec s" by (simp_all add: fresh_inode_def)
  have "free_map_file s3 \<noteq> None" "sec \<noteq> FREE_MAP_SECTOR" using mf fr3 r by (simp_all add: frame_def file_at_rest_def)
  from close_removed [OF m3(1) small3 ff(1) this(1), unfolded ff, OF this(2)] obtain b' s4 where
    s4: "do { s \<leftarrow> inode_remove ?q s3; inode_close (Some ?q) s } = Some s4" "mounted b' s4"
      "\<forall>u. taken b' u \<longleftrightarrow> taken b u \<and> u \<notin> insert sec (data_sectors (cache_view s3) (on_disk sec s))" "frame {} s3 s4"
      "open_inodes s4 = remove1 ?q (open_inodes s3)" "\<forall>q. q \<noteq> ?q \<longrightarrow> inode_at s4 q = inode_at s3 q" "file_heap s4 = file_heap s3"
      "files.more s4 = files.more s3" "file_table s4 = file_table s3" "free_count b' = free_count b + sectors_used (on_disk sec s) + 1"
    by blast
  have fs: "insert sec (data_sectors (cache_view s3) (on_disk sec s)) = file_sectors sec s" using rest_sectors [OF r] by simp
  have old: "q \<noteq> ?q \<and> inode_at s4 q = Some k" if "inode_at s q = Some k" for q k
  proof -
    have "q \<noteq> ?q" using that new_inode_free [of s] by auto
    then show ?thesis using that o2 f3(2) s4(6) by (simp add: opened_def quiet_def)
  qed
  have os: "open_inodes s4 = open_inodes s" using s4(5) f3(2) at2(2) by (simp add: quiet_def)
  have f34: "frame ?D s s4" by (rule frame_trans [OF fr3 frame_mono [OF s4(4)]]) simp
  have "file_ok (cache_view s) (fs_capacity s) (in_data i)" using rep by (simp add: dir_rep_def)
  then have all3: "all_sectors (cache_view s3) (in_data i) = ?R"
    by (rule all_sectors_kept(2)) (use frame_keeps [OF fr3] own in auto)
  have "map_all s3 = map_all s" using fr3 by (simp add: frame_def)
  then have ap: "{} \<inter> all_sectors (cache_view s3) (in_data i) = {}" "map_all s3 \<inter> all_sectors (cache_view s3) (in_data i) = {}"
    unfolding all3 using own by auto
  have "inode_at s4 (d_inode x) = Some i" using old d(2) by blast
  moreover have "inodes_listed s4" using d(1) os old by (fastforce simp: inodes_listed_def)
  ultimately have rep4: "dir_rep p x i (m(t := None)) (n + 1) s4" "all_sectors (cache_view s4) (in_data i) = ?R"
    using dir_rep_frame [OF s3(2) s4(2,4) _ s4(8) _ ap] all3 by simp_all
  obtain s5 where "inode_remove ?q s3 = Some s5" "inode_close (Some ?q) s5 = Some s4" using s4(1) by (auto split: bind_splits)
  then have "dir_remove p t s = Some (True, s4)"
    using l(1,2) s2 plain s3(1) by (simp add: dir_remove_def)
  moreover have "file_heap s4 = file_heap s" "file_table s4 = file_table s"
    using s4(7,9) f3(2) o2 by (simp_all add: quiet_def opened_def)
  ultimately show ?thesis using s4(2,3,10) f34 rep4 os old unfolding fs by (intro exI [of _ b'] exI [of _ s4]) simp
qed

lemma dir_remove_missing:
  assumes rep: "dir_rep p x i m n s" and t: "file_name_ok t" "m t = None"
  shows "\<exists>s'. dir_remove p t s = Some (False, s') \<and> keeps s s'"
proof -
  have "name_bytes_ok t" using t(1) by (simp add: file_name_ok_def name_bytes_ok_def)
  from lookup_spec [OF rep this] t(2) obtain s' where "lookup p t s = Some (None, s')" "keeps s s'" by auto
  then show ?thesis by (simp add: dir_remove_def inode_close_def)
qed

section \<open>The command\<close>

lemma open_root_path: "dir_open_root s = Some (Some p, s') \<Longrightarrow> dir_at s' p = Some x \<Longrightarrow> inode_at s' (d_inode x) = Some i \<Longrightarrow>
  \<not> removed i \<Longrightarrow> dir_open_path ''/'' s = Some (Some p, s')"
  by (simp add: dir_open_path_def dir_get_inode_def inode_is_removed_def)

lemma filesys_remove_spec:
  assumes r: "root_rep b m n s" and t: "file_name_ok t" "m t = Some sec" and no: "not_open sec s" and f: "file_at_rest b s sec"
    and mf: "free_map_file s \<noteq> None"
    and apart: "file_sectors sec s \<inter> insert ROOT_DIR_SECTOR (all_sectors (cache_view s) (root_data s)) = {}"
    and others: "\<And>u. u \<in> ran (m(t := None)) \<Longrightarrow> u \<notin> file_sectors sec s"
    and opened: "\<And>q j. q \<in> set (open_inodes s) \<Longrightarrow> inode_at s q = Some j \<Longrightarrow> in_sector j \<notin> file_sectors sec s"
  shows "\<exists>b' s'. filesys_remove (CHR ''/'' # t) s = Some (True, s') \<and> root_rep b' (m(t := None)) (n + 1) s' \<and>
    (\<forall>u. taken b' u \<longleftrightarrow> taken b u \<and> u \<notin> file_sectors sec s) \<and>
    dir_step (data_sectors (cache_view s) (root_data s)) s s' \<and> root_data s' = root_data s \<and>
    all_sectors (cache_view s') (root_data s) = all_sectors (cache_view s) (root_data s) \<and>
    free_count b' = free_count b + sectors_used (on_disk sec s) + 1"
proof -
  let ?i = "fresh_inode ROOT_DIR_SECTOR s" let ?R = "all_sectors (cache_view s) (root_data s)"
  let ?D = "data_sectors (cache_view s) (root_data s)"
  have id: "in_data ?i = root_data s" by (simp add: fresh_inode_def)
  note own = root_own [OF r]
  have ot: "opened_taken b s" and rm: "\<And>u. u \<in> ran m \<Longrightarrow> taken b u \<and> u \<noteq> ROOT_DIR_SECTOR"
    using r by (auto simp: root_rep_def)
  obtain p x s1 where o: "root_opened b m n s p x s1" using root_opens [OF r] by blast
  then have s1: "dir_open_root s = Some (Some p, s1)" "dir_rep p x ?i m n s1" "mounted b s1" "cache_view s1 = cache_view s"
      "frame {} s s1" "open_inodes s1 = d_inode x # open_inodes s" "\<forall>q i. inode_at s q = Some i \<longrightarrow> inode_at s1 q = Some i"
    by (simp_all add: root_opened_def)
  have ma1: "map_all s1 = map_all s" and mf1: "free_map_file s1 \<noteq> None" using s1(5) mf by (simp_all add: frame_def)
  have od: "on_disk sec s1 = on_disk sec s" "file_sectors sec s1 = file_sectors sec s" using s1(4) by (simp_all add: on_disk_def file_sectors_def)
  have own1: "\<And>u. u \<in> all_sectors (cache_view s1) (in_data ?i) \<Longrightarrow> taken b u \<and> u \<notin> map_all s1" unfolding id s1(4) ma1 using own(1) by auto
  have iq: "inode_at s1 (d_inode x) = Some ?i" "dir_at s1 p = Some x" using s1(2) by (simp_all add: dir_rep_def)
  have "sec \<noteq> ROOT_DIR_SECTOR" using rm t(2) by (auto simp: ran_def)
  then have no1: "not_open sec s1" using not_open_root [OF ot no s1(6) iq(1) _ s1(7)] by (simp add: fresh_inode_def)
  have f1: "file_at_rest b s1 sec" using f od ma1 by (simp add: file_at_rest_def small_disk_def)
  have ap1: "file_sectors sec s1 \<inter> all_sectors (cache_view s1) (in_data ?i) = {}" unfolding id s1(4) od(2) using apart by auto
  from dir_remove_spec [OF s1(3,2) own1 t no1 f1 ap1 mf1, unfolded id s1(4) od] obtain b' s2 where
    s2: "dir_remove p t s1 = Some (True, s2)" "mounted b' s2" "\<forall>u. taken b' u \<longleftrightarrow> taken b u \<and> u \<notin> file_sectors sec s"
      "frame ?D s1 s2" "dir_rep p x ?i (m(t := None)) (n + 1) s2" "all_sectors (cache_view s2) (root_data s) = ?R"
      "open_inodes s2 = open_inodes s1" "\<forall>q j. inode_at s1 q = Some j \<longrightarrow> inode_at s2 q = Some j" "file_heap s2 = file_heap s1"
      "file_table s2 = file_table s1" "free_count b' = free_count b + sectors_used (on_disk sec s) + 1"
    by blast
  have step: "dir_step ?D s1 s2" using s2(4,7-10) by (simp add: dir_step_def)
  have W: "ROOT_DIR_SECTOR \<notin> ?D" using own by auto
  have keep: "\<forall>u \<in> insert ROOT_DIR_SECTOR ?R. taken b' u" using own(1) s2(3) apart by auto
  have ran: "\<forall>u \<in> ran (m(t := None)). taken b' u \<and> u \<noteq> ROOT_DIR_SECTOR"
    using rm others s2(3) by (auto simp: ran_def split: if_splits)
  have os: "\<forall>q \<in> set (open_inodes s). \<forall>j. inode_at s q = Some j \<longrightarrow> taken b' (in_sector j)"
    using ot opened s2(3) by (fastforce simp: opened_taken_def)
  from root_closes [OF r o s2(5,2) step W s2(6) keep ran os] obtain s3 where
    s3: "dir_close (Some p) s2 = Some s3" "root_rep b' (m(t := None)) (n + 1) s3" "cache_view s3 = cache_view s2" "frame {} s2 s3"
      "dir_step ?D s s3" "root_data s3 = root_data s" by blast
  have "\<not> removed ?i" by (simp add: fresh_inode_def)
  then have "dir_open_path ''/'' s = Some (Some p, s1)" using open_root_path [OF s1(1) iq(2)] iq(1) by simp
  then have "filesys_remove (CHR ''/'' # t) s = Some (True, s3)"
    using t(1) s2(1) s3(1) split_rooted [of t "Suc (length t)" "Suc (length t)"] by (simp add: filesys_remove_def file_name_ok_def)
  then show ?thesis using s2(3,6,11) s3(2,3,5,6) by (intro exI [of _ b'] exI [of _ s3]) simp
qed

end
