(* ===== verification/File_Refusals.thy ===== *)
theory File_Refusals
  imports File_Deletion
begin

text \<open>
  The commands on files of the root directory that are refused: opening and removing a name that is not there change
  nothing; creating one that is there keeps the sectors reserved for the new file.
\<close>

section \<open>A look into the root directory\<close>

definition untouched :: "'a files_scheme \<Rightarrow> 'a files_scheme \<Rightarrow> bool" where
  \<comment> \<open>the disk reads as before\<close>
  "untouched s s' \<longleftrightarrow> cache_view s' = cache_view s \<and> dir_step {} s s'"

lemma keeps_frame:
  assumes "keeps s s'" and "mounted b s"
  shows "mounted b s'" and "frame {} s s'" and "quiet {} s s'"
proof -
  have st: "stores {} s s'" by (rule keeps_stores [OF assms(1)])
  show "mounted b s'" "frame {} s s'" "quiet {} s s'"
    using mounted_stores(1) [OF assms(2) st] stores_frame [OF assms(2) st] by simp_all
qed

lemma root_look:
  assumes r: "root_rep b m n s" and o: "root_opened b m n s p x s1" and k: "keeps s1 s2"
  shows "\<exists>s3. dir_close (Some p) s2 = Some s3 \<and> root_rep b m n s3 \<and> untouched s s3"
proof -
  have s1: "mounted b s1" "cache_view s1 = cache_view s" "dir_rep p x (fresh_inode ROOT_DIR_SECTOR s) m n s1"
    using o by (simp_all add: root_opened_def)
  note kf = keeps_frame [OF k s1(1)]
  have v: "cache_view s2 = cache_view s" using k s1(2) by (simp add: keeps_def)
  then have same: "all_sectors (cache_view s2) (root_data s) = all_sectors (cache_view s) (root_data s)" by simp
  have os: "\<forall>q \<in> set (open_inodes s). \<forall>j. inode_at s q = Some j \<longrightarrow> taken b (in_sector j)"
    using r by (fastforce simp: root_rep_def opened_taken_def)
  have "\<forall>u \<in> insert ROOT_DIR_SECTOR (all_sectors (cache_view s) (root_data s)). taken b u"
    "\<forall>u \<in> ran m. taken b u \<and> u \<noteq> ROOT_DIR_SECTOR" "ROOT_DIR_SECTOR \<notin> {}" using r by (auto simp: root_rep_def)
  from root_closes [OF r o dir_rep_keeps [OF s1(3) k] kf(1) dir_step_quiet [OF kf(2,3)] this(3) same this(1,2) os]
  show ?thesis using v by (auto simp: untouched_def)
qed

lemma filesys_open_missing:
  assumes r: "root_rep b m n s" and t: "file_name_ok t" "m t = None"
  shows "\<exists>s'. filesys_open (CHR ''/'' # t) s = Some (None, s') \<and> root_rep b m n s' \<and> untouched s s'"
proof -
  obtain p x s1 where o: "root_opened b m n s p x s1" using root_opens [OF r] by blast
  then have s1: "dir_open_root s = Some (Some p, s1)" "dir_rep p x (fresh_inode ROOT_DIR_SECTOR s) m n s1" by (simp_all add: root_opened_def)
  have nb: "name_bytes_ok t" "t \<noteq> ''.''" "t \<noteq> ''..''" using t(1) by (simp_all add: file_name_ok_def name_bytes_ok_def)
  from lookup_spec [OF s1(2) nb(1)] t(2) obtain s2 where s2: "lookup p t s1 = Some (None, s2)" "keeps s1 s2" by auto
  then obtain s3 where s3: "dir_close (Some p) s2 = Some s3" "root_rep b m n s3" "untouched s s3" using root_look [OF r o] by blast
  have "dir_at s1 p = Some x" using s1(2) by (simp add: dir_rep_def)
  then have "dir_lookup p t s1 = Some (None, s2)" using s2(1) nb(2,3) by (simp add: dir_lookup_def)
  then have "filesys_open (CHR ''/'' # t) s = Some (None, s3)"
    using t(1) s1(1) s3(1) split_rooted [of t "Suc (Suc (length t))" "Suc (Suc (length t))"]
    by (simp add: filesys_open_def file_name_ok_def)
  then show ?thesis using s3(2,3) by blast
qed

lemma filesys_remove_missing:
  assumes r: "root_rep b m n s" and t: "file_name_ok t" "m t = None"
  shows "\<exists>s'. filesys_remove (CHR ''/'' # t) s = Some (False, s') \<and> root_rep b m n s' \<and> untouched s s'"
proof -
  obtain p x s1 where o: "root_opened b m n s p x s1" using root_opens [OF r] by blast
  then have s1: "dir_open_root s = Some (Some p, s1)" "dir_rep p x (fresh_inode ROOT_DIR_SECTOR s) m n s1" by (simp_all add: root_opened_def)
  from dir_remove_missing [OF s1(2) t] obtain s2 where s2: "dir_remove p t s1 = Some (False, s2)" "keeps s1 s2" by blast
  then obtain s3 where s3: "dir_close (Some p) s2 = Some s3" "root_rep b m n s3" "untouched s s3" using root_look [OF r o] by blast
  have "dir_open_path ''/'' s = Some (Some p, s1)"
    using open_root_path [OF s1(1)] s1(2) by (simp add: dir_rep_def fresh_inode_def)
  then have "filesys_remove (CHR ''/'' # t) s = Some (False, s3)"
    using t(1) s2(1) s3(1) split_rooted [of t "Suc (length t)" "Suc (length t)"] by (simp add: filesys_remove_def file_name_ok_def)
  then show ?thesis using s3(2,3) by blast
qed

section \<open>A name that is taken\<close>

text \<open>
  When the name is taken, \<open>filesys_create\<close> gives back the sector of the inode it has just written, not the sectors of
  the data: they stay marked in the map.
\<close>

lemma create_in_existing:
  assumes m: "mounted b s" and rep: "dir_rep p x i m n s"
    and own: "\<And>u. u \<in> all_sectors (cache_view s) (in_data i) \<Longrightarrow> taken b u \<and> u \<notin> map_all s"
    and t: "file_name_ok t" "m t \<noteq> None" and n: "0 < n" and len: "0 \<le> len" "len \<le> 512 * 123" and mf: "free_map_file s \<noteq> None"
    and room: "DIV_ROUND_UP (nat len) BLOCK_SECTOR_SIZE < free_count b"
  shows "\<exists>b' s'. create_in stale p t len False s = Some (False, s') \<and> dir_rep p x i m n s' \<and> mounted b' s' \<and>
    (\<forall>u. taken b u \<longrightarrow> taken b' u) \<and>
    frame (data_sectors (cache_view s) (in_data i) \<union> {u. \<not> taken b u}) s s' \<and> quiet {} s s' \<and>
    all_sectors (cache_view s') (in_data i) = all_sectors (cache_view s) (in_data i) \<and>
    free_count b = free_count b' + DIV_ROUND_UP (nat len) BLOCK_SECTOR_SIZE"
proof -
  let ?R = "all_sectors (cache_view s) (in_data i)" let ?D = "data_sectors (cache_view s) (in_data i)"
  let ?W = "?D \<union> {u. \<not> taken b u}"
  obtain b1 sec ds s1 s2 where new: "free_map_allocate 1 s = Some (Some sec, s1)" "inode_create sec len False s1 = Some (True, s2)"
      "mounted b1 s2" "frame {u. \<not> taken b u} s s2" "quiet {} s s2" "created b b1 len sec ds s2"
    using new_file_spec [OF m len room] by blast
  have ap: "{u. \<not> taken b u} \<inter> ?R = {}" "map_all s \<inter> ?R = {}" using own by auto
  have "inode_at s2 (d_inode x) = Some i" "files.more s2 = files.more s" "inodes_listed s2"
    using rep new(5) quiet_listed [OF new(5)] by (simp_all add: dir_rep_def quiet_def)
  note rep2 = dir_rep_frame [OF rep new(3,4) this ap]
  have ma2: "map_all s2 = map_all s" using new(4) by (simp add: frame_def)
  have sec: "taken b1 sec" "\<not> taken b sec" "sec \<notin> map_all s2" and mono: "\<And>u. taken b u \<Longrightarrow> taken b1 u"
    and fc: "free_count b = free_count b1 + DIV_ROUND_UP (nat len) BLOCK_SECTOR_SIZE + 1"
    using new(6) by (simp_all add: created_def small_disk_def)
  have nb: "name_bytes_ok t" using t(1) by (simp add: file_name_ok_def name_bytes_ok_def)
  have "sec < fs_capacity s2" using taken_in [of b1 s2 sec] new(3) sec(1) by (simp add: mounted_def)
  from dir_add_spec [OF rep2(1) nb this n, of stale, unfolded rep2(3)] t(2) obtain s3 where
    s3: "dir_add stale p t sec False s2 = Some (False, s3)" "stores ?D s2 s3" "dir_rep p x i m n s3" by auto
  have DR: "?D \<subseteq> ?R" by (auto simp: all_sectors_def)
  then have "?D \<inter> map_all s2 = {}" using own ma2 by auto
  note m3 = mounted_stores [OF new(3) s3(2) this] and f3 = stores_frame [OF new(3) s3(2) this]
  have "taken b 0" using m by (simp add: mounted_def FREE_MAP_SECTOR_def)
  then have s0: "sec \<noteq> 0" "sec \<noteq> FREE_MAP_SECTOR" using sec(2) by (auto simp: FREE_MAP_SECTOR_def)
  have "free_map_file s3 \<noteq> None" using mf new(4) f3(1) by (simp add: frame_def)
  from release_one [OF m3(1) this sec(1) _ s0(2)] obtain b4 s4 where
    s4: "free_map_release sec 1 s3 = Some s4" "frees {sec} b1 s3 b4 s4" using sec(3) m3(2) by auto
  have v4: "\<forall>u. u \<notin> map_all s3 \<longrightarrow> cache_view s4 u = cache_view s3 u" "mounted b4 s4" "map_all s4 = map_all s3"
    using s4(2) by (simp_all add: frees_def)
  have f4: "frame {} s3 s4" "quiet {} s3 s4" using s4(2) frees_inode_at [OF s4(2)] by (simp_all add: frees_def frame_def quiet_def)
  have f: "frame ?W s s3" by (rule frame_trans [OF frame_mono [OF new(4)] frame_mono [OF f3(1)]]) auto
  have f': "frame ?W s s4" by (rule frame_trans [OF f frame_mono [OF f4(1)]]) simp
  have q: "quiet {} s s4" by (rule quiet_trans [OF quiet_trans [OF new(5) f3(2)] f4(2)])
  have "file_ok (cache_view s) (fs_capacity s) (in_data i)" using rep by (simp add: dir_rep_def)
  then have all: "all_sectors (cache_view s3) (in_data i) = ?R"
    by (rule all_sectors_kept(2)) (use frame_keeps [OF f] own in auto)
  have "map_all s3 = map_all s" using f by (simp add: frame_def)
  then have ap3: "{} \<inter> all_sectors (cache_view s3) (in_data i) = {}" "map_all s3 \<inter> all_sectors (cache_view s3) (in_data i) = {}"
    unfolding all using own by auto
  have "inode_at s4 (d_inode x) = Some i" "files.more s4 = files.more s3" "inodes_listed s4"
    using s3(3) f4(2) quiet_listed [OF f4(2)] by (simp_all add: dir_rep_def quiet_def)
  note rep4 = dir_rep_frame [OF s3(3) v4(2) f4(1) this ap3]
  have "create_in stale p t len False s = Some (False, s4)"
    using new(1,2) s3(1) s4(1) s0(1) by (simp add: create_in_def)
  moreover have "\<forall>u. taken b u \<longrightarrow> taken b4 u" using s4(2) mono sec(2) by (auto simp: frees_def)
  moreover have "free_count b = free_count b4 + DIV_ROUND_UP (nat len) BLOCK_SECTOR_SIZE" using s4(2) fc by (simp add: frees_def)
  ultimately show ?thesis using rep4(1,2) v4(2) f' q all by (intro exI [of _ b4] exI [of _ s4]) simp
qed

lemma filesys_create_existing:
  assumes r: "root_rep b m n s" and t: "file_name_ok t" "m t \<noteq> None" and n: "0 < n" and len: "0 \<le> len" "len \<le> 512 * 123"
    and mf: "free_map_file s \<noteq> None" and room: "DIV_ROUND_UP (nat len) BLOCK_SECTOR_SIZE < free_count b"
  shows "\<exists>b' s'. filesys_create stale (CHR ''/'' # t) len False s = Some (False, s') \<and> root_rep b' m n s' \<and>
    (\<forall>u. taken b u \<longrightarrow> taken b' u) \<and> dir_step (data_sectors (cache_view s) (root_data s) \<union> {u. \<not> taken b u}) s s' \<and>
    root_data s' = root_data s \<and> all_sectors (cache_view s') (root_data s) = all_sectors (cache_view s) (root_data s) \<and>
    free_count b = free_count b' + DIV_ROUND_UP (nat len) BLOCK_SECTOR_SIZE"
proof -
  let ?W = "data_sectors (cache_view s) (root_data s) \<union> {u. \<not> taken b u}" let ?i = "fresh_inode ROOT_DIR_SECTOR s"
  let ?R = "all_sectors (cache_view s) (root_data s)"
  obtain p x s1 where o: "root_opened b m n s p x s1" using root_opens [OF r] by blast
  then have s1: "dir_open_root s = Some (Some p, s1)" "dir_rep p x ?i m n s1" "mounted b s1" "cache_view s1 = cache_view s"
      "frame {} s s1" by (simp_all add: root_opened_def)
  note own = root_own [OF r]
  have id: "in_data ?i = root_data s" by (simp add: fresh_inode_def)
  have ma: "map_all s1 = map_all s" and mf1: "free_map_file s1 \<noteq> None" using s1(5) mf by (simp_all add: frame_def)
  then have "\<And>u. u \<in> all_sectors (cache_view s1) (in_data ?i) \<Longrightarrow> taken b u \<and> u \<notin> map_all s1" unfolding id s1(4) using own(1) by auto
  from create_in_existing [OF s1(3,2) this t n len mf1 room, of stale] obtain b' s2 where
    s2: "create_in stale p t len False s1 = Some (False, s2)" "dir_rep p x ?i m n s2" "mounted b' s2" "\<forall>u. taken b u \<longrightarrow> taken b' u"
      "frame ?W s1 s2" "quiet {} s1 s2" "all_sectors (cache_view s2) (root_data s) = ?R"
      "free_count b = free_count b' + DIV_ROUND_UP (nat len) BLOCK_SECTOR_SIZE"
    unfolding id s1(4) by blast
  have W: "ROOT_DIR_SECTOR \<notin> ?W" using own by auto
  have keep: "\<forall>u \<in> insert ROOT_DIR_SECTOR ?R. taken b' u" using own(1) s2(4) by blast
  have ran: "\<forall>u \<in> ran m. taken b' u \<and> u \<noteq> ROOT_DIR_SECTOR" using r s2(4) by (auto simp: root_rep_def)
  have os: "\<forall>q \<in> set (open_inodes s). \<forall>j. inode_at s q = Some j \<longrightarrow> taken b' (in_sector j)"
    using r s2(4) by (fastforce simp: root_rep_def opened_taken_def)
  from root_closes [OF r o s2(2,3) dir_step_quiet [OF s2(5,6)] W s2(7) keep ran os] obtain s3 where
    s3: "dir_close (Some p) s2 = Some s3" "root_rep b' m n s3" "cache_view s3 = cache_view s2" "frame {} s2 s3" "dir_step ?W s s3"
      "root_data s3 = root_data s" by blast
  have "filesys_create stale (CHR ''/'' # t) len False s = Some (False, s3)"
    using t s1(1) s2(1) s3(1) split_rooted [of t "Suc (length t)" "Suc (length t)"]
    by (simp add: filesys_create_def file_name_ok_def)
  then show ?thesis using s3(2,3,5,6) s2(4,7,8) by auto
qed

end
