(* ===== verification/File_Sessions.thy ===== *)
theory File_Sessions
  imports File_Refusals Fs_Utils
begin

text \<open>
  Using a file of the root directory by name: the command opens it, reads or writes, and closes it.
\<close>

section \<open>The heap of open files\<close>

lemma mounted_file_heap:
  assumes st: "s' = s\<lparr>file_heap := h\<rparr>" and h: "\<And>g. free_map_file s = Some g \<Longrightarrow> rd h g = rd (file_heap s) g"
  shows "mounted b s' = mounted b s" and "map_all s' = map_all s" and "map_elsewhere r s' = map_elsewhere r s"
proof -
  have f: "file_at s' g = file_at s g" if "free_map_file s = Some g" for g using h [OF that] by (simp add: st file_at_def)
  have fm: "free_map_file s' = free_map_file s" and at: "inode_at s' p = inode_at s p" for p by (simp_all add: st inode_at_def)
  then have "map_inode s' = map_inode s" using f by (cases "free_map_file s") (simp_all add: map_inode_def)
  moreover have "cache_inv s' = cache_inv s" "cache_view s' = cache_view s" "fs_capacity s' = fs_capacity s"
    by (rule same_cache; simp add: st)+
  ultimately show "mounted b s' = mounted b s" "map_all s' = map_all s" using mounted_cong [of s' s] by (simp_all add: st)
  show "map_elsewhere r s' = map_elsewhere r s" unfolding map_elsewhere_def using f fm by metis
qed

lemma file_heap_other: "g \<noteq> f \<Longrightarrow> rd (xs[f := y]) g = rd xs g"
  by (simp add: rd_def)

section \<open>Opening by name\<close>

definition file_opened :: "bitmap \<Rightarrow> (string \<rightharpoonup> sector) \<Rightarrow> nat \<Rightarrow> 'a filesys_scheme \<Rightarrow> string \<Rightarrow> sector \<Rightarrow> nat \<Rightarrow> nat \<Rightarrow> 'a filesys_scheme \<Rightarrow> bool" where
  \<comment> \<open>after the file \<open>t\<close> with the inode of \<open>sec\<close> was opened in \<open>s\<close>, as \<open>f\<close> on the inode \<open>q\<close>\<close>
  "file_opened b m n s t sec f q s1 \<longleftrightarrow> named_file (CHR ''/'' # t) s = Some (Some f, s1) \<and> root_rep b m n s1 \<and>
     small_file b q (fresh_inode sec s) s1 \<and> file_at s1 f = Some \<lparr>f_inode = q, f_pos = 0, f_deny_write = False\<rparr> \<and>
     free_map_file s1 \<noteq> Some f \<and> file_table s1 = [(CHR ''/'' # t, f)] \<and> open_inodes s1 = q # open_inodes s \<and> inode_at s q = None \<and>
     (\<forall>q i. inode_at s q = Some i \<longrightarrow> inode_at s1 q = Some i) \<and> cache_view s1 = cache_view s \<and> frame {} s s1"

lemma mounted_map_file: "mounted b s \<Longrightarrow> free_map_file s = Some f \<Longrightarrow> f < length (file_heap s)"
proof -
  assume "mounted b s" and f: "free_map_file s = Some f"
  then have "map_inode s \<noteq> None" by (auto simp: mounted_def map_ok_def map_file_ok_def)
  then have "file_at s f \<noteq> None" using f by (cases "file_at s f") (auto simp: map_inode_def)
  then show ?thesis by (auto simp: file_at_def rd_def split: if_splits)
qed

lemma file_opens:
  assumes r: "root_rep b m n s" and t: "file_name_ok t" "m t = Some sec" and no: "not_open sec s" and f: "file_at_rest b s sec"
    and tab: "file_table s = []"
  shows "\<exists>f q s1. file_opened b m n s t sec f q s1"
proof -
  let ?f = "length (file_heap s)"
  from filesys_open_spec [OF r t no] obtain q s' where
    s': "filesys_open (CHR ''/'' # t) s = Some (Some ?f, s')" "root_rep b m n s'"
      "file_heap s' = file_heap s @ [Some \<lparr>f_inode = q, f_pos = 0, f_deny_write = False\<rparr>]" "file_table s' = file_table s"
      "open_inodes s' = q # open_inodes s" "inode_at s q = None" "inode_at s' q = Some (fresh_inode sec s)"
      "map_elsewhere (Data_of q) s'" "\<forall>q i. inode_at s q = Some i \<longrightarrow> inode_at s' q = Some i" "cache_view s' = cache_view s" "frame {} s s'"
    by blast
  let ?t = "s'\<lparr>file_table := [(CHR ''/'' # t, ?f)]\<rparr>"
  have run: "named_file (CHR ''/'' # t) s = Some (Some ?f, ?t)"
    using s'(1,4) tab by (simp add: named_file_def get_file_by_fname_def add_to_file_table_def)
  have c: "cache_view ?t = cache_view s'" "fs_capacity ?t = fs_capacity s'" "cache_inv ?t = cache_inv s'"
    using same_cache [of ?t s'] by simp_all
  have mt: "mounted b ?t = mounted b s'" "map_all ?t = map_all s'" using mounted_objects [of ?t s'] by simp_all
  have at: "inode_at ?t p = inode_at s' p" "file_at ?t g = file_at s' g" for p g by (simp_all add: inode_at_def file_at_def)
  have rr: "root_rep b m n ?t" using s'(2) c mt at by (simp add: root_rep_def opened_taken_def on_disk_def)
  have fr: "frame {} s ?t" using s'(11) c mt(2) by (simp add: frame_def)
  have e: "map_elsewhere (Data_of q) ?t" using s'(8) at by (simp add: map_elsewhere_def)
  have "fresh_inode sec ?t = fresh_inode sec s" "on_disk sec ?t = on_disk sec s" using c s'(10) by (simp_all add: fresh_inode_def on_disk_def)
  moreover have "small_disk b ?t sec (on_disk sec s)" using f fr by (simp add: file_at_rest_def small_disk_def frame_def)
  ultimately have small: "small_file b q (fresh_inode sec s) ?t" using opened_small [of ?t q sec b] s'(7) at e by simp
  have "mounted b s" using r by (simp add: root_rep_def)
  then have "free_map_file s \<noteq> Some ?f" using mounted_map_file by fastforce
  then have nf: "free_map_file ?t \<noteq> Some ?f" using s'(11) by (simp add: frame_def)
  have "file_at ?t ?f = Some \<lparr>f_inode = q, f_pos = 0, f_deny_write = False\<rparr>" using s'(3) by (simp add: file_at_def rd_def)
  then have "file_opened b m n s t sec ?f q ?t"
    using run rr small nf fr s'(5,6,9,10) at c by (simp add: file_opened_def)
  then show ?thesis by blast
qed

section \<open>Closing by name\<close>

lemma inode_close_last:
  assumes "inode_at s q = Some i" and "open_cnt i = 1" and "\<not> removed i"
  shows "inode_close (Some q) s = Some (s\<lparr>inode_heap := (inode_heap s)[q := None], open_inodes := remove1 q (open_inodes s)\<rparr>)"
  using assms by (simp add: inode_close_def put_inode_def)

definition fs_step :: "sector set \<Rightarrow> 'a files_scheme \<Rightarrow> 'a files_scheme \<Rightarrow> bool" where
  "fs_step W s s' \<longleftrightarrow> frame W s s' \<and> open_inodes s' = open_inodes s \<and> file_table s' = file_table s \<and>
     (\<forall>q i. inode_at s q = Some i \<longrightarrow> inode_at s' q = Some i)"

lemma dir_step_fs: "dir_step W s s' \<Longrightarrow> fs_step W s s'"
  by (simp add: dir_step_def fs_step_def)

lemma root_rep_frame:
  assumes r: "root_rep b m n s" and m': "mounted b' s'" and f: "frame W s s'"
    and W: "W \<inter> insert ROOT_DIR_SECTOR (all_sectors (cache_view s) (root_data s)) = {}"
    and mono: "\<And>u. taken b u \<Longrightarrow> taken b' u" and cwd: "cwd s' = None" and ot: "opened_taken b' s'"
  shows "root_rep b' m n s'" and "root_data s' = root_data s"
    and "all_sectors (cache_view s') (root_data s) = all_sectors (cache_view s) (root_data s)"
proof -
  let ?R = "all_sectors (cache_view s) (root_data s)"
  note own = root_own [OF r]
  have same: "cache_view s' x = cache_view s x" if "x \<in> insert ROOT_DIR_SECTOR ?R" for x
    using frame_keeps [OF f, of x] own(1) [OF that] W that by auto
  show data: "root_data s' = root_data s" using same [of ROOT_DIR_SECTOR] by (simp add: on_disk_def)
  have d: "dir_on_disk (cache_view s) (fs_capacity s) (root_data s) m n" using r by (simp add: root_rep_def)
  then have len: "0 \<le> id_length (root_data s)" by (simp add: dir_on_disk_def file_ok_def)
  have sm: "\<And>x. x \<in> ?R \<Longrightarrow> cache_view s' x = cache_view s x" using same by simp
  note u = same_sectors [OF sm len]
  show "all_sectors (cache_view s') (root_data s) = ?R" by (rule u(1)) simp
  have dd: "dir_on_disk (cache_view s') (fs_capacity s') (root_data s') m n"
    unfolding data using d u(4) same_entries [OF u(3)] f by (simp add: dir_on_disk_def frame_def)
  have ma: "map_all s' = map_all s" using f by (simp add: frame_def)
  have "\<forall>x \<in> ran m. taken b' x \<and> x \<noteq> ROOT_DIR_SECTOR" using r mono by (auto simp: root_rep_def)
  moreover have "taken b' x \<and> x \<notin> map_all s" if "x \<in> insert ROOT_DIR_SECTOR ?R" for x using own(1) [OF that] mono by blast
  ultimately show "root_rep b' m n s'"
    using m' cwd ot dd own(2) u(1) by (simp add: root_rep_def data ma)
qed

lemma file_closes:
  assumes r: "root_rep b m n s" and tab: "file_table s = []" and o: "file_opened b m n s t sec f q s1"
    and m2: "mounted b' s2" and mono: "\<And>u. taken b u \<Longrightarrow> taken b' u" and fr: "frame W s1 s2"
    and W: "W \<inter> insert ROOT_DIR_SECTOR (all_sectors (cache_view s) (root_data s)) = {}"
    and e: "map_elsewhere (Data_of q) s2" and os: "open_inodes s2 = open_inodes s1" and mr: "files.more s2 = files.more s1"
    and ft: "file_table s2 = file_table s1" and oth: "\<And>p. p \<noteq> q \<Longrightarrow> inode_at s2 p = inode_at s1 p"
    and j: "inode_at s2 q = Some j" "open_cnt j = 1" "\<not> removed j"
    and y: "file_at s2 f = Some y" "f_inode y = q" "\<not> f_deny_write y"
  shows "\<exists>s3. fsutil_close (CHR ''/'' # t) s2 = Some s3 \<and> root_rep b' m n s3 \<and> cache_view s3 = cache_view s2 \<and> fs_step W s s3 \<and>
    root_data s3 = root_data s \<and> all_sectors (cache_view s3) (root_data s) = all_sectors (cache_view s) (root_data s)"
proof -
  let ?R = "all_sectors (cache_view s) (root_data s)"
  have s1: "root_rep b m n s1" "free_map_file s1 \<noteq> Some f" "file_table s1 = [(CHR ''/'' # t, f)]" "open_inodes s1 = q # open_inodes s"
      "inode_at s q = None" "\<forall>q i. inode_at s q = Some i \<longrightarrow> inode_at s1 q = Some i" "cache_view s1 = cache_view s" "frame {} s s1"
    using o by (simp_all add: file_opened_def)
  let ?s = "s2\<lparr>inode_heap := (inode_heap s2)[q := None], open_inodes := remove1 q (open_inodes s2)\<rparr>"
  let ?t = "?s\<lparr>file_heap := (file_heap ?s)[f := None]\<rparr>" let ?u = "?t\<lparr>file_table := []\<rparr>"
  have "get_file_by_fname (CHR ''/'' # t) s2 = Some f" using ft s1(3) by (simp add: get_file_by_fname_def)
  moreover have "file_close (Some f) s2 = Some ?t"
    using y inode_close_last [OF j] by (simp add: file_close_def file_allow_write_def not_null_def Let_def)
  ultimately have run: "fsutil_close (CHR ''/'' # t) s2 = Some ?u"
    using ft s1(3) by (simp add: fsutil_close_def remove_from_file_table_def)
  note m3 = mounted_elsewhere [OF m2 e, of ?s "remove1 q (open_inodes s2)" None]
  have "rd ((file_heap ?s)[f := None]) g = rd (file_heap ?s) g" if "free_map_file ?s = Some g" for g
    using that s1(2) fr by (intro file_heap_other) (auto simp: frame_def)
  note m4 = mounted_file_heap [OF refl this]
  have mu: "mounted b' ?u" "map_all ?u = map_all s2" using mounted_objects [of ?u ?t] m3 m4 by simp_all
  have c: "cache_view ?u = cache_view s2" "fs_capacity ?u = fs_capacity s2" using same_cache [of ?u s2] by simp_all
  have f2: "frame W s s2" by (rule frame_trans [OF frame_mono [OF s1(8)] fr]) simp
  then have fu: "frame W s ?u" using c mu(2) by (simp add: frame_def)
  have ma: "map_all s2 = map_all s" using f2 by (simp add: frame_def)
  have at: "inode_at ?u p = (if p = q then None else inode_at s2 p)" for p
    using j(1) by (auto simp: inode_at_def rd_def)
  have old: "inode_at ?u p = Some i" if "inode_at s p = Some i" for p i
    using that s1(5,6) oth at by auto
  have ops: "open_inodes ?u = open_inodes s" using os s1(4) by simp
  have step: "fs_step W s ?u" using fu ops tab old by (simp add: fs_step_def)
  have "cwd s2 = cwd s1" using mr by (cases s1; cases s2) simp
  then have "cwd ?u = None" using s1(1) by (simp add: root_rep_def)
  moreover have "opened_taken b' ?u"
    unfolding opened_taken_def ops
  proof
    fix p assume "p \<in> set (open_inodes s)"
    moreover have "opened_taken b s" using r by (simp add: root_rep_def)
    ultimately obtain k where "inode_at s p = Some k" "taken b (in_sector k)" "in_sector k \<noteq> ROOT_DIR_SECTOR"
      by (auto simp: opened_taken_def)
    then show "\<exists>k. inode_at ?u p = Some k \<and> taken b' (in_sector k) \<and> in_sector k \<noteq> ROOT_DIR_SECTOR" using old mono by blast
  qed
  ultimately show ?thesis using root_rep_frame [OF r mu(1) fu W mono] run c step by blast
qed

end
