(* ===== verification/File_Store.thy ===== *)
theory File_Store
  imports File_Sessions
begin

text \<open>
  The file system as a map from names to contents: the commands of \<open>fsutil.c\<close> on small files of the root directory,
  between states in which no file is open.
\<close>

section \<open>The state between commands\<close>

definition fs_rep :: "bitmap \<Rightarrow> (string \<rightharpoonup> sector) \<Rightarrow> nat \<Rightarrow> 'a filesys_scheme \<Rightarrow> bool" where
  \<comment> \<open>the root directory holds the small files \<open>m\<close>; no two share a sector; only the file of the map is open\<close>
  "fs_rep b m n s \<longleftrightarrow> root_rep b m n s \<and> free_map_file s \<noteq> None \<and> file_table s = [] \<and>
     (\<forall>q \<in> set (open_inodes s). \<forall>j. inode_at s q = Some j \<longrightarrow> in_sector j = FREE_MAP_SECTOR) \<and>
     (\<forall>t sec. m t = Some sec \<longrightarrow> file_at_rest b s sec \<and>
        file_sectors sec s \<inter> insert ROOT_DIR_SECTOR (all_sectors (cache_view s) (root_data s)) = {}) \<and>
     (\<forall>t u sec sec'. m t = Some sec \<and> m u = Some sec' \<and> t \<noteq> u \<longrightarrow> file_sectors sec s \<inter> file_sectors sec' s = {})"

definition bytes_at :: "sector \<Rightarrow> 'a files_scheme \<Rightarrow> bytes" where
  "bytes_at sec s = content (cache_view s) (on_disk sec s)"

definition stored :: "(string \<rightharpoonup> sector) \<Rightarrow> 'a files_scheme \<Rightarrow> string \<rightharpoonup> bytes" where
  "stored m s t = map_option (\<lambda>sec. bytes_at sec s) (m t)"

lemma fs_repD:
  assumes "fs_rep b m n s"
  shows "root_rep b m n s" and "free_map_file s \<noteq> None" and "file_table s = []" and "mounted b s"
    and "m t = Some sec \<Longrightarrow> file_at_rest b s sec"
    and "m t = Some sec \<Longrightarrow> file_sectors sec s \<inter> insert ROOT_DIR_SECTOR (all_sectors (cache_view s) (root_data s)) = {}"
    and "m t = Some sec \<Longrightarrow> m u = Some sec' \<Longrightarrow> t \<noteq> u \<Longrightarrow> file_sectors sec s \<inter> file_sectors sec' s = {}"
  using assms by (simp_all add: fs_rep_def root_rep_def)

lemma fs_rep_closed:
  assumes F: "fs_rep b m n s" and t: "m t = Some sec"
  shows "not_open sec s" and "q \<in> set (open_inodes s) \<Longrightarrow> inode_at s q = Some j \<Longrightarrow> in_sector j \<notin> file_sectors sec s"
proof -
  have "sec \<noteq> FREE_MAP_SECTOR" using fs_repD(5) [OF F t] by (simp add: file_at_rest_def)
  then show "not_open sec s" using F by (auto simp: fs_rep_def not_open_def)
  have "FREE_MAP_SECTOR \<notin> file_sectors sec s"
    using \<open>sec \<noteq> FREE_MAP_SECTOR\<close> by (simp add: file_sectors_def own_sectors_def FREE_MAP_SECTOR_def)
  then show "q \<in> set (open_inodes s) \<Longrightarrow> inode_at s q = Some j \<Longrightarrow> in_sector j \<notin> file_sectors sec s"
    using F by (auto simp: fs_rep_def)
qed

text \<open>What commands write apart from the file they name: entries of the directory and free sectors.\<close>

abbreviation dir_or_free :: "bitmap \<Rightarrow> 'a files_scheme \<Rightarrow> sector set" where
  "dir_or_free b s \<equiv> data_sectors (cache_view s) (root_data s) \<union> {x. \<not> taken b x}"

lemma fs_rep_apart:
  assumes "fs_rep b m n s" and "m t = Some sec"
  shows "dir_or_free b s \<inter> file_sectors sec s = {}"
  using fs_repD(6) [OF assms] rest_taken(1) [OF fs_repD(5) [OF assms]] root_own(3) [OF fs_repD(1) [OF assms(1)]] by blast

lemma fs_rep_update:
  assumes F: "fs_rep b m n s" and st: "fs_step W s s'" and rr: "root_rep b' (m(t := r)) n' s'"
    and data: "root_data s' = root_data s" and all: "all_sectors (cache_view s') (root_data s) = all_sectors (cache_view s) (root_data s)"
    and apart: "\<forall>u sec. u \<noteq> t \<longrightarrow> m u = Some sec \<longrightarrow> W \<inter> file_sectors sec s = {}"
    and kept: "\<forall>u sec x. u \<noteq> t \<longrightarrow> m u = Some sec \<longrightarrow> x \<in> file_sectors sec s \<longrightarrow> taken b' x"
    and written: "\<forall>sec. r = Some sec \<longrightarrow> file_at_rest b' s' sec \<and>
      file_sectors sec s' \<inter> insert ROOT_DIR_SECTOR (all_sectors (cache_view s) (root_data s)) = {} \<and>
      (\<forall>u sec'. u \<noteq> t \<and> m u = Some sec' \<longrightarrow> file_sectors sec s' \<inter> file_sectors sec' s = {})"
  shows "fs_rep b' (m(t := r)) n' s'" and "stored (m(t := r)) s' = (stored m s)(t := map_option (\<lambda>sec. bytes_at sec s') r)"
proof -
  note W = apart [rule_format] and keep = kept [rule_format]
  have new: "file_at_rest b' s' sec \<and>
      file_sectors sec s' \<inter> insert ROOT_DIR_SECTOR (all_sectors (cache_view s) (root_data s)) = {} \<and>
      (\<forall>u sec'. u \<noteq> t \<and> m u = Some sec' \<longrightarrow> file_sectors sec s' \<inter> file_sectors sec' s = {})" if "r = Some sec" for sec
    using written that by blast
  have f: "frame W s s'" and os: "open_inodes s' = open_inodes s" "file_table s' = file_table s"
    "\<And>q i. inode_at s q = Some i \<Longrightarrow> inode_at s' q = Some i" using st by (simp_all add: fs_step_def)
  have old: "file_at_rest b' s' sec \<and> file_sectors sec s' = file_sectors sec s \<and> bytes_at sec s' = bytes_at sec s"
    if "u \<noteq> t" "m u = Some sec" for u sec
    using rest_frame [OF fs_repD(5) [OF F that(2)] f W [OF that] keep [OF that]] by (simp add: bytes_at_def)
  have in0: "in_sector j = FREE_MAP_SECTOR" if "q \<in> set (open_inodes s')" "inode_at s' q = Some j" for q j
  proof -
    have q: "q \<in> set (open_inodes s)" using that(1) os(1) by simp
    moreover have "opened_taken b s" using fs_repD(1) [OF F] by (simp add: root_rep_def)
    ultimately obtain k where "inode_at s q = Some k" by (auto simp: opened_taken_def)
    moreover from this have "k = j" using os(3) that(2) by fastforce
    ultimately show ?thesis using F q by (auto simp: fs_rep_def)
  qed
  show "fs_rep b' (m(t := r)) n' s'"
    unfolding fs_rep_def
  proof (intro conjI allI impI ballI)
    show "root_rep b' (m(t := r)) n' s'" by (rule rr)
    show "free_map_file s' \<noteq> None" using f fs_repD(2) [OF F] by (simp add: frame_def)
    show "file_table s' = []" using os(2) fs_repD(3) [OF F] by simp
    show "in_sector j = FREE_MAP_SECTOR" if "q \<in> set (open_inodes s')" "inode_at s' q = Some j" for q j by (rule in0 [OF that])
    show "file_at_rest b' s' sec" if "(m(t := r)) u = Some sec" for u sec using that old new by (cases "u = t") auto
    show "file_sectors sec s' \<inter> insert ROOT_DIR_SECTOR (all_sectors (cache_view s') (root_data s')) = {}"
      if "(m(t := r)) u = Some sec" for u sec
      using that old [of u sec] new [of sec] fs_repD(6) [OF F, of u sec] unfolding data all by (cases "u = t") auto
    show "file_sectors sec s' \<inter> file_sectors sec' s' = {}"
      if h: "(m(t := r)) u = Some sec \<and> (m(t := r)) v = Some sec' \<and> u \<noteq> v" for u v sec sec'
    proof -
      consider "u = t" "v \<noteq> t" | "u \<noteq> t" "v = t" | "u \<noteq> t" "v \<noteq> t" using h by blast
      then show ?thesis
      proof cases
        case 1
        then have e: "r = Some sec" "m v = Some sec'" using h by simp_all
        have "file_sectors sec s' \<inter> file_sectors sec' s = {}" using new [OF e(1)] e(2) 1(2) by blast
        then show ?thesis using old [OF 1(2) e(2)] by simp
      next
        case 2
        then have e: "r = Some sec'" "m u = Some sec" using h by simp_all
        have "file_sectors sec' s' \<inter> file_sectors sec s = {}" using new [OF e(1)] e(2) 2(1) by blast
        then show ?thesis using old [OF 2(1) e(2)] by auto
      next
        case 3
        then show ?thesis using h old [of u sec] old [of v sec'] fs_repD(7) [OF F, of u sec v sec'] by auto
      qed
    qed
  qed
  show "stored (m(t := r)) s' = (stored m s)(t := map_option (\<lambda>sec. bytes_at sec s') r)"
  proof
    fix u
    show "stored (m(t := r)) s' u = ((stored m s)(t := map_option (\<lambda>sec. bytes_at sec s') r)) u"
      using old [of u] by (cases "u = t"; cases "m u") (simp_all add: stored_def)
  qed
qed

lemma fs_rep_kept:
  assumes F: "fs_rep b m n s" and st: "fs_step W s s'" and rr: "root_rep b' m n' s'"
    and data: "root_data s' = root_data s" and all: "all_sectors (cache_view s') (root_data s) = all_sectors (cache_view s) (root_data s)"
    and apart: "\<forall>u sec. m u = Some sec \<longrightarrow> W \<inter> file_sectors sec s = {}" and mono: "\<forall>x. taken b x \<longrightarrow> taken b' x"
  shows "fs_rep b' m n' s'" and "stored m s' = stored m s"
proof -
  note W = apart [rule_format]
  have f: "frame W s s'" using st by (simp add: fs_step_def)
  have keep: "taken b' x" if "m u = Some sec" "x \<in> file_sectors sec s" for u sec x
    using rest_taken(1) [OF fs_repD(5) [OF F that(1)] that(2)] mono by blast
  fix t
  have same: "m(t := m t) = m" by simp
  have new: "file_at_rest b' s' sec \<and> file_sectors sec s' \<inter> insert ROOT_DIR_SECTOR (all_sectors (cache_view s) (root_data s)) = {} \<and>
      (\<forall>u sec'. u \<noteq> t \<and> m u = Some sec' \<longrightarrow> file_sectors sec s' \<inter> file_sectors sec' s = {})" if "m t = Some sec" for sec
    using rest_frame [OF fs_repD(5) [OF F that] f W [OF that] keep [OF that]] fs_repD(6,7) [OF F that] by auto
  have rr': "root_rep b' (m(t := m t)) n' s'" using rr by simp
  have W': "\<forall>u sec. u \<noteq> t \<longrightarrow> m u = Some sec \<longrightarrow> W \<inter> file_sectors sec s = {}"
    and keep': "\<forall>u sec x. u \<noteq> t \<longrightarrow> m u = Some sec \<longrightarrow> x \<in> file_sectors sec s \<longrightarrow> taken b' x" using W keep by blast+
  have new': "\<forall>sec. m t = Some sec \<longrightarrow> file_at_rest b' s' sec \<and>
      file_sectors sec s' \<inter> insert ROOT_DIR_SECTOR (all_sectors (cache_view s) (root_data s)) = {} \<and>
      (\<forall>u sec'. u \<noteq> t \<and> m u = Some sec' \<longrightarrow> file_sectors sec s' \<inter> file_sectors sec' s = {})" using new by blast
  note u = fs_rep_update [OF F st rr' data all W' keep' new', unfolded same]
  show "fs_rep b' m n' s'" by (rule u(1))
  have "bytes_at sec s' = bytes_at sec s" if "m t = Some sec" for sec
    using rest_frame(4) [OF fs_repD(5) [OF F that] f W [OF that] keep [OF that]] by (simp add: bytes_at_def)
  then have "map_option (\<lambda>sec. bytes_at sec s') (m t) = stored m s t" by (cases "m t") (simp_all add: stored_def)
  then show "stored m s' = stored m s" using u(2) by (simp add: fun_upd_idem)
qed

end
