(* ===== verification/File_Commands.thy ===== *)
theory File_Commands
  imports File_Store
begin

text \<open>
  The commands of \<open>fsutil.c\<close>, each as a whole: a file is opened, used and closed.
\<close>

section \<open>Writing from the start of a file\<close>

definition exact_blocks :: "inode_disk \<Rightarrow> bool" where
  "exact_blocks d \<longleftrightarrow> (\<forall>k < 123. sectors_used d \<le> k \<longrightarrow> direct_blocks d ! k = 0)"

abbreviation sectors_for :: "nat \<Rightarrow> nat" where
  "sectors_for n \<equiv> DIV_ROUND_UP n BLOCK_SECTOR_SIZE"

lemma missing_exact:
  assumes "exact_blocks d" and "\<forall>k < sectors_used d. direct_blocks d ! k \<noteq> 0" and "sectors_for (nat n) \<le> 123"
  shows "sectors_missing d n = sectors_for (nat n) - sectors_used d"
proof -
  let ?xs = "filter (\<lambda>k. direct_blocks d ! k = 0) [0..<sectors_for (nat n)]"
  have "set ?xs = {sectors_used d..<sectors_for (nat n)}"
    using assms by (auto simp: exact_blocks_def not_less [symmetric])
  moreover have "length ?xs = card (set ?xs)" by (rule distinct_card [symmetric]) simp
  ultimately show ?thesis by (simp add: sectors_missing_def)
qed

lemma write_from_start:
  assumes m: "mounted b s" and f: "small_file b q i s" and x: "exact_blocks (in_data i)"
    and d: "inode_of_image (cache_view s (in_sector i)) = in_data i" and buf: "buf \<noteq> []" "length buf \<le> 512 * 123"
    and room: "sectors_for (length buf) - sectors_used (in_data i) \<le> free_count b"
  shows "\<exists>b' e s'. inode_write_at (free_map_allocate 1) q (\<lambda>_. Some buf) (int (length buf)) 0 s = Some (int (length buf), s') \<and>
    mounted b' s' \<and> (\<forall>t. taken b t \<longrightarrow> taken b' t) \<and> small_file b' q (i\<lparr>in_data := e\<rparr>) s' \<and>
    inode_of_image (cache_view s' (in_sector i)) = e \<and> is_dir e = is_dir (in_data i) \<and> exact_blocks e \<and>
    content (cache_view s') e = buf @ drop (length buf) (content (cache_view s) (in_data i)) \<and>
    frame (own_sectors (in_sector i) (in_data i) \<union> {t. \<not> taken b t}) s s' \<and> quiet {q} s s' \<and>
    own_sectors (in_sector i) e \<subseteq> own_sectors (in_sector i) (in_data i) \<union> {t. \<not> taken b t} \<and>
    free_count b = free_count b' + (sectors_for (length buf) - sectors_used (in_data i))"
proof (cases "int (length buf) \<le> id_length (in_data i)")
  case True
  let ?d = "in_data i"
  have len0: "0 \<le> id_length ?d" and i: "inode_at s q = Some i" "deny_write_cnt i = 0" using f by (simp_all add: small_file_def)
  note ok = small_file_ok [OF m f, where v = "cache_view s"]
  have inv: "cache_inv s" using m by (simp add: mounted_def map_ok_def)
  have n: "sectors_used ?d \<le> 123" using f small_used by (simp add: small_file_def)
  have "0 < int (length buf)" "0 + int (length buf) \<le> id_length ?d" using buf True by simp_all
  from inode_write_at_spec [OF inv i(1) ok(1) i(2) _ this, of "\<lambda>_. Some buf" buf "free_map_allocate 1"] obtain s' where
    s': "inode_write_at (free_map_allocate 1) q (\<lambda>_. Some buf) (int (length buf)) 0 s = Some (int (length buf), s')"
      "stores (data_sectors (cache_view s) ?d) s s'" "content (cache_view s') ?d = overlay 0 buf (content (cache_view s) ?d)" by auto
  note m' = mounted_stores [OF m s'(2) ok(2)] and f' = stores_frame [OF m s'(2) ok(2)]
  have own: "data_sectors (cache_view s) ?d \<subseteq> own_sectors (in_sector i) ?d"
    using f n unfolding small_sectors(3) [OF n]
    by (auto simp: own_sectors_def small_file_def disk_typed_def DIRECT_BLOCKS_COUNT_def)
  have "direct_blocks ?d ! k \<noteq> in_sector i" if "k < sectors_used ?d" for k using f n that by (simp add: small_file_def)
  then have "in_sector i \<notin> data_sectors (cache_view s) ?d" unfolding small_sectors(3) [OF n] by force
  then have "inode_of_image (cache_view s' (in_sector i)) = ?d" using s'(2) d by (simp add: stores_def)
  moreover have "frame (own_sectors (in_sector i) ?d \<union> {t. \<not> taken b t}) s s'" by (rule frame_mono [OF f'(1)]) (use own in auto)
  moreover have "small_file b q (i\<lparr>in_data := ?d\<rparr>) s'" using small_file_stores [OF f s'(2) m'(2)] by simp
  moreover have "sectors_for (length buf) - sectors_used ?d = 0"
    using True by (simp add: sectors_used_def DIV_ROUND_UP_def BLOCK_SECTOR_SIZE_def)
  moreover have "quiet {q} s s'" by (rule quiet_mono [OF f'(2)]) simp
  ultimately show ?thesis using s'(1,3) m'(1) x
    by (intro exI [of _ b] exI [of _ ?d] exI [of _ s']) (simp add: overlay_def)
next
  case False
  let ?d = "in_data i" let ?n = "0 + int (length buf)"
  have fits: "?n \<le> 512 * 123" and lt: "id_length ?d < ?n" using buf False by simp_all
  have l: "sectors_for (nat ?n) \<le> 123" using buf(2) by (simp add: DIV_ROUND_UP_def BLOCK_SECTOR_SIZE_def)
  have len0: "0 \<le> id_length ?d" and l123: "length (direct_blocks ?d) = 123" and blk: "\<forall>k < sectors_used ?d. direct_blocks ?d ! k \<noteq> 0"
    using f by (simp_all add: small_file_def disk_typed_def DIRECT_BLOCKS_COUNT_def)
  have miss: "sectors_missing ?d ?n = sectors_for (length buf) - sectors_used ?d" using missing_exact [OF x blk l] by simp
  then have "sectors_missing ?d ?n \<le> free_count b" using room by simp
  from append_spec [OF m f _ len0 lt fits this] obtain b' ds s' where
    s': "inode_write_at (free_map_allocate 1) q (\<lambda>_. Some buf) (int (length buf)) 0 s = Some (int (length buf), s')"
      "mounted b' s'" "\<forall>t. taken b t \<longrightarrow> taken b' t"
    and i': "let i' = i\<lparr>in_data := ?d\<lparr>direct_blocks := ds, id_length := ?n\<rparr>\<rparr> in
       small_file b' q i' s' \<and> cache_view s' (in_sector i) = inode_image (in_data i') \<and>
       content (cache_view s') (in_data i') = take (nat 0) (content (cache_view s) ?d) @ buf"
    and ds: "length ds = 123" "\<forall>k < 123. if direct_blocks ?d ! k \<noteq> 0 then ds ! k = direct_blocks ?d ! k else ds ! k = 0 \<or> \<not> taken b (ds ! k)"
      "\<forall>k < 123. sectors_for (nat ?n) \<le> k \<longrightarrow> ds ! k = direct_blocks ?d ! k"
    and fr: "frame (own_sectors (in_sector i) ?d \<union> {t. \<not> taken b t}) s s'" "quiet {q} s s'"
      "free_count b = free_count b' + sectors_missing ?d ?n" by auto
  let ?e = "?d\<lparr>direct_blocks := ds, id_length := ?n\<rparr>"
  have "sectors_used ?d \<le> sectors_for (nat ?n)"
    using lt by (simp add: sectors_used_def DIV_ROUND_UP_def BLOCK_SECTOR_SIZE_def)
  then have "exact_blocks ?e" using x ds(3) by (simp add: exact_blocks_def sectors_used_def)
  moreover have "own_sectors (in_sector i) ?e \<subseteq> own_sectors (in_sector i) ?d \<union> {t. \<not> taken b t}"
  proof
    fix y assume "y \<in> own_sectors (in_sector i) ?e"
    then consider "y = in_sector i" | k where "k < 123" "y = ds ! k" "y \<noteq> 0"
      using ds(1) by (auto simp: own_sectors_def in_set_conv_nth)
    then show "y \<in> own_sectors (in_sector i) ?d \<union> {t. \<not> taken b t}"
    proof cases
      case 2
      then show ?thesis using ds(2) l123 by (cases "direct_blocks ?d ! k = 0") (auto simp: own_sectors_def)
    qed (simp add: own_sectors_def)
  qed
  moreover have "drop (length buf) (content (cache_view s) ?d) = []" using lt by simp
  moreover have "inode_of_image (cache_view s' (in_sector i)) = ?e"
    using i' by (simp add: Let_def small_file_def image_roundtrip)
  ultimately show ?thesis using s' i' fr miss
    by (intro exI [of _ b'] exI [of _ ?e] exI [of _ s']) (simp add: Let_def)
qed

section \<open>A command on an open file\<close>

lemma put_file_kept:
  assumes "free_map_file s \<noteq> Some f"
  shows "mounted b (put_file f y s) = mounted b s" and "map_elsewhere r (put_file f y s) = map_elsewhere r s"
    and "frame W s (put_file f y s)" and "inode_at (put_file f y s) p = inode_at s p"
    and "cache_view (put_file f y s) = cache_view s"
proof -
  have e: "put_file f y s = s\<lparr>file_heap := (file_heap s)[f := Some y]\<rparr>" by (simp add: put_file_def)
  have "rd ((file_heap s)[f := Some y]) g = rd (file_heap s) g" if "free_map_file s = Some g" for g
    using that assms by (intro file_heap_other) auto
  note m = mounted_file_heap [OF e this]
  show "mounted b (put_file f y s) = mounted b s" by (rule m(1))
  show "map_elsewhere r (put_file f y s) = map_elsewhere r s" by (rule m(3))
  have c: "cache_view (put_file f y s) = cache_view s" "fs_capacity (put_file f y s) = fs_capacity s"
    using same_cache [of "put_file f y s" s] by (simp_all add: e)
  show "cache_view (put_file f y s) = cache_view s" by (rule c)
  show "frame W s (put_file f y s)" using c m(2) by (simp add: frame_def) (simp add: e)
  show "inode_at (put_file f y s) p = inode_at s p" by (simp add: e inode_at_def)
qed

lemma session_ends:
  assumes F: "fs_rep b m n s" and o: "file_opened b m n s t sec f q s1" and m2: "mounted b' s2"
    and mono: "\<And>u. taken b u \<Longrightarrow> taken b' u" and fr: "frame W s1 s2" and qt: "quiet {q} s1 s2"
    and W: "W \<inter> insert ROOT_DIR_SECTOR (all_sectors (cache_view s) (root_data s)) = {}"
    and sf: "small_file b' q ((fresh_inode sec s)\<lparr>in_data := e\<rparr>) s2" and y: "f_inode y = q" "\<not> f_deny_write y"
  shows "\<exists>s3. fsutil_close (CHR ''/'' # t) (put_file f y s2) = Some s3 \<and> root_rep b' m n s3 \<and> cache_view s3 = cache_view s2 \<and>
    fs_step W s s3 \<and> root_data s3 = root_data s \<and> all_sectors (cache_view s3) (root_data s) = all_sectors (cache_view s) (root_data s)"
proof -
  let ?p = "put_file f y s2" let ?j = "(fresh_inode sec s)\<lparr>in_data := e\<rparr>"
  have s1: "free_map_file s1 \<noteq> Some f" "file_at s1 f = Some \<lparr>f_inode = q, f_pos = 0, f_deny_write = False\<rparr>"
    using o by (simp_all add: file_opened_def)
  have nf: "free_map_file s2 \<noteq> Some f" using s1(1) fr by (simp add: frame_def)
  note p = put_file_kept [OF nf]
  have q: "open_inodes s2 = open_inodes s1" "file_heap s2 = file_heap s1" "file_table s2 = file_table s1" "files.more s2 = files.more s1"
    "\<And>p. p \<noteq> q \<Longrightarrow> inode_at s2 p = inode_at s1 p" using qt by (simp_all add: quiet_def)
  have j: "inode_at s2 q = Some ?j" "map_elsewhere (Data_of q) s2" using sf by (simp_all add: small_file_def)
  have m': "mounted b' ?p" using p(1) m2 by simp
  have f': "frame W s1 ?p" by (rule frame_trans [OF fr p(3)])
  have e': "map_elsewhere (Data_of q) ?p" using p(2) j(2) by simp
  have os: "open_inodes ?p = open_inodes s1" "files.more ?p = files.more s1" "file_table ?p = file_table s1"
    using q by (simp_all add: put_file_def)
  have oth: "\<And>r. r \<noteq> q \<Longrightarrow> inode_at ?p r = inode_at s1 r" using p(4) q(5) by simp
  have j': "inode_at ?p q = Some ?j" "open_cnt ?j = 1" "\<not> removed ?j" using p(4) j(1) by (simp_all add: fresh_inode_def)
  have "file_at s2 f = file_at s1 f" using q(2) by (simp add: file_at_def)
  then have fa: "file_at ?p f = Some y" using s1(2) file_at_put_file [of s2 f] by simp
  show ?thesis
    using file_closes [OF fs_repD(1,3) [OF F] o m' mono f' W e' os(1,2,3) oth j' fa y] unfolding p(5) .
qed

lemma session_begins:
  assumes F: "fs_rep b m n s" and t: "file_name_ok t" "m t = Some sec"
  shows "\<exists>f q s1. file_opened b m n s t sec f q s1"
  by (rule file_opens [OF fs_repD(1) [OF F] t fs_rep_closed(1) [OF F t(2)] fs_repD(5) [OF F t(2)] fs_repD(3) [OF F]])

lemma opened_reads:
  assumes F: "fs_rep b m n s" and o: "file_opened b m n s t sec f q s1" and t: "m t = Some sec"
  shows "mounted b s1" and "cache_inv s1" and "inode_at s1 q = Some (fresh_inode sec s)" and "cache_view s1 = cache_view s"
    and "file_ok v (fs_capacity s1) (on_disk sec s)" and "length (bytes_at sec s) = nat (id_length (on_disk sec s))"
    and "0 \<le> id_length (on_disk sec s)" and "id_length (on_disk sec s) \<le> 512 * 123" and "frame {} s s1"
proof -
  have s1: "root_rep b m n s1" "small_file b q (fresh_inode sec s) s1" "cache_view s1 = cache_view s" "frame {} s s1"
    using o by (simp_all add: file_opened_def)
  show m: "mounted b s1" using s1(1) by (simp add: root_rep_def)
  then show "cache_inv s1" by (simp add: mounted_def map_ok_def)
  show "inode_at s1 q = Some (fresh_inode sec s)" using s1(2) by (simp add: small_file_def)
  show "cache_view s1 = cache_view s" "frame {} s s1" by (rule s1)+
  have "fs_capacity s1 = fs_capacity s" using s1(4) by (simp add: frame_def)
  then show "file_ok v (fs_capacity s1) (on_disk sec s)" using rest_file_ok [OF fs_repD(4) [OF F] fs_repD(5) [OF F t]] by simp
  show "0 \<le> id_length (on_disk sec s)" "id_length (on_disk sec s) \<le> 512 * 123"
    using fs_repD(5) [OF F t] by (simp_all add: file_at_rest_def small_disk_def)
  show "length (bytes_at sec s) = nat (id_length (on_disk sec s))" by (simp add: bytes_at_def)
qed

lemma fs_look:
  assumes F: "fs_rep b m n s" and o: "file_opened b m n s t sec f q s1" and t: "m t = Some sec" and k: "keeps s1 s2"
    and y: "f_inode y = q" "\<not> f_deny_write y"
  shows "\<exists>s3. fsutil_close (CHR ''/'' # t) (put_file f y s2) = Some s3 \<and> fs_rep b m n s3 \<and> stored m s3 = stored m s \<and> console s3 = console s"
proof -
  note s1 = opened_reads [OF F o t]
  note kf = keeps_frame [OF k s1(1)]
  have st: "stores {} s1 s2" by (rule keeps_stores [OF k])
  have "small_file b q (fresh_inode sec s) s1" using o by (simp add: file_opened_def)
  from small_file_stores [OF this st] kf(2)
  have "small_file b q ((fresh_inode sec s)\<lparr>in_data := on_disk sec s\<rparr>) s2" by (simp add: frame_def fresh_inode_def)
  from session_ends [OF F o kf(1) _ kf(2) quiet_mono [OF kf(3)] _ this y] obtain s3 where
    s3: "fsutil_close (CHR ''/'' # t) (put_file f y s2) = Some s3" "root_rep b m n s3" "fs_step {} s s3" "root_data s3 = root_data s"
      "all_sectors (cache_view s3) (root_data s) = all_sectors (cache_view s) (root_data s)" by auto
  have "console s3 = console s" using s3(3) by (simp add: fs_step_def frame_def)
  moreover have "fs_rep b m n s3" "stored m s3 = stored m s" using fs_rep_kept [OF F s3(3,2,4,5)] by simp_all
  ultimately show ?thesis using s3(1) by blast
qed

section \<open>Reading\<close>

lemma fs_read:
  assumes F: "fs_rep b m n s" and t: "file_name_ok t" "m t = Some sec"
  shows "\<exists>s1 s2. fsutil_read (CHR ''/'' # t) k s = Some ((take (nat k) (bytes_at sec s), int (min (nat k) (length (bytes_at sec s)))), s1) \<and>
    fsutil_close (CHR ''/'' # t) s1 = Some s2 \<and> fs_rep b m n s2 \<and> stored m s2 = stored m s \<and> console s2 = console s"
proof -
  obtain f q s1 where o: "file_opened b m n s t sec f q s1" using session_begins [OF F t] by blast
  then have s1: "named_file (CHR ''/'' # t) s = Some (Some f, s1)" "file_at s1 f = Some \<lparr>f_inode = q, f_pos = 0, f_deny_write = False\<rparr>"
    by (simp_all add: file_opened_def)
  note r = opened_reads [OF F o t(2)]
  have id: "in_data (fresh_inode sec s) = on_disk sec s" by (simp add: fresh_inode_def)
  let ?data = "take (nat k) (bytes_at sec s)"
  from inode_read_at_spec [OF r(2,3), unfolded id, OF r(5), of 0 k] obtain s2 where
    s2: "inode_read_at q k 0 s1 = Some (?data, s2)" "keeps s1 s2" using r(4) by (auto simp: bytes_at_def)
  let ?y = "\<lparr>f_inode = q, f_pos = int (length ?data), f_deny_write = False\<rparr>"
  have "int (length ?data) \<le> 512 * 123" using r(6,8) by simp
  then have "off32 (int (length ?data)) = Some (int (length ?data))" by (simp add: off32_def)
  then have "fsutil_read (CHR ''/'' # t) k s = Some ((?data, int (min (nat k) (length (bytes_at sec s)))), put_file f ?y s2)"
    using s1 s2(1) by (simp add: fsutil_read_def read_file_def min.commute)
  then show ?thesis using fs_look [OF F o t(2) s2(2), of ?y] by auto
qed

lemma fs_size:
  assumes F: "fs_rep b m n s" and t: "file_name_ok t" "m t = Some sec"
  shows "\<exists>s1 s2. fsutil_size (CHR ''/'' # t) s = Some (int (length (bytes_at sec s)), s1) \<and>
    fsutil_close (CHR ''/'' # t) s1 = Some s2 \<and> fs_rep b m n s2 \<and> stored m s2 = stored m s \<and> console s2 = console s"
proof -
  obtain f q s1 where o: "file_opened b m n s t sec f q s1" using session_begins [OF F t] by blast
  let ?y = "\<lparr>f_inode = q, f_pos = 0, f_deny_write = False\<rparr>"
  have s1: "named_file (CHR ''/'' # t) s = Some (Some f, s1)" "file_at s1 f = Some ?y" using o by (simp_all add: file_opened_def)
  note r = opened_reads [OF F o t(2)]
  have "inode_length q s1 = Some (int (length (bytes_at sec s)))" using r(3,6,7) by (simp add: inode_length_def fresh_inode_def)
  then have "fsutil_size (CHR ''/'' # t) s = Some (int (length (bytes_at sec s)), put_file f ?y s1)"
    using s1 by (simp add: fsutil_size_def file_tell_def file_length_def file_seek_def not_null_def Let_def)
  moreover have "keeps s1 s1" using r(2) by (simp add: keeps_def)
  ultimately show ?thesis using fs_look [OF F o t(2), of s1 ?y] by auto
qed

lemma fs_untouched:
  assumes F: "fs_rep b m n s" and r: "root_rep b m n s'" and u: "untouched s s'"
  shows "fs_rep b m n s' \<and> stored m s' = stored m s \<and> console s' = console s"
proof -
  have v: "cache_view s' = cache_view s" and st: "fs_step {} s s'" using u dir_step_fs by (auto simp: untouched_def)
  have "root_data s' = root_data s" by (simp add: on_disk_def v)
  then have "fs_rep b m n s'" "stored m s' = stored m s" using fs_rep_kept [OF F st r] v by simp_all
  then show ?thesis using st by (simp add: fs_step_def frame_def)
qed

lemma not_in_table: "fs_rep b m n s \<Longrightarrow> get_file_by_fname name s = None"
  by (simp add: fs_rep_def get_file_by_fname_def)

lemma fs_no_file:
  assumes F: "fs_rep b m n s" and t: "file_name_ok t" "m t = None"
  shows "\<exists>s'. named_file (CHR ''/'' # t) s = Some (None, s') \<and> fsutil_close (CHR ''/'' # t) s' = Some s' \<and>
    fs_rep b m n s' \<and> stored m s' = stored m s \<and> console s' = console s"
proof -
  obtain s' where s': "filesys_open (CHR ''/'' # t) s = Some (None, s')" "root_rep b m n s'" "untouched s s'"
    using filesys_open_missing [OF fs_repD(1) [OF F] t] by blast
  note u = fs_untouched [OF F s'(2,3)]
  then have "fsutil_close (CHR ''/'' # t) s' = Some s'"
    by (auto simp: fsutil_close_def remove_from_file_table_def not_in_table)
  moreover have "named_file (CHR ''/'' # t) s = Some (None, s')" using s'(1) by (simp add: named_file_def not_in_table [OF F])
  ultimately show ?thesis using u by blast
qed

section \<open>Creating and removing\<close>

lemma rest_used: "sectors_used (on_disk sec s) = sectors_for (length (bytes_at sec s))"
  by (simp add: sectors_used_def bytes_at_def)

lemma name_path_length: "file_name_ok t \<Longrightarrow> length (CHR ''/'' # t) < 255"
  by (simp add: file_name_ok_def NAME_MAX_def)

lemma fs_create_new:
  assumes F: "fs_rep b m n s" and t: "file_name_ok t" "m t = None" and n: "0 < n" and len: "0 \<le> len" "len \<le> 512 * 123"
    and room: "sectors_for (nat len) < free_count b"
  shows "\<exists>b' sec s'. fsutil_create (CHR ''/'' # t) len s = Some (1, s') \<and> fs_rep b' (m(t \<mapsto> sec)) (n - 1) s' \<and>
    stored (m(t \<mapsto> sec)) s' = (stored m s)(t \<mapsto> replicate (nat len) 0) \<and>
    free_count b = free_count b' + sectors_for (nat len) + 1 \<and> console s' = console s"
proof -
  from filesys_create_spec [OF fs_repD(1) [OF F] t n len room, of "[]"] obtain b' sec ds s' where
    s': "filesys_create [] (CHR ''/'' # t) len False s = Some (True, s')" "root_rep b' (m(t \<mapsto> sec)) (n - 1) s'" "created b b' len sec ds s'"
      "dir_step (dir_or_free b s) s s'" "root_data s' = root_data s"
      "all_sectors (cache_view s') (root_data s) = all_sectors (cache_view s) (root_data s)" by blast
  let ?d = "new_disk False len ds"
  note c = created_facts [OF s'(3) len]
  have cr: "small_disk b' s' sec ?d" "\<forall>u. taken b u \<longrightarrow> taken b' u" "\<not> taken b sec"
      "\<forall>k < 123. sectors_for (nat len) \<le> k \<longrightarrow> ds ! k = 0" "free_count b = free_count b' + sectors_for (nat len) + 1"
    using s'(3) by (simp_all add: created_def)
  have "taken b FREE_MAP_SECTOR" using fs_repD(4) [OF F] by (simp add: mounted_def)
  then have rest: "file_at_rest b' s' sec" using cr(1,3,4) unfolding file_at_rest_def c(1) by auto
  have free: "\<not> taken b x" if "x \<in> file_sectors sec s'" for x
    using that c(3) [of x undefined] unfolding rest_sectors [OF rest, of undefined] c(1) by blast
  have new: "file_at_rest b' s' sec' \<and> file_sectors sec' s' \<inter> insert ROOT_DIR_SECTOR (all_sectors (cache_view s) (root_data s)) = {} \<and>
      (\<forall>u sec''. u \<noteq> t \<and> m u = Some sec'' \<longrightarrow> file_sectors sec' s' \<inter> file_sectors sec'' s = {})" if e: "sec' = sec" for sec'
  proof -
    have "file_sectors sec s' \<inter> file_sectors sec'' s = {}" if "m u = Some sec''" for u sec''
      using free rest_taken(1) [OF fs_repD(5) [OF F that]] by blast
    moreover have "file_sectors sec s' \<inter> insert ROOT_DIR_SECTOR (all_sectors (cache_view s) (root_data s)) = {}"
      using free root_own(1) [OF fs_repD(1) [OF F]] by blast
    ultimately show ?thesis unfolding e using rest by blast
  qed
  have keep: "\<forall>u sec' x. u \<noteq> t \<longrightarrow> m u = Some sec' \<longrightarrow> x \<in> file_sectors sec' s \<longrightarrow> taken b' x"
    using rest_taken(1) fs_repD(5) [OF F] cr(2) by blast
  have W: "\<forall>u sec'. u \<noteq> t \<longrightarrow> m u = Some sec' \<longrightarrow> dir_or_free b s \<inter> file_sectors sec' s = {}" using fs_rep_apart [OF F] by blast
  have "\<forall>sec'. Some sec = Some sec' \<longrightarrow> file_at_rest b' s' sec' \<and>
      file_sectors sec' s' \<inter> insert ROOT_DIR_SECTOR (all_sectors (cache_view s) (root_data s)) = {} \<and>
      (\<forall>u sec''. u \<noteq> t \<and> m u = Some sec'' \<longrightarrow> file_sectors sec' s' \<inter> file_sectors sec'' s = {})" using new by blast
  note u = fs_rep_update [OF F dir_step_fs [OF s'(4)] s'(2,5,6) W keep this]
  have "bytes_at sec s' = replicate (nat len) 0" unfolding bytes_at_def c(1) by (rule c(2))
  then have st: "stored (m(t \<mapsto> sec)) s' = (stored m s)(t \<mapsto> replicate (nat len) 0)" using u(2) by simp
  have "fsutil_create (CHR ''/'' # t) len s = Some (1, s')"
    using s'(1) name_path_length [OF t(1)] as_offset_small [of len] len by (simp add: fsutil_create_def)
  moreover have "console s' = console s" using s'(4) by (simp add: dir_step_def frame_def)
  ultimately show ?thesis using u(1) st cr(5) by blast
qed

lemma fs_create_taken:
  assumes F: "fs_rep b m n s" and t: "file_name_ok t" "m t \<noteq> None" and n: "0 < n" and len: "0 \<le> len" "len \<le> 512 * 123"
    and room: "sectors_for (nat len) < free_count b"
  shows "\<exists>b' s'. fsutil_create (CHR ''/'' # t) len s = Some (0, s') \<and> fs_rep b' m n s' \<and> stored m s' = stored m s \<and>
    free_count b = free_count b' + sectors_for (nat len) \<and> console s' = console s"
proof -
  from filesys_create_existing [OF fs_repD(1) [OF F] t n len fs_repD(2) [OF F] room, of "[]"] obtain b' s' where
    s': "filesys_create [] (CHR ''/'' # t) len False s = Some (False, s')" "root_rep b' m n s'" "\<forall>u. taken b u \<longrightarrow> taken b' u"
      "dir_step (dir_or_free b s) s s'" "root_data s' = root_data s"
      "all_sectors (cache_view s') (root_data s) = all_sectors (cache_view s) (root_data s)"
      "free_count b = free_count b' + sectors_for (nat len)" by blast
  have W: "\<forall>u sec'. m u = Some sec' \<longrightarrow> dir_or_free b s \<inter> file_sectors sec' s = {}" using fs_rep_apart [OF F] by blast
  note k = fs_rep_kept [OF F dir_step_fs [OF s'(4)] s'(2,5,6) W s'(3)]
  have "fsutil_create (CHR ''/'' # t) len s = Some (0, s')"
    using s'(1) name_path_length [OF t(1)] as_offset_small [of len] len by (simp add: fsutil_create_def)
  moreover have "console s' = console s" using s'(4) by (simp add: dir_step_def frame_def)
  ultimately show ?thesis using k s'(7) by blast
qed

lemma fs_remove:
  assumes F: "fs_rep b m n s" and t: "file_name_ok t" "m t = Some sec"
  shows "\<exists>b' s'. fsutil_rm (CHR ''/'' # t) s = Some (1, s') \<and> fs_rep b' (m(t := None)) (n + 1) s' \<and>
    stored (m(t := None)) s' = (stored m s)(t := None) \<and>
    free_count b' = free_count b + sectors_for (length (bytes_at sec s)) + 1 \<and> console s' = console s"
proof -
  have others: "u \<notin> file_sectors sec s" if "u \<in> ran (m(t := None))" for u
  proof -
    have "\<exists>v. (m(t := None)) v = Some u" using that by (simp only: ran_def mem_Collect_eq)
    then obtain v where "(m(t := None)) v = Some u" by (rule exE)
    then have v: "m v = Some u" "v \<noteq> t" by (simp_all split: if_splits)
    then have "file_sectors sec s \<inter> file_sectors u s = {}" using fs_repD(7) [OF F t(2) v(1)] by blast
    moreover have "u \<in> file_sectors u s" by (simp add: file_sectors_def own_sectors_def)
    ultimately show ?thesis by blast
  qed
  have "\<exists>b' s'. filesys_remove (CHR ''/'' # t) s = Some (True, s') \<and> root_rep b' (m(t := None)) (n + 1) s' \<and>
    (\<forall>u. taken b' u \<longleftrightarrow> taken b u \<and> u \<notin> file_sectors sec s) \<and>
    dir_step (data_sectors (cache_view s) (root_data s)) s s' \<and> root_data s' = root_data s \<and>
    all_sectors (cache_view s') (root_data s) = all_sectors (cache_view s) (root_data s) \<and>
    free_count b' = free_count b + sectors_used (on_disk sec s) + 1"
    by (rule filesys_remove_spec [OF fs_repD(1) [OF F] t fs_rep_closed(1) [OF F t(2)] fs_repD(5) [OF F t(2)] fs_repD(2) [OF F]
      fs_repD(6) [OF F t(2)]]) (fact others, rule fs_rep_closed(2) [OF F t(2)])
  then obtain b' s' where
    s': "filesys_remove (CHR ''/'' # t) s = Some (True, s')" "root_rep b' (m(t := None)) (n + 1) s'"
      "\<forall>u. taken b' u \<longleftrightarrow> taken b u \<and> u \<notin> file_sectors sec s" "dir_step (data_sectors (cache_view s) (root_data s)) s s'"
      "root_data s' = root_data s" "all_sectors (cache_view s') (root_data s) = all_sectors (cache_view s) (root_data s)"
      "free_count b' = free_count b + sectors_used (on_disk sec s) + 1" by blast
  have W: "\<forall>u sec'. u \<noteq> t \<longrightarrow> m u = Some sec' \<longrightarrow> data_sectors (cache_view s) (root_data s) \<inter> file_sectors sec' s = {}"
    using fs_rep_apart [OF F] by blast
  have keep: "\<forall>u sec' x. u \<noteq> t \<longrightarrow> m u = Some sec' \<longrightarrow> x \<in> file_sectors sec' s \<longrightarrow> taken b' x"
  proof (intro allI impI)
    fix u sec' x assume "u \<noteq> t" "m u = Some sec'" "x \<in> file_sectors sec' s"
    then show "taken b' x" using s'(3) rest_taken(1) [OF fs_repD(5) [OF F]] fs_repD(7) [OF F _ t(2)] by blast
  qed
  have rr: "root_rep b' (m(t := None)) (n + 1) s'" by (rule s'(2))
  note u = fs_rep_update [OF F dir_step_fs [OF s'(4)] rr s'(5,6) W keep, simplified]
  have "fsutil_rm (CHR ''/'' # t) s = Some (1, s')"
    using s'(1) by (simp add: fsutil_rm_def remove_from_file_table_def not_in_table [OF F])
  moreover have "console s' = console s" using s'(4) by (simp add: dir_step_def frame_def)
  ultimately show ?thesis using u s'(7) unfolding rest_used by (intro exI [of _ b'] exI [of _ s']) simp
qed

lemma fs_remove_none:
  assumes F: "fs_rep b m n s" and t: "file_name_ok t" "m t = None"
  shows "\<exists>s'. fsutil_rm (CHR ''/'' # t) s = Some (0, s') \<and> fs_rep b m n s' \<and> stored m s' = stored m s \<and> console s' = console s"
proof -
  obtain s' where s': "filesys_remove (CHR ''/'' # t) s = Some (False, s')" "root_rep b m n s'" "untouched s s'"
    using filesys_remove_missing [OF fs_repD(1) [OF F] t] by blast
  then have "fsutil_rm (CHR ''/'' # t) s = Some (0, s')"
    by (simp add: fsutil_rm_def remove_from_file_table_def not_in_table [OF F])
  then show ?thesis using fs_untouched [OF F s'(2,3)] by blast
qed

section \<open>Writing\<close>

lemma rest_written:
  assumes F: "fs_rep b m n s" and t: "m t = Some sec" and mono: "\<forall>u. taken b u \<longrightarrow> taken b' u" and ma: "map_all s' = map_all s"
    and sm: "small_file b' q ((fresh_inode sec s)\<lparr>in_data := e\<rparr>) s2" and ma2: "map_all s2 = map_all s"
    and v: "inode_of_image (cache_view s' sec) = e" and dir: "is_dir e = is_dir (on_disk sec s)" and x: "exact_blocks e"
    and own: "own_sectors sec e \<subseteq> own_sectors sec (on_disk sec s) \<union> {u. \<not> taken b u}"
  shows "on_disk sec s' = e" and "file_at_rest b' s' sec"
    and "file_sectors sec s' \<inter> insert ROOT_DIR_SECTOR (all_sectors (cache_view s) (root_data s)) = {}"
    and "\<forall>u sec'. u \<noteq> t \<and> m u = Some sec' \<longrightarrow> file_sectors sec s' \<inter> file_sectors sec' s = {}"
proof -
  have "small_disk b' s2 sec e" using sm by (simp add: small_file_disk fresh_inode_def)
  then have d: "small_disk b' s' sec e" using ma ma2 by (simp add: small_disk_def)
  then show e: "on_disk sec s' = e" using v by (simp add: on_disk_def)
  have r: "file_at_rest b s sec" by (rule fs_repD(5) [OF F t])
  then show "file_at_rest b' s' sec" using d dir x by (simp add: file_at_rest_def e exact_blocks_def)
  have o: "file_sectors sec s' \<subseteq> file_sectors sec s \<union> {u. \<not> taken b u}" using own by (simp add: file_sectors_def e)
  show "file_sectors sec s' \<inter> insert ROOT_DIR_SECTOR (all_sectors (cache_view s) (root_data s)) = {}"
    using o fs_repD(6) [OF F t] root_own(1) [OF fs_repD(1) [OF F]] by blast
  show "\<forall>u sec'. u \<noteq> t \<and> m u = Some sec' \<longrightarrow> file_sectors sec s' \<inter> file_sectors sec' s = {}"
  proof (intro allI impI)
    fix u sec' assume u: "u \<noteq> t \<and> m u = Some sec'"
    then have "file_sectors sec s \<inter> file_sectors sec' s = {}" using fs_repD(7) [OF F t] by blast
    moreover have "taken b y" if "y \<in> file_sectors sec' s" for y using u that rest_taken(1) [OF fs_repD(5) [OF F]] by blast
    ultimately show "file_sectors sec s' \<inter> file_sectors sec' s = {}" using o by blast
  qed
qed

lemma fs_write:
  assumes F: "fs_rep b m n s" and t: "file_name_ok t" "m t = Some sec" and buf: "buf \<noteq> []" "length buf \<le> 512 * 123"
    and room: "sectors_for (length buf) - sectors_for (length (bytes_at sec s)) \<le> free_count b"
  shows "\<exists>b' s1 s2. fsutil_write (CHR ''/'' # t) buf s = Some (int (length buf), s1) \<and> fsutil_close (CHR ''/'' # t) s1 = Some s2 \<and>
    fs_rep b' m n s2 \<and> stored m s2 = (stored m s)(t \<mapsto> (butlast buf @ [0]) @ drop (length buf) (bytes_at sec s)) \<and>
    free_count b = free_count b' + (sectors_for (length buf) - sectors_for (length (bytes_at sec s))) \<and> console s2 = console s"
proof -
  let ?p = "butlast buf @ [0 :: byte]" let ?i = "fresh_inode sec s" let ?d = "on_disk sec s"
  let ?W = "own_sectors sec ?d \<union> {u. \<not> taken b u}"
  have pl: "length ?p = length buf" "?p \<noteq> []" using buf(1) by simp_all
  obtain f q s1 where o: "file_opened b m n s t sec f q s1" using session_begins [OF F t] by blast
  then have s1: "named_file (CHR ''/'' # t) s = Some (Some f, s1)" "file_at s1 f = Some \<lparr>f_inode = q, f_pos = 0, f_deny_write = False\<rparr>"
    "small_file b q ?i s1" by (simp_all add: file_opened_def)
  note r = opened_reads [OF F o t(2)]
  have i: "in_data ?i = ?d" "in_sector ?i = sec" by (simp_all add: fresh_inode_def)
  have rest: "file_at_rest b s sec" by (rule fs_repD(5) [OF F t(2)])
  have xb: "exact_blocks ?d" using rest by (simp add: file_at_rest_def exact_blocks_def)
  have img: "inode_of_image (cache_view s1 sec) = ?d" using r(4) by (simp add: on_disk_def)
  from write_from_start [OF r(1) s1(3), unfolded i, OF xb img pl(2), unfolded pl(1), OF buf(2), unfolded rest_used, OF room]
  obtain b' e s2 where
    w: "inode_write_at (free_map_allocate 1) q (\<lambda>_. Some ?p) (int (length buf)) 0 s1 = Some (int (length buf), s2)"
      "mounted b' s2" "\<forall>u. taken b u \<longrightarrow> taken b' u" "small_file b' q (?i\<lparr>in_data := e\<rparr>) s2"
      "inode_of_image (cache_view s2 sec) = e" "is_dir e = is_dir ?d" "exact_blocks e"
      "content (cache_view s2) e = ?p @ drop (length buf) (content (cache_view s1) ?d)"
      "frame ?W s1 s2" "quiet {q} s1 s2" "own_sectors sec e \<subseteq> ?W"
      "free_count b = free_count b' + (sectors_for (length buf) - sectors_for (length (bytes_at sec s)))"
    by (elim exE conjE) (erule that)
  let ?y = "\<lparr>f_inode = q, f_pos = int (length buf) - 2, f_deny_write = False\<rparr>"
  have "off32 (int (length buf) - 2) = Some (int (length buf) - 2)" using buf(2) by (simp add: off32_def)
  then have run: "fsutil_write (CHR ''/'' # t) buf s = Some (int (length buf), put_file f ?y s2)"
    using s1(1,2) buf(1) last_byte_null [OF buf(1)] w(1) by (simp add: fsutil_write_def write_file_def)
  have Wd: "?W = file_sectors sec s \<union> {u. \<not> taken b u}" by (simp add: file_sectors_def)
  have WR: "?W \<inter> insert ROOT_DIR_SECTOR (all_sectors (cache_view s) (root_data s)) = {}"
    unfolding Wd using fs_repD(6) [OF F t(2)] root_own(1) [OF fs_repD(1) [OF F]] by blast
  have mono: "taken b' u" if "taken b u" for u using w(3) that by blast
  have y: "f_inode ?y = q" "\<not> f_deny_write ?y" by simp_all
  from session_ends [OF F o w(2) mono w(9,10) WR w(4) y] obtain s3 where
    s3: "fsutil_close (CHR ''/'' # t) (put_file f ?y s2) = Some s3" "root_rep b' m n s3" "cache_view s3 = cache_view s2" "fs_step ?W s s3"
      "root_data s3 = root_data s" "all_sectors (cache_view s3) (root_data s) = all_sectors (cache_view s) (root_data s)" by blast
  have ma: "map_all s3 = map_all s" "map_all s2 = map_all s" "console s3 = console s"
    using s3(4) w(9) r(9) by (simp_all add: fs_step_def frame_def)
  have v3: "inode_of_image (cache_view s3 sec) = e" using w(5) s3(3) by simp
  note new = rest_written [OF F t(2) w(3) ma(1) w(4) ma(2) v3 w(6,7,11)]
  have written: "\<forall>sec'. Some sec = Some sec' \<longrightarrow> file_at_rest b' s3 sec' \<and>
      file_sectors sec' s3 \<inter> insert ROOT_DIR_SECTOR (all_sectors (cache_view s) (root_data s)) = {} \<and>
      (\<forall>u sec''. u \<noteq> t \<and> m u = Some sec'' \<longrightarrow> file_sectors sec' s3 \<inter> file_sectors sec'' s = {})" using new(2-4) by simp
  have apart: "\<forall>u sec'. u \<noteq> t \<longrightarrow> m u = Some sec' \<longrightarrow> ?W \<inter> file_sectors sec' s = {}"
    unfolding Wd using fs_repD(7) [OF F t(2)] fs_rep_apart [OF F] by blast
  have kept: "\<forall>u sec' x. u \<noteq> t \<longrightarrow> m u = Some sec' \<longrightarrow> x \<in> file_sectors sec' s \<longrightarrow> taken b' x"
    using rest_taken(1) fs_repD(5) [OF F] w(3) by blast
  have same: "m(t \<mapsto> sec) = m" using t(2) by (simp add: fun_upd_idem)
  have rr: "root_rep b' (m(t \<mapsto> sec)) n s3" using s3(2) same by simp
  note u = fs_rep_update [OF F s3(4) rr s3(5,6) apart kept written, unfolded same]
  have "bytes_at sec s3 = ?p @ drop (length buf) (bytes_at sec s)"
    unfolding bytes_at_def new(1) using w(8) s3(3) r(4) by simp
  then have "stored m s3 = (stored m s)(t \<mapsto> ?p @ drop (length buf) (bytes_at sec s))" using u(2) by simp
  then show ?thesis using run s3(1) u(1) w(12) ma(3) by blast
qed

end
