(* ===== verification/File_Map.thy ===== *)
theory File_Map
  imports File_Commands
begin

text \<open>
  The commands on files against their specification: a map from names to contents, with a number of free slots of the
  directory and of free sectors.
\<close>

section \<open>Commands that answer as specified\<close>

fun run_all :: "('c \<Rightarrow> 's \<Rightarrow> ('r \<times> 's) option) \<Rightarrow> 'c list \<Rightarrow> 's \<Rightarrow> ('r list \<times> 's) option" where
  "run_all f [] s = Some ([], s)"
| "run_all f (c # cs) s = do {
     (r, s) \<leftarrow> f c s;
     (rs, s) \<leftarrow> run_all f cs s;
     Some (r # rs, s)
   }"

locale answers_as =
  fixes shows_as :: "'a \<Rightarrow> 's \<Rightarrow> bool" and spec :: "'c \<Rightarrow> 'a \<Rightarrow> ('r \<times> 'a) option" and impl :: "'c \<Rightarrow> 's \<Rightarrow> ('r \<times> 's) option"
  assumes step_law: "shows_as a s \<Longrightarrow> spec c a = Some (r, a') \<Longrightarrow> \<exists>s'. impl c s = Some (r, s') \<and> shows_as a' s'"
begin

lemma all_answers:
  assumes "shows_as a s" and "run_all spec cs a = Some (rs, a')"
  shows "\<exists>s'. run_all impl cs s = Some (rs, s') \<and> shows_as a' s'"
  using assms
proof (induction cs arbitrary: a s rs)
  case (Cons c cs)
  then obtain r a1 rs1 where a: "spec c a = Some (r, a1)" "run_all spec cs a1 = Some (rs1, a')" "rs = r # rs1"
    by (auto split: bind_splits)
  from step_law [OF Cons.prems(1) a(1)] obtain s1 where s1: "impl c s = Some (r, s1)" "shows_as a1 s1" by blast
  show ?case using Cons.IH [OF s1(2) a(2)] s1(1) a(3) by auto
qed simp

end

section \<open>The commands\<close>

datatype file_cmd = Make string int | Drop string | Put string bytes | Get string int | Size_of string

datatype file_reply = Status int | Bytes bytes int

abbreviation in_root :: "string \<Rightarrow> string" where
  "in_root t \<equiv> CHR ''/'' # t"

fun exec_file :: "file_cmd \<Rightarrow> 'a filesys_scheme \<Rightarrow> (file_reply \<times> 'a filesys_scheme) option" where
  "exec_file (Make t len) s = do { (r, s) \<leftarrow> fsutil_create (in_root t) len s; Some (Status r, s) }"
| "exec_file (Drop t) s = do { (r, s) \<leftarrow> fsutil_rm (in_root t) s; Some (Status r, s) }"
| "exec_file (Put t buf) s = do {
     (r, s) \<leftarrow> fsutil_write (in_root t) buf s;
     s \<leftarrow> fsutil_close (in_root t) s;
     Some (Status r, s)
   }"
| "exec_file (Get t k) s = do {
     ((data, r), s) \<leftarrow> fsutil_read (in_root t) k s;
     s \<leftarrow> fsutil_close (in_root t) s;
     Some (Bytes data r, s)
   }"
| "exec_file (Size_of t) s = do {
     (r, s) \<leftarrow> fsutil_size (in_root t) s;
     s \<leftarrow> fsutil_close (in_root t) s;
     Some (Status r, s)
   }"

text \<open>
  What they do to a map of contents, \<open>n\<close> free slots and \<open>k\<close> free sectors, within the room there is. A file takes a sector
  for its inode. \<open>Make\<close> of a name that is there loses the sectors of the data it asked for.
\<close>

fun spec_file :: "file_cmd \<Rightarrow> (string \<rightharpoonup> bytes) \<times> nat \<times> nat \<Rightarrow> (file_reply \<times> (string \<rightharpoonup> bytes) \<times> nat \<times> nat) option" where
  "spec_file (Make t len) (F, n, k) =
     (if file_name_ok t \<and> 0 < n \<and> 0 \<le> len \<and> len \<le> 62976 \<and> sectors_for (nat len) < k
      then (case F t of
              None \<Rightarrow> Some (Status 1, F(t \<mapsto> replicate (nat len) 0), n - 1, k - sectors_for (nat len) - 1)
            | Some c \<Rightarrow> Some (Status 0, F, n, k - sectors_for (nat len)))
      else None)"
| "spec_file (Drop t) (F, n, k) =
     (if file_name_ok t
      then (case F t of
              None \<Rightarrow> Some (Status 0, F, n, k)
            | Some c \<Rightarrow> Some (Status 1, F(t := None), n + 1, k + sectors_for (length c) + 1))
      else None)"
| "spec_file (Put t buf) (F, n, k) =
     (if file_name_ok t \<and> buf \<noteq> [] \<and> length buf \<le> 62976
      then (case F t of
              None \<Rightarrow> Some (Status (- 1), F, n, k)
            | Some c \<Rightarrow>
                if sectors_for (length buf) - sectors_for (length c) \<le> k
                then Some (Status (int (length buf)), F(t \<mapsto> (butlast buf @ [0]) @ drop (length buf) c), n,
                       k - (sectors_for (length buf) - sectors_for (length c)))
                else None)
      else None)"
| "spec_file (Get t j) (F, n, k) =
     (if file_name_ok t
      then (case F t of
              None \<Rightarrow> Some (Bytes [] (- 1), F, n, k)
            | Some c \<Rightarrow> Some (Bytes (take (nat j) c) (int (min (nat j) (length c))), F, n, k))
      else None)"
| "spec_file (Size_of t) (F, n, k) =
     (if file_name_ok t
      then (case F t of
              None \<Rightarrow> Some (Status (- 1), F, n, k)
            | Some c \<Rightarrow> Some (Status (int (length c)), F, n, k))
      else None)"

definition fs_holds :: "string list \<Rightarrow> (string \<rightharpoonup> bytes) \<times> nat \<times> nat \<Rightarrow> 'a filesys_scheme \<Rightarrow> bool" where
  "fs_holds out a s \<longleftrightarrow> (\<exists>b m. fs_rep b m (fst (snd a)) s \<and> stored m s = fst a \<and> free_count b = snd (snd a)) \<and> console s = out"

lemma fs_holdsI: "fs_rep b m n s \<Longrightarrow> stored m s = F \<Longrightarrow> free_count b = k \<Longrightarrow> console s = out \<Longrightarrow> fs_holds out (F, n, k) s"
  by (auto simp: fs_holds_def)

lemma fs_holdsD:
  assumes "fs_holds out (F, n, k) s"
  shows "\<exists>b m. fs_rep b m n s \<and> stored m s = F \<and> free_count b = k \<and> console s = out \<and>
    (\<forall>t c. F t = Some c \<longrightarrow> (\<exists>sec. m t = Some sec \<and> bytes_at sec s = c)) \<and> (\<forall>t. F t = None \<longrightarrow> m t = None)"
proof -
  from assms obtain b m where m: "fs_rep b m n s" "stored m s = F" "free_count b = k" "console s = out" by (auto simp: fs_holds_def)
  then have "F t = map_option (\<lambda>sec. bytes_at sec s) (m t)" for t by (auto simp: stored_def)
  then show ?thesis using m by (intro exI [of _ b] exI [of _ m]) simp
qed

section \<open>Each command\<close>

lemma make_step:
  assumes h: "fs_holds out (F, n, k) s" and a: "spec_file (Make t len) (F, n, k) = Some (r, a')"
  shows "\<exists>s'. exec_file (Make t len) s = Some (r, s') \<and> fs_holds out a' s'"
proof -
  obtain b m where F: "fs_rep b m n s" and st: "stored m s = F" and k: "free_count b = k" and out: "console s = out"
    and some: "\<forall>t c. F t = Some c \<longrightarrow> (\<exists>sec. m t = Some sec \<and> bytes_at sec s = c)" and none: "\<forall>t. F t = None \<longrightarrow> m t = None"
    using fs_holdsD [OF h] by blast
  have g: "file_name_ok t" "0 < n" "0 \<le> len" "len \<le> 512 * 123" "sectors_for (nat len) < free_count b"
    using a k by (simp_all split: if_splits)
  show ?thesis
  proof (cases "F t")
    case None
    from fs_create_new [OF F g(1) none [rule_format, OF None] g(2-5)] obtain b' sec s' where
      s': "fsutil_create (in_root t) len s = Some (1, s')" "fs_rep b' (m(t \<mapsto> sec)) (n - 1) s'"
        "stored (m(t \<mapsto> sec)) s' = F(t \<mapsto> replicate (nat len) 0)" "free_count b = free_count b' + sectors_for (nat len) + 1"
        "console s' = console s" unfolding st by blast
    have "fs_holds out (F(t \<mapsto> replicate (nat len) 0), n - 1, k - sectors_for (nat len) - 1) s'"
      by (rule fs_holdsI [OF s'(2,3)]) (use s'(4,5) k out in simp_all)
    then show ?thesis using a None s'(1) by (auto split: if_splits)
  next
    case (Some c)
    then have t: "m t \<noteq> None" using some by blast
    from fs_create_taken [OF F g(1) t g(2-5)] obtain b' s' where
      s': "fsutil_create (in_root t) len s = Some (0, s')" "fs_rep b' m n s'" "stored m s' = F"
        "free_count b = free_count b' + sectors_for (nat len)" "console s' = console s" unfolding st by blast
    have "fs_holds out (F, n, k - sectors_for (nat len)) s'" by (rule fs_holdsI [OF s'(2,3)]) (use s'(4,5) k out in simp_all)
    then show ?thesis using a Some s'(1) by (auto split: if_splits)
  qed
qed

lemma drop_step:
  assumes h: "fs_holds out (F, n, k) s" and a: "spec_file (Drop t) (F, n, k) = Some (r, a')"
  shows "\<exists>s'. exec_file (Drop t) s = Some (r, s') \<and> fs_holds out a' s'"
proof -
  obtain b m where F: "fs_rep b m n s" and st: "stored m s = F" and k: "free_count b = k" and out: "console s = out"
    and some: "\<forall>t c. F t = Some c \<longrightarrow> (\<exists>sec. m t = Some sec \<and> bytes_at sec s = c)" and none: "\<forall>t. F t = None \<longrightarrow> m t = None"
    using fs_holdsD [OF h] by blast
  have t: "file_name_ok t" using a by (simp split: if_splits)
  show ?thesis
  proof (cases "F t")
    case None
    from fs_remove_none [OF F t none [rule_format, OF None]] obtain s' where
      s': "fsutil_rm (in_root t) s = Some (0, s')" "fs_rep b m n s'" "stored m s' = F" "console s' = console s" unfolding st by blast
    have "fs_holds out (F, n, k) s'" by (rule fs_holdsI [OF s'(2,3) k]) (use s'(4) out in simp)
    then show ?thesis using a None s'(1) t by auto
  next
    case (Some c)
    then obtain sec where sec: "m t = Some sec" "bytes_at sec s = c" using some by blast
    from fs_remove [OF F t sec(1)] obtain b' s' where
      s': "fsutil_rm (in_root t) s = Some (1, s')" "fs_rep b' (m(t := None)) (n + 1) s'" "stored (m(t := None)) s' = F(t := None)"
        "free_count b' = free_count b + sectors_for (length c) + 1" "console s' = console s" unfolding st sec(2) by blast
    have "fs_holds out (F(t := None), n + 1, k + sectors_for (length c) + 1) s'"
      by (rule fs_holdsI [OF s'(2,3)]) (use s'(4,5) k out in simp_all)
    then show ?thesis using a Some s'(1) t by auto
  qed
qed

lemma put_step:
  assumes h: "fs_holds out (F, n, k) s" and a: "spec_file (Put t buf) (F, n, k) = Some (r, a')"
  shows "\<exists>s'. exec_file (Put t buf) s = Some (r, s') \<and> fs_holds out a' s'"
proof -
  obtain b m where F: "fs_rep b m n s" and st: "stored m s = F" and k: "free_count b = k" and out: "console s = out"
    and some: "\<forall>t c. F t = Some c \<longrightarrow> (\<exists>sec. m t = Some sec \<and> bytes_at sec s = c)" and none: "\<forall>t. F t = None \<longrightarrow> m t = None"
    using fs_holdsD [OF h] by blast
  have g: "file_name_ok t" "buf \<noteq> []" "length buf \<le> 512 * 123" using a by (simp_all split: if_splits)
  show ?thesis
  proof (cases "F t")
    case None
    from fs_no_file [OF F g(1) none [rule_format, OF None]] obtain s' where
      s': "named_file (in_root t) s = Some (None, s')" "fsutil_close (in_root t) s' = Some s'" "fs_rep b m n s'" "stored m s' = F"
        "console s' = console s" unfolding st by blast
    have "fs_holds out (F, n, k) s'" by (rule fs_holdsI [OF s'(3,4) k]) (use s'(5) out in simp)
    then show ?thesis using a None s'(1,2) g by (auto simp: fsutil_write_def)
  next
    case (Some c)
    then obtain sec where sec: "m t = Some sec" "bytes_at sec s = c" using some by blast
    have room: "sectors_for (length buf) - sectors_for (length (bytes_at sec s)) \<le> free_count b"
      using a Some g k sec(2) by (simp split: if_splits)
    let ?c = "(butlast buf @ [0]) @ drop (length buf) c"
    from fs_write [OF F g(1) sec(1) g(2,3) room] obtain b' s1 s' where
      s': "fsutil_write (in_root t) buf s = Some (int (length buf), s1)" "fsutil_close (in_root t) s1 = Some s'" "fs_rep b' m n s'"
        "stored m s' = F(t \<mapsto> ?c)" "free_count b = free_count b' + (sectors_for (length buf) - sectors_for (length c))"
        "console s' = console s" unfolding st sec(2) by blast
    have "fs_holds out (F(t \<mapsto> ?c), n, k - (sectors_for (length buf) - sectors_for (length c))) s'"
      by (rule fs_holdsI [OF s'(3,4)]) (use s'(5,6) k out in simp_all)
    then show ?thesis using a Some s'(1,2) g room k sec(2) by auto
  qed
qed

lemma get_step:
  assumes h: "fs_holds out (F, n, k) s" and a: "spec_file (Get t j) (F, n, k) = Some (r, a')"
  shows "\<exists>s'. exec_file (Get t j) s = Some (r, s') \<and> fs_holds out a' s'"
proof -
  obtain b m where F: "fs_rep b m n s" and st: "stored m s = F" and k: "free_count b = k" and out: "console s = out"
    and some: "\<forall>t c. F t = Some c \<longrightarrow> (\<exists>sec. m t = Some sec \<and> bytes_at sec s = c)" and none: "\<forall>t. F t = None \<longrightarrow> m t = None"
    using fs_holdsD [OF h] by blast
  have t: "file_name_ok t" using a by (simp split: if_splits)
  show ?thesis
  proof (cases "F t")
    case None
    from fs_no_file [OF F t none [rule_format, OF None]] obtain s' where
      s': "named_file (in_root t) s = Some (None, s')" "fsutil_close (in_root t) s' = Some s'" "fs_rep b m n s'" "stored m s' = F"
        "console s' = console s" unfolding st by blast
    have "fs_holds out (F, n, k) s'" by (rule fs_holdsI [OF s'(3,4) k]) (use s'(5) out in simp)
    then show ?thesis using a None s'(1,2) t by (auto simp: fsutil_read_def)
  next
    case (Some c)
    then obtain sec where sec: "m t = Some sec" "bytes_at sec s = c" using some by blast
    from fs_read [OF F t sec(1), of j] obtain s1 s' where
      s': "fsutil_read (in_root t) j s = Some ((take (nat j) c, int (min (nat j) (length c))), s1)" "fsutil_close (in_root t) s1 = Some s'"
        "fs_rep b m n s'" "stored m s' = F" "console s' = console s" unfolding st sec(2) by blast
    have "fs_holds out (F, n, k) s'" by (rule fs_holdsI [OF s'(3,4) k]) (use s'(5) out in simp)
    then show ?thesis using a Some s'(1,2) t by auto
  qed
qed

lemma size_step:
  assumes h: "fs_holds out (F, n, k) s" and a: "spec_file (Size_of t) (F, n, k) = Some (r, a')"
  shows "\<exists>s'. exec_file (Size_of t) s = Some (r, s') \<and> fs_holds out a' s'"
proof -
  obtain b m where F: "fs_rep b m n s" and st: "stored m s = F" and k: "free_count b = k" and out: "console s = out"
    and some: "\<forall>t c. F t = Some c \<longrightarrow> (\<exists>sec. m t = Some sec \<and> bytes_at sec s = c)" and none: "\<forall>t. F t = None \<longrightarrow> m t = None"
    using fs_holdsD [OF h] by blast
  have t: "file_name_ok t" using a by (simp split: if_splits)
  show ?thesis
  proof (cases "F t")
    case None
    from fs_no_file [OF F t none [rule_format, OF None]] obtain s' where
      s': "named_file (in_root t) s = Some (None, s')" "fsutil_close (in_root t) s' = Some s'" "fs_rep b m n s'" "stored m s' = F"
        "console s' = console s" unfolding st by blast
    have "fs_holds out (F, n, k) s'" by (rule fs_holdsI [OF s'(3,4) k]) (use s'(5) out in simp)
    then show ?thesis using a None s'(1,2) t by (auto simp: fsutil_size_def)
  next
    case (Some c)
    then obtain sec where sec: "m t = Some sec" "bytes_at sec s = c" using some by blast
    from fs_size [OF F t sec(1)] obtain s1 s' where
      s': "fsutil_size (in_root t) s = Some (int (length c), s1)" "fsutil_close (in_root t) s1 = Some s'"
        "fs_rep b m n s'" "stored m s' = F" "console s' = console s" unfolding st sec(2) by blast
    have "fs_holds out (F, n, k) s'" by (rule fs_holdsI [OF s'(3,4) k]) (use s'(5) out in simp)
    then show ?thesis using a Some s'(1,2) t by auto
  qed
qed

interpretation by_name: answers_as "fs_holds out" spec_file exec_file for out
proof unfold_locales
  fix a :: "(string \<rightharpoonup> bytes) \<times> nat \<times> nat" and s c r a'
  assume h: "fs_holds out a s" "spec_file c a = Some (r, a')"
  obtain F n k where a: "a = (F, n, k)" by (cases a)
  show "\<exists>s'. exec_file c s = Some (r, s') \<and> fs_holds out a' s'"
    using h unfolding a by (cases c) (blast dest: make_step drop_step put_step get_step size_step)+
qed

section \<open>The file system as a map\<close>

text \<open>
  C2: Between commands, with no file open and small files in the root directory, any sequence of creating, removing,
  writing, reading and measuring files, each opened and closed by its command, answers as a map from names to
  contents. A new file holds zeros; a write replaces the first bytes and makes its last byte null; a removed file gives
  back all its sectors, so the room for the next commands is known; creating a name that is there fails and loses the
  sectors of its data. Creating needs a free slot of the directory and a free sector more than its data, writing
  the sectors it adds; files have at most 123 sectors. No assertion fails.
\<close>

theorem files_as_map:
  assumes "fs_rep b m n s" and "run_all spec_file cs (stored m s, n, free_count b) = Some (rs, F, n', k)"
  shows "\<exists>b' m' s'. run_all exec_file cs s = Some (rs, s') \<and> fs_rep b' m' n' s' \<and> stored m' s' = F \<and> free_count b' = k \<and>
    console s' = console s"
proof -
  have "fs_holds (console s) (stored m s, n, free_count b) s" by (rule fs_holdsI [OF assms(1) refl refl refl])
  from by_name.all_answers [OF this assms(2)] obtain s' where
    "run_all exec_file cs s = Some (rs, s')" "fs_holds (console s) (F, n', k) s'" by blast
  then show ?thesis by (auto simp: fs_holds_def)
qed

lemma empty_fs_files: "fs_rep \<lparr>bit_cnt = 12, bits = [15]\<rparr> Map.empty 2 empty_fs" "stored Map.empty empty_fs = Map.empty"
proof -
  have "\<forall>q \<in> set (open_inodes empty_fs). \<forall>j. inode_at empty_fs q = Some j \<longrightarrow> in_sector j = FREE_MAP_SECTOR"
    by (simp add: empty_fs_def inode_at_def rd_def saved_map_def FREE_MAP_SECTOR_def)
  moreover have "free_map_file empty_fs \<noteq> None" "file_table empty_fs = []" by (simp_all add: empty_fs_def)
  ultimately show "fs_rep \<lparr>bit_cnt = 12, bits = [15]\<rparr> Map.empty 2 empty_fs" using empty_fs_rep by (simp add: fs_rep_def)
  show "stored Map.empty empty_fs = Map.empty" by (simp add: stored_def fun_eq_iff)
qed

theorem files_as_map_witness:
  "\<exists>s'. run_all exec_file [Make ''a'' 600, Make ''b'' 3, Put ''b'' (replicate 600 65), Get ''b'' 2, Drop ''a'', Size_of ''a'',
      Make ''c'' 2, Size_of ''b'', Get ''c'' 9, Get ''b'' 3] empty_fs =
    Some ([Status 1, Status 1, Status 600, Bytes [65, 65] 2, Status 1, Status (- 1), Status 1, Status 600, Bytes [0, 0] 2,
      Bytes [65, 65, 65] 3], s') \<and> console s' = []"
proof -
  let ?cs = "[Make ''a'' 600, Make ''b'' 3, Put ''b'' (replicate 600 65), Get ''b'' 2, Drop ''a'', Size_of ''a'',
      Make ''c'' 2, Size_of ''b'', Get ''c'' 9, Get ''b'' 3]"
  let ?rs = "[Status 1, Status 1, Status 600, Bytes [65, 65] 2, Status 1, Status (- 1), Status 1, Status 600, Bytes [0, 0] 2,
      Bytes [65, 65, 65] 3]"
  have "file_name_ok ''a''" "file_name_ok ''b''" "file_name_ok ''c''" by (simp_all add: file_name_ok_def NAME_MAX_def)
  then obtain F n k where "run_all spec_file ?cs (stored Map.empty empty_fs, 2, free_count \<lparr>bit_cnt = 12, bits = [15]\<rparr>) = Some (?rs, F, n, k)"
    unfolding empty_fs_files(2) empty_fs_free
    by (simp add: DIV_ROUND_UP_def BLOCK_SECTOR_SIZE_def numeral_2_eq_2 numeral_3_eq_3 butlast_append butlast_conv_take min_def)
  from files_as_map [OF empty_fs_files(1) this] show ?thesis by (auto simp: empty_fs_def)
qed

end
