(* ===== verification/Intrusive_List.thy ===== *)
theory Intrusive_List
  imports Fifo
begin

text \<open>
  The intrusive doubly linked lists of \<open>a3/fs/list.c\<close>. A pointer to a list element is a \<open>nat option\<close>, \<open>None\<close> the
  null pointer; \<open>links\<close> maps the address of every element that exists, the two headers of each list included, to
  its two links, and following a pointer to nothing is undefined. A \<open>list_less_func\<close> with its \<open>aux\<close> is an argument
  on addresses: it compares the structures around the elements, which no function here changes, and it is not null.
\<close>

section \<open>State\<close>

record list_elem =
  le_prev :: "nat option"
  le_next :: "nat option"

record elems = world +
  links :: "nat \<rightharpoonup> list_elem"

record elem_list =
  lhead :: nat        \<comment> \<open>\<open>&list->head\<close>\<close>
  ltail :: nat

type_synonym ptr = "nat option"

definition elem_at :: "ptr \<Rightarrow> 'a elems_scheme \<Rightarrow> list_elem option" where
  "elem_at p s = do { a \<leftarrow> p; links s a }"

definition next_of :: "ptr \<Rightarrow> 'a elems_scheme \<Rightarrow> ptr option" where
  "next_of p s = do { e \<leftarrow> elem_at p s; Some (le_next e) }"

definition prev_of :: "ptr \<Rightarrow> 'a elems_scheme \<Rightarrow> ptr option" where
  "prev_of p s = do { e \<leftarrow> elem_at p s; Some (le_prev e) }"

definition set_elem_next :: "ptr \<Rightarrow> ptr \<Rightarrow> 'a elems_scheme \<Rightarrow> 'a elems_scheme option" where
  \<comment> \<open>\<open>p->next = q\<close>\<close>
  "set_elem_next p q s = do { a \<leftarrow> p; e \<leftarrow> links s a; Some (s\<lparr>links := (links s)(a \<mapsto> e\<lparr>le_next := q\<rparr>)\<rparr>) }"

definition set_elem_prev :: "ptr \<Rightarrow> ptr \<Rightarrow> 'a elems_scheme \<Rightarrow> 'a elems_scheme option" where
  "set_elem_prev p q s = do { a \<leftarrow> p; e \<leftarrow> links s a; Some (s\<lparr>links := (links s)(a \<mapsto> e\<lparr>le_prev := q\<rparr>)\<rparr>) }"

abbreviation list_assert :: "nat \<Rightarrow> string \<Rightarrow> bool \<Rightarrow> 'a elems_scheme \<Rightarrow> 'a elems_scheme" where
  "list_assert line fn c s \<equiv> ASSERT ''fs/list.c'' line fn c s"

section \<open>Traversal\<close>

definition is_head :: "ptr \<Rightarrow> 'a elems_scheme \<Rightarrow> bool option" where
  "is_head elem s = (if elem = None then Some False
     else do { e \<leftarrow> elem_at elem s; Some (le_prev e = None \<and> le_next e \<noteq> None) })"

definition is_interior :: "ptr \<Rightarrow> 'a elems_scheme \<Rightarrow> bool option" where
  "is_interior elem s = (if elem = None then Some False
     else do { e \<leftarrow> elem_at elem s; Some (le_prev e \<noteq> None \<and> le_next e \<noteq> None) })"

definition is_tail :: "ptr \<Rightarrow> 'a elems_scheme \<Rightarrow> bool option" where
  "is_tail elem s = (if elem = None then Some False
     else do { e \<leftarrow> elem_at elem s; Some (le_prev e \<noteq> None \<and> le_next e = None) })"

definition llist_init :: "elem_list option \<Rightarrow> 'a elems_scheme \<Rightarrow> 'a elems_scheme option" where
  "llist_init lp s = do {
     let s = list_assert 55 ''llist_init'' (lp \<noteq> None) s;
     l \<leftarrow> lp;
     s \<leftarrow> set_elem_prev (Some (lhead l)) None s;
     s \<leftarrow> set_elem_next (Some (lhead l)) (Some (ltail l)) s;
     s \<leftarrow> set_elem_prev (Some (ltail l)) (Some (lhead l)) s;
     set_elem_next (Some (ltail l)) None s
   }"

definition list_begin :: "elem_list option \<Rightarrow> 'a elems_scheme \<Rightarrow> (ptr \<times> 'a elems_scheme) option" where
  "list_begin lp s = do {
     let s = list_assert 64 ''list_begin'' (lp \<noteq> None) s;
     l \<leftarrow> lp;
     n \<leftarrow> next_of (Some (lhead l)) s;
     Some (n, s)
   }"

definition list_next :: "ptr \<Rightarrow> 'a elems_scheme \<Rightarrow> (ptr \<times> 'a elems_scheme) option" where
  "list_next elem s = do {
     h \<leftarrow> is_head elem s;
     i \<leftarrow> is_interior elem s;
     let s = list_assert 72 ''list_next'' (h \<or> i) s;
     n \<leftarrow> next_of elem s;
     Some (n, s)
   }"

definition list_end :: "elem_list option \<Rightarrow> 'a elems_scheme \<Rightarrow> (ptr \<times> 'a elems_scheme) option" where
  "list_end lp s = do {
     let s = list_assert 82 ''list_end'' (lp \<noteq> None) s;
     l \<leftarrow> lp;
     Some (Some (ltail l), s)
   }"

definition list_rbegin :: "elem_list option \<Rightarrow> 'a elems_scheme \<Rightarrow> (ptr \<times> 'a elems_scheme) option" where
  "list_rbegin lp s = do {
     let s = list_assert 89 ''list_rbegin'' (lp \<noteq> None) s;
     l \<leftarrow> lp;
     n \<leftarrow> prev_of (Some (ltail l)) s;
     Some (n, s)
   }"

definition list_prev :: "ptr \<Rightarrow> 'a elems_scheme \<Rightarrow> (ptr \<times> 'a elems_scheme) option" where
  "list_prev elem s = do {
     i \<leftarrow> is_interior elem s;
     t \<leftarrow> is_tail elem s;
     let s = list_assert 97 ''list_prev'' (i \<or> t) s;
     n \<leftarrow> prev_of elem s;
     Some (n, s)
   }"

definition list_rend :: "elem_list option \<Rightarrow> 'a elems_scheme \<Rightarrow> (ptr \<times> 'a elems_scheme) option" where
  "list_rend lp s = do {
     let s = list_assert 115 ''list_rend'' (lp \<noteq> None) s;
     l \<leftarrow> lp;
     Some (Some (lhead l), s)
   }"

definition list_head :: "elem_list option \<Rightarrow> 'a elems_scheme \<Rightarrow> (ptr \<times> 'a elems_scheme) option" where
  "list_head lp s = do {
     let s = list_assert 131 ''list_head'' (lp \<noteq> None) s;
     l \<leftarrow> lp;
     Some (Some (lhead l), s)
   }"

definition list_tail :: "elem_list option \<Rightarrow> 'a elems_scheme \<Rightarrow> (ptr \<times> 'a elems_scheme) option" where
  "list_tail lp s = do {
     let s = list_assert 137 ''list_tail'' (lp \<noteq> None) s;
     l \<leftarrow> lp;
     Some (Some (ltail l), s)
   }"

section \<open>Insertion and removal\<close>

definition list_insert :: "ptr \<Rightarrow> ptr \<Rightarrow> 'a elems_scheme \<Rightarrow> 'a elems_scheme option" where
  "list_insert before elem s = do {
     i \<leftarrow> is_interior before s;
     t \<leftarrow> is_tail before s;
     let s = list_assert 145 ''list_insert'' (i \<or> t) s;
     let s = list_assert 146 ''list_insert'' (elem \<noteq> None) s;
     p \<leftarrow> prev_of before s;
     s \<leftarrow> set_elem_prev elem p s;
     s \<leftarrow> set_elem_next elem before s;
     p \<leftarrow> prev_of before s;
     s \<leftarrow> set_elem_next p elem s;
     set_elem_prev before elem s
   }"

definition list_splice :: "ptr \<Rightarrow> ptr \<Rightarrow> ptr \<Rightarrow> 'a elems_scheme \<Rightarrow> 'a elems_scheme option" where
  "list_splice before first lst s = do {
     i \<leftarrow> is_interior before s;
     t \<leftarrow> is_tail before s;
     let s = list_assert 159 ''list_splice'' (i \<or> t) s;
     if first = lst then Some s
     else do {
       (lst, s) \<leftarrow> list_prev lst s;
       i \<leftarrow> is_interior first s;
       let s = list_assert 164 ''list_splice'' i s;
       i \<leftarrow> is_interior lst s;
       let s = list_assert 165 ''list_splice'' i s;
       p \<leftarrow> prev_of first s;
       n \<leftarrow> next_of lst s;
       s \<leftarrow> set_elem_next p n s;
       n \<leftarrow> next_of lst s;
       p \<leftarrow> prev_of first s;
       s \<leftarrow> set_elem_prev n p s;
       p \<leftarrow> prev_of before s;
       s \<leftarrow> set_elem_prev first p s;
       s \<leftarrow> set_elem_next lst before s;
       p \<leftarrow> prev_of before s;
       s \<leftarrow> set_elem_next p first s;
       set_elem_prev before lst s
     }
   }"

definition list_push_front :: "elem_list option \<Rightarrow> ptr \<Rightarrow> 'a elems_scheme \<Rightarrow> 'a elems_scheme option" where
  "list_push_front lp elem s = do { (b, s) \<leftarrow> list_begin lp s; list_insert b elem s }"

definition list_push_back :: "elem_list option \<Rightarrow> ptr \<Rightarrow> 'a elems_scheme \<Rightarrow> 'a elems_scheme option" where
  "list_push_back lp elem s = do { (e, s) \<leftarrow> list_end lp s; list_insert e elem s }"

definition list_remove :: "ptr \<Rightarrow> 'a elems_scheme \<Rightarrow> (ptr \<times> 'a elems_scheme) option" where
  "list_remove elem s = do {
     i \<leftarrow> is_interior elem s;
     let s = list_assert 217 ''list_remove'' i s;
     p \<leftarrow> prev_of elem s;
     n \<leftarrow> next_of elem s;
     s \<leftarrow> set_elem_next p n s;
     n \<leftarrow> next_of elem s;
     p \<leftarrow> prev_of elem s;
     s \<leftarrow> set_elem_prev n p s;
     n \<leftarrow> next_of elem s;
     Some (n, s)
   }"

definition list_empty :: "elem_list option \<Rightarrow> 'a elems_scheme \<Rightarrow> (bool \<times> 'a elems_scheme) option" where
  "list_empty lp s = do { (b, s) \<leftarrow> list_begin lp s; (e, s) \<leftarrow> list_end lp s; Some (b = e, s) }"

definition list_front :: "elem_list option \<Rightarrow> 'a elems_scheme \<Rightarrow> (ptr \<times> 'a elems_scheme) option" where
  "list_front lp s = do {
     (e, s) \<leftarrow> list_empty lp s;
     let s = list_assert 242 ''list_front'' (\<not> e) s;
     l \<leftarrow> lp;
     n \<leftarrow> next_of (Some (lhead l)) s;
     Some (n, s)
   }"

definition list_back :: "elem_list option \<Rightarrow> 'a elems_scheme \<Rightarrow> (ptr \<times> 'a elems_scheme) option" where
  "list_back lp s = do {
     (e, s) \<leftarrow> list_empty lp s;
     let s = list_assert 249 ''list_back'' (\<not> e) s;
     l \<leftarrow> lp;
     n \<leftarrow> prev_of (Some (ltail l)) s;
     Some (n, s)
   }"

definition list_pop_front :: "elem_list option \<Rightarrow> 'a elems_scheme \<Rightarrow> (ptr \<times> 'a elems_scheme) option" where
  "list_pop_front lp s = do { (front, s) \<leftarrow> list_front lp s; (_, s) \<leftarrow> list_remove front s; Some (front, s) }"

definition list_pop_back :: "elem_list option \<Rightarrow> 'a elems_scheme \<Rightarrow> (ptr \<times> 'a elems_scheme) option" where
  "list_pop_back lp s = do { (b, s) \<leftarrow> list_back lp s; (_, s) \<leftarrow> list_remove b s; Some (b, s) }"

section \<open>Loops\<close>

text \<open>A loop over a list whose links are not well-formed may run forever.\<close>

partial_function (option) size_loop ::
  "elem_list option \<Rightarrow> ptr \<Rightarrow> nat \<Rightarrow> 'a elems_scheme \<Rightarrow> (nat \<times> 'a elems_scheme) option" where
  "size_loop lp e cnt s = do {
     (t, s) \<leftarrow> list_end lp s;
     if e = t then Some (cnt, s)
     else do { (e, s) \<leftarrow> list_next e s; size_loop lp e (cnt + 1) s }
   }"

definition list_size :: "elem_list option \<Rightarrow> 'a elems_scheme \<Rightarrow> (nat \<times> 'a elems_scheme) option" where
  "list_size lp s = do { (e, s) \<leftarrow> list_begin lp s; size_loop lp e 0 s }"

definition swap_links :: "ptr \<Rightarrow> 'a elems_scheme \<Rightarrow> 'a elems_scheme option" where
  \<comment> \<open>\<open>swap(&e->prev, &e->next)\<close>\<close>
  "swap_links p s = do { t \<leftarrow> prev_of p s; n \<leftarrow> next_of p s; s \<leftarrow> set_elem_prev p n s; set_elem_next p t s }"

partial_function (option) reverse_loop ::
  "elem_list option \<Rightarrow> ptr \<Rightarrow> 'a elems_scheme \<Rightarrow> 'a elems_scheme option" where
  "reverse_loop lp e s = do {
     (t, s) \<leftarrow> list_end lp s;
     if e = t then Some s
     else do { s \<leftarrow> swap_links e s; p \<leftarrow> prev_of e s; reverse_loop lp p s }
   }"

definition list_reverse :: "elem_list option \<Rightarrow> 'a elems_scheme \<Rightarrow> 'a elems_scheme option" where
  "list_reverse lp s = do {
     (empty, s) \<leftarrow> list_empty lp s;
     if empty then Some s
     else do {
       (e, s) \<leftarrow> list_begin lp s;
       s \<leftarrow> reverse_loop lp e s;
       l \<leftarrow> lp;
       t \<leftarrow> next_of (Some (lhead l)) s;
       b \<leftarrow> prev_of (Some (ltail l)) s;
       s \<leftarrow> set_elem_next (Some (lhead l)) b s;
       s \<leftarrow> set_elem_prev (Some (ltail l)) t s;
       h \<leftarrow> next_of (Some (lhead l)) s;
       z \<leftarrow> prev_of (Some (ltail l)) s;
       t \<leftarrow> prev_of h s;
       b \<leftarrow> next_of z s;
       s \<leftarrow> set_elem_prev h b s;
       set_elem_next z t s
     }
   }"

section \<open>Ordered lists\<close>

type_synonym less_func = "nat \<Rightarrow> nat \<Rightarrow> bool"

definition call_less :: "less_func \<Rightarrow> ptr \<Rightarrow> ptr \<Rightarrow> bool option" where
  \<comment> \<open>\<open>less(a, b, aux)\<close> reads the structures around the elements\<close>
  "call_less lt a b = do { x \<leftarrow> a; y \<leftarrow> b; Some (lt x y) }"

definition less_than_prev :: "less_func \<Rightarrow> ptr \<Rightarrow> 'a elems_scheme \<Rightarrow> (bool \<times> 'a elems_scheme) option" where
  \<comment> \<open>\<open>less(a, list_prev(a), aux)\<close>\<close>
  "less_than_prev lt a s = do { (p, s) \<leftarrow> list_prev a s; r \<leftarrow> call_less lt a p; Some (r, s) }"

partial_function (option) sorted_loop ::
  "less_func \<Rightarrow> ptr \<Rightarrow> ptr \<Rightarrow> 'a elems_scheme \<Rightarrow> (bool \<times> 'a elems_scheme) option" where
  "sorted_loop lt a b s = do {
     (a, s) \<leftarrow> list_next a s;
     if a = b then Some (True, s)
     else do {
       (r, s) \<leftarrow> less_than_prev lt a s;
       if r then Some (False, s) else sorted_loop lt a b s
     }
   }"

definition is_sorted :: "ptr \<Rightarrow> ptr \<Rightarrow> less_func \<Rightarrow> 'a elems_scheme \<Rightarrow> (bool \<times> 'a elems_scheme) option" where
  "is_sorted a b lt s = (if a \<noteq> b then sorted_loop lt a b s else Some (True, s))"

partial_function (option) run_loop ::
  "less_func \<Rightarrow> ptr \<Rightarrow> ptr \<Rightarrow> 'a elems_scheme \<Rightarrow> (ptr \<times> 'a elems_scheme) option" where
  "run_loop lt a b s = do {
     (a, s) \<leftarrow> list_next a s;
     (more, s) \<leftarrow> (if a \<noteq> b then do { (r, s) \<leftarrow> less_than_prev lt a s; Some (\<not> r, s) } else Some (False, s));
     if more then run_loop lt a b s else Some (a, s)
   }"

definition find_end_of_run :: "ptr \<Rightarrow> ptr \<Rightarrow> less_func \<Rightarrow> 'a elems_scheme \<Rightarrow> (ptr \<times> 'a elems_scheme) option" where
  "find_end_of_run a b lt s = do {
     let s = list_assert 307 ''find_end_of_run'' (a \<noteq> None) s;
     let s = list_assert 308 ''find_end_of_run'' (b \<noteq> None) s;
     let s = list_assert 310 ''find_end_of_run'' (a \<noteq> b) s;
     run_loop lt a b s
   }"

partial_function (option) merge_loop ::
  "less_func \<Rightarrow> ptr \<Rightarrow> ptr \<Rightarrow> ptr \<Rightarrow> 'a elems_scheme \<Rightarrow> 'a elems_scheme option" where
  "merge_loop lt a0 a1b0 b1 s =
     (if a0 \<noteq> a1b0 \<and> a1b0 \<noteq> b1
      then do {
        r \<leftarrow> call_less lt a1b0 a0;
        if \<not> r then do { (a0, s) \<leftarrow> list_next a0 s; merge_loop lt a0 a1b0 b1 s }
        else do {
          (a1b0, s) \<leftarrow> list_next a1b0 s;
          (p, s) \<leftarrow> list_prev a1b0 s;
          s \<leftarrow> list_splice a0 p a1b0 s;
          merge_loop lt a0 a1b0 b1 s
        }
      }
      else Some s)"

definition inplace_merge :: "ptr \<Rightarrow> ptr \<Rightarrow> ptr \<Rightarrow> less_func \<Rightarrow> 'a elems_scheme \<Rightarrow> 'a elems_scheme option" where
  "inplace_merge a0 a1b0 b1 lt s = do {
     let s = list_assert 326 ''inplace_merge'' (a0 \<noteq> None) s;
     let s = list_assert 327 ''inplace_merge'' (a1b0 \<noteq> None) s;
     let s = list_assert 328 ''inplace_merge'' (b1 \<noteq> None) s;
     (r, s) \<leftarrow> is_sorted a0 a1b0 lt s;
     let s = list_assert 330 ''inplace_merge'' r s;
     (r, s) \<leftarrow> is_sorted a1b0 b1 lt s;
     let s = list_assert 331 ''inplace_merge'' r s;
     merge_loop lt a0 a1b0 b1 s
   }"

partial_function (option) pass_loop ::
  "elem_list option \<Rightarrow> less_func \<Rightarrow> ptr \<Rightarrow> nat \<Rightarrow> 'a elems_scheme \<Rightarrow> (nat \<times> 'a elems_scheme) option" where
  \<comment> \<open>the \<open>for\<close> loop of \<open>list_sort\<close> from \<open>a0\<close>; the number of runs put out\<close>
  "pass_loop lp lt a0 output_run_cnt s = do {
     (t, s) \<leftarrow> list_end lp s;
     if a0 = t then Some (output_run_cnt, s)
     else do {
       let output_run_cnt = output_run_cnt + 1;
       (t, s) \<leftarrow> list_end lp s;
       (a1b0, s) \<leftarrow> find_end_of_run a0 t lt s;
       (t, s) \<leftarrow> list_end lp s;
       if a1b0 = t then Some (output_run_cnt, s)
       else do {
         (t, s) \<leftarrow> list_end lp s;
         (b1, s) \<leftarrow> find_end_of_run a1b0 t lt s;
         s \<leftarrow> inplace_merge a0 a1b0 b1 lt s;
         pass_loop lp lt b1 output_run_cnt s
       }
     }
   }"

partial_function (option) sort_loop ::
  "elem_list option \<Rightarrow> less_func \<Rightarrow> 'a elems_scheme \<Rightarrow> 'a elems_scheme option" where
  "sort_loop lp lt s = do {
     (b, s) \<leftarrow> list_begin lp s;
     (output_run_cnt, s) \<leftarrow> pass_loop lp lt b 0 s;
     if output_run_cnt > 1 then sort_loop lp lt s else Some s
   }"

definition list_sort :: "elem_list option \<Rightarrow> less_func \<Rightarrow> 'a elems_scheme \<Rightarrow> 'a elems_scheme option" where
  "list_sort lp lt s = do {
     let s = list_assert 348 ''list_sort'' (lp \<noteq> None) s;
     s \<leftarrow> sort_loop lp lt s;
     (b, s) \<leftarrow> list_begin lp s;
     (e, s) \<leftarrow> list_end lp s;
     (r, s) \<leftarrow> is_sorted b e lt s;
     Some (list_assert 375 ''list_sort'' r s)
   }"

partial_function (option) position_loop ::
  "elem_list option \<Rightarrow> ptr \<Rightarrow> less_func \<Rightarrow> ptr \<Rightarrow> 'a elems_scheme \<Rightarrow> (ptr \<times> 'a elems_scheme) option" where
  "position_loop lp elem lt e s = do {
     (t, s) \<leftarrow> list_end lp s;
     if e = t then Some (e, s)
     else do {
       r \<leftarrow> call_less lt elem e;
       if r then Some (e, s)
       else do { (e, s) \<leftarrow> list_next e s; position_loop lp elem lt e s }
     }
   }"

definition list_insert_ordered ::
  "elem_list option \<Rightarrow> ptr \<Rightarrow> less_func \<Rightarrow> 'a elems_scheme \<Rightarrow> 'a elems_scheme option" where
  "list_insert_ordered lp elem lt s = do {
     let s = list_assert 385 ''list_insert_ordered'' (lp \<noteq> None) s;
     let s = list_assert 386 ''list_insert_ordered'' (elem \<noteq> None) s;
     (b, s) \<leftarrow> list_begin lp s;
     (e, s) \<leftarrow> position_loop lp elem lt b s;
     list_insert e elem s
   }"

partial_function (option) unique_loop ::
  "elem_list option \<Rightarrow> elem_list option \<Rightarrow> less_func \<Rightarrow> ptr \<Rightarrow> 'a elems_scheme \<Rightarrow> 'a elems_scheme option" where
  "unique_loop lp duplicates lt elem s = do {
     (n, s) \<leftarrow> list_next elem s;
     (t, s) \<leftarrow> list_end lp s;
     if n = t then Some s
     else do {
       r \<leftarrow> call_less lt elem n;
       equal \<leftarrow> (if r then Some False else do { r \<leftarrow> call_less lt n elem; Some (\<not> r) });
       if equal then do {
         (_, s) \<leftarrow> list_remove n s;
         s \<leftarrow> (if duplicates \<noteq> None then list_push_back duplicates n s else Some s);
         unique_loop lp duplicates lt elem s
       }
       else unique_loop lp duplicates lt n s
     }
   }"

definition list_unique ::
  "elem_list option \<Rightarrow> elem_list option \<Rightarrow> less_func \<Rightarrow> 'a elems_scheme \<Rightarrow> 'a elems_scheme option" where
  "list_unique lp duplicates lt s = do {
     let s = list_assert 403 ''list_unique'' (lp \<noteq> None) s;
     (empty, s) \<leftarrow> list_empty lp s;
     if empty then Some s
     else do { (elem, s) \<leftarrow> list_begin lp s; unique_loop lp duplicates lt elem s }
   }"

partial_function (option) best_loop ::
  "elem_list option \<Rightarrow> (ptr \<Rightarrow> ptr \<Rightarrow> bool option) \<Rightarrow> ptr \<Rightarrow> ptr \<Rightarrow> 'a elems_scheme \<Rightarrow> (ptr \<times> 'a elems_scheme) option" where
  \<comment> \<open>the loops of \<open>list_max\<close> and \<open>list_min\<close>: \<open>better best e\<close> replaces the best so far\<close>
  "best_loop lp better best e s = do {
     (t, s) \<leftarrow> list_end lp s;
     if e = t then Some (best, s)
     else do {
       r \<leftarrow> better best e;
       (n, s) \<leftarrow> list_next e s;
       best_loop lp better (if r then e else best) n s
     }
   }"

definition list_max :: "elem_list option \<Rightarrow> less_func \<Rightarrow> 'a elems_scheme \<Rightarrow> (ptr \<times> 'a elems_scheme) option" where
  "list_max lp lt s = do {
     (m, s) \<leftarrow> list_begin lp s;
     (t, s) \<leftarrow> list_end lp s;
     if m \<noteq> t then do { (e, s) \<leftarrow> list_next m s; best_loop lp (\<lambda>m e. call_less lt m e) m e s }
     else Some (m, s)
   }"

definition list_min :: "elem_list option \<Rightarrow> less_func \<Rightarrow> 'a elems_scheme \<Rightarrow> (ptr \<times> 'a elems_scheme) option" where
  "list_min lp lt s = do {
     (m, s) \<leftarrow> list_begin lp s;
     (t, s) \<leftarrow> list_end lp s;
     if m \<noteq> t then do { (e, s) \<leftarrow> list_next m s; best_loop lp (\<lambda>m e. call_less lt e m) m e s }
     else Some (m, s)
   }"

end
