(* ===== verification/List_Refinement.thy ===== *)
theory List_Refinement
  imports Intrusive_List
begin

text \<open>
  The intrusive list refines a list of addresses. A chain is a piece of a list given by the two pointers that leave
  it at its ends; an operation changes the ends of a few chains, and joining the chains gives the new list.
\<close>

section \<open>Chains\<close>

definition first_of :: "nat list \<Rightarrow> ptr \<Rightarrow> ptr" where
  "first_of as n = (case as of [] \<Rightarrow> n | a # _ \<Rightarrow> Some a)"

definition last_of :: "ptr \<Rightarrow> nat list \<Rightarrow> ptr" where
  "last_of p as = (if as = [] then p else Some (last as))"

fun chain :: "ptr \<Rightarrow> nat list \<Rightarrow> ptr \<Rightarrow> (nat \<rightharpoonup> list_elem) \<Rightarrow> bool" where
  "chain p [] n h \<longleftrightarrow> True"
| "chain p (a # as) n h \<longleftrightarrow> h a = Some \<lparr>le_prev = p, le_next = first_of as n\<rparr> \<and> chain (Some a) as n h"

lemma first_of_simps [simp]: "first_of [] n = n" "first_of (a # as) n = Some a" "first_of (as @ bs) n = first_of as (first_of bs n)"
  by (simp_all add: first_of_def split: list.split)

lemma last_of_simps [simp]: "last_of p [] = p" "last_of p (as @ [a]) = Some a" "last_of p (a # as) = last_of (Some a) as"
  "last_of p (as @ bs) = last_of (last_of p as) bs"
  by (auto simp: last_of_def)

lemma chain_append [simp]: "chain p (as @ bs) n h \<longleftrightarrow> chain p as (first_of bs n) h \<and> chain (last_of p as) bs n h"
  by (induction as arbitrary: p) auto

lemma chain_frame: "\<forall>a \<in> set as. h' a = h a \<Longrightarrow> chain p as n h' = chain p as n h"
  by (induction as arbitrary: p) auto

definition upd_next :: "nat \<Rightarrow> ptr \<Rightarrow> (nat \<rightharpoonup> list_elem) \<Rightarrow> nat \<rightharpoonup> list_elem" where
  "upd_next a q h = h(a \<mapsto> (the (h a))\<lparr>le_next := q\<rparr>)"

definition upd_prev :: "nat \<Rightarrow> ptr \<Rightarrow> (nat \<rightharpoonup> list_elem) \<Rightarrow> nat \<rightharpoonup> list_elem" where
  "upd_prev a q h = h(a \<mapsto> (the (h a))\<lparr>le_prev := q\<rparr>)"

lemma upd_other [simp]: "x \<noteq> a \<Longrightarrow> upd_next a q h x = h x" "x \<noteq> a \<Longrightarrow> upd_prev a q h x = h x"
  by (simp_all add: upd_next_def upd_prev_def)

lemma upd_exists [simp]: "(upd_next a q h x = None) = (h x = None \<and> x \<noteq> a)" "(upd_prev a q h x = None) = (h x = None \<and> x \<noteq> a)"
  by (simp_all add: upd_next_def upd_prev_def)

lemma chain_upd_out [simp]:
  "a \<notin> set as \<Longrightarrow> chain p as n (upd_next a q h) = chain p as n h"
  "a \<notin> set as \<Longrightarrow> chain p as n (upd_prev a q h) = chain p as n h"
  by (intro chain_frame, metis upd_other)+

lemma chain_upd_last: "chain p (as @ [a]) n h \<Longrightarrow> a \<notin> set as \<Longrightarrow> chain p (as @ [a]) q (upd_next a q h)"
  by simp (simp add: upd_next_def)

lemma chain_upd_first: "chain p (a # as) n h \<Longrightarrow> a \<notin> set as \<Longrightarrow> chain q (a # as) n (upd_prev a q h)"
  by simp (simp add: upd_prev_def)

lemma set_elem_links [simp]:
  "links s a \<noteq> None \<Longrightarrow> set_elem_next (Some a) q s = Some (s\<lparr>links := upd_next a q (links s)\<rparr>)"
  "links s a \<noteq> None \<Longrightarrow> set_elem_prev (Some a) q s = Some (s\<lparr>links := upd_prev a q (links s)\<rparr>)"
  by (auto simp: set_elem_next_def set_elem_prev_def upd_next_def upd_prev_def)

lemma chain_first: "chain p (a # as) n h \<Longrightarrow> h a = Some \<lparr>le_prev = p, le_next = first_of as n\<rparr>"
  by simp

lemma chain_last: "chain p (as @ [a]) n h \<Longrightarrow> h a = Some \<lparr>le_prev = last_of p as, le_next = n\<rparr>"
  by simp

lemma link_values:
  "links s a = Some e \<Longrightarrow> next_of (Some a) s = Some (le_next e)" "links s a = Some e \<Longrightarrow> prev_of (Some a) s = Some (le_prev e)"
  "links s a = Some e \<Longrightarrow> is_head (Some a) s = Some (le_prev e = None \<and> le_next e \<noteq> None)"
  "links s a = Some e \<Longrightarrow> is_interior (Some a) s = Some (le_prev e \<noteq> None \<and> le_next e \<noteq> None)"
  "links s a = Some e \<Longrightarrow> is_tail (Some a) s = Some (le_prev e \<noteq> None \<and> le_next e = None)"
  by (simp_all add: next_of_def prev_of_def is_head_def is_interior_def is_tail_def elem_at_def)

lemma of_upd [simp]:
  "h x \<noteq> None \<Longrightarrow> prev_of (Some x) (s\<lparr>links := upd_next a q h\<rparr>) = prev_of (Some x) (s\<lparr>links := h\<rparr>)"
  "h x \<noteq> None \<Longrightarrow> next_of (Some x) (s\<lparr>links := upd_prev a q h\<rparr>) = next_of (Some x) (s\<lparr>links := h\<rparr>)"
  "x \<noteq> a \<Longrightarrow> next_of (Some x) (s\<lparr>links := upd_next a q h\<rparr>) = next_of (Some x) (s\<lparr>links := h\<rparr>)"
  "x \<noteq> a \<Longrightarrow> prev_of (Some x) (s\<lparr>links := upd_prev a q h\<rparr>) = prev_of (Some x) (s\<lparr>links := h\<rparr>)"
  by (auto simp: prev_of_def next_of_def elem_at_def upd_next_def upd_prev_def)

lemma ends_Some: "\<exists>q. first_of as (Some x) = Some q" "\<exists>q. last_of (Some x) as = Some q"
  by (cases as; simp) (simp add: last_of_def)

section \<open>Lists\<close>

definition nodes_ok :: "nat list \<Rightarrow> 'a elems_scheme \<Rightarrow> bool" where
  \<comment> \<open>the elements of one list, headers included\<close>
  "nodes_ok ns s \<longleftrightarrow> distinct ns \<and> chain None ns None (links s)"

definition is_list :: "elem_list \<Rightarrow> nat list \<Rightarrow> 'a elems_scheme \<Rightarrow> bool" where
  "is_list l xs s \<longleftrightarrow> nodes_ok (lhead l # xs @ [ltail l]) s"

lemma nav_next: "nodes_ok (as @ a # b # bs) s \<Longrightarrow> list_next (Some a) s = Some (Some b, s)"
  by (cases as rule: rev_cases) (auto simp: nodes_ok_def list_next_def link_values)

lemma nav_prev: "nodes_ok (as @ a # b # bs) s \<Longrightarrow> list_prev (Some b) s = Some (Some a, s)"
  by (cases bs) (auto simp: nodes_ok_def list_prev_def link_values)

lemma list_end_spec [simp]: "list_end (Some l) s = Some (Some (ltail l), s)"
  by (simp add: list_end_def)

lemma list_begin_spec: "is_list l xs s \<Longrightarrow> list_begin (Some l) s = Some (first_of xs (Some (ltail l)), s)"
  by (auto simp: is_list_def nodes_ok_def list_begin_def link_values)

lemma list_rbegin_spec: "is_list l xs s \<Longrightarrow> list_rbegin (Some l) s = Some (last_of (Some (lhead l)) xs, s)"
  by (auto simp: is_list_def nodes_ok_def list_rbegin_def link_values)

lemma insert_spec:
  assumes "nodes_ok (as @ a # b # bs) s" and "e \<notin> set (as @ a # b # bs)" and "links s e \<noteq> None"
  shows "\<exists>h. list_insert (Some b) (Some e) s = Some (s\<lparr>links := h\<rparr>) \<and> nodes_ok (as @ a # e # b # bs) (s\<lparr>links := h\<rparr>) \<and>
    (\<forall>x. x \<notin> set (as @ a # e # b # bs) \<longrightarrow> h x = links s x)"
proof -
  let ?h1 = "upd_prev e (Some a) (links s)" let ?h2 = "upd_next e (Some b) ?h1"
  let ?h3 = "upd_next a (Some e) ?h2" let ?h4 = "upd_prev b (Some e) ?h3"
  have c: "chain None (as @ [a]) (Some b) (links s)" "chain (Some a) (b # bs) None (links s)" and d: "distinct (as @ a # b # bs)"
    using assms(1) by (auto simp: nodes_ok_def)
  have cells: "links s a = Some \<lparr>le_prev = last_of None as, le_next = Some b\<rparr>" "links s b = Some \<lparr>le_prev = Some a, le_next = first_of bs None\<rparr>"
    using c by simp_all
  have "a \<noteq> b" "a \<noteq> e" "b \<noteq> e" using d assms(2) by auto
  then have run: "list_insert (Some b) (Some e) s = Some (s\<lparr>links := ?h4\<rparr>)"
    using cells assms(3) by (cases "first_of bs None") (simp_all add: list_insert_def link_values)
  have "chain None (as @ [a]) (Some e) ?h3"
    by (rule chain_upd_last) (use c(1) d assms(2) in auto)
  moreover have "chain (Some e) (b # bs) None ?h4"
    by (rule chain_upd_first) (use c(2) d assms(2) in auto)
  moreover have "chain (Some a) [e] (Some b) ?h2" using assms(3) by (auto simp: upd_next_def upd_prev_def)
  ultimately have "chain None (as @ a # e # b # bs) None ?h4"
    using d assms(2) \<open>a \<noteq> e\<close> \<open>b \<noteq> e\<close> by auto
  then show ?thesis using run d assms(2) by (intro exI [of _ ?h4]) (auto simp: nodes_ok_def)
qed

lemma remove_spec:
  assumes "nodes_ok (as @ a # e # b # bs) s"
  shows "\<exists>h. list_remove (Some e) s = Some (Some b, s\<lparr>links := h\<rparr>) \<and> nodes_ok (as @ a # b # bs) (s\<lparr>links := h\<rparr>) \<and>
    h e = links s e \<and> (\<forall>x. x \<notin> set (as @ a # b # bs) \<longrightarrow> h x = links s x)"
proof -
  let ?h1 = "upd_next a (Some b) (links s)" let ?h2 = "upd_prev b (Some a) ?h1"
  have c: "chain None (as @ [a]) (Some e) (links s)" "links s e = Some \<lparr>le_prev = Some a, le_next = Some b\<rparr>"
      "chain (Some e) (b # bs) None (links s)" and d: "distinct (as @ a # e # b # bs)"
    using assms by (auto simp: nodes_ok_def)
  have cells: "links s a = Some \<lparr>le_prev = last_of None as, le_next = Some e\<rparr>" "links s b = Some \<lparr>le_prev = Some e, le_next = first_of bs None\<rparr>"
    using c by simp_all
  have "a \<noteq> b" "a \<noteq> e" "b \<noteq> e" using d by auto
  then have run: "list_remove (Some e) s = Some (Some b, s\<lparr>links := ?h2\<rparr>)"
    using cells c(2) by (simp add: list_remove_def link_values)
  have "chain None (as @ [a]) (Some b) ?h1"
    by (rule chain_upd_last) (use c(1) d in auto)
  moreover have "chain (Some a) (b # bs) None ?h2"
    by (rule chain_upd_first) (use c(3) d in auto)
  ultimately have "chain None (as @ a # b # bs) None ?h2" using d by auto
  then show ?thesis using run d by (intro exI [of _ ?h2]) (auto simp: nodes_ok_def)
qed

text \<open>The segment \<open>S\<close>, from \<open>f\<close> to \<open>z\<close>, moves before \<open>M\<close>, which goes from \<open>m\<close> to \<open>y\<close>.\<close>

lemma splice_spec:
  assumes ok: "nodes_ok (as @ p # M @ S @ n # bs) s"
    and M: "M = m # mid" "M = mid' @ [y]" and S: "S = f # seg'" "S = seg @ [z]"
  shows "\<exists>h. list_splice (Some m) (Some f) (Some n) s = Some (s\<lparr>links := h\<rparr>) \<and>
    nodes_ok (as @ p # S @ M @ n # bs) (s\<lparr>links := h\<rparr>) \<and>
    (\<forall>x. x \<notin> set (as @ p # M @ S @ n # bs) \<longrightarrow> h x = links s x)"
proof -
  have d: "distinct (as @ p # M @ S @ n # bs)" using ok by (simp add: nodes_ok_def)
  have ends: "first_of M q = Some m" "first_of S q = Some f" "last_of q M = Some y" "last_of q S = Some z" for q
    by (simp add: M(1), simp add: S(1), simp add: M(2), simp add: S(2))
  have inM: "m \<in> set M" "y \<in> set M" and inS: "f \<in> set S" "z \<in> set S"
    by (simp add: M(1), simp add: M(2), simp add: S(1), simp add: S(2))
  then have ne: "p \<noteq> m" "p \<noteq> y" "p \<noteq> f" "p \<noteq> z" "p \<noteq> n" "n \<noteq> m" "n \<noteq> y" "n \<noteq> f" "n \<noteq> z" "m \<noteq> f" "m \<noteq> z" "y \<noteq> f" "y \<noteq> z"
    using d by auto
  have notin: "p \<notin> set M" "p \<notin> set S" "n \<notin> set M" "n \<notin> set S" "m \<notin> set S" "y \<notin> set S" "f \<notin> set M" "z \<notin> set M"
      "m \<notin> set as" "y \<notin> set as" "f \<notin> set as" "z \<notin> set as" "n \<notin> set as" "p \<notin> set as"
      "m \<notin> set bs" "y \<notin> set bs" "f \<notin> set bs" "z \<notin> set bs" "n \<notin> set bs" "p \<notin> set bs"
    using d inM inS by auto
  have c: "chain None (as @ [p]) (Some m) (links s)" "chain (Some p) M (Some f) (links s)"
      "chain (Some y) S (Some n) (links s)" "chain (Some z) (n # bs) None (links s)"
    using ok ends by (simp_all add: nodes_ok_def)
  have "links s m = Some \<lparr>le_prev = Some p, le_next = first_of mid (Some f)\<rparr>" using c(2) by (simp add: M(1))
  moreover have "links s f = Some \<lparr>le_prev = Some y, le_next = first_of seg' (Some n)\<rparr>" using c(3) by (simp add: S(1))
  moreover have "links s z = Some \<lparr>le_prev = last_of (Some y) seg, le_next = Some n\<rparr>" using c(3) by (simp add: S(2))
  moreover have "links s y = Some \<lparr>le_prev = last_of (Some p) mid', le_next = Some f\<rparr>" using c(2) by (simp add: M(2))
  ultimately obtain qm qf qz qy where cells: "links s m = Some \<lparr>le_prev = Some p, le_next = Some qm\<rparr>" "links s f = Some \<lparr>le_prev = Some y, le_next = Some qf\<rparr>"
      "links s z = Some \<lparr>le_prev = Some qz, le_next = Some n\<rparr>" "links s y = Some \<lparr>le_prev = Some qy, le_next = Some f\<rparr>"
      "links s n = Some \<lparr>le_prev = Some z, le_next = first_of bs None\<rparr>" "links s p = Some \<lparr>le_prev = last_of None as, le_next = Some m\<rparr>"
    using c(1,4) ends_Some by (metis chain.simps(2) chain_last)
  let ?h1 = "upd_next y (Some n) (links s)" let ?h2 = "upd_prev n (Some y) ?h1" let ?h3 = "upd_prev f (Some p) ?h2"
  let ?h4 = "upd_next z (Some m) ?h3" let ?h5 = "upd_next p (Some f) ?h4" let ?h6 = "upd_prev m (Some z) ?h5"
  have A: "chain None (as @ [p]) (Some f) ?h5"
    by (rule chain_upd_last) (use c(1) notin ne in auto)
  have "distinct M" "distinct S" using d by simp_all
  then have last: "y \<notin> set mid'" "z \<notin> set seg" "m \<notin> set mid" "f \<notin> set seg'" by (simp add: M(2), simp add: S(2), simp add: M(1), simp add: S(1))
  have "chain (Some p) M (Some n) ?h1"
    unfolding M(2) by (rule chain_upd_last) (use c(2) M(2) last in auto)
  then have "chain (Some p) M (Some n) ?h5" using notin by simp
  then have M': "chain (Some z) M (Some n) ?h6"
    unfolding M(1) by (rule chain_upd_first) (rule last)
  have "chain (Some y) S (Some n) ?h2" using c(3) notin by simp
  then have "chain (Some p) S (Some n) ?h3"
    unfolding S(1) by (rule chain_upd_first) (rule last)
  then have S': "chain (Some p) S (Some m) ?h4"
    unfolding S(2) by (rule chain_upd_last) (rule last)
  have N: "chain (Some y) (n # bs) None ?h2"
    by (rule chain_upd_first) (use c(4) notin ne in auto)
  have "chain None (as @ [p]) (Some f) ?h6" "chain (Some p) S (Some m) ?h6" "chain (Some y) (n # bs) None ?h6"
    using A S' N notin ne by auto
  then have "chain None (as @ p # S @ M @ n # bs) None ?h6" using M' ends by auto
  moreover have "list_splice (Some m) (Some f) (Some n) s = Some (s\<lparr>links := ?h6\<rparr>)"
    using cells ne by (cases "first_of bs None") (simp_all add: list_splice_def list_prev_def link_values)
  moreover have "?h6 x = links s x" if "x \<notin> set (as @ p # M @ S @ n # bs)" for x
  proof -
    have "x \<noteq> m" "x \<noteq> p" "x \<noteq> z" "x \<noteq> f" "x \<noteq> n" "x \<noteq> y" using that inM inS by auto
    then show ?thesis by simp
  qed
  moreover have "distinct (as @ p # S @ M @ n # bs)" using d by auto
  ultimately show ?thesis by (intro exI [of _ ?h6]) (simp add: nodes_ok_def)
qed

section \<open>Walking along a list\<close>

lemma nav_next_of: "nodes_ok (as @ a # bs) s \<Longrightarrow> bs \<noteq> [] \<Longrightarrow> list_next (Some a) s = Some (first_of bs None, s)"
  using nav_next by (cases bs) auto

lemma size_loop_spec:
  "nodes_ok (us @ ws @ [ltail l]) s \<Longrightarrow> size_loop (Some l) (first_of ws (Some (ltail l))) cnt s = Some (cnt + length ws, s)"
proof (induction ws arbitrary: us cnt)
  case Nil
  then show ?case by (subst size_loop.simps) simp
next
  case (Cons w ws)
  have "w \<noteq> ltail l" using Cons.prems by (auto simp: nodes_ok_def)
  moreover have "list_next (Some w) s = Some (first_of ws (Some (ltail l)), s)"
    using nav_next_of [of us w "ws @ [ltail l]" s] Cons.prems by simp
  ultimately show ?case using Cons.IH [of "us @ [w]" "Suc cnt"] Cons.prems by (subst size_loop.simps) simp
qed

lemma list_size_spec: "is_list l xs s \<Longrightarrow> list_size (Some l) s = Some (length xs, s)"
  using list_begin_spec [of l xs s] size_loop_spec [of "[lhead l]" xs l s 0] by (simp add: list_size_def is_list_def)

lemma list_empty_spec: "is_list l xs s \<Longrightarrow> list_empty (Some l) s = Some (xs = [], s)"
  using list_begin_spec [of l xs s]
  by (cases xs) (auto simp: list_empty_def is_list_def nodes_ok_def)

fun steps_up :: "less_func \<Rightarrow> nat list \<Rightarrow> bool" where
  \<comment> \<open>no element is less than the one before it\<close>
  "steps_up lt (x # y # zs) \<longleftrightarrow> \<not> lt y x \<and> steps_up lt (y # zs)"
| "steps_up lt _ \<longleftrightarrow> True"

lemma less_prev_spec: "nodes_ok (as @ a # b # bs) s \<Longrightarrow> less_than_prev lt (Some b) s = Some (lt b a, s)"
  using nav_prev [of as a b bs s] by (simp add: less_than_prev_def call_less_def)

lemma sorted_loop_spec:
  "nodes_ok (us @ a # vs @ b # ws) s \<Longrightarrow> sorted_loop lt (Some a) (Some b) s = Some (steps_up lt (a # vs), s)"
proof (induction vs arbitrary: us a)
  case Nil
  then show ?case using nav_next [of us a b ws s] by (subst sorted_loop.simps) simp
next
  case (Cons v vs)
  have "v \<noteq> b" using Cons.prems by (auto simp: nodes_ok_def)
  then show ?case
    using nav_next [of us a v "vs @ b # ws" s] less_prev_spec [of us a v "vs @ b # ws" s lt] Cons.prems Cons.IH [of "us @ [a]" v]
    by (subst sorted_loop.simps) simp
qed

lemma is_sorted_spec:
  assumes "nodes_ok (us @ vs @ b # ws) s" and "us \<noteq> []"
  shows "is_sorted (first_of vs (Some b)) (Some b) lt s = Some (steps_up lt vs, s)"
proof (cases vs)
  case (Cons a vs')
  then have "a \<noteq> b" using assms by (auto simp: nodes_ok_def)
  then show ?thesis using sorted_loop_spec [of us a vs' b ws s lt] assms Cons by (simp add: is_sorted_def)
qed (simp add: is_sorted_def)

fun split_run :: "less_func \<Rightarrow> nat \<Rightarrow> nat list \<Rightarrow> nat list \<times> nat list" where
  \<comment> \<open>the run that starts at \<open>a\<close>, and what follows it\<close>
  "split_run lt a [] = ([a], [])"
| "split_run lt a (v # vs) = (if lt v a then ([a], v # vs) else case split_run lt v vs of (r, q) \<Rightarrow> (a # r, q))"

lemma split_run_append: "split_run lt a vs = (r, q) \<Longrightarrow> r @ q = a # vs"
  by (induction lt a vs arbitrary: r q rule: split_run.induct) (auto split: if_splits prod.splits)

lemma split_run_steps: "split_run lt a vs = (r, q) \<Longrightarrow> steps_up lt r \<and> (\<exists>r'. r = a # r')"
  by (induction lt a vs arbitrary: r q rule: split_run.induct) (fastforce split: if_splits prod.splits)+

lemma run_loop_spec:
  "nodes_ok (us @ a # vs @ b # ws) s \<Longrightarrow> split_run lt a vs = (r, q) \<Longrightarrow>
   run_loop lt (Some a) (Some b) s = Some (first_of q (Some b), s)"
proof (induction vs arbitrary: us a r)
  case Nil
  then show ?case using nav_next [of us a b ws s] by (subst run_loop.simps) auto
next
  case (Cons v vs)
  have "v \<noteq> b" using Cons.prems by (auto simp: nodes_ok_def)
  moreover note n = nav_next [of us a v "vs @ b # ws" s] less_prev_spec [of us a v "vs @ b # ws" s lt]
  ultimately show ?case
    using Cons.prems Cons.IH [of "us @ [a]" v] by (subst run_loop.simps) (auto split: if_splits prod.splits)
qed

lemma find_end_spec:
  assumes "nodes_ok (us @ a # vs @ b # ws) s" and "split_run lt a vs = (r, q)"
  shows "find_end_of_run (Some a) (Some b) lt s = Some (first_of q (Some b), s)"
proof -
  have "a \<noteq> b" using assms by (auto simp: nodes_ok_def)
  then show ?thesis using run_loop_spec [OF assms] by (simp add: find_end_of_run_def)
qed

section \<open>Merging\<close>

fun merge_runs :: "less_func \<Rightarrow> nat list \<Rightarrow> nat list \<Rightarrow> nat list" where
  "merge_runs lt [] bs = bs"
| "merge_runs lt as [] = as"
| "merge_runs lt (a # as) (b # bs) = (if lt b a then b # merge_runs lt (a # as) bs else a # merge_runs lt as (b # bs))"

lemma set_merge_runs: "set (merge_runs lt as bs) = set as \<union> set bs"
  by (induction lt as bs rule: merge_runs.induct) auto

lemma merge_move:
  assumes "nodes_ok (us @ (a # as) @ (b # bs) @ c # ws) s" and "us \<noteq> []"
  shows "\<exists>h. list_next (Some b) s = Some (first_of bs (Some c), s) \<and> list_prev (first_of bs (Some c)) s = Some (Some b, s) \<and>
    list_splice (Some a) (Some b) (first_of bs (Some c)) s = Some (s\<lparr>links := h\<rparr>) \<and>
    nodes_ok ((us @ [b]) @ (a # as) @ bs @ c # ws) (s\<lparr>links := h\<rparr>) \<and>
    (\<forall>x. x \<notin> set (us @ (a # as) @ (b # bs) @ c # ws) \<longrightarrow> h x = links s x)"
proof -
  obtain us' p where us: "us = us' @ [p]" using assms(2) by (metis append_butlast_last_id)
  obtain n ns where n: "bs @ c # ws = n # ns" by (cases "bs @ c # ws") auto
  then have fn: "first_of bs (Some c) = Some n" by (cases bs) auto
  obtain mid' y where y: "a # as = mid' @ [y]" by (metis append_butlast_last_id list.discI)
  have ok: "nodes_ok (us' @ p # (a # as) @ [b] @ n # ns) s" using assms(1) us n by simp
  have "nodes_ok ((us' @ p # a # as) @ b # n # ns) s" using ok by simp
  then have nav: "list_next (Some b) s = Some (Some n, s)" "list_prev (Some n) s = Some (Some b, s)"
    by (rule nav_next, rule nav_prev)
  from splice_spec [OF ok refl y, of b "[]" "[]" b] obtain h where
    "list_splice (Some a) (Some b) (Some n) s = Some (s\<lparr>links := h\<rparr>)"
    "nodes_ok (us' @ p # [b] @ (a # as) @ n # ns) (s\<lparr>links := h\<rparr>)"
    "\<forall>x. x \<notin> set (us' @ p # (a # as) @ [b] @ n # ns) \<longrightarrow> h x = links s x" by auto
  then show ?thesis using nav us n [symmetric] fn by (intro exI [of _ h]) auto
qed

lemma merge_loop_spec:
  "nodes_ok (us @ as @ bs @ c # ws) s \<Longrightarrow> us \<noteq> [] \<Longrightarrow>
   \<exists>h. merge_loop lt (first_of as (first_of bs (Some c))) (first_of bs (Some c)) (Some c) s = Some (s\<lparr>links := h\<rparr>) \<and>
     nodes_ok (us @ merge_runs lt as bs @ c # ws) (s\<lparr>links := h\<rparr>) \<and>
     (\<forall>x. x \<notin> set (us @ as @ bs @ c # ws) \<longrightarrow> h x = links s x)"
proof (induction lt as bs arbitrary: us s rule: merge_runs.induct)
  case (1 lt bs)
  then show ?case by (subst merge_loop.simps) (auto intro!: exI [of _ "links s"])
next
  case (2 lt a as)
  then show ?case by (subst merge_loop.simps) (auto intro!: exI [of _ "links s"])
next
  case (3 lt a as b bs)
  have ne: "a \<noteq> b" "b \<noteq> c" using "3.prems"(1) by (auto simp: nodes_ok_def)
  show ?case
  proof (cases "lt b a")
    case False
    have "list_next (Some a) s = Some (first_of as (Some b), s)"
      using nav_next_of [of us a "as @ b # bs @ c # ws" s] "3.prems"(1) by simp
    moreover have "nodes_ok ((us @ [a]) @ as @ (b # bs) @ c # ws) s" using "3.prems"(1) by simp
    ultimately show ?thesis using "3.IH"(2) [OF False, of "us @ [a]" s] ne False by (subst merge_loop.simps) (simp add: call_less_def)
  next
    case True
    from merge_move [OF "3.prems"] obtain h where h: "list_next (Some b) s = Some (first_of bs (Some c), s)"
        "list_prev (first_of bs (Some c)) s = Some (Some b, s)"
        "list_splice (Some a) (Some b) (first_of bs (Some c)) s = Some (s\<lparr>links := h\<rparr>)"
        "nodes_ok ((us @ [b]) @ (a # as) @ bs @ c # ws) (s\<lparr>links := h\<rparr>)"
        "\<forall>x. x \<notin> set (us @ (a # as) @ (b # bs) @ c # ws) \<longrightarrow> h x = links s x" by blast
    from "3.IH"(1) [OF True h(4)] obtain h' where h':
        "merge_loop lt (Some a) (first_of bs (Some c)) (Some c) (s\<lparr>links := h\<rparr>) = Some (s\<lparr>links := h'\<rparr>)"
        "nodes_ok ((us @ [b]) @ merge_runs lt (a # as) bs @ c # ws) (s\<lparr>links := h'\<rparr>)"
        "\<forall>x. x \<notin> set ((us @ [b]) @ (a # as) @ bs @ c # ws) \<longrightarrow> h' x = h x" by auto
    have "merge_loop lt (Some a) (Some b) (Some c) s = Some (s\<lparr>links := h'\<rparr>)"
      using h(1-3) h'(1) ne True by (subst merge_loop.simps) (simp add: call_less_def)
    then show ?thesis using True h' h(5) by (intro exI [of _ h']) simp
  qed
qed

lemma inplace_merge_spec:
  assumes "nodes_ok (us @ as @ bs @ c # ws) s" and "us \<noteq> []" and "steps_up lt as" "steps_up lt bs"
  shows "\<exists>h. inplace_merge (first_of as (first_of bs (Some c))) (first_of bs (Some c)) (Some c) lt s = Some (s\<lparr>links := h\<rparr>) \<and>
     nodes_ok (us @ merge_runs lt as bs @ c # ws) (s\<lparr>links := h\<rparr>) \<and>
     (\<forall>x. x \<notin> set (us @ as @ bs @ c # ws) \<longrightarrow> h x = links s x)"
proof -
  obtain b bs' where b: "bs @ c # ws = b # bs'" by (cases "bs @ c # ws") auto
  have fb: "first_of bs (Some c) = Some b" using b by (cases bs) auto
  have "is_sorted (first_of as (first_of bs (Some c))) (first_of bs (Some c)) lt s = Some (True, s)"
    using is_sorted_spec [of us as b bs' s lt] assms b fb by simp
  moreover have "is_sorted (first_of bs (Some c)) (Some c) lt s = Some (True, s)"
    using is_sorted_spec [of "us @ as" bs c ws s lt] assms by simp
  ultimately show ?thesis
    using merge_loop_spec [OF assms(1,2), of lt] by (cases as) (simp_all add: inplace_merge_def fb)
qed

end
