(* ===== verification/List_Sorting.thy ===== *)
theory List_Sorting
  imports List_Refinement "HOL-Library.Multiset"
begin

text \<open>
  \<open>list_sort\<close> is a natural merge sort: each pass merges the runs of the list in pairs and at least halves their
  number, so the passes end, with the stable sort of the list.
\<close>

section \<open>A pass\<close>

lemma split_run_length: "split_run lt a vs = (r, q) \<Longrightarrow> length q \<le> length vs"
  by (induction lt a vs arbitrary: r q rule: split_run.induct) (force split: if_splits prod.splits)+

function merge_pass :: "less_func \<Rightarrow> nat list \<Rightarrow> nat \<times> nat list" where
  \<comment> \<open>the number of runs put out, and the list\<close>
  "merge_pass lt [] = (0, [])"
| "merge_pass lt (a # vs) =
     (case split_run lt a vs of (r, q) \<Rightarrow>
       (case q of [] \<Rightarrow> (1, r)
        | b # q' \<Rightarrow> (case split_run lt b q' of (r', q'') \<Rightarrow>
            (case merge_pass lt q'' of (k, ys) \<Rightarrow> (k + 1, merge_runs lt r r' @ ys)))))"
  by pat_completeness auto
termination
  by (relation "measure (\<lambda>(lt, vs). length vs)") (auto dest!: split_run_length [OF sym])

lemma pass_loop_spec:
  "nodes_ok (us @ vs @ [ltail l]) s \<Longrightarrow> us \<noteq> [] \<Longrightarrow>
   \<exists>h. pass_loop (Some l) lt (first_of vs (Some (ltail l))) n s = Some (n + fst (merge_pass lt vs), s\<lparr>links := h\<rparr>) \<and>
     nodes_ok (us @ snd (merge_pass lt vs) @ [ltail l]) (s\<lparr>links := h\<rparr>) \<and>
     (\<forall>x. x \<notin> set (us @ vs @ [ltail l]) \<longrightarrow> h x = links s x)"
proof (induction "length vs" arbitrary: vs us n s rule: less_induct)
  case less
  show ?case
  proof (cases vs)
    case Nil
    then show ?thesis using less.prems by (subst pass_loop.simps) (auto intro!: exI [of _ "links s"])
  next
    case (Cons a vs')
    obtain r q where rq: "split_run lt a vs' = (r, q)" by fastforce
    have rq': "r @ q = vs" using split_run_append [OF rq] Cons by simp
    obtain r0 where r: "steps_up lt r" "r = a # r0" using split_run_steps [OF rq] by blast
    have at: "a \<noteq> ltail l" using less.prems Cons by (auto simp: nodes_ok_def)
    have e1: "find_end_of_run (Some a) (Some (ltail l)) lt s = Some (first_of q (Some (ltail l)), s)"
      using find_end_spec [of us a vs' "ltail l" "[]" s lt r q] less.prems Cons rq by simp
    show ?thesis
    proof (cases q)
      case Nil
      then show ?thesis using less.prems Cons rq rq' at e1 r by (subst pass_loop.simps) (auto intro!: exI [of _ "links s"])
    next
      case q: (Cons b q')
      obtain r' q'' where rq2: "split_run lt b q' = (r', q'')" by fastforce
      have rq2': "r' @ q'' = q" using split_run_append [OF rq2] q by simp
      obtain r1 where r': "steps_up lt r'" "r' = b # r1" using split_run_steps [OF rq2] by blast
      have bt: "b \<noteq> ltail l" using less.prems rq' q by (auto simp: nodes_ok_def)
      have "nodes_ok ((us @ r) @ b # q' @ ltail l # []) s" using less.prems(1) q by (simp add: rq' [symmetric])
      from find_end_spec [OF this rq2] have e2: "find_end_of_run (Some b) (Some (ltail l)) lt s = Some (first_of q'' (Some (ltail l)), s)" .
      obtain c ws where c: "q'' @ [ltail l] = c # ws" by (cases "q'' @ [ltail l]") auto
      have fc: "first_of q'' (Some (ltail l)) = Some c" using c by (cases q'') auto
      have "nodes_ok (us @ r @ r' @ c # ws) s" using less.prems(1) rq' rq2' c by (metis append.assoc)
      from inplace_merge_spec [OF this less.prems(2) r(1) r'(1)] obtain h where
        h: "inplace_merge (Some a) (Some b) (Some c) lt s = Some (s\<lparr>links := h\<rparr>)"
          "nodes_ok ((us @ merge_runs lt r r') @ q'' @ [ltail l]) (s\<lparr>links := h\<rparr>)"
          "\<forall>x. x \<notin> set (us @ r @ r' @ c # ws) \<longrightarrow> h x = links s x"
        using r(2) r'(2) c by auto
      have "length q'' < length vs" using split_run_length [OF rq] split_run_length [OF rq2] q Cons by simp
      moreover have "us @ merge_runs lt r r' \<noteq> []" using less.prems(2) by simp
      ultimately obtain h' where h':
        "pass_loop (Some l) lt (Some c) (n + 1) (s\<lparr>links := h\<rparr>) = Some (n + 1 + fst (merge_pass lt q''), s\<lparr>links := h'\<rparr>)"
        "nodes_ok ((us @ merge_runs lt r r') @ snd (merge_pass lt q'') @ [ltail l]) (s\<lparr>links := h'\<rparr>)"
        "\<forall>x. x \<notin> set ((us @ merge_runs lt r r') @ q'' @ [ltail l]) \<longrightarrow> h' x = h x"
        using less.hyps [OF _ h(2), of "n + 1"] fc by auto
      have pass: "merge_pass lt vs = (fst (merge_pass lt q'') + 1, merge_runs lt r r' @ snd (merge_pass lt q''))"
        using Cons rq q rq2 by (simp split: prod.split)
      have all: "set (us @ vs @ [ltail l]) = set (us @ r @ r' @ c # ws)"
        "set ((us @ merge_runs lt r r') @ q'' @ [ltail l]) = set (us @ r @ r' @ c # ws)"
        using rq' [symmetric] rq2' [symmetric] arg_cong [OF c, of set] by (auto simp: set_merge_runs)
      have "pass_loop (Some l) lt (Some a) n s = Some (n + fst (merge_pass lt vs), s\<lparr>links := h'\<rparr>)"
        using e1 e2 h(1) h'(1) at bt q fc pass by (subst pass_loop.simps) simp
      then show ?thesis using h' h(3) pass Cons unfolding all by (intro exI [of _ h']) simp
    qed
  qed
qed

section \<open>Passes end\<close>

fun descents :: "less_func \<Rightarrow> nat list \<Rightarrow> nat" where
  \<comment> \<open>how often an element is less than the one before it\<close>
  "descents lt (x # y # zs) = (if lt y x then 1 else 0) + descents lt (y # zs)"
| "descents lt _ = 0"

lemma descents_steps: "descents lt xs = 0 \<longleftrightarrow> steps_up lt xs"
  by (induction lt xs rule: descents.induct) auto

lemma descents_Cons: "descents lt ys \<le> descents lt (y # ys)" "descents lt (y # ys) \<le> descents lt ys + 1"
  by (cases ys; simp)+

lemma descents_append: "descents lt (xs @ ys) \<le> descents lt xs + descents lt ys + 1"
proof (induction xs)
  case (Cons x xs)
  show ?case
  proof (cases xs)
    case Nil
    then show ?thesis using descents_Cons(2) [of lt x ys] by simp
  next
    case x: (Cons x' xs')
    then show ?thesis using Cons by simp
  qed
qed simp

lemma split_run_descents:
  "split_run lt a vs = (r, q) \<Longrightarrow> descents lt (a # vs) = (if q = [] then 0 else 1 + descents lt q)"
  by (induction lt a vs arbitrary: r q rule: split_run.induct) (auto split: if_splits prod.splits)

lemma pass_runs: "2 * fst (merge_pass lt vs) \<le> descents lt vs + 2"
proof (induction lt vs rule: merge_pass.induct)
  case (2 lt a vs)
  obtain r q where rq: "split_run lt a vs = (r, q)" by fastforce
  show ?case
  proof (cases q)
    case q: (Cons b q')
    obtain r' q'' where rq2: "split_run lt b q' = (r', q'')" by fastforce
    have IH: "2 * fst (merge_pass lt q'') \<le> descents lt q'' + 2" using 2 [OF rq [symmetric] q rq2 [symmetric]] .
    have "fst (merge_pass lt (a # vs)) = fst (merge_pass lt q'') + 1" using rq q rq2 by (simp split: prod.split)
    moreover have "descents lt (a # vs) = (if q'' = [] then 1 else 2 + descents lt q'')"
      using split_run_descents [OF rq] split_run_descents [OF rq2] q by simp
    moreover have "fst (merge_pass lt q'') = 0" if "q'' = []" using that by simp
    ultimately show ?thesis using IH by (cases "q'' = []") (simp_all del: merge_pass.simps(2))
  qed (use rq in simp)
qed simp

definition key_less :: "(nat \<Rightarrow> 'k :: linorder) \<Rightarrow> less_func" where
  "key_less key a b \<longleftrightarrow> key a < key b"

lemma steps_sorted: "steps_up (key_less key) xs \<longleftrightarrow> sorted (map key xs)"
  by (induction "key_less key" xs rule: steps_up.induct) (auto simp: key_less_def not_less intro: order_trans)

lemma merge_sorted:
  "sorted (map key as) \<Longrightarrow> sorted (map key bs) \<Longrightarrow> sorted (map key (merge_runs (key_less key) as bs))"
  by (induction "key_less key" as bs rule: merge_runs.induct) (auto simp: set_merge_runs key_less_def)

lemma merge_mset: "mset (merge_runs lt as bs) = mset as + mset bs"
  by (induction lt as bs rule: merge_runs.induct) auto

lemma merge_stable:
  assumes "sorted (map key as)"
  shows "filter (\<lambda>x. k = key x) (merge_runs (key_less key) as bs) = filter (\<lambda>x. k = key x) (as @ bs)"
  using assms
proof (induction "key_less key" as bs rule: merge_runs.induct)
  case (3 a as b bs)
  show ?case
  proof (cases "key_less key b a")
    case True
    then have "k = key b \<Longrightarrow> filter (\<lambda>x. k = key x) (a # as) = []"
      using 3(3) by (fastforce simp: key_less_def filter_empty_conv)
    then show ?thesis using 3(1) [OF True 3(3)] True by auto
  next
    case False
    then show ?thesis using 3(2) [OF False] 3(3) by auto
  qed
qed auto

lemma pass_props:
  fixes key :: "nat \<Rightarrow> 'k :: linorder"
  assumes "merge_pass (key_less key) vs = (k, ys)"
  shows "mset ys = mset vs" and "filter (\<lambda>x. c = key x) ys = filter (\<lambda>x. c = key x) vs"
    and "vs \<noteq> [] \<Longrightarrow> descents (key_less key) ys < k"
proof -
  have "mset ys = mset vs \<and> filter (\<lambda>x. c = key x) ys = filter (\<lambda>x. c = key x) vs \<and> (vs \<noteq> [] \<longrightarrow> descents (key_less key) ys < k)"
    using assms
  proof (induction "key_less key" vs arbitrary: k ys rule: merge_pass.induct)
    case (2 a vs)
    obtain r q where rq: "split_run (key_less key) a vs = (r, q)" by fastforce
    have r: "steps_up (key_less key) r" using split_run_steps [OF rq] by blast
    show ?case
    proof (cases q)
      case Nil
      then show ?thesis using 2(2) rq split_run_append [OF rq] r descents_steps [of "key_less key" r] by auto
    next
      case q: (Cons b q')
      obtain r' q'' where rq2: "split_run (key_less key) b q' = (r', q'')" by fastforce
      obtain k' ys' where p: "merge_pass (key_less key) q'' = (k', ys')" by fastforce
      have r': "steps_up (key_less key) r'" using split_run_steps [OF rq2] by blast
      have ys: "k = k' + 1" "ys = merge_runs (key_less key) r r' @ ys'" using 2(2) rq q rq2 p by simp_all
      have vs: "a # vs = r @ r' @ q''" using split_run_append [OF rq] split_run_append [OF rq2] q by simp
      note IH = 2(1) [OF rq [symmetric] q rq2 [symmetric] p]
      have "sorted (map key (merge_runs (key_less key) r r'))" using merge_sorted r r' steps_sorted by blast
      then have "descents (key_less key) (merge_runs (key_less key) r r') = 0" using descents_steps steps_sorted by blast
      then have "descents (key_less key) ys \<le> descents (key_less key) ys' + 1"
        using descents_append [of "key_less key" "merge_runs (key_less key) r r'" ys'] ys(2) by simp
      moreover have "descents (key_less key) ys = 0" if "q'' = []"
        using that p ys(2) \<open>descents (key_less key) (merge_runs (key_less key) r r') = 0\<close> by simp
      ultimately have "descents (key_less key) ys < k" using IH ys(1) by (cases "q'' = []") auto
      moreover have "sorted (map key r)" using r steps_sorted by blast
      ultimately show ?thesis using IH ys(2) vs merge_mset merge_stable [of key r c r'] by simp
    qed
  qed simp
  then show "mset ys = mset vs" "filter (\<lambda>x. c = key x) ys = filter (\<lambda>x. c = key x) vs" "vs \<noteq> [] \<Longrightarrow> descents (key_less key) ys < k"
    by simp_all
qed

section \<open>The sort\<close>

lemma sort_loop_spec:
  "is_list l vs s \<Longrightarrow> \<exists>h. sort_loop (Some l) (key_less key) s = Some (s\<lparr>links := h\<rparr>) \<and>
     is_list l (sort_key key vs) (s\<lparr>links := h\<rparr>) \<and> (\<forall>x. x \<notin> set (lhead l # vs @ [ltail l]) \<longrightarrow> h x = links s x)"
proof (induction "descents (key_less key) vs" arbitrary: vs s rule: less_induct)
  case less
  obtain k ys where p: "merge_pass (key_less key) vs = (k, ys)" by fastforce
  have b: "list_begin (Some l) s = Some (first_of vs (Some (ltail l)), s)" by (rule list_begin_spec [OF less.prems])
  have "nodes_ok ([lhead l] @ vs @ [ltail l]) s" using less.prems by (simp add: is_list_def)
  from pass_loop_spec [OF this, of "key_less key" 0] p obtain h where
    h: "pass_loop (Some l) (key_less key) (first_of vs (Some (ltail l))) 0 s = Some (k, s\<lparr>links := h\<rparr>)"
      "is_list l ys (s\<lparr>links := h\<rparr>)" "\<forall>x. x \<notin> set (lhead l # vs @ [ltail l]) \<longrightarrow> h x = links s x"
    by (auto simp: is_list_def)
  have set: "set ys = set vs" using pass_props(1) [OF p] by (metis set_mset_mset)
  show ?case
  proof (cases "k > 1")
    case True
    then have "vs \<noteq> []" using p by auto
    then have "descents (key_less key) ys < k" by (rule pass_props(3) [OF p])
    then have "descents (key_less key) ys < descents (key_less key) vs"
      using pass_runs [of "key_less key" vs] p True by simp
    from less.hyps [OF this h(2)] obtain h' where
      h': "sort_loop (Some l) (key_less key) (s\<lparr>links := h\<rparr>) = Some (s\<lparr>links := h'\<rparr>)"
        "is_list l (sort_key key ys) (s\<lparr>links := h'\<rparr>)" "\<forall>x. x \<notin> set (lhead l # ys @ [ltail l]) \<longrightarrow> h' x = h x" by auto
    have st: "filter (\<lambda>x. c = key x) (sort_key key zs) = filter (\<lambda>x. c = key x) zs" for c and zs :: "nat list"
      using sort_key_stable [of key c zs] by (simp add: eq_commute)
    have "sort_key key vs = sort_key key ys"
      by (rule properties_for_sort_key) (use pass_props(1,2) [OF p] in \<open>simp_all add: st\<close>)
    then show ?thesis using b h h' True set by (intro exI [of _ h']) (subst sort_loop.simps, simp)
  next
    case False
    have "descents (key_less key) ys = 0" using pass_props(3) [OF p] False p by (cases vs) auto
    then have "sorted (map key ys)" using descents_steps steps_sorted by blast
    then have "sort_key key vs = ys"
      using pass_props(1,2) [OF p] by (intro properties_for_sort_key) auto
    then show ?thesis using b h False by (intro exI [of _ h]) (subst sort_loop.simps, simp)
  qed
qed

end
