(* ===== verification/List_Operations.thy ===== *)
theory List_Operations
  imports List_Sorting
begin

text \<open>
  The other operations of \<open>list.c\<close> on well-formed lists: reversal, insertion and removal, duplicates, the largest and
  the smallest element.
\<close>

section \<open>Reversal\<close>

lemma swap_links_spec:
  assumes "links s a = Some \<lparr>le_prev = p, le_next = n\<rparr>"
  shows "swap_links (Some a) s = Some (s\<lparr>links := (links s)(a \<mapsto> \<lparr>le_prev = n, le_next = p\<rparr>)\<rparr>)"
  using assms by (simp add: swap_links_def link_values) (simp add: upd_next_def upd_prev_def)

lemma reverse_loop_spec:
  assumes "distinct (ds @ ws @ [ltail l])" and "chain (first_of ws (Some (ltail l))) (rev ds) b (links s)"
    and "chain (last_of b ds) ws (Some (ltail l)) (links s)"
  shows "\<exists>h. reverse_loop (Some l) (first_of ws (Some (ltail l))) s = Some (s\<lparr>links := h\<rparr>) \<and>
    chain (Some (ltail l)) (rev (ds @ ws)) b h \<and> (\<forall>x. x \<notin> set ws \<longrightarrow> h x = links s x)"
  using assms
proof (induction ws arbitrary: ds s)
  case Nil
  then show ?case by (subst reverse_loop.simps) (auto intro!: exI [of _ "links s"])
next
  case (Cons w ws)
  have w: "links s w = Some \<lparr>le_prev = last_of b ds, le_next = first_of ws (Some (ltail l))\<rparr>" using Cons.prems(3) by simp
  let ?h = "(links s)(w \<mapsto> \<lparr>le_prev = first_of ws (Some (ltail l)), le_next = last_of b ds\<rparr>)"
  have notin: "w \<notin> set ds" "w \<notin> set ws" "w \<noteq> ltail l" using Cons.prems(1) by auto
  have "first_of (rev ds) b = last_of b ds" by (cases ds rule: rev_cases) auto
  moreover have "chain (Some w) (rev ds) b ?h" using Cons.prems(2) notin by (subst chain_frame [of _ _ "links s"]) auto
  ultimately have B: "chain (first_of ws (Some (ltail l))) (rev (ds @ [w])) b (links (s\<lparr>links := ?h\<rparr>))" by simp
  have C: "chain (last_of b (ds @ [w])) ws (Some (ltail l)) (links (s\<lparr>links := ?h\<rparr>))"
    using Cons.prems(3) notin by (simp, subst chain_frame [of _ _ "links s"]) auto
  have "distinct ((ds @ [w]) @ ws @ [ltail l])" using Cons.prems(1) by simp
  from Cons.IH [OF this B C] obtain h' where h': "reverse_loop (Some l) (first_of ws (Some (ltail l))) (s\<lparr>links := ?h\<rparr>) = Some (s\<lparr>links := h'\<rparr>)"
      "chain (Some (ltail l)) (rev (ds @ w # ws)) b h'" "\<forall>x. x \<notin> set ws \<longrightarrow> h' x = ?h x"
    by (auto simp del: chain_append)
  have "prev_of (Some w) (s\<lparr>links := ?h\<rparr>) = Some (first_of ws (Some (ltail l)))" by (simp add: link_values)
  then have "reverse_loop (Some l) (Some w) s = Some (s\<lparr>links := h'\<rparr>)"
    using swap_links_spec [OF w] h'(1) notin(3) by (subst reverse_loop.simps) simp
  then show ?case using h' notin by (intro exI [of _ h']) auto
qed

lemma of_upd_same [simp]:
  "next_of (Some x) (s\<lparr>links := upd_next x q h\<rparr>) = Some q"
  "prev_of (Some x) (s\<lparr>links := upd_prev x q h\<rparr>) = Some q"
  by (simp_all add: next_of_def prev_of_def elem_at_def upd_next_def upd_prev_def)

lemma list_reverse_spec:
  assumes "is_list l xs s"
  shows "\<exists>h. list_reverse (Some l) s = Some (s\<lparr>links := h\<rparr>) \<and> is_list l (rev xs) (s\<lparr>links := h\<rparr>) \<and>
    (\<forall>x. x \<notin> set (lhead l # xs @ [ltail l]) \<longrightarrow> h x = links s x)"
proof (cases xs)
  case Nil
  then show ?thesis using assms list_empty_spec [OF assms] by (auto simp: list_reverse_def intro!: exI [of _ "links s"])
next
  case (Cons a as)
  obtain bs z where z: "xs = bs @ [z]" using Cons by (metis append_butlast_last_id list.discI)
  have d: "distinct (lhead l # xs @ [ltail l])" and c: "chain None (lhead l # xs @ [ltail l]) None (links s)"
    using assms by (simp_all add: is_list_def nodes_ok_def)
  have "chain (Some (lhead l)) xs (Some (ltail l)) (links s)" using c by simp
  then obtain h where h: "reverse_loop (Some l) (first_of xs (Some (ltail l))) s = Some (s\<lparr>links := h\<rparr>)"
      "chain (Some (ltail l)) (rev xs) (Some (lhead l)) h" "\<forall>x. x \<notin> set xs \<longrightarrow> h x = links s x"
    using reverse_loop_spec [of "[]" xs l "Some (lhead l)" s] d by auto
  have hh: "h (lhead l) = Some \<lparr>le_prev = None, le_next = Some a\<rparr>" "h (ltail l) = Some \<lparr>le_prev = Some z, le_next = None\<rparr>"
    using h(3) d c Cons by (simp, simp add: z)
  have ends: "h z = Some \<lparr>le_prev = Some (ltail l), le_next = first_of (rev bs) (Some (lhead l))\<rparr>"
      "h a = Some \<lparr>le_prev = last_of (Some (ltail l)) (rev as), le_next = Some (lhead l)\<rparr>"
    using h(2) by (simp add: z, simp add: Cons)
  let ?h1 = "upd_next (lhead l) (Some z) h" let ?h2 = "upd_prev (ltail l) (Some a) ?h1"
  let ?h3 = "upd_prev z (Some (lhead l)) ?h2" let ?h4 = "upd_next a (Some (ltail l)) ?h3"
  have ne: "lhead l \<noteq> ltail l" "a \<noteq> lhead l" "a \<noteq> ltail l" "z \<noteq> lhead l" "z \<noteq> ltail l"
  proof -
    have "a \<in> set xs" "z \<in> set xs" by (simp add: Cons, simp add: z)
    then show "lhead l \<noteq> ltail l" "a \<noteq> lhead l" "a \<noteq> ltail l" "z \<noteq> lhead l" "z \<noteq> ltail l" using d by auto
  qed
  have run: "list_reverse (Some l) s = Some (s\<lparr>links := ?h4\<rparr>)"
    using list_empty_spec [OF assms] list_begin_spec [OF assms] h(1) hh ends ne Cons
    by (simp add: list_reverse_def link_values)
  have m: "chain (Some (lhead l)) (rev xs) (Some (ltail l)) ?h4"
  proof -
    have "distinct xs" using d by simp
    then have "z \<notin> set (rev bs)" "a \<notin> set (rev as)" by (simp add: z, simp add: Cons)
    have rz: "z # rev bs = rev xs" and ra: "rev xs = rev as @ [a]" by (simp add: z, simp add: Cons)
    have "chain (Some (ltail l)) (rev xs) (Some (lhead l)) ?h2" using h(2) d by simp
    then have "chain (Some (ltail l)) (z # rev bs) (Some (lhead l)) ?h2" by (simp only: rz)
    from chain_upd_first [OF this \<open>z \<notin> set (rev bs)\<close>, of "Some (lhead l)"]
    have "chain (Some (lhead l)) (rev as @ [a]) (Some (lhead l)) ?h3" by (simp only: rz ra)
    from chain_upd_last [OF this \<open>a \<notin> set (rev as)\<close>, of "Some (ltail l)"] show ?thesis by (simp only: ra)
  qed
  have new: "?h4 (lhead l) = Some \<lparr>le_prev = None, le_next = Some z\<rparr>" "?h4 (ltail l) = Some \<lparr>le_prev = Some a, le_next = None\<rparr>"
    using hh ne by (simp_all, simp_all add: upd_next_def upd_prev_def)
  have "first_of (rev xs) q = Some z" "last_of q (rev xs) = Some a" for q by (simp add: z, simp add: Cons)
  then have "chain None (lhead l # rev xs @ [ltail l]) None ?h4" using m new by simp
  moreover have "?h4 x = links s x" if "x \<notin> set (lhead l # xs @ [ltail l])" for x
  proof -
    have "x \<noteq> lhead l" "x \<noteq> ltail l" "x \<noteq> z" "x \<noteq> a" "x \<notin> set xs" using that by (simp_all, simp add: z, simp add: Cons)
    then show ?thesis using h(3) by simp
  qed
  moreover have "distinct (lhead l # rev xs @ [ltail l])" using d by auto
  ultimately show ?thesis using run by (intro exI [of _ ?h4]) (simp add: is_list_def nodes_ok_def)
qed

section \<open>Insertion and removal\<close>

definition outside :: "elem_list \<Rightarrow> nat list \<Rightarrow> 'a elems_scheme \<Rightarrow> nat \<Rightarrow> bool" where
  \<comment> \<open>an element that exists and is not in the list\<close>
  "outside l xs s e \<longleftrightarrow> links s e \<noteq> None \<and> e \<notin> set (lhead l # xs @ [ltail l])"

definition unchanged :: "elem_list \<Rightarrow> nat list \<Rightarrow> 'a elems_scheme \<Rightarrow> (nat \<rightharpoonup> list_elem) \<Rightarrow> bool" where
  \<comment> \<open>the elements that are neither in the list nor its headers\<close>
  "unchanged l xs s h \<longleftrightarrow> (\<forall>x. x \<notin> set (lhead l # xs @ [ltail l]) \<longrightarrow> h x = links s x)"

lemma last_node_split: "\<exists>as a. lhead l # xs = as @ [a]"
  by (metis append_butlast_last_id list.discI)

lemma insert_at:
  assumes "is_list l (xs @ ys) s" and "outside l (xs @ ys) s e"
  shows "\<exists>h. list_insert (first_of ys (Some (ltail l))) (Some e) s = Some (s\<lparr>links := h\<rparr>) \<and>
    is_list l (xs @ e # ys) (s\<lparr>links := h\<rparr>) \<and> unchanged l (xs @ e # ys) s h"
proof -
  obtain as a where a: "lhead l # xs = as @ [a]" using last_node_split by blast
  obtain b bs where b: "ys @ [ltail l] = b # bs" by (cases "ys @ [ltail l]") auto
  have fb: "first_of ys (Some (ltail l)) = Some b" using b by (cases ys) auto
  have all: "as @ a # b # bs = lhead l # (xs @ ys) @ [ltail l]" "as @ a # e # b # bs = lhead l # (xs @ e # ys) @ [ltail l]"
    using a b by (metis append.assoc append_Cons append_Nil)+
  from insert_spec [of as a b bs s e] show ?thesis
    using assms unfolding is_list_def outside_def unchanged_def all fb by blast
qed

lemma remove_at:
  assumes "is_list l (xs @ e # ys) s"
  shows "\<exists>h. list_remove (Some e) s = Some (first_of ys (Some (ltail l)), s\<lparr>links := h\<rparr>) \<and>
    is_list l (xs @ ys) (s\<lparr>links := h\<rparr>) \<and> outside l (xs @ ys) (s\<lparr>links := h\<rparr>) e \<and> unchanged l (xs @ ys) s h"
proof -
  obtain as a where a: "lhead l # xs = as @ [a]" using last_node_split by blast
  obtain b bs where b: "ys @ [ltail l] = b # bs" by (cases "ys @ [ltail l]") auto
  have fb: "first_of ys (Some (ltail l)) = Some b" using b by (cases ys) auto
  have all: "as @ a # b # bs = lhead l # (xs @ ys) @ [ltail l]" "as @ a # e # b # bs = lhead l # (xs @ e # ys) @ [ltail l]"
    using a b by (metis append.assoc append_Cons append_Nil)+
  have ok: "nodes_ok (as @ a # e # b # bs) s" using assms unfolding is_list_def all .
  then have e: "links s e \<noteq> None" "e \<notin> set (as @ a # b # bs)" by (auto simp: nodes_ok_def)
  from remove_spec [OF ok] obtain h where "list_remove (Some e) s = Some (Some b, s\<lparr>links := h\<rparr>)"
      "nodes_ok (as @ a # b # bs) (s\<lparr>links := h\<rparr>)" "h e = links s e" "\<forall>x. x \<notin> set (as @ a # b # bs) \<longrightarrow> h x = links s x" by blast
  then show ?thesis using e unfolding is_list_def outside_def unchanged_def all fb by auto
qed

lemma push_front_spec:
  assumes "is_list l xs s" and "outside l xs s e"
  shows "\<exists>h. list_push_front (Some l) (Some e) s = Some (s\<lparr>links := h\<rparr>) \<and> is_list l (e # xs) (s\<lparr>links := h\<rparr>) \<and> unchanged l (e # xs) s h"
  using insert_at [of l "[]" xs s e] list_begin_spec [OF assms(1)] assms by (simp add: list_push_front_def)

lemma push_back_spec:
  assumes "is_list l xs s" and "outside l xs s e"
  shows "\<exists>h. list_push_back (Some l) (Some e) s = Some (s\<lparr>links := h\<rparr>) \<and> is_list l (xs @ [e]) (s\<lparr>links := h\<rparr>) \<and> unchanged l (xs @ [e]) s h"
  using insert_at [of l xs "[]" s e] assms by (simp add: list_push_back_def)

lemma list_front_spec: "is_list l (x # xs) s \<Longrightarrow> list_front (Some l) s = Some (Some x, s)"
  using list_empty_spec [of l "x # xs" s] by (auto simp: list_front_def is_list_def nodes_ok_def link_values)

lemma list_back_spec:
  assumes "is_list l (xs @ [x]) s"
  shows "list_back (Some l) s = Some (Some x, s)"
proof -
  have "links s (ltail l) = Some \<lparr>le_prev = Some x, le_next = None\<rparr>" using assms by (simp add: is_list_def nodes_ok_def)
  then show ?thesis using list_empty_spec [OF assms] by (simp add: list_back_def link_values)
qed

lemma pop_front_spec:
  assumes "is_list l (x # xs) s"
  shows "\<exists>h. list_pop_front (Some l) s = Some (Some x, s\<lparr>links := h\<rparr>) \<and> is_list l xs (s\<lparr>links := h\<rparr>) \<and>
    outside l xs (s\<lparr>links := h\<rparr>) x \<and> unchanged l xs s h"
  using remove_at [of l "[]" x xs s] list_front_spec [OF assms] assms by (auto simp: list_pop_front_def)

lemma pop_back_spec:
  assumes "is_list l (xs @ [x]) s"
  shows "\<exists>h. list_pop_back (Some l) s = Some (Some x, s\<lparr>links := h\<rparr>) \<and> is_list l xs (s\<lparr>links := h\<rparr>) \<and>
    outside l xs (s\<lparr>links := h\<rparr>) x \<and> unchanged l xs s h"
  using remove_at [of l xs x "[]" s] list_back_spec [OF assms] assms by (auto simp: list_pop_back_def)

section \<open>Ordered insertion\<close>

lemma position_loop_spec:
  "is_list l (us @ ws) s \<Longrightarrow> position_loop (Some l) (Some e) lt (first_of ws (Some (ltail l))) s =
     Some (first_of (dropWhile (\<lambda>x. \<not> lt e x) ws) (Some (ltail l)), s)"
proof (induction ws arbitrary: us)
  case Nil
  then show ?case by (subst position_loop.simps) simp
next
  case (Cons w ws)
  have "w \<noteq> ltail l" using Cons.prems by (auto simp: is_list_def nodes_ok_def)
  moreover have "list_next (Some w) s = Some (first_of ws (Some (ltail l)), s)"
    using nav_next_of [of "lhead l # us" w "ws @ [ltail l]" s] Cons.prems by (simp add: is_list_def)
  ultimately show ?case using Cons.IH [of "us @ [w]"] Cons.prems by (subst position_loop.simps) (simp add: call_less_def)
qed

lemma insert_ordered_spec:
  assumes "is_list l xs s" and "outside l xs s e"
  shows "\<exists>h. list_insert_ordered (Some l) (Some e) lt s = Some (s\<lparr>links := h\<rparr>) \<and>
    is_list l (takeWhile (\<lambda>x. \<not> lt e x) xs @ e # dropWhile (\<lambda>x. \<not> lt e x) xs) (s\<lparr>links := h\<rparr>) \<and> unchanged l (e # xs) s h"
proof -
  let ?a = "takeWhile (\<lambda>x. \<not> lt e x) xs" and ?b = "dropWhile (\<lambda>x. \<not> lt e x) xs"
  have "xs = ?a @ ?b" by simp
  from insert_at [of l ?a ?b s e, folded this, OF assms] obtain h where
    h: "list_insert (first_of ?b (Some (ltail l))) (Some e) s = Some (s\<lparr>links := h\<rparr>)"
      "is_list l (?a @ e # ?b) (s\<lparr>links := h\<rparr>)" "unchanged l (?a @ e # ?b) s h" by blast
  moreover have "unchanged l (e # xs) s h"
    using h(3) set_takeWhileD [of _ "\<lambda>x. \<not> lt e x" xs] set_dropWhileD [of _ "\<lambda>x. \<not> lt e x" xs] by (fastforce simp: unchanged_def)
  ultimately show ?thesis
    using position_loop_spec [of l "[]" xs s e lt] list_begin_spec [OF assms(1)] assms(1)
    by (intro exI [of _ h]) (simp add: list_insert_ordered_def)
qed

lemma insert_ordered_sort_key:
  "sorted (map key xs) \<Longrightarrow>
   takeWhile (\<lambda>x. \<not> key_less key e x) xs @ e # dropWhile (\<lambda>x. \<not> key_less key e x) xs = sort_key key (xs @ [e])"
proof -
  assume s: "sorted (map key xs)"
  let ?a = "takeWhile (\<lambda>x. \<not> key_less key e x) xs" and ?b = "dropWhile (\<lambda>x. \<not> key_less key e x) xs"
  have xs: "xs = ?a @ ?b" by simp
  have a: "\<forall>x \<in> set ?a. key x \<le> key e" by (auto simp: key_less_def dest: set_takeWhileD)
  have b: "\<forall>x \<in> set ?b. key e < key x"
  proof (cases ?b)
    case (Cons y ys)
    then have "key e < key y" using hd_dropWhile [of "\<lambda>x. \<not> key_less key e x" xs] by (simp add: key_less_def)
    moreover have "sorted (map key ?b)" using s by (metis sorted_append map_append xs)
    ultimately show ?thesis unfolding Cons by auto
  next
    case Nil
    show ?thesis unfolding Nil by simp
  qed
  show ?thesis
  proof (rule properties_for_sort_key [symmetric])
    show "mset (?a @ e # ?b) = mset (xs @ [e])" using mset_append [of ?a ?b, unfolded takeWhile_dropWhile_id] by simp
    have "sorted (map key ?a)" "sorted (map key ?b)" using s by (metis sorted_append map_append xs)+
    then show "sorted (map key (?a @ e # ?b))" using a b by (fastforce simp: sorted_append intro: less_imp_le order_trans)
    fix k assume "k \<in> set (?a @ e # ?b)"
    have "filter (\<lambda>x. key k = key x) ?b = []" if "key k = key e" using b that by (auto simp: filter_empty_conv)
    then show "filter (\<lambda>x. key k = key x) (?a @ e # ?b) = filter (\<lambda>x. key k = key x) (xs @ [e])"
      using filter_append [of "\<lambda>x. key k = key x" ?a ?b, unfolded takeWhile_dropWhile_id] by simp
  qed
qed

section \<open>Duplicates\<close>

fun uniques :: "less_func \<Rightarrow> nat \<Rightarrow> nat list \<Rightarrow> nat list \<times> nat list" where
  \<comment> \<open>what stays of \<open>x\<close> and the elements behind it, and what is taken out\<close>
  "uniques lt x [] = ([x], [])"
| "uniques lt x (y # ys) =
     (if \<not> lt x y \<and> \<not> lt y x then (case uniques lt x ys of (r, d) \<Rightarrow> (r, y # d))
      else (case uniques lt y ys of (r, d) \<Rightarrow> (x # r, d)))"

lemma is_list_frame:
  assumes "is_list l xs s" and "\<forall>x \<in> set (lhead l # xs @ [ltail l]). h x = links s x"
  shows "is_list l xs (s\<lparr>links := h\<rparr>)"
  using assms chain_frame [of "lhead l # xs @ [ltail l]" h "links s" None None] unfolding is_list_def nodes_ok_def
  by (simp del: chain_append chain.simps)

definition apart :: "elem_list \<Rightarrow> nat list \<Rightarrow> elem_list \<Rightarrow> nat list \<Rightarrow> bool" where
  "apart l xs d ds \<longleftrightarrow> set (lhead l # xs @ [ltail l]) \<inter> set (lhead d # ds @ [ltail d]) = {}"

lemma unchanged_apart:
  "unchanged l xs s h \<Longrightarrow> apart l xs d ds \<Longrightarrow> \<forall>x \<in> set (lhead d # ds @ [ltail d]). h x = links s x"
  "unchanged d ds s h \<Longrightarrow> apart l xs d ds \<Longrightarrow> \<forall>x \<in> set (lhead l # xs @ [ltail l]). h x = links s x"
  unfolding unchanged_def apart_def by blast+

lemma move_to_end:
  assumes l: "is_list l (us @ y # ys) s" and d: "is_list d ds s" and ap: "apart l (us @ y # ys) d ds"
  shows "\<exists>h1 h2. list_remove (Some y) s = Some (first_of ys (Some (ltail l)), s\<lparr>links := h1\<rparr>) \<and>
    list_push_back (Some d) (Some y) (s\<lparr>links := h1\<rparr>) = Some (s\<lparr>links := h2\<rparr>) \<and>
    is_list l (us @ ys) (s\<lparr>links := h2\<rparr>) \<and> is_list d (ds @ [y]) (s\<lparr>links := h2\<rparr>) \<and> apart l (us @ ys) d (ds @ [y])"
proof -
  from remove_at [OF l] obtain h1 where h1: "list_remove (Some y) s = Some (first_of ys (Some (ltail l)), s\<lparr>links := h1\<rparr>)"
      "is_list l (us @ ys) (s\<lparr>links := h1\<rparr>)" "outside l (us @ ys) (s\<lparr>links := h1\<rparr>) y" "unchanged l (us @ ys) s h1" by blast
  have d1: "is_list d ds (s\<lparr>links := h1\<rparr>)"
    by (rule is_list_frame [OF d unchanged_apart(1) [OF h1(4)]]) (use ap in \<open>simp add: apart_def\<close>)
  have "outside d ds (s\<lparr>links := h1\<rparr>) y" using h1(3) ap by (auto simp: outside_def apart_def)
  from push_back_spec [OF d1 this] obtain h2 where h2: "list_push_back (Some d) (Some y) (s\<lparr>links := h1\<rparr>) = Some (s\<lparr>links := h2\<rparr>)"
      "is_list d (ds @ [y]) (s\<lparr>links := h2\<rparr>)" "unchanged d (ds @ [y]) (s\<lparr>links := h1\<rparr>) h2" by auto
  have ap2: "apart l (us @ ys) d (ds @ [y])" using ap h1(3) by (auto simp: apart_def outside_def)
  have "is_list l (us @ ys) ((s\<lparr>links := h1\<rparr>)\<lparr>links := h2\<rparr>)"
    by (rule is_list_frame [OF h1(2) unchanged_apart(2) [OF h2(3) ap2]])
  then show ?thesis using h1(1) h2 ap2 by auto
qed

lemma unique_loop_spec:
  assumes "is_list l (us @ x # ys) s" and "is_list d ds s" and "apart l (us @ x # ys) d ds"
  shows "\<exists>h. unique_loop (Some l) (Some d) lt (Some x) s = Some (s\<lparr>links := h\<rparr>) \<and>
    is_list l (us @ fst (uniques lt x ys)) (s\<lparr>links := h\<rparr>) \<and> is_list d (ds @ snd (uniques lt x ys)) (s\<lparr>links := h\<rparr>)"
  using assms
proof (induction ys arbitrary: us x ds s)
  case Nil
  have "list_next (Some x) s = Some (Some (ltail l), s)"
    using nav_next_of [of "lhead l # us" x "[ltail l]" s] Nil by (simp add: is_list_def)
  then show ?case using Nil by (subst unique_loop.simps) (auto intro!: exI [of _ "links s"])
next
  case (Cons y ys)
  have n: "list_next (Some x) s = Some (Some y, s)" "y \<noteq> ltail l"
    using nav_next_of [of "lhead l # us" x "y # ys @ [ltail l]" s] Cons.prems by (auto simp: is_list_def nodes_ok_def)
  show ?case
  proof (cases "\<not> lt x y \<and> \<not> lt y x")
    case True
    have l: "is_list l ((us @ [x]) @ y # ys) s" "apart l ((us @ [x]) @ y # ys) d ds" using Cons.prems by simp_all
    from move_to_end [OF l(1) Cons.prems(2) l(2)] obtain h1 h2 where
      h: "list_remove (Some y) s = Some (first_of ys (Some (ltail l)), s\<lparr>links := h1\<rparr>)"
        "list_push_back (Some d) (Some y) (s\<lparr>links := h1\<rparr>) = Some (s\<lparr>links := h2\<rparr>)"
        "is_list l (us @ x # ys) (s\<lparr>links := h2\<rparr>)" "is_list d (ds @ [y]) (s\<lparr>links := h2\<rparr>)" "apart l (us @ x # ys) d (ds @ [y])" by auto
    from Cons.IH [OF h(3-5)] obtain h3 where h3: "unique_loop (Some l) (Some d) lt (Some x) (s\<lparr>links := h2\<rparr>) = Some (s\<lparr>links := h3\<rparr>)"
        "is_list l (us @ fst (uniques lt x ys)) (s\<lparr>links := h3\<rparr>)" "is_list d ((ds @ [y]) @ snd (uniques lt x ys)) (s\<lparr>links := h3\<rparr>)"
      by (auto simp del: append.assoc)
    have "unique_loop (Some l) (Some d) lt (Some x) s = Some (s\<lparr>links := h3\<rparr>)"
      using n True h(1,2) h3(1) by (subst unique_loop.simps) (simp add: call_less_def)
    then show ?thesis using h3 True by (cases "uniques lt x ys", intro exI [of _ h3]) simp
  next
    case False
    have l: "is_list l ((us @ [x]) @ y # ys) s" "apart l ((us @ [x]) @ y # ys) d ds" using Cons.prems by simp_all
    from Cons.IH [OF l(1) Cons.prems(2) l(2)] obtain h where h: "unique_loop (Some l) (Some d) lt (Some y) s = Some (s\<lparr>links := h\<rparr>)"
      "is_list l (us @ x # fst (uniques lt y ys)) (s\<lparr>links := h\<rparr>)" "is_list d (ds @ snd (uniques lt y ys)) (s\<lparr>links := h\<rparr>)" by auto
    have "unique_loop (Some l) (Some d) lt (Some x) s = Some (s\<lparr>links := h\<rparr>)"
      using n False h(1) by (subst unique_loop.simps) (auto simp: call_less_def)
    then show ?thesis using h False by (cases "uniques lt y ys", intro exI [of _ h]) auto
  qed
qed

section \<open>The largest and the smallest element\<close>

lemma best_loop_spec:
  assumes "is_list l (us @ ws) s" and "\<And>a b. better (Some a) (Some b) = Some (f a b)"
  shows "best_loop (Some l) better (Some m) (first_of ws (Some (ltail l))) s =
    Some (Some (foldl (\<lambda>m e. if f m e then e else m) m ws), s)"
  using assms(1)
proof (induction ws arbitrary: us m)
  case Nil
  then show ?case by (subst best_loop.simps) simp
next
  case (Cons w ws)
  have "w \<noteq> ltail l" using Cons.prems by (auto simp: is_list_def nodes_ok_def)
  moreover have "list_next (Some w) s = Some (first_of ws (Some (ltail l)), s)"
    using nav_next_of [of "lhead l # us" w "ws @ [ltail l]" s] Cons.prems by (simp add: is_list_def)
  ultimately show ?case using Cons.IH [of "us @ [w]"] Cons.prems assms(2) by (subst best_loop.simps) auto
qed

lemma best_spec:
  assumes "is_list l (x # xs) s" and "\<And>a b. better (Some a) (Some b) = Some (f a b)"
  shows "do { (m, s) \<leftarrow> list_begin (Some l) s; (t, s) \<leftarrow> list_end (Some l) s;
      if m \<noteq> t then do { (e, s) \<leftarrow> list_next m s; best_loop (Some l) better m e s } else Some (m, s) } =
    Some (Some (foldl (\<lambda>m e. if f m e then e else m) x xs), s)"
proof -
  have "x \<noteq> ltail l" using assms(1) by (auto simp: is_list_def nodes_ok_def)
  moreover have "list_next (Some x) s = Some (first_of xs (Some (ltail l)), s)"
    using nav_next_of [of "[lhead l]" x "xs @ [ltail l]" s] assms(1) by (simp add: is_list_def)
  ultimately show ?thesis
    using best_loop_spec [of l "[x]" xs s better f x] list_begin_spec [OF assms(1)] assms by simp
qed

lemma list_max_spec: "is_list l (x # xs) s \<Longrightarrow>
    list_max (Some l) lt s = Some (Some (foldl (\<lambda>m e. if lt m e then e else m) x xs), s)"
  unfolding list_max_def by (rule best_spec) (simp_all add: call_less_def)

lemma list_min_spec: "is_list l (x # xs) s \<Longrightarrow>
    list_min (Some l) lt s = Some (Some (foldl (\<lambda>m e. if lt e m then e else m) x xs), s)"
  unfolding list_min_def by (rule best_spec) (simp_all add: call_less_def)

end
