(* ===== verification/List_Props.thy ===== *)
theory List_Props
  imports List_Operations
begin

text \<open>
  Properties of the intrusive list: the sort is the stable sort, a program of list operations has the results it has on
  lists of addresses, and the list is a \<open>deque\<close>, as the list of assignment 3 that does not embed its links.
\<close>

section \<open>The list as a queue\<close>

lemma chain_unique:
  "chain p (xs @ [t]) None h \<Longrightarrow> chain p (ys @ [t]) None h \<Longrightarrow> distinct (xs @ [t]) \<Longrightarrow> distinct (ys @ [t]) \<Longrightarrow>
   first_of xs (Some t) = first_of ys (Some t) \<Longrightarrow> xs = ys"
proof (induction xs arbitrary: p ys)
  case Nil
  then show ?case by (cases ys) auto
next
  case (Cons x xs)
  show ?case
  proof (cases ys)
    case Nil
    then show ?thesis using Cons.prems by auto
  next
    case y: (Cons y ys')
    then have "x = y" using Cons.prems(5) by simp
    then have "chain (Some x) (xs @ [t]) None h" "chain (Some x) (ys' @ [t]) None h" "first_of xs (Some t) = first_of ys' (Some t)"
      using Cons.prems(1,2) y by auto
    then show ?thesis using Cons.IH [of "Some x" ys'] Cons.prems(3,4) y \<open>x = y\<close> by simp
  qed
qed

lemma is_list_unique: "is_list l xs s \<Longrightarrow> is_list l ys s \<Longrightarrow> xs = ys"
  using chain_unique [of "Some (lhead l)" xs "ltail l" "links s" ys] by (auto simp: is_list_def nodes_ok_def)

definition elems_of :: "elem_list \<Rightarrow> 'a elems_scheme \<Rightarrow> nat list" where
  "elems_of l s = (THE xs. is_list l xs s)"

lemma elems_of_list: "is_list l xs s \<Longrightarrow> elems_of l s = xs"
  unfolding elems_of_def by (rule the_equality) (auto dest: is_list_unique)

definition list_there :: "elem_list \<Rightarrow> 'a elems_scheme \<Rightarrow> bool" where
  "list_there l s \<longleftrightarrow> (\<exists>xs. is_list l xs s)"

definition may_enter :: "elem_list \<Rightarrow> 'a elems_scheme \<Rightarrow> nat \<Rightarrow> bool" where
  "may_enter l s e \<longleftrightarrow> outside l (elems_of l s) s e"

lemma may_enter_unchanged:
  assumes "unchanged l ys s h" and "may_enter l s e" and "is_list l ys (s\<lparr>links := h\<rparr>)" and "e \<notin> set ys"
  shows "may_enter l (s\<lparr>links := h\<rparr>) e"
  using assms by (auto simp: may_enter_def elems_of_list [OF assms(3)] outside_def unchanged_def)

interpretation il: deque "list_there l" "elems_of l" "may_enter l" "\<lambda>e. list_push_back (Some l) (Some e)"
  "list_pop_front (Some l) :: 'a elems_scheme \<Rightarrow> _" "\<lambda>e. list_push_front (Some l) (Some e)" for l
proof (unfold_locales, goal_cases)
  case (1 s n)
  then obtain xs where xs: "is_list l xs s" by (auto simp: list_there_def)
  then have "outside l xs s n" using 1(2) by (simp add: may_enter_def elems_of_list)
  from push_back_spec [OF xs this] obtain h where h: "list_push_back (Some l) (Some n) s = Some (s\<lparr>links := h\<rparr>)"
      "is_list l (xs @ [n]) (s\<lparr>links := h\<rparr>)" "unchanged l (xs @ [n]) s h" by blast
  have "may_enter l (s\<lparr>links := h\<rparr>) m" if "may_enter l s m \<and> m \<noteq> n" for m
    using may_enter_unchanged [OF h(3) _ h(2)] that by (auto simp: may_enter_def elems_of_list [OF xs] outside_def)
  then show ?case using h elems_of_list [OF xs] elems_of_list [OF h(2)] by (auto simp: list_there_def)
next
  case (2 s n ns)
  then obtain xs where xs: "is_list l xs s" by (auto simp: list_there_def)
  then have "is_list l (n # ns) s" using 2(2) elems_of_list by metis
  from pop_front_spec [OF this] obtain h where h: "list_pop_front (Some l) s = Some (Some n, s\<lparr>links := h\<rparr>)"
      "is_list l ns (s\<lparr>links := h\<rparr>)" "outside l ns (s\<lparr>links := h\<rparr>) n" by blast
  then show ?case using elems_of_list [OF h(2)] by (auto simp: list_there_def may_enter_def)
next
  case (3 s n)
  then obtain xs where xs: "is_list l xs s" by (auto simp: list_there_def)
  then have "outside l xs s n" using 3(2) by (simp add: may_enter_def elems_of_list)
  from push_front_spec [OF xs this] obtain h where h: "list_push_front (Some l) (Some n) s = Some (s\<lparr>links := h\<rparr>)"
      "is_list l (n # xs) (s\<lparr>links := h\<rparr>)" "unchanged l (n # xs) s h" by blast
  have "may_enter l (s\<lparr>links := h\<rparr>) m" if "may_enter l s m \<and> m \<noteq> n" for m
    using may_enter_unchanged [OF h(3) _ h(2)] that by (auto simp: may_enter_def elems_of_list [OF xs] outside_def)
  then show ?case using h elems_of_list [OF xs] elems_of_list [OF h(2)] by (auto simp: list_there_def)
qed

section \<open>Programs of list operations\<close>

datatype list_cmd = Push_front nat | Push_back nat | Insert_ordered nat | Remove nat | Pop_front | Pop_back
  | Sort | Reverse | Count | Largest | Smallest

fun exec_cmd :: "less_func \<Rightarrow> elem_list \<Rightarrow> list_cmd \<Rightarrow> 'a elems_scheme \<Rightarrow> (nat list \<times> 'a elems_scheme) option" where
  \<comment> \<open>the call, and the address or the number it returns\<close>
  "exec_cmd lt l (Push_front e) s = do { s \<leftarrow> list_push_front (Some l) (Some e) s; Some ([], s) }"
| "exec_cmd lt l (Push_back e) s = do { s \<leftarrow> list_push_back (Some l) (Some e) s; Some ([], s) }"
| "exec_cmd lt l (Insert_ordered e) s = do { s \<leftarrow> list_insert_ordered (Some l) (Some e) lt s; Some ([], s) }"
| "exec_cmd lt l (Remove e) s = do { (_, s) \<leftarrow> list_remove (Some e) s; Some ([], s) }"
| "exec_cmd lt l Pop_front s = do { (p, s) \<leftarrow> list_pop_front (Some l) s; x \<leftarrow> p; Some ([x], s) }"
| "exec_cmd lt l Pop_back s = do { (p, s) \<leftarrow> list_pop_back (Some l) s; x \<leftarrow> p; Some ([x], s) }"
| "exec_cmd lt l Sort s = do { s \<leftarrow> list_sort (Some l) lt s; Some ([], s) }"
| "exec_cmd lt l Reverse s = do { s \<leftarrow> list_reverse (Some l) s; Some ([], s) }"
| "exec_cmd lt l Count s = do { (n, s) \<leftarrow> list_size (Some l) s; Some ([n], s) }"
| "exec_cmd lt l Largest s = do { (p, s) \<leftarrow> list_max (Some l) lt s; x \<leftarrow> p; Some ([x], s) }"
| "exec_cmd lt l Smallest s = do { (p, s) \<leftarrow> list_min (Some l) lt s; x \<leftarrow> p; Some ([x], s) }"

fun exec_cmds :: "less_func \<Rightarrow> elem_list \<Rightarrow> list_cmd list \<Rightarrow> 'a elems_scheme \<Rightarrow> (nat list list \<times> 'a elems_scheme) option" where
  "exec_cmds lt l [] s = Some ([], s)"
| "exec_cmds lt l (c # cs) s = do { (x, s) \<leftarrow> exec_cmd lt l c s; (xs, s) \<leftarrow> exec_cmds lt l cs s; Some (x # xs, s) }"

fun abs_cmd :: "(nat \<Rightarrow> 'k :: linorder) \<Rightarrow> nat set \<Rightarrow> list_cmd \<Rightarrow> nat list \<Rightarrow> (nat list \<times> nat list) option" where
  \<comment> \<open>the same on the list of the elements, out of \<open>E\<close>; \<open>None\<close> where the caller breaks the contract\<close>
  "abs_cmd key E (Push_front e) xs = (if e \<in> E \<and> e \<notin> set xs then Some ([], e # xs) else None)"
| "abs_cmd key E (Push_back e) xs = (if e \<in> E \<and> e \<notin> set xs then Some ([], xs @ [e]) else None)"
| "abs_cmd key E (Insert_ordered e) xs =
     (if e \<in> E \<and> e \<notin> set xs \<and> sorted (map key xs) then Some ([], sort_key key (xs @ [e])) else None)"
| "abs_cmd key E (Remove e) xs = (if e \<in> set xs then Some ([], remove1 e xs) else None)"
| "abs_cmd key E Pop_front xs = (if xs \<noteq> [] then Some ([hd xs], tl xs) else None)"
| "abs_cmd key E Pop_back xs = (if xs \<noteq> [] then Some ([last xs], butlast xs) else None)"
| "abs_cmd key E Sort xs = Some ([], sort_key key xs)"
| "abs_cmd key E Reverse xs = Some ([], rev xs)"
| "abs_cmd key E Count xs = Some ([length xs], xs)"
| "abs_cmd key E Largest xs = (if xs \<noteq> [] then Some ([hd (filter (\<lambda>a. \<forall>b \<in> set xs. key b \<le> key a) xs)], xs) else None)"
| "abs_cmd key E Smallest xs = (if xs \<noteq> [] then Some ([hd (filter (\<lambda>a. \<forall>b \<in> set xs. key a \<le> key b) xs)], xs) else None)"

fun abs_cmds :: "(nat \<Rightarrow> 'k :: linorder) \<Rightarrow> nat set \<Rightarrow> list_cmd list \<Rightarrow> nat list \<Rightarrow> (nat list list \<times> nat list) option" where
  "abs_cmds key E [] xs = Some ([], xs)"
| "abs_cmds key E (c # cs) xs = do { (x, xs) \<leftarrow> abs_cmd key E c xs; (os, xs) \<leftarrow> abs_cmds key E cs xs; Some (x # os, xs) }"

lemma first_best:
  assumes trans: "\<And>a b c. R a b \<Longrightarrow> R b c \<Longrightarrow> R a c" and total: "\<And>a b. \<not> R a b \<Longrightarrow> R b a"
  shows "\<exists>m ms. filter (\<lambda>a. \<forall>b \<in> set (x # xs). R b a) (x # xs) = m # ms \<and> foldl (\<lambda>m e. if \<not> R e m then e else m) x xs = m"
proof (induction xs rule: rev_induct)
  case Nil
  show ?case using total by auto
next
  case (snoc y xs)
  then obtain m ms where m: "filter (\<lambda>a. \<forall>b \<in> set (x # xs). R b a) (x # xs) = m # ms"
    "foldl (\<lambda>m e. if \<not> R e m then e else m) x xs = m" by blast
  have "m \<in> set (filter (\<lambda>a. \<forall>b \<in> set (x # xs). R b a) (x # xs))" by (simp only: m(1) list.set_intros)
  then have best: "\<forall>b \<in> set (x # xs). R b m" and mem: "m \<in> set (x # xs)" unfolding set_filter by blast+
  show ?case
  proof (cases "R y m")
    case True
    have "filter (\<lambda>a. \<forall>b \<in> set (x # xs @ [y]). R b a) (x # xs) = filter (\<lambda>a. \<forall>b \<in> set (x # xs). R b a) (x # xs)"
    proof (rule filter_cong)
      fix a assume "a \<in> set (x # xs)"
      have "R y a" if "\<forall>b \<in> set (x # xs). R b a" by (rule trans [OF True]) (use that mem in blast)
      then show "(\<forall>b \<in> set (x # xs @ [y]). R b a) = (\<forall>b \<in> set (x # xs). R b a)" by auto
    qed simp
    then have "filter (\<lambda>a. \<forall>b \<in> set (x # xs @ [y]). R b a) ((x # xs) @ [y]) =
        m # ms @ filter (\<lambda>a. \<forall>b \<in> set (x # xs @ [y]). R b a) [y]" by (subst filter_append) (simp only: m(1) append_Cons)
    then show ?thesis using m(2) True by simp
  next
    case False
    have "\<not> R y a" if "a \<in> set (x # xs)" for a
    proof
      assume "R y a"
      then have "R y m" by (rule trans) (use best that in blast)
      then show False using False by contradiction
    qed
    then have "filter (\<lambda>a. \<forall>b \<in> set (x # xs @ [y]). R b a) (x # xs) = []" by (auto simp: filter_empty_conv)
    moreover have "R b y" if "b \<in> set (x # xs @ [y])" for b
    proof (cases "b = y")
      case True
      then show ?thesis using total by blast
    next
      case b: False
      then have "R b m" using best that by auto
      then show ?thesis by (rule trans) (rule total [OF False])
    qed
    then have "filter (\<lambda>a. \<forall>b \<in> set (x # xs @ [y]). R b a) [y] = [y]" by simp
    ultimately have "filter (\<lambda>a. \<forall>b \<in> set (x # xs @ [y]). R b a) ((x # xs) @ [y]) = [y]" by (subst filter_append) simp
    then show ?thesis using m(2) False by simp
  qed
qed

lemma largest_spec:
  "is_list l xs s \<Longrightarrow> xs \<noteq> [] \<Longrightarrow>
   list_max (Some l) (key_less key) s = Some (Some (hd (filter (\<lambda>a. \<forall>b \<in> set xs. key b \<le> key a) xs)), s)"
proof (cases xs)
  case (Cons x ys)
  assume l: "is_list l xs s"
  have lt: "(\<lambda>m e. if key_less key m e then e else m) = (\<lambda>m e. if \<not> key e \<le> key m then e else m)"
    by (auto simp: key_less_def not_le fun_eq_iff)
  from first_best [of "\<lambda>a b. key a \<le> key b" x ys] obtain m ms where
    "filter (\<lambda>a. \<forall>b \<in> set (x # ys). key b \<le> key a) (x # ys) = m # ms" "foldl (\<lambda>m e. if \<not> key e \<le> key m then e else m) x ys = m"
    by (metis (no_types) linear order_trans)
  then show ?thesis using list_max_spec [OF l [unfolded Cons], of "key_less key"] unfolding lt Cons by (simp only: list.sel)
qed simp

lemma smallest_spec:
  "is_list l xs s \<Longrightarrow> xs \<noteq> [] \<Longrightarrow>
   list_min (Some l) (key_less key) s = Some (Some (hd (filter (\<lambda>a. \<forall>b \<in> set xs. key a \<le> key b) xs)), s)"
proof (cases xs)
  case (Cons x ys)
  assume l: "is_list l xs s"
  have lt: "(\<lambda>m e. if key_less key e m then e else m) = (\<lambda>m e. if \<not> key m \<le> key e then e else m)"
    by (auto simp: key_less_def not_le fun_eq_iff)
  from first_best [of "\<lambda>a b. key b \<le> key a" x ys] obtain m ms where
    "filter (\<lambda>a. \<forall>b \<in> set (x # ys). key a \<le> key b) (x # ys) = m # ms" "foldl (\<lambda>m e. if \<not> key m \<le> key e then e else m) x ys = m"
    by (metis (no_types) linear order_trans)
  then show ?thesis using list_min_spec [OF l [unfolded Cons], of "key_less key"] unfolding lt Cons by (simp only: list.sel)
qed simp

lemma list_sort_spec:
  assumes "is_list l xs s"
  shows "\<exists>h. list_sort (Some l) (key_less key) s = Some (s\<lparr>links := h\<rparr>) \<and> is_list l (sort_key key xs) (s\<lparr>links := h\<rparr>) \<and>
    unchanged l (sort_key key xs) s h"
proof -
  from sort_loop_spec [OF assms, of key] obtain h where h: "sort_loop (Some l) (key_less key) s = Some (s\<lparr>links := h\<rparr>)"
      "is_list l (sort_key key xs) (s\<lparr>links := h\<rparr>)" "\<forall>x. x \<notin> set (lhead l # xs @ [ltail l]) \<longrightarrow> h x = links s x" by blast
  have "nodes_ok ([lhead l] @ sort_key key xs @ ltail l # []) (s\<lparr>links := h\<rparr>)" using h(2) by (simp add: is_list_def)
  from is_sorted_spec [OF this, of "key_less key"]
  have "is_sorted (first_of (sort_key key xs) (Some (ltail l))) (Some (ltail l)) (key_less key) (s\<lparr>links := h\<rparr>) = Some (True, s\<lparr>links := h\<rparr>)"
    by (simp add: steps_sorted)
  then have "list_sort (Some l) (key_less key) s = Some (s\<lparr>links := h\<rparr>)"
    using h(1) list_begin_spec [OF h(2)] by (simp add: list_sort_def)
  then show ?thesis using h(2,3) by (auto simp: unchanged_def)
qed

lemma same_links: "unchanged l xs s (links s)"
  by (simp add: unchanged_def)

lemma exec_cmd_refines:
  assumes "is_list l xs s" and "set xs \<subseteq> E" and "\<forall>e \<in> E. links s e \<noteq> None \<and> e \<noteq> lhead l \<and> e \<noteq> ltail l"
    and "abs_cmd key E c xs = Some (r, ys)"
  shows "\<exists>h. exec_cmd (key_less key) l c s = Some (r, s\<lparr>links := h\<rparr>) \<and> is_list l ys (s\<lparr>links := h\<rparr>) \<and> unchanged l ys s h"
proof (cases c)
  case (Push_front e)
  then have "outside l xs s e" using assms by (auto simp: outside_def split: if_splits)
  from push_front_spec [OF assms(1) this] show ?thesis using Push_front assms(4) by (auto split: if_splits)
next
  case (Push_back e)
  then have "outside l xs s e" using assms by (auto simp: outside_def split: if_splits)
  from push_back_spec [OF assms(1) this] show ?thesis using Push_back assms(4) by (auto split: if_splits)
next
  case (Insert_ordered e)
  then have o: "outside l xs s e" and e: "sorted (map key xs)" "r = []" "ys = sort_key key (xs @ [e])"
    using assms by (auto simp: outside_def split: if_splits)
  from insert_ordered_spec [OF assms(1) o, of "key_less key", unfolded insert_ordered_sort_key [OF e(1)]] show ?thesis
    using Insert_ordered e(2,3) by (auto simp: unchanged_def)
next
  case (Remove e)
  then have e: "e \<in> set xs" "r = []" "ys = remove1 e xs" using assms(4) by (auto split: if_splits)
  then obtain as bs where "xs = as @ e # bs" "e \<notin> set as" by (auto dest: split_list_first)
  then show ?thesis using remove_at [of l as e bs s] assms(1) e Remove by (auto simp: remove1_append)
next
  case Pop_front
  then obtain x where "xs = x # ys" "r = [x]" using assms(4) by (cases xs) (auto split: if_splits)
  then show ?thesis using pop_front_spec [of l x ys s] assms(1) Pop_front by auto
next
  case Pop_back
  then obtain x where "xs = ys @ [x]" "r = [x]" using assms(4) by (cases xs rule: rev_cases) (auto split: if_splits)
  then show ?thesis using pop_back_spec [of l ys x s] assms(1) Pop_back by auto
next
  case Sort
  then show ?thesis using list_sort_spec [OF assms(1), of key] assms(4) by auto
next
  case Reverse
  then show ?thesis using list_reverse_spec [OF assms(1)] assms(4) by (auto simp: unchanged_def)
next
  case Count
  then show ?thesis using list_size_spec [OF assms(1)] assms(1,4) same_links by (intro exI [of _ "links s"]) auto
next
  case Largest
  then show ?thesis using largest_spec [OF assms(1), of key] assms(1,4) same_links by (intro exI [of _ "links s"]) (auto split: if_splits)
next
  case Smallest
  then show ?thesis using smallest_spec [OF assms(1), of key] assms(1,4) same_links by (intro exI [of _ "links s"]) (auto split: if_splits)
qed

lemma abs_cmd_set: "set xs \<subseteq> E \<Longrightarrow> abs_cmd key E c xs = Some (r, ys) \<Longrightarrow> set ys \<subseteq> E"
  by (cases c) (auto split: if_splits dest: notin_set_remove1 in_set_butlastD list.set_sel(2))

lemma list_exists: "is_list l xs s \<Longrightarrow> x \<in> set (lhead l # xs @ [ltail l]) \<Longrightarrow> links s x \<noteq> None"
proof -
  have "chain p ns n h \<Longrightarrow> x \<in> set ns \<Longrightarrow> h x \<noteq> None" for p ns n h by (induction ns arbitrary: p) auto
  then show "is_list l xs s \<Longrightarrow> x \<in> set (lhead l # xs @ [ltail l]) \<Longrightarrow> links s x \<noteq> None"
    unfolding is_list_def nodes_ok_def by blast
qed

lemma still_exists:
  assumes "is_list l ys (s\<lparr>links := h\<rparr>)" and "unchanged l ys s h" and "links s e \<noteq> None"
  shows "h e \<noteq> None"
  using list_exists [OF assms(1), of e] assms(2,3) unfolding unchanged_def by (cases "e \<in> set (lhead l # ys @ [ltail l])") auto

lemma exec_cmds_refine:
  assumes "is_list l xs s" and "set xs \<subseteq> E" and "\<forall>e \<in> E. links s e \<noteq> None \<and> e \<noteq> lhead l \<and> e \<noteq> ltail l"
    and "abs_cmds key E cs xs = Some (outs, ys)"
  shows "\<exists>h. exec_cmds (key_less key) l cs s = Some (outs, s\<lparr>links := h\<rparr>) \<and> is_list l ys (s\<lparr>links := h\<rparr>) \<and>
    (\<forall>x. x \<notin> E \<union> {lhead l, ltail l} \<longrightarrow> h x = links s x)"
  using assms
proof (induction cs arbitrary: xs s outs)
  case Nil
  then show ?case by (auto intro!: exI [of _ "links s"])
next
  case (Cons c cs)
  then obtain r zs outs' where step: "abs_cmd key E c xs = Some (r, zs)" and rest: "abs_cmds key E cs zs = Some (outs', ys)"
    and o: "outs = r # outs'" by (auto split: bind_splits)
  from exec_cmd_refines [OF Cons.prems(1-3) step] obtain h where h: "exec_cmd (key_less key) l c s = Some (r, s\<lparr>links := h\<rparr>)"
      "is_list l zs (s\<lparr>links := h\<rparr>)" "unchanged l zs s h" by blast
  have zs: "set zs \<subseteq> E" by (rule abs_cmd_set [OF Cons.prems(2) step])
  have "\<forall>e \<in> E. links (s\<lparr>links := h\<rparr>) e \<noteq> None \<and> e \<noteq> lhead l \<and> e \<noteq> ltail l"
    using still_exists [OF h(2,3)] Cons.prems(3) by auto
  from Cons.IH [OF h(2) zs this rest] obtain h' where h': "exec_cmds (key_less key) l cs (s\<lparr>links := h\<rparr>) = Some (outs', s\<lparr>links := h'\<rparr>)"
      "is_list l ys (s\<lparr>links := h'\<rparr>)" "\<forall>x. x \<notin> E \<union> {lhead l, ltail l} \<longrightarrow> h' x = h x" by auto
  have "h x = links s x" if "x \<notin> E \<union> {lhead l, ltail l}" for x using h(3) zs that by (auto simp: unchanged_def)
  then show ?case using h(1) h' o by (intro exI [of _ h']) simp
qed

section \<open>Duplicates of a sorted list\<close>

lemma uniques_sorted:
  assumes "sorted (map key (x # vs))" and "distinct (x # vs)" and "uniques (key_less key) x vs = (r, d)"
  shows "(\<exists>r'. r = x # r') \<and> sorted_wrt (<) (map key r) \<and> key ` set r = key ` set (x # vs) \<and>
    (\<forall>y \<in> set r. hd (filter (\<lambda>e. key e = key y) (x # vs)) = y) \<and> d = filter (\<lambda>e. e \<notin> set r) (x # vs) \<and> set r \<subseteq> set (x # vs)"
  using assms
proof (induction vs arbitrary: x r d)
  case (Cons v vs)
  show ?case
  proof (cases "key x = key v")
    case True
    obtain r0 d0 where u: "uniques (key_less key) x vs = (r0, d0)" by fastforce
    moreover have "\<not> key_less key x v" "\<not> key_less key v x" using True by (simp_all add: key_less_def)
    ultimately have rd: "r = r0" "d = v # d0" using Cons.prems(3) by simp_all
    have IH: "\<exists>r'. r = x # r'" "sorted_wrt (<) (map key r)" "key ` set r = key ` set (x # vs)"
        "\<forall>y \<in> set r. hd (filter (\<lambda>e. key e = key y) (x # vs)) = y" "d0 = filter (\<lambda>e. e \<notin> set r) (x # vs)" "set r \<subseteq> set (x # vs)"
      using Cons.IH [OF _ _ u] Cons.prems(1,2) rd(1) True by auto
    have "v \<notin> set r" "x \<in> set r" using Cons.prems(2) IH(1,6) by auto
    moreover have "hd (filter (\<lambda>e. key e = key y) (x # v # vs)) = y" if "y \<in> set r" for y
      using IH(4) that True by fastforce
    ultimately show ?thesis using IH rd True by auto
  next
    case False
    obtain r0 d0 where u: "uniques (key_less key) v vs = (r0, d0)" by fastforce
    have lt: "key x < key v" using False Cons.prems(1) by auto
    then have "key_less key x v" by (simp add: key_less_def)
    then have rd: "r = x # r0" "d = d0" using Cons.prems(3) u by auto
    have IH: "sorted_wrt (<) (map key r0)" "key ` set r0 = key ` set (v # vs)"
        "\<forall>y \<in> set r0. hd (filter (\<lambda>e. key e = key y) (v # vs)) = y" "d0 = filter (\<lambda>e. e \<notin> set r0) (v # vs)" "set r0 \<subseteq> set (v # vs)"
      using Cons.IH [OF _ _ u] Cons.prems(1,2) by simp_all
    have more: "key x < key e" if "e \<in> set (v # vs)" for e using lt Cons.prems(1) that by (auto intro: less_le_trans)
    then have "hd (filter (\<lambda>e. key e = key y) (x # v # vs)) = y" if "y \<in> set r0" for y
      using IH(3,5) that by (metis (mono_tags, lifting) filter.simps(2) less_irrefl subsetD)
    moreover have "sorted_wrt (<) (map key r)" using IH(1,5) more rd(1) by auto
    moreover have "d = filter (\<lambda>e. e \<notin> set r) (x # v # vs)"
      using IH(4) rd Cons.prems(2) by (auto intro: filter_cong)
    ultimately show ?thesis using IH(2,5) rd(1) by auto
  qed
qed (auto simp: key_less_def)

definition first_with :: "(nat \<Rightarrow> 'k) \<Rightarrow> nat list \<Rightarrow> 'k \<Rightarrow> nat" where
  "first_with key xs k = hd (filter (\<lambda>e. key e = k) xs)"

lemma uniques_first:
  assumes "sorted (map key (x # vs))" and "distinct (x # vs)"
  shows "uniques (key_less key) x vs =
    (let ys = map (first_with key (x # vs)) (sorted_list_of_set (key ` set (x # vs))) in (ys, filter (\<lambda>e. e \<notin> set ys) (x # vs)))"
proof -
  obtain r d where u: "uniques (key_less key) x vs = (r, d)" by fastforce
  note f = uniques_sorted [OF assms u]
  have "sorted (map key r)" "distinct (map key r)" "set (map key r) = key ` set (x # vs)"
    using f by (simp_all add: strict_sorted_iff)
  then have k: "map key r = sorted_list_of_set (key ` set (x # vs))"
    by (metis List.finite_set finite_imageI sorted_list_of_set_unique strict_sorted_iff length_remdups_card_conv distinct_card)
  have "r = map (first_with key (x # vs)) (map key r)" unfolding map_map
    by (rule map_idI [symmetric]) (use f in \<open>simp add: first_with_def\<close>)
  then show ?thesis using u f unfolding k Let_def by simp
qed

lemma list_unique_spec:
  assumes "is_list l xs s" and "is_list d ds s" and "apart l xs d ds" and "sorted (map key xs)"
    and "ys = map (first_with key xs) (sorted_list_of_set (key ` set xs))"
  shows "\<exists>h. list_unique (Some l) (Some d) (key_less key) s = Some (s\<lparr>links := h\<rparr>) \<and>
    is_list l ys (s\<lparr>links := h\<rparr>) \<and> is_list d (ds @ filter (\<lambda>e. e \<notin> set ys) xs) (s\<lparr>links := h\<rparr>)"
proof (cases xs)
  case Nil
  then show ?thesis using assms list_empty_spec [OF assms(1)] by (intro exI [of _ "links s"]) (auto simp: list_unique_def)
next
  case (Cons x vs)
  have "distinct (x # vs)" using assms(1) Cons by (simp add: is_list_def nodes_ok_def)
  then have u: "uniques (key_less key) x vs = (ys, filter (\<lambda>e. e \<notin> set ys) xs)"
    using uniques_first [of key x vs] assms(4) unfolding assms(5) Cons by (simp only: Let_def)
  show ?thesis using unique_loop_spec [of l "[]" x vs s d ds "key_less key"] assms(1-3) u Cons
      list_empty_spec [OF assms(1)] list_begin_spec [OF assms(1)]
    by (auto simp: list_unique_def)
qed

section \<open>Properties\<close>

definition demo_list :: elem_list where
  "demo_list = \<lparr>lhead = 1, ltail = 2\<rparr>"

definition demo_elems :: elems where
  \<comment> \<open>10, 20 and 30 in the list, 40 in none, and an empty list of headers 3 and 4\<close>
  "demo_elems = \<lparr>console = [], links = [
     1 \<mapsto> \<lparr>le_prev = None, le_next = Some 10\<rparr>, 10 \<mapsto> \<lparr>le_prev = Some 1, le_next = Some 20\<rparr>,
     20 \<mapsto> \<lparr>le_prev = Some 10, le_next = Some 30\<rparr>, 30 \<mapsto> \<lparr>le_prev = Some 20, le_next = Some 2\<rparr>,
     2 \<mapsto> \<lparr>le_prev = Some 30, le_next = None\<rparr>, 40 \<mapsto> \<lparr>le_prev = None, le_next = None\<rparr>,
     3 \<mapsto> \<lparr>le_prev = None, le_next = Some 4\<rparr>, 4 \<mapsto> \<lparr>le_prev = Some 3, le_next = None\<rparr>]\<rparr>"

lemma demo_is_list: "is_list demo_list [10, 20, 30] demo_elems" "is_list \<lparr>lhead = 3, ltail = 4\<rparr> [] demo_elems"
  by (simp_all add: is_list_def nodes_ok_def demo_list_def demo_elems_def)

text \<open>
  C9: \<open>list_sort\<close> on a well-formed list returns, its assertions hold (nothing is printed), and it has relinked the
  elements into the stable sort of the list by the key that \<open>less\<close> compares; no link outside the list and its
  headers is written. \<close>

theorem list_sort_stable:
  assumes "is_list l xs s"
  shows "\<exists>h. list_sort (Some l) (key_less key) s = Some (s\<lparr>links := h\<rparr>) \<and> is_list l (sort_key key xs) (s\<lparr>links := h\<rparr>) \<and>
    unchanged l (sort_key key xs) s h"
  by (rule list_sort_spec [OF assms])

theorem list_sort_stable_witness:
  "\<exists>h. list_sort (Some demo_list) (key_less (\<lambda>a. a mod 20)) demo_elems = Some (demo_elems\<lparr>links := h\<rparr>) \<and>
    is_list demo_list [20, 10, 30] (demo_elems\<lparr>links := h\<rparr>)"
  using list_sort_stable [OF demo_is_list(1), of "\<lambda>a. a mod 20"] by auto

text \<open>
  C10: Run from a well-formed list, any program of list operations (insertion at either end or in order, removal of an
  element, of the first or of the last, sort, reversal, size, largest and smallest element) whose abstract run on lists
  of addresses keeps to the contract does not fail, returns what the abstract run returns and ends in a well-formed
  list of the abstract result; it writes no link but those of the elements and the headers of the list. \<close>

theorem list_program_refines:
  assumes "is_list l xs s" and "set xs \<subseteq> E" and "\<forall>e \<in> E. links s e \<noteq> None \<and> e \<noteq> lhead l \<and> e \<noteq> ltail l"
    and "abs_cmds key E cs xs = Some (outs, ys)"
  shows "\<exists>h. exec_cmds (key_less key) l cs s = Some (outs, s\<lparr>links := h\<rparr>) \<and> is_list l ys (s\<lparr>links := h\<rparr>) \<and>
    (\<forall>x. x \<notin> E \<union> {lhead l, ltail l} \<longrightarrow> h x = links s x)"
  by (rule exec_cmds_refine [OF assms])

theorem list_program_refines_witness:
  "\<exists>h. exec_cmds (key_less (\<lambda>a. a mod 20)) demo_list
      [Largest, Pop_front, Sort, Insert_ordered 40, Remove 30, Push_front 10, Reverse, Smallest, Pop_back, Count] demo_elems =
        Some ([[10], [10], [], [], [], [], [], [40], [10], [2]], demo_elems\<lparr>links := h\<rparr>) \<and>
    is_list demo_list [40, 20] (demo_elems\<lparr>links := h\<rparr>)"
proof -
  have exist: "\<forall>e \<in> {10, 20, 30, 40}. links demo_elems e \<noteq> None \<and> e \<noteq> lhead demo_list \<and> e \<noteq> ltail demo_list"
    by (simp add: demo_elems_def demo_list_def)
  have run: "abs_cmds (\<lambda>a. a mod 20) {10, 20, 30, 40}
      [Largest, Pop_front, Sort, Insert_ordered 40, Remove 30, Push_front 10, Reverse, Smallest, Pop_back, Count] [10, 20, 30] =
    Some ([[10], [10], [], [], [], [], [], [40], [10], [2]], [40, 20])" by simp
  show ?thesis using list_program_refines [OF demo_is_list(1) _ exist run] by auto
qed

text \<open>
  C22: \<open>list_sort\<close> and then \<open>list_unique\<close> with a second list for the duplicates: the list holds, in the order of the
  keys, the first element of each key it had, and every other element goes to the end of the second list, sorted
  and in the order it had among those of its key. \<close>

theorem list_sort_then_unique:
  assumes "is_list l xs s" and "is_list d ds s" and "apart l xs d ds"
    and "ys = map (first_with key xs) (sorted_list_of_set (key ` set xs))"
  shows "\<exists>h. do { s \<leftarrow> list_sort (Some l) (key_less key) s; list_unique (Some l) (Some d) (key_less key) s } = Some (s\<lparr>links := h\<rparr>) \<and>
    is_list l ys (s\<lparr>links := h\<rparr>) \<and> is_list d (ds @ filter (\<lambda>e. e \<notin> set ys) (sort_key key xs)) (s\<lparr>links := h\<rparr>)"
proof -
  from list_sort_spec [OF assms(1), of key] obtain h where h: "list_sort (Some l) (key_less key) s = Some (s\<lparr>links := h\<rparr>)"
    "is_list l (sort_key key xs) (s\<lparr>links := h\<rparr>)" "unchanged l (sort_key key xs) s h" by blast
  have ap: "apart l (sort_key key xs) d ds" using assms(3) by (simp add: apart_def)
  have d: "is_list d ds (s\<lparr>links := h\<rparr>)" by (rule is_list_frame [OF assms(2) unchanged_apart(1) [OF h(3) ap]])
  have "first_with key (sort_key key xs) = first_with key xs"
    by (rule ext) (simp add: first_with_def sort_key_stable)
  then have ys: "ys = map (first_with key (sort_key key xs)) (sorted_list_of_set (key ` set (sort_key key xs)))"
    using assms(4) by simp
  have "sorted (map key (sort_key key xs))" by simp
  from list_unique_spec [OF h(2) d ap this ys] show ?thesis using h(1) by auto
qed

theorem list_sort_then_unique_witness:
  "\<exists>h. do { s \<leftarrow> list_sort (Some demo_list) (key_less (\<lambda>a. a mod 20)) demo_elems;
            list_unique (Some demo_list) (Some \<lparr>lhead = 3, ltail = 4\<rparr>) (key_less (\<lambda>a. a mod 20)) s } = Some (demo_elems\<lparr>links := h\<rparr>) \<and>
    is_list demo_list [20, 10] (demo_elems\<lparr>links := h\<rparr>) \<and> is_list \<lparr>lhead = 3, ltail = 4\<rparr> [30] (demo_elems\<lparr>links := h\<rparr>)"
proof -
  have ys: "[20, 10] = map (first_with (\<lambda>a. a mod 20) [10, 20, 30]) (sorted_list_of_set ((\<lambda>a. a mod 20) ` set [10, 20, 30 :: nat]))"
    unfolding image_set sorted_list_of_set_sort_remdups by (simp add: first_with_def)
  have ap: "apart demo_list [10, 20, 30] \<lparr>lhead = 3, ltail = 4\<rparr> []" by (simp add: apart_def demo_list_def)
  show ?thesis using list_sort_then_unique [OF demo_is_list ap ys] by simp
qed

end
