(* ===== verification/Spec2Isabelle.thy ===== *)
theory Spec2Isabelle
  imports Storage_Props A1_Props A2_Runs A3_Props A3_System Fs_Props File_Map List_Props
begin

text \<open>
  A verification library for the three assignments of an operating systems course: \<open>a1\<close>, a shell; \<open>a2\<close>, the shell
  with a kernel that schedules scripts and pages them through a frame store; \<open>a3\<close>, a shell with a demand-paging
  kernel and, under \<open>a3/fs\<close>, a file system with a buffer cache on a disk kept in a file of the host.

  \<^bold>\<open>How the parts interact.\<close>
  The read loop of each shell (\<open>shell.c\<close>) splits a line into words and calls \<open>interpreter\<close>, whose commands change
  the variables in \<open>shellmemory.c\<close>, call the host, or run scripts. In \<open>a1\<close> a script is a recursive call of
  \<open>parseInput\<close> for each line. In \<open>a2\<close> and \<open>a3\<close> the command \<open>run\<close> or \<open>exec\<close> creates a process per script, loads its
  first pages into frames and starts a scheduler of \<open>kernel.c\<close>, which calls \<open>parseInput\<close> for the lines of the process
  in turn; a line whose page is not in a frame is a page fault, which loads the page and may evict another. The
  commands of the file system in \<open>a3\<close> go through the table of open files to inodes, from there to sectors in the
  buffer cache, and on to the disk. Growing a file allocates from the free map, which is itself saved in a file.

  \<^bold>\<open>Conventions\<close> (\<open>Prelude\<close>, \<open>Outcome\<close>).
  State is a record passed and returned; the records extend each other in the order of the layers, from the console
  (\<open>world\<close>) over devices and cache to inodes, files and directories. Pointers are indices into heaps, a freed object
  is \<open>None\<close>. A function of the storage layers and the lists returns an \<open>option\<close>, \<open>None\<close> for what the C standard leaves
  undefined; a loop over links or sectors that may not end is a \<open>partial_function (option)\<close>, and not returning is
  \<open>None\<close> as well. A function of the shells and kernels returns an \<open>outcome\<close>: a value, an exit, undefined, or
  unfinished: more steps than the fuel allows, or no end. A failed assertion prints and goes on, as \<open>debug_panic\<close> does, so a theorem that
  leaves \<open>console\<close> unchanged shows that the assertions hold. Offsets of files are integers and undefined outside 32
  bits; sectors, bitmap elements and byte images are words.

  \<^bold>\<open>Which theory models which code.\<close>
  \<^item> \<open>Bitmap\<close>: \<open>a3/fs/bitmap.c\<close>, refined to lists of bits. \<open>Bit_Vector\<close> is the interface an allocator needs.
  \<^item> \<open>Devices\<close>: \<open>block.c\<close>, \<open>ide.c\<close>, \<open>partition.c\<close>; \<open>Cache\<close>: \<open>cache.c\<close>, refined to an array of sectors. Both are
    instances of the interface \<open>Sector_Store\<close>.
  \<^item> \<open>Inodes\<close>: \<open>inode.c\<close> and its images on disk; \<open>Files\<close>: \<open>file.c\<close>, \<open>free-map.c\<close>, the file operations of the
    bitmap, and the part of \<open>inode.c\<close> that allocates and releases; \<open>Directories\<close>: \<open>directory.c\<close>, \<open>filesys.c\<close>;
    \<open>Fs_Utils\<close>: \<open>fsutil.c\<close>; \<open>Fs_Recovery\<close>: \<open>fsutil2.c\<close>; \<open>Hex_Dump\<close>: \<open>hex_dump\<close> of \<open>debug.c\<close>.
  \<^item> \<open>Intrusive_List\<close>: \<open>a3/fs/list.c\<close>; \<open>List_Refinement\<close>, \<open>List_Sorting\<close> and \<open>List_Operations\<close> refine it to lists of
    addresses. The list of open inodes and the table of open files are such lists.
  \<^item> \<open>Var_Memory\<close>: the variables all three shells keep, with the interface \<open>var_store\<close>; \<open>A1_Shell\<close>: all of \<open>a1\<close>.
  \<^item> \<open>Ready_Queue\<close>, \<open>A2_Memory\<close>, \<open>A2_Kernel\<close>, \<open>A2_Shell\<close>: \<open>a2/ready_queue.c\<close> and \<open>pcb.c\<close>, \<open>shellmemory.c\<close>, \<open>kernel.c\<close>,
    \<open>interpreter.c\<close> and \<open>shell.c\<close>. \<open>Streams\<close>: the C streams the kernels read scripts from.
  \<^item> \<open>Linked_List\<close>, \<open>A3_Process\<close>, \<open>A3_Kernel\<close>, \<open>A3_Shell\<close>: \<open>a3/linked_list.c\<close>, \<open>shellmemory.c\<close> and \<open>pcb.c\<close>,
    \<open>kernel.c\<close> and \<open>cpu.c\<close>, \<open>interpreter.c\<close> and \<open>shell.c\<close>. \<open>A3_System\<close> puts the file system under the shell.
  \<^item> \<open>Fifo\<close>: the interface of queues the schedulers use; the ready queue of \<open>a2\<close>, the linked list of \<open>a3\<close> and the
    intrusive list are instances of \<open>deque\<close>.

  \<^bold>\<open>What the lemmas show.\<close>
  \<^item> \<open>Storage_Props\<close>: allocation in bitmaps, the cache as a faithful copy of the disk, and where the disk layers break.
  \<^item> \<open>File_Content\<close>, \<open>Fs_Props\<close>: the content of a well-formed file, of any size the block tables allow, as a byte
    array that reads and writes act on; two openers of one inode.
  \<^item> \<open>Free_Map\<close>, \<open>File_Growth\<close>, \<open>File_Append\<close>, \<open>File_Removal\<close>: allocation in a mounted file system, growth and removal
    of files that need no block tables, with the frame of every other sector.
  \<^item> \<open>Inode_Invariants\<close>: a calculus of what the functions of \<open>inode.c\<close> can do, with an interface for invariants of
    them; its instances are the types of inodes (\<open>Inode_Types\<close>) and the bound on nested allocations (\<open>Map_Nesting\<close>).
  \<^item> \<open>Dir_Names\<close>, \<open>Dir_Props\<close>: an open directory as a map from names to sectors, under additions and searches.
  \<^item> \<open>File_Creation\<close>, \<open>File_Deletion\<close>, \<open>File_Refusals\<close>: \<open>filesys_create\<close>, \<open>filesys_open\<close> and \<open>filesys_remove\<close> on the root
    directory, with the sectors they take and give back, and their refusals.
  \<^item> \<open>File_Sessions\<close>, \<open>File_Store\<close>, \<open>File_Commands\<close>: a file opened by name, used and closed; the state between
    commands, in which no two files share a sector, and each command of \<open>fsutil.c\<close> on it. \<open>File_Map\<close> puts them together:
    through the interface \<open>answers_as\<close>, the file system is a map from names to contents with a known room.
  \<^item> \<open>Path_Buffers\<close>: which paths fit the buffers they are split into.
  \<^item> \<open>List_Props\<close>: the merge sort is the stable sort and ends; programs of list operations act as on lists.
  \<^item> \<open>A1_Props\<close>, \<open>A2_Props\<close>, \<open>A3_Props\<close>: commands, scripts, paging and scheduling. \<open>A3_Lists\<close>, \<open>A3_Rounds\<close>,
    \<open>A3_Round_Robin\<close> and \<open>A3_Exec\<close> carry the simulation of the kernel of \<open>a3\<close> by a round robin without frames.
  \<^item> \<open>A2_Turns\<close>, \<open>A2_Schedule\<close>, \<open>A2_Scripts\<close>, \<open>A2_Runs\<close>: the kernel of \<open>a2\<close> against \<open>turn_order\<close>, in which a process is its
    lines, the next of them and the number of its loaded pages: one turn, the schedulers, the creation of processes,
    then \<open>exec\<close> and \<open>run\<close> as a whole. No frame is evicted there: the pages of the scripts fit in the free frames. A page
    fault does more than load a page, it moves the next process back (\<open>fault_overtakes\<close> is an example).

  \<^bold>\<open>Bounds and fuel.\<close>
  Calls of \<open>parseInput\<close> nested through scripts, the read loops and the rounds of the schedulers take fuel; once a call
  of the \<open>a1\<close> shell ends, more fuel changes nothing (\<open>a1_more_fuel\<close>). The splitter of command lines in \<open>a2\<close>, \<open>split_loop\<close>, and the
  scan of partition tables can run for ever: they are partial functions, \<open>None\<close> where they do, and \<open>split_line\<close> turns
  the \<open>None\<close> of the splitter into \<open>Unfinished\<close>. The theorems on \<open>run\<close> and \<open>exec\<close> in \<open>a2\<close>
  and \<open>a3\<close> name a number of rounds that is enough for the lines of the scripts; in \<open>a2\<close> a script has fewer than 60
  lines, the 20 pages of a page table. Allocations nest at most as often as the free map has bits, which is the bound \<open>free_map_allocate\<close> starts with; a property in \<open>Map_Nesting\<close> shows that the number of
  free bits is already enough. Loops in the storage layers have their bounds from the code.

  \<^bold>\<open>Parameters.\<close>
  The calls of the operating system that the shells make are the record \<open>host_ops\<close>; the files of the host, as the
  file system sees them, are a map. The scheduler of a kernel takes \<open>parseInput\<close> as an argument, which the shell
  theory passes; the comparison function of a sorted list reads the structures around the elements only. Memory that
  the code uses before it is set is an argument. Memory allocation succeeds.

  \<^bold>\<open>Not modelled.\<close>
  \<open>bitmap_destroy\<close>, which only frees memory; \<open>match\<close> and \<open>extract\<close> in the shell memories of \<open>a2\<close> and \<open>a3\<close>, copies of
  those of \<open>a1\<close> that nothing calls; the text written to \<open>stderr\<close>; schedulers and victim strategies that the source
  has only in comments; the declarations of the header files, which carry no behaviour; makefiles and disk images.
\<close>

end
